(* ===== verification/Prelude.thy ===== *)
theory Prelude
  imports Main "HOL-Library.Word"
begin

text \<open>
  What the components share: the C integer types as words, the outcome of code that may
  touch memory it does not own, byte-order helpers, and the list lemmas the component
  proofs rest on.  The named collections are filled by the components:
  \<open>bytes_simps\<close> for splitting and joining machine words, \<open>linear_simps\<close> for the
  XOR-linear steps of the checksums, \<open>cq_simps\<close> for the ring-buffer arithmetic,
  \<open>step_simps\<close> for the transition functions of the state machines.
\<close>

unbundle bit_operations_syntax

named_theorems bytes_simps
named_theorems linear_simps
named_theorems cq_simps
named_theorems step_simps

section \<open>Machine integers\<close>

type_synonym u8 = "8 word"
type_synonym u16 = "16 word"
type_synonym u32 = "32 word"
type_synonym u64 = "64 word"

section \<open>Undefined behaviour as a value\<close>

text \<open>
  The firmware copies through unchecked pointers and lengths that come from the wire.
  Where a read or a write may leave its object the model returns \<open>Inl\<close> of the fault,
  so that absence of the fault is a statement that has to be proved.
\<close>

datatype fault =
    Out_Of_Bounds_Read
  | Out_Of_Bounds_Write
  | Null_Call
  | Division_By_Zero

type_synonym 'a cres = "fault + 'a"

definition is_fault :: "'a cres \<Rightarrow> bool" where
  "is_fault r \<longleftrightarrow> (case r of Inl _ \<Rightarrow> True | Inr _ \<Rightarrow> False)"

lemma is_fault_simps [simp]:
  "is_fault (Inl f)" "\<not> is_fault (Inr x)"
  by (simp_all add: is_fault_def)

text \<open>Sequencing: the first fault ends the run.  \<open>need n d r\<close> is \<open>r\<close> guarded by an access to the
  first \<open>n\<close> elements of the object \<open>d\<close>.\<close>

definition cbind :: "'a cres \<Rightarrow> ('a \<Rightarrow> 'b cres) \<Rightarrow> 'b cres" where
  "cbind m f = (case m of Inl e \<Rightarrow> Inl e | Inr x \<Rightarrow> f x)"

lemma cbind_simps [simp]:
  "cbind (Inl e) f = Inl e" "cbind (Inr x) f = f x"
  by (simp_all add: cbind_def)

lemma cbind_Inr_iff: "cbind m f = Inr y \<longleftrightarrow> (\<exists>x. m = Inr x \<and> f x = Inr y)"
  by (auto simp: cbind_def split: sum.splits)

definition need :: "nat \<Rightarrow> 'b list \<Rightarrow> 'a cres \<Rightarrow> 'a cres" where
  "need n d r = (if n \<le> length d then r else Inl Out_Of_Bounds_Read)"

lemma need_simps [simp]:
  "n \<le> length d \<Longrightarrow> need n d r = r"
  "length d < n \<Longrightarrow> need n d r = Inl Out_Of_Bounds_Read"
  by (simp_all add: need_def)

section \<open>Bytes of a word\<close>

definition lo8 :: "u16 \<Rightarrow> u8" where
  "lo8 w = ucast w"

definition hi8 :: "u16 \<Rightarrow> u8" where
  "hi8 w = ucast (drop_bit 8 w)"

definition mk16 :: "u8 \<Rightarrow> u8 \<Rightarrow> u16" where
  "mk16 h l = push_bit 8 (ucast h) OR ucast l"

definition byte32 :: "nat \<Rightarrow> u32 \<Rightarrow> u8" where
  "byte32 i w = ucast (drop_bit (8 * i) w)"

definition mk32 :: "u8 \<Rightarrow> u8 \<Rightarrow> u8 \<Rightarrow> u8 \<Rightarrow> u32" where
  "mk32 b3 b2 b1 b0 =
     push_bit 24 (ucast b3) OR push_bit 16 (ucast b2) OR push_bit 8 (ucast b1) OR ucast b0"

text \<open>Little-endian images: how the ESP32 lays the two widths out in memory.\<close>

definition le16 :: "u16 \<Rightarrow> u8 list" where
  "le16 w = [lo8 w, hi8 w]"

definition le32 :: "u32 \<Rightarrow> u8 list" where
  "le32 w = [byte32 0 w, byte32 1 w, byte32 2 w, byte32 3 w]"

definition le64 :: "u64 \<Rightarrow> u8 list" where
  "le64 w = le32 (ucast w) @ le32 (ucast (drop_bit 32 w))"

definition get16 :: "u8 list \<Rightarrow> nat \<Rightarrow> u16" where
  "get16 bs i = mk16 (bs ! Suc i) (bs ! i)"

definition get32 :: "u8 list \<Rightarrow> nat \<Rightarrow> u32" where
  "get32 bs i = mk32 (bs ! (i + 3)) (bs ! (i + 2)) (bs ! (i + 1)) (bs ! i)"

definition get64 :: "u8 list \<Rightarrow> nat \<Rightarrow> u64" where
  "get64 bs i = push_bit 32 (ucast (get32 bs (i + 4))) OR ucast (get32 bs i)"

lemma lo8_mk16 [simp, bytes_simps]: "lo8 (mk16 h l) = l"
  by (rule bit_word_eqI) (auto simp: lo8_def mk16_def bit_simps)

lemma hi8_mk16 [simp, bytes_simps]: "hi8 (mk16 h l) = h"
  by (rule bit_word_eqI) (auto simp: hi8_def mk16_def bit_simps dest: bit_imp_le_length)

lemma mk16_hi8_lo8 [simp, bytes_simps]: "mk16 (hi8 w) (lo8 w) = w"
  by (rule bit_word_eqI) (auto simp: hi8_def lo8_def mk16_def bit_simps)

lemma byte32_mk32 [simp, bytes_simps]:
  "byte32 0 (mk32 b3 b2 b1 b0) = b0"
  "byte32 1 (mk32 b3 b2 b1 b0) = b1"
  "byte32 2 (mk32 b3 b2 b1 b0) = b2"
  "byte32 3 (mk32 b3 b2 b1 b0) = b3"
  by (rule bit_word_eqI, auto simp: byte32_def mk32_def bit_simps dest: bit_imp_le_length)+

lemma mk32_byte32 [simp, bytes_simps]:
  "mk32 (byte32 3 w) (byte32 2 w) (byte32 1 w) (byte32 0 w) = w"
proof (rule bit_word_eqI)
  fix n assume "n < LENGTH(32)"
  then show "bit (mk32 (byte32 3 w) (byte32 2 w) (byte32 1 w) (byte32 0 w)) n = bit w n"
    by (cases "n < 8"; cases "n < 16"; cases "n < 24")
       (auto simp: byte32_def mk32_def bit_simps)
qed

lemma length_le16 [simp]: "length (le16 w) = 2"
  by (simp add: le16_def)

lemma length_le32 [simp]: "length (le32 w) = 4"
  by (simp add: le32_def)

lemma get16_le16 [simp]: "get16 (le16 w) 0 = w"
  by (simp add: get16_def le16_def)

lemma get16_append [simp]:
  "Suc i < length xs \<Longrightarrow> get16 (xs @ ys) i = get16 xs i"
  "length xs \<le> i \<Longrightarrow> get16 (xs @ ys) i = get16 ys (i - length xs)"
  by (simp_all add: get16_def nth_append Suc_diff_le)

lemma get32_le32 [simp]: "get32 (le32 w) 0 = w"
  by (simp add: get32_def le32_def eval_nat_numeral) (use mk32_byte32 in \<open>simp add: eval_nat_numeral\<close>)

lemma get32_append:
  "i + 3 < length xs \<Longrightarrow> get32 (xs @ ys) i = get32 xs i"
  "length xs \<le> i \<Longrightarrow> get32 (xs @ ys) i = get32 ys (i - length xs)"
  by (simp_all add: get32_def nth_append Suc_diff_le)

lemma length_le64 [simp]: "length (le64 w) = 8"
  by (simp add: le64_def)

lemma get64_append:
  "i + 7 < length xs \<Longrightarrow> get64 (xs @ ys) i = get64 xs i"
  "length xs \<le> i \<Longrightarrow> get64 (xs @ ys) i = get64 ys (i - length xs)"
  by (simp_all add: get64_def get32_append)

lemma get64_le64: "get64 (le64 w) 0 = w"
proof -
  have "push_bit 32 (ucast (ucast (drop_bit 32 w) :: u32)) OR ucast (ucast w :: u32) = w"
    by (rule bit_word_eqI) (auto simp: bit_simps)
  then show ?thesis by (simp add: get64_def le64_def get32_append)
qed

lemma get_Cons:
  "0 < i \<Longrightarrow> get16 (x # xs) i = get16 xs (i - 1)" "0 < i \<Longrightarrow> get32 (x # xs) i = get32 xs (i - 1)"
  "0 < i \<Longrightarrow> get64 (x # xs) i = get64 xs (i - 1)"
  by (simp_all add: get16_def get32_def get64_def)

section \<open>Word helpers for the checksums\<close>

lemma word_xor_cancel: "a XOR p = b XOR p \<longleftrightarrow> a = (b :: 'a::len word)"
  by (metis xor.assoc xor.right_neutral xor_self_eq)

lemma unat_take_bit_8_less: "unat (take_bit 8 w) < 256"
  using take_bit_nat_less_exp[of 8 "unat w"] by (simp only: unsigned_take_bit_eq) simp

lemma unat_ucast_u16_u32: "unat (ucast (w :: u16) :: u32) = unat w"
  using unsigned_less[of w, where 'a = nat] by (simp add: unsigned_ucast_eq take_bit_nat_eq_self)

lemma funpow_8: "(f ^^ 8) x = f (f (f (f (f (f (f (f x)))))))"
  by (simp add: eval_nat_numeral)

lemma upt_256: "[0..<256] = 0 # 1 # [2..<256::nat]"
  by (simp add: upt_conv_Cons)

section \<open>Byte order\<close>

definition bswap16 :: "u16 \<Rightarrow> u16" where
  "bswap16 w = mk16 (lo8 w) (hi8 w)"

definition bswap32 :: "u32 \<Rightarrow> u32" where
  "bswap32 w = mk32 (byte32 0 w) (byte32 1 w) (byte32 2 w) (byte32 3 w)"

lemma bswap16_bswap16 [simp]: "bswap16 (bswap16 w) = w"
  by (simp add: bswap16_def)

lemma bswap32_bswap32 [simp]: "bswap32 (bswap32 w) = w"
  by (simp add: bswap32_def del: One_nat_def)

section \<open>Lists\<close>

lemma nth_take_drop: "i < n \<Longrightarrow> k + n \<le> length xs \<Longrightarrow> take n (drop k xs) ! i = xs ! (k + i)"
  by simp

lemma take_Suc_nth: "i < length xs \<Longrightarrow> take (Suc i) xs = take i xs @ [xs ! i]"
  by (rule take_Suc_conv_app_nth)

lemma drop_nth_Cons: "i < length xs \<Longrightarrow> drop i xs = xs ! i # drop (Suc i) xs"
  by (rule Cons_nth_drop_Suc [symmetric])

end
