(* ===== verification/Crc.thy ===== *)
theory Crc
  imports Prelude
begin

text \<open>
  The checksums of \<open>components/utilities/crc.c\<close> and \<open>components/iot_xmodem/xmodem.c\<close>.

  The file keeps every checksum twice, selected by the preprocessor: a table-driven loop (the
  one that is compiled) and a bit-by-bit loop (the \<open>#else\<close> branch, kept as the
  reference; \<open>xmodem.c\<close> compiles the bit-by-bit loop of the same polynomial).  Both
  are modelled as written; the theorems show that they compute the same function on every
  input.  Buffers are lists; a call that processes \<open>len\<close> bytes reads the first
  \<open>len\<close> bytes of its list, and callers pass at least that many.
\<close>

section \<open>The lookup tables\<close>

text \<open>
  The C initialiser of \<open>CRC32_Table[256]\<close> lists 448 values; the first 256 are the
  array, the rest are excess initialisers that the compiler discards.
\<close>

definition CRC16_Xmodem_Table :: "u16 list" where
  "CRC16_Xmodem_Table = [
    0x0000, 0x1021, 0x2042, 0x3063, 0x4084, 0x50a5, 0x60c6, 0x70e7,
    0x8108, 0x9129, 0xa14a, 0xb16b, 0xc18c, 0xd1ad, 0xe1ce, 0xf1ef,
    0x1231, 0x0210, 0x3273, 0x2252, 0x52b5, 0x4294, 0x72f7, 0x62d6,
    0x9339, 0x8318, 0xb37b, 0xa35a, 0xd3bd, 0xc39c, 0xf3ff, 0xe3de,
    0x2462, 0x3443, 0x0420, 0x1401, 0x64e6, 0x74c7, 0x44a4, 0x5485,
    0xa56a, 0xb54b, 0x8528, 0x9509, 0xe5ee, 0xf5cf, 0xc5ac, 0xd58d,
    0x3653, 0x2672, 0x1611, 0x0630, 0x76d7, 0x66f6, 0x5695, 0x46b4,
    0xb75b, 0xa77a, 0x9719, 0x8738, 0xf7df, 0xe7fe, 0xd79d, 0xc7bc,
    0x48c4, 0x58e5, 0x6886, 0x78a7, 0x0840, 0x1861, 0x2802, 0x3823,
    0xc9cc, 0xd9ed, 0xe98e, 0xf9af, 0x8948, 0x9969, 0xa90a, 0xb92b,
    0x5af5, 0x4ad4, 0x7ab7, 0x6a96, 0x1a71, 0x0a50, 0x3a33, 0x2a12,
    0xdbfd, 0xcbdc, 0xfbbf, 0xeb9e, 0x9b79, 0x8b58, 0xbb3b, 0xab1a,
    0x6ca6, 0x7c87, 0x4ce4, 0x5cc5, 0x2c22, 0x3c03, 0x0c60, 0x1c41,
    0xedae, 0xfd8f, 0xcdec, 0xddcd, 0xad2a, 0xbd0b, 0x8d68, 0x9d49,
    0x7e97, 0x6eb6, 0x5ed5, 0x4ef4, 0x3e13, 0x2e32, 0x1e51, 0x0e70,
    0xff9f, 0xefbe, 0xdfdd, 0xcffc, 0xbf1b, 0xaf3a, 0x9f59, 0x8f78,
    0x9188, 0x81a9, 0xb1ca, 0xa1eb, 0xd10c, 0xc12d, 0xf14e, 0xe16f,
    0x1080, 0x00a1, 0x30c2, 0x20e3, 0x5004, 0x4025, 0x7046, 0x6067,
    0x83b9, 0x9398, 0xa3fb, 0xb3da, 0xc33d, 0xd31c, 0xe37f, 0xf35e,
    0x02b1, 0x1290, 0x22f3, 0x32d2, 0x4235, 0x5214, 0x6277, 0x7256,
    0xb5ea, 0xa5cb, 0x95a8, 0x8589, 0xf56e, 0xe54f, 0xd52c, 0xc50d,
    0x34e2, 0x24c3, 0x14a0, 0x0481, 0x7466, 0x6447, 0x5424, 0x4405,
    0xa7db, 0xb7fa, 0x8799, 0x97b8, 0xe75f, 0xf77e, 0xc71d, 0xd73c,
    0x26d3, 0x36f2, 0x0691, 0x16b0, 0x6657, 0x7676, 0x4615, 0x5634,
    0xd94c, 0xc96d, 0xf90e, 0xe92f, 0x99c8, 0x89e9, 0xb98a, 0xa9ab,
    0x5844, 0x4865, 0x7806, 0x6827, 0x18c0, 0x08e1, 0x3882, 0x28a3,
    0xcb7d, 0xdb5c, 0xeb3f, 0xfb1e, 0x8bf9, 0x9bd8, 0xabbb, 0xbb9a,
    0x4a75, 0x5a54, 0x6a37, 0x7a16, 0x0af1, 0x1ad0, 0x2ab3, 0x3a92,
    0xfd2e, 0xed0f, 0xdd6c, 0xcd4d, 0xbdaa, 0xad8b, 0x9de8, 0x8dc9,
    0x7c26, 0x6c07, 0x5c64, 0x4c45, 0x3ca2, 0x2c83, 0x1ce0, 0x0cc1,
    0xef1f, 0xff3e, 0xcf5d, 0xdf7c, 0xaf9b, 0xbfba, 0x8fd9, 0x9ff8,
    0x6e17, 0x7e36, 0x4e55, 0x5e74, 0x2e93, 0x3eb2, 0x0ed1, 0x1ef0]"

definition md_crc_tbl :: "u16 list" where
  "md_crc_tbl = [
    0x0000, 0xc0c1, 0xc181, 0x0140, 0xc301, 0x03c0, 0x0280, 0xc241,
    0xc601, 0x06c0, 0x0780, 0xc741, 0x0500, 0xc5c1, 0xc481, 0x0440,
    0xcc01, 0x0cc0, 0x0d80, 0xcd41, 0x0f00, 0xcfc1, 0xce81, 0x0e40,
    0x0a00, 0xcac1, 0xcb81, 0x0b40, 0xc901, 0x09c0, 0x0880, 0xc841,
    0xd801, 0x18c0, 0x1980, 0xd941, 0x1b00, 0xdbc1, 0xda81, 0x1a40,
    0x1e00, 0xdec1, 0xdf81, 0x1f40, 0xdd01, 0x1dc0, 0x1c80, 0xdc41,
    0x1400, 0xd4c1, 0xd581, 0x1540, 0xd701, 0x17c0, 0x1680, 0xd641,
    0xd201, 0x12c0, 0x1380, 0xd341, 0x1100, 0xd1c1, 0xd081, 0x1040,
    0xf001, 0x30c0, 0x3180, 0xf141, 0x3300, 0xf3c1, 0xf281, 0x3240,
    0x3600, 0xf6c1, 0xf781, 0x3740, 0xf501, 0x35c0, 0x3480, 0xf441,
    0x3c00, 0xfcc1, 0xfd81, 0x3d40, 0xff01, 0x3fc0, 0x3e80, 0xfe41,
    0xfa01, 0x3ac0, 0x3b80, 0xfb41, 0x3900, 0xf9c1, 0xf881, 0x3840,
    0x2800, 0xe8c1, 0xe981, 0x2940, 0xeb01, 0x2bc0, 0x2a80, 0xea41,
    0xee01, 0x2ec0, 0x2f80, 0xef41, 0x2d00, 0xedc1, 0xec81, 0x2c40,
    0xe401, 0x24c0, 0x2580, 0xe541, 0x2700, 0xe7c1, 0xe681, 0x2640,
    0x2200, 0xe2c1, 0xe381, 0x2340, 0xe101, 0x21c0, 0x2080, 0xe041,
    0xa001, 0x60c0, 0x6180, 0xa141, 0x6300, 0xa3c1, 0xa281, 0x6240,
    0x6600, 0xa6c1, 0xa781, 0x6740, 0xa501, 0x65c0, 0x6480, 0xa441,
    0x6c00, 0xacc1, 0xad81, 0x6d40, 0xaf01, 0x6fc0, 0x6e80, 0xae41,
    0xaa01, 0x6ac0, 0x6b80, 0xab41, 0x6900, 0xa9c1, 0xa881, 0x6840,
    0x7800, 0xb8c1, 0xb981, 0x7940, 0xbb01, 0x7bc0, 0x7a80, 0xba41,
    0xbe01, 0x7ec0, 0x7f80, 0xbf41, 0x7d00, 0xbdc1, 0xbc81, 0x7c40,
    0xb401, 0x74c0, 0x7580, 0xb541, 0x7700, 0xb7c1, 0xb681, 0x7640,
    0x7200, 0xb2c1, 0xb381, 0x7340, 0xb101, 0x71c0, 0x7080, 0xb041,
    0x5000, 0x90c1, 0x9181, 0x5140, 0x9301, 0x53c0, 0x5280, 0x9241,
    0x9601, 0x56c0, 0x5780, 0x9741, 0x5500, 0x95c1, 0x9481, 0x5440,
    0x9c01, 0x5cc0, 0x5d80, 0x9d41, 0x5f00, 0x9fc1, 0x9e81, 0x5e40,
    0x5a00, 0x9ac1, 0x9b81, 0x5b40, 0x9901, 0x59c0, 0x5880, 0x9841,
    0x8801, 0x48c0, 0x4980, 0x8941, 0x4b00, 0x8bc1, 0x8a81, 0x4a40,
    0x4e00, 0x8ec1, 0x8f81, 0x4f40, 0x8d01, 0x4dc0, 0x4c80, 0x8c41,
    0x4400, 0x84c1, 0x8581, 0x4540, 0x8701, 0x47c0, 0x4680, 0x8641,
    0x8201, 0x42c0, 0x4380, 0x8341, 0x4100, 0x81c1, 0x8081, 0x4040]"

definition CRC32_Table :: "u32 list" where
  "CRC32_Table = [
    0x00000000, 0x04c11db7, 0x09823b6e, 0x0d4326d9, 0x130476dc, 0x17c56b6b, 0x1a864db2, 0x1e475005,
    0x2608edb8, 0x22c9f00f, 0x2f8ad6d6, 0x2b4bcb61, 0x350c9b64, 0x31cd86d3, 0x3c8ea00a, 0x384fbdbd,
    0x4c11db70, 0x48d0c6c7, 0x4593e01e, 0x4152fda9, 0x5f15adac, 0x5bd4b01b, 0x569796c2, 0x52568b75,
    0x6a1936c8, 0x6ed82b7f, 0x639b0da6, 0x675a1011, 0x791d4014, 0x7ddc5da3, 0x709f7b7a, 0x745e66cd,
    0x9823b6e0, 0x9ce2ab57, 0x91a18d8e, 0x95609039, 0x8b27c03c, 0x8fe6dd8b, 0x82a5fb52, 0x8664e6e5,
    0xbe2b5b58, 0xbaea46ef, 0xb7a96036, 0xb3687d81, 0xad2f2d84, 0xa9ee3033, 0xa4ad16ea, 0xa06c0b5d,
    0xd4326d90, 0xd0f37027, 0xddb056fe, 0xd9714b49, 0xc7361b4c, 0xc3f706fb, 0xceb42022, 0xca753d95,
    0xf23a8028, 0xf6fb9d9f, 0xfbb8bb46, 0xff79a6f1, 0xe13ef6f4, 0xe5ffeb43, 0xe8bccd9a, 0xec7dd02d,
    0x34867077, 0x30476dc0, 0x3d044b19, 0x39c556ae, 0x278206ab, 0x23431b1c, 0x2e003dc5, 0x2ac12072,
    0x128e9dcf, 0x164f8078, 0x1b0ca6a1, 0x1fcdbb16, 0x018aeb13, 0x054bf6a4, 0x0808d07d, 0x0cc9cdca,
    0x7897ab07, 0x7c56b6b0, 0x71159069, 0x75d48dde, 0x6b93dddb, 0x6f52c06c, 0x6211e6b5, 0x66d0fb02,
    0x5e9f46bf, 0x5a5e5b08, 0x571d7dd1, 0x53dc6066, 0x4d9b3063, 0x495a2dd4, 0x44190b0d, 0x40d816ba,
    0xaca5c697, 0xa864db20, 0xa527fdf9, 0xa1e6e04e, 0xbfa1b04b, 0xbb60adfc, 0xb6238b25, 0xb2e29692,
    0x8aad2b2f, 0x8e6c3698, 0x832f1041, 0x87ee0df6, 0x99a95df3, 0x9d684044, 0x902b669d, 0x94ea7b2a,
    0xe0b41de7, 0xe4750050, 0xe9362689, 0xedf73b3e, 0xf3b06b3b, 0xf771768c, 0xfa325055, 0xfef34de2,
    0xc6bcf05f, 0xc27dede8, 0xcf3ecb31, 0xcbffd686, 0xd5b88683, 0xd1799b34, 0xdc3abded, 0xd8fba05a,
    0x690ce0ee, 0x6dcdfd59, 0x608edb80, 0x644fc637, 0x7a089632, 0x7ec98b85, 0x738aad5c, 0x774bb0eb,
    0x4f040d56, 0x4bc510e1, 0x46863638, 0x42472b8f, 0x5c007b8a, 0x58c1663d, 0x558240e4, 0x51435d53,
    0x251d3b9e, 0x21dc2629, 0x2c9f00f0, 0x285e1d47, 0x36194d42, 0x32d850f5, 0x3f9b762c, 0x3b5a6b9b,
    0x0315d626, 0x07d4cb91, 0x0a97ed48, 0x0e56f0ff, 0x1011a0fa, 0x14d0bd4d, 0x19939b94, 0x1d528623,
    0xf12f560e, 0xf5ee4bb9, 0xf8ad6d60, 0xfc6c70d7, 0xe22b20d2, 0xe6ea3d65, 0xeba91bbc, 0xef68060b,
    0xd727bbb6, 0xd3e6a601, 0xdea580d8, 0xda649d6f, 0xc423cd6a, 0xc0e2d0dd, 0xcda1f604, 0xc960ebb3,
    0xbd3e8d7e, 0xb9ff90c9, 0xb4bcb610, 0xb07daba7, 0xae3afba2, 0xaafbe615, 0xa7b8c0cc, 0xa379dd7b,
    0x9b3660c6, 0x9ff77d71, 0x92b45ba8, 0x9675461f, 0x8832161a, 0x8cf30bad, 0x81b02d74, 0x857130c3,
    0x5d8a9099, 0x594b8d2e, 0x5408abf7, 0x50c9b640, 0x4e8ee645, 0x4a4ffbf2, 0x470cdd2b, 0x43cdc09c,
    0x7b827d21, 0x7f436096, 0x7200464f, 0x76c15bf8, 0x68860bfd, 0x6c47164a, 0x61043093, 0x65c52d24,
    0x119b4be9, 0x155a565e, 0x18197087, 0x1cd86d30, 0x029f3d35, 0x065e2082, 0x0b1d065b, 0x0fdc1bec,
    0x3793a651, 0x3352bbe6, 0x3e119d3f, 0x3ad08088, 0x2497d08d, 0x2056cd3a, 0x2d15ebe3, 0x29d4f654,
    0xc5a92679, 0xc1683bce, 0xcc2b1d17, 0xc8ea00a0, 0xd6ad50a5, 0xd26c4d12, 0xdf2f6bcb, 0xdbee767c,
    0xe3a1cbc1, 0xe760d676, 0xea23f0af, 0xeee2ed18, 0xf0a5bd1d, 0xf464a0aa, 0xf9278673, 0xfde69bc4,
    0x89b8fd09, 0x8d79e0be, 0x803ac667, 0x84fbdbd0, 0x9abc8bd5, 0x9e7d9662, 0x933eb0bb, 0x97ffad0c,
    0xafb010b1, 0xab710d06, 0xa6322bdf, 0xa2f33668, 0xbcb4666d, 0xb8757bda, 0xb5365d03, 0xb1f740b4]"

section \<open>The routines\<close>

definition crc16_xmodem_step :: "u16 \<Rightarrow> u8 \<Rightarrow> u16" where
  "crc16_xmodem_step crc b =
     push_bit 8 crc XOR
     CRC16_Xmodem_Table ! unat ((drop_bit 8 crc XOR ucast b) AND 0xFF)"

definition CalcCrc16_Xmodem :: "u8 list \<Rightarrow> u16 \<Rightarrow> u16" where
  "CalcCrc16_Xmodem pdata len = foldl crc16_xmodem_step 0x0000 (take (unat len) pdata)"

text \<open>The \<open>#else\<close> branch, and the loop of \<open>xmodem_calculate_crc\<close>: one shift.\<close>

definition crc16_shift :: "u16 \<Rightarrow> u16" where
  "crc16_shift crc =
     (if crc AND 0x8000 \<noteq> 0 then push_bit 1 crc XOR 0x1021 else push_bit 1 crc)"

definition crc16_bits_step :: "u16 \<Rightarrow> u8 \<Rightarrow> u16" where
  "crc16_bits_step crc b = (crc16_shift ^^ 8) (crc XOR push_bit 8 (ucast b))"

definition xmodem_calculate_crc :: "u8 list \<Rightarrow> u32 \<Rightarrow> u16" where
  "xmodem_calculate_crc data sz = foldl crc16_bits_step 0 (take (unat sz) data)"

definition md_crc_step :: "u16 \<Rightarrow> u8 \<Rightarrow> u16" where
  "md_crc_step crc b =
     (drop_bit 8 crc AND 0xFF) XOR md_crc_tbl ! unat ((crc XOR ucast b) AND 0xFF)"

definition CalcCrc16_modbus :: "u8 list \<Rightarrow> u16 \<Rightarrow> u16" where
  "CalcCrc16_modbus pbBuf num = foldl md_crc_step 0xFFFF (take (unat num) pbBuf)"

text \<open>The formula branch of \<open>CalcCrc16_modbus\<close>.\<close>

definition md_crc_shift :: "u16 \<Rightarrow> u16" where
  "md_crc_shift crc =
     (if crc AND 1 \<noteq> 0 then drop_bit 1 crc XOR 0xA001 else drop_bit 1 crc)"

definition md_crc_bits_step :: "u16 \<Rightarrow> u8 \<Rightarrow> u16" where
  "md_crc_bits_step crc b = (md_crc_shift ^^ 8) (crc XOR ucast b)"

definition CalcCrc16_modbus_formula :: "u8 list \<Rightarrow> u16 \<Rightarrow> u16" where
  "CalcCrc16_modbus_formula pbBuf num = foldl md_crc_bits_step 0xFFFF (take (unat num) pbBuf)"

definition crc32_step :: "u32 \<Rightarrow> u8 \<Rightarrow> u32" where
  "crc32_step crc b =
     push_bit 8 crc XOR CRC32_Table ! unat ((drop_bit 24 crc XOR ucast b) AND 0xFF)"

definition crc32_pad :: "nat \<Rightarrow> nat" where
  "crc32_pad orig_length = (4 - orig_length mod 4) mod 4"

definition calcu_crc32 :: "u32 \<Rightarrow> u8 list \<Rightarrow> u32" where
  "calcu_crc32 icrc data =
     foldl crc32_step (foldl crc32_step icrc data) (replicate (crc32_pad (length data)) 0)"

text \<open>The word-at-a-time \<open>#else\<close> branch, which zero-extends the last word.\<close>

definition crc32_shift :: "u32 \<Rightarrow> u32" where
  "crc32_shift crc =
     (if crc AND 0x80000000 \<noteq> 0 then push_bit 1 crc XOR 0x04C11DB7 else push_bit 1 crc)"

fun calcu_crc32_words :: "u32 \<Rightarrow> u8 list \<Rightarrow> u32" where
  "calcu_crc32_words crc (a # b # c # d # rest) =
     calcu_crc32_words ((crc32_shift ^^ 32) (crc XOR mk32 a b c d)) rest"
| "calcu_crc32_words crc [] = crc"
| "calcu_crc32_words crc [a] = (crc32_shift ^^ 32) (crc XOR mk32 a 0 0 0)"
| "calcu_crc32_words crc [a, b] = (crc32_shift ^^ 32) (crc XOR mk32 a b 0 0)"
| "calcu_crc32_words crc [a, b, c] = (crc32_shift ^^ 32) (crc XOR mk32 a b c 0)"

section \<open>Shift registers and their tables\<close>

text \<open>
  The contract of a checksum: a one-bit shift of a register, and a 256-entry table that
  holds the effect of eight shifts on one byte.  The two locales are the two directions
  a register can be shifted in; what is proved in them holds for every polynomial.
\<close>

locale msb_crc =
  fixes step :: "'a::len word \<Rightarrow> 'a word" and poly :: "'a word" and table :: "'a word list"
  assumes step_set: "bit x (LENGTH('a) - 1) \<Longrightarrow> step x = push_bit 1 x XOR poly"
    and step_clear: "\<not> bit x (LENGTH('a) - 1) \<Longrightarrow> step x = push_bit 1 x"
    and width: "8 \<le> LENGTH('a)"
    and table_eq: "table = map (\<lambda>i. (step ^^ 8) (push_bit (LENGTH('a) - 8) (word_of_nat i))) [0..<256]"
begin

lemma step_xor: "step (a XOR b) = step a XOR step b"
  by (cases "bit a (LENGTH('a) - 1)"; cases "bit b (LENGTH('a) - 1)")
     (simp_all add: step_set step_clear bit_xor_iff push_bit_xor ac_simps)

lemma steps_xor: "(step ^^ n) (a XOR b) = (step ^^ n) a XOR (step ^^ n) b"
  by (induction n) (simp_all add: step_xor)

lemma steps_low:
  "k \<le> LENGTH('a) \<Longrightarrow> (\<And>i. LENGTH('a) - k \<le> i \<Longrightarrow> \<not> bit x i) \<Longrightarrow> (step ^^ k) x = push_bit k x"
proof (induction k)
  case 0
  then show ?case by simp
next
  case (Suc k)
  have "(step ^^ k) x = push_bit k x"
    using Suc.prems by (intro Suc.IH) auto
  moreover have "\<not> bit (push_bit k x) (LENGTH('a) - 1)"
    using Suc.prems(1) Suc.prems(2)[of "LENGTH('a) - 1 - k"] by (auto simp: bit_simps)
  ultimately show ?case by (simp add: step_clear)
qed

lemma byte_step:
  "(step ^^ 8) (crc XOR push_bit (LENGTH('a) - 8) (ucast (b :: u8))) =
     push_bit 8 crc XOR table ! unat ((drop_bit (LENGTH('a) - 8) crc XOR ucast b) AND 0xFF)"
proof -
  let ?m = "LENGTH('a) - 8"
  let ?i = "drop_bit ?m crc XOR ucast b :: 'a word"
  have tb: "take_bit 8 ?i = ?i"
    using width by (intro bit_word_eqI) (auto simp: bit_simps dest: bit_imp_le_length)
  have idx: "?i AND 0xFF = ?i"
    by (subst (2) tb [symmetric]) (simp add: take_bit_eq_mask mask_eq_exp_minus_1)
  have lt: "unat ?i < 256"
    using unat_take_bit_8_less[of ?i] by (simp only: tb)
  have split: "crc XOR push_bit ?m (ucast b) = take_bit ?m crc XOR push_bit ?m ?i"
    by (rule bit_word_eqI) (auto simp: bit_simps)
  have low: "(step ^^ 8) (take_bit ?m crc) = push_bit 8 (take_bit ?m crc)"
    using width by (intro steps_low) (auto simp: bit_simps)
  have low': "push_bit 8 (take_bit ?m crc) = push_bit 8 crc"
    by (rule bit_word_eqI) (auto simp: bit_simps)
  have "table ! unat ?i = (step ^^ 8) (push_bit ?m ?i)"
    using lt by (simp add: table_eq)
  then show ?thesis
    by (simp add: split steps_xor low low' idx)
qed

end

locale lsb_crc =
  fixes step :: "'a::len word \<Rightarrow> 'a word" and poly :: "'a word" and table :: "'a word list"
  assumes step_set: "bit x 0 \<Longrightarrow> step x = drop_bit 1 x XOR poly"
    and step_clear: "\<not> bit x 0 \<Longrightarrow> step x = drop_bit 1 x"
    and width: "8 \<le> LENGTH('a)"
    and poly_top: "bit poly (LENGTH('a) - 1)"
    and table_eq: "table = map (\<lambda>i. (step ^^ 8) (word_of_nat i)) [0..<256]"
begin

lemma step_xor: "step (a XOR b) = step a XOR step b"
  by (cases "bit a 0"; cases "bit b 0")
     (simp_all add: step_set step_clear bit_xor_iff drop_bit_xor ac_simps)

lemma steps_xor: "(step ^^ n) (a XOR b) = (step ^^ n) a XOR (step ^^ n) b"
  by (induction n) (simp_all add: step_xor)

lemma steps_high: "(\<And>i. i < k \<Longrightarrow> \<not> bit x i) \<Longrightarrow> (step ^^ k) x = drop_bit k x"
proof (induction k)
  case 0
  then show ?case by simp
next
  case (Suc k)
  have "(step ^^ k) x = drop_bit k x"
    using Suc.prems by (intro Suc.IH) auto
  moreover have "\<not> bit (drop_bit k x) 0"
    using Suc.prems[of k] by (simp add: bit_simps)
  ultimately show ?case by (simp add: step_clear)
qed

lemma step_top: "bit (step x) (LENGTH('a) - 1) \<longleftrightarrow> bit x 0"
  using poly_top by (cases "bit x 0") (auto simp: step_set step_clear bit_simps dest: bit_imp_le_length)

lemma step_inj: "step x = step y \<Longrightarrow> x = y"
proof -
  assume eq: "step x = step y"
  then have b0: "bit x 0 \<longleftrightarrow> bit y 0" using step_top[of x] step_top[of y] by simp
  then have d: "drop_bit 1 x = drop_bit 1 y"
    using eq by (cases "bit x 0") (auto simp: step_set step_clear word_xor_cancel)
  show "x = y"
  proof (rule bit_word_eqI)
    fix n
    show "bit x n = bit y n"
      using b0 arg_cong[OF d, of "\<lambda>w. bit w (n - 1)"] by (cases n) (auto simp: bit_simps)
  qed
qed

lemma steps_inj: "(step ^^ n) x = (step ^^ n) y \<Longrightarrow> x = y"
  by (induction n) (auto dest: step_inj)

lemma steps_0: "(step ^^ n) 0 = 0"
  by (induction n) (simp_all add: step_clear)

lemma byte_step:
  "(step ^^ 8) (crc XOR ucast (b :: u8)) =
     drop_bit 8 crc XOR table ! unat ((crc XOR ucast b) AND 0xFF)"
proof -
  let ?y = "crc XOR ucast b :: 'a word"
  have idx: "?y AND 0xFF = take_bit 8 ?y"
    by (simp add: take_bit_eq_mask mask_eq_exp_minus_1)
  have lt: "unat (take_bit 8 ?y) < 256"
    by (rule unat_take_bit_8_less)
  have split: "?y = take_bit 8 ?y XOR push_bit 8 (drop_bit 8 crc)"
    by (rule bit_word_eqI) (auto simp: bit_simps dest: bit_imp_le_length)
  have high: "(step ^^ 8) (push_bit 8 (drop_bit 8 crc)) = drop_bit 8 (push_bit 8 (drop_bit 8 crc))"
    by (rule steps_high) (auto simp: bit_simps)
  have high': "drop_bit 8 (push_bit 8 (drop_bit 8 crc)) = drop_bit 8 crc"
    by (rule bit_word_eqI) (auto simp: bit_simps dest: bit_imp_le_length)
  have "table ! unat (take_bit 8 ?y) = (step ^^ 8) (take_bit 8 ?y)"
    using lt by (simp add: table_eq)
  then show ?thesis
    by (subst split) (simp add: steps_xor high high' idx ac_simps)
qed

end
section \<open>The tables of the three checksums\<close>

lemma md_crc_shift_cases:
  "odd crc \<Longrightarrow> md_crc_shift crc = drop_bit 1 crc XOR 0xA001"
  "even crc \<Longrightarrow> md_crc_shift crc = drop_bit 1 crc"
  by (simp_all add: md_crc_shift_def and_one_eq odd_iff_mod_2_eq_one even_iff_mod_2_eq_zero)

lemma crc16_shift_cases:
  "bit crc 15 \<Longrightarrow> crc16_shift crc = push_bit 1 crc XOR 0x1021"
  "\<not> bit crc 15 \<Longrightarrow> crc16_shift crc = push_bit 1 crc"
proof -
  have "(0x8000 :: u16) = push_bit 15 1" by simp
  then have "crc AND 0x8000 = 0 \<longleftrightarrow> \<not> bit crc 15" 
  by (metis bit_iff_and_push_bit_not_eq_0) 
  then show "bit crc 15 \<Longrightarrow> crc16_shift crc = push_bit 1 crc XOR 0x1021"
  "\<not> bit crc 15 \<Longrightarrow> crc16_shift crc = push_bit 1 crc" by (simp_all add: crc16_shift_def)
qed

lemma crc32_shift_cases:
  "bit crc 31 \<Longrightarrow> crc32_shift crc = push_bit 1 crc XOR 0x04C11DB7"
  "\<not> bit crc 31 \<Longrightarrow> crc32_shift crc = push_bit 1 crc"
proof -
  have "(0x80000000 :: u32) = push_bit 31 1" by simp
  then have "crc AND 0x80000000 = 0 \<longleftrightarrow> \<not> bit crc 31" 
  by (metis bit_iff_and_push_bit_not_eq_0) 
  then show "bit crc 31 \<Longrightarrow> crc32_shift crc = push_bit 1 crc XOR 0x04C11DB7"
  "\<not> bit crc 31 \<Longrightarrow> crc32_shift crc = push_bit 1 crc" by (simp_all add: crc32_shift_def)
qed
lemma md_crc_tbl_eq: "md_crc_tbl = map (\<lambda>i. (md_crc_shift ^^ 8) (word_of_nat i)) [0..<256]"
  by (simp add: md_crc_tbl_def md_crc_shift_cases funpow_8 upt_256)

lemma CRC16_Xmodem_Table_eq: "CRC16_Xmodem_Table = map (\<lambda>i. (crc16_shift ^^ 8) (push_bit 8 (word_of_nat i))) [0..<256]"
  by (simp add: CRC16_Xmodem_Table_def funpow_8 crc16_shift_cases upt_256)

lemma CRC32_Table_eq: "CRC32_Table = map (\<lambda>i. (crc32_shift ^^ 8) (push_bit 24 (word_of_nat i))) [0..<256]"
  by (simp add: CRC32_Table_def funpow_8 crc32_shift_cases upt_256)

interpretation xmodem_reg: msb_crc crc16_shift "0x1021" CRC16_Xmodem_Table
  by unfold_locales (simp_all add: crc16_shift_cases CRC16_Xmodem_Table_eq)

interpretation crc32_reg: msb_crc crc32_shift "0x04C11DB7" CRC32_Table
  by unfold_locales (simp_all add: crc32_shift_cases CRC32_Table_eq)

interpretation modbus_reg: lsb_crc md_crc_shift "0xA001" md_crc_tbl
  by unfold_locales (simp_all add: md_crc_shift_cases md_crc_tbl_eq bit_0 even_iff_mod_2_eq_zero)

section \<open>One byte, one word\<close>

lemma crc16_xmodem_step_eq: "crc16_xmodem_step = crc16_bits_step"
  using xmodem_reg.byte_step by (intro ext) (simp add: crc16_xmodem_step_def crc16_bits_step_def)

lemma md_crc_step_eq: "md_crc_step = md_crc_bits_step"
proof (intro ext)
  fix crc b
  have "drop_bit 8 crc AND 0xFF = drop_bit 8 (crc :: u16)"
  proof -
    have "drop_bit 8 crc AND 0xFF = take_bit 8 (drop_bit 8 crc)"
      by (simp add: take_bit_eq_mask mask_eq_exp_minus_1)
    also have "\<dots> = drop_bit 8 crc"
      by (rule bit_word_eqI) (auto simp: bit_simps dest: bit_imp_le_length)
    finally show ?thesis .
  qed
  then show "md_crc_step crc b = md_crc_bits_step crc b"
    using modbus_reg.byte_step[of crc b] by (simp add: md_crc_step_def md_crc_bits_step_def)
qed

lemma crc32_step_eq: "crc32_step crc b = (crc32_shift ^^ 8) (crc XOR push_bit 24 (ucast b))"
  using crc32_reg.byte_step[of crc b] by (simp add: crc32_step_def)

lemma crc32_byte_of_word:
  "(crc32_shift ^^ 8) (crc XOR mk32 a b c d) = crc32_step crc a XOR mk32 b c d 0"
proof -
  have split: "crc XOR mk32 a b c d = (crc XOR push_bit 24 (ucast a)) XOR mk32 0 b c d"
    by (rule bit_word_eqI) (auto simp: mk32_def bit_simps dest: bit_imp_le_length)
  have low: "(crc32_shift ^^ 8) (mk32 0 b c d) = push_bit 8 (mk32 0 b c d)"
    by (rule crc32_reg.steps_low) (auto simp: mk32_def bit_simps dest!: bit_imp_le_length)
  have "push_bit 8 (mk32 0 b c d) = mk32 b c d 0"
    by (rule bit_word_eqI) (auto simp: mk32_def bit_simps dest!: bit_imp_le_length)
  then show ?thesis
    by (simp only: split crc32_reg.steps_xor low crc32_step_eq)
qed

lemma crc32_word: 
  "(crc32_shift ^^ 32) (crc XOR mk32 a b c d) = foldl crc32_step crc [a, b, c, d]"
proof -
  have "(crc32_shift ^^ 32) x = (crc32_shift ^^ 8) ((crc32_shift ^^ 8) ((crc32_shift ^^ 8) ((crc32_shift ^^ 8) x)))" for x
    by (simp flip: funpow_add comp_apply[of "crc32_shift ^^ 8"])
  moreover have "mk32 0 0 0 0 = 0" by (simp add: mk32_def)
  ultimately show ?thesis by (simp add: crc32_byte_of_word)
qed

section \<open>The compiled loops equal the reference loops\<close>

text \<open>
  C33: the table-driven \<open>CalcCrc16_Xmodem\<close> (used by the receiver) and the bit-by-bit
  \<open>xmodem_calculate_crc\<close> (used by the transmitter) are the same function.
\<close>
theorem CalcCrc16_Xmodem_eq_bits:
  "CalcCrc16_Xmodem data len = xmodem_calculate_crc data (ucast len)"
  by (simp add: CalcCrc16_Xmodem_def xmodem_calculate_crc_def crc16_xmodem_step_eq unat_ucast_u16_u32)

text \<open>
  the table branch of \<open>CalcCrc16_modbus\<close> computes what its formula branch computes.
\<close>
theorem CalcCrc16_modbus_eq_formula:
  "CalcCrc16_modbus pbBuf num = CalcCrc16_modbus_formula pbBuf num"
  by (simp add: CalcCrc16_modbus_def CalcCrc16_modbus_formula_def md_crc_step_eq)

lemma calcu_crc32_word:
  "calcu_crc32 crc (a # b # c # d # rest) = calcu_crc32 (foldl crc32_step crc [a, b, c, d]) rest"
  by (simp add: calcu_crc32_def crc32_pad_def)

lemma crc32_pad_small:
  "crc32_pad 0 = 0" "crc32_pad (Suc 0) = 3" "crc32_pad (Suc (Suc 0)) = 2"
  "crc32_pad (Suc (Suc (Suc 0))) = 1"
  by (simp_all add: crc32_pad_def)

lemma replicate_3: "replicate 3 x = [x, x, x]" and replicate_2: "replicate 2 x = [x, x]"
  by (simp_all add: numeral_eq_Suc)

lemma calcu_crc32_short:
  "length data < 4 \<Longrightarrow>
     calcu_crc32 crc data = foldl crc32_step crc (data @ replicate (crc32_pad (length data)) 0)"
  by (simp add: calcu_crc32_def)

text \<open>
  the byte-wise table branch of \<open>calcu_crc32\<close>, padding included, computes what the
  word-wise branch computes on every buffer length.
\<close>
theorem calcu_crc32_eq_words: "calcu_crc32 crc data = calcu_crc32_words crc data"
proof (induction crc data rule: calcu_crc32_words.induct)
  case (1 crc a b c d rest)
  then show ?case by (simp only: calcu_crc32_word crc32_word calcu_crc32_words.simps)
qed (simp_all add: calcu_crc32_short crc32_word crc32_pad_small replicate_3 replicate_2)

lemma crc32_pad_mult: "crc32_pad (4 * k) = 0" "crc32_pad (4 * k + n) = crc32_pad n"
  by (simp_all add: crc32_pad_def)

text \<open>
  a checksum taken in chunks is the checksum of the whole image as long as every chunk
  but the last has a length divisible by four (the callers read 1024 or 4096 bytes at a time).
\<close>
theorem calcu_crc32_append:
  assumes "4 dvd length a"
  shows "calcu_crc32 (calcu_crc32 icrc a) b = calcu_crc32 icrc (a @ b)"
  using assms by (auto simp: calcu_crc32_def crc32_pad_mult elim!: dvdE)

theorem calcu_crc32_append_witness:
  "4 dvd length [1, 2, 3, 4 :: u8] \<and>
   calcu_crc32 (calcu_crc32 0xFFFFFFFF [1, 2, 3, 4]) [5] = calcu_crc32 0xFFFFFFFF [1, 2, 3, 4, 5]"
proof -
  have h: "4 dvd length [1, 2, 3, 4 :: u8]" by code_simp
  show ?thesis using h calcu_crc32_append[OF h, of "0xFFFFFFFF" "[5]"] by simp
qed

section \<open>Error detection of the Modbus checksum\<close>

definition modbus_crc_of :: "u8 list \<Rightarrow> u16" where
  "modbus_crc_of data = foldl md_crc_step 0xFFFF data"

lemma CalcCrc16_modbus_all:
  "length data < 65536 \<Longrightarrow> CalcCrc16_modbus data (word_of_nat (length data)) = modbus_crc_of data"
  by (simp add: CalcCrc16_modbus_def modbus_crc_of_def unat_of_nat)

lemma md_crc_step_xor_lo: "md_crc_step crc (lo8 crc) = drop_bit 8 crc"
proof -
  have "crc XOR ucast (lo8 crc) = push_bit 8 (drop_bit 8 crc)"
    by (rule bit_word_eqI) (auto simp: lo8_def bit_simps dest: bit_imp_le_length)
  then have "md_crc_step crc (lo8 crc) = (md_crc_shift ^^ 8) (push_bit 8 (drop_bit 8 crc))"
    by (simp add: md_crc_step_eq md_crc_bits_step_def)
  also have "\<dots> = drop_bit 8 (push_bit 8 (drop_bit 8 crc))"
    by (rule modbus_reg.steps_high) (auto simp: bit_simps)
  also have "\<dots> = drop_bit 8 crc"
    by (rule bit_word_eqI) (auto simp: bit_simps dest: bit_imp_le_length)
  finally show ?thesis .
qed

lemma md_crc_step_self: "md_crc_step (drop_bit 8 crc) (hi8 crc) = 0"
proof -
  have "drop_bit 8 crc XOR ucast (hi8 crc) = 0"
    by (rule bit_word_eqI) (auto simp: hi8_def bit_simps dest: bit_imp_le_length)
  then show ?thesis by (simp add: md_crc_step_eq md_crc_bits_step_def modbus_reg.steps_0)
qed

lemma modbus_crc_residue:
  "modbus_crc_of (data @ [lo8 (modbus_crc_of data), hi8 (modbus_crc_of data)]) = 0"
  by (simp add: modbus_crc_of_def md_crc_step_xor_lo md_crc_step_self)

lemma md_crc_step_inj_crc: "md_crc_step c b = md_crc_step c' b \<Longrightarrow> c = c'"
  by (auto simp: md_crc_step_eq md_crc_bits_step_def word_xor_cancel dest: modbus_reg.steps_inj)

lemma md_crc_run_inj: "foldl md_crc_step c xs = foldl md_crc_step c' xs \<Longrightarrow> c = c'"
  by (induction xs arbitrary: c c') (auto dest: md_crc_step_inj_crc)

lemma md_crc_two_bytes:
  "foldl md_crc_step c [a, b] = (md_crc_shift ^^ 16) (c XOR mk16 b a)"
proof -
  have split: "c XOR mk16 b a = (c XOR ucast a) XOR push_bit 8 (ucast b)"
    by (rule bit_word_eqI) (auto simp: mk16_def bit_simps dest: bit_imp_le_length)
  have "(md_crc_shift ^^ 8) (push_bit 8 (ucast b)) = drop_bit 8 (push_bit 8 (ucast b))"
    by (rule modbus_reg.steps_high) (auto simp: bit_simps)
  also have "drop_bit 8 (push_bit 8 (ucast b :: u16)) = ucast b"
    by (rule bit_word_eqI) (auto simp: bit_simps dest: bit_imp_le_length)
  finally have b: "(md_crc_shift ^^ 8) (push_bit 8 (ucast b)) = ucast b" .
  have "(md_crc_shift ^^ 16) x = (md_crc_shift ^^ 8) ((md_crc_shift ^^ 8) x)" for x
    by (simp flip: funpow_add comp_apply[of "md_crc_shift ^^ 8"])
  then show ?thesis
    by (simp add: split modbus_reg.steps_xor b md_crc_step_eq md_crc_bits_step_def)
qed

lemma md_crc_two_bytes_inj:
  "foldl md_crc_step c [a, b] = foldl md_crc_step c [a', b'] \<Longrightarrow> a = a' \<and> b = b'"
proof -
  assume "foldl md_crc_step c [a, b] = foldl md_crc_step c [a', b']"
  then have "c XOR mk16 b a = c XOR mk16 b' a'"
    unfolding md_crc_two_bytes by (rule modbus_reg.steps_inj)
  then have "mk16 b a = mk16 b' a'"
    by (simp add: word_xor_cancel xor.commute[of c])
  then show ?thesis by (metis hi8_mk16 lo8_mk16)
qed

lemma modbus_crc_burst:
  assumes "modbus_crc_of (pre @ [a, b] @ post) = modbus_crc_of (pre @ [a', b'] @ post)"
  shows "a = a' \<and> b = b'"
proof -
  have "foldl md_crc_step (modbus_crc_of pre) [a, b] = foldl md_crc_step (modbus_crc_of pre) [a', b']"
    by (rule md_crc_run_inj[where xs = post]) (use assms in \<open>simp add: modbus_crc_of_def\<close>)
  then show ?thesis by (rule md_crc_two_bytes_inj)
qed

lemma CalcCrc16_modbus_length:
  "unat num = length data \<Longrightarrow> CalcCrc16_modbus data num = modbus_crc_of data"
  by (simp add: CalcCrc16_modbus_def modbus_crc_of_def)

text \<open>
  two frames that differ only inside two adjacent bytes never carry the same checksum, so
  every burst error that stays inside two neighbouring bytes is caught.
\<close>
theorem CalcCrc16_modbus_burst_detected:
  assumes "unat num = length pre + length post + 2" and "(a, b) \<noteq> (a', b')"
  shows "CalcCrc16_modbus (pre @ [a, b] @ post) num \<noteq> CalcCrc16_modbus (pre @ [a', b'] @ post) num"
  using assms modbus_crc_burst[of pre a b post a' b'] by (auto simp: CalcCrc16_modbus_length)

theorem CalcCrc16_modbus_burst_detected_witness:
  "unat (4 :: u16) = length [9 :: u8] + length [7 :: u8] + 2 \<and> ((1, 2) :: u8 \<times> u8) \<noteq> (2, 1) \<and>
   CalcCrc16_modbus ([9] @ [1, 2] @ [7]) 4 \<noteq> CalcCrc16_modbus ([9] @ [2, 1] @ [7]) 4"
  using CalcCrc16_modbus_burst_detected[of 4 "[9]" "[7]" 1 2 2 1] by simp

text \<open>
  a frame followed by its own checksum, low byte first, has checksum zero.
\<close>
theorem CalcCrc16_modbus_residue:
  assumes "unat num = length data" and "length data + 2 < 65536"
  shows "CalcCrc16_modbus (data @ le16 (CalcCrc16_modbus data num)) (num + 2) = 0"
proof -
  have "unat (num + 2) = length data + 2"
    using assms by (simp add: unat_word_ariths)
  then show ?thesis
    using assms modbus_crc_residue[of data] by (simp add: CalcCrc16_modbus_length le16_def)
qed

theorem CalcCrc16_modbus_residue_witness:
  "unat (3 :: u16) = length [1, 2, 3 :: u8] \<and> length [1, 2, 3 :: u8] + 2 < 65536 \<and>
   CalcCrc16_modbus ([1, 2, 3] @ le16 (CalcCrc16_modbus [1, 2, 3] 3)) (3 + 2) = 0"
  using CalcCrc16_modbus_residue[of 3 "[1, 2, 3]"] by simp

end
