(* ===== verification/Circular_Queue.thy ===== *)
theory Circular_Queue
  imports Prelude
begin

text \<open>
  The byte ring buffer of \<open>components/iot_log/circular_queue.c\<close>.

  A queue is the C structure with its allocated storage (\<open>None\<close> for a null
  \<open>buffer\<close>).  The pointers the functions receive may be null, so they are options; a
  write or read outside the storage, or a remainder by a zero \<open>total\<close>, is a fault of the
  result.  One slot always stays free: a queue of size \<open>n\<close> holds \<open>n - 1\<close> bytes.
  The abstraction \<open>cq_list\<close> is the sequence of readable bytes, and the interface
  \<open>byte_fifo\<close> is what the log code relies on.
\<close>

section \<open>State\<close>

record CircularQueue =
  buffer :: "u8 list option"
  total :: u16
  head :: u16
  tail :: u16

definition CIRCULAR_QUEUE_MAX_SIZE :: u16 where
  "CIRCULAR_QUEUE_MAX_SIZE = 512"

section \<open>Operations\<close>

text \<open>\<open>mem\<close> is what the allocator returns for \<open>sz\<close> bytes: null or fresh storage.\<close>

definition CircularQueue_Init ::
  "u8 list option \<Rightarrow> CircularQueue option \<Rightarrow> u16 \<Rightarrow> CircularQueue option \<times> bool" where
  "CircularQueue_Init mem qp sz =
     (case qp of
        None \<Rightarrow> (qp, False)
      | Some q \<Rightarrow>
          if sz = 0 \<or> CIRCULAR_QUEUE_MAX_SIZE < sz then (qp, False)
          else if mem = None then (Some (q\<lparr>buffer := None\<rparr>), False)
          else (Some (q\<lparr>buffer := mem, total := sz, head := 0, tail := 0\<rparr>), True))"

definition CircularQueue_Uninit :: "CircularQueue option \<Rightarrow> CircularQueue option \<times> bool" where
  "CircularQueue_Uninit qp =
     (case qp of
        None \<Rightarrow> (None, True)
      | Some q \<Rightarrow>
          (if buffer q \<noteq> None
           then (Some (q\<lparr>buffer := None, total := 0, head := 0, tail := 0\<rparr>), True)
           else (Some q, True)))"

definition CircularQueue_IsEmpty :: "CircularQueue option \<Rightarrow> bool" where
  "CircularQueue_IsEmpty qp = (case qp of None \<Rightarrow> True | Some q \<Rightarrow> head q = tail q)"

definition CircularQueue_IsFull :: "CircularQueue option \<Rightarrow> bool cres" where
  "CircularQueue_IsFull qp =
     (case qp of
        None \<Rightarrow> Inr False
      | Some q \<Rightarrow>
          if total q = 0 then Inl Division_By_Zero
          else Inr ((unat (head q) + 1) mod unat (total q) = unat (tail q)))"

definition CircularQueue_Available :: "CircularQueue option \<Rightarrow> u16" where
  "CircularQueue_Available qp =
     (case qp of
        None \<Rightarrow> 0
      | Some q \<Rightarrow>
          if tail q \<le> head q then head q - tail q else total q - tail q + head q)"

definition CircularQueue_Space :: "CircularQueue option \<Rightarrow> u16" where
  "CircularQueue_Space qp =
     (case qp of
        None \<Rightarrow> 0
      | Some q \<Rightarrow> total q - 1 - CircularQueue_Available (Some q))"

text \<open>The index update of both loops: \<open>(i + 1) % total\<close>, computed in \<open>int\<close>.\<close>

definition cq_next :: "CircularQueue \<Rightarrow> u16 \<Rightarrow> u16" where
  "cq_next q i = word_of_nat ((unat i + 1) mod unat (total q))"

fun push_loop :: "CircularQueue \<Rightarrow> u8 list \<Rightarrow> CircularQueue cres" where
  "push_loop q [] = Inr q"
| "push_loop q (b # bs) =
     (case buffer q of
        None \<Rightarrow> Inl Out_Of_Bounds_Write
      | Some buf \<Rightarrow>
          if length buf \<le> unat (head q) then Inl Out_Of_Bounds_Write
          else if total q = 0 then Inl Division_By_Zero
          else push_loop (q\<lparr>buffer := Some (buf[unat (head q) := b]), head := cq_next q (head q)\<rparr>) bs)"

definition CircularQueue_Push ::
  "CircularQueue option \<Rightarrow> u8 list option \<Rightarrow> u16 \<Rightarrow> (CircularQueue option \<times> u16) cres" where
  "CircularQueue_Push qp datap len =
     (case (qp, datap) of
        (Some q, Some data) \<Rightarrow>
          if len = 0 then Inr (qp, 0)
          else if CircularQueue_Space qp < len then Inr (qp, 0)
          else if length data < unat len then Inl Out_Of_Bounds_Read
          else (case push_loop q (take (unat len) data) of
                  Inl e \<Rightarrow> Inl e
                | Inr q' \<Rightarrow> Inr (Some q', len))
      | _ \<Rightarrow> Inr (qp, 0))"

text \<open>The read loop writes \<open>data[i]\<close> of the caller's buffer.\<close>

fun pop_loop :: "nat \<Rightarrow> CircularQueue \<Rightarrow> u8 list \<Rightarrow> nat \<Rightarrow> (CircularQueue \<times> u8 list) cres" where
  "pop_loop 0 q data i = Inr (q, data)"
| "pop_loop (Suc n) q data i =
     (case buffer q of
        None \<Rightarrow> Inl Out_Of_Bounds_Read
      | Some buf \<Rightarrow>
          if length buf \<le> unat (tail q) then Inl Out_Of_Bounds_Read
          else if length data \<le> i then Inl Out_Of_Bounds_Write
          else if total q = 0 then Inl Division_By_Zero
          else pop_loop n (q\<lparr>tail := cq_next q (tail q)\<rparr>) (data[i := buf ! unat (tail q)]) (Suc i))"

definition pop_count :: "CircularQueue option \<Rightarrow> u16 \<Rightarrow> u16" where
  "pop_count qp len =
     (let available = CircularQueue_Available qp;
          len = (if len = 0xFFFF then available else len)
      in if available < len then available else len)"

definition CircularQueue_Pop ::
  "CircularQueue option \<Rightarrow> u8 list option \<Rightarrow> u16 \<Rightarrow>
     (CircularQueue option \<times> u8 list option \<times> u16) cres" where
  "CircularQueue_Pop qp datap len =
     (case (qp, datap) of
        (Some q, Some data) \<Rightarrow>
          (let n = pop_count qp len
           in case pop_loop (unat n) q data 0 of
                Inl e \<Rightarrow> Inl e
              | Inr (q', data') \<Rightarrow> Inr (Some q', Some data', n))
      | _ \<Rightarrow> Inr (qp, datap, 0))"

section \<open>Representation invariant and abstraction\<close>

definition cq_ok :: "CircularQueue \<Rightarrow> bool" where
  "cq_ok q \<longleftrightarrow>
     (case buffer q of None \<Rightarrow> False | Some buf \<Rightarrow> length buf = unat (total q)) \<and>
     0 < total q \<and> head q < total q \<and> tail q < total q"

definition cq_count :: "CircularQueue \<Rightarrow> nat" where
  "cq_count q = (unat (head q) + unat (total q) - unat (tail q)) mod unat (total q)"

definition cq_list :: "CircularQueue \<Rightarrow> u8 list" where
  "cq_list q =
     map (\<lambda>i. the (buffer q) ! ((unat (tail q) + i) mod unat (total q))) [0..<cq_count q]"

section \<open>Ring arithmetic\<close>

lemma ring_index:
  fixes t h T :: nat
  assumes "t < T" "h < T"
  shows "(t + (h + T - t) mod T) mod T = h"
proof -
  have "(t + (h + T - t) mod T) mod T = (t + (h + T - t)) mod T"
    by (simp add: mod_simps)
  also have "\<dots> = (h + T) mod T" using assms by simp
  finally show ?thesis using assms by simp
qed

lemma ring_unique:
  fixes t h T c :: nat
  assumes "t < T" "c < T" "(t + c) mod T = h"
  shows "(h + T - t) mod T = c"
proof (cases "t + c < T")
  case True
  then show ?thesis using assms by auto
next
  case False
  then have "h = t + c - T" using assms by (simp add: le_mod_geq)
  then show ?thesis using assms False by simp
qed

lemma ring_distinct:
  fixes t T i c :: nat
  assumes "i < c" "c < T"
  shows "(t + i) mod T \<noteq> (t + c) mod T"
proof
  assume "(t + i) mod T = (t + c) mod T"
  then have "T dvd (t + c) - (t + i)"
    using mod_eq_dvd_iff_nat[of "t + i" "t + c" T] assms by simp
  then show False using assms by (auto dest: dvd_imp_le)
qed

lemma cq_okE:
  assumes "cq_ok q"
  obtains buf where "buffer q = Some buf" "length buf = unat (total q)"
    "unat (head q) < unat (total q)" "unat (tail q) < unat (total q)"
  using assms by (auto simp: cq_ok_def word_less_nat_alt split: option.splits)

lemma cq_okI:
  assumes "buffer q = Some buf" "length buf = unat (total q)"
    "unat (head q) < unat (total q)" "unat (tail q) < unat (total q)"
  shows "cq_ok q"
  using assms by (auto simp: cq_ok_def word_less_nat_alt)

lemma cq_count_less [cq_simps]: "cq_ok q \<Longrightarrow> cq_count q < unat (total q)"
  by (auto simp: cq_count_def elim: cq_okE)

lemma cq_count_index: "cq_ok q \<Longrightarrow> (unat (tail q) + cq_count q) mod unat (total q) = unat (head q)"
  unfolding cq_count_def by (elim cq_okE) (rule ring_index)

lemma cq_count_unique:
  "cq_ok q \<Longrightarrow> c < unat (total q) \<Longrightarrow> (unat (tail q) + c) mod unat (total q) = unat (head q) \<Longrightarrow>
     cq_count q = c"
  unfolding cq_count_def by (elim cq_okE) (rule ring_unique)

lemma length_cq_list [simp]: "length (cq_list q) = cq_count q"
  by (simp add: cq_list_def)

lemma unat_cq_next [cq_simps]:
  "cq_ok q \<Longrightarrow> unat (cq_next q i) = (unat i + 1) mod unat (total q)"
proof -
  assume "cq_ok q"
  then have "(unat i + 1) mod unat (total q) < unat (total q)"
    by (intro mod_less_divisor) (auto elim: cq_okE)
  then have "(unat i + 1) mod unat (total q) < 2 ^ 16"
    using unsigned_less[of "total q", where 'a = nat] by simp
  then show ?thesis by (simp add: cq_next_def unat_of_nat)
qed

lemma cq_ok_total_pos: "cq_ok q \<Longrightarrow> 0 < unat (total q)" "cq_ok q \<Longrightarrow> total q \<noteq> 0"
  by (auto elim!: cq_okE)

lemma unat_Available:
  assumes "cq_ok q" shows "unat (CircularQueue_Available (Some q)) = cq_count q"
proof -
  from assms have lt: "unat (head q) < unat (total q)" "unat (tail q) < unat (total q)"
    by (auto elim: cq_okE)
  have b: "unat (total q) < 65536" using unsigned_less[of "total q", where 'a = nat] by simp
  show ?thesis
  proof (cases "tail q \<le> head q")
    case True
    then have le: "unat (tail q) \<le> unat (head q)" by (simp add: word_le_nat_alt)
    then have "unat (head q - tail q) = unat (head q) - unat (tail q)" by (simp add: unat_sub True)
    moreover have "cq_count q = unat (head q) - unat (tail q)"
      using lt le by (intro cq_count_unique assms) auto
    ultimately show ?thesis using True by (simp add: CircularQueue_Available_def)
  next
    case False
    then have le: "unat (head q) < unat (tail q)" by (simp add: word_le_nat_alt)
    have "unat (total q - tail q) = unat (total q) - unat (tail q)"
      using lt by (intro unat_sub) (simp add: word_le_nat_alt)
    then have "unat (total q - tail q + head q) = unat (total q) - unat (tail q) + unat (head q)"
      using lt le b by (simp add: unat_word_ariths)
    moreover have "cq_count q = unat (total q) - unat (tail q) + unat (head q)"
      using lt le by (intro cq_count_unique assms) auto
    ultimately show ?thesis using False by (simp add: CircularQueue_Available_def)
  qed
qed

lemma unat_Space:
  assumes "cq_ok q" shows "unat (CircularQueue_Space (Some q)) = unat (total q) - 1 - cq_count q"
proof -
  have c: "cq_count q < unat (total q)" using assms by (rule cq_count_less)
  have one: "unat (total q - 1) = unat (total q) - 1"
    using cq_ok_total_pos[OF assms] by (simp add: unat_minus_one)
  have "CircularQueue_Available (Some q) \<le> total q - 1"
    using c one by (simp add: word_le_nat_alt unat_Available[OF assms])
  then show ?thesis
    using one by (simp add: CircularQueue_Space_def unat_sub unat_Available[OF assms])
qed

section \<open>One byte\<close>

lemma cq_push_byte:
  fixes b :: u8
  assumes ok: "cq_ok q" and room: "cq_count q + 1 < unat (total q)" and buf: "buffer q = Some buf"
  defines "q' \<equiv> q\<lparr>buffer := Some (buf[unat (head q) := b]), head := cq_next q (head q)\<rparr>"
  shows "cq_ok q'" "cq_count q' = cq_count q + 1" "cq_list q' = cq_list q @ [b]"
proof -
  let ?T = "unat (total q)"
  note nx = unat_cq_next[OF ok]
  from ok buf have len: "length buf = ?T" and lt: "unat (head q) < ?T" "unat (tail q) < ?T"
    by (auto elim: cq_okE)
  show ok': "cq_ok q'"
    using len lt by (intro cq_okI[where buf = "buf[unat (head q) := b]"]) (simp_all add: q'_def nx)
  show cnt: "cq_count q' = cq_count q + 1"
  proof (rule cq_count_unique[OF ok'])
    show "cq_count q + 1 < unat (total q')" using room by (simp add: q'_def)
    have "(unat (tail q) + cq_count q + 1) mod ?T = ((unat (tail q) + cq_count q) mod ?T + 1) mod ?T"
      by (simp add: mod_simps)
    then show "(unat (tail q') + (cq_count q + 1)) mod unat (total q') = unat (head q')"
      by (simp add: q'_def nx cq_count_index[OF ok] add.assoc)
  qed
  show "cq_list q' = cq_list q @ [b]"
  proof (rule nth_equalityI)
    show "length (cq_list q') = length (cq_list q @ [b])" by (simp add: cnt)
  next
    fix i assume "i < length (cq_list q')"
    then have i: "i < cq_count q + 1" by (simp add: cnt)
    show "cq_list q' ! i = (cq_list q @ [b]) ! i"
    proof (cases "i = cq_count q")
      case True
      then show ?thesis
        using cnt len lt cq_count_index[OF ok] by (simp add: cq_list_def q'_def nth_append del: upt_Suc)
    next
      case False
      then have "i < cq_count q" using i by simp
      then have "(unat (tail q) + i) mod ?T \<noteq> unat (head q)"
        using ring_distinct[of i "cq_count q" ?T "unat (tail q)"] cq_count_less[OF ok]
        by (simp add: cq_count_index[OF ok])
      then show ?thesis
        using cnt \<open>i < cq_count q\<close> buf by (simp add: cq_list_def q'_def nth_append del: upt_Suc)
    qed
  qed
qed

lemma cq_pop_byte:
  assumes ok: "cq_ok q" and some: "0 < cq_count q" and buf: "buffer q = Some buf"
  defines "q' \<equiv> q\<lparr>tail := cq_next q (tail q)\<rparr>"
  shows "cq_ok q'" "cq_count q' = cq_count q - 1" "cq_list q = buf ! unat (tail q) # cq_list q'"
proof -
  let ?T = "unat (total q)"
  note nx = unat_cq_next[OF ok]
  from ok buf have len: "length buf = ?T" and lt: "unat (head q) < ?T" "unat (tail q) < ?T"
    by (auto elim: cq_okE)
  show ok': "cq_ok q'"
    using len lt buf by (intro cq_okI[where buf = buf]) (simp_all add: q'_def nx)
  have shift: "((unat (tail q) + 1) mod ?T + i) mod ?T = (unat (tail q) + Suc i) mod ?T" for i
    by (simp add: mod_simps)
  show cnt: "cq_count q' = cq_count q - 1"
  proof (rule cq_count_unique[OF ok'])
    show "cq_count q - 1 < unat (total q')" using cq_count_less[OF ok] by (simp add: q'_def)
    show "(unat (tail q') + (cq_count q - 1)) mod unat (total q') = unat (head q')"
      using some shift[of "cq_count q - 1"] by (simp add: q'_def nx cq_count_index[OF ok])
  qed
  show "cq_list q = buf ! unat (tail q) # cq_list q'"
  proof (rule nth_equalityI)
    show "length (cq_list q) = length (buf ! unat (tail q) # cq_list q')" using some by (simp add: cnt)
  next
    fix i assume i: "i < length (cq_list q)"
    show "cq_list q ! i = (buf ! unat (tail q) # cq_list q') ! i"
    proof (cases i)
      case 0
      then show ?thesis using i lt buf by (simp add: cq_list_def)
    next
      case (Suc j)
      then have "j < cq_count q'" using i by (simp add: cnt)
      then show ?thesis
        using i Suc buf shift[of j] by (simp add: cq_list_def q'_def nx)
    qed
  qed
qed

section \<open>The loops\<close>

lemma push_loop_ok:
  "cq_ok q \<Longrightarrow> cq_count q + length bs < unat (total q) \<Longrightarrow>
     \<exists>q'. push_loop q bs = Inr q' \<and> cq_ok q' \<and> cq_list q' = cq_list q @ bs \<and> total q' = total q"
proof (induction bs arbitrary: q)
  case Nil
  then show ?case by simp
next
  case (Cons b bs)
  from Cons.prems(1) obtain buf where buf: "buffer q = Some buf" "length buf = unat (total q)"
    "unat (head q) < unat (total q)" by (auto elim: cq_okE)
  let ?q = "q\<lparr>buffer := Some (buf[unat (head q) := b]), head := cq_next q (head q)\<rparr>"
  have room: "cq_count q + 1 < unat (total q)" using Cons.prems(2) by simp
  note step = cq_push_byte[OF Cons.prems(1) room buf(1), of b]
  obtain q' where "push_loop ?q bs = Inr q'" "cq_ok q'" "cq_list q' = cq_list ?q @ bs" "total q' = total q"
    using Cons.IH[OF step(1)] Cons.prems(2) step(2) by auto
  then show ?case
    using buf cq_ok_total_pos[OF Cons.prems(1)] step(3) by auto
qed

lemma pop_loop_ok:
  "cq_ok q \<Longrightarrow> n \<le> cq_count q \<Longrightarrow> i + n \<le> length data \<Longrightarrow>
     \<exists>q'. pop_loop n q data i = Inr (q', take i data @ take n (cq_list q) @ drop (i + n) data) \<and>
          cq_ok q' \<and> cq_list q' = drop n (cq_list q) \<and> total q' = total q"
proof (induction n arbitrary: q data i)
  case 0
  then show ?case by simp
next
  case (Suc n)
  from Suc.prems(1) obtain buf where buf: "buffer q = Some buf" "length buf = unat (total q)"
    "unat (tail q) < unat (total q)" by (auto elim: cq_okE)
  let ?q = "q\<lparr>tail := cq_next q (tail q)\<rparr>"
  let ?d = "data[i := buf ! unat (tail q)]"
  have some: "0 < cq_count q" using Suc.prems(2) by simp
  note step = cq_pop_byte[OF Suc.prems(1) some buf(1)]
  have le: "n \<le> cq_count ?q" and len: "Suc i + n \<le> length ?d"
    using Suc.prems step(2) by simp_all
  obtain q' where q': "pop_loop n ?q ?d (Suc i) =
      Inr (q', take (Suc i) ?d @ take n (cq_list ?q) @ drop (Suc i + n) ?d)"
    "cq_ok q'" "cq_list q' = drop n (cq_list ?q)" "total q' = total q"
    using Suc.IH[OF step(1) le len] by auto
  have "take (Suc i) ?d = take i data @ [buf ! unat (tail q)]"
    using Suc.prems(3) by (simp add: take_Suc_nth)
  then show ?case
    using q' buf Suc.prems(3) cq_ok_total_pos[OF Suc.prems(1)] step(3) by auto
qed

section \<open>The operations\<close>

lemma Init_ok:
  assumes "0 < sz" "sz \<le> 512" "length mem = unat sz"
  shows "\<exists>q'. CircularQueue_Init (Some mem) (Some q) sz = (Some q', True) \<and> cq_ok q' \<and> cq_list q' = []"
  using assms
  by (auto simp: CircularQueue_Init_def CIRCULAR_QUEUE_MAX_SIZE_def cq_ok_def cq_list_def cq_count_def)

lemma Push_room:
  assumes ok: "cq_ok q" and len: "len \<noteq> 0" "unat len \<le> length data"
    and room: "cq_count q + unat len < unat (total q)"
  shows "\<exists>q'. CircularQueue_Push (Some q) (Some data) len = Inr (Some q', len) \<and> cq_ok q' \<and>
           cq_list q' = cq_list q @ take (unat len) data \<and> total q' = total q"
proof -
  have "\<not> CircularQueue_Space (Some q) < len"
    using room unat_Space[OF ok] by (simp add: word_less_nat_alt)
  moreover obtain q' where "push_loop q (take (unat len) data) = Inr q'" "cq_ok q'"
    "cq_list q' = cq_list q @ take (unat len) data" "total q' = total q"
    using push_loop_ok[OF ok, of "take (unat len) data"] room len by auto
  ultimately show ?thesis using len by (simp add: CircularQueue_Push_def)
qed

lemma Push_full:
  assumes ok: "cq_ok q" and full: "unat (total q) \<le> cq_count q + unat len"
  shows "CircularQueue_Push (Some q) (Some data) len = Inr (Some q, 0)"
proof -
  have "CircularQueue_Space (Some q) < len \<or> len = 0"
    using full unat_Space[OF ok] cq_count_less[OF ok]
    by (auto simp: word_less_nat_alt simp flip: unat_eq_0)
  then show ?thesis by (auto simp: CircularQueue_Push_def)
qed

lemma unat_pop_count:
  assumes "cq_ok q"
  shows "unat (pop_count (Some q) len) = (if len = 0xFFFF then cq_count q else min (cq_count q) (unat len))"
  using unat_Available[OF assms]
  by (auto simp: pop_count_def Let_def word_less_nat_alt word_le_nat_alt min_def)

lemma Pop_ok:
  assumes ok: "cq_ok q" and n: "n = unat (pop_count (Some q) len)" and cap: "n \<le> length data"
  shows "\<exists>q'. CircularQueue_Pop (Some q) (Some data) len =
             Inr (Some q', Some (take n (cq_list q) @ drop n data), pop_count (Some q) len) \<and>
           cq_ok q' \<and> cq_list q' = drop n (cq_list q) \<and> total q' = total q"
proof -
  have "n \<le> cq_count q" using n unat_pop_count[OF ok, of len] by (simp split: if_splits)
  then show ?thesis
    using pop_loop_ok[OF ok, of n 0 data] n cap by (auto simp: CircularQueue_Pop_def Let_def)
qed

section \<open>The queue as a byte FIFO\<close>

text \<open>
  The interface the logging code uses: whole-batch writes that are dropped when they do not
  fit, reads of at most a given number of bytes, and the sequence of bytes held.
\<close>

datatype fifo_op = Write "u8 list" | Read nat

fun fifo_run ::
  "('s \<Rightarrow> u8 list \<Rightarrow> ('s \<times> nat) cres) \<Rightarrow> ('s \<Rightarrow> nat \<Rightarrow> ('s \<times> u8 list) cres) \<Rightarrow>
     's \<Rightarrow> fifo_op list \<Rightarrow> ('s \<times> u8 list \<times> u8 list) cres" where
  "fifo_run push pop s [] = Inr (s, [], [])"
| "fifo_run push pop s (Write bs # ops) =
     (case push s bs of
        Inl e \<Rightarrow> Inl e
      | Inr (s', n) \<Rightarrow>
          (case fifo_run push pop s' ops of
             Inl e \<Rightarrow> Inl e
           | Inr (t, accepted, delivered) \<Rightarrow> Inr (t, take n bs @ accepted, delivered)))"
| "fifo_run push pop s (Read k # ops) =
     (case pop s k of
        Inl e \<Rightarrow> Inl e
      | Inr (s', out) \<Rightarrow>
          (case fifo_run push pop s' ops of
             Inl e \<Rightarrow> Inl e
           | Inr (t, accepted, delivered) \<Rightarrow> Inr (t, accepted, out @ delivered)))"

definition op_sized :: "fifo_op \<Rightarrow> bool" where
  "op_sized oper = (case oper of Write bs \<Rightarrow> length bs < 65536 | Read k \<Rightarrow> k < 65536)"

locale byte_fifo =
  fixes push :: "'s \<Rightarrow> u8 list \<Rightarrow> ('s \<times> nat) cres"
    and pop :: "'s \<Rightarrow> nat \<Rightarrow> ('s \<times> u8 list) cres"
    and contents :: "'s \<Rightarrow> u8 list"
    and invar :: "'s \<Rightarrow> bool"
  assumes push_law: "invar s \<Longrightarrow> length bs < 65536 \<Longrightarrow>
      \<exists>s' n. push s bs = Inr (s', n) \<and> n \<in> {0, length bs} \<and> invar s' \<and>
             contents s' = contents s @ take n bs"
    and pop_law: "invar s \<Longrightarrow> k < 65536 \<Longrightarrow>
      \<exists>s' out. pop s k = Inr (s', out) \<and> invar s' \<and> length out \<le> k \<and> contents s = out @ contents s'"
begin

lemma run_total:
  "invar s \<Longrightarrow> list_all op_sized ops \<Longrightarrow>
     \<exists>t accepted delivered. fifo_run push pop s ops = Inr (t, accepted, delivered) \<and> invar t \<and>
        contents s @ accepted = delivered @ contents t"
proof (induction ops arbitrary: s)
  case Nil
  then show ?case by simp
next
  case (Cons oper ops)
  show ?case
  proof (cases oper)
    case (Write bs)
    then have "length bs < 65536" using Cons.prems(2) by (simp add: op_sized_def)
    from push_law[OF Cons.prems(1) this] obtain s' n where
      p: "push s bs = Inr (s', n)" "invar s'" "contents s' = contents s @ take n bs" by blast
    from Cons.IH[OF p(2)] Cons.prems(2) show ?thesis using Write p by fastforce
  next
    case (Read k)
    then have "k < 65536" using Cons.prems(2) by (simp add: op_sized_def)
    from pop_law[OF Cons.prems(1) this] obtain s' out where
      p: "pop s k = Inr (s', out)" "invar s'" "contents s = out @ contents s'" by blast
    from Cons.IH[OF p(2)] Cons.prems(2) show ?thesis using Read p by fastforce
  qed
qed

end

text \<open>The two calls as the client makes them, with a read buffer of the requested size.\<close>

definition cq_write :: "CircularQueue \<Rightarrow> u8 list \<Rightarrow> (CircularQueue \<times> nat) cres" where
  "cq_write q bs =
     (case CircularQueue_Push (Some q) (Some bs) (word_of_nat (length bs)) of
        Inr (Some q', n) \<Rightarrow> Inr (q', unat n)
      | Inr (None, n) \<Rightarrow> Inr (q, unat n)
      | Inl e \<Rightarrow> Inl e)"

definition cq_read :: "CircularQueue \<Rightarrow> nat \<Rightarrow> (CircularQueue \<times> u8 list) cres" where
  "cq_read q k =
     (case CircularQueue_Pop (Some q) (Some (replicate k 0)) (word_of_nat k) of
        Inr (Some q', Some data, n) \<Rightarrow> Inr (q', take (unat n) data)
      | Inr _ \<Rightarrow> Inr (q, [])
      | Inl e \<Rightarrow> Inl e)"

lemma cq_write_law:
  assumes "cq_ok q" "length bs < 65536"
  shows "\<exists>q' n. cq_write q bs = Inr (q', n) \<and> n \<in> {0, length bs} \<and> cq_ok q' \<and>
           cq_list q' = cq_list q @ take n bs"
proof -
  let ?len = "word_of_nat (length bs) :: u16"
  have len: "unat ?len = length bs" using assms(2) by (simp add: unat_of_nat)
  show ?thesis
  proof (cases "cq_count q + length bs < unat (total q) \<and> ?len \<noteq> 0")
    case True
    then show ?thesis
      using Push_room[OF assms(1), of ?len bs] len by (auto simp: cq_write_def)
  next
    case False
    then have "CircularQueue_Push (Some q) (Some bs) ?len = Inr (Some q, 0)"
      using Push_full[OF assms(1), of ?len bs] len by (auto simp: CircularQueue_Push_def)
    then show ?thesis using assms(1) by (auto simp: cq_write_def)
  qed
qed

lemma cq_read_law:
  assumes ok: "cq_ok q" and k: "k < 65536"
  shows "\<exists>q' out. cq_read q k = Inr (q', out) \<and> cq_ok q' \<and> length out \<le> k \<and>
           cq_list q = out @ cq_list q'"
proof -
  let ?len = "word_of_nat k :: u16"
  let ?n = "unat (pop_count (Some q) ?len)"
  have len: "unat ?len = k" using k by (simp add: unat_of_nat)
  have c: "cq_count q < 65536"
    using cq_count_less[OF ok] unsigned_less[of "total q", where 'a = nat] by simp
  have n: "?n \<le> k" "?n \<le> cq_count q"
  proof -
    have "k = 65535" if "?len = 0xFFFF" using that len by simp
    then show "?n \<le> k" "?n \<le> cq_count q"
      using unat_pop_count[OF ok, of ?len] len c by (auto split: if_splits)
  qed
  then show ?thesis
    using Pop_ok[OF ok refl, of ?len "replicate k 0"] by (auto simp: cq_read_def)
qed

interpretation log_ring: byte_fifo cq_write cq_read cq_list cq_ok
  by unfold_locales (use cq_write_law cq_read_law in auto)

section \<open>Properties\<close>

text \<open>
  a write either appends the whole batch to the readable bytes or, when it does not fit
  in the free space, changes nothing and reports zero bytes; it never faults on a
  well-formed queue.
\<close>
theorem CircularQueue_Push_refines:
  assumes "cq_ok q" and "len \<noteq> 0" and "unat len \<le> length data"
  shows "\<exists>q' n. CircularQueue_Push (Some q) (Some data) len = Inr (Some q', n) \<and> cq_ok q' \<and>
           (if cq_count q + unat len < unat (total q)
            then n = len \<and> cq_list q' = cq_list q @ take (unat len) data
            else n = 0 \<and> q' = q)"
proof (cases "cq_count q + unat len < unat (total q)")
  case True
  then show ?thesis using Push_room[OF assms True] by auto
next
  case False
  then show ?thesis using Push_full[OF assms(1), of len data] assms(1) by auto
qed

text \<open>A queue of four cells whose indices have wrapped, with two bytes readable.\<close>

definition sample_queue :: CircularQueue where
  "sample_queue = \<lparr>buffer = Some [2, 0, 0, 1], total = 4, head = 1, tail = 3\<rparr>"

lemma sample_queue_ok: "cq_ok sample_queue"
  by (simp add: sample_queue_def cq_ok_def)

lemma sample_queue_count: "cq_count sample_queue = 2"
  by (simp add: sample_queue_def cq_count_def)

theorem CircularQueue_Push_refines_witness:
  "cq_ok sample_queue \<and> (1 :: u16) \<noteq> 0 \<and> unat (1 :: u16) \<le> length [7 :: u8] \<and>
   (\<exists>q' n. CircularQueue_Push (Some sample_queue) (Some [7]) 1 = Inr (Some q', n) \<and> cq_ok q' \<and>
      (if cq_count sample_queue + unat (1 :: u16) < unat (total sample_queue)
       then n = 1 \<and> cq_list q' = cq_list sample_queue @ take (unat (1 :: u16)) [7]
       else n = 0 \<and> q' = sample_queue))"
  using CircularQueue_Push_refines[OF sample_queue_ok, of 1 "[7]"] sample_queue_ok by simp

text \<open>
  a read delivers the oldest bytes, at most the requested number (all of them for
  \<open>0xFFFF\<close>), into the front of the caller's buffer, and removes exactly those.
\<close>
theorem CircularQueue_Pop_refines:
  assumes "cq_ok q"
    and "n = (if len = 0xFFFF then cq_count q else min (cq_count q) (unat len))"
    and "n \<le> length data"
  shows "\<exists>q' r. CircularQueue_Pop (Some q) (Some data) len =
           Inr (Some q', Some (take n (cq_list q) @ drop n data), r) \<and> unat r = n \<and>
           cq_ok q' \<and> cq_list q' = drop n (cq_list q)"
  using Pop_ok[OF assms(1), of n len data] assms(2,3) unat_pop_count[OF assms(1), of len] by auto

theorem CircularQueue_Pop_refines_witness:
  "cq_ok sample_queue \<and> (2::nat) \<le> length [0, 0, 0 :: u8] \<and>
   (\<exists>q' r. CircularQueue_Pop (Some sample_queue) (Some [0, 0, 0]) 0xFFFF =
      Inr (Some q', Some (take 2 (cq_list sample_queue) @ drop 2 [0, 0, 0]), r) \<and> unat r = 2 \<and>
      cq_ok q' \<and> cq_list q' = drop 2 (cq_list sample_queue))"
  using CircularQueue_Pop_refines[OF sample_queue_ok, of 2 "0xFFFF" "[0, 0, 0]"]
    sample_queue_ok sample_queue_count by simp

text \<open>
  C23: starting from a freshly initialised queue, any sequence of writes and reads runs
  without a fault, and the accepted bytes are exactly the delivered bytes followed by
  the bytes still held, in order: nothing is lost, duplicated or reordered.
\<close>
theorem CircularQueue_fifo_order:
  assumes "CircularQueue_Init (Some mem) (Some q0) sz = (Some q, True)"
    and "length mem = unat sz" and "list_all op_sized ops"
  shows "\<exists>t accepted delivered. fifo_run cq_write cq_read q ops = Inr (t, accepted, delivered) \<and>
           cq_ok t \<and> accepted = delivered @ cq_list t"
proof -
  have "0 < sz" "sz \<le> 512"
    using assms(1)
    by (auto simp: CircularQueue_Init_def CIRCULAR_QUEUE_MAX_SIZE_def word_neq_0_conv not_less
             split: if_splits)
  then have "cq_ok q" "cq_list q = []"
    using Init_ok[OF _ _ assms(2), of q0] assms(1) by auto
  then show ?thesis using log_ring.run_total[of q ops] assms(3) by auto
qed

theorem CircularQueue_fifo_order_witness:
  "CircularQueue_Init (Some [0, 0, 0]) (Some sample_queue) 3 =
     (Some \<lparr>buffer = Some [0, 0, 0], total = 3, head = 0, tail = 0\<rparr>, True) \<and>
   length [0, 0, 0 :: u8] = unat (3 :: u16) \<and> list_all op_sized [Write [5, 6], Write [7], Read 1] \<and>
   (\<exists>t accepted delivered. fifo_run cq_write cq_read
      \<lparr>buffer = Some [0, 0, 0], total = 3, head = 0, tail = 0\<rparr> [Write [5, 6], Write [7], Read 1] =
      Inr (t, accepted, delivered) \<and> cq_ok t \<and> accepted = delivered @ cq_list t)"
proof -
  have i: "CircularQueue_Init (Some [0, 0, 0]) (Some sample_queue) 3 =
     (Some \<lparr>buffer = Some [0, 0, 0], total = 3, head = 0, tail = 0\<rparr>, True)"
    by (simp add: CircularQueue_Init_def CIRCULAR_QUEUE_MAX_SIZE_def sample_queue_def)
  have o: "list_all op_sized [Write [5, 6], Write [7], Read 1]" by (simp add: op_sized_def)
  show ?thesis using i o CircularQueue_fifo_order[OF i _ o] by simp
qed

text \<open>
  the status functions agree with the abstraction: empty means no readable byte, full
  means one cell short of the storage, and the free space is what a write may still add.
\<close>
theorem CircularQueue_status:
  assumes "cq_ok q"
  shows "(CircularQueue_IsEmpty (Some q) \<longleftrightarrow> cq_list q = []) \<and>
         CircularQueue_IsFull (Some q) = Inr (length (cq_list q) = unat (total q) - 1) \<and>
         unat (CircularQueue_Available (Some q)) = length (cq_list q) \<and>
         unat (CircularQueue_Space (Some q)) = unat (total q) - 1 - length (cq_list q)"
proof -
  let ?T = "unat (total q)"
  from assms have lt: "unat (head q) < ?T" "unat (tail q) < ?T" by (auto elim: cq_okE)
  note c = cq_count_less[OF assms] and i = cq_count_index[OF assms]
  have "head q = tail q \<longleftrightarrow> cq_count q = 0"
  proof
    assume "head q = tail q"
    then show "cq_count q = 0" using lt by (intro cq_count_unique[OF assms]) auto
  next
    assume "cq_count q = 0"
    then show "head q = tail q" using i lt by (simp add: word_unat_eq_iff)
  qed
  then have e: "CircularQueue_IsEmpty (Some q) \<longleftrightarrow> cq_list q = []"
    by (simp add: CircularQueue_IsEmpty_def flip: length_0_conv)
  have step: "(unat (tail q) + (cq_count q + 1)) mod ?T = (unat (head q) + 1) mod ?T"
    using i by (metis add.assoc mod_add_left_eq)
  have "(unat (head q) + 1) mod ?T = unat (tail q) \<longleftrightarrow> cq_count q + 1 = ?T"
  proof
    assume full: "(unat (head q) + 1) mod ?T = unat (tail q)"
    show "cq_count q + 1 = ?T"
    proof (rule ccontr)
      assume "cq_count q + 1 \<noteq> ?T"
      then have "cq_count q + 1 < ?T" using c by simp
      then show False
        using ring_distinct[of 0 "cq_count q + 1" ?T "unat (tail q)"] step full lt by simp
    qed
  next
    assume "cq_count q + 1 = ?T"
    then show "(unat (head q) + 1) mod ?T = unat (tail q)" using step lt by simp
  qed
  then have f: "CircularQueue_IsFull (Some q) = Inr (cq_count q = ?T - 1)"
    using cq_ok_total_pos[OF assms] c by (auto simp: CircularQueue_IsFull_def)
  show ?thesis using e f unat_Available[OF assms] unat_Space[OF assms] by simp
qed

theorem CircularQueue_status_witness:
  "cq_ok sample_queue \<and>
   (CircularQueue_IsEmpty (Some sample_queue) \<longleftrightarrow> cq_list sample_queue = []) \<and>
   CircularQueue_IsFull (Some sample_queue) =
     Inr (length (cq_list sample_queue) = unat (total sample_queue) - 1) \<and>
   unat (CircularQueue_Available (Some sample_queue)) = length (cq_list sample_queue) \<and>
   unat (CircularQueue_Space (Some sample_queue)) =
     unat (total sample_queue) - 1 - length (cq_list sample_queue)"
  using CircularQueue_status[OF sample_queue_ok] sample_queue_ok by blast

text \<open>
  after \<open>CircularQueue_Uninit\<close> the size is zero, the free space wraps around to
  65535, and every non-empty write goes through the null buffer instead of being refused.
\<close>
theorem CircularQueue_Push_after_Uninit:
  assumes "CircularQueue_Uninit (Some q) = (Some q', r)" and "buffer q \<noteq> None"
    and "len \<noteq> 0" and "unat len \<le> length data"
  shows "CircularQueue_Push (Some q') (Some data) len = Inl Out_Of_Bounds_Write"
proof -
  have q': "q' = q\<lparr>buffer := None, total := 0, head := 0, tail := 0\<rparr>"
    using assms(1,2) by (auto simp: CircularQueue_Uninit_def)
  have "\<not> CircularQueue_Space (Some q') < len"
    by (simp add: q' CircularQueue_Space_def CircularQueue_Available_def not_less)
  moreover obtain b bs where "take (unat len) data = b # bs"
    using assms(3,4) by (cases "take (unat len) data") (auto simp: unat_eq_0)
  ultimately show ?thesis using assms(3,4) by (simp add: CircularQueue_Push_def q')
qed

theorem CircularQueue_Push_after_Uninit_witness:
  "CircularQueue_Uninit (Some sample_queue) =
     (Some \<lparr>buffer = None, total = 0, head = 0, tail = 0\<rparr>, True) \<and>
   buffer sample_queue \<noteq> None \<and> (1 :: u16) \<noteq> 0 \<and> unat (1 :: u16) \<le> length [9 :: u8] \<and>
   CircularQueue_Push (Some \<lparr>buffer = None, total = 0, head = 0, tail = 0\<rparr>) (Some [9]) 1 =
     Inl Out_Of_Bounds_Write"
proof -
  have u: "CircularQueue_Uninit (Some sample_queue) =
     (Some \<lparr>buffer = None, total = 0, head = 0, tail = 0\<rparr>, True)"
    by (simp add: CircularQueue_Uninit_def sample_queue_def)
  have b: "buffer sample_queue \<noteq> None" by (simp add: sample_queue_def)
  show ?thesis using u b CircularQueue_Push_after_Uninit[OF u b, of 1 "[9]"] by simp
qed

end
