(* ===== verification/Conversions.thy ===== *)
theory Conversions
  imports Prelude
begin

text \<open>
  Value conversions: \<open>general_ops/general_conversions.c\<close> (assembling 64-bit values from
  registers, sign extension, the packed three-phase word, serial numbers as decimal text,
  string joining, version prefixes) and the default serial number of
  \<open>utilities/utils.c\<close>.  C strings are lists of bytes; a caller's output buffer is the
  list of the bytes it owns.
\<close>

section \<open>Assembling and sign-extending\<close>

definition GetUin64FromPtrBig :: "u16 list \<Rightarrow> u64" where
  "GetUin64FromPtrBig p =
     (push_bit 48 (ucast (p ! 0)) AND 0xffff000000000000) OR
     (push_bit 32 (ucast (p ! 1)) AND 0xffff00000000) OR
     (push_bit 16 (ucast (p ! 2)) AND 0xffff0000) OR
     (ucast (p ! 3) AND 0xffff)"

definition GetUin64FromPtrSmall :: "u16 list \<Rightarrow> u64" where
  "GetUin64FromPtrSmall p =
     (push_bit 48 (ucast (p ! 3)) AND 0xffff000000000000) OR
     (push_bit 32 (ucast (p ! 2)) AND 0xffff00000000) OR
     (push_bit 16 (ucast (p ! 1)) AND 0xffff0000) OR
     (ucast (p ! 0) AND 0xffff)"

definition decode_signed_explicit :: "u32 \<Rightarrow> u32" where
  "decode_signed_explicit raw =
     (let low16 = ucast (raw AND 0xFFFF) :: u16 in
      if low16 AND 0x8000 \<noteq> 0 then scast low16 else ucast low16)"

definition sign_extend_16to32_bit :: "u32 \<Rightarrow> u32" where
  "sign_extend_16to32_bit value =
     (let low16 = ucast (value AND 0xFFFF) :: u16 in
      if low16 AND 0x8000 \<noteq> 0 then ucast low16 OR 0xFFFF0000 else ucast low16)"

lemma GetUin64_mirror:
  "GetUin64FromPtrSmall [a, b, c, d] = GetUin64FromPtrBig [d, c, b, a]"
  by (simp add: GetUin64FromPtrSmall_def GetUin64FromPtrBig_def numeral_3_eq_3)

section \<open>The packed three-phase word\<close>

text \<open>
  The bit-fields of \<open>ThreePhaseValue_t\<close>, allocated from the least significant bit as the
  compiler of the target does.
\<close>

definition tp_field :: "nat \<Rightarrow> nat \<Rightarrow> u64 \<Rightarrow> u32" where
  "tp_field pos width w = ucast (take_bit width (drop_bit pos w))"

definition l1_raw :: "u64 \<Rightarrow> u32" where
  "l1_raw w = push_bit 16 (tp_field 16 4 w) OR push_bit 8 (tp_field 8 8 w) OR tp_field 0 8 w"

definition l2_raw :: "u64 \<Rightarrow> u32" where
  "l2_raw w = push_bit 12 (tp_field 32 8 w) OR push_bit 4 (tp_field 24 8 w) OR tp_field 20 4 w"

definition l3_raw :: "u64 \<Rightarrow> u32" where
  "l3_raw w = push_bit 16 (tp_field 56 4 w) OR push_bit 8 (tp_field 48 8 w) OR tp_field 40 8 w"

definition sign20 :: "u32 \<Rightarrow> u32" where
  "sign20 raw = (if raw AND 0x80000 \<noteq> 0 then raw OR 0xFFF00000 else raw)"

definition extract_three_phase_power_corrected :: "u64 \<Rightarrow> u32 \<times> u32 \<times> u32 \<times> u32" where
  "extract_three_phase_power_corrected w =
     (sign20 (l1_raw w), sign20 (l2_raw w), sign20 (l3_raw w), tp_field 60 4 w)"

section \<open>Serial numbers as decimal text\<close>

function dec_len :: "u64 \<Rightarrow> nat" where
  "dec_len temp = (if temp \<ge> 10 then Suc (dec_len (temp div 10)) else 1)"
  by pat_completeness auto

lemma unat_div_10: "unat (x div 10 :: u64) = unat x div 10"
  by (simp add: unat_div)

lemma unat_ge_10: "(10 \<le> (x :: u64)) = (10 \<le> unat x)"
  by (simp add: word_le_nat_alt)

termination dec_len
  by (relation "measure unat") (auto simp: unat_div_10 unat_ge_10)

declare dec_len.simps [simp del]

primrec sn_fill :: "nat \<Rightarrow> u64 \<Rightarrow> u8 list \<Rightarrow> u8 list" where
  "sn_fill 0 sn b = b"
| "sn_fill (Suc pos) sn b = sn_fill pos (sn div 10) (b[pos := 0x30 + ucast (sn mod 10)])"

definition sn_needed :: "u64 \<Rightarrow> int \<Rightarrow> nat" where
  "sn_needed sn zero_pad =
     (let n = dec_len sn in if 0 < zero_pad \<and> int n < zero_pad then nat zero_pad else n)"

text \<open>\<open>Inr None\<close> is the NULL result, \<open>Inr (Some b)\<close> the buffer after the call.\<close>

definition sn_to_string_dec :: "u64 \<Rightarrow> u8 list option \<Rightarrow> nat \<Rightarrow> int \<Rightarrow> u8 list option cres" where
  "sn_to_string_dec sn buf buffer_size zero_pad =
     (case buf of None \<Rightarrow> Inr None
      | Some b \<Rightarrow>
          if buffer_size = 0 then Inr None
          else let needed_len = sn_needed sn zero_pad in
            if needed_len + 1 > buffer_size then Inr None
            else if needed_len \<ge> length b then Inl Out_Of_Bounds_Write
            else Inr (Some (sn_fill needed_len sn (b[needed_len := 0]))))"

definition dec_value :: "u8 list \<Rightarrow> nat" where
  "dec_value s = foldl (\<lambda>a c. a * 10 + (unat c - 0x30)) 0 s"

definition is_digit :: "u8 \<Rightarrow> bool" where
  "is_digit c \<longleftrightarrow> 0x30 \<le> c \<and> c \<le> 0x39"

section \<open>Joining strings\<close>

text \<open>\<open>strlen\<close> on the bytes of an object: the index of the first zero byte; running off the
  end is an out-of-bounds read.\<close>

fun strlen :: "u8 list \<Rightarrow> nat cres" where
  "strlen [] = Inl Out_Of_Bounds_Read"
| "strlen (c # cs) = (if c = 0 then Inr 0
     else case strlen cs of Inl e \<Rightarrow> Inl e | Inr n \<Rightarrow> Inr (Suc n))"

definition blit :: "u8 list \<Rightarrow> nat \<Rightarrow> u8 list \<Rightarrow> u8 list" where
  "blit buf off src = take off buf @ src @ drop (off + length src) buf"

definition join_body ::
    "u8 list \<Rightarrow> u8 list \<Rightarrow> u8 list \<Rightarrow> u8 list \<Rightarrow> nat \<Rightarrow> u8 list option cres" where
  "join_body s1 s2 sp b out_size =
     (let n = length s1 + length sp + length s2 in
      if n + 1 > out_size then Inr None
      else if n + 1 > length b then Inl Out_Of_Bounds_Write
      else Inr (Some (blit (blit (blit (blit b 0 s1) (length s1) sp)
                              (length s1 + length sp) s2) n [0])))"

definition str_join ::
    "u8 list option \<Rightarrow> u8 list option \<Rightarrow> u8 list option \<Rightarrow> u8 list option \<Rightarrow> nat \<Rightarrow> u8 list option cres" where
  "str_join str1 str2 sep outb out_size =
     (case (str1, str2, outb) of
        (Some a, Some c, Some b) \<Rightarrow>
          if out_size = 0 then Inr None
          else (case strlen a of Inl e \<Rightarrow> Inl e | Inr len1 \<Rightarrow>
               (case strlen c of Inl e \<Rightarrow> Inl e | Inr len2 \<Rightarrow>
               (case (case sep of None \<Rightarrow> Inr [] | Some s \<Rightarrow>
                        (case strlen s of Inl e \<Rightarrow> Inl e | Inr n \<Rightarrow> Inr (take n s))) of
                  Inl e \<Rightarrow> Inl e
                | Inr sp \<Rightarrow> join_body (take len1 a) (take len2 c) sp b out_size)))
      | _ \<Rightarrow> Inr None)"

section \<open>Version prefixes\<close>

text \<open>The digit count of \<open>int temp = ver\<close>: the loop body never runs for a negative value.\<close>

function digit_count :: "int \<Rightarrow> nat" where
  "digit_count temp = (if temp > 0 then Suc (digit_count (temp div 10)) else 0)"
  by pat_completeness auto

termination digit_count
  by (relation "measure nat") auto

declare digit_count.simps [simp del]

definition get_first_n_digits :: "u32 \<Rightarrow> int \<Rightarrow> int" where
  "get_first_n_digits ver num =
     (if num \<le> 0 then 0
      else let temp = sint ver;
               dc = (if temp = 0 then 1 else digit_count temp) in
        if int dc \<le> num then temp
        else sint (ver div (word_of_int (10 ^ (dc - nat num)))))"

definition validate_version_n :: "u32 \<Rightarrow> u32 \<Rightarrow> int \<Rightarrow> int" where
  "validate_version_n ver1 ver2 num =
     (if get_first_n_digits ver1 num = get_first_n_digits ver2 num then 1 else 0)"

section \<open>The default serial number\<close>

definition MASS_PRODUCTION_FALLBACK_SN :: u64 where
  "MASS_PRODUCTION_FALLBACK_SN = 123456"

definition MASS_PRODUCTION_SN_MODULO :: u64 where
  "MASS_PRODUCTION_SN_MODULO = 10000000000000"

text \<open>The efuse read (\<open>esp_efuse_mac_get_default\<close>) is the argument: \<open>None\<close> for an error.\<close>

definition iot_default_sn_by_mac :: "u8 list option \<Rightarrow> u64" where
  "iot_default_sn_by_mac efuse =
     (case efuse of None \<Rightarrow> MASS_PRODUCTION_FALLBACK_SN
      | Some mac \<Rightarrow>
         let sn = (push_bit 40 (ucast (mac ! 0)) OR push_bit 32 (ucast (mac ! 1)) OR
                   push_bit 24 (ucast (mac ! 2)) OR push_bit 16 (ucast (mac ! 3)) OR
                   push_bit 8 (ucast (mac ! 4)) OR ucast (mac ! 5)) mod MASS_PRODUCTION_SN_MODULO
         in if sn = 0 then MASS_PRODUCTION_FALLBACK_SN else sn)"

section \<open>Sign extension\<close>

lemma bit_15_u16: "(x AND 0x8000 \<noteq> 0) = bit (x :: u16) 15"
  by (simp add: bit_iff_and_push_bit_not_eq_0)

lemma bit_19_u32: "(x AND 0x80000 \<noteq> 0) = bit (x :: u32) 19"
  by (simp add: bit_iff_and_push_bit_not_eq_0)

lemma mask_hi16: "(0xFFFF0000 :: u32) = push_bit 16 (mask 16)"
  by (simp add: mask_eq_exp_minus_1)

lemma mask_hi12: "(0xFFF00000 :: u32) = push_bit 20 (mask 12)"
  by (simp add: mask_eq_exp_minus_1)

lemma mask_lo16: "(0xFFFF :: u32) = mask 16"
  by (simp add: mask_eq_exp_minus_1)

lemma decode_signed_eq: "decode_signed_explicit v = signed_take_bit 15 v"
proof (rule bit_word_eqI)
  fix n assume "n < LENGTH(32)"
  then show "bit (decode_signed_explicit v) n = bit (signed_take_bit 15 v) n"
    by (cases "n = 15"; cases "n < 15")
       (auto simp: decode_signed_explicit_def Let_def bit_15_u16 mask_lo16 bit_simps min_def)
qed

lemma sign_extend_eq: "sign_extend_16to32_bit v = signed_take_bit 15 v"
proof (rule bit_word_eqI)
  fix n assume "n < LENGTH(32)"
  then show "bit (sign_extend_16to32_bit v) n = bit (signed_take_bit 15 v) n"
    by (cases "n = 15"; cases "n < 15")
       (auto simp: sign_extend_16to32_bit_def Let_def bit_15_u16 mask_lo16 mask_hi16 bit_simps min_def)
qed

lemma sign20_eq: "sign20 (take_bit 20 v) = signed_take_bit 19 v"
proof (rule bit_word_eqI)
  fix n assume "n < LENGTH(32)"
  then show "bit (sign20 (take_bit 20 v)) n = bit (signed_take_bit 19 v) n"
    by (cases "n = 19"; cases "n < 19") (auto simp: sign20_def bit_19_u32 mask_hi12 bit_simps min_def)
qed

lemma l1_raw_eq: "l1_raw w = take_bit 20 (ucast w)"
proof (rule bit_word_eqI)
  fix n assume "n < LENGTH(32)"
  then show "bit (l1_raw w) n = bit (take_bit 20 (ucast w :: u32)) n"
    by (cases "n < 8"; cases "n < 16") (auto simp: l1_raw_def tp_field_def bit_simps)
qed

lemma l2_raw_eq: "l2_raw w = take_bit 20 (ucast (drop_bit 20 w))"
proof (rule bit_word_eqI)
  fix n assume "n < LENGTH(32)"
  moreover have "12 \<le> n \<Longrightarrow> 32 + (n - 12) = 20 + n" "4 \<le> n \<Longrightarrow> 24 + (n - 4) = 20 + n"
    by auto
  ultimately show "bit (l2_raw w) n = bit (take_bit 20 (ucast (drop_bit 20 w) :: u32)) n"
    by (cases "n < 4"; cases "n < 12") (auto simp: l2_raw_def tp_field_def bit_simps)
qed

lemma l3_raw_eq: "l3_raw w = take_bit 20 (ucast (drop_bit 40 w))"
proof (rule bit_word_eqI)
  fix n assume "n < LENGTH(32)"
  moreover have "16 \<le> n \<Longrightarrow> 56 + (n - 16) = 40 + n" "8 \<le> n \<Longrightarrow> 48 + (n - 8) = 40 + n"
    by auto
  ultimately show "bit (l3_raw w) n = bit (take_bit 20 (ucast (drop_bit 40 w) :: u32)) n"
    by (cases "n < 8"; cases "n < 16") (auto simp: l3_raw_def tp_field_def bit_simps)
qed

lemma sign20_phase:
  fixes w :: u64
  assumes "i + 20 \<le> 64"
  shows "sint (signed_take_bit 19 (ucast (drop_bit i w) :: u32)) = signed_take_bit 19 (uint (drop_bit i w))"
  by (rule bit_eqI)
     (use assms in \<open>auto simp: bit_simps bit_sint_iff min_def not_le\<close>)

section \<open>Decimal digits\<close>

lemma dec_value_snoc: "dec_value (s @ [c]) = dec_value s * 10 + (unat c - 0x30)"
  by (simp add: dec_value_def)

lemma unat_mod_10: "unat (x mod 10 :: u64) = unat x mod 10"
  by (simp add: unat_mod)

lemma digit_byte: "unat (0x30 + ucast (x mod 10 :: u64) :: u8) = 0x30 + unat x mod 10"
proof -
  have "unat (x mod 10) < 10" by (simp add: unat_mod_10)
  then have "unat (ucast (x mod 10) :: u8) = unat x mod 10"
    by (simp add: unsigned_ucast_eq take_bit_nat_eq_self unat_mod_10)
  then show ?thesis by (simp add: unat_word_ariths)
qed

lemma digit_is_digit: "is_digit (0x30 + ucast (x mod 10 :: u64))"
proof -
  have "unat x mod 10 < 10" by simp
  then show ?thesis by (simp add: is_digit_def word_le_nat_alt digit_byte)
qed

lemma length_sn_fill [simp]: "length (sn_fill n sn b) = length b"
  by (induction n arbitrary: sn b) auto

lemma sn_fill_nth: "n \<le> i \<Longrightarrow> sn_fill n sn b ! i = b ! i"
  by (induction n arbitrary: sn b) auto

lemma take_Suc_sn_fill:
  "n < length b \<Longrightarrow> take (Suc n) (sn_fill (Suc n) sn b) =
     take n (sn_fill n (sn div 10) (b[n := 0x30 + ucast (sn mod 10)])) @ [0x30 + ucast (sn mod 10)]"
  by (simp add: take_Suc_conv_app_nth sn_fill_nth)

lemma sn_fill_spec:
  "n \<le> length b \<Longrightarrow> dec_value (take n (sn_fill n sn b)) = unat sn mod 10 ^ n
     \<and> list_all is_digit (take n (sn_fill n sn b))"
proof (induction n arbitrary: sn b)
  case 0
  then show ?case by (simp add: dec_value_def)
next
  case (Suc n)
  have "unat sn mod (10 * 10 ^ n) = 10 * (unat sn div 10 mod 10 ^ n) + unat sn mod 10"
    by (rule mod_mult2_eq)
  with Suc show ?case
    by (simp only: take_Suc_sn_fill)
       (simp add: dec_value_snoc digit_byte digit_is_digit unat_div_10)
qed

lemma dec_len_bounds: "unat sn < 10 ^ dec_len sn \<and> (dec_len sn > 1 \<longrightarrow> 10 ^ (dec_len sn - 1) \<le> unat sn)
    \<and> 0 < dec_len sn"
proof (induction sn rule: dec_len.induct)
  case (1 sn)
  show ?case
  proof (cases "10 \<le> unat sn")
    case True
    then have l: "dec_len sn = Suc (dec_len (sn div 10))"
      by (subst dec_len.simps) (simp add: unat_ge_10)
    let ?k = "dec_len (sn div 10)"
    have ih: "unat sn div 10 < 10 ^ ?k" "?k > 1 \<Longrightarrow> 10 ^ (?k - 1) \<le> unat sn div 10" "0 < ?k"
      using 1 True by (auto simp: unat_div_10 unat_ge_10)
    have "10 ^ ?k \<le> unat sn"
    proof (cases "?k > 1")
      case True
      then have "10 * 10 ^ (?k - 1) \<le> unat sn" using ih(2) by linarith
      with ih(3) show ?thesis by (simp flip: power_Suc)
    next
      case False
      with ih(3) have "?k = 1" by simp
      with \<open>10 \<le> unat sn\<close> show ?thesis by simp
    qed
    with ih(1) l show ?thesis by simp
  next
    case False
    then have "dec_len sn = 1" by (subst dec_len.simps) (simp add: unat_ge_10)
    with False show ?thesis by simp
  qed
qed

lemma dec_len_le_needed: "dec_len sn \<le> sn_needed sn zp"
  by (auto simp: sn_needed_def Let_def)

lemma sn_value_fits: "unat sn mod 10 ^ sn_needed sn zp = unat sn"
proof -
  have "unat sn < 10 ^ dec_len sn" using dec_len_bounds by blast
  also have "\<dots> \<le> 10 ^ sn_needed sn zp" using dec_len_le_needed by (rule power_increasing) simp
  finally show ?thesis by simp
qed

section \<open>Properties\<close>

text \<open>C35: \<open>sn_to_string_dec\<close> into a buffer of the announced size never writes outside it,
  refuses exactly when digits (padded to \<open>zero_pad\<close>) and terminator do not fit, and
  otherwise writes a zero-terminated string of decimal digits, of the minimal length or the
  padding width whichever is larger, whose value is the serial number; bytes after the
  terminator are untouched.\<close>

theorem sn_to_string_dec_correct:
  fixes sn :: u64 and zero_pad :: int
  assumes "buffer_size \<le> length b" and "0 < buffer_size"
  defines "n \<equiv> max (dec_len sn) (nat zero_pad)"
  shows "(buffer_size \<le> n \<longrightarrow> sn_to_string_dec sn (Some b) buffer_size zero_pad = Inr None)
    \<and> (n < buffer_size \<longrightarrow> (\<exists>out. sn_to_string_dec sn (Some b) buffer_size zero_pad = Inr (Some out)
        \<and> length out = length b \<and> out ! n = 0 \<and> drop (Suc n) out = drop (Suc n) b
        \<and> list_all is_digit (take n out) \<and> dec_value (take n out) = unat sn))
    \<and> unat sn < 10 ^ n \<and> (dec_len sn > 1 \<longrightarrow> 10 ^ (dec_len sn - 1) \<le> unat sn)"
proof -
  have n: "sn_needed sn zero_pad = n" by (auto simp: n_def sn_needed_def Let_def max_def)
  let ?out = "sn_fill n sn (b[n := 0])"
  have d: "unat sn < 10 ^ n" using sn_value_fits[of sn zero_pad] n
    by (metis mod_less_divisor zero_less_numeral zero_less_power)
  have tail: "drop (Suc n) ?out = drop (Suc n) b"
    by (rule nth_equalityI) (simp_all add: sn_fill_nth)
  have dig: "dec_value (take n ?out) = unat sn \<and> list_all is_digit (take n ?out)"
    if "n < length b"
    using sn_fill_spec[of n "b[n := 0]" sn] sn_value_fits[of sn zero_pad] that n by simp
  have fits: "sn_to_string_dec sn (Some b) buffer_size zero_pad = Inr (Some ?out)" if "n < buffer_size"
    using assms(1,2) that by (simp add: sn_to_string_dec_def n)
  have refused: "sn_to_string_dec sn (Some b) buffer_size zero_pad = Inr None" if "buffer_size \<le> n"
    using assms(2) that by (simp add: sn_to_string_dec_def n)
  have zero: "?out ! n = 0" if "n < length b"
    using that by (simp add: sn_fill_nth)
  have len: "length ?out = length b" by simp
  show ?thesis
  proof (intro conjI impI)
    assume "n < buffer_size"
    then have "n < length b" using assms(1) by simp
    show "\<exists>out. sn_to_string_dec sn (Some b) buffer_size zero_pad = Inr (Some out)
        \<and> length out = length b \<and> out ! n = 0 \<and> drop (Suc n) out = drop (Suc n) b
        \<and> list_all is_digit (take n out) \<and> dec_value (take n out) = unat sn"
      using fits[OF \<open>n < buffer_size\<close>] len zero[OF \<open>n < length b\<close>] tail dig[OF \<open>n < length b\<close>]
      by blast
  qed (use refused d dec_len_bounds[of sn] in blast)+
qed

lemma dec_len_107: "dec_len 107 = 3"
proof -
  have "dec_len 1 = 1" "dec_len 10 = Suc (dec_len 1)" "dec_len 107 = Suc (dec_len 10)"
    by (simp_all add: dec_len.simps[of 1] dec_len.simps[of 10] dec_len.simps[of 107] unat_ge_10)
  then show ?thesis by simp
qed

lemma sn_to_string_dec_correct_witness:
  "\<exists>out. sn_to_string_dec 107 (Some (replicate 8 0xFF)) 8 5 = Inr (Some out)
     \<and> dec_value (take 5 out) = 107 \<and> out ! 5 = 0"
  using sn_to_string_dec_correct[of 8 "replicate 8 0xFF" 107 5] by (simp add: dec_len_107) blast

text \<open>\<open>extract_three_phase_power_corrected\<close> reads the three 20-bit fields of the packed
  register as two's complement numbers: each phase is the sign extension of its 20 bits, lies in
  \<open>[-524288, 524287]\<close>, and the tag is the top nibble.\<close>

theorem extract_three_phase_signed:
  "case extract_three_phase_power_corrected w of (p1, p2, p3, r) \<Rightarrow>
     sint p1 = signed_take_bit 19 (uint w) \<and>
     sint p2 = signed_take_bit 19 (uint (drop_bit 20 w)) \<and>
     sint p3 = signed_take_bit 19 (uint (drop_bit 40 w)) \<and>
     (\<forall>p \<in> {p1, p2, p3}. - 524288 \<le> sint p \<and> sint p < 524288) \<and>
     uint r = uint w div 2 ^ 60"
proof -
  have r: "uint (tp_field 60 4 w) = uint w div 2 ^ 60"
  proof -
    have "uint w < 2 ^ 64" using uint_lt2p[of w] by simp
    then have "uint w div 2 ^ 60 mod 16 = uint w div 2 ^ 60"
      by (intro mod_pos_pos_trivial) (simp_all add: pos_imp_zdiv_nonneg_iff)
    then show ?thesis
      by (simp add: tp_field_def unsigned_ucast_eq unsigned_take_bit_eq unsigned_drop_bit_eq
          drop_bit_eq_div take_bit_eq_mod uint_div uint_mod)
  qed
  have bounds: "- 524288 \<le> signed_take_bit 19 (x::int) \<and> signed_take_bit 19 x < 524288" for x
    using signed_take_bit_int_greater_eq_minus_exp[where n = 19 and k = x]
      signed_take_bit_int_less_exp[where n = 19 and k = x]
    by simp
  show ?thesis
    using r bounds sign20_phase[of 0 w] sign20_phase[of 20 w] sign20_phase[of 40 w]
    by (simp add: extract_three_phase_power_corrected_def l1_raw_eq l2_raw_eq l3_raw_eq sign20_eq)
qed

lemma extract_three_phase_signed_witness:
  "case extract_three_phase_power_corrected 0x30000A00001FFFFF of (p1, p2, p3, r) \<Rightarrow>
     sint p1 = - 1 \<and> sint p2 = 1 \<and> sint p3 = 10 \<and> uint r = 3"
  using extract_three_phase_signed[of "0x30000A00001FFFFF"]
  by (simp add: extract_three_phase_power_corrected_def l1_raw_def l2_raw_def l3_raw_def
      tp_field_def sign20_def)

lemma iot_default_sn_range:
  "0 < iot_default_sn_by_mac e \<and> iot_default_sn_by_mac e < MASS_PRODUCTION_SN_MODULO"
proof -
  have "x mod MASS_PRODUCTION_SN_MODULO < MASS_PRODUCTION_SN_MODULO" for x :: u64
    by (simp add: word_less_nat_alt unat_mod MASS_PRODUCTION_SN_MODULO_def)
  then show ?thesis
    by (auto simp: iot_default_sn_by_mac_def Let_def MASS_PRODUCTION_FALLBACK_SN_def word_gt_0
        split: option.splits)
       (simp_all add: MASS_PRODUCTION_SN_MODULO_def)
qed

end
