(* ===== verification/Wlcc_Tlv.thy ===== *)
theory Wlcc_Tlv
  imports Prelude
begin

text \<open>
  The TLV information units of the WLCC link, \<open>wlcc/wlcc_tlv.c\<close>: encoder, decoder, length
  computation, the demo blocks and the test for a 21000 TLV frame.  A pointer argument is an
  option (\<open>None\<close> for NULL); offsets are natural numbers because every one of them is compared
  in \<open>int\<close> against a 16-bit size before it is stored back.  A decoded block points into the
  input; the model keeps the bytes it points at.
\<close>

section \<open>Data\<close>

definition IOT_OK :: int where "IOT_OK = 0"
definition IOT_FAIL :: int where "IOT_FAIL = - 1"
definition IOT_ERR_INVALID_ARG :: int where "IOT_ERR_INVALID_ARG = 0x102"
definition IOT_ERR_INVALID_SIZE :: int where "IOT_ERR_INVALID_SIZE = 0x104"

definition TLV_MAX_BLOCK_COUNT :: nat where "TLV_MAX_BLOCK_COUNT = 20"
definition TLV_MAX_VALUE_LENGTH :: nat where "TLV_MAX_VALUE_LENGTH = 255"
definition TLV_PROTOCOL_VERSION_REPORT :: u16 where "TLV_PROTOCOL_VERSION_REPORT = 40002"
definition TLV_PROTOCOL_VERSION_QUERY :: u16 where "TLV_PROTOCOL_VERSION_QUERY = 40003"

lemmas tlv_consts = IOT_OK_def IOT_FAIL_def IOT_ERR_INVALID_ARG_def IOT_ERR_INVALID_SIZE_def
  TLV_MAX_BLOCK_COUNT_def TLV_MAX_VALUE_LENGTH_def TLV_PROTOCOL_VERSION_REPORT_def
  TLV_PROTOCOL_VERSION_QUERY_def

record wlcc_tlv_block =
  tlv_addr :: u16
  tlv_length :: u16
  tlv_value :: "u8 list option"

section \<open>Encoder\<close>

text \<open>\<open>memcpy(&output[offset], src, n)\<close> with both bounds made explicit.\<close>

definition put_bytes :: "u8 list \<Rightarrow> nat \<Rightarrow> u8 list \<Rightarrow> u8 list cres" where
  "put_bytes out off bs =
     (if off + length bs > length out then Inl Out_Of_Bounds_Write
      else Inr (take off out @ bs @ drop (off + length bs) out))"

definition tlv_write_block :: "wlcc_tlv_block \<Rightarrow> nat \<Rightarrow> u8 list \<Rightarrow> (nat \<times> u8 list) cres" where
  "tlv_write_block blk off out =
     (let n = unat (tlv_length blk) in
      case put_bytes out off [lo8 (tlv_addr blk), hi8 (tlv_addr blk),
                              lo8 (tlv_length blk), hi8 (tlv_length blk)] of
        Inl e \<Rightarrow> Inl e
      | Inr out1 \<Rightarrow>
          (case tlv_value blk of
             None \<Rightarrow> Inr (off + 4, out1)
           | Some v \<Rightarrow>
               if n = 0 then Inr (off + 4, out1)
               else if n > length v then Inl Out_Of_Bounds_Read
               else (case put_bytes out1 (off + 4) (take n v) of
                       Inl e \<Rightarrow> Inl e
                     | Inr out2 \<Rightarrow> Inr (off + 4 + n, out2))))"

fun tlv_encode_loop :: "wlcc_tlv_block list \<Rightarrow> nat \<Rightarrow> nat \<Rightarrow> u8 list \<Rightarrow> (int \<times> u8 list) cres" where
  "tlv_encode_loop [] off sz out = Inr (int off, out)"
| "tlv_encode_loop (blk # blks) off sz out =
     (if tlv_addr blk < 1 then Inr (IOT_ERR_INVALID_ARG, out)
      else if unat (tlv_length blk) > TLV_MAX_VALUE_LENGTH then Inr (IOT_ERR_INVALID_SIZE, out)
      else if off + (4 + unat (tlv_length blk)) > sz then Inr (IOT_ERR_INVALID_SIZE, out)
      else if tlv_length blk > 0 \<and> tlv_value blk = None then Inr (IOT_ERR_INVALID_ARG, out)
      else (case tlv_write_block blk off out of
              Inl e \<Rightarrow> Inl e
            | Inr (off', out') \<Rightarrow> tlv_encode_loop blks off' sz out'))"

text \<open>The result is the returned \<open>int\<close> and the output buffer.\<close>

definition wlcc_tlv_encode ::
    "wlcc_tlv_block list option \<Rightarrow> nat \<Rightarrow> u8 list option \<Rightarrow> nat \<Rightarrow> (int \<times> u8 list option) cres" where
  "wlcc_tlv_encode blocks block_count output output_size =
     (case (blocks, output) of
        (Some bs, Some out) \<Rightarrow>
          if block_count = 0 then Inr (IOT_ERR_INVALID_ARG, Some out)
          else if block_count > TLV_MAX_BLOCK_COUNT then Inr (IOT_ERR_INVALID_SIZE, Some out)
          else if block_count > length bs then Inl Out_Of_Bounds_Read
          else (case tlv_encode_loop (take block_count bs) 0 output_size out of
                  Inl e \<Rightarrow> Inl e | Inr (r, out') \<Rightarrow> Inr (r, Some out'))
      | _ \<Rightarrow> Inr (IOT_ERR_INVALID_ARG, output))"

section \<open>Decoder\<close>

text \<open>One round of the loop of \<open>wlcc_tlv_decode\<close> at an offset with a whole header in the input:
  the error code, or the block and the offset after it.\<close>

definition tlv_read_block ::
    "u8 list \<Rightarrow> nat \<Rightarrow> nat \<Rightarrow> (int + (wlcc_tlv_block \<times> nat)) cres" where
  "tlv_read_block input input_len off =
     (if off + 4 > length input then Inl Out_Of_Bounds_Read
      else let a = get16 input off; l = get16 input (off + 2); n = unat l; o4 = off + 4 in
        if a < 1 then Inr (Inl IOT_ERR_INVALID_ARG)
        else if n > TLV_MAX_VALUE_LENGTH then Inr (Inl IOT_ERR_INVALID_SIZE)
        else if o4 + n > input_len then Inr (Inl IOT_ERR_INVALID_SIZE)
        else if l > 0 then
          Inr (Inr (\<lparr>tlv_addr = a, tlv_length = l, tlv_value = Some (take n (drop o4 input))\<rparr>, o4 + n))
        else Inr (Inr (\<lparr>tlv_addr = a, tlv_length = l, tlv_value = None\<rparr>, o4)))"

text \<open>The \<open>while\<close> loop; \<open>room\<close> is \<open>max_blocks - count\<close>, so the recursion is structural.\<close>

fun tlv_decode_loop :: "u8 list \<Rightarrow> nat \<Rightarrow> nat \<Rightarrow> nat \<Rightarrow> (int + wlcc_tlv_block list) cres" where
  "tlv_decode_loop input input_len off 0 = Inr (Inr [])"
| "tlv_decode_loop input input_len off (Suc room) =
     (if off \<ge> input_len then Inr (Inr [])
      else if off + 4 > input_len then Inr (Inr [])
      else case tlv_read_block input input_len off of
        Inl e \<Rightarrow> Inl e
      | Inr (Inl r) \<Rightarrow> Inr (Inl r)
      | Inr (Inr (blk, off')) \<Rightarrow>
          (case tlv_decode_loop input input_len off' room of
             Inl e \<Rightarrow> Inl e
           | Inr (Inl r) \<Rightarrow> Inr (Inl r)
           | Inr (Inr rest) \<Rightarrow> Inr (Inr (blk # rest))))"

text \<open>\<open>Inl\<close> is the returned error code, \<open>Inr\<close> the \<open>parsed_blocks\<close> first entries of the block
  array.  \<open>blocks_ok\<close> says that the two output pointers are not NULL.\<close>

definition wlcc_tlv_decode ::
    "u8 list option \<Rightarrow> nat \<Rightarrow> bool \<Rightarrow> nat \<Rightarrow> (int + wlcc_tlv_block list) cres" where
  "wlcc_tlv_decode input input_len blocks_ok max_blocks =
     (case input of
        None \<Rightarrow> Inr (Inl IOT_ERR_INVALID_ARG)
      | Some bs \<Rightarrow>
          if \<not> blocks_ok then Inr (Inl IOT_ERR_INVALID_ARG)
          else if max_blocks = 0 \<or> max_blocks > TLV_MAX_BLOCK_COUNT then Inr (Inl IOT_ERR_INVALID_ARG)
          else tlv_decode_loop bs input_len 0 max_blocks)"

section \<open>Length, demo data, frame test\<close>

definition wlcc_tlv_calculate_length :: "wlcc_tlv_block list option \<Rightarrow> nat \<Rightarrow> u16" where
  "wlcc_tlv_calculate_length blocks block_count =
     (case blocks of None \<Rightarrow> 0
      | Some bs \<Rightarrow> fold (\<lambda>blk total. total + (4 + tlv_length blk)) (take block_count bs) 0)"

definition demo_values :: "u8 list" where
  "demo_values = [0x01, 0x02, 0x03, 0x04, 0xAA, 0xBB,
                  0x11, 0x22, 0x33, 0x44, 0x55, 0x66, 0x77, 0x88]"

definition demo_blocks :: "u8 list \<Rightarrow> wlcc_tlv_block list" where
  "demo_blocks buf =
     [\<lparr>tlv_addr = 1, tlv_length = 4, tlv_value = Some buf\<rparr>,
      \<lparr>tlv_addr = 2, tlv_length = 2, tlv_value = Some (drop 4 buf)\<rparr>,
      \<lparr>tlv_addr = 100, tlv_length = 8, tlv_value = Some (drop 6 buf)\<rparr>]"

definition wlcc_tlv_generate_demo_data ::
    "u8 list option \<Rightarrow> nat \<Rightarrow> (int + (wlcc_tlv_block list \<times> u8 list)) cres" where
  "wlcc_tlv_generate_demo_data value_buf value_buf_size =
     (case value_buf of None \<Rightarrow> Inr (Inl IOT_ERR_INVALID_ARG)
      | Some b \<Rightarrow>
          if value_buf_size < 20 then Inr (Inl IOT_ERR_INVALID_SIZE)
          else (case put_bytes b 0 demo_values of
                  Inl e \<Rightarrow> Inl e
                | Inr b' \<Rightarrow> Inr (Inr (demo_blocks b', b'))))"

definition rd8 :: "u8 list \<Rightarrow> nat \<Rightarrow> u8 cres" where
  "rd8 bs i = (if i < length bs then Inr (bs ! i) else Inl Out_Of_Bounds_Read)"

definition wlcc_tlv_is_tlv_frame :: "u8 list option \<Rightarrow> nat \<Rightarrow> int cres" where
  "wlcc_tlv_is_tlv_frame data data_len =
     (case data of None \<Rightarrow> Inr IOT_FAIL
      | Some d \<Rightarrow>
         if data_len < 8 then Inr IOT_FAIL
         else (case (rd8 d 1, rd8 d 2, rd8 d 3, rd8 d 7) of
           (Inr f, Inr r1, Inr r0, Inr v1) \<Rightarrow>
             if f \<noteq> 0x10 then Inr IOT_FAIL
             else if mk16 r1 r0 \<noteq> 21000 then Inr IOT_FAIL
             else (case rd8 d 8 of
               Inl e \<Rightarrow> Inl e
             | Inr v0 \<Rightarrow>
                 if mk16 v1 v0 \<noteq> TLV_PROTOCOL_VERSION_REPORT \<and> mk16 v1 v0 \<noteq> TLV_PROTOCOL_VERSION_QUERY
                 then Inr IOT_FAIL else Inr IOT_OK)
         | _ \<Rightarrow> Inl Out_Of_Bounds_Read))"

section \<open>The byte image of a block\<close>

definition tlv_payload :: "wlcc_tlv_block \<Rightarrow> u8 list" where
  "tlv_payload blk = (case tlv_value blk of None \<Rightarrow> [] | Some v \<Rightarrow> take (unat (tlv_length blk)) v)"

definition tlv_image :: "wlcc_tlv_block \<Rightarrow> u8 list" where
  "tlv_image blk = le16 (tlv_addr blk) @ le16 (tlv_length blk) @ tlv_payload blk"

definition tlv_images :: "wlcc_tlv_block list \<Rightarrow> u8 list" where
  "tlv_images blks = concat (map tlv_image blks)"

text \<open>What the encoder accepts, and the form in which the decoder returns it: the value cut to
  its length, NULL when the length is zero.\<close>

definition tlv_ok :: "wlcc_tlv_block \<Rightarrow> bool" where
  "tlv_ok blk \<longleftrightarrow> 1 \<le> tlv_addr blk \<and> unat (tlv_length blk) \<le> TLV_MAX_VALUE_LENGTH \<and>
     (case tlv_value blk of None \<Rightarrow> tlv_length blk = 0
      | Some v \<Rightarrow> unat (tlv_length blk) \<le> length v)"

definition tlv_norm :: "wlcc_tlv_block \<Rightarrow> wlcc_tlv_block" where
  "tlv_norm blk = blk\<lparr>tlv_value := if tlv_length blk = 0 then None else Some (tlv_payload blk)\<rparr>"

lemma tlv_images_simps [simp]:
  "tlv_images [] = []"
  "tlv_images (b # bs) = tlv_image b @ tlv_images bs"
  by (simp_all add: tlv_images_def)

lemma length_tlv_payload [simp]: "tlv_ok b \<Longrightarrow> length (tlv_payload b) = unat (tlv_length b)"
  by (auto simp: tlv_ok_def tlv_payload_def split: option.splits)

lemma length_tlv_image: "tlv_ok b \<Longrightarrow> length (tlv_image b) = 4 + unat (tlv_length b)"
  by (simp add: tlv_image_def)

lemma put_bytes_ok: "off + length bs \<le> length out \<Longrightarrow>
    put_bytes out off bs = Inr (take off out @ bs @ drop (off + length bs) out)"
  by (simp add: put_bytes_def)

lemma drop_4_Cons: "drop (4 + n) (a # b # c # d # xs) = drop n xs"
    "drop (n + 4) (a # b # c # d # xs) = drop n xs"
  by (simp_all add: numeral_eq_Suc)

lemma one_le_u16: "(1 \<le> (a :: u16)) = (a \<noteq> 0)"
  by (metis linorder_not_less word_less_1)

lemma tlv_write_block_image:
  assumes ok: "tlv_ok b" and fit: "off + 4 + unat (tlv_length b) \<le> length out"
  shows "tlv_write_block b off out =
    Inr (off + length (tlv_image b), take off out @ tlv_image b @ drop (off + length (tlv_image b)) out)"
proof (cases "unat (tlv_length b) = 0")
  case True
  with ok have "tlv_payload b = []" by (metis length_0_conv length_tlv_payload)
  with True ok fit show ?thesis
    by (auto simp: tlv_write_block_def put_bytes_ok tlv_image_def le16_def Let_def split: option.splits)
next
  case False
  with ok obtain v where v: "tlv_value b = Some v" "unat (tlv_length b) \<le> length v"
    by (auto simp: tlv_ok_def split: option.splits)
  with False ok fit show ?thesis
    by (simp add: tlv_write_block_def put_bytes_ok tlv_image_def le16_def Let_def tlv_payload_def
        ac_simps drop_4_Cons)
qed

lemma tlv_encode_loop_image:
  assumes "list_all tlv_ok bs" "off + length (tlv_images bs) \<le> sz" "sz \<le> length out"
  shows "tlv_encode_loop bs off sz out =
     Inr (int (off + length (tlv_images bs)),
          take off out @ tlv_images bs @ drop (off + length (tlv_images bs)) out)"
  using assms
proof (induction bs arbitrary: off out)
  case (Cons b bs)
  let ?n = "length (tlv_image b)"
  let ?out = "take off out @ tlv_image b @ drop (off + ?n) out"
  have ok: "tlv_ok b" and fit: "off + ?n \<le> sz" using Cons.prems by auto
  then have n: "?n = 4 + unat (tlv_length b)" by (simp add: length_tlv_image)
  have guards: "\<not> tlv_addr b < 1" "\<not> unat (tlv_length b) > TLV_MAX_VALUE_LENGTH"
      "\<not> (tlv_length b > 0 \<and> tlv_value b = None)"
    using ok by (auto simp: tlv_ok_def split: option.splits)
  have "tlv_write_block b off out = Inr (off + ?n, ?out)"
    using ok fit Cons.prems(3) by (intro tlv_write_block_image) (auto simp: n)
  then have "tlv_encode_loop (b # bs) off sz out = tlv_encode_loop bs (off + ?n) sz ?out"
    unfolding tlv_encode_loop.simps if_not_P[OF guards(1)] if_not_P[OF guards(2)] if_not_P[OF guards(3)]
    using fit n by simp
  also have "\<dots> = Inr (int (off + ?n + length (tlv_images bs)),
      take (off + ?n) ?out @ tlv_images bs @ drop (off + ?n + length (tlv_images bs)) ?out)"
    using Cons.prems by (intro Cons.IH) auto
  finally show ?case using fit Cons.prems(3) by (simp add: ac_simps del: tlv_encode_loop.simps)
qed simp

lemma tlv_image_get:
  assumes "off + length (tlv_image b) \<le> length input"
    and "take (length (tlv_image b)) (drop off input) = tlv_image b"
  shows "get16 input off = tlv_addr b" "get16 input (off + 2) = tlv_length b"
    "take (length (tlv_payload b)) (drop (off + 4) input) = tlv_payload b"
proof -
  obtain p t where i: "input = p @ tlv_image b @ t" and o: "length p = off"
  proof
    show "input = take off input @ tlv_image b @ drop (off + length (tlv_image b)) input"
      by (metis append_take_drop_id assms(2) drop_drop add.commute)
    show "length (take off input) = off" using assms(1) by simp
  qed
  show "get16 input off = tlv_addr b" "get16 input (off + 2) = tlv_length b"
    "take (length (tlv_payload b)) (drop (off + 4) input) = tlv_payload b"
    unfolding i by (simp_all add: get16_def nth_append o tlv_image_def le16_def)
qed

lemma tlv_read_block_image:
  assumes ok: "tlv_ok b" and len: "off + length (tlv_image b) \<le> input_len" "input_len \<le> length input"
    and img: "take (length (tlv_image b)) (drop off input) = tlv_image b"
  shows "tlv_read_block input input_len off = Inr (Inr (tlv_norm b, off + length (tlv_image b)))"
proof -
  have n: "length (tlv_image b) = 4 + unat (tlv_length b)" using ok by (rule length_tlv_image)
  have g: "get16 input off = tlv_addr b" "get16 input (off + 2) = tlv_length b"
      "take (unat (tlv_length b)) (drop (off + 4) input) = tlv_payload b"
    using tlv_image_get[of off b input] len img ok by auto
  have "\<not> tlv_addr b < 1" "\<not> TLV_MAX_VALUE_LENGTH < unat (tlv_length b)"
    using ok by (auto simp: tlv_ok_def)
  then show ?thesis
    using len n g unat_gt_0[of "tlv_length b"]
    by (auto simp: tlv_read_block_def Let_def tlv_norm_def word_gt_0)
qed

lemma tlv_decode_loop_image:
  assumes "list_all tlv_ok bs" "off + length (tlv_images bs) = input_len" "input_len \<le> length input"
    and "take (length (tlv_images bs)) (drop off input) = tlv_images bs" "length bs \<le> room"
  shows "tlv_decode_loop input input_len off room = Inr (Inr (map tlv_norm bs))"
  using assms
proof (induction bs arbitrary: off room)
  case Nil
  then show ?case by (cases room) auto
next
  case (Cons b bs)
  let ?n = "length (tlv_image b)"
  obtain r where r: "room = Suc r" "length bs \<le> r" using Cons.prems(5) by (cases room) auto
  have ok: "tlv_ok b" using Cons.prems(1) by simp
  have n: "?n = 4 + unat (tlv_length b)" using ok by (rule length_tlv_image)
  have img: "take ?n (drop off input) = tlv_image b"
      "take (length (tlv_images bs)) (drop (off + ?n) input) = tlv_images bs"
    using Cons.prems(2,3,4) by (simp_all add: take_add add.commute append_eq_append_conv)
  have read: "tlv_read_block input input_len off = Inr (Inr (tlv_norm b, off + ?n))"
    using ok img(1) Cons.prems(2,3) by (intro tlv_read_block_image) auto
  have rest: "tlv_decode_loop input input_len (off + ?n) r = Inr (Inr (map tlv_norm bs))"
    using Cons.prems img(2) r(2) by (intro Cons.IH) auto
  show ?case using r read rest n Cons.prems(2) by auto
qed

lemma take_4_drop:
  "off + 4 \<le> length xs \<Longrightarrow>
     take 4 (drop off xs) = [xs ! off, xs ! Suc off, xs ! (off + 2), xs ! (off + 3)]"
  by (rule nth_equalityI) (auto simp: nth_Cons' less_Suc_eq numeral_eq_Suc)

lemma tlv_read_block_sound:
  assumes "input_len \<le> length input" "off + 4 \<le> input_len"
  obtains (err) r where "tlv_read_block input input_len off = Inr (Inl r)"
      "r = IOT_ERR_INVALID_ARG \<or> r = IOT_ERR_INVALID_SIZE"
    | (blk) b where "tlv_read_block input input_len off = Inr (Inr (b, off + length (tlv_image b)))"
      "tlv_ok b" "take (length (tlv_image b)) (drop off input) = tlv_image b"
      "off + length (tlv_image b) \<le> input_len"
proof -
  let ?a = "get16 input off" and ?l = "get16 input (off + 2)"
  let ?n = "unat ?l"
  let ?b = "\<lparr>tlv_addr = ?a, tlv_length = ?l,
              tlv_value = if ?l > 0 then Some (take ?n (drop (off + 4) input)) else None\<rparr>"
  consider "?a < 1 \<or> ?n > TLV_MAX_VALUE_LENGTH \<or> off + 4 + ?n > input_len"
    | (ok) "\<not> ?a < 1" "\<not> ?n > TLV_MAX_VALUE_LENGTH" "\<not> off + 4 + ?n > input_len" by blast
  then show thesis
  proof cases
    case 1
    let ?r = "if ?a < 1 then IOT_ERR_INVALID_ARG else IOT_ERR_INVALID_SIZE"
    show thesis
    proof (rule err)
      show "tlv_read_block input input_len off = Inr (Inl ?r)"
        using 1 assms by (auto simp: tlv_read_block_def Let_def)
    qed simp
  next
    case ok
    have b: "tlv_ok ?b" using ok assms by (auto simp: tlv_ok_def word_gt_0 one_le_u16)
    then have n: "length (tlv_image ?b) = 4 + ?n" by (simp add: length_tlv_image)
    have "take 4 (drop off input) = le16 ?a @ le16 ?l"
      using assms by (simp add: take_4_drop le16_def get16_def numeral_3_eq_3)
    then have img: "tlv_image ?b = take (4 + ?n) (drop off input)"
      by (auto simp: tlv_image_def tlv_payload_def take_add add.commute word_gt_0)
    show thesis
      by (rule blk[of ?b])
         (use b n img ok assms in \<open>auto simp: tlv_read_block_def Let_def word_gt_0 add.assoc\<close>)
  qed
qed

lemma tlv_decode_loop_sound:
  assumes "input_len \<le> length input"
  shows "case tlv_decode_loop input input_len off room of
       Inl e \<Rightarrow> False
     | Inr (Inl r) \<Rightarrow> r = IOT_ERR_INVALID_ARG \<or> r = IOT_ERR_INVALID_SIZE
     | Inr (Inr bs) \<Rightarrow> length bs \<le> room \<and> list_all tlv_ok bs \<and>
         take (length (tlv_images bs)) (drop off input) = tlv_images bs \<and>
         (off \<le> input_len \<longrightarrow> off + length (tlv_images bs) \<le> input_len \<and>
           (length bs < room \<longrightarrow> input_len < off + length (tlv_images bs) + 4))"
proof (induction room arbitrary: off)
  case (Suc room)
  show ?case
  proof (cases "off + 4 > input_len")
    case True
    then show ?thesis by auto
  next
    case False
    then have "off + 4 \<le> input_len" by simp
    with assms show ?thesis
    proof (cases rule: tlv_read_block_sound)
      case (err r)
      with False show ?thesis by auto
    next
      case (blk b)
      have step: "tlv_decode_loop input input_len off (Suc room) =
          (case tlv_decode_loop input input_len (off + length (tlv_image b)) room of
             Inl e \<Rightarrow> Inl e | Inr (Inl r) \<Rightarrow> Inr (Inl r) | Inr (Inr rest) \<Rightarrow> Inr (Inr (b # rest)))"
        using False blk(1) by simp
      have app: "take (length (tlv_image b) + n) (drop off input) =
          tlv_image b @ take n (drop (off + length (tlv_image b)) input)" for n
        using blk(3) by (simp add: take_add add.commute[of _ off])
      show ?thesis
        using Suc.IH[of "off + length (tlv_image b)"] blk(2,4) unfolding step
        by (auto simp: app add.assoc split: sum.split_asm)
    qed
  qed
qed simp

lemma tlv_encode_loop_nonneg:
  "tlv_encode_loop bs off sz out = Inr (r, out') \<Longrightarrow> 0 \<le> r"
  by (induction bs off sz out rule: tlv_encode_loop.induct)
     (auto simp: tlv_consts split: if_splits sum.splits prod.splits)

lemma calculate_length_sum:
  "fold (\<lambda>blk total. total + (4 + tlv_length blk)) bs t = t + of_nat (\<Sum>b\<leftarrow>bs. 4 + unat (tlv_length b))"
  by (induction bs arbitrary: t) (simp_all add: algebra_simps)

lemma length_tlv_images:
  "list_all tlv_ok bs \<Longrightarrow> length (tlv_images bs) = (\<Sum>b\<leftarrow>bs. 4 + unat (tlv_length b))"
  by (induction bs) (simp_all add: length_tlv_image)

lemma tlv_images_bound:
  "list_all tlv_ok bs \<Longrightarrow> length (tlv_images bs) \<le> length bs * 259"
  by (induction bs) (auto simp: length_tlv_image tlv_ok_def TLV_MAX_VALUE_LENGTH_def)

section \<open>Properties\<close>

text \<open>C24: Round trip of the TLV codec.  For 1 to 20 acceptable blocks and an output buffer that
  really has the announced size, which is at least the length computed by
  \<open>wlcc_tlv_calculate_length\<close>, the encoder writes exactly that many bytes, leaves the rest of the
  buffer alone, and the decoder run on the written bytes returns the same blocks (values cut to
  their length).\<close>

theorem wlcc_tlv_roundtrip:
  assumes ok: "list_all tlv_ok bs" and cnt: "0 < length bs" "length bs \<le> TLV_MAX_BLOCK_COUNT"
    and sz: "unat (wlcc_tlv_calculate_length (Some bs) (length bs)) \<le> output_size"
    and buf: "output_size \<le> length out"
  shows "\<exists>out'. wlcc_tlv_encode (Some bs) (length bs) (Some out) output_size =
           Inr (uint (wlcc_tlv_calculate_length (Some bs) (length bs)), Some out')
     \<and> (let n = unat (wlcc_tlv_calculate_length (Some bs) (length bs)) in
          drop n out' = drop n out \<and> length out' = length out \<and>
          wlcc_tlv_decode (Some out') n True (length bs) = Inr (Inr (map tlv_norm bs)))"
proof -
  let ?n = "length (tlv_images bs)"
  let ?out = "tlv_images bs @ drop ?n out"
  have "?n < 2 ^ 16"
    using tlv_images_bound[OF ok] cnt(2) by (simp add: TLV_MAX_BLOCK_COUNT_def)
  then have n: "unat (wlcc_tlv_calculate_length (Some bs) (length bs)) = ?n"
    by (simp add: wlcc_tlv_calculate_length_def calculate_length_sum length_tlv_images[OF ok]
        unat_of_nat take_bit_nat_eq_self)
  then have u: "uint (wlcc_tlv_calculate_length (Some bs) (length bs)) = int ?n"
    by (metis uint_nat)
  have "wlcc_tlv_encode (Some bs) (length bs) (Some out) output_size = Inr (int ?n, Some ?out)"
    using tlv_encode_loop_image[OF ok, of 0 output_size out] sz buf cnt n
    by (simp add: wlcc_tlv_encode_def)
  moreover have "wlcc_tlv_decode (Some ?out) ?n True (length bs) = Inr (Inr (map tlv_norm bs))"
    using tlv_decode_loop_image[OF ok, of 0 ?n ?out "length bs"] cnt
    by (simp add: wlcc_tlv_decode_def)
  ultimately show ?thesis
    using n u sz buf by (intro exI[of _ ?out]) (simp add: Let_def)
qed

definition tlv_sample :: "wlcc_tlv_block list" where
  "tlv_sample = demo_blocks (demo_values @ replicate 6 0)"

lemma tlv_sample_facts:
  "length tlv_sample = 3" "list_all tlv_ok tlv_sample"
  "wlcc_tlv_calculate_length (Some tlv_sample) 3 = 26"
  by (simp_all add: tlv_sample_def demo_blocks_def demo_values_def tlv_ok_def tlv_consts
      wlcc_tlv_calculate_length_def)

lemma wlcc_tlv_roundtrip_witness:
  "\<exists>out'. wlcc_tlv_encode (Some tlv_sample) 3 (Some (replicate 32 0)) 32 = Inr (26, Some out')
     \<and> wlcc_tlv_decode (Some out') 26 True 3 = Inr (Inr (map tlv_norm tlv_sample))"
  using wlcc_tlv_roundtrip[of tlv_sample 32 "replicate 32 0"]
  by (auto simp: tlv_sample_facts TLV_MAX_BLOCK_COUNT_def Let_def)

text \<open>The decoder never reads outside an input of the announced length, whatever the bytes
  are: it ends with one of its two error codes, or with at most \<open>max_blocks\<close> well-formed blocks whose
  encoding is exactly the consumed prefix of the input, the rest being either cut off by
  \<open>max_blocks\<close> or shorter than a block header.\<close>

theorem wlcc_tlv_decode_safe:
  assumes "input_len \<le> length input"
  shows "case wlcc_tlv_decode (Some input) input_len True max_blocks of
       Inl e \<Rightarrow> False
     | Inr (Inl r) \<Rightarrow> r = IOT_ERR_INVALID_ARG \<or> r = IOT_ERR_INVALID_SIZE
     | Inr (Inr bs) \<Rightarrow> length bs \<le> max_blocks \<and> list_all tlv_ok bs \<and>
         (let n = length (tlv_images bs) in
            take n input = tlv_images bs \<and> n \<le> input_len \<and>
            (length bs < max_blocks \<longrightarrow> input_len < n + 4))"
proof (cases "max_blocks = 0 \<or> max_blocks > TLV_MAX_BLOCK_COUNT")
  case True
  then show ?thesis by (auto simp: wlcc_tlv_decode_def)
next
  case False
  then have "wlcc_tlv_decode (Some input) input_len True max_blocks =
      tlv_decode_loop input input_len 0 max_blocks" by (simp add: wlcc_tlv_decode_def)
  then show ?thesis
    using tlv_decode_loop_sound[OF assms, where off = 0 and room = max_blocks]
    by (cases "tlv_decode_loop input input_len 0 max_blocks"; cases "projr (tlv_decode_loop input input_len 0 max_blocks)")
       (simp_all add: Let_def)
qed

lemma wlcc_tlv_decode_safe_witness:
  "\<not> is_fault (wlcc_tlv_decode (Some [1, 0, 2, 0, 0xAA, 0xBB, 9, 0]) 8 True 20)"
  using wlcc_tlv_decode_safe[of 8 "[1, 0, 2, 0, 0xAA, 0xBB, 9, 0]" 20]
  by (auto simp: is_fault_def split: sum.splits)

text \<open>The error codes of the encoder are positive, so no call returns a negative number, and
  code 258 is returned both for a block with address 0 and for a correctly encoded block of
  254 bytes: the callers' test \<open>tlv_encoded_len < 0\<close> can never see a failure.\<close>

theorem wlcc_tlv_encode_never_negative:
  "(case wlcc_tlv_encode blocks cnt output sz of Inl e \<Rightarrow> True | Inr (r, out') \<Rightarrow> 0 \<le> r)
   \<and> (\<exists>good bad out. wlcc_tlv_encode (Some [good]) 1 (Some (replicate 300 0)) 300 = Inr (258, out)
        \<and> fst (projr (wlcc_tlv_encode (Some [bad]) 1 (Some (replicate 300 0)) 300)) = 258
        \<and> tlv_addr bad = 0 \<and> tlv_ok good)"
proof
  show "case wlcc_tlv_encode blocks cnt output sz of Inl e \<Rightarrow> True | Inr (r, out') \<Rightarrow> 0 \<le> r"
    by (auto simp: wlcc_tlv_encode_def tlv_consts dest: tlv_encode_loop_nonneg
        split: option.splits sum.splits prod.splits)
next
  define good where "good = \<lparr>tlv_addr = 1, tlv_length = 254, tlv_value = Some (replicate 254 7)\<rparr>"
  define bad where "bad = \<lparr>tlv_addr = 0, tlv_length = 0, tlv_value = None\<rparr>"
  have ok: "tlv_ok good" by (simp add: good_def tlv_ok_def TLV_MAX_VALUE_LENGTH_def)
  have "length (tlv_images [good]) = 258"
    using length_tlv_image[OF ok] by (simp add: good_def)
  then have "\<exists>out. wlcc_tlv_encode (Some [good]) 1 (Some (replicate 300 0)) 300 = Inr (258, out)"
    using tlv_encode_loop_image[of "[good]" 0 300 "replicate 300 0"] ok
    by (simp add: wlcc_tlv_encode_def TLV_MAX_BLOCK_COUNT_def)
  moreover have "fst (projr (wlcc_tlv_encode (Some [bad]) 1 (Some (replicate 300 0)) 300)) = 258"
    by (simp add: wlcc_tlv_encode_def tlv_consts bad_def)
  moreover have "tlv_addr bad = 0" by (simp add: bad_def)
  ultimately show "\<exists>good bad out.
      wlcc_tlv_encode (Some [good]) 1 (Some (replicate 300 0)) 300 = Inr (258, out)
        \<and> fst (projr (wlcc_tlv_encode (Some [bad]) 1 (Some (replicate 300 0)) 300)) = 258
        \<and> tlv_addr bad = 0 \<and> tlv_ok good"
    using ok by blast
qed

text \<open>The 21000-frame test on a buffer that has exactly the announced length: with nine bytes
  or more it never leaves the buffer, but with eight bytes that start like a write to register
  21000 it passes its own length check and reads the ninth byte.\<close>

theorem wlcc_tlv_is_tlv_frame_bounds:
  "(length d \<noteq> 8 \<longrightarrow> \<not> is_fault (wlcc_tlv_is_tlv_frame (Some d) (length d)))
   \<and> wlcc_tlv_is_tlv_frame (Some [a, 0x10, 0x52, 0x08, b, c, e, 0x9C]) 8 = Inl Out_Of_Bounds_Read"
proof (intro conjI impI)
  assume n: "length d \<noteq> 8"
  show "\<not> is_fault (wlcc_tlv_is_tlv_frame (Some d) (length d))"
  proof (cases "length d < 8")
    case True
    then show ?thesis by (simp add: wlcc_tlv_is_tlv_frame_def)
  next
    case False
    with n have "rd8 d i = Inr (d ! i)" if "i \<le> 8" for i using that by (simp add: rd8_def)
    then show ?thesis by (simp add: wlcc_tlv_is_tlv_frame_def)
  qed
next
  have "mk16 0x52 0x08 = 21000" by (simp add: mk16_def)
  then show "wlcc_tlv_is_tlv_frame (Some [a, 0x10, 0x52, 0x08, b, c, e, 0x9C]) 8 = Inl Out_Of_Bounds_Read"
    by (simp add: wlcc_tlv_is_tlv_frame_def rd8_def)
qed

lemma wlcc_tlv_is_tlv_frame_bounds_witness:
  "\<not> is_fault (wlcc_tlv_is_tlv_frame (Some (replicate 9 0x10)) 9)"
  using wlcc_tlv_is_tlv_frame_bounds[of "replicate 9 0x10" 0 0 0 0] by simp

end
