(* ===== verification/Udt_Transfer.thy ===== *)
theory Udt_Transfer
  imports Crc
begin

text \<open>
  The generic data channel, \<open>udt/udt_transfer.c\<close>: framing with a 20-byte big-endian header and a
  Modbus CRC, relaying between the terminals (server, PC, Bluetooth) and the devices below, and
  local reception with an event callback.  The static variables of the file are the record
  \<open>udt\<close>.  The transport functions and the event callback are registered by the caller; they
  are functions on an arbitrary outside world \<open>'w\<close>.  A data pointer is an option of the bytes it
  points at, and \<open>sz\<close> is the separate length argument, so that reads beyond the object are faults.
\<close>

section \<open>Constants and data\<close>

definition UDT_PROT_MARK :: u8 where "UDT_PROT_MARK = 0x09"
definition UDT_PROT_VER :: u8 where "UDT_PROT_VER = 0xF8"
definition UDT_PROT_SCENE :: u8 where "UDT_PROT_SCENE = 0x01"
definition UDT_ONCE_TX_MAX_SIZE :: nat where "UDT_ONCE_TX_MAX_SIZE = 1024"
definition UDT_MODE_SVC :: u8 where "UDT_MODE_SVC = 0"
definition UDT_MODE_PC :: u8 where "UDT_MODE_PC = 1"
definition UDT_MODE_BLE :: u8 where "UDT_MODE_BLE = 2"
definition UDT_FUNCODE_QUERY_FILE :: u8 where "UDT_FUNCODE_QUERY_FILE = 50"
definition UDT_FUNCODE_QUERY_FILE_RTN :: u8 where "UDT_FUNCODE_QUERY_FILE_RTN = 51"
definition UDT_FUNCODE_QUERY_CONTENT :: u8 where "UDT_FUNCODE_QUERY_CONTENT = 52"
definition UDT_FUNCODE_QUERY_CONTENT_RTN :: u8 where "UDT_FUNCODE_QUERY_CONTENT_RTN = 53"
definition UDT_FUNCODE_QUERY_CONTENT_SVC_ACK :: u8 where "UDT_FUNCODE_QUERY_CONTENT_SVC_ACK = 54"
definition UDT_FUNCODE_NEW_LOG_REPORT :: u8 where "UDT_FUNCODE_NEW_LOG_REPORT = 55"
definition UDT_RECV_QUEUE_LEN :: nat where "UDT_RECV_QUEUE_LEN = 16"

lemmas udt_consts = UDT_PROT_MARK_def UDT_PROT_VER_def UDT_PROT_SCENE_def UDT_ONCE_TX_MAX_SIZE_def
  UDT_MODE_SVC_def UDT_MODE_PC_def UDT_MODE_BLE_def UDT_FUNCODE_QUERY_FILE_def
  UDT_FUNCODE_QUERY_FILE_RTN_def UDT_FUNCODE_QUERY_CONTENT_def UDT_FUNCODE_QUERY_CONTENT_RTN_def
  UDT_FUNCODE_QUERY_CONTENT_SVC_ACK_def UDT_FUNCODE_NEW_LOG_REPORT_def UDT_RECV_QUEUE_LEN_def

type_synonym 'w data_transfer = "u8 \<Rightarrow> u8 list \<Rightarrow> 'w \<Rightarrow> int \<times> 'w"

text \<open>The parameter union of an event: after the \<open>memset\<close> it is all zero, and each function code
  fills its own member.\<close>

datatype udt_param =
    Param_Zero
  | Qry_Cont u32 "u8 list" u8
  | Svc_Ack u16 u16

record udt_event =
  ev_funcode :: u8
  ev_mode :: u8
  ev_req_id :: u16
  ev_param :: udt_param

record 'w udt_transfer =
  to_server :: "'w data_transfer option"
  to_pc :: "'w data_transfer option"
  to_ble :: "'w data_transfer option"

record 'w udt_relay_list =
  addr1 :: u8
  addr2 :: u8
  rl_transfer :: "'w data_transfer option"

record udt_recv_data =
  rd_data :: "u8 list"
  rd_len :: nat
  rd_chl :: u8

record 'w udt =
  transfer :: "'w udt_transfer"
  relay_nums :: u8
  relay_list :: "'w udt_relay_list list"
  local_addr :: u8
  event :: udt_event
  rx_evt_cb :: "(udt_event \<Rightarrow> 'w \<Rightarrow> int \<times> 'w) option"
  relay_mode :: u8
  recv_queue :: "udt_recv_data list option"

record udt_tx_data =
  tx_mode :: u8
  tx_req_id :: u16
  tx_pkg_idx :: u16
  tx_pkg_total :: u16
  tx_start_pos :: u32
  tx_data_size :: u32
  tx_funcode :: u8
  tx_data :: "u8 list option"

definition udt_event_zero :: udt_event where
  "udt_event_zero = \<lparr>ev_funcode = 0, ev_mode = 0, ev_req_id = 0, ev_param = Param_Zero\<rparr>"

text \<open>\<open>udt_event.param.qry_cont.type_read\<close>: the last byte of the union, zero unless the event
  is a content query.\<close>

definition ev_type_read :: "udt_event \<Rightarrow> u8" where
  "ev_type_read e = (case ev_param e of Qry_Cont s f t \<Rightarrow> t | _ \<Rightarrow> 0)"

section \<open>The header on the wire\<close>

definition UDT_SWAP16 :: "u16 \<Rightarrow> u16" where
  "UDT_SWAP16 n = drop_bit 8 (n AND 0xff00) OR push_bit 8 (n AND 0x00ff)"

definition UDT_SWAP32 :: "u32 \<Rightarrow> u32" where
  "UDT_SWAP32 n = drop_bit 24 (n AND 0xff000000) OR drop_bit 8 (n AND 0x00ff0000) OR
                  push_bit 8 (n AND 0x0000ff00) OR push_bit 24 (n AND 0x000000ff)"

text \<open>The packed \<open>udt_protocol_t\<close> as it lies in memory on a little-endian machine; the multi-byte
  fields hold the already swapped values.\<close>

record udt_protocol =
  mark :: u8
  version :: u8
  scene :: u8
  req_id :: u16
  pkg_idx :: u16
  pkg_total :: u16
  type_read :: u8
  address :: u8
  funcode :: u8
  start_pos :: u32
  data_size :: u32

definition sizeof_udt_protocol :: nat where
  "sizeof_udt_protocol = 20"

definition udt_protocol_bytes :: "udt_protocol \<Rightarrow> u8 list" where
  "udt_protocol_bytes h =
     [mark h, version h, scene h] @ le16 (req_id h) @ le16 (pkg_idx h) @ le16 (pkg_total h) @
     [type_read h, address h, funcode h] @ le32 (start_pos h) @ le32 (data_size h)"

definition udt_protocol_of :: "u8 list \<Rightarrow> udt_protocol" where
  "udt_protocol_of d =
     \<lparr>mark = d ! 0, version = d ! 1, scene = d ! 2, req_id = get16 d 3, pkg_idx = get16 d 5,
      pkg_total = get16 d 7, type_read = d ! 9, address = d ! 10, funcode = d ! 11,
      start_pos = get32 d 12, data_size = get32 d 16\<rparr>"

text \<open>The check casts the buffer to the header and compares its first three bytes before it looks
  at the CRC; \<open>size - 2\<close> is truncated to 16 bits by the CRC routine's parameter.\<close>

definition udt_protocol_check :: "u8 list \<Rightarrow> nat \<Rightarrow> int cres" where
  "udt_protocol_check d sz =
     need 3 d
      (if d ! 0 \<noteq> UDT_PROT_MARK \<or> d ! 1 \<noteq> UDT_PROT_VER \<or> d ! 2 \<noteq> UDT_PROT_SCENE then Inr (- 1)
       else if sz < 2 then Inl Out_Of_Bounds_Read
       else need sz d
        (if get16 d (sz - 2) \<noteq> CalcCrc16_modbus d (of_nat (sz - 2)) then Inr (- 1) else Inr 0))"

definition is_query_funcode :: "u8 \<Rightarrow> bool" where
  "is_query_funcode fc \<longleftrightarrow>
     fc = UDT_FUNCODE_QUERY_FILE \<or> fc = UDT_FUNCODE_QUERY_CONTENT \<or>
     fc = UDT_FUNCODE_QUERY_CONTENT_SVC_ACK"

definition is_reply_funcode :: "u8 \<Rightarrow> bool" where
  "is_reply_funcode fc \<longleftrightarrow> fc = UDT_FUNCODE_QUERY_FILE_RTN \<or> fc = UDT_FUNCODE_QUERY_CONTENT_RTN"

section \<open>Initialisation\<close>

text \<open>\<open>queue_ok\<close> is the outcome of \<open>xQueueCreate\<close>.\<close>

definition udt_init ::
    "u8 \<Rightarrow> 'w udt_transfer option \<Rightarrow> (u8 \<times> 'w udt_relay_list list) option \<Rightarrow>
     (udt_event \<Rightarrow> 'w \<Rightarrow> int \<times> 'w) option \<Rightarrow> bool \<Rightarrow> 'w udt \<Rightarrow> 'w udt" where
  "udt_init addr tr rl cb queue_ok u =
     (let u1 = u\<lparr>local_addr := addr\<rparr>;
          u2 = (case tr of None \<Rightarrow> u1 | Some t \<Rightarrow> u1\<lparr>transfer := t\<rparr>);
          u3 = (case rl of None \<Rightarrow> u2 | Some (n, l) \<Rightarrow> u2\<lparr>relay_nums := n, relay_list := l\<rparr>);
          u4 = (case cb of None \<Rightarrow> u3 | Some c \<Rightarrow> u3\<lparr>rx_evt_cb := Some c\<rparr>)
      in if recv_queue u4 = None \<and> queue_ok then u4\<lparr>recv_queue := Some []\<rparr> else u4)"

definition udt_set_address :: "u8 \<Rightarrow> 'w udt \<Rightarrow> 'w udt" where
  "udt_set_address addr u = u\<lparr>local_addr := addr\<rparr>"

section \<open>Relaying\<close>

definition call_transfer ::
    "'w data_transfer option \<Rightarrow> u8 \<Rightarrow> u8 list \<Rightarrow> 'w udt \<Rightarrow> 'w \<Rightarrow> (int \<times> 'w udt \<times> 'w) cres" where
  "call_transfer f addr d u w =
     (case f of None \<Rightarrow> Inl Null_Call | Some g \<Rightarrow> (case g addr d w of (r, w') \<Rightarrow> Inr (r, u, w')))"

text \<open>The NULL tests on the transport of the given mode; an unknown mode is not tested.\<close>

definition transport_missing :: "u8 \<Rightarrow> 'w udt_transfer \<Rightarrow> bool" where
  "transport_missing m t \<longleftrightarrow>
     (m = UDT_MODE_SVC \<and> to_server t = None) \<or> (m = UDT_MODE_PC \<and> to_pc t = None) \<or>
     (m = UDT_MODE_BLE \<and> to_ble t = None)"

definition transport_for :: "u8 \<Rightarrow> 'w udt_transfer \<Rightarrow> 'w data_transfer option" where
  "transport_for m t =
     (if m = UDT_MODE_SVC then to_server t else if m = UDT_MODE_BLE then to_ble t else to_pc t)"

definition udt_relay_to_terminal ::
    "u8 list option \<Rightarrow> nat \<Rightarrow> 'w udt \<Rightarrow> 'w \<Rightarrow> (int \<times> 'w udt \<times> 'w) cres" where
  "udt_relay_to_terminal data sz u w =
     (case data of None \<Rightarrow> Inr (- 1, u, w)
      | Some d \<Rightarrow>
         if sz = 0 then Inr (- 1, u, w)
         else if transport_missing (relay_mode u) (transfer u) then Inr (- 1, u, w)
         else cbind (udt_protocol_check d sz) (\<lambda>c.
           if c \<noteq> 0 then Inr (- 1, u, w)
           else need 12 d
             (if \<not> is_reply_funcode (d ! 11) then Inr (- 1, u, w)
              else if d ! 10 = local_addr u then Inr (- 1, u, w)
              else call_transfer (transport_for (relay_mode u) (transfer u)) (d ! 10) (take sz d) u w)))"

fun udt_find_relay :: "nat \<Rightarrow> 'w udt_relay_list list \<Rightarrow> u8 \<Rightarrow> 'w data_transfer option cres" where
  "udt_find_relay 0 l a = Inr None"
| "udt_find_relay (Suc n) [] a = Inl Out_Of_Bounds_Read"
| "udt_find_relay (Suc n) (e # l) a =
     (if addr1 e \<le> a \<and> a \<le> addr2 e then Inr (rl_transfer e) else udt_find_relay n l a)"

definition udt_relay_to_device ::
    "u8 list option \<Rightarrow> nat \<Rightarrow> u8 \<Rightarrow> 'w udt \<Rightarrow> 'w \<Rightarrow> (int \<times> 'w udt \<times> 'w) cres" where
  "udt_relay_to_device data sz md u w =
     (case data of None \<Rightarrow> Inr (- 1, u, w)
      | Some d \<Rightarrow>
         if sz = 0 \<or> relay_nums u = 0 then Inr (- 1, u, w)
         else cbind (udt_protocol_check d sz) (\<lambda>c.
           if c \<noteq> 0 then Inr (- 1, u, w)
           else need 12 d
             (if \<not> is_query_funcode (d ! 11) then Inr (- 1, u, w)
              else if d ! 10 = local_addr u then Inr (- 1, u, w)
              else cbind (udt_find_relay (unat (relay_nums u)) (relay_list u) (d ! 10)) (\<lambda>t.
                case t of None \<Rightarrow> Inr (- 1, u, w)
                | Some f \<Rightarrow> call_transfer t (d ! 10) (take sz d) (u\<lparr>relay_mode := md\<rparr>) w))))"

section \<open>Sending\<close>

definition udt_tx_header :: "udt_tx_data \<Rightarrow> u16 \<Rightarrow> u8 \<Rightarrow> u8 \<Rightarrow> udt_protocol" where
  "udt_tx_header t rid tread addr =
     \<lparr>mark = UDT_PROT_MARK, version = UDT_PROT_VER, scene = UDT_PROT_SCENE, req_id = rid,
      pkg_idx = UDT_SWAP16 (tx_pkg_idx t), pkg_total = UDT_SWAP16 (tx_pkg_total t),
      type_read = tread, address = addr, funcode = tx_funcode t,
      start_pos = UDT_SWAP32 (tx_start_pos t), data_size = UDT_SWAP32 (tx_data_size t)\<rparr>"

definition udt_frame :: "udt_protocol \<Rightarrow> u8 list \<Rightarrow> u8 list" where
  "udt_frame h payload =
     (let body = udt_protocol_bytes h @ payload
      in body @ le16 (CalcCrc16_modbus body (of_nat (length body))))"

definition udt_transmit :: "udt_tx_data \<Rightarrow> 'w udt \<Rightarrow> 'w \<Rightarrow> (int \<times> 'w udt \<times> 'w) cres" where
  "udt_transmit t u w =
     (case tx_data t of None \<Rightarrow> Inr (- 1, u, w)
      | Some bytes \<Rightarrow>
         if unat (tx_data_size t) > UDT_ONCE_TX_MAX_SIZE \<or> tx_pkg_total t = 0 then Inr (- 1, u, w)
         else if \<not> is_reply_funcode (tx_funcode t) \<and> tx_funcode t \<noteq> UDT_FUNCODE_NEW_LOG_REPORT
         then Inr (- 1, u, w)
         else let is_log = (tx_funcode t = UDT_FUNCODE_NEW_LOG_REPORT) in
           if (is_log \<and> to_server (transfer u) = None) \<or> transport_missing (tx_mode t) (transfer u)
           then Inr (- 1, u, w)
           else need (unat (tx_data_size t)) bytes
             (let rid = (if is_log then 0 else UDT_SWAP16 (tx_req_id t));
                  tread = (if tx_funcode t = UDT_FUNCODE_QUERY_CONTENT_RTN
                           then ev_type_read (event u) else 0);
                  frame = udt_frame (udt_tx_header t rid tread (local_addr u))
                            (take (unat (tx_data_size t)) bytes)
              in call_transfer (if is_log then to_server (transfer u)
                                else transport_for (tx_mode t) (transfer u))
                   (local_addr u) frame u w))"

text \<open>\<open>udt_header_data\<close> frames into the caller's buffer; the result is the returned
  \<open>uint16_t\<close> and the buffer.\<close>

definition udt_header_data :: "u8 list \<Rightarrow> udt_tx_data \<Rightarrow> 'w udt \<Rightarrow> (u16 \<times> u8 list) cres" where
  "udt_header_data buffer t u =
     (case tx_data t of None \<Rightarrow> Inr (- 1, buffer)
      | Some bytes \<Rightarrow>
         if tx_pkg_total t = 0 then Inr (- 1, buffer)
         else need (unat (tx_data_size t)) bytes
           (let frame = udt_frame (udt_tx_header t 0 0 (local_addr u)) (take (unat (tx_data_size t)) bytes)
            in if length frame > length buffer then Inl Out_Of_Bounds_Write
               else Inr (of_nat (length frame), frame @ drop (length frame) buffer)))"

section \<open>Receiving\<close>

text \<open>The event parameters of a query.  \<open>fname\<close> has eleven bytes and the copied length is the
  \<open>data_size\<close> field of the frame.\<close>

definition udt_fname :: "u8 list \<Rightarrow> nat \<Rightarrow> u8 list cres" where
  "udt_fname d n =
     (if n > 11 then Inl Out_Of_Bounds_Write
      else need (sizeof_udt_protocol + n) d
        (Inr (take n (drop sizeof_udt_protocol d) @ replicate (11 - n) 0)))"

definition udt_event_param :: "u8 list \<Rightarrow> udt_protocol \<Rightarrow> udt_param cres" where
  "udt_event_param d h =
     (if funcode h = UDT_FUNCODE_QUERY_CONTENT then
        cbind (udt_fname d (unat (UDT_SWAP32 (data_size h)))) (\<lambda>fname.
          Inr (Qry_Cont (UDT_SWAP32 (start_pos h)) fname (type_read h)))
      else if funcode h = UDT_FUNCODE_QUERY_CONTENT_SVC_ACK then
        need (sizeof_udt_protocol + 4) d
          (Inr (Svc_Ack (UDT_SWAP16 (get16 d sizeof_udt_protocol))
                        (UDT_SWAP16 (get16 d (sizeof_udt_protocol + 2)))))
      else Inr Param_Zero)"

definition udt_receive ::
    "u8 list option \<Rightarrow> nat \<Rightarrow> u8 \<Rightarrow> 'w udt \<Rightarrow> 'w \<Rightarrow> (int \<times> 'w udt \<times> 'w) cres" where
  "udt_receive data sz md u w =
     (case (data, rx_evt_cb u) of
        (Some d, Some cb) \<Rightarrow>
          if sz = 0 then Inr (- 1, u, w)
          else cbind (udt_protocol_check d sz) (\<lambda>c.
            if c \<noteq> 0 then Inr (- 1, u, w)
            else need 12 d
              (if \<not> is_query_funcode (d ! 11) then Inr (- 1, u, w)
               else if d ! 10 \<noteq> local_addr u then Inr (- 1, u, w)
               else need sizeof_udt_protocol d
                 (let h = udt_protocol_of d in
                  cbind (udt_event_param d h) (\<lambda>prm.
                    let e = \<lparr>ev_funcode = funcode h, ev_mode = md,
                             ev_req_id = UDT_SWAP16 (req_id h), ev_param = prm\<rparr>
                    in case cb e w of (r, w') \<Rightarrow> Inr (r, u\<lparr>event := e\<rparr>, w')))))
      | _ \<Rightarrow> Inr (- 1, u, w))"

text \<open>The three terminal interfaces differ only in the mode they pass on.\<close>

definition udt_interface ::
    "u8 \<Rightarrow> u8 list option \<Rightarrow> nat \<Rightarrow> 'w udt \<Rightarrow> 'w \<Rightarrow> (int \<times> 'w udt \<times> 'w) cres" where
  "udt_interface md data sz u w =
     (case data of None \<Rightarrow> Inr (- 1, u, w)
      | Some d \<Rightarrow>
         if sz = 0 then Inr (- 1, u, w)
         else cbind (udt_protocol_check d sz) (\<lambda>c.
           if c \<noteq> 0 then Inr (- 1, u, w)
           else need 12 d
             (if \<not> is_query_funcode (d ! 11) then Inr (- 1, u, w)
              else if d ! 10 = local_addr u then udt_receive data sz md u w
              else udt_relay_to_device data sz md u w)))"

definition udt_pc_interface where "udt_pc_interface = udt_interface UDT_MODE_PC"
definition udt_svc_interface where "udt_svc_interface = udt_interface UDT_MODE_SVC"
definition udt_ble_interface where "udt_ble_interface = udt_interface UDT_MODE_BLE"

definition udt_process_handle ::
    "u8 list option \<Rightarrow> nat \<Rightarrow> u8 \<Rightarrow> 'w udt \<Rightarrow> 'w \<Rightarrow> (int \<times> 'w udt \<times> 'w) cres" where
  "udt_process_handle data sz chl u w =
     (case data of None \<Rightarrow> Inr (- 1, u, w)
      | Some d \<Rightarrow>
         if sz = 0 then Inr (- 1, u, w)
         else if chl = UDT_MODE_SVC then udt_svc_interface data sz u w
         else if chl = UDT_MODE_PC then udt_pc_interface data sz u w
         else if chl = UDT_MODE_BLE then udt_ble_interface data sz u w
         else udt_svc_interface data sz u w)"

definition udt_relay_mode_get :: "'w udt \<Rightarrow> u8" where
  "udt_relay_mode_get u = relay_mode u"

text \<open>\<open>alloc_ok\<close> is the outcome of \<open>iot_calloc\<close>; a full queue makes \<open>xQueueSend\<close> time out.\<close>

definition udt_recv_push :: "bool \<Rightarrow> u8 list option \<Rightarrow> nat \<Rightarrow> u8 \<Rightarrow> 'w udt \<Rightarrow> (int \<times> 'w udt) cres" where
  "udt_recv_push alloc_ok data sz chl u =
     (case data of None \<Rightarrow> Inr (- 1, u)
      | Some d \<Rightarrow>
         if sz = 0 then Inr (- 1, u)
         else if \<not> alloc_ok then Inr (- 1, u)
         else need sz d
           (case recv_queue u of None \<Rightarrow> Inr (- 1, u)
            | Some q \<Rightarrow>
                if length q < UDT_RECV_QUEUE_LEN
                then Inr (0, u\<lparr>recv_queue := Some (q @ [\<lparr>rd_data = take sz d, rd_len = sz, rd_chl = chl\<rparr>])\<rparr>)
                else Inr (- 1, u)))"

definition udt_recv_process_task :: "'w udt \<Rightarrow> 'w \<Rightarrow> ('w udt \<times> 'w) cres" where
  "udt_recv_process_task u w =
     (case recv_queue u of
        Some (m # q) \<Rightarrow>
          cbind (udt_process_handle (Some (rd_data m)) (rd_len m) (rd_chl m) (u\<lparr>recv_queue := Some q\<rparr>) w)
            (\<lambda>(r, u', w'). Inr (u', w'))
      | _ \<Rightarrow> Inr (u, w))"

section \<open>Framing lemmas\<close>

lemma UDT_SWAP16_eq: "UDT_SWAP16 n = bswap16 n"
proof (rule bit_word_eqI)
  have m: "(0xff00 :: u16) = push_bit 8 (mask 8)" "(0x00ff :: u16) = mask 8"
    by (simp_all add: mask_eq_exp_minus_1)
  fix i assume "i < LENGTH(16)"
  then show "bit (UDT_SWAP16 n) i = bit (bswap16 n) i"
    unfolding UDT_SWAP16_def bswap16_def mk16_def lo8_def hi8_def m
    by (cases "i < 8") (auto simp: bit_simps)
qed

lemma UDT_SWAP32_eq: "UDT_SWAP32 n = bswap32 n"
proof (rule bit_word_eqI)
  have m: "(0xff000000 :: u32) = push_bit 24 (mask 8)" "(0x00ff0000 :: u32) = push_bit 16 (mask 8)"
      "(0x0000ff00 :: u32) = push_bit 8 (mask 8)" "(0x000000ff :: u32) = mask 8"
    by (simp_all add: mask_eq_exp_minus_1)
  fix i assume "i < LENGTH(32)"
  then show "bit (UDT_SWAP32 n) i = bit (bswap32 n) i"
    unfolding UDT_SWAP32_def bswap32_def mk32_def byte32_def m
    by (cases "i < 8"; cases "i < 16"; cases "i < 24") (auto simp: bit_simps)
qed

lemma UDT_SWAP_inv [simp]: "UDT_SWAP16 (UDT_SWAP16 a) = a" "UDT_SWAP32 (UDT_SWAP32 b) = b"
  by (simp_all add: UDT_SWAP16_eq UDT_SWAP32_eq)

lemma length_udt_protocol_bytes [simp]: "length (udt_protocol_bytes h) = 20"
  by (simp add: udt_protocol_bytes_def)

lemma udt_protocol_of_bytes: "udt_protocol_of (udt_protocol_bytes h @ rest) = h"
  by (cases h)
     (simp add: udt_protocol_of_def udt_protocol_bytes_def get16_def get32_def le16_def le32_def
        nth_Cons' mk32_byte32 [unfolded One_nat_def])

lemma length_udt_frame [simp]: "length (udt_frame h p) = 22 + length p"
  by (simp add: udt_frame_def Let_def)

lemma udt_frame_append: "udt_frame h p = udt_protocol_bytes h @ p @ drop (20 + length p) (udt_frame h p)"
  by (simp add: udt_frame_def Let_def)

lemma udt_frame_fields:
  "udt_protocol_of (udt_frame h p) = h"
  "take (length p) (drop 20 (udt_frame h p)) = p"
  "udt_frame h p ! 10 = address h" "udt_frame h p ! 11 = funcode h"
proof -
  show h: "udt_protocol_of (udt_frame h p) = h"
    by (subst udt_frame_append) (rule udt_protocol_of_bytes)
  show "take (length p) (drop 20 (udt_frame h p)) = p"
    by (subst udt_frame_append) simp
  from h show "udt_frame h p ! 10 = address h" "udt_frame h p ! 11 = funcode h"
    by (metis udt_protocol_of_def udt_protocol.select_convs(8),
        metis udt_protocol_of_def udt_protocol.select_convs(9))
qed

lemma modbus_crc_prefix:
  "length xs < 65536 \<Longrightarrow> CalcCrc16_modbus (xs @ ys) (of_nat (length xs)) = CalcCrc16_modbus xs (of_nat (length xs))"
  by (simp add: CalcCrc16_modbus_def unat_of_nat take_bit_nat_eq_self)

lemma udt_protocol_check_frame:
  assumes "mark h = UDT_PROT_MARK" "version h = UDT_PROT_VER" "scene h = UDT_PROT_SCENE"
    and "length p \<le> 60000"
  shows "udt_protocol_check (udt_frame h p) (length (udt_frame h p)) = Inr 0"
proof -
  let ?b = "udt_protocol_bytes h @ p"
  let ?c = "CalcCrc16_modbus ?b (of_nat (length ?b))"
  have f: "udt_frame h p = ?b @ le16 ?c" by (simp add: udt_frame_def Let_def)
  have "get16 (?b @ le16 ?c) (length ?b) = ?c" by simp
  moreover have "CalcCrc16_modbus (?b @ le16 ?c) (of_nat (length ?b)) = ?c"
    using assms(4) by (intro modbus_crc_prefix) simp
  moreover have "(?b @ le16 ?c) ! 0 = mark h" "(?b @ le16 ?c) ! 1 = version h"
      "(?b @ le16 ?c) ! 2 = scene h"
    by (simp_all add: udt_protocol_bytes_def)
  moreover have "length (udt_frame h p) - 2 = length ?b" by simp
  ultimately show ?thesis
    unfolding udt_protocol_check_def using assms(1-3) by (simp add: f)
qed

lemma udt_protocol_check_cases:
  "udt_protocol_check d sz = Inr c \<Longrightarrow> c = 0 \<or> c = - 1"
  by (auto simp: udt_protocol_check_def need_def split: if_splits)

lemma udt_protocol_check_len: "udt_protocol_check d sz = Inr 0 \<Longrightarrow> 3 \<le> length d \<and> 2 \<le> sz \<and> sz \<le> length d"
  by (auto simp: udt_protocol_check_def need_def split: if_splits)

lemma udt_protocol_check_total: "length d = sz \<Longrightarrow> 3 \<le> sz \<Longrightarrow> \<not> is_fault (udt_protocol_check d sz)"
  by (auto simp: udt_protocol_check_def)

definition in_range :: "u8 \<Rightarrow> 'w udt_relay_list \<Rightarrow> bool" where
  "in_range a e \<longleftrightarrow> addr1 e \<le> a \<and> a \<le> addr2 e"

lemma udt_find_relay_eq:
  "n \<le> length l \<Longrightarrow> udt_find_relay n l a =
     Inr (case List.find (in_range a) (take n l) of None \<Rightarrow> None | Some e \<Rightarrow> rl_transfer e)"
  by (induction n l a rule: udt_find_relay.induct) (auto simp: in_range_def)

lemma udt_mode_distinct:
  "UDT_MODE_SVC \<noteq> UDT_MODE_PC" "UDT_MODE_PC \<noteq> UDT_MODE_SVC" "UDT_MODE_BLE \<noteq> UDT_MODE_SVC"
  "UDT_MODE_BLE \<noteq> UDT_MODE_PC"
  by (simp_all add: udt_consts)

lemma u8_le_2: "(c :: u8) \<le> 2 \<Longrightarrow> c = 0 \<or> c = 1 \<or> c = 2"
  by unat_arith

text \<open>The header of a reply, and the call that an acceptable reply amounts to.\<close>

definition reply_header :: "udt_tx_data \<Rightarrow> 'w udt \<Rightarrow> udt_protocol" where
  "reply_header t u = udt_tx_header t (UDT_SWAP16 (tx_req_id t))
      (if tx_funcode t = UDT_FUNCODE_QUERY_CONTENT_RTN then ev_type_read (event u) else 0) (local_addr u)"

lemma udt_transmit_send:
  assumes "tx_data t = Some bytes" "unat (tx_data_size t) \<le> length bytes"
    and "unat (tx_data_size t) \<le> 1024" "tx_pkg_total t \<noteq> 0" "is_reply_funcode (tx_funcode t)"
    and "transport_for (tx_mode t) (transfer u) = Some f" "\<not> transport_missing (tx_mode t) (transfer u)"
  shows "udt_transmit t u w =
    (case f (local_addr u) (udt_frame (reply_header t u) (take (unat (tx_data_size t)) bytes)) w of
       (r, w') \<Rightarrow> Inr (r, u, w'))"
proof -
  have "tx_funcode t \<noteq> UDT_FUNCODE_NEW_LOG_REPORT"
    using assms(5) by (auto simp: is_reply_funcode_def udt_consts)
  then show ?thesis
    using assms
    by (simp add: udt_transmit_def Let_def call_transfer_def UDT_ONCE_TX_MAX_SIZE_def reply_header_def)
qed

section \<open>Properties\<close>

text \<open>C25: A reply that \<open>udt_transmit\<close> accepts is sent exactly once, on the transport of the
  requested mode, as a frame that carries the fields and payload in network byte order and whose
  check passes; a gateway with a different address and an available terminal hands that same
  frame, unchanged, to its own transport.\<close>

theorem udt_transmit_relayed:
  fixes u v :: "'w udt" and t :: udt_tx_data
  assumes "tx_data t = Some bytes" "unat (tx_data_size t) \<le> length bytes"
    and "unat (tx_data_size t) \<le> 1024" "tx_pkg_total t \<noteq> 0" "is_reply_funcode (tx_funcode t)"
    and "transport_for (tx_mode t) (transfer u) = Some f" "\<not> transport_missing (tx_mode t) (transfer u)"
    and "local_addr v \<noteq> local_addr u"
    and "transport_for (relay_mode v) (transfer v) = Some g" "\<not> transport_missing (relay_mode v) (transfer v)"
  shows "\<exists>frame. udt_transmit t u w = (case f (local_addr u) frame w of (r, w') \<Rightarrow> Inr (r, u, w'))
     \<and> udt_relay_to_terminal (Some frame) (length frame) v w2 =
         (case g (local_addr u) frame w2 of (r, w') \<Rightarrow> Inr (r, v, w'))
     \<and> length frame = 22 + unat (tx_data_size t)
     \<and> take (unat (tx_data_size t)) (drop 20 frame) = take (unat (tx_data_size t)) bytes
     \<and> (let h = udt_protocol_of frame in
          address h = local_addr u \<and> funcode h = tx_funcode t \<and>
          UDT_SWAP16 (req_id h) = tx_req_id t \<and> UDT_SWAP16 (pkg_idx h) = tx_pkg_idx t \<and>
          UDT_SWAP16 (pkg_total h) = tx_pkg_total t \<and>
          UDT_SWAP32 (start_pos h) = tx_start_pos t \<and> UDT_SWAP32 (data_size h) = tx_data_size t)"
proof -
  let ?p = "take (unat (tx_data_size t)) bytes"
  have np: "length ?p = unat (tx_data_size t)" using assms(2) by simp
  define h where "h = reply_header t u"
  let ?fr = "udt_frame h ?p"
  have send: "udt_transmit t u w = (case f (local_addr u) ?fr w of (r, w') \<Rightarrow> Inr (r, u, w'))"
    using udt_transmit_send[OF assms(1-7)] by (simp add: h_def)
  have chk: "udt_protocol_check ?fr (length ?fr) = Inr 0"
    using assms(3) np by (intro udt_protocol_check_frame) (simp_all add: h_def reply_header_def udt_tx_header_def)
  have relay: "udt_relay_to_terminal (Some ?fr) (length ?fr) v w2 =
      (case g (local_addr u) ?fr w2 of (r, w') \<Rightarrow> Inr (r, v, w'))"
    using chk assms(5,8-10)
    by (simp add: udt_relay_to_terminal_def call_transfer_def udt_frame_fields)
       (simp add: h_def reply_header_def udt_tx_header_def)
  show ?thesis
    using send relay np udt_frame_fields[where h = h and p = ?p]
    by (intro exI[of _ ?fr]) (simp add: Let_def h_def reply_header_def udt_tx_header_def)
qed

definition recording :: "(u8 \<times> u8 list) list data_transfer" where
  "recording a d w = (0, w @ [(a, d)])"

definition sample_udt :: "u8 \<Rightarrow> (u8 \<times> u8 list) list udt" where
  "sample_udt a = \<lparr>transfer = \<lparr>to_server = Some recording, to_pc = Some recording, to_ble = None\<rparr>,
     relay_nums = 2,
     relay_list = [\<lparr>addr1 = 1, addr2 = 20, rl_transfer = Some recording\<rparr>,
                   \<lparr>addr1 = 10, addr2 = 90, rl_transfer = None\<rparr>],
     local_addr = a, event = udt_event_zero, rx_evt_cb = Some (\<lambda>e w. (7, w)), relay_mode = 0,
     recv_queue = Some []\<rparr>"

definition sample_tx :: udt_tx_data where
  "sample_tx = \<lparr>tx_mode = 1, tx_req_id = 5, tx_pkg_idx = 1, tx_pkg_total = 3, tx_start_pos = 1024,
     tx_data_size = 2, tx_funcode = 53, tx_data = Some [0xAA, 0xBB]\<rparr>"

lemma udt_transmit_relayed_witness:
  "\<exists>frame. udt_transmit sample_tx (sample_udt 9) [] = Inr (0, sample_udt 9, [(9, frame)])
     \<and> udt_relay_to_terminal (Some frame) (length frame) (sample_udt 4) [] = Inr (0, sample_udt 4, [(9, frame)])
     \<and> length frame = 24"
  using udt_transmit_relayed[of sample_tx "[0xAA, 0xBB]" "sample_udt 9" recording "sample_udt 4" recording "[]" "[]"]
  by (auto simp: sample_tx_def sample_udt_def recording_def is_reply_funcode_def udt_consts
      transport_for_def transport_missing_def)

text \<open>A correct query for another device is handed, unchanged and exactly once, to the first
  entry of the relay table whose address range contains the device, and the terminal it came
  from is remembered; without such an entry, or when that entry has no function, nothing
  happens and -1 is returned.\<close>

theorem udt_relay_first_match:
  assumes "udt_protocol_check d (length d) = Inr 0" "12 \<le> length d"
    and "is_query_funcode (d ! 11)" "d ! 10 \<noteq> local_addr u" "chl \<le> 2"
    and "unat (relay_nums u) \<le> length (relay_list u)"
  shows "udt_process_handle (Some d) (length d) chl u w =
    (case List.find (in_range (d ! 10)) (take (unat (relay_nums u)) (relay_list u)) of
       None \<Rightarrow> Inr (- 1, u, w)
     | Some e \<Rightarrow> (case rl_transfer e of None \<Rightarrow> Inr (- 1, u, w)
        | Some f \<Rightarrow> (case f (d ! 10) d w of (r, w') \<Rightarrow> Inr (r, u\<lparr>relay_mode := chl\<rparr>, w'))))"
proof -
  have chl: "chl = UDT_MODE_SVC \<or> chl = UDT_MODE_PC \<or> chl = UDT_MODE_BLE"
    using u8_le_2[OF assms(5)] by (auto simp: udt_consts)
  have "udt_process_handle (Some d) (length d) chl u w = udt_interface chl (Some d) (length d) u w"
  proof -
    have "length d \<noteq> 0" using assms(2) by linarith
    then show ?thesis
      using chl by (elim disjE) (simp_all only: udt_process_handle_def udt_svc_interface_def
          udt_pc_interface_def udt_ble_interface_def option.case if_False if_True simp_thms udt_mode_distinct)
  qed
  also have "\<dots> = udt_relay_to_device (Some d) (length d) chl u w"
    using assms(1-4) by (cases d) (simp_all add: udt_interface_def)
  finally show ?thesis
    using assms(1-4,6)
    by (cases "relay_nums u = 0"; cases d)
       (simp_all add: udt_relay_to_device_def udt_find_relay_eq call_transfer_def split: option.split)
qed

lemma udt_relay_first_match_witness:
  "\<exists>frame. udt_process_handle (Some frame) (length frame) 1 (sample_udt 4) []
     = Inr (0, (sample_udt 4)\<lparr>relay_mode := 1\<rparr>, [(15, frame)])"
proof -
  let ?h = "(udt_tx_header sample_tx 0 0 15)\<lparr>funcode := 50\<rparr>"
  let ?d = "udt_frame ?h []"
  have "udt_protocol_check ?d (length ?d) = Inr 0"
    by (rule udt_protocol_check_frame) (simp_all add: udt_tx_header_def)
  then show ?thesis
    using udt_relay_first_match[of ?d "sample_udt 4" 1 "[]"]
    by (intro exI[of _ ?d])
       (simp add: udt_frame_fields udt_tx_header_def is_query_funcode_def udt_consts sample_udt_def
          in_range_def recording_def)
qed

lemma udt_frame_check_query:
  "mark h = UDT_PROT_MARK \<Longrightarrow> version h = UDT_PROT_VER \<Longrightarrow> scene h = UDT_PROT_SCENE \<Longrightarrow>
   length p \<le> 60000 \<Longrightarrow> rx_evt_cb u = Some cb \<Longrightarrow> is_query_funcode (funcode h) \<Longrightarrow>
   address h = local_addr u \<Longrightarrow>
   udt_receive (Some (udt_frame h p)) (22 + length p) md u w =
     cbind (udt_event_param (udt_frame h p) h) (\<lambda>prm.
       let e = \<lparr>ev_funcode = funcode h, ev_mode = md, ev_req_id = UDT_SWAP16 (req_id h), ev_param = prm\<rparr>
       in case cb e w of (r, w') \<Rightarrow> Inr (r, u\<lparr>event := e\<rparr>, w'))"
  using udt_protocol_check_frame[of h p]
  by (simp add: udt_receive_def udt_frame_fields sizeof_udt_protocol_def Let_def)

text \<open>A content query addressed to this device reaches the callback with start position,
  zero-padded file name and read type as sent, when its name field has at most eleven bytes; a
  CRC-correct query that announces more makes \<open>udt_receive\<close> write past the event structure,
  whatever the callback and the state are.\<close>

theorem udt_receive_content:
  fixes u :: "'w udt" and md :: u8 and h :: udt_protocol and p :: "u8 list"
  assumes "mark h = UDT_PROT_MARK" "version h = UDT_PROT_VER" "scene h = UDT_PROT_SCENE"
    and "funcode h = UDT_FUNCODE_QUERY_CONTENT" "address h = local_addr u"
    and "rx_evt_cb u = Some cb" "data_size h = UDT_SWAP32 n" "length p \<le> 60000" "unat n = length p"
  defines "e \<equiv> \<lparr>ev_funcode = UDT_FUNCODE_QUERY_CONTENT, ev_mode = md, ev_req_id = UDT_SWAP16 (req_id h),
            ev_param = Qry_Cont (UDT_SWAP32 (start_pos h)) (p @ replicate (11 - length p) 0) (type_read h)\<rparr>"
  shows "udt_receive (Some (udt_frame h p)) (length (udt_frame h p)) md u w =
    (if length p \<le> 11 then (case cb e w of (r, w') \<Rightarrow> Inr (r, u\<lparr>event := e\<rparr>, w'))
     else Inl Out_Of_Bounds_Write)"
proof -
  have q: "is_query_funcode (funcode h)" using assms(4) by (simp add: is_query_funcode_def)
  have "udt_fname (udt_frame h p) (unat n) =
      (if length p \<le> 11 then Inr (p @ replicate (11 - length p) 0) else Inl Out_Of_Bounds_Write)"
    using assms(9) udt_frame_fields[where h = h and p = p]
    by (simp add: udt_fname_def sizeof_udt_protocol_def)
  then show ?thesis
    using assms(1-9) q by (simp add: udt_frame_check_query udt_event_param_def Let_def e_def)
qed

definition sample_query :: "u32 \<Rightarrow> udt_protocol" where
  "sample_query n = (udt_tx_header sample_tx 0 0 4)\<lparr>funcode := 52, data_size := UDT_SWAP32 n\<rparr>"

lemma udt_receive_content_witness:
  "is_fault (udt_receive (Some (udt_frame (sample_query 12) (replicate 12 65))) 34 0 (sample_udt 4) [])
   \<and> \<not> is_fault (udt_receive (Some (udt_frame (sample_query 3) [65, 66, 67])) 25 0 (sample_udt 4) [])"
  using udt_receive_content[of "sample_query 12" "sample_udt 4" _ 12 "replicate 12 65" 0 "[]"]
    udt_receive_content[of "sample_query 3" "sample_udt 4" _ 3 "[65, 66, 67]" 0 "[]"]
  by (simp add: sample_query_def sample_udt_def udt_tx_header_def udt_consts)

text \<open>What the receive path needs to be memory safe.  A frame held in a buffer of exactly its
  length never causes a fault when it has at least 24 bytes, the name length of a content query
  is at most eleven and inside the frame, and the relay table is as long as its count; without the
  minimum length it does: every frame of 5 to 11 bytes whose first three bytes and CRC are
  right makes the handler read header fields beyond its end.\<close>

theorem udt_process_handle_safety:
  fixes u :: "'w udt"
  shows "(24 \<le> length d \<and> (d ! 11 = UDT_FUNCODE_QUERY_CONTENT \<longrightarrow>
            unat (UDT_SWAP32 (get32 d 16)) \<le> 11 \<and> 20 + unat (UDT_SWAP32 (get32 d 16)) \<le> length d)
          \<and> unat (relay_nums u) \<le> length (relay_list u)
        \<longrightarrow> \<not> is_fault (udt_process_handle (Some d) (length d) chl u w))
    \<and> (length d < 12 \<and> udt_protocol_check d (length d) = Inr 0
        \<longrightarrow> udt_process_handle (Some d) (length d) chl u w = Inl Out_Of_Bounds_Read)"
proof (intro conjI impI; (elim conjE)?)
  have disp: "d \<noteq> [] \<Longrightarrow> \<exists>m. udt_process_handle (Some d) (length d) chl u w =
      udt_interface m (Some d) (length d) u w"
    by (auto simp: udt_process_handle_def udt_svc_interface_def udt_pc_interface_def udt_ble_interface_def)
  {
    assume n: "24 \<le> length d" and r: "unat (relay_nums u) \<le> length (relay_list u)"
      and c: "d ! 11 = UDT_FUNCODE_QUERY_CONTENT \<longrightarrow>
            unat (UDT_SWAP32 (get32 d 16)) \<le> 11 \<and> 20 + unat (UDT_SWAP32 (get32 d 16)) \<le> length d"
    obtain x where x: "udt_protocol_check d (length d) = Inr x"
      using udt_protocol_check_total[of d "length d"] n
      by (auto simp: is_fault_def split: sum.splits)
    have prm: "\<exists>q. udt_event_param d (udt_protocol_of d) = Inr q"
      using n c by (auto simp: udt_event_param_def udt_fname_def sizeof_udt_protocol_def udt_protocol_of_def)
    have rcv: "\<not> is_fault (udt_receive (Some d) (length d) m u w)" for m
      using n x prm by (auto simp: udt_receive_def Let_def sizeof_udt_protocol_def split: option.splits prod.splits)
    have rel: "\<not> is_fault (udt_relay_to_device (Some d) (length d) m u w)" for m
      using n x r by (auto simp: udt_relay_to_device_def udt_find_relay_eq call_transfer_def
          split: option.splits prod.splits)
    have "\<not> is_fault (udt_interface m (Some d) (length d) u w)" for m
      using n x rcv rel by (auto simp: udt_interface_def)
    with disp n show "\<not> is_fault (udt_process_handle (Some d) (length d) chl u w)" by fastforce
  next
    assume "length d < 12" "udt_protocol_check d (length d) = Inr 0"
    moreover from this have "d \<noteq> []" using udt_protocol_check_len by fastforce
    ultimately show "udt_process_handle (Some d) (length d) chl u w = Inl Out_Of_Bounds_Read"
      using disp by (auto simp: udt_interface_def)
  }
qed

lemma udt_process_handle_safety_witness:
  "\<not> is_fault (udt_process_handle (Some (udt_frame (sample_query 3) [65, 66, 67])) 25 0 (sample_udt 4) [])"
proof -
  let ?d = "udt_frame (sample_query 3) [65, 66, 67]"
  have "get32 ?d 16 = UDT_SWAP32 3"
    using udt_frame_fields(1)[where h = "sample_query 3" and p = "[65, 66, 67]"]
    by (simp add: udt_protocol_of_def sample_query_def udt_tx_header_def)
  moreover have "?d ! 11 = 52" by (simp add: udt_frame_fields sample_query_def)
  ultimately show ?thesis
    using udt_process_handle_safety[of ?d "sample_udt 4" 0 "[]"]
    by (simp add: udt_consts sample_udt_def)
qed

end
