(* ===== verification/Udt_Incremental.thy ===== *)
theory Udt_Incremental
  imports Prelude
begin

text \<open>
  The incremental-read records of the data channel, \<open>udt/udt_incremental.c\<close>: a table of 50
  records, one per file name, with the time of the last complete read and the packet counts of
  the last transfer, kept in memory and in a file.  The static variables are the record
  \<open>udt_incr\<close>.  The outcomes of the semaphore and of the file system calls are arguments; the
  file is modelled by its records, a successful \<open>fs_record_write\<close> replacing the ones it names.
\<close>

section \<open>Data\<close>

definition UDT_READ_RECORD_FILE_NUM_MAX :: nat where
  "UDT_READ_RECORD_FILE_NUM_MAX = 50"

definition UDT_READ_RECORD_MAX_LEN :: nat where
  "UDT_READ_RECORD_MAX_LEN = 20"

record udt_file_record =
  fname :: "u8 list"
  last_time :: u32
  last_send_cnt :: u16
  last_resp_cnt :: u16
  reserved :: "u8 list"

record udt_incr =
  recs :: "udt_file_record list"
  sem_created :: bool
  rec_file :: "udt_file_record list"

definition rec_zero :: udt_file_record where
  "rec_zero = \<lparr>fname = replicate 10 0, last_time = 0, last_send_cnt = 0, last_resp_cnt = 0,
               reserved = [0, 0]\<rparr>"

section \<open>Operations\<close>

text \<open>\<open>strnlen(fname, 10)\<close> followed by the copy into the cleared field.\<close>

definition strn10 :: "u8 list \<Rightarrow> u8 list" where
  "strn10 s = (let t = takeWhile (\<lambda>c. c \<noteq> 0) (take 10 s) in t @ replicate (10 - length t) 0)"

definition udt_record_init_from :: "u8 list option \<Rightarrow> u64 \<Rightarrow> u16 \<Rightarrow> u16 \<Rightarrow> udt_file_record" where
  "udt_record_init_from name time send resp =
     (let r = (case name of None \<Rightarrow> rec_zero | Some s \<Rightarrow> rec_zero\<lparr>fname := strn10 s\<rparr>)
      in r\<lparr>last_time := ucast time, last_send_cnt := send, last_resp_cnt := resp\<rparr>)"

text \<open>\<open>create_ok\<close>, \<open>take_ok\<close>, \<open>write_ok\<close>: outcomes of \<open>xSemaphoreCreateMutex\<close>,
  \<open>xSemaphoreTake\<close> and \<open>fs_record_write\<close>; \<open>(n, a)\<close>: the byte count returned by
  \<open>fs_file_read_at\<close> and the array it leaves.\<close>

definition Udt_Incremental_Module_Init ::
    "bool \<Rightarrow> bool \<Rightarrow> int \<times> udt_file_record list \<Rightarrow> bool \<Rightarrow> udt_incr \<Rightarrow> int \<times> udt_incr" where
  "Udt_Incremental_Module_Init create_ok take_ok rd write_ok st =
     (let st0 = st\<lparr>recs := replicate UDT_READ_RECORD_FILE_NUM_MAX rec_zero\<rparr> in
      if \<not> sem_created st0 \<and> \<not> create_ok then (- 1, st0)
      else let st1 = st0\<lparr>sem_created := True\<rparr> in
        if \<not> take_ok then (- 1, st1)
        else case rd of (n, a) \<Rightarrow>
          let st2 = st1\<lparr>recs := a\<rparr> in
          if n \<noteq> int (UDT_READ_RECORD_FILE_NUM_MAX * UDT_READ_RECORD_MAX_LEN)
          then (if write_ok then (0, st2\<lparr>rec_file := a\<rparr>) else (- 1, st2))
          else (0, st2))"

fun find_first :: "('a \<Rightarrow> bool) \<Rightarrow> 'a list \<Rightarrow> nat option" where
  "find_first P [] = None"
| "find_first P (x # xs) = (if P x then Some 0 else map_option Suc (find_first P xs))"

definition same_name :: "u8 list \<Rightarrow> udt_file_record \<Rightarrow> bool" where
  "same_name nm r \<longleftrightarrow> fname r = take 10 nm"

definition Udt_Incremental_Find_Index :: "bool \<Rightarrow> u8 list option \<Rightarrow> udt_incr \<Rightarrow> int" where
  "Udt_Incremental_Find_Index take_ok nm st =
     (case nm of None \<Rightarrow> - 1
      | Some s \<Rightarrow>
         if sem_created st \<and> \<not> take_ok then - 1
         else (case find_first (same_name s) (recs st) of None \<Rightarrow> - 1 | Some i \<Rightarrow> int i))"

definition Udt_Incremental_Get_Record_By_Index :: "int \<Rightarrow> udt_incr \<Rightarrow> udt_file_record option" where
  "Udt_Incremental_Get_Record_By_Index i st =
     (if i < 0 \<or> int UDT_READ_RECORD_FILE_NUM_MAX \<le> i then None else Some (recs st ! nat i))"

text \<open>The scan for the smallest time stamp: \<open>k\<close> is the loop index, \<open>(m, j)\<close> the running
  minimum and its index.\<close>

fun min_time_scan :: "nat \<Rightarrow> u32 \<times> nat \<Rightarrow> udt_file_record list \<Rightarrow> nat" where
  "min_time_scan k (m, j) [] = j"
| "min_time_scan k (m, j) (r # rs) =
     (if last_time r < m then min_time_scan (Suc k) (last_time r, k) rs
      else min_time_scan (Suc k) (m, j) rs)"

definition is_empty_rec :: "udt_file_record \<Rightarrow> bool" where
  "is_empty_rec r \<longleftrightarrow> list_all (\<lambda>c. c = 0) (fname r)"

definition update_slot :: "udt_file_record \<Rightarrow> udt_file_record list \<Rightarrow> nat" where
  "update_slot new rs =
     (case find_first (same_name (fname new)) rs of Some i \<Rightarrow> i
      | None \<Rightarrow> (case find_first is_empty_rec rs of Some i \<Rightarrow> i
         | None \<Rightarrow> min_time_scan 0 (0xFFFFFFFF, 0) rs))"

definition update_fields :: "udt_file_record \<Rightarrow> udt_file_record \<Rightarrow> udt_file_record" where
  "update_fields new old =
     (let r = old\<lparr>fname := fname new, last_send_cnt := last_send_cnt new,
                  last_resp_cnt := last_resp_cnt new\<rparr>
      in if last_send_cnt new = last_resp_cnt new then r\<lparr>last_time := last_time new\<rparr> else r)"

definition Udt_Incremental_Update_Record ::
    "bool \<Rightarrow> bool \<Rightarrow> udt_file_record option \<Rightarrow> udt_incr \<Rightarrow> int \<times> udt_incr" where
  "Udt_Incremental_Update_Record take_ok write_ok new st =
     (case new of None \<Rightarrow> (- 1, st)
      | Some n \<Rightarrow>
         if sem_created st \<and> \<not> take_ok then (- 1, st)
         else let i = update_slot n (recs st);
                  r = update_fields n (recs st ! i);
                  st1 = st\<lparr>recs := (recs st)[i := r]\<rparr>
              in if write_ok then (int i, st1\<lparr>rec_file := (rec_file st1)[i := r]\<rparr>)
                 else (- 1, st1))"

section \<open>Lemmas\<close>

lemma find_first_Some:
  "find_first P xs = Some i \<longleftrightarrow> i < length xs \<and> P (xs ! i) \<and> (\<forall>j < i. \<not> P (xs ! j))"
proof (induction xs arbitrary: i)
  case (Cons x xs)
  show ?case
  proof (cases i)
    case 0
    then show ?thesis by auto
  next
    case (Suc k)
    then show ?thesis using Cons.IH[of k] by (auto simp: less_Suc_eq_0_disj)
  qed
qed simp

lemma find_first_None: "find_first P xs = None \<longleftrightarrow> list_all (\<lambda>x. \<not> P x) xs"
  by (induction xs) auto

lemma u32_max: "0xFFFFFFFF \<le> (x :: u32) \<Longrightarrow> x = 0xFFFFFFFF"
proof -
  have "(0xFFFFFFFF :: u32) = - 1" by simp
  then show "0xFFFFFFFF \<le> x \<Longrightarrow> x = 0xFFFFFFFF" by (metis antisym word_n1_ge)
qed

lemma min_time_scan_spec:
  assumes "k \<noteq> 0 \<longrightarrow> j < k" "j < length pre \<or> (pre = [] \<and> j = 0)" "k = length pre"
    and "\<forall>r \<in> set pre. m \<le> last_time r" "pre \<noteq> [] \<longrightarrow> m = last_time (pre ! j) \<or> (m = 0xFFFFFFFF)"
    and "m \<noteq> 0xFFFFFFFF \<longrightarrow> pre \<noteq> []"
    and "pre @ rs \<noteq> []"
  shows "min_time_scan k (m, j) rs < length (pre @ rs) \<and>
    (\<forall>r \<in> set (pre @ rs). last_time ((pre @ rs) ! min_time_scan k (m, j) rs) \<le> last_time r)"
  using assms
proof (induction rs arbitrary: k m j pre)
  case Nil
  then have *: "pre \<noteq> []" "j < length pre" by auto
  show ?case
  proof (cases "m = last_time (pre ! j)")
    case True
    with Nil * show ?thesis by auto
  next
    case False
    with Nil * have "m = 0xFFFFFFFF" by auto
    with Nil have top: "\<forall>r \<in> set pre. last_time r = 0xFFFFFFFF"
      by (metis u32_max)
    with * show ?thesis by auto
  qed
next
  case (Cons r rs)
  have e: "(pre @ [r]) @ rs = pre @ r # rs" by simp
  show ?case
  proof (cases "last_time r < m")
    case True
    have "\<forall>x \<in> set pre. last_time r \<le> last_time x" using Cons.prems(4) True by fastforce
    then show ?thesis
      using Cons.IH[of "Suc k" k "pre @ [r]" "last_time r"] Cons.prems True unfolding e
      by (simp add: nth_append)
  next
    case False
    then have "m \<le> last_time r" by simp
    then show ?thesis
      using Cons.IH[of "Suc k" j "pre @ [r]" m] Cons.prems False unfolding e
      by (auto simp: nth_append)
  qed
qed

definition table_ok :: "udt_file_record list \<Rightarrow> bool" where
  "table_ok rs \<longleftrightarrow> length rs = UDT_READ_RECORD_FILE_NUM_MAX \<and> list_all (\<lambda>r. length (fname r) = 10) rs \<and>
     (\<forall>i j. i < length rs \<and> j < length rs \<and> i \<noteq> j \<and> fname (rs ! i) = fname (rs ! j)
        \<longrightarrow> is_empty_rec (rs ! i))"

lemma min_time_scan_table:
  assumes "rs \<noteq> []"
  shows "min_time_scan 0 (0xFFFFFFFF, 0) rs < length rs"
    and "r \<in> set rs \<Longrightarrow> last_time (rs ! min_time_scan 0 (0xFFFFFFFF, 0) rs) \<le> last_time r"
  using min_time_scan_spec[of 0 0 "[]" "0xFFFFFFFF" rs] assms by auto

lemma update_slot_less:
  assumes "table_ok rs"
  shows "update_slot new rs < length rs"
proof -
  have "rs \<noteq> []" using assms by (auto simp: table_ok_def UDT_READ_RECORD_FILE_NUM_MAX_def)
  then show ?thesis
    by (auto simp: update_slot_def find_first_Some min_time_scan_table split: option.splits)
qed

lemma fname_update_fields [simp]: "fname (update_fields new old) = fname new"
  by (simp add: update_fields_def Let_def)

text \<open>Away from the chosen slot no record has the new name, unless the name is all zero.\<close>

lemma update_slot_unique:
  assumes "table_ok rs" "length (fname new) = 10" "j < length rs" "j \<noteq> update_slot new rs"
    and "fname (rs ! j) = fname new"
  shows "list_all (\<lambda>c. c = 0) (fname new)"
proof (cases "find_first (same_name (fname new)) rs")
  case None
  then show ?thesis using assms
    by (auto simp: find_first_None list_all_length same_name_def)
next
  case (Some i)
  then have "update_slot new rs = i" by (simp add: update_slot_def)
  moreover have "i < length rs" "fname (rs ! i) = fname new"
    using Some assms(2) by (auto simp: find_first_Some same_name_def)
  moreover note assms
  ultimately have "update_slot new rs = i" "i < length rs" "fname (rs ! i) = fname new" by blast+
  then have "is_empty_rec (rs ! j)" using assms by (metis table_ok_def)
  then show ?thesis using assms(5) by (simp add: is_empty_rec_def)
qed

lemma table_ok_update:
  assumes "table_ok rs" "length (fname new) = 10"
  shows "table_ok (rs[update_slot new rs := update_fields new (rs ! update_slot new rs)])"
proof -
  let ?i = "update_slot new rs"
  let ?rs = "rs[?i := update_fields new (rs ! ?i)]"
  have i: "?i < length rs" using assms(1) by (rule update_slot_less)
  have "is_empty_rec (?rs ! a)"
    if "a < length ?rs" "b < length ?rs" "a \<noteq> b" "fname (?rs ! a) = fname (?rs ! b)" for a b
  proof -
    consider "a = ?i" | "b = ?i" "a \<noteq> ?i" | "a \<noteq> ?i" "b \<noteq> ?i" by blast
    then show ?thesis
    proof cases
      case 1
      then have "list_all (\<lambda>c. c = 0) (fname new)"
        using that i by (intro update_slot_unique[OF assms, of b]) auto
      with 1 i show ?thesis by (simp add: is_empty_rec_def)
    next
      case 2
      then have "list_all (\<lambda>c. c = 0) (fname new)"
        using that i by (intro update_slot_unique[OF assms, of a]) auto
      with 2 i that show ?thesis by (simp add: is_empty_rec_def)
    next
      case 3
      with that assms(1) show ?thesis unfolding table_ok_def by (metis length_list_update nth_list_update_neq)
    qed
  qed
  moreover have "list_all (\<lambda>r. length (fname r) = 10) ?rs"
    using assms i unfolding list_all_length table_ok_def
    by (metis fname_update_fields length_list_update nth_list_update_eq nth_list_update_neq)
  ultimately show ?thesis
    using assms(1) by (auto simp: table_ok_def)
qed

section \<open>Properties\<close>

text \<open>After a successful \<open>Udt_Incremental_Update_Record\<close> with a non-empty name the table still
  has 50 records with distinct names, looking the name up returns the slot the update returned,
  that slot carries the new name and counts in memory and in the file, its time moves only when
  every sent packet was acknowledged, and every other record is untouched.\<close>

theorem Udt_Incremental_update_lookup:
  assumes "table_ok (recs st)" "length (rec_file st) = length (recs st)"
    and "length (fname new) = 10" "\<not> list_all (\<lambda>c. c = 0) (fname new)"
    and "Udt_Incremental_Update_Record True True (Some new) st = (r, st')"
  shows "\<exists>i. r = int i \<and> i < length (recs st') \<and> table_ok (recs st') \<and>
     Udt_Incremental_Find_Index True (Some (fname new)) st' = int i \<and>
     fname (recs st' ! i) = fname new \<and>
     last_send_cnt (recs st' ! i) = last_send_cnt new \<and> last_resp_cnt (recs st' ! i) = last_resp_cnt new \<and>
     last_time (recs st' ! i) = (if last_send_cnt new = last_resp_cnt new then last_time new
                                 else last_time (recs st ! i)) \<and>
     rec_file st' ! i = recs st' ! i \<and>
     (\<forall>j. j \<noteq> i \<longrightarrow> recs st' ! j = recs st ! j \<and> rec_file st' ! j = rec_file st ! j)"
proof -
  let ?i = "update_slot new (recs st)"
  let ?r = "update_fields new (recs st ! ?i)"
  have i: "?i < length (recs st)" using assms(1) by (rule update_slot_less)
  have st': "r = int ?i" "recs st' = (recs st)[?i := ?r]" "rec_file st' = (rec_file st)[?i := ?r]"
    using assms(5) by (auto simp: Udt_Incremental_Update_Record_def Let_def)
  have "find_first (same_name (fname new)) (recs st') = Some ?i"
    unfolding find_first_Some
  proof (intro conjI allI impI notI)
    show "?i < length (recs st')" using i st' by simp
    show "same_name (fname new) (recs st' ! ?i)" using i st' assms(3) by (simp add: same_name_def)
  next
    fix j assume "j < ?i" "same_name (fname new) (recs st' ! j)"
    then show False
      using update_slot_unique[OF assms(1,3), of j] i assms(3,4) st' by (auto simp: same_name_def)
  qed
  then show ?thesis
    using i st' table_ok_update[OF assms(1,3)] assms(2)
    by (intro exI[of _ ?i]) (auto simp: Udt_Incremental_Find_Index_def update_fields_def Let_def)
qed

definition sample_incr :: udt_incr where
  "sample_incr = \<lparr>recs = replicate 50 rec_zero, sem_created = True, rec_file = replicate 50 rec_zero\<rparr>"

lemma table_ok_zero: "table_ok (replicate 50 rec_zero)"
  by (auto simp: table_ok_def UDT_READ_RECORD_FILE_NUM_MAX_def rec_zero_def is_empty_rec_def list_all_iff)

lemma Udt_Incremental_update_lookup_witness:
  "\<exists>st'. Udt_Incremental_Update_Record True True
      (Some (udt_record_init_from (Some [97, 108, 0]) 77 4 4)) sample_incr = (0, st')
    \<and> Udt_Incremental_Find_Index True (Some ([97, 108] @ replicate 8 0)) st' = 0
    \<and> last_time (recs st' ! 0) = 77"
proof -
  let ?n = "udt_record_init_from (Some [97, 108, 0]) 77 4 4"
  obtain r st' where u: "Udt_Incremental_Update_Record True True (Some ?n) sample_incr = (r, st')"
    by fastforce
  have f: "fname ?n = [97, 108] @ replicate 8 0" "last_time ?n = 77"
      "last_send_cnt ?n = 4" "last_resp_cnt ?n = 4"
    by (simp_all add: udt_record_init_from_def strn10_def Let_def)
  have "r = 0"
  proof -
    have "find_first is_empty_rec (replicate 50 rec_zero) = Some 0"
      by (simp add: find_first_Some is_empty_rec_def rec_zero_def list_all_iff)
    moreover have "find_first (same_name (fname ?n)) (replicate 50 rec_zero) = None"
    proof -
      have "replicate 10 (0 :: u8) = 0 # replicate 9 0" by (simp add: numeral_eq_Suc)
      then show ?thesis by (simp add: find_first_None list_all_length same_name_def f rec_zero_def)
    qed
    ultimately show ?thesis
      using u by (auto simp: Udt_Incremental_Update_Record_def update_slot_def sample_incr_def Let_def)
  qed
  then show ?thesis
    using Udt_Incremental_update_lookup[OF _ _ _ _ u] u f table_ok_zero
    by (auto simp: sample_incr_def)
qed

text \<open>When a new name arrives and no slot is free, the evicted record is one with the
  smallest time; but if the transfer was incomplete the new name inherits that time, so it is
  later taken as the time up to which the new file has been read although nothing was recorded
  for it.\<close>

theorem Udt_Incremental_evict_inherits:
  assumes "table_ok (recs st)" "length (fname new) = 10"
    and "list_all (\<lambda>r. fname r \<noteq> fname new \<and> \<not> is_empty_rec r) (recs st)"
    and "last_send_cnt new \<noteq> last_resp_cnt new"
  shows "\<exists>i st'. Udt_Incremental_Update_Record True True (Some new) st = (int i, st')
     \<and> i < length (recs st) \<and> (\<forall>r \<in> set (recs st). last_time (recs st ! i) \<le> last_time r)
     \<and> fname (recs st' ! i) = fname new \<and> last_time (recs st' ! i) = last_time (recs st ! i)"
proof -
  let ?i = "min_time_scan 0 (0xFFFFFFFF, 0) (recs st)"
  have "find_first (same_name (fname new)) (recs st) = None" "find_first is_empty_rec (recs st) = None"
    using assms(2,3) by (auto simp: find_first_None list_all_length same_name_def)
  then have i: "update_slot new (recs st) = ?i" by (simp add: update_slot_def)
  have ne: "recs st \<noteq> []" using assms(1) by (auto simp: table_ok_def UDT_READ_RECORD_FILE_NUM_MAX_def)
  show ?thesis
    using i assms(4) min_time_scan_table[OF ne]
    by (intro exI[of _ ?i])
       (auto simp: Udt_Incremental_Update_Record_def Let_def update_fields_def)
qed

definition full_table :: "udt_file_record list" where
  "full_table = map (\<lambda>i. rec_zero\<lparr>fname := of_nat (Suc i) # replicate 9 0, last_time := 100 + of_nat i\<rparr>) [0..<50]"

lemma Udt_Incremental_evict_inherits_witness:
  "\<exists>i st'. Udt_Incremental_Update_Record True True (Some (udt_record_init_from (Some [97, 108, 0]) 9999 4 1))
       \<lparr>recs = full_table, sem_created = True, rec_file = full_table\<rparr> = (int i, st')
     \<and> last_time (recs st' ! i) \<noteq> 0"
proof -
  let ?n = "udt_record_init_from (Some [97, 108, 0]) 9999 4 1"
  let ?st = "\<lparr>recs = full_table, sem_created = True, rec_file = full_table\<rparr>"
  have f: "fname ?n = [97, 108] @ replicate 8 0" "last_send_cnt ?n \<noteq> last_resp_cnt ?n"
    by (simp_all add: udt_record_init_from_def strn10_def Let_def)
  have small: "unat (of_nat (Suc i) :: u8) = Suc i" "unat (100 + of_nat i :: u32) = 100 + i" if "i < 50" for i
    using that by (simp_all add: unat_word_ariths unat_of_nat take_bit_nat_eq_self del: of_nat_Suc)
  have nz: "(of_nat (Suc i) :: u8) \<noteq> 0" "(100 + of_nat i :: u32) \<noteq> 0" if "i < 50" for i
    using small[OF that] by (metis nat.distinct(1) unat_0, metis unat_0 add_is_0 zero_neq_numeral)
  have inj: "(of_nat (Suc i) :: u8) = of_nat (Suc j) \<Longrightarrow> i = j" if "i < 50" "j < 50" for i j
    using small(1) that by (metis nat.inject)
  have ok: "table_ok full_table"
    using inj by (auto simp: table_ok_def UDT_READ_RECORD_FILE_NUM_MAX_def full_table_def list_all_length
        simp del: of_nat_Suc)
  have "list_all (\<lambda>r. fname r \<noteq> fname ?n \<and> \<not> is_empty_rec r) full_table"
  proof -
    have "replicate 9 (0 :: u8) = 0 # replicate 8 0" by (simp add: numeral_eq_Suc)
    then have r: "replicate 9 (0 :: u8) \<noteq> 108 # replicate 8 0" by simp
    show ?thesis
      using nz(1) by (auto simp: full_table_def list_all_iff f is_empty_rec_def r simp del: of_nat_Suc)
  qed
  then obtain i st' where "Udt_Incremental_Update_Record True True (Some ?n) ?st = (int i, st')"
      "i < length full_table" "last_time (recs st' ! i) = last_time (full_table ! i)"
    using Udt_Incremental_evict_inherits[of ?st ?n] ok f by auto
  moreover have "last_time (full_table ! i) \<noteq> 0"
    using \<open>i < length full_table\<close> nz(2) by (auto simp: full_table_def)
  ultimately show ?thesis by metis
qed

end
