(* ===== verification/Udt_Port.thy ===== *)
theory Udt_Port
  imports Crc
begin

text \<open>
  The ports of the data channel, \<open>udt/udt_port.c\<close>: the report queues towards the MQTT and the
  Bluetooth task, and the segmentation of a frame into CAN messages.  The two static queue
  handles are the record \<open>udt_port\<close>; a queue holds the allocated copies.  What the CAN driver,
  the MQTT client and the Bluetooth stack do with a message is an argument acting on an outside
  world \<open>'w\<close>.
\<close>

section \<open>Report queues\<close>

definition UDT_QUEUE_SIZE :: nat where
  "UDT_QUEUE_SIZE = 512"

record udt_port =
  udt_mqtt_queue :: "u8 list list option"
  udt_ble_queue :: "u8 list list option"

text \<open>\<open>ok1\<close>, \<open>ok2\<close>: outcomes of the two \<open>xQueueCreate\<close> calls.\<close>

definition udt_queue_init :: "bool \<Rightarrow> bool \<Rightarrow> udt_port \<Rightarrow> udt_port" where
  "udt_queue_init ok1 ok2 s =
     (let s1 = (if udt_mqtt_queue s = None \<and> ok1 then s\<lparr>udt_mqtt_queue := Some []\<rparr> else s)
      in if udt_ble_queue s1 = None \<and> ok2 then s1\<lparr>udt_ble_queue := Some []\<rparr> else s1)"

text \<open>\<open>xQueueSendToBack\<close> on a queue of \<open>UDT_QUEUE_SIZE\<close> entries: \<open>None\<close> when it stays full
  until the timeout.\<close>

definition queue_send :: "'a \<Rightarrow> 'a list \<Rightarrow> 'a list option" where
  "queue_send x q = (if length q < UDT_QUEUE_SIZE then Some (q @ [x]) else None)"

definition udt_mqtt_Report_to_Cloud :: "(u8 list \<Rightarrow> 'w \<Rightarrow> 'w) \<Rightarrow> udt_port \<Rightarrow> 'w \<Rightarrow> u8 \<times> udt_port \<times> 'w" where
  "udt_mqtt_Report_to_Cloud iot_mqtt_send s w =
     (case udt_mqtt_queue s of
        Some (d # q) \<Rightarrow> (1, s\<lparr>udt_mqtt_queue := Some q\<rparr>, iot_mqtt_send d w)
      | _ \<Rightarrow> (0, s, w))"

definition udt_ble_Report_to_app :: "(u8 list \<Rightarrow> 'w \<Rightarrow> 'w) \<Rightarrow> udt_port \<Rightarrow> 'w \<Rightarrow> u8 \<times> udt_port \<times> 'w" where
  "udt_ble_Report_to_app iot_ble_response s w =
     (case udt_ble_queue s of
        Some (d # q) \<Rightarrow> (1, s\<lparr>udt_ble_queue := Some q\<rparr>, iot_ble_response d w)
      | _ \<Rightarrow> (0, s, w))"

definition udt_transfer_to_cloud :: "bool \<Rightarrow> u8 \<Rightarrow> u8 list \<Rightarrow> udt_port \<Rightarrow> int \<times> udt_port" where
  "udt_transfer_to_cloud alloc_ok md_addr data s =
     (if \<not> alloc_ok then (- 1, s)
      else case udt_mqtt_queue s of None \<Rightarrow> (0, s)
      | Some q \<Rightarrow> (case queue_send data q of None \<Rightarrow> (- 1, s)
         | Some q' \<Rightarrow> (0, s\<lparr>udt_mqtt_queue := Some q'\<rparr>)))"

definition udt_transfer_to_ble :: "bool \<Rightarrow> u8 \<Rightarrow> u8 list \<Rightarrow> udt_port \<Rightarrow> int \<times> udt_port" where
  "udt_transfer_to_ble alloc_ok md_addr data s =
     (if \<not> alloc_ok then (- 1, s)
      else case udt_ble_queue s of None \<Rightarrow> (0, s)
      | Some q \<Rightarrow> (case queue_send data q of None \<Rightarrow> (- 1, s)
         | Some q' \<Rightarrow> (0, s\<lparr>udt_ble_queue := Some q'\<rparr>)))"

section \<open>CAN segmentation\<close>

definition FRAME_DATA_BYTES :: nat where "FRAME_DATA_BYTES = 6"
definition FRAME_HEAD :: nat where "FRAME_HEAD = 2"
definition WRIET_DATA_START :: u8 where "WRIET_DATA_START = 0x60"
definition WRITE_DATA :: u8 where "WRITE_DATA = 0x61"
definition CAN_TYPE_UDT_QUERY_CMD :: u8 where "CAN_TYPE_UDT_QUERY_CMD = 0xFA"
definition CAN_TYPE_UDT_RESP_CMD :: u8 where "CAN_TYPE_UDT_RESP_CMD = 0xFB"

record can_id =
  cid_src :: u8
  cid_dst :: u8
  cid_priority :: u8
  cid_funcode :: u8

record can_send_cmd =
  cs_id :: can_id
  cs_type :: u8
  cs_offset :: u32

record can_segment =
  cd_type :: u8
  cd_seq :: u8
  cd_bytes :: "u8 list"

text \<open>The two blocking driver calls: \<open>ack_start id type offset len crc\<close> and
  \<open>ack_data id segment len\<close>; \<open>False\<close> means that no acknowledgement came.\<close>

record 'w can_driver =
  ack_start :: "can_id \<Rightarrow> u8 \<Rightarrow> u32 \<Rightarrow> nat \<Rightarrow> u16 \<Rightarrow> 'w \<Rightarrow> bool \<times> 'w"
  ack_data :: "can_id \<Rightarrow> can_segment \<Rightarrow> nat \<Rightarrow> 'w \<Rightarrow> bool \<times> 'w"

text \<open>The segmentation loop, recursive on the bytes that are left.\<close>

function can_send_loop ::
    "'w can_driver \<Rightarrow> can_send_cmd \<Rightarrow> u8 \<Rightarrow> u8 list \<Rightarrow> 'w \<Rightarrow> int \<times> 'w" where
  "can_send_loop drv cmd sq [] w = (0, w)"
| "can_send_loop drv cmd sq (b # bs) w =
     (let d = b # bs;
          n = (if length d \<ge> FRAME_DATA_BYTES then FRAME_DATA_BYTES else length d);
          seg = \<lparr>cd_type = cs_type cmd, cd_seq = sq, cd_bytes = take n d\<rparr>
      in case ack_data drv ((cs_id cmd)\<lparr>cid_funcode := WRITE_DATA\<rparr>) seg (n + FRAME_HEAD) w of
           (ok, w') \<Rightarrow> if \<not> ok then (- 1, w') else can_send_loop drv cmd (sq + 1) (drop n d) w')"
  by pat_completeness auto

termination can_send_loop
  by (relation "measure (\<lambda>(drv, cmd, sq, d, w). length d)")
     (auto simp: FRAME_DATA_BYTES_def split: if_splits)

definition udt_port_can_send_data ::
    "'w can_driver \<Rightarrow> u8 list \<Rightarrow> can_send_cmd \<Rightarrow> 'w \<Rightarrow> int \<times> 'w" where
  "udt_port_can_send_data drv data cmd w =
     (case ack_start drv ((cs_id cmd)\<lparr>cid_funcode := WRIET_DATA_START\<rparr>) (cs_type cmd) (cs_offset cmd)
             (length data) (CalcCrc16_modbus data (of_nat (length data))) w of
        (ok, w') \<Rightarrow> if \<not> ok then (- 1, w') else can_send_loop drv cmd 0 data w')"

definition udt_can_cmd :: "u8 \<Rightarrow> u8 \<Rightarrow> u8 \<Rightarrow> can_send_cmd" where
  "udt_can_cmd ty src dst =
     \<lparr>cs_id = \<lparr>cid_src = src, cid_dst = dst, cid_priority = 2, cid_funcode = 0\<rparr>, cs_type = ty,
      cs_offset = 0\<rparr>"

definition udt_transfer_to_can ::
    "'w can_driver \<Rightarrow> u8 \<Rightarrow> u8 \<Rightarrow> u8 list \<Rightarrow> 'w \<Rightarrow> int \<times> 'w" where
  "udt_transfer_to_can drv self md_addr data w =
     udt_port_can_send_data drv data (udt_can_cmd CAN_TYPE_UDT_QUERY_CMD self md_addr) w"

definition udt_transfer_to_pc ::
    "'w can_driver \<Rightarrow> u8 \<Rightarrow> u8 \<Rightarrow> u8 list \<Rightarrow> 'w \<Rightarrow> int \<times> 'w" where
  "udt_transfer_to_pc drv self md_addr data w =
     udt_port_can_send_data drv data (udt_can_cmd CAN_TYPE_UDT_RESP_CMD self 0) w"

section \<open>A receiver that reassembles\<close>

text \<open>A driver that records what is on the bus and always acknowledges.\<close>

definition bus_driver :: "(nat \<times> u16 \<times> can_segment list) can_driver" where
  "bus_driver = \<lparr>ack_start = (\<lambda>i t off n c w. (True, (n, c, []))),
                 ack_data = (\<lambda>i seg n w. (True, (fst w, fst (snd w), snd (snd w) @ [seg])))\<rparr>"

definition segs_ok :: "u8 \<Rightarrow> can_segment list \<Rightarrow> bool" where
  "segs_ok sq segs \<longleftrightarrow> (\<forall>i < length segs. cd_seq (segs ! i) = sq + of_nat i \<and>
       (if Suc i < length segs then length (cd_bytes (segs ! i)) = FRAME_DATA_BYTES
        else 1 \<le> length (cd_bytes (segs ! i)) \<and> length (cd_bytes (segs ! i)) \<le> FRAME_DATA_BYTES))"

lemma segs_ok_Cons:
  assumes "segs_ok (sq + 1) segs" "cd_seq s = sq" "1 \<le> length (cd_bytes s)"
    and "length (cd_bytes s) \<le> FRAME_DATA_BYTES" "segs \<noteq> [] \<longrightarrow> length (cd_bytes s) = FRAME_DATA_BYTES"
  shows "segs_ok sq (s # segs)"
  unfolding segs_ok_def
proof (intro allI impI)
  fix i assume "i < length (s # segs)"
  then show "cd_seq ((s # segs) ! i) = sq + of_nat i \<and>
       (if Suc i < length (s # segs) then length (cd_bytes ((s # segs) ! i)) = FRAME_DATA_BYTES
        else 1 \<le> length (cd_bytes ((s # segs) ! i)) \<and> length (cd_bytes ((s # segs) ! i)) \<le> FRAME_DATA_BYTES)"
    using assms by (cases i) (auto simp: segs_ok_def algebra_simps split: if_splits)
qed

lemma can_send_loop_bus:
  "\<exists>segs. can_send_loop bus_driver cmd sq d (n, c, pre) = (0, (n, c, pre @ segs)) \<and>
     concat (map cd_bytes segs) = d \<and> segs_ok sq segs \<and> list_all (\<lambda>s. cd_type s = cs_type cmd) segs"
proof (induction d arbitrary: sq pre rule: length_induct)
  case (1 d)
  show ?case
  proof (cases d)
    case Nil
    then show ?thesis by (auto simp: segs_ok_def)
  next
    case (Cons b bs)
    let ?m = "if length d \<ge> FRAME_DATA_BYTES then FRAME_DATA_BYTES else length d"
    let ?s = "\<lparr>cd_type = cs_type cmd, cd_seq = sq, cd_bytes = take ?m d\<rparr>"
    have m: "0 < ?m" "?m \<le> length d" using Cons by (auto simp: FRAME_DATA_BYTES_def)
    then have "length (drop ?m d) < length d" by simp
    then obtain segs where segs:
        "can_send_loop bus_driver cmd (sq + 1) (drop ?m d) (n, c, pre @ [?s]) = (0, (n, c, (pre @ [?s]) @ segs))"
        "concat (map cd_bytes segs) = drop ?m d" "segs_ok (sq + 1) segs"
        "list_all (\<lambda>s. cd_type s = cs_type cmd) segs"
      using 1 by blast
    have step: "can_send_loop bus_driver cmd sq d (n, c, pre) =
        can_send_loop bus_driver cmd (sq + 1) (drop ?m d) (n, c, pre @ [?s])"
      using Cons by (simp add: bus_driver_def Let_def)
    have "segs \<noteq> [] \<longrightarrow> length (take ?m d) = FRAME_DATA_BYTES"
    proof
      assume "segs \<noteq> []"
      then have "cd_bytes (hd segs) \<noteq> []"
        using segs(3) by (cases segs) (auto simp: segs_ok_def FRAME_DATA_BYTES_def split: if_splits)
      then have "concat (map cd_bytes segs) \<noteq> []" using \<open>segs \<noteq> []\<close> by (cases segs) simp_all
      then have "drop ?m d \<noteq> []" using segs(2) by metis
      then show "length (take ?m d) = FRAME_DATA_BYTES"
        by (cases "FRAME_DATA_BYTES \<le> length d") simp_all
    qed
    then have "segs_ok sq (?s # segs)"
      using segs(3) m by (intro segs_ok_Cons) auto
    moreover have "concat (map cd_bytes (?s # segs)) = d" using segs(2) by simp
    ultimately show ?thesis using step segs(1,4) by (intro exI[of _ "?s # segs"]) simp
  qed
qed

section \<open>Properties\<close>

text \<open>C32: With acknowledging peers a frame sent over CAN is announced with its exact length and
  CRC, and the data messages that follow carry consecutive sequence numbers, at most six bytes
  each and all but the last exactly six; put together in order they are the frame.\<close>

theorem udt_can_reassembly:
  "\<exists>segs. udt_port_can_send_data bus_driver data cmd w = (0, (length data, CalcCrc16_modbus data (of_nat (length data)), segs))
     \<and> concat (map cd_bytes segs) = data
     \<and> (\<forall>i. i < length segs \<longrightarrow> cd_seq (segs ! i) = of_nat i \<and> cd_type (segs ! i) = cs_type cmd \<and>
          (if Suc i < length segs then length (cd_bytes (segs ! i)) = FRAME_DATA_BYTES
           else 1 \<le> length (cd_bytes (segs ! i)) \<and> length (cd_bytes (segs ! i)) \<le> FRAME_DATA_BYTES))"
proof -
  obtain segs where "can_send_loop bus_driver cmd 0 data (length data, CalcCrc16_modbus data (of_nat (length data)), []) =
      (0, (length data, CalcCrc16_modbus data (of_nat (length data)), [] @ segs))" "concat (map cd_bytes segs) = data" "segs_ok 0 segs"
      "list_all (\<lambda>s. cd_type s = cs_type cmd) segs"
    using can_send_loop_bus by blast
  then show ?thesis
    by (intro exI[of _ segs])
       (auto simp: udt_port_can_send_data_def segs_ok_def list_all_length bus_driver_def split: if_splits)
qed

lemma udt_can_reassembly_witness:
  "\<exists>segs. udt_port_can_send_data bus_driver [1, 2, 3, 4, 5, 6, 7, 8] (udt_can_cmd 0xFA 1 2) (0, 0, [])
     = (0, (8, CalcCrc16_modbus [1, 2, 3, 4, 5, 6, 7, 8] 8, segs)) \<and> concat (map cd_bytes segs) = [1, 2, 3, 4, 5, 6, 7, 8]"
  using udt_can_reassembly[of "[1, 2, 3, 4, 5, 6, 7, 8]" "udt_can_cmd 0xFA 1 2" "(0, 0, [])"]
  by auto

text \<open>The report queue towards the server: what was accepted comes out in order, and a frame is
  only refused when memory or the queue is full.\<close>

fun push_all :: "u8 list list \<Rightarrow> udt_port \<Rightarrow> udt_port" where
  "push_all [] s = s"
| "push_all (d # ds) s = push_all ds (snd (udt_transfer_to_cloud True 0 d s))"

fun drain :: "nat \<Rightarrow> udt_port \<Rightarrow> u8 list list \<Rightarrow> udt_port \<times> u8 list list" where
  "drain 0 s w = (s, w)"
| "drain (Suc n) s w = (case udt_mqtt_Report_to_Cloud (\<lambda>d w. w @ [d]) s w of (r, s', w') \<Rightarrow> drain n s' w')"

lemma push_all_queue:
  "udt_mqtt_queue s = Some q \<Longrightarrow> length q + length ds \<le> UDT_QUEUE_SIZE \<Longrightarrow>
   udt_mqtt_queue (push_all ds s) = Some (q @ ds)"
  by (induction ds arbitrary: s q) (simp_all add: udt_transfer_to_cloud_def queue_send_def)

lemma drain_queue:
  "udt_mqtt_queue s = Some q \<Longrightarrow> snd (drain (length q) s w) = w @ q"
  by (induction q arbitrary: s w) (simp_all add: udt_mqtt_Report_to_Cloud_def)

lemma udt_mqtt_fifo:
  "udt_mqtt_queue s = Some [] \<Longrightarrow> length ds \<le> UDT_QUEUE_SIZE \<Longrightarrow>
   snd (drain (length ds) (push_all ds s) []) = ds"
  using push_all_queue[of s "[]" ds] drain_queue[of "push_all ds s" ds "[]"] by simp

end
