(* ===== verification/Udt_Exp.thy ===== *)
theory Udt_Exp
  imports Udt_Transfer Udt_Incremental
begin

text \<open>
  The IOT node of the data channel, \<open>udt/udt_exp_iot.c\<close>: answering file and content queries in
  packets of at most 1024 bytes, incremental reads with resumption, the acknowledgement that
  updates the read records, and the periodic announcement of new log entries.  The log modules
  (one per \<open>log_kind\<close>), the generic history files, the directory listing, the clock and the
  semaphore and file outcomes of the record table are the record \<open>log_env\<close>; the transports come
  from \<open>Udt_Transfer\<close>.
\<close>

section \<open>Environment and state\<close>

datatype log_kind =
    Inv_Log | IoT_Event_Log | Reg_Change_Log | Dev_Access_Log
  | Energy_File_Unit_Data | Box_Log | Mqtt_Log

text \<open>The order in which \<open>get_data_from_storage\<close> asks the modules, which is also the order of the
  report steps 0 to 6.\<close>

definition log_kinds :: "log_kind list" where
  "log_kinds = [Inv_Log, IoT_Event_Log, Reg_Change_Log, Dev_Access_Log, Energy_File_Unit_Data,
                Box_Log, Mqtt_Log]"

record log_env =
  is_log_file :: "log_kind \<Rightarrow> u8 list \<Rightarrow> bool"
  read_incremental :: "log_kind \<Rightarrow> u64 \<Rightarrow> u8 list option"
  log_file_id :: "log_kind \<Rightarrow> u8 list option"
  log_count_new :: "log_kind \<Rightarrow> u64 \<Rightarrow> u16"
  historic_read :: "u8 list \<Rightarrow> u32 \<Rightarrow> u8 list option"
  dir_listing :: "u8 list \<Rightarrow> u8 list"
  clock :: u64
  rec_take_ok :: bool
  rec_write_ok :: bool

record udt_exp =
  udt_last_read_fname :: "u8 list"
  udt_last_send_total :: u16
  udt_last_read_time :: u64
  incr :: udt_incr

record udt_period =
  last_start_time :: u32
  last_send_time :: u32
  report_step :: u8

definition get_data_from_storage :: "log_env \<Rightarrow> u8 list \<Rightarrow> u32 \<Rightarrow> u64 \<Rightarrow> u8 list option" where
  "get_data_from_storage env nm offset last_read =
     (case List.find (\<lambda>k. is_log_file env k nm) log_kinds of
        Some k \<Rightarrow> read_incremental env k last_read
      | None \<Rightarrow> historic_read env nm offset)"

section \<open>Sending in packets\<close>

definition udt_total :: "nat \<Rightarrow> nat" where
  "udt_total len =
     len div UDT_ONCE_TX_MAX_SIZE + (if len mod UDT_ONCE_TX_MAX_SIZE \<noteq> 0 then 1 else 0)"

definition udt_packet :: "udt_event \<Rightarrow> u8 \<Rightarrow> nat \<Rightarrow> nat \<Rightarrow> nat \<Rightarrow> nat \<Rightarrow> u8 list \<Rightarrow> udt_tx_data" where
  "udt_packet evt fc tot idx off n d =
     \<lparr>tx_mode = ev_mode evt, tx_req_id = ev_req_id evt, tx_pkg_idx = of_nat idx,
      tx_pkg_total = of_nat tot, tx_start_pos = of_nat off, tx_data_size = of_nat n,
      tx_funcode = fc, tx_data = Some (drop off d)\<rparr>"

text \<open>The sending loop: \<open>k\<close> iterations are left, so \<open>i + 1 = tot - k + 1\<close> is the packet index.\<close>

fun send_loop ::
    "udt_event \<Rightarrow> u8 \<Rightarrow> nat \<Rightarrow> nat \<Rightarrow> nat \<Rightarrow> nat \<Rightarrow> u8 list \<Rightarrow> 'w udt \<Rightarrow> 'w \<Rightarrow> ('w udt \<times> 'w) cres" where
  "send_loop evt fc tot 0 off len d u w = Inr (u, w)"
| "send_loop evt fc tot (Suc k) off len d u w =
     (let n = (if len > UDT_ONCE_TX_MAX_SIZE then UDT_ONCE_TX_MAX_SIZE else len) in
      cbind (udt_transmit (udt_packet evt fc tot (tot - k) off n d) u w) (\<lambda>(r, u', w').
        if r < 0 then Inr (u', w')
        else send_loop evt fc tot k (off + n) (len - n) d u' w'))"

text \<open>The directory answer; its length is a \<open>uint16_t\<close>.\<close>

definition udt_resp_query_file ::
    "log_env \<Rightarrow> udt_event \<Rightarrow> 'w udt \<Rightarrow> 'w \<Rightarrow> ('w udt \<times> 'w) cres" where
  "udt_resp_query_file env evt u w =
     (let nm = (case ev_param evt of Qry_Cont s f t \<Rightarrow> f | _ \<Rightarrow> replicate 11 0);
          d = dir_listing env nm;
          len = unat (of_nat (length d) :: u16)
      in send_loop evt UDT_FUNCODE_QUERY_FILE_RTN (udt_total len) (udt_total len) 0 len d u w)"

section \<open>Content queries\<close>

definition with_record :: "int \<Rightarrow> udt_incr \<Rightarrow> 'a \<Rightarrow> (udt_file_record \<Rightarrow> 'a) \<Rightarrow> 'a cres" where
  "with_record index t dflt f =
     (if 0 \<le> index then (case Udt_Incremental_Get_Record_By_Index index t of
                            None \<Rightarrow> Inl Null_Call | Some r \<Rightarrow> Inr (f r))
      else Inr dflt)"

definition incremental_since :: "u8 \<Rightarrow> int \<Rightarrow> udt_incr \<Rightarrow> u64 cres" where
  "incremental_since tread index t =
     (if tread = 1 then with_record index t 0 (\<lambda>r. ucast (last_time r)) else Inr 0)"

definition resume_skip :: "u8 \<Rightarrow> int \<Rightarrow> nat \<Rightarrow> udt_incr \<Rightarrow> nat cres" where
  "resume_skip tread index tot t =
     (if tread = 1 then with_record index t 0 (\<lambda>r.
        if last_send_cnt r > last_resp_cnt r \<and> tot > unat (last_resp_cnt r)
        then unat (last_resp_cnt r) else 0)
      else Inr 0)"

definition udt_resp_query_content ::
    "log_env \<Rightarrow> udt_event \<Rightarrow> udt_exp \<Rightarrow> 'w udt \<Rightarrow> 'w \<Rightarrow> (udt_exp \<times> 'w udt \<times> 'w) cres" where
  "udt_resp_query_content env evt ex u w =
     (case (case ev_param evt of Qry_Cont s f t \<Rightarrow> (s, f, t) | _ \<Rightarrow> (0, replicate 11 0, 0)) of
        (start, nm, tread) \<Rightarrow>
          let index = Udt_Incremental_Find_Index (rec_take_ok env) (Some nm) (incr ex) in
          cbind (incremental_since tread index (incr ex)) (\<lambda>since.
            case get_data_from_storage env nm start since of
              None \<Rightarrow> Inr (ex, u, w)
            | Some pdata \<Rightarrow>
                let len = length pdata; tot = udt_total len in
                cbind (resume_skip tread index tot (incr ex)) (\<lambda>skip.
                  let tot' = tot - skip;
                      send_pdata = drop (UDT_ONCE_TX_MAX_SIZE * skip) pdata;
                      len' = len - UDT_ONCE_TX_MAX_SIZE * skip;
                      ex' = ex\<lparr>udt_last_read_fname := nm, udt_last_send_total := of_nat tot',
                               udt_last_read_time := clock env\<rparr>
                  in cbind (send_loop evt UDT_FUNCODE_QUERY_CONTENT_RTN tot' tot' 0 len' send_pdata u w)
                       (\<lambda>(u', w'). Inr (ex', u', w')))))"

section \<open>Events\<close>

definition svc_ack_seq :: "udt_event \<Rightarrow> u16" where
  "svc_ack_seq evt = (case ev_param evt of Svc_Ack t s \<Rightarrow> s | _ \<Rightarrow> 0)"

definition udt_evt_process ::
    "log_env \<Rightarrow> udt_event \<Rightarrow> udt_exp \<Rightarrow> 'w udt \<Rightarrow> 'w \<Rightarrow> (udt_exp \<times> 'w udt \<times> 'w) cres" where
  "udt_evt_process env evt ex u w =
     (if ev_funcode evt = UDT_FUNCODE_QUERY_FILE then
        cbind (udt_resp_query_file env evt u w) (\<lambda>(u', w'). Inr (ex, u', w'))
      else if ev_funcode evt = UDT_FUNCODE_QUERY_CONTENT then udt_resp_query_content env evt ex u w
      else if ev_funcode evt = UDT_FUNCODE_QUERY_CONTENT_SVC_ACK then
        (if ev_mode evt = UDT_MODE_SVC then
           (let new = udt_record_init_from (Some (udt_last_read_fname ex)) (udt_last_read_time ex)
                        (udt_last_send_total ex) (svc_ack_seq evt)
            in Inr (ex\<lparr>incr := snd (Udt_Incremental_Update_Record (rec_take_ok env) (rec_write_ok env)
                                    (Some new) (incr ex))\<rparr>, u, w))
         else Inr (ex, u, w))
      else Inr (ex, u, w))"

definition udt_evt_callback ::
    "log_env \<Rightarrow> udt_event \<Rightarrow> udt_exp \<Rightarrow> 'w udt \<Rightarrow> 'w \<Rightarrow> (int \<times> udt_exp \<times> 'w udt \<times> 'w) cres" where
  "udt_evt_callback env evt ex u w =
     cbind (udt_evt_process env evt ex u w) (\<lambda>(ex', u', w'). Inr (0, ex', u', w'))"

section \<open>Periodic announcement\<close>

definition UDT_POWERUP_CHECK_TIMEOUT :: u32 where "UDT_POWERUP_CHECK_TIMEOUT = 10800000"
definition UDT_PERIOD_CHECK_TIMEOUT :: u32 where "UDT_PERIOD_CHECK_TIMEOUT = 86400000"
definition UDT_PERIOD_SEND_TIMEOUT :: u32 where "UDT_PERIOD_SEND_TIMEOUT = 300000"

definition udt_throttled :: "u32 \<Rightarrow> udt_period \<Rightarrow> bool" where
  "udt_throttled now p \<longleftrightarrow>
     (last_start_time p = 0 \<and> now - last_start_time p < UDT_POWERUP_CHECK_TIMEOUT) \<or>
     (last_start_time p \<noteq> 0 \<and> now - last_start_time p < UDT_PERIOD_CHECK_TIMEOUT) \<or>
     now - last_send_time p < UDT_PERIOD_SEND_TIMEOUT"

definition new_log_bytes :: "u16 \<Rightarrow> u8 list \<Rightarrow> u8 list" where
  "new_log_bytes cnt nm = [1, 2] @ le16 (UDT_SWAP16 cnt) @ [2, 10] @ take 10 nm"

definition new_log_tx :: "u16 \<Rightarrow> u8 list \<Rightarrow> udt_tx_data" where
  "new_log_tx cnt nm =
     \<lparr>tx_mode = UDT_MODE_SVC, tx_req_id = 0, tx_pkg_idx = 1, tx_pkg_total = 1, tx_start_pos = 0,
      tx_data_size = 16, tx_funcode = UDT_FUNCODE_NEW_LOG_REPORT,
      tx_data = Some (new_log_bytes cnt nm)\<rparr>"

definition report_since :: "int \<Rightarrow> udt_incr \<Rightarrow> u64" where
  "report_since index t =
     (if 0 \<le> index then (case Udt_Incremental_Get_Record_By_Index index t of
                            Some r \<Rightarrow> ucast (last_time r) | None \<Rightarrow> 0) else 0)"

definition udt_period_check_and_report ::
    "log_env \<Rightarrow> u32 \<Rightarrow> udt_period \<Rightarrow> udt_exp \<Rightarrow> 'w udt \<Rightarrow> 'w \<Rightarrow> (int \<times> udt_period \<times> 'w udt \<times> 'w) cres" where
  "udt_period_check_and_report env now p ex u w =
     (if udt_throttled now p then Inr (- 1, p, u, w)
      else if unat (report_step p) > 6 then
        Inr (- 1, p\<lparr>report_step := 0, last_start_time := now\<rparr>, u, w)
      else let kind = log_kinds ! unat (report_step p);
               next_p = p\<lparr>report_step := report_step p + 1\<rparr> in
        (case log_file_id env kind of None \<Rightarrow> Inr (- 1, next_p, u, w)
         | Some nm \<Rightarrow>
             let index = Udt_Incremental_Find_Index (rec_take_ok env) (Some nm) (incr ex);
                 cnt = log_count_new env kind (report_since index (incr ex)) in
             if cnt > 0 then
               cbind (udt_transmit (new_log_tx cnt nm) u w) (\<lambda>(r, u', w').
                 Inr (r, next_p\<lparr>last_send_time := now\<rparr>, u', w'))
             else Inr (- 1, next_p, u, w)))"

section \<open>Configuration\<close>

definition IOT_NODE_ADDR :: u8 where "IOT_NODE_ADDR = 0"

text \<open>One relay entry sends every address from 1 to 255 to CAN; the remaining nine entries of the
  table are uninitialised, here \<open>rest\<close>.\<close>

definition udt_configuration ::
    "'w data_transfer \<Rightarrow> 'w data_transfer \<Rightarrow> 'w data_transfer \<Rightarrow> 'w data_transfer \<Rightarrow>
     'w udt_relay_list list \<Rightarrow> (udt_event \<Rightarrow> 'w \<Rightarrow> int \<times> 'w) \<Rightarrow> bool \<Rightarrow> 'w udt \<Rightarrow> 'w udt" where
  "udt_configuration to_cloud pc ble can rest cb queue_ok u =
     udt_init IOT_NODE_ADDR (Some \<lparr>to_server = Some to_cloud, to_pc = Some pc, to_ble = Some ble\<rparr>)
       (Some (1, \<lparr>addr1 = 0x01, addr2 = 0xFF, rl_transfer = Some can\<rparr> # rest)) (Some cb) queue_ok u"

section \<open>Packet lemmas\<close>

lemma udt_total_ceil: "udt_total len = (len + 1023) div 1024"
proof -
  define q r where "q = len div 1024" and "r = len mod 1024"
  then have len: "len = 1024 * q + r" and r: "r < 1024" by simp_all
  have "(r + 1023) div 1024 = (if r \<noteq> 0 then 1 else 0)"
    using r by (auto intro: div_nat_eqI)
  moreover have "(1024 * q + (r + 1023)) div 1024 = q + (r + 1023) div 1024"
    by (rule div_mult_self4) simp
  ultimately show ?thesis
    by (simp add: udt_total_def UDT_ONCE_TX_MAX_SIZE_def len r add.assoc)
qed

lemma udt_total_step:
  assumes "udt_total len = Suc k"
  shows "0 < len" "udt_total (len - (if len > 1024 then 1024 else len)) = k"
proof -
  show "0 < len" using assms by (cases len) (simp_all add: udt_total_ceil)
  show "udt_total (len - (if len > 1024 then 1024 else len)) = k"
  proof (cases "len > 1024")
    case True
    then obtain m where "len = 1024 + m" by (metis less_imp_add_positive)
    moreover have "(1024 + (1023 + m)) div 1024 = Suc ((1023 + m) div 1024)"
      by (subst div_add_self1) simp_all
    ultimately show ?thesis using assms True by (simp add: udt_total_ceil add.commute)
  next
    case False
    then have "udt_total len \<le> 1" by (simp add: udt_total_ceil)
    with False assms show ?thesis by (simp add: udt_total_ceil)
  qed
qed

lemma udt_total_0: "udt_total len = 0 \<longleftrightarrow> len = 0"
  by (cases len) (simp_all add: udt_total_ceil)

definition frame_payload :: "u8 list \<Rightarrow> u8 list" where
  "frame_payload fr = take (length fr - 22) (drop 20 fr)"

definition frame_index :: "u8 list \<Rightarrow> u16" where
  "frame_index fr = UDT_SWAP16 (pkg_idx (udt_protocol_of fr))"

definition frame_total :: "u8 list \<Rightarrow> u16" where
  "frame_total fr = UDT_SWAP16 (pkg_total (udt_protocol_of fr))"

definition frame_start :: "u8 list \<Rightarrow> u32" where
  "frame_start fr = UDT_SWAP32 (start_pos (udt_protocol_of fr))"

lemma frame_payload_frame [simp]: "frame_payload (udt_frame h p) = p"
  by (simp add: frame_payload_def udt_frame_fields)

lemma packet_frame_fields:
  "frame_index (udt_frame (reply_header t u) p) = tx_pkg_idx t"
  "frame_total (udt_frame (reply_header t u) p) = tx_pkg_total t"
  "frame_start (udt_frame (reply_header t u) p) = tx_start_pos t"
  by (simp_all add: frame_index_def frame_total_def frame_start_def udt_frame_fields
      reply_header_def udt_tx_header_def)

lemma of_nat_u32_1024: "n \<le> 1024 \<Longrightarrow> unat (of_nat n :: u32) = n"
  by (simp add: unat_of_nat take_bit_nat_eq_self)

definition frames_ok :: "nat \<Rightarrow> nat \<Rightarrow> nat \<Rightarrow> u8 list list \<Rightarrow> bool" where
  "frames_ok tot idx off frs \<longleftrightarrow> (\<forall>i < length frs.
     frame_index (frs ! i) = of_nat (idx + i) \<and> frame_total (frs ! i) = of_nat tot \<and>
     frame_start (frs ! i) = of_nat (off + 1024 * i) \<and> length (frame_payload (frs ! i)) \<le> 1024)"

lemma frames_ok_Cons:
  assumes "frame_index fr = of_nat idx" "frame_total fr = of_nat tot" "frame_start fr = of_nat off"
    and "length (frame_payload fr) \<le> 1024" "frames_ok tot (Suc idx) (off + 1024) frs"
  shows "frames_ok tot idx off (fr # frs)"
  unfolding frames_ok_def
proof (intro allI impI)
  fix i assume "i < length (fr # frs)"
  then show "frame_index ((fr # frs) ! i) = of_nat (idx + i) \<and> frame_total ((fr # frs) ! i) = of_nat tot \<and>
     frame_start ((fr # frs) ! i) = of_nat (off + 1024 * i) \<and> length (frame_payload ((fr # frs) ! i)) \<le> 1024"
    using assms by (cases i) (auto simp: frames_ok_def algebra_simps)
qed

lemma send_loop_all:
  assumes tr: "transport_for (ev_mode evt) (transfer u) = Some g" "\<not> transport_missing (ev_mode evt) (transfer u)"
    and pos: "\<And>a d w. 0 \<le> fst (g a d w)" and fc: "is_reply_funcode fc" and tot: "tot < 65536"
  shows "k = udt_total len \<Longrightarrow> k \<le> tot \<Longrightarrow> off + len = length d \<Longrightarrow>
    \<exists>frs. send_loop evt fc tot k off len d u w =
        Inr (u, fold (\<lambda>fr w. snd (g (local_addr u) fr w)) frs w) \<and> length frs = k \<and>
      concat (map frame_payload frs) = drop off d \<and> frames_ok tot (tot - k + 1) off frs"
proof (induction k arbitrary: off len w)
  case 0
  then have "len = 0" by (metis udt_total_0)
  with 0 show ?case by (simp add: frames_ok_def)
next
  case (Suc k)
  let ?n = "if len > 1024 then 1024 else len"
  let ?t = "udt_packet evt fc tot (tot - k) off ?n d"
  let ?fr = "udt_frame (reply_header ?t u) (take ?n (drop off d))"
  have st: "0 < len" "udt_total (len - ?n) = k" using udt_total_step[of len k] Suc.prems(1) by auto
  have n: "?n \<le> 1024" "?n \<le> len" by auto
  have tot0: "(of_nat tot :: u16) \<noteq> 0"
  proof -
    have "unat (of_nat tot :: u16) = tot" using tot by (simp add: unat_of_nat take_bit_nat_eq_self)
    then show ?thesis using Suc.prems(2) by (metis Suc_le_D nat.distinct(1) unat_0)
  qed
  have send: "udt_transmit ?t u w = (case g (local_addr u) ?fr w of (r, w') \<Rightarrow> Inr (r, u, w'))"
    using udt_transmit_send[of ?t "drop off d" u g w] tr fc n tot0 Suc.prems(3) of_nat_u32_1024[OF n(1)]
    by (simp add: udt_packet_def del: if_split)
  obtain r w' where g: "g (local_addr u) ?fr w = (r, w')" by fastforce
  with pos[of "local_addr u" ?fr w] have r: "\<not> r < 0" by simp
  have step: "send_loop evt fc tot (Suc k) off len d u w = send_loop evt fc tot k (off + ?n) (len - ?n) d u w'"
    using send g r by (cases "1024 < len") (simp_all add: Let_def UDT_ONCE_TX_MAX_SIZE_def)
  obtain frs where frs: "send_loop evt fc tot k (off + ?n) (len - ?n) d u w' =
        Inr (u, fold (\<lambda>fr w. snd (g (local_addr u) fr w)) frs w')" "length frs = k"
      "concat (map frame_payload frs) = drop (off + ?n) d" "frames_ok tot (tot - k + 1) (off + ?n) frs"
    using Suc.IH[of "len - ?n" "off + ?n" w'] st Suc.prems n by auto
  have nxt: "frames_ok tot (Suc (tot - k)) (off + 1024) frs"
  proof (cases "len > 1024")
    case True
    then show ?thesis using frs(4) by simp
  next
    case False
    moreover have "udt_total 0 = 0" by (simp add: udt_total_0)
    ultimately have "k = 0" using st by simp
    then show ?thesis using frs(2) by (simp add: frames_ok_def)
  qed
  have len: "length (take ?n (drop off d)) = ?n" using n Suc.prems(3) by simp
  have "frames_ok tot (tot - k) off (?fr # frs)"
    using nxt n len by (intro frames_ok_Cons) (simp_all add: packet_frame_fields udt_packet_def del: if_split)
  moreover have "tot - Suc k + 1 = tot - k" using Suc.prems(2) by simp
  moreover have "concat (map frame_payload (?fr # frs)) = drop off d"
  proof -
    have "take ?n (drop off d) @ drop (off + ?n) d = drop off d"
      by (metis append_take_drop_id drop_drop add.commute)
    then show ?thesis using frs(3) by simp
  qed
  ultimately show ?case using step frs(1,2) g by (intro exI[of _ "?fr # frs"]) simp
qed

lemma content_frames:
  fixes u :: "'w udt" and env :: log_env and ex :: udt_exp
  defines "ix nm \<equiv> Udt_Incremental_Find_Index (rec_take_ok env) (Some nm) (incr ex)"
  assumes prm: "ev_param evt = Qry_Cont s nm tread"
    and since: "incremental_since tread (ix nm) (incr ex) = Inr t0"
    and dat: "get_data_from_storage env nm s t0 = Some pdata" "udt_total (length pdata) < 65536"
    and skip: "resume_skip tread (ix nm) (udt_total (length pdata)) (incr ex) = Inr k"
    and tr: "transport_for (ev_mode evt) (transfer u) = Some g" "\<not> transport_missing (ev_mode evt) (transfer u)"
    and pos: "\<And>a d w. 0 \<le> fst (g a d w)"
  shows "\<exists>frs ex'. udt_resp_query_content env evt ex u w =
      Inr (ex', u, fold (\<lambda>fr w. snd (g (local_addr u) fr w)) frs w)
    \<and> length frs = udt_total (length pdata) - k
    \<and> concat (map frame_payload frs) = drop (1024 * k) pdata
    \<and> (\<forall>i. i < length frs \<longrightarrow> frame_index (frs ! i) = of_nat (i + 1) \<and>
         frame_total (frs ! i) = of_nat (length frs) \<and> frame_start (frs ! i) = of_nat (1024 * i) \<and>
         length (frame_payload (frs ! i)) \<le> 1024)
    \<and> udt_last_read_fname ex' = nm \<and> udt_last_send_total ex' = of_nat (length frs) \<and> incr ex' = incr ex"
proof -
  let ?n = "udt_total (length pdata)"
  have k: "k \<le> ?n"
    using skip by (auto simp: resume_skip_def with_record_def split: if_splits option.splits)
  have tot: "?n - k = udt_total (length (drop (1024 * k) pdata))"
  proof (cases "1024 * k \<le> length pdata")
    case True
    then obtain m where m: "length pdata = 1024 * k + m" by (metis le_Suc_ex)
    have "(1024 * k + (m + 1023)) div 1024 = k + (m + 1023) div 1024"
      by (rule div_mult_self4) simp
    then show ?thesis by (simp add: udt_total_ceil m add.assoc)
  next
    case False
    then show ?thesis using k by (simp add: udt_total_ceil)
  qed
  have lt: "?n - k < 65536" using dat(2) by simp
  obtain frs where frs: "send_loop evt UDT_FUNCODE_QUERY_CONTENT_RTN (?n - k) (?n - k) 0
        (length (drop (1024 * k) pdata)) (drop (1024 * k) pdata) u w =
        Inr (u, fold (\<lambda>fr w. snd (g (local_addr u) fr w)) frs w)" "length frs = ?n - k"
      "concat (map frame_payload frs) = drop 0 (drop (1024 * k) pdata)"
      "frames_ok (?n - k) (?n - k - (?n - k) + 1) 0 frs"
    using send_loop_all[OF tr pos, of UDT_FUNCODE_QUERY_CONTENT_RTN "?n - k" "?n - k"
        "length (drop (1024 * k) pdata)" 0 "drop (1024 * k) pdata" w] lt tot
    by (auto simp: is_reply_funcode_def)
  have "udt_resp_query_content env evt ex u w =
      Inr (ex\<lparr>udt_last_read_fname := nm, udt_last_send_total := of_nat (?n - k),
              udt_last_read_time := clock env\<rparr>, u,
           fold (\<lambda>fr w. snd (g (local_addr u) fr w)) frs w)"
    using prm since dat skip frs(1) k
    by (simp add: udt_resp_query_content_def Let_def ix_def UDT_ONCE_TX_MAX_SIZE_def)
  then show ?thesis
    using frs(2-4) by (intro exI[of _ frs] exI) (auto simp: frames_ok_def)
qed

section \<open>Properties\<close>

text \<open>C31: Answering a content query over a transport that accepts every frame: the frames sent
  are the data from the resume point on, cut into packets of at most 1024 bytes, their number is
  the announced total, their indices run from 1 and their start positions advance by 1024 from 0;
  the state remembers name and total for the acknowledgement.  The resume point is 1024 times the
  acknowledged count of the read record when the previous transfer stayed incomplete and there
  is more data than that, and 0 otherwise.\<close>

theorem udt_query_content_complete:
  fixes u :: "'w udt" and env :: log_env and ex :: udt_exp
  defines "ix nm \<equiv> Udt_Incremental_Find_Index (rec_take_ok env) (Some nm) (incr ex)"
  assumes prm: "ev_param evt = Qry_Cont s nm tread"
    and since: "incremental_since tread (ix nm) (incr ex) = Inr t0"
    and dat: "get_data_from_storage env nm s t0 = Some pdata" "udt_total (length pdata) < 65536"
    and skip: "resume_skip tread (ix nm) (udt_total (length pdata)) (incr ex) = Inr k"
    and tr: "transport_for (ev_mode evt) (transfer u) = Some g" "\<not> transport_missing (ev_mode evt) (transfer u)"
    and pos: "\<And>a d w. 0 \<le> fst (g a d w)"
  shows "\<exists>frs ex'. udt_resp_query_content env evt ex u w =
      Inr (ex', u, fold (\<lambda>fr w. snd (g (local_addr u) fr w)) frs w)
    \<and> length frs = udt_total (length pdata) - k
    \<and> concat (map frame_payload frs) = drop (1024 * k) pdata
    \<and> (\<forall>i. i < length frs \<longrightarrow> frame_index (frs ! i) = of_nat (i + 1) \<and>
         frame_total (frs ! i) = of_nat (length frs) \<and> frame_start (frs ! i) = of_nat (1024 * i) \<and>
         length (frame_payload (frs ! i)) \<le> 1024)
    \<and> udt_last_read_fname ex' = nm \<and> udt_last_send_total ex' = of_nat (length frs) \<and> incr ex' = incr ex"
  unfolding ix_def
  by (rule content_frames [OF prm since [unfolded ix_def] dat skip [unfolded ix_def] tr pos])

definition sample_env :: "u8 list \<Rightarrow> log_env" where
  "sample_env d = \<lparr>is_log_file = (\<lambda>k nm. k = Box_Log), read_incremental = (\<lambda>k t. Some d),
     log_file_id = (\<lambda>k. if k = Box_Log then Some [98, 120, 0, 0, 0, 0, 0, 0, 0, 0] else None),
     log_count_new = (\<lambda>k t. 3), historic_read = (\<lambda>nm off. None),
     dir_listing = (\<lambda>nm. []), clock = 1000, rec_take_ok = True, rec_write_ok = True\<rparr>"

definition sample_ex :: udt_exp where
  "sample_ex = \<lparr>udt_last_read_fname = replicate 11 0, udt_last_send_total = 0, udt_last_read_time = 0,
     incr = \<lparr>recs = (rec_zero\<lparr>fname := [98, 120, 0, 0, 0, 0, 0, 0, 0, 0], last_send_cnt := 3,
              last_resp_cnt := 1\<rparr>) # replicate 49 rec_zero, sem_created = True, rec_file = []\<rparr>\<rparr>"

definition sample_evt :: udt_event where
  "sample_evt = \<lparr>ev_funcode = 52, ev_mode = 0, ev_req_id = 5,
     ev_param = Qry_Cont 0 [98, 120, 0, 0, 0, 0, 0, 0, 0, 0, 0] 1\<rparr>"

lemma sample_ex_index:
  "Udt_Incremental_Find_Index True (Some [98, 120, 0, 0, 0, 0, 0, 0, 0, 0, 0]) (incr sample_ex) = 0"
  by (simp add: Udt_Incremental_Find_Index_def sample_ex_def same_name_def)

lemma udt_query_content_complete_witness:
  "\<exists>frs ex'. udt_resp_query_content (sample_env (replicate 3000 7)) sample_evt sample_ex (sample_udt 0) [] =
      Inr (ex', sample_udt 0, fold (\<lambda>fr w. snd (recording 0 fr w)) frs []) \<and> length frs = 2
    \<and> concat (map frame_payload frs) = drop 1024 (replicate 3000 7)"
proof -
  let ?env = "sample_env (replicate 3000 7)" and ?nm = "[98, 120, 0, 0, 0, 0, 0, 0, 0, 0, 0] :: u8 list"
  have ix: "Udt_Incremental_Find_Index (rec_take_ok ?env) (Some ?nm) (incr sample_ex) = 0"
    using sample_ex_index by (simp add: sample_env_def)
  have rec: "Udt_Incremental_Get_Record_By_Index 0 (incr sample_ex) =
      Some (rec_zero\<lparr>fname := [98, 120, 0, 0, 0, 0, 0, 0, 0, 0], last_send_cnt := 3, last_resp_cnt := 1\<rparr>)"
    by (simp add: Udt_Incremental_Get_Record_By_Index_def sample_ex_def UDT_READ_RECORD_FILE_NUM_MAX_def)
  have n: "udt_total 3000 = 3" by (simp add: udt_total_ceil)
  have since: "incremental_since 1 0 (incr sample_ex) = Inr 0"
    by (simp add: incremental_since_def with_record_def rec) (simp add: rec_zero_def)
  have skip: "resume_skip 1 0 (udt_total (length (replicate 3000 (7 :: u8)))) (incr sample_ex) = Inr 1"
    by (simp add: resume_skip_def with_record_def rec n)
  have dat: "get_data_from_storage ?env ?nm 0 0 = Some (replicate 3000 7)"
    by (simp add: get_data_from_storage_def sample_env_def log_kinds_def)
  have tr: "transport_for (ev_mode sample_evt) (transfer (sample_udt 0)) = Some recording"
      "\<not> transport_missing (ev_mode sample_evt) (transfer (sample_udt 0))"
    by (simp_all add: sample_evt_def sample_udt_def transport_for_def transport_missing_def udt_consts)
  have la: "local_addr (sample_udt 0) = 0" by (simp add: sample_udt_def)
  obtain frs ex' where "udt_resp_query_content ?env sample_evt sample_ex (sample_udt 0) [] =
      Inr (ex', sample_udt 0, fold (\<lambda>fr w. snd (recording (local_addr (sample_udt 0)) fr w)) frs [])"
      "length frs = udt_total (length (replicate 3000 (7 :: u8))) - 1"
      "concat (map frame_payload frs) = drop (1024 * 1) (replicate 3000 7)"
    using udt_query_content_complete[where env = ?env and ex = sample_ex and evt = sample_evt and u = "sample_udt 0"
        and w = "[]" and s = 0 and nm = ?nm and tread = 1 and ?t0.0 = 0 and pdata = "replicate 3000 7" and k = 1
        and g = recording]
      since skip dat tr ix by (auto simp: n sample_evt_def recording_def)
  then show ?thesis by (intro exI[of _ frs] exI[of _ ex']) (simp add: n la)
qed

text \<open>The periodic check sends at most one announcement per call; it sends only when the
  start of the last round is at least 24 hours back (3 hours after power-up) and the last
  announcement at least 5 minutes, it moves to the next log module or, after the seventh, closes
  the round at the current time, and a call inside the waiting time changes nothing.\<close>

theorem udt_period_check_throttle:
  assumes "udt_period_check_and_report env now p ex u w = Inr (r, p', u', w')"
  shows "(udt_throttled now p \<longrightarrow> r = - 1 \<and> p' = p \<and> u' = u \<and> w' = w)
    \<and> (w' \<noteq> w \<or> last_send_time p' \<noteq> last_send_time p \<longrightarrow>
         300000 \<le> now - last_send_time p \<and>
         (if last_start_time p = 0 then 10800000 else 86400000) \<le> now - last_start_time p \<and>
         last_send_time p' = now)
    \<and> (\<not> udt_throttled now p \<longrightarrow>
         (if unat (report_step p) < 7
          then unat (report_step p') = unat (report_step p) + 1 \<and> last_start_time p' = last_start_time p
          else report_step p' = 0 \<and> last_start_time p' = now \<and> w' = w))"
proof (cases "udt_throttled now p")
  case True
  then show ?thesis using assms by (simp add: udt_period_check_and_report_def)
next
  case False
  then have t: "300000 \<le> now - last_send_time p"
      "(if last_start_time p = 0 then 10800000 else 86400000) \<le> now - last_start_time p"
    by (auto simp: udt_throttled_def UDT_POWERUP_CHECK_TIMEOUT_def UDT_PERIOD_CHECK_TIMEOUT_def
        UDT_PERIOD_SEND_TIMEOUT_def not_less)
  show ?thesis
  proof (cases "unat (report_step p) < 7")
    case True
    then have "unat (report_step p + 1) = unat (report_step p) + 1" by (simp add: unat_word_ariths)
    then show ?thesis
      using assms False True t
      by (auto simp: udt_period_check_and_report_def Let_def cbind_Inr_iff split: option.splits if_splits)
  next
    case F: False
    then show ?thesis
      using assms False t by (auto simp: udt_period_check_and_report_def)
  qed
qed

lemma udt_period_check_throttle_witness:
  "\<exists>p' w'. udt_period_check_and_report (sample_env []) 10800000
      \<lparr>last_start_time = 0, last_send_time = 0, report_step = 5\<rparr> sample_ex (sample_udt 0) [] =
      Inr (0, p', sample_udt 0, w') \<and> last_send_time p' = 10800000 \<and> report_step p' = 6"
proof -
  let ?p = "\<lparr>last_start_time = 0, last_send_time = 0, report_step = 5\<rparr>"
  have nt: "\<not> udt_throttled 10800000 ?p"
    by (simp add: udt_throttled_def UDT_POWERUP_CHECK_TIMEOUT_def UDT_PERIOD_CHECK_TIMEOUT_def
        UDT_PERIOD_SEND_TIMEOUT_def)
  obtain w' where send: "udt_transmit (new_log_tx 3 [98, 120, 0, 0, 0, 0, 0, 0, 0, 0]) (sample_udt 0) [] =
      Inr (0, sample_udt 0, w')" "w' \<noteq> []"
    by (simp add: udt_transmit_def new_log_tx_def new_log_bytes_def is_reply_funcode_def udt_consts
        sample_udt_def transport_missing_def Let_def call_transfer_def recording_def le16_def)
  have r: "udt_period_check_and_report (sample_env []) 10800000 ?p sample_ex (sample_udt 0) []
      = Inr (0, ?p\<lparr>report_step := 5 + 1, last_send_time := 10800000\<rparr>, sample_udt 0, w')"
    using nt send(1) by (simp add: udt_period_check_and_report_def sample_env_def log_kinds_def Let_def)
  show ?thesis
    using r send(2) udt_period_check_throttle[OF r] by auto
qed

end
