(* ===== verification/Xmodem_Transmitter.thy ===== *)
theory Xmodem_Transmitter
  imports Crc
begin

text \<open>
  The sending side of the XMODEM-1K firmware transfer, \<open>iot_xmodem/xmodem_transmitter.c\<close>: the
  state machine \<open>Xmodem_Server_top\<close> with its block counters, timers and retry limits.  The static
  variables are the record \<open>xm_server\<close>, one call is one step.  What the callbacks deliver in a
  call is the record \<open>xm_in\<close>: the time, what the UART has received, and whether the UART accepts
  the output; the bytes handed to the UART are the result of the step.  The image behind
  \<open>xmd_get_buffer\<close> is a function from positions to blocks.
\<close>

section \<open>Constants and state\<close>

datatype xmodem_transmit_state =
    XT_INITIAL | XT_WAIT_FOR_C | XT_WAIT_FOR_C_ACK | XT_WRITE_BLOCK_FAILED | XT_ABORT_TRANSFER
  | XT_WRITE_BLOCK | XT_C_ACK_RECEIVED | XT_COMPLETE | XT_WRITE_EOT | XT_WAIT_FOR_EOT_ACK
  | XT_TIMEOUT_EOT | XT_WRITE_BLOCK_TIMEOUT | XT_WRITE_ETB | XT_WAIT_FOR_ETB_ACK | XT_TIMEOUT_ETB
  | XT_UNKNOWN

definition XMODEM_BLOCK_SIZE :: u32 where "XMODEM_BLOCK_SIZE = 1024"
definition EOT :: u8 where "EOT = 0x04"
definition ACK :: u8 where "ACK = 0x06"
definition NACK :: u8 where "NACK = 0x15"
definition ETB :: u8 where "ETB = 0x17"
definition CAN :: u8 where "CAN = 0x18"
definition CHAR_C :: u8 where "CHAR_C = 0x43"
definition STX :: u8 where "STX = 0x02"

definition TRANSFER_C_TIMEOUT :: u32 where "TRANSFER_C_TIMEOUT = 6000"
definition TRANSFER_ACK_TIMEOUT :: u32 where "TRANSFER_ACK_TIMEOUT = 6000"
definition TRANSFER_EOT_TIMEOUT :: u32 where "TRANSFER_EOT_TIMEOUT = 6000"
definition TRANSFER_ETB_TIMEOUT :: u32 where "TRANSFER_ETB_TIMEOUT = 6000"
definition TRANSFER_WRITE_BLOCK_TIMEOUT :: u32 where "TRANSFER_WRITE_BLOCK_TIMEOUT = 2000"
definition WRITE_BLOCK_MAX_RETRIES :: u8 where "WRITE_BLOCK_MAX_RETRIES = 10"
definition WRITE_ETB_MAX_RETRIES :: u8 where "WRITE_ETB_MAX_RETRIES = 10"

lemmas xm_chars = EOT_def ACK_def NACK_def ETB_def CAN_def CHAR_C_def STX_def
lemmas xm_times = TRANSFER_C_TIMEOUT_def TRANSFER_ACK_TIMEOUT_def TRANSFER_EOT_TIMEOUT_def
  TRANSFER_ETB_TIMEOUT_def TRANSFER_WRITE_BLOCK_TIMEOUT_def

record xm_server =
  transmit_state :: xmodem_transmit_state
  has_packet :: bool
  inbound :: u8
  returned_size :: u32
  write_success :: bool
  payload_buffer_position :: u32
  payload_size :: u32
  current_packet_id :: u8
  write_block_retries :: u8
  write_block_timer :: u32
  write_etb_retries :: u8
  send_packet_idx :: u32
  stopwatch :: u32
  stopwatch_eot :: u32
  stopwatch_etb :: u32

text \<open>\<open>rx\<close>: \<open>None\<close> for an empty receive buffer, \<open>Some None\<close> when the read delivers nothing.\<close>

record xm_in =
  now :: u32
  rx :: "u8 option option"
  uart_ok :: bool

section \<open>Start, progress, clean-up\<close>

text \<open>\<open>cbs_set\<close>: all six required callbacks are registered; \<open>alloc_ok\<close>: the packet buffer could be
  allocated.\<close>

definition xmodem_transmit_init :: "bool \<Rightarrow> bool \<Rightarrow> u32 \<Rightarrow> xm_server \<Rightarrow> bool \<times> xm_server" where
  "xmodem_transmit_init cbs_set alloc_ok sz s =
     (let s0 = s\<lparr>transmit_state := XT_UNKNOWN\<rparr> in
      if cbs_set \<and> sz mod XMODEM_BLOCK_SIZE = 0 then
        let s1 = s0\<lparr>transmit_state := XT_INITIAL, payload_size := sz, payload_buffer_position := 0,
                   write_block_retries := 0, write_block_timer := 0, write_etb_retries := 0\<rparr> in
        if \<not> has_packet s1 \<and> \<not> alloc_ok then (False, s1)
        else (True, s1\<lparr>has_packet := True, current_packet_id := 0, send_packet_idx := 0,
                       payload_buffer_position := 0\<rparr>)
      else (False, s0))"

definition xmodem_transmitter_cleanup :: "xm_server \<Rightarrow> xm_server" where
  "xmodem_transmitter_cleanup s =
     s\<lparr>transmit_state := XT_INITIAL, payload_buffer_position := 0, inbound := 0,
       write_block_retries := 0, write_block_timer := 0, write_success := False, returned_size := 0,
       has_packet := False\<rparr>"

definition xmodem_transmit_state_get :: "xm_server \<Rightarrow> xmodem_transmit_state" where
  "xmodem_transmit_state_get s = transmit_state s"

definition xmodem_transmit_otapct_get :: "xm_server \<Rightarrow> u8 cres" where
  "xmodem_transmit_otapct_get s =
     (let tot = payload_size s div XMODEM_BLOCK_SIZE in
      if tot = 0 then Inl Division_By_Zero
      else let pct = ucast (send_packet_idx s * 100 div tot) :: u8 in
        Inr (if pct < 100 then pct else 100))"

section \<open>The steps\<close>

definition xm_read :: "xm_in \<Rightarrow> xm_server \<Rightarrow> xm_server" where
  "xm_read i s = (case rx i of Some (Some b) \<Rightarrow> s\<lparr>inbound := b, returned_size := 1\<rparr>
                             | _ \<Rightarrow> s\<lparr>returned_size := 0\<rparr>)"

definition xm_initial :: "xm_in \<Rightarrow> xm_server \<Rightarrow> xm_server" where
  "xm_initial i s = s\<lparr>transmit_state := XT_WAIT_FOR_C, write_block_timer := now i\<rparr>"

definition xm_wait_for_c :: "xm_in \<Rightarrow> xm_server \<Rightarrow> xm_server" where
  "xm_wait_for_c i s =
     (if now i > write_block_timer s + TRANSFER_C_TIMEOUT then s\<lparr>transmit_state := XT_ABORT_TRANSFER\<rparr>
      else if rx i \<noteq> None then
        let s1 = xm_read i s in
        if returned_size s1 > 0 \<and> inbound s1 = CHAR_C then
          s1\<lparr>transmit_state := XT_WRITE_BLOCK, current_packet_id := 1, send_packet_idx := 1,
             payload_buffer_position := 0, write_block_timer := now i\<rparr>
        else s1
      else s)"

definition xm_packet :: "u8 \<Rightarrow> u8 list \<Rightarrow> u8 list" where
  "xm_packet pid d =
     (let crc = xmodem_calculate_crc d XMODEM_BLOCK_SIZE
      in [STX, pid, 0xFF - pid] @ d @ [hi8 crc, lo8 crc])"

definition xm_write_block ::
    "(u32 \<Rightarrow> u8 list) \<Rightarrow> xm_in \<Rightarrow> xm_server \<Rightarrow> (u8 list \<times> xm_server) cres" where
  "xm_write_block img i s =
     (if now i > write_block_timer s + TRANSFER_WRITE_BLOCK_TIMEOUT
      then Inr ([], s\<lparr>transmit_state := XT_WRITE_BLOCK_TIMEOUT\<rparr>)
      else if \<not> has_packet s then Inl Null_Call
      else let frame = xm_packet (current_packet_id s) (img (payload_buffer_position s));
               s1 = s\<lparr>write_success := uart_ok i\<rparr> in
        if uart_ok i then
          (if payload_size s div XMODEM_BLOCK_SIZE = 0 then Inl Division_By_Zero
           else Inr (frame, s1\<lparr>current_packet_id := current_packet_id s + 1,
                              send_packet_idx := send_packet_idx s + 1,
                              payload_buffer_position := payload_buffer_position s + XMODEM_BLOCK_SIZE,
                              transmit_state := XT_WAIT_FOR_C_ACK, stopwatch := now i\<rparr>))
        else Inr ([], s1))"

definition xm_wait_for_ack :: "xm_in \<Rightarrow> xm_server \<Rightarrow> xm_server" where
  "xm_wait_for_ack i s =
     (if now i > stopwatch s + TRANSFER_ACK_TIMEOUT then s\<lparr>transmit_state := XT_WRITE_BLOCK_FAILED\<rparr>
      else if rx i \<noteq> None then
        let s1 = xm_read i s in
        if returned_size s1 > 0 then
          (if inbound s1 = ACK then s1\<lparr>transmit_state := XT_C_ACK_RECEIVED\<rparr>
           else if inbound s1 = NACK then s1\<lparr>transmit_state := XT_WRITE_BLOCK_FAILED\<rparr>
           else if inbound s1 = CAN then s1\<lparr>transmit_state := XT_ABORT_TRANSFER\<rparr>
           else s1)
        else s1
      else s)"

definition xm_write_failed :: "xm_in \<Rightarrow> xm_server \<Rightarrow> xm_server" where
  "xm_write_failed i s =
     (if WRITE_BLOCK_MAX_RETRIES \<le> write_block_retries s then s\<lparr>transmit_state := XT_ABORT_TRANSFER\<rparr>
      else s\<lparr>transmit_state := XT_WRITE_BLOCK, write_block_timer := now i,
             write_block_retries := write_block_retries s + 1,
             current_packet_id := current_packet_id s - 1,
             send_packet_idx := send_packet_idx s - 1,
             payload_buffer_position := payload_buffer_position s - XMODEM_BLOCK_SIZE\<rparr>)"

definition xm_ack_received :: "xm_in \<Rightarrow> xm_server \<Rightarrow> xm_server" where
  "xm_ack_received i s =
     (if payload_buffer_position s \<ge> payload_size s then s\<lparr>transmit_state := XT_WRITE_EOT\<rparr>
      else s\<lparr>transmit_state := XT_WRITE_BLOCK, write_block_timer := now i, write_block_retries := 0\<rparr>)"

definition xm_write_eot :: "xm_in \<Rightarrow> xm_server \<Rightarrow> u8 list \<times> xm_server" where
  "xm_write_eot i s =
     (if uart_ok i then ([EOT], s\<lparr>transmit_state := XT_WAIT_FOR_EOT_ACK, stopwatch_eot := now i\<rparr>)
      else ([], s))"

text \<open>Waiting for the answer to EOT or ETB: the next state for a timeout, an ACK and a NACK.\<close>

definition xm_wait_final ::
    "u32 \<Rightarrow> xmodem_transmit_state \<Rightarrow> xm_in \<Rightarrow> xm_server \<Rightarrow> xm_server" where
  "xm_wait_final limit on_timeout i s =
     (if now i > limit then s\<lparr>transmit_state := on_timeout\<rparr>
      else if rx i \<noteq> None then
        let s1 = xm_read i s in
        if returned_size s1 > 0 then
          (if inbound s1 = ACK then s1\<lparr>transmit_state := XT_COMPLETE\<rparr>
           else if inbound s1 = NACK then s1\<lparr>transmit_state := XT_ABORT_TRANSFER\<rparr>
           else s1)
        else s1
      else s)"

definition xm_wait_for_eot_ack :: "xm_in \<Rightarrow> xm_server \<Rightarrow> xm_server" where
  "xm_wait_for_eot_ack i s = xm_wait_final (stopwatch_eot s + TRANSFER_EOT_TIMEOUT) XT_TIMEOUT_EOT i s"

definition xm_write_etb :: "xm_in \<Rightarrow> xm_server \<Rightarrow> u8 list \<times> xm_server" where
  "xm_write_etb i s =
     (if uart_ok i then ([ETB], s\<lparr>transmit_state := XT_WAIT_FOR_ETB_ACK, stopwatch_etb := now i\<rparr>)
      else ([], s))"

definition xm_wait_for_etb_ack :: "xm_in \<Rightarrow> xm_server \<Rightarrow> xm_server" where
  "xm_wait_for_etb_ack i s = xm_wait_final (stopwatch_etb s + TRANSFER_ETB_TIMEOUT) XT_TIMEOUT_ETB i s"

definition xm_timeout_etb :: "xm_server \<Rightarrow> xm_server" where
  "xm_timeout_etb s =
     (if WRITE_ETB_MAX_RETRIES \<ge> write_etb_retries s
      then s\<lparr>write_etb_retries := write_etb_retries s + 1, transmit_state := XT_WRITE_ETB\<rparr>
      else s\<lparr>transmit_state := XT_COMPLETE\<rparr>)"

definition xm_abort :: "xm_in \<Rightarrow> xm_server \<Rightarrow> u8 list \<times> xm_server" where
  "xm_abort i s = ((if uart_ok i then [CAN] else []), s)"

definition Xmodem_Server_top ::
    "(u32 \<Rightarrow> u8 list) \<Rightarrow> xm_in \<Rightarrow> xm_server \<Rightarrow> (u8 list \<times> xm_server) cres" where
  "Xmodem_Server_top img i s =
     (case transmit_state s of
        XT_INITIAL \<Rightarrow> Inr ([], xm_initial i s)
      | XT_WAIT_FOR_C \<Rightarrow> Inr ([], xm_wait_for_c i s)
      | XT_WRITE_BLOCK \<Rightarrow> xm_write_block img i s
      | XT_WRITE_BLOCK_TIMEOUT \<Rightarrow> Inr ([], s\<lparr>transmit_state := XT_WRITE_BLOCK_FAILED\<rparr>)
      | XT_WAIT_FOR_C_ACK \<Rightarrow> Inr ([], xm_wait_for_ack i s)
      | XT_WRITE_BLOCK_FAILED \<Rightarrow> Inr ([], xm_write_failed i s)
      | XT_ABORT_TRANSFER \<Rightarrow> Inr (xm_abort i s)
      | XT_C_ACK_RECEIVED \<Rightarrow> Inr ([], xm_ack_received i s)
      | XT_WRITE_EOT \<Rightarrow> Inr (xm_write_eot i s)
      | XT_WAIT_FOR_EOT_ACK \<Rightarrow> Inr ([], xm_wait_for_eot_ack i s)
      | XT_TIMEOUT_EOT \<Rightarrow> Inr ([], s\<lparr>transmit_state := XT_ABORT_TRANSFER\<rparr>)
      | XT_WRITE_ETB \<Rightarrow> Inr (xm_write_etb i s)
      | XT_WAIT_FOR_ETB_ACK \<Rightarrow> Inr ([], xm_wait_for_etb_ack i s)
      | XT_TIMEOUT_ETB \<Rightarrow> Inr ([], xm_timeout_etb s)
      | XT_COMPLETE \<Rightarrow> Inr ([], s)
      | XT_UNKNOWN \<Rightarrow> Inr ([], s\<lparr>transmit_state := XT_ABORT_TRANSFER\<rparr>))"

lemmas xm_step_defs = Xmodem_Server_top_def xm_initial_def xm_wait_for_c_def xm_write_block_def
  xm_wait_for_ack_def xm_write_failed_def xm_ack_received_def xm_write_eot_def xm_wait_final_def
  xm_wait_for_eot_ack_def xm_write_etb_def xm_wait_for_etb_ack_def xm_timeout_etb_def xm_abort_def
  xm_read_def Let_def

section \<open>Runs\<close>

text \<open>A run from a state as \<open>xmodem_transmit_init\<close> leaves it, with two history variables: the frame
  written last, and the frames that were acknowledged, in order.  \<open>strict\<close> runs are those in which
  the UART never blocks the output of a block for longer than the write timeout.\<close>

definition block_timeout :: "xm_in \<Rightarrow> xm_server \<Rightarrow> bool" where
  "block_timeout i s \<longleftrightarrow>
     transmit_state s = XT_WRITE_BLOCK \<and> now i > write_block_timer s + TRANSFER_WRITE_BLOCK_TIMEOUT"

definition sent_frame :: "u8 list \<Rightarrow> xm_server \<Rightarrow> u8 list \<Rightarrow> u8 list" where
  "sent_frame out s lst = (if transmit_state s = XT_WRITE_BLOCK \<and> out \<noteq> [] then out else lst)"

definition acked_frames :: "xm_server \<Rightarrow> xm_server \<Rightarrow> u8 list \<Rightarrow> u8 list list \<Rightarrow> u8 list list" where
  "acked_frames s s' lst del =
     (if transmit_state s = XT_WAIT_FOR_C_ACK \<and> transmit_state s' = XT_C_ACK_RECEIVED
      then del @ [lst] else del)"

inductive xm_run :: "bool \<Rightarrow> (u32 \<Rightarrow> u8 list) \<Rightarrow> u32 \<Rightarrow> xm_server \<Rightarrow> u8 list \<Rightarrow> u8 list list \<Rightarrow> bool"
  for strict :: bool and img :: "u32 \<Rightarrow> u8 list" and sz :: u32 where
  xm_start: "xmodem_transmit_init True True sz s0 = (True, s) \<Longrightarrow> xm_run strict img sz s [] []"
| xm_step: "xm_run strict img sz s lst del \<Longrightarrow> Xmodem_Server_top img i s = Inr (out, s') \<Longrightarrow>
     (strict \<Longrightarrow> \<not> block_timeout i s) \<Longrightarrow>
     xm_run strict img sz s' (sent_frame out s lst) (acked_frames s s' lst del)"

definition xm_frame :: "(u32 \<Rightarrow> u8 list) \<Rightarrow> nat \<Rightarrow> u8 list" where
  "xm_frame img k = xm_packet (of_nat (k + 1)) (img (of_nat (1024 * k)))"

definition xm_at :: "nat \<Rightarrow> xm_server \<Rightarrow> bool" where
  "xm_at k s \<longleftrightarrow> current_packet_id s = of_nat (k + 1) \<and> send_packet_idx s = of_nat (k + 1) \<and>
     payload_buffer_position s = of_nat (1024 * k)"

fun xm_inv :: "(u32 \<Rightarrow> u8 list) \<Rightarrow> nat \<Rightarrow> xmodem_transmit_state \<Rightarrow> xm_server \<Rightarrow> u8 list \<Rightarrow> u8 list list \<Rightarrow> bool" where
  "xm_inv img n XT_INITIAL s lst del = (del = [])"
| "xm_inv img n XT_WAIT_FOR_C s lst del = (del = [])"
| "xm_inv img n XT_WRITE_BLOCK s lst del = (\<exists>k < n. xm_at k s \<and> del = map (xm_frame img) [0..<k])"
| "xm_inv img n XT_WAIT_FOR_C_ACK s lst del =
     (\<exists>k < n. xm_at (k + 1) s \<and> lst = xm_frame img k \<and> del = map (xm_frame img) [0..<k])"
| "xm_inv img n XT_WRITE_BLOCK_FAILED s lst del =
     (\<exists>k < n. xm_at (k + 1) s \<and> del = map (xm_frame img) [0..<k])"
| "xm_inv img n XT_C_ACK_RECEIVED s lst del =
     (\<exists>k < n. xm_at (k + 1) s \<and> del = map (xm_frame img) [0..<k + 1])"
| "xm_inv img n XT_WRITE_EOT s lst del = (del = map (xm_frame img) [0..<n])"
| "xm_inv img n XT_WAIT_FOR_EOT_ACK s lst del = (del = map (xm_frame img) [0..<n])"
| "xm_inv img n XT_COMPLETE s lst del = (del = map (xm_frame img) [0..<n])"
| "xm_inv img n XT_TIMEOUT_EOT s lst del = (del = map (xm_frame img) [0..<n])"
| "xm_inv img n XT_ABORT_TRANSFER s lst del = (\<exists>k \<le> n. del = map (xm_frame img) [0..<k])"
| "xm_inv img n _ s lst del = False"

lemma xm_at_next:
  "xm_at k s \<Longrightarrow> xm_at (k + 1) (s\<lparr>write_success := b, current_packet_id := current_packet_id s + 1,
     send_packet_idx := send_packet_idx s + 1,
     payload_buffer_position := payload_buffer_position s + XMODEM_BLOCK_SIZE,
     transmit_state := t, stopwatch := w\<rparr>)"
  by (simp add: xm_at_def XMODEM_BLOCK_SIZE_def algebra_simps)

lemma xm_at_back:
  "xm_at (k + 1) s \<Longrightarrow> xm_at k (s\<lparr>transmit_state := t, write_block_timer := w,
     write_block_retries := r, current_packet_id := current_packet_id s - 1,
     send_packet_idx := send_packet_idx s - 1,
     payload_buffer_position := payload_buffer_position s - XMODEM_BLOCK_SIZE\<rparr>)"
  by (simp add: xm_at_def XMODEM_BLOCK_SIZE_def algebra_simps)

lemma xm_at_cong:
  "current_packet_id s' = current_packet_id s \<Longrightarrow> send_packet_idx s' = send_packet_idx s \<Longrightarrow>
   payload_buffer_position s' = payload_buffer_position s \<Longrightarrow> xm_at k s' = xm_at k s"
  by (simp add: xm_at_def)

lemma xm_packet_ne: "xm_packet a d \<noteq> []"
  by (simp add: xm_packet_def Let_def)

lemma payload_size_step: "Xmodem_Server_top img i s = Inr (out, s') \<Longrightarrow> payload_size s' = payload_size s"
  by (auto simp: xm_step_defs split: xmodem_transmit_state.splits option.splits if_splits)

lemma xm_inv_write_block:
  assumes "transmit_state s = XT_WRITE_BLOCK" "xm_inv img n XT_WRITE_BLOCK s lst del"
    and "xm_write_block img i s = Inr (out, s')" "\<not> block_timeout i s"
  shows "xm_inv img n (transmit_state s') s' (sent_frame out s lst) (acked_frames s s' lst del)"
proof -
  obtain k where k: "k < n" "xm_at k s" "del = map (xm_frame img) [0..<k]" using assms(2) by auto
  have f: "xm_packet (current_packet_id s) (img (payload_buffer_position s)) = xm_frame img k"
    using k(2) by (simp add: xm_at_def xm_frame_def)
  show ?thesis
  proof (cases "uart_ok i")
    case True
    then have "out = xm_frame img k" "transmit_state s' = XT_WAIT_FOR_C_ACK" "xm_at (k + 1) s'"
      using assms(1,3,4) f xm_at_next[OF k(2)]
      by (auto simp: xm_write_block_def block_timeout_def Let_def split: if_splits)
    then show ?thesis
      using k assms(1) by (auto simp: sent_frame_def acked_frames_def xm_frame_def xm_packet_ne)
  next
    case False
    then have "out = []" "s' = s\<lparr>write_success := False\<rparr>"
      using assms(1,3,4) by (auto simp: xm_write_block_def block_timeout_def Let_def split: if_splits)
    then show ?thesis
      using k assms(1) by (auto simp: sent_frame_def acked_frames_def xm_at_def)
  qed
qed

lemma xm_inv_ack_received:
  assumes "xm_inv img n XT_C_ACK_RECEIVED s lst del" "payload_size s = of_nat (1024 * n)" "1024 * n < 2 ^ 32"
  shows "xm_inv img n (transmit_state (xm_ack_received i s)) (xm_ack_received i s) lst del"
proof -
  obtain k where k: "k < n" "xm_at (k + 1) s" "del = map (xm_frame img) [0..<k + 1]" using assms(1) by auto
  have "unat (of_nat (1024 * (k + 1)) :: u32) = 1024 * (k + 1)" "unat (of_nat (1024 * n) :: u32) = 1024 * n"
    using k(1) assms(3) by (simp_all only: unat_of_nat take_bit_nat_eq_self) (simp_all add: take_bit_nat_eq_self)
  then have pos: "payload_buffer_position s \<ge> payload_size s \<longleftrightarrow> n \<le> k + 1"
    using k(2) assms(2) by (simp only: xm_at_def word_le_nat_alt) (simp, arith)
  show ?thesis
  proof (cases "n \<le> k + 1")
    case True
    with k(1) have "n = k + 1" by simp
    with True k(3) pos show ?thesis
      by (simp add: xm_ack_received_def)
  next
    case False
    let ?s = "s\<lparr>transmit_state := XT_WRITE_BLOCK, write_block_timer := now i, write_block_retries := 0\<rparr>"
    have "xm_ack_received i s = ?s"
      using False pos
      by (simp add: xm_ack_received_def)
    moreover have "xm_at (k + 1) ?s" using k(2) by (simp add: xm_at_def)
    ultimately show ?thesis using False k(3) by (auto intro!: exI[of _ "k + 1"])
  qed
qed

lemma xm_inv_step:
  assumes inv: "xm_inv img n (transmit_state s) s lst del" and n: "0 < n"
    and sz: "payload_size s = of_nat (1024 * n)" "1024 * n < 2 ^ 32"
    and step: "Xmodem_Server_top img i s = Inr (out, s')" and nt: "\<not> block_timeout i s"
  shows "xm_inv img n (transmit_state s') s' (sent_frame out s lst) (acked_frames s s' lst del)"
proof (cases "transmit_state s")
  case XT_WRITE_BLOCK
  then show ?thesis
    using xm_inv_write_block[of s img n lst del i out s'] inv step nt by (simp add: Xmodem_Server_top_def)
next
  case XT_C_ACK_RECEIVED
  then show ?thesis
    using xm_inv_ack_received[of img n s lst del i] inv step sz
    by (auto simp: Xmodem_Server_top_def sent_frame_def acked_frames_def)
next
  case XT_WRITE_BLOCK_FAILED
  then obtain k where k: "k < n" "xm_at (k + 1) s" "del = map (xm_frame img) [0..<k]" using inv by auto
  have "s' = xm_write_failed i s" using step XT_WRITE_BLOCK_FAILED by (simp add: Xmodem_Server_top_def)
  then show ?thesis
    using XT_WRITE_BLOCK_FAILED k xm_at_back[OF k(2)]
    by (auto simp: xm_write_failed_def sent_frame_def acked_frames_def intro!: exI[of _ k])
next
  case XT_WAIT_FOR_C
  then show ?thesis
    using inv step n by (auto simp: xm_step_defs sent_frame_def acked_frames_def xm_at_def
        split: option.splits if_splits)
next
  case XT_WAIT_FOR_C_ACK
  then obtain k where k: "k < n" "xm_at (k + 1) s" "lst = xm_frame img k" "del = map (xm_frame img) [0..<k]"
    using inv by auto
  have "s' = xm_wait_for_ack i s" using step XT_WAIT_FOR_C_ACK by (simp add: Xmodem_Server_top_def)
  then show ?thesis
    using XT_WAIT_FOR_C_ACK k
    by (auto simp: xm_wait_for_ack_def xm_read_def Let_def sent_frame_def acked_frames_def xm_at_def
        split: option.splits if_splits intro!: exI[of _ k])
qed (use inv step in \<open>auto simp: xm_step_defs sent_frame_def acked_frames_def split: option.splits if_splits\<close>)

lemma xm_run_inv:
  assumes "xm_run True img (of_nat (1024 * n)) s lst del" "0 < n" "1024 * n < 2 ^ 32"
  shows "xm_inv img n (transmit_state s) s lst del \<and> payload_size s = of_nat (1024 * n)"
  using assms(1)
proof induction
  case (xm_start s0 s)
  then have "transmit_state s = XT_INITIAL" "payload_size s = of_nat (1024 * n)"
    by (auto simp: xmodem_transmit_init_def Let_def split: if_splits)
  then show ?case by simp
next
  case (xm_step s lst del i out s')
  then have "payload_size s = of_nat (1024 * n)" "xm_inv img n (transmit_state s) s lst del"
    and nt: "\<not> block_timeout i s" by auto
  then show ?case
    using xm_inv_step[OF _ assms(2) _ assms(3) xm_step(2) nt] payload_size_step[OF xm_step(2)] by metis
qed

text \<open>The counters alone, with write timeouts allowed: they move together, all standing for the
  same (possibly negative) block number.\<close>

definition xm_counters :: "int \<Rightarrow> xm_server \<Rightarrow> bool" where
  "xm_counters z s \<longleftrightarrow> current_packet_id s = of_int (z + 1) \<and> send_packet_idx s = of_int (z + 1) \<and>
     payload_buffer_position s = of_int (1024 * z)"

definition counters_ok :: "xm_server \<Rightarrow> bool" where
  "counters_ok s \<longleftrightarrow> write_block_retries s \<le> WRITE_BLOCK_MAX_RETRIES \<and>
     (transmit_state s = XT_INITIAL \<or> transmit_state s = XT_WAIT_FOR_C \<or>
      transmit_state s = XT_ABORT_TRANSFER \<or> (\<exists>z. xm_counters z s))"

lemma xm_counters_next:
  "xm_counters z s \<Longrightarrow> xm_counters (z + 1) (s\<lparr>write_success := b, current_packet_id := current_packet_id s + 1,
     send_packet_idx := send_packet_idx s + 1,
     payload_buffer_position := payload_buffer_position s + XMODEM_BLOCK_SIZE,
     transmit_state := t, stopwatch := w\<rparr>)"
  by (simp add: xm_counters_def XMODEM_BLOCK_SIZE_def algebra_simps)

lemma xm_counters_back:
  "xm_counters z s \<Longrightarrow> xm_counters (z - 1) (s\<lparr>transmit_state := t, write_block_timer := w,
     write_block_retries := r, current_packet_id := current_packet_id s - 1,
     send_packet_idx := send_packet_idx s - 1,
     payload_buffer_position := payload_buffer_position s - XMODEM_BLOCK_SIZE\<rparr>)"
  by (simp add: xm_counters_def XMODEM_BLOCK_SIZE_def algebra_simps)

lemma retries_step:
  assumes "\<not> WRITE_BLOCK_MAX_RETRIES \<le> (r :: u8)"
  shows "r + 1 \<le> WRITE_BLOCK_MAX_RETRIES"
proof -
  have "unat r < 10" using assms by (simp add: word_le_nat_alt WRITE_BLOCK_MAX_RETRIES_def)
  then show ?thesis by (simp add: word_le_nat_alt unat_word_ariths WRITE_BLOCK_MAX_RETRIES_def)
qed

lemma counters_ok_step:
  assumes ok: "counters_ok s" and step: "Xmodem_Server_top img i s = Inr (out, s')"
  shows "counters_ok s'"
proof (cases "transmit_state s")
  case XT_WRITE_BLOCK
  then obtain z where z: "xm_counters z s" "write_block_retries s \<le> WRITE_BLOCK_MAX_RETRIES"
    using ok by (auto simp: counters_ok_def)
  have "xm_write_block img i s = Inr (out, s')" using step XT_WRITE_BLOCK by (simp add: Xmodem_Server_top_def)
  then consider "s' = s\<lparr>transmit_state := XT_WRITE_BLOCK_TIMEOUT\<rparr>" | "s' = s\<lparr>write_success := False\<rparr>"
    | "s' = s\<lparr>write_success := True, current_packet_id := current_packet_id s + 1,
        send_packet_idx := send_packet_idx s + 1,
        payload_buffer_position := payload_buffer_position s + XMODEM_BLOCK_SIZE,
        transmit_state := XT_WAIT_FOR_C_ACK, stopwatch := now i\<rparr>"
    by (auto simp: xm_write_block_def Let_def split: if_splits)
  then show ?thesis
  proof cases
    case 3
    then have "xm_counters (z + 1) s'" using xm_counters_next[OF z(1)] by simp
    with 3 z(2) show ?thesis by (auto simp: counters_ok_def)
  qed (use z in \<open>auto simp: counters_ok_def xm_counters_def\<close>)
next
  case XT_WRITE_BLOCK_FAILED
  then obtain z where z: "xm_counters z s" "write_block_retries s \<le> WRITE_BLOCK_MAX_RETRIES"
    using ok by (auto simp: counters_ok_def)
  have "s' = xm_write_failed i s" using step XT_WRITE_BLOCK_FAILED by (simp add: Xmodem_Server_top_def)
  then show ?thesis
    using z xm_counters_back[OF z(1)] retries_step[of "write_block_retries s"]
    unfolding counters_ok_def xm_write_failed_def by (auto split: if_splits)
next
  case XT_WAIT_FOR_C
  then have "write_block_retries s \<le> WRITE_BLOCK_MAX_RETRIES" using ok by (simp add: counters_ok_def)
  moreover have "xm_counters 0 (x\<lparr>transmit_state := XT_WRITE_BLOCK, current_packet_id := 1, send_packet_idx := 1,
      payload_buffer_position := 0, write_block_timer := now i\<rparr>)" for x
    by (simp add: xm_counters_def)
  ultimately show ?thesis
    using XT_WAIT_FOR_C step unfolding counters_ok_def
    by (auto simp: Xmodem_Server_top_def xm_wait_for_c_def xm_read_def Let_def split: option.splits if_splits)
qed (use ok step in \<open>auto simp: counters_ok_def xm_step_defs xm_counters_def WRITE_BLOCK_MAX_RETRIES_def
       split: option.splits if_splits\<close>)

lemma xm_inv_prefix:
  "xm_inv img n t s lst del \<Longrightarrow> \<exists>k \<le> n. del = map (xm_frame img) [0..<k]"
proof (cases t)
  case XT_C_ACK_RECEIVED
  moreover assume "xm_inv img n t s lst del"
  ultimately obtain k where "k < n" "del = map (xm_frame img) [0..<k + 1]" by auto
  then show ?thesis by (intro exI[of _ "k + 1"]) simp
qed (auto intro: less_imp_le)

section \<open>Executions\<close>

fun xm_exec :: "(u32 \<Rightarrow> u8 list) \<Rightarrow> xm_in list \<Rightarrow> xm_server \<Rightarrow> (u8 list list \<times> xm_server) cres" where
  "xm_exec img [] s = Inr ([], s)"
| "xm_exec img (i # is) s =
     cbind (Xmodem_Server_top img i s) (\<lambda>(out, s'). cbind (xm_exec img is s') (\<lambda>(outs, s'').
       Inr (if out = [] then outs else out # outs, s'')))"

definition quiet :: xm_in where "quiet = \<lparr>now = 0, rx = None, uart_ok = True\<rparr>"
definition hears :: "u8 \<Rightarrow> xm_in" where "hears b = \<lparr>now = 0, rx = Some (Some b), uart_ok = True\<rparr>"

text \<open>What a willing receiver does for one block: let it be written, acknowledge it.\<close>

definition one_block :: "xm_in list" where "one_block = [quiet, hears ACK, quiet]"

definition willing :: "nat \<Rightarrow> xm_in list" where
  "willing n = [quiet, hears CHAR_C] @ concat (replicate n one_block) @ [quiet, hears ACK]"

lemma xm_exec_append:
  "xm_exec img (is @ js) s = cbind (xm_exec img is s) (\<lambda>(outs, s'). cbind (xm_exec img js s') (\<lambda>(outs', s'').
     Inr (outs @ outs', s'')))"
  by (induction "is" arbitrary: s) (auto simp: cbind_def split: sum.splits)

lemma run_exec:
  assumes "xm_run False img sz s lst del" "xm_exec img is s = Inr (outs, s')"
  shows "\<exists>lst' del'. xm_run False img sz s' lst' del'"
  using assms
proof (induction "is" arbitrary: s lst del outs)
  case (Cons i "is")
  then obtain out s1 outs1 where "Xmodem_Server_top img i s = Inr (out, s1)" "xm_exec img is s1 = Inr (outs1, s')"
    by (auto simp: cbind_Inr_iff)
  then show ?case using Cons.IH xm_step[OF Cons.prems(1)] by blast
qed auto

lemma one_block_exec:
  assumes at: "xm_at k s" "transmit_state s = XT_WRITE_BLOCK" "write_block_timer s = 0" "has_packet s"
    and sz: "payload_size s = of_nat (1024 * n)" "1024 * n < 2 ^ 32" "k < n"
  shows "\<exists>s'. xm_exec img one_block s = Inr ([xm_frame img k], s') \<and> has_packet s' \<and>
     payload_size s' = of_nat (1024 * n) \<and>
     (if k + 1 < n then xm_at (k + 1) s' \<and> transmit_state s' = XT_WRITE_BLOCK \<and> write_block_timer s' = 0
      else transmit_state s' = XT_WRITE_EOT)"
proof -
  have u: "unat (of_nat (1024 * m) :: u32) = 1024 * m" if "m \<le> n" for m
    using sz(2) that by (simp only: unat_of_nat take_bit_nat_eq_self) (simp add: take_bit_nat_eq_self)
  have "unat (payload_size s div XMODEM_BLOCK_SIZE) = n"
    using u[of n] sz(1) by (simp add: unat_div XMODEM_BLOCK_SIZE_def)
  then have nz: "payload_size s div XMODEM_BLOCK_SIZE \<noteq> 0" using sz(3) by (metis unat_0 not_less_zero)
  have f: "xm_packet (current_packet_id s) (img (payload_buffer_position s)) = xm_frame img k"
    using at(1) by (simp add: xm_at_def xm_frame_def)
  define s1 where "s1 = s\<lparr>write_success := True, current_packet_id := current_packet_id s + 1,
        send_packet_idx := send_packet_idx s + 1,
        payload_buffer_position := payload_buffer_position s + XMODEM_BLOCK_SIZE,
        transmit_state := XT_WAIT_FOR_C_ACK, stopwatch := 0\<rparr>"
  define s2 where "s2 = s1\<lparr>inbound := ACK, returned_size := 1, transmit_state := XT_C_ACK_RECEIVED\<rparr>"
  have a2: "xm_at (k + 1) s2" using xm_at_next[OF at(1)] by (simp add: s1_def s2_def xm_at_def)
  have st1: "Xmodem_Server_top img quiet s = Inr (xm_frame img k, s1)"
    using at nz f by (simp add: Xmodem_Server_top_def xm_write_block_def quiet_def s1_def
        TRANSFER_WRITE_BLOCK_TIMEOUT_def Let_def)
  have st2: "Xmodem_Server_top img (hears ACK) s1 = Inr ([], s2)"
    by (simp add: Xmodem_Server_top_def xm_wait_for_ack_def xm_read_def hears_def s2_def s1_def Let_def
        TRANSFER_ACK_TIMEOUT_def)
  have st3: "Xmodem_Server_top img quiet s2 = Inr ([], xm_ack_received quiet s2)"
    by (simp add: Xmodem_Server_top_def s2_def)
  have pos: "payload_buffer_position s2 \<ge> payload_size s2 \<longleftrightarrow> n \<le> k + 1"
    using a2 u[of "k + 1"] u[of n] sz(1,3) by (simp add: xm_at_def word_le_nat_alt s2_def s1_def) arith
  have run: "xm_exec img one_block s = Inr ([xm_frame img k], xm_ack_received quiet s2)"
    by (simp add: one_block_def st1 st2 st3 xm_frame_def xm_packet_ne)
  show ?thesis
  proof (cases "n \<le> k + 1")
    case True
    then show ?thesis using run pos at(4) sz(1) by (simp add: xm_ack_received_def) (simp add: s2_def s1_def)
  next
    case False
    then show ?thesis using run pos at(4) sz(1) a2
      by (simp add: xm_ack_received_def xm_at_def quiet_def) (simp add: s2_def s1_def)
  qed
qed

lemma blocks_exec:
  assumes "m = n - k" "k < n" "xm_at k s" "transmit_state s = XT_WRITE_BLOCK" "write_block_timer s = 0"
    and "has_packet s" "payload_size s = of_nat (1024 * n)" "1024 * n < 2 ^ 32"
  shows "\<exists>s'. xm_exec img (concat (replicate m one_block)) s = Inr (map (xm_frame img) [k..<n], s') \<and>
     transmit_state s' = XT_WRITE_EOT"
  using assms
proof (induction m arbitrary: k s)
  case (Suc m)
  obtain s1 where s1: "xm_exec img one_block s = Inr ([xm_frame img k], s1)" "has_packet s1"
      "payload_size s1 = of_nat (1024 * n)"
      "if k + 1 < n then xm_at (k + 1) s1 \<and> transmit_state s1 = XT_WRITE_BLOCK \<and> write_block_timer s1 = 0
       else transmit_state s1 = XT_WRITE_EOT"
    using one_block_exec[OF Suc.prems(3-8,2)] by blast
  have l: "[k..<n] = k # [k + 1..<n]" using Suc.prems(2) by (simp add: upt_rec)
  show ?case
  proof (cases "k + 1 < n")
    case True
    have "m = n - (k + 1)" using Suc.prems(1) by simp
    then obtain s2 where "xm_exec img (concat (replicate m one_block)) s1 = Inr (map (xm_frame img) [k + 1..<n], s2)"
        "transmit_state s2 = XT_WRITE_EOT"
      using Suc.IH[OF _ True, of s1] Suc.prems(8) s1(2-4) True by auto
    then show ?thesis using s1(1) l by (simp add: xm_exec_append)
  next
    case False
    then have "m = 0" using Suc.prems(1) by simp
    then show ?thesis using s1 l False by (simp add: xm_exec_append)
  qed
qed simp

lemma willing_exec:
  assumes "xmodem_transmit_init True True (of_nat (1024 * n)) s0 = (True, s)" "0 < n" "1024 * n < 2 ^ 32"
  shows "\<exists>s'. xm_exec img (willing n) s = Inr (map (xm_frame img) [0..<n] @ [[EOT]], s') \<and>
     transmit_state s' = XT_COMPLETE"
proof -
  have s: "transmit_state s = XT_INITIAL" "payload_size s = of_nat (1024 * n)" "has_packet s"
    using assms(1) by (auto simp: xmodem_transmit_init_def Let_def split: if_splits)
  define s1 where "s1 = s\<lparr>transmit_state := XT_WRITE_BLOCK, write_block_timer := 0, inbound := CHAR_C,
      returned_size := 1, current_packet_id := 1, send_packet_idx := 1, payload_buffer_position := 0\<rparr>"
  have start: "xm_exec img [quiet, hears CHAR_C] s = Inr ([], s1)"
    using s(1) by (simp add: Xmodem_Server_top_def xm_initial_def xm_wait_for_c_def xm_read_def quiet_def
        hears_def s1_def TRANSFER_C_TIMEOUT_def Let_def)
  obtain s2 where s2: "xm_exec img (concat (replicate n one_block)) s1 = Inr (map (xm_frame img) [0..<n], s2)"
      "transmit_state s2 = XT_WRITE_EOT"
    using blocks_exec[of n n 0 s1 img] assms(2,3) s by (auto simp: s1_def xm_at_def)
  define s3 where "s3 = s2\<lparr>transmit_state := XT_WAIT_FOR_EOT_ACK, stopwatch_eot := 0\<rparr>"
  have "Xmodem_Server_top img quiet s2 = Inr ([EOT], s3)"
    using s2(2) by (simp add: Xmodem_Server_top_def xm_write_eot_def quiet_def s3_def)
  moreover have "Xmodem_Server_top img (hears ACK) s3 =
      Inr ([], s3\<lparr>inbound := ACK, returned_size := 1, transmit_state := XT_COMPLETE\<rparr>)"
    by (simp add: Xmodem_Server_top_def xm_wait_for_eot_ack_def xm_wait_final_def xm_read_def hears_def
        s3_def Let_def TRANSFER_EOT_TIMEOUT_def)
  ultimately have "xm_exec img [quiet, hears ACK] s2 =
      Inr ([[EOT]], s3\<lparr>inbound := ACK, returned_size := 1, transmit_state := XT_COMPLETE\<rparr>)"
    by simp
  moreover have "willing n = [quiet, hears CHAR_C] @ (concat (replicate n one_block) @ [quiet, hears ACK])"
    by (simp add: willing_def)
  ultimately show ?thesis using start s2(1) by (simp only: xm_exec_append cbind_simps prod.case) simp
qed

text \<open>A receiver that refuses the block: the transmitter writes it eleven times and aborts.\<close>

definition refused :: "xm_in list" where "refused = [quiet, hears NACK, quiet]"

lemma refused_exec:
  assumes at: "xm_at k s" "transmit_state s = XT_WRITE_BLOCK" "write_block_timer s = 0" "has_packet s"
    and sz: "payload_size s div XMODEM_BLOCK_SIZE \<noteq> 0"
  shows "\<exists>s'. xm_exec img refused s = Inr ([xm_frame img k], s') \<and> has_packet s' \<and>
     payload_size s' = payload_size s \<and>
     (if write_block_retries s < 10
      then xm_at k s' \<and> transmit_state s' = XT_WRITE_BLOCK \<and> write_block_timer s' = 0 \<and>
           write_block_retries s' = write_block_retries s + 1
      else transmit_state s' = XT_ABORT_TRANSFER)"
proof -
  have f: "xm_packet (current_packet_id s) (img (payload_buffer_position s)) = xm_frame img k"
    using at(1) by (simp add: xm_at_def xm_frame_def)
  define s1 where "s1 = s\<lparr>write_success := True, current_packet_id := current_packet_id s + 1,
        send_packet_idx := send_packet_idx s + 1,
        payload_buffer_position := payload_buffer_position s + XMODEM_BLOCK_SIZE,
        transmit_state := XT_WAIT_FOR_C_ACK, stopwatch := 0\<rparr>"
  define s2 where "s2 = s1\<lparr>inbound := NACK, returned_size := 1, transmit_state := XT_WRITE_BLOCK_FAILED\<rparr>"
  have st1: "Xmodem_Server_top img quiet s = Inr (xm_frame img k, s1)"
    using at sz f by (simp add: Xmodem_Server_top_def xm_write_block_def quiet_def s1_def
        TRANSFER_WRITE_BLOCK_TIMEOUT_def Let_def)
  have st2: "Xmodem_Server_top img (hears NACK) s1 = Inr ([], s2)"
    by (simp add: Xmodem_Server_top_def xm_wait_for_ack_def xm_read_def hears_def s2_def s1_def Let_def
        TRANSFER_ACK_TIMEOUT_def NACK_def ACK_def)
  have st3: "Xmodem_Server_top img quiet s2 = Inr ([], xm_write_failed quiet s2)"
    by (simp add: Xmodem_Server_top_def s2_def)
  have run: "xm_exec img refused s = Inr ([xm_frame img k], xm_write_failed quiet s2)"
    by (simp add: refused_def st1 st2 st3 xm_frame_def xm_packet_ne)
  have "has_packet s2" "payload_size s2 = payload_size s" "write_block_retries s2 = write_block_retries s"
    "current_packet_id s2 = current_packet_id s + 1" "send_packet_idx s2 = send_packet_idx s + 1"
    "payload_buffer_position s2 = payload_buffer_position s + XMODEM_BLOCK_SIZE"
    using at(4) by (simp_all add: s1_def s2_def)
  then show ?thesis
    using run at(1) by (simp add: xm_write_failed_def xm_at_def quiet_def WRITE_BLOCK_MAX_RETRIES_def not_less)
qed

lemma refused_runs:
  assumes "xm_at k s" "transmit_state s = XT_WRITE_BLOCK" "write_block_timer s = 0" "has_packet s"
    and "payload_size s div XMODEM_BLOCK_SIZE \<noteq> 0" "unat (write_block_retries s) + m = 10"
  shows "\<exists>s'. xm_exec img (concat (replicate (Suc m) refused)) s = Inr (replicate (Suc m) (xm_frame img k), s') \<and>
     transmit_state s' = XT_ABORT_TRANSFER"
  using assms
proof (induction m arbitrary: s)
  case 0
  then have "\<not> write_block_retries s < 10" by (simp add: word_less_nat_alt)
  then show ?case using refused_exec[OF 0(1-5), of img] by auto
next
  case (Suc m)
  then have lt: "write_block_retries s < 10" by (simp add: word_less_nat_alt)
  obtain s1 where s1: "xm_exec img refused s = Inr ([xm_frame img k], s1)" "has_packet s1"
      "payload_size s1 = payload_size s" "xm_at k s1" "transmit_state s1 = XT_WRITE_BLOCK"
      "write_block_timer s1 = 0" "write_block_retries s1 = write_block_retries s + 1"
    using refused_exec[OF Suc.prems(1-5), of img] lt by auto
  have "unat (write_block_retries s1) + m = 10" using s1(7) Suc.prems(6) by (simp add: unat_word_ariths)
  then obtain s2 where "xm_exec img (concat (replicate (Suc m) refused)) s1 =
        Inr (replicate (Suc m) (xm_frame img k), s2)" "transmit_state s2 = XT_ABORT_TRANSFER"
    using Suc.IH[of s1] s1 Suc.prems(5) by auto
  then show ?case using s1(1) by (subst replicate_Suc) (simp add: xm_exec_append)
qed

section \<open>Properties\<close>

text \<open>C17: In every run in which the UART accepts each block within the write timeout, whatever is
  received and however the timers go, the blocks acknowledged so far are exactly the first
  blocks of the image, once each and in order, framed with STX, their number, its complement and
  the CRC; when the transmitter reports completion or sends EOT, all of them have been.\<close>

theorem xmodem_acked_in_order:
  assumes "xm_run True img (of_nat (1024 * n)) s lst del" "0 < n" "1024 * n < 2 ^ 32"
  shows "(\<exists>k \<le> n. del = map (xm_frame img) [0..<k]) \<and>
    (transmit_state s = XT_WRITE_EOT \<or> transmit_state s = XT_COMPLETE \<longrightarrow> del = map (xm_frame img) [0..<n])"
  using xm_run_inv[OF assms] xm_inv_prefix[of img n "transmit_state s" s lst del] by auto

definition fresh :: xm_server where
  "fresh = \<lparr>transmit_state = XT_UNKNOWN, has_packet = False, inbound = 0, returned_size = 0,
     write_success = False, payload_buffer_position = 0, payload_size = 0, current_packet_id = 0,
     write_block_retries = 0, write_block_timer = 0, write_etb_retries = 0, send_packet_idx = 0,
     stopwatch = 0, stopwatch_eot = 0, stopwatch_etb = 0\<rparr>"

lemma xmodem_acked_in_order_witness:
  "\<exists>s. xm_run True (\<lambda>p. replicate 1024 7) 2048 s [] [] \<and> transmit_state s = XT_INITIAL
     \<and> (\<exists>k \<le> 2. [] = map (xm_frame (\<lambda>p. replicate 1024 7)) [0..<k])"
proof -
  obtain s where i: "xmodem_transmit_init True True 2048 fresh = (True, s)" "transmit_state s = XT_INITIAL"
    by (simp add: xmodem_transmit_init_def fresh_def XMODEM_BLOCK_SIZE_def Let_def)
  then have "xm_run True (\<lambda>p. replicate 1024 7) (of_nat (1024 * 2)) s [] []" by (auto intro: xm_start)
  with i xmodem_acked_in_order[of "\<lambda>p. replicate 1024 7" 2 s "[]" "[]"] show ?thesis by auto
qed

text \<open>With a willing receiver the transfer of any non-empty image completes: after the
  announcing C, one write and one ACK per block and the ACK of EOT the transmitter is in its
  completed state and has sent the frames of all blocks in order followed by EOT.\<close>

theorem xmodem_willing_completes:
  assumes "xmodem_transmit_init True True (of_nat (1024 * n)) s0 = (True, s)" "0 < n" "1024 * n < 2 ^ 32"
  shows "\<exists>s'. xm_exec img (willing n) s = Inr (map (xm_frame img) [0..<n] @ [[EOT]], s') \<and>
     transmit_state s' = XT_COMPLETE"
  using assms by (rule willing_exec)

lemma xmodem_willing_completes_witness:
  "\<exists>s s'. xmodem_transmit_init True True 3072 fresh = (True, s) \<and>
     xm_exec (\<lambda>p. replicate 1024 7) (willing 3) s =
       Inr (map (xm_frame (\<lambda>p. replicate 1024 7)) [0..<3] @ [[EOT]], s') \<and> transmit_state s' = XT_COMPLETE"
proof -
  obtain s where i: "xmodem_transmit_init True True 3072 fresh = (True, s)"
    by (simp add: xmodem_transmit_init_def fresh_def XMODEM_BLOCK_SIZE_def Let_def)
  then show ?thesis using xmodem_willing_completes[of 3 fresh s "\<lambda>p. replicate 1024 7"] by auto
qed

text \<open>Over all runs, write timeouts and any receiver included, a block is written again at most
  ten times in a row, and packet number, packet index and image position never drift apart.\<close>

theorem xmodem_counters_consistent:
  assumes "xm_run False img sz s lst del"
  shows "write_block_retries s \<le> 10 \<and>
    (transmit_state s \<noteq> XT_INITIAL \<and> transmit_state s \<noteq> XT_WAIT_FOR_C \<and> transmit_state s \<noteq> XT_ABORT_TRANSFER \<longrightarrow>
      (\<exists>z :: int. current_packet_id s = of_int (z + 1) \<and> send_packet_idx s = of_int (z + 1) \<and>
         payload_buffer_position s = of_int (1024 * z)))"
proof -
  from assms have "counters_ok s"
  proof induction
    case (xm_start s0 s)
    then show ?case
      by (auto simp: xmodem_transmit_init_def Let_def counters_ok_def WRITE_BLOCK_MAX_RETRIES_def
          split: if_splits)
  next
    case (xm_step s lst del i out s')
    then show ?case using counters_ok_step by blast
  qed
  then show ?thesis by (auto simp: counters_ok_def xm_counters_def WRITE_BLOCK_MAX_RETRIES_def)
qed

lemma xmodem_counters_consistent_witness:
  "\<exists>s. xm_run False (\<lambda>p. []) 2048 s [] [] \<and> write_block_retries s \<le> 10"
proof -
  obtain s where "xmodem_transmit_init True True 2048 fresh = (True, s)"
    by (simp add: xmodem_transmit_init_def fresh_def XMODEM_BLOCK_SIZE_def Let_def)
  then have "xm_run False (\<lambda>p. []) 2048 s [] []" by (rule xm_start)
  with xmodem_counters_consistent[of "\<lambda>p. []" 2048 s "[]" "[]"] show ?thesis by auto
qed

text \<open>When the UART stays blocked past the write timeout the transmitter steps back although the
  block was never written: from any block with retries left it returns to the block before it,
  which the receiver has already acknowledged, and from the first block to number 0 and
  position 4294966272, outside every image.\<close>

theorem xmodem_write_timeout_rewinds:
  assumes "transmit_state s = XT_WRITE_BLOCK" "now i > write_block_timer s + 2000" "write_block_retries s < 10"
  shows "\<exists>s'. xm_exec img [i, i, i] s = Inr ([], s') \<and> transmit_state s' = XT_WRITE_BLOCK \<and>
     current_packet_id s' = current_packet_id s - 1 \<and>
     payload_buffer_position s' = payload_buffer_position s - 1024 \<and>
     (payload_buffer_position s = 0 \<longrightarrow> payload_buffer_position s' = 4294966272)"
  using assms
  by (simp add: Xmodem_Server_top_def xm_write_block_def xm_write_failed_def xm_times
      WRITE_BLOCK_MAX_RETRIES_def XMODEM_BLOCK_SIZE_def)

lemma xmodem_write_timeout_rewinds_witness:
  "\<exists>s'. xm_exec (\<lambda>p. []) (replicate 3 \<lparr>now = 2001, rx = None, uart_ok = False\<rparr>)
     (fresh\<lparr>transmit_state := XT_WRITE_BLOCK, current_packet_id := 1, send_packet_idx := 1\<rparr>) = Inr ([], s')
     \<and> current_packet_id s' = 0 \<and> payload_buffer_position s' = 4294966272"
  using xmodem_write_timeout_rewinds[of "fresh\<lparr>transmit_state := XT_WRITE_BLOCK, current_packet_id := 1,
      send_packet_idx := 1\<rparr>" "\<lparr>now = 2001, rx = None, uart_ok = False\<rparr>" "\<lambda>p. []"]
  by (auto simp: fresh_def numeral_3_eq_3 simp del: xm_exec.simps)

text \<open>An empty image passes \<open>xmodem_transmit_init\<close>, and the first block written divides by the
  number of blocks.\<close>

lemma xmodem_empty_image_divides_by_zero:
  "xmodem_transmit_init True True 0 s0 = (True, s) \<Longrightarrow>
   xm_exec img [quiet, hears CHAR_C, quiet] s = Inl Division_By_Zero"
  by (auto simp: xmodem_transmit_init_def Let_def Xmodem_Server_top_def xm_initial_def xm_wait_for_c_def
      xm_read_def quiet_def hears_def xm_write_block_def xm_times)

end
