(* ===== verification/Xmodem_Client.thy ===== *)
theory Xmodem_Client
  imports Xmodem_Transmitter
begin

text \<open>
  The receiving side of the XMODEM firmware transfer, \<open>iot_xmodem/xmodem_client.c\<close>: start and exit, the
  frame parser \<open>xmodem_unpack\<close>, the handler \<open>xmodem_client\<close> that collects four kilobytes and writes them to
  the image flash or to the boot loader's update, the check sum over the stored image, and the
  protocol steps of \<open>vXmodemClient\<close>.  Flash, boot loader, allocation and the versions in the register
  tables are the record \<open>xc_env\<close>, acting on an outside world \<open>'w\<close>.  Not modelled: the glue that starts
  the next transfer after a completed one, and the registers that report errors.
\<close>

section \<open>Constants and state\<close>

definition XMODEM_SOH :: u8 where "XMODEM_SOH = 0x01"
definition XMODEM_STX :: u8 where "XMODEM_STX = 0x02"
definition XMODEM_ETX :: u8 where "XMODEM_ETX = 0x03"
definition XMODEM_EOT :: u8 where "XMODEM_EOT = 0x04"
definition XMODEM_ACK :: u8 where "XMODEM_ACK = 0x06"
definition XMODEM_NAK :: u8 where "XMODEM_NAK = 0x15"
definition XMODEM_CAN :: u8 where "XMODEM_CAN = 0x18"
definition XMODEM_CRC :: u8 where "XMODEM_CRC = 0x43"

definition BLOCK_BUFFER_SIZE :: nat where "BLOCK_BUFFER_SIZE = 4096"
definition DATA_LENGTH_128 :: nat where "DATA_LENGTH_128 = 128"
definition DATA_LENGTH_1024 :: nat where "DATA_LENGTH_1024 = 1024"
definition FILL_LENGTH :: nat where "FILL_LENGTH = 5"
definition JUMP_BYTES :: u32 where "JUMP_BYTES = 20"
definition FLASH_SEC_SIZE :: u32 where "FLASH_SEC_SIZE = 4096"
definition IMAGE_FLASH_AREA_ADDRESS :: u32 where "IMAGE_FLASH_AREA_ADDRESS = 8192"
definition IMAGE_FLASH_AREA_MAX_LEN :: u32 where
  "IMAGE_FLASH_AREA_MAX_LEN = 0x280000 - IMAGE_FLASH_AREA_ADDRESS"

definition OTA_ERR_SIZE :: u8 where "OTA_ERR_SIZE = 1"
definition OTA_ERR_FLASH_ERASE :: u8 where "OTA_ERR_FLASH_ERASE = 2"
definition OTA_ERR_FLASH_WRITE :: u8 where "OTA_ERR_FLASH_WRITE = 3"
definition OTA_ERR_FILE :: u8 where "OTA_ERR_FILE = 5"
definition OTA_ERR_CRC32 :: u8 where "OTA_ERR_CRC32 = 7"
definition OTA_ERR_NO_RESP :: u8 where "OTA_ERR_NO_RESP = 10"
definition OTA_ERR_MEMONY :: u8 where "OTA_ERR_MEMONY = 11"
definition OTA_ERR_ABORT :: u8 where "OTA_ERR_ABORT = 12"
definition OTA_ERR_FILE_TYPE :: u8 where "OTA_ERR_FILE_TYPE = 13"

definition OTA_OBJECT_CAN_OTA :: u8 where "OTA_OBJECT_CAN_OTA = 2"
definition OTA_OBJECT_LCD :: u8 where "OTA_OBJECT_LCD = 3"
definition FILE_IOT :: u8 where "FILE_IOT = 0"
definition FILE_IOT_LCD :: u8 where "FILE_IOT_LCD = 11"
definition FILE_IOT_LCD2 :: u8 where "FILE_IOT_LCD2 = 12"
definition CHANNEL_UNKOWN :: u8 where "CHANNEL_UNKOWN = 0xFF"

lemmas xc_bytes = XMODEM_SOH_def XMODEM_STX_def XMODEM_ETX_def XMODEM_EOT_def XMODEM_ACK_def
  XMODEM_NAK_def XMODEM_CAN_def XMODEM_CRC_def
lemmas xc_sizes = BLOCK_BUFFER_SIZE_def DATA_LENGTH_128_def DATA_LENGTH_1024_def FILL_LENGTH_def
  IMAGE_FLASH_AREA_ADDRESS_def IMAGE_FLASH_AREA_MAX_LEN_def

text \<open>\<open>gXmodem_Status\<close> and the static counters of the file.\<close>

record xmodem_struct =
  xs_step :: u8
  xs_exit :: u8
  xs_errcode :: u8
  xs_block_seq :: u8
  xs_is_esp_ota :: u8
  xs_system_restart :: u8
  xs_target_id :: u8
  xs_file_type :: u8
  xs_version :: u32
  xs_file_size :: u16
  xs_used_chl :: u8
  xs_time_count :: u16
  xs_resend_count :: u16
  xs_paylen :: u16
  xs_payload :: "u8 list option"
  xs_timer :: bool
  count_1k :: u16
  ota_data_len :: u32
  pre_packet_id :: u8

record 'w xc_env =
  image_write :: "u32 \<Rightarrow> u8 list \<Rightarrow> 'w \<Rightarrow> bool \<times> 'w"
  image_read :: "u32 \<Rightarrow> nat \<Rightarrow> 'w \<Rightarrow> u8 list option"
  image_erase :: "u32 \<Rightarrow> u32 \<Rightarrow> 'w \<Rightarrow> bool \<times> 'w"
  ota_begin :: "'w \<Rightarrow> bool \<times> 'w"
  ota_write :: "u8 list \<Rightarrow> 'w \<Rightarrow> bool \<times> 'w"
  ota_end :: "'w \<Rightarrow> bool \<times> 'w"
  ota_abort :: "'w \<Rightarrow> bool \<times> 'w"
  buffer_alloc_ok :: bool
  crc_alloc_ok :: bool
  timer_create_ok :: bool
  TypeCnt :: u8
  own_software_ver :: u32
  dcdc_software_ver :: u32

section \<open>Start and exit\<close>

definition dev_ota_begin :: "'w xc_env \<Rightarrow> u16 \<Rightarrow> xmodem_struct \<Rightarrow> 'w \<Rightarrow> bool \<times> xmodem_struct \<times> 'w" where
  "dev_ota_begin env sz c w =
     (let file_len = ucast sz * 1024 :: u32;
          len = (file_len + FLASH_SEC_SIZE - 1) div FLASH_SEC_SIZE * FLASH_SEC_SIZE
      in if len > IMAGE_FLASH_AREA_MAX_LEN then (False, c\<lparr>xs_errcode := OTA_ERR_SIZE\<rparr>, w)
         else case image_erase env IMAGE_FLASH_AREA_ADDRESS len w of
           (ok, w') \<Rightarrow> if ok then (True, c, w') else (False, c\<lparr>xs_errcode := OTA_ERR_FLASH_ERASE\<rparr>, w'))"

text \<open>The choice of the target of the image: this board, another board of its kind, or a file.\<close>

definition xc_target :: "'w xc_env \<Rightarrow> xmodem_struct \<Rightarrow> 'w \<Rightarrow> bool \<times> xmodem_struct \<times> 'w" where
  "xc_target env c w =
     (if xs_file_type c = FILE_IOT then
        (if own_software_ver env div 100 = xs_version c div 100 then
           (case ota_begin env w of (ok, w') \<Rightarrow> (ok, c\<lparr>xs_is_esp_ota := 1\<rparr>, w'))
         else if dcdc_software_ver env div 100 = xs_version c div 100 then dev_ota_begin env (xs_file_size c) c w
         else (False, c\<lparr>xs_errcode := OTA_ERR_FILE\<rparr>, w))
      else dev_ota_begin env (xs_file_size c) c w)"

definition vXmodemClientInit ::
    "'w xc_env \<Rightarrow> u8 \<Rightarrow> u8 \<Rightarrow> u16 \<Rightarrow> u32 \<Rightarrow> u8 \<Rightarrow> xmodem_struct \<Rightarrow> 'w \<Rightarrow> bool \<times> xmodem_struct \<times> 'w" where
  "vXmodemClientInit env target file_type sz ver channel c w =
     (let c1 = c\<lparr>xs_file_type := file_type, xs_file_size := sz, xs_version := ver\<rparr> in
      if file_type \<ge> TypeCnt env then (False, c1\<lparr>xs_exit := 1, xs_errcode := OTA_ERR_FILE_TYPE\<rparr>, w)
      else
        let c2 = c1\<lparr>xs_paylen := 0,
                    xs_payload := (case xs_payload c of Some b \<Rightarrow> Some b
                       | None \<Rightarrow> if buffer_alloc_ok env then Some (replicate BLOCK_BUFFER_SIZE 0) else None)\<rparr>
        in if xs_payload c2 = None then (False, c2\<lparr>xs_exit := 1, xs_errcode := OTA_ERR_MEMONY\<rparr>, w)
           else case xc_target env (c2\<lparr>xs_exit := 0, xs_errcode := 0\<rparr>) w of
             (False, c3, w') \<Rightarrow> (False, c3\<lparr>xs_exit := 1\<rparr>, w')
           | (True, c3, w') \<Rightarrow>
               if \<not> xs_timer c3 \<and> \<not> timer_create_ok env
               then (False, c3\<lparr>xs_exit := 1, xs_errcode := OTA_ERR_MEMONY\<rparr>, w')
               else (True, c3\<lparr>xs_timer := True, xs_target_id := target, xs_block_seq := 1,
                       xs_used_chl := channel, xs_step := 0, xs_resend_count := 0, xs_time_count := 0\<rparr>, w'))"

definition vXmodemTimeout :: "xmodem_struct \<Rightarrow> xmodem_struct" where
  "vXmodemTimeout c = c\<lparr>xs_time_count := xs_time_count c + 1000\<rparr>"

definition vXmodemClientExit :: "u8 \<Rightarrow> xmodem_struct \<Rightarrow> xmodem_struct" where
  "vXmodemClientExit channel c =
     (if xs_used_chl c = channel
      then c\<lparr>xs_payload := None, xs_timer := False, xs_used_chl := CHANNEL_UNKOWN, xs_is_esp_ota := 0\<rparr>
      else c)"

definition esp_ota_is_doing :: "xmodem_struct \<Rightarrow> u8" where "esp_ota_is_doing c = xs_is_esp_ota c"
definition xmodem_client_is_doing :: "xmodem_struct \<Rightarrow> u8" where "xmodem_client_is_doing c = xs_used_chl c"

section \<open>Frames\<close>

definition xmodem_unpack :: "xmodem_struct \<Rightarrow> u8 list \<Rightarrow> nat \<Rightarrow> (u8 \<times> xmodem_struct) cres" where
  "xmodem_unpack c p len = need (len + 5) p
     (if unat (p ! 1) + unat (p ! 2) \<noteq> 0xFF then Inr (XMODEM_NAK, c)
      else if xs_block_seq c \<noteq> p ! 1 then Inr (XMODEM_NAK, c)
      else if CalcCrc16_Xmodem (drop 3 p) (of_nat len) \<noteq> mk16 (p ! (len + 3)) (p ! (len + 4))
        then Inr (XMODEM_NAK, c)
      else case xs_payload c of None \<Rightarrow> Inr (XMODEM_CAN, c)
      | Some b \<Rightarrow>
          let n = unat (xs_paylen c) in
          if n + len > BLOCK_BUFFER_SIZE then Inr (XMODEM_NAK, c)
          else if n + len > length b then Inl Out_Of_Bounds_Write
          else Inr (XMODEM_ACK,
                 c\<lparr>xs_payload := Some (take n b @ take len (drop 3 p) @ drop (n + len) b),
                   xs_paylen := xs_paylen c + of_nat len, xs_block_seq := xs_block_seq c + 1\<rparr>))"

text \<open>A full buffer is written out before the next frame is taken; \<open>Some r\<close> ends the handler with the
  answer \<open>r\<close>.  \<open>chk\<close>: the STX branch tests the buffer pointer, the SOH branch does not.\<close>

definition xc_flush ::
    "bool \<Rightarrow> 'w xc_env \<Rightarrow> xmodem_struct \<Rightarrow> 'w \<Rightarrow> (u8 option \<times> xmodem_struct \<times> 'w) cres" where
  "xc_flush chk env c w =
     (if unat (xs_paylen c) \<noteq> BLOCK_BUFFER_SIZE then Inr (None, c, w)
      else let fail = c\<lparr>xs_errcode := OTA_ERR_FLASH_WRITE\<rparr> in
      if xs_is_esp_ota c = 1 then
        (case xs_payload c of
           None \<Rightarrow> if chk then Inr (Some XMODEM_CAN, fail, w) else Inl Null_Call
         | Some b \<Rightarrow> (case ota_write env (take BLOCK_BUFFER_SIZE b) w of
             (ok, w') \<Rightarrow> if ok then Inr (None, c\<lparr>xs_paylen := 0\<rparr>, w') else Inr (Some XMODEM_CAN, fail, w')))
      else if ota_data_len c \<ge> IMAGE_FLASH_AREA_MAX_LEN - of_nat BLOCK_BUFFER_SIZE
        then Inr (Some XMODEM_CAN, c\<lparr>xs_errcode := OTA_ERR_SIZE\<rparr>, w)
      else (case xs_payload c of None \<Rightarrow> Inl Null_Call
         | Some b \<Rightarrow> (case image_write env (IMAGE_FLASH_AREA_ADDRESS + ota_data_len c) (take BLOCK_BUFFER_SIZE b) w of
             (ok, w') \<Rightarrow>
               if ok then Inr (None, c\<lparr>ota_data_len := ota_data_len c + ucast (xs_paylen c), xs_paylen := 0\<rparr>, w')
               else Inr (Some XMODEM_CAN, fail, w'))))"

text \<open>The progress counter; the percentage divides by the announced size.\<close>

definition xc_progress :: "u8 \<Rightarrow> xmodem_struct \<Rightarrow> xmodem_struct cres" where
  "xc_progress pid c =
     (if xs_file_size c = 0 then Inl Division_By_Zero
      else Inr (if pid \<noteq> pre_packet_id c then c\<lparr>count_1k := count_1k c + 1, pre_packet_id := pid\<rparr> else c))"

definition xc_data ::
    "bool \<Rightarrow> nat \<Rightarrow> 'w xc_env \<Rightarrow> xmodem_struct \<Rightarrow> u8 list \<Rightarrow> 'w \<Rightarrow> (u8 \<times> xmodem_struct \<times> 'w) cres" where
  "xc_data chk len env c p w =
     (if length p \<noteq> len + FILL_LENGTH then Inr (XMODEM_NAK, c, w)
      else cbind (xc_flush chk env c w) (\<lambda>(r, c1, w1).
        case r of Some resp \<Rightarrow> Inr (resp, c1, w1)
        | None \<Rightarrow> cbind (xc_progress (p ! 1) c1) (\<lambda>c2.
            cbind (xmodem_unpack c2 p len) (\<lambda>(resp, c3). Inr (resp, c3, w1)))))"

section \<open>End of the transfer\<close>

fun crc_tail :: "nat \<Rightarrow> 'w xc_env \<Rightarrow> 'w \<Rightarrow> u32 \<Rightarrow> u32 \<Rightarrow> u32 \<times> u32" where
  "crc_tail 0 env w endAddr remaining = (0, remaining)"
| "crc_tail (Suc n) env w endAddr remaining =
     (case image_read env endAddr 1 w of
        None \<Rightarrow> (0, remaining)
      | Some bs \<Rightarrow>
          if bs ! 0 \<noteq> 0x1A then
            (case image_read env (endAddr - JUMP_BYTES + 1) 4 w of None \<Rightarrow> 0 | Some cs \<Rightarrow> get32 cs 0,
             remaining - JUMP_BYTES)
          else crc_tail n env w (endAddr - 1) (remaining - 1))"

function image_crc_loop :: "'w xc_env \<Rightarrow> 'w \<Rightarrow> u32 \<Rightarrow> nat \<Rightarrow> u32 \<Rightarrow> u32" where
  "image_crc_loop env w addr remaining crc =
     (if remaining = 0 then crc
      else let sz = (if remaining > 1024 then 1024 else remaining) in
        case image_read env addr sz w of
          None \<Rightarrow> crc
        | Some bs \<Rightarrow> image_crc_loop env w (addr + of_nat sz) (remaining - sz) (calcu_crc32 crc bs))"
  by pat_completeness auto

termination image_crc_loop
  by (relation "measure (\<lambda>(env, w, addr, remaining, crc). remaining)") (auto simp: Let_def split: if_splits)

declare image_crc_loop.simps [simp del]

definition xmodem_ota_crc_verify :: "'w xc_env \<Rightarrow> u32 \<Rightarrow> u32 \<Rightarrow> 'w \<Rightarrow> bool" where
  "xmodem_ota_crc_verify env addr len w =
     (case crc_tail 2048 env w (addr + len - 1) len of
        (stored, remaining) \<Rightarrow>
          crc_alloc_ok env \<and> stored = bswap32 (image_crc_loop env w addr (unat remaining) 0xFFFFFFFF))"

text \<open>What is left in the buffer at EOT; \<open>True\<close> ends the handler.\<close>

definition xc_last_write ::
    "'w xc_env \<Rightarrow> xmodem_struct \<Rightarrow> 'w \<Rightarrow> (bool \<times> u8 \<times> xmodem_struct \<times> 'w) cres" where
  "xc_last_write env c w =
     (if xs_paylen c = 0 then Inr (False, XMODEM_ACK, c, w)
      else case xs_payload c of None \<Rightarrow> Inl Null_Call
      | Some b \<Rightarrow>
          let d = take (unat (xs_paylen c)) b; fail = c\<lparr>xs_errcode := OTA_ERR_FLASH_WRITE\<rparr> in
          if xs_is_esp_ota c = 1 then
            (case ota_write env d w of
               (ok, w') \<Rightarrow> Inr (False, if ok then XMODEM_ACK else XMODEM_CAN,
                               (if ok then c else fail)\<lparr>xs_paylen := 0\<rparr>, w'))
          else if ota_data_len c \<ge> IMAGE_FLASH_AREA_MAX_LEN - of_nat BLOCK_BUFFER_SIZE
            then Inr (True, XMODEM_CAN, c\<lparr>xs_errcode := OTA_ERR_SIZE\<rparr>, w)
          else (case image_write env (IMAGE_FLASH_AREA_ADDRESS + ota_data_len c) d w of
                  (ok, w') \<Rightarrow>
                    if ok then Inr (False, XMODEM_ACK,
                      c\<lparr>ota_data_len := ota_data_len c + ucast (xs_paylen c), xs_paylen := 0\<rparr>, w')
                    else Inr (True, XMODEM_CAN, fail, w')))"

definition xc_eot :: "'w xc_env \<Rightarrow> xmodem_struct \<Rightarrow> u8 list \<Rightarrow> 'w \<Rightarrow> (u8 \<times> xmodem_struct \<times> 'w) cres" where
  "xc_eot env c p w =
     (if length p \<noteq> 1 then Inr (0, c, w)
      else cbind (xc_last_write env c w) (\<lambda>(stop, resp, c1, w1).
        if stop then Inr (resp, c1, w1)
        else if xs_is_esp_ota c1 = 1 then
          (case ota_end env w1 of
             (ok, w2) \<Rightarrow> if ok then Inr (resp, c1\<lparr>xs_system_restart := 1\<rparr>, w2)
                        else Inr (XMODEM_CAN, c1\<lparr>xs_errcode := OTA_ERR_FILE\<rparr>, w2))
        else if xmodem_ota_crc_verify env IMAGE_FLASH_AREA_ADDRESS (ota_data_len c1) w1 then
          Inr (resp, c1\<lparr>xs_exit := (if xs_file_type c1 = FILE_IOT_LCD \<or> xs_file_type c1 = FILE_IOT_LCD2
                                     then OTA_OBJECT_LCD else OTA_OBJECT_CAN_OTA)\<rparr>, w1)
        else Inr (XMODEM_CAN, c1\<lparr>xs_errcode := OTA_ERR_CRC32\<rparr>, w1)))"

definition xc_etx :: "'w xc_env \<Rightarrow> xmodem_struct \<Rightarrow> u8 list \<Rightarrow> 'w \<Rightarrow> u8 \<times> xmodem_struct \<times> 'w" where
  "xc_etx env c p w =
     (if length p \<noteq> 1 then (0, c, w)
      else let c1 = c\<lparr>xs_paylen := 0, xs_exit := 1\<rparr> in
        if xs_is_esp_ota c = 1 then
          (case ota_abort env w of (ok, w') \<Rightarrow> (if ok then XMODEM_ACK else XMODEM_CAN, c1, w'))
        else (XMODEM_ACK, c1, w))"

section \<open>The handlers\<close>

definition xmodem_client ::
    "'w xc_env \<Rightarrow> xmodem_struct \<Rightarrow> u8 list \<Rightarrow> 'w \<Rightarrow> (u8 \<times> xmodem_struct \<times> 'w) cres" where
  "xmodem_client env c p w =
     (if p = [] then Inr (0, c, w)
      else let c1 = c\<lparr>xs_system_restart := 0\<rparr> in
        if p ! 0 = XMODEM_SOH then xc_data False DATA_LENGTH_128 env c1 p w
        else if p ! 0 = XMODEM_STX then xc_data True DATA_LENGTH_1024 env c1 p w
        else if p ! 0 = XMODEM_ETX then Inr (xc_etx env c1 p w)
        else if p ! 0 = XMODEM_EOT then xc_eot env c1 p w
        else Inr (0, c1, w))"

definition xc_respond :: "u8 \<Rightarrow> xmodem_struct \<Rightarrow> xmodem_struct" where
  "xc_respond resp c =
     (if resp = 0 then c
      else let c1 = c\<lparr>xs_time_count := 0\<rparr> in
        if resp = XMODEM_ACK then c1\<lparr>xs_resend_count := 0\<rparr>
        else if resp = XMODEM_CAN then
          c1\<lparr>xs_resend_count := 0, xs_exit := 1,
             xs_errcode := (if xs_errcode c = 0 then OTA_ERR_ABORT else xs_errcode c)\<rparr>
        else c1\<lparr>xs_resend_count := xs_resend_count c + 1\<rparr>)"

definition xc_receive ::
    "'w xc_env \<Rightarrow> xmodem_struct \<Rightarrow> u8 list \<Rightarrow> 'w \<Rightarrow> (u8 \<times> xmodem_struct \<times> 'w) cres" where
  "xc_receive env c p w =
     cbind (xmodem_client env c p w) (\<lambda>(resp, c', w'). Inr (resp, xc_respond resp c', w'))"

text \<open>The protocol steps of \<open>vXmodemClient\<close> on the channel of the transfer, while it is not over; the
  empty list stands for no data.\<close>

definition vXmodemClient ::
    "'w xc_env \<Rightarrow> xmodem_struct \<Rightarrow> u8 list \<Rightarrow> 'w \<Rightarrow> (u8 \<times> xmodem_struct \<times> 'w) cres" where
  "vXmodemClient env c p w =
     (if xs_resend_count c \<ge> 20 then
        Inr (XMODEM_CAN, c\<lparr>xs_resend_count := 0, xs_exit := 1, xs_errcode := OTA_ERR_NO_RESP\<rparr>, w)
      else if xs_step c = 0 then
        (if p = [] then
           (if xs_time_count c = 0 \<or> xs_time_count c > 3000
            then Inr (XMODEM_CRC, c\<lparr>xs_time_count := 1, xs_resend_count := xs_resend_count c + 1\<rparr>, w)
            else Inr (0, c, w))
         else xc_receive env (c\<lparr>xs_step := 1, xs_time_count := 0, xs_resend_count := 0, count_1k := 0,
                                ota_data_len := 0\<rparr>) p w)
      else if xs_step c = 1 then
        (if p = [] then
           (if xs_time_count c \<ge> 2000
            then Inr (XMODEM_NAK, c\<lparr>xs_resend_count := xs_resend_count c + 1, xs_time_count := 0\<rparr>, w)
            else Inr (0, c, w))
         else xc_receive env c p w)
      else Inr (0, c\<lparr>xs_step := 0\<rparr>, w))"

section \<open>A frame of the transmitter at the receiver\<close>

text \<open>The image flash as a byte memory in which erased areas can be written and read back.\<close>

definition mem_write :: "nat \<Rightarrow> u8 list \<Rightarrow> (nat \<Rightarrow> u8) \<Rightarrow> nat \<Rightarrow> u8" where
  "mem_write a d w = (\<lambda>i. if a \<le> i \<and> i < a + length d then d ! (i - a) else w i)"

definition flash_env :: "(nat \<Rightarrow> u8) xc_env" where
  "flash_env = \<lparr>image_write = (\<lambda>a d w. (True, mem_write (unat a) d w)),
     image_read = (\<lambda>a n w. Some (map (\<lambda>i. w (unat a + i)) [0..<n])), image_erase = (\<lambda>a n w. (True, w)),
     ota_begin = (\<lambda>w. (True, w)), ota_write = (\<lambda>d w. (True, w)), ota_end = (\<lambda>w. (True, w)),
     ota_abort = (\<lambda>w. (True, w)), buffer_alloc_ok = True, crc_alloc_ok = True, timer_create_ok = True,
     TypeCnt = 15, own_software_ver = 0, dcdc_software_ver = 0\<rparr>"

lemma flash_env_simps [simp]:
  "image_write flash_env a d w = (True, mem_write (unat a) d w)"
  "crc_alloc_ok flash_env" "image_erase flash_env a n w = (True, w)" "buffer_alloc_ok flash_env"
  "timer_create_ok flash_env"
  by (simp_all add: flash_env_def)

definition mem_bytes :: "(nat \<Rightarrow> u8) \<Rightarrow> nat \<Rightarrow> nat \<Rightarrow> u8 list" where
  "mem_bytes w a n = map w [a..<a + n]"

lemma length_mem_bytes [simp]: "length (mem_bytes w a n) = n"
  by (simp add: mem_bytes_def)

lemma mem_bytes_write:
  "mem_bytes (mem_write (a + n) d w) a (n + length d) = mem_bytes w a n @ d"
  by (rule nth_equalityI) (auto simp: mem_bytes_def mem_write_def nth_append)

text \<open>The first \<open>k\<close> blocks of an image.\<close>

definition image_bytes :: "(u32 \<Rightarrow> u8 list) \<Rightarrow> nat \<Rightarrow> u8 list" where
  "image_bytes img k = concat (map (\<lambda>j. img (of_nat (1024 * j))) [0..<k])"

lemma image_bytes_Suc: "image_bytes img (Suc k) = image_bytes img k @ img (of_nat (1024 * k))"
  by (simp add: image_bytes_def)

lemma length_image_bytes:
  "(\<And>j. j < k \<Longrightarrow> length (img (of_nat (1024 * j))) = 1024) \<Longrightarrow> length (image_bytes img k) = 1024 * k"
  by (induction k) (simp_all add: image_bytes_Suc, simp add: image_bytes_def)

text \<open>The receiver after \<open>k\<close> accepted blocks: \<open>off\<close> bytes are in the flash, \<open>n\<close> in the buffer.\<close>

definition xc_inv :: "(u32 \<Rightarrow> u8 list) \<Rightarrow> nat \<Rightarrow> xmodem_struct \<Rightarrow> (nat \<Rightarrow> u8) \<Rightarrow> bool" where
  "xc_inv img k c w \<longleftrightarrow>
     xs_step c = 1 \<and> xs_is_esp_ota c \<noteq> 1 \<and> xs_file_size c \<noteq> 0 \<and>
     xs_block_seq c = of_nat (k + 1) \<and>
     (\<exists>b off n. xs_payload c = Some b \<and> length b = 4096 \<and> xs_paylen c = of_nat (1024 * n) \<and> n \<le> 4 \<and>
        ota_data_len c = of_nat (1024 * off) \<and> off + n = k \<and>
        take (1024 * n) b = drop (1024 * off) (image_bytes img k) \<and>
        mem_bytes w 8192 (1024 * off) = take (1024 * off) (image_bytes img k))"

lemma CalcCrc16_Xmodem_bits: "CalcCrc16_Xmodem d len = xmodem_calculate_crc d (ucast len)"
  by (simp add: CalcCrc16_Xmodem_def xmodem_calculate_crc_def crc16_xmodem_step_eq unat_ucast_u16_u32)

lemma unat_of_nat_16: "x < 65536 \<Longrightarrow> unat (of_nat x :: u16) = x"
  by (simp add: unat_of_nat take_bit_nat_eq_self)

lemma unat_of_nat_32: "x < 4294967296 \<Longrightarrow> unat (of_nat x :: u32) = x"
  by (simp add: unat_of_nat take_bit_nat_eq_self)

lemma unpack_frame:
  assumes d: "length d = 1024" and c: "xs_block_seq c = pid" "xs_payload c = Some b" "length b = 4096"
    and n: "xs_paylen c = of_nat (1024 * n)" "n < 4"
  shows "xmodem_unpack c (xm_packet pid d) 1024 =
    Inr (XMODEM_ACK, c\<lparr>xs_payload := Some (take (1024 * n) b @ d @ drop (1024 * (n + 1)) b),
                       xs_paylen := of_nat (1024 * (n + 1)), xs_block_seq := pid + 1\<rparr>)"
proof -
  define crc where "crc = xmodem_calculate_crc d XMODEM_BLOCK_SIZE"
  define p where "p = xm_packet pid d"
  have p: "p = STX # pid # (0xFF - pid) # d @ [hi8 crc, lo8 crc]"
    by (simp add: p_def xm_packet_def crc_def Let_def)
  have idx: "p ! 1 = pid" "p ! 2 = 0xFF - pid" "p ! (1024 + 3) = hi8 crc" "p ! (1024 + 4) = lo8 crc"
    "drop 3 p = d @ [hi8 crc, lo8 crc]" "length p = 1029"
    using d by (simp_all add: p nth_append numeral_2_eq_2 numeral_3_eq_3)
  have s: "unat pid + unat (0xFF - pid) = 255"
  proof -
    have "pid \<le> 0xFF" using unsigned_less[of pid, where 'a = nat] by (simp add: word_le_nat_alt)
    then show ?thesis by (simp add: unat_sub word_le_nat_alt)
  qed
  have crc: "CalcCrc16_Xmodem (d @ [hi8 crc, lo8 crc]) (of_nat 1024) = crc"
    using d by (simp add: CalcCrc16_Xmodem_bits crc_def xmodem_calculate_crc_def XMODEM_BLOCK_SIZE_def)
  have un: "unat (xs_paylen c) = 1024 * n" unfolding n(1) by (rule unat_of_nat_16) (use n(2) in simp)
  have room: "\<not> BLOCK_BUFFER_SIZE < 1024 * (n + 1)" "\<not> length b < 1024 * (n + 1)"
    using n(2) c(3) by (simp_all add: BLOCK_BUFFER_SIZE_def)
  have seq: "\<not> unat pid + unat (0xFF - pid) \<noteq> 255" "\<not> pid \<noteq> pid" "\<not> crc \<noteq> mk16 (hi8 crc) (lo8 crc)"
    using s by simp_all
  have pl: "xs_paylen c + of_nat 1024 = of_nat (1024 * (n + 1))" "1024 * n + 1024 = 1024 * (n + 1)"
    using n(1) by (simp_all add: algebra_simps)
  have tk: "take 1024 (d @ [hi8 crc, lo8 crc]) = d" using d by simp
  have "xmodem_unpack c p 1024 = Inr (XMODEM_ACK, c\<lparr>xs_payload := Some (take (1024 * n) b @ d @ drop (1024 * (n + 1)) b),
      xs_paylen := of_nat (1024 * (n + 1)), xs_block_seq := pid + 1\<rparr>)"
  proof -
    have "need (1024 + 5) p r = r" for r :: "(u8 \<times> xmodem_struct) cres" using idx(6) by simp
    then show ?thesis
      unfolding xmodem_unpack_def Let_def idx(1-5) c(1,2) crc un
      by (simp only: seq room if_False option.case tk pl)
  qed
  then show ?thesis by (simp only: p_def)
qed

text \<open>A full buffer goes to the flash, so that there is room for the next block.\<close>

lemma flush_inv:
  assumes inv: "xc_inv img k c w" and len: "length (image_bytes img k) = 1024 * k"
    and sz: "1024 * k < 2609152 + 4096"
  shows "\<exists>c' w' b off n. xc_flush True flash_env c w = Inr (None, c', w') \<and> xc_inv img k c' w' \<and>
     xs_resend_count c' = xs_resend_count c \<and>
     xs_payload c' = Some b \<and> length b = 4096 \<and> xs_paylen c' = of_nat (1024 * n) \<and> n < 4 \<and>
     ota_data_len c' = of_nat (1024 * off) \<and> off + n = k \<and>
     take (1024 * n) b = drop (1024 * off) (image_bytes img k) \<and>
     mem_bytes w' 8192 (1024 * off) = take (1024 * off) (image_bytes img k)"
proof -
  obtain b off n where b: "xs_payload c = Some b" "length b = 4096" "xs_paylen c = of_nat (1024 * n)" "n \<le> 4"
      "ota_data_len c = of_nat (1024 * off)" "off + n = k"
      "take (1024 * n) b = drop (1024 * off) (image_bytes img k)"
      "mem_bytes w 8192 (1024 * off) = take (1024 * off) (image_bytes img k)"
    using inv by (auto simp: xc_inv_def)
  have un: "unat (xs_paylen c) = 1024 * n" unfolding b(3) by (rule unat_of_nat_16) (use b(4) in simp)
  show ?thesis
  proof (cases "n = 4")
    case False
    then have "xc_flush True flash_env c w = Inr (None, c, w)"
      using un by (simp add: xc_flush_def BLOCK_BUFFER_SIZE_def)
    then show ?thesis using inv b False by (intro exI[of _ c] exI[of _ w] exI[of _ b] exI[of _ off] exI[of _ n]) simp
  next
    case True
    have o: "1024 * off < 2609152" using sz b(6) True by simp
    then have uo: "unat (ota_data_len c) = 1024 * off" unfolding b(5) by (intro unat_of_nat_32) simp
    have lim: "\<not> ota_data_len c \<ge> IMAGE_FLASH_AREA_MAX_LEN - of_nat BLOCK_BUFFER_SIZE"
      using o uo by (simp add: word_le_nat_alt xc_sizes)
    have adr: "unat (IMAGE_FLASH_AREA_ADDRESS + ota_data_len c) = 8192 + 1024 * off"
      using o uo by (simp add: unat_word_ariths xc_sizes)
    have tb: "take BLOCK_BUFFER_SIZE b = b" "b = drop (1024 * off) (image_bytes img k)"
      using b(2,7) True by (simp_all add: BLOCK_BUFFER_SIZE_def)
    let ?w = "mem_write (8192 + 1024 * off) b w"
    let ?c = "c\<lparr>ota_data_len := of_nat (1024 * k), xs_paylen := 0\<rparr>"
    have st: "xs_step c = 1" "xs_is_esp_ota c \<noteq> 1" "xs_file_size c \<noteq> 0"
      "xs_block_seq c = of_nat (k + 1)"
      using inv unfolding xc_inv_def by blast+
    have uc: "ucast (xs_paylen c) = (4096 :: u32)" using b(3) True by simp
    have "ota_data_len c + ucast (xs_paylen c) = of_nat (1024 * k)"
      using b(5,6) True uc by (simp add: algebra_simps) (use b(6) True in \<open>auto simp: algebra_simps\<close>)
    then have "xc_flush True flash_env c w = Inr (None, ?c, ?w)"
      using un True lim adr tb(1) b(1) inv by (simp add: xc_flush_def BLOCK_BUFFER_SIZE_def xc_inv_def)
    moreover have m: "mem_bytes ?w 8192 (1024 * k) = image_bytes img k"
    proof -
      have "1024 * k = 1024 * off + length b" using b(2,6) True by simp
      then show ?thesis using mem_bytes_write[of 8192 "1024 * off" b w] b(8) tb(2)
        by (metis append_take_drop_id)
    qed
    moreover have "xc_inv img k ?c ?w"
      unfolding xc_inv_def using st b(1,2) m len
      by (intro conjI exI[of _ b] exI[of _ k] exI[of _ 0]) simp_all
    ultimately show ?thesis
      using b(1,2) len by (intro exI[of _ ?c] exI[of _ ?w] exI[of _ b] exI[of _ k] exI[of _ 0]) simp
  qed
qed

lemma receive_block:
  assumes inv: "xc_inv img k c w" and len: "\<And>j. j \<le> k \<Longrightarrow> length (img (of_nat (1024 * j))) = 1024"
    and sz: "1024 * k < 2609152 + 4096"
  shows "\<exists>c' w'. xc_receive flash_env c (xm_frame img k) w = Inr (XMODEM_ACK, c', w') \<and> xc_inv img (k + 1) c' w' \<and>
     xs_resend_count c' = 0"
proof -
  define c0 where "c0 = c\<lparr>xs_system_restart := 0\<rparr>"
  have inv0: "xc_inv img k c0 w" using inv by (simp add: xc_inv_def c0_def)
  have l: "length (image_bytes img k) = 1024 * k" using len by (intro length_image_bytes) simp
  obtain c1 w1 b off n where f: "xc_flush True flash_env c0 w = Inr (None, c1, w1)" "xc_inv img k c1 w1"
      "xs_payload c1 = Some b" "length b = 4096" "xs_paylen c1 = of_nat (1024 * n)" "n < 4"
      "ota_data_len c1 = of_nat (1024 * off)" "off + n = k"
      "take (1024 * n) b = drop (1024 * off) (image_bytes img k)"
      "mem_bytes w1 8192 (1024 * off) = take (1024 * off) (image_bytes img k)"
    using flush_inv[OF inv0 l sz] by blast
  define d where "d = img (of_nat (1024 * k))"
  have d: "length d = 1024" using len[of k] by (simp add: d_def)
  define pid where "pid = (of_nat (k + 1) :: u8)"
  have fr: "xm_frame img k = xm_packet pid d" by (simp add: xm_frame_def pid_def d_def)
  have lf: "length (xm_packet pid d) = 1029" "xm_packet pid d \<noteq> []" "xm_packet pid d ! 0 = XMODEM_STX"
    using d by (simp_all add: xm_packet_def Let_def STX_def XMODEM_STX_def)
  define c2 where "c2 = (if xm_packet pid d ! 1 \<noteq> pre_packet_id c1
     then c1\<lparr>count_1k := count_1k c1 + 1, pre_packet_id := xm_packet pid d ! 1\<rparr> else c1)"
  have pr: "xc_progress (xm_packet pid d ! 1) c1 = Inr c2"
    using f(2) by (simp add: xc_progress_def c2_def xc_inv_def)
  have c2: "xs_block_seq c2 = pid" "xs_payload c2 = Some b" "xs_paylen c2 = of_nat (1024 * n)"
    "ota_data_len c2 = of_nat (1024 * off)" "xs_step c2 = 1" "xs_is_esp_ota c2 \<noteq> 1" "xs_file_size c2 \<noteq> 0"
    using f by (simp_all add: c2_def xc_inv_def pid_def)
  note up = unpack_frame[OF d c2(1,2) f(4) c2(3) f(6)]
  let ?b = "take (1024 * n) b @ d @ drop (1024 * (n + 1)) b"
  let ?c3 = "c2\<lparr>xs_payload := Some ?b, xs_paylen := of_nat (1024 * (n + 1)), xs_block_seq := pid + 1\<rparr>"
  let ?c4 = "?c3\<lparr>xs_time_count := 0, xs_resend_count := 0\<rparr>"
  have "xc_data True DATA_LENGTH_1024 flash_env c0 (xm_packet pid d) w = Inr (XMODEM_ACK, ?c3, w1)"
    using lf f(1) pr up by (simp add: xc_data_def DATA_LENGTH_1024_def FILL_LENGTH_def)
  then have "xmodem_client flash_env c (xm_packet pid d) w = Inr (XMODEM_ACK, ?c3, w1)"
    using lf by (simp add: xmodem_client_def c0_def XMODEM_STX_def XMODEM_SOH_def)
  then have "xc_receive flash_env c (xm_frame img k) w = Inr (XMODEM_ACK, ?c4, w1)"
    by (simp add: xc_receive_def fr xc_respond_def XMODEM_ACK_def)
  moreover have "xc_inv img (k + 1) ?c4 w1"
  proof -
    have t: "take (1024 * (n + 1)) ?b = drop (1024 * off) (image_bytes img (k + 1))"
    proof -
      have "take (1024 * (n + 1)) ?b = take (1024 * n) b @ d" using f(4,6) d by simp
      also have "\<dots> = drop (1024 * off) (image_bytes img k @ d)" using f(8,9) l by simp
      finally show ?thesis by (simp add: image_bytes_Suc d_def)
    qed
    have m: "mem_bytes w1 8192 (1024 * off) = take (1024 * off) (image_bytes img (k + 1))"
      using f(8,10) l by (simp add: image_bytes_Suc)
    have lb: "length ?b = 4096" using f(4,6) d by simp
    have "xs_block_seq ?c4 = of_nat (k + 1 + 1)" by (simp add: pid_def)
    then show ?thesis
      unfolding xc_inv_def using c2(4-7) t m lb f(6,8)
      by (intro conjI exI[of _ ?b] exI[of _ off] exI[of _ "n + 1"]) simp_all
  qed
  moreover have "xs_resend_count ?c4 = 0" by simp
  ultimately show ?thesis by blast
qed

text \<open>A frame with another number is refused; its only effect is that a full buffer is written out.\<close>

lemma receive_other:
  assumes inv: "xc_inv img (k + 1) c w" and len: "\<And>j. j \<le> k \<Longrightarrow> length (img (of_nat (1024 * j))) = 1024"
    and sz: "1024 * (k + 1) < 2609152 + 4096"
  shows "\<exists>c' w'. xc_receive flash_env c (xm_frame img k) w = Inr (XMODEM_NAK, c', w') \<and>
     xc_inv img (k + 1) c' w' \<and> xs_resend_count c' = xs_resend_count c + 1"
proof -
  define c0 where "c0 = c\<lparr>xs_system_restart := 0\<rparr>"
  have inv0: "xc_inv img (k + 1) c0 w" using inv by (simp add: xc_inv_def c0_def)
  have l: "length (image_bytes img (k + 1)) = 1024 * (k + 1)" using len by (intro length_image_bytes) simp
  obtain c1 w1 where f: "xc_flush True flash_env c0 w = Inr (None, c1, w1)" "xc_inv img (k + 1) c1 w1"
      "xs_resend_count c1 = xs_resend_count c0"
    using flush_inv[OF inv0 l sz] by blast
  define p where "p = xm_frame img k"
  define pid where "pid = (of_nat (k + 1) :: u8)"
  have p: "p ! 1 = pid" "p ! 2 = 0xFF - pid" "length p = 1029" "p ! 0 = XMODEM_STX" "p \<noteq> []"
    using len[of k] by (simp_all add: p_def xm_frame_def xm_packet_def Let_def pid_def numeral_2_eq_2 STX_def XMODEM_STX_def)
  define c2 where "c2 = (if p ! 1 \<noteq> pre_packet_id c1
     then c1\<lparr>count_1k := count_1k c1 + 1, pre_packet_id := p ! 1\<rparr> else c1)"
  have pr: "xc_progress (p ! 1) c1 = Inr c2"
    using f(2) by (simp add: xc_progress_def c2_def xc_inv_def)
  have i2: "xc_inv img (k + 1) c2 w1" "xs_resend_count c2 = xs_resend_count c0"
    using f by (simp_all add: c2_def xc_inv_def)
  have "xs_block_seq c2 = pid + 1" using i2(1) by (simp add: xc_inv_def pid_def)
  then have "xs_block_seq c2 \<noteq> p ! 1" using p(1) by simp
  then have up: "xmodem_unpack c2 p 1024 = Inr (XMODEM_NAK, c2)"
    using p(3) by (simp add: xmodem_unpack_def)
  have "xc_data True DATA_LENGTH_1024 flash_env c0 p w = Inr (XMODEM_NAK, c2, w1)"
    using p(3) f(1) pr up by (simp add: xc_data_def DATA_LENGTH_1024_def FILL_LENGTH_def)
  then have "xmodem_client flash_env c p w = Inr (XMODEM_NAK, c2, w1)"
    using p(4,5) by (simp add: xmodem_client_def c0_def XMODEM_STX_def XMODEM_SOH_def)
  then have "xc_receive flash_env c p w =
      Inr (XMODEM_NAK, c2\<lparr>xs_time_count := 0, xs_resend_count := xs_resend_count c2 + 1\<rparr>, w1)"
    by (simp add: xc_receive_def xc_respond_def xc_bytes)
  moreover have "xc_inv img (k + 1) (c2\<lparr>xs_time_count := 0, xs_resend_count := xs_resend_count c2 + 1\<rparr>) w1"
    using i2(1) by (simp add: xc_inv_def)
  ultimately show ?thesis using i2(2) by (simp add: p_def c0_def)
qed

lemma receive_eot:
  assumes inv: "xc_inv img k c w" and len: "length (image_bytes img k) = 1024 * k"
    and sz: "0 < k" "1024 * k \<le> 2609152"
  shows "\<exists>c' w' r. xc_receive flash_env c [EOT] w = Inr (r, c', w') \<and>
     mem_bytes w' 8192 (1024 * k) = image_bytes img k \<and> ota_data_len c' = of_nat (1024 * k) \<and>
     (if xmodem_ota_crc_verify flash_env IMAGE_FLASH_AREA_ADDRESS (of_nat (1024 * k)) w'
      then r = XMODEM_ACK \<and> xs_exit c' \<in> {OTA_OBJECT_CAN_OTA, OTA_OBJECT_LCD}
      else r = XMODEM_CAN \<and> xs_exit c' = 1)"
proof -
  define c0 where "c0 = c\<lparr>xs_system_restart := 0\<rparr>"
  obtain b off n where b: "xs_payload c0 = Some b" "length b = 4096" "xs_paylen c0 = of_nat (1024 * n)" "n \<le> 4"
      "ota_data_len c0 = of_nat (1024 * off)" "off + n = k"
      "take (1024 * n) b = drop (1024 * off) (image_bytes img k)"
      "mem_bytes w 8192 (1024 * off) = take (1024 * off) (image_bytes img k)" "xs_is_esp_ota c0 \<noteq> 1"
    using inv by (auto simp: xc_inv_def c0_def)
  obtain c1 w1 where l: "xc_last_write flash_env c0 w = Inr (False, XMODEM_ACK, c1, w1)"
      "mem_bytes w1 8192 (1024 * k) = image_bytes img k" "ota_data_len c1 = of_nat (1024 * k)"
      "xs_is_esp_ota c1 \<noteq> 1"
  proof (cases "n = 0")
    case True
    then have "xc_last_write flash_env c0 w = Inr (False, XMODEM_ACK, c0, w)" using b(3) by (simp add: xc_last_write_def)
    then show ?thesis using that b True len by simp
  next
    case False
    have un: "unat (xs_paylen c0) = 1024 * n" unfolding b(3) by (rule unat_of_nat_16) (use b(4) in simp)
    then have nz: "xs_paylen c0 \<noteq> 0" using False by auto
    have o: "1024 * off < 2609152" using sz b(6) False by simp
    then have uo: "unat (ota_data_len c0) = 1024 * off" unfolding b(5) by (intro unat_of_nat_32) simp
    have lim: "\<not> ota_data_len c0 \<ge> IMAGE_FLASH_AREA_MAX_LEN - of_nat BLOCK_BUFFER_SIZE"
      using o uo by (simp add: word_le_nat_alt xc_sizes)
    have adr: "unat (IMAGE_FLASH_AREA_ADDRESS + ota_data_len c0) = 8192 + 1024 * off"
      using o uo by (simp add: unat_word_ariths xc_sizes)
    let ?w = "mem_write (8192 + 1024 * off) (take (1024 * n) b) w"
    let ?c = "c0\<lparr>ota_data_len := ota_data_len c0 + ucast (xs_paylen c0), xs_paylen := 0\<rparr>"
    have "xc_last_write flash_env c0 w = Inr (False, XMODEM_ACK, ?c, ?w)"
      using nz b(1,9) lim adr un by (simp add: xc_last_write_def)
    moreover have "mem_bytes ?w 8192 (1024 * k) = image_bytes img k"
    proof -
      have "1024 * k = 1024 * off + length (take (1024 * n) b)" using b(2,4,6) by simp
      then show ?thesis using mem_bytes_write[of 8192 "1024 * off" "take (1024 * n) b" w] b(7,8)
        by (metis append_take_drop_id)
    qed
    moreover have "ota_data_len ?c = of_nat (1024 * k)"
    proof -
      have "unat (ucast (xs_paylen c0) :: u32) = 1024 * n" using un unat_ucast_u16_u32[of "xs_paylen c0"] by simp
      then have "ucast (xs_paylen c0) = (of_nat (1024 * n) :: u32)" 
        using unat_of_nat_32[of "1024 * n"] b(4) by (simp add: word_unat_eq_iff)
      moreover have "1024 * k = 1024 * off + 1024 * n" using b(6) by simp
      ultimately show ?thesis using b(5) by (simp only: of_nat_add) simp
    qed
    ultimately show ?thesis using that b(9) by simp
  qed
  define v where "v = xmodem_ota_crc_verify flash_env IMAGE_FLASH_AREA_ADDRESS (of_nat (1024 * k)) w1"
  let ?e = "if xs_file_type c1 = FILE_IOT_LCD \<or> xs_file_type c1 = FILE_IOT_LCD2 then OTA_OBJECT_LCD
            else OTA_OBJECT_CAN_OTA"
  have "xmodem_client flash_env c [EOT] w =
      Inr (if v then (XMODEM_ACK, c1\<lparr>xs_exit := ?e\<rparr>, w1) else (XMODEM_CAN, c1\<lparr>xs_errcode := OTA_ERR_CRC32\<rparr>, w1))"
    using l by (simp add: xmodem_client_def xc_eot_def c0_def[symmetric] EOT_def xc_bytes v_def)
  then show ?thesis
    using l(2,3) by (cases v) (auto simp: xc_receive_def xc_respond_def xc_bytes v_def Let_def)
qed

section \<open>Sequences of frames\<close>

fun xc_feed :: "'w xc_env \<Rightarrow> xmodem_struct \<Rightarrow> u8 list list \<Rightarrow> 'w \<Rightarrow> (u8 list \<times> xmodem_struct \<times> 'w) cres" where
  "xc_feed env c [] w = Inr ([], c, w)"
| "xc_feed env c (f # fs) w =
     cbind (vXmodemClient env c f w) (\<lambda>(r, c', w'). cbind (xc_feed env c' fs w') (\<lambda>(rs, c'', w'').
       Inr (r # rs, c'', w'')))"

lemma client_step:
  assumes "xc_inv img k c w" "xs_resend_count c < 20" "f \<noteq> []"
  shows "vXmodemClient env c f w = xc_receive env c f w"
  using assms by (simp add: vXmodemClient_def xc_inv_def not_le[symmetric])

lemma xm_frame_ne: "xm_frame img k \<noteq> []"
  by (simp add: xm_frame_def xm_packet_def Let_def)

lemma xc_feed_append:
  "xc_feed env c (fs @ gs) w = cbind (xc_feed env c fs w) (\<lambda>(rs, c', w').
     cbind (xc_feed env c' gs w') (\<lambda>(rs', c'', w''). Inr (rs @ rs', c'', w'')))"
  by (induction fs arbitrary: c w) (auto simp: cbind_def split: sum.splits)

lemma feed_blocks:
  assumes len: "\<And>j. j < n \<Longrightarrow> length (img (of_nat (1024 * j))) = 1024" and sz: "1024 * n \<le> 2609152"
  shows "m = n - k \<Longrightarrow> k \<le> n \<Longrightarrow> xc_inv img k c w \<Longrightarrow> xs_resend_count c = 0 \<Longrightarrow>
    \<exists>c' w'. xc_feed flash_env c (map (xm_frame img) [k..<n]) w = Inr (replicate m XMODEM_ACK, c', w') \<and>
      xc_inv img n c' w' \<and> xs_resend_count c' = 0"
proof (induction m arbitrary: k c w)
  case (Suc m)
  then have k: "k < n" "m = n - (k + 1)" by simp_all
  have "\<And>j. j \<le> k \<Longrightarrow> length (img (of_nat (1024 * j))) = 1024" using len k by simp
  moreover have "1024 * k < 2609152 + 4096" using sz k by simp
  ultimately obtain c1 w1 where c1: "xc_receive flash_env c (xm_frame img k) w = Inr (XMODEM_ACK, c1, w1)"
      "xc_inv img (k + 1) c1 w1" "xs_resend_count c1 = 0"
    using receive_block[OF Suc.prems(3)] by blast
  have st: "vXmodemClient flash_env c (xm_frame img k) w = Inr (XMODEM_ACK, c1, w1)"
    using client_step[OF Suc.prems(3) _ xm_frame_ne] Suc.prems(4) c1(1) by simp
  have "k + 1 \<le> n" using k(1) by simp
  from Suc.IH[OF k(2) this c1(2,3)] obtain c2 w2 where
      "xc_feed flash_env c1 (map (xm_frame img) [k + 1..<n]) w1 = Inr (replicate m XMODEM_ACK, c2, w2)"
      "xc_inv img n c2 w2" "xs_resend_count c2 = 0" by blast
  moreover have "[k..<n] = k # [k + 1..<n]" using k(1) by (simp add: upt_rec)
  ultimately show ?case using st by simp
qed simp

text \<open>The first data byte takes the receiver from waiting to receiving.\<close>

lemma client_start:
  assumes "xs_step c = 0" "xs_resend_count c < 20" "f \<noteq> []"
  shows "vXmodemClient env c f w =
    vXmodemClient env (c\<lparr>xs_step := 1, xs_time_count := 0, xs_resend_count := 0, count_1k := 0, ota_data_len := 0\<rparr>) f w"
  using assms by (simp add: vXmodemClient_def not_le[symmetric])

lemma init_ready:
  assumes "vXmodemClientInit flash_env target ft sz ver ch c0 w = (True, c, w1)"
    and "xs_payload c0 = None" "xs_is_esp_ota c0 \<noteq> 1" "sz \<noteq> 0" "ft \<noteq> FILE_IOT"
  shows "xs_step c = 0" "xs_resend_count c = 0"
    and "xc_inv img 0 (c\<lparr>xs_step := 1, xs_time_count := 0, xs_resend_count := 0, count_1k := 0, ota_data_len := 0\<rparr>) w1"
  using assms
  by (auto simp: vXmodemClientInit_def Let_def xc_target_def dev_ota_begin_def xc_inv_def image_bytes_def
      mem_bytes_def BLOCK_BUFFER_SIZE_def split: if_splits bool.splits)

lemma feed_refused:
  assumes len: "\<And>j. j \<le> k \<Longrightarrow> length (img (of_nat (1024 * j))) = 1024" and sz: "1024 * (k + 1) < 2613248"
  shows "xc_inv img (k + 1) c w \<Longrightarrow> unat (xs_resend_count c) + m \<le> 20 \<Longrightarrow>
    \<exists>c' w'. xc_feed flash_env c (replicate m (xm_frame img k)) w = Inr (replicate m XMODEM_NAK, c', w') \<and>
      xc_inv img (k + 1) c' w'"
proof (induction m arbitrary: c w)
  case (Suc m)
  have "1024 * (k + 1) < 2609152 + 4096" using sz by simp
  then obtain c1 w1 where c1: "xc_receive flash_env c (xm_frame img k) w = Inr (XMODEM_NAK, c1, w1)"
      "xc_inv img (k + 1) c1 w1" "xs_resend_count c1 = xs_resend_count c + 1"
    using receive_other[OF Suc.prems(1) len] by blast
  have "xs_resend_count c < 20" using Suc.prems(2) by (simp add: word_less_nat_alt)
  then have "vXmodemClient flash_env c (xm_frame img k) w = Inr (XMODEM_NAK, c1, w1)"
    using client_step[OF Suc.prems(1) _ xm_frame_ne] c1(1) by simp
  moreover have "unat (xs_resend_count c1) + m \<le> 20"
    using c1(3) Suc.prems(2) by (simp add: unat_word_ariths)
  then obtain c2 w2 where "xc_feed flash_env c1 (replicate m (xm_frame img k)) w1 = Inr (replicate m XMODEM_NAK, c2, w2)"
      "xc_inv img (k + 1) c2 w2"
    using Suc.IH[OF c1(2)] by blast
  ultimately show ?case by simp
qed simp

section \<open>Memory safety\<close>

text \<open>A started receiver: its buffer has four kilobytes, of which at most four are in use.\<close>

definition xc_wf :: "xmodem_struct \<Rightarrow> bool" where
  "xc_wf c \<longleftrightarrow> (\<exists>b. xs_payload c = Some b \<and> length b = 4096) \<and> unat (xs_paylen c) \<le> 4096 \<and> xs_file_size c \<noteq> 0"

text \<open>A handler is safe when it does not fault and ends in a started receiver.\<close>

definition xc_safe :: "('a \<times> xmodem_struct \<times> 'w) cres \<Rightarrow> bool" where
  "xc_safe r \<longleftrightarrow> (case r of Inl e \<Rightarrow> False | Inr (a, c, w) \<Rightarrow> xc_wf c)"

lemma xc_safe_simps [simp]:
  "xc_safe (Inr (a, c, w)) = xc_wf c" "\<not> xc_safe (Inl e)"
  by (simp_all add: xc_safe_def)

lemma xc_safe_bind:
  assumes "xc_safe m" "\<And>a c w. xc_wf c \<Longrightarrow> xc_safe (f (a, c, w))"
  shows "xc_safe (cbind m f)"
  using assms by (cases m) (auto simp: xc_safe_def)

lemma xc_wf_simps [simp]:
  "xc_wf (c\<lparr>xs_errcode := e\<rparr>) = xc_wf c" "xc_wf (c\<lparr>xs_exit := e\<rparr>) = xc_wf c"
  "xc_wf (c\<lparr>xs_system_restart := e\<rparr>) = xc_wf c" "xc_wf (c\<lparr>xs_time_count := t\<rparr>) = xc_wf c"
  "xc_wf (c\<lparr>xs_resend_count := t\<rparr>) = xc_wf c" "xc_wf (c\<lparr>xs_step := e\<rparr>) = xc_wf c"
  "xc_wf (c\<lparr>count_1k := t\<rparr>) = xc_wf c" "xc_wf (c\<lparr>ota_data_len := n\<rparr>) = xc_wf c"
  "xc_wf (c\<lparr>pre_packet_id := e\<rparr>) = xc_wf c" "xc_wf c \<Longrightarrow> xc_wf (c\<lparr>xs_paylen := 0\<rparr>)"
  by (simp_all add: xc_wf_def)

lemma xc_flush_safe: "xc_wf c \<Longrightarrow> xc_safe (xc_flush chk env c w)"
  by (auto simp: xc_flush_def Let_def split: option.splits prod.splits) (auto simp: xc_wf_def)

lemma xc_last_write_safe:
  "xc_wf c \<Longrightarrow> \<exists>stop r c' w'. xc_last_write env c w = Inr (stop, r, c', w') \<and> xc_wf c'"
  by (auto simp: xc_last_write_def Let_def split: option.splits prod.splits) (auto simp: xc_wf_def)

lemma unpack_safe:
  assumes "xc_wf c" "length p = len + 5" "len \<le> 4096"
  shows "\<exists>r c'. xmodem_unpack c p len = Inr (r, c') \<and> xc_wf c'"
proof -
  obtain b where b: "xs_payload c = Some b" "length b = 4096" and n: "unat (xs_paylen c) \<le> 4096"
      and f: "xs_file_size c \<noteq> 0"
    using assms(1) by (auto simp: xc_wf_def)
  have u: "unat (xs_paylen c + of_nat len) = unat (xs_paylen c) + len"
    using n assms(3) unat_of_nat_16[of len] by (simp add: unat_word_ariths)
  show ?thesis
    using b n f u assms by (auto simp: xmodem_unpack_def xc_wf_def BLOCK_BUFFER_SIZE_def Let_def)
qed

lemma xc_data_safe:
  assumes "xc_wf c" "len \<le> 4096"
  shows "xc_safe (xc_data chk len env c p w)"
proof (cases "length p = len + FILL_LENGTH")
  case True
  then have lp: "length p = len + 5" by (simp add: FILL_LENGTH_def)
  have "xc_safe (cbind (xc_progress (p ! 1) c1) (\<lambda>c2. cbind (xmodem_unpack c2 p len) (\<lambda>(resp, c3). Inr (resp, c3, w1))))"
    if c1: "xc_wf c1" for c1 and w1 :: 'a
  proof -
    obtain c2 where c2: "xc_progress (p ! 1) c1 = Inr c2" "xc_wf c2"
      using c1 by (auto simp: xc_progress_def xc_wf_def)
    then show ?thesis using unpack_safe[OF c2(2) lp assms(2)] by auto
  qed
  then show ?thesis
    unfolding xc_data_def using True
    by (auto intro!: xc_safe_bind xc_flush_safe assms(1) split: option.splits)
qed (use assms in \<open>simp add: xc_data_def\<close>)

lemma xc_eot_safe: "xc_wf c \<Longrightarrow> xc_safe (xc_eot env c p w)"
  using xc_last_write_safe[of c env w] by (auto simp: xc_eot_def split: prod.splits)

lemma xc_receive_safe:
  assumes "xc_wf c"
  shows "xc_safe (xc_receive env c p w)"
proof -
  have "xc_safe (Inr (xc_etx env c' p w))" if "xc_wf c'" for c'
    using that by (auto simp: xc_etx_def Let_def split: prod.splits)
  then have "xc_safe (xmodem_client env c p w)"
    using assms by (simp add: xmodem_client_def xc_data_safe xc_eot_safe Let_def DATA_LENGTH_128_def DATA_LENGTH_1024_def)
  then show ?thesis
    unfolding xc_receive_def by (rule xc_safe_bind) (simp add: xc_respond_def Let_def)
qed

lemma vXmodemClient_safe: "xc_wf c \<Longrightarrow> xc_safe (vXmodemClient env c p w)"
  by (simp add: vXmodemClient_def xc_receive_safe)

lemma xc_feed_safe: "xc_wf c \<Longrightarrow> xc_safe (xc_feed env c fs w)"
proof (induction fs arbitrary: c w)
  case (Cons f fs)
  show ?case
    unfolding xc_feed.simps
    by (rule xc_safe_bind[OF vXmodemClient_safe[OF Cons.prems]]) (auto intro!: xc_safe_bind Cons.IH)
qed simp

lemma init_wf:
  assumes "vXmodemClientInit env target ft sz ver ch c0 w = (True, c, w1)" "sz \<noteq> 0"
    and "case xs_payload c0 of None \<Rightarrow> True | Some b \<Rightarrow> length b = 4096"
  shows "xc_wf c"
  using assms
  by (auto simp: vXmodemClientInit_def Let_def xc_target_def dev_ota_begin_def xc_wf_def BLOCK_BUFFER_SIZE_def
      split: if_splits bool.splits prod.splits option.splits)

section \<open>Properties\<close>

text \<open>C16: End to end: the frames that the transmitter writes for an image of at most 2548 blocks, given
  to a receiver that has just been started for a device image of any file type and to whose answers
  the transmitter listens, are all acknowledged, and after EOT the image flash holds the image byte
  for byte; EOT itself is acknowledged, and the next transfer scheduled, exactly when the check sum
  over the stored image is right.\<close>

theorem xmodem_end_to_end:
  assumes tx: "xmodem_transmit_init True True (of_nat (1024 * n)) s0 = (True, s)" "0 < n" "1024 * n \<le> 2609152"
    and img: "\<And>j. j < n \<Longrightarrow> length (img (of_nat (1024 * j))) = 1024"
    and rx: "vXmodemClientInit flash_env target ft sz ver ch c0 w = (True, c, w1)"
      "xs_payload c0 = None" "xs_is_esp_ota c0 \<noteq> 1" "sz \<noteq> 0" "ft \<noteq> FILE_IOT"
  shows "\<exists>frames s' c' w' r. xm_exec img (willing n) s = Inr (frames, s') \<and> transmit_state s' = XT_COMPLETE \<and>
     xc_feed flash_env c frames w1 = Inr (replicate n XMODEM_ACK @ [r], c', w') \<and>
     mem_bytes w' 8192 (1024 * n) = image_bytes img n \<and>
     (if xmodem_ota_crc_verify flash_env IMAGE_FLASH_AREA_ADDRESS (of_nat (1024 * n)) w'
      then r = XMODEM_ACK \<and> xs_exit c' \<in> {OTA_OBJECT_CAN_OTA, OTA_OBJECT_LCD}
      else r = XMODEM_CAN \<and> xs_exit c' = 1)"
proof -
  let ?c1 = "c\<lparr>xs_step := 1, xs_time_count := 0, xs_resend_count := 0, count_1k := 0, ota_data_len := 0\<rparr>"
  note rdy = init_ready(1,2)[OF rx] init_ready(3)[OF rx, of img]
  obtain s' where s': "xm_exec img (willing n) s = Inr (map (xm_frame img) [0..<n] @ [[EOT]], s')"
      "transmit_state s' = XT_COMPLETE"
    using willing_exec[OF tx(1,2), of img] tx(3) by auto
  obtain c2 w2 where f: "xc_feed flash_env ?c1 (map (xm_frame img) [0..<n]) w1 = Inr (replicate n XMODEM_ACK, c2, w2)"
      "xc_inv img n c2 w2" "xs_resend_count c2 = 0"
    using feed_blocks[of n img n 0 ?c1 w1] img tx(3) rdy(3) by auto
  have li: "length (image_bytes img n) = 1024 * n" using img by (intro length_image_bytes) simp
  obtain c3 w3 r where e: "xc_receive flash_env c2 [EOT] w2 = Inr (r, c3, w3)"
      "mem_bytes w3 8192 (1024 * n) = image_bytes img n"
      "if xmodem_ota_crc_verify flash_env IMAGE_FLASH_AREA_ADDRESS (of_nat (1024 * n)) w3
       then r = XMODEM_ACK \<and> xs_exit c3 \<in> {OTA_OBJECT_CAN_OTA, OTA_OBJECT_LCD}
       else r = XMODEM_CAN \<and> xs_exit c3 = 1"
    using receive_eot[OF f(2) li tx(2,3)] by blast
  have "vXmodemClient flash_env c2 [EOT] w2 = Inr (r, c3, w3)"
    using client_step[OF f(2), of "[EOT]" flash_env] f(3) e(1) by simp
  then have feed: "xc_feed flash_env ?c1 (map (xm_frame img) [0..<n] @ [[EOT]]) w1 =
      Inr (replicate n XMODEM_ACK @ [r], c3, w3)" using f(1) by (simp add: xc_feed_append)
  have "xc_feed flash_env c (map (xm_frame img) [0..<n] @ [[EOT]]) w1 =
      xc_feed flash_env ?c1 (map (xm_frame img) [0..<n] @ [[EOT]]) w1"
  proof -
    have "[0..<n] = 0 # [1..<n]" using tx(2) by (simp add: upt_rec)
    then show ?thesis
      using client_start[of c "xm_frame img 0" flash_env w1] rdy(1,2) xm_frame_ne by (simp del: upt_Suc)
  qed
  then show ?thesis using s' feed e(2,3) by auto
qed

definition idle_client :: xmodem_struct where
  "idle_client = \<lparr>xs_step = 0, xs_exit = 0, xs_errcode = 0, xs_block_seq = 0, xs_is_esp_ota = 0,
     xs_system_restart = 0, xs_target_id = 0, xs_file_type = 0, xs_version = 0, xs_file_size = 0,
     xs_used_chl = CHANNEL_UNKOWN, xs_time_count = 0, xs_resend_count = 0, xs_paylen = 0, xs_payload = None,
     xs_timer = False, count_1k = 0, ota_data_len = 0, pre_packet_id = 0xFF\<rparr>"

lemma xmodem_end_to_end_witness:
  "\<exists>s c frames s' c' w' r. xmodem_transmit_init True True 5120 fresh = (True, s) \<and>
     vXmodemClientInit flash_env 1 2 5 100 3 idle_client (\<lambda>_. 0xFF) = (True, c, \<lambda>_. 0xFF) \<and>
     xm_exec (\<lambda>p. replicate 1024 7) (willing 5) s = Inr (frames, s') \<and>
     xc_feed flash_env c frames (\<lambda>_. 0xFF) = Inr (replicate 5 XMODEM_ACK @ [r], c', w') \<and>
     mem_bytes w' 8192 5120 = image_bytes (\<lambda>p. replicate 1024 7) 5"
proof -
  obtain s where s: "xmodem_transmit_init True True 5120 fresh = (True, s)"
    by (simp add: xmodem_transmit_init_def fresh_def XMODEM_BLOCK_SIZE_def Let_def)
  obtain c where c: "vXmodemClientInit flash_env 1 2 5 100 3 idle_client (\<lambda>_. 0xFF) = (True, c, \<lambda>_. 0xFF)"
    by (simp add: vXmodemClientInit_def idle_client_def xc_target_def dev_ota_begin_def FILE_IOT_def
        FLASH_SEC_SIZE_def IMAGE_FLASH_AREA_MAX_LEN_def IMAGE_FLASH_AREA_ADDRESS_def BLOCK_BUFFER_SIZE_def
        flash_env_def Let_def)
  have "xs_payload idle_client = None" "xs_is_esp_ota idle_client \<noteq> 1" by (simp_all add: idle_client_def)
  with xmodem_end_to_end[of 5 fresh s "\<lambda>p. replicate 1024 7" 1 2 5 100 3 idle_client "\<lambda>_. 0xFF" c "\<lambda>_. 0xFF"] s c
  show ?thesis by (fastforce simp: FILE_IOT_def)
qed

text \<open>One lost acknowledgement ends the transfer: when the receiver has taken block \<open>k\<close> and the
  transmitter writes it again, the receiver answers every repetition with NAK instead of
  acknowledging the duplicate, and the transmitter, which hears these NAKs, writes the block eleven
  times and aborts.\<close>

theorem xmodem_lost_ack_aborts:
  assumes rx: "xc_inv img (k + 1) c w" "xs_resend_count c = 0"
    and img: "\<And>j. j \<le> k \<Longrightarrow> length (img (of_nat (1024 * j))) = 1024" "1024 * (k + 1) < 2613248"
    and tx: "xm_at k s" "transmit_state s = XT_WRITE_BLOCK" "write_block_timer s = 0" "has_packet s"
      "payload_size s div XMODEM_BLOCK_SIZE \<noteq> 0" "write_block_retries s = 0"
  shows "\<exists>s' c' w'. xm_exec img (concat (replicate 11 refused)) s = Inr (replicate 11 (xm_frame img k), s') \<and>
     transmit_state s' = XT_ABORT_TRANSFER \<and>
     xc_feed flash_env c (replicate 11 (xm_frame img k)) w = Inr (replicate 11 NACK, c', w') \<and>
     xc_inv img (k + 1) c' w'"
proof -
  have "\<exists>s'. xm_exec img (concat (replicate (Suc 10) refused)) s = Inr (replicate (Suc 10) (xm_frame img k), s') \<and>
     transmit_state s' = XT_ABORT_TRANSFER"
    by (rule refused_runs) (use tx in simp_all)
  moreover have "\<exists>c' w'. xc_feed flash_env c (replicate 11 (xm_frame img k)) w =
       Inr (replicate 11 XMODEM_NAK, c', w') \<and> xc_inv img (k + 1) c' w'"
    by (rule feed_refused) (use rx img in simp_all)
  moreover have "NACK = XMODEM_NAK" by (simp add: NACK_def XMODEM_NAK_def)
  ultimately show ?thesis by (simp del: replicate_Suc)
qed

lemma xmodem_lost_ack_aborts_witness:
  "\<exists>s c w s' c' w'. xm_exec (\<lambda>p. replicate 1024 7) (concat (replicate 11 refused)) s =
       Inr (replicate 11 (xm_frame (\<lambda>p. replicate 1024 7) 0), s') \<and> transmit_state s' = XT_ABORT_TRANSFER \<and>
     xc_feed flash_env c (replicate 11 (xm_frame (\<lambda>p. replicate 1024 7) 0)) w = Inr (replicate 11 NACK, c', w')"
proof -
  let ?s = "fresh\<lparr>transmit_state := XT_WRITE_BLOCK, current_packet_id := 1, send_packet_idx := 1,
     has_packet := True, payload_size := 2048\<rparr>"
  let ?c = "idle_client\<lparr>xs_step := 1, xs_file_size := 2, xs_block_seq := 2, xs_paylen := 1024,
     xs_payload := Some (replicate 4096 7)\<rparr>"
  have c: "xc_inv (\<lambda>p. replicate 1024 7) (0 + 1) ?c (\<lambda>_. 0)"
    unfolding xc_inv_def
    by (intro conjI exI[of _ "replicate 4096 7"] exI[of _ 0] exI[of _ 1])
       (simp_all add: idle_client_def image_bytes_def mem_bytes_def take_replicate)
  have s: "xm_at 0 ?s" by (simp add: xm_at_def fresh_def)
  from xmodem_lost_ack_aborts[OF c _ _ _ s]
  show ?thesis by (fastforce simp: idle_client_def fresh_def XMODEM_BLOCK_SIZE_def)
qed

text \<open>C36: Memory safety of the receiver: started with a non-zero image size, it survives every
  sequence of received byte strings, of any length and content, whatever flash, boot loader and
  allocator do: no access leaves the four-kilobyte buffer or a received string, no null pointer is
  followed, nothing is divided by zero.\<close>

theorem xmodem_client_memory_safe:
  assumes "vXmodemClientInit env target ft sz ver ch c0 w = (True, c, w1)" "sz \<noteq> 0"
    and "case xs_payload c0 of None \<Rightarrow> True | Some b \<Rightarrow> length b = 4096"
  shows "\<exists>rs c' w'. xc_feed env c inputs w1 = Inr (rs, c', w') \<and> xc_wf c'"
proof -
  have "xc_safe (xc_feed env c inputs w1)" by (rule xc_feed_safe[OF init_wf[OF assms]])
  then show ?thesis by (auto simp: xc_safe_def split: sum.splits prod.splits)
qed

lemma xmodem_client_memory_safe_witness:
  "\<exists>c rs c' w'. vXmodemClientInit flash_env 1 2 5 100 3 idle_client (\<lambda>_. 0xFF) = (True, c, \<lambda>_. 0xFF) \<and>
     xc_feed flash_env c [[2, 1], [], [1, 2, 3], [4]] (\<lambda>_. 0xFF) = Inr (rs, c', w')"
proof -
  obtain c where c: "vXmodemClientInit flash_env 1 2 5 100 3 idle_client (\<lambda>_. 0xFF) = (True, c, \<lambda>_. 0xFF)"
    by (simp add: vXmodemClientInit_def idle_client_def xc_target_def dev_ota_begin_def FILE_IOT_def
        FLASH_SEC_SIZE_def IMAGE_FLASH_AREA_MAX_LEN_def IMAGE_FLASH_AREA_ADDRESS_def BLOCK_BUFFER_SIZE_def
        flash_env_def Let_def)
  have "xs_payload idle_client = None" by (simp add: idle_client_def)
  with xmodem_client_memory_safe[OF c, of "[[2, 1], [], [1, 2, 3], [4]]"] c show ?thesis by auto
qed

end
