(* ===== verification/Can_Ota.thy ===== *)
theory Can_Ota
  imports Xmodem_Client
begin

text \<open>
  Firmware transfer over CAN, \<open>iot_can/can_ota\<close>: the frames of \<open>iot_ota.h\<close>, the state both sides keep, and
  the receiving side \<open>can_ota_receiver.c\<close>.  The transmit queue of the bus, the boot loader and the
  allocator extend the environment of the serial receiver, from whose image flash the sending side
  (\<open>Can_Ota_Sender\<close>) reads.  The file handle of \<open>CanOtaStruct\<close> is never opened by the firmware and is left
  out; so are delays, which only pass time.
\<close>

section \<open>Frames\<close>

definition OTA_READY :: u8 where "OTA_READY = 0x70"
definition OTA_START :: u8 where "OTA_START = 0x71"
definition OTA_START_ACK :: u8 where "OTA_START_ACK = 0x72"
definition OTA_BLOCK_START :: u8 where "OTA_BLOCK_START = 0x73"
definition OTA_BLOCK_DATA :: u8 where "OTA_BLOCK_DATA = 0x74"
definition OTA_BLOCK_DATA_ACK :: u8 where "OTA_BLOCK_DATA_ACK = 0x75"
definition OTA_END :: u8 where "OTA_END = 0x76"
definition OTA_END_ACK :: u8 where "OTA_END_ACK = 0x77"
definition OTA_PCT :: u8 where "OTA_PCT = 0x78"
definition OTA_IN_BOOT :: u8 where "OTA_IN_BOOT = 0x79"

definition DATA_NORMAL :: u8 where "DATA_NORMAL = 0"
definition DATA_RESEND :: u8 where "DATA_RESEND = 1"
definition DATA_EXIT :: u8 where "DATA_EXIT = 2"

definition OTA_ERR_NORMAL :: u8 where "OTA_ERR_NORMAL = 0"
definition OTA_ERR_CRC16 :: u8 where "OTA_ERR_CRC16 = 6"
definition OTA_ERR_SEQ :: u8 where "OTA_ERR_SEQ = 8"
definition OTA_ERR_CAN_BUSY :: u8 where "OTA_ERR_CAN_BUSY = 14"
definition OTA_ERR_CAN_ERR :: u8 where "OTA_ERR_CAN_ERR = 15"

definition CAN_OTA_IDLE :: u8 where "CAN_OTA_IDLE = 0"
definition CAN_OTA_IOT :: u8 where "CAN_OTA_IOT = 1"
definition CAN_OTA_DEV :: u8 where "CAN_OTA_DEV = 2"
definition CAN_OTA_SILENT :: u8 where "CAN_OTA_SILENT = 3"

definition CAN_PAYLOAD_LEN :: nat where "CAN_PAYLOAD_LEN = 6"
definition CAN_BROADCAST_ADDRESS :: u8 where "CAN_BROADCAST_ADDRESS = 0xFF"

lemmas ota_funcs = OTA_READY_def OTA_START_def OTA_START_ACK_def OTA_BLOCK_START_def OTA_BLOCK_DATA_def
  OTA_BLOCK_DATA_ACK_def OTA_END_def OTA_END_ACK_def OTA_PCT_def OTA_IN_BOOT_def
lemmas ota_status_codes = DATA_NORMAL_def DATA_RESEND_def DATA_EXIT_def
lemmas can_ota_states = CAN_OTA_IDLE_def CAN_OTA_IOT_def CAN_OTA_DEV_def CAN_OTA_SILENT_def

text \<open>The identifier of a frame and its parts (\<open>CAN_ID\<close>, \<open>IdStruct\<close>).\<close>

definition CAN_ID :: "u32 \<Rightarrow> u32 \<Rightarrow> u8 \<Rightarrow> u8 \<Rightarrow> u8 \<Rightarrow> u32" where
  "CAN_ID pro page pf dst src = push_bit 26 pro OR push_bit 24 (page AND 3) OR
     mk32 0 pf dst src"

definition id_src :: "u32 \<Rightarrow> u8" where "id_src i = byte32 0 i"
definition id_dst :: "u32 \<Rightarrow> u8" where "id_dst i = byte32 1 i"
definition id_funcode :: "u32 \<Rightarrow> u8" where "id_funcode i = byte32 2 i"

lemma id_CAN_ID [simp]:
  "id_src (CAN_ID pro page pf dst src) = src"
  "id_dst (CAN_ID pro page pf dst src) = dst"
  "id_funcode (CAN_ID pro page pf dst src) = pf"
  by (rule bit_word_eqI,
      auto simp: id_src_def id_dst_def id_funcode_def CAN_ID_def byte32_def mk32_def bit_simps
        dest: bit_imp_le_length)+

record twai_message =
  msg_identifier :: u32
  data_length_code :: u8
  frame_data :: "u8 list"

record OtaStart =
  fileType :: u8
  fileVersion :: u32
  fileSize :: u16
  dev_id :: u8

record OtaBlock =
  blockSeq :: u16
  frameTotal :: u16
  blockCrc16 :: u16
  retryCnt :: u8
  block_nc :: u8

record OtaEnd =
  end_fileType :: u8
  fileCrc32 :: u32

record OtaPct =
  pct_type :: u8
  pct_pct :: u8

record OtaDevice =
  isOta :: u8
  waitAck :: u8
  dev_where :: u8
  dev_type :: u8
  errCode :: u8
  dev_pct :: u8
  dev_level :: u8

text \<open>The packed images of the structures in the eight bytes of a frame.\<close>

definition start_bytes :: "OtaStart \<Rightarrow> u8 list" where
  "start_bytes s = fileType s # le32 (fileVersion s) @ le16 (fileSize s) @ [dev_id s]"

definition start_of :: "u8 list \<Rightarrow> OtaStart" where
  "start_of d = \<lparr>fileType = d ! 0, fileVersion = get32 d 1, fileSize = get16 d 5, dev_id = d ! 7\<rparr>"

definition block_bytes :: "OtaBlock \<Rightarrow> u8 list" where
  "block_bytes b = le16 (blockSeq b) @ le16 (frameTotal b) @ le16 (blockCrc16 b) @ [retryCnt b, block_nc b]"

definition block_of :: "u8 list \<Rightarrow> OtaBlock" where
  "block_of d = \<lparr>blockSeq = get16 d 0, frameTotal = get16 d 2, blockCrc16 = get16 d 4,
     retryCnt = d ! 6, block_nc = d ! 7\<rparr>"

definition end_bytes :: "OtaEnd \<Rightarrow> u8 list" where
  "end_bytes e = end_fileType e # le32 (fileCrc32 e) @ [0, 0, 0]"

definition pct_bytes :: "OtaPct \<Rightarrow> u8 list" where
  "pct_bytes p = [pct_type p, pct_pct p, 0, 0, 0, 0, 0, 0]"

lemma start_of_bytes [simp]: "start_of (start_bytes s) = s"
proof -
  have "get32 (fileType s # le32 (fileVersion s) @ r) 1 = fileVersion s" for r
    using mk32_byte32[of "fileVersion s"]
    by (simp add: get32_def le32_def eval_nat_numeral)
  then show ?thesis
    by (simp add: start_of_def start_bytes_def get16_def le32_def le16_def)
qed

lemma length_start_bytes [simp]: "length (start_bytes s) = 8"
  by (simp add: start_bytes_def)

lemma block_of_bytes [simp]: "block_of (block_bytes b) = b"
  by (simp add: block_of_def block_bytes_def get16_def le16_def eval_nat_numeral)

section \<open>State\<close>

record CanOtaStruct =
  ota_start :: OtaStart
  ota_block :: OtaBlock
  ota_end_cmd :: OtaEnd
  pct_78H :: OtaPct
  pblock_buf :: "u8 list option"
  pblock_len :: u16
  ota_offset :: u32
  main_step :: u8
  resendCnt :: u8
  devCnt :: u8
  timecnt :: u16
  ota_doing :: u8
  fileOK :: u8
  ota_crc32 :: u32
  devStatus :: "OtaDevice list"
  sender_work :: u8
  sender_type :: u8
  sender_target_id :: u16
  sender_main_ver :: u32
  retry_max_count :: u8
  can_busy :: u8
  period_cmd_delay :: int

text \<open>The static variables of \<open>CanOtaReceiver\<close>.\<close>

record can_receiver =
  recv_frame_seq :: u16
  wait_can_Id :: int
  is_esp_ota :: bool

text \<open>The environment: transmission (\<open>CanAckData\<close>), allocation by size, the address of this node, the
  progress shown for the whole system, and the other parts of the program the sender clears.\<close>

record 'w co_env = "'w xc_env" +
  can_tx :: "u32 \<Rightarrow> u8 list \<Rightarrow> 'w \<Rightarrow> bool \<times> 'w"
  iot_calloc_ok :: "nat \<Rightarrow> bool"
  my_address :: u8
  total_pct :: "u8 \<Rightarrow> u8"
  alarm_clr :: "'w \<Rightarrow> 'w"
  rx_clear :: "'w \<Rightarrow> 'w"

definition OTA_SendFrame :: "'w co_env \<Rightarrow> u8 \<Rightarrow> u8 list \<Rightarrow> u8 \<Rightarrow> 'w \<Rightarrow> bool \<times> 'w" where
  "OTA_SendFrame env cmd d dst w = can_tx env (CAN_ID 2 0 cmd dst (my_address env)) d w"

definition iot_calloc :: "'w co_env \<Rightarrow> nat \<Rightarrow> u8 list option" where
  "iot_calloc env n = (if iot_calloc_ok env n then Some (replicate n 0) else None)"

section \<open>The receiver\<close>

definition can_ota_exit :: "CanOtaStruct \<Rightarrow> CanOtaStruct" where
  "can_ota_exit s = s\<lparr>fileOK := 0, ota_doing := CAN_OTA_IDLE, pblock_buf := None\<rparr>"

text \<open>The boot loader's update is given up when this node is its target.\<close>

definition abort_own ::
    "'w co_env \<Rightarrow> can_receiver \<Rightarrow> 'w \<Rightarrow> can_receiver \<times> 'w" where
  "abort_own env r w = (if is_esp_ota r then (r\<lparr>is_esp_ota := False\<rparr>, snd (ota_abort env w)) else (r, w))"

type_synonym 'w co_result = "CanOtaStruct \<times> can_receiver \<times> bool \<times> 'w"

definition co_ready :: "CanOtaStruct \<Rightarrow> can_receiver \<Rightarrow> 'w \<Rightarrow> 'w co_result" where
  "co_ready s r w = (s\<lparr>period_cmd_delay := 10000\<rparr>, r\<lparr>wait_can_Id := -1, is_esp_ota := False\<rparr>, False, w)"

definition co_start :: "'w co_env \<Rightarrow> twai_message \<Rightarrow> CanOtaStruct \<Rightarrow> can_receiver \<Rightarrow> 'w \<Rightarrow> 'w co_result" where
  "co_start env fr s r w =
     (let st = start_of (frame_data fr);
          s1 = s\<lparr>period_cmd_delay := 10000, ota_start := st\<rparr>;
          r1 = r\<lparr>wait_can_Id := -1, is_esp_ota := False\<rparr>
      in if fileType st > TypeCnt env \<or> fileType st \<noteq> FILE_IOT \<or>
            own_software_ver env div 100 \<noteq> fileVersion st div 100
         then (s1, r1, False, w)
         else
           let r2 = r1\<lparr>is_esp_ota := True\<rparr>; (begun, w1) = ota_begin env w;
               resp = (if begun then [DATA_NORMAL, 0, 0, 1, byte32 0 (fileVersion st), byte32 1 (fileVersion st), 0, 0]
                       else [DATA_EXIT, OTA_ERR_FLASH_WRITE, 0, 0, 0, 0, 0, 0]);
               (sent, w2) = OTA_SendFrame env OTA_START_ACK resp (id_dst (msg_identifier fr)) w1
           in if sent \<and> begun
              then (s1\<lparr>ota_crc32 := NOT 0, ota_doing := CAN_OTA_IOT, timecnt := 10000,
                       ota_block := \<lparr>blockSeq = 0, frameTotal = 0, blockCrc16 = 0, retryCnt = 0, block_nc = 0\<rparr>\<rparr>,
                    r2\<lparr>wait_can_Id := uint OTA_BLOCK_START\<rparr>, False, w2)
              else (s1, r2, False, w2))"

definition co_block_start :: "'w co_env \<Rightarrow> twai_message \<Rightarrow> CanOtaStruct \<Rightarrow> can_receiver \<Rightarrow> 'w \<Rightarrow> 'w co_result" where
  "co_block_start env fr s r w =
     (if wait_can_Id r \<noteq> uint OTA_BLOCK_START then (s, r, False, w)
      else
        let pb = block_of (frame_data fr);
            s1 = s\<lparr>timecnt := 10000,
                   pblock_buf := (case pblock_buf s of Some b \<Rightarrow> Some b
                     | None \<Rightarrow> iot_calloc env (CAN_PAYLOAD_LEN * unat (frameTotal pb)))\<rparr>
        in if pblock_buf s1 = None then
             (case abort_own env r w of (r1, w1) \<Rightarrow>
                (can_ota_exit s1, r1, False,
                 snd (OTA_SendFrame env OTA_BLOCK_DATA_ACK [DATA_EXIT, OTA_ERR_MEMONY, 0, 0, 0, 0, 0, 0]
                        (id_dst (msg_identifier fr)) w1)))
           else if blockSeq (ota_block s) \<noteq> blockSeq pb then (s1, r, False, w)
           else (s1\<lparr>pblock_len := 0, ota_block := pb\<rparr>,
                 r\<lparr>recv_frame_seq := 0, wait_can_Id := uint OTA_BLOCK_DATA\<rparr>, False, w))"

text \<open>All frames of a block have come: check sum, write to the update, answer.\<close>

definition co_block_done :: "'w co_env \<Rightarrow> u8 \<Rightarrow> CanOtaStruct \<Rightarrow> can_receiver \<Rightarrow> 'w \<Rightarrow> 'w co_result cres" where
  "co_block_done env dst s r w =
     (let r1 = r\<lparr>wait_can_Id := uint OTA_BLOCK_START\<rparr>; b = ota_block s;
          send = (\<lambda>resp. OTA_SendFrame env OTA_BLOCK_DATA_ACK resp dst)
      in case pblock_buf s of None \<Rightarrow> Inl Null_Call
      | Some buf \<Rightarrow> need (unat (pblock_len s)) buf
         (if CalcCrc16_Xmodem buf (pblock_len s) \<noteq> blockCrc16 b
          then Inr (s, r1, False, snd (send [DATA_RESEND, OTA_ERR_CRC16, 0, 0, 0, 0, 0, 0] w))
          else if \<not> is_esp_ota r then Inr (s, r1, False, w)
          else case ota_write env (take (unat (pblock_len s)) buf) w of
            (False, w1) \<Rightarrow> (case abort_own env r1 w1 of (r2, w2) \<Rightarrow>
               Inr (can_ota_exit s, r2, False,
                    snd (send [DATA_EXIT, OTA_ERR_FLASH_WRITE, 0, 0, 0, 0, 0, 0] w2)))
          | (True, w1) \<Rightarrow>
              if fileSize (ota_start s) = 0 then Inl Division_By_Zero
              else
                let pct = of_nat (unat (blockSeq b) * 100 div unat (fileSize (ota_start s))) :: u8
                in Inr (s\<lparr>ota_block := b\<lparr>blockSeq := blockSeq b + 1\<rparr>\<rparr>, r1, False,
                        snd (send [DATA_NORMAL, 0, lo8 (blockSeq b), hi8 (blockSeq b),
                                   if pct > 100 then 100 else pct, 1, 0, 0] w1))))"

definition co_block_data :: "'w co_env \<Rightarrow> twai_message \<Rightarrow> CanOtaStruct \<Rightarrow> can_receiver \<Rightarrow> 'w \<Rightarrow> 'w co_result cres" where
  "co_block_data env fr s r w =
     (if wait_can_Id r \<noteq> uint OTA_BLOCK_DATA then Inr (s, r, False, w)
      else let s1 = s\<lparr>timecnt := 10000\<rparr> in
      if data_length_code fr < 2 then Inr (s1, r, False, w)
      else
        let len = unat (data_length_code fr - 2); n = unat (pblock_len s);
            done = (\<lambda>s2 r2. if recv_frame_seq r2 = frameTotal (ota_block s) then co_block_done env (id_dst (msg_identifier fr)) s2 r2 w
                            else Inr (s2, r2, False, w))
        in case pblock_buf s of
             None \<Rightarrow> done s1 r
           | Some buf \<Rightarrow>
               if recv_frame_seq r \<noteq> get16 (frame_data fr) 0 then
                 Inr (s1, r\<lparr>wait_can_Id := uint OTA_BLOCK_START\<rparr>, False,
                      snd (OTA_SendFrame env OTA_BLOCK_DATA_ACK [DATA_RESEND, OTA_ERR_SEQ, 0, 0, 0, 0, 0, 0]
                             (id_dst (msg_identifier fr)) w))
               else need (len + 2) (frame_data fr)
                 (if n + len > length buf then Inl Out_Of_Bounds_Write
                  else done (s1\<lparr>pblock_buf := Some (take n buf @ take len (drop 2 (frame_data fr)) @ drop (n + len) buf),
                                pblock_len := pblock_len s + of_nat len\<rparr>)
                            (r\<lparr>recv_frame_seq := recv_frame_seq r + 1\<rparr>)))"

text \<open>The end of the transfer; the flag says that the system restarts.\<close>

definition co_end :: "'w co_env \<Rightarrow> twai_message \<Rightarrow> CanOtaStruct \<Rightarrow> can_receiver \<Rightarrow> 'w \<Rightarrow> 'w co_result" where
  "co_end env fr s r w =
     (let r1 = r\<lparr>wait_can_Id := -1\<rparr>; s1 = s\<lparr>timecnt := 5000\<rparr>; ft = frame_data fr ! 0
      in if ota_doing s \<noteq> CAN_OTA_IOT \<or> ft \<noteq> fileType (ota_start s) \<or> \<not> is_esp_ota r then (s1, r1, False, w)
         else
           let (ended, w1) = ota_end env w;
               resp = (if ended then replicate 8 0 else [ft, OTA_ERR_FILE, 0, 0, 0, 0, 0, 0]);
               (sent, w2) = OTA_SendFrame env OTA_END_ACK resp (id_dst (msg_identifier fr)) w1
           in (can_ota_exit (s1\<lparr>timecnt := 0\<rparr>), r1\<lparr>is_esp_ota := False\<rparr>, True, w2))"

definition co_timeout :: "'w co_env \<Rightarrow> CanOtaStruct \<Rightarrow> can_receiver \<Rightarrow> 'w \<Rightarrow> CanOtaStruct \<times> can_receiver \<times> 'w" where
  "co_timeout env s r w =
     (if (ota_doing s = CAN_OTA_IOT \<or> ota_doing s = CAN_OTA_SILENT) \<and> timecnt s = 0
      then case abort_own env r w of (r1, w1) \<Rightarrow> (can_ota_exit s, r1, w1) else (s, r, w))"

definition CanOtaReceiver ::
    "'w co_env \<Rightarrow> twai_message option \<Rightarrow> CanOtaStruct \<Rightarrow> can_receiver \<Rightarrow> 'w \<Rightarrow> 'w co_result cres" where
  "CanOtaReceiver env fr s r w =
     (if ota_doing s = CAN_OTA_DEV \<or> sender_work s \<noteq> 0 then Inr (s, r, False, w)
      else case co_timeout env s r w of (s1, r1, w1) \<Rightarrow>
        (case fr of None \<Rightarrow> Inr (s1, r1, False, w1)
         | Some f \<Rightarrow>
            let fc = id_funcode (msg_identifier f) in
            if fc = OTA_READY then Inr (co_ready s1 r1 w1)
            else if fc = OTA_START then Inr (co_start env f s1 r1 w1)
            else if fc = OTA_BLOCK_START then Inr (co_block_start env f s1 r1 w1)
            else if fc = OTA_BLOCK_DATA then co_block_data env f s1 r1 w1
            else if fc = OTA_END then Inr (co_end env f s1 r1 w1)
            else Inr (s1, r1, False, w1)))"

section \<open>Receiving a sequence of frames\<close>

text \<open>A frame as the bus delivers it; the driver fills the eight bytes of the message.\<close>

definition bus_msg :: "u32 \<times> u8 list \<Rightarrow> twai_message" where
  "bus_msg m = \<lparr>msg_identifier = fst m, data_length_code = of_nat (length (snd m)),
     frame_data = take 8 (snd m @ replicate 8 0)\<rparr>"

lemma bus_msg_simps [simp]:
  "msg_identifier (bus_msg (i, d)) = i" "data_length_code (bus_msg (i, d)) = of_nat (length d)"
  "length (frame_data (bus_msg (i, d))) = 8"
  "length d = 8 \<Longrightarrow> frame_data (bus_msg (i, d)) = d"
  by (simp_all add: bus_msg_def)

lemma bus_msg_nth [simp]: "k < length d \<Longrightarrow> k < 8 \<Longrightarrow> frame_data (bus_msg (i, d)) ! k = d ! k"
  by (simp add: bus_msg_def nth_append)

text \<open>A run of the receiver: at each call the timer may have run down, and a frame may be there.\<close>

fun can_run ::
    "'w co_env \<Rightarrow> (bool \<times> twai_message option) list \<Rightarrow> CanOtaStruct \<Rightarrow> can_receiver \<Rightarrow> 'w \<Rightarrow> 'w co_result cres" where
  "can_run env [] s r w = Inr (s, r, False, w)"
| "can_run env ((expired, fr) # es) s r w =
     cbind (CanOtaReceiver env fr (if expired then s\<lparr>timecnt := 0\<rparr> else s) r w)
       (\<lambda>(s', r', stop, w'). if stop then Inr (s', r', True, w') else can_run env es s' r' w')"

definition can_feed ::
    "'w co_env \<Rightarrow> twai_message list \<Rightarrow> CanOtaStruct \<Rightarrow> can_receiver \<Rightarrow> 'w \<Rightarrow> 'w co_result cres" where
  "can_feed env fs = can_run env (map (\<lambda>f. (False, Some f)) fs)"

lemma can_feed_simps [simp]:
  "can_feed env [] s r w = Inr (s, r, False, w)"
  "can_feed env (f # fs) s r w = cbind (CanOtaReceiver env (Some f) s r w)
     (\<lambda>(s', r', stop, w'). if stop then Inr (s', r', True, w') else can_feed env fs s' r' w')"
  unfolding can_feed_def by simp_all

text \<open>The payloads of the data frames of a block.\<close>

function data_frames :: "u16 \<Rightarrow> u8 list \<Rightarrow> u8 list list" where
  "data_frames q d = (if d = [] then []
     else (le16 q @ take CAN_PAYLOAD_LEN d) # data_frames (q + 1) (drop CAN_PAYLOAD_LEN d))"
  by pat_completeness auto

termination data_frames
  by (relation "measure (\<lambda>(q, d). length d)") (auto simp: CAN_PAYLOAD_LEN_def)

declare data_frames.simps [simp del]

lemma data_frames_Nil [simp]: "data_frames q [] = []"
  by (simp add: data_frames.simps)

lemma data_frames_ne: "d \<noteq> [] \<Longrightarrow>
   data_frames q d = (le16 q @ take CAN_PAYLOAD_LEN d) # data_frames (q + 1) (drop CAN_PAYLOAD_LEN d)"
  by (simp add: data_frames.simps)

lemma co_block_done_stop:
  "co_block_done env dst s r w = Inr (s', r', stop, w') \<Longrightarrow> \<not> stop"
  by (auto simp: co_block_done_def Let_def need_def split: option.splits if_splits prod.splits bool.splits)

lemma co_block_done_last [simp]:
  "cbind (co_block_done env dst s r w) (\<lambda>(s', r', stop, w'). if stop then Inr (s', r', True, w')
     else can_feed env [] s' r' w') = co_block_done env dst s r w"
  using co_block_done_stop[of env dst s r w]
  by (cases "co_block_done env dst s r w") (auto split: prod.splits)

text \<open>One data frame that continues the block.\<close>

lemma receive_data:
  assumes "ota_doing s = CAN_OTA_IOT" "sender_work s = 0" "timecnt s \<noteq> 0"
    "wait_can_Id r = uint OTA_BLOCK_DATA" "pblock_buf s = Some buf"
    "unat (pblock_len s) + length x \<le> length buf" "length x \<le> 6" "recv_frame_seq r = q"
  shows "CanOtaReceiver env (Some (bus_msg (CAN_ID 2 0 OTA_BLOCK_DATA dst src, le16 q @ x))) s r w =
    (let s1 = s\<lparr>timecnt := 10000,
                pblock_buf := Some (take (unat (pblock_len s)) buf @ x @ drop (unat (pblock_len s) + length x) buf),
                pblock_len := pblock_len s + of_nat (length x)\<rparr>;
         r1 = r\<lparr>recv_frame_seq := q + 1\<rparr>
     in if q + 1 = frameTotal (ota_block s) then co_block_done env dst s1 r1 w else Inr (s1, r1, False, w))"
proof -
  let ?f = "bus_msg (CAN_ID 2 0 OTA_BLOCK_DATA dst src, le16 q @ x)"
  have len: "of_nat (length (le16 q @ x)) - (2::u8) = of_nat (length x)" by simp
  have un: "unat (of_nat (length x) :: u8) = length x" using assms(7) by (simp add: unat_of_nat)
  have dlc: "\<not> (of_nat (length (le16 q @ x)) :: u8) < 2"
  proof -
    have "unat (of_nat (2 + length x) :: u8) = 2 + length x"
      using assms(7) by (simp only: unat_of_nat) simp
    then have "unat (of_nat (length (le16 q @ x)) :: u8) = 2 + length x" by simp
    then show ?thesis by (simp add: word_less_nat_alt del: of_nat_Suc of_nat_add)
  qed
  have seq: "get16 (frame_data ?f) 0 = q"
    by (simp add: get16_def le16_def)
  have dat: "take (length x) (drop 2 (frame_data ?f)) = x"
    using assms(7) by (simp add: bus_msg_def le16_def eval_nat_numeral)
  have ndev: "CAN_OTA_IOT \<noteq> CAN_OTA_DEV" by (simp add: can_ota_states)
  show ?thesis
    using assms ndev dlc seq dat len un
    by (simp add: CanOtaReceiver_def co_timeout_def ota_funcs co_block_data_def Let_def del: of_nat_add length_append)
qed

lemma take_drop_append: "take n d @ drop n d @ y = d @ y"
  by (metis append_assoc append_take_drop_id)

lemma feed_data:
  assumes "ota_doing s = CAN_OTA_IOT" "sender_work s = 0" "timecnt s \<noteq> 0"
    "wait_can_Id r = uint OTA_BLOCK_DATA" "pblock_buf s = Some buf" "recv_frame_seq r = q" "d \<noteq> []"
    "unat (pblock_len s) + length d \<le> length buf" "unat (pblock_len s) + length d < 65536"
    "unat q + (length d + 5) div 6 = unat (frameTotal (ota_block s))"
  shows "can_feed env (map (\<lambda>p. bus_msg (CAN_ID 2 0 OTA_BLOCK_DATA dst src, p)) (data_frames q d)) s r w =
    co_block_done env dst (s\<lparr>timecnt := 10000,
        pblock_buf := Some (take (unat (pblock_len s)) buf @ d @ drop (unat (pblock_len s) + length d) buf),
        pblock_len := pblock_len s + of_nat (length d)\<rparr>) (r\<lparr>recv_frame_seq := frameTotal (ota_block s)\<rparr>) w"
  using assms
proof (induction "length d" arbitrary: d s r q buf rule: less_induct)
  case less
  let ?n = "unat (pblock_len s)"
  let ?x = "take 6 d"
  let ?s1 = "s\<lparr>timecnt := 10000, pblock_buf := Some (take ?n buf @ ?x @ drop (?n + length ?x) buf),
               pblock_len := pblock_len s + of_nat (length ?x)\<rparr>"
  let ?r1 = "r\<lparr>recv_frame_seq := q + 1\<rparr>"
  have step: "CanOtaReceiver env (Some (bus_msg (CAN_ID 2 0 OTA_BLOCK_DATA dst src, le16 q @ ?x))) s r w =
     (if q + 1 = frameTotal (ota_block s) then co_block_done env dst ?s1 ?r1 w else Inr (?s1, ?r1, False, w))"
    using receive_data[of s r buf ?x q env dst src w] less.prems by (simp add: Let_def)
  show ?case
  proof (cases "length d \<le> 6")
    case True
    have "1 \<le> length d" using less.prems(7) by (cases d) simp_all
    then have "(length d + 5) div 6 = 1" using True by linarith
    then have "unat (q + 1) = unat (frameTotal (ota_block s))"
      using less.prems(10) unsigned_less[of "frameTotal (ota_block s)", where 'a = nat]
      by (simp add: unat_word_ariths)
    then have "q + 1 = frameTotal (ota_block s)" by (simp only: word_unat_eq_iff)
    then show ?thesis using True step less.prems(7)
      by (simp add: data_frames_ne CAN_PAYLOAD_LEN_def del: can_feed_simps(1))
  next
    case False
    have ft: "unat q + 1 < unat (frameTotal (ota_block s))" using less.prems(10) False by linarith
    then have q1: "unat (q + 1) = unat q + 1"
      using unsigned_less[of "frameTotal (ota_block s)", where 'a = nat] by (simp add: unat_word_ariths)
    then have ne: "q + 1 \<noteq> frameTotal (ota_block s)" using ft by auto
    have pl: "unat (pblock_len s + 6) = ?n + 6"
      using less.prems(9) False by (simp add: unat_word_ariths)
    have ft': "unat q + 1 + (length d - 6 + 5) div 6 = unat (frameTotal (ota_block s))"
      using less.prems(10) False by linarith
    have IH: "can_feed env (map (\<lambda>p. bus_msg (CAN_ID 2 0 OTA_BLOCK_DATA dst src, p)) (data_frames (q + 1) (drop 6 d))) ?s1 ?r1 w =
       co_block_done env dst (?s1\<lparr>timecnt := 10000,
          pblock_buf := Some (take (?n + 6) (take ?n buf @ ?x @ drop (?n + 6) buf) @ drop 6 d @
             drop (?n + 6 + length (drop 6 d)) (take ?n buf @ ?x @ drop (?n + 6) buf)),
          pblock_len := pblock_len s + 6 + of_nat (length (drop 6 d))\<rparr>) (?r1\<lparr>recv_frame_seq := frameTotal (ota_block s)\<rparr>) w"
      using less.hyps[of "drop 6 d" ?s1 ?r1 "take ?n buf @ ?x @ drop (?n + 6) buf" "q + 1"] less.prems False q1 pl ft'
      by (simp add: min_def)
    have cat: "take (?n + 6) (take ?n buf @ ?x @ drop (?n + 6) buf) @ drop 6 d @
             drop (?n + 6 + length (drop 6 d)) (take ?n buf @ ?x @ drop (?n + 6) buf) =
        take ?n buf @ d @ drop (?n + length d) buf"
      using False less.prems(8) by (simp add: min_def take_drop_append add.commute)
    have lw: "pblock_len s + 6 + of_nat (length (drop 6 d)) = pblock_len s + of_nat (length d)"
      using False by (simp add: of_nat_diff)
    show ?thesis
      using step ne less.prems(7) IH[unfolded cat lw] False
      by (simp add: data_frames_ne CAN_PAYLOAD_LEN_def min_def)
  qed
qed

section \<open>Memory safety\<close>

text \<open>What a run keeps when every block is announced with \<open>T\<close> frames: the buffer holds \<open>T\<close> payloads, and
  while a block is coming in, no more than the received frames can have filled is in use.\<close>

definition co_inv :: "nat \<Rightarrow> CanOtaStruct \<Rightarrow> can_receiver \<Rightarrow> bool" where
  "co_inv T s r \<longleftrightarrow> (\<forall>b. pblock_buf s = Some b \<longrightarrow> length b = 6 * T) \<and>
     (wait_can_Id r = uint OTA_BLOCK_DATA \<longrightarrow> unat (frameTotal (ota_block s)) = T \<and>
        unat (pblock_len s) \<le> 6 * unat (recv_frame_seq r) \<and> unat (recv_frame_seq r) < T) \<and>
     (wait_can_Id r \<noteq> -1 \<longrightarrow> fileSize (ota_start s) \<noteq> 0)"

definition co_input_ok :: "nat \<Rightarrow> twai_message \<Rightarrow> bool" where
  "co_input_ok T f \<longleftrightarrow> length (frame_data f) = 8 \<and> data_length_code f \<le> 8 \<and>
     (id_funcode (msg_identifier f) = OTA_BLOCK_START \<longrightarrow> unat (frameTotal (block_of (frame_data f))) = T) \<and>
     (id_funcode (msg_identifier f) = OTA_START \<longrightarrow> fileSize (start_of (frame_data f)) \<noteq> 0)"

definition co_safe :: "nat \<Rightarrow> 'w co_result cres \<Rightarrow> bool" where
  "co_safe T m \<longleftrightarrow> (\<exists>s r stop w. m = Inr (s, r, stop, w) \<and> co_inv T s r)"

lemma co_safe_simps [simp]: "co_safe T (Inr (s, r, stop, w)) \<longleftrightarrow> co_inv T s r" "\<not> co_safe T (Inl e)"
  by (simp_all add: co_safe_def)

lemma wait_ids [simp]:
  "uint OTA_BLOCK_START = 115" "uint OTA_BLOCK_DATA = 116"
  by (simp_all add: ota_funcs)

lemma abort_own_simps [simp]:
  "wait_can_Id (fst (abort_own env r w)) = wait_can_Id r"
  "recv_frame_seq (fst (abort_own env r w)) = recv_frame_seq r"
  by (simp_all add: abort_own_def)

lemma co_inv_exit: "co_inv T s r \<Longrightarrow> co_inv T (can_ota_exit s) (fst (abort_own env r w))"
  by (simp add: co_inv_def can_ota_exit_def)

lemma co_inv_timer [simp]: "co_inv T (s\<lparr>timecnt := t\<rparr>) r = co_inv T s r"
  by (simp add: co_inv_def)

lemma co_timeout_inv:
  "co_inv T s r \<Longrightarrow> co_timeout env s r w = (s', r', w') \<Longrightarrow> co_inv T s' r'"
  using co_inv_exit[of T s r env w]
  by (auto simp: co_timeout_def split: if_splits prod.splits)

lemma co_start_inv:
  "co_inv T s r \<Longrightarrow> fileSize (start_of (frame_data f)) \<noteq> 0 \<Longrightarrow> co_safe T (Inr (co_start env f s r w))"
  by (auto simp: co_start_def co_inv_def Let_def split: prod.splits)

lemma co_block_start_inv:
  "co_inv T s r \<Longrightarrow> unat (frameTotal (block_of (frame_data f))) = T \<Longrightarrow> T \<noteq> 0 \<Longrightarrow>
   co_safe T (Inr (co_block_start env f s r w))"
  by (auto simp: co_block_start_def co_inv_def Let_def iot_calloc_def CAN_PAYLOAD_LEN_def can_ota_exit_def
      abort_own_def split: prod.splits option.splits)

lemma co_block_done_inv:
  assumes "\<forall>b. pblock_buf s = Some b \<longrightarrow> length b = 6 * T" "pblock_buf s \<noteq> None"
    "unat (pblock_len s) \<le> 6 * T" "fileSize (ota_start s) \<noteq> 0"
  shows "co_safe T (co_block_done env dst s r w)"
  using assms
  by (auto simp: co_block_done_def co_inv_def Let_def can_ota_exit_def abort_own_def need_def
      split: prod.splits option.splits bool.splits)

lemma unat_add_le: "unat (a + b :: 'a::len word) \<le> unat a + unat b"
  by (simp add: unat_word_ariths)

lemma unat_of_nat_le: "unat (of_nat n :: 'a::len word) \<le> n"
  by (simp only: unat_of_nat mod_less_eq_dividend)

lemma co_block_data_inv:
  assumes inv: "co_inv T s r" and "length (frame_data f) = 8" "data_length_code f \<le> 8"
  shows "co_safe T (co_block_data env f s r w)"
proof (cases "wait_can_Id r = 116 \<and> \<not> data_length_code f < 2")
  case False
  then show ?thesis using inv by (auto simp: co_block_data_def Let_def)
next
  case True
  let ?len = "unat (data_length_code f - 2)" let ?n = "unat (pblock_len s)" let ?q = "recv_frame_seq r"
  note i = inv[unfolded co_inv_def]
  have T: "unat (frameTotal (ota_block s)) = T" "?n \<le> 6 * unat ?q" "unat ?q < T" "fileSize (ota_start s) \<noteq> 0"
    using i True by auto
  have len: "?len \<le> 6"
  proof -
    have "unat (data_length_code f) \<le> 8" using assms(3) by (simp add: word_le_nat_alt)
    moreover have "2 \<le> data_length_code f" using True by (simp add: not_less)
    ultimately show ?thesis by (simp add: unat_sub)
  qed
  have T16: "T < 65536" using T(1) unsigned_less[of "frameTotal (ota_block s)", where 'a = nat] by simp
  have q1: "unat (?q + 1) = unat ?q + 1" using T(3) T16 by (simp add: unat_word_ariths)
  have pl: "unat (pblock_len s + of_nat ?len) \<le> ?n + ?len"
    by (rule order_trans[OF unat_add_le add_left_mono[OF unat_of_nat_le]])
  have qne: "?q \<noteq> frameTotal (ota_block s)" using T by auto
  show ?thesis
  proof (cases "pblock_buf s")
    case None
    then show ?thesis using True qne inv by (simp add: co_block_data_def Let_def)
  next
    case (Some buf)
    have lb: "length buf = 6 * T" using i Some by simp
    have room: "?n + ?len \<le> length buf" "?len + 2 \<le> length (frame_data f)"
      using T(2,3) len lb assms(2) by auto
    let ?s1 = "s\<lparr>timecnt := 10000,
        pblock_buf := Some (take ?n buf @ take ?len (drop 2 (frame_data f)) @ drop (?n + ?len) buf),
        pblock_len := pblock_len s + of_nat ?len\<rparr>"
    let ?r1 = "r\<lparr>recv_frame_seq := ?q + 1\<rparr>"
    have lb1: "length (take ?n buf @ take ?len (drop 2 (frame_data f)) @ drop (?n + ?len) buf) = 6 * T"
      using room lb by simp
    have pl1: "unat (pblock_len s + of_nat ?len) \<le> 6 * (unat ?q + 1)" by (rule order_trans[OF pl]) (use T(2) len in simp)
    have fin: "co_safe T (co_block_done env dst ?s1 ?r1 w)" for dst
      by (rule co_block_done_inv) (use lb1 T pl1 in auto)
    have go: "co_inv T ?s1 ?r1" if "?q + 1 \<noteq> frameTotal (ota_block s)"
    proof -
      have "unat (?q + 1) \<noteq> T" using that T(1) by (metis word_unat_eq_iff)
      then have "unat (?q + 1) < T" using T(3) q1 by linarith
      then show ?thesis using pl1 lb1 T q1 True by (simp add: co_inv_def)
    qed
    have keep: "co_inv T (s\<lparr>timecnt := 10000\<rparr>) (r\<lparr>wait_can_Id := 115\<rparr>)" using i T by (simp add: co_inv_def)
    show ?thesis
    proof (cases "get16 (frame_data f) 0 = ?q")
      case seq: True
      show ?thesis
        using True Some room fin go seq
        by (cases "?q + 1 = frameTotal (ota_block s)") (simp_all add: co_block_data_def Let_def)
    next
      case False
      then show ?thesis using True Some keep by (simp add: co_block_data_def Let_def)
    qed
  qed
qed

lemma CanOtaReceiver_inv:
  assumes "co_inv T s r" "T \<noteq> 0" "\<And>f. fr = Some f \<Longrightarrow> co_input_ok T f"
  shows "co_safe T (CanOtaReceiver env fr s r w)"
proof -
  obtain s1 r1 w1 where t: "co_timeout env s r w = (s1, r1, w1)" by (cases "co_timeout env s r w") auto
  note inv = co_timeout_inv[OF assms(1) t]
  have "co_safe T (Inr (co_ready s1 r1 w1))" using inv by (simp add: co_ready_def co_inv_def)
  moreover have "co_safe T (Inr (co_end env f s1 r1 w1))" for f
    using inv by (auto simp: co_end_def co_inv_def Let_def can_ota_exit_def split: prod.splits)
  moreover have "co_input_ok T f \<Longrightarrow> id_funcode (msg_identifier f) = OTA_START \<Longrightarrow> co_safe T (Inr (co_start env f s1 r1 w1))" for f
    using co_start_inv[OF inv, of f env w1] by (simp add: co_input_ok_def)
  moreover have "co_input_ok T f \<Longrightarrow> id_funcode (msg_identifier f) = OTA_BLOCK_START \<Longrightarrow> co_safe T (Inr (co_block_start env f s1 r1 w1))" for f
    using co_block_start_inv[OF inv, of f env w1] assms(2) by (simp add: co_input_ok_def)
  moreover have "co_input_ok T f \<Longrightarrow> co_safe T (co_block_data env f s1 r1 w1)" for f
    using co_block_data_inv[OF inv, of f env w1] by (simp add: co_input_ok_def)
  ultimately show ?thesis
    using assms(1,3) t inv by (cases fr) (simp_all add: CanOtaReceiver_def Let_def)
qed

lemma can_run_inv:
  "co_inv T s r \<Longrightarrow> T \<noteq> 0 \<Longrightarrow> \<forall>(x, fr) \<in> set es. \<forall>f. fr = Some f \<longrightarrow> co_input_ok T f \<Longrightarrow>
   co_safe T (can_run env es s r w)"
proof (induction es arbitrary: s r w)
  case (Cons e es)
  obtain x fr where e: "e = (x, fr)" by (cases e)
  let ?s = "if x then s\<lparr>timecnt := 0\<rparr> else s"
  have "co_safe T (CanOtaReceiver env fr ?s r w)"
    by (rule CanOtaReceiver_inv) (use Cons.prems e in auto)
  then obtain s' r' stop w' where m: "CanOtaReceiver env fr ?s r w = Inr (s', r', stop, w')" "co_inv T s' r'"
    by (auto simp: co_safe_def)
  then show ?case using Cons e by auto
qed simp

text \<open>When the boot loader refuses the received image the error is answered, and the board restarts all the
  same.\<close>

lemma co_end_restarts_anyway:
  assumes "ota_doing s = CAN_OTA_IOT" "frame_data f ! 0 = fileType (ota_start s)" "is_esp_ota r" "fst (ota_end env w) = False"
  shows "\<exists>s' r' w'. co_end env f s r w = (s', r', True, w')"
  using assms by (simp add: co_end_def Let_def split: prod.splits)

section \<open>A whole block\<close>

text \<open>What the sender puts on the bus for one block: the announcement and the data frames.\<close>

definition block_msgs :: "u8 \<Rightarrow> u8 \<Rightarrow> OtaBlock \<Rightarrow> u8 list \<Rightarrow> (u32 \<times> u8 list) list" where
  "block_msgs dst src b d = (CAN_ID 2 0 OTA_BLOCK_START dst src, block_bytes b) #
     map (\<lambda>p. (CAN_ID 2 0 OTA_BLOCK_DATA dst src, p)) (data_frames 0 d)"

lemma length_block_bytes [simp]: "length (block_bytes b) = 8"
  by (simp add: block_bytes_def)

text \<open>A receiver that waits for a block, in a transfer to this board.\<close>

definition co_waiting :: "CanOtaStruct \<Rightarrow> can_receiver \<Rightarrow> bool" where
  "co_waiting s r \<longleftrightarrow> ota_doing s = CAN_OTA_IOT \<and> sender_work s = 0 \<and> timecnt s \<noteq> 0 \<and> is_esp_ota r \<and>
     wait_can_Id r = uint OTA_BLOCK_START"

lemma co_timeout_waiting: "co_waiting s r \<Longrightarrow> co_timeout env s r w = (s, r, w)"
  by (simp add: co_waiting_def co_timeout_def)

lemma co_waitingD:
  "co_waiting s r \<Longrightarrow> ota_doing s \<noteq> CAN_OTA_DEV" "co_waiting s r \<Longrightarrow> sender_work s = 0"
  by (simp_all add: co_waiting_def can_ota_states)

lemma receive_block_start:
  assumes "co_waiting s r"
  shows "CanOtaReceiver env (Some (bus_msg (CAN_ID 2 0 OTA_BLOCK_START dst src, block_bytes b))) s r w =
    Inr (co_block_start env (bus_msg (CAN_ID 2 0 OTA_BLOCK_START dst src, block_bytes b)) s r w)"
  using co_timeout_waiting[OF assms, of env w] co_waitingD[OF assms]
  by (simp add: CanOtaReceiver_def ota_funcs)

lemma receive_data_ignored:
  assumes "co_waiting s r"
  shows "CanOtaReceiver env (Some (bus_msg (CAN_ID 2 0 OTA_BLOCK_DATA dst src, d))) s r w = Inr (s, r, False, w)"
  using assms co_timeout_waiting[OF assms, of env w] co_waitingD[OF assms]
  by (simp add: CanOtaReceiver_def co_block_data_def co_waiting_def ota_funcs)

lemma feed_data_ignored:
  "co_waiting s r \<Longrightarrow>
   can_feed env (map (\<lambda>p. bus_msg (CAN_ID 2 0 OTA_BLOCK_DATA dst src, p)) ps) s r w = Inr (s, r, False, w)"
  by (induction ps) (simp_all add: receive_data_ignored)

text \<open>A block other than the expected one is taken in silence.\<close>

lemma feed_other_block:
  assumes "co_waiting s r" "pblock_buf s \<noteq> None" "blockSeq b \<noteq> blockSeq (ota_block s)"
  shows "can_feed env (map bus_msg (block_msgs dst src b d)) s r w = Inr (s\<lparr>timecnt := 10000\<rparr>, r, False, w)"
proof -
  have w: "co_waiting (s\<lparr>timecnt := 10000\<rparr>) r" using assms(1) by (simp add: co_waiting_def)
  obtain buf where buf: "pblock_buf s = Some buf" using assms(2) by auto
  then have upd: "s\<lparr>timecnt := 10000, pblock_buf := Some buf\<rparr> = s\<lparr>timecnt := 10000\<rparr>" by simp
  show ?thesis
    using assms receive_block_start[OF assms(1), of env dst src b w] feed_data_ignored[OF w, of env dst src "data_frames 0 d" w]
      buf upd
    by (simp add: block_msgs_def co_block_start_def co_waiting_def comp_def)
qed

text \<open>The expected block is collected, checked and written.\<close>

lemma feed_block:
  assumes "co_waiting s r" "blockSeq b = blockSeq (ota_block s)" "d \<noteq> []" "length d < 65536"
    "unat (frameTotal b) = (length d + 5) div 6"
    "case pblock_buf s of None \<Rightarrow> iot_calloc_ok env (6 * unat (frameTotal b)) | Some buf \<Rightarrow> length d \<le> length buf"
  shows "\<exists>rest. length (d @ rest) = (case pblock_buf s of None \<Rightarrow> 6 * unat (frameTotal b) | Some buf \<Rightarrow> length buf) \<and>
    can_feed env (map bus_msg (block_msgs dst src b d)) s r w =
    co_block_done env dst (s\<lparr>ota_block := b, timecnt := 10000, pblock_buf := Some (d @ rest),
        pblock_len := of_nat (length d)\<rparr>)
      (r\<lparr>wait_can_Id := uint OTA_BLOCK_DATA, recv_frame_seq := frameTotal b\<rparr>) w"
proof -
  let ?size = "case pblock_buf s of None \<Rightarrow> 6 * unat (frameTotal b) | Some buf \<Rightarrow> length buf"
  have "length d \<le> 6 * unat (frameTotal b)" unfolding assms(5) by presburger
  then have "\<exists>buf. (case pblock_buf s of Some b \<Rightarrow> Some b | None \<Rightarrow> iot_calloc env (CAN_PAYLOAD_LEN * unat (frameTotal b))) = Some buf \<and>
      length d \<le> length buf \<and> length buf = ?size"
    using assms(6) by (cases "pblock_buf s") (simp_all add: iot_calloc_def CAN_PAYLOAD_LEN_def)
  then obtain buf where buf: "(case pblock_buf s of Some b \<Rightarrow> Some b | None \<Rightarrow> iot_calloc env (CAN_PAYLOAD_LEN * unat (frameTotal b))) = Some buf"
      "length d \<le> length buf" and lbuf: "length buf = ?size" by blast
  let ?s1 = "s\<lparr>timecnt := 10000, pblock_buf := Some buf, pblock_len := 0, ota_block := b\<rparr>"
  let ?r1 = "r\<lparr>recv_frame_seq := 0, wait_can_Id := uint OTA_BLOCK_DATA\<rparr>"
  have st: "CanOtaReceiver env (Some (bus_msg (CAN_ID 2 0 OTA_BLOCK_START dst src, block_bytes b))) s r w =
      Inr (?s1, ?r1, False, w)"
    unfolding receive_block_start[OF assms(1)] using assms(1,2) buf
    by (simp add: co_block_start_def co_waiting_def Let_def)
  have "can_feed env (map (\<lambda>p. bus_msg (CAN_ID 2 0 OTA_BLOCK_DATA dst src, p)) (data_frames 0 d)) ?s1 ?r1 w =
    co_block_done env dst (?s1\<lparr>timecnt := 10000,
        pblock_buf := Some (take (unat (pblock_len ?s1)) buf @ d @ drop (unat (pblock_len ?s1) + length d) buf),
        pblock_len := pblock_len ?s1 + of_nat (length d)\<rparr>) (?r1\<lparr>recv_frame_seq := frameTotal (ota_block ?s1)\<rparr>) w"
    by (rule feed_data) (use assms buf in \<open>simp_all add: co_waiting_def\<close>)
  then have "can_feed env (map bus_msg (block_msgs dst src b d)) s r w =
    co_block_done env dst (s\<lparr>ota_block := b, timecnt := 10000, pblock_buf := Some (d @ drop (length d) buf),
        pblock_len := of_nat (length d)\<rparr>)
      (r\<lparr>wait_can_Id := uint OTA_BLOCK_DATA, recv_frame_seq := frameTotal b\<rparr>) w"
    using st by (simp add: block_msgs_def comp_def)
  moreover have "length (d @ drop (length d) buf) = length buf" using buf(2) by simp
  ultimately show ?thesis using lbuf by metis
qed

section \<open>A node\<close>

text \<open>A board whose memories work and whose bus takes every frame: the image flash, the update partition
  as far as written, the frames sent, and whether the update was completed.\<close>

record can_node =
  node_flash :: "nat \<Rightarrow> u8"
  update_part :: "u8 list"
  bus_out :: "(u32 \<times> u8 list) list"
  update_ended :: bool

definition node_env :: "u8 \<Rightarrow> u32 \<Rightarrow> can_node co_env" where
  "node_env addr ver = \<lparr>image_write = (\<lambda>a d w. (True, w\<lparr>node_flash := mem_write (unat a) d (node_flash w)\<rparr>)),
     image_read = (\<lambda>a n w. Some (map (\<lambda>i. node_flash w (unat a + i)) [0..<n])),
     image_erase = (\<lambda>a n w. (True, w)), ota_begin = (\<lambda>w. (True, w\<lparr>update_part := []\<rparr>)),
     ota_write = (\<lambda>d w. (True, w\<lparr>update_part := update_part w @ d\<rparr>)),
     ota_end = (\<lambda>w. (True, w\<lparr>update_ended := True\<rparr>)), ota_abort = (\<lambda>w. (True, w\<lparr>update_part := []\<rparr>)),
     buffer_alloc_ok = True, crc_alloc_ok = True, timer_create_ok = True, TypeCnt = 15,
     own_software_ver = ver, dcdc_software_ver = 0,
     can_tx = (\<lambda>i d w. (True, w\<lparr>bus_out := bus_out w @ [(i, d)]\<rparr>)), iot_calloc_ok = (\<lambda>n. True),
     my_address = addr, total_pct = (\<lambda>p. p), alarm_clr = (\<lambda>w. w), rx_clear = (\<lambda>w. w)\<rparr>"

lemma node_env_simps [simp]:
  "image_read (node_env a v) x n w = Some (map (\<lambda>i. node_flash w (unat x + i)) [0..<n])"
  "ota_begin (node_env a v) w = (True, w\<lparr>update_part := []\<rparr>)"
  "ota_write (node_env a v) d w = (True, w\<lparr>update_part := update_part w @ d\<rparr>)"
  "ota_end (node_env a v) w = (True, w\<lparr>update_ended := True\<rparr>)"
  "OTA_SendFrame (node_env a v) cmd d dst w = (True, w\<lparr>bus_out := bus_out w @ [(CAN_ID 2 0 cmd dst a, d)]\<rparr>)"
  "TypeCnt (node_env a v) = 15" "own_software_ver (node_env a v) = v" "iot_calloc_ok (node_env a v) n"
  "total_pct (node_env a v) p = p" "alarm_clr (node_env a v) w = w" "rx_clear (node_env a v) w = w"
  "iot_calloc (node_env a v) n = Some (replicate n 0)"
  by (simp_all add: node_env_def OTA_SendFrame_def iot_calloc_def)

definition idle_node :: can_node where
  "idle_node = \<lparr>node_flash = (\<lambda>_. 0), update_part = [], bus_out = [], update_ended = False\<rparr>"

definition idle_can_ota :: CanOtaStruct where
  "idle_can_ota = \<lparr>ota_start = \<lparr>fileType = 0, fileVersion = 0, fileSize = 0, dev_id = 0\<rparr>,
     ota_block = \<lparr>blockSeq = 0, frameTotal = 0, blockCrc16 = 0, retryCnt = 0, block_nc = 0\<rparr>,
     ota_end_cmd = \<lparr>end_fileType = 0, fileCrc32 = 0\<rparr>, pct_78H = \<lparr>pct_type = 0, pct_pct = 0\<rparr>,
     pblock_buf = None, pblock_len = 0, ota_offset = 0, main_step = 0, resendCnt = 0, devCnt = 0,
     timecnt = 0, ota_doing = CAN_OTA_IDLE, fileOK = 0, ota_crc32 = 0,
     devStatus = replicate 255 \<lparr>isOta = 0, waitAck = 0, dev_where = 0, dev_type = 0, errCode = 0, dev_pct = 0, dev_level = 0\<rparr>,
     sender_work = 0, sender_type = 0, sender_target_id = 0, sender_main_ver = 0, retry_max_count = 0,
     can_busy = 0, period_cmd_delay = 0\<rparr>"

definition idle_receiver :: can_receiver where
  "idle_receiver = \<lparr>recv_frame_seq = 0, wait_can_Id = -1, is_esp_ota = False\<rparr>"

section \<open>Properties\<close>

text \<open>C38: Memory safety of the receiver: when all blocks are announced with the same non-zero number of
  frames and every start command with a non-zero image size, it survives every sequence of frames and
  expired timers, whatever boot loader, bus and allocator do: no write leaves the block buffer, no
  read a frame, no null pointer is followed, nothing is divided by zero.\<close>

theorem can_receiver_memory_safe:
  assumes "wait_can_Id r = -1" "pblock_buf s = None" "T \<noteq> 0"
    and "\<forall>(x, fr) \<in> set es. \<forall>f. fr = Some f \<longrightarrow> co_input_ok T f"
  shows "\<exists>s' r' stop w'. can_run env es s r w = Inr (s', r', stop, w') \<and> co_inv T s' r'"
proof -
  have "co_inv T s r" using assms(1,2) by (simp add: co_inv_def)
  from can_run_inv[OF this assms(3,4)] show ?thesis by (simp add: co_safe_def)
qed

theorem can_receiver_memory_safe_witness:
  "\<exists>s' r' stop w'. can_run (node_env 1 80200)
     [(False, Some (bus_msg (CAN_ID 2 0 OTA_START 1 9, start_bytes \<lparr>fileType = 0, fileVersion = 80201, fileSize = 4, dev_id = 1\<rparr>))),
      (False, Some (bus_msg (CAN_ID 2 0 OTA_BLOCK_START 1 9, block_bytes \<lparr>blockSeq = 0, frameTotal = 171, blockCrc16 = 7, retryCnt = 0, block_nc = 0\<rparr>))),
      (False, Some (bus_msg (CAN_ID 2 0 OTA_BLOCK_DATA 1 9, [0, 0, 1, 2, 3, 4, 5, 6]))),
      (True, None)] idle_can_ota idle_receiver idle_node = Inr (s', r', stop, w') \<and> co_inv 171 s' r'"
  by (rule can_receiver_memory_safe)
     (simp_all add: idle_receiver_def idle_can_ota_def co_input_ok_def ota_funcs)

text \<open>The hypothesis on equal announcements is needed: the buffer is allocated for the first announced
  block, even one that is refused for its number, and kept; when the expected block is then announced
  with more frames, its data run over the end of the buffer.\<close>

theorem can_receiver_overflow:
  assumes "co_waiting s r" "pblock_buf s = None" "iot_calloc_ok env 6"
    and "blockSeq b1 \<noteq> blockSeq (ota_block s)" "frameTotal b1 = 1"
    and "blockSeq b2 = blockSeq (ota_block s)" "frameTotal b2 = 2"
    and "length d = 12"
  shows "can_feed env (map bus_msg (block_msgs dst src b1 [] @ block_msgs dst src b2 d)) s r w =
    Inl Out_Of_Bounds_Write"
proof -
  have "d \<noteq> []" using assms(8) by auto
  have df: "data_frames 0 d = [le16 0 @ take 6 d, le16 1 @ drop 6 d]"
    using assms(8) by (simp add: data_frames_ne CAN_PAYLOAD_LEN_def \<open>d \<noteq> []\<close>)
  let ?s1 = "s\<lparr>timecnt := 10000, pblock_buf := Some (replicate 6 0)\<rparr>"
  let ?s2 = "?s1\<lparr>pblock_len := 0, ota_block := b2\<rparr>"
  let ?r2 = "r\<lparr>recv_frame_seq := 0, wait_can_Id := uint OTA_BLOCK_DATA\<rparr>"
  have w1: "co_waiting ?s1 r" using assms(1) by (simp add: co_waiting_def)
  have "CanOtaReceiver env (Some (bus_msg (CAN_ID 2 0 OTA_BLOCK_START dst src, block_bytes b1))) s r w = Inr (?s1, r, False, w)"
    unfolding receive_block_start[OF assms(1)] using assms(1-5)
    by (simp add: co_block_start_def co_waiting_def CAN_PAYLOAD_LEN_def iot_calloc_def)
  moreover have "CanOtaReceiver env (Some (bus_msg (CAN_ID 2 0 OTA_BLOCK_START dst src, block_bytes b2))) ?s1 r w = Inr (?s2, ?r2, False, w)"
    unfolding receive_block_start[OF w1] using assms(1,6)
    by (simp add: co_block_start_def co_waiting_def)
  moreover have "CanOtaReceiver env (Some (bus_msg (CAN_ID 2 0 OTA_BLOCK_DATA dst src, le16 0 @ take 6 d))) ?s2 ?r2 w =
      Inr (?s2\<lparr>pblock_buf := Some (take 6 d), pblock_len := 6\<rparr>, ?r2\<lparr>recv_frame_seq := 1\<rparr>, False, w)"
    using receive_data[of ?s2 ?r2 "replicate 6 0" "take 6 d" 0 env dst src w] assms(1,7,8)
    by (simp add: co_waiting_def min_def)
  moreover have "CanOtaReceiver env (Some (bus_msg (CAN_ID 2 0 OTA_BLOCK_DATA dst src, le16 1 @ drop 6 d)))
      (?s2\<lparr>pblock_buf := Some (take 6 d), pblock_len := 6\<rparr>) (?r2\<lparr>recv_frame_seq := 1\<rparr>) w = Inl Out_Of_Bounds_Write"
    using assms(1,8)
    by (simp add: CanOtaReceiver_def co_timeout_def co_block_data_def co_waiting_def ota_funcs can_ota_states
        get16_def le16_def Let_def min_def)
  ultimately show ?thesis by (simp add: block_msgs_def df)
qed

theorem can_receiver_overflow_witness:
  "can_feed (node_env 1 80200) (map bus_msg
     (block_msgs 1 9 \<lparr>blockSeq = 1, frameTotal = 1, blockCrc16 = 0, retryCnt = 0, block_nc = 0\<rparr> [] @
      block_msgs 1 9 \<lparr>blockSeq = 0, frameTotal = 2, blockCrc16 = 0, retryCnt = 0, block_nc = 0\<rparr> (replicate 12 7)))
     (idle_can_ota\<lparr>ota_doing := CAN_OTA_IOT, timecnt := 10000\<rparr>)
     (idle_receiver\<lparr>is_esp_ota := True, wait_can_Id := uint OTA_BLOCK_START\<rparr>) idle_node = Inl Out_Of_Bounds_Write"
  by (rule can_receiver_overflow) (simp_all add: co_waiting_def idle_can_ota_def idle_receiver_def)

end
