(* ===== verification/Can_Ota_Sender.thy ===== *)
theory Can_Ota_Sender
  imports Can_Ota
begin

text \<open>
  The sending side of the firmware transfer over CAN, \<open>iot_can/can_ota/can_ota_sender.c\<close>: one function per
  main step of \<open>CanOtaSender\<close>, called with the received frame or none.  It reads the image from the
  flash area into which \<open>Xmodem_Client\<close> stored it and sends it to the nodes that run \<open>Can_Ota\<close>.
\<close>

definition NUM_MAX_CAN_OTA_DEVICE_STATUS :: nat where "NUM_MAX_CAN_OTA_DEVICE_STATUS = 255"
definition CAN_OTA_PERIOD_TIMEOUT :: int where "CAN_OTA_PERIOD_TIMEOUT = 6000"
definition OTA_IDLE :: u8 where "OTA_IDLE = 0"
definition OTA_DOING :: u8 where "OTA_DOING = 1"
definition IOT_TO_DEV :: u8 where "IOT_TO_DEV = 1"

lemmas ota_dev_codes = OTA_IDLE_def OTA_DOING_def IOT_TO_DEV_def

section \<open>The steps\<close>

definition OTA_ErrCode_Set :: "u8 \<Rightarrow> CanOtaStruct \<Rightarrow> CanOtaStruct" where
  "OTA_ErrCode_Set err s =
     s\<lparr>devStatus := map (\<lambda>d. d\<lparr>isOta := OTA_IDLE, errCode := err\<rparr>) (devStatus s)\<rparr>"

text \<open>The entry of one device; the table ends before the broadcast address.\<close>

definition upd_dev :: "u8 \<Rightarrow> (OtaDevice \<Rightarrow> OtaDevice) \<Rightarrow> CanOtaStruct \<Rightarrow> CanOtaStruct" where
  "upd_dev i f s = s\<lparr>devStatus := (devStatus s)[unat i := f (devStatus s ! unat i)]\<rparr>"

definition with_dev :: "u8 \<Rightarrow> CanOtaStruct \<Rightarrow> 'a cres \<Rightarrow> 'a cres" where
  "with_dev i s r = (if unat i < length (devStatus s) then r else Inl Out_Of_Bounds_Write)"

definition exit_ota :: "u8 \<Rightarrow> CanOtaStruct \<Rightarrow> CanOtaStruct" where
  "exit_ota retries s = s\<lparr>main_step := 8, resendCnt := 0, retry_max_count := retries\<rparr>"

definition cs_init :: "'w co_env \<Rightarrow> CanOtaStruct \<Rightarrow> CanOtaStruct" where
  "cs_init env s =
     (if sender_type s \<ge> TypeCnt env then OTA_ErrCode_Set OTA_ERR_FILE_TYPE (s\<lparr>sender_work := 0\<rparr>)
      else s\<lparr>devStatus := map (\<lambda>d. d\<lparr>dev_level := 1, dev_type := fileType (ota_start s), errCode := DATA_NORMAL,
                                   dev_where := IOT_TO_DEV, dev_pct := 0\<rparr>) (devStatus s),
             resendCnt := 0, main_step := main_step s + 1, retry_max_count := 5, ota_doing := CAN_OTA_DEV,
             period_cmd_delay := CAN_OTA_PERIOD_TIMEOUT\<rparr>)"

definition cs_ready :: "'w co_env \<Rightarrow> CanOtaStruct \<Rightarrow> 'w \<Rightarrow> CanOtaStruct \<times> 'w" where
  "cs_ready env s w =
     (if resendCnt s \<ge> retry_max_count s then (OTA_ErrCode_Set OTA_ERR_CAN_BUSY (exit_ota 1 s), w)
      else case OTA_SendFrame env OTA_READY (start_bytes (ota_start s)) CAN_BROADCAST_ADDRESS w of
        (False, w1) \<Rightarrow> (OTA_ErrCode_Set OTA_ERR_CAN_ERR (s\<lparr>sender_work := 0\<rparr>), w1)
      | (True, w1) \<Rightarrow>
          (s\<lparr>can_busy := 0, resendCnt := resendCnt s + 1, timecnt := 3000, main_step := main_step s + 1,
             period_cmd_delay := CAN_OTA_PERIOD_TIMEOUT\<rparr>, alarm_clr env w1))"

definition cs_wait_free :: "twai_message option \<Rightarrow> CanOtaStruct \<Rightarrow> CanOtaStruct" where
  "cs_wait_free fr s =
     (let s1 = (if timecnt s \<noteq> 0 then s
                else if can_busy s \<noteq> 0 then s\<lparr>main_step := main_step s - 1\<rparr>
                else s\<lparr>resendCnt := 0, main_step := main_step s + 1, retry_max_count := 5\<rparr>)
      in case fr of None \<Rightarrow> s1
         | Some f \<Rightarrow> if id_funcode (msg_identifier f) \<noteq> OTA_IN_BOOT then s1\<lparr>can_busy := 1\<rparr> else s1)"

definition cs_start :: "'w co_env \<Rightarrow> CanOtaStruct \<Rightarrow> 'w \<Rightarrow> CanOtaStruct \<times> 'w" where
  "cs_start env s w =
     (if resendCnt s \<ge> retry_max_count s then (OTA_ErrCode_Set OTA_ERR_NO_RESP (exit_ota 1 s), w)
      else case OTA_SendFrame env OTA_START (start_bytes (ota_start s)) (ucast (sender_target_id s)) w of
        (False, w1) \<Rightarrow> (OTA_ErrCode_Set OTA_ERR_CAN_ERR (s\<lparr>retry_max_count := 1, main_step := 8\<rparr>), w1)
      | (True, w1) \<Rightarrow>
          (s\<lparr>resendCnt := resendCnt s + 1, devCnt := 0, timecnt := 5000, main_step := main_step s + 1\<rparr>,
           alarm_clr env w1))"

definition cs_start_ack :: "twai_message \<Rightarrow> CanOtaStruct \<Rightarrow> CanOtaStruct cres" where
  "cs_start_ack f s =
     (let src = id_src (msg_identifier f); c = frame_data f ! 0; e = frame_data f ! 1;
          s1 = s\<lparr>timecnt := 2000\<rparr>;
          doing = upd_dev src (\<lambda>d. d\<lparr>isOta := OTA_DOING\<rparr>);
          gone = upd_dev src (\<lambda>d. d\<lparr>isOta := OTA_IDLE, errCode := e\<rparr>)
      in if id_funcode (msg_identifier f) \<noteq> OTA_START_ACK then Inr s
         else if c = DATA_NORMAL then with_dev src s
           (let s2 = upd_dev src (\<lambda>d. d\<lparr>errCode := DATA_NORMAL\<rparr>) s1 in
            if sender_target_id s = ucast CAN_BROADCAST_ADDRESS then Inr (doing (s2\<lparr>devCnt := devCnt s + 1\<rparr>))
            else if sender_target_id s = ucast src
              then Inr ((doing (s2\<lparr>devCnt := devCnt s + 1\<rparr>))\<lparr>timecnt := 100\<rparr>)
            else Inr s2)
         else if c = DATA_EXIT then
           (if sender_target_id s = ucast CAN_BROADCAST_ADDRESS then with_dev src s (Inr (gone s1))
            else if sender_target_id s = ucast src then with_dev src s (Inr (exit_ota 1 (gone s1)))
            else Inr s1)
         else Inr s1)"

definition cs_wait_start :: "'w co_env \<Rightarrow> twai_message option \<Rightarrow> CanOtaStruct \<Rightarrow> CanOtaStruct cres" where
  "cs_wait_start env fr s =
     (if timecnt s = 0 then
        (if devCnt s = 0 then Inr (s\<lparr>main_step := main_step s - 1\<rparr>)
         else
           let s1 = s\<lparr>ota_offset := 0, ota_block := \<lparr>blockSeq = 0, frameTotal = 0, blockCrc16 = 0, retryCnt = 0, block_nc = 0\<rparr>,
                      pblock_len := 1024,
                      pblock_buf := (case pblock_buf s of Some b \<Rightarrow> Some b | None \<Rightarrow> iot_calloc env 1024)\<rparr>
           in Inr (if pblock_buf s1 = None
                   then (OTA_ErrCode_Set OTA_ERR_MEMONY s1)\<lparr>retry_max_count := 1, main_step := 8\<rparr>
                   else s1\<lparr>main_step := main_step s + 1\<rparr>))
      else case fr of None \<Rightarrow> Inr s | Some f \<Rightarrow> cs_start_ack f s)"

definition cs_load :: "'w co_env \<Rightarrow> CanOtaStruct \<Rightarrow> 'w \<Rightarrow> CanOtaStruct cres" where
  "cs_load env s w =
     (let n = unat (pblock_len s);
          prepare = (\<lambda>b. need n b (Inr (s\<lparr>pblock_buf := Some b,
             ota_block := (ota_block s)\<lparr>blockCrc16 := CalcCrc16_Xmodem b (pblock_len s),
                                       frameTotal := of_nat ((n + CAN_PAYLOAD_LEN - 1) div CAN_PAYLOAD_LEN)\<rparr>,
             main_step := main_step s + 1\<rparr>)))
      in if ota_offset s div 1024 < ucast (fileSize (ota_start s)) \<and> pblock_buf s \<noteq> None then
           (if n > length (the (pblock_buf s)) then Inl Out_Of_Bounds_Write
            else case image_read env (IMAGE_FLASH_AREA_ADDRESS + ota_offset s) n w of
                None \<Rightarrow> prepare (the (pblock_buf s))
              | Some bs \<Rightarrow> prepare (bs @ drop (length bs) (the (pblock_buf s))))
         else if ota_offset s div 1024 = ucast (fileSize (ota_start s)) then Inr (exit_ota 5 s)
         else case pblock_buf s of None \<Rightarrow> Inl Null_Call | Some b \<Rightarrow> prepare b)"

text \<open>The data frames of a block; \<open>False\<close> when the queue refuses one.\<close>

function cs_send_data :: "'w co_env \<Rightarrow> u8 \<Rightarrow> u16 \<Rightarrow> u8 list \<Rightarrow> 'w \<Rightarrow> bool \<times> 'w" where
  "cs_send_data env dst q d w =
     (if d = [] then (True, w)
      else case OTA_SendFrame env OTA_BLOCK_DATA (le16 q @ take CAN_PAYLOAD_LEN d) dst w of
        (False, w1) \<Rightarrow> (False, w1)
      | (True, w1) \<Rightarrow> cs_send_data env dst (q + 1) (drop CAN_PAYLOAD_LEN d) w1)"
  by pat_completeness auto

termination cs_send_data
  by (relation "measure (\<lambda>(env, dst, q, d, w). length d)") (auto simp: CAN_PAYLOAD_LEN_def)

declare cs_send_data.simps [simp del]

text \<open>For a broadcast the devices that take part are marked as owing an answer.\<close>

definition cs_mark :: "CanOtaStruct \<Rightarrow> CanOtaStruct" where
  "cs_mark s = s\<lparr>devCnt := of_nat (length (filter (\<lambda>d. isOta d = OTA_DOING) (devStatus s))),
     devStatus := map (\<lambda>d. d\<lparr>waitAck := (if isOta d = OTA_DOING then 1 else 0)\<rparr>) (devStatus s)\<rparr>"

definition block_pct :: "CanOtaStruct \<Rightarrow> u8" where
  "block_pct s = of_nat (unat (blockSeq (ota_block s)) * 100 div unat (fileSize (ota_start s)))"

definition cs_send_block :: "'w co_env \<Rightarrow> CanOtaStruct \<Rightarrow> 'w \<Rightarrow> (CanOtaStruct \<times> 'w) cres" where
  "cs_send_block env s w =
     (if fileSize (ota_start s) = 0 then Inl Division_By_Zero
      else
        let s1 = s\<lparr>pct_78H := \<lparr>pct_type = fileType (ota_start s), pct_pct = total_pct env (block_pct s)\<rparr>\<rparr>;
            dst = ucast (sender_target_id s);
            w1 = snd (OTA_SendFrame env OTA_PCT (pct_bytes (pct_78H s1)) CAN_BROADCAST_ADDRESS w);
            (sent, w2) = OTA_SendFrame env OTA_BLOCK_START (block_bytes (ota_block s)) dst w1;
            fail = exit_ota 1 (OTA_ErrCode_Set OTA_ERR_CAN_ERR s1)
        in if \<not> sent then Inr (fail, w2)
           else if unat (pblock_len s) = 0 then Inr (s1\<lparr>ota_block := (ota_block s)\<lparr>retryCnt := resendCnt s\<rparr>,
               main_step := main_step s + 1, resendCnt := resendCnt s + 1, timecnt := 6000\<rparr>, w2)
           else case pblock_buf s of None \<Rightarrow> Inl Null_Call
           | Some b \<Rightarrow> need (unat (pblock_len s)) b
               (case cs_send_data env dst 0 (take (unat (pblock_len s)) b) w2 of
                  (False, w3) \<Rightarrow> Inr (fail, w3)
                | (True, w3) \<Rightarrow> Inr (s1\<lparr>ota_block := (ota_block s)\<lparr>retryCnt := resendCnt s\<rparr>,
                     main_step := main_step s + 1, resendCnt := resendCnt s + 1, timecnt := 6000\<rparr>, w3)))"

definition cs_block :: "'w co_env \<Rightarrow> CanOtaStruct \<Rightarrow> 'w \<Rightarrow> (CanOtaStruct \<times> 'w) cres" where
  "cs_block env s w =
     (if resendCnt s \<ge> retry_max_count s then Inr (exit_ota 1 (OTA_ErrCode_Set OTA_ERR_NO_RESP s), w)
      else if sender_target_id s = ucast CAN_BROADCAST_ADDRESS then
        (let s1 = cs_mark s in if devCnt s1 = 0 then Inr (exit_ota 1 s1, w) else cs_send_block env s1 w)
      else cs_send_block env s w)"

definition all_acked :: "CanOtaStruct \<Rightarrow> bool" where
  "all_acked s = (\<forall>d \<in> set (devStatus s). \<not> (isOta d = OTA_DOING \<and> waitAck d = 1))"

definition cs_block_ack :: "'w co_env \<Rightarrow> twai_message \<Rightarrow> CanOtaStruct \<Rightarrow> 'w \<Rightarrow> (CanOtaStruct \<times> 'w) cres" where
  "cs_block_ack env f s w =
     (let src = id_src (msg_identifier f); c = frame_data f ! 0; s1 = s\<lparr>timecnt := 2000\<rparr>
      in with_dev src s
        (if isOta (devStatus s ! unat src) \<noteq> OTA_DOING then Inr (s, w)
         else if c = DATA_NORMAL then
           (if fileSize (ota_start s) = 0 then Inl Division_By_Zero
            else
              let pct = block_pct s;
                  s2 = upd_dev src (\<lambda>d. d\<lparr>waitAck := 0, errCode := 0, dev_pct := (if pct > 100 then 100 else pct)\<rparr>) s1
              in Inr (if all_acked s2
                      then s2\<lparr>main_step := main_step s - 2, resendCnt := 0, ota_offset := ota_offset s + ucast (pblock_len s),
                              ota_block := (ota_block s)\<lparr>blockSeq := blockSeq (ota_block s) + 1\<rparr>\<rparr>
                      else s2, w))
         else if c = DATA_RESEND then Inr (s1\<lparr>main_step := main_step s - 1\<rparr>, rx_clear env w)
         else if c = DATA_EXIT then
           Inr (upd_dev src (\<lambda>d. d\<lparr>isOta := OTA_IDLE, waitAck := 0, errCode := frame_data f ! 1\<rparr>)
                  (s1\<lparr>resendCnt := 0\<rparr>), w)
         else Inr (s1, w)))"

definition cs_wait_block ::
    "'w co_env \<Rightarrow> twai_message option \<Rightarrow> CanOtaStruct \<Rightarrow> 'w \<Rightarrow> (CanOtaStruct \<times> 'w) cres" where
  "cs_wait_block env fr s w =
     (if timecnt s = 0 then Inr (s\<lparr>main_step := main_step s - 1\<rparr>, w)
      else case fr of None \<Rightarrow> Inr (s, w)
      | Some f \<Rightarrow> if id_funcode (msg_identifier f) = OTA_BLOCK_DATA_ACK then cs_block_ack env f s w else Inr (s, w))"

definition cs_end :: "'w co_env \<Rightarrow> CanOtaStruct \<Rightarrow> 'w \<Rightarrow> CanOtaStruct \<times> 'w" where
  "cs_end env s w =
     (if resendCnt s \<ge> retry_max_count s
      then (OTA_ErrCode_Set OTA_ERR_NO_RESP (s\<lparr>resendCnt := 0, main_step := 10\<rparr>), w)
      else
        let n = length (filter (\<lambda>d. isOta d = OTA_DOING) (devStatus s));
            s1 = s\<lparr>devCnt := of_nat n, devStatus := map (\<lambda>d. if isOta d = OTA_DOING
                     then d\<lparr>waitAck := 1, errCode := OTA_ERR_NORMAL\<rparr> else d) (devStatus s)\<rparr>
        in if devCnt s1 = 0 then (s1\<lparr>main_step := 10, resendCnt := 0, sender_work := 0\<rparr>, w)
           else
             let s2 = s1\<lparr>ota_end_cmd := (ota_end_cmd s)\<lparr>end_fileType := sender_type s\<rparr>\<rparr>
             in case OTA_SendFrame env OTA_END (end_bytes (ota_end_cmd s2)) CAN_BROADCAST_ADDRESS w of
                  (False, w1) \<Rightarrow> (OTA_ErrCode_Set OTA_ERR_CAN_ERR (s2\<lparr>resendCnt := 0\<rparr>), w1)
                | (True, w1) \<Rightarrow> (s2\<lparr>resendCnt := resendCnt s + 1, timecnt := 5000, main_step := main_step s + 1\<rparr>, w1))"

definition cs_end_ack :: "'w co_env \<Rightarrow> twai_message \<Rightarrow> CanOtaStruct \<Rightarrow> 'w \<Rightarrow> (CanOtaStruct \<times> 'w) cres" where
  "cs_end_ack env f s w =
     (let src = id_src (msg_identifier f); e = frame_data f ! 1;
          s1 = upd_dev src (\<lambda>d. d\<lparr>waitAck := 0\<rparr>) (s\<lparr>timecnt := 2000\<rparr>);
          finish = (\<lambda>s2. if all_acked s2
             then s2\<lparr>devStatus := map (\<lambda>d. if isOta d = OTA_DOING then d\<lparr>isOta := OTA_IDLE, errCode := 0\<rparr> else d) (devStatus s2),
                     main_step := main_step s + 1\<rparr>
             else s2)
      in with_dev src s
        (if e \<noteq> 0 then Inr (finish (upd_dev src (\<lambda>d. d\<lparr>isOta := OTA_IDLE, errCode := e\<rparr>) s1), w)
         else if fileSize (ota_start s) = 0 then Inl Division_By_Zero
         else
           let p = block_pct s;
               s2 = (upd_dev src (\<lambda>d. d\<lparr>dev_pct := (if p > 100 then 100 else p)\<rparr>) s1)
                      \<lparr>pct_78H := \<lparr>pct_type = fileType (ota_start s), pct_pct = total_pct env p\<rparr>\<rparr>
           in Inr (finish s2, snd (OTA_SendFrame env OTA_PCT (pct_bytes (pct_78H s2)) CAN_BROADCAST_ADDRESS w))))"

definition cs_wait_end ::
    "'w co_env \<Rightarrow> twai_message option \<Rightarrow> CanOtaStruct \<Rightarrow> 'w \<Rightarrow> (CanOtaStruct \<times> 'w) cres" where
  "cs_wait_end env fr s w =
     (if timecnt s = 0 then Inr (s\<lparr>main_step := main_step s - 1\<rparr>, w)
      else case fr of None \<Rightarrow> Inr (s, w)
      | Some f \<Rightarrow> if id_funcode (msg_identifier f) = OTA_END_ACK then cs_end_ack env f s w else Inr (s, w))"

definition cs_exit :: "CanOtaStruct \<Rightarrow> CanOtaStruct" where
  "cs_exit s = s\<lparr>sender_work := 0, main_step := 0, resendCnt := 0, pblock_buf := None\<rparr>"

definition cs_step ::
    "'w co_env \<Rightarrow> twai_message option \<Rightarrow> CanOtaStruct \<Rightarrow> 'w \<Rightarrow> (CanOtaStruct \<times> 'w) cres" where
  "cs_step env fr s w =
     (if main_step s = 0 then Inr (cs_init env s, w)
      else if main_step s = 1 then Inr (cs_ready env s w)
      else if main_step s = 2 then Inr (cs_wait_free fr s, w)
      else if main_step s = 3 then Inr (cs_start env s w)
      else if main_step s = 4 then cbind (cs_wait_start env fr s) (\<lambda>s'. Inr (s', w))
      else if main_step s = 5 then cbind (cs_load env s w) (\<lambda>s'. Inr (s', w))
      else if main_step s = 6 then cs_block env s w
      else if main_step s = 7 then cs_wait_block env fr s w
      else if main_step s = 8 then Inr (cs_end env s w)
      else if main_step s = 9 then cs_wait_end env fr s w
      else if main_step s = 10 then Inr (cs_exit s, w)
      else Inr (s\<lparr>main_step := 0, resendCnt := 0\<rparr>, w))"

definition CanOtaSender ::
    "'w co_env \<Rightarrow> twai_message option \<Rightarrow> CanOtaStruct \<Rightarrow> 'w \<Rightarrow> (CanOtaStruct \<times> 'w) cres" where
  "CanOtaSender env fr s w =
     (if sender_work s = 0 then Inr (s\<lparr>main_step := 0\<rparr>, w)
      else cbind (cs_step env fr s w) (\<lambda>(s', w').
        Inr (if sender_work s' = 0 then s'\<lparr>ota_doing := CAN_OTA_IDLE\<rparr> else s', w')))"

definition CanOtaSender_Begin :: "u8 \<Rightarrow> u8 \<Rightarrow> u32 \<Rightarrow> CanOtaStruct \<Rightarrow> CanOtaStruct" where
  "CanOtaSender_Begin i t version s =
     (if sender_work s \<noteq> 0 \<or> ota_doing s \<noteq> CAN_OTA_IDLE then s
      else s\<lparr>sender_work := 1, sender_type := t, sender_main_ver := version div 100, sender_target_id := ucast i\<rparr>)"

text \<open>An empty image is announced, acknowledged, ended, and divides by its size at the last answer.\<close>

lemma cs_end_ack_empty_image:
  assumes "fileSize (ota_start s) = 0" "frame_data f ! 1 = 0" "unat (id_src (msg_identifier f)) < length (devStatus s)"
  shows "cs_end_ack env f s w = Inl Division_By_Zero"
  using assms by (simp add: cs_end_ack_def with_dev_def Let_def)

section \<open>Two boards on a bus\<close>

text \<open>A sending and a receiving board.  In a cycle the sender is called with the oldest answer of the
  receiver, its timer possibly run down before, and what it sends is delivered to the receiver in order;
  a restarted receiver is off the bus.\<close>

record can_sys =
  tx_s :: CanOtaStruct
  tx_w :: can_node
  rx_s :: CanOtaStruct
  rx_r :: can_receiver
  rx_w :: can_node
  rx_restart :: bool

definition can_cycle :: "u8 \<Rightarrow> u8 \<Rightarrow> u32 \<Rightarrow> bool \<Rightarrow> can_sys \<Rightarrow> can_sys cres" where
  "can_cycle sa ra ver expired y =
     (let fr = (case bus_out (rx_w y) of [] \<Rightarrow> None | m # _ \<Rightarrow> Some (bus_msg m));
          s = (if expired then (tx_s y)\<lparr>timecnt := 0\<rparr> else tx_s y)
      in cbind (CanOtaSender (node_env sa 0) fr s ((tx_w y)\<lparr>bus_out := []\<rparr>)) (\<lambda>(s', ws).
           let y1 = y\<lparr>tx_s := s', tx_w := ws, rx_w := (rx_w y)\<lparr>bus_out := tl (bus_out (rx_w y))\<rparr>\<rparr>
           in if rx_restart y then Inr y1
              else cbind (can_feed (node_env ra ver) (map bus_msg (bus_out ws)) (rx_s y) (rx_r y) (rx_w y1))
                (\<lambda>(s2, r2, stop, wr). Inr (y1\<lparr>rx_s := s2, rx_r := r2, rx_w := wr, rx_restart := stop\<rparr>))))"

fun can_cycles :: "u8 \<Rightarrow> u8 \<Rightarrow> u32 \<Rightarrow> bool list \<Rightarrow> can_sys \<Rightarrow> can_sys cres" where
  "can_cycles sa ra ver [] y = Inr y"
| "can_cycles sa ra ver (x # xs) y = cbind (can_cycle sa ra ver x y) (can_cycles sa ra ver xs)"

lemma can_cycles_append:
  "can_cycles sa ra ver (xs @ ys) y = cbind (can_cycles sa ra ver xs y) (can_cycles sa ra ver ys)"
  by (induction xs arbitrary: y) (auto simp: cbind_def split: sum.splits)

lemma can_cycle_run:
  assumes "CanOtaSender (node_env sa 0) (case bus_out (rx_w y) of [] \<Rightarrow> None | m # _ \<Rightarrow> Some (bus_msg m))
      (if expired then (tx_s y)\<lparr>timecnt := 0\<rparr> else tx_s y) ((tx_w y)\<lparr>bus_out := []\<rparr>) = Inr (s', ws)"
    and "\<not> rx_restart y"
    and "can_feed (node_env ra ver) (map bus_msg (bus_out ws)) (rx_s y) (rx_r y)
      ((rx_w y)\<lparr>bus_out := tl (bus_out (rx_w y))\<rparr>) = Inr (s2, r2, stop, wr)"
  shows "can_cycle sa ra ver expired y =
    Inr (y\<lparr>tx_s := s', tx_w := ws, rx_s := s2, rx_r := r2, rx_w := wr, rx_restart := stop\<rparr>)"
  using assms by (simp add: can_cycle_def Let_def)

lemma cs_send_data_node:
  "cs_send_data (node_env a v) dst q d w = (True, w\<lparr>bus_out := bus_out w @
     map (\<lambda>p. (CAN_ID 2 0 OTA_BLOCK_DATA dst a, p)) (data_frames q d)\<rparr>)"
proof (induction "length d" arbitrary: d q w rule: less_induct)
  case less
  show ?case
  proof (cases "d = []")
    case True
    then show ?thesis by (simp add: cs_send_data.simps)
  next
    case False
    then have "length (drop CAN_PAYLOAD_LEN d) < length d" by (simp add: CAN_PAYLOAD_LEN_def)
    then show ?thesis using less[of "drop CAN_PAYLOAD_LEN d"] False
      by (simp add: cs_send_data.simps[of _ _ _ d] data_frames_ne)
  qed
qed

lemma read_mem_bytes: "map (\<lambda>i. m (a + i)) [0..<n] = mem_bytes m a n"
  by (rule nth_equalityI) (simp_all add: mem_bytes_def)

text \<open>The device table while one board takes part.\<close>

definition one_device :: "u8 \<Rightarrow> OtaDevice list \<Rightarrow> bool" where
  "one_device ra ds \<longleftrightarrow> length ds = 255 \<and> unat ra < 255 \<and>
     (\<forall>i < 255. isOta (ds ! i) = (if i = unat ra then OTA_DOING else OTA_IDLE))"

lemma one_device_filter:
  assumes "one_device ra ds"
  shows "length (filter (\<lambda>d. isOta d = OTA_DOING) ds) = 1"
proof -
  have "{i. i < length ds \<and> isOta (ds ! i) = OTA_DOING} = {unat ra}"
    using assms by (auto simp: one_device_def OTA_IDLE_def OTA_DOING_def split: if_splits)
  then show ?thesis by (simp add: length_filter_conv_card)
qed

lemma one_device_upd:
  "one_device ra ds \<Longrightarrow> isOta (f (ds ! unat ra)) = OTA_DOING \<Longrightarrow> one_device ra (ds[unat ra := f (ds ! unat ra)])"
  by (simp add: one_device_def nth_list_update)

lemma one_device_upd_dev:
  "one_device ra (devStatus s) \<Longrightarrow> (\<And>d. isOta (f d) = isOta d) \<Longrightarrow> one_device ra (devStatus (upd_dev ra f s))"
  by (simp add: one_device_def upd_dev_def nth_list_update)

lemma one_device_states: "one_device ra ds \<Longrightarrow> d \<in> set ds \<Longrightarrow> isOta d = OTA_DOING \<or> isOta d = OTA_IDLE"
  unfolding one_device_def in_set_conv_nth by metis

lemma one_device_cleared:
  assumes "one_device ra ds"
    and "d \<in> set (map (\<lambda>d. if isOta d = OTA_DOING then d\<lparr>isOta := OTA_IDLE, errCode := 0\<rparr> else d) ds)"
  shows "isOta d = OTA_IDLE"
  using assms(2) one_device_states[OF assms(1)] by (auto split: if_splits)

lemma one_device_map:
  "one_device ra ds \<Longrightarrow> (\<And>d. isOta (f d) = isOta d) \<Longrightarrow> one_device ra (map f ds)"
  by (simp add: one_device_def)

lemma one_device_acked:
  assumes "one_device ra (devStatus s)" "waitAck (devStatus s ! unat ra) \<noteq> 1"
  shows "all_acked s"
proof -
  have "i = unat ra" if "i < 255" "isOta (devStatus s ! i) = OTA_DOING" for i
    using assms(1) that by (auto simp: one_device_def OTA_IDLE_def OTA_DOING_def split: if_splits)
  moreover have "length (devStatus s) = 255" using assms(1) by (simp add: one_device_def)
  ultimately show ?thesis using assms(2) unfolding all_acked_def by (metis in_set_conv_nth)
qed

definition tx_ok :: "u8 \<Rightarrow> u8 \<Rightarrow> nat \<Rightarrow> nat \<Rightarrow> CanOtaStruct \<Rightarrow> bool" where
  "tx_ok ra dst n k s \<longleftrightarrow> sender_work s \<noteq> 0 \<and> ota_offset s = of_nat (1024 * k) \<and>
     blockSeq (ota_block s) = of_nat k \<and> pblock_len s = 1024 \<and> retry_max_count s = 5 \<and>
     sender_target_id s = ucast dst \<and> dst \<in> {ra, CAN_BROADCAST_ADDRESS} \<and> one_device ra (devStatus s) \<and>
     fileSize (ota_start s) = of_nat n \<and> sender_type s = 0"

definition rx_ok :: "(nat \<Rightarrow> u8) \<Rightarrow> nat \<Rightarrow> nat \<Rightarrow> CanOtaStruct \<Rightarrow> can_receiver \<Rightarrow> can_node \<Rightarrow> bool" where
  "rx_ok mem n k s r w \<longleftrightarrow> co_waiting s r \<and> blockSeq (ota_block s) = of_nat k \<and>
     fileSize (ota_start s) = of_nat n \<and> fileType (ota_start s) = 0 \<and>
     (case pblock_buf s of None \<Rightarrow> True | Some b \<Rightarrow> length b = 1026) \<and>
     update_part w = mem_bytes mem 8192 (1024 * k)"

lemma rx_ok_bus [simp]: "rx_ok mem n k s r (w\<lparr>bus_out := out\<rparr>) = rx_ok mem n k s r w"
  by (simp add: rx_ok_def)

text \<open>Before the load of block \<open>k\<close>, before its transmission, and with its answer on the way.\<close>

definition sys_load :: "u8 \<Rightarrow> u8 \<Rightarrow> (nat \<Rightarrow> u8) \<Rightarrow> nat \<Rightarrow> nat \<Rightarrow> can_sys \<Rightarrow> bool" where
  "sys_load ra dst mem n k y \<longleftrightarrow> tx_ok ra dst n k (tx_s y) \<and> main_step (tx_s y) = 5 \<and> resendCnt (tx_s y) < 5 \<and>
     (\<exists>b. pblock_buf (tx_s y) = Some b \<and> length b = 1024) \<and> node_flash (tx_w y) = mem \<and>
     rx_ok mem n k (rx_s y) (rx_r y) (rx_w y) \<and> bus_out (rx_w y) = [] \<and> \<not> rx_restart y"

definition sys_send :: "u8 \<Rightarrow> u8 \<Rightarrow> (nat \<Rightarrow> u8) \<Rightarrow> nat \<Rightarrow> nat \<Rightarrow> can_sys \<Rightarrow> bool" where
  "sys_send ra dst mem n k y \<longleftrightarrow> tx_ok ra dst n k (tx_s y) \<and> main_step (tx_s y) = 6 \<and> resendCnt (tx_s y) < 5 \<and>
     pblock_buf (tx_s y) = Some (mem_bytes mem (8192 + 1024 * k) 1024) \<and>
     blockCrc16 (ota_block (tx_s y)) = CalcCrc16_Xmodem (mem_bytes mem (8192 + 1024 * k) 1024) 1024 \<and>
     frameTotal (ota_block (tx_s y)) = 171 \<and> node_flash (tx_w y) = mem \<and>
     rx_ok mem n k (rx_s y) (rx_r y) (rx_w y) \<and> bus_out (rx_w y) = [] \<and> \<not> rx_restart y"

definition sys_ack :: "u8 \<Rightarrow> u8 \<Rightarrow> (nat \<Rightarrow> u8) \<Rightarrow> nat \<Rightarrow> nat \<Rightarrow> can_sys \<Rightarrow> bool" where
  "sys_ack ra dst mem n k y \<longleftrightarrow> tx_ok ra dst n k (tx_s y) \<and> main_step (tx_s y) = 7 \<and> timecnt (tx_s y) \<noteq> 0 \<and>
     (\<exists>b. pblock_buf (tx_s y) = Some b \<and> length b = 1024) \<and> node_flash (tx_w y) = mem \<and>
     rx_ok mem n (Suc k) (rx_s y) (rx_r y) (rx_w y) \<and> \<not> rx_restart y \<and>
     (\<exists>d. bus_out (rx_w y) = [(CAN_ID 2 0 OTA_BLOCK_DATA_ACK dst ra, d)] \<and> length d = 8 \<and> d ! 0 = DATA_NORMAL)"

lemma cycle_load:
  assumes "sys_load ra dst mem n k y" "k < n" "n < 65536"
  shows "\<exists>y'. can_cycle sa ra ver False y = Inr y' \<and> sys_send ra dst mem n k y'"
proof -
  obtain b where b: "pblock_buf (tx_s y) = Some b" "length b = 1024" using assms(1) by (auto simp: sys_load_def)
  have u: "unat (IMAGE_FLASH_AREA_ADDRESS + of_nat (1024 * k)) = 8192 + 1024 * k"
    using assms(2,3) by (simp add: IMAGE_FLASH_AREA_ADDRESS_def unat_word_ariths unat_of_nat_32 del: of_nat_mult)
  have lt: "(of_nat (1024 * k) :: u32) div 1024 < ucast (of_nat n :: u16)"
    using assms(2,3) by (simp add: word_less_nat_alt unat_div unat_of_nat_32 unat_ucast_u16_u32 unat_of_nat_16 del: of_nat_mult)
  have ld: "cs_load (node_env sa 0) (tx_s y) ((tx_w y)\<lparr>bus_out := []\<rparr>) =
     Inr ((tx_s y)\<lparr>pblock_buf := Some (mem_bytes mem (8192 + 1024 * k) 1024),
            ota_block := (ota_block (tx_s y))\<lparr>blockCrc16 := CalcCrc16_Xmodem (mem_bytes mem (8192 + 1024 * k) 1024) 1024,
               frameTotal := 171\<rparr>, main_step := 6\<rparr>)"
    using assms(1) b lt
    by (simp add: cs_load_def sys_load_def tx_ok_def u read_mem_bytes CAN_PAYLOAD_LEN_def Let_def del: of_nat_mult)
  show ?thesis
    using assms(1)
    by (simp add: can_cycle_def CanOtaSender_def cs_step_def ld sys_load_def sys_send_def tx_ok_def Let_def)
qed

lemma mem_bytes_Suc_block:
  "mem_bytes m a (1024 + 1024 * k) = mem_bytes m a (1024 * k) @ mem_bytes m (a + 1024 * k) 1024"
proof -
  have "[a..<a + (1024 * k + 1024)] = [a..<a + 1024 * k] @ [a + 1024 * k..<a + 1024 * k + 1024]"
    using upt_add_eq_append[of a "a + 1024 * k" 1024] by (simp add: add.assoc)
  then show ?thesis by (simp add: mem_bytes_def add.commute)
qed

lemma feed_pct:
  assumes "co_waiting s r"
  shows "CanOtaReceiver env (Some (bus_msg (CAN_ID 2 0 OTA_PCT dst src, d))) s r w = Inr (s, r, False, w)"
  using co_timeout_waiting[OF assms, of env w] co_waitingD[OF assms]
  by (simp add: CanOtaReceiver_def ota_funcs)

text \<open>What the receiver does with the progress and the frames of the block that is due.\<close>

lemma feed_due_block:
  assumes rx: "rx_ok mem n k s r w" "bus_out w = []" and k: "k < n" "n < 65536"
    and b: "blockSeq b = of_nat k" "frameTotal b = 171" "blockCrc16 b = CalcCrc16_Xmodem d 1024"
      "d = mem_bytes mem (8192 + 1024 * k) 1024"
  shows "\<exists>s' r' w' e. can_feed (node_env ra ver)
       (map bus_msg ((CAN_ID 2 0 OTA_PCT CAN_BROADCAST_ADDRESS sa, p) # block_msgs dst sa b d)) s r w =
       Inr (s', r', False, w') \<and> rx_ok mem n (Suc k) s' r' w' \<and>
     bus_out w' = [(CAN_ID 2 0 OTA_BLOCK_DATA_ACK dst ra, e)] \<and> length e = 8 \<and> e ! 0 = DATA_NORMAL"
proof -
  have wt: "co_waiting s r" using rx by (simp add: rx_ok_def)
  have len: "length d = 1024" using b(4) by simp
  then have dne: "d \<noteq> []" by auto
  obtain rest where f: "length (d @ rest) = (case pblock_buf s of None \<Rightarrow> 6 * unat (frameTotal b) | Some buf \<Rightarrow> length buf)"
    "can_feed (node_env ra ver) (map bus_msg (block_msgs dst sa b d)) s r w =
      co_block_done (node_env ra ver) dst (s\<lparr>ota_block := b, timecnt := 10000, pblock_buf := Some (d @ rest),
        pblock_len := of_nat (length d)\<rparr>)
      (r\<lparr>wait_can_Id := uint OTA_BLOCK_DATA, recv_frame_seq := frameTotal b\<rparr>) w"
    using feed_block[OF wt, of b d "node_env ra ver" dst sa w] rx b(1,2) dne len
    by (auto simp: rx_ok_def split: option.splits)
  have n0: "(of_nat n :: u16) \<noteq> 0"
    using k by (metis unat_of_nat_16 unsigned_0 not_less0)
  have crc: "CalcCrc16_Xmodem (d @ rest) 1024 = CalcCrc16_Xmodem d 1024"
    using len by (simp add: CalcCrc16_Xmodem_def)
  have lr: "length (d @ rest) = 1026"
    using f(1) rx b(2) by (auto simp: rx_ok_def split: option.splits)
  show ?thesis
    using f(2) feed_pct[OF wt, of "node_env ra ver" CAN_BROADCAST_ADDRESS sa p w] rx b len n0 crc lr
    by (simp add: co_block_done_def rx_ok_def co_waiting_def mem_bytes_Suc_block Let_def)
qed

lemma ucast_u8_u16 [simp]:
  "((ucast a :: u16) = ucast b) = (a = (b :: u8))" "(ucast (ucast a :: u16) :: u8) = a"
proof -
  have "unat (ucast x :: u16) = unat x" for x :: u8
    using unsigned_less[of x, where 'a = nat] by (simp add: unsigned_ucast_eq take_bit_nat_eq_self)
  then show "((ucast a :: u16) = ucast b) = (a = b)" by (metis word_unat_eq_iff)
  show "(ucast (ucast a :: u16) :: u8) = a" by (rule bit_word_eqI) (auto simp: bit_simps)
qed

text \<open>What the sender puts on the bus for a block.\<close>

lemma send_block_node:
  assumes "fileSize (ota_start s) \<noteq> 0" "pblock_len s = 1024" "pblock_buf s = Some d" "length d = 1024"
    "sender_target_id s = ucast dst"
  shows "\<exists>p. cs_send_block (node_env sa v) s w = Inr (s\<lparr>pct_78H := p, ota_block := (ota_block s)\<lparr>retryCnt := resendCnt s\<rparr>,
      main_step := main_step s + 1, resendCnt := resendCnt s + 1, timecnt := 6000\<rparr>,
      w\<lparr>bus_out := bus_out w @ (CAN_ID 2 0 OTA_PCT CAN_BROADCAST_ADDRESS sa, pct_bytes p) # block_msgs dst sa (ota_block s) d\<rparr>)"
  using assms by (auto simp: cs_send_block_def Let_def cs_send_data_node block_msgs_def)

lemma cycle_send:
  assumes y: "sys_send ra dst mem n k y" and k: "k < n" "n < 65536"
  shows "\<exists>y'. can_cycle sa ra ver False y = Inr y' \<and> sys_ack ra dst mem n k y'"
proof -
  let ?d = "mem_bytes mem (8192 + 1024 * k) 1024" let ?b = "ota_block (tx_s y)" let ?c = "resendCnt (tx_s y)"
  let ?s = "if dst = CAN_BROADCAST_ADDRESS then cs_mark (tx_s y) else tx_s y"
  have tx: "tx_ok ra dst n k (tx_s y)" "pblock_buf (tx_s y) = Some ?d" "resendCnt (tx_s y) < 5" "main_step (tx_s y) = 6"
    using y by (simp_all add: sys_send_def)
  have n0: "(of_nat n :: u16) \<noteq> 0" using k by (metis unat_of_nat_16 unsigned_0 not_less0)
  have dc: "devCnt (cs_mark (tx_s y)) \<noteq> 0"
    using one_device_filter[of ra "devStatus (tx_s y)"] tx(1) by (simp add: cs_mark_def tx_ok_def)
  have blk: "cs_block (node_env sa 0) (tx_s y) w = cs_send_block (node_env sa 0) ?s w" for w
    using tx(1,2,4) tx(3)[folded not_le] dc by (simp add: cs_block_def tx_ok_def Let_def)
  have s_eqs: "fileSize (ota_start ?s) \<noteq> 0" "pblock_len ?s = 1024" "pblock_buf ?s = Some ?d" "length ?d = 1024"
      "sender_target_id ?s = ucast dst" "ota_block ?s = ?b" "resendCnt ?s = ?c" "main_step ?s = 6"
    using tx n0 by (simp_all add: cs_mark_def tx_ok_def)
  have txs: "tx_ok ra dst n k ?s"
    using tx(1) one_device_map by (simp add: cs_mark_def tx_ok_def)
  obtain p where snd_eq: "cs_send_block (node_env sa 0) ?s ((tx_w y)\<lparr>bus_out := []\<rparr>) =
     Inr (?s\<lparr>pct_78H := p, ota_block := ?b\<lparr>retryCnt := ?c\<rparr>, main_step := 7, resendCnt := ?c + 1, timecnt := 6000\<rparr>,
      (tx_w y)\<lparr>bus_out := (CAN_ID 2 0 OTA_PCT CAN_BROADCAST_ADDRESS sa, pct_bytes p) # block_msgs dst sa ?b ?d\<rparr>)"
    using send_block_node[OF s_eqs(1-5), of sa 0 "(tx_w y)\<lparr>bus_out := []\<rparr>"] s_eqs(6-8) by auto
  have rx: "rx_ok mem n k (rx_s y) (rx_r y) (rx_w y)" "bus_out (rx_w y) = []"
    using y by (simp_all add: sys_send_def)
  have b: "blockSeq ?b = of_nat k" "frameTotal ?b = 171" "blockCrc16 ?b = CalcCrc16_Xmodem ?d 1024"
    using y by (simp_all add: sys_send_def tx_ok_def)
  obtain s' r' w' e where fd: "can_feed (node_env ra ver) (map bus_msg ((CAN_ID 2 0 OTA_PCT CAN_BROADCAST_ADDRESS sa, pct_bytes p) #
        block_msgs dst sa ?b ?d)) (rx_s y) (rx_r y) (rx_w y) = Inr (s', r', False, w')" "rx_ok mem n (Suc k) s' r' w'"
      "bus_out w' = [(CAN_ID 2 0 OTA_BLOCK_DATA_ACK dst ra, e)]" "length e = 8" "e ! 0 = DATA_NORMAL"
    using feed_due_block[OF rx k b refl, of ra ver sa "pct_bytes p" dst] by blast
  have wr: "(rx_w y)\<lparr>bus_out := []\<rparr> = rx_w y" using rx(2) by simp
  have st: "CanOtaSender (node_env sa 0) None (tx_s y) ((tx_w y)\<lparr>bus_out := []\<rparr>) =
     Inr (?s\<lparr>pct_78H := p, ota_block := ?b\<lparr>retryCnt := ?c\<rparr>, main_step := 7, resendCnt := ?c + 1, timecnt := 6000\<rparr>,
      (tx_w y)\<lparr>bus_out := (CAN_ID 2 0 OTA_PCT CAN_BROADCAST_ADDRESS sa, pct_bytes p) # block_msgs dst sa ?b ?d\<rparr>)"
    using tx txs blk snd_eq by (simp add: CanOtaSender_def cs_step_def tx_ok_def)
  let ?s' = "?s\<lparr>pct_78H := p, ota_block := ?b\<lparr>retryCnt := ?c\<rparr>, main_step := 7, resendCnt := ?c + 1, timecnt := 6000\<rparr>"
  let ?w' = "(tx_w y)\<lparr>bus_out := (CAN_ID 2 0 OTA_PCT CAN_BROADCAST_ADDRESS sa, pct_bytes p) # block_msgs dst sa ?b ?d\<rparr>"
  have s'_eqs: "tx_ok ra dst n k ?s'" "main_step ?s' = 7" "timecnt ?s' \<noteq> 0" "pblock_buf ?s' = Some ?d"
    using txs s_eqs(3,6) by (simp_all add: tx_ok_def)
  have bo: "bus_out ?w' = (CAN_ID 2 0 OTA_PCT CAN_BROADCAST_ADDRESS sa, pct_bytes p) # block_msgs dst sa ?b ?d" by simp
  have fd': "can_feed (node_env ra ver) (map bus_msg (bus_out ?w')) (rx_s y) (rx_r y)
      ((rx_w y)\<lparr>bus_out := tl (bus_out (rx_w y))\<rparr>) = Inr (s', r', False, w')"
    unfolding bo rx(2) list.sel wr by (rule fd(1))
  have "can_cycle sa ra ver False y = Inr (y\<lparr>tx_s := ?s', tx_w := ?w',
      rx_s := s', rx_r := r', rx_w := w', rx_restart := False\<rparr>)" (is "_ = Inr ?y")
    by (rule can_cycle_run[OF _ _ fd']) (use y in \<open>simp_all add: st rx(2) sys_send_def\<close>)
  moreover have "sys_ack ra dst mem n k ?y"
    unfolding sys_ack_def can_sys.select_convs can_sys.update_convs using fd(2-5) s'_eqs y by (simp add: sys_send_def)
  ultimately show ?thesis by blast
qed

lemma cycle_ack:
  assumes y: "sys_ack ra dst mem n k y" and k: "k < n" "n < 65536"
  shows "\<exists>y'. can_cycle sa ra ver False y = Inr y' \<and> sys_load ra dst mem n (Suc k) y'"
proof -
  obtain b d where b: "pblock_buf (tx_s y) = Some b" "length b = 1024"
    and d: "bus_out (rx_w y) = [(CAN_ID 2 0 OTA_BLOCK_DATA_ACK dst ra, d)]" "length d = 8" "d ! 0 = DATA_NORMAL"
    using y by (auto simp: sys_ack_def)
  have tx: "tx_ok ra dst n k (tx_s y)" "main_step (tx_s y) = 7" "timecnt (tx_s y) \<noteq> 0"
    using y by (simp_all add: sys_ack_def)
  have dev: "one_device ra (devStatus (tx_s y))" using tx(1) by (simp add: tx_ok_def)
  have di: "unat ra < length (devStatus (tx_s y))" "isOta (devStatus (tx_s y) ! unat ra) = OTA_DOING"
    using dev by (simp_all add: one_device_def)
  have n0: "(of_nat n :: u16) \<noteq> 0" using k by (metis unat_of_nat_16 unsigned_0 not_less0)
  let ?g = "\<lambda>p x. x\<lparr>waitAck := 0, errCode := 0, dev_pct := p\<rparr>"
  have dev': "one_device ra ((devStatus (tx_s y))[unat ra := ?g p (devStatus (tx_s y) ! unat ra)])" for p
    by (rule one_device_upd[OF dev, of "?g p"]) (simp add: di)
  have acked: "all_acked (upd_dev ra (?g p) ((tx_s y)\<lparr>timecnt := 2000\<rparr>))" for p
    by (rule one_device_acked[of ra]) (use dev' di in \<open>simp_all add: upd_dev_def\<close>)
  let ?f = "bus_msg (CAN_ID 2 0 OTA_BLOCK_DATA_ACK dst ra, d)"
  let ?s2 = "\<lambda>p. (upd_dev ra (?g p) ((tx_s y)\<lparr>timecnt := 2000\<rparr>))\<lparr>main_step := 5, resendCnt := 0,
      ota_offset := ota_offset (tx_s y) + 1024,
      ota_block := (ota_block (tx_s y))\<lparr>blockSeq := blockSeq (ota_block (tx_s y)) + 1\<rparr>\<rparr>"
  have f0: "frame_data ?f ! 0 = DATA_NORMAL" using d by simp
  have "\<exists>p. cs_block_ack (node_env sa 0) ?f (tx_s y) w = Inr (?s2 p, w)" for w
    using di n0 tx(1,2) f0 acked
    by (simp add: cs_block_ack_def with_dev_def tx_ok_def Let_def exI)
  note ack = this
  have s2: "tx_ok ra dst n (Suc k) (?s2 p)" "pblock_buf (?s2 p) = Some b" for p
    using tx(1) dev' b(1) by (simp_all add: tx_ok_def upd_dev_def algebra_simps)
  have st: "\<exists>s'. CanOtaSender (node_env sa 0) (Some ?f) (tx_s y) w = Inr (s', w) \<and>
      tx_ok ra dst n (Suc k) s' \<and> main_step s' = 5 \<and> resendCnt s' = 0 \<and> pblock_buf s' = Some b" for w
  proof -
    obtain p where p: "cs_block_ack (node_env sa 0) ?f (tx_s y) w = Inr (?s2 p, w)" using ack by blast
    have "sender_work (?s2 p) \<noteq> 0" using s2(1)[of p] unfolding tx_ok_def by blast
    then have "CanOtaSender (node_env sa 0) (Some ?f) (tx_s y) w = Inr (?s2 p, w)"
      using tx by (simp add: CanOtaSender_def cs_step_def cs_wait_block_def p tx_ok_def del: bus_msg_nth)
    then show ?thesis using s2[of p] by (intro exI[of _ "?s2 p"]) simp
  qed
  obtain s' where s': "CanOtaSender (node_env sa 0) (Some (bus_msg (CAN_ID 2 0 OTA_BLOCK_DATA_ACK dst ra, d))) (tx_s y)
        ((tx_w y)\<lparr>bus_out := []\<rparr>) = Inr (s', (tx_w y)\<lparr>bus_out := []\<rparr>)"
      "tx_ok ra dst n (Suc k) s'" "main_step s' = 5" "resendCnt s' = 0" "pblock_buf s' = Some b"
    using st[of "(tx_w y)\<lparr>bus_out := []\<rparr>"] by blast
  have "can_cycle sa ra ver False y = Inr (y\<lparr>tx_s := s', tx_w := (tx_w y)\<lparr>bus_out := []\<rparr>,
      rx_s := rx_s y, rx_r := rx_r y, rx_w := (rx_w y)\<lparr>bus_out := []\<rparr>, rx_restart := False\<rparr>)"
    by (rule can_cycle_run) (use s' d y in \<open>simp_all add: sys_ack_def\<close>)
  then show ?thesis using s' b y by (simp add: sys_ack_def sys_load_def)
qed

text \<open>All blocks, three cycles each.\<close>

lemma cycles_block:
  assumes "sys_load ra dst mem n k y" "k < n" "n < 65536"
  shows "\<exists>y'. can_cycles sa ra ver [False, False, False] y = Inr y' \<and> sys_load ra dst mem n (Suc k) y'"
proof -
  obtain y1 where y1: "can_cycle sa ra ver False y = Inr y1" "sys_send ra dst mem n k y1"
    using cycle_load[OF assms] by blast
  obtain y2 where y2: "can_cycle sa ra ver False y1 = Inr y2" "sys_ack ra dst mem n k y2"
    using cycle_send[OF y1(2) assms(2,3)] by blast
  obtain y3 where "can_cycle sa ra ver False y2 = Inr y3" "sys_load ra dst mem n (Suc k) y3"
    using cycle_ack[OF y2(2) assms(2,3)] by blast
  then show ?thesis using y1 y2 by auto
qed

lemma cycles_blocks:
  assumes "sys_load ra dst mem n 0 y" "n < 65536" "k \<le> n"
  shows "\<exists>y'. can_cycles sa ra ver (replicate (3 * k) False) y = Inr y' \<and> sys_load ra dst mem n k y'"
  using assms(3)
proof (induction k)
  case 0
  then show ?case using assms by simp
next
  case (Suc k)
  obtain y1 where y1: "can_cycles sa ra ver (replicate (3 * k) False) y = Inr y1" "sys_load ra dst mem n k y1"
    using Suc by auto
  obtain y2 where "can_cycles sa ra ver [False, False, False] y1 = Inr y2" "sys_load ra dst mem n (Suc k) y2"
    using cycles_block[OF y1(2) _ assms(2)] Suc.prems by auto
  moreover have "replicate (3 * Suc k) False = replicate (3 * k) False @ [False, False, False]"
    by (simp add: replicate_add[symmetric] eval_nat_numeral flip: replicate_append_same)
  ultimately show ?case using y1 by (simp only: can_cycles_append cbind_simps) auto
qed

text \<open>The end of the transfer.\<close>

definition sys_done :: "(nat \<Rightarrow> u8) \<Rightarrow> nat \<Rightarrow> can_sys \<Rightarrow> bool" where
  "sys_done mem n y \<longleftrightarrow> update_part (rx_w y) = mem_bytes mem 8192 (1024 * n) \<and> update_ended (rx_w y) \<and>
     rx_restart y \<and> sender_work (tx_s y) = 0 \<and> ota_doing (tx_s y) = CAN_OTA_IDLE \<and>
     (\<forall>d \<in> set (devStatus (tx_s y)). isOta d = OTA_IDLE)"

lemma feed_end:
  assumes "rx_ok mem n n s r w" "bus_out w = []" "end_fileType e = 0"
  shows "\<exists>s' r' w'. can_feed (node_env ra ver) [bus_msg (CAN_ID 2 0 OTA_END CAN_BROADCAST_ADDRESS sa, end_bytes e)] s r w =
      Inr (s', r', True, w') \<and> update_part w' = update_part w \<and> update_ended w' \<and>
      bus_out w' = [(CAN_ID 2 0 OTA_END_ACK CAN_BROADCAST_ADDRESS ra, replicate 8 0)]"
proof -
  have wt: "co_waiting s r" using assms(1) by (simp add: rx_ok_def)
  have e0: "end_bytes e ! 0 = 0" "length (end_bytes e) = 8" using assms(3) by (simp_all add: end_bytes_def)
  have "CanOtaReceiver (node_env ra ver) (Some (bus_msg (CAN_ID 2 0 OTA_END CAN_BROADCAST_ADDRESS sa, end_bytes e))) s r w =
     Inr (co_end (node_env ra ver) (bus_msg (CAN_ID 2 0 OTA_END CAN_BROADCAST_ADDRESS sa, end_bytes e)) s r w)"
    using co_timeout_waiting[OF wt, of "node_env ra ver" w] co_waitingD[OF wt]
    by (simp add: CanOtaReceiver_def ota_funcs)
  then show ?thesis
    using assms(1,2) e0 by (simp add: co_end_def rx_ok_def co_waiting_def Let_def)
qed

lemma end_acked:
  assumes "one_device ra (devStatus s)" "main_step s = 9" "sender_work s \<noteq> 0" "timecnt s \<noteq> 0"
    "fileSize (ota_start s) \<noteq> 0"
  shows "\<exists>s' w'. CanOtaSender (node_env sa v) (Some (bus_msg (CAN_ID 2 0 OTA_END_ACK dst ra, replicate 8 0))) s w = Inr (s', w') \<and>
     main_step s' = 10 \<and> sender_work s' \<noteq> 0 \<and> (\<forall>d \<in> set (devStatus s'). isOta d = OTA_IDLE)"
proof -
  let ?f = "bus_msg (CAN_ID 2 0 OTA_END_ACK dst ra, replicate 8 0)"
  let ?g = "\<lambda>x. x\<lparr>waitAck := 0\<rparr>" let ?h = "\<lambda>p x. x\<lparr>dev_pct := p\<rparr>"
  let ?s1 = "upd_dev ra ?g (s\<lparr>timecnt := 2000\<rparr>)"
  let ?s2 = "\<lambda>p q. (upd_dev ra (?h p) ?s1)\<lparr>pct_78H := q\<rparr>"
  have di: "unat ra < length (devStatus s)" "isOta (devStatus s ! unat ra) = OTA_DOING"
    using assms(1) by (simp_all add: one_device_def)
  have d1: "one_device ra (devStatus ?s1)" by (rule one_device_upd_dev) (use assms(1) in simp_all)
  have d2: "one_device ra (devStatus (upd_dev ra (?h p) ?s1))" for p
    by (rule one_device_upd_dev) (use d1 in simp_all)
  have a2: "all_acked (?s2 p q)" for p q
    by (rule one_device_acked[of ra]) (use d2[of p] di in \<open>simp_all add: upd_dev_def\<close>)
  let ?fin = "\<lambda>p q. (?s2 p q)\<lparr>devStatus := map (\<lambda>d. if isOta d = OTA_DOING then d\<lparr>isOta := OTA_IDLE, errCode := 0\<rparr> else d)
      (devStatus (?s2 p q)), main_step := 10\<rparr>"
  have "\<exists>p q w'. cs_end_ack (node_env sa v) ?f s w = Inr (?fin p q, w')"
    using di assms(2,5) a2
    by (intro exI[of _ "if block_pct s > 100 then 100 else block_pct s"]
          exI[of _ "\<lparr>pct_type = fileType (ota_start s), pct_pct = block_pct s\<rparr>"] exI)
       (simp add: cs_end_ack_def with_dev_def Let_def)
  then obtain p q w' where fin: "cs_end_ack (node_env sa v) ?f s w = Inr (?fin p q, w')" by blast
  have "CanOtaSender (node_env sa v) (Some ?f) s w = Inr (?fin p q, w')"
    using assms(2-4) fin by (simp add: CanOtaSender_def cs_step_def cs_wait_end_def upd_dev_def)
  moreover have "isOta d = OTA_IDLE" if "d \<in> set (devStatus (?fin p q))" for d
    by (rule one_device_cleared[OF d2[of p]]) (use that in simp)
  moreover have "main_step (?fin p q) = 10" by simp
  moreover have "sender_work (?fin p q) \<noteq> 0" using assms(3) by (simp add: upd_dev_def)
  ultimately show ?thesis by blast
qed

lemma cycles_end:
  assumes y: "sys_load ra dst mem n n y" and n: "0 < n" "n < 65536"
  shows "\<exists>y'. can_cycles sa ra ver [False, False, False, False] y = Inr y' \<and> sys_done mem n y'"
proof -
  have tx: "tx_ok ra dst n n (tx_s y)" "main_step (tx_s y) = 5" using y by (simp_all add: sys_load_def)
  have rx: "rx_ok mem n n (rx_s y) (rx_r y) (rx_w y)" "bus_out (rx_w y) = []" "\<not> rx_restart y"
    using y by (simp_all add: sys_load_def)
  have dev: "one_device ra (devStatus (tx_s y))" using tx(1) by (simp add: tx_ok_def)
  have n0: "(of_nat n :: u16) \<noteq> 0" using n by (metis unat_of_nat_16 unsigned_0 not_less0)
  have off: "(of_nat (1024 * n) :: u32) div 1024 = ucast (of_nat n :: u16)"
    using n by (simp add: word_unat_eq_iff unat_div unat_of_nat_32 unat_ucast_u16_u32 unat_of_nat_16 del: of_nat_mult)
  have ld: "cs_load (node_env sa 0) (tx_s y) w = Inr (exit_ota 5 (tx_s y))" for w
    using tx(1) off by (simp add: cs_load_def tx_ok_def Let_def del: of_nat_mult)
  let ?s1 = "exit_ota 5 (tx_s y)"
  have c1: "can_cycle sa ra ver False y = Inr (y\<lparr>tx_s := ?s1, tx_w := (tx_w y)\<lparr>bus_out := []\<rparr>,
      rx_s := rx_s y, rx_r := rx_r y, rx_w := (rx_w y)\<lparr>bus_out := []\<rparr>, rx_restart := False\<rparr>)" (is "_ = Inr ?y1")
    by (rule can_cycle_run) (use tx rx in \<open>simp_all add: CanOtaSender_def cs_step_def ld tx_ok_def exit_ota_def\<close>)
  let ?s2 = "?s1\<lparr>devCnt := 1, devStatus := map (\<lambda>d. if isOta d = OTA_DOING then d\<lparr>waitAck := 1, errCode := OTA_ERR_NORMAL\<rparr> else d)
      (devStatus (tx_s y)), ota_end_cmd := (ota_end_cmd (tx_s y))\<lparr>end_fileType := 0\<rparr>, timecnt := 5000, resendCnt := 1, main_step := 9\<rparr>"
  let ?e = "ota_end_cmd ?s2" let ?m = "(CAN_ID 2 0 OTA_END CAN_BROADCAST_ADDRESS sa, end_bytes ?e)"
  have en: "cs_end (node_env sa 0) ?s1 ((tx_w y)\<lparr>bus_out := []\<rparr>) = (?s2, (tx_w y)\<lparr>bus_out := [?m]\<rparr>)"
    using tx(1) one_device_filter[OF dev] by (simp add: cs_end_def exit_ota_def tx_ok_def Let_def)
  let ?w1 = "(rx_w y)\<lparr>bus_out := []\<rparr>"
  obtain s' r' w' where fe: "can_feed (node_env ra ver) [bus_msg ?m] (rx_s y) (rx_r y) ?w1 = Inr (s', r', True, w')"
      "update_part w' = update_part ?w1" "update_ended w'"
      "bus_out w' = [(CAN_ID 2 0 OTA_END_ACK CAN_BROADCAST_ADDRESS ra, replicate 8 0)]"
    using feed_end[of mem n "rx_s y" "rx_r y" ?w1 ?e ra ver sa] rx(1) by auto
  have s1: "CanOtaSender (node_env sa 0) None ?s1 ((tx_w y)\<lparr>bus_out := []\<rparr>) = Inr (?s2, (tx_w y)\<lparr>bus_out := [?m]\<rparr>)"
    using tx(1) en by (simp add: CanOtaSender_def cs_step_def tx_ok_def exit_ota_def)
  have c2: "can_cycle sa ra ver False ?y1 = Inr (?y1\<lparr>tx_s := ?s2, tx_w := (tx_w y)\<lparr>bus_out := [?m]\<rparr>,
      rx_s := s', rx_r := r', rx_w := w', rx_restart := True\<rparr>)" (is "_ = Inr ?y2")
    by (rule can_cycle_run) (use s1 fe(1) in \<open>simp_all del: can_feed_simps\<close>)
  have d2: "one_device ra (devStatus ?s2)"
    using one_device_map[OF dev, of "\<lambda>d. if isOta d = OTA_DOING then d\<lparr>waitAck := 1, errCode := OTA_ERR_NORMAL\<rparr> else d"] by simp
  have pre: "main_step ?s2 = 9" "sender_work ?s2 \<noteq> 0" "timecnt ?s2 \<noteq> 0" "fileSize (ota_start ?s2) \<noteq> 0"
    using tx(1) n0 by (simp_all add: tx_ok_def exit_ota_def)
  obtain s3 w3 where a: "CanOtaSender (node_env sa 0) (Some (bus_msg (CAN_ID 2 0 OTA_END_ACK CAN_BROADCAST_ADDRESS ra, replicate 8 0))) ?s2
        ((tx_w y)\<lparr>bus_out := []\<rparr>) = Inr (s3, w3)" "main_step s3 = 10" "sender_work s3 \<noteq> 0"
      "\<forall>d \<in> set (devStatus s3). isOta d = OTA_IDLE"
    using end_acked[OF d2 pre, of sa 0 CAN_BROADCAST_ADDRESS "(tx_w y)\<lparr>bus_out := []\<rparr>"] by blast
  have c3: "can_cycle sa ra ver False ?y2 = Inr (?y2\<lparr>tx_s := s3, tx_w := w3, rx_w := w'\<lparr>bus_out := []\<rparr>\<rparr>)" (is "_ = Inr ?y3")
    using a(1) fe(4) by (simp add: can_cycle_def Let_def)
  have c4: "can_cycle sa ra ver False ?y3 = Inr (?y3\<lparr>tx_s := (cs_exit s3)\<lparr>ota_doing := CAN_OTA_IDLE\<rparr>, tx_w := w3\<lparr>bus_out := []\<rparr>\<rparr>)"
    (is "_ = Inr ?y4")
    using a(2,3) by (simp add: can_cycle_def Let_def CanOtaSender_def cs_step_def cs_exit_def)
  have "sys_done mem n ?y4"
    using a(4) fe(2,3) rx(1) by (simp add: sys_done_def cs_exit_def rx_ok_def)
  moreover have "can_cycles sa ra ver [False, False, False, False] y = Inr ?y4"
    using c1 c2 c3 c4 by (simp only: can_cycles.simps cbind_simps)
  ultimately show ?thesis by blast
qed

text \<open>The handshake: both boards idle, a transfer just begun at the sender.\<close>

definition tx_pre :: "u8 \<Rightarrow> u8 \<Rightarrow> OtaStart \<Rightarrow> CanOtaStruct \<Rightarrow> bool" where
  "tx_pre ra dst st s \<longleftrightarrow> sender_work s \<noteq> 0 \<and> sender_type s = 0 \<and> sender_target_id s = ucast dst \<and>
     dst \<in> {ra, CAN_BROADCAST_ADDRESS} \<and> unat ra < 255 \<and> ota_start s = st \<and> fileType st = 0 \<and>
     (case pblock_buf s of None \<Rightarrow> True | Some b \<Rightarrow> length b = 1024) \<and> length (devStatus s) = 255 \<and>
     (\<forall>d \<in> set (devStatus s). isOta d = OTA_IDLE)"

definition rx_idle :: "CanOtaStruct \<Rightarrow> bool" where
  "rx_idle s \<longleftrightarrow> ota_doing s = CAN_OTA_IDLE \<and> sender_work s = 0 \<and> pblock_buf s = None"

definition sys_begin :: "u8 \<Rightarrow> u8 \<Rightarrow> OtaStart \<Rightarrow> (nat \<Rightarrow> u8) \<Rightarrow> u8 \<Rightarrow> can_sys \<Rightarrow> bool" where
  "sys_begin ra dst st mem step y \<longleftrightarrow> tx_pre ra dst st (tx_s y) \<and> main_step (tx_s y) = step \<and>
     node_flash (tx_w y) = mem \<and> rx_idle (rx_s y) \<and> bus_out (rx_w y) = [] \<and> \<not> rx_restart y"

lemma rx_idle_steps:
  "rx_idle s \<Longrightarrow> co_timeout env s r w = (s, r, w)" "rx_idle s \<Longrightarrow> ota_doing s \<noteq> CAN_OTA_DEV"
  "rx_idle s \<Longrightarrow> sender_work s = 0"
  by (simp_all add: rx_idle_def co_timeout_def can_ota_states)

lemma tx_pre_map:
  "tx_pre ra dst st s \<Longrightarrow> (\<And>d. isOta (f d) = isOta d) \<Longrightarrow> tx_pre ra dst st (s\<lparr>devStatus := map f (devStatus s)\<rparr>)"
  by (simp add: tx_pre_def)

lemma tx_pre_upd [simp]:
  "tx_pre ra dst st (s\<lparr>main_step := a\<rparr>) = tx_pre ra dst st s" "tx_pre ra dst st (s\<lparr>resendCnt := a\<rparr>) = tx_pre ra dst st s"
  "tx_pre ra dst st (s\<lparr>retry_max_count := a\<rparr>) = tx_pre ra dst st s" "tx_pre ra dst st (s\<lparr>ota_doing := a\<rparr>) = tx_pre ra dst st s"
  "tx_pre ra dst st (s\<lparr>period_cmd_delay := i\<rparr>) = tx_pre ra dst st s" "tx_pre ra dst st (s\<lparr>can_busy := a\<rparr>) = tx_pre ra dst st s"
  "tx_pre ra dst st (s\<lparr>timecnt := t\<rparr>) = tx_pre ra dst st s" "tx_pre ra dst st (s\<lparr>devCnt := a\<rparr>) = tx_pre ra dst st s"
  by (simp_all add: tx_pre_def)

lemma cycle_init:
  assumes "sys_begin ra dst st mem 0 y"
  shows "\<exists>y'. can_cycle sa ra ver False y = Inr y' \<and> sys_begin ra dst st mem 1 y' \<and>
    resendCnt (tx_s y') = 0 \<and> retry_max_count (tx_s y') = 5"
proof -
  let ?f = "\<lambda>d. d\<lparr>dev_level := 1, dev_type := fileType (ota_start (tx_s y)), errCode := DATA_NORMAL,
     dev_where := IOT_TO_DEV, dev_pct := 0\<rparr>"
  let ?s = "((tx_s y)\<lparr>devStatus := map ?f (devStatus (tx_s y))\<rparr>)\<lparr>resendCnt := 0, main_step := 1, retry_max_count := 5,
     ota_doing := CAN_OTA_DEV, period_cmd_delay := CAN_OTA_PERIOD_TIMEOUT\<rparr>"
  have pre: "tx_pre ra dst st ((tx_s y)\<lparr>devStatus := map ?f (devStatus (tx_s y))\<rparr>)"
    by (rule tx_pre_map) (use assms in \<open>simp_all add: sys_begin_def\<close>)
  have "can_cycle sa ra ver False y = Inr (y\<lparr>tx_s := ?s, tx_w := (tx_w y)\<lparr>bus_out := []\<rparr>,
      rx_s := rx_s y, rx_r := rx_r y, rx_w := (rx_w y)\<lparr>bus_out := []\<rparr>, rx_restart := False\<rparr>)"
    by (rule can_cycle_run)
       (use assms in \<open>simp_all add: sys_begin_def tx_pre_def CanOtaSender_def cs_step_def cs_init_def\<close>)
  then show ?thesis using assms pre by (simp add: sys_begin_def)
qed

lemma cycle_ready:
  assumes "sys_begin ra dst st mem 1 y" "resendCnt (tx_s y) = 0" "retry_max_count (tx_s y) = 5"
  shows "\<exists>y'. can_cycle sa ra ver False y = Inr y' \<and> sys_begin ra dst st mem 2 y' \<and> can_busy (tx_s y') = 0"
proof -
  let ?s = "(tx_s y)\<lparr>can_busy := 0, resendCnt := 1, timecnt := 3000, main_step := 2, period_cmd_delay := CAN_OTA_PERIOD_TIMEOUT\<rparr>"
  let ?m = "(CAN_ID 2 0 OTA_READY CAN_BROADCAST_ADDRESS sa, start_bytes st)"
  have "CanOtaSender (node_env sa 0) None (tx_s y) ((tx_w y)\<lparr>bus_out := []\<rparr>) = Inr (?s, (tx_w y)\<lparr>bus_out := [?m]\<rparr>)"
    using assms by (simp add: sys_begin_def tx_pre_def CanOtaSender_def cs_step_def cs_ready_def)
  moreover have "CanOtaReceiver (node_env ra ver) (Some (bus_msg ?m)) (rx_s y) (rx_r y) w =
      Inr (co_ready (rx_s y) (rx_r y) w)" for w
    using assms(1) rx_idle_steps(1)[of "rx_s y" "node_env ra ver" "rx_r y" w] rx_idle_steps(2,3)[of "rx_s y"]
    by (simp add: CanOtaReceiver_def sys_begin_def)
  ultimately have "can_cycle sa ra ver False y = Inr (y\<lparr>tx_s := ?s, tx_w := (tx_w y)\<lparr>bus_out := [?m]\<rparr>,
      rx_s := (rx_s y)\<lparr>period_cmd_delay := 10000\<rparr>, rx_r := (rx_r y)\<lparr>wait_can_Id := -1, is_esp_ota := False\<rparr>,
      rx_w := (rx_w y)\<lparr>bus_out := []\<rparr>, rx_restart := False\<rparr>)"
    by (intro can_cycle_run) (use assms in \<open>simp_all add: sys_begin_def co_ready_def\<close>)
  then show ?thesis using assms by (simp add: sys_begin_def rx_idle_def)
qed

lemma cycle_free:
  assumes "sys_begin ra dst st mem 2 y" "can_busy (tx_s y) = 0"
  shows "\<exists>y'. can_cycle sa ra ver True y = Inr y' \<and> sys_begin ra dst st mem 3 y' \<and>
    resendCnt (tx_s y') = 0 \<and> retry_max_count (tx_s y') = 5"
proof -
  let ?s = "(tx_s y)\<lparr>timecnt := 0, resendCnt := 0, main_step := 3, retry_max_count := 5\<rparr>"
  have "can_cycle sa ra ver True y = Inr (y\<lparr>tx_s := ?s, tx_w := (tx_w y)\<lparr>bus_out := []\<rparr>,
      rx_s := rx_s y, rx_r := rx_r y, rx_w := (rx_w y)\<lparr>bus_out := []\<rparr>, rx_restart := False\<rparr>)"
    by (rule can_cycle_run)
       (use assms in \<open>simp_all add: sys_begin_def tx_pre_def CanOtaSender_def cs_step_def cs_wait_free_def Let_def\<close>)
  then show ?thesis using assms by (simp add: sys_begin_def)
qed

text \<open>After the start command the receiver waits for block 0 and its answer is under way.\<close>

definition sys_started :: "u8 \<Rightarrow> u8 \<Rightarrow> OtaStart \<Rightarrow> (nat \<Rightarrow> u8) \<Rightarrow> nat \<Rightarrow> can_sys \<Rightarrow> bool" where
  "sys_started ra dst st mem n y \<longleftrightarrow> tx_pre ra dst st (tx_s y) \<and> main_step (tx_s y) = 4 \<and> timecnt (tx_s y) \<noteq> 0 \<and>
     devCnt (tx_s y) = 0 \<and> node_flash (tx_w y) = mem \<and> rx_ok mem n 0 (rx_s y) (rx_r y) (rx_w y) \<and> \<not> rx_restart y \<and>
     (\<exists>d. bus_out (rx_w y) = [(CAN_ID 2 0 OTA_START_ACK dst ra, d)] \<and> length d = 8 \<and> d ! 0 = DATA_NORMAL)"

lemma cycle_start:
  assumes y: "sys_begin ra dst st mem 3 y" "resendCnt (tx_s y) = 0" "retry_max_count (tx_s y) = 5"
    and st: "fileVersion st div 100 = ver div 100" "fileSize st = of_nat n"
  shows "\<exists>y'. can_cycle sa ra ver False y = Inr y' \<and> sys_started ra dst st mem n y' \<and>
    resendCnt (tx_s y') = 1 \<and> retry_max_count (tx_s y') = 5"
proof -
  let ?s = "(tx_s y)\<lparr>resendCnt := 1, devCnt := 0, timecnt := 5000, main_step := 4\<rparr>"
  let ?m = "(CAN_ID 2 0 OTA_START dst sa, start_bytes st)"
  have pre: "tx_pre ra dst st (tx_s y)" "rx_idle (rx_s y)" "fileType st = 0"
    using y(1) by (simp_all add: sys_begin_def tx_pre_def)
  have tx: "CanOtaSender (node_env sa 0) None (tx_s y) ((tx_w y)\<lparr>bus_out := []\<rparr>) = Inr (?s, (tx_w y)\<lparr>bus_out := [?m]\<rparr>)"
    using y by (simp add: sys_begin_def tx_pre_def CanOtaSender_def cs_step_def cs_start_def)
  have r: "CanOtaReceiver (node_env ra ver) (Some (bus_msg ?m)) (rx_s y) (rx_r y) w =
      Inr (co_start (node_env ra ver) (bus_msg ?m) (rx_s y) (rx_r y) w)" for w
    using rx_idle_steps(1)[OF pre(2), of "node_env ra ver" "rx_r y" w] rx_idle_steps(2,3)[OF pre(2)]
    by (simp add: CanOtaReceiver_def ota_funcs)
  obtain s' r' w' d where c: "co_start (node_env ra ver) (bus_msg ?m) (rx_s y) (rx_r y) ((rx_w y)\<lparr>bus_out := []\<rparr>) = (s', r', False, w')"
      "rx_ok mem n 0 s' r' w'" "bus_out w' = [(CAN_ID 2 0 OTA_START_ACK dst ra, d)]" "length d = 8" "d ! 0 = DATA_NORMAL"
    using pre st by (simp add: co_start_def FILE_IOT_def Let_def rx_ok_def co_waiting_def rx_idle_def mem_bytes_def)
  have "can_cycle sa ra ver False y = Inr (y\<lparr>tx_s := ?s, tx_w := (tx_w y)\<lparr>bus_out := [?m]\<rparr>,
      rx_s := s', rx_r := r', rx_w := w', rx_restart := False\<rparr>)"
    by (rule can_cycle_run) (use y(1) tx r c(1) in \<open>simp_all add: sys_begin_def\<close>)
  then show ?thesis using pre y c by (simp add: sys_started_def sys_begin_def)
qed

definition sys_answered :: "u8 \<Rightarrow> u8 \<Rightarrow> (nat \<Rightarrow> u8) \<Rightarrow> nat \<Rightarrow> can_sys \<Rightarrow> bool" where
  "sys_answered ra dst mem n y \<longleftrightarrow> main_step (tx_s y) = 4 \<and> devCnt (tx_s y) = 1 \<and> resendCnt (tx_s y) = 1 \<and>
     one_device ra (devStatus (tx_s y)) \<and> sender_work (tx_s y) \<noteq> 0 \<and> sender_type (tx_s y) = 0 \<and>
     retry_max_count (tx_s y) = 5 \<and>
     sender_target_id (tx_s y) = ucast dst \<and> dst \<in> {ra, CAN_BROADCAST_ADDRESS} \<and> fileSize (ota_start (tx_s y)) = of_nat n \<and>
     (case pblock_buf (tx_s y) of None \<Rightarrow> True | Some b \<Rightarrow> length b = 1024) \<and> node_flash (tx_w y) = mem \<and>
     rx_ok mem n 0 (rx_s y) (rx_r y) (rx_w y) \<and> bus_out (rx_w y) = [] \<and> \<not> rx_restart y"

lemma cycle_start_ack:
  assumes y: "sys_started ra dst st mem n y" and r1: "resendCnt (tx_s y) = 1" "retry_max_count (tx_s y) = 5"
    and n: "fileSize st = of_nat n"
  shows "\<exists>y'. can_cycle sa ra ver False y = Inr y' \<and> sys_answered ra dst mem n y'"
proof -
  obtain d where d: "bus_out (rx_w y) = [(CAN_ID 2 0 OTA_START_ACK dst ra, d)]" "length d = 8" "d ! 0 = DATA_NORMAL"
    using y by (auto simp: sys_started_def)
  let ?f = "bus_msg (CAN_ID 2 0 OTA_START_ACK dst ra, d)"
  have pre: "tx_pre ra dst st (tx_s y)" "main_step (tx_s y) = 4" "timecnt (tx_s y) \<noteq> 0" "devCnt (tx_s y) = 0"
    using y by (simp_all add: sys_started_def)
  have f: "frame_data ?f ! 0 = DATA_NORMAL" using d by simp
  have i: "unat ra < length (devStatus (tx_s y))" using pre(1) by (simp add: tx_pre_def)
  have one: "one_device ra ((devStatus (tx_s y))[unat ra := (devStatus (tx_s y) ! unat ra)\<lparr>errCode := e, isOta := OTA_DOING\<rparr>])" for e
    using pre(1) by (simp add: tx_pre_def one_device_def nth_list_update)
  have "\<exists>s'. cs_start_ack ?f (tx_s y) = Inr s' \<and> main_step s' = 4 \<and> devCnt s' = 1 \<and> resendCnt s' = 1 \<and>
      retry_max_count s' = 5 \<and> one_device ra (devStatus s') \<and> sender_work s' = sender_work (tx_s y) \<and>
      sender_type s' = 0 \<and> sender_target_id s' = ucast dst \<and> ota_start s' = st \<and> pblock_buf s' = pblock_buf (tx_s y)"
    using pre f i one r1
    by (simp add: cs_start_ack_def with_dev_def upd_dev_def tx_pre_def Let_def split: if_splits) auto
  then obtain s' where s': "cs_start_ack ?f (tx_s y) = Inr s'" "main_step s' = 4" "devCnt s' = 1" "resendCnt s' = 1"
      "retry_max_count s' = 5" "one_device ra (devStatus s')" "sender_work s' = sender_work (tx_s y)"
      "sender_type s' = 0" "sender_target_id s' = ucast dst" "ota_start s' = st" "pblock_buf s' = pblock_buf (tx_s y)"
    by blast
  have "can_cycle sa ra ver False y = Inr (y\<lparr>tx_s := s', tx_w := (tx_w y)\<lparr>bus_out := []\<rparr>,
      rx_s := rx_s y, rx_r := rx_r y, rx_w := (rx_w y)\<lparr>bus_out := []\<rparr>, rx_restart := False\<rparr>)"
    by (rule can_cycle_run)
       (use pre s' d y in \<open>simp_all add: sys_started_def tx_pre_def CanOtaSender_def cs_step_def cs_wait_start_def\<close>)
  then show ?thesis using s' y pre n by (simp add: sys_answered_def sys_started_def tx_pre_def)
qed

lemma cycle_answered:
  assumes y: "sys_answered ra dst mem n y"
  shows "\<exists>y'. can_cycle sa ra ver True y = Inr y' \<and> sys_load ra dst mem n 0 y'"
proof -
  let ?s = "(tx_s y)\<lparr>timecnt := 0, ota_offset := 0, ota_block := \<lparr>blockSeq = 0, frameTotal = 0, blockCrc16 = 0, retryCnt = 0, block_nc = 0\<rparr>,
      pblock_len := 1024, pblock_buf := (case pblock_buf (tx_s y) of Some b \<Rightarrow> Some b | None \<Rightarrow> Some (replicate 1024 0)), main_step := 5\<rparr>"
  have b: "\<exists>b. pblock_buf ?s = Some b \<and> length b = 1024"
    using y by (auto simp: sys_answered_def split: option.splits)
  have st: "CanOtaSender (node_env sa 0) None ((tx_s y)\<lparr>timecnt := 0\<rparr>) w = Inr (?s, w)" for w
    using y by (auto simp: sys_answered_def CanOtaSender_def cs_step_def cs_wait_start_def Let_def split: option.splits)
  have "can_cycle sa ra ver True y = Inr (y\<lparr>tx_s := ?s, tx_w := (tx_w y)\<lparr>bus_out := []\<rparr>,
      rx_s := rx_s y, rx_r := rx_r y, rx_w := (rx_w y)\<lparr>bus_out := []\<rparr>, rx_restart := False\<rparr>)"
    by (rule can_cycle_run) (use st y in \<open>simp_all add: sys_answered_def\<close>)
  moreover have "tx_ok ra dst n 0 ?s" using y by (simp add: sys_answered_def tx_ok_def)
  ultimately show ?thesis using y b by (simp add: sys_load_def sys_answered_def)
qed

section \<open>A lost answer\<close>

text \<open>The receiver has taken block \<open>k\<close>, its answer is lost, the sender has sent the block \<open>c\<close> times.\<close>

definition sys_lost :: "u8 \<Rightarrow> u8 \<Rightarrow> (nat \<Rightarrow> u8) \<Rightarrow> nat \<Rightarrow> nat \<Rightarrow> u8 \<Rightarrow> can_sys \<Rightarrow> bool" where
  "sys_lost ra dst mem n k c y \<longleftrightarrow> tx_ok ra dst n k (tx_s y) \<and> main_step (tx_s y) = 7 \<and> resendCnt (tx_s y) = c \<and>
     (\<exists>b. pblock_buf (tx_s y) = Some b \<and> length b = 1024) \<and>
     rx_ok mem n (Suc k) (rx_s y) (rx_r y) (rx_w y) \<and> pblock_buf (rx_s y) \<noteq> None \<and> bus_out (rx_w y) = [] \<and> \<not> rx_restart y"

lemma cycle_lost_timeout:
  assumes y: "sys_lost ra dst mem n k c y"
  shows "can_cycle sa ra ver True y = Inr (y\<lparr>tx_s := (tx_s y)\<lparr>timecnt := 0, main_step := 6\<rparr>,
     tx_w := (tx_w y)\<lparr>bus_out := []\<rparr>, rx_s := rx_s y, rx_r := rx_r y, rx_w := (rx_w y)\<lparr>bus_out := []\<rparr>, rx_restart := False\<rparr>)"
  by (rule can_cycle_run)
     (use y in \<open>simp_all add: sys_lost_def tx_ok_def CanOtaSender_def cs_step_def cs_wait_block_def\<close>)

lemma feed_repeated_block:
  assumes rx: "rx_ok mem n (Suc k) s r w" "pblock_buf s \<noteq> None" and b: "blockSeq b = of_nat k"
  shows "can_feed env (map bus_msg ((CAN_ID 2 0 OTA_PCT CAN_BROADCAST_ADDRESS sa, p) # block_msgs dst sa b d)) s r w =
     Inr (s\<lparr>timecnt := 10000\<rparr>, r, False, w)"
proof -
  have wt: "co_waiting s r" using rx(1) by (simp add: rx_ok_def)
  have "blockSeq b \<noteq> blockSeq (ota_block s)" using rx(1) b by (simp add: rx_ok_def)
  from feed_other_block[OF wt rx(2) this, of env dst sa d w] show ?thesis
    using feed_pct[OF wt, of env CAN_BROADCAST_ADDRESS sa p w] by simp
qed

lemma cycles_lost:
  assumes y: "sys_lost ra dst mem n k c y" and c: "c < 5" and k: "k < n" "n < 65536"
  shows "\<exists>y'. can_cycles sa ra ver [True, False] y = Inr y' \<and> sys_lost ra dst mem n k (c + 1) y'"
proof -
  let ?S = "(tx_s y)\<lparr>timecnt := 0, main_step := 6\<rparr>"
  let ?y1 = "y\<lparr>tx_s := ?S, tx_w := (tx_w y)\<lparr>bus_out := []\<rparr>, rx_s := rx_s y, rx_r := rx_r y,
     rx_w := (rx_w y)\<lparr>bus_out := []\<rparr>, rx_restart := False\<rparr>"
  let ?s = "if dst = CAN_BROADCAST_ADDRESS then cs_mark ?S else ?S" let ?b = "ota_block (tx_s y)"
  obtain d where d: "pblock_buf (tx_s y) = Some d" "length d = 1024" using y by (auto simp: sys_lost_def)
  have tx: "tx_ok ra dst n k ?S" "resendCnt ?S = c" using y by (simp_all add: sys_lost_def tx_ok_def)
  have n0: "(of_nat n :: u16) \<noteq> 0" using k by (metis unat_of_nat_16 unsigned_0 not_less0)
  have dc: "devCnt (cs_mark ?S) \<noteq> 0"
    using one_device_filter[of ra "devStatus (tx_s y)"] tx(1) by (simp add: cs_mark_def tx_ok_def)
  have blk: "cs_block (node_env sa 0) ?S w = cs_send_block (node_env sa 0) ?s w" for w
    using tx c[folded not_le] dc by (simp add: cs_block_def tx_ok_def Let_def)
  have s_eqs: "fileSize (ota_start ?s) \<noteq> 0" "pblock_len ?s = 1024" "pblock_buf ?s = Some d"
      "sender_target_id ?s = ucast dst" "ota_block ?s = ?b" "resendCnt ?s = c" "main_step ?s = 6" "sender_work ?s \<noteq> 0"
    using tx n0 d by (simp_all add: cs_mark_def tx_ok_def)
  have txs: "tx_ok ra dst n k ?s"
    using tx(1) one_device_map by (simp add: cs_mark_def tx_ok_def)
  obtain p where se: "cs_send_block (node_env sa 0) ?s ((tx_w y)\<lparr>bus_out := []\<rparr>) =
     Inr (?s\<lparr>pct_78H := p, ota_block := ?b\<lparr>retryCnt := c\<rparr>, main_step := 7, resendCnt := c + 1, timecnt := 6000\<rparr>,
      (tx_w y)\<lparr>bus_out := (CAN_ID 2 0 OTA_PCT CAN_BROADCAST_ADDRESS sa, pct_bytes p) # block_msgs dst sa ?b d\<rparr>)"
    using send_block_node[OF s_eqs(1-3) d(2) s_eqs(4), of sa 0 "(tx_w y)\<lparr>bus_out := []\<rparr>"] s_eqs(5-7) by auto
  let ?s' = "?s\<lparr>pct_78H := p, ota_block := ?b\<lparr>retryCnt := c\<rparr>, main_step := 7, resendCnt := c + 1, timecnt := 6000\<rparr>"
  let ?w' = "(tx_w y)\<lparr>bus_out := (CAN_ID 2 0 OTA_PCT CAN_BROADCAST_ADDRESS sa, pct_bytes p) # block_msgs dst sa ?b d\<rparr>"
  have st: "CanOtaSender (node_env sa 0) None ?S ((tx_w y)\<lparr>bus_out := []\<rparr>) = Inr (?s', ?w')"
    using tx(1) blk se s_eqs(8) by (simp add: CanOtaSender_def cs_step_def tx_ok_def)
  have s'_eqs: "tx_ok ra dst n k ?s'" "main_step ?s' = 7" "resendCnt ?s' = c + 1" "pblock_buf ?s' = Some d"
    using txs s_eqs(3,5) by (simp_all add: tx_ok_def)
  let ?w1 = "(rx_w y)\<lparr>bus_out := []\<rparr>"
  have rx: "rx_ok mem n (Suc k) (rx_s y) (rx_r y) ?w1" "pblock_buf (rx_s y) \<noteq> None" "blockSeq ?b = of_nat k"
    using y by (simp_all add: sys_lost_def tx_ok_def)
  have bo: "bus_out ?w' = (CAN_ID 2 0 OTA_PCT CAN_BROADCAST_ADDRESS sa, pct_bytes p) # block_msgs dst sa ?b d" by simp
  have fd: "can_feed (node_env ra ver) (map bus_msg (bus_out ?w')) (rx_s y) (rx_r y) ?w1 =
      Inr ((rx_s y)\<lparr>timecnt := 10000\<rparr>, rx_r y, False, ?w1)"
    unfolding bo by (rule feed_repeated_block[OF rx])
  have "can_cycle sa ra ver False ?y1 = Inr (?y1\<lparr>tx_s := ?s', tx_w := ?w', rx_s := (rx_s y)\<lparr>timecnt := 10000\<rparr>,
      rx_r := rx_r y, rx_w := ?w1, rx_restart := False\<rparr>)" (is "_ = Inr ?y2")
  proof (rule can_cycle_run)
    show "can_feed (node_env ra ver) (map bus_msg (bus_out ?w')) (rx_s ?y1) (rx_r ?y1)
        ((rx_w ?y1)\<lparr>bus_out := tl (bus_out (rx_w ?y1))\<rparr>) = Inr ((rx_s y)\<lparr>timecnt := 10000\<rparr>, rx_r y, False, ?w1)"
      using fd by simp
  qed (use st in simp_all)
  moreover have "sys_lost ra dst mem n k (c + 1) ?y2"
  proof -
    have "rx_ok mem n (Suc k) ((rx_s y)\<lparr>timecnt := 10000\<rparr>) (rx_r y) ?w1"
      using rx(1) by (simp add: rx_ok_def co_waiting_def)
    then show ?thesis unfolding sys_lost_def using s'_eqs d rx(2) by simp
  qed
  ultimately show ?thesis using cycle_lost_timeout[OF y, of sa ver] by simp
qed

lemma cycles_give_up:
  assumes y: "sys_lost ra dst mem n k 5 y"
  shows "\<exists>y'. can_cycles sa ra ver [True, False, False] y = Inr y' \<and> sender_work (tx_s y') = 0 \<and>
    (\<forall>d \<in> set (devStatus (tx_s y')). isOta d = OTA_IDLE \<and> errCode d = OTA_ERR_NO_RESP) \<and>
    pblock_buf (tx_s y') \<noteq> None \<and> rx_ok mem n (Suc k) (rx_s y') (rx_r y') (rx_w y') \<and> \<not> rx_restart y'"
proof -
  let ?S = "(tx_s y)\<lparr>timecnt := 0, main_step := 6\<rparr>"
  let ?y1 = "y\<lparr>tx_s := ?S, tx_w := (tx_w y)\<lparr>bus_out := []\<rparr>, rx_s := rx_s y, rx_r := rx_r y,
     rx_w := (rx_w y)\<lparr>bus_out := []\<rparr>, rx_restart := False\<rparr>"
  let ?T = "exit_ota 1 (OTA_ErrCode_Set OTA_ERR_NO_RESP ?S)"
  have tx: "tx_ok ra dst n k (tx_s y)" "resendCnt (tx_s y) = 5" "pblock_buf (tx_s y) \<noteq> None"
    and rx: "rx_ok mem n (Suc k) (rx_s y) (rx_r y) (rx_w y)"
    using y by (auto simp: sys_lost_def)
  have c2: "can_cycle sa ra ver False ?y1 = Inr (?y1\<lparr>tx_s := ?T, tx_w := (tx_w y)\<lparr>bus_out := []\<rparr>,
      rx_s := rx_s y, rx_r := rx_r y, rx_w := (rx_w y)\<lparr>bus_out := []\<rparr>, rx_restart := False\<rparr>)" (is "_ = Inr ?y2")
    by (rule can_cycle_run)
       (use tx in \<open>simp_all add: CanOtaSender_def cs_step_def cs_block_def tx_ok_def exit_ota_def OTA_ErrCode_Set_def\<close>)
  let ?s1 = "?T\<lparr>devCnt := 0, devStatus := devStatus ?T, main_step := 10, resendCnt := 0, sender_work := 0, ota_doing := CAN_OTA_IDLE\<rparr>"
  have no: "filter (\<lambda>d. isOta d = OTA_DOING) (devStatus ?T) = []"
    by (simp add: exit_ota_def OTA_ErrCode_Set_def filter_empty_conv ota_dev_codes)
  have idle: "map (\<lambda>d. if isOta d = OTA_DOING then d\<lparr>waitAck := 1, errCode := OTA_ERR_NORMAL\<rparr> else d) (devStatus ?T) = devStatus ?T"
    by (simp add: exit_ota_def OTA_ErrCode_Set_def ota_dev_codes)
  have en: "cs_end (node_env sa 0) ?T w = (?T\<lparr>devCnt := 0, devStatus := devStatus ?T, main_step := 10, resendCnt := 0, sender_work := 0\<rparr>, w)" for w
    unfolding cs_end_def no idle by (simp add: exit_ota_def)
  have m: "main_step ?T = 8" "sender_work ?T \<noteq> 0"
    using tx(1) by (simp_all add: exit_ota_def OTA_ErrCode_Set_def tx_ok_def)
  have c3: "can_cycle sa ra ver False ?y2 = Inr (?y2\<lparr>tx_s := ?s1, tx_w := (tx_w y)\<lparr>bus_out := []\<rparr>,
      rx_s := rx_s y, rx_r := rx_r y, rx_w := (rx_w y)\<lparr>bus_out := []\<rparr>, rx_restart := False\<rparr>)" (is "_ = Inr ?y3")
    by (rule can_cycle_run) (use m en in \<open>simp_all add: CanOtaSender_def cs_step_def\<close>)
  have "can_cycles sa ra ver [True, False, False] y = Inr ?y3"
    using cycle_lost_timeout[OF y, of sa ver] c2 c3 by (simp only: can_cycles.simps cbind_simps)
  moreover have "\<forall>d \<in> set (devStatus ?s1). isOta d = OTA_IDLE \<and> errCode d = OTA_ERR_NO_RESP"
    by (simp add: exit_ota_def OTA_ErrCode_Set_def)
  ultimately show ?thesis using tx(3) rx by (intro exI[of _ ?y3]) (simp add: exit_ota_def OTA_ErrCode_Set_def)
qed

section \<open>Safety and end of the sender\<close>

text \<open>What every call keeps: the size of the device table and of the block buffer, which is there in the
  steps that use it.\<close>

definition cs_wf :: "CanOtaStruct \<Rightarrow> bool" where
  "cs_wf s \<longleftrightarrow> main_step s \<le> 10 \<and> fileSize (ota_start s) \<noteq> 0 \<and> length (devStatus s) = 255 \<and>
     (\<forall>b. pblock_buf s = Some b \<longrightarrow> length b = 1024) \<and>
     (main_step s \<in> {5, 6, 7} \<longrightarrow> pblock_len s = 1024 \<and> pblock_buf s \<noteq> None)"

definition flash_reads :: "'w co_env \<Rightarrow> bool" where
  "flash_reads env \<longleftrightarrow> (\<forall>a n w bs. image_read env a n w = Some bs \<longrightarrow> length bs = n)"

definition cs_ok :: "(CanOtaStruct \<times> 'w) cres \<Rightarrow> bool" where
  "cs_ok m \<longleftrightarrow> (case m of Inl e \<Rightarrow> False | Inr (s, w) \<Rightarrow> cs_wf s)"

lemma cs_ok_simps [simp]: "cs_ok (Inr (s, w)) = cs_wf s" "\<not> cs_ok (Inl e)"
  by (simp_all add: cs_ok_def)

lemma cs_wf_timer [simp]: "cs_wf (s\<lparr>timecnt := t\<rparr>) = cs_wf s"
  by (simp add: cs_wf_def)

lemmas cs_updates = exit_ota_def OTA_ErrCode_Set_def upd_dev_def cs_mark_def cs_exit_def iot_calloc_def

lemma cs_init_wf: "cs_wf s \<Longrightarrow> main_step s = 0 \<Longrightarrow> cs_wf (cs_init env s)"
  by (simp add: cs_init_def cs_wf_def cs_updates)

lemma cs_ready_wf: "cs_wf s \<Longrightarrow> main_step s = 1 \<Longrightarrow> cs_ok (Inr (cs_ready env s w))"
  by (auto simp: cs_ready_def cs_wf_def cs_updates split: prod.splits bool.splits)

lemma cs_wait_free_wf: "cs_wf s \<Longrightarrow> main_step s = 2 \<Longrightarrow> cs_wf (cs_wait_free fr s)"
  by (auto simp: cs_wait_free_def cs_wf_def Let_def split: option.splits)

lemma cs_start_wf: "cs_wf s \<Longrightarrow> main_step s = 3 \<Longrightarrow> cs_ok (Inr (cs_start env s w))"
  by (auto simp: cs_start_def cs_wf_def cs_updates split: prod.splits bool.splits)

lemma cs_wait_start_wf:
  assumes "cs_wf s" "main_step s = 4" "\<And>f. fr = Some f \<Longrightarrow> unat (id_src (msg_identifier f)) < 255"
  shows "cs_ok (cbind (cs_wait_start env fr s) (\<lambda>s'. Inr (s', w)))"
  using assms
  by (cases fr) (auto simp: cs_wait_start_def cs_start_ack_def with_dev_def cs_wf_def cs_updates Let_def split: option.splits)

lemma cs_load_wf:
  assumes "cs_wf s" "main_step s = 5" "flash_reads env"
  shows "cs_ok (cbind (cs_load env s w) (\<lambda>s'. Inr (s', w)))"
proof -
  obtain b where "pblock_buf s = Some b" "length b = 1024" "pblock_len s = 1024"
    using assms(1,2) by (auto simp: cs_wf_def)
  then show ?thesis
    using assms by (auto simp: cs_load_def cs_wf_def flash_reads_def cs_updates Let_def split: option.splits)
qed

lemma cs_send_block_wf: "cs_wf s \<Longrightarrow> main_step s = 6 \<Longrightarrow> cs_ok (cs_send_block env s w)"
  by (auto simp: cs_send_block_def cs_wf_def cs_updates Let_def need_def split: prod.splits bool.splits option.splits)

lemma cs_block_wf: "cs_wf s \<Longrightarrow> main_step s = 6 \<Longrightarrow> cs_ok (cs_block env s w)"
  using cs_send_block_wf[of s env w] cs_send_block_wf[of "cs_mark s" env w]
  by (auto simp: cs_block_def cs_wf_def cs_updates Let_def)

lemma cs_wait_block_wf:
  assumes "cs_wf s" "main_step s = 7" "\<And>f. fr = Some f \<Longrightarrow> unat (id_src (msg_identifier f)) < 255"
  shows "cs_ok (cs_wait_block env fr s w)"
  using assms
  by (cases fr) (auto simp: cs_wait_block_def cs_block_ack_def with_dev_def cs_wf_def cs_updates Let_def)

lemma cs_end_wf: "cs_wf s \<Longrightarrow> main_step s = 8 \<Longrightarrow> cs_ok (Inr (cs_end env s w))"
  by (auto simp: cs_end_def cs_wf_def cs_updates Let_def split: prod.splits bool.splits)

lemma cs_wait_end_wf:
  assumes "cs_wf s" "main_step s = 9" "\<And>f. fr = Some f \<Longrightarrow> unat (id_src (msg_identifier f)) < 255"
  shows "cs_ok (cs_wait_end env fr s w)"
  using assms
  by (cases fr) (auto simp: cs_wait_end_def cs_end_ack_def with_dev_def cs_wf_def cs_updates Let_def)

lemma u8_le_10: "(m :: u8) \<le> 10 \<Longrightarrow> m \<in> {0, 1, 2, 3, 4, 5, 6, 7, 8, 9, 10}"
proof -
  assume "m \<le> 10"
  then have "unat m \<in> {0, 1, 2, 3, 4, 5, 6, 7, 8, 9, 10}" by (simp add: word_le_nat_alt) arith
  then show ?thesis by (simp add: word_unat_eq_iff)
qed

lemma CanOtaSender_wf:
  assumes "cs_wf s" "flash_reads env" "\<And>f. fr = Some f \<Longrightarrow> unat (id_src (msg_identifier f)) < 255"
  shows "cs_ok (CanOtaSender env fr s w)"
proof -
  have "main_step s \<in> {0, 1, 2, 3, 4, 5, 6, 7, 8, 9, 10}"
    using assms(1) by (intro u8_le_10) (simp add: cs_wf_def)
  moreover have "cs_wf (cs_exit s)" using assms(1) by (simp add: cs_wf_def cs_exit_def)
  ultimately have "cs_ok (cs_step env fr s w)"
  proof (elim insertE emptyE)
    assume "main_step s = 0" then show ?thesis using cs_init_wf[OF assms(1), of env] by (simp add: cs_step_def)
  next
    assume "main_step s = 1" then show ?thesis using cs_ready_wf[OF assms(1), of env w] by (simp add: cs_step_def)
  next
    assume "main_step s = 2" then show ?thesis using cs_wait_free_wf[OF assms(1), of fr] by (simp add: cs_step_def)
  next
    assume "main_step s = 3" then show ?thesis using cs_start_wf[OF assms(1), of env w] by (simp add: cs_step_def)
  next
    assume m: "main_step s = 4"
    have "cs_ok (cbind (cs_wait_start env fr s) (\<lambda>s'. Inr (s', w)))" by (rule cs_wait_start_wf[OF assms(1) m]) (rule assms(3))
    then show ?thesis using m by (simp add: cs_step_def)
  next
    assume m: "main_step s = 5"
    show ?thesis using cs_load_wf[OF assms(1) m assms(2), of w] m by (simp add: cs_step_def)
  next
    assume "main_step s = 6" then show ?thesis using cs_block_wf[OF assms(1), of env w] by (simp add: cs_step_def)
  next
    assume m: "main_step s = 7"
    have "cs_ok (cs_wait_block env fr s w)" by (rule cs_wait_block_wf[OF assms(1) m]) (rule assms(3))
    then show ?thesis using m by (simp add: cs_step_def)
  next
    assume "main_step s = 8" then show ?thesis using cs_end_wf[OF assms(1), of env w] by (simp add: cs_step_def)
  next
    assume m: "main_step s = 9"
    have "cs_ok (cs_wait_end env fr s w)" by (rule cs_wait_end_wf[OF assms(1) m]) (rule assms(3))
    then show ?thesis using m by (simp add: cs_step_def)
  next
    assume "main_step s = 10" then show ?thesis using \<open>cs_wf (cs_exit s)\<close> by (simp add: cs_step_def)
  qed
  then obtain s' w' where st: "cs_step env fr s w = Inr (s', w')" "cs_wf s'"
    by (auto simp: cs_ok_def split: sum.splits)
  moreover have "cs_wf (s\<lparr>main_step := 0\<rparr>)" "cs_wf (s'\<lparr>ota_doing := CAN_OTA_IDLE\<rparr>)"
    using assms(1) st(2) by (simp_all add: cs_wf_def)
  ultimately show ?thesis by (simp add: CanOtaSender_def)
qed

fun can_send_run ::
    "'w co_env \<Rightarrow> (bool \<times> twai_message option) list \<Rightarrow> CanOtaStruct \<Rightarrow> 'w \<Rightarrow> (CanOtaStruct \<times> 'w) cres" where
  "can_send_run env [] s w = Inr (s, w)"
| "can_send_run env ((expired, fr) # es) s w =
     cbind (CanOtaSender env fr (if expired then s\<lparr>timecnt := 0\<rparr> else s) w) (\<lambda>(s', w'). can_send_run env es s' w')"

lemma can_send_run_wf:
  assumes "flash_reads env"
  shows "cs_wf s \<Longrightarrow> \<forall>(x, fr) \<in> set es. \<forall>f. fr = Some f \<longrightarrow> id_src (msg_identifier f) \<noteq> CAN_BROADCAST_ADDRESS \<Longrightarrow>
    \<exists>s' w'. can_send_run env es s w = Inr (s', w') \<and> cs_wf s'"
proof (induction es arbitrary: s w)
  case (Cons e es)
  obtain x fr where e: "e = (x, fr)" by (cases e)
  have src: "unat (id_src (msg_identifier f)) < 255" if "fr = Some f" for f
  proof -
    have "id_src (msg_identifier f) \<noteq> 0xFF" using Cons.prems(2) e that by (simp add: CAN_BROADCAST_ADDRESS_def)
    then have "unat (id_src (msg_identifier f)) \<noteq> 255" by (simp add: word_unat_eq_iff)
    then show ?thesis using unsigned_less[of "id_src (msg_identifier f)", where 'a = nat] by simp
  qed
  have "cs_ok (CanOtaSender env fr (if x then s\<lparr>timecnt := 0\<rparr> else s) w)"
    by (rule CanOtaSender_wf[OF _ assms src]) (use Cons.prems(1) in simp_all)
  then obtain s1 w1 where "CanOtaSender env fr (if x then s\<lparr>timecnt := 0\<rparr> else s) w = Inr (s1, w1)" "cs_wf s1"
    by (auto simp: cs_ok_def split: sum.splits)
  then show ?case using Cons e by auto
qed simp

text \<open>On a silent bus every call brings the sender nearer to its end.\<close>

definition tries :: "CanOtaStruct \<Rightarrow> nat" where
  "tries s = 2 * (unat (retry_max_count s) - unat (resendCnt s))"

definition some_doing :: "CanOtaStruct \<Rightarrow> bool" where
  "some_doing s = (\<exists>d \<in> set (devStatus s). isOta d = OTA_DOING)"

definition cs_rank :: "CanOtaStruct \<Rightarrow> nat" where
  "cs_rank s = (if main_step s = 0 then 6999 else if main_step s = 1 then 6000 + tries s
     else if main_step s = 2 then 6001 + tries s else if main_step s = 3 then 5000 + tries s
     else if main_step s = 4 then 5001 + tries s else if main_step s = 5 then 4600
     else if main_step s = 6 then 4000 + tries s else if main_step s = 7 then 4001 + tries s
     else if main_step s = 8 then (if some_doing s then 1600 else 1000) + tries s
     else if main_step s = 9 then (if some_doing s then 1601 else 1001) + tries s else 1)"

lemma tries_bound: "tries s \<le> 510"
  using unsigned_less[of "retry_max_count s", where 'a = nat] by (simp add: tries_def)

lemma tries_dec:
  "resendCnt s < retry_max_count s \<Longrightarrow> retry_max_count s' = retry_max_count s \<Longrightarrow> resendCnt s' = resendCnt s + 1 \<Longrightarrow>
   tries s = tries s' + 2"
proof -
  assume a: "resendCnt s < retry_max_count s" "retry_max_count s' = retry_max_count s" "resendCnt s' = resendCnt s + 1"
  have "unat (resendCnt s) < unat (retry_max_count s)" using a(1) by (simp add: word_less_nat_alt)
  moreover have "unat (resendCnt s + 1) = unat (resendCnt s) + 1"
    using calculation unsigned_less[of "retry_max_count s", where 'a = nat] by (simp add: unat_word_ariths)
  ultimately show ?thesis using a(2,3) by (simp add: tries_def)
qed

lemma tries_pos: "resendCnt s < retry_max_count s \<Longrightarrow> 2 \<le> tries s"
  by (simp add: tries_def word_less_nat_alt)

lemma cs_rank_bound: "cs_rank s \<le> 6999"
  using tries_bound[of s] by (simp add: cs_rank_def)

lemma some_doing_ErrCode [simp]: "\<not> some_doing (OTA_ErrCode_Set e s)"
  by (auto simp: some_doing_def OTA_ErrCode_Set_def ota_dev_codes)

lemma some_doing_upd [simp]:
  "some_doing (s\<lparr>main_step := a\<rparr>) = some_doing s" "some_doing (s\<lparr>resendCnt := a\<rparr>) = some_doing s"
  "some_doing (s\<lparr>retry_max_count := a\<rparr>) = some_doing s" "some_doing (s\<lparr>timecnt := t\<rparr>) = some_doing s"
  "some_doing (exit_ota a s) = some_doing s"
  by (simp_all add: some_doing_def exit_ota_def)

lemma cs_rank_exit: "cs_rank (exit_ota r s) \<le> 2110"
  using tries_bound[of "exit_ota r s"] by (simp add: cs_rank_def exit_ota_def)

lemma cs_rank_8: "main_step s = 8 \<Longrightarrow> cs_rank s \<le> 2110"
  using tries_bound[of s] by (simp add: cs_rank_def)

text \<open>A step that sends, and either counts one try more or gives up.\<close>

definition one_try :: "CanOtaStruct \<Rightarrow> CanOtaStruct \<Rightarrow> bool" where
  "one_try s s' \<longleftrightarrow> resendCnt s < retry_max_count s \<and> main_step s' = main_step s + 1 \<and>
     retry_max_count s' = retry_max_count s \<and> resendCnt s' = resendCnt s + 1"

lemma one_try_rank:
  assumes "main_step s' = 8 \<or> one_try s s'" "main_step s \<in> {1, 3, 6}"
  shows "cs_rank s' < cs_rank s"
  using assms(1)
proof
  assume "main_step s' = 8"
  then show ?thesis using cs_rank_8[of s'] assms(2) by (auto simp: cs_rank_def)
next
  assume "one_try s s'"
  then show ?thesis using tries_dec[of s s'] assms(2) by (auto simp: one_try_def cs_rank_def)
qed

lemma rank_ready:
  assumes "main_step s = 1" "cs_ready env s w = (s', w')"
  shows "sender_work s' = 0 \<or> cs_rank s' < cs_rank s"
proof -
  have "sender_work s' = 0 \<or> main_step s' = 8 \<or> one_try s s'"
    using assms by (auto simp: cs_ready_def one_try_def OTA_ErrCode_Set_def exit_ota_def
        split: if_splits prod.splits bool.splits)
  then show ?thesis using one_try_rank[of s' s] assms(1) by auto
qed

lemma rank_wait_free:
  assumes "main_step s = 2" "timecnt s = 0"
  shows "cs_rank (cs_wait_free None s) < cs_rank s"
  using assms by (simp add: cs_wait_free_def cs_rank_def tries_def Let_def)

lemma rank_start:
  assumes "main_step s = 3" "cs_start env s w = (s', w')"
  shows "cs_rank s' < cs_rank s"
proof -
  have "main_step s' = 8 \<or> one_try s s'"
    using assms by (auto simp: cs_start_def one_try_def OTA_ErrCode_Set_def exit_ota_def
        split: if_splits prod.splits bool.splits)
  then show ?thesis using one_try_rank[of s' s] assms(1) by auto
qed

lemma rank_wait_start:
  assumes "main_step s = 4" "timecnt s = 0" "cs_wait_start env None s = Inr s'"
  shows "cs_rank s' < cs_rank s"
  using assms tries_bound[of s']
  by (auto simp: cs_wait_start_def cs_rank_def tries_def Let_def split: if_splits)

lemma rank_load:
  assumes "main_step s = 5" "cs_load env s w = Inr s'"
  shows "cs_rank s' < cs_rank s"
proof -
  have "main_step s' = 6 \<or> main_step s' = 8"
    using assms by (auto simp: cs_load_def exit_ota_def need_def Let_def split: if_splits option.splits)
  then show ?thesis using tries_bound[of s'] assms(1) by (auto simp: cs_rank_def)
qed

lemma rank_block:
  assumes "main_step s = 6" "cs_block env s w = Inr (s', w')"
  shows "cs_rank s' < cs_rank s"
proof -
  have send: "main_step s' = 8 \<or> one_try t s'"
    if "cs_send_block env t w = Inr (s', w')" "main_step t = 6" "resendCnt t < retry_max_count t" for t
    using that
    by (auto simp: cs_send_block_def one_try_def exit_ota_def need_def Let_def
        split: if_splits option.splits prod.splits bool.splits)
  have m: "main_step (cs_mark s) = 6" "resendCnt (cs_mark s) = resendCnt s" "retry_max_count (cs_mark s) = retry_max_count s"
    using assms(1) by (simp_all add: cs_mark_def)
  have "main_step s' = 8 \<or> one_try s s' \<or> one_try (cs_mark s) s'"
  proof (cases "retry_max_count s \<le> resendCnt s")
    case True
    then show ?thesis using assms by (auto simp: cs_block_def exit_ota_def)
  next
    case False
    then show ?thesis using assms m send[of s] send[of "cs_mark s"]
      by (auto simp: cs_block_def exit_ota_def Let_def not_le split: if_splits)
  qed
  moreover have "one_try (cs_mark s) s' = one_try s s'" by (simp add: one_try_def cs_mark_def)
  ultimately show ?thesis using one_try_rank[of s' s] assms(1) by auto
qed

lemma rank_wait_block:
  assumes "main_step s = 7" "timecnt s = 0" "cs_wait_block env None s w = Inr (s', w')"
  shows "cs_rank s' < cs_rank s"
  using assms by (auto simp: cs_wait_block_def cs_rank_def tries_def)

lemma rank_end:
  assumes m: "main_step s = 8" "cs_end env s w = (s', w')"
  shows "sender_work s' = 0 \<or> cs_rank s' < cs_rank s"
proof -
  let ?ds = "map (\<lambda>d. if isOta d = OTA_DOING then d\<lparr>waitAck := 1, errCode := OTA_ERR_NORMAL\<rparr> else d) (devStatus s)"
  have sd: "(\<exists>d \<in> set ?ds. isOta d = OTA_DOING) = some_doing s"
    unfolding some_doing_def set_map bex_simps(7) by (intro bex_cong) simp_all
  have pos: "some_doing s" if "(of_nat (length (filter (\<lambda>d. isOta d = OTA_DOING) (devStatus s))) :: u8) \<noteq> 0"
  proof (rule ccontr)
    assume "\<not> some_doing s"
    then have "filter (\<lambda>d. isOta d = OTA_DOING) (devStatus s) = []" by (simp add: some_doing_def filter_empty_conv)
    with that show False by simp
  qed
  let ?n = "of_nat (length (filter (\<lambda>d. isOta d = OTA_DOING) (devStatus s))) :: u8"
  let ?s2 = "s\<lparr>devCnt := ?n, devStatus := ?ds, ota_end_cmd := (ota_end_cmd s)\<lparr>end_fileType := sender_type s\<rparr>\<rparr>"
  have ds2: "devStatus ?s2 = ?ds" by simp
  have sd2: "some_doing ?s2 = some_doing s" unfolding some_doing_def[of ?s2] ds2 by (rule sd)
  consider "retry_max_count s \<le> resendCnt s" | "resendCnt s < retry_max_count s" "?n = 0" |
    "resendCnt s < retry_max_count s" "?n \<noteq> 0" by fastforce
  then show ?thesis
  proof cases
    case 1
    then have "main_step s' = 10" using m by (auto simp: cs_end_def OTA_ErrCode_Set_def)
    then show ?thesis using m(1) by (simp add: cs_rank_def)
  next
    case 2
    then show ?thesis using m by (auto simp: cs_end_def Let_def not_le[symmetric])
  next
    case 3
    obtain x w1 where f: "OTA_SendFrame env OTA_END (end_bytes (ota_end_cmd ?s2)) CAN_BROADCAST_ADDRESS w = (x, w1)"
      by fastforce
    have s': "s' = (if x then ?s2\<lparr>resendCnt := resendCnt s + 1, timecnt := 5000, main_step := main_step s + 1\<rparr>
        else OTA_ErrCode_Set OTA_ERR_CAN_ERR (?s2\<lparr>resendCnt := 0\<rparr>))"
      using m(2) 3 f by (cases x) (auto simp: cs_end_def Let_def not_le[symmetric])
    show ?thesis
    proof (cases x)
      case True
      have s'_eq: "s' = ?s2\<lparr>resendCnt := resendCnt s + 1, timecnt := 5000, main_step := main_step s + 1\<rparr>"
        unfolding s' using True by (simp only: if_True)
      have "some_doing s'" unfolding s'_eq some_doing_upd sd2 by (rule pos[OF 3(2)])
      moreover have "main_step s' = 9" unfolding s'_eq using m(1) by simp
      moreover have "tries s = tries s' + 2" by (rule tries_dec[OF 3(1)]) (simp_all add: s'_eq)
      ultimately show ?thesis using m(1) pos[OF 3(2)] by (simp add: cs_rank_def)
    next
      case False
      have s'_eq: "s' = OTA_ErrCode_Set OTA_ERR_CAN_ERR (?s2\<lparr>resendCnt := 0\<rparr>)"
        unfolding s' using False by (simp only: if_False)
      have "\<not> some_doing s'" unfolding s'_eq by simp
      moreover have "main_step s' = 8" unfolding s'_eq using m(1) by (simp add: OTA_ErrCode_Set_def)
      ultimately show ?thesis using m(1) pos[OF 3(2)] tries_bound[of s'] by (simp add: cs_rank_def)
    qed
  qed
qed

lemma rank_wait_end:
  assumes "main_step s = 9" "timecnt s = 0" "cs_wait_end env None s w = Inr (s', w')"
  shows "cs_rank s' < cs_rank s"
  using assms by (auto simp: cs_wait_end_def cs_rank_def tries_def)

lemma rank_step:
  assumes wf: "cs_wf s" and s: "sender_work s \<noteq> 0" "timecnt s = 0" and st: "cs_step env None s w = Inr (s', w')"
  shows "sender_work s' = 0 \<or> cs_rank s' < cs_rank s"
proof -
  have "main_step s \<in> {0, 1, 2, 3, 4, 5, 6, 7, 8, 9, 10}" using wf by (intro u8_le_10) (simp add: cs_wf_def)
  then show ?thesis
  proof (elim insertE emptyE)
    assume "main_step s = 0" then show ?thesis using st
      by (auto simp: cs_step_def cs_init_def cs_rank_def tries_def OTA_ErrCode_Set_def)
  next
    assume m: "main_step s = 1" then show ?thesis using rank_ready[OF m, of env w s' w'] st by (auto simp: cs_step_def)
  next
    assume m: "main_step s = 2" then show ?thesis using rank_wait_free[OF m s(2)] st by (auto simp: cs_step_def)
  next
    assume m: "main_step s = 3" then show ?thesis using rank_start[OF m, of env w s' w'] st by (auto simp: cs_step_def)
  next
    assume m: "main_step s = 4" then show ?thesis using rank_wait_start[OF m s(2), of env s'] st
      by (auto simp: cs_step_def cbind_def split: sum.splits)
  next
    assume m: "main_step s = 5" then show ?thesis using rank_load[OF m, of env w s'] st
      by (auto simp: cs_step_def cbind_def split: sum.splits)
  next
    assume m: "main_step s = 6" then show ?thesis using rank_block[OF m, of env w s' w'] st by (simp add: cs_step_def)
  next
    assume m: "main_step s = 7" then show ?thesis using rank_wait_block[OF m s(2), of env w s' w'] st by (simp add: cs_step_def)
  next
    assume m: "main_step s = 8" then show ?thesis using rank_end[OF m, of env w s' w'] st by (simp add: cs_step_def)
  next
    assume m: "main_step s = 9" then show ?thesis using rank_wait_end[OF m s(2), of env w s' w'] st by (simp add: cs_step_def)
  next
    assume "main_step s = 10" then show ?thesis using st by (auto simp: cs_step_def cs_exit_def)
  qed
qed

lemma rank_update [simp]: "cs_rank (s\<lparr>timecnt := t\<rparr>) = cs_rank s" "cs_rank (s\<lparr>ota_doing := a\<rparr>) = cs_rank s"
  by (simp_all add: cs_rank_def tries_def some_doing_def)

lemma silent_run_stopped:
  "sender_work s = 0 \<Longrightarrow> \<exists>s'. can_send_run env (replicate n (True, None)) s w = Inr (s', w) \<and> sender_work s' = 0"
  by (induction n arbitrary: s) (simp_all add: CanOtaSender_def)

lemma silent_run:
  assumes "flash_reads env"
  shows "cs_wf s \<Longrightarrow> cs_rank s < n \<Longrightarrow>
    \<exists>s' w'. can_send_run env (replicate n (True, None)) s w = Inr (s', w') \<and> sender_work s' = 0"
proof (induction n arbitrary: s w)
  case (Suc n)
  let ?s = "s\<lparr>timecnt := 0\<rparr>"
  have wf: "cs_wf ?s" using Suc.prems(1) by simp
  have "cs_ok (CanOtaSender env None ?s w)" by (rule CanOtaSender_wf[OF wf assms]) simp
  then obtain s1 w1 where c: "CanOtaSender env None ?s w = Inr (s1, w1)" "cs_wf s1"
    by (auto simp: cs_ok_def split: sum.splits)
  show ?case
  proof (cases "sender_work s1 = 0")
    case True
    then show ?thesis using c silent_run_stopped[OF True, of env n w1] by auto
  next
    case False
    then have "cs_rank s1 < cs_rank ?s"
      using c(1) rank_step[OF wf, of env w] by (auto simp: CanOtaSender_def cbind_def split: if_splits sum.splits)
    then show ?thesis using Suc.IH[OF c(2)] Suc.prems(2) c(1) by simp
  qed
qed simp

section \<open>Properties\<close>

text \<open>C15: A complete firmware transfer over CAN between two boards: once a transfer of an image of 1 to
  65535 blocks, meant for the receiving board or broadcast, has been begun on the sending board, and the
  versions fit, the schedule below (the bus stays quiet for the waiting times, every frame arrives) runs
  to its end without a fault: the receiver's update partition then holds the image of the sender's flash
  area byte for byte, its update has been completed and it restarts, and the sender is idle again with
  no device left in transfer.\<close>

theorem can_firmware_delivered:
  assumes tx: "tx_pre ra dst \<lparr>fileType = 0, fileVersion = v, fileSize = of_nat n, dev_id = i\<rparr> (tx_s y)"
      "main_step (tx_s y) = 0" "0 < n" "n < 65536"
    and rx: "rx_idle (rx_s y)" "bus_out (rx_w y) = []" "\<not> rx_restart y" "v div 100 = ver div 100"
  shows "\<exists>y'. can_cycles sa ra ver ([False, False, True, False, False, True] @ replicate (3 * n) False @
       [False, False, False, False]) y = Inr y' \<and> sys_done (node_flash (tx_w y)) n y'"
proof -
  let ?st = "\<lparr>fileType = 0, fileVersion = v, fileSize = of_nat n, dev_id = i\<rparr>" and ?mem = "node_flash (tx_w y)"
  have "sys_begin ra dst ?st ?mem 0 y" using tx rx by (simp add: sys_begin_def)
  then obtain y1 where y1: "can_cycle sa ra ver False y = Inr y1" "sys_begin ra dst ?st ?mem 1 y1"
      "resendCnt (tx_s y1) = 0" "retry_max_count (tx_s y1) = 5" using cycle_init by blast
  obtain y2 where y2: "can_cycle sa ra ver False y1 = Inr y2" "sys_begin ra dst ?st ?mem 2 y2" "can_busy (tx_s y2) = 0"
    using cycle_ready[OF y1(2-4)] by blast
  obtain y3 where y3: "can_cycle sa ra ver True y2 = Inr y3" "sys_begin ra dst ?st ?mem 3 y3"
      "resendCnt (tx_s y3) = 0" "retry_max_count (tx_s y3) = 5" using cycle_free[OF y2(2,3)] by blast
  have v: "fileVersion ?st div 100 = ver div 100" "fileSize ?st = of_nat n" using rx(4) by simp_all
  obtain y4 where y4: "can_cycle sa ra ver False y3 = Inr y4" "sys_started ra dst ?st ?mem n y4"
      "resendCnt (tx_s y4) = 1" "retry_max_count (tx_s y4) = 5" using cycle_start[OF y3(2-4) v] by blast
  obtain y5 where y5: "can_cycle sa ra ver False y4 = Inr y5" "sys_answered ra dst ?mem n y5"
    using cycle_start_ack[OF y4(2-4) v(2)] by blast
  obtain y6 where y6: "can_cycle sa ra ver True y5 = Inr y6" "sys_load ra dst ?mem n 0 y6"
    using cycle_answered[OF y5(2)] by blast
  obtain y7 where y7: "can_cycles sa ra ver (replicate (3 * n) False) y6 = Inr y7" "sys_load ra dst ?mem n n y7"
    using cycles_blocks[OF y6(2) tx(4) order_refl] by blast
  obtain y8 where y8: "can_cycles sa ra ver [False, False, False, False] y7 = Inr y8" "sys_done ?mem n y8"
    using cycles_end[OF y7(2) tx(3,4)] by blast
  have "can_cycles sa ra ver [False, False, True, False, False, True] y = Inr y6"
    using y1(1) y2(1) y3(1) y4(1) y5(1) y6(1) by simp
  then show ?thesis using y7(1) y8 by (simp only: can_cycles_append cbind_simps) blast
qed

theorem can_firmware_delivered_witness:
  "\<exists>y'. can_cycles 1 2 80210 ([False, False, True, False, False, True] @ replicate (3 * 300) False @
       [False, False, False, False])
     \<lparr>tx_s = CanOtaSender_Begin 0xFF 0 80215 (idle_can_ota\<lparr>ota_start := \<lparr>fileType = 0, fileVersion = 80215, fileSize = 300, dev_id = 2\<rparr>\<rparr>),
      tx_w = idle_node\<lparr>node_flash := (\<lambda>a. of_nat (a * a))\<rparr>, rx_s = idle_can_ota, rx_r = idle_receiver,
      rx_w = idle_node, rx_restart = False\<rparr> = Inr y' \<and>
     update_part (rx_w y') = mem_bytes (\<lambda>a. of_nat (a * a)) 8192 307200 \<and> rx_restart y'"
proof -
  let ?y = "\<lparr>tx_s = CanOtaSender_Begin 0xFF 0 80215 (idle_can_ota\<lparr>ota_start := \<lparr>fileType = 0, fileVersion = 80215, fileSize = of_nat 300, dev_id = 2\<rparr>\<rparr>),
      tx_w = idle_node\<lparr>node_flash := (\<lambda>a. of_nat (a * a))\<rparr>, rx_s = idle_can_ota, rx_r = idle_receiver,
      rx_w = idle_node, rx_restart = False\<rparr>"
  have "tx_pre 2 0xFF \<lparr>fileType = 0, fileVersion = 80215, fileSize = of_nat 300, dev_id = 2\<rparr> (tx_s ?y)" "main_step (tx_s ?y) = 0"
    by (simp_all add: tx_pre_def CanOtaSender_Begin_def idle_can_ota_def CAN_BROADCAST_ADDRESS_def OTA_IDLE_def)
  moreover have "rx_idle (rx_s ?y)" "bus_out (rx_w ?y) = []" "\<not> rx_restart ?y"
    by (simp_all add: rx_idle_def idle_can_ota_def idle_node_def)
  moreover have "(80215 :: u32) div 100 = 80210 div 100" by (simp add: word_unat_eq_iff unat_div)
  ultimately have "\<exists>y'. can_cycles 1 2 80210 ([False, False, True, False, False, True] @ replicate (3 * 300) False @
       [False, False, False, False]) ?y = Inr y' \<and> sys_done (node_flash (tx_w ?y)) 300 y'"
    by - (rule can_firmware_delivered[where v = 80215 and dst = "0xFF" and i = 2], simp_all)
  then show ?thesis by (auto simp: sys_done_def)
qed


text \<open>Memory safety of the sender: with a non-zero image size, a device table and a block buffer of their
  sizes, no sequence of calls, expired timers and received frames of any content makes it fault, provided
  no frame claims the broadcast address as its source; an answer with that source indexes the device
  table, which has 255 entries, out of bounds.\<close>

theorem can_sender_memory_safe:
  assumes "cs_wf s" "flash_reads env"
  shows "((\<forall>(x, fr) \<in> set es. \<forall>f. fr = Some f \<longrightarrow> id_src (msg_identifier f) \<noteq> CAN_BROADCAST_ADDRESS) \<longrightarrow>
      (\<exists>s' w'. can_send_run env es s w = Inr (s', w') \<and> cs_wf s')) \<and>
    (main_step s = 7 \<and> timecnt s \<noteq> 0 \<and> sender_work s \<noteq> 0 \<and> id_funcode (msg_identifier f) = OTA_BLOCK_DATA_ACK \<and>
      id_src (msg_identifier f) = CAN_BROADCAST_ADDRESS \<longrightarrow> CanOtaSender env (Some f) s w = Inl Out_Of_Bounds_Write)"
proof
  show "(\<forall>(x, fr) \<in> set es. \<forall>f. fr = Some f \<longrightarrow> id_src (msg_identifier f) \<noteq> CAN_BROADCAST_ADDRESS) \<longrightarrow>
      (\<exists>s' w'. can_send_run env es s w = Inr (s', w') \<and> cs_wf s')"
    using can_send_run_wf[OF assms(2,1)] by blast
  show "main_step s = 7 \<and> timecnt s \<noteq> 0 \<and> sender_work s \<noteq> 0 \<and> id_funcode (msg_identifier f) = OTA_BLOCK_DATA_ACK \<and>
      id_src (msg_identifier f) = CAN_BROADCAST_ADDRESS \<longrightarrow> CanOtaSender env (Some f) s w = Inl Out_Of_Bounds_Write"
    using assms(1)
    by (simp add: CanOtaSender_def cs_step_def cs_wait_block_def cs_block_ack_def with_dev_def cs_wf_def
        CAN_BROADCAST_ADDRESS_def Let_def)
qed

theorem can_sender_memory_safe_witness:
  "\<exists>s' w'. can_send_run (node_env 1 0) [(False, None), (True, Some (bus_msg (CAN_ID 2 0 OTA_START_ACK 1 7, [0, 0, 0, 1, 0, 0, 0, 0])))]
     (idle_can_ota\<lparr>sender_work := 1, ota_start := \<lparr>fileType = 0, fileVersion = 80215, fileSize = 9, dev_id = 2\<rparr>\<rparr>)
     idle_node = Inr (s', w') \<and> cs_wf s'"
proof -
  have "cs_wf (idle_can_ota\<lparr>sender_work := 1, ota_start := \<lparr>fileType = 0, fileVersion = 80215, fileSize = 9, dev_id = 2\<rparr>\<rparr>)"
    by (simp add: cs_wf_def idle_can_ota_def)
  moreover have "flash_reads (node_env 1 0)" by (auto simp: flash_reads_def)
  ultimately show ?thesis
    using can_sender_memory_safe[of _ "node_env 1 0" "[(False, None), (True, Some (bus_msg (CAN_ID 2 0 OTA_START_ACK 1 7, [0, 0, 0, 1, 0, 0, 0, 0])))]" idle_node]
    by (simp add: CAN_BROADCAST_ADDRESS_def del: can_send_run.simps)
qed

text \<open>C37: The sender ends: from any well-formed state, whatever bus, flash and allocator answer, 7000 calls
  with expired timers and no received frame make it stop; the waiting for answers is always bounded by
  the retry counters.\<close>

theorem can_sender_ends_in_silence:
  assumes "cs_wf s" "flash_reads env"
  shows "\<exists>s' w'. can_send_run env (replicate 7000 (True, None)) s w = Inr (s', w') \<and> sender_work s' = 0"
  using silent_run[OF assms(2,1)] cs_rank_bound[of s] by simp

theorem can_sender_ends_in_silence_witness:
  "\<exists>s' w'. can_send_run (node_env 1 0) (replicate 7000 (True, None))
     (idle_can_ota\<lparr>sender_work := 1, ota_start := \<lparr>fileType = 0, fileVersion = 80215, fileSize = 9, dev_id = 2\<rparr>\<rparr>)
     idle_node = Inr (s', w') \<and> sender_work s' = 0"
  by (rule can_sender_ends_in_silence) (auto simp: cs_wf_def idle_can_ota_def flash_reads_def)

text \<open>One lost answer ends the transfer: the receiver has taken block \<open>k\<close>, and its answer does not
  arrive.  The sender repeats the block when its timer has run down; the receiver, which expects the
  next number, takes every repetition in silence, so after five transmissions the sender stops and
  reports a device that does not answer, although the block is in the receiver's update partition.  The
  sender's block buffer stays allocated.\<close>

theorem can_lost_answer_aborts:
  assumes "sys_lost ra dst mem n k 1 y" "k < n" "n < 65536"
  shows "\<exists>y'. can_cycles sa ra ver [True, False, True, False, True, False, True, False, True, False, False] y = Inr y' \<and>
    sender_work (tx_s y') = 0 \<and> (\<forall>d \<in> set (devStatus (tx_s y')). isOta d = OTA_IDLE \<and> errCode d = OTA_ERR_NO_RESP) \<and>
    update_part (rx_w y') = mem_bytes mem 8192 (1024 * Suc k) \<and> pblock_buf (tx_s y') \<noteq> None"
proof -
  obtain y1 where y1: "can_cycles sa ra ver [True, False] y = Inr y1" "sys_lost ra dst mem n k 2 y1"
    using cycles_lost[OF assms(1) _ assms(2,3)] by auto
  obtain y2 where y2: "can_cycles sa ra ver [True, False] y1 = Inr y2" "sys_lost ra dst mem n k 3 y2"
    using cycles_lost[OF y1(2) _ assms(2,3)] by auto
  obtain y3 where y3: "can_cycles sa ra ver [True, False] y2 = Inr y3" "sys_lost ra dst mem n k 4 y3"
    using cycles_lost[OF y2(2) _ assms(2,3)] by auto
  obtain y4 where y4: "can_cycles sa ra ver [True, False] y3 = Inr y4" "sys_lost ra dst mem n k 5 y4"
    using cycles_lost[OF y3(2) _ assms(2,3)] by auto
  obtain y5 where y5: "can_cycles sa ra ver [True, False, False] y4 = Inr y5" "sender_work (tx_s y5) = 0"
      "\<forall>d \<in> set (devStatus (tx_s y5)). isOta d = OTA_IDLE \<and> errCode d = OTA_ERR_NO_RESP"
      "pblock_buf (tx_s y5) \<noteq> None" "rx_ok mem n (Suc k) (rx_s y5) (rx_r y5) (rx_w y5)"
    using cycles_give_up[OF y4(2)] by blast
  have "can_cycles sa ra ver ([True, False] @ [True, False] @ [True, False] @ [True, False] @ [True, False, False]) y = Inr y5"
    using y1(1) y2(1) y3(1) y4(1) y5(1) by (simp only: can_cycles_append cbind_simps)
  moreover have "update_part (rx_w y5) = mem_bytes mem 8192 (1024 * Suc k)" using y5(5) by (simp add: rx_ok_def)
  ultimately show ?thesis using y5(2-4) by (intro exI[of _ y5]) simp
qed

theorem can_lost_answer_aborts_witness:
  "\<exists>y y'. bus_out (rx_w y) = [] \<and>
     can_cycles 1 2 80210 [True, False, True, False, True, False, True, False, True, False, False] y = Inr y' \<and>
     sender_work (tx_s y') = 0 \<and> update_part (rx_w y') = mem_bytes (\<lambda>_. 0) 8192 1024"
proof -
  let ?y = "\<lparr>tx_s = idle_can_ota\<lparr>sender_work := 1, pblock_len := 1024, retry_max_count := 5, sender_target_id := 0xFF,
      devStatus := (devStatus idle_can_ota)[2 := (devStatus idle_can_ota ! 2)\<lparr>isOta := OTA_DOING\<rparr>],
      ota_start := \<lparr>fileType = 0, fileVersion = 80215, fileSize = 1, dev_id = 2\<rparr>, main_step := 7, resendCnt := 1,
      pblock_buf := Some (replicate 1024 0)\<rparr>, tx_w = idle_node,
    rx_s = idle_can_ota\<lparr>ota_doing := CAN_OTA_IOT, timecnt := 10000,
      ota_block := \<lparr>blockSeq = 1, frameTotal = 171, blockCrc16 = 0, retryCnt = 0, block_nc = 0\<rparr>,
      ota_start := \<lparr>fileType = 0, fileVersion = 80215, fileSize = 1, dev_id = 2\<rparr>,
      pblock_buf := Some (replicate 1026 0)\<rparr>,
    rx_r = idle_receiver\<lparr>is_esp_ota := True, wait_can_Id := uint OTA_BLOCK_START\<rparr>,
    rx_w = idle_node\<lparr>update_part := mem_bytes (\<lambda>_. 0) 8192 1024\<rparr>, rx_restart = False\<rparr>"
  have "tx_ok 2 0xFF 1 0 (tx_s ?y)"
    by (simp add: tx_ok_def one_device_def idle_can_ota_def CAN_BROADCAST_ADDRESS_def ota_dev_codes nth_list_update)
  moreover have "rx_ok (\<lambda>_. 0) 1 1 (rx_s ?y) (rx_r ?y) (rx_w ?y)"
    by (simp add: rx_ok_def co_waiting_def idle_can_ota_def idle_receiver_def)
  ultimately have "sys_lost 2 0xFF (\<lambda>_. 0) 1 0 1 ?y"
    by (simp add: sys_lost_def idle_node_def)
  from can_lost_answer_aborts[OF this, of 1 80210]
  have "\<exists>y'. can_cycles 1 2 80210 [True, False, True, False, True, False, True, False, True, False, False] ?y = Inr y' \<and>
      sender_work (tx_s y') = 0 \<and> update_part (rx_w y') = mem_bytes (\<lambda>_. 0) 8192 1024"
    by (simp del: can_cycles.simps) blast
  moreover have "bus_out (rx_w ?y) = []" by (simp add: idle_node_def)
  ultimately show ?thesis by blast
qed

end
