(* ===== verification/Modbus_Tlv.thy ===== *)
theory Modbus_Tlv
  imports Crc
begin

text \<open>
  Register groups in TLV form over the Modbus 21000 segment, \<open>iot_modbus/modbus_tlv.c\<close>: the
  receive queue, the read command that collects registers and answers in frames of at most 250
  payload bytes, the precomputed frame count, and the write command.  The register tables are a
  memory of 16-bit cells; the table lookup, the table callbacks, the forwarding of writes and the
  send queues are the record \<open>md_env\<close>, acting on an outside world \<open>'w\<close>.  The reply loop of the
  write command can fail to end, so it runs on fuel: \<open>None\<close> is \<open>not finished\<close>.
\<close>

section \<open>Constants and data\<close>

definition MODBUS_REG_SINGLE_PROCESS_LEN_MAX :: nat where "MODBUS_REG_SINGLE_PROCESS_LEN_MAX = 127"
definition MODBUS_TL_LEN :: nat where "MODBUS_TL_LEN = 6"
definition MODBUS_TLV_SINGLE_NUM_MAX :: nat where
  "MODBUS_TLV_SINGLE_NUM_MAX = MODBUS_REG_SINGLE_PROCESS_LEN_MAX * 2 div MODBUS_TL_LEN"
definition MODBUS_TLV_BUFFER_LEN_MAX :: nat where
  "MODBUS_TLV_BUFFER_LEN_MAX = MODBUS_REG_SINGLE_PROCESS_LEN_MAX * 2 + 9"
definition MODBUS_TLV_DATA_LEN_MAX :: nat where
  "MODBUS_TLV_DATA_LEN_MAX = MODBUS_REG_SINGLE_PROCESS_LEN_MAX * 2 - 4"
definition MODBUS_21000_FUNC_TLV_DATA :: u16 where "MODBUS_21000_FUNC_TLV_DATA = 40004"
definition MODBUS_21000_FUNC_TLV_READ_CMD :: u16 where "MODBUS_21000_FUNC_TLV_READ_CMD = 40005"
definition MD_SUMMARY_ADDR :: u8 where "MD_SUMMARY_ADDR = 0"
definition MOD_REG_START_ADDR_21000 :: u16 where "MOD_REG_START_ADDR_21000 = 21000"

lemmas md_consts = MODBUS_REG_SINGLE_PROCESS_LEN_MAX_def MODBUS_TL_LEN_def MODBUS_TLV_SINGLE_NUM_MAX_def
  MODBUS_TLV_BUFFER_LEN_MAX_def MODBUS_TLV_DATA_LEN_MAX_def MODBUS_21000_FUNC_TLV_DATA_def
  MODBUS_21000_FUNC_TLV_READ_CMD_def

text \<open>A TLV unit: for a read the value is the address of its register table.\<close>

record modbus_tlv_unit =
  slave_addr :: u8
  reserved :: u8
  reg_addr :: u16
  tl_len :: u16
  reg_value :: "nat option"

record queue_msg_tlv =
  msg_data :: "u8 list"
  msg_chl :: u8

type_synonym 'w md_state = "(nat \<Rightarrow> u16) \<times> 'w"

record 'w md_env =
  vLookupDataTab :: "u8 \<Rightarrow> u16 \<Rightarrow> u16 \<Rightarrow> bool \<Rightarrow> u8 \<Rightarrow> nat option"
  md_tbl_find :: "u16 \<Rightarrow> bool"
  tbl_cb :: "modbus_tlv_unit \<Rightarrow> bool \<Rightarrow> u8 \<Rightarrow> 'w md_state \<Rightarrow> int \<times> 'w md_state"
  forward_write :: "modbus_tlv_unit \<Rightarrow> u8 \<Rightarrow> 'w \<Rightarrow> 'w"
  ble_push :: "u8 list \<Rightarrow> 'w \<Rightarrow> 'w"
  mqtt_push :: "u8 list \<Rightarrow> 'w \<Rightarrow> 'w"
  MD_CHL_BLE :: u8
  MD_CHL_WIFI_CLOUD :: u8
  data_semaphore :: bool

section \<open>Frames\<close>

text \<open>\<open>U16_TO_BE\<close> over the payload: the bytes of every whole 16-bit word change places.\<close>

fun swap_words :: "u8 list \<Rightarrow> u8 list" where
  "swap_words (a # b # xs) = b # a # swap_words xs"
| "swap_words xs = xs"

definition modbus_tlv_send :: "'w md_env \<Rightarrow> u8 list \<Rightarrow> u8 \<Rightarrow> 'w \<Rightarrow> 'w" where
  "modbus_tlv_send env d chl w =
     (if d = [] then w
      else if chl = MD_CHL_BLE env then ble_push env d w
      else if chl = MD_CHL_WIFI_CLOUD env then mqtt_push env d w
      else w)"

definition modbus_tlv_frame :: "u8 list \<Rightarrow> u8 \<Rightarrow> u8 \<Rightarrow> u8 list" where
  "modbus_tlv_frame payload total_index curr_index =
     (let n = length payload;
          body = [MD_SUMMARY_ADDR, 0x10, hi8 MOD_REG_START_ADDR_21000, lo8 MOD_REG_START_ADDR_21000,
                  of_nat ((n + 4) div 2 div 256), of_nat ((n + 4) div 2), of_nat (n + 4),
                  hi8 MODBUS_21000_FUNC_TLV_DATA, lo8 MODBUS_21000_FUNC_TLV_DATA,
                  total_index, curr_index] @ swap_words payload
      in body @ le16 (CalcCrc16_modbus body (of_nat (n + 11))))"

definition modbus_tlv_read_rtn_send_frame ::
    "'w md_env \<Rightarrow> u8 list \<Rightarrow> u8 \<Rightarrow> u8 \<Rightarrow> u8 \<Rightarrow> 'w \<Rightarrow> 'w" where
  "modbus_tlv_read_rtn_send_frame env payload total_index curr_index chl w =
     modbus_tlv_send env (modbus_tlv_frame payload total_index curr_index) chl w"

section \<open>Counting and cutting frames\<close>

text \<open>The precomputation: \<open>p\<close> is \<open>payload_len\<close>, \<open>t\<close> is \<open>total_index\<close>; the inner loop puts \<open>l\<close>
  value bytes.\<close>

function calc_value :: "nat \<Rightarrow> nat \<Rightarrow> nat \<Rightarrow> u8 \<Rightarrow> nat \<times> u8" where
  "calc_value M l p t =
     (if l = 0 \<or> M = 0 then (p, t)
      else let t1 = (if M - p = 0 then t + 1 else t);
               p1 = (if M - p = 0 then 0 else p);
               free = M - p1
           in if l > free then calc_value M (l - free) 0 (t1 + 1) else (p1 + l, t1))"
  by pat_completeness auto

termination calc_value
  by (relation "measure (\<lambda>(M, l, p, t). l)") (auto simp: Let_def split: if_splits)

declare calc_value.simps [simp del]

definition eff_len :: "modbus_tlv_unit \<Rightarrow> nat" where
  "eff_len u = (if reg_value u = None then 0 else unat (tl_len u))"

fun calc_units :: "nat \<Rightarrow> modbus_tlv_unit list \<Rightarrow> nat \<times> u8 \<Rightarrow> nat \<times> u8" where
  "calc_units M [] (p, t) = (p, t)"
| "calc_units M (u # us) (p, t) =
     (let (p1, t1) = (if p > M - MODBUS_TL_LEN then (0, t + 1) else (p, t))
      in calc_units M us (calc_value M (eff_len u) (p1 + MODBUS_TL_LEN) t1))"

definition modbus_tlv_read_rtn_calc_total_index :: "modbus_tlv_unit list \<Rightarrow> nat \<Rightarrow> u8" where
  "modbus_tlv_read_rtn_calc_total_index us M =
     (case calc_units M us (0, 0) of (p, t) \<Rightarrow> if p > 0 \<or> t = 0 then t + 1 else t)"

text \<open>The cutting: the payload under construction and the payloads already sent.\<close>

function cut_value :: "nat \<Rightarrow> u8 list \<Rightarrow> u8 list \<times> u8 list list \<Rightarrow> u8 list \<times> u8 list list" where
  "cut_value M v (p, fs) =
     (if v = [] \<or> M = 0 then (p, fs)
      else let fs1 = (if M - length p = 0 then fs @ [p] else fs);
               p1 = (if M - length p = 0 then [] else p);
               c = (if length v > M - length p1 then M - length p1 else length v);
               p2 = p1 @ take c v;
               v' = drop c v
           in if length p2 = M \<and> v' \<noteq> [] then cut_value M v' ([], fs1 @ [p2])
              else cut_value M v' (p2, fs1))"
  by pat_completeness auto

termination cut_value
  by (relation "measure (\<lambda>(M, v, s). length v)") (auto simp: Let_def split: if_splits)

declare cut_value.simps [simp del]

text \<open>Bytes of a register table, as they lie in the memory of a little-endian machine.\<close>

definition reg_bytes :: "(nat \<Rightarrow> u16) \<Rightarrow> nat \<Rightarrow> nat \<Rightarrow> u8 list" where
  "reg_bytes regs a n = take n (concat (map (\<lambda>i. le16 (regs (a + i))) [0..<n]))"

definition unit_value :: "(nat \<Rightarrow> u16) \<Rightarrow> modbus_tlv_unit \<Rightarrow> u8 list" where
  "unit_value regs u = (case reg_value u of None \<Rightarrow> [] | Some a \<Rightarrow> reg_bytes regs a (unat (tl_len u)))"

text \<open>The copied TL head; without a value its length field is sent as zero.\<close>

definition unit_tl :: "modbus_tlv_unit \<Rightarrow> u8 list" where
  "unit_tl u = [slave_addr u, reserved u] @ le16 (reg_addr u) @
     le16 (if reg_value u = None then 0 else tl_len u)"

fun cut_units ::
    "nat \<Rightarrow> (nat \<Rightarrow> u16) \<Rightarrow> modbus_tlv_unit list \<Rightarrow> u8 list \<times> u8 list list \<Rightarrow> u8 list \<times> u8 list list" where
  "cut_units M regs [] s = s"
| "cut_units M regs (u # us) (p, fs) =
     (let (p1, fs1) = (if length p > M - MODBUS_TL_LEN then ([], fs @ [p]) else (p, fs))
      in cut_units M regs us (cut_value M (unit_value regs u) (p1 @ unit_tl u, fs1)))"

definition cut_frames :: "nat \<Rightarrow> (nat \<Rightarrow> u16) \<Rightarrow> modbus_tlv_unit list \<Rightarrow> u8 list list" where
  "cut_frames M regs us = (case cut_units M regs us ([], []) of (p, fs) \<Rightarrow> if p \<noteq> [] then fs @ [p] else fs)"

fun send_frames :: "'w md_env \<Rightarrow> u8 \<Rightarrow> u8 \<Rightarrow> u8 \<Rightarrow> u8 list list \<Rightarrow> 'w \<Rightarrow> 'w" where
  "send_frames env tot idx chl [] w = w"
| "send_frames env tot idx chl (p # ps) w =
     send_frames env tot (idx + 1) chl ps (modbus_tlv_read_rtn_send_frame env p tot idx chl w)"

definition modbus_tlv_read_rtn_framing_and_send ::
    "'w md_env \<Rightarrow> modbus_tlv_unit list \<Rightarrow> u8 \<Rightarrow> 'w md_state \<Rightarrow> 'w md_state" where
  "modbus_tlv_read_rtn_framing_and_send env us chl s =
     (case s of (regs, w) \<Rightarrow>
        if us = [] \<or> \<not> data_semaphore env then s
        else (regs, send_frames env (modbus_tlv_read_rtn_calc_total_index us MODBUS_TLV_DATA_LEN_MAX) 1 chl
                (cut_frames MODBUS_TLV_DATA_LEN_MAX regs us) w))"

section \<open>Reading\<close>

text \<open>The result code and the table address.\<close>

definition modbus_tlv_process_read_unit ::
    "'w md_env \<Rightarrow> modbus_tlv_unit \<Rightarrow> u8 \<Rightarrow> 'w md_state \<Rightarrow> int \<times> nat option \<times> 'w md_state" where
  "modbus_tlv_process_read_unit env u chl s =
     (if tl_len u = 0 \<or> tl_len u mod 2 \<noteq> 0 then (- 1, None, s)
      else case vLookupDataTab env (slave_addr u) (reg_addr u) (tl_len u div 2) False chl of
        None \<Rightarrow> (- 2, None, s)
      | Some a \<Rightarrow>
          if \<not> md_tbl_find env (reg_addr u) then (- 3, Some a, s)
          else (case tbl_cb env u False chl s of
                  (rc, s') \<Rightarrow> if rc \<noteq> 0 then (- 4, Some a, s') else (0, Some a, s')))"

definition tl_at :: "u8 list \<Rightarrow> nat \<Rightarrow> modbus_tlv_unit" where
  "tl_at d off = \<lparr>slave_addr = d ! off, reserved = d ! (off + 1), reg_addr = get16 d (off + 2),
                  tl_len = get16 d (off + 4), reg_value = None\<rparr>"

text \<open>The collection loop; \<open>us\<close> are the units entered so far, so \<open>length us\<close> is \<open>index\<close>.\<close>

function read_units ::
    "'w md_env \<Rightarrow> u8 list \<Rightarrow> nat \<Rightarrow> u8 \<Rightarrow> nat \<Rightarrow> modbus_tlv_unit list \<Rightarrow> 'w md_state \<Rightarrow>
     (modbus_tlv_unit list \<times> 'w md_state) cres" where
  "read_units env d data_len chl off us s =
     (if data_len < off + MODBUS_TL_LEN then Inr (us, s)
      else need (off + MODBUS_TL_LEN) d
        (let u = tl_at d off in
         if tl_len u = 0 \<or> tl_len u mod 2 \<noteq> 0 then read_units env d data_len chl (off + MODBUS_TL_LEN) us s
         else if length us \<ge> MODBUS_TLV_SINGLE_NUM_MAX then Inr (us, s)
         else case modbus_tlv_process_read_unit env u chl s of
           (ret, a, s') \<Rightarrow>
             read_units env d data_len chl (off + MODBUS_TL_LEN)
               (us @ [u\<lparr>reg_value := if ret \<ge> 0 then a else None\<rparr>]) s'))"
  by pat_completeness auto

termination read_units
  by (relation "measure (\<lambda>(env, d, data_len, chl, off, us, s). data_len - off)")
     (auto simp: MODBUS_TL_LEN_def)

declare read_units.simps [simp del]

definition modbus_tlv_read_cmd_process ::
    "'w md_env \<Rightarrow> u8 list \<Rightarrow> u16 \<Rightarrow> u8 \<Rightarrow> 'w md_state \<Rightarrow> 'w md_state cres" where
  "modbus_tlv_read_cmd_process env d data_len chl s =
     (if unat data_len < MODBUS_TL_LEN then Inr s
      else cbind (read_units env d (unat data_len) chl 0 [] s) (\<lambda>(us, s').
        Inr (if us \<noteq> [] then modbus_tlv_read_rtn_framing_and_send env us chl s' else s')))"

section \<open>Writing\<close>

text \<open>The register writes of one unit: the words of the value, byte-swapped.\<close>

definition write_regs :: "(nat \<Rightarrow> u16) \<Rightarrow> nat \<Rightarrow> u8 list \<Rightarrow> nat \<Rightarrow> nat \<Rightarrow> (nat \<Rightarrow> u16)" where
  "write_regs regs a d off n = fold (\<lambda>i r. r(a + i := bswap16 (get16 d (off + 2 * i)))) [0..<n] regs"

definition modbus_tlv_process_write_unit ::
    "'w md_env \<Rightarrow> u8 list \<Rightarrow> nat \<Rightarrow> modbus_tlv_unit \<Rightarrow> u8 \<Rightarrow> 'w md_state \<Rightarrow> (int \<times> 'w md_state) cres" where
  "modbus_tlv_process_write_unit env d off u chl s =
     (if tl_len u = 0 \<or> tl_len u mod 2 \<noteq> 0 then Inr (- 1, s)
      else let n = unat (tl_len u div 2) in
        (case vLookupDataTab env (slave_addr u) (reg_addr u) (tl_len u div 2) True chl of
           None \<Rightarrow> Inr (- 2, s)
         | Some a \<Rightarrow>
             need (off + 2 * n) d
              (case s of (regs, w) \<Rightarrow>
                 let s1 = (write_regs regs a d off n, forward_write env u chl w) in
                 if \<not> md_tbl_find env (reg_addr u) then Inr (- 3, s1)
                 else (case tbl_cb env u True chl s1 of
                         (rc, s2) \<Rightarrow> Inr (if rc \<noteq> 0 then - 4 else 0, s2)))))"

text \<open>The write loop with its 16-bit counters; \<open>None\<close> when the fuel is used up.\<close>

fun write_loop ::
    "nat \<Rightarrow> 'w md_env \<Rightarrow> u8 list \<Rightarrow> u16 \<Rightarrow> u8 \<Rightarrow> u16 \<Rightarrow> u16 \<Rightarrow> 'w md_state \<Rightarrow> 'w md_state cres option" where
  "write_loop 0 env d data_len chl processed remain s = None"
| "write_loop (Suc fuel) env d data_len chl processed remain s =
     (if unat remain < MODBUS_TL_LEN then Some (Inr s)
      else if unat processed + MODBUS_TL_LEN > length d then Some (Inl Out_Of_Bounds_Read)
      else let u = tl_at d (unat processed) in
        if tl_len u = 0 \<or> tl_len u mod 2 \<noteq> 0 then
          let processed' = processed + (6 + tl_len u) in
          write_loop fuel env d data_len chl processed'
            (if processed' \<le> data_len then data_len - processed' else 0) s
        else let unit_total_len = 6 + tl_len u in
          if unit_total_len > remain then Some (Inr s)
          else case modbus_tlv_process_write_unit env d (unat processed + MODBUS_TL_LEN) u chl s of
            Inl e \<Rightarrow> Some (Inl e)
          | Inr (r, s') \<Rightarrow>
              let processed' = processed + unit_total_len in
              write_loop fuel env d data_len chl processed'
                (if processed' \<le> data_len then data_len - processed' else 0) s')"

definition modbus_tlv_write_cmd_process ::
    "nat \<Rightarrow> 'w md_env \<Rightarrow> u8 list \<Rightarrow> u16 \<Rightarrow> u8 \<Rightarrow> 'w md_state \<Rightarrow> 'w md_state cres option" where
  "modbus_tlv_write_cmd_process fuel env d data_len chl s =
     (if unat data_len < MODBUS_TL_LEN then Some (Inr s)
      else write_loop fuel env d data_len chl 0 data_len s)"

section \<open>Queue and task\<close>

definition modbus_tlv_init :: "bool \<Rightarrow> nat \<Rightarrow> (nat \<times> queue_msg_tlv list) option \<Rightarrow> (nat \<times> queue_msg_tlv list) option" where
  "modbus_tlv_init create_ok capacity q =
     (case q of Some x \<Rightarrow> Some x
      | None \<Rightarrow> if create_ok then Some (if capacity = 0 then 32 else capacity, []) else None)"

datatype esp_err = ESP_OK | ESP_ERR_INVALID_ARG | ESP_ERR_NO_MEM | ESP_ERR_INVALID_STATE

definition modbus_tlv_queue_push ::
    "bool \<Rightarrow> u8 list option \<Rightarrow> u16 \<Rightarrow> u8 \<Rightarrow> (nat \<times> queue_msg_tlv list) option \<Rightarrow>
     (esp_err \<times> (nat \<times> queue_msg_tlv list) option) cres" where
  "modbus_tlv_queue_push alloc_ok pdata len chl q =
     (case pdata of None \<Rightarrow> Inr (ESP_ERR_INVALID_ARG, q)
      | Some d \<Rightarrow>
         if len = 0 then Inr (ESP_ERR_INVALID_ARG, q)
         else (case q of None \<Rightarrow> Inr (ESP_ERR_INVALID_STATE, q)
           | Some (cap, ms) \<Rightarrow>
              if \<not> alloc_ok then Inr (ESP_ERR_NO_MEM, q)
              else need (unat len) d
                (if length ms < cap
                 then Inr (ESP_OK, Some (cap, ms @ [\<lparr>msg_data = take (unat len) d, msg_chl = chl\<rparr>]))
                 else Inr (ESP_ERR_NO_MEM, q))))"

text \<open>One message: the function code is the first 16-bit word, the commands start at byte 4 and
  get the length minus 4 in 16 bits.\<close>

definition process_msg ::
    "nat \<Rightarrow> 'w md_env \<Rightarrow> queue_msg_tlv \<Rightarrow> 'w md_state \<Rightarrow> 'w md_state cres option" where
  "process_msg fuel env m s =
     (let d = msg_data m; n = of_nat (length d) :: u16 in
      if length d < 2 then Some (Inr s)
      else if get16 d 0 = MODBUS_21000_FUNC_TLV_DATA
        then modbus_tlv_write_cmd_process fuel env (drop 4 d) (n - 4) (msg_chl m) s
      else if get16 d 0 = MODBUS_21000_FUNC_TLV_READ_CMD
        then Some (modbus_tlv_read_cmd_process env (drop 4 d) (n - 4) (msg_chl m) s)
      else Some (Inr s))"

text \<open>The task: messages too short for a function code do not count towards the five.\<close>

fun process_queue ::
    "nat \<Rightarrow> 'w md_env \<Rightarrow> nat \<Rightarrow> queue_msg_tlv list \<Rightarrow> 'w md_state \<Rightarrow>
     (queue_msg_tlv list \<times> 'w md_state) cres option" where
  "process_queue fuel env n [] s = Some (Inr ([], s))"
| "process_queue fuel env n (m # ms) s =
     (if length (msg_data m) < 2 then process_queue fuel env n ms s
      else case process_msg fuel env m s of
        None \<Rightarrow> None
      | Some (Inl e) \<Rightarrow> Some (Inl e)
      | Some (Inr s') \<Rightarrow> if n + 1 \<ge> 5 then Some (Inr (ms, s')) else process_queue fuel env (n + 1) ms s')"

definition modbus_tlv_process_task ::
    "nat \<Rightarrow> bool \<Rightarrow> 'w md_env \<Rightarrow> (nat \<times> queue_msg_tlv list) option \<Rightarrow> 'w md_state \<Rightarrow>
     ((nat \<times> queue_msg_tlv list) option \<times> 'w md_state) cres option" where
  "modbus_tlv_process_task fuel mutex_ok env q s =
     (if \<not> mutex_ok then Some (Inr (q, s))
      else case q of None \<Rightarrow> Some (Inr (None, s))
      | Some (cap, ms) \<Rightarrow> (case process_queue fuel env 0 ms s of
            None \<Rightarrow> None | Some (Inl e) \<Rightarrow> Some (Inl e)
          | Some (Inr (ms', s')) \<Rightarrow> Some (Inr (Some (cap, ms'), s'))))"

section \<open>Cutting and counting agree\<close>

definition cut_ok :: "nat \<Rightarrow> u8 list \<times> u8 list list \<Rightarrow> bool" where
  "cut_ok M s \<longleftrightarrow> length (fst s) \<le> M \<and> (\<forall>f \<in> set (snd s). f \<noteq> [] \<and> length f \<le> M)"

definition cut_bytes :: "u8 list \<times> u8 list list \<Rightarrow> u8 list" where
  "cut_bytes s = concat (snd s) @ fst s"

definition counts :: "u8 list \<times> u8 list list \<Rightarrow> nat \<times> u8" where
  "counts s = (length (fst s), of_nat (length (snd s)))"

lemma cut_value_Nil [simp]: "cut_value M [] s = s"
  by (cases s) (simp add: cut_value.simps)

lemma calc_value_0 [simp]: "calc_value M 0 p t = (p, t)"
  by (simp add: calc_value.simps)

text \<open>One round of both loops, after the flush of a full frame.\<close>

lemma cut_value_round:
  assumes "0 < M" "v \<noteq> []" "length p < M"
  shows "cut_value M v (p, fs) =
      (if length v > M - length p
       then cut_value M (drop (M - length p) v) ([], fs @ [p @ take (M - length p) v])
       else (p @ v, fs))"
    and "calc_value M (length v) (length p) t =
      (if length v > M - length p then calc_value M (length v - (M - length p)) 0 (t + 1)
       else (length p + length v, t))"
  using assms
  by (simp_all add: cut_value.simps[of M v p fs] calc_value.simps[of M "length v" "length p" t] Let_def)

lemma cut_value_full:
  assumes "0 < M" "v \<noteq> []" "length p = M"
  shows "cut_value M v (p, fs) = cut_value M v ([], fs @ [p])"
    and "calc_value M (length v) (length p) t = calc_value M (length v) 0 (t + 1)"
  using assms
  by (simp_all add: cut_value.simps[of M v p fs] cut_value.simps[of M v "[]" "fs @ [p]"]
      calc_value.simps[of M "length v" M t] calc_value.simps[of M "length v" 0 "t + 1"] Let_def)

lemma cut_value_room:
  assumes "0 < M"
  shows "length p < M \<Longrightarrow> cut_ok M (p, fs) \<Longrightarrow>
     calc_value M (length v) (length p) (of_nat (length fs)) = counts (cut_value M v (p, fs)) \<and>
     cut_ok M (cut_value M v (p, fs)) \<and> cut_bytes (cut_value M v (p, fs)) = cut_bytes (p, fs) @ v \<and>
     (p \<noteq> [] \<or> v \<noteq> [] \<longrightarrow> fst (cut_value M v (p, fs)) \<noteq> [])"
proof (induction v arbitrary: p fs rule: length_induct)
  case (1 v)
  show ?case
  proof (cases "v = []")
    case True
    then show ?thesis using 1 by (simp add: counts_def cut_bytes_def)
  next
    case False
    let ?m = "M - length p" let ?f = "p @ take ?m v"
    show ?thesis
    proof (cases "length v > ?m")
      case True
      have m: "0 < ?m" "length ?f = M" using 1(2) True by simp_all
      then have ok: "cut_ok M ([], fs @ [?f])" using 1(3) assms by (auto simp: cut_ok_def)
      have "length (drop ?m v) < length v" using True m(1) by (simp only: length_drop)
      then have ih: "calc_value M (length (drop ?m v)) (length ([] :: u8 list)) (of_nat (length (fs @ [?f]))) =
            counts (cut_value M (drop ?m v) ([], fs @ [?f])) \<and>
          cut_ok M (cut_value M (drop ?m v) ([], fs @ [?f])) \<and>
          cut_bytes (cut_value M (drop ?m v) ([], fs @ [?f])) = cut_bytes ([], fs @ [?f]) @ drop ?m v \<and>
          (([] :: u8 list) \<noteq> [] \<or> drop ?m v \<noteq> [] \<longrightarrow> fst (cut_value M (drop ?m v) ([], fs @ [?f])) \<noteq> [])"
        using 1(1) ok assms by (metis list.size(3))
      moreover have "drop ?m v \<noteq> []" using True by simp
      ultimately have ih': "calc_value M (length v - ?m) 0 (of_nat (length fs) + 1) =
            counts (cut_value M (drop ?m v) ([], fs @ [?f]))"
          "cut_ok M (cut_value M (drop ?m v) ([], fs @ [?f]))"
          "cut_bytes (cut_value M (drop ?m v) ([], fs @ [?f])) = cut_bytes ([], fs @ [?f]) @ drop ?m v"
          "fst (cut_value M (drop ?m v) ([], fs @ [?f])) \<noteq> []"
        by (auto simp: add.commute)
      have b: "cut_bytes ([], fs @ [?f]) @ drop ?m v = cut_bytes (p, fs) @ v"
        by (simp add: cut_bytes_def)
      show ?thesis
        using ih' b True cut_value_round[OF assms False 1(2)] by simp
    next
      case F: False
      then show ?thesis
        using cut_value_round[OF assms False 1(2)] 1(3)
        by (auto simp: cut_ok_def counts_def cut_bytes_def)
    qed
  qed
qed

lemma cut_value_counts:
  assumes "0 < M" "cut_ok M (p, fs)"
  shows "calc_value M (length v) (length p) (of_nat (length fs)) = counts (cut_value M v (p, fs)) \<and>
     cut_ok M (cut_value M v (p, fs)) \<and> cut_bytes (cut_value M v (p, fs)) = cut_bytes (p, fs) @ v \<and>
     (p \<noteq> [] \<or> v \<noteq> [] \<longrightarrow> fst (cut_value M v (p, fs)) \<noteq> [])"
proof (cases "length p < M \<or> v = []")
  case True
  then show ?thesis
    using cut_value_room[OF assms(1) _ assms(2)] assms(2) by (auto simp: counts_def cut_bytes_def)
next
  case False
  then have full: "length p = M" "v \<noteq> []" using assms(2) by (auto simp: cut_ok_def)
  then have "cut_ok M ([], fs @ [p])" using assms by (auto simp: cut_ok_def)
  then show ?thesis
    using cut_value_room[OF assms(1), of "[]" "fs @ [p]" v] cut_value_full[OF assms(1) full(2,1)] assms(1) full(2)
    by (simp add: cut_bytes_def add.commute)
qed

lemma length_unit_tl [simp]: "length (unit_tl u) = MODBUS_TL_LEN"
  by (simp add: unit_tl_def MODBUS_TL_LEN_def)

lemma length_concat_le16: "length (concat (map (\<lambda>i. le16 (f i)) xs)) = 2 * length xs"
  by (induction xs) simp_all

lemma length_unit_value: "length (unit_value regs u) = eff_len u"
  by (auto simp: unit_value_def eff_len_def reg_bytes_def length_concat_le16 split: option.splits)

lemma cut_units_counts:
  assumes "MODBUS_TL_LEN \<le> M"
  shows "cut_ok M s \<Longrightarrow> calc_units M us (counts s) = counts (cut_units M regs us s) \<and>
     cut_ok M (cut_units M regs us s) \<and>
     cut_bytes (cut_units M regs us s) = cut_bytes s @ concat (map (\<lambda>u. unit_tl u @ unit_value regs u) us) \<and>
     (us \<noteq> [] \<or> fst s \<noteq> [] \<longrightarrow> fst (cut_units M regs us s) \<noteq> [])"
proof (induction us arbitrary: s)
  case Nil
  obtain p fs where s: "s = (p, fs)" by (cases s)
  then show ?case using Nil by (simp add: counts_def)
next
  case (Cons u us)
  obtain p fs where s: "s = (p, fs)" by (cases s)
  have M: "0 < M" using assms by (simp add: MODBUS_TL_LEN_def)
  define q where "q = (if length p > M - MODBUS_TL_LEN then [] else p) @ unit_tl u"
  define gs where "gs = (if length p > M - MODBUS_TL_LEN then fs @ [p] else fs)"
  have ok: "cut_ok M (q, gs)"
    using Cons.prems s assms by (auto simp: cut_ok_def q_def gs_def)
  have b: "cut_bytes (q, gs) = cut_bytes s @ unit_tl u" by (simp add: cut_bytes_def s q_def gs_def)
  have ne: "q \<noteq> []" by (auto simp: q_def unit_tl_def)
  note c = cut_value_counts[OF M ok, of "unit_value regs u"]
  have "counts s = (length p, of_nat (length fs))" by (simp add: s counts_def)
  then have "calc_units M (u # us) (counts s) =
      calc_units M us (calc_value M (eff_len u) (length q) (of_nat (length gs)))"
    by (simp add: q_def gs_def add.commute)
  also have "\<dots> = calc_units M us (counts (cut_value M (unit_value regs u) (q, gs)))"
    using c by (simp add: length_unit_value)
  finally have calc: "calc_units M (u # us) (counts s) =
      calc_units M us (counts (cut_value M (unit_value regs u) (q, gs)))" .
  have cut: "cut_units M regs (u # us) s = cut_units M regs us (cut_value M (unit_value regs u) (q, gs))"
    by (simp add: s q_def gs_def)
  show ?case
    using Cons.IH[of "cut_value M (unit_value regs u) (q, gs)"] c ne b
    unfolding calc cut by simp
qed

section \<open>Properties\<close>

text \<open>C30: The answer to a read command: the frame count computed in advance is the number of frames
  that are then cut (both in 8 bits), every frame is non-empty and carries at most 250 payload bytes,
  and the payloads in order are the TL heads and register values of all collected units.\<close>

theorem modbus_tlv_frame_count:
  assumes "us \<noteq> []"
  shows "modbus_tlv_read_rtn_calc_total_index us MODBUS_TLV_DATA_LEN_MAX =
      of_nat (length (cut_frames MODBUS_TLV_DATA_LEN_MAX regs us))
    \<and> (\<forall>f. f \<in> set (cut_frames MODBUS_TLV_DATA_LEN_MAX regs us) \<longrightarrow> f \<noteq> [] \<and> length f \<le> 250)
    \<and> concat (cut_frames MODBUS_TLV_DATA_LEN_MAX regs us) = concat (map (\<lambda>u. unit_tl u @ unit_value regs u) us)"
proof -
  have M: "MODBUS_TL_LEN \<le> MODBUS_TLV_DATA_LEN_MAX" "MODBUS_TLV_DATA_LEN_MAX = 250" by (simp_all add: md_consts)
  obtain p fs where s: "cut_units MODBUS_TLV_DATA_LEN_MAX regs us ([], []) = (p, fs)" by fastforce
  have "cut_ok MODBUS_TLV_DATA_LEN_MAX ([], [])" by (simp add: cut_ok_def)
  note c = cut_units_counts[OF M(1) this, of us regs, unfolded s]
  have "p \<noteq> []" using c assms by simp
  then have "modbus_tlv_read_rtn_calc_total_index us MODBUS_TLV_DATA_LEN_MAX = of_nat (length fs) + 1"
    using c by (simp add: modbus_tlv_read_rtn_calc_total_index_def counts_def)
  then show ?thesis
    using c s M(2) \<open>p \<noteq> []\<close> by (auto simp: cut_frames_def cut_ok_def cut_bytes_def)
qed

definition sample_unit :: "u16 \<Rightarrow> modbus_tlv_unit" where
  "sample_unit n = \<lparr>slave_addr = 1, reserved = 0, reg_addr = 100, tl_len = n, reg_value = Some 0\<rparr>"

lemma modbus_tlv_frame_count_witness:
  "concat (cut_frames MODBUS_TLV_DATA_LEN_MAX (\<lambda>_. 7) [sample_unit 200, sample_unit 100]) =
     unit_tl (sample_unit 200) @ unit_value (\<lambda>_. 7) (sample_unit 200) @
     unit_tl (sample_unit 100) @ unit_value (\<lambda>_. 7) (sample_unit 100)"
  using modbus_tlv_frame_count[of "[sample_unit 200, sample_unit 100]" "\<lambda>_. 7"] by simp

lemma tl_at_len: "tl_len (tl_at d off) = get16 d (off + 4)"
  by (simp add: tl_at_def)

lemma write_loop_stuck:
  assumes "vLookupDataTab env (d ! 0) (get16 d 2) 32765 True chl = None"
    and "get16 d 4 = 65530" "6 \<le> length d" "6 \<le> unat data_len"
  shows "write_loop fuel env d data_len chl 0 data_len s = None"
proof (induction fuel)
  case (Suc fuel)
  let ?u = "tl_at d 0"
  have u: "tl_len ?u = 65530" "slave_addr ?u = d ! 0" "reg_addr ?u = get16 d 2"
    using assms(2) by (simp_all add: tl_at_def numeral_2_eq_2)
  have nz: "\<not> (tl_len ?u = 0 \<or> tl_len ?u mod 2 \<noteq> 0)" using u(1) by simp
  have "modbus_tlv_process_write_unit env d (unat 0 + MODBUS_TL_LEN) ?u chl s = Inr (- 2, s)"
    using u assms(1) by (simp add: modbus_tlv_process_write_unit_def Let_def)
  moreover have "6 + tl_len ?u = 0" using u(1) by simp
  ultimately show ?case
    using Suc assms(3,4) nz by (simp add: Let_def MODBUS_TL_LEN_def)
qed simp

lemma process_write_unit_ok:
  assumes "off + unat (tl_len u) \<le> length d"
  shows "\<exists>r s'. modbus_tlv_process_write_unit env d off u chl s = Inr (r, s')"
proof -
  have "2 * unat (tl_len u div 2) \<le> unat (tl_len u)" by (simp add: unat_div)
  then have "off + 2 * unat (tl_len u div 2) \<le> length d" using assms by linarith
  then show ?thesis
    by (cases s) (auto simp: modbus_tlv_process_write_unit_def Let_def split: option.splits prod.splits)
qed

text \<open>The heads the write loop visits from offset \<open>p\<close> on, read with unbounded arithmetic: every
  unit, head and value together, ends before byte 65536.\<close>

function units_in_range :: "u8 list \<Rightarrow> nat \<Rightarrow> bool" where
  "units_in_range d p =
     (if length d < p + MODBUS_TL_LEN then True
      else let e = p + MODBUS_TL_LEN + unat (get16 d (p + 4)) in e < 65536 \<and> units_in_range d e)"
  by pat_completeness auto

termination units_in_range
  by (relation "measure (\<lambda>(d, p). length d - p)") (auto simp: MODBUS_TL_LEN_def)

declare units_in_range.simps [simp del]

lemma units_in_range_step:
  assumes "units_in_range d p" "p + 6 \<le> length d"
  shows "p + 6 + unat (get16 d (p + 4)) < 65536" "units_in_range d (p + 6 + unat (get16 d (p + 4)))"
  using assms by (simp_all add: units_in_range.simps[of d p] MODBUS_TL_LEN_def Let_def)

lemma write_loop_ends:
  assumes data: "unat data_len = length d"
  shows "unat remain = length d - unat processed \<Longrightarrow> unat remain < fuel \<Longrightarrow>
    units_in_range d (unat processed) \<Longrightarrow>
    \<exists>s'. write_loop fuel env d data_len chl processed remain s = Some (Inr s')"
proof (induction fuel arbitrary: processed remain s)
  case (Suc fuel)
  show ?case
  proof (cases "unat remain < MODBUS_TL_LEN")
    case False
    then have p: "unat processed + 6 \<le> length d" using Suc.prems(1) by (simp add: MODBUS_TL_LEN_def)
    let ?u = "tl_at d (unat processed)" and ?n = "unat (tl_len (tl_at d (unat processed)))"
    let ?p = "processed + (6 + tl_len ?u)"
    let ?r = "if ?p \<le> data_len then data_len - ?p else 0"
    have n: "unat processed + 6 + ?n < 65536" "units_in_range d (unat processed + 6 + ?n)"
      using units_in_range_step[OF Suc.prems(3) p] by (simp_all add: tl_at_len)
    have t: "unat (6 + tl_len ?u) = 6 + ?n" using n(1) by (simp add: unat_word_ariths)
    then have p': "unat ?p = unat processed + 6 + ?n" using n(1) by (simp add: unat_word_ariths)
    have r': "unat ?r = length d - unat ?p"
      using data by (auto simp: word_le_nat_alt unat_sub)
    have "unat ?r < fuel" using r' p' Suc.prems(1,2) p by linarith
    then have ih: "\<exists>s'. write_loop fuel env d data_len chl ?p ?r s = Some (Inr s')" for s
      using Suc.IH r' n(2) p' by simp
    show ?thesis
    proof (cases "tl_len ?u = 0 \<or> tl_len ?u mod 2 \<noteq> 0")
      case True
      then show ?thesis using False p ih by (simp add: Let_def MODBUS_TL_LEN_def)
    next
      case F: False
      show ?thesis
      proof (cases "6 + tl_len ?u > remain")
        case True
        then show ?thesis using False F p by (simp add: Let_def MODBUS_TL_LEN_def)
      next
        case fits: False
        have "unat processed + MODBUS_TL_LEN + ?n \<le> length d"
          using fits t Suc.prems(1) p by (simp add: word_le_nat_alt not_less MODBUS_TL_LEN_def)
        then obtain r s' where "modbus_tlv_process_write_unit env d (unat processed + MODBUS_TL_LEN) ?u chl s = Inr (r, s')"
          using process_write_unit_ok by blast
        then show ?thesis using False F fits p ih[of s'] by (simp add: Let_def MODBUS_TL_LEN_def)
      qed
    qed
  qed simp
qed simp

text \<open>C39: For data of any 16-bit length: the write command ends, within as many rounds as the data
  has bytes and without reading beyond it, when every unit whose head it visits (each begins where
  the one before ends by its length field) ends before byte 65536; odd, zero and overlong length
  fields are all allowed. But data that begins with the head of an unknown register with the length
  field 65530 keeps it in the same place for ever, because the unit length wraps to zero in 16 bits.\<close>

theorem modbus_tlv_write_termination:
  fixes env :: "'w md_env"
  assumes "unat data_len = length d"
  shows "(units_in_range d 0 \<and> length d < fuel
       \<longrightarrow> (\<exists>s'. modbus_tlv_write_cmd_process fuel env d data_len chl s = Some (Inr s')))
    \<and> (6 \<le> length d \<and> get16 d 4 = 65530 \<and> vLookupDataTab env (d ! 0) (get16 d 2) 32765 True chl = None
       \<longrightarrow> modbus_tlv_write_cmd_process fuel env d data_len chl s = None)"
proof (intro conjI impI; elim conjE)
  assume "units_in_range d 0" "length d < fuel"
  then show "\<exists>s'. modbus_tlv_write_cmd_process fuel env d data_len chl s = Some (Inr s')"
    using write_loop_ends[OF assms, of data_len 0 fuel env chl s] assms
    by (simp add: modbus_tlv_write_cmd_process_def)
next
  assume "vLookupDataTab env (d ! 0) (get16 d 2) 32765 True chl = None" "get16 d 4 = 65530" "6 \<le> length d"
  then show "modbus_tlv_write_cmd_process fuel env d data_len chl s = None"
    using write_loop_stuck[of env d chl data_len fuel s] assms
    by (simp add: modbus_tlv_write_cmd_process_def MODBUS_TL_LEN_def)
qed

definition quiet_env :: "unit md_env" where
  "quiet_env = \<lparr>vLookupDataTab = (\<lambda>s r n wr c. None), md_tbl_find = (\<lambda>r. False),
     tbl_cb = (\<lambda>u wr c s. (0, s)), forward_write = (\<lambda>u c w. w), ble_push = (\<lambda>d w. w),
     mqtt_push = (\<lambda>d w. w), MD_CHL_BLE = 1, MD_CHL_WIFI_CLOUD = 2, data_semaphore = True\<rparr>"

text \<open>Three units: register 100 with the value 0xBEEF, register 7 with a length of 3, which is
  skipped, and register 200 with a length of 500, which the data does not hold.\<close>

definition three_units :: "u8 list" where
  "three_units = [1, 0, 100, 0, 2, 0, 0xBE, 0xEF,  1, 0, 7, 0, 3, 0, 9, 9, 9,  1, 0, 200, 0, 0xF4, 1, 5, 5]"

lemma modbus_tlv_write_termination_witness:
  "modbus_tlv_write_cmd_process 1000000 quiet_env [1, 0, 100, 0, 0xFA, 0xFF] 6 1 (\<lambda>_. 0, ()) = None
   \<and> (\<exists>s'. modbus_tlv_write_cmd_process 26 quiet_env three_units 25 1 (\<lambda>_. 0, ()) = Some (Inr s'))"
proof -
  have "get16 [1, 0, 100, 0, 0xFA, 0xFF] 4 = 65530" by (simp add: get16_def mk16_def)
  moreover have "units_in_range three_units 0"
    by (simp add: three_units_def units_in_range.simps MODBUS_TL_LEN_def get16_def mk16_def Let_def)
  moreover have "length three_units = 25" by (simp add: three_units_def)
  ultimately show ?thesis
    using modbus_tlv_write_termination[of 6 "[1, 0, 100, 0, 0xFA, 0xFF]" 1000000 quiet_env 1 "(\<lambda>_. 0, ())"]
      modbus_tlv_write_termination[of 25 three_units 26 quiet_env 1 "(\<lambda>_. 0, ())"]
    by (simp add: quiet_env_def)
qed

text \<open>A queued message of two or three bytes with one of the two function codes makes the
  handler read beyond the message: the length minus four wraps to 65534 or 65535.\<close>

theorem modbus_tlv_short_message_fault:
  fixes env :: "'w md_env"
  assumes "length (msg_data m) = 2 \<or> length (msg_data m) = 3"
    and "get16 (msg_data m) 0 = MODBUS_21000_FUNC_TLV_DATA \<or> get16 (msg_data m) 0 = MODBUS_21000_FUNC_TLV_READ_CMD"
  shows "process_msg (Suc fuel) env m s = Some (Inl Out_Of_Bounds_Read)"
proof -
  let ?n = "of_nat (length (msg_data m)) - 4 :: u16"
  have n: "?n = 65534 \<or> ?n = 65535" using assms(1) by auto
  then have big: "\<not> unat ?n < MODBUS_TL_LEN" by (auto simp: MODBUS_TL_LEN_def)
  have d: "drop 4 (msg_data m) = []" using assms(1) by auto
  have w: "modbus_tlv_write_cmd_process (Suc fuel) env [] ?n (msg_chl m) s = Some (Inl Out_Of_Bounds_Read)"
    using big by (simp add: modbus_tlv_write_cmd_process_def MODBUS_TL_LEN_def)
  have r: "modbus_tlv_read_cmd_process env [] ?n (msg_chl m) s = Inl Out_Of_Bounds_Read"
    using big by (simp add: modbus_tlv_read_cmd_process_def MODBUS_TL_LEN_def read_units.simps)
  show ?thesis
    using assms w r d by (auto simp: process_msg_def Let_def)
qed

lemma modbus_tlv_short_message_fault_witness:
  "process_msg 1 quiet_env \<lparr>msg_data = [0x44, 0x9C], msg_chl = 1\<rparr> (\<lambda>_. 0, ()) = Some (Inl Out_Of_Bounds_Read)"
proof -
  have "get16 [0x44, 0x9C] 0 = 40004" by (simp add: get16_def mk16_def)
  then show ?thesis
    using modbus_tlv_short_message_fault[of "\<lparr>msg_data = [0x44, 0x9C], msg_chl = 1\<rparr>" 0 quiet_env "(\<lambda>_. 0, ())"]
    by (simp add: MODBUS_21000_FUNC_TLV_DATA_def)
qed

end
