(* ===== verification/Calendar.thy ===== *)
theory Calendar
  imports Prelude
begin

text \<open>
  The C library's calendar: \<open>struct tm\<close>, \<open>localtime_r\<close> and \<open>mktime\<close> for the zones the firmware sets
  (\<open>app_sntp_set_timezone\<close> builds a POSIX zone without daylight saving, a fixed offset \<open>off\<close> of local
  time to UTC in seconds).  \<open>time_t\<close> has 64 bits and is an integer here; the calendar is the Gregorian one.
  As in C, \<open>mktime\<close> takes fields outside their ranges and \<open>tm_mon\<close>, \<open>tm_year\<close> count from January and 1900.
  The lemmas show that \<open>localtime\<close> and \<open>mktime\<close> are inverse to each other.
\<close>

section \<open>Calendar\<close>

record tm =
  tm_sec :: int
  tm_min :: int
  tm_hour :: int
  tm_mday :: int
  tm_mon :: int
  tm_year :: int
  tm_wday :: int

definition leap :: "int \<Rightarrow> bool" where
  "leap y \<longleftrightarrow> y mod 4 = 0 \<and> (y mod 100 \<noteq> 0 \<or> y mod 400 = 0)"

definition year_days :: "int \<Rightarrow> int" where "year_days y = (if leap y then 366 else 365)"

definition month_days :: "int \<Rightarrow> nat \<Rightarrow> int" where
  "month_days y m = (if m = 1 then (if leap y then 29 else 28) else if m \<in> {3, 5, 8, 10} then 30 else 31)"

text \<open>Days from 1 January 1970 to the first of January of a year, and from there to the first of a
  month (0 is January).\<close>

definition year_start :: "int \<Rightarrow> int" where
  "year_start y = 365 * (y - 1970) + (y - 1) div 4 - (y - 1) div 100 + (y - 1) div 400 - 477"

primrec month_start :: "int \<Rightarrow> nat \<Rightarrow> int" where
  "month_start y 0 = 0"
| "month_start y (Suc m) = month_start y m + month_days y m"

function find_year :: "int \<Rightarrow> int \<Rightarrow> int \<times> int" where
  "find_year y d =
     (if d < 0 then find_year (y - 1) (d + year_days (y - 1))
      else if d \<ge> year_days y then find_year (y + 1) (d - year_days y)
      else (y, d))"
  by pat_completeness auto

termination find_year
  by (relation "measure (\<lambda>(y, d). if d < 0 then nat (- d) + 400 else nat d)")
     (auto simp: year_days_def split: if_splits)

declare find_year.simps [simp del]

function find_month :: "int \<Rightarrow> nat \<Rightarrow> int \<Rightarrow> nat \<times> int" where
  "find_month y m d =
     (if m \<ge> 11 \<or> d < month_days y m then (m, d) else find_month y (Suc m) (d - month_days y m))"
  by pat_completeness auto

termination find_month
  by (relation "measure (\<lambda>(y, m, d). 11 - m)") auto

declare find_month.simps [simp del]

definition localtime :: "int \<Rightarrow> int \<Rightarrow> tm" where
  "localtime off t =
     (let d = (t + off) div 86400; r = (t + off) mod 86400;
          (y, yd) = find_year 1970 d; (m, md) = find_month y 0 yd
      in \<lparr>tm_sec = r mod 60, tm_min = r div 60 mod 60, tm_hour = r div 3600,
          tm_mday = md + 1, tm_mon = int m, tm_year = y - 1900, tm_wday = (d + 4) mod 7\<rparr>)"

text \<open>The day number of a time structure; months outside the year carry into it.\<close>

definition tm_day :: "tm \<Rightarrow> int" where
  "tm_day x = (let y = tm_year x + 1900 + tm_mon x div 12 in
     year_start y + month_start y (nat (tm_mon x mod 12)) + tm_mday x - 1)"

text \<open>\<open>mktime\<close> returns the time and brings the fields of its argument into their ranges.\<close>

definition mktime :: "int \<Rightarrow> tm \<Rightarrow> int \<times> tm" where
  "mktime off x =
     (let t = tm_day x * 86400 + tm_hour x * 3600 + tm_min x * 60 + tm_sec x - off
      in (t, localtime off t))"

section \<open>The calendar is sound\<close>

lemma div_step:
  fixes y k :: int
  assumes "1 < k"
  shows "y div k - (y - 1) div k = (if y mod k = 0 then 1 else 0)"
proof (cases "y mod k = 0")
  case True
  then have "y - 1 = k * (y div k - 1) + (k - 1)" by (simp add: algebra_simps) (metis mult_div_mod_eq add.right_neutral)
  then have "(y - 1) div k = y div k - 1" using assms by (intro int_div_pos_eq[of _ k _ "k - 1"]) auto
  then show ?thesis using True by simp
next
  case False
  have m: "0 \<le> y mod k" "y mod k < k" using assms by simp_all
  have "y - 1 = k * (y div k) + (y mod k - 1)" by (simp add: algebra_simps)
  then have "(y - 1) div k = y div k"
    using m False by (intro int_div_pos_eq[of _ k _ "y mod k - 1"]) linarith+
  then show ?thesis using False by simp
qed

lemma year_difference:
  "365 * (y + 1 - 1970) + a - b + c - 477 - (365 * (y - 1970) + a' - b' + c' - 477) =
   (365 :: int) + (a - a') - (b - b') + (c - c')"
  by simp

lemma year_start_step: "year_start (y + 1) = year_start y + year_days y"
proof -
  have m: "y mod 400 = 0 \<Longrightarrow> y mod 100 = 0" "y mod 100 = 0 \<Longrightarrow> y mod 4 = 0"
    by (simp_all add: mod_eq_0_iff_dvd) (erule dvd_trans[rotated], simp)+
  have d: "y div 4 - (y - 1) div 4 = (if y mod 4 = 0 then 1 else 0)"
    "y div 100 - (y - 1) div 100 = (if y mod 100 = 0 then 1 else 0)"
    "y div 400 - (y - 1) div 400 = (if y mod 400 = 0 then 1 else 0)"
    by (rule div_step, simp)+
  have s: "year_start (y + 1) - year_start y =
      365 + (y div 4 - (y - 1) div 4) - (y div 100 - (y - 1) div 100) + (y div 400 - (y - 1) div 400)"
    unfolding year_start_def add_diff_cancel_right' by (rule year_difference)
  have "year_start (y + 1) - year_start y = year_days y"
    unfolding s d year_days_def leap_def using m by (cases "y mod 4 = 0"; cases "y mod 100 = 0"; cases "y mod 400 = 0") simp_all
  then show ?thesis by linarith
qed

lemma find_year_ok:
  "find_year y d = (y', d') \<Longrightarrow>
   year_start y' + d' = year_start y + d \<and> 0 \<le> d' \<and> d' < year_days y'"
proof (induction y d rule: find_year.induct)
  case (1 y d)
  have prev: "year_start y = year_start (y - 1) + year_days (y - 1)" using year_start_step[of "y - 1"] by simp
  note succ = year_start_step[of y]
  consider "d < 0" | "0 \<le> d" "d \<ge> year_days y" | "0 \<le> d" "d < year_days y" by linarith
  then show ?case
  proof cases
    case 1
    then have "find_year (y - 1) (d + year_days (y - 1)) = (y', d')"
      using "1.prems" by (simp add: find_year.simps[of y d])
    from "1.IH"(1)[OF 1 this] prev show ?thesis by linarith
  next
    case 2
    then have "find_year (y + 1) (d - year_days y) = (y', d')"
      using "1.prems" by (simp add: find_year.simps[of y d])
    moreover have "\<not> d < 0" using 2 by simp
    ultimately have "year_start y' + d' = year_start (y + 1) + (d - year_days y) \<and> 0 \<le> d' \<and> d' < year_days y'"
      using "1.IH"(2) 2(2) by blast
    with succ show ?thesis by linarith
  next
    case 3
    then show ?thesis using "1.prems" by (simp add: find_year.simps[of y d])
  qed
qed

lemma find_month_ok:
  "find_month y m d = (m', d') \<Longrightarrow> month_start y m' + d' = month_start y m + d"
proof (induction y m d rule: find_month.induct)
  case (1 y m d)
  then show ?case
    by (cases "m \<ge> 11 \<or> d < month_days y m") (auto simp: find_month.simps[of y m d])
qed

lemma find_month_range:
  "find_month y m d = (m', d') \<Longrightarrow> m \<le> 11 \<Longrightarrow> 0 \<le> d \<Longrightarrow>
   m' \<le> 11 \<and> 0 \<le> d' \<and> (m' < 11 \<longrightarrow> d' < month_days y m')"
proof (induction y m d rule: find_month.induct)
  case (1 y m d)
  then show ?case
    by (cases "m \<ge> 11 \<or> d < month_days y m") (auto simp: find_month.simps[of y m d])
qed

lemma tm_day_localtime: "tm_day (localtime off t) = (t + off) div 86400"
proof -
  obtain y yd where y: "find_year 1970 ((t + off) div 86400) = (y, yd)" by fastforce
  obtain m md where m: "find_month y 0 yd = (m, md)" by fastforce
  have "year_start 1970 = 0" by (simp add: year_start_def)
  moreover have "int m div 12 = 0" "nat (int m mod 12) = m"
    using find_month_range[OF m] find_year_ok[OF y] by simp_all
  ultimately show ?thesis
    using find_year_ok[OF y] find_month_ok[OF m] y m by (simp add: localtime_def tm_day_def Let_def)
qed

text \<open>Local midnight of the day of a time.\<close>

definition midnight :: "int \<Rightarrow> int \<Rightarrow> int" where
  "midnight off t = (t + off) div 86400 * 86400 - off"

lemma midnight_le: "midnight off t \<le> t" "t < midnight off t + 86400"
proof -
  have "(t + off) div 86400 * 86400 + (t + off) mod 86400 = t + off" by simp
  moreover have "0 \<le> (t + off) mod 86400" "(t + off) mod 86400 < 86400" by simp_all
  ultimately show "midnight off t \<le> t" "t < midnight off t + 86400" unfolding midnight_def by linarith+
qed

lemma tm_day_upd [simp]:
  "tm_day (x\<lparr>tm_hour := h, tm_min := mi, tm_sec := s\<rparr>) = tm_day x"
  "tm_day (x\<lparr>tm_mday := tm_mday x + 1\<rparr>) = tm_day x + 1"
  by (simp_all add: tm_day_def Let_def)

lemma mktime_midnight:
  "fst (mktime off ((localtime off t)\<lparr>tm_hour := 0, tm_min := 0, tm_sec := 0\<rparr>)) = midnight off t"
  by (simp add: mktime_def tm_day_localtime midnight_def Let_def)

text \<open>A time structure that stands for local midnight.\<close>

definition at_midnight :: "int \<Rightarrow> tm \<Rightarrow> int \<Rightarrow> bool" where
  "at_midnight off x d \<longleftrightarrow> tm_day x = d \<and> tm_hour x = 0 \<and> tm_min x = 0 \<and> tm_sec x = 0"

lemma at_midnight_start:
  "at_midnight off ((localtime off t)\<lparr>tm_hour := 0, tm_min := 0, tm_sec := 0\<rparr>) ((t + off) div 86400)"
  by (simp add: at_midnight_def tm_day_localtime)

lemma at_midnight_mktime:
  assumes "at_midnight off x d"
  shows "fst (mktime off x) = d * 86400 - off"
    and "at_midnight off ((snd (mktime off x))\<lparr>tm_mday := tm_mday (snd (mktime off x)) + 1\<rparr>) (d + 1)"
proof -
  show t: "fst (mktime off x) = d * 86400 - off"
    using assms by (simp add: at_midnight_def mktime_def Let_def)
  have "snd (mktime off x) = localtime off (d * 86400 - off)"
    using assms by (simp add: at_midnight_def mktime_def Let_def)
  then show "at_midnight off ((snd (mktime off x))\<lparr>tm_mday := tm_mday (snd (mktime off x)) + 1\<rparr>) (d + 1)"
    by (simp add: at_midnight_def tm_day_localtime) (simp add: localtime_def Let_def split: prod.split)
qed

lemma at_midnight_reset: "at_midnight off x d \<Longrightarrow> x\<lparr>tm_hour := 0, tm_min := 0, tm_sec := 0\<rparr> = x"
  by (simp add: at_midnight_def)

lemma day_split: "t = (t + off) div 86400 * 86400 - off + (t + off) mod (86400 :: int)"
  using div_mult_mod_eq[of "t + off" 86400] by linarith

lemma day_time:
  assumes "0 \<le> s" "s < (86400 :: int)"
  shows "(d * 86400 - off + s + off) div 86400 = d" "(d * 86400 - off + s + off) mod 86400 = s"
proof -
  have "d * 86400 - off + s + off = s + d * 86400" by simp
  then show "(d * 86400 - off + s + off) div 86400 = d" "(d * 86400 - off + s + off) mod 86400 = s"
    using assms by simp_all
qed

section \<open>Inverses\<close>

text \<open>A time structure whose fields are in their ranges.\<close>

definition tm_ok :: "tm \<Rightarrow> bool" where
  "tm_ok x \<longleftrightarrow> 0 \<le> tm_mon x \<and> tm_mon x < 12 \<and> 1 \<le> tm_mday x \<and>
     tm_mday x \<le> month_days (tm_year x + 1900) (nat (tm_mon x)) \<and>
     0 \<le> tm_hour x \<and> tm_hour x < 24 \<and> 0 \<le> tm_min x \<and> tm_min x < 60 \<and> 0 \<le> tm_sec x \<and> tm_sec x < 60"

lemma month_days_pos: "28 \<le> month_days y m" "month_days y m \<le> 31"
  by (simp_all add: month_days_def)

lemma month_start_mono: "i \<le> j \<Longrightarrow> month_start y i \<le> month_start y j"
  by (rule lift_Suc_mono_le[where f = "month_start y"]) (use month_days_pos in \<open>simp_all add: order_trans[of 0 28]\<close>)

lemma month_start_12: "month_start y 12 = year_days y"
  by (simp add: eval_nat_numeral month_days_def year_days_def)

lemma year_days_pos: "365 \<le> year_days y"
  by (simp add: year_days_def)

lemma year_start_mono: "y \<le> y' \<Longrightarrow> year_start y \<le> year_start y'"
proof (induction "nat (y' - y)" arbitrary: y')
  case 0
  then show ?case by simp
next
  case (Suc n)
  then have "year_start y \<le> year_start (y' - 1)" by simp
  then show ?case using year_start_step[of "y' - 1"] year_days_pos[of "y' - 1"] by simp
qed

lemma find_year_eq:
  assumes "year_start y \<le> d" "d < year_start (y + 1)"
  shows "find_year 1970 d = (y, d - year_start y)"
proof -
  obtain y' d' where f: "find_year 1970 d = (y', d')" by fastforce
  have "year_start 1970 = 0" by (simp add: year_start_def)
  then have r: "year_start y' + d' = d" "0 \<le> d'" "d < year_start (y' + 1)"
    using find_year_ok[OF f] year_start_step[of y'] by linarith+
  have "y' = y"
    using assms r year_start_mono[of "y + 1" y'] year_start_mono[of "y' + 1" y] by (cases y' y rule: linorder_cases) simp_all
  then show ?thesis using f r by simp
qed

lemma find_month_eq:
  assumes "m \<le> 11" "month_start y m \<le> d" "d < month_start y (Suc m)"
  shows "find_month y 0 d = (m, d - month_start y m)"
proof -
  obtain m' d' where f: "find_month y 0 d = (m', d')" by fastforce
  have "0 \<le> d" using month_start_mono[of 0 m y] assms by simp
  note r = find_month_range[OF f _ this] and e = find_month_ok[OF f]
  have "m' = m"
  proof (cases m' m rule: linorder_cases)
    case less
    then show ?thesis using r e assms month_start_mono[of "Suc m'" m y] by simp
  next
    case greater
    then show ?thesis using r e assms month_start_mono[of "Suc m" m' y] by simp
  qed
  then show ?thesis using f e by simp
qed

lemma clock_split:
  fixes r :: int
  shows "r div 3600 * 3600 + r div 60 mod 60 * 60 + r mod 60 = r"
    and "0 \<le> r \<Longrightarrow> 0 \<le> r div 3600" and "r < 86400 \<Longrightarrow> r div 3600 < 24"
proof -
  have "r div 60 * 60 + r mod 60 = r" by simp
  moreover have "r div 60 div 60 * 60 + r div 60 mod 60 = r div 60" by simp
  moreover have q: "r div 60 div 60 = r div 3600" using zdiv_zmult2_eq[of 60 r 60] by simp
  ultimately show "r div 3600 * 3600 + r div 60 mod 60 * 60 + r mod 60 = r" by linarith
  show "0 \<le> r \<Longrightarrow> 0 \<le> r div 3600" by (simp add: pos_imp_zdiv_nonneg_iff)
  assume "r < 86400"
  then show "r div 3600 < 24" by (intro zdiv_mono1[of r 86399 3600, THEN le_less_trans]) simp_all
qed

lemma clock_join:
  fixes h m s :: int
  assumes "0 \<le> m" "m < 60" "0 \<le> s" "s < 60" "0 \<le> h" "h < 24"
  defines "r \<equiv> h * 3600 + m * 60 + s"
  shows "r div 3600 = h" "r div 60 mod 60 = m" "r mod 60 = s" "0 \<le> r" "r < 86400"
proof -
  show "r div 3600 = h" unfolding r_def using assms by (intro int_div_pos_eq[of _ _ _ "m * 60 + s"]) auto
  have "r div 60 = h * 60 + m" unfolding r_def using assms by (intro int_div_pos_eq[of _ _ _ s]) auto
  then show "r div 60 mod 60 = m" using assms by simp
  show "r mod 60 = s" unfolding r_def using assms by (intro int_mod_pos_eq[of _ _ "h * 60 + m"]) auto
  show "0 \<le> r" "r < 86400" unfolding r_def using assms by linarith+
qed

lemma tm_ok_localtime: "tm_ok (localtime off t)"
proof -
  obtain y yd where y: "find_year 1970 ((t + off) div 86400) = (y, yd)" by fastforce
  obtain m md where m: "find_month y 0 yd = (m, md)" by fastforce
  have r: "m \<le> 11" "0 \<le> md" "m < 11 \<longrightarrow> md < month_days y m"
    using find_month_range[OF m] find_year_ok[OF y] by simp_all
  moreover have "md < month_days y m" if "m = 11"
    using that find_month_ok[OF m] find_year_ok[OF y] month_start_12[of y] by (simp add: eval_nat_numeral)
  ultimately have "md < month_days y m" by (cases "m = 11") simp_all
  moreover have "0 \<le> (t + off) mod 86400 div 3600" "(t + off) mod 86400 div 3600 < 24"
    using clock_split(2,3)[of "(t + off) mod 86400"] by simp_all
  ultimately show ?thesis using y m r by (simp add: tm_ok_def localtime_def Let_def)
qed

lemma fst_mktime: "fst (mktime off x) = tm_day x * 86400 + tm_hour x * 3600 + tm_min x * 60 + tm_sec x - off"
  and snd_mktime: "snd (mktime off x) = localtime off (fst (mktime off x))"
  by (simp_all add: mktime_def Let_def)

lemma localtime_clock:
  "tm_hour (localtime off t) = (t + off) mod 86400 div 3600"
  "tm_min (localtime off t) = (t + off) mod 86400 div 60 mod 60"
  "tm_sec (localtime off t) = (t + off) mod 86400 mod 60"
  by (simp_all add: localtime_def Let_def split: prod.split)

lemma mktime_localtime: "mktime off (localtime off t) = (t, localtime off t)"
proof -
  have "fst (mktime off (localtime off t)) = (t + off) div 86400 * 86400 +
      ((t + off) mod 86400 div 3600 * 3600 + (t + off) mod 86400 div 60 mod 60 * 60 + (t + off) mod 86400 mod 60) - off"
    unfolding fst_mktime tm_day_localtime localtime_clock by simp
  also have "\<dots> = t" unfolding clock_split using day_split[of t off] by simp
  finally show ?thesis by (simp add: prod_eq_iff snd_mktime)
qed

text \<open>The calendar date of a valid structure, and back.\<close>

lemma tm_ok_day:
  assumes "tm_ok x"
  shows "tm_day x = year_start (tm_year x + 1900) + month_start (tm_year x + 1900) (nat (tm_mon x)) + tm_mday x - 1"
    and "find_year 1970 (tm_day x) = (tm_year x + 1900, tm_day x - year_start (tm_year x + 1900))"
    and "find_month (tm_year x + 1900) 0 (tm_day x - year_start (tm_year x + 1900)) = (nat (tm_mon x), tm_mday x - 1)"
proof -
  let ?y = "tm_year x + 1900" and ?m = "nat (tm_mon x)"
  have m: "?m \<le> 11" "tm_mon x div 12 = 0" "tm_mon x mod 12 = tm_mon x" using assms by (auto simp: tm_ok_def)
  show d: "tm_day x = year_start ?y + month_start ?y ?m + tm_mday x - 1" by (simp add: tm_day_def Let_def m)
  have md: "1 \<le> tm_mday x" "tm_mday x \<le> month_days ?y ?m" using assms by (simp_all add: tm_ok_def)
  have "month_start ?y (Suc ?m) \<le> month_start ?y 12" using m by (intro month_start_mono) simp
  then have up: "month_start ?y ?m + tm_mday x - 1 < year_days ?y" using md by (simp add: month_start_12)
  have lo: "0 \<le> month_start ?y ?m" using month_start_mono[of 0 ?m ?y] by simp
  show "find_year 1970 (tm_day x) = (?y, tm_day x - year_start ?y)"
    by (rule find_year_eq) (use d up lo md year_start_step[of ?y] in linarith)+
  have "find_month ?y 0 (month_start ?y ?m + tm_mday x - 1) =
      (?m, month_start ?y ?m + tm_mday x - 1 - month_start ?y ?m)"
    by (rule find_month_eq) (use m md in simp_all)
  moreover have "tm_day x - year_start ?y = month_start ?y ?m + tm_mday x - 1" by (simp add: d)
  ultimately show "find_month ?y 0 (tm_day x - year_start ?y) = (?m, tm_mday x - 1)" by simp
qed

lemma localtime_mktime:
  assumes "tm_ok x"
  shows "localtime off (fst (mktime off x)) = x\<lparr>tm_wday := (tm_day x + 4) mod 7\<rparr>"
proof -
  let ?r = "tm_hour x * 3600 + tm_min x * 60 + tm_sec x"
  have r: "0 \<le> ?r" "?r < 86400" "?r div 3600 = tm_hour x" "?r div 60 mod 60 = tm_min x" "?r mod 60 = tm_sec x"
    using assms unfolding tm_ok_def by (blast intro: clock_join)+
  have "fst (mktime off x) = tm_day x * 86400 - off + ?r" by (simp add: fst_mktime)
  then have "(fst (mktime off x) + off) div 86400 = tm_day x" "(fst (mktime off x) + off) mod 86400 = ?r"
    using day_time[OF r(1,2), of "tm_day x" off] by simp_all
  note t = this
  have "0 \<le> tm_mon x" using assms by (simp add: tm_ok_def)
  then show ?thesis
    unfolding localtime_def Let_def t tm_ok_day(2)[OF assms] prod.case tm_ok_day(3)[OF assms] r(3-5) by simp
qed

lemma tm_day_date:
  assumes "tm_mon x = tm_mon y" "tm_mday x = tm_mday y" "tm_year x = tm_year y"
  shows "tm_day x = tm_day y"
  using assms by (simp add: tm_day_def)

end
