(* ===== verification/Smart_Tou.thy ===== *)
theory Smart_Tou
  imports Calendar
begin

text \<open>
  Time-of-use trigger points, \<open>smart_ctrl/smart_common.c\<close>: the local midnights of an interval
  (\<open>tou_time_get_base_arr\<close>), the test whether a configured point of the day lies in the interval
  (\<open>tou_time_is_trigger\<close>), and the search for the last trigger (\<open>Tou_Point_Last_Trigger\<close>).

  \<open>localtime_r\<close> and \<open>mktime\<close> are those of \<open>Calendar\<close>, for the fixed-offset zones the firmware sets.
\<close>

section \<open>Configuration\<close>

record tou_time_config =
  time_sec :: "17 word"
  week_sel :: "7 word"
  day_sel :: "31 word"
  month_sel :: "12 word"
  reg_type :: "2 word"
  device_id :: u8
  time_type :: "3 word"

definition TOU_TIME_TYPE_POINT :: "3 word" where "TOU_TIME_TYPE_POINT = 0"
definition CONFIG_TOU_CHECK_BACK_DAYS :: int where "CONFIG_TOU_CHECK_BACK_DAYS = 7"

definition TOU_MONTH_IS_SET :: "12 word \<Rightarrow> int \<Rightarrow> bool" where
  "TOU_MONTH_IS_SET sel month \<longleftrightarrow> drop_bit (nat (month - 1)) sel AND 1 \<noteq> 0"

definition TOU_DAY_IS_SET :: "31 word \<Rightarrow> int \<Rightarrow> bool" where
  "TOU_DAY_IS_SET sel day \<longleftrightarrow> drop_bit (nat (day - 1)) sel AND 1 \<noteq> 0"

definition TOU_WEEK_IS_SET :: "7 word \<Rightarrow> int \<Rightarrow> bool" where
  "TOU_WEEK_IS_SET sel week \<longleftrightarrow> drop_bit (nat week) sel AND 1 \<noteq> 0"

definition tou_time_cfg_invalid :: "tou_time_config option \<Rightarrow> bool" where
  "tou_time_cfg_invalid cfg =
     (case cfg of None \<Rightarrow> True | Some c \<Rightarrow> month_sel c = 0 \<or> day_sel c = 0 \<or> week_sel c = 0)"

text \<open>The three tests of a date that the routines share.\<close>

definition tou_date_ok :: "tou_time_config \<Rightarrow> tm \<Rightarrow> bool" where
  "tou_date_ok c x \<longleftrightarrow> TOU_MONTH_IS_SET (month_sel c) (tm_mon x + 1) \<and>
     TOU_DAY_IS_SET (day_sel c) (tm_mday x) \<and> TOU_WEEK_IS_SET (week_sel c) (tm_wday x)"

section \<open>The routines\<close>

function last_trigger_loop :: "int \<Rightarrow> tou_time_config \<Rightarrow> int \<Rightarrow> int \<Rightarrow> int \<Rightarrow> int" where
  "last_trigger_loop off c t0 t1 t =
     (if t < t0 then 0
      else let tm_d = localtime off t in
        if \<not> tou_date_ok c tm_d then last_trigger_loop off c t0 t1 (t - 86400)
        else let trigger_time =
               fst (mktime off (tm_d\<lparr>tm_hour := 0, tm_min := 0, tm_sec := 0\<rparr>)) + uint (time_sec c) in
          if trigger_time \<le> t1 \<and> trigger_time \<ge> t0 then trigger_time
          else last_trigger_loop off c t0 t1 (t - 86400))"
  by pat_completeness auto

termination last_trigger_loop
  by (relation "measure (\<lambda>(off, c, t0, t1, t). nat (t - t0 + 1))") auto

declare last_trigger_loop.simps [simp del]

definition Tou_Point_Last_Trigger :: "int \<Rightarrow> tou_time_config option \<Rightarrow> int \<Rightarrow> int" where
  "Tou_Point_Last_Trigger off cfg t1 =
     (case cfg of None \<Rightarrow> 0
      | Some c \<Rightarrow> if time_type c \<noteq> TOU_TIME_TYPE_POINT \<or> tou_time_cfg_invalid cfg then 0
                  else last_trigger_loop off c (t1 - CONFIG_TOU_CHECK_BACK_DAYS * 86400) t1 t1)"

record tou_time_base =
  t_base_arr :: "int list option"
  last_time :: int
  now_time :: int
  days :: nat

text \<open>The counting loop runs while the iterated midnight is not after today's; \<open>fuel\<close> bounds it.\<close>

fun count_days :: "nat \<Rightarrow> int \<Rightarrow> int \<Rightarrow> tm \<Rightarrow> nat option" where
  "count_days 0 off limit tm_iter = None"
| "count_days (Suc fuel) off limit tm_iter =
     (let (t_iter, tm') = mktime off tm_iter in
      if t_iter > limit then Some 0
      else map_option Suc (count_days fuel off limit (tm'\<lparr>tm_mday := tm_mday tm' + 1\<rparr>)))"

fun fill_days :: "nat \<Rightarrow> int \<Rightarrow> tm \<Rightarrow> int list" where
  "fill_days 0 off tm_iter = []"
| "fill_days (Suc n) off tm_iter =
     (let (t_iter, tm') = mktime off (tm_iter\<lparr>tm_hour := 0, tm_min := 0, tm_sec := 0\<rparr>)
      in t_iter # fill_days n off (tm'\<lparr>tm_mday := tm_mday tm' + 1\<rparr>))"

definition tou_time_get_base_arr :: "nat \<Rightarrow> bool \<Rightarrow> int \<Rightarrow> int \<Rightarrow> int \<Rightarrow> tou_time_base option" where
  "tou_time_get_base_arr fuel alloc_ok off last_t now_t =
     (if last_t = 0 \<or> now_t \<le> last_t \<or> now_t - last_t > CONFIG_TOU_CHECK_BACK_DAYS * 86400
      then Some \<lparr>t_base_arr = None, last_time = 0, now_time = 0, days = 0\<rparr>
      else let tm_last = (localtime off last_t)\<lparr>tm_hour := 0, tm_min := 0, tm_sec := 0\<rparr>;
               tm_now = (localtime off now_t)\<lparr>tm_hour := 0, tm_min := 0, tm_sec := 0\<rparr>
           in case count_days fuel off (fst (mktime off tm_now)) tm_last of
                None \<Rightarrow> None
              | Some n \<Rightarrow>
                  if \<not> alloc_ok then Some \<lparr>t_base_arr = None, last_time = 0, now_time = 0, days = 0\<rparr>
                  else Some \<lparr>t_base_arr = Some (fill_days n off tm_last), last_time = last_t,
                              now_time = now_t, days = n\<rparr>)"

fun trigger_loop :: "int \<Rightarrow> tou_time_config \<Rightarrow> int \<Rightarrow> int \<Rightarrow> int list \<Rightarrow> bool" where
  "trigger_loop off c last_t now_t [] = False"
| "trigger_loop off c last_t now_t (b # bs) =
     (let t = b + uint (time_sec c) in
      if t \<le> last_t \<or> t > now_t then trigger_loop off c last_t now_t bs
      else if \<not> tou_date_ok c (localtime off t) then trigger_loop off c last_t now_t bs
      else True)"

definition tou_time_is_trigger :: "int \<Rightarrow> tou_time_config option \<Rightarrow> tou_time_base option \<Rightarrow> bool" where
  "tou_time_is_trigger off cfg base =
     (case (cfg, base) of
        (Some c, Some b) \<Rightarrow>
          (case t_base_arr b of None \<Rightarrow> False
           | Some bs \<Rightarrow>
               if days b = 0 then False
               else if time_type c \<noteq> TOU_TIME_TYPE_POINT \<or> tou_time_cfg_invalid cfg then False
               else trigger_loop off c (last_time b) (now_time b) (take (days b) bs))
      | _ \<Rightarrow> False)"

definition tou_day_is_valid :: "int \<Rightarrow> int \<Rightarrow> tou_time_config option \<Rightarrow> bool" where
  "tou_day_is_valid off clock cfg =
     (case cfg of None \<Rightarrow> False
      | Some c \<Rightarrow> \<not> tou_time_cfg_invalid cfg \<and> tou_date_ok c (localtime off clock))"

section \<open>The scan over the days\<close>

lemma localtime_date:
  assumes "(t + off) div 86400 = (t' + off) div 86400"
  shows "tou_date_ok c (localtime off t) = tou_date_ok c (localtime off t')"
  unfolding tou_date_ok_def localtime_def Let_def assms by (simp split: prod.split)

lemma count_days_ok:
  "at_midnight off x d \<Longrightarrow> nat (e - d + 1) < fuel \<Longrightarrow>
   count_days fuel off (e * 86400 - off) x = Some (nat (e - d + 1))"
proof (induction fuel arbitrary: x d)
  case (Suc fuel)
  note m = at_midnight_mktime[OF Suc.prems(1)]
  have gt: "d * 86400 - off > e * 86400 - off \<longleftrightarrow> d > e" by simp
  show ?case
  proof (cases "d > e")
    case True
    then show ?thesis using m(1) by (simp add: case_prod_beta Let_def)
  next
    case False
    have "nat (e - (d + 1) + 1) < fuel" using Suc.prems(2) False by simp
    then have "count_days fuel off (e * 86400 - off)
        ((snd (mktime off x))\<lparr>tm_mday := tm_mday (snd (mktime off x)) + 1\<rparr>) = Some (nat (e - (d + 1) + 1))"
      by (rule Suc.IH[OF m(2)])
    moreover have "Suc (nat (e - (d + 1) + 1)) = nat (e - d + 1)" using False by simp
    ultimately show ?thesis using m(1) False by (simp add: case_prod_beta Let_def)
  qed
qed simp

lemma fill_days_ok:
  "at_midnight off x d \<Longrightarrow> fill_days n off x = map (\<lambda>i. (d + int i) * 86400 - off) [0..<n]"
proof (induction n arbitrary: x d)
  case (Suc n)
  note m = at_midnight_mktime[OF Suc.prems]
  have "map (\<lambda>i. (d + int i) * 86400 - off) [0..<Suc n] =
      (d * 86400 - off) # map (\<lambda>i. (d + 1 + int i) * 86400 - off) [0..<n]"
    by (simp add: upt_conv_Cons map_Suc_upt[symmetric] algebra_simps del: upt_Suc)
  then show ?case
    using Suc.IH[OF m(2)] m(1) Suc.prems by (simp add: at_midnight_reset case_prod_beta Let_def del: upt_Suc)
qed simp

section \<open>Trigger times\<close>

text \<open>What a configuration means: it fires at the times whose local second of the day is the
  configured one, on the selected dates.\<close>

definition tou_fires :: "int \<Rightarrow> tou_time_config \<Rightarrow> int \<Rightarrow> bool" where
  "tou_fires off c t \<longleftrightarrow> (t + off) mod 86400 = uint (time_sec c) \<and> tou_date_ok c (localtime off t)"

definition tou_point :: "tou_time_config \<Rightarrow> bool" where
  "tou_point c \<longleftrightarrow> time_type c = TOU_TIME_TYPE_POINT \<and> \<not> tou_time_cfg_invalid (Some c) \<and> time_sec c < 86400"

lemma tou_pointD:
  assumes "tou_point c"
  shows "time_type c = TOU_TIME_TYPE_POINT" "\<not> tou_time_cfg_invalid (Some c)"
    "0 \<le> uint (time_sec c)" "uint (time_sec c) < 86400"
  using assms by (simp_all add: tou_point_def word_less_def)

lemma trigger_loop_iff:
  "trigger_loop off c l n bs \<longleftrightarrow>
   (\<exists>b \<in> set bs. l < b + uint (time_sec c) \<and> b + uint (time_sec c) \<le> n \<and>
      tou_date_ok c (localtime off (b + uint (time_sec c))))"
  by (induction bs) (auto simp: Let_def)

lemma base_arr_ok:
  fixes off :: int
  assumes "l \<noteq> 0" "l < n" "n - l \<le> 7 * 86400" "9 < fuel"
  defines "d \<equiv> (l + off) div 86400" and "e \<equiv> (n + off) div 86400"
  shows "tou_time_get_base_arr fuel True off l n =
    Some \<lparr>t_base_arr = Some (map (\<lambda>i. (d + int i) * 86400 - off) [0..<nat (e - d + 1)]),
          last_time = l, now_time = n, days = nat (e - d + 1)\<rparr>"
    and "d \<le> e" "e \<le> d + 7"
proof -
  show de: "d \<le> e" unfolding d_def e_def using assms(2) by (intro zdiv_mono1) auto
  have "e \<le> (l + off + 7 * 86400) div 86400"
    unfolding e_def using assms(3) by (intro zdiv_mono1) auto
  also have "\<dots> = d + 7" by (simp add: d_def)
  finally show e7: "e \<le> d + 7" .
  have m: "at_midnight off ((localtime off l)\<lparr>tm_hour := 0, tm_min := 0, tm_sec := 0\<rparr>) d"
    unfolding d_def by (rule at_midnight_start)
  have lim: "fst (mktime off ((localtime off n)\<lparr>tm_hour := 0, tm_min := 0, tm_sec := 0\<rparr>)) = e * 86400 - off"
    by (simp add: mktime_midnight midnight_def e_def)
  have "nat (e - d + 1) < fuel" using e7 assms(4) by simp
  then show "tou_time_get_base_arr fuel True off l n =
    Some \<lparr>t_base_arr = Some (map (\<lambda>i. (d + int i) * 86400 - off) [0..<nat (e - d + 1)]),
          last_time = l, now_time = n, days = nat (e - d + 1)\<rparr>"
    using assms(1-3) count_days_ok[OF m] fill_days_ok[OF m] lim
    by (simp add: tou_time_get_base_arr_def CONFIG_TOU_CHECK_BACK_DAYS_def Let_def)
qed

lemma trigger_exact:
  assumes c: "tou_point c" and w: "l \<noteq> 0" "l < n" "n - l \<le> 7 * 86400" "9 < fuel"
  shows "tou_time_is_trigger off (Some c) (tou_time_get_base_arr fuel True off l n) \<longleftrightarrow>
    (\<exists>t. l < t \<and> t \<le> n \<and> tou_fires off c t)"
proof -
  define d e s where "d = (l + off) div 86400" and "e = (n + off) div 86400" and "s = uint (time_sec c)"
  note p = tou_pointD[OF c, folded s_def]
  note b = base_arr_ok[OF w, of off, folded d_def e_def]
  have "tou_time_is_trigger off (Some c) (tou_time_get_base_arr fuel True off l n) =
      trigger_loop off c l n (map (\<lambda>i. (d + int i) * 86400 - off) [0..<nat (e - d + 1)])"
    using p(1,2) b(1,2) by (simp add: tou_time_is_trigger_def)
  also have "\<dots> \<longleftrightarrow> (\<exists>t. l < t \<and> t \<le> n \<and> tou_fires off c t)"
  proof
    assume "trigger_loop off c l n (map (\<lambda>i. (d + int i) * 86400 - off) [0..<nat (e - d + 1)])"
    then obtain i where i: "l < (d + int i) * 86400 - off + s" "(d + int i) * 86400 - off + s \<le> n"
        "tou_date_ok c (localtime off ((d + int i) * 86400 - off + s))"
      by (auto simp: trigger_loop_iff s_def)
    then have "tou_fires off c ((d + int i) * 86400 - off + s)"
      using day_time(2)[OF p(3,4), of "d + int i" off] by (simp add: tou_fires_def s_def)
    with i show "\<exists>t. l < t \<and> t \<le> n \<and> tou_fires off c t" by blast
  next
    assume "\<exists>t. l < t \<and> t \<le> n \<and> tou_fires off c t"
    then obtain t where t: "l < t" "t \<le> n" "tou_fires off c t" by blast
    define D where "D = (t + off) div 86400"
    have D: "d \<le> D" "D \<le> e" unfolding d_def e_def D_def using t by (auto intro!: zdiv_mono1)
    have "t = D * 86400 - off + s"
      using t(3) day_split[of t off] by (simp add: tou_fires_def D_def s_def)
    moreover have "D = d + int (nat (D - d))" "nat (D - d) < nat (e - d + 1)" using D by auto
    ultimately have "\<exists>i < nat (e - d + 1). t = (d + int i) * 86400 - off + s" by metis
    then obtain i where "i < nat (e - d + 1)" "t = (d + int i) * 86400 - off + s" by blast
    then show "trigger_loop off c l n (map (\<lambda>i. (d + int i) * 86400 - off) [0..<nat (e - d + 1)])"
      using t by (auto simp: trigger_loop_iff tou_fires_def s_def intro!: bexI[of _ i])
  qed
  finally show ?thesis .
qed

text \<open>The greatest trigger time of an interval, 0 if there is none.\<close>

definition greatest_fire :: "int \<Rightarrow> tou_time_config \<Rightarrow> int \<Rightarrow> int \<Rightarrow> int \<Rightarrow> bool" where
  "greatest_fire off c t0 t1 r \<longleftrightarrow>
     (if \<exists>t. t0 \<le> t \<and> t \<le> t1 \<and> tou_fires off c t
      then t0 \<le> r \<and> r \<le> t1 \<and> tou_fires off c r \<and> (\<forall>t. t0 \<le> t \<and> t \<le> t1 \<and> tou_fires off c t \<longrightarrow> t \<le> r)
      else r = 0)"

lemma greatest_fireI:
  "t0 \<le> r \<Longrightarrow> r \<le> t1 \<Longrightarrow> tou_fires off c r \<Longrightarrow>
   (\<And>t. t0 \<le> t \<Longrightarrow> t \<le> t1 \<Longrightarrow> tou_fires off c t \<Longrightarrow> t \<le> r) \<Longrightarrow> greatest_fire off c t0 t1 r"
  unfolding greatest_fire_def by auto

lemma fire_of_day:
  assumes "tou_fires off c t" "(t + off) div 86400 = (t' + off) div 86400"
  shows "t = midnight off t' + uint (time_sec c)" "tou_date_ok c (localtime off t')"
proof -
  show "t = midnight off t' + uint (time_sec c)"
    using assms day_split[of t off] by (simp add: tou_fires_def midnight_def)
  show "tou_date_ok c (localtime off t')"
    using assms localtime_date[OF assms(2)] by (simp add: tou_fires_def)
qed

lemma midnight_fires:
  assumes "tou_point c" "tou_date_ok c (localtime off t)"
  shows "tou_fires off c (midnight off t + uint (time_sec c))"
    and "(midnight off t + uint (time_sec c) + off) div 86400 = (t + off) div 86400"
proof -
  note p = tou_pointD[OF assms(1)]
  show d: "(midnight off t + uint (time_sec c) + off) div 86400 = (t + off) div 86400"
    using day_time(1)[OF p(3,4)] by (simp add: midnight_def)
  show "tou_fires off c (midnight off t + uint (time_sec c))"
    using day_time(2)[OF p(3,4), of "(t + off) div 86400" off] localtime_date[OF d, of c] assms(2)
    by (simp add: tou_fires_def midnight_def)
qed

lemma last_trigger_step:
  "last_trigger_loop off c t0 t1 t =
     (if t < t0 then 0
      else if tou_date_ok c (localtime off t) \<and> t0 \<le> midnight off t + uint (time_sec c) \<and>
              midnight off t + uint (time_sec c) \<le> t1
      then midnight off t + uint (time_sec c)
      else last_trigger_loop off c t0 t1 (t - 86400))"
  by (subst last_trigger_loop.simps) (auto simp: Let_def mktime_midnight)

lemma day_before: "(t - 86400 + off) div 86400 = (t + off) div 86400 - (1 :: int)"
proof -
  have "t - 86400 + off = (t + off) + (- 1) * 86400" by simp
  then show ?thesis by (simp only: div_mult_self1)
qed

lemma last_trigger_loop_ok:
  "tou_point c \<Longrightarrow> 86400 dvd t - t0 \<Longrightarrow>
   (\<forall>x. t0 \<le> x \<and> x \<le> t1 \<and> tou_fires off c x \<longrightarrow> (x + off) div 86400 \<le> (t + off) div 86400) \<Longrightarrow>
   greatest_fire off c t0 t1 (last_trigger_loop off c t0 t1 t)"
proof (induction "nat (t - t0 + 1)" arbitrary: t rule: less_induct)
  case less
  note days = less.prems(3)
  define x where "x = midnight off t + uint (time_sec c)"
  consider "t < t0" | "t0 \<le> t" "tou_date_ok c (localtime off t)" "t0 \<le> x" "x \<le> t1"
    | "t0 \<le> t" "\<not> (tou_date_ok c (localtime off t) \<and> t0 \<le> x \<and> x \<le> t1)" by linarith
  then show ?case
  proof cases
    case 1
    obtain k where k: "t - t0 = 86400 * k" using less.prems(2) by (elim dvdE)
    moreover from this 1 have "k < 0" by linarith
    ultimately have "t \<le> t0 - 86400" by linarith
    then have "(t + off) div 86400 \<le> (t0 - 86400 + off) div 86400" by (intro zdiv_mono1) auto
    then have "(t + off) div 86400 < (t0 + off) div 86400" by (simp only: day_before)
    moreover have "(t0 + off) div 86400 \<le> (y + off) div 86400" if "t0 \<le> y" for y
      using that by (intro zdiv_mono1) auto
    ultimately have "\<not> (\<exists>y. t0 \<le> y \<and> y \<le> t1 \<and> tou_fires off c y)" using days by fastforce
    moreover have "last_trigger_loop off c t0 t1 t = 0" using 1 by (simp add: last_trigger_step)
    ultimately show ?thesis by (auto simp: greatest_fire_def)
  next
    case 2
    note m = midnight_fires[OF less.prems(1) 2(2), folded x_def]
    have "y \<le> x" if "t0 \<le> y" "y \<le> t1" "tou_fires off c y" for y
    proof (rule ccontr)
      assume "\<not> y \<le> x"
      then have "(x + off) div 86400 \<le> (y + off) div 86400" by (intro zdiv_mono1) auto
      moreover have "(y + off) div 86400 \<le> (t + off) div 86400" using days that by blast
      ultimately have "(y + off) div 86400 = (t + off) div 86400" using m(2) by linarith
      then have "y = x" using fire_of_day(1)[OF that(3)] unfolding x_def by blast
      with \<open>\<not> y \<le> x\<close> show False by simp
    qed
    then have "greatest_fire off c t0 t1 x" using 2 m(1) by (intro greatest_fireI) auto
    moreover have "last_trigger_loop off c t0 t1 t = x"
      using 2 unfolding x_def by (subst last_trigger_step) simp
    ultimately show ?thesis by simp
  next
    case 3
    have "(y + off) div 86400 \<le> (t - 86400 + off) div 86400"
      if y: "t0 \<le> y \<and> y \<le> t1 \<and> tou_fires off c y" for y
    proof -
      have "(y + off) div 86400 \<noteq> (t + off) div 86400"
        using fire_of_day[of off c y t] 3(2) y unfolding x_def by blast
      moreover have "(y + off) div 86400 \<le> (t + off) div 86400" using days y by blast
      ultimately show ?thesis unfolding day_before by linarith
    qed
    moreover have "86400 dvd (t - 86400) - t0"
      using less.prems(2) by (metis diff_right_commute dvd_diff dvd_refl)
    moreover have "nat (t - 86400 - t0 + 1) < nat (t - t0 + 1)" using 3(1) by simp
    ultimately have "greatest_fire off c t0 t1 (last_trigger_loop off c t0 t1 (t - 86400))"
      using less.hyps less.prems(1) by blast
    moreover have "last_trigger_loop off c t0 t1 t = last_trigger_loop off c t0 t1 (t - 86400)"
      using 3 unfolding x_def by (subst last_trigger_step) auto
    ultimately show ?thesis by simp
  qed
qed

lemma last_trigger_exact:
  assumes "tou_point c"
  shows "greatest_fire off c (n - 7 * 86400) n (Tou_Point_Last_Trigger off (Some c) n)"
proof -
  have "Tou_Point_Last_Trigger off (Some c) n = last_trigger_loop off c (n - 7 * 86400) n n"
    using tou_pointD[OF assms] by (simp add: Tou_Point_Last_Trigger_def CONFIG_TOU_CHECK_BACK_DAYS_def)
  moreover have "(x + off) div 86400 \<le> (n + off) div 86400" if "x \<le> n" for x
    using that by (intro zdiv_mono1) auto
  ultimately show ?thesis using last_trigger_loop_ok[OF assms, of n "n - 7 * 86400" n off] by auto
qed

section \<open>Properties\<close>

text \<open>C29: For an interval \<open>(last, now]\<close> of at most seven days, in every zone, the trigger test over the
  computed midnights answers yes exactly when the point fires at some second of the interval: no
  trigger is missed at a day change and none is reported for a boundary that belongs to the
  interval before.\<close>

theorem tou_time_is_trigger_exact:
  assumes "tou_point c" "l \<noteq> 0" "l < n" "n - l \<le> 604800" "9 < fuel"
  shows "tou_time_is_trigger off (Some c) (tou_time_get_base_arr fuel True off l n) \<longleftrightarrow>
    (\<exists>t. l < t \<and> t \<le> n \<and> tou_fires off c t)"
  using trigger_exact[OF assms(1-3)] assms(4,5) by simp

text \<open>A point at 08:02:30 on all days, in a zone eight hours ahead of UTC.\<close>

definition daily :: tou_time_config where
  "daily = \<lparr>time_sec = 28950, week_sel = 127, day_sel = 0x7FFFFFFF, month_sel = 0xFFF, reg_type = 0,
            device_id = 1, time_type = 0\<rparr>"

lemma daily_point: "tou_point daily"
  by (simp add: tou_point_def daily_def TOU_TIME_TYPE_POINT_def tou_time_cfg_invalid_def)

lemma daily_fires: "tou_fires 28800 daily 150"
  by (simp add: tou_fires_def daily_def tou_date_ok_def localtime_def find_year.simps find_month.simps
      TOU_MONTH_IS_SET_def TOU_DAY_IS_SET_def TOU_WEEK_IS_SET_def year_days_def month_days_def leap_def)

lemma tou_time_is_trigger_exact_witness:
  "tou_time_is_trigger 28800 (Some daily) (tou_time_get_base_arr 10 True 28800 100 200)
   \<and> \<not> tou_time_is_trigger 28800 (Some daily) (tou_time_get_base_arr 10 True 28800 150 200)"
proof -
  have no: "\<not> tou_fires 28800 daily t" if "150 < t" "t \<le> 200" for t
  proof -
    have "(t + 28800) mod 86400 = t + 28800" using that by (intro mod_pos_pos_trivial) auto
    with that show ?thesis by (simp add: tou_fires_def daily_def)
  qed
  have "tou_time_is_trigger 28800 (Some daily) (tou_time_get_base_arr 10 True 28800 100 200) \<longleftrightarrow>
      (\<exists>t. 100 < t \<and> t \<le> 200 \<and> tou_fires 28800 daily t)"
    by (rule tou_time_is_trigger_exact[OF daily_point]) simp_all
  moreover have "tou_time_is_trigger 28800 (Some daily) (tou_time_get_base_arr 10 True 28800 150 200) \<longleftrightarrow>
      (\<exists>t. 150 < t \<and> t \<le> 200 \<and> tou_fires 28800 daily t)"
    by (rule tou_time_is_trigger_exact[OF daily_point]) simp_all
  moreover have "\<exists>t. 100 < t \<and> t \<le> 200 \<and> tou_fires 28800 daily t"
    using daily_fires by (intro exI[of _ 150]) simp
  ultimately show ?thesis using no by auto
qed

text \<open>The search for the last trigger returns the greatest second of the last seven days at
  which the point fires, and 0 when there is none.\<close>

theorem Tou_Point_Last_Trigger_greatest:
  assumes "tou_point c"
  shows "greatest_fire off c (n - 604800) n (Tou_Point_Last_Trigger off (Some c) n)"
  using last_trigger_exact[OF assms, of off n] by simp

lemma Tou_Point_Last_Trigger_greatest_witness:
  "Tou_Point_Last_Trigger 28800 (Some daily) 200 = 150"
proof -
  have no: "\<not> tou_fires 28800 daily t" if "150 < t" "t \<le> 200" for t
  proof -
    have "(t + 28800) mod 86400 = t + 28800" using that by (intro mod_pos_pos_trivial) auto
    with that show ?thesis by (simp add: tou_fires_def daily_def)
  qed
  let ?r = "Tou_Point_Last_Trigger 28800 (Some daily) 200"
  have "\<exists>t. 200 - 604800 \<le> t \<and> t \<le> 200 \<and> tou_fires 28800 daily t"
    using daily_fires by (intro exI[of _ 150]) simp
  then have "?r \<le> 200 \<and> tou_fires 28800 daily ?r \<and>
      (\<forall>t. 200 - 604800 \<le> t \<and> t \<le> 200 \<and> tou_fires 28800 daily t \<longrightarrow> t \<le> ?r)"
    using Tou_Point_Last_Trigger_greatest[OF daily_point, of 28800 200] by (simp add: greatest_fire_def)
  moreover from this have "150 \<le> ?r" using daily_fires by auto
  ultimately show ?thesis using no[of ?r] by linarith
qed

text \<open>The two routines agree: the trigger test over \<open>(last, now]\<close> succeeds exactly when the last
  trigger found from \<open>now\<close> is later than \<open>last\<close>.\<close>

theorem tou_routines_agree:
  assumes "tou_point c" "0 < l" "l < n" "n - l \<le> 604800" "9 < fuel"
  shows "tou_time_is_trigger off (Some c) (tou_time_get_base_arr fuel True off l n) \<longleftrightarrow>
    l < Tou_Point_Last_Trigger off (Some c) n"
proof -
  let ?r = "Tou_Point_Last_Trigger off (Some c) n"
  have "tou_time_is_trigger off (Some c) (tou_time_get_base_arr fuel True off l n) \<longleftrightarrow>
      (\<exists>t. l < t \<and> t \<le> n \<and> tou_fires off c t)"
    using trigger_exact[OF assms(1)] assms by simp
  also have "\<dots> \<longleftrightarrow> l < ?r"
    using last_trigger_exact[OF assms(1), of off n] assms(2-4)
    unfolding greatest_fire_def by (auto split: if_splits) (smt (verit))+
  finally show ?thesis .
qed

lemma tou_routines_agree_witness:
  "tou_time_is_trigger 0 (Some daily) (tou_time_get_base_arr 10 True 0 100 90000) \<longleftrightarrow>
   100 < Tou_Point_Last_Trigger 0 (Some daily) 90000"
  by (rule tou_routines_agree[OF daily_point]) simp_all

end
