(* ===== verification/Tou_Config.thy ===== *)
theory Tou_Config
  imports Smart_Tou
begin

text \<open>
  The configuration of the time-of-use control, \<open>smart_ctrl/smart_common.h\<close> and
  \<open>smart_tou_ctrl_v1.h\<close>: packed structures that are at the same time the register segment 26000 and
  the content of the configuration file.  The records here hold the fields; the functions to and
  from bytes are the unions, with the bit positions of the header, and are shown to be inverse.
\<close>

section \<open>Words as bytes, least significant first\<close>

definition le_bytes :: "nat \<Rightarrow> 'a::len word \<Rightarrow> u8 list" where
  "le_bytes n w = map (\<lambda>i. ucast (drop_bit (8 * i) w)) [0..<n]"

definition of_le_bytes :: "u8 list \<Rightarrow> 'a::len word" where
  "of_le_bytes bs = foldr (\<lambda>b w. push_bit 8 w OR ucast b) bs 0"

lemma length_le_bytes [simp]: "length (le_bytes n w) = n"
  by (simp add: le_bytes_def)

lemma bit_of_le_bytes:
  "bit (of_le_bytes bs :: 'a::len word) n \<longleftrightarrow>
   n < LENGTH('a) \<and> n div 8 < length bs \<and> bit (bs ! (n div 8)) (n mod 8)"
proof (induction bs arbitrary: n)
  case Nil
  then show ?case by (simp add: of_le_bytes_def)
next
  case (Cons b bs)
  have step: "(of_le_bytes (b # bs) :: 'a word) = push_bit 8 (of_le_bytes bs) OR ucast b"
    by (simp add: of_le_bytes_def)
  show ?case
  proof (cases "n < 8")
    case True
    then show ?thesis unfolding step by (auto simp: bit_simps)
  next
    case False
    then have "n div 8 = Suc ((n - 8) div 8)" "(n - 8) mod 8 = n mod 8"
      by (simp_all add: le_div_geq le_mod_geq)
    with False Cons.IH[of "n - 8"] show ?thesis
      unfolding step by (auto simp: bit_simps dest: bit_imp_le_length)
  qed
qed

lemma of_le_bytes_le_bytes:
  assumes "LENGTH('a) \<le> 8 * n"
  shows "of_le_bytes (le_bytes n (w :: 'a::len word)) = w"
proof (rule bit_word_eqI)
  fix k assume k: "k < LENGTH('a)"
  then have "k div 8 < n" using assms by (simp add: less_mult_imp_div_less mult.commute)
  then show "bit (of_le_bytes (le_bytes n w) :: 'a word) k = bit w k"
    using k by (simp add: bit_of_le_bytes le_bytes_def bit_simps)
qed

lemma le_bytes_of_le_bytes:
  assumes "length bs = n" "8 * n \<le> LENGTH('a)"
  shows "le_bytes n (of_le_bytes bs :: 'a::len word) = bs"
proof (rule nth_equalityI)
  fix i assume "i < length (le_bytes n (of_le_bytes bs :: 'a word))"
  then have i: "i < n" by simp
  show "le_bytes n (of_le_bytes bs :: 'a word) ! i = bs ! i"
  proof (rule bit_word_eqI)
    fix k assume "k < LENGTH(8)"
    then have k: "k < 8" by simp
    then have "8 * i + k < LENGTH('a)" "(8 * i + k) div 8 = i" "(8 * i + k) mod 8 = k"
      using i assms(2) by simp_all
    then show "bit (le_bytes n (of_le_bytes bs :: 'a word) ! i) k = bit (bs ! i) k"
      using i k assms(1) by (simp add: le_bytes_def bit_simps bit_of_le_bytes)
  qed
qed (simp add: assms(1))

section \<open>Time configuration\<close>

definition tou_time_word :: "tou_time_config \<Rightarrow> 80 word" where
  "tou_time_word c =
     ucast (time_sec c) OR push_bit 17 (ucast (week_sel c)) OR push_bit 24 (ucast (day_sel c)) OR
     push_bit 55 (ucast (month_sel c)) OR push_bit 67 (ucast (reg_type c)) OR
     push_bit 69 (ucast (device_id c)) OR push_bit 77 (ucast (time_type c))"

definition tou_time_of_word :: "80 word \<Rightarrow> tou_time_config" where
  "tou_time_of_word w =
     \<lparr>time_sec = ucast w, week_sel = ucast (drop_bit 17 w), day_sel = ucast (drop_bit 24 w),
      month_sel = ucast (drop_bit 55 w), reg_type = ucast (drop_bit 67 w),
      device_id = ucast (drop_bit 69 w), time_type = ucast (drop_bit 77 w)\<rparr>"

lemma bit_tou_time_word:
  "bit (tou_time_word c) n \<longleftrightarrow>
   (if n < 17 then bit (time_sec c) n else if n < 24 then bit (week_sel c) (n - 17)
    else if n < 55 then bit (day_sel c) (n - 24) else if n < 67 then bit (month_sel c) (n - 55)
    else if n < 69 then bit (reg_type c) (n - 67) else if n < 77 then bit (device_id c) (n - 69)
    else bit (time_type c) (n - 77))"
proof -
  have out: "\<not> bit (w :: 'a::len word) k" if "LENGTH('a) \<le> k" for w k
    using that bit_imp_le_length[of w k] by linarith
  consider "n < 17" | "17 \<le> n" "n < 24" | "24 \<le> n" "n < 55" | "55 \<le> n" "n < 67" | "67 \<le> n" "n < 69"
    | "69 \<le> n" "n < 77" | "77 \<le> n" "n < 80" | "80 \<le> n" by linarith
  then show ?thesis by cases (auto simp: tou_time_word_def bit_simps out)
qed

lemma tou_time_word_inverse: "tou_time_of_word (tou_time_word c) = c"
proof -
  have "ucast (tou_time_word c) = time_sec c" "ucast (drop_bit 17 (tou_time_word c)) = week_sel c"
    "ucast (drop_bit 24 (tou_time_word c)) = day_sel c"
    "ucast (drop_bit 55 (tou_time_word c)) = month_sel c"
    "ucast (drop_bit 67 (tou_time_word c)) = reg_type c"
    "ucast (drop_bit 69 (tou_time_word c)) = device_id c"
    "ucast (drop_bit 77 (tou_time_word c)) = time_type c"
    by (rule bit_word_eqI; simp add: bit_simps bit_tou_time_word)+
  then show ?thesis by (simp add: tou_time_of_word_def)
qed

lemma tou_time_of_word_inverse: "tou_time_word (tou_time_of_word w) = w"
proof (rule bit_word_eqI)
  fix n assume n: "n < LENGTH(80)"
  show "bit (tou_time_word (tou_time_of_word w)) n = bit w n"
    unfolding bit_tou_time_word using n by (auto simp: tou_time_of_word_def bit_simps)
qed

section \<open>Points\<close>

record tou_general_reg_config =
  reg_addr :: u16
  reg_value :: u16

record smart_tou_unit_config =
  time_cfg :: tou_time_config
  reg_cfg :: tou_general_reg_config

definition unit_bytes :: "smart_tou_unit_config \<Rightarrow> u8 list" where
  "unit_bytes u = le_bytes 10 (tou_time_word (time_cfg u)) @ le16 (reg_addr (reg_cfg u)) @
     le16 (reg_value (reg_cfg u))"

definition unit_of_bytes :: "u8 list \<Rightarrow> smart_tou_unit_config" where
  "unit_of_bytes bs =
     \<lparr>time_cfg = tou_time_of_word (of_le_bytes (take 10 bs)),
      reg_cfg = \<lparr>reg_addr = get16 bs 10, reg_value = get16 bs 12\<rparr>\<rparr>"

lemma length_unit_bytes [simp]: "length (unit_bytes u) = 14"
  by (simp add: unit_bytes_def)

lemma unit_of_unit_bytes: "unit_of_bytes (unit_bytes u) = u"
proof -
  have "take 10 (unit_bytes u) = le_bytes 10 (tou_time_word (time_cfg u))"
    by (simp add: unit_bytes_def)
  moreover have "get16 (unit_bytes u) 10 = reg_addr (reg_cfg u)"
    "get16 (unit_bytes u) 12 = reg_value (reg_cfg u)"
    by (simp_all add: unit_bytes_def get16_def le16_def nth_append)
  ultimately show ?thesis
    by (simp add: unit_of_bytes_def of_le_bytes_le_bytes tou_time_word_inverse)
qed

lemma unit_bytes_of_bytes:
  assumes "length bs = 14"
  shows "unit_bytes (unit_of_bytes bs) = bs"
proof -
  have tail: "drop 10 bs = [bs ! 10, bs ! 11, bs ! 12, bs ! 13]"
    using assms by (simp add: drop_nth_Cons)
  have "le_bytes 10 (of_le_bytes (take 10 bs) :: 80 word) = take 10 bs"
    using assms by (intro le_bytes_of_le_bytes) simp_all
  then have "unit_bytes (unit_of_bytes bs) = take 10 bs @ drop 10 bs"
    unfolding tail
    by (simp add: unit_bytes_def unit_of_bytes_def tou_time_of_word_inverse le16_def get16_def)
  then show ?thesis by simp
qed

section \<open>The segment\<close>

definition SMART_TOU_UNIT_MAX_LEN :: nat where "SMART_TOU_UNIT_MAX_LEN = 14"
definition SMART_TOU_UNIT_MAX_CNT :: nat where "SMART_TOU_UNIT_MAX_CNT = 140"
definition SMART_TOU_QUANTUM_MAX_CNT :: nat where
  "SMART_TOU_QUANTUM_MAX_CNT = SMART_TOU_UNIT_MAX_CNT div 2"
definition SMART_TOU_REG_MAX_LEN :: nat where "SMART_TOU_REG_MAX_LEN = 1000"
definition sizeof_config :: nat where "sizeof_config = SMART_TOU_REG_MAX_LEN * 2"
definition TOU_TIME_TYPE_QUANTUM :: "3 word" where "TOU_TIME_TYPE_QUANTUM = 1"

lemmas tou_sizes = SMART_TOU_UNIT_MAX_LEN_def SMART_TOU_UNIT_MAX_CNT_def SMART_TOU_QUANTUM_MAX_CNT_def
  SMART_TOU_REG_MAX_LEN_def sizeof_config_def

text \<open>The registers behind the last point belong to the union and are kept as they are.\<close>

record smart_tou_plan_set =
  diff_type :: "4 word"
  plan_reserved :: "4 word"
  time_num :: u8

record smart_tou_ctrl_config =
  smart_tou_info :: smart_tou_plan_set
  smart_tou_unit :: "smart_tou_unit_config list"
  behind_units :: "u8 list"

definition config_ok :: "smart_tou_ctrl_config \<Rightarrow> bool" where
  "config_ok c \<longleftrightarrow> length (smart_tou_unit c) = SMART_TOU_UNIT_MAX_CNT \<and>
     length (behind_units c) = sizeof_config - 2 - SMART_TOU_UNIT_MAX_CNT * SMART_TOU_UNIT_MAX_LEN"

definition info_bytes :: "smart_tou_plan_set \<Rightarrow> u8 list" where
  "info_bytes p = [ucast (diff_type p) OR push_bit 4 (ucast (plan_reserved p)), time_num p]"

definition info_of_bytes :: "u8 list \<Rightarrow> smart_tou_plan_set" where
  "info_of_bytes bs =
     \<lparr>diff_type = ucast (bs ! 0), plan_reserved = ucast (drop_bit 4 (bs ! 0)), time_num = bs ! 1\<rparr>"

definition config_bytes :: "smart_tou_ctrl_config \<Rightarrow> u8 list" where
  "config_bytes c = info_bytes (smart_tou_info c) @ concat (map unit_bytes (smart_tou_unit c)) @ behind_units c"

definition config_of_bytes :: "u8 list \<Rightarrow> smart_tou_ctrl_config" where
  "config_of_bytes bs =
     \<lparr>smart_tou_info = info_of_bytes bs,
      smart_tou_unit = map (\<lambda>i. unit_of_bytes (take SMART_TOU_UNIT_MAX_LEN (drop (2 + SMART_TOU_UNIT_MAX_LEN * i) bs)))
        [0..<SMART_TOU_UNIT_MAX_CNT],
      behind_units = drop (2 + SMART_TOU_UNIT_MAX_LEN * SMART_TOU_UNIT_MAX_CNT) bs\<rparr>"

lemma info_of_info_bytes [simp]: "info_of_bytes (info_bytes p @ bs) = p"
proof -
  have "(ucast (ucast (diff_type p) OR push_bit 4 (ucast (plan_reserved p)) :: u8) :: 4 word) = diff_type p"
    by (rule bit_word_eqI) (auto simp: bit_simps)
  moreover have "(ucast (drop_bit 4 (ucast (diff_type p) OR push_bit 4 (ucast (plan_reserved p)) :: u8)) :: 4 word) =
      plan_reserved p"
    using bit_imp_le_length[of "diff_type p"] by (intro bit_word_eqI) (fastforce simp: bit_simps)
  ultimately show ?thesis by (simp add: info_of_bytes_def info_bytes_def)
qed

lemma info_bytes_of_bytes: "length bs = 2 \<Longrightarrow> info_bytes (info_of_bytes bs) = bs"
proof -
  assume "length bs = 2"
  then obtain a b where bs: "bs = [a, b]" by (auto simp: length_Suc_conv numeral_2_eq_2)
  have "(ucast (ucast a :: 4 word) OR push_bit 4 (ucast (ucast (drop_bit 4 a) :: 4 word)) :: u8) = a"
  proof (rule bit_word_eqI)
    fix n assume "n < LENGTH(8)"
    then show "bit (ucast (ucast a :: 4 word) OR push_bit 4 (ucast (ucast (drop_bit 4 a) :: 4 word)) :: u8) n = bit a n"
      by (cases "n < 4") (auto simp: bit_simps)
  qed
  then show ?thesis by (simp add: bs info_bytes_def info_of_bytes_def)
qed

lemma length_config_bytes [simp]: "config_ok c \<Longrightarrow> length (config_bytes c) = sizeof_config"
  by (simp add: config_ok_def config_bytes_def info_bytes_def tou_sizes length_concat comp_def
      sum_list_triv)

lemma concat_units:
  "\<forall>x \<in> set xs. length (f x) = k \<Longrightarrow> i < length xs \<Longrightarrow>
   take k (drop (k * i) (concat (map f xs) @ ys)) = f (xs ! i)"
proof (induction xs arbitrary: i)
  case (Cons x xs)
  then show ?case by (cases i) (simp_all add: ac_simps)
qed simp

theorem config_of_config_bytes:
  assumes "config_ok c"
  shows "config_of_bytes (config_bytes c) = c"
proof -
  have units: "unit_of_bytes (take 14 (drop (2 + 14 * i) (config_bytes c))) = smart_tou_unit c ! i"
    if "i < SMART_TOU_UNIT_MAX_CNT" for i
    using that assms concat_units[of "smart_tou_unit c" unit_bytes 14 i "behind_units c"]
    by (simp add: config_bytes_def info_bytes_def config_ok_def unit_of_unit_bytes)
  have "smart_tou_unit (config_of_bytes (config_bytes c)) = smart_tou_unit c"
    using assms units by (intro nth_equalityI) (simp_all add: config_of_bytes_def config_ok_def SMART_TOU_UNIT_MAX_LEN_def)
  moreover have "behind_units (config_of_bytes (config_bytes c)) = behind_units c"
    using assms by (simp add: config_of_bytes_def config_bytes_def info_bytes_def config_ok_def tou_sizes
        length_concat comp_def sum_list_triv)
  moreover have "smart_tou_info (config_of_bytes (config_bytes c)) = smart_tou_info c"
    by (simp add: config_of_bytes_def config_bytes_def)
  ultimately show ?thesis by simp
qed

lemma config_bytes_of_bytes:
  assumes "length bs = sizeof_config"
  shows "config_bytes (config_of_bytes bs) = bs"
proof -
  define us where "us = (\<lambda>n. concat (map (\<lambda>i. take 14 (drop (2 + 14 * i) bs)) [0..<n]))"
  have us: "n \<le> 140 \<Longrightarrow> us n = take (14 * n) (drop 2 bs)" for n
  proof (induction n)
    case (Suc n)
    have "take (14 * Suc n) (drop 2 bs) = take (14 * n) (drop 2 bs) @ take 14 (drop (14 * n) (drop 2 bs))"
      by (simp only: mult_Suc_right add.commute[of 14] take_add)
    then show ?case using Suc by (simp add: us_def ac_simps)
  qed (simp add: us_def)
  have "map (\<lambda>i. unit_bytes (unit_of_bytes (take 14 (drop (2 + 14 * i) bs)))) [0..<140] =
      map (\<lambda>i. take 14 (drop (2 + 14 * i) bs)) [0..<140]"
    using assms by (intro map_cong refl unit_bytes_of_bytes) (simp add: tou_sizes)
  then have "concat (map unit_bytes (smart_tou_unit (config_of_bytes bs))) = take 1960 (drop 2 bs)"
    using us[of 140] by (simp add: config_of_bytes_def SMART_TOU_UNIT_MAX_CNT_def SMART_TOU_UNIT_MAX_LEN_def
        us_def comp_def del: map_eq_conv)
  moreover have "info_bytes (info_of_bytes bs) = take 2 bs"
  proof -
    have "info_of_bytes bs = info_of_bytes (take 2 bs)" by (simp add: info_of_bytes_def)
    then show ?thesis using info_bytes_of_bytes[of "take 2 bs"] assms by (simp add: tou_sizes)
  qed
  moreover have "bs = take 2 bs @ take 1960 (drop 2 bs) @ drop 1962 bs"
    using append_take_drop_id[of 2 bs] append_take_drop_id[of 1960 "drop 2 bs"] by simp
  ultimately show ?thesis by (simp add: config_bytes_def config_of_bytes_def tou_sizes)
qed

end
