(* ===== verification/Tou_Ctrl.thy ===== *)
theory Tou_Ctrl
  imports Tou_Config "HOL-Library.Multiset"
begin

text \<open>
  State and actions of the time-of-use control, \<open>smart_ctrl/smart_tou_ctrl_v1.c\<close>: the module's static
  variables, the queue of register commands with its consumer, the table of registers that a
  period keeps at a value, and the periodic check of that table against the device.

  The outside is the record \<open>tou_env\<close>: whether the allocation of the \<open>n\<close>-th command succeeds, how
  many commands the consuming task has taken when the \<open>n\<close>-th one is sent (the queue holds 32), the
  tick in milliseconds, the zone, what \<open>time()\<close> returns during the run, and the C library's \<open>qsort\<close>.
  The consumer runs in another task; \<open>tou_out\<close> collects what it has taken, in order.
\<close>

section \<open>Data\<close>

datatype tou_period_status =
    TOU_PERIOD_STATUS_UNCONFIGURED
  | TOU_PERIOD_STATUS_START_ONLY
  | TOU_PERIOD_STATUS_CONFIGURED_IDLE
  | TOU_PERIOD_STATUS_ACTIVE

fun status_code :: "tou_period_status \<Rightarrow> nat" where
  "status_code TOU_PERIOD_STATUS_UNCONFIGURED = 0"
| "status_code TOU_PERIOD_STATUS_START_ONLY = 1"
| "status_code TOU_PERIOD_STATUS_CONFIGURED_IDLE = 2"
| "status_code TOU_PERIOD_STATUS_ACTIVE = 3"

text \<open>The code compares the enumerators with \<open>>=\<close>: the order of their codes.\<close>

instantiation tou_period_status :: linorder
begin

definition less_eq_tou_period_status :: "tou_period_status \<Rightarrow> tou_period_status \<Rightarrow> bool" where
  "less_eq_tou_period_status a b \<longleftrightarrow> status_code a \<le> status_code b"

definition less_tou_period_status :: "tou_period_status \<Rightarrow> tou_period_status \<Rightarrow> bool" where
  "less_tou_period_status a b \<longleftrightarrow> status_code a < status_code b"

instance
proof
  fix a b :: tou_period_status
  show "a \<le> b \<Longrightarrow> b \<le> a \<Longrightarrow> a = b"
    by (cases a; cases b) (simp_all add: less_eq_tou_period_status_def)
qed (auto simp: less_eq_tou_period_status_def less_tou_period_status_def)

end

record tou_period_ctrl_obj =
  ctrl_reg_type :: u8
  ctrl_device_id :: u8
  ctrl_reg_addr :: u16
  start_value :: u16
  end_value :: u16

record tou_time_quantum =
  start_time_index :: u8
  end_time_index :: u8
  ctrl :: tou_period_ctrl_obj
  status :: tou_period_status

definition zero_quantum :: tou_time_quantum where
  "zero_quantum =
     \<lparr>start_time_index = 0, end_time_index = 0,
      ctrl = \<lparr>ctrl_reg_type = 0, ctrl_device_id = 0, ctrl_reg_addr = 0, start_value = 0, end_value = 0\<rparr>,
      status = TOU_PERIOD_STATUS_UNCONFIGURED\<rparr>"

record smart_tou_ctrl_result =
  res_reg_type :: u8
  res_device_id :: u8
  res_reg_addr :: u16
  res_reg_value :: u16
  is_valid :: bool

definition zero_result :: smart_tou_ctrl_result where
  "zero_result = \<lparr>res_reg_type = 0, res_device_id = 0, res_reg_addr = 0, res_reg_value = 0, is_valid = False\<rparr>"

type_synonym device_reg_cb = "u8 \<Rightarrow> u8 \<Rightarrow> u16 \<Rightarrow> u16 option"

record tou_env =
  alloc :: "nat \<Rightarrow> bool"
  taken :: "nat \<Rightarrow> nat"
  tick :: u32
  tz :: int
  wall :: int
  qsort :: "(u8 \<Rightarrow> u8 \<Rightarrow> int) \<Rightarrow> u8 list \<Rightarrow> u8 list"

record tou_state =
  xQueue :: "smart_tou_ctrl_result list option"
  xMutex :: bool
  tou_cfg :: smart_tou_ctrl_config
  tou_cfg_wr :: "u8 list"
  quanta :: "tou_time_quantum list"
  point_valid_cnt :: u8
  quantum_valid_cnt :: u8
  update_flag :: bool
  write_flag :: bool
  running :: "smart_tou_ctrl_result list"
  pre_tick :: u32
  reg_cb :: "device_reg_cb option"
  check_interval :: u32
  quantum_enable :: bool
  tou_status :: u32
  point_pre_time :: int
  quantum_pre_time :: int
  status_first :: bool
  tou_calls :: nat
  tou_out :: "smart_tou_ctrl_result list"

definition device_reg_cb_set :: "device_reg_cb option \<Rightarrow> u32 \<Rightarrow> tou_state \<Rightarrow> tou_state" where
  "device_reg_cb_set cb ms st = st\<lparr>reg_cb := cb, check_interval := ms\<rparr>"

definition Quantum_Enable_Set :: "bool \<Rightarrow> tou_state \<Rightarrow> tou_state" where
  "Quantum_Enable_Set flag st = st\<lparr>quantum_enable := flag\<rparr>"

definition unit_at :: "tou_state \<Rightarrow> nat \<Rightarrow> smart_tou_unit_config" where
  "unit_at st i = smart_tou_unit (tou_cfg st) ! i"

definition point_sec :: "tou_state \<Rightarrow> nat \<Rightarrow> 17 word" where
  "point_sec st i = time_sec (time_cfg (unit_at st i))"

definition day_valid :: "tou_env \<Rightarrow> tou_state \<Rightarrow> nat \<Rightarrow> bool" where
  "day_valid env st i = tou_day_is_valid (tz env) (wall env) (Some (time_cfg (unit_at st i)))"

text \<open>The first index of a list whose element passes a test.\<close>

fun first_idx :: "('a \<Rightarrow> bool) \<Rightarrow> 'a list \<Rightarrow> nat option" where
  "first_idx P [] = None"
| "first_idx P (x # xs) = (if P x then Some 0 else map_option Suc (first_idx P xs))"

section \<open>The command queue\<close>

definition QUEUE_LEN :: nat where "QUEUE_LEN = 32"

text \<open>One call of \<open>iot_calloc\<close>.\<close>

definition tou_calloc :: "tou_env \<Rightarrow> tou_state \<Rightarrow> bool \<times> tou_state" where
  "tou_calloc env st = (alloc env (tou_calls st), st\<lparr>tou_calls := Suc (tou_calls st)\<rparr>)"

definition queue_send :: "tou_env \<Rightarrow> smart_tou_ctrl_result \<Rightarrow> tou_state \<Rightarrow> bool \<times> tou_state" where
  "queue_send env r st =
     (case xQueue st of None \<Rightarrow> (False, st)
      | Some q \<Rightarrow>
          let k = taken env (tou_calls st); q' = drop k q; st' = st\<lparr>tou_out := tou_out st @ take k q\<rparr>
          in if length q' < QUEUE_LEN then (True, st'\<lparr>xQueue := Some (q' @ [r])\<rparr>)
             else (False, st'\<lparr>xQueue := Some q'\<rparr>))"

text \<open>\<open>Smart_Tou_Ctrl_Command_Get\<close>, without waiting.\<close>

definition Smart_Tou_Ctrl_Command_Get :: "tou_state \<Rightarrow> smart_tou_ctrl_result option \<times> tou_state" where
  "Smart_Tou_Ctrl_Command_Get st =
     (case xQueue st of None \<Rightarrow> (None, st)
      | Some [] \<Rightarrow> (None, st)
      | Some (r # q) \<Rightarrow> (Some r, st\<lparr>xQueue := Some q, tou_out := tou_out st @ [r]\<rparr>))"

text \<open>The consumer: commands for the Modbus registers are carried out, others are dropped.\<close>

definition Smart_Tou_Ctrl_Data_Update ::
  "(u8 \<Rightarrow> u16 \<Rightarrow> u16 \<Rightarrow> 'w \<Rightarrow> 'w) \<Rightarrow> tou_state \<Rightarrow> 'w \<Rightarrow> tou_state \<times> 'w" where
  "Smart_Tou_Ctrl_Data_Update set_reg st w =
     (case Smart_Tou_Ctrl_Command_Get st of
        (None, st') \<Rightarrow> (st', w)
      | (Some r, st') \<Rightarrow>
          (st', if res_reg_type r = 0 then set_reg (res_device_id r) (res_reg_addr r) (res_reg_value r) w else w))"

text \<open>All commands issued so far, taken or waiting.\<close>

definition emitted :: "tou_state \<Rightarrow> smart_tou_ctrl_result list" where
  "emitted st = tou_out st @ (case xQueue st of None \<Rightarrow> [] | Some q \<Rightarrow> q)"

section \<open>Registers kept at a value\<close>

definition same_target :: "smart_tou_ctrl_result \<Rightarrow> smart_tou_ctrl_result \<Rightarrow> bool" where
  "same_target a b \<longleftrightarrow> res_reg_type a = res_reg_type b \<and> res_device_id a = res_device_id b \<and>
     res_reg_addr a = res_reg_addr b"

definition Append_Smart_Tou_TimeCtrl_Status ::
  "tou_env \<Rightarrow> smart_tou_ctrl_result \<Rightarrow> tou_state \<Rightarrow> u8 \<times> tou_state" where
  "Append_Smart_Tou_TimeCtrl_Status env r st =
     (case first_idx (\<lambda>x. is_valid x \<and> same_target x r) (running st) of
        Some i \<Rightarrow>
          (of_nat i, st\<lparr>running := (running st)[i := (running st ! i)\<lparr>res_reg_value := res_reg_value r\<rparr>],
                      pre_tick := tick env\<rparr>)
      | None \<Rightarrow>
          (case first_idx (\<lambda>x. \<not> is_valid x) (running st) of
             Some i \<Rightarrow> (of_nat i, st\<lparr>running := (running st)[i := r\<lparr>is_valid := True\<rparr>], pre_tick := tick env\<rparr>)
           | None \<Rightarrow> (0xFF, st)))"

definition keep_entry :: "tou_env \<Rightarrow> device_reg_cb \<Rightarrow> nat \<Rightarrow> tou_state \<Rightarrow> tou_state" where
  "keep_entry env cb i st =
     (let x = running st ! i in
      if \<not> is_valid x then st
      else case cb (res_reg_type x) (res_device_id x) (res_reg_addr x) of
             None \<Rightarrow> st
           | Some real_value \<Rightarrow>
               if real_value = res_reg_value x then st
               else let (ok, st1) = tou_calloc env st in
                    if \<not> ok then st1 else snd (queue_send env x st1))"

definition Smart_Tou_Handle_Keeping_Control :: "tou_env \<Rightarrow> tou_state \<Rightarrow> tou_state" where
  "Smart_Tou_Handle_Keeping_Control env st =
     (case reg_cb st of None \<Rightarrow> st
      | Some cb \<Rightarrow>
          if check_interval st = 0 then st
          else if pre_tick st \<noteq> 0 \<and> sint (tick env - pre_tick st) < sint (check_interval st) then st
          else let st1 = st\<lparr>pre_tick := tick env\<rparr> in
               if xQueue st1 = None then st1
               else fold (keep_entry env cb) [0..<SMART_TOU_UNIT_MAX_CNT] st1)"

section \<open>Actions of points and periods\<close>

definition point_result :: "tou_state \<Rightarrow> nat \<Rightarrow> smart_tou_ctrl_result" where
  "point_result st i =
     (let u = unit_at st i in
      \<lparr>res_reg_type = ucast (reg_type (time_cfg u)), res_device_id = device_id (time_cfg u),
       res_reg_addr = reg_addr (reg_cfg u), res_reg_value = reg_value (reg_cfg u), is_valid = True\<rparr>)"

definition Smart_Tou_Enqueue_Result_ByIndex :: "tou_env \<Rightarrow> int \<Rightarrow> tou_state \<Rightarrow> int \<times> tou_state" where
  "Smart_Tou_Enqueue_Result_ByIndex env index st =
     (if index < 0 \<or> index \<ge> int SMART_TOU_UNIT_MAX_CNT then (-1, st)
      else let (ok, st1) = tou_calloc env st in
        if \<not> ok then (-1, st1)
        else let i = nat index; r = point_result st1 i;
                 st2 = (if time_type (time_cfg (unit_at st1 i)) = TOU_TIME_TYPE_QUANTUM
                        then snd (Append_Smart_Tou_TimeCtrl_Status env r st1) else st1);
                 (sent, st3) = queue_send env r st2
             in (if sent then 0 else -1, st3))"

text \<open>Clearing an entry of the period table ends an active period with the end value stored in it.\<close>

definition end_result :: "tou_time_quantum \<Rightarrow> smart_tou_ctrl_result" where
  "end_result e = zero_result\<lparr>res_reg_type := ctrl_reg_type (ctrl e), res_device_id := ctrl_device_id (ctrl e),
     res_reg_addr := ctrl_reg_addr (ctrl e), res_reg_value := end_value (ctrl e)\<rparr>"

definition clear_time_quantum_entry :: "tou_env \<Rightarrow> nat \<Rightarrow> tou_state \<Rightarrow> tou_state" where
  "clear_time_quantum_entry env index st =
     (if index \<ge> SMART_TOU_QUANTUM_MAX_CNT then st
      else let e = quanta st ! index;
               st' = (if status e = TOU_PERIOD_STATUS_ACTIVE
                      then let (ok, st1) = tou_calloc env st in
                           if \<not> ok then st1
                           else snd (queue_send env (end_result e)
                                  (snd (Append_Smart_Tou_TimeCtrl_Status env (end_result e) st1)))
                      else st)
           in st'\<lparr>quanta := (quanta st')[index := zero_quantum]\<rparr>)"

definition entry_matches :: "u8 \<Rightarrow> u8 \<Rightarrow> tou_time_quantum \<Rightarrow> bool" where
  "entry_matches start_idx end_idx e \<longleftrightarrow> start_time_index e = start_idx \<and> end_time_index e = end_idx"

definition clear_matching_time_quantum_entries :: "tou_env \<Rightarrow> u8 \<Rightarrow> u8 \<Rightarrow> tou_state \<Rightarrow> tou_state" where
  "clear_matching_time_quantum_entries env start_idx end_idx st =
     (case first_idx (entry_matches start_idx end_idx) (quanta st) of
        None \<Rightarrow> st
      | Some gq \<Rightarrow> clear_time_quantum_entry env gq st)"


section \<open>Searches\<close>

lemma first_idx_SomeD: "first_idx P xs = Some i \<Longrightarrow> i < length xs \<and> P (xs ! i) \<and> (\<forall>j < i. \<not> P (xs ! j))"
  by (induction xs arbitrary: i) (auto split: if_splits simp: less_Suc_eq_0_disj)

lemma first_idx_None_iff: "first_idx P xs = None \<longleftrightarrow> (\<forall>x \<in> set xs. \<not> P x)"
  by (induction xs) auto

lemma first_idx_eqI: "i < length xs \<Longrightarrow> P (xs ! i) \<Longrightarrow> (\<And>j. j < i \<Longrightarrow> \<not> P (xs ! j)) \<Longrightarrow> first_idx P xs = Some i"
proof (induction xs arbitrary: i)
  case (Cons x xs)
  show ?case
  proof (cases i)
    case 0
    then show ?thesis using Cons.prems by simp
  next
    case (Suc k)
    then have "first_idx P xs = Some k"
      using Cons.prems(1,2) Cons.prems(3)[of "Suc j" for j] by (intro Cons.IH) auto
    then show ?thesis using Suc Cons.prems(3)[of 0] by simp
  qed
qed simp

section \<open>What the actions leave alone\<close>

text \<open>Issuing commands touches the queue, the kept registers and the tick; \<open>core\<close> is the rest.\<close>

definition core :: "tou_state \<Rightarrow> tou_state" where
  "core st = st\<lparr>xQueue := None, tou_out := [], tou_calls := 0, running := [], pre_tick := 0\<rparr>"

lemma core_fields:
  assumes "core a = core b"
  shows "xMutex a = xMutex b" "tou_cfg a = tou_cfg b" "tou_cfg_wr a = tou_cfg_wr b" "quanta a = quanta b"
    "point_valid_cnt a = point_valid_cnt b" "quantum_valid_cnt a = quantum_valid_cnt b"
    "update_flag a = update_flag b" "write_flag a = write_flag b" "reg_cb a = reg_cb b"
    "check_interval a = check_interval b" "quantum_enable a = quantum_enable b" "tou_status a = tou_status b"
    "point_pre_time a = point_pre_time b" "quantum_pre_time a = quantum_pre_time b"
    "status_first a = status_first b"
proof -
  have f: "f (core a) = f (core b)" for f :: "tou_state \<Rightarrow> 'z" by (simp add: assms)
  show "xMutex a = xMutex b" using f[of xMutex] by (simp add: core_def)
  show "tou_cfg a = tou_cfg b" using f[of tou_cfg] by (simp add: core_def)
  show "tou_cfg_wr a = tou_cfg_wr b" using f[of tou_cfg_wr] by (simp add: core_def)
  show "quanta a = quanta b" using f[of quanta] by (simp add: core_def)
  show "point_valid_cnt a = point_valid_cnt b" using f[of point_valid_cnt] by (simp add: core_def)
  show "quantum_valid_cnt a = quantum_valid_cnt b" using f[of quantum_valid_cnt] by (simp add: core_def)
  show "update_flag a = update_flag b" using f[of update_flag] by (simp add: core_def)
  show "write_flag a = write_flag b" using f[of write_flag] by (simp add: core_def)
  show "reg_cb a = reg_cb b" using f[of reg_cb] by (simp add: core_def)
  show "check_interval a = check_interval b" using f[of check_interval] by (simp add: core_def)
  show "quantum_enable a = quantum_enable b" using f[of quantum_enable] by (simp add: core_def)
  show "tou_status a = tou_status b" using f[of tou_status] by (simp add: core_def)
  show "point_pre_time a = point_pre_time b" using f[of point_pre_time] by (simp add: core_def)
  show "quantum_pre_time a = quantum_pre_time b" using f[of quantum_pre_time] by (simp add: core_def)
  show "status_first a = status_first b" using f[of status_first] by (simp add: core_def)
qed


lemma core_calloc [simp]: "core (snd (tou_calloc env st)) = core st"
  by (simp add: tou_calloc_def core_def)

lemma core_send [simp]: "core (snd (queue_send env r st)) = core st"
  by (simp add: queue_send_def core_def Let_def split: option.split)

lemma core_append [simp]: "core (snd (Append_Smart_Tou_TimeCtrl_Status env r st)) = core st"
  by (simp add: Append_Smart_Tou_TimeCtrl_Status_def core_def split: option.split)

lemma core_keep_entry: "core (keep_entry env cb i st) = core st"
  by (simp add: keep_entry_def Let_def case_prod_beta split: option.split)

lemma core_fold: "(\<And>x s. core (f x s) = core s) \<Longrightarrow> core (fold f xs s) = core s"
  by (induction xs arbitrary: s) simp_all

lemma core_keeping: "core (Smart_Tou_Handle_Keeping_Control env st) = core st"
proof -
  have "core (st\<lparr>pre_tick := t\<rparr>) = core st" for t by (simp add: core_def)
  then show ?thesis
    by (simp add: Smart_Tou_Handle_Keeping_Control_def Let_def core_fold core_keep_entry split: option.split)
qed

lemma core_enqueue [simp]: "core (snd (Smart_Tou_Enqueue_Result_ByIndex env i st)) = core st"
  by (simp add: Smart_Tou_Enqueue_Result_ByIndex_def Let_def case_prod_beta)

text \<open>Clearing an entry changes the period table as well.\<close>

lemma clear_entry_core:
  "core (clear_time_quantum_entry env i st) =
   core (if i < SMART_TOU_QUANTUM_MAX_CNT then st\<lparr>quanta := (quanta st)[i := zero_quantum]\<rparr> else st)"
proof -
  define e where "e = quanta st ! i"
  define s where "s = (if status e = TOU_PERIOD_STATUS_ACTIVE
      then let (ok, st1) = tou_calloc env st in
           if \<not> ok then st1
           else snd (queue_send env (end_result e) (snd (Append_Smart_Tou_TimeCtrl_Status env (end_result e) st1)))
      else st)"
  have "core s = core st"
    by (simp add: s_def Let_def case_prod_beta)
  moreover have "core (s\<lparr>quanta := (quanta s)[i := zero_quantum]\<rparr>) =
      (core s)\<lparr>quanta := (quanta (core s))[i := zero_quantum]\<rparr>" by (simp add: core_def)
  moreover have "core (st\<lparr>quanta := (quanta st)[i := zero_quantum]\<rparr>) =
      (core st)\<lparr>quanta := (quanta (core st))[i := zero_quantum]\<rparr>" by (simp add: core_def)
  ultimately show ?thesis
    by (simp add: clear_time_quantum_entry_def Let_def e_def[symmetric] s_def[symmetric])
qed

section \<open>The queue delivers in order\<close>

definition queue_ok :: "tou_state \<Rightarrow> bool" where
  "queue_ok st \<longleftrightarrow> (\<exists>q. xQueue st = Some q \<and> length q \<le> QUEUE_LEN)"

text \<open>A prompt outside: memory is there, and the consumer keeps pace.\<close>

definition prompt :: "tou_env \<Rightarrow> bool" where
  "prompt env \<longleftrightarrow> (\<forall>n. alloc env n) \<and> (\<forall>n. 0 < taken env n)"

lemma queue_send_prompt:
  assumes "prompt env" "queue_ok st"
  obtains st' where "queue_send env r st = (True, st')" "emitted st' = emitted st @ [r]" "queue_ok st'"
    "running st' = running st" "core st' = core st"
proof -
  obtain q where q: "xQueue st = Some q" "length q \<le> QUEUE_LEN" using assms(2) by (auto simp: queue_ok_def)
  define k where "k = taken env (tou_calls st)"
  have "length (drop k q) < QUEUE_LEN"
  proof -
    have "0 < k" using assms(1) by (simp add: k_def prompt_def)
    then show ?thesis using q(2) by (simp add: QUEUE_LEN_def)
  qed
  with q show ?thesis
    by (intro that[of "st\<lparr>tou_out := tou_out st @ take k q, xQueue := Some (drop k q @ [r])\<rparr>"])
       (simp_all add: queue_send_def Let_def k_def emitted_def queue_ok_def core_def)
qed

lemma queue_send_None: "xQueue st = None \<Longrightarrow> queue_send env r st = (False, st)"
  by (simp add: queue_send_def)

text \<open>What was issued is never lost or reordered: a send appends the command or nothing.\<close>

lemma emitted_send:
  "emitted (snd (queue_send env r st)) = emitted st @ (if fst (queue_send env r st) then [r] else [])"
  by (simp add: queue_send_def emitted_def Let_def split: option.split)

lemma emitted_get: "emitted (snd (Smart_Tou_Ctrl_Command_Get st)) = emitted st"
  by (simp add: Smart_Tou_Ctrl_Command_Get_def emitted_def split: option.split list.split)

lemma emitted_calloc [simp]: "emitted (snd (tou_calloc env st)) = emitted st"
  by (simp add: tou_calloc_def emitted_def)

lemma emitted_append [simp]: "emitted (snd (Append_Smart_Tou_TimeCtrl_Status env r st)) = emitted st"
  by (simp add: Append_Smart_Tou_TimeCtrl_Status_def emitted_def split: option.split)

section \<open>The kept registers as a map\<close>

definition target :: "smart_tou_ctrl_result \<Rightarrow> u8 \<times> u8 \<times> u16" where
  "target r = (res_reg_type r, res_device_id r, res_reg_addr r)"

lemma same_target_iff: "same_target a b \<longleftrightarrow> target a = target b"
  by (auto simp: same_target_def target_def)

definition kept :: "tou_state \<Rightarrow> u8 \<times> u8 \<times> u16 \<Rightarrow> u16 option" where
  "kept st t = map_option (\<lambda>i. res_reg_value (running st ! i))
     (first_idx (\<lambda>x. is_valid x \<and> target x = t) (running st))"

definition running_ok :: "tou_state \<Rightarrow> bool" where
  "running_ok st \<longleftrightarrow> length (running st) = SMART_TOU_UNIT_MAX_CNT \<and>
     (\<forall>i < SMART_TOU_UNIT_MAX_CNT. \<forall>j < SMART_TOU_UNIT_MAX_CNT.
        is_valid (running st ! i) \<and> is_valid (running st ! j) \<and>
        target (running st ! i) = target (running st ! j) \<longrightarrow> i = j)"

lemma kept_Some_iff:
  assumes "running_ok st"
  shows "kept st t = Some v \<longleftrightarrow> (\<exists>i < SMART_TOU_UNIT_MAX_CNT. is_valid (running st ! i) \<and>
    target (running st ! i) = t \<and> res_reg_value (running st ! i) = v)"
proof
  assume "kept st t = Some v"
  then show "\<exists>i < SMART_TOU_UNIT_MAX_CNT. is_valid (running st ! i) \<and>
      target (running st ! i) = t \<and> res_reg_value (running st ! i) = v"
    using assms by (fastforce simp: kept_def running_ok_def dest: first_idx_SomeD)
next
  assume "\<exists>i < SMART_TOU_UNIT_MAX_CNT. is_valid (running st ! i) \<and>
      target (running st ! i) = t \<and> res_reg_value (running st ! i) = v"
  then obtain i where i: "i < SMART_TOU_UNIT_MAX_CNT" "is_valid (running st ! i)"
      "target (running st ! i) = t" "res_reg_value (running st ! i) = v" by blast
  have "first_idx (\<lambda>x. is_valid x \<and> target x = t) (running st) = Some i"
  proof (rule first_idx_eqI)
    fix j assume "j < i"
    then show "\<not> (is_valid (running st ! j) \<and> target (running st ! j) = t)"
      using i assms unfolding running_ok_def by (metis less_trans nat_neq_iff)
  qed (use i assms in \<open>auto simp: running_ok_def\<close>)
  then show "kept st t = Some v" using i by (simp add: kept_def)
qed

lemma kept_eqI:
  assumes "running_ok st" "\<And>t v. m t = Some v \<longleftrightarrow> (\<exists>i < SMART_TOU_UNIT_MAX_CNT. is_valid (running st ! i) \<and>
    target (running st ! i) = t \<and> res_reg_value (running st ! i) = v)"
  shows "kept st = m"
proof
  fix t
  have "kept st t = Some v \<longleftrightarrow> m t = Some v" for v
    unfolding kept_Some_iff[OF assms(1)] assms(2) ..
  then show "kept st t = m t" by (metis not_Some_eq)
qed


lemma running_upd:
  assumes ok: "running_ok st" and i: "i < SMART_TOU_UNIT_MAX_CNT" and y: "is_valid y"
    and other: "\<And>j. j < SMART_TOU_UNIT_MAX_CNT \<Longrightarrow> j \<noteq> i \<Longrightarrow> is_valid (running st ! j) \<Longrightarrow>
      target (running st ! j) \<noteq> target y"
    and same: "is_valid (running st ! i) \<Longrightarrow> target (running st ! i) = target y"
    and st': "running st' = (running st)[i := y]"
  shows "running_ok st'" "kept st' = (kept st)(target y \<mapsto> res_reg_value y)"
proof -
  have len: "length (running st) = SMART_TOU_UNIT_MAX_CNT" using ok by (simp add: running_ok_def)
  have at: "running st' ! j = (if j = i then y else running st ! j)" if "j < SMART_TOU_UNIT_MAX_CNT" for j
    using that i len by (simp add: st')
  show ok': "running_ok st'"
    unfolding running_ok_def
  proof (intro conjI allI impI, goal_cases)
    case 1
    then show ?case using len st' by simp
  next
    case (2 a b)
    then show ?case using other ok at[of a] at[of b] unfolding running_ok_def
      by (cases "a = i"; cases "b = i") (metis (full_types))+
  qed
  show "kept st' = (kept st)(target y \<mapsto> res_reg_value y)"
  proof (rule kept_eqI[OF ok'])
    fix t v
    show "((kept st)(target y \<mapsto> res_reg_value y)) t = Some v \<longleftrightarrow>
      (\<exists>j < SMART_TOU_UNIT_MAX_CNT. is_valid (running st' ! j) \<and> target (running st' ! j) = t \<and>
         res_reg_value (running st' ! j) = v)"
    proof (cases "t = target y")
      case True
      then show ?thesis using i y other at by (metis fun_upd_same option.inject)
    next
      case False
      then show ?thesis using kept_Some_iff[OF ok, of t v] same at by (metis fun_upd_other)
    qed
  qed
qed

lemma append_kept:
  assumes ok: "running_ok st" and app: "Append_Smart_Tou_TimeCtrl_Status env r st = (k, st')"
  shows "running_ok st'"
    and "k \<noteq> 0xFF \<Longrightarrow> kept st' = (kept st)(target r \<mapsto> res_reg_value r)"
    and "k = 0xFF \<Longrightarrow> st' = st \<and> target r \<notin> dom (kept st) \<and> (\<forall>x \<in> set (running st). is_valid x)"
proof -
  let ?n = SMART_TOU_UNIT_MAX_CNT
  let ?P = "\<lambda>x. is_valid x \<and> same_target x r"
  have len: "length (running st) = ?n" using ok by (simp add: running_ok_def)
  have small: "(of_nat i :: u8) \<noteq> 0xFF" if "i < ?n" for i
  proof
    assume "(of_nat i :: u8) = 0xFF"
    then have "unat (of_nat i :: u8) = 255" by simp
    then show False using that by (simp add: unat_of_nat SMART_TOU_UNIT_MAX_CNT_def)
  qed
  consider (found) i where "first_idx ?P (running st) = Some i"
    | (free) i where "first_idx ?P (running st) = None" "first_idx (\<lambda>x. \<not> is_valid x) (running st) = Some i"
    | (full) "first_idx ?P (running st) = None" "first_idx (\<lambda>x. \<not> is_valid x) (running st) = None"
    by (metis not_Some_eq)
  then have "running_ok st' \<and> (k \<noteq> 0xFF \<longrightarrow> kept st' = (kept st)(target r \<mapsto> res_reg_value r)) \<and>
    (k = 0xFF \<longrightarrow> st' = st \<and> target r \<notin> dom (kept st) \<and> (\<forall>x \<in> set (running st). is_valid x))"
  proof cases
    case found
    note f = first_idx_SomeD[OF found]
    define y where "y = (running st ! i)\<lparr>res_reg_value := res_reg_value r\<rparr>"
    have y: "is_valid y" "target y = target r" "res_reg_value y = res_reg_value r"
      using f by (simp_all add: y_def target_def same_target_def)
    have st': "running st' = (running st)[i := y]" "k = of_nat i"
      using app found by (auto simp: Append_Smart_Tou_TimeCtrl_Status_def y_def)
    have i: "i < ?n" using f len by simp
    have other: "target (running st ! j) \<noteq> target y" if "j < ?n" "j \<noteq> i" "is_valid (running st ! j)" for j
      using that ok f i unfolding running_ok_def y(2) same_target_iff by metis
    have "target (running st ! i) = target y" using f y by (simp add: same_target_iff)
    note running_upd[OF ok i y(1) other this st'(1)]
    then show ?thesis using small[OF i] st'(2) y by simp
  next
    case free
    note f = first_idx_SomeD[OF free(2)]
    define y where "y = r\<lparr>is_valid := True\<rparr>"
    have y: "is_valid y" "target y = target r" "res_reg_value y = res_reg_value r"
      by (simp_all add: y_def target_def)
    have st': "running st' = (running st)[i := y]" "k = of_nat i"
      using app free by (auto simp: Append_Smart_Tou_TimeCtrl_Status_def y_def)
    have i: "i < ?n" using f len by simp
    have other: "target (running st ! j) \<noteq> target y" if "j < ?n" "j \<noteq> i" "is_valid (running st ! j)" for j
      using that free(1) len unfolding first_idx_None_iff same_target_iff y(2) by (metis nth_mem)
    have "target (running st ! i) = target y" if "is_valid (running st ! i)" using that f by simp
    note running_upd[OF ok i y(1) other this st'(1)]
    then show ?thesis using small[OF i] st'(2) y by simp
  next
    case full
    then have "st' = st" "k = 0xFF" using app by (simp_all add: Append_Smart_Tou_TimeCtrl_Status_def)
    moreover have "target r \<notin> dom (kept st)"
      using full(1) unfolding domIff kept_def first_idx_None_iff same_target_iff
      by (simp add: first_idx_None_iff)
    ultimately show ?thesis using full(2) ok by (simp add: first_idx_None_iff)
  qed
  then show "running_ok st'"
    and "k \<noteq> 0xFF \<Longrightarrow> kept st' = (kept st)(target r \<mapsto> res_reg_value r)"
    and "k = 0xFF \<Longrightarrow> st' = st \<and> target r \<notin> dom (kept st) \<and> (\<forall>x \<in> set (running st). is_valid x)"
    by blast+
qed


section \<open>Actions with a prompt outside\<close>

lemma append_frame:
  "queue_ok (snd (Append_Smart_Tou_TimeCtrl_Status env r st)) = queue_ok st"
  "unit_at (snd (Append_Smart_Tou_TimeCtrl_Status env r st)) = unit_at st"
  by (auto simp: Append_Smart_Tou_TimeCtrl_Status_def queue_ok_def unit_at_def split: option.split)

lemma calloc_frame:
  "queue_ok (snd (tou_calloc env st)) = queue_ok st"
  "running (snd (tou_calloc env st)) = running st"
  "point_result (snd (tou_calloc env st)) = point_result st"
  "unit_at (snd (tou_calloc env st)) = unit_at st"
  "prompt env \<Longrightarrow> fst (tou_calloc env st)"
  by (auto simp: tou_calloc_def queue_ok_def point_result_def unit_at_def prompt_def Let_def fun_eq_iff)

definition is_quantum_point :: "tou_state \<Rightarrow> nat \<Rightarrow> bool" where
  "is_quantum_point st i \<longleftrightarrow> time_type (time_cfg (unit_at st i)) = TOU_TIME_TYPE_QUANTUM"

lemma enqueue_prompt:
  assumes "prompt env" "queue_ok st" "i < SMART_TOU_UNIT_MAX_CNT"
  shows "fst (Smart_Tou_Enqueue_Result_ByIndex env (int i) st) = 0"
    and "emitted (snd (Smart_Tou_Enqueue_Result_ByIndex env (int i) st)) = emitted st @ [point_result st i]"
    and "queue_ok (snd (Smart_Tou_Enqueue_Result_ByIndex env (int i) st))"
proof -
  define st1 where "st1 = snd (tou_calloc env st)"
  define st2 where "st2 = (if is_quantum_point st i
    then snd (Append_Smart_Tou_TimeCtrl_Status env (point_result st i) st1) else st1)"
  have q: "queue_ok st2" using assms(2) by (simp add: st2_def st1_def append_frame calloc_frame)
  have e: "emitted st2 = emitted st" by (simp add: st2_def st1_def)
  have "Smart_Tou_Enqueue_Result_ByIndex env (int i) st =
      (if fst (queue_send env (point_result st i) st2) then 0 else -1, snd (queue_send env (point_result st i) st2))"
    using assms(1,3) calloc_frame(5)[OF assms(1), of st]
    by (simp add: Smart_Tou_Enqueue_Result_ByIndex_def Let_def case_prod_beta st2_def st1_def calloc_frame
        is_quantum_point_def)
  moreover obtain st' where "queue_send env (point_result st i) st2 = (True, st')"
      "emitted st' = emitted st2 @ [point_result st i]" "queue_ok st'"
    using queue_send_prompt[OF assms(1) q] by metis
  ultimately show "fst (Smart_Tou_Enqueue_Result_ByIndex env (int i) st) = 0"
    and "emitted (snd (Smart_Tou_Enqueue_Result_ByIndex env (int i) st)) = emitted st @ [point_result st i]"
    and "queue_ok (snd (Smart_Tou_Enqueue_Result_ByIndex env (int i) st))"
    using e by simp_all
qed

lemma enqueue_running:
  assumes "running_ok st" "alloc env (tou_calls st)" "i < SMART_TOU_UNIT_MAX_CNT"
  obtains k st2 where "Append_Smart_Tou_TimeCtrl_Status env (point_result st i) (snd (tou_calloc env st)) = (k, st2)"
    "running (snd (Smart_Tou_Enqueue_Result_ByIndex env (int i) st)) = (if is_quantum_point st i then running st2 else running st)"
proof -
  obtain k st2 where a: "Append_Smart_Tou_TimeCtrl_Status env (point_result st i) (snd (tou_calloc env st)) = (k, st2)"
    by fastforce
  have r: "running (snd (queue_send env r s)) = running s" for r s
    by (simp add: queue_send_def Let_def split: option.split)
  have "fst (tou_calloc env st)" using assms(2) by (simp add: tou_calloc_def)
  with a assms(3) have "running (snd (Smart_Tou_Enqueue_Result_ByIndex env (int i) st)) =
      (if is_quantum_point st i then running st2 else running st)"
    by (simp add: Smart_Tou_Enqueue_Result_ByIndex_def Let_def case_prod_beta calloc_frame is_quantum_point_def r)
  with a show ?thesis by (rule that)
qed

lemma running_ok_frame: "running s = running t \<Longrightarrow> running_ok s = running_ok t"
  "running s = running t \<Longrightarrow> kept s = kept t"
  by (simp_all add: running_ok_def kept_def fun_eq_iff)

lemma running_send [simp]: "running (snd (queue_send env r s)) = running s"
  by (simp add: queue_send_def Let_def split: option.split)

lemma running_ok_append: "running_ok st \<Longrightarrow> running_ok (snd (Append_Smart_Tou_TimeCtrl_Status env r st))"
  using append_kept(1)[of st env r] by (metis prod.collapse)

lemma running_ok_send: "running_ok (snd (queue_send env r st)) = running_ok st"
  by (rule running_ok_frame) simp

lemma running_ok_calloc: "running_ok (snd (tou_calloc env st)) = running_ok st"
  by (rule running_ok_frame) (simp add: calloc_frame)

text \<open>Every issued command of a period that finds a place is remembered as the value to keep.\<close>

lemma enqueue_kept:
  assumes "running_ok st" "alloc env (tou_calls st)" "i < SMART_TOU_UNIT_MAX_CNT" "is_quantum_point st i"
    and room: "target (point_result st i) \<in> dom (kept st) \<or> (\<exists>x \<in> set (running st). \<not> is_valid x)"
  defines "st' \<equiv> snd (Smart_Tou_Enqueue_Result_ByIndex env (int i) st)"
  shows "kept st' = (kept st)(target (point_result st i) \<mapsto> res_reg_value (point_result st i))"
proof -
  let ?c = "snd (tou_calloc env st)"
  obtain k st2 where a: "Append_Smart_Tou_TimeCtrl_Status env (point_result st i) ?c = (k, st2)"
    and r: "running st' = running st2"
    using enqueue_running[OF assms(1-3)] assms(4) unfolding st'_def by metis
  have c: "running_ok ?c" "kept ?c = kept st"
    using assms(1) running_ok_calloc running_ok_frame(2)[of ?c st] by (auto simp: calloc_frame)
  have "k \<noteq> 0xFF" using append_kept(3)[OF c(1) a] room c(2) by (auto simp: calloc_frame)
  then have "kept st2 = (kept st)(target (point_result st i) \<mapsto> res_reg_value (point_result st i))"
    using append_kept(2)[OF c(1) a] c(2) by simp
  then show ?thesis using running_ok_frame(2)[OF r] by simp
qed

lemma enqueue_running_ok:
  assumes "running_ok st"
  shows "running_ok (snd (Smart_Tou_Enqueue_Result_ByIndex env i st))"
  using assms by (simp add: Smart_Tou_Enqueue_Result_ByIndex_def Let_def case_prod_beta running_ok_send
      running_ok_calloc running_ok_append)

lemma clear_entry_running_ok:
  assumes "running_ok st"
  shows "running_ok (clear_time_quantum_entry env i st)"
proof -
  have "running_ok (s\<lparr>quanta := q\<rparr>) = running_ok s" for s q by (rule running_ok_frame) simp
  then show ?thesis using assms
    by (simp add: clear_time_quantum_entry_def Let_def case_prod_beta running_ok_send running_ok_calloc
        running_ok_append)
qed

section \<open>The periodic check\<close>

definition deviates :: "device_reg_cb \<Rightarrow> smart_tou_ctrl_result \<Rightarrow> bool" where
  "deviates cb x \<longleftrightarrow> is_valid x \<and>
     (\<exists>v. cb (res_reg_type x) (res_device_id x) (res_reg_addr x) = Some v \<and> v \<noteq> res_reg_value x)"

definition keeping_due :: "tou_env \<Rightarrow> tou_state \<Rightarrow> bool" where
  "keeping_due env st \<longleftrightarrow> check_interval st \<noteq> 0 \<and>
     (pre_tick st = 0 \<or> sint (check_interval st) \<le> sint (tick env - pre_tick st))"

lemma keep_entry_prompt:
  assumes "prompt env" "queue_ok st"
  shows "emitted (keep_entry env cb i st) = emitted st @ filter (deviates cb) [running st ! i]"
    "queue_ok (keep_entry env cb i st)" "running (keep_entry env cb i st) = running st"
proof -
  let ?x = "running st ! i" and ?c = "snd (tou_calloc env st)"
  have c: "queue_ok ?c" "emitted ?c = emitted st" "running ?c = running st" "fst (tou_calloc env st)"
    using assms by (simp_all add: calloc_frame)
  obtain st' where s: "queue_send env ?x ?c = (True, st')" "emitted st' = emitted st @ [?x]" "queue_ok st'"
      "running st' = running st"
    using queue_send_prompt[OF assms(1) c(1)] c(2,3) by metis
  have "keep_entry env cb i st = (if deviates cb ?x then st' else st)"
    using c(4) s(1) by (auto simp: keep_entry_def Let_def case_prod_beta deviates_def split: option.split)
  then show "emitted (keep_entry env cb i st) = emitted st @ filter (deviates cb) [running st ! i]"
    "queue_ok (keep_entry env cb i st)" "running (keep_entry env cb i st) = running st"
    using s assms(2) by simp_all
qed

lemma keep_loop_prompt:
  assumes "prompt env" "queue_ok st"
  shows "emitted (fold (keep_entry env cb) js st) = emitted st @ filter (deviates cb) (map ((!) (running st)) js)
    \<and> queue_ok (fold (keep_entry env cb) js st) \<and> running (fold (keep_entry env cb) js st) = running st"
  using assms(2)
proof (induction js arbitrary: st)
  case (Cons j js)
  then show ?case using keep_entry_prompt[OF assms(1), of st cb j] by simp
qed simp

lemma keeping_exact:
  assumes "prompt env" "queue_ok st" "running_ok st" "reg_cb st = Some cb"
  defines "st' \<equiv> Smart_Tou_Handle_Keeping_Control env st"
  shows "emitted st' = emitted st @ (if keeping_due env st then filter (deviates cb) (running st) else [])"
    and "running st' = running st" "queue_ok st'" "keeping_due env st \<Longrightarrow> pre_tick st' = tick env"
proof -
  let ?s = "st\<lparr>pre_tick := tick env\<rparr>"
  have q: "queue_ok ?s" "emitted ?s = emitted st" "running ?s = running st" "xQueue ?s \<noteq> None"
    using assms(2) by (auto simp: queue_ok_def emitted_def)
  have all: "map ((!) (running st)) [0..<SMART_TOU_UNIT_MAX_CNT] = running st"
    using assms(3) map_nth[of "running st"] by (simp add: running_ok_def)
  have st': "st' = (if keeping_due env st then fold (keep_entry env cb) [0..<SMART_TOU_UNIT_MAX_CNT] ?s else st)"
    using q(4) assms(4) unfolding st'_def
    by (auto simp: Smart_Tou_Handle_Keeping_Control_def Let_def keeping_due_def)
  have tk: "pre_tick (keep_entry env cb i s) = pre_tick s" for i s
    by (simp add: keep_entry_def Let_def case_prod_beta tou_calloc_def queue_send_def split: option.split)
  have "pre_tick (fold (keep_entry env cb) js s) = pre_tick s" for js s
    by (induction js arbitrary: s) (simp_all add: tk)
  then show "keeping_due env st \<Longrightarrow> pre_tick st' = tick env" by (simp add: st')
  show "emitted st' = emitted st @ (if keeping_due env st then filter (deviates cb) (running st) else [])"
    "running st' = running st" "queue_ok st'"
    using keep_loop_prompt[OF assms(1) q(1), of cb "[0..<SMART_TOU_UNIT_MAX_CNT]"] q(2,3) all assms(2) by (simp_all add: st')
qed

end
