(* ===== verification/Tou_Quantum.thy ===== *)
theory Tou_Quantum
  imports Tou_Ctrl
begin

text \<open>
  The table of daily periods, \<open>smart_ctrl/smart_tou_ctrl_v1.c\<close>: the points of period type are
  sorted by their second of the day and paired, each start with the next point for the same
  register; the table is built anew at a day change and updated when the configuration was
  written.  The module's static table and configuration are fields of \<open>tou_state\<close>; the local
  arrays of indices are lists.
\<close>

section \<open>Collecting and sorting points\<close>

definition compare_idx_by_time :: "tou_state \<Rightarrow> u8 \<Rightarrow> u8 \<Rightarrow> int" where
  "compare_idx_by_time st a b =
     (let ta = point_sec st (unat a); tb = point_sec st (unat b)
      in if ta < tb then -1 else if ta > tb then 1 else 0)"

definition tou_units_compatible :: "tou_state \<Rightarrow> u8 \<Rightarrow> u8 \<Rightarrow> bool" where
  "tou_units_compatible st a b \<longleftrightarrow>
     \<not> (unat a \<ge> SMART_TOU_UNIT_MAX_CNT \<or> unat b \<ge> SMART_TOU_UNIT_MAX_CNT) \<and>
     reg_type (time_cfg (unit_at st (unat a))) = reg_type (time_cfg (unit_at st (unat b))) \<and>
     device_id (time_cfg (unit_at st (unat a))) = device_id (time_cfg (unit_at st (unat b))) \<and>
     reg_addr (reg_cfg (unit_at st (unat a))) = reg_addr (reg_cfg (unit_at st (unat b)))"

definition quantum_point :: "tou_state \<Rightarrow> nat \<Rightarrow> bool" where
  "quantum_point st i \<longleftrightarrow> is_quantum_point st i \<and> \<not> tou_time_cfg_invalid (Some (time_cfg (unit_at st i)))"

definition collect_quantum_idx :: "tou_state \<Rightarrow> u8 list" where
  "collect_quantum_idx st = map of_nat (filter (quantum_point st)
     [0..<min (unat (time_num (smart_tou_info (tou_cfg st)))) SMART_TOU_UNIT_MAX_CNT])"

definition mark_entry :: "tou_time_quantum \<Rightarrow> bool list \<Rightarrow> bool list" where
  "mark_entry e used =
     (if status e = TOU_PERIOD_STATUS_UNCONFIGURED then used
      else let si = start_time_index e; ei = end_time_index e;
               used1 = (if unat si < SMART_TOU_UNIT_MAX_CNT then used[unat si := True] else used)
           in if ei \<noteq> 0xFF \<and> unat ei < SMART_TOU_UNIT_MAX_CNT then used1[unat ei := True] else used1)"

definition mark_used_timepoint_indices :: "tou_time_quantum list \<Rightarrow> bool list" where
  "mark_used_timepoint_indices cfg = fold mark_entry cfg (replicate SMART_TOU_UNIT_MAX_CNT False)"

definition collect_new_timepoint_indices :: "u8 list \<Rightarrow> bool list \<Rightarrow> u8 list" where
  "collect_new_timepoint_indices idx_list used_map =
     filter (\<lambda>i. \<not> unat i \<ge> SMART_TOU_UNIT_MAX_CNT \<and> \<not> used_map ! unat i) idx_list"

section \<open>Pairing into free entries\<close>

definition find_end :: "tou_env \<Rightarrow> tou_state \<Rightarrow> u8 list \<Rightarrow> bool list \<Rightarrow> nat \<Rightarrow> nat option" where
  "find_end env st idx_list used_pos pi =
     find (\<lambda>pj. \<not> used_pos ! pj \<and> unat (idx_list ! pj) < SMART_TOU_UNIT_MAX_CNT \<and>
                tou_units_compatible st (idx_list ! pi) (idx_list ! pj) \<and>
                day_valid env st (unat (idx_list ! pj))) [Suc pi..<length idx_list]"

definition free_slot :: "tou_state \<Rightarrow> nat \<Rightarrow> nat option" where
  "free_slot st next_slot =
     find (\<lambda>s. status (quanta st ! s) = TOU_PERIOD_STATUS_UNCONFIGURED)
       (map (\<lambda>off. (next_slot + off) mod SMART_TOU_QUANTUM_MAX_CNT) [0..<SMART_TOU_QUANTUM_MAX_CNT])"

definition period_entry :: "tou_state \<Rightarrow> u8 \<Rightarrow> u8 option \<Rightarrow> tou_time_quantum" where
  "period_entry st start_idx end_idx =
     (let u = unit_at st (unat start_idx);
          c = \<lparr>ctrl_reg_type = ucast (reg_type (time_cfg u)), ctrl_device_id = device_id (time_cfg u),
               ctrl_reg_addr = reg_addr (reg_cfg u), start_value = reg_value (reg_cfg u), end_value = 0\<rparr>
      in case end_idx of
           Some j \<Rightarrow> \<lparr>start_time_index = start_idx, end_time_index = j,
                      ctrl = c\<lparr>end_value := reg_value (reg_cfg (unit_at st (unat j)))\<rparr>,
                      status = TOU_PERIOD_STATUS_CONFIGURED_IDLE\<rparr>
         | None \<Rightarrow> \<lparr>start_time_index = start_idx, end_time_index = 0xFF, ctrl = c,
                    status = TOU_PERIOD_STATUS_START_ONLY\<rparr>)"

function append_loop ::
  "tou_env \<Rightarrow> u8 list \<Rightarrow> nat \<Rightarrow> bool list \<Rightarrow> nat \<Rightarrow> u8 \<Rightarrow> tou_state \<Rightarrow> u8 \<times> tou_state" where
  "append_loop env idx_list pi used_pos next_slot created st =
     (if length idx_list \<le> pi then (created, st)
      else if used_pos ! pi then append_loop env idx_list (Suc pi) used_pos next_slot created st
      else let start_idx = idx_list ! pi in
        if unat start_idx \<ge> SMART_TOU_UNIT_MAX_CNT \<or> \<not> day_valid env st (unat start_idx)
        then append_loop env idx_list (Suc pi) used_pos next_slot created st
        else case free_slot st next_slot of
               None \<Rightarrow> (created, st)
             | Some s \<Rightarrow>
                 let found = find_end env st idx_list used_pos pi;
                     e = period_entry st start_idx (map_option ((!) idx_list) found);
                     used1 = (case found of None \<Rightarrow> used_pos[pi := True] | Some j \<Rightarrow> used_pos[pi := True, j := True])
                 in append_loop env idx_list (Suc pi) used1 (Suc s mod SMART_TOU_QUANTUM_MAX_CNT) (created + 1)
                      (st\<lparr>quanta := (quanta st)[s := e]\<rparr>))"
  by pat_completeness auto
termination by (relation "measure (\<lambda>(env, idx_list, pi, _). length idx_list - pi)") auto

declare append_loop.simps [simp del]

definition append_build_from_sorted_idx_list :: "tou_env \<Rightarrow> u8 list \<Rightarrow> tou_state \<Rightarrow> u8 \<times> tou_state" where
  "append_build_from_sorted_idx_list env idx_list st =
     (if idx_list = [] then (0, st)
      else append_loop env idx_list 0 (replicate (length idx_list) False) 0 0 st)"

section \<open>Removing what the configuration no longer has\<close>

definition zero_time_cfg :: tou_time_config where
  "zero_time_cfg = \<lparr>time_sec = 0, week_sel = 0, day_sel = 0, month_sel = 0, reg_type = 0, device_id = 0, time_type = 0\<rparr>"

definition clear_time_cfg :: "nat \<Rightarrow> tou_state \<Rightarrow> tou_state" where
  "clear_time_cfg i st = st\<lparr>tou_cfg := (tou_cfg st)\<lparr>smart_tou_unit :=
     (smart_tou_unit (tou_cfg st))[i := (unit_at st i)\<lparr>time_cfg := zero_time_cfg\<rparr>]\<rparr>, write_flag := True\<rparr>"

definition Smart_Tou_Is_Ctrl_Valid :: "tou_env \<Rightarrow> tou_state \<Rightarrow> tou_time_quantum \<Rightarrow> bool" where
  "Smart_Tou_Is_Ctrl_Valid env st e \<longleftrightarrow>
     (let si = unat (start_time_index e); ei = unat (end_time_index e) in
      if si \<ge> SMART_TOU_UNIT_MAX_CNT then False
      else if ei \<ge> SMART_TOU_UNIT_MAX_CNT then False
      else if status e < TOU_PERIOD_STATUS_CONFIGURED_IDLE then False
      else if \<not> day_valid env st si then False
      else if \<not> day_valid env st ei then False
      else (ctrl_reg_type (ctrl e) = ucast (reg_type (time_cfg (unit_at st si))) \<and>
            ctrl_reg_type (ctrl e) = ucast (reg_type (time_cfg (unit_at st ei)))) \<and>
           (ctrl_device_id (ctrl e) = device_id (time_cfg (unit_at st si)) \<and>
            ctrl_device_id (ctrl e) = device_id (time_cfg (unit_at st ei))) \<and>
           (ctrl_reg_addr (ctrl e) = reg_addr (reg_cfg (unit_at st si)) \<and>
            ctrl_reg_addr (ctrl e) = reg_addr (reg_cfg (unit_at st ei))))"

definition ctrl_values_match :: "tou_state \<Rightarrow> tou_time_quantum \<Rightarrow> bool" where
  "ctrl_values_match st e \<longleftrightarrow>
     start_value (ctrl e) = reg_value (reg_cfg (unit_at st (unat (start_time_index e)))) \<and>
     end_value (ctrl e) = reg_value (reg_cfg (unit_at st (unat (end_time_index e))))"

text \<open>A period whose values changed while it is active is not ended; it will be started again.\<close>

definition demote_matching :: "u8 \<Rightarrow> u8 \<Rightarrow> tou_state \<Rightarrow> tou_state" where
  "demote_matching start_idx end_idx st =
     (case first_idx (entry_matches start_idx end_idx) (quanta st) of
        None \<Rightarrow> st
      | Some gq \<Rightarrow>
          if status (quanta st ! gq) = TOU_PERIOD_STATUS_ACTIVE
          then st\<lparr>quanta := (quanta st)[gq := (quanta st ! gq)\<lparr>status := TOU_PERIOD_STATUS_CONFIGURED_IDLE\<rparr>]\<rparr>
          else st)"

definition present_idx_map :: "u8 list \<Rightarrow> bool list" where
  "present_idx_map current_idx_list =
     fold (\<lambda>i m. if unat i < SMART_TOU_UNIT_MAX_CNT then m[unat i := True] else m) current_idx_list
       (replicate SMART_TOU_UNIT_MAX_CNT False)"

definition start_present :: "bool list \<Rightarrow> tou_time_quantum \<Rightarrow> bool" where
  "start_present present e \<longleftrightarrow>
     unat (start_time_index e) < SMART_TOU_UNIT_MAX_CNT \<and> present ! unat (start_time_index e)"

definition end_present :: "bool list \<Rightarrow> tou_time_quantum \<Rightarrow> bool" where
  "end_present present e \<longleftrightarrow> status e \<noteq> TOU_PERIOD_STATUS_START_ONLY \<and>
     (unat (end_time_index e) < SMART_TOU_UNIT_MAX_CNT \<and> end_time_index e \<noteq> 0xFF) \<and>
     present ! unat (end_time_index e)"

definition detect_entry :: "tou_env \<Rightarrow> bool list \<Rightarrow> tou_time_quantum \<Rightarrow> tou_state \<Rightarrow> tou_state" where
  "detect_entry env present e st =
     (let si = start_time_index e; ei = end_time_index e;
          is_start = start_present present e; is_end = end_present present e in
      if status e = TOU_PERIOD_STATUS_UNCONFIGURED then st
      else if is_start \<and> is_end then
        (if Smart_Tou_Is_Ctrl_Valid env st e \<and> ctrl_values_match st e then st
         else clear_matching_time_quantum_entries env si ei
                (if Smart_Tou_Is_Ctrl_Valid env st e then demote_matching si ei st else st))
      else let st1 = clear_matching_time_quantum_entries env si ei st in
           if \<not> is_start \<and> \<not> is_end then st1
           else if \<not> is_start then clear_time_cfg (unat ei) st1
           else clear_time_cfg (unat si) st1)"

definition detect_and_remove_deleted ::
  "tou_env \<Rightarrow> tou_time_quantum list \<Rightarrow> u8 list option \<Rightarrow> tou_state \<Rightarrow> tou_state" where
  "detect_and_remove_deleted env old_cfg current st =
     (case current of
        Some (i # is) \<Rightarrow> fold (detect_entry env (present_idx_map (i # is))) old_cfg st
      | _ \<Rightarrow> fold (clear_time_quantum_entry env) [0..<SMART_TOU_QUANTUM_MAX_CNT] st)"

section \<open>Rebuild and update\<close>

datatype timequantum_build_mode = TIMEQUANTUM_BUILD_REBUILD | TIMEQUANTUM_BUILD_UPDATE

definition zero_table :: "tou_time_quantum list" where
  "zero_table = replicate SMART_TOU_QUANTUM_MAX_CNT zero_quantum"

definition Smart_Tou_RebuildOrUpdate_TimeQuantumConfig ::
  "tou_env \<Rightarrow> timequantum_build_mode \<Rightarrow> tou_state \<Rightarrow> u8 \<times> tou_state" where
  "Smart_Tou_RebuildOrUpdate_TimeQuantumConfig env mode st =
     (let idx_list = collect_quantum_idx st in
      if idx_list = [] then
        (0, case mode of
              TIMEQUANTUM_BUILD_REBUILD \<Rightarrow> st\<lparr>quanta := zero_table\<rparr>
            | TIMEQUANTUM_BUILD_UPDATE \<Rightarrow> detect_and_remove_deleted env (quanta st) None st)
      else let sorted = qsort env (compare_idx_by_time st) idx_list;
               st' = (case mode of
                 TIMEQUANTUM_BUILD_UPDATE \<Rightarrow>
                   let st1 = detect_and_remove_deleted env (quanta st) (Some sorted) st;
                       new_list = collect_new_timepoint_indices sorted (mark_used_timepoint_indices (quanta st1))
                   in if new_list \<noteq> [] then snd (append_build_from_sorted_idx_list env new_list st1) else st1
               | TIMEQUANTUM_BUILD_REBUILD \<Rightarrow>
                   snd (append_build_from_sorted_idx_list env sorted (st\<lparr>quanta := zero_table\<rparr>)))
           in (of_nat (length (filter (\<lambda>e. status e \<ge> TOU_PERIOD_STATUS_CONFIGURED_IDLE) (quanta st'))), st'))"


section \<open>Pairing as a function on lists\<close>

text \<open>What the loop computes: each point that is left starts a period that ends with the next
  compatible point.\<close>

function pair_up :: "('a \<Rightarrow> 'a \<Rightarrow> bool) \<Rightarrow> 'a list \<Rightarrow> ('a \<times> 'a option) list" where
  "pair_up c [] = []"
| "pair_up c (i # is) =
     (case List.extract (c i) is of
        None \<Rightarrow> (i, None) # pair_up c is
      | Some (ys, j, zs) \<Rightarrow> (i, Some j) # pair_up c (ys @ zs))"
  by pat_completeness auto
termination
  by (relation "measure (\<lambda>(c, xs). length xs)") (auto dest: extract_SomeE)

declare pair_up.simps(2) [simp del]

lemma pair_up_None: "List.extract (c i) is = None \<Longrightarrow> pair_up c (i # is) = (i, None) # pair_up c is"
  by (simp add: pair_up.simps(2))

lemma pair_up_Some:
  "List.extract (c i) is = Some (ys, j, zs) \<Longrightarrow> pair_up c (i # is) = (i, Some j) # pair_up c (ys @ zs)"
  by (simp add: pair_up.simps(2))

definition both :: "'a \<times> 'a option \<Rightarrow> 'a list" where
  "both p = fst p # (case snd p of None \<Rightarrow> [] | Some j \<Rightarrow> [j])"

lemma both_simps [simp]: "both (i, None) = [i]" "both (i, Some j) = [i, j]"
  by (simp_all add: both_def)

lemma pair_up_mset: "mset (concat (map both (pair_up c xs))) = mset xs"
proof (induction c xs rule: pair_up.induct)
  case (2 c i "is")
  show ?case
  proof (cases "List.extract (c i) is")
    case None
    then show ?thesis using 2 by (simp add: pair_up_None)
  next
    case (Some r)
    then obtain ys j zs where r: "List.extract (c i) is = Some (ys, j, zs)" by (cases r) auto
    then have "mset (concat (map both (pair_up c (ys @ zs)))) = mset (ys @ zs)" using 2 by simp
    then show ?thesis using extract_SomeE[OF r] r by (simp add: pair_up_Some)
  qed
qed simp

lemma pair_up_pairs:
  "sorted_wrt R xs \<Longrightarrow> (i, Some j) \<in> set (pair_up c xs) \<Longrightarrow> c i j \<and> R i j"
proof (induction c xs rule: pair_up.induct)
  case (2 c k "is")
  show ?case
  proof (cases "List.extract (c k) is")
    case None
    then show ?thesis using 2 by (simp add: pair_up_None)
  next
    case (Some r)
    then obtain ys l zs where r: "List.extract (c k) is = Some (ys, l, zs)" by (cases r) auto
    note e = extract_SomeE[OF r]
    have "sorted_wrt R (ys @ zs)" using 2(3) e by (auto simp: sorted_wrt_append)
    then have "(i, Some j) \<in> set (pair_up c (ys @ zs)) \<Longrightarrow> c i j \<and> R i j" using 2(2)[OF r refl refl] by blast
    then show ?thesis using 2(3,4) e r by (auto simp: pair_up_Some)
  qed
qed simp

lemma extract_filter:
  assumes "\<And>x. c x \<Longrightarrow> P x"
  shows "List.extract c (filter P xs) =
    map_option (\<lambda>(ys, j, zs). (filter P ys, j, filter P zs)) (List.extract c xs)"
proof (induction xs)
  case (Cons x xs)
  then show ?case using assms[of x]
    by (auto simp: extract_Cons_code split: option.splits)
qed (simp add: extract_Nil_code)

lemma pair_up_filter:
  "(\<And>i j. c i j \<Longrightarrow> P i = P j) \<Longrightarrow> filter (\<lambda>p. P (fst p)) (pair_up c xs) = pair_up c (filter P xs)"
proof (induction c xs rule: pair_up.induct)
  case (2 c i "is")
  show ?case
  proof (cases "List.extract (c i) is")
    case None
    then show ?thesis
      using 2(1)[OF None 2(3)] extract_filter[of "c i" P "is"] 2(3)[of i]
      by (auto simp: pair_up_None)
  next
    case (Some r)
    then obtain ys j zs where r: "List.extract (c i) is = Some (ys, j, zs)" by (cases r) auto
    note e = extract_SomeE[OF r]
    note IH = 2(2)[OF r refl refl 2(3)]
    show ?thesis
    proof (cases "P i")
      case True
      then have "List.extract (c i) (filter P is) = Some (filter P ys, j, filter P zs)"
        using extract_filter[of "c i" P "is"] 2(3)[of i] r by auto
      then show ?thesis using True IH r by (simp add: pair_up_Some)
    next
      case False
      then have "\<not> P j" using e 2(3)[of i j] by simp
      then show ?thesis using False IH r e by (simp add: pair_up_Some)
    qed
  qed
qed simp

text \<open>Points of one register are paired one after the other.\<close>

fun adjacent :: "'a list \<Rightarrow> ('a \<times> 'a option) list" where
  "adjacent [] = []"
| "adjacent [i] = [(i, None)]"
| "adjacent (i # j # is) = (i, Some j) # adjacent is"

lemma pair_up_adjacent:
  "(\<And>i j. i \<in> set xs \<Longrightarrow> j \<in> set xs \<Longrightarrow> c i j) \<Longrightarrow> pair_up c xs = adjacent xs"
proof (induction xs rule: adjacent.induct)
  case (3 i j "is")
  then have "List.extract (c i) (j # is) = Some ([], j, is)" by (simp add: extract_Cons_code)
  then show ?case using 3 by (simp add: pair_up_Some)
qed (simp_all add: pair_up_None extract_Nil_code)

text \<open>The map from positions to points commutes with pairing.\<close>

lemma extract_map:
  "List.extract P (map f xs) = map_option (\<lambda>(ys, j, zs). (map f ys, f j, map f zs)) (List.extract (P \<circ> f) xs)"
  by (induction xs) (auto simp: extract_Nil_code extract_Cons_code split: option.splits)

lemma pair_up_map:
  "pair_up c (map f xs) = map (map_prod f (map_option f)) (pair_up (\<lambda>i j. c (f i) (f j)) xs)"
proof (induction "\<lambda>i j. c (f i) (f j)" xs rule: pair_up.induct)
  case (2 i "is")
  have comp: "(c (f i) \<circ> f) = (\<lambda>j. c (f i) (f j))" by auto
  show ?case
  proof (cases "List.extract (\<lambda>j. c (f i) (f j)) is")
    case None
    then show ?thesis using 2(1) by (simp add: pair_up_None extract_map comp)
  next
    case (Some r)
    then obtain ys j zs where r: "List.extract (\<lambda>j. c (f i) (f j)) is = Some (ys, j, zs)" by (cases r) auto
    then have "List.extract (c (f i)) (map f is) = Some (map f ys, f j, map f zs)"
      by (simp add: extract_map comp)
    then show ?thesis using 2(2)[OF r refl refl] r by (simp add: pair_up_Some)
  qed
qed simp


section \<open>The loop computes the pairing\<close>

definition configured :: "tou_state \<Rightarrow> tou_time_quantum list" where
  "configured st = filter (\<lambda>e. status e \<noteq> TOU_PERIOD_STATUS_UNCONFIGURED) (quanta st)"

definition free_cnt :: "tou_state \<Rightarrow> nat" where
  "free_cnt st = length (filter (\<lambda>e. status e = TOU_PERIOD_STATUS_UNCONFIGURED) (quanta st))"

definition usable :: "tou_env \<Rightarrow> tou_state \<Rightarrow> u8 \<Rightarrow> bool" where
  "usable env st i \<longleftrightarrow> unat i < SMART_TOU_UNIT_MAX_CNT \<and> day_valid env st (unat i)"

definition new_entries :: "tou_env \<Rightarrow> tou_state \<Rightarrow> u8 list \<Rightarrow> tou_time_quantum list" where
  "new_entries env st idx_list = take (free_cnt st) (map (\<lambda>(i, j). period_entry st i j)
     (pair_up (tou_units_compatible st) (filter (usable env st) idx_list)))"

lemma status_period_entry: "status (period_entry st i j) \<noteq> TOU_PERIOD_STATUS_UNCONFIGURED"
  by (simp add: period_entry_def Let_def split: option.split)

lemma cfg_only:
  assumes "tou_cfg s = tou_cfg t"
  shows "unit_at s = unit_at t" "day_valid env s = day_valid env t"
    "tou_units_compatible s = tou_units_compatible t" "period_entry s = period_entry t"
    "usable env s = usable env t" "compare_idx_by_time s = compare_idx_by_time t"
    "collect_quantum_idx s = collect_quantum_idx t"
proof -
  show u: "unit_at s = unit_at t" using assms by (simp add: fun_eq_iff unit_at_def)
  show d: "day_valid env s = day_valid env t" by (simp add: fun_eq_iff day_valid_def u)
  show "tou_units_compatible s = tou_units_compatible t" by (simp add: fun_eq_iff tou_units_compatible_def u)
  show "period_entry s = period_entry t" by (intro ext) (simp only: period_entry_def u)
  show "usable env s = usable env t" by (simp add: fun_eq_iff usable_def d)
  show "compare_idx_by_time s = compare_idx_by_time t"
    by (simp add: fun_eq_iff compare_idx_by_time_def point_sec_def u)
  have "quantum_point s = quantum_point t" by (simp add: fun_eq_iff quantum_point_def is_quantum_point_def u)
  then show "collect_quantum_idx s = collect_quantum_idx t" by (simp add: collect_quantum_idx_def assms)
qed

lemma mod_range: "next < n \<Longrightarrow> (\<lambda>off. (next + off) mod n) ` {0..<n} = {0..<n::nat}"
proof (intro equalityI subsetI)
  fix s assume n: "next < n" and "s \<in> {0..<n}"
  then have "(next + (s + n - next) mod n) mod n = s" by (simp add: mod_add_right_eq)
  then show "s \<in> (\<lambda>off. (next + off) mod n) ` {0..<n}" using n by (intro image_eqI[of _ _ "(s + n - next) mod n"]) auto
qed auto

lemma free_slot_None:
  assumes "next < SMART_TOU_QUANTUM_MAX_CNT" "length (quanta st) = SMART_TOU_QUANTUM_MAX_CNT"
    "free_slot st next = None"
  shows "free_cnt st = 0"
proof -
  have "status (quanta st ! s) \<noteq> TOU_PERIOD_STATUS_UNCONFIGURED" if "s < SMART_TOU_QUANTUM_MAX_CNT" for s
  proof -
    have "s \<in> (\<lambda>off. (next + off) mod SMART_TOU_QUANTUM_MAX_CNT) ` {0..<SMART_TOU_QUANTUM_MAX_CNT}"
      using that unfolding mod_range[OF assms(1)] by simp
    then show ?thesis using assms(3) by (auto simp: free_slot_def find_None_iff)
  qed
  then show ?thesis using assms(2) by (auto simp: free_cnt_def filter_empty_conv in_set_conv_nth)
qed

lemma free_slot_Some:
  assumes "free_slot st next = Some s"
  shows "s < SMART_TOU_QUANTUM_MAX_CNT" "status (quanta st ! s) = TOU_PERIOD_STATUS_UNCONFIGURED"
  using assms by (auto simp: free_slot_def find_Some_iff tou_sizes)

lemma fill_slot:
  assumes "s < length q" "status (q ! s) = TOU_PERIOD_STATUS_UNCONFIGURED"
    "status e \<noteq> TOU_PERIOD_STATUS_UNCONFIGURED"
  shows "mset (filter (\<lambda>e. status e \<noteq> TOU_PERIOD_STATUS_UNCONFIGURED) (q[s := e])) =
      mset (filter (\<lambda>e. status e \<noteq> TOU_PERIOD_STATUS_UNCONFIGURED) q) + {#e#}"
    and "length (filter (\<lambda>e. status e = TOU_PERIOD_STATUS_UNCONFIGURED) q) =
      Suc (length (filter (\<lambda>e. status e = TOU_PERIOD_STATUS_UNCONFIGURED) (q[s := e])))"
proof -
  have u: "mset (q[s := e]) = add_mset e (mset q - {#q ! s#})" using assms(1) by (rule mset_update)
  obtain m where m: "mset q = add_mset (q ! s) m" using assms(1) by (metis insert_DiffM nth_mem_mset)
  show "mset (filter (\<lambda>e. status e \<noteq> TOU_PERIOD_STATUS_UNCONFIGURED) (q[s := e])) =
      mset (filter (\<lambda>e. status e \<noteq> TOU_PERIOD_STATUS_UNCONFIGURED) q) + {#e#}"
    using assms(2,3) by (simp add: u m)
  let ?U = "\<lambda>e. status e = TOU_PERIOD_STATUS_UNCONFIGURED"
  have "size (filter_mset ?U (mset q)) = Suc (size (filter_mset ?U (mset (q[s := e]))))"
    using assms(2,3) by (simp add: u m)
  then show "length (filter ?U q) = Suc (length (filter ?U (q[s := e])))"
    by (simp flip: mset_filter)
qed

text \<open>Searching the positions that are left, and striking out the one that was found.\<close>

lemma find_extract:
  "find (\<lambda>x. f x \<and> P x) xs = map_option (\<lambda>(ys, j, zs). j) (List.extract P (filter f xs))"
  by (induction xs) (auto simp: extract_Nil_code extract_Cons_code split: option.splits)

lemma extract_strike:
  assumes "List.extract P (filter f xs) = Some (ys, j, zs)" "distinct xs"
  shows "ys @ zs = filter (\<lambda>x. f x \<and> x \<noteq> j) xs"
proof -
  have e: "filter f xs = ys @ j # zs" using extract_SomeE[OF assms(1)] by blast
  have "distinct (filter f xs)" using assms(2) by simp
  then have "j \<notin> set ys" "j \<notin> set zs" unfolding e by auto
  then have "filter (\<lambda>x. x \<noteq> j) ys = ys" "filter (\<lambda>x. x \<noteq> j) zs = zs" by (auto intro: filter_True)
  then have "filter (\<lambda>x. x \<noteq> j) (filter f xs) = ys @ zs" unfolding e by simp
  then show ?thesis by (simp add: conj_commute)
qed





definition left_pos :: "tou_env \<Rightarrow> tou_state \<Rightarrow> u8 list \<Rightarrow> bool list \<Rightarrow> nat \<Rightarrow> nat list" where
  "left_pos env st idx_list used pi =
     filter (\<lambda>p. \<not> used ! p \<and> usable env st (idx_list ! p)) [pi..<length idx_list]"

definition pos_entries :: "tou_env \<Rightarrow> tou_state \<Rightarrow> u8 list \<Rightarrow> bool list \<Rightarrow> nat \<Rightarrow> tou_time_quantum list" where
  "pos_entries env st idx_list used pi = take (free_cnt st)
     (map (\<lambda>(p, j). period_entry st (idx_list ! p) (map_option ((!) idx_list) j))
       (pair_up (\<lambda>p j. tou_units_compatible st (idx_list ! p) (idx_list ! j)) (left_pos env st idx_list used pi)))"

text \<open>Two tables agree on the entries that were configured in the first.\<close>

definition extends_table :: "tou_state \<Rightarrow> tou_state \<Rightarrow> bool" where
  "extends_table st st' \<longleftrightarrow> (\<exists>q. st' = st\<lparr>quanta := q\<rparr> \<and> length q = length (quanta st) \<and>
     (\<forall>s < length q. status (quanta st ! s) \<noteq> TOU_PERIOD_STATUS_UNCONFIGURED \<or>
        status (q ! s) = TOU_PERIOD_STATUS_UNCONFIGURED \<longrightarrow> q ! s = quanta st ! s))"

lemma extends_table_refl: "extends_table st st"
  by (auto simp: extends_table_def intro!: exI[of _ "quanta st"])

lemma extends_table_cfg: "extends_table st st' \<Longrightarrow> tou_cfg st' = tou_cfg st"
  by (auto simp: extends_table_def)

lemma extends_table_upd:
  assumes "extends_table (st\<lparr>quanta := (quanta st)[s := e]\<rparr>) st'" "s < length (quanta st)"
    "status (quanta st ! s) = TOU_PERIOD_STATUS_UNCONFIGURED" "status e \<noteq> TOU_PERIOD_STATUS_UNCONFIGURED"
  shows "extends_table st st'"
proof -
  let ?U = TOU_PERIOD_STATUS_UNCONFIGURED
  obtain q where q: "st' = st\<lparr>quanta := q\<rparr>" "length q = length (quanta st)"
    "\<And>k. k < length q \<Longrightarrow> status ((quanta st)[s := e] ! k) \<noteq> ?U \<or> status (q ! k) = ?U \<Longrightarrow> q ! k = (quanta st)[s := e] ! k"
    using assms(1) by (auto simp: extends_table_def)
  have "q ! k = quanta st ! k" if k: "k < length q" "status (quanta st ! k) \<noteq> ?U \<or> status (q ! k) = ?U" for k
  proof (cases "k = s")
    case True
    then have "q ! k = e" using q(2) q(3)[OF k(1)] assms(2,4) by simp
    then show ?thesis using k(2) assms(3,4) True by simp
  next
    case False
    then show ?thesis using q(3)[OF k(1)] k(2) by simp
  qed
  then show ?thesis using q(1,2) by (auto simp: extends_table_def)
qed

lemma left_pos_step:
  assumes "pi < length idx_list"
  shows "left_pos env st idx_list used pi =
    (if \<not> used ! pi \<and> usable env st (idx_list ! pi) then [pi] else []) @ left_pos env st idx_list used (Suc pi)"
  using assms by (simp add: left_pos_def upt_conv_Cons del: upt_Suc)

lemma find_end_extract:
  assumes "find_end env st idx_list used pi = found"
  shows "found = map_option (\<lambda>(ys, j, zs). j)
    (List.extract (\<lambda>j. tou_units_compatible st (idx_list ! pi) (idx_list ! j)) (left_pos env st idx_list used (Suc pi)))"
  unfolding left_pos_def find_extract[symmetric] assms[symmetric] find_end_def usable_def
  by (rule arg_cong2[where f = find]) auto

lemma left_pos_strike:
  assumes "length used = length idx_list" "pi < length idx_list" and
    e: "List.extract P (left_pos env st idx_list used (Suc pi)) = Some (ys, j, zs)"
  shows "ys @ zs = left_pos env st idx_list (used[pi := True, j := True]) (Suc pi)"
    "pi < j" "j < length idx_list"
proof -
  have "j \<in> set (left_pos env st idx_list used (Suc pi))" using extract_SomeE[OF e] by auto
  then show j: "pi < j" "j < length idx_list" by (auto simp: left_pos_def)
  have "ys @ zs = filter (\<lambda>p. (\<not> used ! p \<and> usable env st (idx_list ! p)) \<and> p \<noteq> j) [Suc pi..<length idx_list]"
    by (rule extract_strike[OF e[unfolded left_pos_def]]) simp
  also have "\<dots> = left_pos env st idx_list (used[pi := True, j := True]) (Suc pi)"
    unfolding left_pos_def using assms(1,2) j by (intro filter_cong refl) (auto simp: nth_list_update)
  finally show "ys @ zs = left_pos env st idx_list (used[pi := True, j := True]) (Suc pi)" .
qed

lemma left_pos_used:
  "pi < length idx_list \<Longrightarrow> left_pos env st idx_list (used[pi := True]) (Suc pi) = left_pos env st idx_list used (Suc pi)"
  unfolding left_pos_def by (intro filter_cong refl) (auto simp: nth_list_update)

lemma append_loop_ok:
  assumes "length used = length idx_list" "length (quanta st) = SMART_TOU_QUANTUM_MAX_CNT"
    "next < SMART_TOU_QUANTUM_MAX_CNT" "append_loop env idx_list pi used next created st = (k, st')"
  shows "extends_table st st' \<and>
    mset (configured st') = mset (configured st) + mset (pos_entries env st idx_list used pi) \<and>
    k = created + of_nat (length (pos_entries env st idx_list used pi))"
  using assms
proof (induction env idx_list pi used "next" created st arbitrary: k st' rule: append_loop.induct)
  case (1 env idx pi used "next" created st)
  note run = 1(7)[unfolded append_loop.simps[of env idx pi]]
  consider (finished) "length idx \<le> pi" | (used) "pi < length idx" "used ! pi"
    | (skip) "pi < length idx" "\<not> used ! pi" "\<not> usable env st (idx ! pi)"
    | (full) "pi < length idx" "\<not> used ! pi" "usable env st (idx ! pi)" "free_slot st next = None"
    | (fill) s where "pi < length idx" "\<not> used ! pi" "usable env st (idx ! pi)" "free_slot st next = Some s"
    by (meson leI not_Some_eq)
  then show ?case
  proof cases
    case finished
    then show ?thesis using run by (simp add: pos_entries_def left_pos_def extends_table_refl)
  next
    case used
    then have "append_loop env idx (Suc pi) used next created st = (k, st')" using run by simp
    moreover have "left_pos env st idx used pi = left_pos env st idx used (Suc pi)"
      using used left_pos_step[of pi idx] by simp
    ultimately show ?thesis using 1(1)[OF _ used(2) 1(4-6)] used by (simp add: pos_entries_def)
  next
    case skip
    then have "append_loop env idx (Suc pi) used next created st = (k, st')"
      using run by (auto simp: usable_def Let_def)
    moreover have "left_pos env st idx used pi = left_pos env st idx used (Suc pi)"
      using skip left_pos_step[of pi idx] by simp
    ultimately show ?thesis using 1(2)[OF _ skip(2) refl _ 1(4-6)] skip by (auto simp: pos_entries_def usable_def)
  next
    case full
    then have "k = created" "st' = st" using run by (auto simp: usable_def Let_def)
    then show ?thesis using free_slot_None[OF 1(6,5) full(4)] by (simp add: pos_entries_def extends_table_refl)
  next
    case fill
    note s = free_slot_Some[OF fill(4)]
    define found where "found = find_end env st idx used pi"
    define e where "e = period_entry st (idx ! pi) (map_option ((!) idx) found)"
    define used1 where "used1 = (case found of None \<Rightarrow> used[pi := True] | Some j \<Rightarrow> used[pi := True, j := True])"
    define st1 where "st1 = st\<lparr>quanta := (quanta st)[s := e]\<rparr>"
    have e: "status e \<noteq> TOU_PERIOD_STATUS_UNCONFIGURED" by (simp add: e_def status_period_entry)
    have s_len: "s < length (quanta st)" using s(1) 1(5) by simp
    have fs: "mset (configured st1) = mset (configured st) + {#e#}" "free_cnt st = Suc (free_cnt st1)"
      using fill_slot[OF s_len s(2) e] by (simp_all add: configured_def free_cnt_def st1_def)
    have cfg: "tou_cfg st1 = tou_cfg st" by (simp add: st1_def)
    note c = cfg_only[OF cfg]
    have rec: "append_loop env idx (Suc pi) used1 (Suc s mod SMART_TOU_QUANTUM_MAX_CNT) (created + 1) st1 = (k, st')"
      using run fill by (auto simp: usable_def Let_def found_def[symmetric] e_def[symmetric] st1_def used1_def split: if_splits)
    have len: "length used1 = length idx" "length (quanta st1) = SMART_TOU_QUANTUM_MAX_CNT"
      "Suc s mod SMART_TOU_QUANTUM_MAX_CNT < SMART_TOU_QUANTUM_MAX_CNT"
      using 1(4,5) by (simp_all add: used1_def st1_def tou_sizes split: option.split)
    have IH: "extends_table st1 st' \<and>
      mset (configured st') = mset (configured st1) + mset (pos_entries env st1 idx used1 (Suc pi)) \<and>
      k = created + 1 + of_nat (length (pos_entries env st1 idx used1 (Suc pi)))"
      by (rule 1(3)[OF _ fill(2) refl _ fill(4) found_def e_def _ _ _ _ rec[unfolded st1_def], folded st1_def])
        (use fill len used1_def in \<open>auto simp: usable_def\<close>)
    have pos: "pos_entries env st idx used pi = e # pos_entries env st1 idx used1 (Suc pi)"
    proof -
      let ?c = "\<lambda>p j. tou_units_compatible st (idx ! p) (idx ! j)"
      have lp: "left_pos env st idx used pi = pi # left_pos env st idx used (Suc pi)"
        using fill left_pos_step[of pi idx] by simp
      have l1: "left_pos env st1 idx u p = left_pos env st idx u p" for u p
        by (simp add: left_pos_def c)
      note fe = find_end_extract[OF found_def[symmetric]]
      have "pair_up ?c (left_pos env st idx used pi) = (pi, found) # pair_up ?c (left_pos env st idx used1 (Suc pi))"
      proof (cases "List.extract (?c pi) (left_pos env st idx used (Suc pi))")
        case None
        then show ?thesis using lp fe left_pos_used[OF fill(1)] by (simp add: pair_up_None used1_def)
      next
        case (Some r)
        then obtain ys j zs where r: "List.extract (?c pi) (left_pos env st idx used (Suc pi)) = Some (ys, j, zs)"
          by (cases r) auto
        then have "found = Some j" using fe by simp
        then show ?thesis using lp r left_pos_strike(1)[OF 1(4) fill(1) r] by (simp add: pair_up_Some used1_def)
      qed
      then show ?thesis by (simp add: pos_entries_def fs(2) c l1 e_def)
    qed
    have "extends_table st st'"
      using IH extends_table_upd[of st s e st'] s(2) s_len e by (simp add: st1_def)
    then show ?thesis using IH fs(1) pos by simp
  qed
qed


lemma left_pos_all:
  "map ((!) idx_list) (left_pos env st idx_list (replicate (length idx_list) False) 0) = filter (usable env st) idx_list"
proof -
  have "left_pos env st idx_list (replicate (length idx_list) False) 0 =
      filter (usable env st \<circ> (!) idx_list) [0..<length idx_list]"
    unfolding left_pos_def by (intro filter_cong refl) auto
  then show ?thesis by (simp only: filter_map[symmetric] map_nth)
qed

theorem append_build_ok:
  assumes "length (quanta st) = SMART_TOU_QUANTUM_MAX_CNT"
    "append_build_from_sorted_idx_list env idx_list st = (k, st')"
  shows "extends_table st st'"
    and "mset (configured st') = mset (configured st) + mset (new_entries env st idx_list)"
    and "k = of_nat (length (new_entries env st idx_list))"
proof -
  let ?u = "replicate (length idx_list) False"
  have pos: "pos_entries env st idx_list ?u 0 = new_entries env st idx_list"
    unfolding pos_entries_def new_entries_def left_pos_all[symmetric] pair_up_map
    by (simp add: comp_def case_prod_unfold)
  have "extends_table st st' \<and> mset (configured st') = mset (configured st) + mset (new_entries env st idx_list) \<and>
    k = of_nat (length (new_entries env st idx_list))"
  proof (cases "idx_list = []")
    case True
    then show ?thesis using assms(2)
      by (simp add: append_build_from_sorted_idx_list_def new_entries_def extends_table_refl)
  next
    case False
    then have "append_loop env idx_list 0 ?u 0 0 st = (k, st')"
      using assms(2) by (simp add: append_build_from_sorted_idx_list_def)
    from append_loop_ok[OF _ assms(1) _ this] show ?thesis by (simp add: pos tou_sizes)
  qed
  then show "extends_table st st'"
    and "mset (configured st') = mset (configured st) + mset (new_entries env st idx_list)"
    and "k = of_nat (length (new_entries env st idx_list))" by blast+
qed

section \<open>What the C library promises of the sort\<close>

definition qsort_ok :: "tou_env \<Rightarrow> bool" where
  "qsort_ok env \<longleftrightarrow> (\<forall>cmp xs. (\<forall>a b. cmp a b \<le> 0 \<or> cmp b a \<le> 0) \<and>
     (\<forall>a b c. cmp a b \<le> 0 \<and> cmp b c \<le> 0 \<longrightarrow> cmp a c \<le> 0) \<longrightarrow>
     mset (qsort env cmp xs) = mset xs \<and> sorted_wrt (\<lambda>a b. cmp a b \<le> 0) (qsort env cmp xs))"

lemma compare_le: "compare_idx_by_time st a b \<le> 0 \<longleftrightarrow> point_sec st (unat a) \<le> point_sec st (unat b)"
  by (auto simp: compare_idx_by_time_def Let_def)

definition sorted_points :: "tou_env \<Rightarrow> tou_state \<Rightarrow> u8 list" where
  "sorted_points env st = qsort env (compare_idx_by_time st) (collect_quantum_idx st)"

lemma collect_distinct: "distinct (collect_quantum_idx st)"
proof -
  have "inj_on (of_nat :: nat \<Rightarrow> u8) {0..<SMART_TOU_UNIT_MAX_CNT}"
    by (rule inj_on_inverseI[where g = unat]) (simp add: unat_of_nat tou_sizes)
  then have "inj_on (of_nat :: nat \<Rightarrow> u8) (set (filter (quantum_point st)
      [0..<min (unat (time_num (smart_tou_info (tou_cfg st)))) SMART_TOU_UNIT_MAX_CNT]))"
    by (rule inj_on_subset) auto
  then show ?thesis by (simp add: collect_quantum_idx_def distinct_map)
qed

lemma collect_bound: "i \<in> set (collect_quantum_idx st) \<Longrightarrow> unat i < SMART_TOU_UNIT_MAX_CNT \<and> quantum_point st (unat i)"
  by (auto simp: collect_quantum_idx_def unat_of_nat tou_sizes)

lemma sorted_points_ok:
  assumes "qsort_ok env"
  shows "mset (sorted_points env st) = mset (collect_quantum_idx st)"
    "set (sorted_points env st) = set (collect_quantum_idx st)" "distinct (sorted_points env st)"
    "sorted_wrt (\<lambda>a b. point_sec st (unat a) \<le> point_sec st (unat b)) (sorted_points env st)"
proof -
  have pre: "(\<forall>a b. compare_idx_by_time st a b \<le> 0 \<or> compare_idx_by_time st b a \<le> 0) \<and>
    (\<forall>a b c. compare_idx_by_time st a b \<le> 0 \<and> compare_idx_by_time st b c \<le> 0 \<longrightarrow> compare_idx_by_time st a c \<le> 0)"
    unfolding compare_le by (meson linear order_trans)
  have s: "mset (qsort env (compare_idx_by_time st) (collect_quantum_idx st)) = mset (collect_quantum_idx st) \<and>
    sorted_wrt (\<lambda>a b. compare_idx_by_time st a b \<le> 0) (qsort env (compare_idx_by_time st) (collect_quantum_idx st))"
    using assms pre unfolding qsort_ok_def by blast
  then show m: "mset (sorted_points env st) = mset (collect_quantum_idx st)" by (simp add: sorted_points_def)
  then show "set (sorted_points env st) = set (collect_quantum_idx st)" by (rule mset_eq_setD)
  show "distinct (sorted_points env st)"
    using collect_distinct mset_eq_imp_distinct_iff[OF m] by blast
  show "sorted_wrt (\<lambda>a b. point_sec st (unat a) \<le> point_sec st (unat b)) (sorted_points env st)"
    using s by (simp add: compare_le sorted_points_def)
qed

section \<open>No point belongs to two periods\<close>

definition points_of :: "tou_time_quantum \<Rightarrow> u8 list" where
  "points_of e = start_time_index e # (if end_time_index e = 0xFF then [] else [end_time_index e])"

definition entry_ok :: "tou_time_quantum \<Rightarrow> bool" where
  "entry_ok e \<longleftrightarrow>
     (if status e = TOU_PERIOD_STATUS_UNCONFIGURED then e = zero_quantum
      else (\<forall>i \<in> set (points_of e). unat i < SMART_TOU_UNIT_MAX_CNT) \<and>
           (status e = TOU_PERIOD_STATUS_START_ONLY \<longleftrightarrow> end_time_index e = 0xFF))"

definition table_ok :: "tou_state \<Rightarrow> bool" where
  "table_ok st \<longleftrightarrow> length (quanta st) = SMART_TOU_QUANTUM_MAX_CNT \<and> (\<forall>e \<in> set (quanta st). entry_ok e) \<and>
     distinct (concat (map points_of (configured st)))"

lemma mset_concat_cong: "mset xs = mset ys \<Longrightarrow> mset (concat (map f xs)) = mset (concat (map f ys))"
proof (induction xs arbitrary: ys)
  case (Cons x xs)
  then have "x \<in> set ys" by (metis list.set_intros(1) mset_eq_setD)
  then obtain as bs where ys: "ys = as @ x # bs" by (meson split_list)
  then have "mset xs = mset (as @ bs)" using Cons.prems by simp
  from Cons.IH[OF this] show ?case by (simp add: ys)
qed simp

lemma table_ok_mset:
  "table_ok st \<longleftrightarrow> length (quanta st) = SMART_TOU_QUANTUM_MAX_CNT \<and>
     (\<forall>e \<in> set (quanta st). status e = TOU_PERIOD_STATUS_UNCONFIGURED \<longrightarrow> e = zero_quantum) \<and>
     (\<forall>e \<in> set (configured st). entry_ok e) \<and> distinct (concat (map points_of (configured st)))"
  by (auto simp: table_ok_def configured_def entry_ok_def zero_quantum_def)

lemma points_period_entry:
  "(\<And>k. j = Some k \<Longrightarrow> k \<noteq> 0xFF) \<Longrightarrow> points_of (period_entry st i j) = both (i, j)"
  by (auto simp: points_of_def period_entry_def Let_def split: option.split)

lemma usable_not_FF: "usable env st i \<Longrightarrow> i \<noteq> 0xFF"
  by (auto simp: usable_def SMART_TOU_UNIT_MAX_CNT_def)

lemma pair_in: "(i, j) \<in> set (pair_up c xs) \<Longrightarrow> i \<in> set xs \<and> (\<forall>k. j = Some k \<longrightarrow> k \<in> set xs)"
proof -
  assume a: "(i, j) \<in> set (pair_up c xs)"
  have s: "set (concat (map both (pair_up c xs))) = set xs" using pair_up_mset by (metis mset_eq_setD)
  have "set (both (i, j)) \<subseteq> set xs" using a unfolding s[symmetric] by auto
  then show ?thesis by (cases j) auto
qed

text \<open>The periods to be entered: from the points that may be used, each of them once.\<close>

definition period_pairs :: "tou_env \<Rightarrow> tou_state \<Rightarrow> u8 list \<Rightarrow> (u8 \<times> u8 option) list" where
  "period_pairs env st idx_list = pair_up (tou_units_compatible st) (filter (usable env st) idx_list)"

lemma new_entries_pairs:
  "new_entries env st idx_list = map (\<lambda>(i, j). period_entry st i j) (take (free_cnt st) (period_pairs env st idx_list))"
  by (simp add: new_entries_def period_pairs_def take_map)

lemma period_pairs_in:
  assumes "(i, j) \<in> set (period_pairs env st idx_list)"
  shows "usable env st i" "i \<in> set idx_list"
  using pair_in[OF assms[unfolded period_pairs_def]] by simp_all

lemma period_pairs_end:
  assumes "(i, Some k) \<in> set (period_pairs env st idx_list)"
  shows "usable env st k" "k \<in> set idx_list" "tou_units_compatible st i k"
  using pair_in[OF assms[unfolded period_pairs_def]]
    pair_up_pairs[of "\<lambda>_ _. True", OF _ assms[unfolded period_pairs_def]]
  by (auto simp: sorted_wrt_iff_nth_less)

lemma period_pair_points:
  "(i, j) \<in> set (period_pairs env st idx_list) \<Longrightarrow> points_of (period_entry st i j) = both (i, j)"
  using period_pairs_end(1)[of i _ env st idx_list] usable_not_FF by (intro points_period_entry) metis

lemma new_entries_points:
  assumes "distinct idx_list"
  shows "distinct (concat (map points_of (new_entries env st idx_list)))"
    and "set (concat (map points_of (new_entries env st idx_list))) \<subseteq> set idx_list"
proof -
  let ?ps = "period_pairs env st idx_list"
  have "map points_of (new_entries env st idx_list) = map both (take (free_cnt st) ?ps)"
    unfolding new_entries_pairs map_map
    by (intro map_cong refl) (auto simp: period_pair_points dest!: in_set_takeD)
  then have t: "concat (map points_of (new_entries env st idx_list)) @ concat (map both (drop (free_cnt st) ?ps)) =
      concat (map both ?ps)"
    by (simp flip: concat_append map_append)
  have m: "mset (concat (map both ?ps)) = mset (filter (usable env st) idx_list)"
    by (simp add: period_pairs_def pair_up_mset)
  have "distinct (concat (map both ?ps))" using mset_eq_imp_distinct_iff[OF m] assms by simp
  then show "distinct (concat (map points_of (new_entries env st idx_list)))" unfolding t[symmetric] by simp
  have "set (concat (map both ?ps)) \<subseteq> set idx_list" using mset_eq_setD[OF m] by auto
  then show "set (concat (map points_of (new_entries env st idx_list))) \<subseteq> set idx_list"
    unfolding t[symmetric] by simp
qed

lemma new_entry_ok: "e \<in> set (new_entries env st idx_list) \<Longrightarrow> entry_ok e"
proof -
  assume "e \<in> set (new_entries env st idx_list)"
  then obtain i j where e: "e = period_entry st i j" "(i, j) \<in> set (period_pairs env st idx_list)"
    by (auto simp: new_entries_pairs dest: in_set_takeD)
  show ?thesis
  proof (cases j)
    case None
    then show ?thesis using period_pairs_in(1)[OF e(2)]
      by (simp add: e(1) entry_ok_def period_entry_def Let_def points_of_def usable_def)
  next
    case (Some k)
    then show ?thesis using period_pairs_in(1)[OF e(2)] period_pairs_end(1)[OF e(2)[unfolded Some]]
        usable_not_FF[of env st k]
      by (simp add: e(1) entry_ok_def period_entry_def Let_def points_of_def usable_def)
  qed
qed

theorem append_build_table_ok:
  assumes "table_ok st" "distinct idx_list" "set idx_list \<inter> set (concat (map points_of (configured st))) = {}"
    "append_build_from_sorted_idx_list env idx_list st = (k, st')"
  shows "table_ok st'"
proof -
  have len: "length (quanta st) = SMART_TOU_QUANTUM_MAX_CNT" using assms(1) by (simp add: table_ok_def)
  note a = append_build_ok[OF len assms(4)]
  note n = new_entries_points[OF assms(2), of env st]
  have m: "mset (configured st') = mset (configured st @ new_entries env st idx_list)" using a(2) by simp
  have d: "distinct (concat (map points_of (configured st @ new_entries env st idx_list)))"
    using assms(1,3) n by (auto simp: table_ok_def)
  have "distinct (concat (map points_of (configured st')))"
    using mset_eq_imp_distinct_iff[OF mset_concat_cong[OF m, of points_of]] d by blast
  moreover have "\<forall>e \<in> set (configured st'). entry_ok e"
    using mset_eq_setD[OF m] new_entry_ok assms(1) by (auto simp: table_ok_mset)
  moreover obtain q where q: "st' = st\<lparr>quanta := q\<rparr>" "length q = length (quanta st)"
    "\<And>s. s < length q \<Longrightarrow> status (q ! s) = TOU_PERIOD_STATUS_UNCONFIGURED \<Longrightarrow> q ! s = quanta st ! s"
    using a(1) by (auto simp: extends_table_def)
  moreover have "\<forall>e \<in> set q. status e = TOU_PERIOD_STATUS_UNCONFIGURED \<longrightarrow> e = zero_quantum"
    using q assms(1) unfolding table_ok_mset by (metis in_set_conv_nth)
  ultimately show ?thesis using len by (simp add: table_ok_mset)
qed


section \<open>Rebuilding\<close>

lemma sorted_points_Nil: "qsort_ok env \<Longrightarrow> collect_quantum_idx st = [] \<Longrightarrow> sorted_points env st = []"
  using sorted_points_ok(1)[of env st] by simp

lemma zero_table_facts:
  "length zero_table = SMART_TOU_QUANTUM_MAX_CNT" "configured (st\<lparr>quanta := zero_table\<rparr>) = []"
  "free_cnt (st\<lparr>quanta := zero_table\<rparr>) = SMART_TOU_QUANTUM_MAX_CNT" "table_ok (st\<lparr>quanta := zero_table\<rparr>)"
  by (simp_all add: zero_table_def configured_def free_cnt_def table_ok_def entry_ok_def zero_quantum_def
      filter_replicate)

theorem rebuild_exact:
  assumes "qsort_ok env"
    "Smart_Tou_RebuildOrUpdate_TimeQuantumConfig env TIMEQUANTUM_BUILD_REBUILD st = (k, st')"
  shows "mset (configured st') = mset (map (\<lambda>(i, j). period_entry st i j)
      (take SMART_TOU_QUANTUM_MAX_CNT (period_pairs env st (sorted_points env st))))"
    and "table_ok st'" and "\<exists>q. st' = st\<lparr>quanta := q\<rparr>"
proof -
  let ?z = "st\<lparr>quanta := zero_table\<rparr>"
  have c: "tou_cfg ?z = tou_cfg st" by simp
  note cf = cfg_only[OF c]
  have pp: "period_pairs env ?z = period_pairs env st" by (simp add: fun_eq_iff period_pairs_def cf)
  have "mset (configured st') = mset (map (\<lambda>(i, j). period_entry st i j)
      (take SMART_TOU_QUANTUM_MAX_CNT (period_pairs env st (sorted_points env st)))) \<and> table_ok st' \<and>
      (\<exists>q. st' = st\<lparr>quanta := q\<rparr>)"
  proof (cases "collect_quantum_idx st = []")
    case True
    then have "st' = ?z" using assms(2)
      by (auto simp: Smart_Tou_RebuildOrUpdate_TimeQuantumConfig_def Let_def)
    then show ?thesis using zero_table_facts sorted_points_Nil[OF assms(1) True]
      by (auto simp: period_pairs_def)
  next
    case False
    have "snd (append_build_from_sorted_idx_list env (sorted_points env st) ?z) = st'"
      using False assms(2) by (auto simp: Smart_Tou_RebuildOrUpdate_TimeQuantumConfig_def Let_def sorted_points_def)
    then obtain k' where a: "append_build_from_sorted_idx_list env (sorted_points env st) ?z = (k', st')"
      by (metis prod.collapse)
    note b = append_build_ok[OF _ a]
    have "table_ok st'"
      by (rule append_build_table_ok[OF zero_table_facts(4) sorted_points_ok(3)[OF assms(1)] _ a])
         (simp add: zero_table_facts)
    moreover have "\<exists>q. st' = st\<lparr>quanta := q\<rparr>"
      using b(1) by (auto simp: extends_table_def zero_table_facts)
    ultimately show ?thesis using b(2) by (simp add: zero_table_facts new_entries_pairs pp cf)
  qed
  then show "mset (configured st') = mset (map (\<lambda>(i, j). period_entry st i j)
      (take SMART_TOU_QUANTUM_MAX_CNT (period_pairs env st (sorted_points env st))))"
    and "table_ok st'" and "\<exists>q. st' = st\<lparr>quanta := q\<rparr>" by blast+
qed

text \<open>The points of one register, in time order.\<close>

definition register_points :: "tou_env \<Rightarrow> tou_state \<Rightarrow> u8 \<Rightarrow> u8 list" where
  "register_points env st i = filter (tou_units_compatible st i) (filter (usable env st) (sorted_points env st))"

definition register_periods :: "tou_state \<Rightarrow> u8 \<Rightarrow> tou_time_quantum list \<Rightarrow> tou_time_quantum list" where
  "register_periods st i es = filter (\<lambda>e. tou_units_compatible st i (start_time_index e)) es"

lemma pairs_of_register:
  "filter (\<lambda>p. tou_units_compatible st i (fst p)) (period_pairs env st (sorted_points env st)) =
   adjacent (register_points env st i)"
proof -
  let ?c = "tou_units_compatible st"
  have "filter (\<lambda>p. ?c i (fst p)) (period_pairs env st (sorted_points env st)) =
      pair_up ?c (register_points env st i)"
    unfolding period_pairs_def register_points_def
    by (rule pair_up_filter) (auto simp: tou_units_compatible_def)
  also have "\<dots> = adjacent (register_points env st i)"
    by (rule pair_up_adjacent) (auto simp: register_points_def tou_units_compatible_def)
  finally show ?thesis .
qed

lemma rebuild_register:
  assumes "qsort_ok env" "length (period_pairs env st (sorted_points env st)) \<le> SMART_TOU_QUANTUM_MAX_CNT"
    "Smart_Tou_RebuildOrUpdate_TimeQuantumConfig env TIMEQUANTUM_BUILD_REBUILD st = (k, st')"
  shows "mset (register_periods st i (configured st')) =
    mset (map (\<lambda>(a, b). period_entry st a b) (adjacent (register_points env st i)))"
proof -
  let ?ps = "period_pairs env st (sorted_points env st)"
  have s: "start_time_index (case p of (a, b) \<Rightarrow> period_entry st a b) = fst p" for p
    by (simp add: period_entry_def Let_def split: prod.split option.split)
  have "mset (configured st') = mset (map (\<lambda>(a, b). period_entry st a b) ?ps)"
    using rebuild_exact(1)[OF assms(1,3)] assms(2) by simp
  then have "mset (register_periods st i (configured st')) =
      mset (filter (\<lambda>e. tou_units_compatible st i (start_time_index e)) (map (\<lambda>(a, b). period_entry st a b) ?ps))"
    by (metis mset_filter register_periods_def)
  also have "filter (\<lambda>e. tou_units_compatible st i (start_time_index e)) (map (\<lambda>(a, b). period_entry st a b) ?ps) =
      map (\<lambda>(a, b). period_entry st a b) (filter (\<lambda>p. tou_units_compatible st i (fst p)) ?ps)"
    by (simp add: filter_map comp_def s)
  finally show ?thesis by (simp add: pairs_of_register)
qed

end
