(* ===== verification/Tou_Update.thy ===== *)
theory Tou_Update
  imports Tou_Quantum
begin

text \<open>
  What an update of the period table does, \<open>detect_and_remove_deleted\<close> and
  \<open>Smart_Tou_RebuildOrUpdate_TimeQuantumConfig\<close> of \<open>smart_ctrl/smart_tou_ctrl_v1.c\<close>: the fate of every entry
  (kept, ended, restarted), the points that lose their partner, and the commands issued.
\<close>

section \<open>The maps of used and present points\<close>

lemma unat_same: "unat a = unat b \<longleftrightarrow> a = (b :: 'a::len word)"
  by (simp add: word_unat_eq_iff)

lemma fold_mark:
  "length m = n \<Longrightarrow> length (fold (\<lambda>i m. if unat i < n then m[unat i := True] else m) xs m) = n \<and>
   (k < n \<longrightarrow> (fold (\<lambda>i m. if unat i < n then m[unat i := True] else m) xs m ! k \<longleftrightarrow>
     m ! k \<or> (\<exists>i \<in> set xs. unat (i :: u8) = k)))"
  by (induction xs arbitrary: m) (auto simp: nth_list_update)

lemma present_iff:
  "k < SMART_TOU_UNIT_MAX_CNT \<Longrightarrow> present_idx_map xs ! k \<longleftrightarrow> (\<exists>i \<in> set xs. unat i = k)"
  unfolding present_idx_map_def using fold_mark[of "replicate SMART_TOU_UNIT_MAX_CNT False" _ xs k] by simp

lemma present_at:
  "unat i < SMART_TOU_UNIT_MAX_CNT \<Longrightarrow> present_idx_map xs ! unat i \<longleftrightarrow> i \<in> set xs"
  by (auto simp: present_iff unat_same)

lemma mark_entry_ok:
  assumes "entry_ok e" "length m = SMART_TOU_UNIT_MAX_CNT"
  shows "length (mark_entry e m) = SMART_TOU_UNIT_MAX_CNT"
    and "unat i < SMART_TOU_UNIT_MAX_CNT \<Longrightarrow> mark_entry e m ! unat i \<longleftrightarrow>
      m ! unat i \<or> (status e \<noteq> TOU_PERIOD_STATUS_UNCONFIGURED \<and> i \<in> set (points_of e))"
  using assms by (auto simp: mark_entry_def Let_def points_of_def nth_list_update entry_ok_def unat_same)

lemma used_iff:
  assumes "\<forall>e \<in> set es. entry_ok e" "unat i < SMART_TOU_UNIT_MAX_CNT"
  shows "mark_used_timepoint_indices es ! unat i \<longleftrightarrow>
    i \<in> set (concat (map points_of (filter (\<lambda>e. status e \<noteq> TOU_PERIOD_STATUS_UNCONFIGURED) es)))"
proof -
  have "length (fold mark_entry es m) = SMART_TOU_UNIT_MAX_CNT \<and> (fold mark_entry es m ! unat i \<longleftrightarrow> m ! unat i \<or>
      i \<in> set (concat (map points_of (filter (\<lambda>e. status e \<noteq> TOU_PERIOD_STATUS_UNCONFIGURED) es))))"
    if "length m = SMART_TOU_UNIT_MAX_CNT" for m
    using assms that
  proof (induction es arbitrary: m)
    case (Cons e es)
    then show ?case using mark_entry_ok[of e m] by auto
  qed simp
  from this[of "replicate SMART_TOU_UNIT_MAX_CNT False"] show ?thesis
    using assms(2) by (simp add: mark_used_timepoint_indices_def)
qed

lemma new_points:
  assumes "table_ok st"
  shows "set (collect_new_timepoint_indices xs (mark_used_timepoint_indices (quanta st))) =
    {i \<in> set xs. unat i < SMART_TOU_UNIT_MAX_CNT} - set (concat (map points_of (configured st)))"
  using assms used_iff[of "quanta st"]
  by (auto simp: collect_new_timepoint_indices_def table_ok_def configured_def)


section \<open>The fate of an entry\<close>

definition both_present :: "bool list \<Rightarrow> tou_time_quantum \<Rightarrow> bool" where
  "both_present present e \<longleftrightarrow> start_present present e \<and> end_present present e"

definition stays :: "tou_env \<Rightarrow> bool list \<Rightarrow> tou_state \<Rightarrow> tou_time_quantum \<Rightarrow> bool" where
  "stays env present st e \<longleftrightarrow> both_present present e \<and> Smart_Tou_Is_Ctrl_Valid env st e \<and> ctrl_values_match st e"

definition restarts :: "tou_env \<Rightarrow> bool list \<Rightarrow> tou_state \<Rightarrow> tou_time_quantum \<Rightarrow> bool" where
  "restarts env present st e \<longleftrightarrow> both_present present e \<and> Smart_Tou_Is_Ctrl_Valid env st e \<and> \<not> ctrl_values_match st e"

definition surviving :: "tou_env \<Rightarrow> bool list \<Rightarrow> tou_state \<Rightarrow> tou_time_quantum \<Rightarrow> tou_time_quantum" where
  "surviving env present st e =
     (if status e = TOU_PERIOD_STATUS_UNCONFIGURED \<or> stays env present st e then e else zero_quantum)"

definition ending :: "tou_env \<Rightarrow> bool list \<Rightarrow> tou_state \<Rightarrow> tou_time_quantum \<Rightarrow> smart_tou_ctrl_result list" where
  "ending env present st e =
     (if status e = TOU_PERIOD_STATUS_ACTIVE \<and> \<not> stays env present st e \<and> \<not> restarts env present st e
      then [end_result e] else [])"

text \<open>The points whose configuration is erased because their partner is gone.\<close>

definition orphans :: "bool list \<Rightarrow> tou_time_quantum \<Rightarrow> u8 list" where
  "orphans present e =
     (if status e = TOU_PERIOD_STATUS_UNCONFIGURED \<or> both_present present e then []
      else if end_present present e then [end_time_index e]
      else if start_present present e then [start_time_index e] else [])"

definition erase_point :: "u8 \<Rightarrow> smart_tou_ctrl_config \<Rightarrow> smart_tou_ctrl_config" where
  "erase_point i c = c\<lparr>smart_tou_unit := (smart_tou_unit c)[unat i := (smart_tou_unit c ! unat i)\<lparr>time_cfg := zero_time_cfg\<rparr>]\<rparr>"

lemma clear_time_cfg_erase:
  "clear_time_cfg (unat i) st = st\<lparr>tou_cfg := erase_point i (tou_cfg st), write_flag := True\<rparr>"
  by (simp add: clear_time_cfg_def erase_point_def unit_at_def)

lemma erase_other:
  "j \<notin> set is \<Longrightarrow> smart_tou_unit (fold erase_point is c) ! unat j = smart_tou_unit c ! unat j"
proof (induction "is" arbitrary: c)
  case (Cons i "is")
  then have "unat i \<noteq> unat j" by (auto simp: unat_same)
  then show ?case using Cons by (simp add: erase_point_def)
qed simp

lemma orphans_points:
  assumes "entry_ok e"
  shows "set (orphans present e) \<subseteq> set (points_of e)"
  using assms by (auto simp: orphans_def points_of_def end_present_def)

text \<open>Where the entry to be removed is found.\<close>

lemma table_split:
  assumes "table_ok st" "quanta st = pre @ e # suf" "status e \<noteq> TOU_PERIOD_STATUS_UNCONFIGURED"
    "x \<in> set pre \<union> set suf" "status x \<noteq> TOU_PERIOD_STATUS_UNCONFIGURED"
  shows "set (points_of x) \<inter> set (points_of e) = {}"
  using assms unfolding table_ok_def configured_def by auto

lemma entry_not_zero:
  assumes "table_ok st" "e \<in> set (quanta st)" "status e \<noteq> TOU_PERIOD_STATUS_UNCONFIGURED"
  shows "\<not> entry_matches (start_time_index e) (end_time_index e) zero_quantum"
proof
  assume "entry_matches (start_time_index e) (end_time_index e) zero_quantum"
  then have "points_of e = [0, 0]" by (simp add: entry_matches_def zero_quantum_def points_of_def)
  moreover have "e \<in> set (configured st)" using assms by (simp add: configured_def)
  then obtain as bs where "configured st = as @ e # bs" by (meson split_list)
  ultimately show False using assms(1) by (auto simp: table_ok_def)
qed

lemma locate_entry:
  assumes "table_ok st0" "quanta st0 = pre @ e # suf" "status e \<noteq> TOU_PERIOD_STATUS_UNCONFIGURED"
    "quanta st = map f pre @ e # suf" "\<And>x. f x = x \<or> f x = zero_quantum"
  shows "first_idx (entry_matches (start_time_index e) (end_time_index e)) (quanta st) = Some (length pre)"
proof (rule first_idx_eqI)
  fix j assume j: "j < length pre"
  let ?x = "pre ! j"
  have z: "\<not> entry_matches (start_time_index e) (end_time_index e) zero_quantum"
    using assms(1-3) by (intro entry_not_zero) auto
  have "\<not> entry_matches (start_time_index e) (end_time_index e) ?x"
  proof (cases "status ?x = TOU_PERIOD_STATUS_UNCONFIGURED")
    case True
    have "entry_ok ?x" using assms(1,2) j by (auto simp: table_ok_def)
    then show ?thesis using True z by (simp add: entry_ok_def)
  next
    case False
    then have "set (points_of ?x) \<inter> set (points_of e) = {}"
      using table_split[OF assms(1-3), of ?x] j by simp
    then show ?thesis by (auto simp: entry_matches_def points_of_def)
  qed
  then show "\<not> entry_matches (start_time_index e) (end_time_index e) (quanta st ! j)"
    using assms(4) assms(5)[of ?x] z j by (auto simp: nth_append)
qed (simp_all add: assms(4) entry_matches_def nth_append)

lemma clear_entry_effect:
  fixes env :: tou_env and st :: tou_state
  assumes "i < SMART_TOU_QUANTUM_MAX_CNT"
  defines "st' \<equiv> clear_time_quantum_entry env i st"
  shows "quanta st' = (quanta st)[i := zero_quantum]" "tou_cfg st' = tou_cfg st" "write_flag st' = write_flag st"
    and "prompt env \<Longrightarrow> queue_ok st \<Longrightarrow> emitted st' = emitted st @
      (if status (quanta st ! i) = TOU_PERIOD_STATUS_ACTIVE then [end_result (quanta st ! i)] else []) \<and> queue_ok st'"
proof -
  have "core st' = core (st\<lparr>quanta := (quanta st)[i := zero_quantum]\<rparr>)"
    using clear_entry_core[of env i st] assms(1) by (simp add: st'_def)
  note c = core_fields[OF this]
  show "quanta st' = (quanta st)[i := zero_quantum]" "tou_cfg st' = tou_cfg st" "write_flag st' = write_flag st"
    using c by simp_all
  assume p: "prompt env" "queue_ok st"
  define e where "e = quanta st ! i"
  define s1 where "s1 = snd (Append_Smart_Tou_TimeCtrl_Status env (end_result e) (snd (tou_calloc env st)))"
  have s1: "queue_ok s1" "emitted s1 = emitted st"
    using p(2) by (simp_all add: s1_def append_frame calloc_frame)
  obtain s2 where s2: "queue_send env (end_result e) s1 = (True, s2)" "emitted s2 = emitted s1 @ [end_result e]"
      "queue_ok s2" using queue_send_prompt[OF p(1) s1(1)] by metis
  have f: "emitted (s\<lparr>quanta := q\<rparr>) = emitted s" "queue_ok (s\<lparr>quanta := q\<rparr>) = queue_ok s" for s q
    by (simp_all add: emitted_def queue_ok_def)
  have "st' = (let s = (if status e = TOU_PERIOD_STATUS_ACTIVE then s2 else st)
               in s\<lparr>quanta := (quanta s)[i := zero_quantum]\<rparr>)"
    using assms(1) s2(1) calloc_frame(5)[OF p(1), of st] unfolding s1_def
    by (simp add: st'_def clear_time_quantum_entry_def Let_def case_prod_beta e_def[symmetric])
  then show "emitted st' = emitted st @
      (if status (quanta st ! i) = TOU_PERIOD_STATUS_ACTIVE then [end_result (quanta st ! i)] else []) \<and> queue_ok st'"
    using s1 s2 p(2) by (simp add: f Let_def e_def[symmetric])
qed


section \<open>One entry\<close>

text \<open>The state after the entries \<open>pre\<close> have been looked at, \<open>suf\<close> to come.\<close>

definition detect_progress ::
  "tou_env \<Rightarrow> bool list \<Rightarrow> tou_state \<Rightarrow> tou_time_quantum list \<Rightarrow> tou_time_quantum list \<Rightarrow> tou_state \<Rightarrow> bool" where
  "detect_progress env P st0 pre suf st \<longleftrightarrow>
     quanta st = map (surviving env P st0) pre @ suf \<and>
     tou_cfg st = fold erase_point (concat (map (orphans P) pre)) (tou_cfg st0) \<and>
     write_flag st = (write_flag st0 \<or> concat (map (orphans P) pre) \<noteq> []) \<and>
     (prompt env \<and> queue_ok st0 \<longrightarrow>
        emitted st = emitted st0 @ concat (map (ending env P st0) pre) \<and> queue_ok st)"

lemma same_verdict:
  assumes "\<And>i. i \<in> set (points_of e) \<Longrightarrow> unit_at st (unat i) = unit_at st0 (unat i)" "both_present P e"
  shows "Smart_Tou_Is_Ctrl_Valid env st e = Smart_Tou_Is_Ctrl_Valid env st0 e"
    "ctrl_values_match st e = ctrl_values_match st0 e"
proof -
  have "end_time_index e \<noteq> 0xFF" using assms(2) by (simp add: both_present_def end_present_def)
  then have "unit_at st (unat (start_time_index e)) = unit_at st0 (unat (start_time_index e))"
    "unit_at st (unat (end_time_index e)) = unit_at st0 (unat (end_time_index e))"
    by (auto intro!: assms(1) simp: points_of_def)
  then show "Smart_Tou_Is_Ctrl_Valid env st e = Smart_Tou_Is_Ctrl_Valid env st0 e"
    "ctrl_values_match st e = ctrl_values_match st0 e"
    by (simp_all add: Smart_Tou_Is_Ctrl_Valid_def ctrl_values_match_def day_valid_def)
qed

lemma demote_effect:
  assumes "first_idx (entry_matches si ei) (quanta st) = Some i"
  shows "quanta (demote_matching si ei st) = (quanta st)[i := (quanta st ! i)\<lparr>status :=
      (if status (quanta st ! i) = TOU_PERIOD_STATUS_ACTIVE then TOU_PERIOD_STATUS_CONFIGURED_IDLE else status (quanta st ! i))\<rparr>]"
    "tou_cfg (demote_matching si ei st) = tou_cfg st" "write_flag (demote_matching si ei st) = write_flag st"
    "emitted (demote_matching si ei st) = emitted st" "queue_ok (demote_matching si ei st) = queue_ok st"
    "first_idx (entry_matches si ei) (quanta (demote_matching si ei st)) = Some i"
proof -
  note f = first_idx_SomeD[OF assms]
  show q: "quanta (demote_matching si ei st) = (quanta st)[i := (quanta st ! i)\<lparr>status :=
      (if status (quanta st ! i) = TOU_PERIOD_STATUS_ACTIVE then TOU_PERIOD_STATUS_CONFIGURED_IDLE else status (quanta st ! i))\<rparr>]"
    using assms by (simp add: demote_matching_def)
  show "tou_cfg (demote_matching si ei st) = tou_cfg st" "write_flag (demote_matching si ei st) = write_flag st"
    "emitted (demote_matching si ei st) = emitted st" "queue_ok (demote_matching si ei st) = queue_ok st"
    using assms by (simp_all add: demote_matching_def emitted_def queue_ok_def)
  show "first_idx (entry_matches si ei) (quanta (demote_matching si ei st)) = Some i"
    unfolding q using f by (intro first_idx_eqI) (auto simp: entry_matches_def)
qed

lemma detect_step:
  assumes ok: "table_ok st0" "quanta st0 = pre @ e # suf" and pr: "detect_progress env P st0 pre (e # suf) st"
  shows "detect_progress env P st0 (pre @ [e]) suf (detect_entry env P e st)"
proof (cases "status e = TOU_PERIOD_STATUS_UNCONFIGURED")
  case True
  then have "detect_entry env P e st = st" by (simp add: detect_entry_def Let_def)
  then show ?thesis using pr True by (simp add: detect_progress_def surviving_def orphans_def ending_def)
next
  case conf: False
  let ?si = "start_time_index e" and ?ei = "end_time_index e" and ?n = "length pre"
  have qst: "quanta st = map (surviving env P st0) pre @ e # suf"
    and cfg: "tou_cfg st = fold erase_point (concat (map (orphans P) pre)) (tou_cfg st0)"
    and wf: "write_flag st = (write_flag st0 \<or> concat (map (orphans P) pre) \<noteq> [])"
    and em: "prompt env \<Longrightarrow> queue_ok st0 \<Longrightarrow> emitted st = emitted st0 @ concat (map (ending env P st0) pre) \<and> queue_ok st"
    using pr by (auto simp: detect_progress_def)
  have eok: "entry_ok e" using ok by (auto simp: table_ok_def)
  have loc: "first_idx (entry_matches ?si ?ei) (quanta st) = Some ?n"
    by (rule locate_entry[OF ok conf qst]) (auto simp: surviving_def)
  have n: "?n < SMART_TOU_QUANTUM_MAX_CNT" "quanta st ! ?n = e"
    using ok qst by (auto simp: table_ok_def nth_append dest: arg_cong[of _ _ length])
  have units: "unit_at st (unat i) = unit_at st0 (unat i)" if i: "i \<in> set (points_of e)" for i
  proof -
    have "i \<notin> set (orphans P x)" if "x \<in> set pre" for x
    proof (cases "status x = TOU_PERIOD_STATUS_UNCONFIGURED")
      case False
      have "entry_ok x" using ok that by (auto simp: table_ok_def)
      then show ?thesis using table_split[OF ok conf, of x] that False i orphans_points[of x P] by auto
    qed (simp add: orphans_def)
    then have "i \<notin> set (concat (map (orphans P) pre))" by auto
    then show ?thesis by (simp add: unit_at_def cfg erase_other)
  qed
  have upd: "(quanta st)[?n := zero_quantum] = map (surviving env P st0) pre @ zero_quantum # suf"
    by (simp add: qst list_update_append)
  note clear = clear_entry_effect[OF n(1), of env]
  have clr: "clear_matching_time_quantum_entries env ?si ?ei s = clear_time_quantum_entry env ?n s"
    if "first_idx (entry_matches ?si ?ei) (quanta s) = Some ?n" for s
    using that by (simp add: clear_matching_time_quantum_entries_def)
  show ?thesis
  proof (cases "both_present P e")
    case True
    note v = same_verdict[of e st st0, OF units True]
    have d: "detect_entry env P e st =
      (if Smart_Tou_Is_Ctrl_Valid env st0 e \<and> ctrl_values_match st0 e then st
       else clear_matching_time_quantum_entries env ?si ?ei
              (if Smart_Tou_Is_Ctrl_Valid env st0 e then demote_matching ?si ?ei st else st))"
      using conf True v by (simp add: detect_entry_def Let_def both_present_def)
    have orph: "orphans P e = []" using True by (simp add: orphans_def)
    consider (stays) "stays env P st0 e" | (restarts) "restarts env P st0 e"
      | (ends) "\<not> stays env P st0 e" "\<not> restarts env P st0 e" by blast
    then show ?thesis
    proof cases
      case stays
      then have "detect_entry env P e st = st" by (simp add: d stays_def)
      then show ?thesis using stays qst cfg wf em orph by (simp add: detect_progress_def surviving_def ending_def)
    next
      case restarts
      let ?s = "demote_matching ?si ?ei st"
      note dm = demote_effect[OF loc]
      have "detect_entry env P e st = clear_time_quantum_entry env ?n ?s"
        using restarts by (simp add: d restarts_def clr dm(6))
      moreover have "\<not> stays env P st0 e" using restarts by (auto simp: stays_def restarts_def)
      moreover have "(quanta ?s)[?n := zero_quantum] = map (surviving env P st0) pre @ zero_quantum # suf"
        by (simp add: dm(1) upd)
      moreover have "status (quanta ?s ! ?n) \<noteq> TOU_PERIOD_STATUS_ACTIVE"
        using n qst by (simp add: dm(1))
      ultimately show ?thesis using clear[of ?s] restarts conf cfg wf em orph dm(2-5)
        by (auto simp: detect_progress_def surviving_def ending_def)
    next
      case ends
      then have "detect_entry env P e st = clear_time_quantum_entry env ?n st"
        using True by (auto simp: d stays_def restarts_def clr loc)
      then show ?thesis using clear[of st] ends conf cfg wf em orph upd n(2)
        by (auto simp: detect_progress_def surviving_def ending_def)
    qed
  next
    case False
    then have ns: "\<not> stays env P st0 e" "\<not> restarts env P st0 e" by (auto simp: stays_def restarts_def)
    define s1 where "s1 = clear_time_quantum_entry env ?n st"
    have d: "detect_entry env P e st = fold (\<lambda>i s. clear_time_cfg (unat i) s) (orphans P e) s1"
      using conf False by (auto simp: detect_entry_def Let_def both_present_def clr loc s1_def orphans_def)
    have base: "quanta s1 = map (surviving env P st0) pre @ zero_quantum # suf" "tou_cfg s1 = tou_cfg st"
      "write_flag s1 = write_flag st"
      "prompt env \<Longrightarrow> queue_ok st \<Longrightarrow> emitted s1 = emitted st @
         (if status e = TOU_PERIOD_STATUS_ACTIVE then [end_result e] else []) \<and> queue_ok s1"
      using clear[of st] upd n(2) by (simp_all add: s1_def)
    have er: "clear_time_cfg (unat i) s = s\<lparr>tou_cfg := erase_point i (tou_cfg s), write_flag := True\<rparr>" for i s
      by (rule clear_time_cfg_erase)
    have "orphans P e = [] \<or> (\<exists>i. orphans P e = [i])" by (auto simp: orphans_def)
    then show ?thesis using base ns conf cfg wf em
      by (auto simp: detect_progress_def surviving_def ending_def d er emitted_def queue_ok_def)
  qed
qed

theorem detect_exact:
  fixes env :: tou_env
  assumes "table_ok st" "xs \<noteq> []"
  defines "P \<equiv> present_idx_map xs" and "st' \<equiv> detect_and_remove_deleted env (quanta st) (Some xs) st"
  shows "quanta st' = map (surviving env P st) (quanta st)"
    and "tou_cfg st' = fold erase_point (concat (map (orphans P) (quanta st))) (tou_cfg st)"
    and "prompt env \<Longrightarrow> queue_ok st \<Longrightarrow> emitted st' = emitted st @ concat (map (ending env P st) (quanta st)) \<and> queue_ok st'"
proof -
  have run: "detect_progress env P st (pre @ suf) [] (fold (detect_entry env P) suf s)"
    if "quanta st = pre @ suf" "detect_progress env P st pre suf s" for pre suf s
    using that
  proof (induction suf arbitrary: pre s)
    case (Cons e suf)
    from detect_step[OF assms(1) Cons.prems] Cons.IH[of "pre @ [e]"] Cons.prems(1) show ?case by simp
  qed simp
  have "detect_progress env P st [] (quanta st) st" by (simp add: detect_progress_def)
  moreover have "st' = fold (detect_entry env P) (quanta st) st"
    using assms(2) by (cases xs) (simp_all add: st'_def P_def detect_and_remove_deleted_def)
  ultimately have "detect_progress env P st (quanta st) [] st'" using run[of "[]" "quanta st" st] by simp
  then show "quanta st' = map (surviving env P st) (quanta st)"
    and "tou_cfg st' = fold erase_point (concat (map (orphans P) (quanta st))) (tou_cfg st)"
    and "prompt env \<Longrightarrow> queue_ok st \<Longrightarrow> emitted st' = emitted st @ concat (map (ending env P st) (quanta st)) \<and> queue_ok st'"
    by (simp_all add: detect_progress_def)
qed


section \<open>The update\<close>

lemma clear_all:
  fixes env :: tou_env
  assumes "table_ok st"
  defines "st' \<equiv> detect_and_remove_deleted env (quanta st) None st"
  shows "quanta st' = zero_table" "tou_cfg st' = tou_cfg st"
    and "prompt env \<Longrightarrow> queue_ok st \<Longrightarrow> emitted st' = emitted st @
      concat (map (\<lambda>e. if status e = TOU_PERIOD_STATUS_ACTIVE then [end_result e] else []) (quanta st)) \<and> queue_ok st'"
proof -
  let ?f = "clear_time_quantum_entry env" and ?n = SMART_TOU_QUANTUM_MAX_CNT
  let ?fin = "\<lambda>e. if status e = TOU_PERIOD_STATUS_ACTIVE then [end_result e] else []"
  have len: "length (quanta st) = ?n" using assms(1) by (simp add: table_ok_def)
  have run: "quanta (fold ?f [0..<k] st) = replicate k zero_quantum @ drop k (quanta st) \<and>
    tou_cfg (fold ?f [0..<k] st) = tou_cfg st \<and>
    (prompt env \<and> queue_ok st \<longrightarrow> emitted (fold ?f [0..<k] st) = emitted st @ concat (map ?fin (take k (quanta st))) \<and>
       queue_ok (fold ?f [0..<k] st))" if "k \<le> ?n" for k
    using that
  proof (induction k)
    case (Suc k)
    let ?s = "fold ?f [0..<k] st"
    have k: "k < ?n" "k < length (quanta st)" using Suc.prems len by simp_all
    note IH = Suc.IH[OF less_imp_le[OF k(1)]]
    note e = clear_entry_effect[OF k(1), of env ?s]
    have at: "quanta ?s ! k = quanta st ! k" using IH k(2) by (simp add: nth_append)
    have "(quanta ?s)[k := zero_quantum] = replicate (Suc k) zero_quantum @ drop (Suc k) (quanta st)"
      using IH k(2) by (simp add: list_update_append replicate_app_Cons_same drop_nth_Cons)
    then show ?case using e IH at k(2) by (auto simp: take_Suc_conv_app_nth)
  qed simp
  have "st' = fold ?f [0..<?n] st" by (simp add: st'_def detect_and_remove_deleted_def)
  then show "quanta st' = zero_table" "tou_cfg st' = tou_cfg st"
    and "prompt env \<Longrightarrow> queue_ok st \<Longrightarrow> emitted st' = emitted st @ concat (map ?fin (quanta st)) \<and> queue_ok st'"
    using run[of ?n] len by (simp_all add: zero_table_def)
qed

lemma ending_nothing_present:
  "ending env (present_idx_map []) st e = (if status e = TOU_PERIOD_STATUS_ACTIVE then [end_result e] else [])"
proof -
  have "\<not> both_present (present_idx_map []) e"
    by (auto simp: both_present_def start_present_def present_idx_map_def)
  then show ?thesis by (simp add: ending_def stays_def restarts_def)
qed

lemma surviving_table_ok:
  assumes "table_ok st" "quanta st1 = map (surviving env P st) (quanta st)"
  shows "table_ok st1" "configured st1 = filter (stays env P st) (configured st)"
proof -
  have z: "status zero_quantum = TOU_PERIOD_STATUS_UNCONFIGURED" by (simp add: zero_quantum_def)
  have c: "filter (\<lambda>e. status e \<noteq> TOU_PERIOD_STATUS_UNCONFIGURED) (map (surviving env P st) q) =
      filter (stays env P st) (filter (\<lambda>e. status e \<noteq> TOU_PERIOD_STATUS_UNCONFIGURED) q)" for q
    by (induction q) (auto simp: surviving_def z)
  then show conf: "configured st1 = filter (stays env P st) (configured st)"
    by (simp add: configured_def assms(2) del: filter_filter)
  have "distinct (concat (map points_of (filter (stays env P st) es)))"
    if "distinct (concat (map points_of es))" for es
    using that by (induction es) auto
  moreover have "\<forall>e \<in> set (quanta st1). entry_ok e"
    using assms by (auto simp: table_ok_def surviving_def entry_ok_def z)
  ultimately show "table_ok st1" using assms by (simp add: table_ok_def conf)
qed

text \<open>The state between removal and append, and the points that are appended.\<close>

definition update_removed :: "tou_env \<Rightarrow> tou_state \<Rightarrow> tou_state" where
  "update_removed env st = detect_and_remove_deleted env (quanta st) (Some (sorted_points env st)) st"

definition update_new :: "tou_env \<Rightarrow> tou_state \<Rightarrow> u8 list" where
  "update_new env st = collect_new_timepoint_indices (sorted_points env st)
     (mark_used_timepoint_indices (quanta (update_removed env st)))"

lemma append_emitted:
  assumes "extends_table st st'"
  shows "emitted st' = emitted st" "queue_ok st' = queue_ok st" "tou_cfg st' = tou_cfg st"
  using assms by (auto simp: extends_table_def emitted_def queue_ok_def)

lemma update_steps:
  assumes q: "qsort_ok env" and ok: "table_ok st" and ne: "collect_quantum_idx st \<noteq> []"
    and run: "Smart_Tou_RebuildOrUpdate_TimeQuantumConfig env TIMEQUANTUM_BUILD_UPDATE st = (k, st')"
  shows "table_ok (update_removed env st)" "table_ok st'" "extends_table (update_removed env st) st'"
    "mset (configured st') = mset (configured (update_removed env st)) +
       mset (new_entries env (update_removed env st) (update_new env st))"
proof -
  let ?xs = "sorted_points env st" and ?r = "update_removed env st" and ?new = "update_new env st"
  have xs: "?xs \<noteq> []" using ne sorted_points_ok(2)[OF q, of st] by (metis set_empty)
  have "quanta ?r = map (surviving env (present_idx_map ?xs) st) (quanta st)"
    unfolding update_removed_def by (rule detect_exact(1)[OF ok xs])
  then show r: "table_ok ?r" by (rule surviving_table_ok(1)[OF ok])
  then have len: "length (quanta ?r) = SMART_TOU_QUANTUM_MAX_CNT" by (simp add: table_ok_def)
  have st': "st' = (if ?new \<noteq> [] then snd (append_build_from_sorted_idx_list env ?new ?r) else ?r)"
    using run ne
    by (auto simp: Smart_Tou_RebuildOrUpdate_TimeQuantumConfig_def Let_def update_removed_def update_new_def sorted_points_def)
  then obtain n where a: "append_build_from_sorted_idx_list env ?new ?r = (n, st')"
    by (cases "?new = []"; cases "append_build_from_sorted_idx_list env ?new ?r")
       (auto simp: append_build_from_sorted_idx_list_def)
  note b = append_build_ok[OF len a]
  have "distinct ?new" using sorted_points_ok(3)[OF q, of st]
    by (simp add: update_new_def collect_new_timepoint_indices_def)
  moreover have "set ?new \<inter> set (concat (map points_of (configured ?r))) = {}"
    using new_points[OF r, of ?xs] by (auto simp: update_new_def)
  ultimately show "table_ok st'" using append_build_table_ok[OF r _ _ a] by blast
  show "extends_table ?r st'"
    "mset (configured st') = mset (configured ?r) + mset (new_entries env ?r ?new)"
    using b by simp_all
qed


section \<open>The table agrees with the configuration\<close>

text \<open>An entry describes points that are selected today, with the register and the values the
  configuration has for them.\<close>

definition entry_current :: "tou_env \<Rightarrow> tou_state \<Rightarrow> tou_time_quantum \<Rightarrow> bool" where
  "entry_current env st e \<longleftrightarrow>
     usable env st (start_time_index e) \<and>
     (if status e = TOU_PERIOD_STATUS_START_ONLY then e = period_entry st (start_time_index e) None
      else usable env st (end_time_index e) \<and>
           tou_units_compatible st (start_time_index e) (end_time_index e) \<and>
           ctrl e = ctrl (period_entry st (start_time_index e) (Some (end_time_index e))))"

lemma new_entry_current:
  assumes "e \<in> set (new_entries env st xs)"
  shows "entry_current env st e"
proof -
  from assms obtain i j where e: "e = period_entry st i j" "(i, j) \<in> set (period_pairs env st xs)"
    by (auto simp: new_entries_pairs dest: in_set_takeD)
  show ?thesis
  proof (cases j)
    case None
    then show ?thesis using period_pairs_in(1)[OF e(2)]
      by (simp add: e(1) entry_current_def period_entry_def Let_def)
  next
    case (Some k)
    then show ?thesis using period_pairs_in(1)[OF e(2)] period_pairs_end[OF e(2)[unfolded Some]]
      by (simp add: e(1) entry_current_def period_entry_def Let_def)
  qed
qed

lemma ucast_2_8: "(ucast (a :: 2 word) :: u8) = ucast b \<longleftrightarrow> a = b"
proof -
  have "unat (ucast c :: u8) = unat c" for c :: "2 word"
    using unsigned_less[of c, where 'a = nat] by (simp add: unsigned_ucast_eq take_bit_nat_eq_self)
  then show ?thesis by (metis unat_same)
qed

lemma staying_current:
  assumes "entry_ok e" "stays env P st e"
    "\<And>i. i \<in> set (points_of e) \<Longrightarrow> unit_at st' (unat i) = unit_at st (unat i)"
  shows "entry_current env st' e"
proof -
  have b: "both_present P e" and so: "status e \<noteq> TOU_PERIOD_STATUS_START_ONLY" and ff: "end_time_index e \<noteq> 0xFF"
    using assms(2) by (auto simp: stays_def both_present_def end_present_def)
  note v = same_verdict[of e st' st, OF assms(3) b]
  have valid: "Smart_Tou_Is_Ctrl_Valid env st' e" "ctrl_values_match st' e"
    using assms(2) v by (simp_all add: stays_def)
  then show ?thesis using so
    by (auto simp: entry_current_def Smart_Tou_Is_Ctrl_Valid_def ctrl_values_match_def Let_def usable_def
        tou_units_compatible_def period_entry_def ucast_2_8 split: if_splits)
qed

lemma entry_current_cong:
  assumes "tou_cfg s = tou_cfg t"
  shows "entry_current env s e = entry_current env t e"
  using cfg_only[OF assms] by (simp add: entry_current_def)

lemma orphans_elsewhere:
  assumes "table_ok st" "e \<in> set (quanta st)" "both_present P e"
    "status e \<noteq> TOU_PERIOD_STATUS_UNCONFIGURED" "i \<in> set (points_of e)"
  shows "i \<notin> set (concat (map (orphans P) (quanta st)))"
proof
  assume "i \<in> set (concat (map (orphans P) (quanta st)))"
  then obtain x where x: "x \<in> set (quanta st)" "i \<in> set (orphans P x)" by auto
  from assms(2) obtain as bs where q: "quanta st = as @ e # bs" by (meson split_list)
  have "x \<noteq> e" using x(2) assms(3) by (auto simp: orphans_def)
  then have "x \<in> set as \<union> set bs" using x(1) q by auto
  moreover have "status x \<noteq> TOU_PERIOD_STATUS_UNCONFIGURED" using x(2) by (auto simp: orphans_def)
  moreover have "i \<in> set (points_of x)"
    using x assms(1) orphans_points[of x P] by (auto simp: table_ok_def)
  ultimately show False using table_split[OF assms(1) q assms(4)] assms(5) by blast
qed

lemma update_all_current:
  assumes q: "qsort_ok env" and ok: "table_ok st"
    and run: "Smart_Tou_RebuildOrUpdate_TimeQuantumConfig env TIMEQUANTUM_BUILD_UPDATE st = (k, st')"
  shows "table_ok st'" "\<forall>e \<in> set (configured st'). entry_current env st' e"
proof -
  have "table_ok st' \<and> (\<forall>e \<in> set (configured st'). entry_current env st' e)"
  proof (cases "collect_quantum_idx st = []")
    case True
    then have "st' = detect_and_remove_deleted env (quanta st) None st"
      using run by (simp add: Smart_Tou_RebuildOrUpdate_TimeQuantumConfig_def)
    then have "quanta st' = zero_table" using clear_all(1)[OF ok] by simp
    then have "st'\<lparr>quanta := zero_table\<rparr> = st'" by simp
    then show ?thesis using zero_table_facts(2,4)[of st'] by simp
  next
    case False
    note u = update_steps[OF q ok False run]
    let ?xs = "sorted_points env st" and ?r = "update_removed env st"
    have xs: "?xs \<noteq> []" using False sorted_points_ok(2)[OF q, of st] by (metis set_empty)
    note d = detect_exact[OF ok xs, of env, folded update_removed_def]
    note c = append_emitted(3)[OF u(3)]
    have "entry_current env st' e" if e: "e \<in> set (configured st')" for e
    proof (cases "e \<in> set (configured ?r)")
      case True
      then have e: "e \<in> set (configured st)" "stays env (present_idx_map ?xs) st e"
        using surviving_table_ok(2)[OF ok d(1)] by auto
      have conf: "e \<in> set (quanta st)" "status e \<noteq> TOU_PERIOD_STATUS_UNCONFIGURED"
        using e(1) by (auto simp: configured_def)
      have "entry_current env ?r e"
      proof (rule staying_current[OF _ e(2)])
        show "entry_ok e" using ok conf by (auto simp: table_ok_def)
        fix i assume "i \<in> set (points_of e)"
        then have "i \<notin> set (concat (map (orphans (present_idx_map ?xs)) (quanta st)))"
          using orphans_elsewhere[OF ok conf(1) _ conf(2)] e(2) by (auto simp: stays_def)
        then show "unit_at ?r (unat i) = unit_at st (unat i)" by (simp add: unit_at_def d(2) erase_other)
      qed
      then show ?thesis using entry_current_cong[OF c] by simp
    next
      case False
      then have "e \<in> set (new_entries env ?r (update_new env st))"
        using mset_eq_setD[of "configured st'" "configured ?r @ new_entries env ?r (update_new env st)"] u(4) e by auto
      then show ?thesis using new_entry_current entry_current_cong[OF c] by blast
    qed
    then show ?thesis using u(2) by blast
  qed
  then show "table_ok st'" "\<forall>e \<in> set (configured st'). entry_current env st' e" by blast+
qed

lemma rebuild_all_current:
  assumes q: "qsort_ok env"
    and run: "Smart_Tou_RebuildOrUpdate_TimeQuantumConfig env TIMEQUANTUM_BUILD_REBUILD st = (k, st')"
  shows "\<forall>e \<in> set (configured st'). entry_current env st' e"
proof
  fix e assume e: "e \<in> set (configured st')"
  note r = rebuild_exact[OF q run]
  let ?z = "st\<lparr>quanta := zero_table\<rparr>"
  have c: "tou_cfg st = tou_cfg ?z" "tou_cfg st' = tou_cfg ?z" using r(3) by auto
  have "period_pairs env st = period_pairs env ?z"
    by (intro ext) (simp add: period_pairs_def cfg_only[OF c(1)])
  then have "map (\<lambda>(i, j). period_entry st i j) (take SMART_TOU_QUANTUM_MAX_CNT (period_pairs env st (sorted_points env st))) =
      new_entries env ?z (sorted_points env st)"
    by (simp add: new_entries_pairs zero_table_facts cfg_only[OF c(1)])
  then have "e \<in> set (new_entries env ?z (sorted_points env st))" using mset_eq_setD[OF r(1)] e by simp
  then show "entry_current env st' e" using new_entry_current entry_current_cong[OF c(2)] by blast
qed

lemma update_emits:
  assumes q: "qsort_ok env" and ok: "table_ok st" and p: "prompt env" "queue_ok st"
    and run: "Smart_Tou_RebuildOrUpdate_TimeQuantumConfig env TIMEQUANTUM_BUILD_UPDATE st = (k, st')"
  shows "emitted st' = emitted st @ concat (map (ending env (present_idx_map (sorted_points env st)) st) (quanta st))"
    and "s < SMART_TOU_QUANTUM_MAX_CNT \<Longrightarrow> stays env (present_idx_map (sorted_points env st)) st (quanta st ! s) \<Longrightarrow>
      status (quanta st ! s) \<noteq> TOU_PERIOD_STATUS_UNCONFIGURED \<Longrightarrow> quanta st' ! s = quanta st ! s"
proof -
  let ?xs = "sorted_points env st" and ?r = "update_removed env st"
  let ?P = "present_idx_map ?xs"
  have "emitted st' = emitted st @ concat (map (ending env ?P st) (quanta st)) \<and>
    (s < SMART_TOU_QUANTUM_MAX_CNT \<and> stays env ?P st (quanta st ! s) \<and>
     status (quanta st ! s) \<noteq> TOU_PERIOD_STATUS_UNCONFIGURED \<longrightarrow> quanta st' ! s = quanta st ! s)"
  proof (cases "collect_quantum_idx st = []")
    case True
    then have "st' = detect_and_remove_deleted env (quanta st) None st"
      using run by (simp add: Smart_Tou_RebuildOrUpdate_TimeQuantumConfig_def)
    moreover have "\<not> stays env (present_idx_map []) st e" for e
      by (auto simp: stays_def both_present_def start_present_def present_idx_map_def)
    ultimately show ?thesis using clear_all(3)[OF ok p] sorted_points_Nil[OF q True]
      by (simp add: ending_nothing_present[abs_def])
  next
    case False
    note u = update_steps[OF q ok False run]
    have xs: "?xs \<noteq> []" using False sorted_points_ok(2)[OF q, of st] by (metis set_empty)
    note d = detect_exact[OF ok xs, of env, folded update_removed_def]
    have len: "length (quanta st) = SMART_TOU_QUANTUM_MAX_CNT" using ok by (simp add: table_ok_def)
    have "quanta st' ! s = quanta st ! s" if s: "s < SMART_TOU_QUANTUM_MAX_CNT" "stays env ?P st (quanta st ! s)"
        "status (quanta st ! s) \<noteq> TOU_PERIOD_STATUS_UNCONFIGURED"
    proof -
      have "quanta ?r ! s = quanta st ! s" using s len by (simp add: d(1) surviving_def)
      then show ?thesis using u(3) s len d(1) by (auto simp: extends_table_def)
    qed
    then show ?thesis using d(3)[OF p] append_emitted(1)[OF u(3)] by simp
  qed
  then show "emitted st' = emitted st @ concat (map (ending env ?P st) (quanta st))"
    and "s < SMART_TOU_QUANTUM_MAX_CNT \<Longrightarrow> stays env ?P st (quanta st ! s) \<Longrightarrow>
      status (quanta st ! s) \<noteq> TOU_PERIOD_STATUS_UNCONFIGURED \<Longrightarrow> quanta st' ! s = quanta st ! s" by blast+
qed

end
