(* ===== verification/Tou_Process.thy ===== *)
theory Tou_Process
  imports Tou_Update
begin

text \<open>
  The run of the time-of-use control, \<open>smart_ctrl/smart_tou_ctrl_v1.c\<close>: the handlers of points and
  periods, the status bits, the periodic \<open>Smart_Tou_Ctrl_Module_Process\<close>, start-up, the write access of
  the Modbus registers and the factory reset.  The configuration file is its content, if it exists;
  a write of the file is a function of what is written, given by the file system.  A loop that runs
  past the 140 points is an out-of-bounds read.  The readings of \<open>time()\<close> inside one run are the one
  value \<open>wall\<close>; \<open>Smart_Tou_First_Trigger_Handle\<close> is never called and the two test routines are compiled
  out, so they are left out.
\<close>

section \<open>Periods\<close>

definition day_end_entry :: "tou_env \<Rightarrow> nat \<Rightarrow> tou_state \<Rightarrow> tou_state" where
  "day_end_entry env q st =
     (let e = quanta st ! q; si = unat (start_time_index e); ei = unat (end_time_index e) in
      if status e \<noteq> TOU_PERIOD_STATUS_ACTIVE then st
      else if (si < SMART_TOU_UNIT_MAX_CNT \<and> ei < SMART_TOU_UNIT_MAX_CNT) \<and>
              (1 \<ge> point_sec st si \<and> 86400 = point_sec st ei) \<and> (day_valid env st si \<and> day_valid env st ei)
      then st
      else if ei < SMART_TOU_UNIT_MAX_CNT then snd (Smart_Tou_Enqueue_Result_ByIndex env (int ei) st)
      else st)"

definition DAYSEC_MASK :: u32 where "DAYSEC_MASK = 0x1FFFF"

definition start_sec :: "tou_state \<Rightarrow> tou_time_quantum \<Rightarrow> u32" where
  "start_sec st e =
     (if unat (start_time_index e) < SMART_TOU_UNIT_MAX_CNT
      then ucast (point_sec st (unat (start_time_index e))) AND DAYSEC_MASK else - 1)"

definition end_sec :: "tou_state \<Rightarrow> tou_time_quantum \<Rightarrow> u32" where
  "end_sec st e =
     (if unat (end_time_index e) < SMART_TOU_UNIT_MAX_CNT \<and> end_time_index e \<noteq> 0xFF
      then ucast (point_sec st (unat (end_time_index e))) AND DAYSEC_MASK else - 1)"

definition set_status :: "nat \<Rightarrow> tou_period_status \<Rightarrow> tou_state \<Rightarrow> tou_state" where
  "set_status q s st = st\<lparr>quanta := (quanta st)[q := (quanta st ! q)\<lparr>status := s\<rparr>]\<rparr>"

definition quantum_entry :: "tou_env \<Rightarrow> u32 \<Rightarrow> nat \<Rightarrow> tou_state \<times> u8 \<Rightarrow> tou_state \<times> u8" where
  "quantum_entry env sec q stc =
     (let (st, cnt) = stc; e = quanta st ! q in
      if status e = TOU_PERIOD_STATUS_UNCONFIGURED then (st, cnt)
      else (let s = start_sec st e; t = end_sec st e in
        if s \<ge> t \<and> status e \<noteq> TOU_PERIOD_STATUS_START_ONLY then st
        else case status e of
            TOU_PERIOD_STATUS_CONFIGURED_IDLE \<Rightarrow>
              if sec \<ge> s \<and> sec < t
              then set_status q TOU_PERIOD_STATUS_ACTIVE
                     (snd (Smart_Tou_Enqueue_Result_ByIndex env (uint (start_time_index e)) st))
              else st
          | TOU_PERIOD_STATUS_ACTIVE \<Rightarrow>
              if end_time_index e \<noteq> 0xFF \<and> (sec < s \<or> sec \<ge> t)
              then set_status q TOU_PERIOD_STATUS_CONFIGURED_IDLE
                     (snd (Smart_Tou_Enqueue_Result_ByIndex env (uint (end_time_index e)) st))
              else st
          | TOU_PERIOD_STATUS_START_ONLY \<Rightarrow>
              if sec \<ge> s then st\<lparr>quanta := (quanta st)[q := zero_quantum]\<rparr> else st
          | TOU_PERIOD_STATUS_UNCONFIGURED \<Rightarrow> st, cnt + 1))"

definition day_base :: "tou_env \<Rightarrow> int \<Rightarrow> int" where
  "day_base env t_now = fst (mktime (tz env) ((localtime (tz env) t_now)\<lparr>tm_hour := 0, tm_min := 0, tm_sec := 0\<rparr>))"

definition Smart_Tou_Handle_TimeQuantum_Control :: "tou_env \<Rightarrow> int \<Rightarrow> tou_state \<Rightarrow> tou_state" where
  "Smart_Tou_Handle_TimeQuantum_Control env t_now st =
     (let t_base = day_base env t_now; sec = word_of_int (t_now - t_base);
          day_first = (t_base > quantum_pre_time st);
          st1 = (if day_first then st\<lparr>quantum_pre_time := t_base\<rparr> else st);
          st2 = (if day_first
                 then snd (Smart_Tou_RebuildOrUpdate_TimeQuantumConfig env TIMEQUANTUM_BUILD_REBUILD
                        (fold (day_end_entry env) [0..<SMART_TOU_QUANTUM_MAX_CNT] st1))
                 else if update_flag st1
                 then snd (Smart_Tou_RebuildOrUpdate_TimeQuantumConfig env TIMEQUANTUM_BUILD_UPDATE st1)
                 else st1);
          (st3, valid_cnt) = fold (quantum_entry env sec) [0..<SMART_TOU_QUANTUM_MAX_CNT] (st2, 0)
      in st3\<lparr>quantum_valid_cnt := valid_cnt\<rparr>)"

section \<open>Points\<close>

text \<open>At most nine midnights are counted for the seven days; 16 is enough fuel.\<close>

definition base_fuel :: nat where "base_fuel = 16"

fun point_loop :: "tou_env \<Rightarrow> tou_time_base \<Rightarrow> nat list \<Rightarrow> tou_state \<times> u8 \<Rightarrow> (tou_state \<times> u8) cres" where
  "point_loop env base [] stc = Inr stc"
| "point_loop env base (i # is) (st, cnt) =
     (if i \<ge> SMART_TOU_UNIT_MAX_CNT then Inl Out_Of_Bounds_Read
      else let c = time_cfg (unit_at st i) in
        if time_type c \<noteq> TOU_TIME_TYPE_POINT \<or> tou_time_cfg_invalid (Some c)
        then point_loop env base is (st, cnt)
        else point_loop env base is
               (if tou_time_is_trigger (tz env) (Some c) (Some base)
                then snd (Smart_Tou_Enqueue_Result_ByIndex env (int i) st) else st, cnt + 1))"

definition tou_time_num :: "tou_state \<Rightarrow> nat" where
  "tou_time_num st = unat (time_num (smart_tou_info (tou_cfg st)))"

definition Smart_Tou_Handle_TimePoint_Control :: "tou_env \<Rightarrow> int \<Rightarrow> tou_state \<Rightarrow> tou_state cres" where
  "Smart_Tou_Handle_TimePoint_Control env t_now st =
     (if point_pre_time st = 0 \<or> t_now \<le> point_pre_time st then Inr (st\<lparr>point_pre_time := t_now\<rparr>)
      else let (ok, st1) = tou_calloc env st in
        cbind (case tou_time_get_base_arr base_fuel ok (tz env) (point_pre_time st1) t_now of
                 None \<Rightarrow> Inr (st1, 0)
               | Some base \<Rightarrow>
                   (case t_base_arr base of
                      None \<Rightarrow> Inr (st1, 0)
                    | Some _ \<Rightarrow> point_loop env base [0..<tou_time_num st1] (st1, 0)))
          (\<lambda>(st2, cnt). Inr (st2\<lparr>point_pre_time := t_now, point_valid_cnt := cnt\<rparr>)))"

section \<open>Status bits\<close>

fun status_loop :: "tou_state \<Rightarrow> nat list \<Rightarrow> u32 \<Rightarrow> u32 cres" where
  "status_loop st [] s = Inr s"
| "status_loop st (i # is) s =
     (if i \<ge> SMART_TOU_UNIT_MAX_CNT then Inl Out_Of_Bounds_Read
      else if tou_time_cfg_invalid (Some (time_cfg (unit_at st i))) then status_loop st is s
      else let a = reg_addr (reg_cfg (unit_at st i)) in
        status_loop st is (if a = 2012 then s OR 1 else if a = 2011 then s OR 2 else s))"

definition Smart_Tou_Ctrl_Status_Check :: "tou_state \<Rightarrow> tou_state cres" where
  "Smart_Tou_Ctrl_Status_Check st =
     (if \<not> status_first st \<and> \<not> update_flag st then Inr st
      else if tou_time_num st = 0 then Inr (st\<lparr>tou_status := 0, status_first := False\<rparr>)
      else cbind (status_loop st [0..<tou_time_num st] 0)
             (\<lambda>s. Inr (st\<lparr>tou_status := s, status_first := False\<rparr>)))"

section \<open>The file\<close>

type_synonym tou_file = "u8 list option"
type_synonym fs_write = "u8 list \<Rightarrow> tou_file \<Rightarrow> int \<times> tou_file"

definition Smart_Tou_Write_Config_To_File :: "fs_write \<Rightarrow> tou_state \<Rightarrow> tou_file \<Rightarrow> int \<times> tou_file" where
  "Smart_Tou_Write_Config_To_File wr st f =
     (let (n, f') = wr (config_bytes (tou_cfg st)) f in (if n \<noteq> int sizeof_config then -1 else 0, f'))"

definition default_config :: smart_tou_ctrl_config where
  "default_config = (config_of_bytes (replicate sizeof_config 0))
     \<lparr>smart_tou_info := \<lparr>diff_type = 1, plan_reserved = 0, time_num = of_nat SMART_TOU_UNIT_MAX_CNT\<rparr>\<rparr>"

definition Smart_Tou_Ctrl_Module_Init ::
  "bool \<Rightarrow> bool \<Rightarrow> fs_write \<Rightarrow> tou_state \<Rightarrow> tou_file \<Rightarrow> int \<times> tou_state \<times> tou_file" where
  "Smart_Tou_Ctrl_Module_Init queue_created mutex_created wr st f =
     (if xQueue st = None \<and> \<not> queue_created then (-1, st, f)
      else let st1 = (if xQueue st = None then st\<lparr>xQueue := Some []\<rparr> else st);
               st2 = (if \<not> xMutex st1 then st1\<lparr>xMutex := mutex_created\<rparr> else st1);
               bytes = (case f of None \<Rightarrow> [] | Some bs \<Rightarrow> take sizeof_config bs)
           in if f \<noteq> None \<and> length bytes = sizeof_config
              then (0, st2\<lparr>tou_cfg := config_of_bytes bytes\<rparr>, f)
              else let st3 = st2\<lparr>tou_cfg := default_config\<rparr>; (r, f') = Smart_Tou_Write_Config_To_File wr st3 f
                   in (r, st3, f'))"

section \<open>Writing the registers\<close>

text \<open>\<open>Smart_Tou_Ctrl_Config_Get_Ptr\<close>: a writer gets the write buffer, a reader the configuration.\<close>

definition Smart_Tou_Ctrl_Config_Get_Ptr :: "bool \<Rightarrow> tou_state \<Rightarrow> u8 list" where
  "Smart_Tou_Ctrl_Config_Get_Ptr is_write st = (if is_write then tou_cfg_wr st else config_bytes (tou_cfg st))"

definition copy_range :: "nat \<Rightarrow> nat \<Rightarrow> u8 list \<Rightarrow> u8 list \<Rightarrow> u8 list" where
  "copy_range off n src dst = take off dst @ take n (drop off src) @ drop (off + n) dst"

definition Smart_Tou_Ctrl_Config_Commit ::
  "bool \<Rightarrow> fs_write \<Rightarrow> u32 \<Rightarrow> u32 \<Rightarrow> tou_state \<Rightarrow> tou_file \<Rightarrow> (int \<times> tou_state \<times> tou_file) cres" where
  "Smart_Tou_Ctrl_Config_Commit mutex_free wr offset wr_len st f =
     (if unat (offset + wr_len) > sizeof_config then Inr (-1, st, f)
      else if \<not> (xMutex st \<and> mutex_free) then Inr (-1, st, f)
      else if unat offset + unat wr_len > sizeof_config then Inl Out_Of_Bounds_Write
      else let c = config_of_bytes (copy_range (unat offset) (unat wr_len) (tou_cfg_wr st) (config_bytes (tou_cfg st)));
               st' = st\<lparr>tou_cfg := c\<lparr>smart_tou_info := \<lparr>diff_type = 1, plan_reserved = 0,
                         time_num = of_nat SMART_TOU_UNIT_MAX_CNT\<rparr>\<rparr>, update_flag := True\<rparr>
           in Inr (0, st', snd (Smart_Tou_Write_Config_To_File wr st' f)))"

definition Smart_Tou_Restore_Factory_Defaults ::
  "bool \<Rightarrow> fs_write \<Rightarrow> tou_state \<Rightarrow> tou_file \<Rightarrow> int \<times> tou_state \<times> tou_file" where
  "Smart_Tou_Restore_Factory_Defaults mutex_free wr st f =
     (if \<not> (xMutex st \<and> mutex_free) then (-1, st, f)
      else let st1 = st\<lparr>tou_cfg := default_config\<rparr>; (r, f') = Smart_Tou_Write_Config_To_File wr st1 f
           in if r \<noteq> 0 then (-1, st1, f') else (0, st1\<lparr>update_flag := True\<rparr>, f'))"

definition get_smart_tou_ctrl_unit_valid_cnt :: "tou_state \<Rightarrow> u8" where
  "get_smart_tou_ctrl_unit_valid_cnt st = point_valid_cnt st + quantum_valid_cnt st"

section \<open>The periodic run\<close>

definition Smart_Tou_Ctrl_Module_Process ::
  "bool \<Rightarrow> fs_write \<Rightarrow> tou_env \<Rightarrow> int \<Rightarrow> tou_state \<Rightarrow> tou_file \<Rightarrow> (tou_state \<times> tou_file) cres" where
  "Smart_Tou_Ctrl_Module_Process mutex_free wr env t_now st f =
     (if \<not> (xMutex st \<and> mutex_free) then Inr (st, f)
      else cbind (Smart_Tou_Handle_TimePoint_Control env t_now st) (\<lambda>st1.
        let st2 = (if quantum_enable st1
                   then Smart_Tou_Handle_Keeping_Control env (Smart_Tou_Handle_TimeQuantum_Control env t_now st1)
                   else st1)
        in cbind (Smart_Tou_Ctrl_Status_Check st2) (\<lambda>st3.
          let st4 = st3\<lparr>update_flag := False\<rparr> in
          if write_flag st4
          then let (r, f') = Smart_Tou_Write_Config_To_File wr st4 f
               in Inr (if r = 0 then st4\<lparr>write_flag := False\<rparr> else st4, f')
          else Inr (st4, f))))"


section \<open>What a pass over the periods does\<close>

definition in_period :: "tou_state \<Rightarrow> u32 \<Rightarrow> tou_time_quantum \<Rightarrow> bool" where
  "in_period st sec e \<longleftrightarrow> start_sec st e \<le> sec \<and> sec < end_sec st e"

definition entry_next :: "tou_state \<Rightarrow> u32 \<Rightarrow> tou_time_quantum \<Rightarrow> tou_time_quantum" where
  "entry_next st sec e =
     (case status e of
        TOU_PERIOD_STATUS_UNCONFIGURED \<Rightarrow> e
      | TOU_PERIOD_STATUS_START_ONLY \<Rightarrow> if start_sec st e \<le> sec then zero_quantum else e
      | TOU_PERIOD_STATUS_CONFIGURED_IDLE \<Rightarrow> if in_period st sec e then e\<lparr>status := TOU_PERIOD_STATUS_ACTIVE\<rparr> else e
      | TOU_PERIOD_STATUS_ACTIVE \<Rightarrow>
          if start_sec st e < end_sec st e \<and> end_time_index e \<noteq> 0xFF \<and> \<not> in_period st sec e
          then e\<lparr>status := TOU_PERIOD_STATUS_CONFIGURED_IDLE\<rparr> else e)"

definition entry_cmds :: "tou_state \<Rightarrow> u32 \<Rightarrow> tou_time_quantum \<Rightarrow> smart_tou_ctrl_result list" where
  "entry_cmds st sec e =
     (case status e of
        TOU_PERIOD_STATUS_CONFIGURED_IDLE \<Rightarrow>
          if in_period st sec e then [point_result st (unat (start_time_index e))] else []
      | TOU_PERIOD_STATUS_ACTIVE \<Rightarrow>
          if start_sec st e < end_sec st e \<and> end_time_index e \<noteq> 0xFF \<and> \<not> in_period st sec e
          then [point_result st (unat (end_time_index e))] else []
      | _ \<Rightarrow> [])"

lemma sec_cong:
  assumes "tou_cfg s = tou_cfg t"
  shows "start_sec s = start_sec t" "end_sec s = end_sec t" "in_period s = in_period t"
    "entry_next s = entry_next t" "entry_cmds s = entry_cmds t" "point_result s = point_result t"
proof -
  have u: "unit_at s = unit_at t" by (rule cfg_only(1)[OF assms])
  show a: "start_sec s = start_sec t" "end_sec s = end_sec t"
    by (simp_all add: fun_eq_iff start_sec_def end_sec_def point_sec_def u)
  show b: "in_period s = in_period t" by (simp add: fun_eq_iff in_period_def a)
  show c: "point_result s = point_result t" by (simp add: fun_eq_iff point_result_def u)
  show "entry_next s = entry_next t" by (intro ext) (simp only: entry_next_def a b)
  show "entry_cmds s = entry_cmds t" by (intro ext) (simp only: entry_cmds_def a b c)
qed

lemma core_quanta:
  assumes "core a = core b"
  shows "core (a\<lparr>quanta := q\<rparr>) = core (b\<lparr>quanta := q\<rparr>)"
proof -
  have "core (s\<lparr>quanta := q\<rparr>) = (core s)\<lparr>quanta := q\<rparr>" for s by (simp add: core_def)
  then show ?thesis using assms by simp
qed

lemma emitted_upd [simp]:
  "emitted (st\<lparr>quanta := q\<rparr>) = emitted st" "queue_ok (st\<lparr>quanta := q\<rparr>) = queue_ok st"
  "running (st\<lparr>quanta := q\<rparr>) = running st"
  by (simp_all add: emitted_def queue_ok_def)

lemma quantum_entry_ok:
  assumes "q < length (quanta st)" "entry_ok (quanta st ! q)"
  obtains st' where
    "quantum_entry env sec q (st, cnt) =
       (st', cnt + (if status (quanta st ! q) = TOU_PERIOD_STATUS_UNCONFIGURED then 0 else 1))"
    "core st' = core (st\<lparr>quanta := (quanta st)[q := entry_next st sec (quanta st ! q)]\<rparr>)"
    "prompt env \<Longrightarrow> queue_ok st \<Longrightarrow> emitted st' = emitted st @ entry_cmds st sec (quanta st ! q) \<and> queue_ok st'"
proof -
  define e where "e = quanta st ! q"
  have id: "st\<lparr>quanta := (quanta st)[q := e]\<rparr> = st" using assms(1) by (simp add: e_def)
  have enq: "core (snd (Smart_Tou_Enqueue_Result_ByIndex env i st)) = core st" for i by simp
  have c: "core (set_status q s (snd (Smart_Tou_Enqueue_Result_ByIndex env i st))) =
      core (st\<lparr>quanta := (quanta st)[q := e\<lparr>status := s\<rparr>]\<rparr>)" for s i
    using core_quanta[OF enq] core_fields(4)[OF enq] by (simp add: set_status_def e_def)
  have em: "emitted (set_status q s x) = emitted x" "queue_ok (set_status q s x) = queue_ok x" for s x
    by (simp_all add: set_status_def)
  have idx: "uint w = int (unat w)" for w :: u8 by simp
  show ?thesis
  proof (cases "status e")
    case TOU_PERIOD_STATUS_UNCONFIGURED
    then show ?thesis using id
      by (intro that[of st]) (simp_all add: quantum_entry_def e_def[symmetric] entry_next_def entry_cmds_def)
  next
    case TOU_PERIOD_STATUS_START_ONLY
    then show ?thesis using id
      by (intro that[of "if start_sec st e \<le> sec then st\<lparr>quanta := (quanta st)[q := zero_quantum]\<rparr> else st"])
         (simp_all add: quantum_entry_def Let_def e_def[symmetric] entry_next_def entry_cmds_def)
  next
    case TOU_PERIOD_STATUS_CONFIGURED_IDLE
    then have b: "unat (start_time_index e) < SMART_TOU_UNIT_MAX_CNT"
      using assms(2) by (simp add: e_def[symmetric] entry_ok_def points_of_def)
    show ?thesis
    proof (cases "in_period st sec e")
      case True
      then have "start_sec st e < end_sec st e" by (auto simp: in_period_def)
      then show ?thesis using True TOU_PERIOD_STATUS_CONFIGURED_IDLE c enqueue_prompt[of env st, OF _ _ b]
        by (intro that[of "set_status q TOU_PERIOD_STATUS_ACTIVE (snd (Smart_Tou_Enqueue_Result_ByIndex env (uint (start_time_index e)) st))"])
           (simp_all add: quantum_entry_def Let_def e_def[symmetric] entry_next_def entry_cmds_def in_period_def em)
    next
      case False
      then show ?thesis using TOU_PERIOD_STATUS_CONFIGURED_IDLE id
        by (intro that[of st])
           (auto simp: quantum_entry_def Let_def e_def[symmetric] entry_next_def entry_cmds_def in_period_def)
    qed
  next
    case TOU_PERIOD_STATUS_ACTIVE
    then have b: "unat (end_time_index e) < SMART_TOU_UNIT_MAX_CNT" "end_time_index e \<noteq> 0xFF"
      using assms(2) by (auto simp: e_def[symmetric] entry_ok_def points_of_def)
    show ?thesis
    proof (cases "start_sec st e < end_sec st e \<and> \<not> in_period st sec e")
      case True
      then have "sec < start_sec st e \<or> end_sec st e \<le> sec" by (auto simp: in_period_def)
      then show ?thesis using True b TOU_PERIOD_STATUS_ACTIVE c enqueue_prompt[of env st, OF _ _ b(1)]
        by (intro that[of "set_status q TOU_PERIOD_STATUS_CONFIGURED_IDLE (snd (Smart_Tou_Enqueue_Result_ByIndex env (uint (end_time_index e)) st))"])
           (auto simp: quantum_entry_def Let_def e_def[symmetric] entry_next_def entry_cmds_def em)
    next
      case False
      then show ?thesis using b TOU_PERIOD_STATUS_ACTIVE id
        by (intro that[of st])
           (auto simp: quantum_entry_def Let_def e_def[symmetric] entry_next_def entry_cmds_def in_period_def)
    qed
  qed
qed

lemma quantum_pass:
  assumes "length (quanta st) = SMART_TOU_QUANTUM_MAX_CNT" "\<forall>e \<in> set (quanta st). entry_ok e"
  obtains st' cnt where
    "fold (quantum_entry env sec) [0..<SMART_TOU_QUANTUM_MAX_CNT] (st, 0) = (st', cnt)"
    "core st' = core (st\<lparr>quanta := map (entry_next st sec) (quanta st)\<rparr>)"
    "prompt env \<Longrightarrow> queue_ok st \<Longrightarrow> emitted st' = emitted st @ concat (map (entry_cmds st sec) (quanta st)) \<and> queue_ok st'"
    "cnt = of_nat (length (configured st))"
proof -
  let ?U = TOU_PERIOD_STATUS_UNCONFIGURED
  have "\<exists>st' cnt. fold (quantum_entry env sec) [0..<k] (st, 0) = (st', cnt) \<and>
      core st' = core (st\<lparr>quanta := map (entry_next st sec) (take k (quanta st)) @ drop k (quanta st)\<rparr>) \<and>
      (prompt env \<and> queue_ok st \<longrightarrow>
         emitted st' = emitted st @ concat (map (entry_cmds st sec) (take k (quanta st))) \<and> queue_ok st') \<and>
      cnt = of_nat (length (filter (\<lambda>e. status e \<noteq> ?U) (take k (quanta st))))" if "k \<le> SMART_TOU_QUANTUM_MAX_CNT" for k
    using that
  proof (induction k)
    case (Suc k)
    then obtain s cnt where IH: "fold (quantum_entry env sec) [0..<k] (st, 0) = (s, cnt)"
      "core s = core (st\<lparr>quanta := map (entry_next st sec) (take k (quanta st)) @ drop k (quanta st)\<rparr>)"
      "prompt env \<and> queue_ok st \<longrightarrow>
         emitted s = emitted st @ concat (map (entry_cmds st sec) (take k (quanta st))) \<and> queue_ok s"
      "cnt = of_nat (length (filter (\<lambda>e. status e \<noteq> ?U) (take k (quanta st))))" by auto
    have k: "k < length (quanta st)" using Suc.prems assms(1) by simp
    have qs: "quanta s = map (entry_next st sec) (take k (quanta st)) @ drop k (quanta st)" and cfg: "tou_cfg s = tou_cfg st"
      using core_fields(2,4)[OF IH(2)] by simp_all
    have at: "quanta s ! k = quanta st ! k" using k by (simp add: qs nth_append)
    obtain s' where s': "quantum_entry env sec k (s, cnt) = (s', cnt + (if status (quanta s ! k) = ?U then 0 else 1))"
      "core s' = core (s\<lparr>quanta := (quanta s)[k := entry_next s sec (quanta s ! k)]\<rparr>)"
      "prompt env \<Longrightarrow> queue_ok s \<Longrightarrow> emitted s' = emitted s @ entry_cmds s sec (quanta s ! k) \<and> queue_ok s'"
      by (rule quantum_entry_ok[of k s env sec cnt]) (use k at qs assms(2) in auto)
    have "(quanta s)[k := entry_next st sec (quanta st ! k)] =
        map (entry_next st sec) (take (Suc k) (quanta st)) @ drop (Suc k) (quanta st)"
      using k by (simp add: qs list_update_append take_Suc_conv_app_nth drop_nth_Cons)
    then have "core s' = core (st\<lparr>quanta := map (entry_next st sec) (take (Suc k) (quanta st)) @ drop (Suc k) (quanta st)\<rparr>)"
      using core_quanta[OF IH(2)] s'(2) by (simp add: at sec_cong(4)[OF cfg])
    then show ?case using IH(1,3,4) s'(1,3) k by (simp add: at sec_cong(5)[OF cfg] take_Suc_conv_app_nth)
  qed simp
  from this[of SMART_TOU_QUANTUM_MAX_CNT] show ?thesis using that assms(1) by (auto simp: configured_def)
qed


section \<open>The runs of a day\<close>

definition day_sec :: "tou_env \<times> int \<Rightarrow> u32" where
  "day_sec r = word_of_int (snd r - day_base (fst r) (snd r))"

definition period_runs :: "(tou_env \<times> int) list \<Rightarrow> tou_state \<Rightarrow> tou_state" where
  "period_runs rs = fold (\<lambda>(env, t_now). Smart_Tou_Handle_TimeQuantum_Control env t_now) rs"

lemma handle_same_day:
  assumes "table_ok st" "\<not> update_flag st" "day_base env t_now \<le> quantum_pre_time st"
  defines "st' \<equiv> Smart_Tou_Handle_TimeQuantum_Control env t_now st"
  shows "quanta st' = map (entry_next st (day_sec (env, t_now))) (quanta st)"
    and "tou_cfg st' = tou_cfg st" "update_flag st' = update_flag st" "quantum_pre_time st' = quantum_pre_time st"
    and "prompt env \<Longrightarrow> queue_ok st \<Longrightarrow>
      emitted st' = emitted st @ concat (map (entry_cmds st (day_sec (env, t_now))) (quanta st)) \<and> queue_ok st'"
proof -
  define sec where "sec = day_sec (env, t_now)"
  obtain s cnt where s: "fold (quantum_entry env sec) [0..<SMART_TOU_QUANTUM_MAX_CNT] (st, 0) = (s, cnt)"
    "core s = core (st\<lparr>quanta := map (entry_next st sec) (quanta st)\<rparr>)"
    "prompt env \<Longrightarrow> queue_ok st \<Longrightarrow> emitted s = emitted st @ concat (map (entry_cmds st sec) (quanta st)) \<and> queue_ok s"
    by (rule quantum_pass[of st env sec]) (use assms(1) in \<open>auto simp: table_ok_def\<close>)
  have st': "st' = s\<lparr>quantum_valid_cnt := cnt\<rparr>"
    using assms(2,3) s(1) by (simp add: st'_def Smart_Tou_Handle_TimeQuantum_Control_def Let_def sec_def day_sec_def)
  have e: "emitted st' = emitted s" "queue_ok st' = queue_ok s" by (simp_all add: st' emitted_def queue_ok_def)
  note c = core_fields[OF s(2)]
  show "quanta st' = map (entry_next st sec) (quanta st)"
    and "tou_cfg st' = tou_cfg st" "update_flag st' = update_flag st" "quantum_pre_time st' = quantum_pre_time st"
    using c by (simp_all add: st')
  show "prompt env \<Longrightarrow> queue_ok st \<Longrightarrow> emitted st' = emitted st @ concat (map (entry_cmds st sec) (quanta st)) \<and> queue_ok st'"
    using s(3) e by simp
qed

text \<open>The abstract schedule: what a list of entries commands when it is looked at at given seconds.\<close>

fun schedule :: "tou_state \<Rightarrow> u32 list \<Rightarrow> tou_time_quantum list \<Rightarrow> smart_tou_ctrl_result list" where
  "schedule st [] es = []"
| "schedule st (t # ts) es = concat (map (entry_cmds st t) es) @ schedule st ts (map (entry_next st t) es)"

lemma schedule_cong: "tou_cfg s = tou_cfg t \<Longrightarrow> schedule s = schedule t"
proof (intro ext)
  fix ts es assume "tou_cfg s = tou_cfg t"
  then show "schedule s ts es = schedule t ts es"
    by (induction ts arbitrary: es) (simp_all add: sec_cong[of s t])
qed

lemma entry_next_ok:
  assumes "entry_ok e"
  shows "entry_ok (entry_next st t e)"
    "status (entry_next st t e) \<noteq> TOU_PERIOD_STATUS_UNCONFIGURED \<Longrightarrow> points_of (entry_next st t e) = points_of e"
    "status e = TOU_PERIOD_STATUS_UNCONFIGURED \<Longrightarrow> entry_next st t e = e"
proof -
  have z: "status zero_quantum = TOU_PERIOD_STATUS_UNCONFIGURED" by (simp add: zero_quantum_def)
  have p: "points_of (e\<lparr>status := s\<rparr>) = points_of e" for s by (simp add: points_of_def)
  show "entry_ok (entry_next st t e)"
    using assms by (cases "status e") (auto simp: entry_next_def entry_ok_def p z)
  show "status (entry_next st t e) \<noteq> TOU_PERIOD_STATUS_UNCONFIGURED \<Longrightarrow> points_of (entry_next st t e) = points_of e"
    by (cases "status e") (auto simp: entry_next_def p z)
  show "status e = TOU_PERIOD_STATUS_UNCONFIGURED \<Longrightarrow> entry_next st t e = e" by (simp add: entry_next_def)
qed

lemma next_table_ok:
  assumes "table_ok st" "quanta st' = map (entry_next s t) (quanta st)"
  shows "table_ok st'"
proof -
  have "distinct (concat (map points_of (filter (\<lambda>e. status e \<noteq> TOU_PERIOD_STATUS_UNCONFIGURED) (map (entry_next s t) es)))) \<and>
      set (concat (map points_of (filter (\<lambda>e. status e \<noteq> TOU_PERIOD_STATUS_UNCONFIGURED) (map (entry_next s t) es)))) \<subseteq>
      set (concat (map points_of (filter (\<lambda>e. status e \<noteq> TOU_PERIOD_STATUS_UNCONFIGURED) es)))"
    if "\<forall>e \<in> set es. entry_ok e"
      "distinct (concat (map points_of (filter (\<lambda>e. status e \<noteq> TOU_PERIOD_STATUS_UNCONFIGURED) es)))" for es
    using that
  proof (induction es)
    case (Cons e es)
    have "entry_ok e" using Cons.prems(1) by simp
    note n = entry_next_ok[OF this, of s t]
    have IH: "distinct (concat (map points_of (filter (\<lambda>e. status e \<noteq> TOU_PERIOD_STATUS_UNCONFIGURED) (map (entry_next s t) es)))) \<and>
      set (concat (map points_of (filter (\<lambda>e. status e \<noteq> TOU_PERIOD_STATUS_UNCONFIGURED) (map (entry_next s t) es)))) \<subseteq>
      set (concat (map points_of (filter (\<lambda>e. status e \<noteq> TOU_PERIOD_STATUS_UNCONFIGURED) es)))"
      by (rule Cons.IH) (use Cons.prems in \<open>auto split: if_splits\<close>)
    show ?case
    proof (cases "status (entry_next s t e) = TOU_PERIOD_STATUS_UNCONFIGURED")
      case True
      then show ?thesis using IH by auto
    next
      case False
      then have "status e \<noteq> TOU_PERIOD_STATUS_UNCONFIGURED" using n(3) by metis
      then show ?thesis using IH n(2)[OF False] Cons.prems(2) False by auto
    qed
  qed simp
  then show ?thesis using assms entry_next_ok(1) by (auto simp: table_ok_def configured_def)
qed

lemma period_runs_schedule:
  assumes "table_ok st" "queue_ok st" "\<not> update_flag st"
    "\<forall>(env, t_now) \<in> set rs. prompt env \<and> day_base env t_now \<le> quantum_pre_time st"
  shows "emitted (period_runs rs st) = emitted st @ schedule st (map day_sec rs) (quanta st)"
    and "quanta (period_runs rs st) = fold (\<lambda>t es. map (entry_next st t) es) (map day_sec rs) (quanta st)"
proof -
  have "emitted (period_runs rs st) = emitted st @ schedule st (map day_sec rs) (quanta st) \<and>
    quanta (period_runs rs st) = fold (\<lambda>t es. map (entry_next st t) es) (map day_sec rs) (quanta st)"
    using assms
  proof (induction rs arbitrary: st)
    case (Cons r rs)
    obtain env t_now where r: "r = (env, t_now)" by (cases r)
    define s where "s = Smart_Tou_Handle_TimeQuantum_Control env t_now st"
    have p: "prompt env" "day_base env t_now \<le> quantum_pre_time st" using Cons.prems(4) r by auto
    note h = handle_same_day[OF Cons.prems(1,3) p(2), folded s_def]
    have IH: "emitted (period_runs rs s) = emitted s @ schedule s (map day_sec rs) (quanta s) \<and>
      quanta (period_runs rs s) = fold (\<lambda>t es. map (entry_next s t) es) (map day_sec rs) (quanta s)"
    proof (rule Cons.IH)
      show "table_ok s" by (rule next_table_ok[OF Cons.prems(1) h(1)])
      show "queue_ok s" using h(5)[OF p(1) Cons.prems(2)] by simp
      show "\<not> update_flag s" using h(3) Cons.prems(3) by simp
      show "\<forall>(env, t_now) \<in> set rs. prompt env \<and> day_base env t_now \<le> quantum_pre_time s"
        using Cons.prems(4) h(4) by auto
    qed
    have "period_runs (r # rs) st = period_runs rs s" by (simp add: period_runs_def r s_def)
    then show ?case using IH h(1,5) p(1) Cons.prems(2) schedule_cong[OF h(2)] sec_cong(4)[OF h(2)] r by simp
  qed (simp add: period_runs_def)
  then show "emitted (period_runs rs st) = emitted st @ schedule st (map day_sec rs) (quanta st)"
    and "quanta (period_runs rs st) = fold (\<lambda>t es. map (entry_next st t) es) (map day_sec rs) (quanta st)" by blast+
qed

text \<open>One period over a day: started at the first look inside it, ended at the first look behind it.\<close>

lemma schedule_active:
  assumes "status e = TOU_PERIOD_STATUS_ACTIVE" "start_sec st e < end_sec st e" "end_time_index e \<noteq> 0xFF"
    "sorted ts" "\<forall>t \<in> set ts. start_sec st e \<le> t"
  shows "schedule st ts [e] = (if \<exists>t \<in> set ts. end_sec st e \<le> t then [point_result st (unat (end_time_index e))] else [])"
  using assms
proof (induction ts)
  case (Cons t ts)
  show ?case
  proof (cases "t < end_sec st e")
    case True
    then have "in_period st t e" using Cons.prems by (simp add: in_period_def)
    then show ?thesis using Cons True by (auto simp: entry_next_def entry_cmds_def)
  next
    case False
    let ?i = "e\<lparr>status := TOU_PERIOD_STATUS_CONFIGURED_IDLE\<rparr>"
    have n: "\<not> in_period st u e" if "u \<in> set (t # ts)" for u
      using that False Cons.prems(4) by (auto simp: in_period_def)
    have s: "start_sec st ?i = start_sec st e" "end_sec st ?i = end_sec st e"
      by (simp_all add: start_sec_def end_sec_def)
    have idle: "schedule st us [?i] = []" if "\<forall>u \<in> set us. \<not> in_period st u e" for us
      using that by (induction us) (auto simp: entry_next_def entry_cmds_def in_period_def s)
    have "entry_next st t e = ?i" "entry_cmds st t e = [point_result st (unat (end_time_index e))]"
      using Cons.prems n[of t] by (simp_all add: entry_next_def entry_cmds_def)
    then show ?thesis using idle[of ts] n False by auto
  qed
qed simp

lemma schedule_period:
  assumes "status e = TOU_PERIOD_STATUS_CONFIGURED_IDLE" "end_time_index e \<noteq> 0xFF" "sorted ts"
  shows "schedule st ts [e] =
    (if \<exists>t \<in> set ts. in_period st t e
     then point_result st (unat (start_time_index e)) #
       (if \<exists>t \<in> set ts. end_sec st e \<le> t then [point_result st (unat (end_time_index e))] else [])
     else [])"
  using assms
proof (induction ts)
  case (Cons t ts)
  show ?case
  proof (cases "in_period st t e")
    case True
    let ?a = "e\<lparr>status := TOU_PERIOD_STATUS_ACTIVE\<rparr>"
    have s: "start_sec st ?a = start_sec st e" "end_sec st ?a = end_sec st e"
      by (simp_all add: start_sec_def end_sec_def)
    have lt: "start_sec st e < end_sec st e" using True by (auto simp: in_period_def)
    have "schedule st ts [?a] = (if \<exists>t \<in> set ts. end_sec st e \<le> t then [point_result st (unat (end_time_index e))] else [])"
    proof -
      have "\<forall>u \<in> set ts. start_sec st e \<le> u"
        using Cons.prems(3) True by (auto simp: in_period_def intro: order_trans)
      then show ?thesis using schedule_active[of ?a st ts] lt Cons.prems(2,3) by (simp add: s)
    qed
    then show ?thesis using True Cons.prems(1)
      by (auto simp: entry_next_def entry_cmds_def in_period_def)
  next
    case False
    then have "schedule st (t # ts) [e] = schedule st ts [e]"
      using Cons.prems(1) by (simp add: entry_next_def entry_cmds_def)
    moreover have "end_sec st e \<le> t \<Longrightarrow> \<not> (\<exists>u \<in> set ts. in_period st u e)"
      using Cons.prems(3) by (auto simp: in_period_def)
    ultimately show ?thesis using Cons False by auto
  qed
qed simp


section \<open>Points fire at their times\<close>

definition point_due :: "tou_env \<Rightarrow> tou_time_base \<Rightarrow> tou_state \<Rightarrow> nat \<Rightarrow> bool" where
  "point_due env base st i \<longleftrightarrow>
     (let c = time_cfg (unit_at st i) in
      time_type c = TOU_TIME_TYPE_POINT \<and> \<not> tou_time_cfg_invalid (Some c) \<and>
      tou_time_is_trigger (tz env) (Some c) (Some base))"

lemma due_cong: "tou_cfg s = tou_cfg t \<Longrightarrow> point_due env base s = point_due env base t"
  by (simp add: fun_eq_iff point_due_def Let_def cfg_only(1)[of s t])

lemma point_loop_prompt:
  assumes "prompt env" "queue_ok st" "\<forall>i \<in> set is. i < SMART_TOU_UNIT_MAX_CNT"
  shows "\<exists>st' cnt'. point_loop env base is (st, cnt) = Inr (st', cnt') \<and> core st' = core st \<and> queue_ok st' \<and>
    emitted st' = emitted st @ map (point_result st) (filter (point_due env base st) is)"
  using assms(2,3)
proof (induction "is" arbitrary: st cnt)
  case (Cons i "is")
  have i: "i < SMART_TOU_UNIT_MAX_CNT" using Cons.prems(2) by simp
  let ?c = "time_cfg (unit_at st i)" and ?e = "snd (Smart_Tou_Enqueue_Result_ByIndex env (int i) st)"
  show ?case
  proof (cases "point_due env base st i")
    case True
    note q = enqueue_prompt[OF assms(1) Cons.prems(1) i]
    have c: "core ?e = core st" by simp
    note cf = core_fields(2)[OF c]
    obtain st' cnt' where "point_loop env base is (?e, cnt + 1) = Inr (st', cnt')" "core st' = core ?e" "queue_ok st'"
        "emitted st' = emitted ?e @ map (point_result ?e) (filter (point_due env base ?e) is)"
      using Cons.IH[OF q(3), of "cnt + 1"] Cons.prems(2) by auto
    moreover have "point_loop env base (i # is) (st, cnt) = point_loop env base is (?e, cnt + 1)"
      using True i by (auto simp: point_due_def Let_def)
    ultimately show ?thesis using True q(2) c sec_cong(6)[OF cf] due_cong[OF cf] by simp
  next
    case False
    then have "\<exists>cnt1. point_loop env base (i # is) (st, cnt) = point_loop env base is (st, cnt1)"
      using i by (auto simp: point_due_def Let_def)
    then show ?thesis using Cons.IH[OF Cons.prems(1)] Cons.prems(2) False by auto
  qed
qed simp

lemma base_arr_some:
  assumes "l \<noteq> 0" "l < n" "n - l \<le> 7 * 86400" "9 < fuel"
  shows "tou_time_get_base_arr fuel False off l n = Some \<lparr>t_base_arr = None, last_time = 0, now_time = 0, days = 0\<rparr>"
proof -
  let ?cd = "count_days fuel off
    (fst (mktime off ((localtime off n)\<lparr>tm_hour := 0, tm_min := 0, tm_sec := 0\<rparr>)))
    ((localtime off l)\<lparr>tm_hour := 0, tm_min := 0, tm_sec := 0\<rparr>)"
  have "?cd \<noteq> None"
    using base_arr_ok(1)[OF assms, of off] assms(1-3)
    by (auto simp: tou_time_get_base_arr_def CONFIG_TOU_CHECK_BACK_DAYS_def Let_def split: option.splits)
  then show ?thesis using assms(1-3)
    by (auto simp: tou_time_get_base_arr_def CONFIG_TOU_CHECK_BACK_DAYS_def Let_def)
qed

text \<open>The points that fire in an interval.\<close>

definition fires_between :: "tou_env \<Rightarrow> tou_state \<Rightarrow> int \<Rightarrow> int \<Rightarrow> nat \<Rightarrow> bool" where
  "fires_between env st l n i \<longleftrightarrow>
     (let c = time_cfg (unit_at st i) in tou_point c \<and> (\<exists>t. l < t \<and> t \<le> n \<and> tou_fires (tz env) c t))"

definition point_times_ok :: "tou_state \<Rightarrow> bool" where
  "point_times_ok st \<longleftrightarrow> (\<forall>i < tou_time_num st. point_sec st i < 86400)"

lemma emitted_frames [simp]:
  "emitted (st\<lparr>point_pre_time := t\<rparr>) = emitted st" "emitted (st\<lparr>point_valid_cnt := c\<rparr>) = emitted st"
  "queue_ok (st\<lparr>point_pre_time := t\<rparr>) = queue_ok st" "queue_ok (st\<lparr>point_valid_cnt := c\<rparr>) = queue_ok st"
  by (simp_all add: emitted_def queue_ok_def)

lemma points_exact:
  assumes "prompt env" "queue_ok st" "tou_time_num st \<le> SMART_TOU_UNIT_MAX_CNT" "point_times_ok st"
    and iv: "point_pre_time st \<noteq> 0" "point_pre_time st < n" "n - point_pre_time st \<le> 604800"
  shows "\<exists>st'. Smart_Tou_Handle_TimePoint_Control env n st = Inr st' \<and> queue_ok st' \<and> point_pre_time st' = n \<and>
    emitted st' = emitted st @
      map (point_result st) (filter (fires_between env st (point_pre_time st) n) [0..<tou_time_num st])"
proof -
  let ?l = "point_pre_time st" and ?c = "snd (tou_calloc env st)" and ?num = "tou_time_num st"
  have iv': "?l \<noteq> 0" "?l < n" "n - ?l \<le> 7 * 86400" "9 < base_fuel" using iv by (simp_all add: base_fuel_def)
  obtain base bs where base: "tou_time_get_base_arr base_fuel True (tz env) ?l n = Some base" "t_base_arr base = Some bs"
    using base_arr_ok(1)[OF iv', of "tz env"] by simp
  have cc: "core ?c = core st" by simp
  note cf = core_fields(2)[OF cc]
  have c: "fst (tou_calloc env st)" "queue_ok ?c" "emitted ?c = emitted st" "tou_time_num ?c = ?num"
    "point_pre_time ?c = ?l"
    using assms(1,2) calloc_frame cf core_fields(13)[OF cc] by (simp_all add: tou_time_num_def)
  obtain st' cnt where l: "point_loop env base [0..<?num] (?c, 0) = Inr (st', cnt)" "core st' = core ?c" "queue_ok st'"
      "emitted st' = emitted ?c @ map (point_result ?c) (filter (point_due env base ?c) [0..<?num])"
    using point_loop_prompt[OF assms(1) c(2), of "[0..<?num]" base 0] assms(3) by auto
  have due: "point_due env base st i \<longleftrightarrow> fires_between env st ?l n i" if "i < ?num" for i
  proof (cases "tou_point (time_cfg (unit_at st i))")
    case True
    then show ?thesis
      using trigger_exact[OF True iv', of "tz env"] base tou_pointD(1,2)[OF True]
      by (simp add: point_due_def fires_between_def Let_def)
  next
    case False
    then show ?thesis using that assms(4)
      by (auto simp: point_due_def fires_between_def Let_def tou_point_def point_times_ok_def point_sec_def)
  qed
  have f: "filter (point_due env base ?c) [0..<?num] = filter (fires_between env st ?l n) [0..<?num]"
    using due by (intro filter_cong refl) (simp add: due_cong[OF cf])
  have "Smart_Tou_Handle_TimePoint_Control env n st = Inr (st'\<lparr>point_pre_time := n, point_valid_cnt := cnt\<rparr>)"
    using iv base c(1,4,5) l(1) by (simp add: Smart_Tou_Handle_TimePoint_Control_def case_prod_beta split: option.split)
  then show ?thesis using l(3,4) c(3) f sec_cong(6)[OF cf] by simp
qed

text \<open>A failed allocation, or more than seven days without a run, lets the triggers pass for good.\<close>

lemma points_lost:
  assumes "point_pre_time st \<noteq> 0" "point_pre_time st < n"
    and "\<not> alloc env (tou_calls st) \<or> n - point_pre_time st > 604800"
  shows "\<exists>st'. Smart_Tou_Handle_TimePoint_Control env n st = Inr st' \<and> point_pre_time st' = n \<and>
    emitted st' = emitted st \<and> point_valid_cnt st' = 0"
proof -
  let ?l = "point_pre_time st" and ?c = "snd (tou_calloc env st)"
  have cc: "core ?c = core st" by simp
  have l: "point_pre_time ?c = ?l" using core_fields(13)[OF cc] .
  have "\<exists>base. tou_time_get_base_arr base_fuel (fst (tou_calloc env st)) (tz env) ?l n = Some base \<and> t_base_arr base = None"
  proof (cases "n - ?l > 604800")
    case True
    then show ?thesis by (simp add: tou_time_get_base_arr_def CONFIG_TOU_CHECK_BACK_DAYS_def)
  next
    case False
    then have "\<not> fst (tou_calloc env st)" using assms(3) by (simp add: tou_calloc_def)
    then show ?thesis using base_arr_some[OF assms(1,2), of base_fuel "tz env"] False by (simp add: base_fuel_def)
  qed
  then obtain base where "tou_time_get_base_arr base_fuel (fst (tou_calloc env st)) (tz env) ?l n = Some base"
      "t_base_arr base = None" by blast
  then have "Smart_Tou_Handle_TimePoint_Control env n st = Inr (?c\<lparr>point_pre_time := n, point_valid_cnt := 0\<rparr>)"
    using assms(1,2) l by (simp add: Smart_Tou_Handle_TimePoint_Control_def case_prod_beta)
  then show ?thesis by simp
qed

section \<open>The configuration survives a restart\<close>

definition writes_whole :: "fs_write \<Rightarrow> bool" where
  "writes_whole wr \<longleftrightarrow> (\<forall>bs f. wr bs f = (int (length bs), Some (bs @ (case f of None \<Rightarrow> [] | Some old \<Rightarrow> drop (length bs) old))))"

lemma config_of_bytes_ok: "length bs = sizeof_config \<Longrightarrow> config_ok (config_of_bytes bs)"
  by (simp add: config_ok_def config_of_bytes_def tou_sizes)

lemma default_config_ok: "config_ok default_config"
  using config_of_bytes_ok[of "replicate sizeof_config 0"] by (simp add: default_config_def config_ok_def)

lemma config_bytes_info:
  "2 \<le> k \<Longrightarrow> config_bytes (c\<lparr>smart_tou_info := i\<rparr>) ! k = config_bytes c ! k"
  "config_ok (c\<lparr>smart_tou_info := i\<rparr>) = config_ok c"
  by (simp_all add: config_bytes_def info_bytes_def config_ok_def nth_append)

lemma commit_ok:
  assumes "config_ok (tou_cfg st)" "length (tou_cfg_wr st) = sizeof_config"
    and "Smart_Tou_Ctrl_Config_Commit free wr off n st f = Inr (0, st', f')"
  shows "config_ok (tou_cfg st')" "tou_time_num st' = SMART_TOU_UNIT_MAX_CNT"
    "f' = snd (Smart_Tou_Write_Config_To_File wr st' f)"
    "2 \<le> k \<Longrightarrow> k < sizeof_config \<Longrightarrow> config_bytes (tou_cfg st') ! k =
       (if unat off \<le> k \<and> k < unat off + unat n then tou_cfg_wr st ! k else config_bytes (tou_cfg st) ! k)"
proof -
  define bs where "bs = copy_range (unat off) (unat n) (tou_cfg_wr st) (config_bytes (tou_cfg st))"
  define info :: smart_tou_plan_set where
    "info = \<lparr>diff_type = 1, plan_reserved = 0, time_num = of_nat SMART_TOU_UNIT_MAX_CNT\<rparr>"
  have c: "unat off + unat n \<le> sizeof_config" "tou_cfg st' = (config_of_bytes bs)\<lparr>smart_tou_info := info\<rparr>"
    "f' = snd (Smart_Tou_Write_Config_To_File wr st' f)"
    using assms(3) by (auto simp: Smart_Tou_Ctrl_Config_Commit_def Let_def bs_def info_def split: if_splits)
  then show "f' = snd (Smart_Tou_Write_Config_To_File wr st' f)" by blast
  have old: "length (config_bytes (tou_cfg st)) = sizeof_config" using assms(1) by simp
  have len: "length bs = sizeof_config" using c(1) old assms(2) by (simp add: bs_def copy_range_def)
  show "config_ok (tou_cfg st')" using config_of_bytes_ok[OF len] by (simp add: c(2) config_bytes_info)
  show "tou_time_num st' = SMART_TOU_UNIT_MAX_CNT" by (simp add: tou_time_num_def c(2) info_def tou_sizes)
  assume k: "2 \<le> k" "k < sizeof_config"
  have "bs ! k = (if unat off \<le> k \<and> k < unat off + unat n then tou_cfg_wr st ! k else config_bytes (tou_cfg st) ! k)"
    using c(1) old assms(2) k by (auto simp: bs_def copy_range_def nth_append)
  then show "config_bytes (tou_cfg st') ! k =
       (if unat off \<le> k \<and> k < unat off + unat n then tou_cfg_wr st ! k else config_bytes (tou_cfg st) ! k)"
    using k(1) by (simp add: c(2) config_bytes_info(1) config_bytes_of_bytes[OF len])
qed

lemma restart_reads_file:
  assumes "writes_whole wr" "config_ok (tou_cfg st)" "Smart_Tou_Write_Config_To_File wr st f = (r, f')"
  shows "r = 0" "\<exists>st2. Smart_Tou_Ctrl_Module_Init True True wr st0 f' = (0, st2, f') \<and> tou_cfg st2 = tou_cfg st"
proof -
  have len: "length (config_bytes (tou_cfg st)) = sizeof_config" using assms(2) by simp
  have w: "r = 0 \<and> f' = Some (config_bytes (tou_cfg st) @ (case f of None \<Rightarrow> [] | Some old \<Rightarrow> drop sizeof_config old))"
    using assms len by (cases f) (auto simp: Smart_Tou_Write_Config_To_File_def writes_whole_def)
  then show "r = 0" by simp
  have "take sizeof_config (the f') = config_bytes (tou_cfg st)" using w len by simp
  then show "\<exists>st2. Smart_Tou_Ctrl_Module_Init True True wr st0 f' = (0, st2, f') \<and> tou_cfg st2 = tou_cfg st"
    using w len assms(2) by (auto simp: Smart_Tou_Ctrl_Module_Init_def Let_def config_of_config_bytes)
qed


section \<open>The invariant of the module\<close>

definition basic_ok :: "tou_state \<Rightarrow> bool" where
  "basic_ok st \<longleftrightarrow> running_ok st \<and> (\<forall>q. xQueue st = Some q \<longrightarrow> length q \<le> QUEUE_LEN)"

definition cfg_ok :: "tou_state \<Rightarrow> bool" where
  "cfg_ok st \<longleftrightarrow> config_ok (tou_cfg st) \<and> tou_time_num st \<le> SMART_TOU_UNIT_MAX_CNT"

definition tou_ok :: "tou_state \<Rightarrow> bool" where
  "tou_ok st \<longleftrightarrow> cfg_ok st \<and> table_ok st \<and> basic_ok st"

lemma basic_ok_cong: "xQueue s = xQueue t \<Longrightarrow> running s = running t \<Longrightarrow> basic_ok s = basic_ok t"
  using running_ok_frame(1)[of s t] by (simp add: basic_ok_def)

lemma basic_ok_steps:
  assumes "basic_ok st"
  shows "basic_ok (snd (tou_calloc env st))" "basic_ok (snd (queue_send env r st))"
    "basic_ok (snd (Append_Smart_Tou_TimeCtrl_Status env r st))"
proof -
  show "basic_ok (snd (tou_calloc env st))" using assms by (subst basic_ok_cong[of _ st]) (simp_all add: tou_calloc_def)
  show "basic_ok (snd (queue_send env r st))"
    using assms running_ok_send[of env r st]
    by (auto simp: basic_ok_def queue_send_def Let_def QUEUE_LEN_def split: option.splits)
  show "basic_ok (snd (Append_Smart_Tou_TimeCtrl_Status env r st))"
    using assms running_ok_append[of st env r]
    by (auto simp: basic_ok_def Append_Smart_Tou_TimeCtrl_Status_def split: option.splits)
qed

lemma basic_ok_enqueue: "basic_ok st \<Longrightarrow> basic_ok (snd (Smart_Tou_Enqueue_Result_ByIndex env i st))"
  by (simp add: Smart_Tou_Enqueue_Result_ByIndex_def Let_def case_prod_beta basic_ok_steps)

lemma basic_ok_quanta [simp]: "basic_ok (st\<lparr>quanta := q\<rparr>) = basic_ok st"
  by (rule basic_ok_cong) simp_all

lemma basic_ok_clear: "basic_ok st \<Longrightarrow> basic_ok (clear_time_quantum_entry env i st)"
  by (simp add: clear_time_quantum_entry_def Let_def case_prod_beta basic_ok_steps)

lemma basic_ok_clear_matching: "basic_ok st \<Longrightarrow> basic_ok (clear_matching_time_quantum_entries env si ei st)"
  by (simp add: clear_matching_time_quantum_entries_def basic_ok_clear split: option.split)

lemma basic_ok_keep: "basic_ok st \<Longrightarrow> basic_ok (keep_entry env cb i st)"
  by (simp add: keep_entry_def Let_def case_prod_beta basic_ok_steps split: option.split)

lemma basic_ok_fold: "(\<And>x s. basic_ok s \<Longrightarrow> basic_ok (f x s)) \<Longrightarrow> basic_ok s \<Longrightarrow> basic_ok (fold f xs s)"
  by (induction xs arbitrary: s) auto

lemma basic_ok_demote: "basic_ok st \<Longrightarrow> basic_ok (demote_matching si ei st)"
  by (simp add: demote_matching_def split: option.split)

lemma basic_ok_clear_cfg: "basic_ok (clear_time_cfg i st) = basic_ok st"
  by (rule basic_ok_cong) (simp_all add: clear_time_cfg_def)

lemma basic_ok_detect: "basic_ok st \<Longrightarrow> basic_ok (detect_and_remove_deleted env old cur st)"
proof -
  have "basic_ok s \<Longrightarrow> basic_ok (detect_entry env P e s)" for P e s
    by (simp add: detect_entry_def Let_def basic_ok_clear_cfg basic_ok_clear_matching basic_ok_demote)
  then show "basic_ok st \<Longrightarrow> basic_ok (detect_and_remove_deleted env old cur st)"
    by (auto simp: detect_and_remove_deleted_def intro!: basic_ok_fold basic_ok_clear split: option.split list.split)
qed

lemma basic_ok_append_loop: "basic_ok st \<Longrightarrow> basic_ok (snd (append_loop env xs pi used nx n st))"
proof (induction env xs pi used nx n st rule: append_loop.induct)
  case (1 env xs pi used nx n st)
  then show ?case by (subst append_loop.simps) (auto simp: Let_def split: option.split)
qed

lemma basic_ok_rebuild:
  "basic_ok st \<Longrightarrow> basic_ok (snd (Smart_Tou_RebuildOrUpdate_TimeQuantumConfig env mode st))"
  by (auto simp: Smart_Tou_RebuildOrUpdate_TimeQuantumConfig_def Let_def append_build_from_sorted_idx_list_def
      basic_ok_append_loop basic_ok_detect split: timequantum_build_mode.split)

text \<open>The configuration keeps its shape.\<close>

lemma cfg_ok_cong: "tou_cfg s = tou_cfg t \<Longrightarrow> cfg_ok s = cfg_ok t"
  by (simp add: cfg_ok_def tou_time_num_def)

lemma erase_shape: "config_ok (fold erase_point is c) = config_ok c" "smart_tou_info (fold erase_point is c) = smart_tou_info c"
  by (induction "is" arbitrary: c) (simp_all add: erase_point_def config_ok_def)

lemma cfg_ok_rebuild:
  assumes "qsort_ok env" "table_ok st" "cfg_ok st"
  shows "cfg_ok (snd (Smart_Tou_RebuildOrUpdate_TimeQuantumConfig env mode st))"
proof (cases mode)
  case TIMEQUANTUM_BUILD_REBUILD
  obtain k st' where run: "Smart_Tou_RebuildOrUpdate_TimeQuantumConfig env TIMEQUANTUM_BUILD_REBUILD st = (k, st')" by fastforce
  then have "tou_cfg st' = tou_cfg st" using rebuild_exact(3)[OF assms(1) run] by auto
  then show ?thesis using run TIMEQUANTUM_BUILD_REBUILD cfg_ok_cong[of st' st] assms(3) by simp
next
  case TIMEQUANTUM_BUILD_UPDATE
  obtain k st' where run: "Smart_Tou_RebuildOrUpdate_TimeQuantumConfig env TIMEQUANTUM_BUILD_UPDATE st = (k, st')" by fastforce
  have "cfg_ok st'"
  proof (cases "collect_quantum_idx st = []")
    case True
    then have "tou_cfg st' = tou_cfg st"
      using run clear_all(2)[OF assms(2)] by (auto simp: Smart_Tou_RebuildOrUpdate_TimeQuantumConfig_def)
    then show ?thesis using cfg_ok_cong[of st' st] assms(3) by simp
  next
    case False
    have xs: "sorted_points env st \<noteq> []" using False sorted_points_ok(2)[OF assms(1), of st] by (metis set_empty)
    note d = detect_exact(2)[OF assms(2) xs, of env, folded update_removed_def]
    have "tou_cfg st' = tou_cfg (update_removed env st)"
      by (rule append_emitted(3)[OF update_steps(3)[OF assms(1,2) False run]])
    then show ?thesis using assms(3) d by (simp add: cfg_ok_def tou_time_num_def erase_shape)
  qed
  then show ?thesis using run TIMEQUANTUM_BUILD_UPDATE by simp
qed

lemma table_ok_cong: "quanta s = quanta t \<Longrightarrow> table_ok s = table_ok t"
  by (simp add: table_ok_def configured_def)

lemma table_ok_rebuild:
  assumes "qsort_ok env" "table_ok st"
  shows "table_ok (snd (Smart_Tou_RebuildOrUpdate_TimeQuantumConfig env mode st))"
proof -
  obtain k st' where run: "Smart_Tou_RebuildOrUpdate_TimeQuantumConfig env mode st = (k, st')" by fastforce
  then show ?thesis
    using rebuild_exact(2)[OF assms(1)] update_all_current(1)[OF assms] by (cases mode) auto
qed

lemma core_day_end: "core (day_end_entry env q st) = core st"
  by (simp add: day_end_entry_def Let_def)

lemma core_ok:
  assumes "core s = core t"
  shows "cfg_ok s = cfg_ok t" "table_ok s = table_ok t"
  using cfg_ok_cong[OF core_fields(2)[OF assms]] table_ok_cong[OF core_fields(4)[OF assms]] .

lemma basic_ok_pass:
  assumes "basic_ok st"
  shows "basic_ok (fst (fold (quantum_entry env sec) qs (st, n)))"
proof -
  have s: "basic_ok (set_status q x s) = basic_ok s" for q x s by (simp add: set_status_def)
  have "basic_ok (fst p) \<Longrightarrow> basic_ok (fst (quantum_entry env sec q p))" for q p
    by (cases p; cases "status (quanta (fst p) ! q)")
       (auto simp: quantum_entry_def Let_def s basic_ok_enqueue)
  then have "basic_ok (fst p) \<Longrightarrow> basic_ok (fst (fold (quantum_entry env sec) qs p))" for p
    by (induction qs arbitrary: p) auto
  then show ?thesis using assms by simp
qed

lemma quantum_control_ok:
  assumes "qsort_ok env" "tou_ok st"
  shows "tou_ok (Smart_Tou_Handle_TimeQuantum_Control env t_now st)"
proof -
  define sec :: u32 where "sec = word_of_int (t_now - day_base env t_now)"
  define st1 where "st1 = (if day_base env t_now > quantum_pre_time st then st\<lparr>quantum_pre_time := day_base env t_now\<rparr> else st)"
  define st2 where "st2 = (if day_base env t_now > quantum_pre_time st
     then snd (Smart_Tou_RebuildOrUpdate_TimeQuantumConfig env TIMEQUANTUM_BUILD_REBUILD
            (fold (day_end_entry env) [0..<SMART_TOU_QUANTUM_MAX_CNT] st1))
     else if update_flag st1 then snd (Smart_Tou_RebuildOrUpdate_TimeQuantumConfig env TIMEQUANTUM_BUILD_UPDATE st1) else st1)"
  have st1: "tou_ok st1" using assms(2) cfg_ok_cong[of st1 st] table_ok_cong[of st1 st] basic_ok_cong[of st1 st]
    by (simp add: tou_ok_def st1_def)
  have "core (fold (day_end_entry env) qs st1) = core st1" for qs by (rule core_fold) (rule core_day_end)
  note ends = core_ok[OF this]
  have eb: "basic_ok (fold (day_end_entry env) qs st1)" for qs
    by (rule basic_ok_fold) (use st1 in \<open>auto simp: day_end_entry_def Let_def basic_ok_enqueue tou_ok_def\<close>)
  have st2: "tou_ok st2"
    using st1 ends eb cfg_ok_rebuild[OF assms(1)] table_ok_rebuild[OF assms(1)] basic_ok_rebuild
    by (simp add: tou_ok_def st2_def)
  obtain s cnt where s: "fold (quantum_entry env sec) [0..<SMART_TOU_QUANTUM_MAX_CNT] (st2, 0) = (s, cnt)"
    "core s = core (st2\<lparr>quanta := map (entry_next st2 sec) (quanta st2)\<rparr>)"
    by (rule quantum_pass[of st2 env sec]) (use st2 in \<open>auto simp: tou_ok_def table_ok_def\<close>)
  have "Smart_Tou_Handle_TimeQuantum_Control env t_now st = s\<lparr>quantum_valid_cnt := cnt\<rparr>"
    unfolding Smart_Tou_Handle_TimeQuantum_Control_def Let_def st1_def[symmetric] st2_def[symmetric]
      sec_def[symmetric] s(1) by simp
  moreover have "tou_ok s"
    using st2 core_fields(2,4)[OF s(2)] basic_ok_pass[of st2 env sec "[0..<SMART_TOU_QUANTUM_MAX_CNT]" 0] s(1)
      next_table_ok[of st2 s st2 sec] cfg_ok_cong[of s st2] by (simp add: tou_ok_def)
  ultimately show ?thesis
    using cfg_ok_cong[of "s\<lparr>quantum_valid_cnt := cnt\<rparr>" s] table_ok_cong[of "s\<lparr>quantum_valid_cnt := cnt\<rparr>" s]
      basic_ok_cong[of "s\<lparr>quantum_valid_cnt := cnt\<rparr>" s] by (simp add: tou_ok_def)
qed

lemma tou_ok_cong:
  assumes "core s = core t" "basic_ok s" "tou_ok t"
  shows "tou_ok s"
  using assms core_ok[OF assms(1)] by (simp add: tou_ok_def)

lemma point_loop_ok:
  assumes "\<forall>i \<in> set is. i < SMART_TOU_UNIT_MAX_CNT" "basic_ok st"
  shows "\<exists>st' c. point_loop env base is (st, n) = Inr (st', c) \<and> core st' = core st \<and> basic_ok st'"
  using assms
proof (induction "is" arbitrary: st n)
  case (Cons i "is")
  let ?e = "snd (Smart_Tou_Enqueue_Result_ByIndex env (int i) st)"
  have "\<exists>s m. point_loop env base (i # is) (st, n) = point_loop env base is (s, m) \<and> (s = st \<or> s = ?e)"
    using Cons.prems(1) by (auto simp: Let_def)
  then obtain s m where s: "point_loop env base (i # is) (st, n) = point_loop env base is (s, m)" "s = st \<or> s = ?e" by blast
  then have "core s = core st" "basic_ok s" using Cons.prems(2) basic_ok_enqueue by auto
  then show ?case using Cons.IH[of s m] Cons.prems(1) s(1) by auto
qed simp

lemma point_control_ok:
  assumes "tou_ok st"
  shows "\<exists>st'. Smart_Tou_Handle_TimePoint_Control env t_now st = Inr st' \<and> tou_ok st'"
proof -
  let ?c = "snd (tou_calloc env st)"
  have upd: "tou_ok (s\<lparr>point_pre_time := a\<rparr>) = tou_ok s" "tou_ok (s\<lparr>point_pre_time := a, point_valid_cnt := b\<rparr>) = tou_ok s" for s a b
    using cfg_ok_cong[of "s\<lparr>point_pre_time := a\<rparr>" s] table_ok_cong[of "s\<lparr>point_pre_time := a\<rparr>" s]
      basic_ok_cong[of "s\<lparr>point_pre_time := a\<rparr>" s] cfg_ok_cong[of "s\<lparr>point_pre_time := a, point_valid_cnt := b\<rparr>" s]
      table_ok_cong[of "s\<lparr>point_pre_time := a, point_valid_cnt := b\<rparr>" s]
      basic_ok_cong[of "s\<lparr>point_pre_time := a, point_valid_cnt := b\<rparr>" s] by (simp_all add: tou_ok_def)
  have cc: "core ?c = core st" by simp
  have c: "basic_ok ?c" using assms basic_ok_steps(1) by (simp add: tou_ok_def)
  have cok: "tou_ok ?c" by (rule tou_ok_cong[OF cc c assms])
  have num: "\<forall>i \<in> set [0..<tou_time_num ?c]. i < SMART_TOU_UNIT_MAX_CNT"
    using assms core_fields(2)[OF cc] by (auto simp: tou_ok_def cfg_ok_def tou_time_num_def)
  have loop: "\<exists>st' k. point_loop env base [0..<tou_time_num ?c] (?c, 0) = Inr (st', k) \<and> tou_ok st'" for base
    using point_loop_ok[OF num c, of env base 0] tou_ok_cong[OF _ _ cok] by blast
  show ?thesis
  proof (cases "point_pre_time st = 0 \<or> t_now \<le> point_pre_time st")
    case True
    then show ?thesis using assms by (simp add: Smart_Tou_Handle_TimePoint_Control_def upd)
  next
    case False
    define m where "m = (case tou_time_get_base_arr base_fuel (fst (tou_calloc env st)) (tz env) (point_pre_time ?c) t_now of
                 None \<Rightarrow> Inr (?c, 0)
               | Some base \<Rightarrow>
                   (case t_base_arr base of
                      None \<Rightarrow> Inr (?c, 0)
                    | Some _ \<Rightarrow> point_loop env base [0..<tou_time_num ?c] (?c, 0)))"
    have "\<exists>st' k. m = Inr (st', k) \<and> tou_ok st'"
      using loop cok by (auto simp: m_def split: option.split)
    then show ?thesis using False
      by (auto simp: Smart_Tou_Handle_TimePoint_Control_def case_prod_beta m_def[symmetric] upd)
  qed
qed

lemma keeping_ok:
  assumes "tou_ok st"
  shows "tou_ok (Smart_Tou_Handle_Keeping_Control env st)"
proof (rule tou_ok_cong[OF core_keeping _ assms])
  have b: "basic_ok (st\<lparr>pre_tick := t\<rparr>) = basic_ok st" for t by (rule basic_ok_cong) simp_all
  show "basic_ok (Smart_Tou_Handle_Keeping_Control env st)"
    using assms by (auto simp: Smart_Tou_Handle_Keeping_Control_def Let_def b tou_ok_def
        intro!: basic_ok_fold basic_ok_keep split: option.split)
qed

lemma status_loop_ok: "\<forall>i \<in> set is. i < SMART_TOU_UNIT_MAX_CNT \<Longrightarrow> \<exists>s'. status_loop st is s = Inr s'"
  by (induction "is" arbitrary: s) (auto simp: Let_def)

lemma tou_ok_frames:
  "tou_ok (st\<lparr>tou_status := s, status_first := b\<rparr>) = tou_ok st" "tou_ok (st\<lparr>update_flag := b\<rparr>) = tou_ok st"
  "tou_ok (st\<lparr>write_flag := b\<rparr>) = tou_ok st"
  by (simp_all add: tou_ok_def cfg_ok_def tou_time_num_def table_ok_def configured_def basic_ok_def running_ok_def)

lemma status_check_ok:
  assumes "tou_ok st"
  shows "\<exists>st'. Smart_Tou_Ctrl_Status_Check st = Inr st' \<and> tou_ok st'"
proof -
  have "\<exists>s. status_loop st [0..<tou_time_num st] 0 = Inr s"
    using assms by (intro status_loop_ok) (auto simp: tou_ok_def cfg_ok_def)
  then show ?thesis using assms by (auto simp: Smart_Tou_Ctrl_Status_Check_def tou_ok_frames)
qed

lemma process_ok:
  assumes "qsort_ok env" "tou_ok st"
  shows "\<exists>st' f'. Smart_Tou_Ctrl_Module_Process free wr env t_now st f = Inr (st', f') \<and> tou_ok st'"
proof -
  obtain st1 where 1: "Smart_Tou_Handle_TimePoint_Control env t_now st = Inr st1" "tou_ok st1"
    using point_control_ok[OF assms(2)] by blast
  define st2 where "st2 = (if quantum_enable st1
    then Smart_Tou_Handle_Keeping_Control env (Smart_Tou_Handle_TimeQuantum_Control env t_now st1) else st1)"
  have "tou_ok st2" using 1(2) keeping_ok quantum_control_ok[OF assms(1)] by (simp add: st2_def)
  then obtain st3 where 3: "Smart_Tou_Ctrl_Status_Check st2 = Inr st3" "tou_ok st3" using status_check_ok by blast
  obtain r f' where w: "Smart_Tou_Write_Config_To_File wr (st3\<lparr>update_flag := False\<rparr>) f = (r, f')" by fastforce
  show ?thesis using assms(2) 1(1) 3 w
    by (auto simp: Smart_Tou_Ctrl_Module_Process_def st2_def[symmetric] Let_def tou_ok_frames)
qed


section \<open>Where the code falls short\<close>

text \<open>The number of points in the file is not checked: above 140 the first run reads past the points.\<close>

lemma status_loop_fault:
  "\<forall>j \<in> set xs. j < SMART_TOU_UNIT_MAX_CNT \<Longrightarrow> SMART_TOU_UNIT_MAX_CNT \<le> i \<Longrightarrow>
   status_loop st (xs @ i # ys) s = Inl Out_Of_Bounds_Read"
  by (induction xs arbitrary: s) (simp_all add: Let_def)

lemma unchecked_point_count:
  assumes "SMART_TOU_UNIT_MAX_CNT < tou_time_num st" "status_first st"
  shows "Smart_Tou_Ctrl_Status_Check st = Inl Out_Of_Bounds_Read"
proof -
  have "[0..<tou_time_num st] = [0..<SMART_TOU_UNIT_MAX_CNT] @ SMART_TOU_UNIT_MAX_CNT # [Suc SMART_TOU_UNIT_MAX_CNT..<tou_time_num st]"
    using assms(1) upt_add_eq_append[of 0 SMART_TOU_UNIT_MAX_CNT "tou_time_num st - SMART_TOU_UNIT_MAX_CNT"]
    by (simp add: upt_conv_Cons del: upt_Suc)
  then show ?thesis using assms status_loop_fault by (simp add: Smart_Tou_Ctrl_Status_Check_def)
qed

text \<open>A start point whose end was not there yet is erased by the next update.\<close>

lemma start_only_erased:
  "status e = TOU_PERIOD_STATUS_START_ONLY \<Longrightarrow> start_present P e \<Longrightarrow> orphans P e = [start_time_index e]"
  by (simp add: orphans_def both_present_def end_present_def)

text \<open>An active period whose end was moved before its start is neither ended nor touched again that day.\<close>

lemma inverted_period_stuck:
  "status e = TOU_PERIOD_STATUS_ACTIVE \<Longrightarrow> end_sec st e \<le> start_sec st e \<Longrightarrow>
   entry_next st t e = e \<and> entry_cmds st t e = []"
  by (auto simp: entry_next_def entry_cmds_def)

text \<open>Once the clock was ahead, no day change is seen until that date: the table keeps its points.\<close>

lemma clock_back_keeps_table:
  assumes "table_ok st" "\<not> update_flag st" "day_base env t_now \<le> quantum_pre_time st" "s < SMART_TOU_QUANTUM_MAX_CNT"
    "status (quanta (Smart_Tou_Handle_TimeQuantum_Control env t_now st) ! s) \<noteq> TOU_PERIOD_STATUS_UNCONFIGURED"
  shows "points_of (quanta (Smart_Tou_Handle_TimeQuantum_Control env t_now st) ! s) = points_of (quanta st ! s)"
proof -
  have len: "s < length (quanta st)" and ok: "entry_ok (quanta st ! s)"
    using assms(1,4) by (auto simp: table_ok_def)
  show ?thesis using entry_next_ok(2)[OF ok] assms(5) handle_same_day(1)[OF assms(1-3)] len by simp
qed

text \<open>A start command that could not be issued leaves the period active all the same.\<close>

lemma lost_start_is_active:
  assumes "q < length (quanta st)" "entry_ok (quanta st ! q)" "status (quanta st ! q) = TOU_PERIOD_STATUS_CONFIGURED_IDLE"
    "in_period st sec (quanta st ! q)" "\<not> alloc env (tou_calls st)"
  shows "status (quanta (fst (quantum_entry env sec q (st, n))) ! q) = TOU_PERIOD_STATUS_ACTIVE \<and>
    emitted (fst (quantum_entry env sec q (st, n))) = emitted st"
proof -
  obtain st' where q: "quantum_entry env sec q (st, n) =
       (st', n + (if status (quanta st ! q) = TOU_PERIOD_STATUS_UNCONFIGURED then 0 else 1))"
    "core st' = core (st\<lparr>quanta := (quanta st)[q := entry_next st sec (quanta st ! q)]\<rparr>)"
    using quantum_entry_ok[OF assms(1,2)] by metis
  have "status (quanta (fst (quantum_entry env sec q (st, n))) ! q) = TOU_PERIOD_STATUS_ACTIVE"
    using core_fields(4)[OF q(2)] assms(1,3,4) by (simp add: q(1) entry_next_def)
  moreover have e: "emitted (snd (Smart_Tou_Enqueue_Result_ByIndex env i st)) = emitted st" for i
    using assms(5) by (simp add: Smart_Tou_Enqueue_Result_ByIndex_def Let_def case_prod_beta tou_calloc_def emitted_def)
  have "fst (quantum_entry env sec q (st, n)) = set_status q TOU_PERIOD_STATUS_ACTIVE
      (snd (Smart_Tou_Enqueue_Result_ByIndex env (uint (start_time_index (quanta st ! q))) st))"
    using assms(3,4) by (auto simp: quantum_entry_def Let_def in_period_def)
  then have "emitted (fst (quantum_entry env sec q (st, n))) = emitted st"
    by (simp add: set_status_def e del: uint_nat)
  ultimately show ?thesis by blast
qed

text \<open>A register once kept is kept for ever: nothing takes it out of the table.\<close>

lemma kept_grows:
  assumes "running_ok st"
  shows "dom (kept st) \<subseteq> dom (kept (snd (Append_Smart_Tou_TimeCtrl_Status env r st)))"
proof -
  obtain k st' where a: "Append_Smart_Tou_TimeCtrl_Status env r st = (k, st')" by fastforce
  show ?thesis using append_kept(2,3)[OF assms a] a by (cases "k = 0xFF") auto
qed

text \<open>The result of the write to the file is not looked at.\<close>

lemma commit_ignores_write:
  "Smart_Tou_Ctrl_Config_Commit free wr off n st f = Inr (r, st', f') \<Longrightarrow>
   \<exists>f''. Smart_Tou_Ctrl_Config_Commit free wr' off n st f = Inr (r, st', f'')"
  by (auto simp: Smart_Tou_Ctrl_Config_Commit_def Let_def split: if_splits)

end
