(* ===== verification/Tou_Schedule.thy ===== *)
theory Tou_Schedule
  imports Tou_Process "HOL-Library.Sublist"
begin

text \<open>
  What the time-of-use control guarantees, on top of \<open>Tou_Process\<close>: the period table against the
  configuration, the commands of a day, points and kept registers, the configuration file.  The
  example is the preset of the module's own test routine \<open>Smart_Tou_Test_Preset_Quanta\<close>; the sort of the
  example outside is insertion, which meets what is asked of \<open>qsort\<close>.
\<close>

section \<open>An outside and a configuration\<close>

fun insert_by :: "('a \<Rightarrow> 'a \<Rightarrow> int) \<Rightarrow> 'a \<Rightarrow> 'a list \<Rightarrow> 'a list" where
  "insert_by cmp x [] = [x]"
| "insert_by cmp x (y # ys) = (if cmp x y \<le> 0 then x # y # ys else y # insert_by cmp x ys)"

definition insertion :: "('a \<Rightarrow> 'a \<Rightarrow> int) \<Rightarrow> 'a list \<Rightarrow> 'a list" where
  "insertion cmp xs = foldr (insert_by cmp) xs []"

lemma mset_insert_by: "mset (insert_by cmp x xs) = add_mset x (mset xs)"
  by (induction xs) auto

text \<open>A comparison as \<open>qsort\<close> needs it.\<close>

definition total_order_cmp :: "('a \<Rightarrow> 'a \<Rightarrow> int) \<Rightarrow> bool" where
  "total_order_cmp cmp \<longleftrightarrow> (\<forall>a b. cmp a b \<le> 0 \<or> cmp b a \<le> 0) \<and>
     (\<forall>a b c. cmp a b \<le> 0 \<and> cmp b c \<le> 0 \<longrightarrow> cmp a c \<le> 0)"

lemma sorted_insert_by:
  assumes "total_order_cmp cmp" "sorted_wrt (\<lambda>a b. cmp a b \<le> 0) xs"
  shows "sorted_wrt (\<lambda>a b. cmp a b \<le> 0) (insert_by cmp x xs)"
  using assms(2)
proof (induction xs)
  case (Cons y ys)
  have s: "set (insert_by cmp x ys) = insert x (set ys)"
    using mset_eq_setD[of "insert_by cmp x ys" "x # ys"] by (simp add: mset_insert_by)
  show ?case
  proof (cases "cmp x y \<le> 0")
    case True
    have "cmp x z \<le> 0" if "z \<in> set ys" for z
      using that Cons.prems True assms(1) unfolding total_order_cmp_def by (metis sorted_wrt.simps(2))
    then show ?thesis using Cons.prems True by simp
  next
    case False
    then have "cmp y x \<le> 0" using assms(1) unfolding total_order_cmp_def by metis
    then show ?thesis using Cons False by (simp add: s)
  qed
qed simp

lemma insertion_ok:
  shows "mset (insertion cmp xs) = mset xs"
    and "total_order_cmp cmp \<Longrightarrow> sorted_wrt (\<lambda>a b. cmp a b \<le> 0) (insertion cmp xs)"
  by (induction xs) (simp_all add: insertion_def mset_insert_by sorted_insert_by)

text \<open>Eight hours ahead of UTC; the clock is at the start of 1 January 1970, local time.\<close>

definition tou_outside :: tou_env where
  "tou_outside = \<lparr>alloc = \<lambda>_. True, taken = \<lambda>_. 1, tick = 5000, tz = 28800, wall = -28800, qsort = insertion\<rparr>"

lemma tou_outside_ok: "qsort_ok tou_outside" "prompt tou_outside"
proof -
  have "qsort tou_outside = insertion" by (simp add: tou_outside_def)
  then show "qsort_ok tou_outside"
    by (simp add: qsort_ok_def total_order_cmp_def[symmetric] insertion_ok del: all_conj_distrib)
  show "prompt tou_outside" by (simp add: prompt_def tou_outside_def)
qed

definition zero_unit :: smart_tou_unit_config where
  "zero_unit = \<lparr>time_cfg = zero_time_cfg, reg_cfg = \<lparr>reg_addr = 0, reg_value = 0\<rparr>\<rparr>"

definition preset_unit :: "17 word \<Rightarrow> u16 \<Rightarrow> u16 \<Rightarrow> smart_tou_unit_config" where
  "preset_unit sec a v =
     \<lparr>time_cfg = \<lparr>time_sec = sec, week_sel = 0x7F, day_sel = 0x7FFFFFFF, month_sel = 0xFFF, reg_type = 0,
                  device_id = 0, time_type = TOU_TIME_TYPE_QUANTUM\<rparr>,
      reg_cfg = \<lparr>reg_addr = a, reg_value = v\<rparr>\<rparr>"

definition Smart_Tou_Test_Preset_Quanta :: "tou_state \<Rightarrow> tou_state" where
  "Smart_Tou_Test_Preset_Quanta st = st\<lparr>tou_cfg := (tou_cfg st)\<lparr>smart_tou_unit :=
     (smart_tou_unit (tou_cfg st))[0 := preset_unit (8 * 3600) 7011 65535, 1 := preset_unit (12 * 3600) 7011 0,
       2 := preset_unit (18 * 3600) 7012 65535, 3 := preset_unit (23 * 3600) 7012 0]\<rparr>\<rparr>"

definition blank_config :: smart_tou_ctrl_config where
  "blank_config =
     \<lparr>smart_tou_info = \<lparr>diff_type = 1, plan_reserved = 0, time_num = of_nat SMART_TOU_UNIT_MAX_CNT\<rparr>,
      smart_tou_unit = replicate SMART_TOU_UNIT_MAX_CNT zero_unit, behind_units = replicate 38 0\<rparr>"

definition blank_state :: tou_state where
  "blank_state =
     \<lparr>xQueue = Some [], xMutex = True, tou_cfg = blank_config, tou_cfg_wr = replicate sizeof_config 0,
      quanta = zero_table, point_valid_cnt = 0, quantum_valid_cnt = 0, update_flag = False, write_flag = False,
      running = replicate SMART_TOU_UNIT_MAX_CNT zero_result, pre_tick = 0, reg_cb = None, check_interval = 0,
      quantum_enable = True, tou_status = 0, point_pre_time = 0, quantum_pre_time = 0, status_first = True,
      tou_calls = 0, tou_out = []\<rparr>"

definition preset_state :: tou_state where
  "preset_state = Smart_Tou_Test_Preset_Quanta blank_state"

lemma preset_fields:
  "quanta preset_state = zero_table" "queue_ok preset_state" "\<not> update_flag preset_state" "quantum_pre_time preset_state = 0"
  "running preset_state = replicate SMART_TOU_UNIT_MAX_CNT zero_result" "xQueue preset_state = Some []"
  "tou_time_num preset_state = SMART_TOU_UNIT_MAX_CNT" "emitted preset_state = []"
  by (simp_all add: preset_state_def Smart_Tou_Test_Preset_Quanta_def blank_state_def queue_ok_def QUEUE_LEN_def
      tou_time_num_def blank_config_def tou_sizes emitted_def)

lemma preset_table: "table_ok preset_state"
  by (simp add: table_ok_def preset_fields zero_table_def configured_def entry_ok_def zero_quantum_def filter_replicate)

lemma preset_units:
  "unit_at preset_state 0 = preset_unit 28800 7011 65535" "unit_at preset_state (Suc 0) = preset_unit 43200 7011 0"
  "unit_at preset_state 2 = preset_unit 64800 7012 65535" "unit_at preset_state 3 = preset_unit 82800 7012 0"
  "4 \<le> i \<Longrightarrow> i < SMART_TOU_UNIT_MAX_CNT \<Longrightarrow> unit_at preset_state i = zero_unit"
  by (simp_all add: unit_at_def preset_state_def Smart_Tou_Test_Preset_Quanta_def blank_state_def blank_config_def
      tou_sizes)

lemma preset_ok: "tou_ok preset_state"
  by (simp add: tou_ok_def preset_table cfg_ok_def basic_ok_def running_ok_def preset_fields zero_result_def)
     (simp add: preset_state_def Smart_Tou_Test_Preset_Quanta_def blank_state_def blank_config_def config_ok_def tou_sizes)

lemma quantum_point_preset: "quantum_point st i \<longleftrightarrow> is_quantum_point st i" if "unit_at st i = preset_unit s a v"
  using that by (simp add: quantum_point_def preset_unit_def tou_time_cfg_invalid_def)

lemma preset_collect: "collect_quantum_idx preset_state = [0, 1, 2, 3]"
proof -
  have q: "quantum_point preset_state i \<longleftrightarrow> i < 4" if "i < SMART_TOU_UNIT_MAX_CNT" for i
  proof (cases "i < 4")
    case True
    then have "i = 0 \<or> i = Suc 0 \<or> i = 2 \<or> i = 3" by auto
    then show ?thesis using True
      by (auto simp: quantum_point_def is_quantum_point_def preset_units preset_unit_def tou_time_cfg_invalid_def)
  next
    case False
    then show ?thesis using that
      by (simp add: quantum_point_def is_quantum_point_def preset_units zero_unit_def zero_time_cfg_def TOU_TIME_TYPE_QUANTUM_def)
  qed
  have "filter (quantum_point preset_state) [0..<SMART_TOU_UNIT_MAX_CNT] = filter (\<lambda>i. i < 4) [0..<SMART_TOU_UNIT_MAX_CNT]"
    by (intro filter_cong refl) (simp add: q)
  also have "filter (\<lambda>i. i < 4) [0..<SMART_TOU_UNIT_MAX_CNT] = [0, 1, 2, 3::nat]"
  proof -
    have "[0..<SMART_TOU_UNIT_MAX_CNT] = [0..<4] @ [4..<SMART_TOU_UNIT_MAX_CNT]"
      using upt_add_eq_append[of 0 4 136] by (simp add: SMART_TOU_UNIT_MAX_CNT_def)
    moreover have "[0..<4] = [0, 1, 2, 3::nat]" by (simp add: upt_rec)
    moreover have "filter (\<lambda>i. i < 4) [4..<SMART_TOU_UNIT_MAX_CNT] = []" by (simp add: filter_empty_conv)
    ultimately show ?thesis by simp
  qed
  finally show ?thesis using preset_fields(7) by (simp add: collect_quantum_idx_def tou_time_num_def)
qed


section \<open>The preset evaluated\<close>

lemma four_cases: "(i :: u8) \<in> {0, 1, 2, 3} \<Longrightarrow> unat i < SMART_TOU_UNIT_MAX_CNT"
  by (auto simp: tou_sizes)

lemma preset_sec:
  "point_sec preset_state 0 = 28800" "point_sec preset_state (Suc 0) = 43200"
  "point_sec preset_state 2 = 64800" "point_sec preset_state 3 = 82800"
  by (simp_all add: point_sec_def preset_units preset_unit_def)

lemma preset_sorted: "sorted_points tou_outside preset_state = [0, 1, 2, 3]"
  by (simp add: sorted_points_def preset_collect tou_outside_def insertion_def compare_idx_by_time_def preset_sec Let_def)

lemma first_day: "localtime 28800 (- 28800) =
  \<lparr>tm_sec = 0, tm_min = 0, tm_hour = 0, tm_mday = 1, tm_mon = 0, tm_year = 70, tm_wday = 4\<rparr>"
  by (simp add: localtime_def find_year.simps find_month.simps year_days_def month_days_def leap_def)

lemma preset_usable: "i \<in> {0, 1, 2, 3} \<Longrightarrow> usable tou_outside preset_state i"
  by (auto simp: usable_def tou_sizes day_valid_def tou_outside_def tou_day_is_valid_def first_day preset_units
      preset_unit_def tou_time_cfg_invalid_def tou_date_ok_def TOU_MONTH_IS_SET_def TOU_DAY_IS_SET_def TOU_WEEK_IS_SET_def)

lemma preset_pairs: "period_pairs tou_outside preset_state [0, 1, 2, 3] = [(0, Some 1), (2, Some 3)]"
proof -
  have c: "tou_units_compatible preset_state 0 1" "tou_units_compatible preset_state 2 3"
    by (simp_all add: tou_units_compatible_def tou_sizes preset_units preset_unit_def)
  have "filter (usable tou_outside preset_state) [0, 1, 2, 3] = [0, 1, 2, 3]" using preset_usable by simp
  then show ?thesis using c
    by (simp add: period_pairs_def pair_up.simps extract_Cons_code extract_Nil_code)
qed

definition morning :: tou_time_quantum where "morning = period_entry preset_state 0 (Some 1)"
definition evening :: tou_time_quantum where "evening = period_entry preset_state 2 (Some 3)"

definition rebuilt :: tou_state where
  "rebuilt = snd (Smart_Tou_RebuildOrUpdate_TimeQuantumConfig tou_outside TIMEQUANTUM_BUILD_REBUILD preset_state)"

lemma rebuilt_run: "Smart_Tou_RebuildOrUpdate_TimeQuantumConfig tou_outside TIMEQUANTUM_BUILD_REBUILD preset_state =
  (fst (Smart_Tou_RebuildOrUpdate_TimeQuantumConfig tou_outside TIMEQUANTUM_BUILD_REBUILD preset_state), rebuilt)"
  by (simp add: rebuilt_def)

lemma rebuilt_table: "mset (configured rebuilt) = {#morning, evening#}"
  using rebuild_exact(1)[OF tou_outside_ok(1) rebuilt_run]
  by (simp add: preset_sorted preset_pairs morning_def evening_def tou_sizes)

section \<open>Properties\<close>

text \<open>C7: The period table agrees with the configuration.  After a rebuild or an update, whatever was
  edited before, every configured entry refers to points below 140 that are selected today, carries
  their register and their start and end values, and no point belongs to two periods.\<close>

theorem period_table_current:
  assumes "qsort_ok env" "table_ok st" "Smart_Tou_RebuildOrUpdate_TimeQuantumConfig env mode st = (k, st')"
  shows "table_ok st' \<and> (\<forall>e \<in> set (configured st'). entry_current env st' e)"
  using assms rebuild_exact(2)[OF assms(1)] rebuild_all_current[OF assms(1)] update_all_current[OF assms(1,2)]
  by (cases mode) metis+

theorem period_table_current_witness:
  "table_ok rebuilt \<and> entry_current tou_outside rebuilt morning \<and> entry_current tou_outside rebuilt evening"
  using period_table_current[OF tou_outside_ok(1) preset_table rebuilt_run] mset_eq_setD[of "configured rebuilt" "[morning, evening]"]
    rebuilt_table by simp

text \<open>The periods of one register after a rebuild: its points of the day, in time order, are taken
  two by two, so the periods of a register follow one another and do not overlap; a last odd point
  becomes a period without end.  (At most 70 periods fit.)\<close>

theorem rebuild_register_schedule:
  assumes "qsort_ok env" "length (period_pairs env st (sorted_points env st)) \<le> SMART_TOU_QUANTUM_MAX_CNT"
    "Smart_Tou_RebuildOrUpdate_TimeQuantumConfig env TIMEQUANTUM_BUILD_REBUILD st = (k, st')"
  shows "mset (register_periods st i (configured st')) =
      mset (map (\<lambda>(a, b). period_entry st a b) (adjacent (register_points env st i))) \<and>
    sorted_wrt (\<lambda>a b. point_sec st (unat a) \<le> point_sec st (unat b)) (register_points env st i) \<and>
    distinct (register_points env st i)"
  using rebuild_register[OF assms] sorted_points_ok(3,4)[OF assms(1), of st]
  by (auto simp: register_points_def intro: sorted_wrt_filter)

theorem rebuild_register_schedule_witness:
  "register_points tou_outside preset_state 0 = [0, 1] \<and> mset (register_periods preset_state 0 (configured rebuilt)) = {#morning#}"
proof -
  have r: "register_points tou_outside preset_state 0 = [0, 1]"
    using preset_usable
    by (simp add: register_points_def preset_sorted tou_units_compatible_def tou_sizes preset_units preset_unit_def)
  then show ?thesis
    using rebuild_register_schedule[OF tou_outside_ok(1) _ rebuilt_run, of 0]
    by (simp add: preset_sorted preset_pairs tou_sizes morning_def)
qed

text \<open>C8: What an update commands and what it leaves alone.  Exactly the active periods that lost a point
  or whose register or selection changed are ended, each with the end value stored in it, in table
  order; an active period of which only the values changed is not ended (it starts again with the
  new value); an entry that still matches the configuration stays in its place with its status.\<close>

theorem update_commands:
  assumes "qsort_ok env" "table_ok st" "prompt env" "queue_ok st"
    "Smart_Tou_RebuildOrUpdate_TimeQuantumConfig env TIMEQUANTUM_BUILD_UPDATE st = (k, st')"
  shows "emitted st' = emitted st @ concat (map (ending env (present_idx_map (sorted_points env st)) st) (quanta st)) \<and>
    (\<forall>s < SMART_TOU_QUANTUM_MAX_CNT. status (quanta st ! s) \<noteq> TOU_PERIOD_STATUS_UNCONFIGURED \<longrightarrow>
       stays env (present_idx_map (sorted_points env st)) st (quanta st ! s) \<longrightarrow> quanta st' ! s = quanta st ! s)"
  using update_emits[OF assms] by blast

text \<open>The configuration was emptied while the morning period is active.\<close>

definition active_state :: tou_state where
  "active_state = blank_state\<lparr>quanta := zero_table[0 := morning\<lparr>status := TOU_PERIOD_STATUS_ACTIVE\<rparr>]\<rparr>"

lemma morning_fields: "start_time_index morning = 0" "end_time_index morning = 1"
  "status morning = TOU_PERIOD_STATUS_CONFIGURED_IDLE" "end_value (ctrl morning) = 0" "ctrl_reg_addr (ctrl morning) = 7011"
  by (simp_all add: morning_def period_entry_def Let_def preset_units preset_unit_def)

lemma zero_table_update: "zero_table[0 := e] = e # replicate 69 zero_quantum"
  using replicate_Suc[of 69 zero_quantum] by (simp add: zero_table_def tou_sizes)

lemma one_entry_table:
  assumes "quanta st = zero_table[0 := e]" "status e \<noteq> TOU_PERIOD_STATUS_UNCONFIGURED" "entry_ok e" "distinct (points_of e)"
  shows "table_ok st"
proof -
  have q: "quanta st = e # replicate 69 zero_quantum" using assms(1) by (simp add: zero_table_update)
  then have "configured st = [e]" using assms(2) by (simp add: configured_def zero_quantum_def filter_replicate)
  then show ?thesis using q assms(3,4) by (simp add: table_ok_def tou_sizes) (simp add: entry_ok_def zero_quantum_def)
qed

theorem update_commands_witness:
  "emitted (snd (Smart_Tou_RebuildOrUpdate_TimeQuantumConfig tou_outside TIMEQUANTUM_BUILD_UPDATE active_state)) =
   [end_result (morning\<lparr>status := TOU_PERIOD_STATUS_ACTIVE\<rparr>)]"
proof -
  let ?e = "morning\<lparr>status := TOU_PERIOD_STATUS_ACTIVE\<rparr>"
  have u: "unit_at active_state i = zero_unit" if "i < SMART_TOU_UNIT_MAX_CNT" for i
    using that by (simp add: unit_at_def active_state_def blank_state_def blank_config_def)
  have "quantum_point active_state i \<Longrightarrow> i < SMART_TOU_UNIT_MAX_CNT \<Longrightarrow> False" for i
    by (simp add: quantum_point_def is_quantum_point_def u zero_unit_def zero_time_cfg_def TOU_TIME_TYPE_QUANTUM_def)
  then have c: "collect_quantum_idx active_state = []"
    by (auto simp: collect_quantum_idx_def filter_empty_conv)
  have q: "quanta active_state = zero_table[0 := ?e]" by (simp add: active_state_def)
  have "table_ok active_state"
    by (rule one_entry_table[OF q]) (simp_all add: entry_ok_def points_of_def morning_fields tou_sizes)
  moreover have "queue_ok active_state" "emitted active_state = []"
    by (simp_all add: active_state_def blank_state_def queue_ok_def emitted_def QUEUE_LEN_def)
  moreover have "concat (replicate n []) = []" for n by (induction n) simp_all
  ultimately show ?thesis
    using update_commands[OF tou_outside_ok(1) _ tou_outside_ok(2) _ prod.collapse[symmetric], of active_state]
      sorted_points_Nil[OF tou_outside_ok(1) c]
    by (simp add: q zero_table_update ending_nothing_present[abs_def] zero_quantum_def)
qed


lemma schedule_subseq:
  assumes "e \<in> set es"
  shows "subseq (schedule st ts [e]) (schedule st ts es)"
  using assms
proof (induction ts arbitrary: e es)
  case (Cons t ts)
  obtain as bs where es: "es = as @ e # bs" using Cons.prems by (meson split_list)
  have "subseq (entry_cmds st t e) (entry_cmds st t e @ concat (map (entry_cmds st t) bs))"
    by (rule subseq_rev_drop_many) simp
  then have "subseq (entry_cmds st t e) (concat (map (entry_cmds st t) es))"
    by (simp add: es subseq_drop_many)
  moreover have "subseq (schedule st ts [entry_next st t e]) (schedule st ts (map (entry_next st t) es))"
    by (rule Cons.IH) (simp add: Cons.prems)
  ultimately show ?case by (simp add: list_emb_append_mono)
qed simp

text \<open>C6: The commands of a day.  Between two rebuilds, however often and whenever the periodic run looks at
  the clock, the commands it issues are those of the schedule; of every waiting period they contain,
  in this order, its start command exactly if one of the looks falls into the period, followed by
  its end command exactly if a look falls behind its end: no period is started twice or ended
  without having been started.\<close>

theorem period_day_schedule:
  assumes "table_ok st" "queue_ok st" "\<not> update_flag st"
    "\<forall>(env, t_now) \<in> set rs. prompt env \<and> day_base env t_now \<le> quantum_pre_time st" "sorted (map day_sec rs)"
    "e \<in> set (quanta st)" "status e = TOU_PERIOD_STATUS_CONFIGURED_IDLE"
  shows "emitted (period_runs rs st) = emitted st @ schedule st (map day_sec rs) (quanta st) \<and>
    subseq (schedule st (map day_sec rs) [e]) (schedule st (map day_sec rs) (quanta st)) \<and>
    schedule st (map day_sec rs) [e] =
      (if \<exists>r \<in> set rs. in_period st (day_sec r) e
       then point_result st (unat (start_time_index e)) #
         (if \<exists>r \<in> set rs. end_sec st e \<le> day_sec r then [point_result st (unat (end_time_index e))] else [])
       else [])"
proof -
  have "end_time_index e \<noteq> 0xFF" using assms(1,6,7) by (auto simp: table_ok_def entry_ok_def)
  note period = schedule_period[OF assms(7) this assms(5), of st, unfolded set_map bex_simps]
  show ?thesis
    by (intro conjI period_runs_schedule(1)[OF assms(1-4)] schedule_subseq[OF assms(6)] period)
qed

text \<open>The morning period of the preset, looked at 08:00 and at 12:00 of 2 January 1970.\<close>

definition morning_state :: tou_state where
  "morning_state = preset_state\<lparr>quanta := zero_table[0 := morning], quantum_pre_time := 57600\<rparr>"

lemma day_base_eq: "day_base env t = midnight (tz env) t"
  by (simp add: day_base_def mktime_midnight)

theorem period_day_schedule_witness:
  "emitted (period_runs [(tou_outside, 86400), (tou_outside, 100800)] morning_state) =
   [point_result morning_state 0, point_result morning_state 1]"
proof -
  let ?rs = "[(tou_outside, 86400), (tou_outside, 100800)]"
  have q: "quanta morning_state = morning # replicate 69 zero_quantum"
    by (simp add: morning_state_def zero_table_update)
  have cfg: "tou_cfg morning_state = tou_cfg preset_state" by (simp add: morning_state_def)
  have sec: "map day_sec ?rs = [28800, 43200]"
    by (simp add: day_sec_def day_base_eq midnight_def tou_outside_def)
  have t: "table_ok morning_state"
    by (rule one_entry_table[of _ morning]) (simp_all add: morning_state_def entry_ok_def points_of_def morning_fields tou_sizes)
  have o: "queue_ok morning_state" "\<not> update_flag morning_state" "emitted morning_state = []"
    using preset_fields by (simp_all add: morning_state_def queue_ok_def emitted_def)
  have b: "\<forall>(env, t_now) \<in> set ?rs. prompt env \<and> day_base env t_now \<le> quantum_pre_time morning_state"
    using tou_outside_ok(2) by (simp add: day_base_eq midnight_def morning_state_def) (simp add: tou_outside_def)
  have zero: "entry_cmds s u zero_quantum = []" "entry_next s u zero_quantum = zero_quantum" "concat (replicate n []) = []" for n s u
    by (induction n) (simp_all add: entry_cmds_def entry_next_def zero_quantum_def)
  have all: "schedule s us (x # replicate n zero_quantum) = schedule s us [x]" for s us n x
    by (induction us arbitrary: x) (simp_all add: zero)
  have p: "start_sec morning_state morning = 28800" "end_sec morning_state morning = 43200"
    by (simp_all add: start_sec_def end_sec_def morning_fields tou_sizes point_sec_def cfg_only(1)[OF cfg] preset_units
        preset_unit_def DAYSEC_MASK_def)
  have i: "in_period morning_state 28800 morning" by (simp add: in_period_def p)
  show ?thesis
    using period_day_schedule[OF t o(1,2) b _ _ morning_fields(3)] i
    by (simp add: q all o(3) sec[simplified] p morning_fields)
qed

text \<open>C26: Points fire.  A run over an interval \<open>(last, now]\<close> of at most seven days commands exactly the points
  that fire at some second of the interval, each once, in the order of the configuration.\<close>

theorem points_fire_exactly:
  assumes "prompt env" "queue_ok st" "tou_time_num st \<le> SMART_TOU_UNIT_MAX_CNT" "point_times_ok st"
    "point_pre_time st \<noteq> 0" "point_pre_time st < n" "n - point_pre_time st \<le> 604800"
  shows "\<exists>st'. Smart_Tou_Handle_TimePoint_Control env n st = Inr st' \<and> queue_ok st' \<and> point_pre_time st' = n \<and>
    emitted st' = emitted st @
      map (point_result st) (filter (fires_between env st (point_pre_time st) n) [0..<tou_time_num st])"
  by (rule points_exact[OF assms])

definition point_state :: tou_state where
  "point_state = blank_state\<lparr>tou_cfg := blank_config\<lparr>smart_tou_unit := (replicate SMART_TOU_UNIT_MAX_CNT zero_unit)
     [0 := \<lparr>time_cfg = daily, reg_cfg = \<lparr>reg_addr = 2011, reg_value = 1\<rparr>\<rparr>]\<rparr>, point_pre_time := 100\<rparr>"

theorem points_fire_exactly_witness:
  "\<exists>st'. Smart_Tou_Handle_TimePoint_Control tou_outside 200 point_state = Inr st' \<and> emitted st' = [point_result point_state 0]"
proof -
  have num: "tou_time_num point_state = SMART_TOU_UNIT_MAX_CNT"
    by (simp add: tou_time_num_def point_state_def blank_config_def tou_sizes)
  have u: "unit_at point_state i = (if i = 0 then \<lparr>time_cfg = daily, reg_cfg = \<lparr>reg_addr = 2011, reg_value = 1\<rparr>\<rparr> else zero_unit)"
    if "i < SMART_TOU_UNIT_MAX_CNT" for i
    using that by (simp add: unit_at_def point_state_def)
  have f: "fires_between tou_outside point_state 100 200 i \<longleftrightarrow> i = 0" if "i < SMART_TOU_UNIT_MAX_CNT" for i
  proof (cases "i = 0")
    case True
    have "100 < (150::int)" "150 \<le> (200::int)" by simp_all
    then show ?thesis using True daily_point daily_fires that
      by (auto simp: fires_between_def u Let_def tou_outside_def intro!: exI[of _ 150])
  next
    case False
    then show ?thesis using that
      by (simp add: fires_between_def u Let_def zero_unit_def zero_time_cfg_def tou_point_def tou_time_cfg_invalid_def)
  qed
  have "filter (fires_between tou_outside point_state 100 200) [0..<SMART_TOU_UNIT_MAX_CNT] = filter (\<lambda>i. i = 0) [0..<SMART_TOU_UNIT_MAX_CNT]"
    by (intro filter_cong refl) (simp add: f)
  also have "\<dots> = [0]" by (simp add: upt_conv_Cons filter_empty_conv tou_sizes del: upt_Suc)
  finally have l: "filter (fires_between tou_outside point_state 100 200) [0..<SMART_TOU_UNIT_MAX_CNT] = [0]" .
  have "point_times_ok point_state"
    by (simp add: point_times_ok_def num point_sec_def u daily_def zero_unit_def zero_time_cfg_def)
  moreover have "queue_ok point_state" "emitted point_state = []" "point_pre_time point_state = 100"
    by (simp_all add: point_state_def blank_state_def queue_ok_def emitted_def QUEUE_LEN_def)
  ultimately show ?thesis
    using points_fire_exactly[OF tou_outside_ok(2), of point_state 200] num l by auto
qed

text \<open>Kept registers are restored.  When the check is due, exactly the registers that periods keep and
  whose value on the device differs from the kept one are commanded back to it; a check that is
  not due commands nothing.\<close>

theorem keeping_restores:
  assumes "prompt env" "queue_ok st" "running_ok st" "reg_cb st = Some cb"
  shows "emitted (Smart_Tou_Handle_Keeping_Control env st) =
      emitted st @ (if keeping_due env st then filter (deviates cb) (running st) else []) \<and>
    running (Smart_Tou_Handle_Keeping_Control env st) = running st"
  using keeping_exact(1,2)[OF assms] by blast

definition kept_result :: smart_tou_ctrl_result where
  "kept_result = \<lparr>res_reg_type = 0, res_device_id = 0, res_reg_addr = 7011, res_reg_value = 65535, is_valid = True\<rparr>"

definition keeping_state :: tou_state where
  "keeping_state = blank_state\<lparr>running := kept_result # replicate 139 zero_result,
     reg_cb := Some (\<lambda>_ _ _. Some 0), check_interval := 60000\<rparr>"

theorem keeping_restores_witness:
  "emitted (Smart_Tou_Handle_Keeping_Control tou_outside keeping_state) = [kept_result]"
proof -
  have r: "running keeping_state = kept_result # replicate 139 zero_result" "reg_cb keeping_state = Some (\<lambda>_ _ _. Some 0)"
    "emitted keeping_state = []" "queue_ok keeping_state"
    by (simp_all add: keeping_state_def blank_state_def emitted_def queue_ok_def QUEUE_LEN_def)
  have "running_ok keeping_state"
    by (auto simp: running_ok_def r(1) tou_sizes nth_Cons zero_result_def split: nat.splits)
  moreover have "keeping_due tou_outside keeping_state"
    by (simp add: keeping_due_def keeping_state_def blank_state_def)
  moreover have "deviates (\<lambda>_ _ _. Some 0) kept_result" "\<not> deviates (\<lambda>_ _ _. Some 0) zero_result"
    by (simp_all add: deviates_def kept_result_def zero_result_def)
  ultimately show ?thesis using keeping_restores[OF tou_outside_ok(2) r(4) _ r(2)] by (simp add: r filter_replicate)
qed

text \<open>C27: A register write survives a restart.  After an accepted write of the registers 26000 on a working file system, the
  configuration has the written bytes in the range and its old bytes elsewhere (the first register
  is read only), and a restart of the module reads the same configuration back.\<close>

theorem config_survives_restart:
  assumes "writes_whole wr" "config_ok (tou_cfg st)" "length (tou_cfg_wr st) = sizeof_config"
    "Smart_Tou_Ctrl_Config_Commit free wr off n st f = Inr (0, st', f')"
  shows "(\<exists>st2. Smart_Tou_Ctrl_Module_Init True True wr st0 f' = (0, st2, f') \<and> tou_cfg st2 = tou_cfg st') \<and>
    (\<forall>k. 2 \<le> k \<longrightarrow> k < sizeof_config \<longrightarrow> config_bytes (tou_cfg st') ! k =
       (if unat off \<le> k \<and> k < unat off + unat n then tou_cfg_wr st ! k else config_bytes (tou_cfg st) ! k))"
proof -
  note c = commit_ok[OF assms(2-4)]
  have "Smart_Tou_Write_Config_To_File wr st' f = (fst (Smart_Tou_Write_Config_To_File wr st' f), f')"
    by (subst c(3)) (rule prod.collapse[symmetric])
  then show ?thesis using restart_reads_file(2)[OF assms(1) c(1)] c(4) by blast
qed

definition whole_writes :: fs_write where
  "whole_writes bs f = (int (length bs), Some (bs @ (case f of None \<Rightarrow> [] | Some old \<Rightarrow> drop (length bs) old)))"

lemma blank_config_ok: "config_ok blank_config"
  by (simp add: config_ok_def blank_config_def tou_sizes)

theorem config_survives_restart_witness:
  "\<exists>st' f'. Smart_Tou_Ctrl_Config_Commit True whole_writes 2 14 (blank_state\<lparr>tou_cfg_wr := replicate sizeof_config 7\<rparr>) None =
     Inr (0, st', f') \<and> config_bytes (tou_cfg st') ! 5 = 7 \<and>
     (\<exists>st2. Smart_Tou_Ctrl_Module_Init True True whole_writes blank_state f' = (0, st2, f') \<and> tou_cfg st2 = tou_cfg st')"
proof -
  let ?st = "blank_state\<lparr>tou_cfg_wr := replicate sizeof_config 7\<rparr>"
  obtain st' f' where c: "Smart_Tou_Ctrl_Config_Commit True whole_writes 2 14 ?st None = Inr (0, st', f')"
    by (simp add: Smart_Tou_Ctrl_Config_Commit_def Let_def blank_state_def tou_sizes)
  have "writes_whole whole_writes" by (simp add: writes_whole_def whole_writes_def)
  moreover have "config_ok (tou_cfg ?st)" using blank_config_ok by (simp add: blank_state_def)
  moreover have "length (tou_cfg_wr ?st) = sizeof_config" by simp
  ultimately have "(\<exists>st2. Smart_Tou_Ctrl_Module_Init True True whole_writes blank_state f' = (0, st2, f') \<and> tou_cfg st2 = tou_cfg st') \<and>
      config_bytes (tou_cfg st') ! 5 = 7"
    using config_survives_restart[OF _ _ _ c, of blank_state] by (auto simp: tou_sizes elim!: allE[of _ 5])
  then show ?thesis using c by blast
qed

text \<open>C28: The module stays well formed.  From a state with at most 140 points no periodic run, whatever
  clock, memory, consumer and file system do, reads outside the points or breaks the invariant: a
  period table of 70 entries without shared points, one kept value per register, at most 32 commands
  waiting.\<close>

theorem tou_process_safe:
  assumes "qsort_ok env" "tou_ok st"
  shows "\<exists>st' f'. Smart_Tou_Ctrl_Module_Process free wr env t_now st f = Inr (st', f') \<and> tou_ok st'"
  by (rule process_ok[OF assms])

theorem tou_process_safe_witness:
  "\<exists>st' f'. Smart_Tou_Ctrl_Module_Process True whole_writes tou_outside 57600 preset_state None = Inr (st', f') \<and> tou_ok st'"
  by (rule tou_process_safe[OF tou_outside_ok(1) preset_ok])

end
