(* ===== verification/Energy_Calc.thy ===== *)
theory Energy_Calc
  imports Prelude
begin

text \<open>
  Energy bookkeeping, \<open>energy_calc/energy_record_calc.c\<close>: the integration of a power into 100 Wh
  counts (\<open>Energy_Integral_CalcChannel\<close>) and the attribution of the measured powers to the seven
  flows between PV, grid, battery and load (\<open>Energy_CalcSplitPower\<close>).  All quantities are 32-bit
  words as in the code; a comparison is signed or unsigned as C's conversions make it.  C arrays of
  fixed length are functions of the index.
\<close>

section \<open>Data\<close>

definition WS_TO_100WH_UNIT :: u32 where "WS_TO_100WH_UNIT = 360000"
definition ENERGY_ITEM_MAX_NUM :: nat where "ENERGY_ITEM_MAX_NUM = 16"
definition POWER_FILTER_THRESHOLD :: u32 where "POWER_FILTER_THRESHOLD = 20"

record Energy_Integral_Cache =
  power_Total_s :: "nat \<Rightarrow> u32"
  power_Total :: "nat \<Rightarrow> u32"
  power_delta_Total :: "nat \<Rightarrow> u32"

record EnergyCalc_Input =
  grid_detail_power :: "nat \<Rightarrow> u32"
  inv_detail_power :: "nat \<Rightarrow> u32"
  pv_detail_power :: "nat \<Rightarrow> u32"
  input_ac_load_power :: u32
  ac_load_power :: u32
  pack_total_voltage :: u32
  pack_total_current :: u32
  bat_chg_state :: u8
  grid_meter_flag :: u8
  grid_meter_total_power :: u32
  smart_plug_flag :: u8
  smart_plug_power :: u32

record flows =
  pv_to_load :: u32
  pv_to_grid :: u32
  pv_to_bat :: u32
  grid_to_load :: u32
  grid_to_bat :: u32
  bat_to_load :: u32
  bat_to_grid :: u32

record System_Energy_Power =
  pv_total_power :: u32
  grid_charge_power :: u32
  feed_in_grid_power :: u32
  power_split :: flows
  bat_charge_power :: u32
  bat_discharge_power :: u32
  grid_total_power :: u32
  inv_total_power :: u32
  family_load_power :: u32

definition no_flow :: flows where
  "no_flow = \<lparr>pv_to_load = 0, pv_to_grid = 0, pv_to_bat = 0, grid_to_load = 0, grid_to_bat = 0,
              bat_to_load = 0, bat_to_grid = 0\<rparr>"

definition w_abs :: "u32 \<Rightarrow> u32" where
  "w_abs w = (if w <s 0 then - w else w)"

section \<open>Integration\<close>

text \<open>The result is the returned count, the cache and the external counter.\<close>

definition Energy_Integral_CalcChannel ::
    "Energy_Integral_Cache \<Rightarrow> u8 \<Rightarrow> u32 \<Rightarrow> u32 \<Rightarrow> (u32 \<times> Energy_Integral_Cache \<times> u32) cres" where
  "Energy_Integral_CalcChannel cache index input_power total_energy =
     (let n = unat index; abs_pow = (if 0 \<le>s input_power then input_power else - input_power) in
      if n \<ge> ENERGY_ITEM_MAX_NUM then Inl Out_Of_Bounds_Write
      else
        let s1 = power_Total_s cache n + abs_pow;
            (s2, t2) = (if s1 \<ge> WS_TO_100WH_UNIT then (s1 - WS_TO_100WH_UNIT, power_Total cache n + 1)
                        else (s1, power_Total cache n));
            c2 = cache\<lparr>power_Total_s := (power_Total_s cache)(n := s2),
                       power_Total := (power_Total cache)(n := t2)\<rparr>
        in if power_delta_Total c2 n < t2 then
             Inr (t2, c2\<lparr>power_delta_Total := (power_delta_Total c2)(n := t2)\<rparr>,
                  total_energy + (t2 - power_delta_Total c2 n))
           else Inr (power_delta_Total c2 n, c2, total_energy))"

fun integrate :: "u8 \<Rightarrow> u32 list \<Rightarrow> Energy_Integral_Cache \<Rightarrow> u32 \<Rightarrow> (Energy_Integral_Cache \<times> u32) cres" where
  "integrate index [] cache e = Inr (cache, e)"
| "integrate index (p # ps) cache e =
     cbind (Energy_Integral_CalcChannel cache index p e) (\<lambda>(r, cache', e'). integrate index ps cache' e')"

section \<open>Splitting: load and feed-in\<close>

text \<open>\<open>inv\<close> is \<open>inv_total_power + input_ac_load_power\<close>, whose sign is tested.\<close>

definition energy_family_load :: "EnergyCalc_Input \<Rightarrow> u32 \<Rightarrow> u32 \<times> u32" where
  "energy_family_load d inv_total =
     (let m = grid_meter_total_power d; inv = inv_total + input_ac_load_power d in
      if grid_meter_flag d \<noteq> 0 then
        (if m <s 0 then
           (if 0 <s inv then (input_ac_load_power d + inv_total + w_abs m, 0)
            else if w_abs inv <s w_abs m then (w_abs m - w_abs inv, 0)
            else (w_abs (ac_load_power d), 0))
         else
           ((if POWER_FILTER_THRESHOLD <s inv \<and> m <s inv then w_abs (inv - m) else w_abs (ac_load_power d)), m))
      else if smart_plug_flag d \<noteq> 0 then (w_abs (ac_load_power d) + smart_plug_power d, 0)
      else (w_abs (ac_load_power d), 0))"

section \<open>Splitting: charging\<close>

definition charge_pv_meter :: "u32 \<Rightarrow> u32 \<Rightarrow> u32 \<Rightarrow> u32 \<Rightarrow> u32 \<Rightarrow> flows" where
  "charge_pv_meter m family feed_in charge cut_power =
     (let f = no_flow\<lparr>pv_to_bat := charge\<rparr> in
      if family \<noteq> 0 then
        (if cut_power \<ge> family then
           let val = ucast (ucast (cut_power - family) :: u16) :: u32 in
           f\<lparr>pv_to_load := family,
             pv_to_grid := (if feed_in > 0 then (if val < feed_in then val else feed_in) else 0)\<rparr>
         else f\<lparr>pv_to_load := cut_power, grid_to_load := (if m <s 0 then family - cut_power else 0)\<rparr>)
      else f\<lparr>pv_to_grid := (if feed_in > 0 then (if cut_power > feed_in then feed_in else cut_power) else 0)\<rparr>)"

definition charge_pv_no_meter :: "u32 \<Rightarrow> u32 \<Rightarrow> u32 \<Rightarrow> flows" where
  "charge_pv_no_meter family charge cut_power =
     (let f = no_flow\<lparr>pv_to_bat := charge\<rparr> in
      if family > 0 then
        (if cut_power > family then f\<lparr>pv_to_load := family, pv_to_grid := cut_power - family\<rparr>
         else f\<lparr>pv_to_load := cut_power, grid_to_load := family - cut_power\<rparr>)
      else f\<lparr>pv_to_grid := cut_power\<rparr>)"

definition charge_grid_meter :: "u32 \<Rightarrow> u32 \<Rightarrow> u32 \<Rightarrow> u32 \<Rightarrow> flows" where
  "charge_grid_meter m family pv cut_val =
     (let g = - m;
          f = (if 0 <s g then
                 (if g \<ge> cut_val then no_flow\<lparr>pv_to_bat := pv, grid_to_bat := cut_val\<rparr>
                  else no_flow\<lparr>pv_to_bat := pv + (cut_val - g), grid_to_bat := g\<rparr>)
               else no_flow\<lparr>pv_to_bat := pv + cut_val\<rparr>)
      in f\<lparr>grid_to_load := (if family > 0 then family else 0)\<rparr>)"

definition charge_grid_no_meter :: "u32 \<Rightarrow> u32 \<Rightarrow> u32 \<Rightarrow> u32 \<Rightarrow> flows" where
  "charge_grid_no_meter grid_total family pv cut_val =
     (let val = - grid_total in
      no_flow\<lparr>pv_to_bat := pv, grid_to_bat := cut_val,
              grid_to_load := (if family \<noteq> 0 \<and> cut_val <s val then val - cut_val else 0)\<rparr>)"

definition split_charge :: "EnergyCalc_Input \<Rightarrow> u32 \<Rightarrow> u32 \<Rightarrow> u32 \<Rightarrow> u32 \<Rightarrow> u32 \<Rightarrow> flows" where
  "split_charge d pv grid_total family feed_in charge =
     (let m = grid_meter_total_power d in
      if pv \<ge> charge then
        (if grid_meter_flag d \<noteq> 0 then charge_pv_meter m family feed_in charge (pv - charge)
         else charge_pv_no_meter family charge (pv - charge))
      else
        (if grid_meter_flag d \<noteq> 0 then charge_grid_meter m family pv (charge - pv)
         else charge_grid_no_meter grid_total family pv (charge - pv)))"

section \<open>Splitting: discharging\<close>

text \<open>The battery covers the load and has a rest.\<close>

definition discharge_rest_meter :: "u32 \<Rightarrow> u32 \<Rightarrow> u32 \<Rightarrow> u32 \<Rightarrow> flows" where
  "discharge_rest_meter family feed_in pv discharge =
     (let val = ucast (ucast (discharge - family) :: u16) :: u32;
          f = no_flow\<lparr>bat_to_load := family\<rparr> in
      if feed_in > 0 then
        (if val > feed_in then f\<lparr>bat_to_grid := feed_in\<rparr>
         else f\<lparr>bat_to_grid := val,
                pv_to_grid := (if pv > 0 then (let gap = feed_in - val in if pv > gap then gap else pv) else 0)\<rparr>)
      else f)"

text \<open>The battery does not cover the load; \<open>cut_val\<close> is what is left of it.\<close>

definition discharge_gap_meter :: "u32 \<Rightarrow> u32 \<Rightarrow> u32 \<Rightarrow> u32 \<Rightarrow> u32 \<Rightarrow> u32 \<Rightarrow> flows" where
  "discharge_gap_meter m grid_total feed_in pv discharge cut_val =
     (let f = no_flow\<lparr>bat_to_load := discharge\<rparr> in
      if pv > 0 then
        (if pv > cut_val then
           f\<lparr>pv_to_load := cut_val,
             pv_to_grid := (if feed_in > 0 then (if pv - cut_val \<ge> feed_in then feed_in else pv - cut_val) else 0)\<rparr>
         else
           f\<lparr>pv_to_load := pv,
             grid_to_load := (if m <s 0 then (let g = - m; load_gap = cut_val - pv in
                                if g \<ge> load_gap then load_gap else g) else 0)\<rparr>)
      else f\<lparr>grid_to_load := (if w_abs grid_total > cut_val then cut_val else grid_total)\<rparr>)"

definition discharge_no_load_meter :: "u32 \<Rightarrow> u32 \<Rightarrow> u32 \<Rightarrow> flows" where
  "discharge_no_load_meter feed_in pv discharge =
     (if feed_in > 0 then
        (if pv > 0 then
           (if pv > feed_in then no_flow\<lparr>pv_to_grid := feed_in\<rparr>
            else no_flow\<lparr>pv_to_grid := pv, bat_to_grid := feed_in - pv\<rparr>)
         else no_flow\<lparr>bat_to_grid := feed_in\<rparr>)
      else no_flow\<lparr>pv_to_load := (if pv > 0 then pv else 0), bat_to_load := discharge\<rparr>)"

definition discharge_no_meter :: "u32 \<Rightarrow> u32 \<Rightarrow> u32 \<Rightarrow> flows" where
  "discharge_no_meter family pv discharge =
     (if family > 0 then
        (if discharge > family then
           no_flow\<lparr>bat_to_load := family, bat_to_grid := discharge - family,
                   pv_to_grid := (if pv > 0 then pv else 0)\<rparr>
         else
           let cut_val = family - discharge; f = no_flow\<lparr>bat_to_load := discharge\<rparr> in
           if pv > 0 then
             (if pv > cut_val then f\<lparr>pv_to_load := cut_val\<rparr>
              else f\<lparr>pv_to_load := pv, grid_to_load := cut_val - pv\<rparr>)
           else f)
      else no_flow\<lparr>bat_to_grid := discharge, pv_to_grid := (if pv \<noteq> 0 then pv else 0)\<rparr>)"

definition split_discharge :: "EnergyCalc_Input \<Rightarrow> u32 \<Rightarrow> u32 \<Rightarrow> u32 \<Rightarrow> u32 \<Rightarrow> u32 \<Rightarrow> flows" where
  "split_discharge d pv grid_total family feed_in discharge =
     (if grid_meter_flag d \<noteq> 0 then
        (if family > 0 then
           (if discharge > family then discharge_rest_meter family feed_in pv discharge
            else discharge_gap_meter (grid_meter_total_power d) grid_total feed_in pv discharge (family - discharge))
         else discharge_no_load_meter feed_in pv discharge)
      else discharge_no_meter family pv discharge)"

section \<open>Splitting: idle battery\<close>

definition idle_meter :: "u32 \<Rightarrow> u32 \<Rightarrow> u32 \<Rightarrow> u32 \<Rightarrow> flows" where
  "idle_meter m family feed_in pv =
     (if family > 0 then
        (if pv > 0 then
           (if pv \<ge> family then
              let cut_val = pv - family in
              no_flow\<lparr>pv_to_load := family,
                      pv_to_grid := (if feed_in > 0 then (if cut_val > feed_in then feed_in else cut_val) else 0)\<rparr>
            else no_flow\<lparr>pv_to_load := pv, grid_to_load := family - pv\<rparr>)
         else no_flow\<lparr>grid_to_load := (if m <s 0 then - m else 0)\<rparr>)
      else no_flow\<lparr>pv_to_grid := (if pv > 0 \<and> feed_in > 0 then (if pv > feed_in then feed_in else pv) else 0)\<rparr>)"

definition idle_no_meter :: "u32 \<Rightarrow> u32 \<Rightarrow> flows" where
  "idle_no_meter family pv =
     (if family \<noteq> 0 then
        (if pv > 0 then
           (if pv > family then no_flow\<lparr>pv_to_load := family, pv_to_grid := pv - family\<rparr>
            else no_flow\<lparr>pv_to_load := pv, grid_to_load := family - pv\<rparr>)
         else no_flow\<lparr>grid_to_load := family\<rparr>)
      else no_flow\<lparr>pv_to_grid := (if pv > 0 then pv else 0)\<rparr>)"

definition split_idle :: "EnergyCalc_Input \<Rightarrow> u32 \<Rightarrow> u32 \<Rightarrow> u32 \<Rightarrow> flows" where
  "split_idle d pv family feed_in =
     (if grid_meter_flag d \<noteq> 0 then idle_meter (grid_meter_total_power d) family feed_in pv
      else idle_no_meter family pv)"

section \<open>Splitting: the routine\<close>

definition phase_sum :: "(nat \<Rightarrow> u32) \<Rightarrow> u32" where
  "phase_sum p = p 0 + p 1 + p 2"

definition pv_sum :: "(nat \<Rightarrow> u32) \<Rightarrow> u32" where
  "pv_sum p = fold (\<lambda>i a. a + p i) [0..<10] 0"

definition Energy_CalcSplitPower :: "EnergyCalc_Input \<Rightarrow> System_Energy_Power" where
  "Energy_CalcSplitPower d =
     (let pv = pv_sum (pv_detail_power d);
          grid_total = phase_sum (grid_detail_power d);
          inv_total = phase_sum (inv_detail_power d);
          pack = pack_total_voltage d * pack_total_current d div 1000;
          (family, feed_in) = energy_family_load d inv_total;
          f = (if bat_chg_state d = 1 then split_charge d pv grid_total family feed_in pack
               else if bat_chg_state d = 2 then split_discharge d pv grid_total family feed_in pack
               else split_idle d pv family feed_in)
      in \<lparr>pv_total_power = pv, grid_charge_power = grid_to_load f + grid_to_bat f,
          feed_in_grid_power = bat_to_grid f + pv_to_grid f, power_split = f,
          bat_charge_power = (if bat_chg_state d = 1 then pack else 0),
          bat_discharge_power = (if bat_chg_state d = 2 then pack else 0),
          grid_total_power = grid_total, inv_total_power = inv_total, family_load_power = family\<rparr>)"

section \<open>Integration is exact\<close>

definition slot :: "Energy_Integral_Cache \<Rightarrow> nat \<Rightarrow> nat" where
  "slot c n = unat (power_Total c n) * 360000 + unat (power_Total_s c n)"

definition cache_ok :: "Energy_Integral_Cache \<Rightarrow> nat \<Rightarrow> bool" where
  "cache_ok c n \<longleftrightarrow> power_Total_s c n < WS_TO_100WH_UNIT \<and> power_delta_Total c n = power_Total c n"

definition abs_power :: "u32 \<Rightarrow> nat" where
  "abs_power p = nat \<bar>sint p\<bar>"

lemma abs_power_word: "unat (if 0 \<le>s p then p else - p) = abs_power p"
proof -
  have r: "- (2 ^ 31) \<le> sint p" "sint p < 2 ^ 31"
    using sint_greater_eq[of p] sint_less[of p] by simp_all
  have p: "word_of_int (sint p) = p" by simp
  have u: "unat (word_of_int k :: u32) = nat k" if "0 \<le> k" "k < 2 ^ 32" for k
  proof -
    have "uint (word_of_int k :: u32) = k mod 2 ^ LENGTH(32)" by (rule uint_word_of_int)
    also have "\<dots> = k" using that by (intro mod_pos_pos_trivial) simp_all
    finally show ?thesis by (simp only: unat_eq_nat_uint)
  qed
  show ?thesis
  proof (cases "0 \<le> sint p")
    case True
    then show ?thesis using u[of "sint p"] r p by (simp add: abs_power_def word_sle_eq)
  next
    case False
    moreover have "- p = word_of_int (- sint p)" by simp
    ultimately show ?thesis using u[of "- sint p"] r by (simp add: abs_power_def word_sle_eq del: of_int_sint)
  qed
qed

lemma channel_step:
  assumes ok: "cache_ok c n" and n: "n = unat index" "n < 16" and p: "abs_power p \<le> 360000"
    and room: "slot c n + abs_power p < 2 ^ 32 * 360000"
  shows "\<exists>r c'. Energy_Integral_CalcChannel c index p e =
      Inr (r, c', e + of_nat ((slot c n + abs_power p) div 360000 - slot c n div 360000)) \<and>
    cache_ok c' n \<and> slot c' n = slot c n + abs_power p \<and> (\<forall>m. m \<noteq> n \<longrightarrow> slot c' m = slot c m)"
proof -
  define a where "a = (if 0 \<le>s p then p else - p)"
  have a: "unat a = abs_power p" unfolding a_def by (rule abs_power_word)
  define w where "w = power_Total_s c n"
  define t where "t = power_Total c n"
  have w: "unat w < 360000" and d: "power_delta_Total c n = t"
    using ok by (simp_all add: cache_ok_def w_def t_def word_less_nat_alt WS_TO_100WH_UNIT_def)
  have val: "power_Total_s c (unat index) = w" "power_Total c (unat index) = t"
    by (simp_all add: w_def t_def n(1))
  have sl: "slot c n = unat t * 360000 + unat w" by (simp add: slot_def w_def t_def)
  then have q: "slot c n div 360000 = unat t" using w by simp
  have s1: "unat (w + a) = unat w + abs_power p" using w a p by (simp add: unat_word_ariths)
  show ?thesis
  proof (cases "w + a \<ge> WS_TO_100WH_UNIT")
    case True
    then have ge: "360000 \<le> unat w + abs_power p" using s1 by (simp add: word_le_nat_alt WS_TO_100WH_UNIT_def)
    then have "(unat t + 1) * 360000 < 2 ^ 32 * 360000" using room sl by simp
    then have tt: "unat t + 1 < 2 ^ 32" by (simp only: mult_less_cancel2)
    then have t1: "unat (t + 1) = unat t + 1" by (simp add: unat_word_ariths)
    then have lt: "t < t + 1" by (simp add: word_less_nat_alt)
    have s2: "unat (w + a - WS_TO_100WH_UNIT) = unat w + abs_power p - 360000"
      using True s1 by (simp add: unat_sub WS_TO_100WH_UNIT_def)
    have new: "(slot c n + abs_power p) div 360000 = unat t + 1"
    proof -
      have "slot c n + abs_power p = (unat t + 1) * 360000 + (unat w + abs_power p - 360000)" using sl ge by simp
      moreover have "unat w + abs_power p - 360000 < 360000" using w p by simp
      ultimately show ?thesis by simp
    qed
    let ?c = "c\<lparr>power_Total_s := (power_Total_s c)(n := w + a - WS_TO_100WH_UNIT),
                power_Total := (power_Total c)(n := t + 1),
                power_delta_Total := (power_delta_Total c)(n := t + 1)\<rparr>"
    have "Energy_Integral_CalcChannel c index p e = Inr (t + 1, ?c, e + 1)"
      using True n d lt
      by (simp add: Energy_Integral_CalcChannel_def ENERGY_ITEM_MAX_NUM_def Let_def a_def[symmetric] val)
    moreover have "cache_ok ?c n" using s2 w p by (simp add: cache_ok_def word_less_nat_alt WS_TO_100WH_UNIT_def)
    moreover have "slot ?c n = slot c n + abs_power p" using s2 t1 sl ge by (simp add: slot_def)
    moreover have "\<forall>m. m \<noteq> n \<longrightarrow> slot ?c m = slot c m" by (simp add: slot_def)
    ultimately show ?thesis unfolding new q by auto
  next
    case False
    then have lt: "unat w + abs_power p < 360000" using s1 by (simp add: word_le_nat_alt WS_TO_100WH_UNIT_def)
    then have new: "(slot c n + abs_power p) div 360000 = unat t" using sl by simp
    let ?c = "c\<lparr>power_Total_s := (power_Total_s c)(n := w + a), power_Total := (power_Total c)(n := t)\<rparr>"
    have "Energy_Integral_CalcChannel c index p e = Inr (t, ?c, e)"
      using False n d
      by (simp add: Energy_Integral_CalcChannel_def ENERGY_ITEM_MAX_NUM_def Let_def a_def[symmetric] val)
    moreover have "cache_ok ?c n" using s1 lt d by (simp add: cache_ok_def word_less_nat_alt WS_TO_100WH_UNIT_def)
    moreover have "slot ?c n = slot c n + abs_power p" using s1 sl by (simp add: slot_def)
    moreover have "\<forall>m. m \<noteq> n \<longrightarrow> slot ?c m = slot c m" by (simp add: slot_def)
    ultimately show ?thesis unfolding new q by auto
  qed
qed

lemma of_nat_add_eq: "x + y = z \<Longrightarrow> (e :: u32) + of_nat x + of_nat y = e + of_nat z"
  by auto

lemma integrate_exact:
  assumes "n = unat index" "n < 16" "\<And>p. p \<in> set ps \<Longrightarrow> abs_power p \<le> 360000"
    and "cache_ok c n" "slot c n + sum_list (map abs_power ps) < 2 ^ 32 * 360000"
  shows "\<exists>c'. integrate index ps c e =
      Inr (c', e + of_nat ((slot c n + sum_list (map abs_power ps)) div 360000 - slot c n div 360000)) \<and>
    slot c' n = slot c n + sum_list (map abs_power ps) \<and> (\<forall>m. m \<noteq> n \<longrightarrow> slot c' m = slot c m)"
  using assms(3-5)
proof (induction ps arbitrary: c e)
  case (Cons p ps)
  have "slot c n + abs_power p < 2 ^ 32 * 360000" using Cons.prems(3) by simp
  moreover have "abs_power p \<le> 360000" using Cons.prems(1) by simp
  ultimately obtain r c1 where c1: "Energy_Integral_CalcChannel c index p e =
        Inr (r, c1, e + of_nat ((slot c n + abs_power p) div 360000 - slot c n div 360000))"
      "cache_ok c1 n" "slot c1 n = slot c n + abs_power p" "\<forall>m. m \<noteq> n \<longrightarrow> slot c1 m = slot c m"
    using channel_step[OF Cons.prems(2) assms(1,2)] by blast
  let ?S = "slot c n + sum_list (map abs_power (p # ps))"
  let ?e1 = "e + of_nat ((slot c n + abs_power p) div 360000 - slot c n div 360000)"
  have S: "slot c1 n + sum_list (map abs_power ps) = ?S" using c1(3) by simp
  obtain c2 where c2: "integrate index ps c1 ?e1 = Inr (c2, ?e1 + of_nat (?S div 360000 - slot c1 n div 360000))"
      "slot c2 n = ?S" "\<forall>m. m \<noteq> n \<longrightarrow> slot c2 m = slot c1 m"
    using Cons.IH[of c1 ?e1] Cons.prems(1,3) c1(2) S by auto
  have "slot c n div 360000 \<le> slot c1 n div 360000" "slot c1 n div 360000 \<le> ?S div 360000"
    using S c1(3) by (auto intro!: div_le_mono)
  then have "(slot c1 n div 360000 - slot c n div 360000) + (?S div 360000 - slot c1 n div 360000) =
      ?S div 360000 - slot c n div 360000" by linarith
  then have "?e1 + of_nat (?S div 360000 - slot c1 n div 360000) = e + of_nat (?S div 360000 - slot c n div 360000)"
    unfolding c1(3)[symmetric] by (rule of_nat_add_eq)
  then show ?case using c1(1,4) c2 by auto
qed simp

section \<open>The books\<close>

definition pv_out :: "flows \<Rightarrow> nat" where
  "pv_out f = unat (pv_to_load f) + unat (pv_to_grid f) + unat (pv_to_bat f)"

definition bat_in :: "flows \<Rightarrow> nat" where
  "bat_in f = unat (pv_to_bat f) + unat (grid_to_bat f)"

definition bat_out :: "flows \<Rightarrow> nat" where
  "bat_out f = unat (bat_to_load f) + unat (bat_to_grid f)"

lemmas book_defs = pv_out_def bat_in_def bat_out_def no_flow_def Let_def word_le_nat_alt word_less_nat_alt
  unat_sub

lemma low16_le: "unat (ucast (ucast (w :: u32) :: u16) :: u32) \<le> unat w"
proof -
  have "unat (ucast (ucast w :: u16) :: u32) = unat w mod 2 ^ 16"
    by (simp add: unsigned_ucast_eq take_bit_eq_mod unat_mod)
  then show ?thesis by simp
qed

lemma charge_pv_meter_book:
  "pv_out (charge_pv_meter m family feed_in charge c) \<le> unat c + unat charge \<and>
   bat_in (charge_pv_meter m family feed_in charge c) = unat charge \<and>
   bat_out (charge_pv_meter m family feed_in charge c) = 0"
  using low16_le[of "c - family"] by (auto simp: charge_pv_meter_def book_defs)

lemma charge_pv_no_meter_book:
  "pv_out (charge_pv_no_meter family charge c) = unat c + unat charge \<and>
   bat_in (charge_pv_no_meter family charge c) = unat charge \<and>
   bat_out (charge_pv_no_meter family charge c) = 0"
  by (auto simp: charge_pv_no_meter_def book_defs)

lemma charge_grid_meter_book:
  assumes "unat pv + unat c < 2 ^ 32"
  shows "bat_in (charge_grid_meter m family pv c) = unat pv + unat c \<and>
   bat_out (charge_grid_meter m family pv c) = 0 \<and>
   pv_to_load (charge_grid_meter m family pv c) = 0 \<and> pv_to_grid (charge_grid_meter m family pv c) = 0"
proof -
  define g where "g = - m"
  have "unat (pv + c) = unat pv + unat c" using assms by (simp add: unat_word_ariths)
  moreover have "unat (pv + (c - g)) = unat pv + unat c - unat g" if "\<not> c \<le> g"
    using that assms by (simp add: unat_word_ariths unat_sub word_le_nat_alt)
  ultimately show ?thesis
    by (auto simp: charge_grid_meter_def book_defs g_def[symmetric] not_le)
qed

lemma charge_grid_no_meter_book:
  "pv_out (charge_grid_no_meter gt family pv c) = unat pv \<and>
   bat_in (charge_grid_no_meter gt family pv c) = unat pv + unat c \<and>
   bat_out (charge_grid_no_meter gt family pv c) = 0"
  by (auto simp: charge_grid_no_meter_def book_defs)

lemma split_charge_book:
  "bat_in (split_charge d pv gt family feed_in charge) = unat charge \<and>
   bat_out (split_charge d pv gt family feed_in charge) = 0 \<and>
   (charge \<le> pv \<or> grid_meter_flag d = 0 \<longrightarrow> pv_out (split_charge d pv gt family feed_in charge) \<le> unat pv)"
proof (cases "charge \<le> pv")
  case True
  then have "unat (pv - charge) + unat charge = unat pv" by (simp add: unat_sub word_le_nat_alt)
  then show ?thesis
    using True charge_pv_meter_book[of "grid_meter_total_power d" family feed_in charge "pv - charge"]
      charge_pv_no_meter_book[of family charge "pv - charge"] by (simp add: split_charge_def Let_def)
next
  case False
  then have "unat pv + unat (charge - pv) = unat charge" by (simp add: unat_sub word_le_nat_alt)
  moreover have "unat charge < 2 ^ 32" using unsigned_less[of charge] by simp
  ultimately show ?thesis
    using False charge_grid_meter_book[of pv "charge - pv"] charge_grid_no_meter_book[of gt family pv "charge - pv"]
    by (auto simp: split_charge_def Let_def)
qed

lemma discharge_rest_meter_book:
  assumes "family < discharge"
  shows "pv_out (discharge_rest_meter family feed_in pv discharge) \<le> unat pv \<and>
   bat_out (discharge_rest_meter family feed_in pv discharge) \<le> unat discharge"
  using assms low16_le[of "discharge - family"] by (auto simp: discharge_rest_meter_def book_defs)

lemma discharge_gap_meter_book:
  "pv_out (discharge_gap_meter m gt feed_in pv discharge c) \<le> unat pv \<and>
   bat_out (discharge_gap_meter m gt feed_in pv discharge c) = unat discharge"
  by (auto simp: discharge_gap_meter_def book_defs)

lemma discharge_no_load_meter_book:
  "pv_out (discharge_no_load_meter feed_in pv discharge) \<le> unat pv \<and>
   (feed_in \<le> pv \<longrightarrow> bat_out (discharge_no_load_meter feed_in pv discharge) \<le> unat discharge)"
  by (auto simp: discharge_no_load_meter_def book_defs)

lemma discharge_no_meter_book:
  "pv_out (discharge_no_meter family pv discharge) \<le> unat pv \<and>
   bat_out (discharge_no_meter family pv discharge) = unat discharge"
  by (auto simp: discharge_no_meter_def book_defs)

lemma split_discharge_book:
  "pv_out (split_discharge d pv gt family feed_in discharge) \<le> unat pv \<and>
   (grid_meter_flag d = 0 \<longrightarrow> bat_out (split_discharge d pv gt family feed_in discharge) = unat discharge) \<and>
   (family \<noteq> 0 \<or> feed_in \<le> pv \<longrightarrow> bat_out (split_discharge d pv gt family feed_in discharge) \<le> unat discharge)"
  using discharge_rest_meter_book[of family discharge feed_in pv] discharge_no_load_meter_book
    discharge_no_meter_book[of family pv discharge]
    discharge_gap_meter_book[of "grid_meter_total_power d" gt feed_in pv discharge "family - discharge"]
  by (auto simp: split_discharge_def word_neq_0_conv)

lemma split_idle_book:
  "pv_out (split_idle d pv family feed_in) \<le> unat pv \<and> bat_in (split_idle d pv family feed_in) = 0 \<and>
   bat_out (split_idle d pv family feed_in) = 0"
  by (auto simp: split_idle_def idle_meter_def idle_no_meter_def book_defs)

section \<open>Properties\<close>

text \<open>C34: From a cleared cache, any sequence of powers of at most 360 kW, sampled once a second, adds
  to the external counter exactly the whole 100 Wh units of the summed absolute power, loses
  nothing of the rest, and leaves the other channels alone.\<close>

theorem Energy_Integral_exact:
  assumes "unat index < 16" "\<And>p. p \<in> set ps \<Longrightarrow> abs_power p \<le> 360000"
    and "sum_list (map abs_power ps) < 2 ^ 32 * 360000"
    and "power_Total_s c (unat index) = 0" "power_Total c (unat index) = 0" "power_delta_Total c (unat index) = 0"
  shows "\<exists>c'. integrate index ps c e = Inr (c', e + of_nat (sum_list (map abs_power ps) div 360000)) \<and>
    unat (power_Total c' (unat index)) * 360000 + unat (power_Total_s c' (unat index)) = sum_list (map abs_power ps) \<and>
    (\<forall>m. m \<noteq> unat index \<longrightarrow> slot c' m = slot c m)"
proof -
  have z: "slot c (unat index) = 0" "cache_ok c (unat index)"
    using assms(4-6) by (simp_all add: slot_def cache_ok_def WS_TO_100WH_UNIT_def)
  show ?thesis
    using integrate_exact[OF refl assms(1,2) z(2), of ps e] assms(3) z(1) unfolding slot_def by simp
qed

definition empty_cache :: Energy_Integral_Cache where
  "empty_cache = \<lparr>power_Total_s = (\<lambda>_. 0), power_Total = (\<lambda>_. 0), power_delta_Total = (\<lambda>_. 0)\<rparr>"

lemma Energy_Integral_exact_witness:
  "\<exists>c'. integrate 3 [200000, - 200000, 100000] empty_cache 7 = Inr (c', 8) \<and> slot c' 3 = 500000"
proof -
  have "sum_list (map abs_power [200000, - 200000, 100000]) = 500000"
    by (simp add: abs_power_def)
  moreover have "\<And>p. p \<in> set [200000, - 200000, 100000 :: u32] \<Longrightarrow> abs_power p \<le> 360000"
    by (auto simp: abs_power_def)
  ultimately show ?thesis
    using Energy_Integral_exact[of 3 "[200000, - 200000, 100000]" empty_cache 7]
    by (auto simp: empty_cache_def slot_def)
qed

text \<open>The split keeps the books: a charging battery receives exactly its charging power from PV
  and grid and delivers nothing, an idle one neither; a discharging one delivers exactly its
  power when there is no meter, and with a meter no more than it when there is a load or the
  feed-in does not exceed PV; and PV delivers no more than it produces, except with a meter when it
  produces less than the charging power.\<close>

theorem Energy_CalcSplitPower_books:
  fixes d :: EnergyCalc_Input
  defines "r \<equiv> Energy_CalcSplitPower d"
  shows "(bat_chg_state d = 1 \<longrightarrow>
       bat_in (power_split r) = unat (bat_charge_power r) \<and> bat_out (power_split r) = 0)
    \<and> (bat_chg_state d \<notin> {1, 2} \<longrightarrow> bat_in (power_split r) = 0 \<and> bat_out (power_split r) = 0)
    \<and> (bat_chg_state d = 2 \<longrightarrow>
       (grid_meter_flag d = 0 \<longrightarrow> bat_out (power_split r) = unat (bat_discharge_power r)) \<and>
       (family_load_power r \<noteq> 0 \<or> grid_meter_total_power d \<le> pv_total_power r \<longrightarrow>
          bat_out (power_split r) \<le> unat (bat_discharge_power r)))
    \<and> (grid_meter_flag d = 0 \<or> bat_chg_state d \<noteq> 1 \<or> bat_charge_power r \<le> pv_total_power r \<longrightarrow>
       pv_out (power_split r) \<le> unat (pv_total_power r))"
proof -
  obtain family feed_in where fl: "energy_family_load d (phase_sum (inv_detail_power d)) = (family, feed_in)"
    by fastforce
  have feed: "feed_in = 0 \<or> feed_in = grid_meter_total_power d"
    using fl by (auto simp: energy_family_load_def Let_def split: if_splits)
  define pv where "pv = pv_sum (pv_detail_power d)"
  define pack where "pack = pack_total_voltage d * pack_total_current d div 1000"
  note ch = split_charge_book[of d pv "phase_sum (grid_detail_power d)" family feed_in pack]
  note di = split_discharge_book[of d pv "phase_sum (grid_detail_power d)" family feed_in pack]
  note idl = split_idle_book[of d pv family feed_in]
  have r: "family_load_power r = family" "pv_total_power r = pv"
    "bat_chg_state d = 1 \<Longrightarrow> bat_charge_power r = pack \<and>
       power_split r = split_charge d pv (phase_sum (grid_detail_power d)) family feed_in pack"
    "bat_chg_state d = 2 \<Longrightarrow> bat_discharge_power r = pack \<and>
       power_split r = split_discharge d pv (phase_sum (grid_detail_power d)) family feed_in pack"
    "bat_chg_state d \<notin> {1, 2} \<Longrightarrow> power_split r = split_idle d pv family feed_in"
    by (simp_all add: r_def Energy_CalcSplitPower_def fl Let_def pv_def pack_def)
  consider "bat_chg_state d = 1" | "bat_chg_state d = 2" | "bat_chg_state d \<notin> {1, 2}" by auto
  then show ?thesis
  proof cases
    case 1
    then show ?thesis using ch r(2) r(3)[OF 1] by auto
  next
    case 2
    have "feed_in \<le> pv" if "grid_meter_total_power d \<le> pv" using feed that by auto
    then show ?thesis using 2 di r(1,2) r(4)[OF 2] by auto
  next
    case 3
    then show ?thesis using idl r(2) r(5)[OF 3] by auto
  qed
qed

text \<open>PV 3 kW, battery charging with 2 kW, no meter, load 400 W.\<close>

definition sunny :: EnergyCalc_Input where
  "sunny = \<lparr>grid_detail_power = (\<lambda>_. 0), inv_detail_power = (\<lambda>_. 0), pv_detail_power = (\<lambda>_. 300),
     input_ac_load_power = 0, ac_load_power = 400, pack_total_voltage = 50000, pack_total_current = 40,
     bat_chg_state = 1, grid_meter_flag = 0, grid_meter_total_power = 0, smart_plug_flag = 0,
     smart_plug_power = 0\<rparr>"

lemma sunny_pv: "pv_sum (\<lambda>_. 300) = 3000"
  by (simp add: pv_sum_def upt_rec)

lemma Energy_CalcSplitPower_books_witness:
  "bat_in (power_split (Energy_CalcSplitPower sunny)) = 2000 \<and>
   pv_out (power_split (Energy_CalcSplitPower sunny)) \<le> 3000"
proof -
  have "bat_charge_power (Energy_CalcSplitPower sunny) = 2000"
    by (simp add: Energy_CalcSplitPower_def sunny_def Let_def case_prod_beta)
  moreover have "pv_total_power (Energy_CalcSplitPower sunny) = 3000"
    by (simp add: Energy_CalcSplitPower_def sunny_def Let_def case_prod_beta sunny_pv)
  ultimately show ?thesis
    using Energy_CalcSplitPower_books[of sunny] by (simp add: sunny_def)
qed

text \<open>With a meter, no load and a feed-in above PV, a discharging battery is booked as feeding the
  whole difference into the grid, whatever its own power is: a battery at 0 W is charged with
  energy it did not deliver.\<close>

theorem Energy_CalcSplitPower_overbooks:
  assumes "grid_meter_flag d \<noteq> 0" "bat_chg_state d = 2" "ac_load_power d = 0"
    and "phase_sum (inv_detail_power d) + input_ac_load_power d = 0"
    and "\<not> grid_meter_total_power d <s 0" "pv_sum (pv_detail_power d) < grid_meter_total_power d"
  shows "bat_to_grid (power_split (Energy_CalcSplitPower d)) =
     grid_meter_total_power d - pv_sum (pv_detail_power d)"
proof -
  have pos: "0 < grid_meter_total_power d" using assms(6) by (metis word_gt_0 word_not_simps(1))
  have "energy_family_load d (phase_sum (inv_detail_power d)) = (0, grid_meter_total_power d)"
    using assms by (simp add: energy_family_load_def Let_def w_abs_def POWER_FILTER_THRESHOLD_def)
  then show ?thesis
    using assms(1,2,6) pos word_gt_0[of "pv_sum (pv_detail_power d)"]
    by (auto simp: Energy_CalcSplitPower_def split_discharge_def discharge_no_load_meter_def Let_def no_flow_def)
qed

lemma Energy_CalcSplitPower_overbooks_witness:
  "bat_to_grid (power_split (Energy_CalcSplitPower (sunny\<lparr>ac_load_power := 0, bat_chg_state := 2,
     grid_meter_flag := 1, grid_meter_total_power := 5000, pack_total_current := 0\<rparr>))) = 2000"
  using Energy_CalcSplitPower_overbooks[of "sunny\<lparr>ac_load_power := 0, bat_chg_state := 2,
     grid_meter_flag := 1, grid_meter_total_power := 5000, pack_total_current := 0\<rparr>"]
  by (simp add: sunny_def phase_sum_def sunny_pv word_sless_alt)

text \<open>The rest of PV is kept in 16 bits: 65536 W left over are booked as nothing.\<close>

lemma charge_pv_meter_truncates:
  "pv_to_grid (charge_pv_meter m 1000 70000 charge 66536) = 0"
  by (simp add: charge_pv_meter_def no_flow_def Let_def)

text \<open>Without a meter, a load above the battery's power is not booked to the grid when PV is zero.\<close>

lemma discharge_no_meter_unbooked_load:
  "discharge < family \<Longrightarrow> grid_to_load (discharge_no_meter family 0 discharge) = 0"
  by (auto simp: discharge_no_meter_def no_flow_def Let_def)

end
