(* ===== verification/Record_File.thy ===== *)
theory Record_File
  imports Prelude
begin

text \<open>
  The file routines of \<open>filesystem/filesystem.c\<close> under the logs, and \<open>historic_data_write\<close> of
  \<open>data_record/dev_data_record.c\<close>.  A file is its bytes, or \<open>None\<close> while it does not exist.  What
  the C library and the flash medium do with one call is an argument of the routine: whether each
  \<open>fopen\<close>, \<open>fseek\<close> succeeds, how many of the last bytes are lost, and what the call reports.  The
  routines take the file semaphore without a time limit around the whole access, so every call
  is one atomic step.
\<close>

type_synonym flash_file = "u8 list option"

section \<open>What the medium does with one call\<close>

text \<open>\<open>first_open\<close> is the first \<open>fopen\<close> (\<open>"ab"\<close> or \<open>"rb+"\<close>), \<open>create_open\<close> the second one
  (\<open>"wb"\<close>).  \<open>lost\<close> bytes at the end of the data do not reach the file; \<open>counted\<close> says that
  \<open>fwrite\<close> nevertheless reports every element, which a buffered stream may do, since the result
  of \<open>fclose\<close> is not looked at.\<close>

record write_io =
  first_open :: bool
  create_open :: bool
  seek_ok :: bool
  lost :: nat
  counted :: bool

definition good_write :: write_io where
  "good_write = \<lparr>first_open = True, create_open = True, seek_ok = True, lost = 0, counted = True\<rparr>"

record read_io =
  read_open :: bool
  read_seek :: bool
  withheld :: nat
  read_error :: bool

definition good_read :: read_io where
  "good_read = \<lparr>read_open = True, read_seek = True, withheld = 0, read_error = False\<rparr>"

section \<open>Writing\<close>

definition FILE_APPEND_MODE :: u16 where
  "FILE_APPEND_MODE = - 1"

text \<open>Bytes written at an offset: beyond the end the file system fills the gap with zeros; an
  empty write changes nothing.\<close>

definition file_put :: "nat \<Rightarrow> u8 list \<Rightarrow> u8 list \<Rightarrow> u8 list" where
  "file_put off bs f =
     (if bs = [] then f
      else take off f @ replicate (off - length f) 0 @ bs @ drop (off + length bs) f)"

definition io_result :: "write_io \<Rightarrow> int" where
  "io_result io = (if counted io then 0 else - 1)"

definition fs_record_write ::
    "write_io \<Rightarrow> u32 \<Rightarrow> u16 \<Rightarrow> u16 \<Rightarrow> u16 \<Rightarrow> u8 list \<Rightarrow> flash_file \<Rightarrow> int \<times> flash_file" where
  "fs_record_write io start_offset record_index record_len record_cnt record f =
     (if record_len = 0 \<or> record_cnt = 0 then (- 1, f)
      else
        let n = unat record_len * unat record_cnt;
            bs = take (n - lost io) (take n record)
        in if record_index = FILE_APPEND_MODE then
             (if first_open io
              then (io_result io, Some ((case f of None \<Rightarrow> [] | Some old \<Rightarrow> old) @ bs))
              else (- 1, f))
           else
             let opened = (if f \<noteq> None \<and> first_open io then f
                           else if create_open io then Some [] else None);
                 byte_offset = start_offset + ucast record_index * ucast record_len
             in case opened of
                  None \<Rightarrow> (- 1, f)
                | Some old \<Rightarrow>
                    if seek_ok io
                    then (io_result io, Some (file_put (unat byte_offset) bs old))
                    else (- 1, Some old))"

text \<open>The history writer: one record of \<open>len\<close> bytes, appended when the index is \<open>0xFFFF\<close>, else at
  \<open>file_bias * len\<close>; both modes create a missing file and neither truncates.\<close>

definition historic_data_write ::
    "write_io \<Rightarrow> u32 \<Rightarrow> u32 \<Rightarrow> u8 list \<Rightarrow> flash_file \<Rightarrow> int \<times> flash_file" where
  "historic_data_write io file_bias len record f =
     (if len = 0 then (- 1, f)
      else if \<not> first_open io then (- 1, f)
      else
        let old = (case f of None \<Rightarrow> [] | Some bs \<Rightarrow> bs);
            bs = take (unat len - lost io) (take (unat len) record)
        in if file_bias = 0xFFFF then (io_result io, Some (old @ bs))
           else if seek_ok io
           then (io_result io, Some (file_put (unat (file_bias * len)) bs old))
           else (- 1, Some old))"

section \<open>Reading\<close>

text \<open>The result and the bytes that arrived in the caller's buffer.  A short read at the end of the
  file is not an error.\<close>

definition fs_file_read_at :: "read_io \<Rightarrow> nat \<Rightarrow> nat \<Rightarrow> flash_file \<Rightarrow> int \<times> u8 list" where
  "fs_file_read_at io offset len f =
     (if len = 0 then (- 1, [])
      else case f of
        None \<Rightarrow> (- 1, [])
      | Some bytes \<Rightarrow>
          if \<not> read_open io \<or> \<not> read_seek io then (- 1, [])
          else
            let there = take len (drop offset bytes);
                got = take (length there - withheld io) there
            in (if length got < len \<and> read_error io then - 1 else int (length got), got))"

section \<open>Presence and removal\<close>

definition fs_file_exists :: "flash_file \<Rightarrow> bool" where
  "fs_file_exists f \<longleftrightarrow> f \<noteq> None"

definition fs_file_delete :: "bool \<Rightarrow> flash_file \<Rightarrow> flash_file" where
  "fs_file_delete removed f = (if removed then None else f)"

section \<open>Lemmas\<close>

lemma good_write_simps [simp]:
  "first_open good_write" "create_open good_write" "seek_ok good_write" "lost good_write = 0"
  "counted good_write"
  by (simp_all add: good_write_def)

lemma good_read_simps [simp]:
  "read_open good_read" "read_seek good_read" "withheld good_read = 0" "\<not> read_error good_read"
  by (simp_all add: good_read_def)

lemma io_result_good [simp]: "io_result good_write = 0"
  by (simp add: io_result_def)

lemma file_put_at [simp]:
  "length pre = off \<Longrightarrow> length old = length bs \<Longrightarrow>
     file_put off bs (pre @ old @ post) = pre @ bs @ post"
  by (auto simp: file_put_def)

lemma file_put_overrun:
  "length pre = off \<Longrightarrow> length old \<le> length bs \<Longrightarrow>
     file_put off bs (pre @ old) = pre @ bs"
  by (auto simp: file_put_def)

lemma file_put_Nil [simp]: "file_put off [] f = f"
  by (simp add: file_put_def)

lemma length_file_put:
  "length (file_put off bs f) = (if bs = [] then length f else max (length f) (off + length bs))"
  by (auto simp: file_put_def)

text \<open>The byte offset is computed in 32 bits; it is exact below \<open>2 ^ 32\<close>.\<close>

lemma unat_byte_offset:
  fixes start :: u32 and i l :: u16
  assumes "unat start + unat i * unat l < 2 ^ 32"
  shows "unat (start + ucast i * ucast l :: u32) = unat start + unat i * unat l"
proof -
  have e: "unat (ucast i :: u32) = unat i" "unat (ucast l :: u32) = unat l"
    by (simp_all add: unat_ucast_u16_u32)
  have m: "unat (ucast i * ucast l :: u32) = unat i * unat l"
    using assms by (simp add: unat_word_ariths e)
  show ?thesis using assms by (simp add: unat_word_ariths e m)
qed

lemma fs_record_write_append [simp]:
  "l \<noteq> 0 \<Longrightarrow> c \<noteq> 0 \<Longrightarrow> length bs = unat l * unat c \<Longrightarrow>
     fs_record_write good_write s FILE_APPEND_MODE l c bs (Some old) = (0, Some (old @ bs))"
  by (simp add: fs_record_write_def)

lemma fs_record_write_at:
  assumes "l \<noteq> 0" "c \<noteq> 0" "length bs = unat l * unat c" "i \<noteq> FILE_APPEND_MODE"
    and "unat s + unat i * unat l < 2 ^ 32"
  shows "fs_record_write good_write s i l c bs (Some old)
    = (0, Some (file_put (unat s + unat i * unat l) bs old))"
  using assms by (simp add: fs_record_write_def unat_byte_offset)

lemma fs_record_write_create:
  assumes "l \<noteq> 0" "c \<noteq> 0" "length bs = unat l * unat c" "i \<noteq> FILE_APPEND_MODE"
    and "unat s + unat i * unat l < 2 ^ 32"
  shows "fs_record_write good_write s i l c bs None
    = (0, Some (file_put (unat s + unat i * unat l) bs []))"
  using assms by (simp add: fs_record_write_def unat_byte_offset)

text \<open>The danger of the fallback: when \<open>"rb+"\<close> fails on an existing file, whatever the reason,
  \<open>"wb"\<close> truncates it, and everything outside the bytes written is gone.\<close>

lemma fs_record_write_truncates:
  assumes "l \<noteq> 0" "c \<noteq> 0" "length bs = unat l * unat c" "i \<noteq> FILE_APPEND_MODE"
    and "unat s + unat i * unat l < 2 ^ 32"
  shows "fs_record_write (good_write\<lparr>first_open := False\<rparr>) s i l c bs (Some old)
    = (0, Some (file_put (unat s + unat i * unat l) bs []))"
  using assms by (simp add: fs_record_write_def unat_byte_offset io_result_def)

lemma fs_file_read_at_good [simp]:
  "length pre = off \<Longrightarrow> length bs = n \<Longrightarrow> 0 < n \<Longrightarrow>
     fs_file_read_at good_read off n (Some (pre @ bs @ post)) = (int n, bs)"
  by (auto simp: fs_file_read_at_def)

lemma fs_file_read_at_length:
  "fs_file_read_at io off n f = (r, bs) \<Longrightarrow> r \<le> int (length bs) \<and> length bs \<le> n"
  by (auto simp: fs_file_read_at_def Let_def split: option.splits if_splits)

lemma nothing_withheld: "0 < n \<Longrightarrow> min m n - w = n \<Longrightarrow> w = (0::nat)"
  by (auto simp: min_def split: if_splits)

lemma fs_file_read_at_full:
  "fs_file_read_at io off n f = (int n, bs) \<Longrightarrow> 0 < n \<Longrightarrow>
     \<exists>b. f = Some b \<and> bs = take n (drop off b) \<and> length bs = n"
  using nothing_withheld [of n _ "withheld io"]
  by (fastforce simp: fs_file_read_at_def Let_def split: option.splits if_splits)

lemma historic_data_write_at:
  assumes "len \<noteq> 0" "length bs = unat len" "bias \<noteq> 0xFFFF" "unat bias * unat len < 2 ^ 32"
  shows "historic_data_write good_write bias len bs f
    = (0, Some (file_put (unat bias * unat len) bs (case f of None \<Rightarrow> [] | Some b \<Rightarrow> b)))"
  using assms by (simp add: historic_data_write_def unat_word_ariths)

end
