(* ===== verification/Circular_Log.thy ===== *)
theory Circular_Log
  imports Record_File
begin

text \<open>
  Reading a circular log file: the counting and incremental reading that
  \<open>reg_log/reg_change_log.c\<close>, \<open>dev_access_log/dev_access_log.c\<close>, \<open>iot_mqtt/mqtt_log.c\<close> and (twice)
  \<open>data_record/dev_data_record.c\<close> repeat with their own constants.  The five copies differ in
  where the number of records and the write index are kept, in the header length, the record
  length and the timestamp of a record; these are the fields of \<open>log_view\<close>, and the component
  theories instantiate the definitions below with the view of each module.

  The section on \<open>log_rep\<close> relates a view and a file to the list of fixed-size slots the file
  holds; \<open>log_records\<close> is that list from the oldest to the newest record.  The locales
  \<open>readable_log\<close> and \<open>circular_log\<close> are the interface of a log towards its readers.
\<close>

section \<open>The reader\<close>

record log_view =
  max_records :: u16
  current_records :: u16
  write_index :: u16
  log_start :: nat
  log_len :: nat
  is_newer :: "u64 \<Rightarrow> u8 list \<Rightarrow> bool"

text \<open>\<open>is_newer since r\<close> is \<open>r.timestamp > since\<close> at the widths of the module.\<close>

definition oldest_record_p_idx :: "log_view \<Rightarrow> u16" where
  "oldest_record_p_idx v = (if current_records v < max_records v then 0 else write_index v)"

definition record_p_idx :: "log_view \<Rightarrow> nat \<Rightarrow> nat" where
  "record_p_idx v l_idx = (unat (oldest_record_p_idx v) + l_idx) mod unat (max_records v)"

definition record_offset :: "log_view \<Rightarrow> nat \<Rightarrow> nat" where
  "record_offset v p_idx = log_start v + p_idx * log_len v"

text \<open>One record at a physical index; the medium may answer each offset differently.\<close>

definition read_record :: "(nat \<Rightarrow> read_io) \<Rightarrow> log_view \<Rightarrow> flash_file \<Rightarrow> nat \<Rightarrow> u8 list option" where
  "read_record rio v f p_idx =
     (let off = record_offset v p_idx; (n, bs) = fs_file_read_at (rio off) off (log_len v) f
      in if n = int (log_len v) then Some bs else None)"

text \<open>The binary search for the first new record: \<open>None\<close> if a read fails, else the logical index
  found so far, \<open>-1\<close> for none.\<close>

function search_first_new ::
    "(nat \<Rightarrow> u8 list option) \<Rightarrow> (u8 list \<Rightarrow> bool) \<Rightarrow> int \<Rightarrow> int \<Rightarrow> int \<Rightarrow> int option" where
  "search_first_new rd newer low high first_new_l_idx =
     (if low \<le> high then
        let mid_l_idx = low + (high - low) div 2 in
        (case rd (nat mid_l_idx) of
           None \<Rightarrow> None
         | Some r \<Rightarrow>
             if newer r then search_first_new rd newer low (mid_l_idx - 1) mid_l_idx
             else search_first_new rd newer (mid_l_idx + 1) high first_new_l_idx)
      else Some first_new_l_idx)"
  by pat_completeness auto
termination
  by (relation "measure (\<lambda>(_, _, low, high, _). nat (high - low + 1))") auto

declare search_first_new.simps [simp del]

definition Log_Count_New_Records ::
    "(nat \<Rightarrow> read_io) \<Rightarrow> log_view \<Rightarrow> flash_file \<Rightarrow> u64 \<Rightarrow> u16" where
  "Log_Count_New_Records rio v f since_timestamp =
     (if max_records v = 0 \<or> current_records v = 0 then 0
      else if since_timestamp = 0 then current_records v
      else case read_record rio v f (unat (oldest_record_p_idx v)) of
        None \<Rightarrow> 0
      | Some oldest \<Rightarrow>
          if is_newer v since_timestamp oldest then current_records v
          else
            let newest_record_l_idx = current_records v - 1 in
            (case read_record rio v f (record_p_idx v (unat newest_record_l_idx)) of
               None \<Rightarrow> 0
             | Some newest \<Rightarrow>
                 if \<not> is_newer v since_timestamp newest then 0
                 else
                   (case search_first_new (\<lambda>l. read_record rio v f (record_p_idx v l))
                           (is_newer v since_timestamp) 0 (uint (current_records v) - 1) (- 1) of
                      None \<Rightarrow> 0
                    | Some first_new_l_idx \<Rightarrow>
                        if first_new_l_idx \<noteq> - 1
                        then current_records v - word_of_int first_new_l_idx
                        else 0)))"

text \<open>The incremental read: the return code and the buffer handed out, which stays \<open>NULL\<close> when there
  is nothing new or the read fails.  The header is part of the answer where the module has one.\<close>

definition read_block ::
    "(nat \<Rightarrow> read_io) \<Rightarrow> log_view \<Rightarrow> flash_file \<Rightarrow> nat \<Rightarrow> nat \<Rightarrow> u8 list option" where
  "read_block rio v f p_idx cnt =
     (let off = record_offset v p_idx; (n, bs) = fs_file_read_at (rio off) off (cnt * log_len v) f
      in if n = int (cnt * log_len v) then Some bs else None)"

definition read_header :: "(nat \<Rightarrow> read_io) \<Rightarrow> nat \<Rightarrow> flash_file \<Rightarrow> u8 list option" where
  "read_header rio header_len f =
     (if header_len = 0 then Some []
      else let (n, bs) = fs_file_read_at (rio 0) 0 header_len f
           in if n = int header_len then Some bs else None)"

definition read_new_records ::
    "(nat \<Rightarrow> read_io) \<Rightarrow> log_view \<Rightarrow> flash_file \<Rightarrow> u16 \<Rightarrow> u8 list option" where
  "read_new_records rio v f new_records_count =
     (let first_new_l_idx = current_records v - new_records_count;
          first_new_p_idx = record_p_idx v (unat first_new_l_idx);
          space_to_end = max_records v - of_nat first_new_p_idx
      in if new_records_count \<le> space_to_end
         then read_block rio v f first_new_p_idx (unat new_records_count)
         else
           let cnt1 = space_to_end; cnt2 = new_records_count - cnt1 in
           (case read_block rio v f first_new_p_idx (unat cnt1) of
              None \<Rightarrow> None
            | Some bs1 \<Rightarrow>
                (case read_block rio v f 0 (unat cnt2) of
                   None \<Rightarrow> None
                 | Some bs2 \<Rightarrow> Some (bs1 @ bs2))))"

definition Log_Read_Incremental ::
    "bool \<Rightarrow> bool \<Rightarrow> (nat \<Rightarrow> read_io) \<Rightarrow> nat \<Rightarrow> log_view \<Rightarrow> flash_file \<Rightarrow> u64
       \<Rightarrow> int \<times> u8 list option" where
  "Log_Read_Incremental locked calloc rio header_len v f since_timestamp =
     (if \<not> locked then (- 1, None)
      else
        let new_records_count = Log_Count_New_Records rio v f since_timestamp in
        if new_records_count = 0 then (0, None)
        else if \<not> calloc then (- 1, None)
        else case read_header rio header_len f of
          None \<Rightarrow> (- 1, None)
        | Some h \<Rightarrow>
            (case read_new_records rio v f new_records_count of
               None \<Rightarrow> (- 1, None)
             | Some bs \<Rightarrow> (0, Some (h @ bs))))"

text \<open>Counting under the semaphore, as \<open>udt_period_check_and_report\<close> asks for it.\<close>

definition Is_Log_Count_New ::
    "bool \<Rightarrow> (nat \<Rightarrow> read_io) \<Rightarrow> log_view \<Rightarrow> flash_file \<Rightarrow> u64 \<Rightarrow> int" where
  "Is_Log_Count_New locked rio v f since_timestamp =
     (if \<not> locked then - 2 else uint (Log_Count_New_Records rio v f since_timestamp))"

section \<open>Slots\<close>

text \<open>\<open>log_rep v f slots\<close>: behind \<open>log_start\<close> bytes the file holds the slots the view counts, one
  after the other; anything may follow.\<close>

definition log_rep :: "log_view \<Rightarrow> flash_file \<Rightarrow> u8 list list \<Rightarrow> bool" where
  "log_rep v f slots \<longleftrightarrow>
     0 < log_len v \<and> max_records v \<noteq> 0
     \<and> length slots = unat (current_records v) \<and> current_records v \<le> max_records v
     \<and> (current_records v = max_records v \<longrightarrow> write_index v < max_records v)
     \<and> (\<forall>s\<in>set slots. length s = log_len v)
     \<and> (slots \<noteq> [] \<longrightarrow>
           (\<exists>pre post. length pre = log_start v \<and> f = Some (pre @ concat slots @ post)))"

definition log_records :: "log_view \<Rightarrow> u8 list list \<Rightarrow> u8 list list" where
  "log_records v slots = rotate (unat (oldest_record_p_idx v)) slots"

lemma length_concat_const:
  "(\<forall>s\<in>set ss. length s = n) \<Longrightarrow> length (concat ss) = length ss * n"
  by (induction ss) auto

lemma take_drop_concat:
  assumes "\<forall>s\<in>set ss. length s = n" "p + c \<le> length ss"
  shows "take (c * n) (drop (p * n) (concat ss @ post)) = concat (take c (drop p ss))"
proof -
  have "concat ss = concat (take p ss) @ concat (take c (drop p ss)) @ concat (drop (p + c) ss)"
    by (metis append_take_drop_id concat_append drop_drop add.commute)
  moreover have "length (concat (take p ss)) = p * n"
    using assms by (subst length_concat_const [of _ n]) (auto dest: in_set_takeD)
  moreover have "length (concat (take c (drop p ss))) = c * n"
    using assms by (subst length_concat_const [of _ n]) (auto dest: in_set_takeD in_set_dropD)
  ultimately show ?thesis by simp
qed

lemma read_at_slots:
  assumes "log_rep v f slots" "p + c \<le> length slots" "0 < c"
  shows "fs_file_read_at good_read (record_offset v p) (c * log_len v) f
    = (int (c * log_len v), concat (take c (drop p slots)))"
proof -
  obtain pre post where f: "f = Some (pre @ concat slots @ post)" "length pre = log_start v"
      and len: "\<forall>s\<in>set slots. length s = log_len v" and l: "0 < log_len v"
    using assms by (cases slots) (auto simp: log_rep_def)
  have "take (c * log_len v) (drop (record_offset v p) (pre @ concat slots @ post))
      = concat (take c (drop p slots))"
    using take_drop_concat [OF len assms(2), of post] f(2)
    by (simp add: record_offset_def)
  moreover have "length (concat (take c (drop p slots))) = c * log_len v"
    using len assms(2) by (subst length_concat_const [of _ "log_len v"])
      (auto dest: in_set_takeD in_set_dropD)
  ultimately show ?thesis
    using assms(3) l by (simp add: fs_file_read_at_def f(1))
qed

lemma read_record_slot:
  assumes "log_rep v f slots" "p < length slots"
  shows "read_record (\<lambda>_. good_read) v f p = Some (slots ! p)"
proof -
  have "take (Suc 0) (drop p slots) = [slots ! p]"
    using assms(2) by (simp add: take_Suc hd_drop_conv_nth)
  then show ?thesis
    using read_at_slots [of v f slots p 1] assms by (simp add: read_record_def Let_def)
qed

lemma read_block_slots:
  assumes "log_rep v f slots" "p + c \<le> length slots" "0 < c"
  shows "read_block (\<lambda>_. good_read) v f p c = Some (concat (take c (drop p slots)))"
  using read_at_slots [OF assms] by (simp add: read_block_def Let_def)

lemma oldest_less:
  assumes "log_rep v f slots" "slots \<noteq> []"
  shows "unat (oldest_record_p_idx v) < length slots"
proof (cases "current_records v < max_records v")
  case True
  then show ?thesis using assms(2) by (simp add: oldest_record_p_idx_def)
next
  case False
  then have "current_records v = max_records v" using assms(1) by (simp add: log_rep_def)
  then show ?thesis using assms(1)
    by (simp add: oldest_record_p_idx_def log_rep_def word_less_nat_alt)
qed

lemma record_p_idx_slot:
  assumes "log_rep v f slots" "l < length slots"
  shows "record_p_idx v l = (unat (oldest_record_p_idx v) + l) mod length slots"
proof (cases "current_records v < max_records v")
  case True
  then show ?thesis using assms
    by (auto simp: record_p_idx_def oldest_record_p_idx_def log_rep_def word_less_nat_alt)
next
  case False
  then show ?thesis using assms by (auto simp: record_p_idx_def log_rep_def)
qed

lemma nth_log_records:
  assumes "log_rep v f slots" "l < length slots"
  shows "log_records v slots ! l = slots ! record_p_idx v l"
  using assms by (simp add: log_records_def nth_rotate record_p_idx_slot)

lemma length_log_records [simp]: "length (log_records v slots) = length slots"
  by (simp add: log_records_def)

lemma record_p_idx_less:
  "log_rep v f slots \<Longrightarrow> l < length slots \<Longrightarrow> record_p_idx v l < length slots"
  by (cases slots) (simp_all add: record_p_idx_slot)

lemma read_logical_record:
  assumes "log_rep v f slots" "l < length slots"
  shows "read_record (\<lambda>_. good_read) v f (record_p_idx v l) = Some (log_records v slots ! l)"
  using assms by (simp add: read_record_slot record_p_idx_less nth_log_records)

section \<open>The binary search\<close>

text \<open>The logs are searched under the assumption that once a record is newer than the given time,
  so are all later ones.\<close>

definition time_ordered :: "('a \<Rightarrow> bool) \<Rightarrow> 'a list \<Rightarrow> bool" where
  "time_ordered newer rs \<longleftrightarrow> (\<forall>i j. i \<le> j \<and> j < length rs \<and> newer (rs ! i) \<longrightarrow> newer (rs ! j))"

lemma search_first_new_correct:
  assumes "\<And>i. 0 \<le> i \<Longrightarrow> i < int (length rs) \<Longrightarrow> rd (nat i) = Some (rs ! nat i)"
    and "time_ordered newer rs"
    and "0 \<le> low" "high < int (length rs)" "low \<le> high + 1"
    and "\<forall>i. 0 \<le> i \<and> i < low \<longrightarrow> \<not> newer (rs ! nat i)"
    and "high + 1 < int (length rs) \<longrightarrow> newer (rs ! nat (high + 1)) \<and> first_new = high + 1"
    and "high + 1 = int (length rs) \<longrightarrow> first_new = - 1"
  shows "\<exists>k. search_first_new rd newer low high first_new = Some k \<and>
     (k = - 1 \<and> (\<forall>i < length rs. \<not> newer (rs ! i)) \<or>
      0 \<le> k \<and> k < int (length rs) \<and> newer (rs ! nat k) \<and> (\<forall>i < nat k. \<not> newer (rs ! i)))"
  using assms
proof (induction rd newer low high first_new rule: search_first_new.induct)
  case (1 rd newer low high first_new)
  show ?case
  proof (cases "low \<le> high")
    case False
    then have eq: "low = high + 1" using 1 by simp
    have old: "\<forall>i < nat low. \<not> newer (rs ! i)" 
      using "1.prems"(6) by (metis int_nat_eq nat_int of_nat_0_le_iff of_nat_less_iff zless_nat_eq_int_zless)
    show ?thesis
    proof (cases "high + 1 < int (length rs)")
      case True
      then show ?thesis
        using 1 False eq old by (subst search_first_new.simps) auto
    next
      case F: False
      then have "low = int (length rs)" using 1 eq by simp
      then show ?thesis
        using 1 False eq old F by (subst search_first_new.simps) auto
    qed
  next
    case True
    let ?m = "low + (high - low) div 2"
    have m: "low \<le> ?m" "?m \<le> high" using True by auto
    have rd: "rd (nat ?m) = Some (rs ! nat ?m)"
      using "1.prems"(1) [of ?m] m "1.prems"(3,4) by simp
    have unfold: "search_first_new rd newer low high first_new =
       (if newer (rs ! nat ?m) then search_first_new rd newer low (?m - 1) ?m
        else search_first_new rd newer (?m + 1) high first_new)"
      using True rd by (subst search_first_new.simps) (simp add: Let_def)
    show ?thesis
    proof (cases "newer (rs ! nat ?m)")
      case n: True
      have "\<exists>k. search_first_new rd newer low (?m - 1) ?m = Some k \<and>
         (k = - 1 \<and> (\<forall>i < length rs. \<not> newer (rs ! i)) \<or>
          0 \<le> k \<and> k < int (length rs) \<and> newer (rs ! nat k) \<and> (\<forall>i < nat k. \<not> newer (rs ! i)))"
        by (rule "1.IH"(1) [OF True refl rd n "1.prems"(1,2,3)])
           (use m n "1.prems" in auto)
      then show ?thesis using unfold n by simp
    next
      case n: False
      have old: "\<not> newer (rs ! nat i)" if "0 \<le> i" "i < ?m + 1" for i
        using "1.prems"(2,4) n that m
        unfolding time_ordered_def by (metis (no_types, lifting) nat_less_iff nat_mono
          order_le_less_trans zle_add1_eq_le "1.prems"(3) order_trans)
      have "\<exists>k. search_first_new rd newer (?m + 1) high first_new = Some k \<and>
         (k = - 1 \<and> (\<forall>i < length rs. \<not> newer (rs ! i)) \<or>
          0 \<le> k \<and> k < int (length rs) \<and> newer (rs ! nat k) \<and> (\<forall>i < nat k. \<not> newer (rs ! i)))"
        by (rule "1.IH"(2) [OF True refl rd n "1.prems"(1,2)])
           (use m old "1.prems" in auto)
      then show ?thesis using unfold n by simp
    qed
  qed
qed

section \<open>Counting and reading are exact\<close>

lemma filter_time_ordered:
  assumes "time_ordered newer rs" "k \<le> length rs" "k < length rs \<longrightarrow> newer (rs ! k)"
    and "\<forall>i<k. \<not> newer (rs ! i)"
  shows "filter newer rs = drop k rs"
proof -
  have "filter newer (take k rs) = []"
    using assms(2,4) by (auto simp: filter_empty_conv in_set_conv_nth)
  moreover have "filter newer (drop k rs) = drop k rs"
  proof (rule filter_True, rule ballI)
    fix r assume "r \<in> set (drop k rs)"
    then obtain i where "r = rs ! (k + i)" "k + i < length rs"
      by (auto simp: in_set_conv_nth)
    then show "newer r"
      using assms(1,3) unfolding time_ordered_def by (metis le_add1 le_less_trans)
  qed
  ultimately show ?thesis by (metis append_Nil append_take_drop_id filter_append)
qed

lemma ex_int_none: "\<not> (\<exists>i\<ge>0. i < (0::int))"
  by simp

lemma log_count_exact:
  assumes rep: "log_rep v f slots"
    and ord: "time_ordered (is_newer v since) (log_records v slots)" and since: "since \<noteq> 0"
  shows "unat (Log_Count_New_Records (\<lambda>_. good_read) v f since)
    = length (filter (is_newer v since) (log_records v slots))"
proof (cases "slots = []")
  case True
  then have "current_records v = 0" using rep by (simp add: log_rep_def unat_eq_0)
  then show ?thesis using True by (simp add: Log_Count_New_Records_def log_records_def)
next
  case False
  let ?rs = "log_records v slots" and ?nw = "is_newer v since"
  let ?n = "length slots"
  have n: "?n = unat (current_records v)" "0 < ?n" and mx: "max_records v \<noteq> 0"
      and c0: "current_records v \<noteq> 0"
    using rep False length_greater_0_conv [of slots] by (auto simp: log_rep_def)
  have ci: "uint (current_records v) = int ?n" by (simp add: n)
  have cm: "unat (current_records v - 1) = ?n - 1"
    using n by (simp add: unat_sub word_le_nat_alt)
  have oldest: "read_record (\<lambda>_. good_read) v f (unat (oldest_record_p_idx v)) = Some (?rs ! 0)"
    using read_logical_record [OF rep n(2)] record_p_idx_slot [OF rep n(2)]
      oldest_less [OF rep False] by simp
  have newest: "read_record (\<lambda>_. good_read) v f (record_p_idx v (?n - 1)) = Some (?rs ! (?n - 1))"
    using read_logical_record [OF rep, of "?n - 1"] n by simp
  have rd: "\<And>i. 0 \<le> i \<Longrightarrow> i < int (length ?rs) \<Longrightarrow>
      read_record (\<lambda>_. good_read) v f (record_p_idx v (nat i)) = Some (?rs ! nat i)"
    using read_logical_record [OF rep] by simp
  obtain k where k: "search_first_new (\<lambda>l. read_record (\<lambda>_. good_read) v f (record_p_idx v l))
        ?nw 0 (int ?n - 1) (- 1) = Some k"
      "k = - 1 \<and> (\<forall>i < ?n. \<not> ?nw (?rs ! i)) \<or>
       0 \<le> k \<and> k < int ?n \<and> ?nw (?rs ! nat k) \<and> (\<forall>i < nat k. \<not> ?nw (?rs ! i))"
    using search_first_new_correct [OF rd ord, of 0 "int ?n - 1" "- 1"] n(2) ex_int_none by auto
  consider (all) "?nw (?rs ! 0)" | (none) "\<not> ?nw (?rs ! (?n - 1))"
    | (some) "\<not> ?nw (?rs ! 0)" "?nw (?rs ! (?n - 1))" by blast
  then show ?thesis
  proof cases
    case all
    then have "filter ?nw ?rs = ?rs"
      using filter_time_ordered [OF ord, of 0] n by simp
    then show ?thesis using all oldest since mx n
      by (simp add: Log_Count_New_Records_def)
  next
    case none
    then have "\<forall>i < ?n. \<not> ?nw (?rs ! i)"
      using ord n unfolding time_ordered_def
      by (metis Suc_leI Suc_pred' diff_less length_log_records less_Suc_eq_le zero_less_one)
    then have "filter ?nw ?rs = []" "\<not> ?nw (?rs ! 0)"
      using n by (auto simp: filter_empty_conv in_set_conv_nth)
    then show ?thesis using none oldest newest since
      by (simp add: Log_Count_New_Records_def Let_def cm)
  next
    case some
    then have kk: "0 \<le> k" "k < int ?n" "?nw (?rs ! nat k)" "\<forall>i < nat k. \<not> ?nw (?rs ! i)"
      using k(2) n by auto
    have "filter ?nw ?rs = drop (nat k) ?rs"
      using filter_time_ordered [OF ord, of "nat k"] kk by simp
    moreover have "unat (current_records v - word_of_int k) = ?n - nat k"
    proof -
      have "nat k < 2 ^ 16"
        using kk(1,2) ci unsigned_less [of "current_records v", where 'a = int] by simp
      then have "unat (word_of_nat (nat k) :: u16) = nat k" by (simp add: unat_of_nat)
      then have "unat (word_of_int k :: u16) = nat k" using kk(1) by simp
      moreover have "nat k \<le> unat (current_records v)" using kk(1,2) n(1) by linarith
      ultimately have "(word_of_int k :: u16) \<le> current_records v"
        by (simp only: word_le_nat_alt)
      from unat_sub [OF this] show ?thesis
        using \<open>unat (word_of_int k :: u16) = nat k\<close> n(1) by simp
    qed
    ultimately show ?thesis using some oldest newest since mx c0 k(1) kk
      by (simp add: Log_Count_New_Records_def Let_def cm ci)
  qed
qed

lemma log_count_all:
  "log_rep v f slots \<Longrightarrow> unat (Log_Count_New_Records rio v f 0) = length (log_records v slots)"
  by (auto simp: Log_Count_New_Records_def log_rep_def unat_eq_0)

text \<open>The last \<open>n\<close> records in order, read in one or two pieces.\<close>

lemma read_new_records_suffix:
  assumes rep: "log_rep v f slots" and n: "0 < unat n" "unat n \<le> length slots"
  shows "read_new_records (\<lambda>_. good_read) v f n
    = Some (concat (drop (length slots - unat n) (log_records v slots)))"
proof -
  define N where "N = length slots"
  define l where "l = N - unat n"
  define o1 where "o1 = unat (oldest_record_p_idx v)"
  define p where "p = record_p_idx v l"
  have cur: "unat (current_records v) = N" and mx: "N \<le> unat (max_records v)"
    using rep by (auto simp: log_rep_def N_def word_le_nat_alt)
  have ln: "l + unat n = N" "l < N" using n by (auto simp: l_def N_def)
  have first: "unat (current_records v - n) = l"
    using n cur by (simp add: unat_sub word_le_nat_alt l_def N_def)
  have o: "o1 < N" using oldest_less [OF rep] ln(2) by (cases slots) (auto simp: o1_def N_def)
  have p: "p = (o1 + l) mod N" "p < N"
    using record_p_idx_slot [OF rep, of l] record_p_idx_less [OF rep, of l] ln
    by (simp_all add: p_def o1_def N_def)
  have sp: "unat (max_records v - of_nat p) = unat (max_records v) - p"
  proof -
    have "unat (of_nat p :: u16) = p"
      using p mx unsigned_less [of "max_records v", where 'a = nat]
      by (simp add: unat_of_nat)
    then show ?thesis using p mx by (simp add: unat_sub word_le_nat_alt)
  qed
  have rs: "log_records v slots = drop o1 slots @ take o1 slots"
    using o by (simp add: log_records_def rotate_drop_take o1_def N_def)
  have blk: "read_block (\<lambda>_. good_read) v f q c = Some (concat (take c (drop q slots)))"
    if "q + c \<le> N" "0 < c" for q c
    using read_block_slots [OF rep, of q c] that by (simp add: N_def)
  have ns: "length slots = N" by (simp add: N_def)
  have unfold: "read_new_records (\<lambda>_. good_read) v f n =
     (if unat n \<le> unat (max_records v) - p then read_block (\<lambda>_. good_read) v f p (unat n)
      else case read_block (\<lambda>_. good_read) v f p (unat (max_records v) - p) of
             None \<Rightarrow> None
           | Some bs1 \<Rightarrow>
               (case read_block (\<lambda>_. good_read) v f 0 (unat n - (unat (max_records v) - p)) of
                  None \<Rightarrow> None
                | Some bs2 \<Rightarrow> Some (bs1 @ bs2)))"
    unfolding read_new_records_def Let_def first p_def [symmetric]
    by (cases "unat n \<le> unat (max_records v) - p")
       (simp_all add: word_le_nat_alt sp unat_sub cong: option.case_cong)
  consider (partial) "N < unat (max_records v)"
    | (two) "N = unat (max_records v)" "o1 + l < N" "0 < o1"
    | (zero) "N = unat (max_records v)" "o1 = 0"
    | (one) "N = unat (max_records v)" "N \<le> o1 + l"
    using mx by linarith
  then show ?thesis
  proof cases
    case partial
    then have "o1 = 0" "p = l"
      using p ln by (simp_all add: o1_def oldest_record_p_idx_def word_less_nat_alt cur)
    moreover from this have "unat n \<le> unat (max_records v) - p" using partial ln by simp
    ultimately show ?thesis
      using blk [of l "unat n"] ln n(1) rs by (simp add: unfold ns flip: l_def)
  next
    case two
    then have pv: "p = o1 + l" using p by simp
    have cnt: "unat (max_records v) - p = unat n - o1" "o1 < unat n" "p + (unat n - o1) = N"
      using two ln pv by auto
    have "drop l (log_records v slots) = drop p slots @ take o1 slots"
      using rs pv two ln(2) by (simp add: ns add.commute)
    moreover have "\<not> unat n \<le> unat n - o1" using cnt(2) two(3) by linarith
    ultimately show ?thesis
      using blk [of p "unat n - o1"] blk [of 0 o1] cnt two(3) o
      by (simp add: unfold ns flip: l_def)
  next
    case zero
    then have "p = l" "unat n \<le> unat (max_records v) - p" using p ln by simp_all
    then show ?thesis
      using blk [of l "unat n"] zero(2) ln n(1) rs by (simp add: unfold ns flip: l_def)
  next
    case one
    have "p = o1 + l - N"
      using p(1) one(2) o ln(2) by (simp add: le_mod_geq)
    then have pv: "p = o1 - unat n" "unat n \<le> o1"
      using ln one(2) by linarith+
    have "drop l (log_records v slots) = take (unat n) (drop p slots)"
    proof -
      have "o1 - (l - (N - o1)) = unat n" "l - (N - o1) = p" "N - o1 \<le> l"
        using pv ln o one(2) by linarith+
      then show ?thesis using o by (simp add: rs drop_take ns)
    qed
    moreover have "unat n \<le> unat (max_records v) - p" "p + unat n \<le> N"
      using one pv o by auto
    ultimately show ?thesis
      using blk [of p "unat n"] n(1) by (simp add: unfold ns flip: l_def N_def)
  qed
qed

section \<open>The interface of a log\<close>

text \<open>What a log module promises its readers: in every good state its view and file represent a list
  of slots (\<open>readable_log\<close>), and storing a batch leaves the last \<open>capacity\<close> records of the old list and
  the batch (\<open>circular_log\<close>).\<close>

definition last_records :: "nat \<Rightarrow> 'a list \<Rightarrow> 'a list" where
  "last_records n xs = drop (length xs - n) xs"

lemma length_last_records [simp]: "length (last_records n xs) = min n (length xs)"
  by (simp add: last_records_def)

lemma last_records_all [simp]: "length xs \<le> n \<Longrightarrow> last_records n xs = xs"
  by (simp add: last_records_def)

lemma last_records_append_left:
  "last_records n (last_records n xs @ ys) = last_records n (xs @ ys)"
  by (cases "length xs \<le> n") (auto simp: last_records_def add.commute)

lemma set_last_records: "set (last_records n xs) \<subseteq> set xs"
  by (simp add: last_records_def set_drop_subset)

lemma read_header_good:
  "length pre = n \<Longrightarrow> read_header (\<lambda>_. good_read) n (Some (pre @ post)) = Some pre"
  by (auto simp: read_header_def fs_file_read_at_def)

locale readable_log =
  fixes view :: "'s \<Rightarrow> log_view"
    and the_file :: "'s \<Rightarrow> flash_file"
    and slots_of :: "'s \<Rightarrow> u8 list list"
    and header_of :: "'s \<Rightarrow> u8 list"
    and invar :: "'s \<Rightarrow> bool"
  assumes rep: "invar s \<Longrightarrow> log_rep (view s) (the_file s) (slots_of s)"
    and header: "invar s \<Longrightarrow> slots_of s \<noteq> [] \<Longrightarrow> length (header_of s) = log_start (view s) \<and>
           (\<exists>post. the_file s = Some (header_of s @ post))"
begin

abbreviation records :: "'s \<Rightarrow> u8 list list" where
  "records s \<equiv> log_records (view s) (slots_of s)"

lemma count_new:
  assumes "invar s" "time_ordered (is_newer (view s) since) (records s)" "since \<noteq> 0"
  shows "unat (Log_Count_New_Records (\<lambda>_. good_read) (view s) (the_file s) since)
    = length (filter (is_newer (view s) since) (records s))"
  by (rule log_count_exact [OF rep [OF assms(1)] assms(2,3)])

lemma read_new:
  assumes "invar s" "time_ordered (is_newer (view s) since) (records s)" "since \<noteq> 0"
    and "filter (is_newer (view s) since) (records s) \<noteq> []"
  shows "Log_Read_Incremental True True (\<lambda>_. good_read) (log_start (view s)) (view s)
      (the_file s) since
    = (0, Some (header_of s @ concat (filter (is_newer (view s) since) (records s))))"
proof -
  let ?nw = "is_newer (view s) since" and ?n = "Log_Count_New_Records (\<lambda>_. good_read) (view s) (the_file s) since"
  obtain k where k: "k \<le> length (records s)" "filter ?nw (records s) = drop k (records s)"
  proof -
    define k where "k = (LEAST i. i < length (records s) \<and> ?nw (records s ! i))"
    obtain i where "i < length (records s) \<and> ?nw (records s ! i)"
      using assms(4) by (auto simp: filter_empty_conv in_set_conv_nth)
    then have "k < length (records s) \<and> ?nw (records s ! k)"
      unfolding k_def by (rule LeastI)
    moreover from this have "\<forall>i<k. \<not> ?nw (records s ! i)"
      using not_less_Least [of _ "\<lambda>i. i < length (records s) \<and> ?nw (records s ! i)"]
      unfolding k_def [symmetric] by (metis order_less_trans)
    ultimately show ?thesis
      using filter_time_ordered [OF assms(2), of k] that [of k] by auto
  qed
  have n: "unat ?n = length (records s) - k"
    using count_new [OF assms(1-3)] k(2) by simp
  have pos: "0 < unat ?n" using assms(4) k(2) n by auto
  then have ne: "?n \<noteq> 0" by auto
  have "read_new_records (\<lambda>_. good_read) (view s) (the_file s) ?n
      = Some (concat (filter ?nw (records s)))"
    using read_new_records_suffix [OF rep [OF assms(1)] pos] n k by simp
  moreover have "read_header (\<lambda>_. good_read) (log_start (view s)) (the_file s) = Some (header_of s)"
    using header [OF assms(1)] read_header_good assms(4)
    by (cases "slots_of s = []") (auto simp: log_records_def)
  ultimately show ?thesis
    using ne by (simp add: Log_Read_Incremental_def Let_def)
qed

lemma read_none:
  assumes "invar s" "time_ordered (is_newer (view s) since) (records s)" "since \<noteq> 0"
    and "filter (is_newer (view s) since) (records s) = []"
  shows "Log_Read_Incremental True True (\<lambda>_. good_read) (log_start (view s)) (view s)
      (the_file s) since = (0, None)"
  using count_new [OF assms(1-3)] assms(4)
  by (simp add: Log_Read_Incremental_def unat_eq_0)

lemma read_all:
  assumes "invar s" "records s \<noteq> []"
  shows "Log_Read_Incremental True True (\<lambda>_. good_read) (log_start (view s)) (view s) (the_file s) 0
    = (0, Some (header_of s @ concat (records s)))"
proof -
  let ?n = "Log_Count_New_Records (\<lambda>_. good_read) (view s) (the_file s) 0"
  have n: "unat ?n = length (slots_of s)"
    using log_count_all [OF rep [OF assms(1)]] by simp
  have pos: "0 < unat ?n" using n assms(2) by (auto simp: log_records_def)
  then have ne: "?n \<noteq> 0" by auto
  have "read_new_records (\<lambda>_. good_read) (view s) (the_file s) ?n = Some (concat (records s))"
    using read_new_records_suffix [OF rep [OF assms(1)] pos] n by simp
  moreover have "read_header (\<lambda>_. good_read) (log_start (view s)) (the_file s) = Some (header_of s)"
    using header [OF assms(1)] read_header_good assms(2) by (auto simp: log_records_def)
  ultimately show ?thesis
    using ne by (simp add: Log_Read_Incremental_def Let_def)
qed

lemma read_all_empty:
  assumes "invar s" "records s = []"
  shows "Log_Read_Incremental True True (\<lambda>_. good_read) (log_start (view s)) (view s) (the_file s) 0
    = (0, None)"
  using log_count_all [OF rep [OF assms(1)], of "\<lambda>_. good_read"] assms(2)
  by (simp add: Log_Read_Incremental_def unat_eq_0)

end

locale circular_log = readable_log view the_file slots_of header_of invar
  for view :: "'s \<Rightarrow> log_view" and the_file slots_of header_of invar +
  fixes capacity :: nat
    and store :: "u8 list list \<Rightarrow> 's \<Rightarrow> 's"
    and batch_ok :: "u8 list list \<Rightarrow> bool"
  assumes store_invar: "invar s \<Longrightarrow> batch_ok b \<Longrightarrow> invar (store b s)"
    and store_records: "invar s \<Longrightarrow> batch_ok b \<Longrightarrow>
           log_records (view (store b s)) (slots_of (store b s))
             = last_records capacity (log_records (view s) (slots_of s) @ b)"
begin

text \<open>Any sequence of batches: the log holds the last \<open>capacity\<close> records ever stored.\<close>

lemma store_all_invar:
  "invar s \<Longrightarrow> \<forall>b\<in>set bs. batch_ok b \<Longrightarrow> invar (fold store bs s)"
  by (induction bs arbitrary: s) (auto simp: store_invar)

lemma store_all_records:
  "invar s \<Longrightarrow> \<forall>b\<in>set bs. batch_ok b \<Longrightarrow>
     last_records capacity (records (fold store bs s))
       = last_records capacity (records s @ concat bs)"
proof (induction bs arbitrary: s)
  case (Cons b bs)
  have "last_records capacity (records (fold store bs (store b s)))
      = last_records capacity (last_records capacity (records s @ b) @ concat bs)"
    using Cons.IH [of "store b s"] Cons.prems store_records [of s b] store_invar [of s b] by simp
  then show ?case by (simp add: last_records_append_left)
qed simp

end

end
