(* ===== verification/Record_Journal.thy ===== *)
theory Record_Journal
  imports Circular_Log
begin

text \<open>
  Writing a circular log file with a header: the initialisation and the batch store that
  \<open>reg_log/reg_change_log.c\<close>, \<open>dev_access_log/dev_access_log.c\<close> and \<open>iot_mqtt/mqtt_log.c\<close> share
  line for line, with the constants of a module as a \<open>journal_layout\<close>.  The cached header is the
  byte image of the C union; its fields are read and written in place.

  The lemmas show that a store on a working medium keeps the invariant and leaves the last
  \<open>max_num\<close> records (\<open>Journal_Save_rep\<close>), and what the reader sees after the header in the file has
  fallen behind the records (\<open>Journal_Save_behind\<close>).
\<close>

section \<open>The layout and the cached header\<close>

record journal_layout =
  header_len :: u16
  start_addr :: u32
  rec_len :: u16
  max_num :: u16
  field_off :: nat
  file_ver :: "u16 option"
  newer_than :: "u64 \<Rightarrow> u8 list \<Rightarrow> bool"

definition put16 :: "nat \<Rightarrow> u16 \<Rightarrow> u8 list \<Rightarrow> u8 list" where
  "put16 i w h = take i h @ le16 w @ drop (i + 2) h"

definition h_max :: "journal_layout \<Rightarrow> u8 list \<Rightarrow> u16" where
  "h_max L h = get16 h (field_off L)"

definition h_cur :: "journal_layout \<Rightarrow> u8 list \<Rightarrow> u16" where
  "h_cur L h = get16 h (field_off L + 2)"

definition h_idx :: "journal_layout \<Rightarrow> u8 list \<Rightarrow> u16" where
  "h_idx L h = get16 h (field_off L + 4)"

definition set_max :: "journal_layout \<Rightarrow> u16 \<Rightarrow> u8 list \<Rightarrow> u8 list" where
  "set_max L w h = put16 (field_off L) w h"

definition set_cur :: "journal_layout \<Rightarrow> u16 \<Rightarrow> u8 list \<Rightarrow> u8 list" where
  "set_cur L w h = put16 (field_off L + 2) w h"

definition set_idx :: "journal_layout \<Rightarrow> u16 \<Rightarrow> u8 list \<Rightarrow> u8 list" where
  "set_idx L w h = put16 (field_off L + 4) w h"

record journal_file =
  jheader :: "u8 list"
  jfile :: flash_file

definition journal_view :: "journal_layout \<Rightarrow> u8 list \<Rightarrow> log_view" where
  "journal_view L h =
     \<lparr>max_records = h_max L h, current_records = h_cur L h, write_index = h_idx L h,
      log_start = unat (start_addr L), log_len = unat (rec_len L), is_newer = newer_than L\<rparr>"

section \<open>Initialisation\<close>

text \<open>The header is read straight into the cache; if that fails or the constants differ, a new
  header is set up and written.  \<open>remove_old\<close> is the step only the MQTT log takes: it deletes the
  file first, and the result says whether the removal went through.\<close>

definition header_valid :: "journal_layout \<Rightarrow> u8 list \<Rightarrow> bool" where
  "header_valid L h \<longleftrightarrow>
     (case file_ver L of None \<Rightarrow> True | Some ver \<Rightarrow> get16 h 0 = ver) \<and> h_max L h = max_num L"

definition fresh_header :: "journal_layout \<Rightarrow> u8 list \<Rightarrow> u8 list" where
  "fresh_header L h =
     set_idx L 0 (set_cur L 0 (set_max L (max_num L)
       (case file_ver L of None \<Rightarrow> h | Some ver \<Rightarrow> put16 0 ver h)))"

definition Journal_Init ::
    "journal_layout \<Rightarrow> bool option \<Rightarrow> read_io \<Rightarrow> write_io \<Rightarrow> journal_file \<Rightarrow> int \<times> journal_file" where
  "Journal_Init L remove_old rio wio st =
     (let (bytes_read, bs) = fs_file_read_at rio 0 (unat (header_len L)) (jfile st);
          h = bs @ drop (length bs) (jheader st)
      in if bytes_read \<noteq> int (unat (header_len L)) \<or> \<not> header_valid L h then
           let f = (case remove_old of
                      None \<Rightarrow> jfile st
                    | Some removed \<Rightarrow>
                        if fs_file_exists (jfile st) then fs_file_delete removed (jfile st)
                        else jfile st);
               h' = fresh_header L h;
               (r, f') = fs_record_write wio 0 0 (header_len L) 1 h' f
           in (if r = 0 then 0 else - 1, \<lparr>jheader = h', jfile = f'\<rparr>)
         else (0, st\<lparr>jheader := h\<rparr>))"

section \<open>Storing a batch\<close>

definition Journal_Log_Write ::
    "journal_layout \<Rightarrow> write_io \<Rightarrow> u16 \<Rightarrow> u8 list list \<Rightarrow> flash_file \<Rightarrow> int \<times> flash_file" where
  "Journal_Log_Write L io record_index records f =
     (if records = [] then (0, f)
      else
        let (r, f') = fs_record_write io (start_addr L) record_index (rec_len L)
                        (of_nat (length records)) (concat records) f
        in (if r \<noteq> 0 then - 1 else 0, f'))"

text \<open>Both halves of the batch, \<open>goto save_exit\<close> after a failed write as \<open>False\<close>.\<close>

definition write_halves ::
    "journal_layout \<Rightarrow> write_io \<Rightarrow> write_io \<Rightarrow> u16 \<Rightarrow> nat \<Rightarrow> u8 list list \<Rightarrow> flash_file
       \<Rightarrow> bool \<times> flash_file" where
  "write_halves L io1 io2 index1 cnt1 records f =
     (let (r1, f1) = Journal_Log_Write L io1 index1 (take cnt1 records) f
      in if r1 \<noteq> 0 then (False, f1)
         else
           let (r2, f2) = Journal_Log_Write L io2 0 (drop cnt1 records) f1
           in (r2 = 0, f2))"

definition filling :: "journal_layout \<Rightarrow> u8 list \<Rightarrow> bool" where
  "filling L h \<longleftrightarrow> h_cur L h < h_max L h"

text \<open>\<open>space_left\<close> while the file fills up, \<open>space_to_end\<close> once it is full; \<open>cnt1\<close> of the batch.\<close>

definition batch_space :: "journal_layout \<Rightarrow> u8 list \<Rightarrow> u16" where
  "batch_space L h =
     (if filling L h then h_max L h - h_cur L h else h_max L h - h_idx L h)"

definition batch_cnt1 :: "u16 \<Rightarrow> u16 \<Rightarrow> u16" where
  "batch_cnt1 space record_cnt = (if space < record_cnt then space else record_cnt)"

definition next_header :: "journal_layout \<Rightarrow> u16 \<Rightarrow> u16 \<Rightarrow> u8 list \<Rightarrow> u8 list" where
  "next_header L cnt1 cnt2 h =
     (if filling L h then
        if 0 < cnt2 then set_idx L cnt2 (set_cur L (h_max L h) h)
        else set_idx L 0 (set_cur L (h_cur L h + cnt1) h)
      else if 0 < cnt2 then set_idx L cnt2 h
      else
        let i = h_idx L h + cnt1
        in if i = h_max L h then set_idx L 0 h else set_idx L i h)"

definition Journal_Save ::
    "journal_layout \<Rightarrow> write_io \<Rightarrow> write_io \<Rightarrow> write_io \<Rightarrow> u8 list list \<Rightarrow> journal_file
       \<Rightarrow> bool \<times> journal_file" where
  "Journal_Save L io1 io2 io3 records st =
     (let h = jheader st; record_cnt = of_nat (length records) :: u16;
          cnt1 = batch_cnt1 (batch_space L h) record_cnt;
          cnt2 = record_cnt - cnt1;
          (ok, f2) = write_halves L io1 io2 (if filling L h then FILE_APPEND_MODE else h_idx L h)
                       (unat cnt1) records (jfile st)
      in if \<not> ok then (False, st\<lparr>jfile := f2\<rparr>)
         else
           let h' = next_header L cnt1 cnt2 h;
               (_, f3) = fs_record_write io3 0 0 (header_len L) 1 h' f2
           in (True, \<lparr>jheader = h', jfile = f3\<rparr>))"

section \<open>Header fields\<close>

lemma length_put16 [simp]: "i + 2 \<le> length h \<Longrightarrow> length (put16 i w h) = length h"
  by (simp add: put16_def)

lemma get16_put16_same [simp]: "i + 2 \<le> length h \<Longrightarrow> get16 (put16 i w h) i = w"
  by (simp add: put16_def get16_def le16_def nth_append)

lemma get16_put16_before [simp]:
  "i + 2 \<le> length h \<Longrightarrow> j + 2 \<le> i \<Longrightarrow> get16 (put16 i w h) j = get16 h j"
  by (simp add: put16_def get16_def le16_def nth_append)

lemma get16_put16_behind [simp]:
  assumes "i + 2 \<le> j" "j + 2 \<le> length h"
  shows "get16 (put16 i w h) j = get16 h j"
proof -
  obtain k where "j = i + 2 + k" using assms(1) by (auto simp: le_iff_add)
  then show ?thesis using assms by (simp add: put16_def get16_def le16_def nth_append)
qed

definition layout_ok :: "journal_layout \<Rightarrow> bool" where
  "layout_ok L \<longleftrightarrow>
     0 < rec_len L \<and> 0 < max_num L \<and> max_num L < 0xFFFF
     \<and> unat (start_addr L) = unat (header_len L)
     \<and> field_off L + 6 \<le> unat (header_len L) \<and> (file_ver L \<noteq> None \<longrightarrow> 2 \<le> field_off L)
     \<and> unat (header_len L) + unat (max_num L) * unat (rec_len L) < 2 ^ 32"

lemma header_fields:
  assumes len: "field_off L + 6 \<le> length h"
  shows "h_max L (set_max L w h) = w" "h_cur L (set_max L w h) = h_cur L h"
  "h_idx L (set_max L w h) = h_idx L h"
  "h_max L (set_cur L w h) = h_max L h" "h_cur L (set_cur L w h) = w"
  "h_idx L (set_cur L w h) = h_idx L h"
  "h_max L (set_idx L w h) = h_max L h" "h_cur L (set_idx L w h) = h_cur L h"
  "h_idx L (set_idx L w h) = w"
  "length (set_max L w h) = length h" "length (set_cur L w h) = length h"
  "length (set_idx L w h) = length h"
  using len by (simp_all add: h_max_def h_cur_def h_idx_def set_max_def set_cur_def set_idx_def)

lemma next_header_fields:
  assumes hl: "field_off L + 6 \<le> length h"
  shows "length (next_header L cnt1 cnt2 h) = length h"
    and "h_max L (next_header L cnt1 cnt2 h) = h_max L h"
    and "h_cur L (next_header L cnt1 cnt2 h) =
      (if filling L h then if 0 < cnt2 then h_max L h else h_cur L h + cnt1 else h_cur L h)"
    and "h_idx L (next_header L cnt1 cnt2 h) =
      (if 0 < cnt2 then cnt2
       else if filling L h \<or> h_idx L h + cnt1 = h_max L h then 0 else h_idx L h + cnt1)"
  using hl by (auto simp: next_header_def Let_def header_fields)

section \<open>A journal and its slots\<close>

text \<open>\<open>journal_rep L h pre slots st\<close>: the cache is \<open>h\<close>, the file holds the header image \<open>pre\<close>
  (which may have fallen behind the cache) and the slots the cache counts.\<close>

definition journal_rep ::
    "journal_layout \<Rightarrow> u8 list \<Rightarrow> u8 list \<Rightarrow> u8 list list \<Rightarrow> journal_file \<Rightarrow> bool" where
  "journal_rep L h pre slots st \<longleftrightarrow>
     jheader st = h \<and> length h = unat (header_len L) \<and> length pre = unat (header_len L)
     \<and> jfile st = Some (pre @ concat slots)
     \<and> (\<forall>s\<in>set slots. length s = unat (rec_len L))
     \<and> h_max L h = max_num L \<and> unat (h_cur L h) = length slots \<and> h_cur L h \<le> max_num L
     \<and> h_idx L h < max_num L \<and> (h_cur L h < max_num L \<longrightarrow> h_idx L h = 0)"

lemma journal_rep_log_rep:
  assumes "layout_ok L" "journal_rep L h pre slots st"
  shows "log_rep (journal_view L h) (jfile st) slots"
proof -
  have "\<exists>p q. length p = unat (start_addr L) \<and> jfile st = Some (p @ concat slots @ q)"
    using assms by (intro exI [of _ pre] exI [of _ "[]"]) (simp add: journal_rep_def layout_ok_def)
  moreover have "0 < unat (rec_len L)" "max_num L \<noteq> 0"
    using assms(1) by (auto simp: layout_ok_def unat_gt_0)
  ultimately show ?thesis
    using assms(2) by (simp add: log_rep_def journal_view_def journal_rep_def)
qed

lemma journal_records_view:
  "journal_rep L h pre slots st \<Longrightarrow>
     log_records (journal_view L h) slots = rotate (unat (h_idx L h)) slots"
  by (auto simp: journal_rep_def log_records_def oldest_record_p_idx_def journal_view_def)

section \<open>Writes on a working medium\<close>

definition batch_of :: "journal_layout \<Rightarrow> u8 list list \<Rightarrow> bool" where
  "batch_of L rs \<longleftrightarrow>
     length rs \<le> unat (max_num L) \<and> (\<forall>r\<in>set rs. length r = unat (rec_len L))"

lemma Journal_Log_Write_append:
  assumes "layout_ok L" "batch_of L rs"
  shows "Journal_Log_Write L good_write FILE_APPEND_MODE rs (Some old)
    = (0, Some (old @ concat rs))"
proof -
  have l: "unat (of_nat (length rs) :: u16) = length rs"
    using assms unsigned_less [of "max_num L", where 'a = nat]
    by (auto simp: batch_of_def unat_of_nat)
  have "of_nat (length rs) \<noteq> (0 :: u16)" if "rs \<noteq> []"
    using that l by (metis length_0_conv unat_0)
  then show ?thesis
    using assms l length_concat_const [of rs "unat (rec_len L)"]
    by (auto simp: Journal_Log_Write_def Let_def batch_of_def layout_ok_def mult.commute)
qed

lemma append_mode_big: "unat FILE_APPEND_MODE = 0xFFFF"
  by (simp add: FILE_APPEND_MODE_def unsigned_minus_1_eq_mask mask_eq_exp_minus_1)

lemma Journal_Log_Write_at:
  assumes L: "layout_ok L" and rs: "batch_of L rs" and i: "unat i = length a"
    and pre: "length pre = unat (header_len L)"
    and len: "\<forall>s\<in>set a. length s = unat (rec_len L)" "\<forall>s\<in>set b. length s = unat (rec_len L)"
    and fit: "length a + length rs \<le> unat (max_num L)" "length b = length rs"
  shows "Journal_Log_Write L good_write i rs (Some (pre @ concat (a @ b @ c)))
    = (0, Some (pre @ concat (a @ rs @ c)))"
proof (cases "rs = []")
  case True
  then show ?thesis using fit by (simp add: Journal_Log_Write_def)
next
  case False
  have l: "unat (of_nat (length rs) :: u16) = length rs"
    using rs unsigned_less [of "max_num L", where 'a = nat]
    by (auto simp: batch_of_def unat_of_nat)
  have c0: "of_nat (length rs) \<noteq> (0 :: u16)"
    using False l by (metis length_0_conv unat_0)
  have la: "length (concat a) = unat i * unat (rec_len L)"
    using length_concat_const [OF len(1)] i by simp
  have lrs: "length (concat rs) = unat (rec_len L) * unat (of_nat (length rs) :: u16)"
    using rs length_concat_const [of rs "unat (rec_len L)"] l by (simp add: batch_of_def mult.commute)
  have lb: "length (concat b) = length (concat rs)"
    using length_concat_const [OF len(2)] fit lrs l by (simp add: mult.commute)
  have i_lt: "unat i < unat (max_num L)" "i \<noteq> FILE_APPEND_MODE"
  proof -
    show "unat i < unat (max_num L)" using fit i False by (cases rs) auto
    then show "i \<noteq> FILE_APPEND_MODE"
      using L append_mode_big by (auto simp: layout_ok_def word_less_nat_alt)
  qed
  have "unat i * unat (rec_len L) \<le> unat (max_num L) * unat (rec_len L)"
    using i_lt by (intro mult_le_mono1) simp
  moreover have "unat (start_addr L) + unat (max_num L) * unat (rec_len L) < 2 ^ 32"
    using L by (simp add: layout_ok_def)
  ultimately have off: "unat (start_addr L) + unat i * unat (rec_len L) < 2 ^ 32"
    by linarith
  have "file_put (unat (start_addr L) + unat i * unat (rec_len L)) (concat rs)
      ((pre @ concat a) @ concat b @ concat c) = (pre @ concat a) @ concat rs @ concat c"
    by (rule file_put_at) (use L pre la lb in \<open>simp_all add: layout_ok_def\<close>)
  then show ?thesis
    using fs_record_write_at [OF _ c0 lrs i_lt(2) off] L False
    by (simp add: Journal_Log_Write_def Let_def layout_ok_def unat_gt_0 word_less_nat_alt)
qed

text \<open>Writing the header replaces its image and nothing else.\<close>

lemma header_write:
  assumes "layout_ok L" "length h = unat (header_len L)" "length pre = unat (header_len L)"
  shows "fs_record_write good_write 0 0 (header_len L) 1 h (Some (pre @ body))
    = (0, Some (h @ body))"
proof -
  have "header_len L \<noteq> 0" using assms(1) by (auto simp: layout_ok_def)
  then show ?thesis
    using fs_record_write_at [of "header_len L" 1 h 0 0 "pre @ body"]
      file_put_at [of "[]" 0 pre h body] assms
    by (simp add: FILE_APPEND_MODE_def)
qed

section \<open>A store keeps the journal\<close>

lemma Journal_Log_Write_front:
  assumes L: "layout_ok L" and rs: "batch_of L rs"
    and pre: "length pre = unat (header_len L)"
    and slots: "\<forall>s\<in>set slots. length s = unat (rec_len L)" "length rs \<le> length slots"
  shows "Journal_Log_Write L good_write 0 rs (Some (pre @ concat slots))
    = (0, Some (pre @ concat (rs @ drop (length rs) slots)))"
proof -
  have "Journal_Log_Write L good_write 0 rs
      (Some (pre @ concat ([] @ take (length rs) slots @ drop (length rs) slots)))
    = (0, Some (pre @ concat ([] @ rs @ drop (length rs) slots)))"
    by (rule Journal_Log_Write_at [OF L rs _ pre])
       (use rs slots in \<open>auto simp: batch_of_def dest: in_set_takeD\<close>)
  then show ?thesis by (simp only: append_Nil append_take_drop_id)
qed

lemma write_halves_append:
  assumes L: "layout_ok L" and rs: "batch_of L rs"
    and pre: "length pre = unat (header_len L)"
    and slots: "\<forall>s\<in>set slots. length s = unat (rec_len L)"
    and c: "c \<le> length rs" "length rs - c \<le> length slots + c"
  shows "write_halves L good_write good_write FILE_APPEND_MODE c rs (Some (pre @ concat slots))
    = (True, Some (pre @ concat (drop c rs @ drop (length rs - c) (slots @ take c rs))))"
proof -
  have b1: "batch_of L (take c rs)" and b2: "batch_of L (drop c rs)"
    using rs by (auto simp: batch_of_def dest: in_set_takeD in_set_dropD)
  define all where "all = slots @ take c rs"
  have "\<forall>s\<in>set all. length s = unat (rec_len L)" "length (drop c rs) \<le> length all"
    using slots rs c by (auto simp: batch_of_def all_def dest: in_set_takeD)
  note Journal_Log_Write_front [OF L b2 pre this]
  moreover have "Journal_Log_Write L good_write FILE_APPEND_MODE (take c rs)
      (Some (pre @ concat slots)) = (0, Some (pre @ concat all))"
    using Journal_Log_Write_append [OF L b1] by (simp add: all_def)
  ultimately show ?thesis by (simp add: write_halves_def flip: all_def)
qed

lemma write_halves_over:
  assumes L: "layout_ok L" and rs: "batch_of L rs"
    and pre: "length pre = unat (header_len L)"
    and slots: "\<forall>s\<in>set slots. length s = unat (rec_len L)" "length slots = unat (max_num L)"
    and c: "c \<le> length rs" "unat i + c \<le> length slots"
  shows "write_halves L good_write good_write i c rs (Some (pre @ concat slots))
    = (True, Some (pre @ concat (drop c rs @ drop (length rs - c)
        (take (unat i) slots @ take c rs @ drop (unat i + c) slots))))"
proof -
  have b1: "batch_of L (take c rs)" and b2: "batch_of L (drop c rs)"
    using rs by (auto simp: batch_of_def dest: in_set_takeD in_set_dropD)
  define all where "all = take (unat i) slots @ take c rs @ drop (unat i + c) slots"
  have "slots = take (unat i) slots @ take c (drop (unat i) slots) @ drop (unat i + c) slots"
    by (metis append_take_drop_id drop_drop add.commute)
  then have "Journal_Log_Write L good_write i (take c rs) (Some (pre @ concat slots))
    = (0, Some (pre @ concat all))"
    unfolding all_def
    using Journal_Log_Write_at [OF L b1, of i "take (unat i) slots" pre
        "take c (drop (unat i) slots)" "drop (unat i + c) slots"] pre slots c
    by (auto dest: in_set_takeD in_set_dropD)
  moreover have "\<forall>s\<in>set all. length s = unat (rec_len L)" "length (drop c rs) \<le> length all"
    using slots rs c by (auto simp: batch_of_def all_def dest: in_set_takeD in_set_dropD)
  note Journal_Log_Write_front [OF L b2 pre this]
  ultimately show ?thesis by (simp add: write_halves_def flip: all_def)
qed

text \<open>The arithmetic of the two counts, in natural numbers.\<close>

lemma split_counts:
  assumes "n < 2 ^ 16"
  shows "unat (batch_cnt1 space (of_nat n)) = min (unat space) n"
    and "unat (of_nat n - batch_cnt1 space (of_nat n)) = n - min (unat space) n"
proof -
  have n: "unat (of_nat n :: u16) = n" using assms by (simp add: unat_of_nat)
  show c: "unat (batch_cnt1 space (of_nat n)) = min (unat space) n"
    using n by (auto simp: batch_cnt1_def word_less_nat_alt min_def)
  show "unat (of_nat n - batch_cnt1 space (of_nat n)) = n - min (unat space) n"
    using n c by (simp add: unat_sub word_le_nat_alt)
qed

text \<open>The slots and fields after a store, and the record list they stand for.\<close>

definition stored_slots :: "nat \<Rightarrow> nat \<Rightarrow> u8 list list \<Rightarrow> u8 list list \<Rightarrow> u8 list list" where
  "stored_slots N w slots rs =
     (let n = length rs in
      if length slots < N then
        let c = min (N - length slots) n in drop c rs @ drop (n - c) (slots @ take c rs)
      else
        let c = min (N - w) n
        in drop c rs @ drop (n - c) (take w slots @ take c rs @ drop (w + c) slots))"

definition stored_index :: "nat \<Rightarrow> nat \<Rightarrow> nat \<Rightarrow> nat \<Rightarrow> nat" where
  "stored_index N w cur n =
     (if cur < N then n - min (N - cur) n
      else if N - w < n then n - (N - w) else if w + n = N then 0 else w + n)"

lemma length_stored_slots:
  assumes "length slots \<le> N" "w < N" "length rs \<le> N"
  shows "length (stored_slots N w slots rs) = min N (length slots + length rs)"
  using assms by (auto simp: stored_slots_def Let_def min_def)

lemma set_stored_slots: "set (stored_slots N w slots rs) \<subseteq> set slots \<union> set rs"
  by (auto simp: stored_slots_def Let_def dest!: in_set_dropD in_set_takeD)

lemma stored_index_less:
  "cur \<le> N \<Longrightarrow> w < N \<Longrightarrow> n \<le> N \<Longrightarrow> stored_index N w cur n < N"
  by (auto simp: stored_index_def min_def)

lemma stored_records:
  assumes "length slots \<le> N" "w < N" "length rs \<le> N" "length slots < N \<longrightarrow> w = 0"
  shows "rotate (stored_index N w (length slots) (length rs)) (stored_slots N w slots rs)
    = last_records N (rotate w slots @ rs)"
proof -
  let ?n = "length rs" and ?m = "length slots"
  have len: "length (stored_slots N w slots rs) = min N (?m + ?n)"
    using assms by (simp add: length_stored_slots)
  have idx: "stored_index N w ?m ?n < N"
    using assms by (simp add: stored_index_less)
  consider (fill) "?m < N" "?n \<le> N - ?m" | (wrap) "?m < N" "N - ?m < ?n"
    | (over) "?m = N" "?n \<le> N - w" | (around) "?m = N" "N - w < ?n"
    using assms(1) by linarith
  then show ?thesis
  proof cases
    case fill
    then show ?thesis using assms
      by (simp add: stored_index_def stored_slots_def last_records_def)
  next
    case wrap
    then show ?thesis using assms len idx
      by (simp add: stored_index_def stored_slots_def last_records_def rotate_drop_take Let_def
          add.commute)
  next
    case over
    then show ?thesis using assms
      by (auto simp: stored_index_def stored_slots_def last_records_def rotate_drop_take Let_def
          add.commute)
  next
    case around
    then show ?thesis using assms len
      by (auto simp: stored_index_def stored_slots_def last_records_def rotate_drop_take Let_def)
  qed
qed

text \<open>The state after a successful store, with the outcome of the header write left open.\<close>

lemma Journal_Save_shape:
  assumes L: "layout_ok L" and rep: "journal_rep L h pre slots st" and rs: "batch_of L rs"
  defines "slots' \<equiv> stored_slots (unat (max_num L)) (unat (h_idx L h)) slots rs"
  shows "\<exists>h'. Journal_Save L good_write good_write io3 rs st
      = (True, \<lparr>jheader = h', jfile = snd (fs_record_write io3 0 0 (header_len L) 1 h'
                                        (Some (pre @ concat slots')))\<rparr>)
    \<and> length h' = unat (header_len L) \<and> h_max L h' = max_num L
    \<and> unat (h_cur L h') = length slots'
    \<and> unat (h_idx L h')
        = stored_index (unat (max_num L)) (unat (h_idx L h)) (length slots) (length rs)"
proof -
  define N where "N = unat (max_num L)"
  define w where "w = unat (h_idx L h)"
  define n where "n = length rs"
  have hl: "field_off L + 6 \<le> length h"
    using L rep by (simp add: layout_ok_def journal_rep_def)
  note hf = header_fields [OF hl]
  have N: "N < 2 ^ 16" "n \<le> N"
    using L rs unsigned_less [of "max_num L", where 'a = nat]
    by (auto simp: N_def n_def batch_of_def)
  have fields: "jheader st = h" "h_max L h = max_num L" "unat (h_cur L h) = length slots"
      "h_cur L h \<le> max_num L" "jfile st = Some (pre @ concat slots)" "w < N"
      "length slots \<le> N" "length slots < N \<longrightarrow> w = 0" "length pre = unat (header_len L)"
      "\<forall>s\<in>set slots. length s = unat (rec_len L)" "length h = unat (header_len L)"
    using rep by (auto simp: journal_rep_def N_def w_def word_less_nat_alt word_le_nat_alt)
  have len: "length slots' = min N (length slots + n)"
    using fields N by (simp add: slots'_def length_stored_slots N_def w_def n_def)
  have idx: "stored_index N w (length slots) n < N"
    using fields N by (intro stored_index_less) auto
  define c1 where "c1 = batch_cnt1 (batch_space L h) (of_nat n)"
  define c2 where "c2 = of_nat n - c1"
  have fill: "filling L h \<longleftrightarrow> length slots < N"
    using fields by (simp add: filling_def word_less_nat_alt N_def)
  have sp: "unat (batch_space L h) = (if length slots < N then N - length slots else N - w)"
    using fields fill
    by (auto simp: batch_space_def word_less_nat_alt unat_sub word_le_nat_alt N_def w_def)
  have n16: "n < 2 ^ 16" using N by linarith
  have c1: "unat c1 = min (if length slots < N then N - length slots else N - w) n"
    and c2: "unat c2 = n - unat c1"
    using split_counts [OF n16, of "batch_space L h"] by (simp_all add: sp c1_def c2_def)
  have c2_0: "0 < c2 \<longleftrightarrow> unat c1 < n"
    using c1 c2 by (simp add: word_less_nat_alt)
  have wh: "write_halves L good_write good_write
      (if filling L h then FILE_APPEND_MODE else h_idx L h) (unat c1) rs (jfile st)
    = (True, Some (pre @ concat slots'))"
  proof (cases "length slots < N")
    case True
    moreover from this have "unat c1 \<le> length rs" "length rs - unat c1 \<le> length slots + unat c1"
      using c1 N by (auto simp: n_def)
    ultimately show ?thesis
      using write_halves_append [OF L rs fields(9,10)] fields(5) c1
      by (simp add: fill slots'_def stored_slots_def Let_def flip: N_def w_def n_def)
  next
    case False
    moreover from this have "unat c1 \<le> length rs" "unat (h_idx L h) + unat c1 \<le> length slots"
        "length slots = unat (max_num L)"
      using c1 N fields by (auto simp: n_def simp flip: w_def N_def)
    ultimately show ?thesis
      using write_halves_over [OF L rs fields(9,10)] fields(5) c1
      by (simp add: fill slots'_def stored_slots_def Let_def flip: N_def w_def n_def)
  qed
  define h' where "h' = next_header L c1 c2 h"
  note nf = next_header_fields [OF hl, of c1 c2, folded h'_def]
  have "length h' = length h" "h_max L h' = max_num L"
    using nf fields(2) by simp_all
  moreover have "unat (h_cur L h') = length slots'"
  proof (cases "length slots < N")
    case True
    then have "unat (h_cur L h + c1) = length slots + n" if "unat c1 = n"
      using that fields N c1 by (subst unat_add_lem [THEN iffD1]) auto
    then show ?thesis
      using True nf(3) len c1 c2_0 fields(2) by (auto simp: fill N_def min_def split: if_splits)
  next
    case False
    then show ?thesis using nf(3) len fields by (simp add: fill)
  qed
  moreover have "unat (h_idx L h') = stored_index N w (length slots) n"
  proof -
    have "unat (h_idx L h + c1) = w + n" if "unat c1 = n" "\<not> length slots < N"
      using that fields N c1 unsigned_less [of "max_num L", where 'a = nat]
      by (subst unat_add_lem [THEN iffD1]) (auto simp: w_def N_def)
    moreover have "h_idx L h + c1 = max_num L \<longleftrightarrow> unat (h_idx L h + c1) = N"
      by (simp add: word_unat_eq_iff N_def)
    ultimately show ?thesis
      using nf(4) c1 c2 c2_0 fields(2)
      by (auto simp: fill stored_index_def min_def split: if_splits)
  qed
  moreover have "Journal_Save L good_write good_write io3 rs st
      = (True, \<lparr>jheader = h', jfile = snd (fs_record_write io3 0 0 (header_len L) 1 h'
                                        (Some (pre @ concat slots')))\<rparr>)"
    using wh by (simp add: Journal_Save_def fields(1) h'_def case_prod_beta Let_def
        flip: n_def c1_def c2_def)
  ultimately show ?thesis
    using fields(11) by (auto simp flip: N_def w_def n_def)
qed

lemma stored_slots_rep:
  assumes "layout_ok L" "journal_rep L h pre slots st" "batch_of L rs"
  defines "slots' \<equiv> stored_slots (unat (max_num L)) (unat (h_idx L h)) slots rs"
  shows "length slots' \<le> unat (max_num L)" "\<forall>s\<in>set slots'. length s = unat (rec_len L)"
  using assms set_stored_slots [of "unat (max_num L)" "unat (h_idx L h)" slots rs]
  by (auto simp: slots'_def journal_rep_def batch_of_def word_less_nat_alt word_le_nat_alt
      length_stored_slots)

lemma stored_index_filling:
  "cur < N \<Longrightarrow> cur + n < N \<Longrightarrow> stored_index N w cur n = 0"
  by (simp add: stored_index_def)

text \<open>On a working medium a store keeps the representation, brings the header in the file up to
  date, and the log holds the last \<open>max_num\<close> of the old records and the batch.\<close>

lemma Journal_Save_rep:
  assumes L: "layout_ok L" and rep: "journal_rep L h pre slots st" and rs: "batch_of L rs"
  shows "\<exists>h' slots' st'. Journal_Save L good_write good_write good_write rs st = (True, st')
    \<and> journal_rep L h' h' slots' st'
    \<and> rotate (unat (h_idx L h')) slots'
        = last_records (unat (max_num L)) (rotate (unat (h_idx L h)) slots @ rs)"
proof -
  define slots' where "slots' = stored_slots (unat (max_num L)) (unat (h_idx L h)) slots rs"
  obtain h' where h': "Journal_Save L good_write good_write good_write rs st
      = (True, \<lparr>jheader = h', jfile = snd (fs_record_write good_write 0 0 (header_len L) 1 h'
                                        (Some (pre @ concat slots')))\<rparr>)"
    "length h' = unat (header_len L)" "h_max L h' = max_num L" "unat (h_cur L h') = length slots'"
    "unat (h_idx L h')
        = stored_index (unat (max_num L)) (unat (h_idx L h)) (length slots) (length rs)"
    using Journal_Save_shape [OF L rep rs, of good_write] by (auto simp: slots'_def)
  have r: "length pre = unat (header_len L)" "length slots \<le> unat (max_num L)"
      "unat (h_idx L h) < unat (max_num L)" "length rs \<le> unat (max_num L)"
      "length slots < unat (max_num L) \<longrightarrow> unat (h_idx L h) = 0"
    using rep rs by (auto simp: journal_rep_def batch_of_def word_less_nat_alt word_le_nat_alt)
  have less: "unat (h_idx L h') < unat (max_num L)"
    using stored_index_less r h'(5) by simp
  have zero: "unat (h_idx L h') = 0" if "length slots' < unat (max_num L)"
    using that r h'(5) by (auto simp: slots'_def length_stored_slots stored_index_filling)
  have "journal_rep L h' h' slots' \<lparr>jheader = h', jfile = Some (h' @ concat slots')\<rparr>"
    using h' less zero stored_slots_rep [OF L rep rs, folded slots'_def]
    by (auto simp: journal_rep_def word_less_nat_alt word_le_nat_alt unat_eq_0)
  moreover have "rotate (unat (h_idx L h')) slots'
      = last_records (unat (max_num L)) (rotate (unat (h_idx L h)) slots @ rs)"
    using stored_records [of slots "unat (max_num L)" "unat (h_idx L h)" rs] r h'(5)
    by (simp add: slots'_def)
  ultimately show ?thesis
    using h'(1) header_write [OF L h'(2) r(1)] by auto
qed

text \<open>When only the header cannot be written (the file does not open), the cache is right and the
  file keeps the old header: the next store repairs it, a restart before that does not.\<close>

definition unopened :: write_io where
  "unopened = good_write\<lparr>first_open := False, create_open := False\<rparr>"

lemma Journal_Save_stale:
  assumes L: "layout_ok L" and rep: "journal_rep L h pre slots st" and rs: "batch_of L rs"
    and fill: "length slots + length rs < unat (max_num L)"
  shows "\<exists>h'. Journal_Save L good_write good_write unopened rs st
      = (True, \<lparr>jheader = h', jfile = Some (pre @ concat (slots @ rs))\<rparr>)"
proof -
  have "stored_slots (unat (max_num L)) (unat (h_idx L h)) slots rs = slots @ rs"
    using fill by (simp add: stored_slots_def Let_def)
  moreover have "fs_record_write unopened 0 0 (header_len L) 1 x (Some f) = (- 1, Some f)" for x f
    using L by (auto simp: fs_record_write_def unopened_def layout_ok_def FILE_APPEND_MODE_def)
  ultimately show ?thesis
    using Journal_Save_shape [OF L rep rs, of unopened] by (auto simp: unopened_def)
qed

section \<open>Restart\<close>

lemma header_valid_rep:
  assumes "file_ver L = None" "h_max L pre = max_num L" shows "header_valid L pre"
  using assms by (simp add: header_valid_def)

lemma Journal_Init_valid:
  assumes "layout_ok L" "length pre = unat (header_len L)" "jfile st = Some (pre @ body)"
    and "header_valid L pre" "length (jheader st) = unat (header_len L)"
  shows "Journal_Init L ro good_read wio st = (0, \<lparr>jheader = pre, jfile = jfile st\<rparr>)"
proof -
  have "0 < unat (header_len L)" using assms(1) by (simp add: layout_ok_def)
  then have "fs_file_read_at good_read 0 (unat (header_len L)) (jfile st)
      = (int (unat (header_len L)), pre)"
    using fs_file_read_at_good [of "[]" 0 pre "unat (header_len L)" body] assms by simp
  then show ?thesis using assms by (simp add: Journal_Init_def Let_def)
qed

text \<open>A first start: no file yet.\<close>

lemma fresh_header_fields:
  assumes "layout_ok L" "length h = unat (header_len L)"
  shows "length (fresh_header L h) = unat (header_len L)" "h_max L (fresh_header L h) = max_num L"
    "h_cur L (fresh_header L h) = 0" "h_idx L (fresh_header L h) = 0"
  using assms
  by (auto simp: fresh_header_def layout_ok_def header_fields split: option.splits)

lemma Journal_Init_first:
  assumes L: "layout_ok L" and "length (jheader st) = unat (header_len L)" "jfile st = None"
  shows "\<exists>h st'. Journal_Init L ro good_read good_write st = (0, st') \<and> journal_rep L h h [] st'"
proof -
  have hl: "header_len L \<noteq> 0" "0 < unat (header_len L)" using L by (auto simp: layout_ok_def)
  let ?h = "fresh_header L (jheader st)"
  note fh = fresh_header_fields [OF L assms(2)]
  have "Journal_Init L ro good_read good_write st = (0, \<lparr>jheader = ?h, jfile = Some ?h\<rparr>)"
  proof -
    have w: "fs_record_write good_write 0 0 (header_len L) 1 ?h None = (0, Some ?h)"
      using fs_record_write_create [of "header_len L" 1 ?h 0 0] hl fh(1)
      by (simp add: FILE_APPEND_MODE_def file_put_def)
    have "- 1 \<noteq> uint (header_len L)"
      using uint_ge_0 [of "header_len L"] by linarith
    then show ?thesis
      using w assms(3)
      by (simp add: Journal_Init_def fs_file_read_at_def fs_file_exists_def Let_def
          split: option.splits)
  qed
  moreover have "journal_rep L ?h ?h [] \<lparr>jheader = ?h, jfile = Some ?h\<rparr>"
    using fh L by (auto simp: journal_rep_def layout_ok_def)
  ultimately show ?thesis by blast
qed

section \<open>Every journal is a circular log\<close>

text \<open>The abstraction functions, computed from the state: the slots cut out of the file, the header
  image at its front.\<close>

definition chunks :: "nat \<Rightarrow> nat \<Rightarrow> u8 list \<Rightarrow> u8 list list" where
  "chunks n c bs = map (\<lambda>p. take n (drop (p * n) bs)) [0..<c]"

definition file_bytes :: "flash_file \<Rightarrow> u8 list" where
  "file_bytes f = (case f of None \<Rightarrow> [] | Some bs \<Rightarrow> bs)"

definition journal_slots :: "journal_layout \<Rightarrow> journal_file \<Rightarrow> u8 list list" where
  "journal_slots L st =
     chunks (unat (rec_len L)) (unat (h_cur L (jheader st)))
       (drop (unat (header_len L)) (file_bytes (jfile st)))"

definition journal_records :: "journal_layout \<Rightarrow> journal_file \<Rightarrow> u8 list list" where
  "journal_records L st =
     log_records (journal_view L (jheader st)) (journal_slots L st)"

definition journal_ok :: "journal_layout \<Rightarrow> journal_file \<Rightarrow> bool" where
  "journal_ok L st \<longleftrightarrow> (\<exists>pre slots. journal_rep L (jheader st) pre slots st)"

definition journal_store :: "journal_layout \<Rightarrow> u8 list list \<Rightarrow> journal_file \<Rightarrow> journal_file" where
  "journal_store L b st = snd (Journal_Save L good_write good_write good_write b st)"

lemma chunks_concat:
  assumes "\<forall>s\<in>set ss. length s = n" shows "chunks n (length ss) (concat ss) = ss"
proof (rule nth_equalityI)
  fix i assume i: "i < length (chunks n (length ss) (concat ss))"
  then have "take (1 * n) (drop (i * n) (concat ss @ [])) = concat (take 1 (drop i ss))"
    using take_drop_concat [OF assms, of i 1 "[]"] by (simp add: chunks_def)
  moreover have "take (Suc 0) (drop i ss) = [ss ! i]"
    using i by (simp add: chunks_def take_Suc hd_drop_conv_nth)
  ultimately show "chunks n (length ss) (concat ss) ! i = ss ! i"
    using i by (simp add: chunks_def)
qed (simp add: chunks_def)

lemma journal_slots_rep: "journal_rep L h pre slots st \<Longrightarrow> journal_slots L st = slots"
  using chunks_concat [of slots "unat (rec_len L)"]
  by (simp add: journal_slots_def journal_rep_def file_bytes_def)

lemma journal_records_rep:
  "journal_rep L h pre slots st \<Longrightarrow> journal_records L st = rotate (unat (h_idx L h)) slots"
  using journal_slots_rep [of L h pre slots st] journal_records_view [of L h pre slots st]
  by (simp add: journal_records_def) (simp add: journal_rep_def)

lemma journal_store_rep:
  assumes "layout_ok L" "journal_ok L st" "batch_of L b"
  shows "journal_ok L (journal_store L b st)"
    and "journal_records L (journal_store L b st)
      = last_records (unat (max_num L)) (journal_records L st @ b)"
proof -
  obtain pre slots where rep: "journal_rep L (jheader st) pre slots st"
    using assms(2) by (auto simp: journal_ok_def)
  obtain h' slots' st' where s: "Journal_Save L good_write good_write good_write b st = (True, st')"
      "journal_rep L h' h' slots' st'"
      "rotate (unat (h_idx L h')) slots'
        = last_records (unat (max_num L)) (rotate (unat (h_idx L (jheader st))) slots @ b)"
    using Journal_Save_rep [OF assms(1) rep assms(3)] by blast
  then have "jheader st' = h'" by (simp add: journal_rep_def)
  then show "journal_ok L (journal_store L b st)"
    using s by (auto simp: journal_ok_def journal_store_def)
  show "journal_records L (journal_store L b st)
      = last_records (unat (max_num L)) (journal_records L st @ b)"
    using s journal_records_rep [OF rep] journal_records_rep [OF s(2)]
    by (simp add: journal_store_def)
qed

locale journal =
  fixes L :: journal_layout
  assumes layout: "layout_ok L"
begin

lemma ok_file:
  assumes "journal_ok L st"
  obtains pre body where "jfile st = Some (pre @ body)" "length pre = unat (header_len L)"
  using assms by (auto simp: journal_ok_def journal_rep_def)

end

sublocale journal \<subseteq> circular_log "\<lambda>st. journal_view L (jheader st)" jfile "journal_slots L"
    "\<lambda>st. take (unat (header_len L)) (file_bytes (jfile st))" "journal_ok L" "unat (max_num L)"
    "journal_store L" "batch_of L"
proof unfold_locales
  fix st assume ok: "journal_ok L st"
  then obtain pre slots where rep: "journal_rep L (jheader st) pre slots st"
    by (auto simp: journal_ok_def)
  show "log_rep (journal_view L (jheader st)) (jfile st) (journal_slots L st)"
    using journal_rep_log_rep [OF layout rep] journal_slots_rep [OF rep] by simp
  show "length (take (unat (header_len L)) (file_bytes (jfile st)))
      = log_start (journal_view L (jheader st))
    \<and> (\<exists>post. jfile st = Some (take (unat (header_len L)) (file_bytes (jfile st)) @ post))"
    using rep layout by (simp add: journal_rep_def file_bytes_def journal_view_def layout_ok_def)
next
  fix st b assume *: "journal_ok L st" "batch_of L b"
  show "journal_ok L (journal_store L b st)"
    by (rule journal_store_rep [OF layout *])
  show "log_records (journal_view L (jheader (journal_store L b st)))
        (journal_slots L (journal_store L b st))
      = last_records (unat (max_num L))
          (log_records (journal_view L (jheader st)) (journal_slots L st) @ b)"
    using journal_store_rep(2) [OF layout *] by (simp add: journal_records_def)
qed

section \<open>A header that has fallen behind\<close>

text \<open>Appending looks only at the cached header, whatever the file holds behind the header image.\<close>

lemma Journal_Save_append_raw:
  assumes L: "layout_ok L" and rs: "batch_of L rs"
    and h: "jheader st = h" "length h = unat (header_len L)" "h_max L h = max_num L"
      "unat (h_cur L h) + length rs < unat (max_num L)"
    and f: "jfile st = Some (pre @ body)" "length pre = unat (header_len L)"
  shows "\<exists>h'. Journal_Save L good_write good_write good_write rs st
      = (True, \<lparr>jheader = h', jfile = Some (h' @ body @ concat rs)\<rparr>)
    \<and> length h' = unat (header_len L) \<and> h_max L h' = max_num L
    \<and> unat (h_cur L h') = unat (h_cur L h) + length rs \<and> h_idx L h' = 0"
proof -
  let ?n = "length rs"
  have hl: "field_off L + 6 \<le> length h" using L h by (simp add: layout_ok_def)
  have n16: "?n < 2 ^ 16" using h(4) unsigned_less [of "max_num L", where 'a = nat] by simp
  have fill: "filling L h" using h by (simp add: filling_def word_less_nat_alt)
  define c1 where "c1 = batch_cnt1 (batch_space L h) (of_nat ?n)"
  have sp: "unat (batch_space L h) = unat (max_num L) - unat (h_cur L h)"
    using fill h by (simp add: batch_space_def unat_sub word_le_nat_alt)
  have c1: "unat c1 = ?n" and c2: "of_nat ?n - c1 = 0"
    using split_counts [OF n16, of "batch_space L h"] h(4)
    by (auto simp: sp c1_def min_def unat_eq_0 split: if_splits)
  define h' where "h' = next_header L c1 0 h"
  note nf = next_header_fields [OF hl, of c1 0, folded h'_def]
  have wh: "write_halves L good_write good_write FILE_APPEND_MODE (unat c1) rs (jfile st)
      = (True, Some (pre @ body @ concat rs))"
    using Journal_Log_Write_append [OF L rs, of "pre @ body"] f(1) c1
    by (simp add: write_halves_def) (simp add: Journal_Log_Write_def)
  have cur: "unat (h_cur L h + c1) = unat (h_cur L h) + ?n"
    using h(4) c1 unsigned_less [of "max_num L", where 'a = nat]
    by (subst unat_add_lem [THEN iffD1]) auto
  have hw: "fs_record_write good_write 0 0 (header_len L) 1 h' (Some (pre @ body @ concat rs))
      = (0, Some (h' @ body @ concat rs))"
    by (rule header_write [OF L _ f(2)]) (use nf h in simp)
  have "Journal_Save L good_write good_write good_write rs st
      = (True, \<lparr>jheader = h', jfile = Some (h' @ body @ concat rs)\<rparr>)"
    unfolding Journal_Save_def h(1) Let_def c1_def [symmetric] c2 h'_def [symmetric]
    using wh hw fill by simp
  then show ?thesis using nf h cur fill by simp
qed

lemma Journal_Save_append_any:
  assumes L: "layout_ok L" and rs: "batch_of L rs"
    and h: "jheader st = h" "length h = unat (header_len L)" "h_max L h = max_num L"
      "unat (h_cur L h) + length rs < unat (max_num L)"
    and f: "jfile st = Some (pre @ concat ss)" "length pre = unat (header_len L)"
  shows "\<exists>h'. Journal_Save L good_write good_write good_write rs st
      = (True, \<lparr>jheader = h', jfile = Some (h' @ concat (ss @ rs))\<rparr>)
    \<and> length h' = unat (header_len L) \<and> h_max L h' = max_num L
    \<and> unat (h_cur L h') = unat (h_cur L h) + length rs \<and> h_idx L h' = 0"
  using Journal_Save_append_raw [OF L rs h f] by simp

lemma chunks_take:
  assumes "\<forall>s\<in>set ss. length s = n" "c \<le> length ss"
  shows "chunks n c (concat ss @ post) = take c ss"
proof (rule nth_equalityI)
  show "length (chunks n c (concat ss @ post)) = length (take c ss)"
    using assms(2) by (simp add: chunks_def)
next
  fix i assume "i < length (chunks n c (concat ss @ post))"
  then have i: "i < c" by (simp add: chunks_def)
  then have "take (1 * n) (drop (i * n) (concat ss @ post)) = concat (take 1 (drop i ss))"
    using assms by (intro take_drop_concat) auto
  moreover have "take (Suc 0) (drop i ss) = [ss ! i]"
    using i assms(2) by (simp add: take_Suc hd_drop_conv_nth)
  ultimately show "chunks n c (concat ss @ post) ! i = take c ss ! i"
    using i by (simp add: chunks_def)
qed

lemma journal_records_raw:
  assumes "jfile st = Some (pre @ body)" "length pre = unat (header_len L)"
    and "h_cur L (jheader st) < h_max L (jheader st)"
  shows "journal_records L st = chunks (unat (rec_len L)) (unat (h_cur L (jheader st))) body"
  using assms
  by (simp add: journal_records_def journal_slots_def log_records_def oldest_record_p_idx_def
      journal_view_def file_bytes_def)

lemma journal_records_filling:
  assumes "jfile st = Some (pre @ concat ss)" "length pre = unat (header_len L)"
    and "\<forall>s\<in>set ss. length s = unat (rec_len L)" "unat (h_cur L (jheader st)) \<le> length ss"
    and "h_cur L (jheader st) < h_max L (jheader st)"
  shows "journal_records L st = take (unat (h_cur L (jheader st))) ss"
  using chunks_take [OF assms(3,4), of "[]"] journal_records_raw [OF assms(1,2,5)] by simp

text \<open>Power fails between the records of one store and its header: after the restart the log shows
  the old records only, and what later stores append lands behind the records nobody counts.  The
  newest records stay out of sight, as many as the interrupted store had written.\<close>

lemma Journal_Save_behind:
  fixes ro :: "bool option" and wio :: write_io
  assumes L: "layout_ok L" "header_valid L h" and rep: "journal_rep L h h slots st"
    and xs: "batch_of L xs" and ys: "batch_of L ys"
    and fill: "length slots + length xs < unat (max_num L)"
      "length slots + length ys < unat (max_num L)"
    and cache: "length c = unat (header_len L)"
  defines "st1 \<equiv> snd (Journal_Save L good_write good_write unopened xs st)"
  defines "st2 \<equiv> snd (Journal_Init L ro good_read wio (st1\<lparr>jheader := c\<rparr>))"
  shows "journal_records L st2 = slots"
    and "journal_records L (journal_store L ys st2)
      = take (length slots + length ys) (slots @ xs @ ys)"
proof -
  have r: "length h = unat (header_len L)" "h_max L h = max_num L"
      "unat (h_cur L h) = length slots" "\<forall>s\<in>set (slots @ xs). length s = unat (rec_len L)"
    using rep xs by (auto simp: journal_rep_def batch_of_def)
  obtain h1 where "st1 = \<lparr>jheader = h1, jfile = Some (h @ concat (slots @ xs))\<rparr>"
    using Journal_Save_stale [OF L(1) rep xs fill(1)] by (auto simp: st1_def)
  then have st2: "st2 = \<lparr>jheader = h, jfile = Some (h @ concat (slots @ xs))\<rparr>"
    using Journal_Init_valid [OF L(1) r(1) _ L(2), of "st1\<lparr>jheader := c\<rparr>"] cache
    by (simp add: st2_def)
  have lt: "h_cur L h < h_max L h"
    using r fill by (simp add: word_less_nat_alt)
  show "journal_records L st2 = slots"
    using journal_records_filling [of st2 h "slots @ xs" L] r lt by (simp add: st2)
  obtain h3 where h3: "Journal_Save L good_write good_write good_write ys st2
      = (True, \<lparr>jheader = h3, jfile = Some (h3 @ concat ((slots @ xs) @ ys))\<rparr>)"
      "length h3 = unat (header_len L)" "h_max L h3 = max_num L"
      "unat (h_cur L h3) = unat (h_cur L h) + length ys"
    using Journal_Save_append_any [OF L(1) ys, of st2 h h "slots @ xs"] r fill by (auto simp: st2)
  have "\<forall>s\<in>set ((slots @ xs) @ ys). length s = unat (rec_len L)"
    using r ys by (auto simp: batch_of_def)
  then show "journal_records L (journal_store L ys st2)
      = take (length slots + length ys) (slots @ xs @ ys)"
    using journal_records_filling [of "journal_store L ys st2" h3 "(slots @ xs) @ ys" L] h3 r fill
    by (simp add: journal_store_def word_less_nat_alt)
qed

text \<open>The same blind spot without a power failure: a header with other constants is replaced, the
  records behind it stay.\<close>

lemma Journal_Init_keeps_old_bytes:
  assumes L: "layout_ok L" and f: "jfile st = Some (pre @ concat ss)"
      "length pre = unat (header_len L)" "\<not> header_valid L pre"
      "\<forall>s\<in>set ss. length s = unat (rec_len L)"
    and ys: "batch_of L ys" "length ys < unat (max_num L)"
    and cache: "length (jheader st) = unat (header_len L)"
  defines "st1 \<equiv> snd (Journal_Init L None good_read good_write st)"
  shows "journal_records L (journal_store L ys st1) = take (length ys) (ss @ ys)"
proof -
  have hl: "0 < unat (header_len L)" using L by (simp add: layout_ok_def)
  have rd: "fs_file_read_at good_read 0 (unat (header_len L)) (jfile st)
      = (int (unat (header_len L)), pre)"
    using fs_file_read_at_good [of "[]" 0 pre "unat (header_len L)" "concat ss"] f hl by simp
  define h where "h = fresh_header L pre"
  note fh = fresh_header_fields [OF L f(2), folded h_def]
  have "st1 = \<lparr>jheader = h, jfile = Some (h @ concat ss)\<rparr>"
    using rd f cache header_write [OF L fh(1) f(2), of "concat ss"]
    by (simp add: st1_def Journal_Init_def Let_def h_def)
  then obtain h3 where h3: "Journal_Save L good_write good_write good_write ys st1
      = (True, \<lparr>jheader = h3, jfile = Some (h3 @ concat (ss @ ys))\<rparr>)"
      "length h3 = unat (header_len L)" "h_max L h3 = max_num L" "unat (h_cur L h3) = length ys"
    using Journal_Save_append_any [OF L ys(1), of st1 h h ss] fh f ys by auto
  moreover have "\<forall>s\<in>set (ss @ ys). length s = unat (rec_len L)"
    using f ys by (auto simp: batch_of_def)
  ultimately show ?thesis
    using journal_records_filling [of "journal_store L ys st1" h3 "ss @ ys" L] ys(2)
    by (simp add: journal_store_def word_less_nat_alt)
qed

section \<open>One failing open erases the journal\<close>

text \<open>When \<open>"rb+"\<close> fails for the header write, the fallback \<open>"wb"\<close> truncates the file: the store
  reports success, the header counts records that no longer exist, and every later query finds
  nothing.\<close>

definition no_update_open :: write_io where
  "no_update_open = good_write\<lparr>first_open := False\<rparr>"

lemma Journal_Save_truncates:
  assumes L: "layout_ok L" and rep: "journal_rep L h pre slots st" and rs: "batch_of L rs"
  shows "\<exists>h'. Journal_Save L good_write good_write no_update_open rs st
      = (True, \<lparr>jheader = h', jfile = Some h'\<rparr>)
    \<and> length h' = unat (header_len L) \<and> h_max L h' = max_num L
    \<and> unat (h_cur L h') = min (unat (max_num L)) (length slots + length rs)"
proof -
  have hl: "header_len L \<noteq> 0" using L by (auto simp: layout_ok_def)
  have "length slots \<le> unat (max_num L)" "unat (h_idx L h) < unat (max_num L)"
      "length rs \<le> unat (max_num L)"
    using rep rs by (auto simp: journal_rep_def batch_of_def word_less_nat_alt word_le_nat_alt)
  then show ?thesis
    using Journal_Save_shape [OF L rep rs, of no_update_open] hl
      fs_record_write_truncates [of "header_len L" 1 _ 0 0]
    by (auto simp: no_update_open_def FILE_APPEND_MODE_def file_put_def length_stored_slots)
qed

lemma count_after_truncation:
  assumes "jfile st = Some h" "length h \<le> unat (start_addr L)" "0 < unat (rec_len L)" "since \<noteq> 0"
  shows "Log_Count_New_Records rio (journal_view L h') (jfile st) since = 0"
proof -
  have "read_record rio (journal_view L h') (Some h) p = None" for p
  proof -
    let ?off = "unat (start_addr L) + p * unat (rec_len L)" and ?n = "unat (rec_len L)"
    obtain r bs where rd: "fs_file_read_at (rio ?off) ?off ?n (Some h) = (r, bs)"
      by (cases "fs_file_read_at (rio ?off) ?off ?n (Some h)")
    have "r \<noteq> int ?n"
    proof
      assume "r = int ?n"
      then have "length (take ?n (drop ?off h)) = ?n"
        using fs_file_read_at_full [of "rio ?off" ?off ?n "Some h" bs] rd assms(3) by auto
      then show False using assms(2,3) by simp
    qed
    then show ?thesis
      using rd by (simp add: read_record_def Let_def record_offset_def journal_view_def)
  qed
  then show ?thesis using assms(1,4) by (simp add: Log_Count_New_Records_def)
qed

section \<open>A torn append\<close>

text \<open>When an append stores only the first \<open>k\<close> bytes and fails, they stay at the end of the file; a
  repetition of the batch lands behind them, and the slots no longer match the records.\<close>

definition torn_append :: "nat \<Rightarrow> write_io" where
  "torn_append missing = good_write\<lparr>lost := missing, counted := False\<rparr>"

lemma chunks_append:
  assumes "\<forall>s\<in>set ss. length s = n"
  shows "chunks n (length ss + c) (concat ss @ post) = ss @ chunks n c post"
proof -
  have "take n (drop ((length ss + i) * n) (concat ss @ post)) = take n (drop (i * n) post)" for i
    using length_concat_const [OF assms] by (simp add: add_mult_distrib)
  moreover have "map (\<lambda>p. take n (drop (p * n) (concat ss @ post))) [0..<length ss] = ss"
    using chunks_take [OF assms, of "length ss" post] by (simp add: chunks_def)
  moreover have "[0..<length ss + c] = [0..<length ss] @ map (\<lambda>i. i + length ss) [0..<c]"
    using upt_add_eq_append [of 0 "length ss" c] by (simp add: map_add_upt add.commute)
  ultimately show ?thesis
    by (simp add: chunks_def comp_def add.commute)
qed

lemma Journal_Log_Write_torn:
  assumes L: "layout_ok L" and rs: "batch_of L rs" "rs \<noteq> []"
  shows "Journal_Log_Write L (torn_append (length (concat rs) - k)) FILE_APPEND_MODE rs (Some old)
    = (- 1, Some (old @ take k (concat rs)))"
proof -
  have l: "unat (of_nat (length rs) :: u16) = length rs"
    using rs unsigned_less [of "max_num L", where 'a = nat]
    by (auto simp: batch_of_def unat_of_nat)
  have c: "of_nat (length rs) \<noteq> (0 :: u16)" "rec_len L \<noteq> 0"
    using rs l L by (auto simp: layout_ok_def)
  have n: "unat (rec_len L) * length rs = length (concat rs)"
    using rs length_concat_const [of rs "unat (rec_len L)"] by (simp add: batch_of_def mult.commute)
  have "take (length (concat rs) - (length (concat rs) - k)) (concat rs) = take k (concat rs)"
    by (cases "k \<le> length (concat rs)") simp_all
  then show ?thesis
    using rs(2) c
    by (simp add: Journal_Log_Write_def fs_record_write_def torn_append_def io_result_def Let_def l n)
qed

lemma Journal_Save_torn:
  assumes L: "layout_ok L" and rep: "journal_rep L h pre slots st" and rs: "batch_of L rs" "rs \<noteq> []"
    and room: "length slots + length rs < unat (max_num L)"
  shows "Journal_Save L (torn_append (length (concat rs) - k)) io2 io3 rs st
    = (False, st\<lparr>jfile := Some (pre @ concat slots @ take k (concat rs))\<rparr>)"
proof -
  have h: "jheader st = h" "h_max L h = max_num L" "unat (h_cur L h) = length slots"
      "jfile st = Some (pre @ concat slots)"
    using rep by (auto simp: journal_rep_def)
  have fill: "filling L h" using h room by (simp add: filling_def word_less_nat_alt)
  have n16: "length rs < 2 ^ 16"
    using room unsigned_less [of "max_num L", where 'a = nat] by simp
  have "unat (batch_space L h) = unat (max_num L) - length slots"
    using fill h room by (simp add: batch_space_def unat_sub word_le_nat_alt)
  then have c1: "unat (batch_cnt1 (batch_space L h) (of_nat (length rs))) = length rs"
    using split_counts(1) [OF n16, of "batch_space L h"] room by simp
  show ?thesis
    using Journal_Log_Write_torn [OF L rs, of k "pre @ concat slots"] fill h(1,4)
    by (simp add: Journal_Save_def Let_def c1 write_halves_def)
qed

text \<open>The whole accident: a torn append and its repetition.\<close>

lemma Journal_Save_retry_shifted:
  fixes io2 io3 :: write_io and k :: nat
  assumes L: "layout_ok L" and rep: "journal_rep L h pre slots st" and rs: "batch_of L rs" "rs \<noteq> []"
    and room: "length slots + length rs < unat (max_num L)"
  defines "st1 \<equiv> snd (Journal_Save L (torn_append (length (concat rs) - k)) io2 io3 rs st)"
  shows "fst (Journal_Save L good_write good_write good_write rs st1)"
    and "journal_records L (journal_store L rs st1)
      = slots @ chunks (unat (rec_len L)) (length rs) (take k (concat rs) @ concat rs)"
proof -
  have r: "jheader st = h" "length h = unat (header_len L)" "h_max L h = max_num L"
      "unat (h_cur L h) = length slots" "length pre = unat (header_len L)"
      "\<forall>s\<in>set slots. length s = unat (rec_len L)"
    using rep by (auto simp: journal_rep_def)
  have st1: "jheader st1 = h" "jfile st1 = Some (pre @ concat slots @ take k (concat rs))"
    using Journal_Save_torn [OF L rep rs room] r by (simp_all add: st1_def)
  obtain h' where h': "Journal_Save L good_write good_write good_write rs st1
      = (True, \<lparr>jheader = h', jfile = Some (h' @ (concat slots @ take k (concat rs)) @ concat rs)\<rparr>)"
    "length h' = unat (header_len L)" "h_max L h' = max_num L"
    "unat (h_cur L h') = length slots + length rs"
    using Journal_Save_append_raw [OF L rs(1) st1(1) r(2,3) _ st1(2) r(5)] r room by auto
  show "fst (Journal_Save L good_write good_write good_write rs st1)" using h'(1) by simp
  have "journal_records L (journal_store L rs st1)
      = chunks (unat (rec_len L)) (length slots + length rs)
          (concat slots @ take k (concat rs) @ concat rs)"
    using journal_records_raw [of "journal_store L rs st1" h'
        "concat slots @ take k (concat rs) @ concat rs" L] h' room
    by (simp add: journal_store_def word_less_nat_alt)
  then show "journal_records L (journal_store L rs st1)
      = slots @ chunks (unat (rec_len L)) (length rs) (take k (concat rs) @ concat rs)"
    using chunks_append [OF r(6)] by simp
qed

end
