(* ===== verification/Reg_Log.thy ===== *)
theory Reg_Log
  imports Record_Journal
begin

text \<open>
  The register change log, \<open>reg_log/reg_change_log.c\<close>: a Modbus or CAN write is turned into one
  record per changed register, the records wait in a queue, and the save task moves up to 32 of
  them at a time into a journal of 500.  A record of the model is the C structure, \<open>reg_bytes\<close> its
  packed image.  The allocator, the queue and the clock answer each iteration of the generating
  loops on their own (\<open>gen_env\<close>); the module is initialised, so its semaphores and queue exist.
\<close>

section \<open>Records\<close>

record reg_param_change_record =
  timestamp :: u32
  source_addr :: u8
  target_addr :: u8
  start_address :: u16
  offset_address :: u16
  original_value :: u16
  modified_value :: u16
  protocol_version :: u8
  modification_source :: u8

text \<open>The packed structure has 16 bytes; the union pads it to the record length of 20.\<close>

definition reg_bytes :: "reg_param_change_record \<Rightarrow> u8 list" where
  "reg_bytes r =
     le32 (timestamp r) @ [source_addr r, target_addr r] @ le16 (start_address r)
     @ le16 (offset_address r) @ le16 (original_value r) @ le16 (modified_value r)
     @ [protocol_version r, modification_source r] @ replicate 4 0"

text \<open>What the reader of a record image sees.\<close>

definition reg_of_bytes :: "u8 list \<Rightarrow> reg_param_change_record" where
  "reg_of_bytes bs =
     \<lparr>timestamp = get32 bs 0, source_addr = bs ! 4, target_addr = bs ! 5,
      start_address = get16 bs 6, offset_address = get16 bs 8, original_value = get16 bs 10,
      modified_value = get16 bs 12, protocol_version = bs ! 14, modification_source = bs ! 15\<rparr>"

definition REG_CHANGE_LOG_MAX_NUM :: u16 where "REG_CHANGE_LOG_MAX_NUM = 500"
definition REG_CHANGE_PR0CESS_MAX_NUM :: nat where "REG_CHANGE_PR0CESS_MAX_NUM = 32"

definition reg_layout :: journal_layout where
  "reg_layout =
     \<lparr>header_len = 20, start_addr = 20, rec_len = 20, max_num = REG_CHANGE_LOG_MAX_NUM,
      field_off = 0, file_ver = None,
      newer_than = (\<lambda>since r. sint since < uint (get32 r 0))\<rparr>"

section \<open>State and initialisation\<close>

record reg_log =
  reg_queue :: "reg_param_change_record list"
  reg_journal :: journal_file

definition Reg_Change_Module_Init :: "read_io \<Rightarrow> write_io \<Rightarrow> reg_log \<Rightarrow> int \<times> reg_log" where
  "Reg_Change_Module_Init rio wio s =
     (let (ret, j) = Journal_Init reg_layout None rio wio (reg_journal s)
      in (ret, s\<lparr>reg_journal := j\<rparr>))"

section \<open>Generating records\<close>

text \<open>Per iteration: does \<open>iot_calloc\<close> find memory, what does \<open>time\<close> return, does the queue take the
  record within the 100 ms.\<close>

record gen_env =
  sem_taken :: bool
  mem_free :: "nat \<Rightarrow> bool"
  now :: "nat \<Rightarrow> u32"
  queue_takes :: "nat \<Rightarrow> bool"

text \<open>The loop over the registers: the result and the records queued, in order.  Running out of
  memory ends it.\<close>

fun change_loop ::
    "gen_env \<Rightarrow> (nat \<Rightarrow> u32 \<Rightarrow> 'v \<Rightarrow> 'v \<Rightarrow> reg_param_change_record) \<Rightarrow> nat \<Rightarrow> ('v \<times> 'v) list
       \<Rightarrow> int \<times> reg_param_change_record list" where
  "change_loop env mk record_cnt [] = (0, [])"
| "change_loop env mk record_cnt ((original, modified) # rest) =
     (if original \<noteq> modified then
        if \<not> mem_free env record_cnt then (- 1, [])
        else
          let (ret, rs) = change_loop env mk (Suc record_cnt) rest
          in (ret, (if queue_takes env record_cnt
                    then [mk record_cnt (now env record_cnt) original modified] else []) @ rs)
      else change_loop env mk (Suc record_cnt) rest)"

record modbus_change_params =
  slave_address :: u8
  m_start_address :: u16
  reg_count :: u16
  m_old_data :: "u16 list option"
  m_new_data :: "u16 list option"
  m_protocol_version :: u8
  m_modification_source :: u8

definition modbus_record ::
    "modbus_change_params \<Rightarrow> nat \<Rightarrow> u32 \<Rightarrow> u16 \<Rightarrow> u16 \<Rightarrow> reg_param_change_record" where
  "modbus_record p record_cnt t original modified =
     \<lparr>timestamp = t, source_addr = 0xFF, target_addr = slave_address p,
      start_address = m_start_address p, offset_address = of_nat record_cnt,
      original_value = original, modified_value = modified,
      protocol_version = m_protocol_version p, modification_source = m_modification_source p\<rparr>"

definition Reg_Change_Log_Generate_By_Modbus ::
    "gen_env \<Rightarrow> modbus_change_params \<Rightarrow> reg_log \<Rightarrow> (int \<times> reg_log) cres" where
  "Reg_Change_Log_Generate_By_Modbus env p s =
     (case (m_old_data p, m_new_data p) of
        (Some old, Some new) \<Rightarrow>
          if reg_count p = 0 \<or> \<not> sem_taken env then Inr (- 1, s)
          else
            let n = unat (reg_count p) in
            need n old (need n new (Inr
              (let (ret, rs) = change_loop env (modbus_record p) 0 (zip (take n old) (take n new))
               in (ret, s\<lparr>reg_queue := reg_queue s @ rs\<rparr>))))
      | _ \<Rightarrow> Inr (- 1, s))"

record can_change_params =
  source_id :: u8
  target_id :: u8
  can_type :: u16
  c_offset :: u16
  c_length :: u16
  c_old_data :: "u8 list option"
  c_new_data :: "u8 list option"
  c_protocol_version :: u8
  c_modification_source :: u8

definition can_record ::
    "can_change_params \<Rightarrow> nat \<Rightarrow> u32 \<Rightarrow> u8 \<Rightarrow> u8 \<Rightarrow> reg_param_change_record" where
  "can_record p record_cnt t original modified =
     \<lparr>timestamp = t, source_addr = source_id p, target_addr = target_id p,
      start_address = can_type p, offset_address = c_offset p + of_nat record_cnt,
      original_value = ucast original, modified_value = ucast modified,
      protocol_version = c_protocol_version p, modification_source = c_modification_source p\<rparr>"

definition Reg_Change_Log_Generate_By_Can ::
    "gen_env \<Rightarrow> can_change_params \<Rightarrow> reg_log \<Rightarrow> (int \<times> reg_log) cres" where
  "Reg_Change_Log_Generate_By_Can env p s =
     (case (c_old_data p, c_new_data p) of
        (Some old, Some new) \<Rightarrow>
          if c_length p = 0 \<or> \<not> sem_taken env then Inr (- 1, s)
          else
            let n = unat (c_length p) in
            need n old (need n new (Inr
              (let (ret, rs) = change_loop env (can_record p) 0 (zip (take n old) (take n new))
               in (ret, s\<lparr>reg_queue := reg_queue s @ rs\<rparr>))))
      | _ \<Rightarrow> Inr (- 1, s))"

section \<open>Saving and reading\<close>

text \<open>The save task takes its records off the queue before it writes; a failed write loses them.\<close>

definition Reg_Change_Log_Write ::
    "write_io \<Rightarrow> u16 \<Rightarrow> u8 list list \<Rightarrow> flash_file \<Rightarrow> int \<times> flash_file" where
  "Reg_Change_Log_Write = Journal_Log_Write reg_layout"

definition Reg_Change_Log_Save_Task ::
    "bool \<Rightarrow> write_io \<Rightarrow> write_io \<Rightarrow> write_io \<Rightarrow> reg_log \<Rightarrow> reg_log" where
  "Reg_Change_Log_Save_Task locked io1 io2 io3 s =
     (if \<not> locked then s
      else
        let batch = take REG_CHANGE_PR0CESS_MAX_NUM (reg_queue s);
            s' = s\<lparr>reg_queue := drop REG_CHANGE_PR0CESS_MAX_NUM (reg_queue s)\<rparr>
        in if batch = [] then s'
           else s'\<lparr>reg_journal :=
             snd (Journal_Save reg_layout io1 io2 io3 (map reg_bytes batch) (reg_journal s))\<rparr>)"

definition reg_view :: "reg_log \<Rightarrow> log_view" where
  "reg_view s = journal_view reg_layout (jheader (reg_journal s))"

definition Reg_Change_Log_Count_New_Records :: "(nat \<Rightarrow> read_io) \<Rightarrow> u64 \<Rightarrow> reg_log \<Rightarrow> u16" where
  "Reg_Change_Log_Count_New_Records rio since s =
     Log_Count_New_Records rio (reg_view s) (jfile (reg_journal s)) since"

definition Reg_Change_Log_Read_Incremental ::
    "bool \<Rightarrow> bool \<Rightarrow> (nat \<Rightarrow> read_io) \<Rightarrow> u64 \<Rightarrow> reg_log \<Rightarrow> int \<times> u8 list option" where
  "Reg_Change_Log_Read_Incremental locked calloc rio since s =
     Log_Read_Incremental locked calloc rio 20 (reg_view s) (jfile (reg_journal s)) since"

definition Is_Reg_Change_Log_Count_New :: "bool \<Rightarrow> (nat \<Rightarrow> read_io) \<Rightarrow> u64 \<Rightarrow> reg_log \<Rightarrow> int" where
  "Is_Reg_Change_Log_Count_New locked rio since s =
     Is_Log_Count_New locked rio (reg_view s) (jfile (reg_journal s)) since"

section \<open>The journal of this module\<close>

lemma reg_layout_simps [simp]:
  "header_len reg_layout = 20" "start_addr reg_layout = 20" "rec_len reg_layout = 20"
  "max_num reg_layout = 500" "field_off reg_layout = 0" "file_ver reg_layout = None"
  "newer_than reg_layout since r \<longleftrightarrow> sint since < uint (get32 r 0)"
  by (simp_all add: reg_layout_def REG_CHANGE_LOG_MAX_NUM_def)

interpretation reg: journal reg_layout
  by unfold_locales (simp add: layout_ok_def)

lemma length_reg_bytes [simp]: "length (reg_bytes r) = 20"
  by (simp add: reg_bytes_def)

lemma reg_of_bytes_reg_bytes [simp]: "reg_of_bytes (reg_bytes r) = r"
proof -
  have "get32 (reg_bytes r) 0 = timestamp r"
    by (simp add: reg_bytes_def get32_append)
  moreover have "get16 (reg_bytes r) 6 = start_address r" "get16 (reg_bytes r) 8 = offset_address r"
      "get16 (reg_bytes r) 10 = original_value r" "get16 (reg_bytes r) 12 = modified_value r"
    by (simp_all add: reg_bytes_def get16_def le16_def nth_append)
  ultimately show ?thesis
    by (simp add: reg_of_bytes_def reg_bytes_def nth_append)
qed

lemma newer_reg_bytes:
  "newer_than reg_layout since (reg_bytes r) \<longleftrightarrow> sint since < uint (timestamp r)"
  by (simp add: reg_bytes_def get32_append)

section \<open>One record per changed register\<close>

definition willing_env :: "gen_env \<Rightarrow> bool" where
  "willing_env env \<longleftrightarrow>
     sem_taken env \<and> (\<forall>k. mem_free env k) \<and> (\<forall>k. queue_takes env k)"

definition changes ::
    "(nat \<Rightarrow> u32 \<Rightarrow> 'v \<Rightarrow> 'v \<Rightarrow> reg_param_change_record) \<Rightarrow> (nat \<Rightarrow> u32) \<Rightarrow> nat \<Rightarrow> 'v list \<Rightarrow> 'v list
       \<Rightarrow> reg_param_change_record list" where
  "changes mk t n old new =
     map (\<lambda>i. mk i (t i) (old ! i) (new ! i)) (filter (\<lambda>i. old ! i \<noteq> new ! i) [0..<n])"

lemma change_loop_willing:
  assumes "\<forall>k. mem_free env k" "\<forall>k. queue_takes env k"
  shows "change_loop env mk k ps =
     (0, map (\<lambda>i. mk (k + i) (now env (k + i)) (fst (ps ! i)) (snd (ps ! i)))
           (filter (\<lambda>i. fst (ps ! i) \<noteq> snd (ps ! i)) [0..<length ps]))"
proof (induction ps arbitrary: k)
  case (Cons p ps)
  obtain a b where p: "p = (a, b)" by (cases p)
  have "[0..<length (p # ps)] = 0 # map Suc [0..<length ps]"
    by (simp add: upt_conv_Cons map_Suc_upt del: upt_Suc)
  then show ?case
    using assms Cons.IH [of "Suc k"] by (simp add: p filter_map o_def)
qed simp

lemma change_loop_changes:
  assumes "\<forall>k. mem_free env k" "\<forall>k. queue_takes env k" "n \<le> length old" "n \<le> length new"
  shows "change_loop env mk 0 (zip (take n old) (take n new)) = (0, changes mk (now env) n old new)"
proof -
  have "filter (\<lambda>i. fst (zip (take n old) (take n new) ! i) \<noteq> snd (zip (take n old) (take n new) ! i))
      [0..<n] = filter (\<lambda>i. old ! i \<noteq> new ! i) [0..<n]"
    using assms(3,4) by (intro filter_cong) auto
  then show ?thesis
    using assms by (simp add: change_loop_willing changes_def)
qed

text \<open>
  A Modbus write of \<open>n\<close> registers whose old and new values are at hand queues exactly one record
  for every register that changes, in register order, with the register's index as offset and its
  old and new value, and returns 0.
\<close>

theorem reg_change_modbus_complete:
  assumes "willing_env env" "m_old_data p = Some old" "m_new_data p = Some new"
    and "reg_count p \<noteq> 0" "unat (reg_count p) \<le> length old" "unat (reg_count p) \<le> length new"
  shows "Reg_Change_Log_Generate_By_Modbus env p s = Inr (0, s\<lparr>reg_queue :=
      reg_queue s @ map (\<lambda>i. modbus_record p i (now env i) (old ! i) (new ! i))
        (filter (\<lambda>i. old ! i \<noteq> new ! i) [0..<unat (reg_count p)])\<rparr>)"
  using assms change_loop_changes [of env "unat (reg_count p)" old new "modbus_record p"]
  by (simp add: Reg_Change_Log_Generate_By_Modbus_def willing_env_def Let_def changes_def)

definition sample_gen_env :: gen_env where
  "sample_gen_env =
     \<lparr>sem_taken = True, mem_free = (\<lambda>_. True), now = (\<lambda>_. 1000), queue_takes = (\<lambda>_. True)\<rparr>"

definition sample_modbus :: modbus_change_params where
  "sample_modbus =
     \<lparr>slave_address = 1, m_start_address = 2000, reg_count = 3, m_old_data = Some [1, 2, 3],
      m_new_data = Some [7, 8, 3], m_protocol_version = 2, m_modification_source = 4\<rparr>"

definition sample_header :: "u8 list" where
  "sample_header = [0xF4, 1] @ replicate 18 0"

definition sample_reg_log :: reg_log where
  "sample_reg_log =
     \<lparr>reg_queue = [], reg_journal = \<lparr>jheader = sample_header, jfile = Some sample_header\<rparr>\<rparr>"

lemma reg_change_modbus_complete_witness:
  "Reg_Change_Log_Generate_By_Modbus sample_gen_env sample_modbus sample_reg_log
    = Inr (0, sample_reg_log\<lparr>reg_queue := [modbus_record sample_modbus 0 1000 1 7,
                                          modbus_record sample_modbus 1 1000 2 8]\<rparr>)"
  using reg_change_modbus_complete [of sample_gen_env sample_modbus "[1, 2, 3]" "[7, 8, 3]"
      sample_reg_log]
  by (simp add: willing_env_def sample_gen_env_def sample_modbus_def sample_reg_log_def
      upt_conv_Cons)

lemma reg_change_can_complete:
  assumes "willing_env env" "c_old_data p = Some old" "c_new_data p = Some new"
    and "c_length p \<noteq> 0" "unat (c_length p) \<le> length old" "unat (c_length p) \<le> length new"
  shows "Reg_Change_Log_Generate_By_Can env p s = Inr (0, s\<lparr>reg_queue :=
      reg_queue s @ changes (can_record p) (now env) (unat (c_length p)) old new\<rparr>)"
  using assms change_loop_changes [of env "unat (c_length p)" old new "can_record p"]
  by (simp add: Reg_Change_Log_Generate_By_Can_def willing_env_def Let_def)

section \<open>What a run leaves in the journal\<close>

text \<open>The three operations in any order; the reads of the generating calls stay inside their
  arrays.  The history is the list of all records ever queued.\<close>

datatype reg_op =
    Modbus_Write gen_env modbus_change_params
  | Can_Write gen_env can_change_params
  | Save_Tick bool

definition op_in_bounds :: "reg_op \<Rightarrow> bool" where
  "op_in_bounds op =
     (case op of
        Modbus_Write _ p \<Rightarrow>
          (case (m_old_data p, m_new_data p) of
             (Some old, Some new) \<Rightarrow>
               unat (reg_count p) \<le> length old \<and> unat (reg_count p) \<le> length new
           | _ \<Rightarrow> True)
      | Can_Write _ p \<Rightarrow>
          (case (c_old_data p, c_new_data p) of
             (Some old, Some new) \<Rightarrow>
               unat (c_length p) \<le> length old \<and> unat (c_length p) \<le> length new
           | _ \<Rightarrow> True)
      | Save_Tick _ \<Rightarrow> True)"

definition reg_step :: "reg_op \<Rightarrow> reg_log \<Rightarrow> reg_log" where
  "reg_step op s =
     (case op of
        Modbus_Write env p \<Rightarrow>
          (case Reg_Change_Log_Generate_By_Modbus env p s of Inl _ \<Rightarrow> s | Inr (_, s') \<Rightarrow> s')
      | Can_Write env p \<Rightarrow>
          (case Reg_Change_Log_Generate_By_Can env p s of Inl _ \<Rightarrow> s | Inr (_, s') \<Rightarrow> s')
      | Save_Tick locked \<Rightarrow> Reg_Change_Log_Save_Task locked good_write good_write good_write s)"

text \<open>The records an operation adds to the queue.\<close>

definition reg_queued :: "reg_op \<Rightarrow> reg_log \<Rightarrow> reg_param_change_record list" where
  "reg_queued op s =
     (case op of Save_Tick _ \<Rightarrow> [] | _ \<Rightarrow> drop (length (reg_queue s)) (reg_queue (reg_step op s)))"

fun reg_run :: "reg_op list \<Rightarrow> reg_log \<Rightarrow> reg_log \<times> reg_param_change_record list" where
  "reg_run [] s = (s, [])"
| "reg_run (op # ops) s =
     (let (s', hist) = reg_run ops (reg_step op s) in (s', reg_queued op s @ hist))"

text \<open>Generating calls only extend the queue.\<close>

lemma generate_extends:
  "Reg_Change_Log_Generate_By_Modbus env p s = Inr (r, s') \<Longrightarrow>
     \<exists>rs. s' = s\<lparr>reg_queue := reg_queue s @ rs\<rparr>"
  "Reg_Change_Log_Generate_By_Can env q s = Inr (r, s') \<Longrightarrow>
     \<exists>rs. s' = s\<lparr>reg_queue := reg_queue s @ rs\<rparr>"
  by (auto simp: Reg_Change_Log_Generate_By_Modbus_def Reg_Change_Log_Generate_By_Can_def Let_def
      need_def split: option.splits if_splits prod.splits intro: exI [of _ "[]"])

text \<open>The invariant: the journal represents its slots, and the records queued so far are those saved,
  of which the journal shows the last 500, followed by the queue.\<close>

definition reg_inv :: "reg_param_change_record list \<Rightarrow> reg_log \<Rightarrow> bool" where
  "reg_inv hist s \<longleftrightarrow>
     journal_ok reg_layout (reg_journal s)
     \<and> (\<exists>saved. hist = saved @ reg_queue s
         \<and> journal_records reg_layout (reg_journal s) = last_records 500 (map reg_bytes saved))"

lemma last_records_extend:
  "last_records n (last_records n xs @ ys) = last_records n (xs @ ys)"
  by (rule last_records_append_left)

lemma Save_Task_good:
  "Reg_Change_Log_Save_Task True good_write good_write good_write s =
     (let batch = take 32 (reg_queue s) in
      s\<lparr>reg_queue := drop 32 (reg_queue s),
        reg_journal := (if batch = [] then reg_journal s
          else journal_store reg_layout (map reg_bytes batch) (reg_journal s))\<rparr>)"
  by (simp add: Reg_Change_Log_Save_Task_def REG_CHANGE_PR0CESS_MAX_NUM_def journal_store_def
      Let_def)

lemma reg_batch_ok: "length rs \<le> 500 \<Longrightarrow> batch_of reg_layout (map reg_bytes rs)"
  by (auto simp: batch_of_def)

lemma reg_step_inv:
  assumes "reg_inv hist s"
  shows "reg_inv (hist @ reg_queued op s) (reg_step op s)"
proof -
  obtain saved where inv: "journal_ok reg_layout (reg_journal s)" "hist = saved @ reg_queue s"
      "journal_records reg_layout (reg_journal s) = last_records 500 (map reg_bytes saved)"
    using assms by (auto simp: reg_inv_def)
  have gen: "reg_inv (hist @ rs) (s\<lparr>reg_queue := reg_queue s @ rs\<rparr>)" for rs
    using inv by (auto simp: reg_inv_def)
  show ?thesis
  proof (cases op)
    case (Modbus_Write env p)
    then show ?thesis
      using gen [of "[]"] gen generate_extends(1)
      by (fastforce simp: reg_step_def reg_queued_def split: sum.splits)
  next
    case (Can_Write env p)
    then show ?thesis
      using gen [of "[]"] gen generate_extends(2)
      by (fastforce simp: reg_step_def reg_queued_def split: sum.splits)
  next
    case (Save_Tick locked)
    show ?thesis
    proof (cases "locked \<and> reg_queue s \<noteq> []")
      case False
      then show ?thesis
        using assms Save_Tick Save_Task_good [of s]
        by (auto simp: reg_step_def reg_queued_def Reg_Change_Log_Save_Task_def reg_inv_def)
    next
      case True
      let ?b = "take 32 (reg_queue s)"
      have ok: "batch_of reg_layout (map reg_bytes ?b)" by (rule reg_batch_ok) simp
      note st = journal_store_rep [OF reg.layout inv(1) ok]
      have "journal_records reg_layout
            (journal_store reg_layout (map reg_bytes ?b) (reg_journal s))
          = last_records 500 (map reg_bytes (saved @ ?b))"
        using st(2) inv(3) by (simp add: last_records_extend)
      moreover have "hist = (saved @ ?b) @ drop 32 (reg_queue s)"
        using inv(2) by simp
      ultimately have "reg_inv hist (Reg_Change_Log_Save_Task True good_write good_write good_write s)"
        using st(1) True unfolding reg_inv_def Save_Task_good Let_def
        by (intro conjI exI [of _ "saved @ ?b"]) simp_all
      then show ?thesis
        using True Save_Tick by (simp add: reg_step_def reg_queued_def)
    qed
  qed
qed

lemma reg_run_inv:
  assumes "reg_inv hist s" "reg_run ops s = (s', queued)"
  shows "reg_inv (hist @ queued) s'"
  using assms
proof (induction ops arbitrary: hist s queued)
  case (Cons op ops)
  obtain q where "reg_run ops (reg_step op s) = (s', q)" "queued = reg_queued op s @ q"
    using Cons.prems(2) by (auto simp: Let_def split: prod.splits)
  then show ?case using Cons.IH [OF reg_step_inv [OF Cons.prems(1)]] by simp
qed simp

lemma reg_init_inv:
  assumes "jfile (reg_journal s0) = None" "length (jheader (reg_journal s0)) = 20" "reg_queue s0 = []"
  shows "\<exists>s1. Reg_Change_Module_Init good_read good_write s0 = (0, s1) \<and> reg_inv [] s1"
proof -
  obtain h j where j: "Journal_Init reg_layout None good_read good_write (reg_journal s0) = (0, j)"
      "journal_rep reg_layout h h [] j"
    using Journal_Init_first [OF reg.layout, of "reg_journal s0" None] assms by auto
  then have "journal_ok reg_layout j" "journal_records reg_layout j = []"
    using journal_records_rep [OF j(2)] by (auto simp: journal_ok_def journal_rep_def)
  then show ?thesis using j(1) assms(3) by (simp add: Reg_Change_Module_Init_def reg_inv_def)
qed

section \<open>What the reader gets\<close>

lemma sorted_last_records:
  "sorted (map f xs) \<Longrightarrow> sorted (map f (last_records n xs))"
  by (simp add: last_records_def drop_map [symmetric] sorted_wrt_drop)

lemma time_ordered_map:
  assumes "sorted (map ts rs)" "\<And>r. newer (g r) \<longleftrightarrow> (t :: int) < ts r"
  shows "time_ordered newer (map g rs)"
proof -
  have "ts (rs ! i) \<le> ts (rs ! j)" if "i \<le> j" "j < length rs" for i j
    using sorted_nth_mono [OF assms(1), of i j] that by simp
  then show ?thesis
    using assms(2) by (fastforce simp: time_ordered_def)
qed

text \<open>
  C4: From a first start on a working medium, after any sequence of register writes over Modbus and
  CAN and ticks of the save task, the journal holds the last 500 of the records taken off the
  queue, in order; the reader that asks for everything (time 0) gets the header of the file and exactly
  the images of these records, or nothing when there are none.  The reader that asks for what is newer than
  some other time gets the header and exactly the newer ones of them, or nothing when there are none, provided
  that the time stamps of the records never went backwards.
\<close>

theorem reg_log_reads_history:
  assumes "jfile (reg_journal s0) = None" "length (jheader (reg_journal s0)) = 20" "reg_queue s0 = []"
    and "Reg_Change_Module_Init good_read good_write s0 = (r, s1)"
    and "reg_run ops s1 = (s, queued)"
  defines "answer \<equiv> \<lambda>rs. if rs = [] then (0, None)
    else (0, Some (take 20 (file_bytes (jfile (reg_journal s))) @ concat (map reg_bytes rs)))"
  shows "r = 0 \<and> (\<exists>saved. queued = saved @ reg_queue s
    \<and> journal_records reg_layout (reg_journal s) = map reg_bytes (last_records 500 saved)
    \<and> Reg_Change_Log_Read_Incremental True True (\<lambda>_. good_read) 0 s = answer (last_records 500 saved)
    \<and> (\<forall>since. since \<noteq> 0 \<and> sorted (map (\<lambda>r. uint (timestamp r)) queued) \<longrightarrow>
         Reg_Change_Log_Read_Incremental True True (\<lambda>_. good_read) since s
           = answer (filter (\<lambda>r. sint since < uint (timestamp r)) (last_records 500 saved))))"
proof -
  have r: "r = 0" "reg_inv [] s1" using reg_init_inv [OF assms(1-3)] assms(4) by auto
  obtain saved where inv: "journal_ok reg_layout (reg_journal s)" "queued = saved @ reg_queue s"
      "journal_records reg_layout (reg_journal s) = last_records 500 (map reg_bytes saved)"
    using reg_run_inv [OF r(2) assms(5)] by (auto simp: reg_inv_def)
  let ?last = "last_records 500 saved"
  have recs: "journal_records reg_layout (reg_journal s) = map reg_bytes ?last"
    using inv(3) by (simp add: last_records_def drop_map)
  have start: "log_start (reg_view s) = 20" by (simp add: reg_view_def journal_view_def)
  have rv: "journal_view reg_layout (jheader (reg_journal s)) = reg_view s" by (simp add: reg_view_def)
  note recs' = recs [unfolded journal_records_def rv]
  have all: "Reg_Change_Log_Read_Incremental True True (\<lambda>_. good_read) 0 s = answer ?last"
    using reg.read_all [OF inv(1), unfolded rv start recs'] reg.read_all_empty [OF inv(1), unfolded rv start recs']
    unfolding Reg_Change_Log_Read_Incremental_def answer_def by auto
  have newer: "Reg_Change_Log_Read_Incremental True True (\<lambda>_. good_read) since s
      = answer (filter (\<lambda>r. sint since < uint (timestamp r)) ?last)"
    if "since \<noteq> 0" and ts: "sorted (map (\<lambda>r. uint (timestamp r)) queued)" for since
  proof -
    have view: "is_newer (reg_view s) since (reg_bytes x) \<longleftrightarrow> sint since < uint (timestamp x)" for x
      by (simp add: reg_view_def journal_view_def newer_reg_bytes del: reg_layout_simps)
    have "sorted (map (\<lambda>r. uint (timestamp r)) ?last)"
      using ts inv(2) by (intro sorted_last_records) (simp add: sorted_append)
    then have ord: "time_ordered (is_newer (reg_view s) since) (journal_records reg_layout (reg_journal s))"
      unfolding recs by (rule time_ordered_map) (rule view)
    have new: "filter (is_newer (reg_view s) since) (map reg_bytes ?last)
        = map reg_bytes (filter (\<lambda>r. sint since < uint (timestamp r)) ?last)"
      by (simp add: filter_map o_def view)
    show ?thesis
      using reg.read_new [OF inv(1), of since, unfolded rv start recs' new]
        reg.read_none [OF inv(1), of since, unfolded rv start recs' new] ord that(1)
      unfolding Reg_Change_Log_Read_Incremental_def recs answer_def by auto
  qed
  show ?thesis using r(1) inv(2) recs all newer by blast
qed

definition sample_start :: reg_log where
  "sample_start = \<lparr>reg_queue = [], reg_journal = \<lparr>jheader = replicate 20 0, jfile = None\<rparr>\<rparr>"

definition sample_ops :: "reg_op list" where
  "sample_ops = [Modbus_Write sample_gen_env sample_modbus, Save_Tick True]"

definition sample_run :: "reg_log \<times> reg_param_change_record list" where
  "sample_run = reg_run sample_ops (snd (Reg_Change_Module_Init good_read good_write sample_start))"

lemma sample_loop:
  "change_loop sample_gen_env mk 0 (zip [1, 2, 3] [7, 8, 3])
    = (0, [mk 0 1000 1 7, mk 1 1000 2 (8 :: u16)])"
  by (simp add: sample_gen_env_def)

lemma sample_modbus_step:
  "reg_step (Modbus_Write sample_gen_env sample_modbus) s
    = s\<lparr>reg_queue := reg_queue s @ [modbus_record sample_modbus 0 1000 1 7,
                                    modbus_record sample_modbus 1 1000 2 8]\<rparr>"
proof -
  have "sem_taken sample_gen_env" by (simp add: sample_gen_env_def)
  then show ?thesis
    using sample_loop [of "modbus_record sample_modbus"]
    by (simp add: reg_step_def Reg_Change_Log_Generate_By_Modbus_def sample_modbus_def Let_def)
qed

lemma sample_run_queued:
  "snd sample_run = [modbus_record sample_modbus 0 1000 1 7, modbus_record sample_modbus 1 1000 2 8]"
  by (simp add: sample_run_def sample_ops_def reg_queued_def sample_modbus_step case_prod_beta)

lemma reg_log_reads_history_witness:
  "\<exists>saved. snd sample_run = saved @ reg_queue (fst sample_run)
    \<and> journal_records reg_layout (reg_journal (fst sample_run))
        = map reg_bytes (last_records 500 saved)
    \<and> Reg_Change_Log_Read_Incremental True True (\<lambda>_. good_read) 999 (fst sample_run)
        = (let new = filter (\<lambda>r. 999 < uint (timestamp r)) (last_records 500 saved)
           in if new = [] then (0, None)
              else (0, Some (take 20 (file_bytes (jfile (reg_journal (fst sample_run))))
                             @ concat (map reg_bytes new))))"
proof -
  have ts: "sorted (map (\<lambda>r. uint (timestamp r)) (snd sample_run))"
    by (simp add: sample_run_queued modbus_record_def)
  have run: "reg_run sample_ops
      (snd (Reg_Change_Module_Init good_read good_write sample_start))
      = (fst sample_run, snd sample_run)"
    by (simp add: sample_run_def)
  have st: "jfile (reg_journal sample_start) = None" "length (jheader (reg_journal sample_start)) = 20" "reg_queue sample_start = []"
    by (simp_all add: sample_start_def)
  have "(999 :: u64) \<noteq> 0" "sint (999 :: u64) = 999" by simp_all
  with reg_log_reads_history [OF st prod.collapse [symmetric] run] ts show ?thesis
    by (elim conjE exE, intro exI conjI) (assumption, assumption, auto simp: Let_def)
qed

section \<open>Failures of the medium\<close>

text \<open>A batch whose first write fails is gone: it has left the queue, and the journal is as before.\<close>

lemma reg_failed_write_loses_batch:
  assumes "journal_ok reg_layout (reg_journal s)" "h_cur reg_layout (jheader (reg_journal s)) < 500"
    and "reg_queue s \<noteq> []"
  shows "Reg_Change_Log_Save_Task True unopened io2 io3 s
    = s\<lparr>reg_queue := drop 32 (reg_queue s)\<rparr>"
proof -
  obtain pre slots where rep: "journal_rep reg_layout (jheader (reg_journal s)) pre slots (reg_journal s)"
    using assms(1) by (auto simp: journal_ok_def)
  let ?h = "jheader (reg_journal s)" and ?b = "map reg_bytes (take 32 (reg_queue s))"
  have fill: "filling reg_layout ?h"
    using rep assms(2) by (simp add: filling_def journal_rep_def)
  have n: "length ?b < 2 ^ 16" by simp
  have sp: "0 < unat (batch_space reg_layout ?h)"
    using rep assms(2) fill by (simp add: batch_space_def journal_rep_def unat_sub word_less_nat_alt
        word_le_nat_alt)
  have "0 < unat (batch_cnt1 (batch_space reg_layout ?h) (of_nat (length ?b)))"
    using split_counts(1) [OF n, of "batch_space reg_layout ?h"] sp assms(3) by simp
  then have "take (unat (batch_cnt1 (batch_space reg_layout ?h) (of_nat (length ?b)))) ?b \<noteq> []"
    using assms(3) by simp
  moreover have "Journal_Log_Write reg_layout unopened FILE_APPEND_MODE rs f = (- 1, f)"
    if "rs \<noteq> []" for rs f
    using that by (auto simp: Journal_Log_Write_def fs_record_write_def unopened_def Let_def)
  ultimately have "Journal_Save reg_layout unopened io2 io3 ?b (reg_journal s) = (False, reg_journal s)"
    using fill by (simp add: Journal_Save_def write_halves_def Let_def)
  then show ?thesis
    using assms(3) by (simp add: Reg_Change_Log_Save_Task_def REG_CHANGE_PR0CESS_MAX_NUM_def Let_def)
qed

lemma restart_cache: "\<lparr>jheader = c, jfile = jfile j\<rparr> = j\<lparr>jheader := c\<rparr>"
  by (cases j) simp

text \<open>
  Power fails after the records of a batch were appended and before the header was written.
  After the restart the records of the next batch are appended behind the uncounted ones, and the
  log shows the first \<open>|old| + |next|\<close> records of the file: as many of the newest records as the
  interrupted batch had are invisible.
\<close>

theorem reg_power_loss_hides_newest:
  assumes "journal_rep reg_layout h h slots (reg_journal s)"
    and "reg_queue s \<noteq> []" "length (reg_queue s) \<le> 32" "next_batch \<noteq> []" "length next_batch \<le> 32"
    and "length slots + 32 < 500"
  shows "let s1 = Reg_Change_Log_Save_Task True good_write good_write unopened s;
             s2 = snd (Reg_Change_Module_Init good_read wio
                    \<lparr>reg_queue = next_batch,
                     reg_journal = \<lparr>jheader = replicate 20 0, jfile = jfile (reg_journal s1)\<rparr>\<rparr>);
             s3 = Reg_Change_Log_Save_Task True good_write good_write good_write s2
         in journal_records reg_layout (reg_journal s3)
            = take (length slots + length next_batch)
                (slots @ map reg_bytes (reg_queue s) @ map reg_bytes next_batch)"
proof -
  let ?xs = "map reg_bytes (reg_queue s)" and ?ys = "map reg_bytes next_batch"
  have b: "batch_of reg_layout ?xs" "batch_of reg_layout ?ys"
    using assms(3,5) by (auto intro!: reg_batch_ok)
  have hv: "header_valid reg_layout h"
    using assms(1) by (simp add: header_valid_def journal_rep_def)
  let ?j1 = "snd (Journal_Save reg_layout good_write good_write unopened ?xs (reg_journal s))"
  let ?j2 = "snd (Journal_Init reg_layout None good_read wio (?j1\<lparr>jheader := replicate 20 0\<rparr>))"
  have "journal_records reg_layout (journal_store reg_layout ?ys ?j2)
      = take (length slots + length ?ys) (slots @ ?xs @ ?ys)"
    by (rule Journal_Save_behind(2) [OF reg.layout hv assms(1) b])
       (use assms(3,5,6) in simp_all)
  then show ?thesis
    using assms(2-5)
    by (simp add: restart_cache Reg_Change_Log_Save_Task_def REG_CHANGE_PR0CESS_MAX_NUM_def Let_def
        Reg_Change_Module_Init_def case_prod_beta journal_store_def)
qed

lemma sample_journal_rep:
  "journal_rep reg_layout sample_header sample_header []
     \<lparr>jheader = sample_header, jfile = Some sample_header\<rparr>"
  by (simp add: journal_rep_def h_max_def h_cur_def h_idx_def sample_header_def get16_def mk16_def
      nth_append)

lemma reg_power_loss_hides_newest_witness:
  "let s = sample_reg_log\<lparr>reg_queue := [modbus_record sample_modbus 0 1000 1 7]\<rparr>;
       next_batch = [modbus_record sample_modbus 0 2000 7 9];
       s1 = Reg_Change_Log_Save_Task True good_write good_write unopened s;
       s2 = snd (Reg_Change_Module_Init good_read good_write
              \<lparr>reg_queue = next_batch,
               reg_journal = \<lparr>jheader = replicate 20 0, jfile = jfile (reg_journal s1)\<rparr>\<rparr>);
       s3 = Reg_Change_Log_Save_Task True good_write good_write good_write s2
   in journal_records reg_layout (reg_journal s3) = [reg_bytes (modbus_record sample_modbus 0 1000 1 7)]"
  using reg_power_loss_hides_newest [of sample_header "[]"
      "sample_reg_log\<lparr>reg_queue := [modbus_record sample_modbus 0 1000 1 7]\<rparr>"
      "[modbus_record sample_modbus 0 2000 7 9]" good_write] sample_journal_rep
  by (simp add: Let_def sample_reg_log_def)

text \<open>
  If the file cannot be opened for update at the moment the header is written, the fallback
  truncates it: the save task leaves a file of 20 bytes, so every record is lost, while the header
  still counts them, and from then on the log reports no new record since any time.
\<close>

theorem reg_failed_open_erases_log:
  assumes "journal_ok reg_layout (reg_journal s)" "reg_queue s \<noteq> []" "since \<noteq> 0"
  shows "let s1 = Reg_Change_Log_Save_Task True good_write good_write no_update_open s
         in length (file_bytes (jfile (reg_journal s1))) = 20
            \<and> 0 < h_cur reg_layout (jheader (reg_journal s1))
            \<and> Is_Reg_Change_Log_Count_New True rio since s1 = 0"
proof -
  obtain pre slots where rep: "journal_rep reg_layout (jheader (reg_journal s)) pre slots (reg_journal s)"
    using assms(1) by (auto simp: journal_ok_def)
  let ?b = "map reg_bytes (take 32 (reg_queue s))"
  have b: "batch_of reg_layout ?b" by (rule reg_batch_ok) simp
  obtain h' where h': "Journal_Save reg_layout good_write good_write no_update_open ?b (reg_journal s)
        = (True, \<lparr>jheader = h', jfile = Some h'\<rparr>)"
      "length h' = 20" "unat (h_cur reg_layout h') = min 500 (length slots + length ?b)"
    using Journal_Save_truncates [OF reg.layout rep b] by auto
  have "0 < h_cur reg_layout h'"
    using h'(3) assms(2) by (simp add: word_less_nat_alt)
  moreover have "Log_Count_New_Records rio (journal_view reg_layout h') (Some h') since = 0"
    using count_after_truncation [of "\<lparr>jheader = h', jfile = Some h'\<rparr>" h' reg_layout since rio h']
      h'(2) assms(3) by simp
  ultimately show ?thesis
    using h'(1,2) assms(2)
    by (simp add: Reg_Change_Log_Save_Task_def REG_CHANGE_PR0CESS_MAX_NUM_def Let_def
        Is_Reg_Change_Log_Count_New_def Is_Log_Count_New_def reg_view_def file_bytes_def)
qed

lemma reg_failed_open_erases_log_witness:
  "let s1 = Reg_Change_Log_Save_Task True good_write good_write no_update_open
              (sample_reg_log\<lparr>reg_queue := [modbus_record sample_modbus 0 1000 1 7]\<rparr>)
   in length (file_bytes (jfile (reg_journal s1))) = 20
      \<and> 0 < h_cur reg_layout (jheader (reg_journal s1))
      \<and> Is_Reg_Change_Log_Count_New True (\<lambda>_. good_read) 999 s1 = 0"
proof -
  have "journal_ok reg_layout (reg_journal sample_reg_log)"
    using sample_journal_rep by (auto simp: journal_ok_def sample_reg_log_def)
  then show ?thesis
    by (intro reg_failed_open_erases_log) (simp_all add: sample_reg_log_def)
qed

end
