(* ===== verification/Dev_Access_Log.thy ===== *)
theory Dev_Access_Log
  imports Reg_Log
begin

text \<open>
  The device access log, \<open>dev_access_log/dev_access_log.c\<close>: devices that come and go are recorded
  one by one, and a task that runs every three seconds moves up to 16 of them into a journal of
  100 records.  Counting, reading, initialisation and the batch store are those of the register
  change log with other constants.
\<close>

section \<open>Records\<close>

definition DEVICE_EVENT_INFO_TYPE_SN :: u8 where "DEVICE_EVENT_INFO_TYPE_SN = 0"

record device_event_record =
  dtimestamp :: u32
  record_type :: u8
  parent_address :: u8
  local_address :: u8
  operation_attribute :: u8
  info_type :: u8
  dev_ident :: "u8 list"

text \<open>\<open>dev_ident\<close> is the 25-byte union of a device type with its serial number and a Bluetooth name;
  six reserved bytes complete the 40.\<close>

definition dev_bytes :: "device_event_record \<Rightarrow> u8 list" where
  "dev_bytes r =
     le32 (dtimestamp r)
     @ [record_type r, parent_address r, local_address r, operation_attribute r, info_type r]
     @ dev_ident r @ replicate 6 0"

definition dev_layout :: journal_layout where
  "dev_layout =
     \<lparr>header_len = 20, start_addr = 20, rec_len = 40, max_num = 100, field_off = 0,
      file_ver = None, newer_than = (\<lambda>since r. sint since < uint (get32 r 0))\<rparr>"

definition DEV_ACCESS_PR0CESS_MAX_NUM :: nat where "DEV_ACCESS_PR0CESS_MAX_NUM = 16"
definition DEV_ACCESS_TASK_PERIOD_MS :: u32 where "DEV_ACCESS_TASK_PERIOD_MS = 3000"

record dev_log =
  dev_queue :: "device_event_record list"
  dev_journal :: journal_file
  dev_pre_time :: u32

definition Dev_Access_Module_Init :: "read_io \<Rightarrow> write_io \<Rightarrow> dev_log \<Rightarrow> int \<times> dev_log" where
  "Dev_Access_Module_Init rio wio s =
     (let (ret, j) = Journal_Init dev_layout None rio wio (dev_journal s)
      in (ret, s\<lparr>dev_journal := j\<rparr>))"

section \<open>Generating a record\<close>

text \<open>The C string \<open>dev_type\<close> is its bytes before the terminator; the two pointers of the serial
  number form and the one of the raw form may be \<open>NULL\<close>.\<close>

record dev_access_params =
  p_record_type :: u8
  p_parent_address :: u8
  p_local_address :: u8
  p_operation_attribute :: u8
  p_info_type :: u8
  p_dev_type :: "u8 list option"
  p_dev_sn :: "u64 option"
  p_device_identifier :: "u8 list option"

text \<open>\<open>strncpy\<close> of at most 11 bytes, zero filled, the twelfth byte set to zero.\<close>

definition dev_type_field :: "u8 list \<Rightarrow> u8 list" where
  "dev_type_field t = take 11 (t @ replicate 11 0) @ [0]"

definition access_identifier :: "dev_access_params \<Rightarrow> u8 list option cres" where
  "access_identifier p =
     (if p_info_type p = DEVICE_EVENT_INFO_TYPE_SN then
        Inr (case (p_dev_type p, p_dev_sn p) of
               (Some t, Some sn) \<Rightarrow> Some (dev_type_field t @ le64 sn @ replicate 5 0)
             | _ \<Rightarrow> None)
      else case p_device_identifier p of
        None \<Rightarrow> Inr None
      | Some raw \<Rightarrow> need 25 raw (Inr (Some (take 25 raw))))"

definition dev_access_record :: "u32 \<Rightarrow> dev_access_params \<Rightarrow> u8 list \<Rightarrow> device_event_record" where
  "dev_access_record t p ident =
     \<lparr>dtimestamp = t, record_type = p_record_type p, parent_address = p_parent_address p,
      local_address = p_local_address p, operation_attribute = p_operation_attribute p,
      info_type = p_info_type p, dev_ident = ident\<rparr>"

definition Dev_Access_Log_Generate ::
    "gen_env \<Rightarrow> dev_access_params option \<Rightarrow> dev_log \<Rightarrow> (int \<times> dev_log) cres" where
  "Dev_Access_Log_Generate env params s =
     (case params of
        None \<Rightarrow> Inr (- 1, s)
      | Some p \<Rightarrow>
          let missing = (if p_info_type p = DEVICE_EVENT_INFO_TYPE_SN
                         then p_dev_type p = None \<or> p_dev_sn p = None
                         else p_device_identifier p = None)
          in if missing \<or> \<not> sem_taken env \<or> \<not> mem_free env 0 then Inr (- 1, s)
             else cbind (access_identifier p) (\<lambda>ident.
               let r = dev_access_record (now env 0) p (case ident of None \<Rightarrow> [] | Some i \<Rightarrow> i)
               in if queue_takes env 0 then Inr (0, s\<lparr>dev_queue := dev_queue s @ [r]\<rparr>)
                  else Inr (- 1, s)))"

section \<open>Saving and reading\<close>

definition Dev_Access_Log_Write ::
    "write_io \<Rightarrow> u16 \<Rightarrow> u8 list list \<Rightarrow> flash_file \<Rightarrow> int \<times> flash_file" where
  "Dev_Access_Log_Write = Journal_Log_Write dev_layout"

text \<open>The task first checks its period; the time of the run is kept even when the semaphore is not
  to be had.\<close>

definition Dev_Access_Log_Save_Task ::
    "u32 \<Rightarrow> bool \<Rightarrow> write_io \<Rightarrow> write_io \<Rightarrow> write_io \<Rightarrow> dev_log \<Rightarrow> dev_log" where
  "Dev_Access_Log_Save_Task now_time locked io1 io2 io3 s =
     (if now_time - dev_pre_time s < DEV_ACCESS_TASK_PERIOD_MS then s
      else
        let s = s\<lparr>dev_pre_time := now_time\<rparr> in
        if \<not> locked then s
        else
          let batch = take DEV_ACCESS_PR0CESS_MAX_NUM (dev_queue s);
              s' = s\<lparr>dev_queue := drop DEV_ACCESS_PR0CESS_MAX_NUM (dev_queue s)\<rparr>
          in if batch = [] then s'
             else s'\<lparr>dev_journal :=
               snd (Journal_Save dev_layout io1 io2 io3 (map dev_bytes batch) (dev_journal s))\<rparr>)"

definition dev_view :: "dev_log \<Rightarrow> log_view" where
  "dev_view s = journal_view dev_layout (jheader (dev_journal s))"

definition Dev_Access_Log_Count_New_Records :: "(nat \<Rightarrow> read_io) \<Rightarrow> u64 \<Rightarrow> dev_log \<Rightarrow> u16" where
  "Dev_Access_Log_Count_New_Records rio since s =
     Log_Count_New_Records rio (dev_view s) (jfile (dev_journal s)) since"

definition Dev_Access_Log_Read_Incremental ::
    "bool \<Rightarrow> bool \<Rightarrow> (nat \<Rightarrow> read_io) \<Rightarrow> u64 \<Rightarrow> dev_log \<Rightarrow> int \<times> u8 list option" where
  "Dev_Access_Log_Read_Incremental locked calloc rio since s =
     Log_Read_Incremental locked calloc rio 20 (dev_view s) (jfile (dev_journal s)) since"

definition Is_Dev_Access_Log_Count_New :: "bool \<Rightarrow> (nat \<Rightarrow> read_io) \<Rightarrow> u64 \<Rightarrow> dev_log \<Rightarrow> int" where
  "Is_Dev_Access_Log_Count_New locked rio since s =
     Is_Log_Count_New locked rio (dev_view s) (jfile (dev_journal s)) since"

section \<open>Lemmas\<close>

lemma dev_layout_simps [simp]:
  "header_len dev_layout = 20" "start_addr dev_layout = 20" "rec_len dev_layout = 40"
  "max_num dev_layout = 100" "field_off dev_layout = 0" "file_ver dev_layout = None"
  "newer_than dev_layout since r \<longleftrightarrow> sint since < uint (get32 r 0)"
  by (simp_all add: dev_layout_def)

interpretation dev: journal dev_layout
  by unfold_locales (simp add: layout_ok_def)

lemma access_identifier_length:
  "access_identifier p = Inr (Some i) \<Longrightarrow> length i = 25"
  by (auto simp: access_identifier_def dev_type_field_def need_def split: if_splits option.splits)

definition dev_record_ok :: "device_event_record \<Rightarrow> bool" where
  "dev_record_ok r \<longleftrightarrow> length (dev_ident r) = 25"

lemma length_dev_bytes: "dev_record_ok r \<Longrightarrow> length (dev_bytes r) = 40"
  by (simp add: dev_bytes_def dev_record_ok_def)

lemma newer_dev_bytes:
  "newer_than dev_layout since (dev_bytes r) \<longleftrightarrow> sint since < uint (dtimestamp r)"
  by (simp add: dev_bytes_def get32_append)

text \<open>The only way out of the record's object is a raw identifier shorter than the 25 bytes copied
  from it: a Bluetooth name shorter than that is read past its end.\<close>

lemma Dev_Access_Log_Generate_fault_iff:
  "is_fault (Dev_Access_Log_Generate env (Some p) s) \<longleftrightarrow>
     sem_taken env \<and> mem_free env 0 \<and> p_info_type p \<noteq> DEVICE_EVENT_INFO_TYPE_SN
     \<and> (\<exists>raw. p_device_identifier p = Some raw \<and> length raw < 25)"
  by (auto simp: Dev_Access_Log_Generate_def access_identifier_def Let_def need_def cbind_def
      split: option.splits)

text \<open>The invariant of the module, kept by the three operations.\<close>

definition dev_inv :: "dev_log \<Rightarrow> bool" where
  "dev_inv s \<longleftrightarrow> journal_ok dev_layout (dev_journal s) \<and> (\<forall>r\<in>set (dev_queue s). dev_record_ok r)"

lemma access_identifier_None:
  "access_identifier p = Inr None \<Longrightarrow>
     (if p_info_type p = DEVICE_EVENT_INFO_TYPE_SN then p_dev_type p = None \<or> p_dev_sn p = None
      else p_device_identifier p = None)"
  by (auto simp: access_identifier_def need_def split: if_splits option.splits)

lemma dev_access_record_ok: "length i = 25 \<Longrightarrow> dev_record_ok (dev_access_record t p i)"
  by (simp add: dev_record_ok_def dev_access_record_def)

text \<open>A call either leaves the state as it is and fails, or queues one well-formed record.\<close>

lemma Dev_Access_Log_Generate_cases:
  assumes "Dev_Access_Log_Generate env params s = Inr (ret, s')"
  shows "s' = s \<and> ret = - 1
    \<or> (\<exists>r. dev_record_ok r \<and> s' = s\<lparr>dev_queue := dev_queue s @ [r]\<rparr> \<and> ret = 0)"
proof (cases params)
  case None
  then show ?thesis using assms by (simp add: Dev_Access_Log_Generate_def)
next
  case (Some p)
  show ?thesis
  proof (cases "access_identifier p")
    case (Inl f)
    then show ?thesis using assms Some
      by (auto simp: Dev_Access_Log_Generate_def Let_def split: if_splits)
  next
    case (Inr ident)
    then show ?thesis
      using assms Some access_identifier_None [of p] access_identifier_length [of p]
        dev_access_record_ok
      by (cases ident) (auto simp: Dev_Access_Log_Generate_def Let_def split: if_splits)
  qed
qed

lemma Dev_Access_Log_Generate_inv:
  "dev_inv s \<Longrightarrow> Dev_Access_Log_Generate env params s = Inr (ret, s') \<Longrightarrow> dev_inv s'"
  by (drule Dev_Access_Log_Generate_cases) (auto simp: dev_inv_def)

lemma Dev_Access_Log_Save_Task_good:
  assumes "dev_inv s" "\<not> now_time - dev_pre_time s < DEV_ACCESS_TASK_PERIOD_MS" "dev_queue s \<noteq> []"
  defines "s' \<equiv> Dev_Access_Log_Save_Task now_time True good_write good_write good_write s"
  shows "dev_inv s'" "dev_queue s' = drop 16 (dev_queue s)"
    "journal_records dev_layout (dev_journal s')
      = last_records 100 (journal_records dev_layout (dev_journal s)
          @ map dev_bytes (take 16 (dev_queue s)))"
proof -
  let ?b = "map dev_bytes (take 16 (dev_queue s))"
  have "batch_of dev_layout ?b"
    using assms(1) by (auto simp: batch_of_def dev_inv_def length_dev_bytes dest: in_set_takeD)
  note st = journal_store_rep [OF dev.layout _ this, of "dev_journal s"]
  have s': "s' = s\<lparr>dev_queue := drop 16 (dev_queue s),
      dev_journal := journal_store dev_layout ?b (dev_journal s), dev_pre_time := now_time\<rparr>"
    using assms(2,3)
    by (simp add: s'_def Dev_Access_Log_Save_Task_def DEV_ACCESS_PR0CESS_MAX_NUM_def
        journal_store_def Let_def)
  show "dev_inv s'" "dev_queue s' = drop 16 (dev_queue s)"
    "journal_records dev_layout (dev_journal s')
      = last_records 100 (journal_records dev_layout (dev_journal s)
          @ map dev_bytes (take 16 (dev_queue s)))"
    using st assms(1) by (auto simp: s' dev_inv_def dest: in_set_dropD)
qed

end
