(* ===== verification/Mqtt_Log.thy ===== *)
theory Mqtt_Log
  imports Dev_Access_Log
begin

text \<open>
  The log of failed MQTT connections, \<open>iot_mqtt/mqtt_log.c\<close> (built with
  \<open>CONFIG_MQTT_LOG_SAVE_ENABLE\<close>).  It differs from the register change log in three points: the
  header carries a version, a file with another header is deleted, and records collect in a buffer
  of 64 that is written when it is full or ten minutes after the last write, and emptied only when
  both halves of the batch were written.
\<close>

section \<open>Records\<close>

definition NETIF_TYPE_WIFI_STA :: u8 where "NETIF_TYPE_WIFI_STA = 1"
definition NETIF_TYPE_PPP :: u8 where "NETIF_TYPE_PPP = 2"

record mqtt_conn_fail_log =
  log_id :: u32
  fail_timestamp :: u64
  svc_timestamp :: u64
  uptime_seconds :: u32
  use_mqtts :: u8
  password :: u64
  reason :: u8
  sys_errno :: u32
  error_type :: u8
  connect_return_code :: u8
  network_type :: u8
  rssi :: u8
  retry_delay_ms :: u16
  esp_tls_last_esp_err :: u32
  esp_tls_stack_err :: u32
  esp_tls_cert_verify_flags :: u32
  reserved :: u64

definition mqtt_bytes :: "mqtt_conn_fail_log \<Rightarrow> u8 list" where
  "mqtt_bytes r =
     le32 (log_id r) @ le64 (fail_timestamp r) @ le64 (svc_timestamp r) @ le32 (uptime_seconds r)
     @ [use_mqtts r] @ le64 (password r) @ [reason r] @ le32 (sys_errno r)
     @ [error_type r, connect_return_code r, network_type r, rssi r] @ le16 (retry_delay_ms r)
     @ le32 (esp_tls_last_esp_err r) @ le32 (esp_tls_stack_err r)
     @ le32 (esp_tls_cert_verify_flags r) @ le64 (reserved r)"

text \<open>Both sides of the comparison are 64 bits wide and compared unsigned.\<close>

definition mqtt_layout :: journal_layout where
  "mqtt_layout =
     \<lparr>header_len = 64, start_addr = 64, rec_len = 64, max_num = 511, field_off = 2,
      file_ver = Some 1, newer_than = (\<lambda>since r. since < get64 r 4)\<rparr>"

definition MQTT_LOG_PR0CESS_MAX_NUM :: nat where "MQTT_LOG_PR0CESS_MAX_NUM = 64"
definition MQTT_LOG_SAVE_TIMEOUT :: u32 where "MQTT_LOG_SAVE_TIMEOUT = 600000"

record mqtt_log =
  mq_queue :: "mqtt_conn_fail_log list"
  mq_buffer :: "mqtt_conn_fail_log list"
  mq_journal :: journal_file
  mq_pre_time :: u32
  curr_log_id :: u32

definition Mqtt_Log_Module_Init ::
    "bool \<Rightarrow> read_io \<Rightarrow> write_io \<Rightarrow> mqtt_log \<Rightarrow> int \<times> mqtt_log" where
  "Mqtt_Log_Module_Init removed rio wio s =
     (let (ret, j) = Journal_Init mqtt_layout (Some removed) rio wio (mq_journal s)
      in (ret, s\<lparr>mq_journal := j\<rparr>))"

section \<open>Generating a record\<close>

definition Mqtt_Log_Generate ::
    "gen_env \<Rightarrow> u64 \<Rightarrow> u8 \<Rightarrow> u8 \<Rightarrow> mqtt_conn_fail_log option \<Rightarrow> mqtt_log \<Rightarrow> int \<times> mqtt_log" where
  "Mqtt_Log_Generate env time_now wifi_rssi ppp_rssi params s =
     (case params of
        None \<Rightarrow> (- 1, s)
      | Some p \<Rightarrow>
          if \<not> mem_free env 0 then (- 1, s)
          else
            let lid = curr_log_id s + 1;
                r = p\<lparr>log_id := lid, fail_timestamp := time_now,
                      rssi := (if network_type p = NETIF_TYPE_WIFI_STA then wifi_rssi
                               else if network_type p = NETIF_TYPE_PPP then ppp_rssi
                               else rssi p)\<rparr>;
                s' = s\<lparr>curr_log_id := lid\<rparr>
            in if queue_takes env 0 then (0, s'\<lparr>mq_queue := mq_queue s @ [r]\<rparr>) else (- 1, s'))"

section \<open>Saving and reading\<close>

definition Mqtt_Log_Write ::
    "write_io \<Rightarrow> u16 \<Rightarrow> u8 list list \<Rightarrow> flash_file \<Rightarrow> int \<times> flash_file" where
  "Mqtt_Log_Write = Journal_Log_Write mqtt_layout"

definition mqtt_write_due :: "u32 \<Rightarrow> nat \<Rightarrow> u32 \<Rightarrow> bool" where
  "mqtt_write_due now_time buffered pre_time \<longleftrightarrow>
     MQTT_LOG_PR0CESS_MAX_NUM \<le> buffered
     \<or> (0 < buffered \<and> (pre_time = 0 \<or> MQTT_LOG_SAVE_TIMEOUT < now_time - pre_time))"

definition Mqtt_Log_Save_Task ::
    "u32 \<Rightarrow> bool \<Rightarrow> write_io \<Rightarrow> write_io \<Rightarrow> write_io \<Rightarrow> mqtt_log \<Rightarrow> mqtt_log" where
  "Mqtt_Log_Save_Task now_time locked io1 io2 io3 s =
     (if \<not> locked then s
      else
        let free = MQTT_LOG_PR0CESS_MAX_NUM - length (mq_buffer s);
            buffer = mq_buffer s @ take free (mq_queue s);
            s' = s\<lparr>mq_buffer := buffer, mq_queue := drop free (mq_queue s)\<rparr>
        in if \<not> mqtt_write_due now_time (length buffer) (mq_pre_time s) then s'
           else
             let (ok, j) = Journal_Save mqtt_layout io1 io2 io3 (map mqtt_bytes buffer) (mq_journal s)
             in if ok then s'\<lparr>mq_journal := j, mq_pre_time := now_time, mq_buffer := []\<rparr>
                else s'\<lparr>mq_journal := j\<rparr>)"

definition mqtt_view :: "mqtt_log \<Rightarrow> log_view" where
  "mqtt_view s = journal_view mqtt_layout (jheader (mq_journal s))"

definition Mqtt_Log_Count_New_Records :: "(nat \<Rightarrow> read_io) \<Rightarrow> u64 \<Rightarrow> mqtt_log \<Rightarrow> u16" where
  "Mqtt_Log_Count_New_Records rio since s =
     Log_Count_New_Records rio (mqtt_view s) (jfile (mq_journal s)) since"

definition Mqtt_Log_Read_Incremental ::
    "bool \<Rightarrow> bool \<Rightarrow> (nat \<Rightarrow> read_io) \<Rightarrow> u64 \<Rightarrow> mqtt_log \<Rightarrow> int \<times> u8 list option" where
  "Mqtt_Log_Read_Incremental locked calloc rio since s =
     Log_Read_Incremental locked calloc rio 64 (mqtt_view s) (jfile (mq_journal s)) since"

definition Is_Mqtt_Log_Count_New :: "bool \<Rightarrow> (nat \<Rightarrow> read_io) \<Rightarrow> u64 \<Rightarrow> mqtt_log \<Rightarrow> int" where
  "Is_Mqtt_Log_Count_New locked rio since s =
     Is_Log_Count_New locked rio (mqtt_view s) (jfile (mq_journal s)) since"

section \<open>Lemmas\<close>

lemma mqtt_layout_simps [simp]:
  "header_len mqtt_layout = 64" "start_addr mqtt_layout = 64" "rec_len mqtt_layout = 64"
  "max_num mqtt_layout = 511" "field_off mqtt_layout = 2" "file_ver mqtt_layout = Some 1"
  "newer_than mqtt_layout since r \<longleftrightarrow> since < get64 r 4"
  by (simp_all add: mqtt_layout_def)

interpretation mqtt: journal mqtt_layout
  by unfold_locales (simp add: layout_ok_def)

lemma length_mqtt_bytes [simp]: "length (mqtt_bytes r) = 64"
  by (simp add: mqtt_bytes_def)

lemma newer_mqtt_bytes:
  "newer_than mqtt_layout since (mqtt_bytes r) \<longleftrightarrow> since < fail_timestamp r"
  by (simp add: mqtt_bytes_def get64_append get64_le64)

text \<open>The invariant of the module; a batch is at most the 64 records of the buffer.\<close>

definition mqtt_inv :: "mqtt_log \<Rightarrow> bool" where
  "mqtt_inv s \<longleftrightarrow> journal_ok mqtt_layout (mq_journal s) \<and> length (mq_buffer s) \<le> 64"

text \<open>What is on its way to the file: the buffer, then the queue.\<close>

definition mqtt_pending :: "mqtt_log \<Rightarrow> mqtt_conn_fail_log list" where
  "mqtt_pending s = mq_buffer s @ mq_queue s"

lemma mqtt_pending_updates:
  "mqtt_pending (s\<lparr>mq_buffer := b, mq_queue := q\<rparr>) = b @ q"
  "mqtt_pending (s\<lparr>mq_buffer := b, mq_queue := q, mq_journal := j\<rparr>) = b @ q"
  by (simp_all add: mqtt_pending_def)

lemma mqtt_batch_ok: "length rs \<le> 511 \<Longrightarrow> batch_of mqtt_layout (map mqtt_bytes rs)"
  by (auto simp: batch_of_def)

lemma take_fill: "length b \<le> n \<Longrightarrow> b @ take (n - length b) q = take n (b @ q)"
  by simp

text \<open>
  On a working medium a run of the save task loses and repeats nothing: either the records on
  their way to the file are the same as before and so is the journal, or the first 64 of them are
  now the newest of the last 511 records and the rest are still on their way.
\<close>

theorem mqtt_save_moves_records:
  fixes now_time :: u32 and locked :: bool
  assumes "mqtt_inv s"
  defines "s' \<equiv> Mqtt_Log_Save_Task now_time locked good_write good_write good_write s"
  shows "mqtt_inv s'
    \<and> (mqtt_pending s' = mqtt_pending s \<and> mq_journal s' = mq_journal s
       \<or> mqtt_pending s' = drop 64 (mqtt_pending s)
         \<and> journal_records mqtt_layout (mq_journal s')
             = last_records 511 (journal_records mqtt_layout (mq_journal s)
                 @ map mqtt_bytes (take 64 (mqtt_pending s))))"
proof (cases "locked \<and> mqtt_write_due now_time (length (take 64 (mqtt_pending s))) (mq_pre_time s)")
  case False
  then show ?thesis
    using assms(1)
    by (auto simp: s'_def Mqtt_Log_Save_Task_def mqtt_inv_def mqtt_pending_def Let_def
        MQTT_LOG_PR0CESS_MAX_NUM_def)
next
  case True
  let ?b = "map mqtt_bytes (take 64 (mqtt_pending s))"
  have ok: "journal_ok mqtt_layout (mq_journal s)" using assms(1) by (simp add: mqtt_inv_def)
  have b: "batch_of mqtt_layout ?b" by (rule mqtt_batch_ok) simp
  note st = journal_store_rep [OF mqtt.layout ok b]
  obtain pre slots where rep: "journal_rep mqtt_layout (jheader (mq_journal s)) pre slots (mq_journal s)"
    using ok by (auto simp: journal_ok_def)
  have fst: "Journal_Save mqtt_layout good_write good_write good_write ?b (mq_journal s)
      = (True, journal_store mqtt_layout ?b (mq_journal s))"
    using Journal_Save_rep [OF mqtt.layout rep b] by (auto simp: journal_store_def)
  have buf: "mq_buffer s @ take (64 - length (mq_buffer s)) (mq_queue s) = take 64 (mqtt_pending s)"
      "drop (64 - length (mq_buffer s)) (mq_queue s) = drop 64 (mqtt_pending s)"
    using assms(1) by (simp_all add: mqtt_pending_def mqtt_inv_def)
  have "s' = s\<lparr>mq_buffer := [], mq_queue := drop 64 (mqtt_pending s),
      mq_journal := journal_store mqtt_layout ?b (mq_journal s), mq_pre_time := now_time\<rparr>"
    unfolding s'_def Mqtt_Log_Save_Task_def MQTT_LOG_PR0CESS_MAX_NUM_def Let_def buf
    using True fst by simp
  then show ?thesis
    using st by (simp add: mqtt_inv_def mqtt_pending_def)
qed

definition sample_fail :: mqtt_conn_fail_log where
  "sample_fail =
     \<lparr>log_id = 1, fail_timestamp = 5000, svc_timestamp = 0, uptime_seconds = 60, use_mqtts = 1,
      password = 0, reason = 2, sys_errno = 0, error_type = 0, connect_return_code = 0,
      network_type = 1, rssi = 0xC4, retry_delay_ms = 1000, esp_tls_last_esp_err = 0,
      esp_tls_stack_err = 0, esp_tls_cert_verify_flags = 0, reserved = 0\<rparr>"

definition sample_mqtt_header :: "u8 list" where
  "sample_mqtt_header = [1, 0, 0xFF, 1] @ replicate 60 0"

definition sample_mqtt :: mqtt_log where
  "sample_mqtt =
     \<lparr>mq_queue = [], mq_buffer = [sample_fail],
      mq_journal = \<lparr>jheader = sample_mqtt_header, jfile = Some sample_mqtt_header\<rparr>,
      mq_pre_time = 0, curr_log_id = 1\<rparr>"

lemma sample_mqtt_rep:
  "journal_rep mqtt_layout sample_mqtt_header sample_mqtt_header [] (mq_journal sample_mqtt)"
  by (simp add: journal_rep_def h_max_def h_cur_def h_idx_def sample_mqtt_header_def get16_def
      mk16_def nth_append sample_mqtt_def)

lemma mqtt_save_moves_records_witness:
  "mqtt_inv (Mqtt_Log_Save_Task 1000 True good_write good_write good_write sample_mqtt)"
proof -
  have "mqtt_inv sample_mqtt"
    using sample_mqtt_rep by (auto simp: mqtt_inv_def journal_ok_def sample_mqtt_def)
  from mqtt_save_moves_records [OF this] show ?thesis by blast
qed

text \<open>
  An append that stores only the first \<open>k\<close> bytes of the batch and fails leaves the buffer as it
  was, so the batch is written again; but the torn bytes stay in the file, and after the successful
  repetition the log shows, behind the old records, the batch shifted by \<open>k\<close> bytes: records cut out
  of the torn prefix followed by the beginning of the batch, for good.
\<close>

theorem mqtt_torn_append_shifts_log:
  assumes "journal_rep mqtt_layout h pre slots (mq_journal s)" "mq_buffer s \<noteq> []" "mq_queue s = []"
    and "length (mq_buffer s) \<le> 64" "length slots + 64 < 511" "mq_pre_time s = 0"
  shows "let batch = concat (map mqtt_bytes (mq_buffer s));
             s1 = Mqtt_Log_Save_Task t1 True (torn_append (length batch - k)) io2 io3 s;
             s2 = Mqtt_Log_Save_Task t2 True good_write good_write good_write s1
         in mq_buffer s1 = mq_buffer s \<and> mq_buffer s2 = []
            \<and> journal_records mqtt_layout (mq_journal s2)
              = slots @ chunks 64 (length (mq_buffer s)) (take k batch @ batch)"
proof -
  let ?b = "map mqtt_bytes (mq_buffer s)"
  have b: "batch_of mqtt_layout ?b" "?b \<noteq> []" and room: "length slots + length ?b < 511"
    using assms by (auto intro!: mqtt_batch_ok)
  let ?J = "Journal_Save mqtt_layout (torn_append (length (concat ?b) - k)) io2 io3 ?b (mq_journal s)"
  have j: "\<not> fst ?J"
    using Journal_Save_torn [OF mqtt.layout assms(1) b, of k io2 io3] room by simp
  have due: "mqtt_write_due t (length (mq_buffer s)) 0" for t
    using assms(2) by (simp add: mqtt_write_due_def)
  define s1 where "s1 = Mqtt_Log_Save_Task t1 True (torn_append (length (concat ?b) - k)) io2 io3 s"
  have s1: "mq_buffer s1 = mq_buffer s" "mq_queue s1 = []" "mq_pre_time s1 = 0"
      "mq_journal s1 = snd ?J"
    using assms(3,6) due j
    by (simp_all add: s1_def Mqtt_Log_Save_Task_def Let_def case_prod_beta)
  define s2 where "s2 = Mqtt_Log_Save_Task t2 True good_write good_write good_write s1"
  have retry: "fst (Journal_Save mqtt_layout good_write good_write good_write ?b (snd ?J))"
      "journal_records mqtt_layout (journal_store mqtt_layout ?b (snd ?J))
        = slots @ chunks 64 (length ?b) (take k (concat ?b) @ concat ?b)"
    using Journal_Save_retry_shifted [OF mqtt.layout assms(1) b, of k io2 io3] room by simp_all
  have s2: "mq_buffer s2 = []" "mq_journal s2 = journal_store mqtt_layout ?b (snd ?J)"
    using s1 due retry(1)
    by (simp_all add: s2_def Mqtt_Log_Save_Task_def Let_def case_prod_beta journal_store_def)
  show ?thesis
    using s1(1) s2 retry(2) unfolding Let_def s1_def [symmetric] s2_def [symmetric] by simp
qed

lemma mqtt_torn_append_shifts_log_witness:
  "let batch = mqtt_bytes sample_fail;
       s1 = Mqtt_Log_Save_Task 1000 True (torn_append 54) good_write good_write sample_mqtt;
       s2 = Mqtt_Log_Save_Task 4000 True good_write good_write good_write s1
   in mq_buffer s1 = [sample_fail] \<and> mq_buffer s2 = []
      \<and> journal_records mqtt_layout (mq_journal s2) = [take 10 batch @ take 54 batch]"
  using mqtt_torn_append_shifts_log [OF sample_mqtt_rep, where k = 10 and ?t1.0 = 1000
      and ?t2.0 = 4000 and ?io2.0 = good_write and ?io3.0 = good_write]
  by (simp add: sample_mqtt_def chunks_def Let_def)

text \<open>A failed write that stores nothing costs nothing here: the records stay in the buffer.\<close>

lemma mqtt_failed_write_keeps_records:
  assumes "mqtt_inv s"
    and "fst (Journal_Save mqtt_layout io1 io2 io3 (map mqtt_bytes (take 64 (mqtt_pending s)))
           (mq_journal s)) = False"
  shows "mqtt_pending (Mqtt_Log_Save_Task t True io1 io2 io3 s) = mqtt_pending s"
proof -
  have buf: "mq_buffer s @ take (64 - length (mq_buffer s)) (mq_queue s) = take 64 (mqtt_pending s)"
      "drop (64 - length (mq_buffer s)) (mq_queue s) = drop 64 (mqtt_pending s)"
    using assms(1) by (simp_all add: mqtt_pending_def mqtt_inv_def)
  show ?thesis
    unfolding Mqtt_Log_Save_Task_def MQTT_LOG_PR0CESS_MAX_NUM_def Let_def buf
    using assms(2) by (simp add: mqtt_pending_updates case_prod_beta)
qed

end
