(* ===== verification/History_Ring.thy ===== *)
theory History_Ring
  imports Circular_Log
begin

text \<open>
  The ring that the two logs of \<open>data_record/dev_data_record.c\<close> share: a file without a header, one
  record written at a time, the index and the count kept in the settings of the board and not in the
  file.  The locale \<open>history_log\<close> extends the interface of a log: \<open>Event_Log\<close> and \<open>Fault_Log\<close> interpret
  it with their constants.
\<close>

section \<open>The ring\<close>

record history_ring =
  hr_file :: flash_file
  AddrIndex :: u32
  SaveCount :: u32
  settings_dirty :: bool

text \<open>Writing one record at the index and advancing it: the common part of \<open>Event_Pop\<close> and
  \<open>Logger_Pop\<close>.  The index is cut to 16 bits on its way to the writer.\<close>

definition advance_index :: "u32 \<Rightarrow> u32 \<Rightarrow> u32 \<Rightarrow> u32 \<times> u32" where
  "advance_index max_num idx cnt =
     (let (idx', cnt') = (if max_num \<le> idx + 1 then (0, max_num) else (idx + 1, cnt))
      in (idx', if cnt' \<noteq> max_num then idx' else cnt'))"

definition history_store ::
    "u32 \<Rightarrow> u32 \<Rightarrow> write_io \<Rightarrow> u8 list \<Rightarrow> history_ring \<Rightarrow> bool \<times> history_ring" where
  "history_store max_num len io record r =
     (let file_bias = ucast (ucast (AddrIndex r) :: u16);
          (ret, f) = historic_data_write io file_bias len record (hr_file r)
      in if ret = 0 then
           let (idx, cnt) = advance_index max_num (AddrIndex r) (SaveCount r)
           in (True, \<lparr>hr_file = f, AddrIndex = idx, SaveCount = cnt, settings_dirty = True\<rparr>)
         else (False, r\<lparr>hr_file := f\<rparr>))"

definition ring_view :: "u16 \<Rightarrow> u16 \<Rightarrow> (u64 \<Rightarrow> u8 list \<Rightarrow> bool) \<Rightarrow> history_ring \<Rightarrow> log_view" where
  "ring_view max_num len newer r =
     \<lparr>max_records = max_num, current_records = ucast (SaveCount r),
      write_index = ucast (AddrIndex r), log_start = 0, log_len = unat len, is_newer = newer\<rparr>"

section \<open>One store\<close>

text \<open>Both logs feed their ring through a queue of fixed length that drops what does not fit.\<close>

lemma take_take_append: "take n (take n xs @ ys) = take n (xs @ ys)"
  by (simp add: min_def)

definition ring_rep :: "nat \<Rightarrow> nat \<Rightarrow> u8 list list \<Rightarrow> history_ring \<Rightarrow> bool" where
  "ring_rep M n slots r \<longleftrightarrow>
     (hr_file r = Some (concat slots) \<or> hr_file r = None \<and> slots = [])
     \<and> (\<forall>s\<in>set slots. length s = n) \<and> unat (SaveCount r) = length slots \<and> length slots \<le> M
     \<and> unat (AddrIndex r) < M \<and> (length slots < M \<longrightarrow> unat (AddrIndex r) = length slots)"

definition ring_records :: "nat \<Rightarrow> u8 list list \<Rightarrow> history_ring \<Rightarrow> u8 list list" where
  "ring_records M slots r =
     (if length slots < M then slots else rotate (unat (AddrIndex r)) slots)"

lemma unat_suc:
  fixes i m :: u32
  assumes "unat i < unat m"
  shows "unat (i + 1) = Suc (unat i)"
  using assms unsigned_less [of m, where 'a = nat] by (simp add: unat_word_ariths)

lemma advance_index_unat:
  fixes m :: u32
  assumes "unat i < unat m"
  shows "unat (fst (advance_index m i c)) = (if Suc (unat i) = unat m then 0 else Suc (unat i))"
    and "unat (snd (advance_index m i c))
      = (if Suc (unat i) = unat m \<or> c = m then unat m else Suc (unat i))"
  using assms unat_suc [OF assms] by (auto simp: advance_index_def Let_def word_le_nat_alt)

lemma rotate_Suc_update:
  assumes "i < length xs"
  shows "rotate (Suc i) (xs[i := x]) = tl (rotate i xs) @ [x]"
proof (cases "Suc i = length xs")
  case True
  then have "xs = take i xs @ [xs ! i]"
    by (metis assms take_Suc_conv_app_nth take_all_iff order_refl)
  moreover have "xs[i := x] = take i xs @ [x]"
    using True assms by (simp add: upd_conv_take_nth_drop)
  moreover have "tl (drop i xs) = []"
    using True by (simp add: tl_drop flip: drop_Suc)
  ultimately show ?thesis
    using True assms by (simp add: rotate_drop_take)
next
  case False
  then show ?thesis
    using assms by (simp add: rotate_drop_take drop_Suc take_Suc_conv_app_nth tl_drop
        upd_conv_take_nth_drop)
qed


lemma concat_slots_put:
  assumes "\<forall>s\<in>set slots. length s = n" "length rec = n" "i < length slots"
  shows "file_put (i * n) rec (concat slots) = concat (slots[i := rec])"
proof -
  have "concat slots = concat (take i slots) @ slots ! i @ concat (drop (Suc i) slots)"
    using assms(3) by (metis concat.simps(2) concat_append id_take_nth_drop)
  moreover have "length (concat (take i slots)) = i * n"
    using assms length_concat_const [of "take i slots" n] by (auto dest: in_set_takeD)
  moreover have "length (slots ! i) = length rec" using assms by simp
  ultimately have "file_put (i * n) rec (concat slots)
      = concat (take i slots) @ rec @ concat (drop (Suc i) slots)"
    by simp
  then show ?thesis using assms(3) by (simp add: upd_conv_take_nth_drop)
qed

lemma concat_slots_append:
  assumes "\<forall>s\<in>set slots. length s = n"
  shows "file_put (length slots * n) rec (concat slots) = concat (slots @ [rec])"
  using length_concat_const [OF assms] file_put_overrun [of "concat slots" "length slots * n" "[]"]
  by simp

lemma last_records_snoc:
  "length xs < M \<Longrightarrow> last_records M (xs @ [x]) = xs @ [x]"
  "length xs = M \<Longrightarrow> 0 < M \<Longrightarrow> last_records M (xs @ [x]) = tl xs @ [x]"
  by (cases xs; simp add: last_records_def)+

lemma history_store_ring:
  assumes rep: "ring_rep M n slots r" and rec: "length rec = n"
    and M: "0 < M" "M < 0xFFFF" "unat m = M" and n: "0 < n" "unat len = n" "M * n < 2 ^ 32"
  obtains slots' r' where "history_store m len good_write rec r = (True, r')"
    "ring_rep M n slots' r'"
    "ring_records M slots' r' = last_records M (ring_records M slots r @ [rec])"
proof -
  define i where "i = unat (AddrIndex r)"
  have i: "i < M" "i < unat m" and len: "\<forall>s\<in>set slots. length s = n"
    and cnt: "unat (SaveCount r) = length slots" "length slots \<le> M"
    and ix: "length slots < M \<Longrightarrow> i = length slots"
    using rep M(3) by (auto simp: ring_rep_def i_def)
  have bias: "unat (ucast (ucast (AddrIndex r) :: u16) :: u32) = i"
    using i M(2) by (simp add: i_def unsigned_ucast_eq take_bit_nat_eq_self unsigned_take_bit_eq)
  have "i * n < 2 ^ 32"
    using i n(3) by (meson less_imp_le_nat mult_le_mono1 order_le_less_trans)
  moreover have "ucast (ucast (AddrIndex r) :: u16) \<noteq> (0xFFFF :: u32)"
    using bias i M(2) by auto
  moreover have "len \<noteq> 0" using n by auto
  moreover have "(case hr_file r of None \<Rightarrow> [] | Some b \<Rightarrow> b) = concat slots"
    using rep by (auto simp: ring_rep_def)
  moreover define slots' where
    "slots' = (if length slots < M then slots @ [rec] else slots[i := rec])"
  moreover have "file_put (i * n) rec (concat slots) = concat slots'"
    using concat_slots_append [OF len] concat_slots_put [OF len rec, of i] ix i cnt(2)
    by (auto simp: slots'_def)
  ultimately have w: "historic_data_write good_write (ucast (ucast (AddrIndex r) :: u16)) len rec
      (hr_file r) = (0, Some (concat slots'))"
    using historic_data_write_at rec n(2) bias by metis
  obtain i' c' where adv: "advance_index m (AddrIndex r) (SaveCount r) = (i', c')"
    by fastforce
  have i': "unat i' = (if Suc i = M then 0 else Suc i)"
    and c': "unat c' = (if Suc i = M \<or> SaveCount r = m then M else Suc i)"
    using advance_index_unat [of "AddrIndex r" m "SaveCount r"] i adv M(3) by (auto simp: i_def)
  have full: "SaveCount r = m \<longleftrightarrow> length slots = M"
    using cnt M(3) by (metis word_unat_eq_iff)
  define r' where "r' = \<lparr>hr_file = Some (concat slots'), AddrIndex = i', SaveCount = c',
      settings_dirty = True\<rparr>"
  have st: "history_store m len good_write rec r = (True, r')"
    by (simp add: history_store_def Let_def w adv r'_def)
  have "ring_rep M n slots' r'"
    using len rec i i' c' full cnt ix M(1)
    by (auto simp: ring_rep_def r'_def slots'_def dest: set_update_subset_insert [THEN subsetD])
  moreover have "ring_records M slots' r' = last_records M (ring_records M slots r @ [rec])"
  proof (cases "length slots < M")
    case True
    then show ?thesis
      using ix i' by (auto simp: ring_records_def slots'_def last_records_snoc r'_def)
  next
    case False
    then have l: "length slots = M" using cnt by simp
    have "rotate (unat i') slots' = rotate (Suc i) slots'"
      using i' l rotate_id [of "Suc i" slots'] by (auto simp: slots'_def simp del: rotate_Suc)
    then show ?thesis
      using l i M(1) rotate_Suc_update [of i slots rec]
      by (simp add: ring_records_def slots'_def r'_def last_records_snoc i_def del: rotate_Suc)
  qed
  ultimately show ?thesis using st that by blast
qed


section \<open>The ring as a log\<close>

definition ring_store :: "u32 \<Rightarrow> u32 \<Rightarrow> u8 list list \<Rightarrow> history_ring \<Rightarrow> history_ring" where
  "ring_store m len rs r = fold (\<lambda>rec r. snd (history_store m len good_write rec r)) rs r"

definition ring_ok :: "nat \<Rightarrow> nat \<Rightarrow> history_ring \<Rightarrow> bool" where
  "ring_ok M n r \<longleftrightarrow> (\<exists>slots. ring_rep M n slots r)"

definition ring_slots :: "nat \<Rightarrow> history_ring \<Rightarrow> u8 list list" where
  "ring_slots n r = 
     (case hr_file r of
        None \<Rightarrow> []
      | Some bs \<Rightarrow> map (\<lambda>i. take n (drop (i * n) bs)) [0..<unat (SaveCount r)])"

lemma ring_slots_eq:
  assumes "ring_rep M n slots r"
  shows "ring_slots n r = slots"
proof -
  have len: "\<forall>s\<in>set slots. length s = n" using assms by (simp add: ring_rep_def)
  have "take n (drop (i * n) (concat slots)) = slots ! i" if "i < length slots" for i
    using take_drop_concat [OF len, of i 1 "[]"] that by (simp add: Cons_nth_drop_Suc [symmetric])
  then have "map (\<lambda>i. take n (drop (i * n) (concat slots))) [0..<length slots] = slots"
    by (intro nth_equalityI) auto
  then show ?thesis using assms by (auto simp: ring_rep_def ring_slots_def)
qed

locale history_log =
  fixes M :: nat and len :: u16 and newer :: "u64 \<Rightarrow> u8 list \<Rightarrow> bool"
  assumes M: "0 < M" "M < 0xFFFF" and len: "0 < len" and space: "M * unat len < 2 ^ 32"
begin

abbreviation m :: u32 where "m \<equiv> of_nat M"
abbreviation l32 :: u32 where "l32 \<equiv> ucast len"
abbreviation n :: nat where "n \<equiv> unat len"
abbreviation the_view :: "history_ring \<Rightarrow> log_view" where
  "the_view \<equiv> ring_view (of_nat M) len newer"

lemma widths: "unat m = M" "unat (of_nat M :: u16) = M" "unat l32 = n" "0 < n"
  using M len by (simp_all add: unat_of_nat unat_ucast_u16_u32 unat_gt_0 word_greater_zero_iff)

lemma view_rep:
  assumes "ring_rep M n slots r"
  shows "log_rep (the_view r) (hr_file r) slots"
proof -
  have c: "unat (ucast (SaveCount r) :: u16) = length slots"
    "unat (ucast (AddrIndex r) :: u16) = unat (AddrIndex r)"
    using assms M by (auto simp: ring_rep_def unsigned_ucast_eq take_bit_nat_eq_self unsigned_take_bit_eq)
  have "(of_nat M :: u16) \<noteq> 0" using widths(2) M by auto
  then show ?thesis
    using assms c widths
    by (auto simp: log_rep_def ring_view_def ring_rep_def word_le_nat_alt word_less_nat_alt
        intro!: exI [of _ "[]"])
qed

lemma view_records:
  assumes "ring_rep M n slots r"
  shows "log_records (the_view r) slots = ring_records M slots r"
proof -
  have c: "unat (ucast (SaveCount r) :: u16) = length slots"
    "unat (ucast (AddrIndex r) :: u16) = unat (AddrIndex r)"
    using assms M by (auto simp: ring_rep_def unsigned_ucast_eq take_bit_nat_eq_self unsigned_take_bit_eq)
  then show ?thesis
    using assms widths(2)
    by (auto simp: log_records_def ring_records_def oldest_record_p_idx_def ring_view_def
        word_less_nat_alt)
qed

lemma store_one:
  assumes "ring_rep M n slots r" "length rec = n"
  obtains slots' where "fst (history_store m l32 good_write rec r)"
    "ring_rep M n slots' (snd (history_store m l32 good_write rec r))"
    "ring_records M slots' (snd (history_store m l32 good_write rec r))
      = last_records M (ring_records M slots r @ [rec])"
  using history_store_ring [OF assms M(1,2) widths(1,4,3) space] by (metis fst_conv snd_conv)

lemma store_many:
  assumes "ring_rep M n slots r" "\<forall>x\<in>set rs. length x = n"
  shows "\<exists>slots'. ring_rep M n slots' (ring_store m l32 rs r) \<and>
    ring_records M slots' (ring_store m l32 rs r) = last_records M (ring_records M slots r @ rs)"
  using assms
proof (induction rs arbitrary: slots r)
  case Nil
  then have "length (ring_records M slots r) \<le> M"
    by (simp add: ring_records_def ring_rep_def)
  then show ?case using Nil by (auto simp: ring_store_def)
next
  case (Cons x rs)
  obtain s1 where s1: "ring_rep M n s1 (snd (history_store m l32 good_write x r))"
    "ring_records M s1 (snd (history_store m l32 good_write x r))
      = last_records M (ring_records M slots r @ [x])"
    using store_one [OF Cons.prems(1), of x] Cons.prems(2) by auto
  then show ?case
    using Cons.IH [OF s1(1)] Cons.prems(2)
    by (auto simp: ring_store_def s1(2) last_records_append_left)
qed

end

sublocale history_log \<subseteq> circular_log the_view hr_file "ring_slots n" "\<lambda>_. []" "ring_ok M n" M
  "ring_store m l32" "\<lambda>b. \<forall>x\<in>set b. length x = n"
proof unfold_locales
  fix r assume "ring_ok M n r"
  then show "log_rep (the_view r) (hr_file r) (ring_slots n r)"
    using view_rep ring_slots_eq by (auto simp: ring_ok_def)
next
  fix r assume "ring_ok M n r" "ring_slots n r \<noteq> []"
  then show "length [] = log_start (the_view r) \<and> (\<exists>post. hr_file r = Some ([] @ post))"
    using ring_slots_eq by (auto simp: ring_ok_def ring_rep_def ring_view_def)
next
  fix r and b :: "u8 list list"
  assume r: "ring_ok M n r" "\<forall>x\<in>set b. length x = n"
  then obtain slots where slots: "ring_rep M n slots r" by (auto simp: ring_ok_def)
  obtain s' where s': "ring_rep M n s' (ring_store m l32 b r)"
    "ring_records M s' (ring_store m l32 b r) = last_records M (ring_records M slots r @ b)"
    using store_many [OF slots r(2)] by blast
  then show "ring_ok M n (ring_store m l32 b r)" by (auto simp: ring_ok_def)
  show "log_records (the_view (ring_store m l32 b r)) (ring_slots n (ring_store m l32 b r))
      = last_records M (log_records (the_view r) (ring_slots n r) @ b)"
    using s' slots by (simp add: ring_slots_eq view_records)
qed

context history_log
begin

lemma records_le: "ring_ok M n r \<Longrightarrow> length (records r) \<le> M"
  by (auto simp: ring_ok_def ring_slots_eq) (simp add: ring_rep_def)

lemma log_start_ring: "log_start (ring_view mx l nw r) = 0"
  by (simp add: ring_view_def)

lemma read_everything:
  "ring_ok M n r \<Longrightarrow> Log_Read_Incremental True True (\<lambda>_. good_read) 0 (the_view r) (hr_file r) 0
     = (0, if records r = [] then None else Some (concat (records r)))"
  using read_all [of r] read_all_empty [of r] by (simp add: log_start_ring)

lemma read_since:
  assumes "ring_ok M n r" "time_ordered (newer since) (records r)" "since \<noteq> 0"
  shows "Log_Read_Incremental True True (\<lambda>_. good_read) 0 (the_view r) (hr_file r) since
    = (0, let rs = filter (newer since) (records r) in if rs = [] then None else Some (concat rs))"
  using read_new [of r since] read_none [of r since] assms
  by (simp add: ring_view_def Let_def)

end

end
