(* ===== verification/Event_Log.thy ===== *)
theory Event_Log
  imports History_Ring
begin

text \<open>
  The log of the board's own events (\<open>data_record/dev_data_record.c\<close>): switched on, switched off,
  and one entry every four hours.  \<open>event_check\<close> runs periodically; it turns the event flags into
  queued records and moves one record from the queue to the file.
\<close>

section \<open>Board events\<close>

record iot_event =
  time_s :: u32
  ver_protocol :: u8
  FaultCode :: u16
  FaultState :: bool
  WarnCode :: u16
  WarnState :: bool
  Num_IOT :: u8
  Num_INV :: u8
  Num_PACK :: u8
  Num_udp_net :: u8
  Num_sub1g_net :: u8
  time_wifi_connect :: u16
  time_sub1g_connect :: u16

text \<open>A 15-bit code with the state in the top bit; the structure is packed to 18 bytes of the 20.\<close>

definition code_field :: "u16 \<Rightarrow> bool \<Rightarrow> u16" where
  "code_field c st = take_bit 15 c OR (if st then push_bit 15 1 else 0)"

definition event_bytes :: "iot_event \<Rightarrow> u8 list" where
  "event_bytes e =
     le32 (time_s e) @ [ver_protocol e] @ le16 (code_field (FaultCode e) (FaultState e))
     @ le16 (code_field (WarnCode e) (WarnState e))
     @ [Num_IOT e, Num_INV e, Num_PACK e, Num_udp_net e, Num_sub1g_net e]
     @ le16 (time_wifi_connect e) @ le16 (time_sub1g_connect e) @ [0, 0]"

definition EVENT_LOG_RECORD_MAX_NUM :: nat where "EVENT_LOG_RECORD_MAX_NUM = 200"
definition IOT_EVENT_FUNC_04_TYPE_LEN :: u16 where "IOT_EVENT_FUNC_04_TYPE_LEN = 20"
definition EVENT_QUEUE_LEN :: nat where "EVENT_QUEUE_LEN = 16"
definition H4_HOUR_INTERVAL :: u32 where "H4_HOUR_INTERVAL = 14400000"
definition CODE_ALARM_ON :: u16 where "CODE_ALARM_ON = 15000"
definition CODE_ALARM_OFF :: u16 where "CODE_ALARM_OFF = 15001"
definition CODE_ALARM_PERIOD_RECORD :: u16 where "CODE_ALARM_PERIOD_RECORD = 15002"
definition EVENT_IOT_PROTOCOL :: u8 where "EVENT_IOT_PROTOCOL = 4"

text \<open>The flags word: the three bits \<open>event_check\<close> handles, and the rest of the word, which only
  decides whether it looks at all.\<close>

record event_flags =
  turn_on :: bool
  turn_off :: bool
  period_flag :: bool
  other_flags :: bool

record event_log =
  ev_queue :: "iot_event list"
  ev_ring :: history_ring
  ev_flags :: event_flags
  ev_pre_time :: u32

record event_env =
  ev_now_time :: u32
  ev_now :: u64
  online_Iot_num :: u8
  online_Inv_num :: u8
  online_Pack_num :: u8
  wifi_connect_timestemp :: u32
  ev_mem :: "u16 \<Rightarrow> bool"
  ev_locked :: bool
  ev_io :: write_io

definition history_queue_init :: "event_log \<Rightarrow> event_log" where
  "history_queue_init s = s\<lparr>ev_queue := [], ev_flags := (ev_flags s)\<lparr>turn_on := True\<rparr>\<rparr>"

text \<open>\<open>xQueueSendToBack\<close> does not wait: a full queue drops the record.\<close>

definition Event_Push :: "event_env \<Rightarrow> iot_event \<Rightarrow> event_log \<Rightarrow> event_log" where
  "Event_Push env e s =
     (if \<not> ev_mem env (WarnCode e) then s
      else if length (ev_queue s) < EVENT_QUEUE_LEN then s\<lparr>ev_queue := ev_queue s @ [e]\<rparr> else s)"

definition SaveOneEvent :: "event_env \<Rightarrow> iot_event \<Rightarrow> event_log \<Rightarrow> event_log" where
  "SaveOneEvent env e s = Event_Push env e s"

definition Event_Pop :: "bool \<Rightarrow> write_io \<Rightarrow> event_log \<Rightarrow> u8 \<times> event_log" where
  "Event_Pop locked io s =
     (if \<not> locked then (0xFF, s)
      else case ev_queue s of
        [] \<Rightarrow> (0xFF, s)
      | e # q \<Rightarrow>
          let (ok, r) = history_store (of_nat EVENT_LOG_RECORD_MAX_NUM)
                          (ucast IOT_EVENT_FUNC_04_TYPE_LEN) io (event_bytes e) (ev_ring s)
          in (if ok then 0 else 0xFF, s\<lparr>ev_queue := q, ev_ring := r\<rparr>))"

definition board_event :: "event_env \<Rightarrow> u16 \<Rightarrow> iot_event" where
  "board_event env code =
     \<lparr>time_s = ucast (ev_now env), ver_protocol = EVENT_IOT_PROTOCOL, FaultCode = 0,
      FaultState = False, WarnCode = code, WarnState = True, Num_IOT = online_Iot_num env,
      Num_INV = online_Inv_num env, Num_PACK = online_Pack_num env, Num_udp_net = 0,
      Num_sub1g_net = 0,
      time_wifi_connect =
        (if 0 < wifi_connect_timestemp env
         then ucast ((ev_now_time env - wifi_connect_timestemp env) div 1000 div 60) else 0),
      time_sub1g_connect = 0\<rparr>"

definition any_flag :: "event_flags \<Rightarrow> bool" where
  "any_flag f \<longleftrightarrow> turn_on f \<or> turn_off f \<or> period_flag f \<or> other_flags f"

definition flag_events :: "event_env \<Rightarrow> event_log \<Rightarrow> event_log" where
  "flag_events env s =
     (let s1 = (if turn_on (ev_flags s) then
                  let t = SaveOneEvent env (board_event env CODE_ALARM_ON) s
                  in t\<lparr>ev_flags := (ev_flags t)\<lparr>turn_on := False\<rparr>\<rparr> else s);
          s2 = (if turn_off (ev_flags s1) then
                  let t = SaveOneEvent env (board_event env CODE_ALARM_OFF) s1
                  in t\<lparr>ev_flags := (ev_flags t)\<lparr>turn_off := False\<rparr>\<rparr> else s1)
      in if period_flag (ev_flags s2) then
           let t = SaveOneEvent env (board_event env CODE_ALARM_PERIOD_RECORD) s2
           in t\<lparr>ev_flags := (ev_flags t)\<lparr>period_flag := False\<rparr>\<rparr> else s2)"

definition event_check :: "event_env \<Rightarrow> event_log \<Rightarrow> event_log" where
  "event_check env s =
     (let s1 = (if H4_HOUR_INTERVAL \<le> ev_now_time env - ev_pre_time s then
                  s\<lparr>ev_flags := (ev_flags s)\<lparr>period_flag := True\<rparr>, ev_pre_time := ev_now_time env\<rparr>
                else s);
          s2 = (if any_flag (ev_flags s1) then flag_events env s1 else s1)
      in snd (Event_Pop (ev_locked env) (ev_io env) s2))"

section \<open>Reading the event log\<close>

definition event_view :: "event_log \<Rightarrow> log_view" where
  "event_view s =
     ring_view (of_nat EVENT_LOG_RECORD_MAX_NUM) IOT_EVENT_FUNC_04_TYPE_LEN
       (\<lambda>since r. sint since < uint (get32 r 0)) (ev_ring s)"

definition IoT_Event_Log_Count_New_Records :: "(nat \<Rightarrow> read_io) \<Rightarrow> u64 \<Rightarrow> event_log \<Rightarrow> u16" where
  "IoT_Event_Log_Count_New_Records rio since s =
     Log_Count_New_Records rio (event_view s) (hr_file (ev_ring s)) since"

definition IoT_Event_Log_Read_Incremental ::
    "bool \<Rightarrow> bool \<Rightarrow> (nat \<Rightarrow> read_io) \<Rightarrow> u64 \<Rightarrow> event_log \<Rightarrow> int \<times> u8 list option" where
  "IoT_Event_Log_Read_Incremental locked calloc rio since s =
     Log_Read_Incremental locked calloc rio 0 (event_view s) (hr_file (ev_ring s)) since"

definition Is_IoT_Event_Log_Count_New :: "bool \<Rightarrow> (nat \<Rightarrow> read_io) \<Rightarrow> u64 \<Rightarrow> event_log \<Rightarrow> int" where
  "Is_IoT_Event_Log_Count_New locked rio since s =
     Is_Log_Count_New locked rio (event_view s) (hr_file (ev_ring s)) since"

section \<open>The ring of board events\<close>

interpretation ev: history_log EVENT_LOG_RECORD_MAX_NUM IOT_EVENT_FUNC_04_TYPE_LEN
  "\<lambda>since r. sint since < uint (get32 r 0)"
  by unfold_locales (simp_all add: EVENT_LOG_RECORD_MAX_NUM_def IOT_EVENT_FUNC_04_TYPE_LEN_def)

lemma length_event_bytes [simp]: "length (event_bytes e) = unat IOT_EVENT_FUNC_04_TYPE_LEN"
  by (simp add: event_bytes_def IOT_EVENT_FUNC_04_TYPE_LEN_def le32_def le16_def)

text \<open>What one check finds due, in the order it queues it.\<close>

definition period_due :: "event_env \<Rightarrow> u32 \<Rightarrow> bool" where
  "period_due env pre \<longleftrightarrow> H4_HOUR_INTERVAL \<le> ev_now_time env - pre"

definition due_events :: "event_env \<Rightarrow> event_log \<Rightarrow> iot_event list" where
  "due_events env s =
     (if turn_on (ev_flags s) then [board_event env CODE_ALARM_ON] else [])
     @ (if turn_off (ev_flags s) then [board_event env CODE_ALARM_OFF] else [])
     @ (if period_flag (ev_flags s) \<or> period_due env (ev_pre_time s)
        then [board_event env CODE_ALARM_PERIOD_RECORD] else [])"

definition cleared :: "event_flags \<Rightarrow> event_flags" where
  "cleared f = f\<lparr>turn_on := False, turn_off := False, period_flag := False\<rparr>"

lemma Event_Push_mem:
  "ev_mem env (WarnCode e) \<Longrightarrow>
     SaveOneEvent env e s = s\<lparr>ev_queue := ev_queue s @ take (EVENT_QUEUE_LEN - length (ev_queue s)) [e]\<rparr>"
  by (auto simp: SaveOneEvent_def Event_Push_def take_Cons' )

lemma flag_events_eq:
  assumes mem: "\<And>c. ev_mem env c" and q: "length (ev_queue s) \<le> EVENT_QUEUE_LEN"
    and due: "due = (if turn_on (ev_flags s) then [board_event env CODE_ALARM_ON] else [])
     @ (if turn_off (ev_flags s) then [board_event env CODE_ALARM_OFF] else [])
     @ (if period_flag (ev_flags s) then [board_event env CODE_ALARM_PERIOD_RECORD] else [])"
  shows "flag_events env s
    = s\<lparr>ev_queue := take EVENT_QUEUE_LEN (ev_queue s @ due), ev_flags := cleared (ev_flags s)\<rparr>"
proof -
  have push: "SaveOneEvent env e t = t\<lparr>ev_queue := take EVENT_QUEUE_LEN (ev_queue t @ [e])\<rparr>"
    if "length (ev_queue t) \<le> EVENT_QUEUE_LEN" for e t
    using that Event_Push_mem [OF mem] that by simp
  obtain qq r a b c d p where s: "s = \<lparr>ev_queue = qq, ev_ring = r, ev_flags =
      \<lparr>turn_on = a, turn_off = b, period_flag = c, other_flags = d\<rparr>, ev_pre_time = p\<rparr>"
    by (cases s; cases "ev_flags s") auto
  show ?thesis
    using q by (cases a; cases b; cases c)
      (simp_all add: flag_events_def Let_def push due cleared_def s take_take_append del: take_append)
qed

lemma event_check_eq:
  assumes mem: "\<And>c. ev_mem env c" and q: "length (ev_queue s) \<le> EVENT_QUEUE_LEN"
  shows "event_check env s
    = snd (Event_Pop (ev_locked env) (ev_io env)
        (s\<lparr>ev_queue := take EVENT_QUEUE_LEN (ev_queue s @ due_events env s),
           ev_flags := cleared (ev_flags s),
           ev_pre_time := (if period_due env (ev_pre_time s) then ev_now_time env
                           else ev_pre_time s)\<rparr>))"
proof -
  define s1 where "s1 = (if H4_HOUR_INTERVAL \<le> ev_now_time env - ev_pre_time s then
      s\<lparr>ev_flags := (ev_flags s)\<lparr>period_flag := True\<rparr>, ev_pre_time := ev_now_time env\<rparr> else s)"
  have f: "flag_events env s1 = s1\<lparr>ev_queue := take EVENT_QUEUE_LEN (ev_queue s @ due_events env s),
      ev_flags := cleared (ev_flags s1)\<rparr>"
    by (subst flag_events_eq [OF mem, where due = "due_events env s"])
       (use q in \<open>auto simp: s1_def due_events_def period_due_def\<close>)
  have n: "due_events env s = []" "cleared (ev_flags s1) = ev_flags s1" if "\<not> any_flag (ev_flags s1)"
    using that by (auto simp: any_flag_def due_events_def period_due_def s1_def cleared_def
        split: if_splits)
  have c: "(if any_flag (ev_flags s1) then flag_events env s1 else s1)
      = s1\<lparr>ev_queue := take EVENT_QUEUE_LEN (ev_queue s @ due_events env s),
           ev_flags := cleared (ev_flags s1)\<rparr>"
    using f n q by (auto simp: s1_def)
  have "event_check env s = snd (Event_Pop (ev_locked env) (ev_io env)
      (if any_flag (ev_flags s1) then flag_events env s1 else s1))"
    by (simp only: event_check_def Let_def s1_def)
  also have "\<dots> = snd (Event_Pop (ev_locked env) (ev_io env)
      (s1\<lparr>ev_queue := take EVENT_QUEUE_LEN (ev_queue s @ due_events env s),
           ev_flags := cleared (ev_flags s1)\<rparr>))"
    by (simp only: c)
  also have "s1\<lparr>ev_queue := take EVENT_QUEUE_LEN (ev_queue s @ due_events env s),
      ev_flags := cleared (ev_flags s1)\<rparr>
    = s\<lparr>ev_queue := take EVENT_QUEUE_LEN (ev_queue s @ due_events env s),
        ev_flags := cleared (ev_flags s),
        ev_pre_time := (if period_due env (ev_pre_time s) then ev_now_time env
                        else ev_pre_time s)\<rparr>"
    by (simp add: s1_def period_due_def cleared_def)
  finally show ?thesis .
qed


text \<open>One check on a working board: bounded queue in, one record out.\<close>

definition event_inv :: "event_log \<Rightarrow> bool" where
  "event_inv s \<longleftrightarrow> length (ev_queue s) \<le> EVENT_QUEUE_LEN
     \<and> ring_ok EVENT_LOG_RECORD_MAX_NUM (unat IOT_EVENT_FUNC_04_TYPE_LEN) (ev_ring s)"

abbreviation event_records :: "event_log \<Rightarrow> u8 list list" where
  "event_records s \<equiv> ev.records (ev_ring s)"

definition good_event_env :: "event_env \<Rightarrow> bool" where
  "good_event_env env \<longleftrightarrow> (\<forall>c. ev_mem env c) \<and> ev_locked env \<and> ev_io env = good_write"

lemma event_check_step:
  assumes inv: "event_inv s" and env: "good_event_env env"
  defines "q \<equiv> take EVENT_QUEUE_LEN (ev_queue s @ due_events env s)" and "s' \<equiv> event_check env s"
  shows "event_inv s'" "ev_queue s' = tl q" "ev_flags s' = cleared (ev_flags s)"
    and "ev_pre_time s' = (if period_due env (ev_pre_time s) then ev_now_time env else ev_pre_time s)"
    and "event_records s'
      = last_records EVENT_LOG_RECORD_MAX_NUM (event_records s @ map event_bytes (take 1 q))"
proof -
  let ?s1 = "s\<lparr>ev_queue := q, ev_flags := cleared (ev_flags s),
      ev_pre_time := (if period_due env (ev_pre_time s) then ev_now_time env else ev_pre_time s)\<rparr>"
  have ql: "length (ev_queue s) \<le> EVENT_QUEUE_LEN" "length q \<le> EVENT_QUEUE_LEN"
    and ring: "ring_ok EVENT_LOG_RECORD_MAX_NUM (unat IOT_EVENT_FUNC_04_TYPE_LEN) (ev_ring s)"
    using inv by (auto simp: event_inv_def q_def simp del: take_append)
  have s': "s' = snd (Event_Pop True good_write ?s1)"
    using event_check_eq [OF _ ql(1), of env] env
    by (simp add: s'_def q_def good_event_env_def)
  have rest: "ev_flags s' = cleared (ev_flags s)"
    "ev_pre_time s' = (if period_due env (ev_pre_time s) then ev_now_time env else ev_pre_time s)"
    "ev_queue s' = tl q"
    "ev_ring s' = ring_store ev.m ev.l32 (map event_bytes (take 1 q)) (ev_ring s)"
    by (cases q; simp add: s' Event_Pop_def Let_def case_prod_beta ring_store_def)+
  then show "ev_flags s' = cleared (ev_flags s)" "ev_queue s' = tl q"
    "ev_pre_time s' = (if period_due env (ev_pre_time s) then ev_now_time env else ev_pre_time s)"
    by simp_all
  have b: "\<forall>x\<in>set (map event_bytes (take 1 q)). length x = ev.n" by auto
  show "event_inv s'"
    using ev.store_invar [OF ring b] rest(3,4) ql(2) by (simp add: event_inv_def)
  show "event_records s'
      = last_records EVENT_LOG_RECORD_MAX_NUM (event_records s @ map event_bytes (take 1 q))"
    using ev.store_records [OF ring b] rest(4) by simp
qed

section \<open>A run from power-on\<close>

text \<open>What should end up in the log: the switch-on entry at the first check, then an entry whenever
  four hours have passed since the last one.\<close>

fun due_run :: "event_env list \<Rightarrow> bool \<Rightarrow> u32 \<Rightarrow> iot_event list" where
  "due_run [] on pre = []"
| "due_run (env # envs) on pre =
     (if on then [board_event env CODE_ALARM_ON] else [])
     @ (if period_due env pre then [board_event env CODE_ALARM_PERIOD_RECORD] else [])
     @ due_run envs False (if period_due env pre then ev_now_time env else pre)"

lemma last_records_nil: "event_inv s \<Longrightarrow>
    last_records EVENT_LOG_RECORD_MAX_NUM (event_records s) = event_records s"
  using ev.records_le by (simp add: event_inv_def)

lemma event_run:
  assumes "event_inv s" "\<forall>env\<in>set envs. good_event_env env"
    and "\<not> turn_off (ev_flags s)" "\<not> period_flag (ev_flags s)"
    and "length (ev_queue s) \<le> (if turn_on (ev_flags s) then 0 else 1)"
  shows "\<exists>written.
      ev_queue s @ due_run envs (turn_on (ev_flags s)) (ev_pre_time s)
        = written @ ev_queue (fold event_check envs s)
      \<and> length (ev_queue (fold event_check envs s)) \<le> 1
      \<and> event_inv (fold event_check envs s)
      \<and> event_records (fold event_check envs s)
        = last_records EVENT_LOG_RECORD_MAX_NUM (event_records s @ map event_bytes written)"
  using assms
proof (induction envs arbitrary: s)
  case Nil
  then show ?case
    using last_records_nil [of s] by (intro exI [of _ "[]"]) (auto split: if_splits)
next
  case (Cons env envs)
  define d where "d = ev_queue s @ due_events env s"
  define s' where "s' = event_check env s"
  have d: "d = ev_queue s @ (if turn_on (ev_flags s) then [board_event env CODE_ALARM_ON] else [])
     @ (if period_due env (ev_pre_time s) then [board_event env CODE_ALARM_PERIOD_RECORD] else [])"
    using Cons.prems by (simp add: d_def due_events_def)
  have len: "length d \<le> 2" using Cons.prems(5) by (auto simp: d split: if_splits)
  then have q: "take EVENT_QUEUE_LEN (ev_queue s @ due_events env s) = d"
    by (simp add: EVENT_QUEUE_LEN_def flip: d_def)
  note st = event_check_step [OF Cons.prems(1), of env, unfolded q, folded s'_def]
  have env: "good_event_env env" using Cons.prems by simp
  have fl: "\<not> turn_on (ev_flags s')" "\<not> turn_off (ev_flags s')" "\<not> period_flag (ev_flags s')"
    using st(3) [OF env] by (simp_all add: cleared_def)
  have "length (ev_queue s') \<le> 1" using st(2) [OF env] len by simp
  then obtain w where w: "ev_queue s' @ due_run envs False (ev_pre_time s')
        = w @ ev_queue (fold event_check envs s')"
      "length (ev_queue (fold event_check envs s')) \<le> 1" "event_inv (fold event_check envs s')"
      "event_records (fold event_check envs s')
        = last_records EVENT_LOG_RECORD_MAX_NUM (event_records s' @ map event_bytes w)"
    using Cons.IH [OF st(1) [OF env]] Cons.prems(2) fl by auto
  have "ev_queue s @ due_run (env # envs) (turn_on (ev_flags s)) (ev_pre_time s)
      = take 1 d @ tl d @ due_run envs False (ev_pre_time s')"
    using st(4) [OF env] by (cases d) (auto simp: d)
  also have "\<dots> = (take 1 d @ w) @ ev_queue (fold event_check envs s')"
    using w(1) st(2) [OF env] by simp
  finally show ?case
    using w st(5) [OF env]
    by (intro exI [of _ "take 1 d @ w"]) (simp add: last_records_append_left flip: s'_def)
qed

text \<open>
  C18: From power-on, on a working flash and with memory available, the board's own log is exactly the
  switch-on entry and one entry per four hours, in order and with none lost: after any sequence of
  checks at most one entry still waits in the queue, everything before it has been written, and a
  reader that asks for everything gets the newest 200 of the earlier entries and these.
\<close>

theorem event_log_run_complete:
  assumes "ring_ok EVENT_LOG_RECORD_MAX_NUM (unat IOT_EVENT_FUNC_04_TYPE_LEN) (ev_ring s)"
    and "\<not> turn_off (ev_flags s)" "\<not> period_flag (ev_flags s)"
    and "\<forall>env\<in>set envs. good_event_env env"
  shows "let s0 = history_queue_init s; t = fold event_check envs s0 in
    \<exists>written. due_run envs True (ev_pre_time s) = written @ ev_queue t
      \<and> length (ev_queue t) \<le> 1
      \<and> (let recs = last_records EVENT_LOG_RECORD_MAX_NUM
                       (event_records s @ map event_bytes written)
         in IoT_Event_Log_Read_Incremental True True (\<lambda>_. good_read) 0 t
              = (0, if recs = [] then None else Some (concat recs)))"
proof -
  let ?s0 = "history_queue_init s" and ?t = "fold event_check envs (history_queue_init s)"
  have s0: "event_inv ?s0" "turn_on (ev_flags ?s0)" "ev_queue ?s0 = []" "ev_ring ?s0 = ev_ring s"
      "ev_pre_time ?s0 = ev_pre_time s" "\<not> turn_off (ev_flags ?s0)" "\<not> period_flag (ev_flags ?s0)"
    using assms by (simp_all add: history_queue_init_def event_inv_def EVENT_QUEUE_LEN_def)
  obtain w where w: "due_run envs True (ev_pre_time s) = w @ ev_queue ?t"
      "length (ev_queue ?t) \<le> 1" "event_inv ?t"
      "event_records ?t = last_records EVENT_LOG_RECORD_MAX_NUM (event_records s @ map event_bytes w)"
    using event_run [OF s0(1) assms(4)] s0 by auto
  have view: "event_view ?t = ev.the_view (ev_ring ?t)" by (simp add: event_view_def)
  have ok: "ring_ok EVENT_LOG_RECORD_MAX_NUM ev.n (ev_ring ?t)"
    using w(3) by (simp add: event_inv_def)
  have "IoT_Event_Log_Read_Incremental True True (\<lambda>_. good_read) 0 ?t
      = (0, if event_records ?t = [] then None else Some (concat (event_records ?t)))"
    using ev.read_everything [OF ok] by (simp only: IoT_Event_Log_Read_Incremental_def view)
  then show ?thesis using w unfolding Let_def by auto
qed


definition sample_event_env :: "u32 \<Rightarrow> event_env" where
  "sample_event_env t =
     \<lparr>ev_now_time = t, ev_now = 1700000000, online_Iot_num = 1, online_Inv_num = 1,
      online_Pack_num = 2, wifi_connect_timestemp = 0, ev_mem = (\<lambda>_. True), ev_locked = True,
      ev_io = good_write\<rparr>"

definition sample_event_log :: event_log where
  "sample_event_log =
     \<lparr>ev_queue = [],
      ev_ring = \<lparr>hr_file = None, AddrIndex = 0, SaveCount = 0, settings_dirty = False\<rparr>,
      ev_flags = \<lparr>turn_on = False, turn_off = False, period_flag = False, other_flags = False\<rparr>,
      ev_pre_time = 0\<rparr>"

lemma event_log_run_complete_witness:
  "let t = fold event_check [sample_event_env 1000, sample_event_env 14400000]
             (history_queue_init sample_event_log)
   in \<exists>written. [board_event (sample_event_env 1000) CODE_ALARM_ON,
         board_event (sample_event_env 14400000) CODE_ALARM_PERIOD_RECORD] = written @ ev_queue t
       \<and> length (ev_queue t) \<le> 1"
proof -
  have r: "ring_ok EVENT_LOG_RECORD_MAX_NUM (unat IOT_EVENT_FUNC_04_TYPE_LEN)
      (ev_ring sample_event_log)"
    by (auto simp: ring_ok_def ring_rep_def sample_event_log_def EVENT_LOG_RECORD_MAX_NUM_def
        intro!: exI [of _ "[]"])
  have f: "\<not> turn_off (ev_flags sample_event_log)" "\<not> period_flag (ev_flags sample_event_log)"
    by (simp_all add: sample_event_log_def)
  have e: "\<forall>env\<in>set [sample_event_env 1000, sample_event_env 14400000]. good_event_env env"
    by (simp add: good_event_env_def sample_event_env_def)
  have "due_run [sample_event_env 1000, sample_event_env 14400000] True (ev_pre_time sample_event_log)
    = [board_event (sample_event_env 1000) CODE_ALARM_ON,
       board_event (sample_event_env 14400000) CODE_ALARM_PERIOD_RECORD]"
    by (simp add: period_due_def H4_HOUR_INTERVAL_def sample_event_env_def sample_event_log_def)
  then show ?thesis using event_log_run_complete [OF r f e] unfolding Let_def by auto
qed

end
