(* ===== verification/Rtc.thy ===== *)
theory Rtc
  imports Calendar
begin

text \<open>
  The PCF8563 real-time clock driver, \<open>ext_rtc/drv_pcf8563.c\<close>: \<open>pcf8563_set_datetime\<close> writes a
  time as seven BCD registers, \<open>pcf8563_get_datetime\<close> reads the nine registers one transfer after the
  other and converts them back.  The two I2C functions of \<open>pcf_i2c_client_t\<close> are fields of the client,
  functions over a chip state of any type; the chip itself is a parameter.  The \<open>int\<close> results are
  integers, \<open>off\<close> is the zone \<open>localtime_r\<close> and \<open>mktime\<close> use.
\<close>

section \<open>Registers\<close>

definition PCF8563_REG_ST1 :: nat where "PCF8563_REG_ST1 = 0"
definition PCF8563_REG_SC :: nat where "PCF8563_REG_SC = 2"
definition PCF8563_REG_MN :: nat where "PCF8563_REG_MN = 3"
definition PCF8563_REG_HR :: nat where "PCF8563_REG_HR = 4"
definition PCF8563_REG_DM :: nat where "PCF8563_REG_DM = 5"
definition PCF8563_REG_DW :: nat where "PCF8563_REG_DW = 6"
definition PCF8563_REG_MO :: nat where "PCF8563_REG_MO = 7"
definition PCF8563_REG_YR :: nat where "PCF8563_REG_YR = 8"
definition PCF8563_SC_LV :: u8 where "PCF8563_SC_LV = 0x80"
definition PCF8563_MO_C :: u8 where "PCF8563_MO_C = 0x80"

lemmas pcf8563_regs [simp] = PCF8563_REG_ST1_def PCF8563_REG_SC_def PCF8563_REG_MN_def PCF8563_REG_HR_def
  PCF8563_REG_DM_def PCF8563_REG_DW_def PCF8563_REG_MO_def PCF8563_REG_YR_def

record 'd pcf_i2c_client =
  i2c_write :: "u8 \<Rightarrow> u8 \<Rightarrow> u8 \<Rightarrow> u16 \<Rightarrow> 'd \<Rightarrow> int \<times> 'd"
  i2c_read :: "u8 \<Rightarrow> u8 \<Rightarrow> u16 \<Rightarrow> 'd \<Rightarrow> int \<times> u8 \<times> 'd"
  write_addr :: u8
  read_addr :: u8

text \<open>The driver's statics, \<open>reals.now\<close>, and the chip behind the client; the clock of the board extends
  the record.\<close>

record 'd pcf8563 =
  client :: "'d pcf_i2c_client option"
  c_polarity :: int
  rtc_now :: int
  chip :: 'd

section \<open>Conversions\<close>

text \<open>Both macros work on promoted \<open>int\<close> operands; \<open>bin2bcd\<close> is stored into a byte.\<close>

definition bcd2bin :: "u8 \<Rightarrow> int" where
  "bcd2bin x = uint (x AND 0x0f) + uint (drop_bit 4 x) * 10"

definition bin2bcd :: "int \<Rightarrow> u8" where
  "bin2bcd x = word_of_int (push_bit 4 (x div 10) + x mod 10)"

definition to_uint32 :: "int \<Rightarrow> int" where
  "to_uint32 x = uint (word_of_int x :: u32)"

definition rtc_days_in_month :: "int list" where
  "rtc_days_in_month = [31, 28, 31, 30, 31, 30, 31, 31, 30, 31, 30, 31]"

definition is_leap_year :: "int \<Rightarrow> bool" where
  "is_leap_year year \<longleftrightarrow> (year mod 4 = 0 \<and> year mod 100 \<noteq> 0) \<or> year mod 400 = 0"

definition rtc_month_days :: "int \<Rightarrow> int \<Rightarrow> int" where
  "rtc_month_days month year =
     rtc_days_in_month ! nat month + (if is_leap_year year \<and> month = 1 then 1 else 0)"

definition rtc_valid_tm :: "tm \<Rightarrow> int" where
  "rtc_valid_tm x =
     (if tm_year x < 70 \<or> tm_year x > 2099 - 1900 \<or> to_uint32 (tm_mon x) \<ge> 12 \<or> tm_mday x < 1 \<or>
         tm_mday x > rtc_month_days (to_uint32 (tm_mon x)) (to_uint32 (to_uint32 (tm_year x) + 1900)) \<or>
         to_uint32 (tm_hour x) \<ge> 24 \<or> to_uint32 (tm_min x) \<ge> 60 \<or> to_uint32 (tm_sec x) \<ge> 60
      then - 1 else 0)"

section \<open>Operations\<close>

definition pcf8563_set_port :: "'d pcf_i2c_client option \<Rightarrow> ('d, 'z) pcf8563_scheme \<Rightarrow> int \<times> ('d, 'z) pcf8563_scheme" where
  "pcf8563_set_port c s = (case c of None \<Rightarrow> (- 1, s) | Some _ \<Rightarrow> (0, s\<lparr>client := c\<rparr>))"

text \<open>The read loop: one transfer per register, up to the first that fails.\<close>

fun read_registers :: "'d pcf_i2c_client \<Rightarrow> nat \<Rightarrow> nat \<Rightarrow> 'd \<Rightarrow> u8 list option \<times> 'd" where
  "read_registers cl r 0 d = (Some [], d)"
| "read_registers cl r (Suc n) d =
     (let (ret, b, d') = i2c_read cl (read_addr cl) (of_nat (PCF8563_REG_ST1 + r)) 1 d in
      if ret < 0 then (None, d')
      else let (bs, d'') = read_registers cl (Suc r) n d' in (map_option ((#) b) bs, d''))"

definition registers_to_tm :: "u8 list \<Rightarrow> tm" where
  "registers_to_tm buf =
     \<lparr>tm_sec = bcd2bin (buf ! PCF8563_REG_SC AND 0x7F),
      tm_min = bcd2bin (buf ! PCF8563_REG_MN AND 0x7F),
      tm_hour = bcd2bin (buf ! PCF8563_REG_HR AND 0x3F),
      tm_mday = bcd2bin (buf ! PCF8563_REG_DM AND 0x3F),
      tm_mon = bcd2bin (buf ! PCF8563_REG_MO AND 0x1F) - 1,
      tm_year = bcd2bin (buf ! PCF8563_REG_YR) +
        (if buf ! PCF8563_REG_MO AND PCF8563_MO_C \<noteq> 0 then 0 else 100),
      tm_wday = uint (buf ! PCF8563_REG_DW AND 0x07)\<rparr>"

text \<open>\<open>*time\<close> before the call and after it.\<close>

definition pcf8563_get_datetime :: "int \<Rightarrow> int \<Rightarrow> ('d, 'z) pcf8563_scheme \<Rightarrow> int \<times> int \<times> ('d, 'z) pcf8563_scheme" where
  "pcf8563_get_datetime off time0 s =
     (case client s of
        None \<Rightarrow> (- 1, time0, s)
      | Some cl \<Rightarrow>
          let (res, d) = read_registers cl 0 9 (chip s); s1 = s\<lparr>chip := d\<rparr> in
          (case res of
             None \<Rightarrow> (- 1, time0, s1)
           | Some buf \<Rightarrow>
               if buf ! PCF8563_REG_SC AND PCF8563_SC_LV \<noteq> 0 then (- 1, time0, s1)
               else
                 let s2 = s1\<lparr>c_polarity := if buf ! PCF8563_REG_MO AND PCF8563_MO_C \<noteq> 0 then 1 else 0\<rparr>;
                     x = registers_to_tm buf
                 in if rtc_valid_tm x < 0 then (- 1, time0, s2) else (0, fst (mktime off x), s2)))"

definition tm_to_registers :: "tm \<Rightarrow> u8 list" where
  "tm_to_registers x =
     [bin2bcd (tm_sec x), bin2bcd (tm_min x), bin2bcd (tm_hour x), bin2bcd (tm_mday x),
      word_of_int (tm_wday x AND 0x07),
      (if tm_year x < 100 then bin2bcd (tm_mon x + 1) OR PCF8563_MO_C else bin2bcd (tm_mon x + 1)),
      bin2bcd (tm_year x mod 100)]"

text \<open>The write loop runs over the registers from \<open>PCF8563_REG_SC\<close> on.\<close>

fun write_registers :: "'d pcf_i2c_client \<Rightarrow> nat \<Rightarrow> u8 list \<Rightarrow> 'd \<Rightarrow> int \<times> 'd" where
  "write_registers cl r [] d = (0, d)"
| "write_registers cl r (b # bs) d =
     (let (ret, d') = i2c_write cl (write_addr cl) (of_nat r) b 1 d in
      if ret < 0 then (- 1, d') else write_registers cl (Suc r) bs d')"

text \<open>Unlike the reader, the writer does not test the client before it calls through it.\<close>

definition pcf8563_set_datetime :: "int \<Rightarrow> u32 \<Rightarrow> ('d, 'z) pcf8563_scheme \<Rightarrow> (int \<times> ('d, 'z) pcf8563_scheme) cres" where
  "pcf8563_set_datetime off time s =
     (let s1 = s\<lparr>rtc_now := uint time\<rparr>; x = localtime off (rtc_now s1) in
      if rtc_valid_tm x < 0 then Inr (- 1, s1)
      else case client s1 of
          None \<Rightarrow> Inl Null_Call
        | Some cl \<Rightarrow>
            let (ret, d) = write_registers cl PCF8563_REG_SC (tm_to_registers x) (chip s1)
            in Inr (ret, s1\<lparr>chip := d\<rparr>))"

section \<open>Conversions are exact\<close>

lemma bcd_roundtrip:
  assumes "0 \<le> x" "x < 100"
  shows "bcd2bin (bin2bcd x) = x"
proof -
  have "\<forall>n \<in> set [0..<100]. bcd2bin (bin2bcd (int n)) = int n"
    by code_simp
  then have "bcd2bin (bin2bcd (int (nat x))) = int (nat x)"
    using assms by (metis atLeastLessThan_iff set_upt nat_less_iff of_nat_numeral zero_le)
  then show ?thesis using assms by simp
qed

lemma masked_bcd:
  "0 \<le> x \<Longrightarrow> x < 80 \<Longrightarrow> bcd2bin (bin2bcd x AND 0x7F) = x \<and> bin2bcd x AND PCF8563_SC_LV = 0"
  "0 \<le> x \<Longrightarrow> x < 40 \<Longrightarrow> bcd2bin (bin2bcd x AND 0x3F) = x"
  "1 \<le> m \<Longrightarrow> m \<le> 12 \<Longrightarrow> bcd2bin (bin2bcd m AND 0x1F) = m \<and> bin2bcd m AND PCF8563_MO_C = 0 \<and>
     bcd2bin ((bin2bcd m OR PCF8563_MO_C) AND 0x1F) = m \<and> (bin2bcd m OR PCF8563_MO_C) AND PCF8563_MO_C \<noteq> 0"
proof -
  have "\<forall>n \<in> set [0..<80]. bcd2bin (bin2bcd (int n) AND 0x7F) = int n \<and> bin2bcd (int n) AND PCF8563_SC_LV = 0"
    by code_simp
  then show "0 \<le> x \<Longrightarrow> x < 80 \<Longrightarrow> bcd2bin (bin2bcd x AND 0x7F) = x \<and> bin2bcd x AND PCF8563_SC_LV = 0"
    by (cases x) auto
  have "\<forall>n \<in> set [0..<40]. bcd2bin (bin2bcd (int n) AND 0x3F) = int n"
    by code_simp
  then show "0 \<le> x \<Longrightarrow> x < 40 \<Longrightarrow> bcd2bin (bin2bcd x AND 0x3F) = x"
    by (cases x) auto
  have "\<forall>n \<in> set [1..<13]. bcd2bin (bin2bcd (int n) AND 0x1F) = int n \<and> bin2bcd (int n) AND PCF8563_MO_C = 0 \<and>
     bcd2bin ((bin2bcd (int n) OR PCF8563_MO_C) AND 0x1F) = int n \<and>
     (bin2bcd (int n) OR PCF8563_MO_C) AND PCF8563_MO_C \<noteq> 0"
    by code_simp
  then show "1 \<le> m \<Longrightarrow> m \<le> 12 \<Longrightarrow> bcd2bin (bin2bcd m AND 0x1F) = m \<and> bin2bcd m AND PCF8563_MO_C = 0 \<and>
     bcd2bin ((bin2bcd m OR PCF8563_MO_C) AND 0x1F) = m \<and> (bin2bcd m OR PCF8563_MO_C) AND PCF8563_MO_C \<noteq> 0"
    by (drule_tac bspec[of _ _ "nat m"]) (simp_all add: nat_less_iff le_nat_iff)
qed

text \<open>What the driver takes for a valid time: a date of the calendar between 1970 and 2099.\<close>

definition rtc_range :: "tm \<Rightarrow> bool" where
  "rtc_range x \<longleftrightarrow> 70 \<le> tm_year x \<and> tm_year x \<le> 199"

lemma to_uint32_id: "0 \<le> x \<Longrightarrow> x < 4294967296 \<Longrightarrow> to_uint32 x = x"
  by (simp add: to_uint32_def uint_word_of_int)

lemma rtc_month_days_eq:
  assumes "0 \<le> m" "m < 12"
  shows "rtc_month_days m y = month_days y (nat m)"
proof -
  have "is_leap_year y = leap y"
  proof -
    have "y mod 400 = 0 \<Longrightarrow> y mod 4 = 0" by (simp add: mod_eq_0_iff_dvd) (erule dvd_trans[rotated], simp)
    then show ?thesis by (auto simp: is_leap_year_def leap_def)
  qed
  moreover have "\<forall>l \<in> {True, False}. \<forall>n \<in> set [0..<12]. rtc_days_in_month ! n + (if l \<and> n = 1 then 1 else 0) =
      (if n = 1 then (if l then 29 else 28) else if n \<in> {3, 5, 8, 10} then 30 else 31)"
    by code_simp
  moreover have "nat m \<in> set [0..<12]" "m = 1 \<longleftrightarrow> nat m = 1" using assms by auto
  ultimately show ?thesis unfolding rtc_month_days_def month_days_def by auto
qed

lemma to_uint32_less:
  "- 2147483648 \<le> x \<Longrightarrow> x \<le> 2147483647 \<Longrightarrow> k \<le> 2147483648 \<Longrightarrow> to_uint32 x < k \<longleftrightarrow> 0 \<le> x \<and> x < k"
proof (cases "0 \<le> x")
  case False
  assume x: "- 2147483648 \<le> x" "k \<le> 2147483648"
  have "x mod 4294967296 = (x + 4294967296) mod 4294967296" by simp
  also have "\<dots> = x + 4294967296" using False x by (intro mod_pos_pos_trivial) simp_all
  finally show ?thesis using False x by (simp add: to_uint32_def uint_word_of_int)
qed (simp add: to_uint32_def uint_word_of_int)

text \<open>The fields of a \<open>struct tm\<close> are 32 bits wide.\<close>

definition tm_int32 :: "tm \<Rightarrow> bool" where
  "tm_int32 x \<longleftrightarrow> (\<forall>v \<in> {tm_mon x, tm_hour x, tm_min x, tm_sec x}. - 2147483648 \<le> v \<and> v \<le> 2147483647)"

lemma rtc_valid_iff:
  assumes "tm_int32 x"
  shows "rtc_valid_tm x = (if tm_ok x \<and> rtc_range x then 0 else - 1)"
proof -
  have b: "to_uint32 v \<ge> k \<longleftrightarrow> \<not> (0 \<le> v \<and> v < k)"
    if "v \<in> {tm_mon x, tm_hour x, tm_min x, tm_sec x}" "k \<le> 2147483648" for v k
    using to_uint32_less[of v k] that assms by (auto simp: tm_int32_def not_less[symmetric])
  show ?thesis
  proof (cases "rtc_range x \<and> 0 \<le> tm_mon x \<and> tm_mon x < 12")
    case True
    then have "to_uint32 (to_uint32 (tm_year x) + 1900) = tm_year x + 1900" "to_uint32 (tm_mon x) = tm_mon x"
      by (simp_all add: rtc_range_def to_uint32_id)
    then have d: "rtc_month_days (to_uint32 (tm_mon x)) (to_uint32 (to_uint32 (tm_year x) + 1900)) =
        month_days (tm_year x + 1900) (nat (tm_mon x))"
      using True rtc_month_days_eq by simp
    show ?thesis unfolding rtc_valid_tm_def d tm_ok_def using True by (auto simp: b rtc_range_def)
  next
    case False
    then show ?thesis unfolding rtc_valid_tm_def tm_ok_def by (auto simp: b rtc_range_def)
  qed
qed

lemma tm_ok_int32: "tm_ok x \<Longrightarrow> tm_int32 x"
  by (auto simp: tm_ok_def tm_int32_def)

lemma registers_roundtrip:
  assumes "tm_ok x" "rtc_range x"
  shows "registers_to_tm ([a, b] @ tm_to_registers x) = x\<lparr>tm_wday := tm_wday x AND 7\<rparr>"
proof -
  have "tm_sec x < 80" "tm_min x < 80" "tm_hour x < 40" "0 \<le> tm_mday x" "tm_mday x < 40"
    using assms month_days_pos(2)[of "tm_year x + 1900" "nat (tm_mon x)"] by (simp_all add: tm_ok_def)
  then have m: "bcd2bin (bin2bcd (tm_sec x) AND 0x7F) = tm_sec x" "bcd2bin (bin2bcd (tm_min x) AND 0x7F) = tm_min x"
    "bcd2bin (bin2bcd (tm_hour x) AND 0x3F) = tm_hour x" "bcd2bin (bin2bcd (tm_mday x) AND 0x3F) = tm_mday x"
    using masked_bcd(1,2) assms by (simp_all add: tm_ok_def)
  have mo: "1 \<le> tm_mon x + 1" "tm_mon x + 1 \<le> 12" using assms by (simp_all add: tm_ok_def)
  have y: "bcd2bin (bin2bcd (tm_year x mod 100)) = tm_year x mod 100" by (rule bcd_roundtrip) simp_all
  have y2: "tm_year x mod 100 + (if tm_year x < 100 then 0 else 100) = tm_year x"
  proof (cases "tm_year x < 100")
    case False
    have "tm_year x mod 100 = (tm_year x - 100) mod 100" by simp
    also have "\<dots> = tm_year x - 100" using False assms(2) by (intro mod_pos_pos_trivial) (simp_all add: rtc_range_def)
    finally show ?thesis using False by simp
  qed (use assms(2) in \<open>simp add: rtc_range_def\<close>)
  have yl: "tm_year x < 100 \<Longrightarrow> bcd2bin (bin2bcd (tm_year x)) = tm_year x"
    using assms(2) by (intro bcd_roundtrip) (simp_all add: rtc_range_def)
  have w: "uint (word_of_int (tm_wday x AND 7) AND 7 :: u8) = tm_wday x AND 7"
    by (simp add: uint_and uint_word_of_int) 
  show ?thesis
    using masked_bcd(3)[OF mo] y2
    by (cases "tm_year x < 100") (auto intro!: tm.equality simp: registers_to_tm_def tm_to_registers_def m y yl w)
qed

section \<open>Reading and writing\<close>

text \<open>A run of transfers that all succeed: \<open>d i\<close> is the chip before the transfer of register \<open>r + i\<close>,
  \<open>v i\<close> the byte it delivers.\<close>

lemma read_registers_seq:
  assumes "\<And>i. i < n \<Longrightarrow> i2c_read cl (read_addr cl) (of_nat (r + i)) 1 (d i) = (0, v i, d (Suc i))"
  shows "read_registers cl r n (d 0) = (Some (map v [0..<n]), d n)"
  using assms
proof (induction n arbitrary: r d v)
  case (Suc n)
  have "read_registers cl (Suc r) n (d (Suc 0)) = (Some (map (\<lambda>i. v (Suc i)) [0..<n]), d (Suc n))"
    by (rule Suc.IH[of "Suc r" "\<lambda>i. d (Suc i)" "\<lambda>i. v (Suc i)"]) (use Suc.prems[of "Suc _"] in simp)
  moreover have "map v [0..<Suc n] = v 0 # map (\<lambda>i. v (Suc i)) [0..<n]"
    by (simp add: upt_conv_Cons map_Suc_upt[symmetric] comp_def del: upt_Suc)
  ultimately show ?case using Suc.prems[of 0] by (simp add: Let_def)
qed simp

lemma localtime_rtc_range:
  assumes "year_start 1970 * 86400 \<le> t + off" "t + off < year_start 2100 * 86400"
  shows "rtc_range (localtime off t)"
proof -
  obtain y yd where y: "find_year 1970 ((t + off) div 86400) = (y, yd)" by fastforce
  have z: "year_start 1970 = 0" by (simp add: year_start_def)
  have "0 \<le> (t + off) div 86400" using assms(1) z by (simp add: pos_imp_zdiv_nonneg_iff)
  moreover have "(t + off) div 86400 < year_start 2100"
    using assms(2) zdiv_mono1[of "t + off" "year_start 2100 * 86400 - 1" 86400] by (simp add: year_start_def)
  ultimately have "0 \<le> year_start y + yd" "year_start y + yd < year_start 2100" "0 \<le> yd" "yd < year_days y"
    using find_year_ok[OF y] z by simp_all
  then have "1970 \<le> y" "y \<le> 2099"
    using year_start_mono[of "y + 1" 1970] year_start_mono[of 2100 y] year_start_step[of y] z
    by linarith+
  then show ?thesis using y by (simp add: rtc_range_def localtime_def Let_def split: prod.split)
qed

text \<open>The nine registers of a chip whose calendar stands at \<open>x\<close>.\<close>

definition calendar_regs :: "u8 \<Rightarrow> u8 \<Rightarrow> tm \<Rightarrow> nat \<Rightarrow> u8" where
  "calendar_regs st1 st2 x i = ([st1, st2] @ tm_to_registers x) ! i"

lemma length_tm_to_registers [simp]: "length (tm_to_registers x) = 7"
  by (simp add: tm_to_registers_def)

lemma map_calendar_regs: "map (calendar_regs a b x) [0..<9] = [a, b] @ tm_to_registers x"
  by (rule nth_equalityI) (simp_all add: calendar_regs_def)

lemma mktime_wday: "fst (mktime off (x\<lparr>tm_wday := w\<rparr>)) = fst (mktime off x)"
  by (simp add: fst_mktime tm_day_def)

lemma get_from_registers:
  assumes cl: "client s = Some cl"
    and r: "read_registers cl 0 9 (chip s) = (Some ([a, b] @ tm_to_registers x), d)"
    and x: "tm_ok x" "rtc_range x"
  shows "\<exists>c. pcf8563_get_datetime off t0 s = (0, fst (mktime off x), s\<lparr>chip := d, c_polarity := c\<rparr>)"
proof -
  have sc: "([a, b] @ tm_to_registers x) ! PCF8563_REG_SC AND PCF8563_SC_LV = 0"
    using masked_bcd(1)[of "tm_sec x"] x(1) by (simp add: tm_to_registers_def tm_ok_def)
  let ?y = "x\<lparr>tm_wday := tm_wday x AND 7\<rparr>"
  have "tm_ok ?y" "rtc_range ?y" using x by (simp_all add: tm_ok_def rtc_range_def)
  then have "rtc_valid_tm ?y = 0" using rtc_valid_iff[OF tm_ok_int32] by simp
  then show ?thesis
    unfolding pcf8563_get_datetime_def cl r Let_def option.case prod.case sc registers_roundtrip[OF x]
    by (simp add: mktime_wday) blast
qed

text \<open>What the chip's data sheet promises of the transfers while its clock does not tick: they succeed,
  a write changes its register, a read delivers it and changes none.  \<open>regs\<close> reads the register file
  off the chip's state.\<close>

definition rtc_chip :: "'d pcf_i2c_client \<Rightarrow> ('d \<Rightarrow> u8 \<Rightarrow> u8) \<Rightarrow> bool" where
  "rtc_chip cl regs \<longleftrightarrow>
     (\<forall>d r b. \<exists>d'. i2c_write cl (write_addr cl) r b 1 d = (0, d') \<and> regs d' = (regs d)(r := b)) \<and>
     (\<forall>d r. \<exists>d'. i2c_read cl (read_addr cl) r 1 d = (0, regs d r, d') \<and> regs d' = regs d)"

lemma rtc_chip_read:
  assumes "rtc_chip cl regs"
  shows "\<exists>d'. read_registers cl r n d = (Some (map (\<lambda>i. regs d (of_nat (r + i))) [0..<n]), d') \<and> regs d' = regs d"
proof (induction n arbitrary: r d)
  case (Suc n)
  obtain d1 where 1: "i2c_read cl (read_addr cl) (of_nat r) 1 d = (0, regs d (of_nat r), d1)" "regs d1 = regs d"
    using assms unfolding rtc_chip_def by metis
  obtain d2 where 2: "read_registers cl (Suc r) n d1 = (Some (map (\<lambda>i. regs d1 (of_nat (Suc r + i))) [0..<n]), d2)"
      "regs d2 = regs d1"
    using Suc.IH by blast
  have "map (\<lambda>i. regs d (of_nat (r + i))) [0..<Suc n] =
      regs d (of_nat r) # map (\<lambda>i. regs d (of_nat (Suc r + i))) [0..<n]"
    by (simp add: upt_conv_Cons map_Suc_upt[symmetric] comp_def del: upt_Suc of_nat_Suc of_nat_add)
  then show ?case using 1 2 by (simp add: Let_def del: upt_Suc of_nat_Suc of_nat_add)
qed simp

lemma rtc_chip_write:
  assumes "rtc_chip cl regs"
  shows "r + length bs \<le> 256 \<Longrightarrow> \<exists>d'. write_registers cl r bs d = (0, d') \<and>
     (\<forall>i < length bs. regs d' (of_nat (r + i)) = bs ! i) \<and> (\<forall>q < r. regs d' (of_nat q) = regs d (of_nat q))"
proof (induction bs arbitrary: r d)
  case (Cons b bs)
  obtain d1 where 1: "i2c_write cl (write_addr cl) (of_nat r) b 1 d = (0, d1)" "regs d1 = (regs d)(of_nat r := b)"
    using assms unfolding rtc_chip_def by metis
  obtain d2 where 2: "write_registers cl (Suc r) bs d1 = (0, d2)"
      "\<forall>i < length bs. regs d2 (of_nat (Suc r + i)) = bs ! i"
      "\<forall>q < Suc r. regs d2 (of_nat q) = regs d1 (of_nat q)"
    using Cons.IH[of "Suc r" d1] Cons.prems by auto
  have ne: "(of_nat q :: u8) \<noteq> of_nat r" if "q < r" for q
    using that Cons.prems by (simp add: word_unat_eq_iff unat_of_nat)
  have "\<forall>i < length (b # bs). regs d2 (of_nat (r + i)) = (b # bs) ! i"
  proof (intro allI impI)
    fix i assume "i < length (b # bs)"
    then show "regs d2 (of_nat (r + i)) = (b # bs) ! i"
      using 2(2)[rule_format, of "i - 1"] 2(3)[rule_format, of r] 1(2) by (cases i) simp_all
  qed
  moreover have "\<forall>q < r. regs d2 (of_nat q) = regs d (of_nat q)"
    using 2(3) 1(2) ne by simp
  ultimately show ?case using 1(1) 2(1) by simp
qed simp

text \<open>C40: the round trip of the clock chip.  Whatever the state of a chip that keeps what is written to
  it, in any zone: a time whose local date lies between 1970 and 2099 is accepted, written, and read back
  as the same second.\<close>

theorem pcf8563_set_get:
  assumes "rtc_chip cl regs" and "client s = Some cl"
    and "year_start 1970 * 86400 \<le> uint time + off" and "uint time + off < year_start 2100 * 86400"
  shows "\<exists>s1 s2. pcf8563_set_datetime off time s = Inr (0, s1) \<and>
    pcf8563_get_datetime off t0 s1 = (0, uint time, s2)"
proof -
  let ?x = "localtime off (uint time)"
  have x: "tm_ok ?x" "rtc_range ?x" using tm_ok_localtime localtime_rtc_range[OF assms(3,4)] by simp_all
  obtain d1 where d1: "write_registers cl 2 (tm_to_registers ?x) (chip s) = (0, d1)"
      "\<forall>i < 7. regs d1 (of_nat (2 + i)) = tm_to_registers ?x ! i"
    using rtc_chip_write[OF assms(1), of 2 "tm_to_registers ?x" "chip s"] by auto
  let ?s1 = "s\<lparr>rtc_now := uint time, chip := d1\<rparr>"
  have set: "pcf8563_set_datetime off time s = Inr (0, ?s1)"
    using rtc_valid_iff[OF tm_ok_int32[OF x(1)]] x d1(1) assms(2)
    by (simp add: pcf8563_set_datetime_def Let_def)
  obtain d2 where d2: "read_registers cl 0 9 d1 = (Some (map (\<lambda>i. regs d1 (of_nat (0 + i))) [0..<9]), d2)"
    using rtc_chip_read[OF assms(1)] by blast
  have "map (\<lambda>i. regs d1 (of_nat (0 + i))) [0..<9] = [regs d1 0, regs d1 1] @ tm_to_registers ?x"
  proof (rule nth_equalityI)
    fix i assume "i < length (map (\<lambda>i. regs d1 (of_nat (0 + i))) [0..<9])"
    then have "i < 9" by simp
    then consider "i = 0" | "i = 1" | "i = 2 + (i - 2)" "i - 2 < 7" by linarith
    then show "map (\<lambda>i. regs d1 (of_nat (0 + i))) [0..<9] ! i = ([regs d1 0, regs d1 1] @ tm_to_registers ?x) ! i"
      using d1(2)[rule_format, of "i - 2"] by cases (simp_all add: nth_append nth_Cons' numeral_2_eq_2)
  qed simp
  note d2 = d2[unfolded this]
  have "\<exists>c. pcf8563_get_datetime off t0 ?s1 = (0, fst (mktime off ?x), ?s1\<lparr>chip := d2, c_polarity := c\<rparr>)"
    by (rule get_from_registers[OF _ _ x]) (use assms(2) d2 in simp_all)
  then show ?thesis using set by (simp add: mktime_localtime) blast
qed

text \<open>A chip that keeps its registers in a function, for the witnesses.\<close>

definition reg_file_client :: "(u8 \<Rightarrow> u8) pcf_i2c_client" where
  "reg_file_client = \<lparr>i2c_write = \<lambda>_ r b _ d. (0, d(r := b)), i2c_read = \<lambda>_ r _ d. (0, d r, d),
     write_addr = 0x51, read_addr = 0x51\<rparr>"

lemma rtc_chip_reg_file: "rtc_chip reg_file_client (\<lambda>d. d)"
  by (simp add: rtc_chip_def reg_file_client_def)

lemma pcf8563_set_get_witness:
  "\<exists>s1 s2. pcf8563_set_datetime 28800 1704067199
        \<lparr>client = Some reg_file_client, c_polarity = 0, rtc_now = 0, chip = \<lambda>_. 0\<rparr> = Inr (0, s1) \<and>
     pcf8563_get_datetime 28800 0 s1 = (0, 1704067199, s2)"
  using pcf8563_set_get[OF rtc_chip_reg_file, of "\<lparr>client = Some reg_file_client, c_polarity = 0, rtc_now = 0, chip = \<lambda>_. 0\<rparr>"
      1704067199 28800 0]
  by (simp add: year_start_def)

text \<open>the registers are read in separate transfers.  If the chip's clock ticks after the seconds were
  read and the minute ends there, the driver reports success and a time 59 seconds ahead of the chip's.\<close>

theorem pcf8563_get_torn:
  assumes cl: "client s = Some cl" and d0: "d 0 = chip s"
    and reads: "\<And>i. i < 9 \<Longrightarrow> i2c_read cl (read_addr cl) (of_nat i) 1 (d i) =
      (0, calendar_regs sta stb (localtime off (if i \<le> PCF8563_REG_SC then t else t + 1)) i, d (Suc i))"
    and last_second: "(t + off) mod 60 = 59"
    and range: "year_start 1970 * 86400 \<le> t + 1 + off" "t + 1 + off < year_start 2100 * 86400"
  shows "\<exists>s'. pcf8563_get_datetime off t0 s = (0, (t + 1) + 59, s')"
proof -
  let ?z = "localtime off (t + 1)" and ?x = "(localtime off (t + 1))\<lparr>tm_sec := 59\<rparr>"
  have m: "(x mod 86400) mod 60 = x mod 60" for x :: int by (rule mod_mod_cancel) simp
  have sec: "tm_sec (localtime off t) = 59" using last_second by (simp add: localtime_clock m)
  have "(t + 1 + off) mod 60 = 0"
  proof -
    have "(t + 1 + off) mod 60 = ((t + off) mod 60 + 1) mod 60" by (simp add: mod_simps add_ac)
    then show ?thesis by (simp add: last_second)
  qed
  then have sec1: "tm_sec ?z = 0" by (simp add: localtime_clock m)
  have x: "tm_ok ?x" "rtc_range ?x"
    using tm_ok_localtime[of off "t + 1"] localtime_rtc_range[OF range] by (simp_all add: tm_ok_def rtc_range_def)
  have "read_registers cl 0 9 (chip s) =
      (Some (map (\<lambda>i. calendar_regs sta stb (localtime off (if i \<le> PCF8563_REG_SC then t else t + 1)) i) [0..<9]), d 9)"
    unfolding d0[symmetric] by (rule read_registers_seq) (unfold add_0, erule reads)
  also have "map (\<lambda>i. calendar_regs sta stb (localtime off (if i \<le> PCF8563_REG_SC then t else t + 1)) i) [0..<9] =
      map (calendar_regs sta stb ?x) [0..<9]"
  proof (rule map_cong[OF refl])
    fix i assume "i \<in> set [0..<9]"
    then have "i \<in> {0, 1, 2} \<or> (i \<in> {3, 4, 5, 6, 7, 8})" by auto
    then show "calendar_regs sta stb (localtime off (if i \<le> PCF8563_REG_SC then t else t + 1)) i =
        calendar_regs sta stb ?x i"
      using sec by (auto simp: calendar_regs_def tm_to_registers_def)
  qed
  finally have "\<exists>c. pcf8563_get_datetime off t0 s = (0, fst (mktime off ?x), s\<lparr>chip := d 9, c_polarity := c\<rparr>)"
    unfolding map_calendar_regs by (intro get_from_registers[OF cl _ x])
  moreover have "fst (mktime off ?x) = fst (mktime off ?z) + 59"
    using sec1 by (simp add: fst_mktime tm_day_def)
  ultimately show ?thesis by (simp add: mktime_localtime) blast
qed

text \<open>A chip whose clock goes from 23:59:59 to midnight between two transfers.\<close>

definition ticking_client :: "nat pcf_i2c_client" where
  "ticking_client = \<lparr>i2c_write = \<lambda>_ _ _ _ n. (- 1, n),
     i2c_read = \<lambda>_ r _ n. (0, calendar_regs 0 0 (localtime 0 (if n \<le> 2 then 86399 else 86400)) (unat r), Suc n),
     write_addr = 0x51, read_addr = 0x51\<rparr>"

lemma pcf8563_get_torn_witness:
  "\<exists>s'. pcf8563_get_datetime 0 0 \<lparr>client = Some ticking_client, c_polarity = 0, rtc_now = 0, chip = 0\<rparr> =
     (0, (86399 + 1) + 59, s')"
  by (rule pcf8563_get_torn[where cl = ticking_client and d = "\<lambda>i. i" and sta = 0 and stb = 0 and t = 86399])
     (auto simp: ticking_client_def year_start_def unat_of_nat)

text \<open>the error paths.  Without a client the reader fails and the writer calls through a null pointer;
  a failed transfer, a low-voltage flag or registers that are no date between 1970 and 2099 make the reader
  return -1 and leave the caller's time alone.\<close>

theorem pcf8563_errors:
  "(client s = None \<longrightarrow> pcf8563_get_datetime off t0 s = (- 1, t0, s) \<and>
      (rtc_valid_tm (localtime off (uint time)) = 0 \<longrightarrow> pcf8563_set_datetime off time s = Inl Null_Call)) \<and>
   (\<forall>cl. client s = Some cl \<longrightarrow>
      (case read_registers cl 0 9 (chip s) of
         (None, _) \<Rightarrow> \<exists>s'. pcf8563_get_datetime off t0 s = (- 1, t0, s')
       | (Some buf, _) \<Rightarrow>
           if buf ! 2 AND 0x80 \<noteq> 0 \<or> \<not> (tm_ok (registers_to_tm buf) \<and> rtc_range (registers_to_tm buf))
           then \<exists>s'. pcf8563_get_datetime off t0 s = (- 1, t0, s')
           else \<exists>s'. pcf8563_get_datetime off t0 s = (0, fst (mktime off (registers_to_tm buf)), s')))"
proof -
  have b: "- 2147483648 < bcd2bin w" "- 2147483648 \<le> bcd2bin w" "bcd2bin w \<le> 2147483647"
    "bcd2bin w \<le> 2147483648" for w
  proof -
    have "uint (w AND 0x0f) < 256" "uint (drop_bit 4 w) < 256" "0 \<le> uint (w AND 0x0f)" "0 \<le> uint (drop_bit 4 w)"
      using uint_lt2p[of "w AND 0x0f"] uint_lt2p[of "drop_bit 4 w"] by simp_all
    then show "- 2147483648 < bcd2bin w" "- 2147483648 \<le> bcd2bin w" "bcd2bin w \<le> 2147483647" "bcd2bin w \<le> 2147483648"
      unfolding bcd2bin_def by linarith+
  qed
  have "tm_int32 (registers_to_tm buf)" for buf
    by (auto simp: tm_int32_def registers_to_tm_def b)
  note v = rtc_valid_iff[OF this]
  show ?thesis
    by (auto simp: pcf8563_get_datetime_def pcf8563_set_datetime_def v PCF8563_SC_LV_def Let_def split: prod.split option.split)
qed

end
