(* ===== verification/Cstring.thy ===== *)
theory Cstring
  imports Prelude
begin

text \<open>
  The part of the C library's text conversion the clock code uses: \<open>sscanf\<close> with \<open>%d\<close>, \<open>%2d\<close> and
  literal characters, \<open>snprintf\<close> with \<open>%d\<close> and \<open>%02d\<close>, and the POSIX form of the variable \<open>TZ\<close>.  A C
  string is the list of its characters before the terminating zero.  \<open>%d\<close> saturates like \<open>strtol\<close>, which
  the C library of the ESP32 uses for it; the standard leaves an overflow undefined.
\<close>

definition char_code :: "char \<Rightarrow> nat" where "char_code c = of_char c"

definition is_digit :: "char \<Rightarrow> bool" where "is_digit c \<longleftrightarrow> 48 \<le> char_code c \<and> char_code c \<le> 57"
definition is_space :: "char \<Rightarrow> bool" where "is_space c \<longleftrightarrow> char_code c = 32 \<or> (9 \<le> char_code c \<and> char_code c \<le> 13)"
definition is_alpha :: "char \<Rightarrow> bool" where
  "is_alpha c \<longleftrightarrow> (65 \<le> char_code c \<and> char_code c \<le> 90) \<or> (97 \<le> char_code c \<and> char_code c \<le> 122)"

definition digit :: "nat \<Rightarrow> char" where "digit d = char_of (48 + d)"

definition dec_val :: "string \<Rightarrow> int" where
  "dec_val s = foldl (\<lambda>a c. a * 10 + (int (char_code c) - 48)) 0 s"

definition clamp32 :: "int \<Rightarrow> int" where "clamp32 v = max (- 2147483648) (min 2147483647 v)"

section \<open>Scanning\<close>

text \<open>An optional sign, and the rest with what is left of the field width.\<close>

fun scan_sign :: "nat option \<Rightarrow> string \<Rightarrow> bool \<times> nat option \<times> string" where
  "scan_sign w (c # s) =
     (if c = CHR ''-'' then (True, map_option (\<lambda>n. n - 1) w, s)
      else if c = CHR ''+'' then (False, map_option (\<lambda>n. n - 1) w, s)
      else (False, w, c # s))"
| "scan_sign w [] = (False, w, [])"

definition scan_digits :: "nat option \<Rightarrow> string \<Rightarrow> string" where
  "scan_digits w s = (case w of None \<Rightarrow> takeWhile is_digit s | Some n \<Rightarrow> takeWhile is_digit (take n s))"

definition scan_d :: "nat option \<Rightarrow> string \<Rightarrow> (int \<times> string) option" where
  "scan_d w s0 =
     (let (neg, w', s) = scan_sign w (dropWhile is_space s0); ds = scan_digits w' s in
      if ds = [] then None
      else Some (clamp32 (if neg then - dec_val ds else dec_val ds), drop (length ds) s))"

fun scan_lit :: "char \<Rightarrow> string \<Rightarrow> string option" where
  "scan_lit c (x # s) = (if x = c then Some s else None)"
| "scan_lit c [] = None"

section \<open>Printing\<close>

fun dec_digits :: "nat \<Rightarrow> string" where
  "dec_digits n = (if n < 10 then [digit n] else dec_digits (n div 10) @ [digit (n mod 10)])"

declare dec_digits.simps [simp del]

definition fmt_d :: "int \<Rightarrow> string" where
  "fmt_d x = (if x < 0 then ''-'' @ dec_digits (nat (- x)) else dec_digits (nat x))"

text \<open>\<open>%0wd\<close>: zeros between the sign and the digits up to the width.\<close>

definition fmt_0d :: "nat \<Rightarrow> int \<Rightarrow> string" where
  "fmt_0d w x = (let ds = dec_digits (nat \<bar>x\<bar>); sg = (if x < 0 then ''-'' else '''') in
     sg @ replicate (w - length sg - length ds) (CHR ''0'') @ ds)"

section \<open>The variable TZ\<close>

text \<open>A POSIX zone without daylight saving: a name of at least three letters and the time to add to local
  time to get UTC, hours up to 24 and optional minutes.  The result is the offset of local time to UTC in
  seconds; what other strings mean is up to the C library.\<close>

definition posix_tz :: "string \<Rightarrow> int option" where
  "posix_tz s =
     (let name = takeWhile is_alpha s; (neg, _, r) = scan_sign None (drop (length name) s);
          hd = takeWhile is_digit r; r1 = drop (length hd) r; sg = (if neg then 1 else - 1) in
      if length name < 3 \<or> hd = [] \<or> dec_val hd > 24 then None
      else case r1 of
        [] \<Rightarrow> Some (sg * (dec_val hd * 3600))
      | c # r2 \<Rightarrow> let md = takeWhile is_digit r2 in
          if c \<noteq> CHR '':'' \<or> md = [] \<or> md \<noteq> r2 \<or> dec_val md > 59 then None
          else Some (sg * (dec_val hd * 3600 + dec_val md * 60)))"

definition utc_offset :: "(string \<Rightarrow> int) \<Rightarrow> string \<Rightarrow> int" where
  "utc_offset ctz s = (case posix_tz s of Some v \<Rightarrow> v | None \<Rightarrow> ctz s)"

section \<open>Scanning what was printed\<close>

lemma char_code_digit: "d < 10 \<Longrightarrow> char_code (digit d) = 48 + d"
  by (simp add: char_code_def digit_def)

lemma is_digit_digit: "d < 10 \<Longrightarrow> is_digit (digit d)"
  by (simp add: is_digit_def char_code_digit)

lemma dec_val_append: "dec_val (s @ t) = foldl (\<lambda>a c. a * 10 + (int (char_code c) - 48)) (dec_val s) t"
  by (simp add: dec_val_def)

lemma dec_digits_ok:
  "dec_val (dec_digits n) = int n \<and> list_all is_digit (dec_digits n) \<and> dec_digits n \<noteq> []"
proof (induction n rule: dec_digits.induct)
  case (1 n)
  have "int (n div 10) * 10 + int (n mod 10) = int n"
    by (simp add: of_nat_div of_nat_mod)
  with 1 show ?case
    by (subst (1 2 3) dec_digits.simps)
       (auto simp: dec_val_append is_digit_digit char_code_digit dec_val_def[of "[_]"])
qed

lemma dec_val_zeros: "dec_val (replicate k (CHR ''0'') @ s) = dec_val s"
proof -
  have "dec_val (replicate k (CHR ''0'')) = 0"
    by (induction k) (simp_all add: dec_val_def char_code_def)
  then show ?thesis by (simp add: dec_val_append) (simp add: dec_val_def)
qed

lemma dec_val_bounds: "list_all is_digit s \<Longrightarrow> 0 \<le> dec_val s \<and> dec_val s < 10 ^ length s"
proof (induction s rule: rev_induct)
  case (snoc c s)
  then show ?case by (simp add: dec_val_append is_digit_def)
qed (simp add: dec_val_def)

lemma takeWhile_digits:
  "list_all is_digit ds \<Longrightarrow> (r = [] \<or> \<not> is_digit (hd r)) \<Longrightarrow> takeWhile is_digit (ds @ r) = ds"
  by (induction ds) (cases r; auto)+

lemma digit_head: "is_digit c \<Longrightarrow> \<not> is_space c \<and> c \<noteq> CHR ''-'' \<and> c \<noteq> CHR ''+''"
  by (auto simp: is_digit_def is_space_def char_code_def)

lemma scan_d_digits:
  assumes "list_all is_digit ds" "ds \<noteq> []" "r = [] \<or> \<not> is_digit (hd r)" "length ds \<le> 9"
  shows "scan_d None (ds @ r) = Some (dec_val ds, r)"
proof -
  obtain c cs where c: "ds = c # cs" "is_digit c" using assms by (cases ds) auto
  then have "dropWhile is_space (ds @ r) = ds @ r" "scan_sign None (ds @ r) = (False, None, ds @ r)"
    using digit_head[of c] by simp_all
  moreover have "clamp32 (dec_val ds) = dec_val ds"
  proof -
    have "(10 :: int) ^ length ds \<le> 10 ^ 9" using assms(4) by (intro power_increasing) simp_all
    then show ?thesis using dec_val_bounds[OF assms(1)] by (simp add: clamp32_def)
  qed
  ultimately show ?thesis
    using assms takeWhile_digits[OF assms(1,3)] by (simp add: scan_d_def scan_digits_def)
qed

text \<open>Fixed-width decimal fields.\<close>

lemma fmt_0d_ok:
  assumes "0 \<le> x"
  shows "dec_val (fmt_0d w x) = x" "list_all is_digit (fmt_0d w x)" "fmt_0d w x \<noteq> []"
  using assms dec_digits_ok[of "nat x"]
  by (auto simp: fmt_0d_def Let_def dec_val_zeros list_all_iff is_digit_def char_code_def)

lemma length_dec_digits: "n < 10 ^ k \<Longrightarrow> 0 < k \<Longrightarrow> length (dec_digits n) \<le> k"
proof (induction n arbitrary: k rule: dec_digits.induct)
  case (1 n)
  show ?case
  proof (cases "n < 10")
    case False
    then obtain k' where k: "k = Suc k'" "0 < k'" using 1(2,3) by (cases k; cases "k - 1") auto
    then have "n div 10 < 10 ^ k'" using 1(2) by (simp add: less_mult_imp_div_less mult.commute)
    then show ?thesis using 1(1)[OF False _ k(2)] False k by (simp add: dec_digits.simps[of n])
  qed (use 1 in \<open>simp add: dec_digits.simps[of n]\<close>)
qed

lemma length_fmt_0d:
  assumes "0 \<le> x" "x < 10 ^ w" "0 < w"
  shows "length (fmt_0d w x) = w"
proof -
  have "nat x < 10 ^ w" using assms by (simp add: nat_less_iff)
  then show ?thesis using length_dec_digits[OF _ assms(3)] assms(1) by (simp add: fmt_0d_def Let_def)
qed

end
