(* ===== verification/Sync_Time.thy ===== *)
theory Sync_Time
  imports Rtc Cstring
begin

text \<open>
  The board's clock, \<open>sync_time/sync_time.c\<close>: the C library's system time and zone, the copy of the local
  time in \<open>reals\<close> and in the register map, the flags that say which sources have set the clock, and the
  operations that set it (the app, the cloud's ISO 8601 string, SNTP, the dates the battery packs and
  inverters announce, the clock chip).  The compile-time switches are a record of the model, so that both
  builds are covered.  A handler takes less than the second the clock counts in, so \<open>time\<close> gives the same
  value throughout it; the clock advances between handlers.  Logging is left out.
\<close>

section \<open>State\<close>

text \<open>\<open>CONFIG_IIC_BUS_EXT_RTC_ENABLE\<close> and \<open>CONFIG_RTC_TIME_SOURCE_CHANGE\<close> (1 inverter, 2 battery pack, 3
  inverter with broadcast).\<close>

record time_build =
  ext_rtc_enable :: bool
  time_source :: nat

record rtc_time_t =
  mon :: u8
  year :: u8
  hour :: u8
  day :: u8
  sec :: u8
  min_of :: u8

record iot_date_t =
  d_year :: u8
  d_month :: u8
  d_day :: u8
  d_hour :: u8
  d_minute :: u8
  d_second :: u8

record time_res =
  z_hour :: "8 word"
  z_min :: "8 word"

record rtc_flags =
  RTC_valid_from_NTP :: bool
  RTC_valid_from_APP :: bool
  RTC_valid_from_CAN :: bool
  RTC_valid_from_SERVER :: bool
  RTC_valid_from_RTC :: bool
  Time_valid :: bool
  RTC_set_IOT_to_INV :: bool
  RTC_set_APP_to_IOT :: bool
  RTC_set_SERVER_to_IOT :: bool

text \<open>\<open>rd\<close> and \<open>wr\<close> are the time and zone registers 2001 to 2004 of the two register maps.\<close>

record 'd clock_state = "'d pcf8563" +
  sys_time :: int
  tz_env :: string
  local_tm :: tm
  rtc_time :: rtc_time_t
  rd_time :: rtc_time_t
  rd_zone :: time_res
  wr_time :: rtc_time_t
  wr_zone :: time_res
  SetTimeZone :: time_res
  zone_to_save :: bool
  bluetti_time_update :: nat
  rtc_flag :: rtc_flags
  last_rtc_sync_ble :: int
  last_rtc_sync_cloud :: int
  last_rtc_sync_local :: int
  last_check_time :: int
  ext_rtc_connect_status :: bool
  rtc_fault :: bool

definition TIME_STAMP_2023 :: int where "TIME_STAMP_2023 = 1672531200"
definition TIME_STAMP_2020 :: int where "TIME_STAMP_2020 = 1577836800"

text \<open>The zone in effect; \<open>ctz\<close> is what the C library makes of a string that is no POSIX zone.\<close>

definition zone_off :: "(string \<Rightarrow> int) \<Rightarrow> ('d, 'z) clock_state_scheme \<Rightarrow> int" where
  "zone_off ctz s = utc_offset ctz (tz_env s)"

section \<open>Local copies\<close>

definition tm_to_rtc_time :: "tm \<Rightarrow> rtc_time_t" where
  "tm_to_rtc_time x =
     \<lparr>mon = word_of_int (tm_mon x + 1),
      year = (if tm_year x < 100 then 0 else word_of_int (uint (word_of_int (tm_year x) :: u16) + 1900 - 2000)),
      hour = word_of_int (tm_hour x), day = word_of_int (tm_mday x),
      sec = word_of_int (tm_sec x), min_of = word_of_int (tm_min x)\<rparr>"

definition time_sync_to_local :: "(string \<Rightarrow> int) \<Rightarrow> ('d, 'z) clock_state_scheme \<Rightarrow> ('d, 'z) clock_state_scheme" where
  "time_sync_to_local ctz s =
     (let x = localtime (zone_off ctz s) (sys_time s); r = tm_to_rtc_time x in
      s\<lparr>rtc_now := sys_time s, local_tm := x, rtc_time := r, rd_time := r, rd_zone := SetTimeZone s\<rparr>)"

definition rtc_time_to_tm :: "rtc_time_t \<Rightarrow> tm \<Rightarrow> tm" where
  "rtc_time_to_tm r x =
     x\<lparr>tm_year := uint (year r) + 100, tm_mon := (if mon r \<noteq> 0 then uint (mon r) - 1 else 0),
       tm_mday := uint (day r), tm_hour := uint (hour r), tm_min := uint (min_of r), tm_sec := uint (sec r)\<rparr>"

definition time_sync_save_to_system :: "(string \<Rightarrow> int) \<Rightarrow> ('d, 'z) clock_state_scheme \<Rightarrow> ('d, 'z) clock_state_scheme" where
  "time_sync_save_to_system ctz s =
     (let x = rtc_time_to_tm (rtc_time s) (localtime (zone_off ctz s) (sys_time s))
      in s\<lparr>sys_time := fst (mktime (zone_off ctz s) x)\<rparr>)"

definition time_sync_system_to_local ::
    "time_build \<Rightarrow> (string \<Rightarrow> int) \<Rightarrow> nat \<Rightarrow> ('d, 'z) clock_state_scheme \<Rightarrow> ('d, 'z) clock_state_scheme" where
  "time_sync_system_to_local cfg ctz set_flag s =
     (if ext_rtc_enable cfg then
        (if set_flag = 1 \<and> ext_rtc_connect_status s then
           let (ret, t, s1) = pcf8563_get_datetime (zone_off ctz s) (rtc_now s) s; s2 = s1\<lparr>rtc_now := t\<rparr> in
           if ret > 0 then
             let x = localtime (zone_off ctz s2) (rtc_now s2); r = tm_to_rtc_time x;
                 s3 = time_sync_save_to_system ctz (s2\<lparr>local_tm := x, rtc_time := r\<rparr>)
             in s3\<lparr>rd_time := rtc_time s3, rd_zone := SetTimeZone s3\<rparr>
           else time_sync_to_local ctz s2
         else time_sync_to_local ctz s)
      else time_sync_to_local ctz s)"

text \<open>Writing the system time into the clock chip, when the build has one and it answered at boot.\<close>

definition update_ext_rtc ::
    "time_build \<Rightarrow> (string \<Rightarrow> int) \<Rightarrow> ('d, 'z) clock_state_scheme \<Rightarrow> ('d, 'z) clock_state_scheme cres" where
  "update_ext_rtc cfg ctz s =
     (if ext_rtc_enable cfg \<and> ext_rtc_connect_status s
      then cbind (pcf8563_set_datetime (zone_off ctz s) (word_of_int (sys_time s)) s) (\<lambda>(_, s'). Inr s')
      else Inr s)"

section \<open>Setting the clock\<close>

abbreviation upd_flags :: "(rtc_flags \<Rightarrow> rtc_flags) \<Rightarrow> ('d, 'z) clock_state_scheme \<Rightarrow> ('d, 'z) clock_state_scheme" where
  "upd_flags f s \<equiv> s\<lparr>rtc_flag := f (rtc_flag s)\<rparr>"

definition mark_time_valid :: "('d, 'z) clock_state_scheme \<Rightarrow> ('d, 'z) clock_state_scheme" where
  "mark_time_valid s =
     (let g = rtc_flag s in
      if RTC_valid_from_SERVER g \<or> RTC_valid_from_APP g \<or> RTC_valid_from_CAN g \<or> RTC_valid_from_NTP g \<or>
         RTC_valid_from_RTC g
      then s\<lparr>rtc_flag := g\<lparr>Time_valid := True\<rparr>\<rparr> else s)"

text \<open>The app's time is refused, with an early return, once the server's is known.\<close>

definition set_app_time ::
    "time_build \<Rightarrow> (string \<Rightarrow> int) \<Rightarrow> ('d, 'z) clock_state_scheme \<Rightarrow> ('d, 'z) clock_state_scheme cres" where
  "set_app_time cfg ctz s0 =
     (let s = upd_flags (RTC_set_APP_to_IOT_update (\<lambda>_. False)) s0 in
      if RTC_valid_from_SERVER (rtc_flag s) \<and> bluetti_time_update s \<noteq> 2 then Inr s
      else
        let s1 = s\<lparr>rtc_time := wr_time s\<rparr> in
        cbind (if ext_rtc_enable cfg then update_ext_rtc cfg ctz s1 else Inr (time_sync_save_to_system ctz s1)) (\<lambda>s2.
          let s3 = time_sync_system_to_local cfg ctz 1 s2;
              s4 = s3\<lparr>last_rtc_sync_ble := rtc_now s3\<rparr>
          in Inr (mark_time_valid (upd_flags (\<lambda>g. g\<lparr>RTC_valid_from_APP := True, RTC_set_IOT_to_INV := True\<rparr>) s4))))"

definition set_server_time ::
    "time_build \<Rightarrow> (string \<Rightarrow> int) \<Rightarrow> ('d, 'z) clock_state_scheme \<Rightarrow> ('d, 'z) clock_state_scheme cres" where
  "set_server_time cfg ctz s0 =
     cbind (update_ext_rtc cfg ctz (upd_flags (RTC_set_SERVER_to_IOT_update (\<lambda>_. False)) s0)) (\<lambda>s1.
       let s2 = time_sync_system_to_local cfg ctz 1 s1;
           s3 = s2\<lparr>wr_time := rtc_time s2, wr_zone := SetTimeZone s2, last_rtc_sync_cloud := rtc_now s2\<rparr>
       in Inr (mark_time_valid (upd_flags (\<lambda>g. g\<lparr>RTC_valid_from_SERVER := True, RTC_set_IOT_to_INV := True\<rparr>) s3)))"

definition time_new_set_check ::
    "time_build \<Rightarrow> (string \<Rightarrow> int) \<Rightarrow> ('d, 'z) clock_state_scheme \<Rightarrow> ('d, 'z) clock_state_scheme cres" where
  "time_new_set_check cfg ctz s =
     (if RTC_set_APP_to_IOT (rtc_flag s) then set_app_time cfg ctz s
      else if RTC_set_SERVER_to_IOT (rtc_flag s) then set_server_time cfg ctz s
      else Inr (mark_time_valid s))"

datatype sntp_sync_status = SNTP_SYNC_STATUS_RESET | SNTP_SYNC_STATUS_COMPLETED | SNTP_SYNC_STATUS_IN_PROGRESS

definition time_sync_notification_cb ::
    "time_build \<Rightarrow> (string \<Rightarrow> int) \<Rightarrow> sntp_sync_status \<Rightarrow> ('d, 'z) clock_state_scheme \<Rightarrow> ('d, 'z) clock_state_scheme cres" where
  "time_sync_notification_cb cfg ctz st s =
     (if st = SNTP_SYNC_STATUS_COMPLETED then
        cbind (update_ext_rtc cfg ctz s) (\<lambda>s1.
          let s2 = time_sync_system_to_local cfg ctz 1 s1 in
          Inr (upd_flags (RTC_valid_from_NTP_update (\<lambda>_. True)) (s2\<lparr>wr_time := rtc_time s2, wr_zone := SetTimeZone s2\<rparr>)))
      else Inr s)"

text \<open>The zone: \<open>posix_hour = - posix_hour\<close> is computed in \<open>int8_t\<close>, the string is cut at 19 characters.\<close>

definition tz_posix_str :: "8 word \<Rightarrow> 8 word \<Rightarrow> string" where
  "tz_posix_str h m =
     (let (signal, posix_hour) = (if sint h > 0 then (CHR ''-'', h) else (CHR ''+'', - h))
      in take 19 (''UTC'' @ [signal] @ fmt_d (sint posix_hour) @ '':'' @ fmt_0d 2 (sint m)))"

definition app_sntp_set_timezone :: "8 word \<Rightarrow> 8 word \<Rightarrow> ('d, 'z) clock_state_scheme \<Rightarrow> ('d, 'z) clock_state_scheme" where
  "app_sntp_set_timezone h m s = s\<lparr>tz_env := tz_posix_str h m\<rparr>"

section \<open>Dates from the CAN bus\<close>

definition is_time_diff_reasonable :: "u8 \<Rightarrow> u8 \<Rightarrow> u8 \<Rightarrow> u8 \<Rightarrow> u8 \<Rightarrow> bool" where
  "is_time_diff_reasonable hour1 min1 hour2 min2 minute_threshold =
     (let minutes1 = ucast hour1 * 60 + ucast min1 :: u32; minutes2 = ucast hour2 * 60 + ucast min2;
          minute_diff = (if minutes1 > minutes2 then minutes1 - minutes2 else minutes2 - minutes1)
      in minute_diff \<le> ucast minute_threshold)"

text \<open>\<open>Time_PACK_to_IOT\<close> and \<open>Time_ARM_to_IOT\<close> are the same code over the two kinds of announcement.\<close>

definition date_to_tm :: "iot_date_t \<Rightarrow> tm \<Rightarrow> tm" where
  "date_to_tm d x =
     x\<lparr>tm_year := uint (d_year d) + 100, tm_mon := (if d_month d \<noteq> 0 then uint (d_month d) - 1 else 0),
       tm_mday := uint (d_day d), tm_hour := uint (d_hour d), tm_min := uint (d_minute d), tm_sec := uint (d_second d)\<rparr>"

definition Time_CAN_to_IOT ::
    "time_build \<Rightarrow> (string \<Rightarrow> int) \<Rightarrow> iot_date_t \<Rightarrow> ('d, 'z) clock_state_scheme \<Rightarrow> int \<times> ('d, 'z) clock_state_scheme" where
  "Time_CAN_to_IOT cfg ctz d s =
     (if (d_month d OR d_hour d OR d_day d OR d_second d OR d_minute d) = 0 \<or> d_year d < 20 then (- 1, s)
      else
        let (t, x) = mktime (zone_off ctz s) (date_to_tm d (local_tm s))
        in (0, time_sync_system_to_local cfg ctz 0 (s\<lparr>local_tm := x, rtc_now := t, sys_time := t\<rparr>)))"

text \<open>\<open>idle\<close> stands for the conditions on sleep, online devices and updates in progress.\<close>

definition other_source :: "rtc_flags \<Rightarrow> bool" where
  "other_source g \<longleftrightarrow> RTC_valid_from_NTP g \<or> RTC_valid_from_APP g \<or> RTC_valid_from_RTC g \<or> RTC_valid_from_SERVER g"

definition RTC_take_from_can ::
    "time_build \<Rightarrow> (string \<Rightarrow> int) \<Rightarrow> iot_date_t \<Rightarrow> ('d, 'z) clock_state_scheme \<Rightarrow> ('d, 'z) clock_state_scheme" where
  "RTC_take_from_can cfg ctz d s =
     (if \<not> other_source (rtc_flag s) \<and> \<not> RTC_valid_from_CAN (rtc_flag s) then
        let (ret, s1) = Time_CAN_to_IOT cfg ctz d s;
            s2 = (if ret = 0 then upd_flags (RTC_valid_from_CAN_update (\<lambda>_. True)) s1 else s1)
        in if RTC_valid_from_CAN (rtc_flag s2) then s2\<lparr>last_rtc_sync_local := rtc_now s2\<rparr> else s2
      else s)"

definition RTC_correct_can :: "time_build \<Rightarrow> bool \<Rightarrow> iot_date_t \<Rightarrow> ('d, 'z) clock_state_scheme \<Rightarrow> ('d, 'z) clock_state_scheme" where
  "RTC_correct_can cfg idle d s =
     (if other_source (rtc_flag s) \<and> \<not> RTC_set_IOT_to_INV (rtc_flag s) \<and> rtc_now s - last_check_time s > 60 \<and> idle then
        let r = rtc_time s;
            differs = (d_month d \<noteq> mon r \<or> d_year d \<noteq> year r \<or> d_day d \<noteq> day r \<or>
              \<not> is_time_diff_reasonable (d_hour d) (d_minute d) (hour r) (min_of r)
                  (if time_source cfg = 1 then 2 else 3));
            s1 = (if time_source cfg = 3 \<or> differs then upd_flags (RTC_set_IOT_to_INV_update (\<lambda>_. True)) s else s)
        in s1\<lparr>last_check_time := rtc_now s1\<rparr>
      else s)"

definition RTC_Valid_Check ::
    "time_build \<Rightarrow> (string \<Rightarrow> int) \<Rightarrow> bool \<Rightarrow> iot_date_t \<Rightarrow> ('d, 'z) clock_state_scheme \<Rightarrow> ('d, 'z) clock_state_scheme" where
  "RTC_Valid_Check cfg ctz idle d s = RTC_correct_can cfg idle d (RTC_take_from_can cfg ctz d s)"

section \<open>Start-up\<close>

definition system_time_init ::
    "time_build \<Rightarrow> (string \<Rightarrow> int) \<Rightarrow> ('d, 'z) clock_state_scheme \<Rightarrow> ('d, 'z) clock_state_scheme cres" where
  "system_time_init cfg ctz s0 =
     (let s = app_sntp_set_timezone (z_hour (SetTimeZone s0)) (z_min (SetTimeZone s0)) s0 in
      if \<not> ext_rtc_enable cfg then Inr s
      else
        let (ret, t, s1) = pcf8563_get_datetime (zone_off ctz s) 0 s in
        if ret < 0 \<or> to_uint32 t < TIME_STAMP_2020 then
          cbind (pcf8563_set_datetime (zone_off ctz s1) (word_of_int TIME_STAMP_2020) s1) (\<lambda>(ret2, s2).
            Inr (if ret2 \<noteq> 0 then s2\<lparr>rtc_fault := True, ext_rtc_connect_status := False\<rparr>
                 else s2\<lparr>ext_rtc_connect_status := True\<rparr>))
        else
          let s2 = s1\<lparr>ext_rtc_connect_status := True\<rparr> in
          if to_uint32 t > TIME_STAMP_2023
          then Inr (upd_flags (RTC_valid_from_RTC_update (\<lambda>_. True)) (time_sync_to_local ctz (s2\<lparr>sys_time := t\<rparr>)))
          else Inr s2)"

section \<open>The cloud's ISO 8601 time\<close>

text \<open>\<open>sscanf (s, "%d-%d-%dT%d:%d:%d", ...)\<close>, all six or nothing.\<close>

definition scan_then :: "char \<Rightarrow> string \<Rightarrow> (int \<times> string) option" where
  "scan_then c s =
     (case scan_d None s of None \<Rightarrow> None
      | Some (v, r) \<Rightarrow> (case scan_lit c r of None \<Rightarrow> None | Some r' \<Rightarrow> Some (v, r')))"

definition scan_base :: "string \<Rightarrow> (int \<times> int \<times> int \<times> int \<times> int \<times> int) option" where
  "scan_base s =
     Option.bind (scan_then (CHR ''-'') s) (\<lambda>(yy, r1).
     Option.bind (scan_then (CHR ''-'') r1) (\<lambda>(mo, r2).
     Option.bind (scan_then (CHR ''T'') r2) (\<lambda>(dd, r3).
     Option.bind (scan_then (CHR '':'') r3) (\<lambda>(hh, r4).
     Option.bind (scan_then (CHR '':'') r4) (\<lambda>(mi, r5).
     map_option (\<lambda>(ss, _). (yy, mo, dd, hh, mi, ss)) (scan_d None r5))))))"

text \<open>The zone behind the time: \<open>Z\<close>, or a sign and \<open>%d:%d\<close> or, where that fails, \<open>%2d%2d\<close>.\<close>

definition scan_zone_digits :: "string \<Rightarrow> (int \<times> int) option" where
  "scan_zone_digits s =
     (case Option.bind (scan_then (CHR '':'') s) (\<lambda>(h, r). map_option (\<lambda>(m, _). (h, m)) (scan_d None r)) of
        Some z \<Rightarrow> Some z
      | None \<Rightarrow> Option.bind (scan_d (Some 2) s) (\<lambda>(h, r). map_option (\<lambda>(m, _). (h, m)) (scan_d (Some 2) r)))"

definition skip_fraction :: "string \<Rightarrow> string" where
  "skip_fraction s =
     (case s of c # r \<Rightarrow> if c = CHR ''.'' \<or> c = CHR '','' then dropWhile is_digit r else s | [] \<Rightarrow> [])"

definition scan_zone :: "string \<Rightarrow> (char \<times> int \<times> int) option" where
  "scan_zone s =
     (case s of [] \<Rightarrow> None
      | c # r \<Rightarrow>
          if c = CHR ''Z'' \<or> c = CHR ''z'' then Some (CHR ''+'', 0, 0)
          else if c = CHR ''+'' \<or> c = CHR ''-'' then map_option (\<lambda>(h, m). (c, h, m)) (scan_zone_digits r)
          else None)"

definition parse_iso8601_to_tm_timestamp :: "string option \<Rightarrow> (tm \<times> time_res) option" where
  "parse_iso8601_to_tm_timestamp datetime_str =
     (case datetime_str of None \<Rightarrow> None
      | Some s \<Rightarrow>
          if length s < 20 then None
          else case scan_base s of None \<Rightarrow> None
          | Some (yy, mo, dd, hh, mi, ss) \<Rightarrow>
              (case scan_zone (skip_fraction (drop 19 s)) of None \<Rightarrow> None
               | Some (sign, tz_hour, tz_min) \<Rightarrow>
                   if yy < 1900 \<or> yy > 9999 then None
                   else if mo < 1 \<or> mo > 12 then None
                   else if dd < 1 \<or> dd > 31 then None
                   else if hh < 0 \<or> hh > 23 then None
                   else if mi < 0 \<or> mi > 59 then None
                   else if ss < 0 \<or> ss > 59 then None
                   else Some (\<lparr>tm_sec = ss, tm_min = mi, tm_hour = hh, tm_mday = dd, tm_mon = mo - 1,
                               tm_year = yy - 1900, tm_wday = 0\<rparr>,
                              \<lparr>z_hour = word_of_int (if sign = CHR ''-'' then - tz_hour else tz_hour),
                               z_min = word_of_int tz_min\<rparr>)))"

definition tm_time_to_timestamp :: "int \<Rightarrow> tm option \<Rightarrow> int option" where
  "tm_time_to_timestamp off x =
     (case x of None \<Rightarrow> None
      | Some x \<Rightarrow>
          if tm_year x < 70 \<or> tm_mon x < 0 \<or> tm_mon x > 11 \<or> tm_mday x < 1 \<or> tm_mday x > 31 \<or>
             tm_hour x < 0 \<or> tm_hour x > 23 \<or> tm_min x < 0 \<or> tm_min x > 59 \<or> tm_sec x < 0 \<or> tm_sec x > 59
          then None
          else let t = fst (mktime off x) in if t = - 1 then None else Some t)"

text \<open>The value lies in a message, not terminated; \<open>str_len\<close> bytes of it are copied into a zeroed buffer
  one byte longer, of which the parser sees what precedes the first zero.\<close>

definition cstr :: "string \<Rightarrow> string" where "cstr s = takeWhile (\<lambda>c. char_code c \<noteq> 0) s"

text \<open>A new zone is put into effect and stored, an unchanged one is taken for already in effect.\<close>

definition set_zone :: "time_res \<Rightarrow> ('d, 'z) clock_state_scheme \<Rightarrow> ('d, 'z) clock_state_scheme" where
  "set_zone z s =
     (if SetTimeZone s \<noteq> z
      then (app_sntp_set_timezone (z_hour z) (z_min z) s)\<lparr>SetTimeZone := z, zone_to_save := True\<rparr> else s)"

definition iCloud_Dst_Time_Check_and_Update ::
    "(string \<Rightarrow> int) \<Rightarrow> bool \<Rightarrow> string option \<Rightarrow> u16 \<Rightarrow> ('d, 'z) clock_state_scheme \<Rightarrow> (bool \<times> ('d, 'z) clock_state_scheme) cres" where
  "iCloud_Dst_Time_Check_and_Update ctz alloc_ok datetime_str str_len s =
     (case datetime_str of None \<Rightarrow> Inr (False, s)
      | Some dt \<Rightarrow>
          if str_len = 0 then Inr (False, s)
          else if \<not> alloc_ok then Inr (False, s)
          else need (unat str_len) dt
            (case parse_iso8601_to_tm_timestamp (Some (cstr (take (unat str_len) dt))) of
               None \<Rightarrow> Inr (False, s)
             | Some (x, z) \<Rightarrow>
                 let s1 = set_zone z s in
                 case tm_time_to_timestamp (zone_off ctz s1) (Some x) of
                      None \<Rightarrow> Inr (True, s1)
                    | Some t \<Rightarrow>
                        Inr (True, upd_flags (RTC_set_SERVER_to_IOT_update (\<lambda>_. True)) (s1\<lparr>sys_time := t\<rparr>))))"

definition get_local_midnight :: "(string \<Rightarrow> int) \<Rightarrow> ('d, 'z) clock_state_scheme \<Rightarrow> int" where
  "get_local_midnight ctz s =
     fst (mktime (zone_off ctz s) ((localtime (zone_off ctz s) (sys_time s))\<lparr>tm_hour := 0, tm_min := 0, tm_sec := 0\<rparr>))"

text \<open>Writes of the app through the Modbus register map (\<open>modbus_protocol.c\<close>): the time registers, and the
  zone register, which reaches the stored zone but not the C library.\<close>

definition modbus_write_time :: "rtc_time_t \<Rightarrow> ('d, 'z) clock_state_scheme \<Rightarrow> ('d, 'z) clock_state_scheme" where
  "modbus_write_time r s = upd_flags (RTC_set_APP_to_IOT_update (\<lambda>_. True)) (s\<lparr>wr_time := r\<rparr>)"

definition modbus_write_zone :: "time_res \<Rightarrow> ('d, 'z) clock_state_scheme \<Rightarrow> ('d, 'z) clock_state_scheme" where
  "modbus_write_zone z s =
     (let s1 = s\<lparr>wr_zone := z\<rparr> in
      if \<not> RTC_valid_from_SERVER (rtc_flag s1) \<and> SetTimeZone s1 \<noteq> wr_zone s1
      then s1\<lparr>SetTimeZone := wr_zone s1, zone_to_save := True\<rparr> else s1)"

section \<open>The zone string\<close>

definition zone_seconds :: "time_res \<Rightarrow> int" where
  "zone_seconds z = (if sint (z_hour z) > 0 then sint (z_hour z) * 3600 + sint (z_min z) * 60
     else sint (z_hour z) * 3600 - sint (z_min z) * 60)"

definition zone_in_range :: "time_res \<Rightarrow> bool" where
  "zone_in_range z \<longleftrightarrow> - 24 \<le> sint (z_hour z) \<and> sint (z_hour z) \<le> 24 \<and> 0 \<le> sint (z_min z) \<and> sint (z_min z) \<le> 59"

lemma posix_tz_printed:
  assumes "0 \<le> h" "h \<le> 24" "0 \<le> m" "m \<le> 59" "sg = CHR ''-'' \<or> sg = CHR ''+''"
  shows "posix_tz (''UTC'' @ [sg] @ fmt_d h @ '':'' @ fmt_0d 2 m) =
    Some ((if sg = CHR ''-'' then 1 else - 1) * (h * 3600 + m * 60))"
proof -
  let ?h = "dec_digits (nat h)" and ?m = "fmt_0d 2 m"
  have h: "dec_val ?h = h" "list_all is_digit ?h" "?h \<noteq> []" using dec_digits_ok[of "nat h"] assms by simp_all
  have m: "dec_val ?m = m" "list_all is_digit ?m" "?m \<noteq> []" using fmt_0d_ok[of m 2] assms by simp_all
  have f: "fmt_d h = ?h" using assms by (simp add: fmt_d_def)
  have c: "\<not> is_digit (CHR '':'')" by (simp add: is_digit_def char_code_def)
  have th: "takeWhile is_digit (?h @ CHR '':'' # ?m) = ?h" by (rule takeWhile_digits[OF h(2)]) (simp add: c)
  have tm: "takeWhile is_digit ?m = ?m" using m(2) by (simp add: takeWhile_eq_all_conv list_all_iff)
  have name: "takeWhile is_alpha (''UTC'' @ [sg] @ r) = ''UTC''" for r
    using assms(5) by (auto simp: is_alpha_def char_code_def)
  have sign: "scan_sign None ([sg] @ r) = (sg = CHR ''-'', None, r)" for r
    using assms(5) by auto
  show ?thesis
    unfolding posix_tz_def name Let_def f
    using assms(5) sign[of "?h @ CHR '':'' # ?m"] h m assms(1-4) by (auto simp: th tm list_all_iff)
qed

lemma length_fmt_d: "0 \<le> x \<Longrightarrow> x \<le> 99 \<Longrightarrow> length (fmt_d x) \<le> 2"
  using length_dec_digits[of "nat x" 2] by (simp add: fmt_d_def nat_less_iff)

lemma tz_posix_str_ok:
  assumes "zone_in_range z"
  shows "posix_tz (tz_posix_str (z_hour z) (z_min z)) = Some (zone_seconds z)"
proof -
  define sg ph where "sg = (if sint (z_hour z) > 0 then CHR ''-'' else CHR ''+'')"
    and "ph = (if sint (z_hour z) > 0 then z_hour z else - z_hour z)"
  note r = assms[unfolded zone_in_range_def]
  have "sint (- z_hour z) = - sint (z_hour z)"
    using r by (simp add: sint_word_ariths signed_take_bit_int_eq_self)
  then have ph: "sint ph = \<bar>sint (z_hour z)\<bar>" by (simp add: ph_def)
  have b: "0 \<le> sint ph" "sint ph \<le> 24" unfolding ph using r by linarith+
  have "length (''UTC'' @ [sg] @ fmt_d (sint ph) @ '':'' @ fmt_0d 2 (sint (z_min z))) \<le> 19"
    using length_fmt_d[of "sint ph"] length_fmt_0d[of "sint (z_min z)" 2] b r by simp
  then have "take 19 (''UTC'' @ [sg] @ fmt_d (sint ph) @ '':'' @ fmt_0d 2 (sint (z_min z))) =
      ''UTC'' @ [sg] @ fmt_d (sint ph) @ '':'' @ fmt_0d 2 (sint (z_min z))"
    by (rule take_all)
  moreover have "tz_posix_str (z_hour z) (z_min z) = take 19 (''UTC'' @ [sg] @ fmt_d (sint ph) @ '':'' @ fmt_0d 2 (sint (z_min z)))"
    by (simp add: tz_posix_str_def sg_def ph_def del: take_append)
  ultimately have "tz_posix_str (z_hour z) (z_min z) = ''UTC'' @ [sg] @ fmt_d (sint ph) @ '':'' @ fmt_0d 2 (sint (z_min z))"
    by (simp only:)
  then show ?thesis
    using posix_tz_printed[OF b, of "sint (z_min z)" sg] r
    by (simp add: ph sg_def zone_seconds_def abs_if algebra_simps)
qed

text \<open>The zone the C library uses is the stored one.\<close>

definition zone_applied :: "('d, 'z) clock_state_scheme \<Rightarrow> bool" where
  "zone_applied s \<longleftrightarrow> tz_env s = tz_posix_str (z_hour (SetTimeZone s)) (z_min (SetTimeZone s))"

lemma zone_off_applied:
  "zone_applied s \<Longrightarrow> zone_in_range (SetTimeZone s) \<Longrightarrow> zone_off ctz s = zone_seconds (SetTimeZone s)"
  by (simp add: zone_applied_def zone_off_def utc_offset_def tz_posix_str_ok)

section \<open>Reading an ISO 8601 string\<close>

text \<open>The strings of the cloud: date and time of a calendar structure, an optional fraction, and a zone as
  \<open>hh:mm\<close> or \<open>hhmm\<close> behind a sign, or the designator \<open>Z\<close> of UTC.\<close>

definition iso_date :: "tm \<Rightarrow> string" where
  "iso_date x = fmt_0d 4 (tm_year x + 1900) @ ''-'' @ fmt_0d 2 (tm_mon x + 1) @ ''-'' @ fmt_0d 2 (tm_mday x) @
     ''T'' @ fmt_0d 2 (tm_hour x) @ '':'' @ fmt_0d 2 (tm_min x) @ '':'' @ fmt_0d 2 (tm_sec x)"

definition iso_zone :: "bool \<Rightarrow> bool \<Rightarrow> int \<Rightarrow> int \<Rightarrow> string" where
  "iso_zone neg colon zh zm =
     (if neg then ''-'' else ''+'') @ fmt_0d 2 zh @ (if colon then '':'' else []) @ fmt_0d 2 zm"

definition zone_text :: "string \<Rightarrow> bool \<Rightarrow> int \<Rightarrow> int \<Rightarrow> bool" where
  "zone_text zs neg zh zm \<longleftrightarrow>
     (\<exists>colon. zs = iso_zone neg colon zh zm) \<or> zs \<in> {''Z'', ''z''} \<and> \<not> neg \<and> zh = 0 \<and> zm = 0"

lemma zone_textI: "zone_text (iso_zone neg colon zh zm) neg zh zm"
  by (auto simp: zone_text_def)

definition iso_fraction :: "string \<Rightarrow> bool" where
  "iso_fraction f \<longleftrightarrow> f = [] \<or> (hd f \<in> {CHR ''.'', CHR '',''} \<and> list_all is_digit (tl f))"

lemma scan_then_field:
  assumes "0 \<le> x" "x < 10 ^ w" "0 < w" "w \<le> 9" "\<not> is_digit c"
  shows "scan_then c (fmt_0d w x @ c # r) = Some (x, r)"
  using scan_d_digits[of "fmt_0d w x" "c # r"] length_fmt_0d[of x w] fmt_0d_ok[of x w] assms
  by (simp add: scan_then_def)

lemma scan_field:
  assumes "0 \<le> x" "x < 10 ^ w" "0 < w" "w \<le> 9" "r = [] \<or> \<not> is_digit (hd r)"
  shows "scan_d None (fmt_0d w x @ r) = Some (x, r)"
  using scan_d_digits[of "fmt_0d w x" r] length_fmt_0d[of x w] fmt_0d_ok[of x w] assms by simp

text \<open>The width cuts the digits of two adjacent fields.\<close>

lemma scan_d_width:
  assumes "0 \<le> x" "x < 10 ^ w" "0 < w" "w \<le> 9"
  shows "scan_d (Some w) (fmt_0d w x @ r) = Some (x, r)"
proof -
  note f = fmt_0d_ok[OF assms(1), of w] and l = length_fmt_0d[OF assms(1-3)]
  obtain c cs where c: "fmt_0d w x = c # cs" "is_digit c" using f by (cases "fmt_0d w x") auto
  then have "dropWhile is_space (fmt_0d w x @ r) = fmt_0d w x @ r"
      "scan_sign (Some w) (fmt_0d w x @ r) = (False, Some w, fmt_0d w x @ r)"
    using digit_head[of c] by simp_all
  moreover have "scan_digits (Some w) (fmt_0d w x @ r) = fmt_0d w x"
    using l takeWhile_digits[OF f(2), of "[]"] by (simp add: scan_digits_def)
  moreover have "clamp32 x = x"
    using assms(1,2,4) power_increasing[of w 9 "10 :: int"] by (simp add: clamp32_def)
  ultimately show ?thesis using f l by (simp add: scan_d_def)
qed

lemma literal_digits:
  "\<not> is_digit (CHR ''-'')" "\<not> is_digit (CHR '':'')" "\<not> is_digit (CHR ''T'')" "\<not> is_digit (CHR ''+'')"
  "\<not> is_digit (CHR ''.'')" "\<not> is_digit (CHR '','')" "\<not> is_digit (CHR ''Z'')" "\<not> is_digit (CHR ''z'')"
  by (simp_all add: is_digit_def char_code_def)

lemma scan_zone_digits_iso:
  assumes "0 \<le> zh" "zh < 100" "0 \<le> zm" "zm < 100"
  shows "scan_zone_digits (fmt_0d 2 zh @ (if colon then '':'' else []) @ fmt_0d 2 zm) = Some (zh, zm)"
proof (cases colon)
  case True
  have "scan_then (CHR '':'') (fmt_0d 2 zh @ CHR '':'' # fmt_0d 2 zm) = Some (zh, fmt_0d 2 zm)"
    by (rule scan_then_field) (use assms literal_digits in simp_all)
  moreover have "scan_d None (fmt_0d 2 zm) = Some (zm, [])"
    using scan_field[of zm 2 "[]"] assms by simp
  ultimately show ?thesis using True by (simp add: scan_zone_digits_def)
next
  case False
  have "scan_d None ((fmt_0d 2 zh @ fmt_0d 2 zm) @ []) = Some (dec_val (fmt_0d 2 zh @ fmt_0d 2 zm), [])"
    by (rule scan_d_digits) (use assms fmt_0d_ok[of zh 2] fmt_0d_ok[of zm 2] length_fmt_0d[of zh 2] length_fmt_0d[of zm 2] in simp_all)
  then have "scan_then (CHR '':'') (fmt_0d 2 zh @ fmt_0d 2 zm) = None" by (simp add: scan_then_def)
  moreover have "scan_d (Some 2) (fmt_0d 2 zh @ fmt_0d 2 zm) = Some (zh, fmt_0d 2 zm)"
    "scan_d (Some 2) (fmt_0d 2 zm) = Some (zm, [])"
    using scan_d_width[of zh 2] scan_d_width[of zm 2 "[]"] assms by simp_all
  ultimately show ?thesis using False by (simp add: scan_zone_digits_def)
qed

lemma zone_text_head:
  assumes "zone_text zs neg zh zm"
  shows "zs \<noteq> []" "hd zs \<in> {CHR ''+'', CHR ''-'', CHR ''Z'', CHR ''z''}"
  using assms by (auto simp: zone_text_def iso_zone_def split: if_splits)

lemma scan_zone_text:
  assumes "zone_text zs neg zh zm" "0 \<le> zh" "zh < 100" "0 \<le> zm" "zm < 100"
  shows "scan_zone zs = Some (if neg then CHR ''-'' else CHR ''+'', zh, zm)"
  using assms(1) scan_zone_digits_iso[OF assms(2-5)] by (auto simp: zone_text_def scan_zone_def iso_zone_def)

lemma skip_fraction_iso:
  assumes "iso_fraction f" "r \<noteq> []" "hd r \<in> {CHR ''+'', CHR ''-'', CHR ''Z'', CHR ''z''}"
  shows "skip_fraction (f @ r) = r"
proof (cases f)
  case Nil
  then show ?thesis using assms by (cases r) (auto simp: skip_fraction_def)
next
  case (Cons c ds)
  then have "dropWhile is_digit (ds @ r) = r"
    using assms literal_digits by (cases r) (auto simp: iso_fraction_def list_all_iff dropWhile_append2)
  then show ?thesis using Cons assms by (auto simp: skip_fraction_def iso_fraction_def)
qed

definition iso_tm :: "tm \<Rightarrow> bool" where
  "iso_tm x \<longleftrightarrow> tm_ok x \<and> 0 \<le> tm_year x \<and> tm_year x \<le> 8099"

lemma length_iso_date:
  assumes "iso_tm x"
  shows "length (iso_date x) = 19"
  using assms month_days_pos(2)[of "tm_year x + 1900" "nat (tm_mon x)"]
  by (simp add: iso_date_def length_fmt_0d iso_tm_def tm_ok_def)

lemma scan_base_iso:
  assumes x: "iso_tm x" and r: "r = [] \<or> \<not> is_digit (hd r)"
  shows "scan_base (iso_date x @ r) =
    Some (tm_year x + 1900, tm_mon x + 1, tm_mday x, tm_hour x, tm_min x, tm_sec x)"
proof -
  have b: "0 \<le> tm_year x + 1900" "tm_year x + 1900 < 10 ^ 4" "0 \<le> tm_mon x + 1" "tm_mon x + 1 < 10 ^ 2"
    "0 \<le> tm_mday x" "tm_mday x < 10 ^ 2" "0 \<le> tm_hour x" "tm_hour x < 10 ^ 2" "0 \<le> tm_min x" "tm_min x < 10 ^ 2"
    "0 \<le> tm_sec x" "tm_sec x < 10 ^ 2"
    using x month_days_pos(2)[of "tm_year x + 1900" "nat (tm_mon x)"] by (simp_all add: iso_tm_def tm_ok_def)
  show ?thesis
    using scan_then_field[OF b(1,2), of "CHR ''-''"] scan_then_field[OF b(3,4), of "CHR ''-''"]
      scan_then_field[OF b(5,6), of "CHR ''T''"] scan_then_field[OF b(7,8), of "CHR '':''"]
      scan_then_field[OF b(9,10), of "CHR '':''"] scan_field[OF b(11,12) _ _ r]
    by (simp add: scan_base_def iso_date_def literal_digits)
qed

lemma parse_iso:
  assumes x: "iso_tm x" and f: "iso_fraction f" and zt: "zone_text zs neg zh zm" and z: "0 \<le> zh" "zh < 100" "0 \<le> zm" "zm < 100"
  shows "parse_iso8601_to_tm_timestamp (Some (iso_date x @ f @ zs)) =
    Some (x\<lparr>tm_wday := 0\<rparr>, \<lparr>z_hour = word_of_int (if neg then - zh else zh), z_min = word_of_int zm\<rparr>)"
proof -
  have "hd (f @ zs) \<in> {CHR ''.'', CHR '','', CHR ''+'', CHR ''-'', CHR ''Z'', CHR ''z''}"
    using f zone_text_head[OF zt] by (cases f) (auto simp: iso_fraction_def)
  then have b: "scan_base (iso_date x @ f @ zs) =
      Some (tm_year x + 1900, tm_mon x + 1, tm_mday x, tm_hour x, tm_min x, tm_sec x)"
    by (intro scan_base_iso[OF x]) (auto simp: literal_digits)
  have "skip_fraction (drop 19 (iso_date x @ f @ zs)) = zs"
    using skip_fraction_iso[OF f zone_text_head[OF zt]] length_iso_date[OF x] by simp
  moreover have "scan_zone zs = Some (if neg then CHR ''-'' else CHR ''+'', zh, zm)"
    by (rule scan_zone_text[OF zt z])
  moreover have "\<not> length (iso_date x @ f @ zs) < 20"
    using length_iso_date[OF x] zone_text_head(1)[OF zt] by (cases zs) simp_all
  moreover have "tm_mday x \<le> 31" using x month_days_pos(2)[of "tm_year x + 1900" "nat (tm_mon x)"]
    by (simp add: iso_tm_def tm_ok_def)
  ultimately show ?thesis
    using x b by (auto simp: parse_iso8601_to_tm_timestamp_def iso_tm_def tm_ok_def)
qed

section \<open>The clock and its copies\<close>

text \<open>A register block shows the date and time of a calendar structure.\<close>

definition shows_date :: "rtc_time_t \<Rightarrow> tm \<Rightarrow> bool" where
  "shows_date r x \<longleftrightarrow> uint (year r) = tm_year x - 100 \<and> uint (mon r) = tm_mon x + 1 \<and> uint (day r) = tm_mday x \<and>
     uint (hour r) = tm_hour x \<and> uint (min_of r) = tm_min x \<and> uint (sec r) = tm_sec x"

definition rtc_years :: "tm \<Rightarrow> bool" where
  "rtc_years x \<longleftrightarrow> 100 \<le> tm_year x \<and> tm_year x \<le> 355"

lemma uint_byte: "0 \<le> v \<Longrightarrow> v < 256 \<Longrightarrow> uint (word_of_int v :: u8) = v"
  by (simp add: uint_word_of_int)

lemma shows_date_copy:
  assumes "tm_ok x" "rtc_years x"
  shows "shows_date (tm_to_rtc_time x) x"
proof -
  have "tm_mday x < 256" using assms(1) month_days_pos(2)[of "tm_year x + 1900" "nat (tm_mon x)"] by (simp add: tm_ok_def)
  moreover have "uint (word_of_int (tm_year x) :: u16) = tm_year x" using assms(2) by (simp add: rtc_years_def uint_word_of_int)
  ultimately show ?thesis
    using assms uint_byte[of "tm_year x - 100"] uint_byte[of "tm_mon x + 1"]
    by (simp add: shows_date_def tm_to_rtc_time_def tm_ok_def rtc_years_def uint_byte)
qed

lemma tm_to_rtc_time_wday [simp]: "tm_to_rtc_time (x\<lparr>tm_wday := w\<rparr>) = tm_to_rtc_time x"
  by (simp add: tm_to_rtc_time_def)

lemma shows_date_tm:
  assumes "shows_date r x" "tm_ok x"
  shows "rtc_time_to_tm r y = x\<lparr>tm_wday := tm_wday y\<rparr>"
proof -
  have "mon r \<noteq> 0" using assms by (auto simp: shows_date_def tm_ok_def)
  then show ?thesis using assms(1) by (auto intro!: tm.equality simp: rtc_time_to_tm_def shows_date_def)
qed

text \<open>copying the system time into the registers and setting it from them is the identity, in any
  zone, for local years from 2000 to 2255.\<close>

theorem clock_copy_roundtrip:
  assumes "rtc_years (localtime (zone_off ctz s) (sys_time s))"
  shows "sys_time (time_sync_save_to_system ctz (time_sync_to_local ctz s)) = sys_time s \<and>
    shows_date (rd_time (time_sync_to_local ctz s)) (localtime (zone_off ctz s) (sys_time s))"
proof -
  let ?x = "localtime (zone_off ctz s) (sys_time s)"
  have sh: "shows_date (tm_to_rtc_time ?x) ?x" by (rule shows_date_copy[OF tm_ok_localtime assms])
  then have "rtc_time_to_tm (tm_to_rtc_time ?x) ?x = ?x" using shows_date_tm[OF sh tm_ok_localtime] by simp
  then show ?thesis
    using sh by (simp add: time_sync_save_to_system_def time_sync_to_local_def zone_off_def Let_def mktime_localtime)
qed

section \<open>The cloud's time\<close>

definition iso_offset :: "bool \<Rightarrow> int \<Rightarrow> int \<Rightarrow> int" where
  "iso_offset neg zh zm = (if neg then - (zh * 3600 + zm * 60) else zh * 3600 + zm * 60)"

definition iso_res :: "bool \<Rightarrow> int \<Rightarrow> int \<Rightarrow> time_res" where
  "iso_res neg zh zm = \<lparr>z_hour = word_of_int (if neg then - zh else zh), z_min = word_of_int zm\<rparr>"

lemma sint_byte: "- 128 \<le> v \<Longrightarrow> v < 128 \<Longrightarrow> sint (word_of_int v :: 8 word) = v"
  by (simp add: int_word_sint)

lemma iso_res_seconds:
  assumes "0 \<le> zh" "zh \<le> 24" "0 \<le> zm" "zm \<le> 59" "neg \<or> 0 < zh \<or> zm = 0"
  shows "zone_seconds (iso_res neg zh zm) = iso_offset neg zh zm" "zone_in_range (iso_res neg zh zm)"
  using assms sint_byte[of zh] sint_byte[of "- zh"] sint_byte[of zm]
  by (auto simp: zone_seconds_def iso_res_def iso_offset_def zone_in_range_def)

text \<open>The system state after a cloud message that was understood.\<close>

definition after_cloud :: "time_res \<Rightarrow> int \<Rightarrow> ('d, 'z) clock_state_scheme \<Rightarrow> ('d, 'z) clock_state_scheme" where
  "after_cloud z t s = upd_flags (RTC_set_SERVER_to_IOT_update (\<lambda>_. True)) ((set_zone z s)\<lparr>sys_time := t\<rparr>)"

lemma after_cloud_zone:
  assumes "zone_applied s"
  shows "zone_applied (after_cloud z t s)" "SetTimeZone (after_cloud z t s) = z"
  using assms by (simp_all add: after_cloud_def set_zone_def zone_applied_def app_sntp_set_timezone_def)

lemma cstr_iso:
  assumes "iso_tm x" "iso_fraction f" "0 \<le> zh" "0 \<le> zm" "zone_text zs neg zh zm"
  shows "cstr (iso_date x @ f @ zs) = iso_date x @ f @ zs"
proof -
  have d: "is_digit c \<Longrightarrow> char_code c \<noteq> 0" for c by (simp add: is_digit_def)
  have n: "0 \<le> v \<Longrightarrow> \<forall>c \<in> set (fmt_0d w v). char_code c \<noteq> 0" for v w
    using fmt_0d_ok(2)[of v w] d by (auto simp: list_all_iff)
  have "\<forall>c \<in> set f. char_code c \<noteq> 0"
    using assms(2) d by (cases f) (auto simp: iso_fraction_def list_all_iff char_code_def)
  moreover have "\<forall>c \<in> set (iso_date x). char_code c \<noteq> 0"
    using assms(1) n[of "tm_year x + 1900" 4] n[of "tm_mon x + 1" 2] n[of "tm_mday x" 2] n[of "tm_hour x" 2]
      n[of "tm_min x" 2] n[of "tm_sec x" 2]
    by (auto simp: iso_date_def iso_tm_def tm_ok_def char_code_def)
  moreover have "\<forall>c \<in> set zs. char_code c \<noteq> 0"
    using assms(3-5) n by (auto simp: zone_text_def iso_zone_def char_code_def split: if_splits)
  ultimately show ?thesis by (auto simp: cstr_def takeWhile_eq_all_conv)
qed

lemma cloud_understood:
  assumes x: "iso_tm x" "71 \<le> tm_year x" and f: "iso_fraction f" "length f \<le> 1000"
    and z: "0 \<le> zh" "zh \<le> 24" "0 \<le> zm" "zm \<le> 59"
    and off: "\<bar>zone_off ctz (after_cloud (iso_res neg zh zm) 0 s)\<bar> \<le> 90000"
    and zt: "zone_text zs neg zh zm" and m: "msg = iso_date x @ f @ zs"
  shows "iCloud_Dst_Time_Check_and_Update ctz True (Some (msg @ rest)) (of_nat (length msg)) s =
    Inr (True, after_cloud (iso_res neg zh zm)
      (fst (mktime (zone_off ctz (after_cloud (iso_res neg zh zm) 0 s)) x)) s)"
proof -
  let ?z = "iso_res neg zh zm" and ?off = "zone_off ctz (after_cloud (iso_res neg zh zm) 0 s)"
  have l: "length msg \<le> 1025" "0 < length msg"
    using length_iso_date[OF x(1)] f z length_fmt_0d[of zh 2] length_fmt_0d[of zm 2] zt
    by (auto simp: m zone_text_def iso_zone_def)
  then have u: "unat (of_nat (length msg) :: u16) = length msg" by (simp add: unat_of_nat)
  have p: "parse_iso8601_to_tm_timestamp (Some (cstr msg)) = Some (x\<lparr>tm_wday := 0\<rparr>, ?z)"
    using parse_iso[OF x(1) f(1) zt] cstr_iso[OF x(1) f(1) z(1,3) zt] z by (simp add: m iso_res_def)
  have d: "365 \<le> tm_day x"
  proof -
    have "year_start 1971 \<le> year_start (tm_year x + 1900)" using x(2) by (intro year_start_mono) simp
    moreover have "0 \<le> month_start (tm_year x + 1900) (nat (tm_mon x))"
      using month_start_mono[of 0 "nat (tm_mon x)" "tm_year x + 1900"] by simp
    ultimately show ?thesis
      using tm_ok_day(1)[of x] x(1) by (simp add: iso_tm_def tm_ok_def year_start_def)
  qed
  then have t: "fst (mktime ?off x) \<noteq> - 1"
    using off x(1) by (auto simp: fst_mktime iso_tm_def tm_ok_def)
  have ts: "tm_time_to_timestamp ?off (Some (x\<lparr>tm_wday := 0\<rparr>)) = Some (fst (mktime ?off x))"
    using x t month_days_pos(2)[of "tm_year x + 1900" "nat (tm_mon x)"]
    by (simp add: tm_time_to_timestamp_def mktime_wday iso_tm_def tm_ok_def Let_def)
  have "(of_nat (length msg) :: u16) \<noteq> 0" using u l by (metis less_not_refl unat_0)
  moreover have "need (unat (of_nat (length msg) :: u16)) (msg @ rest) r = r" for r :: "'a cres"
    by (simp add: u)
  moreover have "zone_off ctz (set_zone ?z s) = ?off"
    by (simp add: after_cloud_def zone_off_def)
  ultimately show ?thesis
    using p ts by (simp add: iCloud_Dst_Time_Check_and_Update_def u after_cloud_def Let_def del: if_split)
qed

lemma plain_build [simp]:
  assumes "\<not> ext_rtc_enable cfg"
  shows "time_sync_system_to_local cfg ctz n s = time_sync_to_local ctz s"
    and "update_ext_rtc cfg ctz s = Inr s"
  using assms by (simp_all add: time_sync_system_to_local_def update_ext_rtc_def)

lemma zone_off_cong: "tz_env s = tz_env s' \<Longrightarrow> zone_off ctz s = zone_off ctz s'"
  by (simp add: zone_off_def)

lemma sync_to_local_facts:
  "tz_env (time_sync_to_local ctz s) = tz_env s" "sys_time (time_sync_to_local ctz s) = sys_time s"
  "SetTimeZone (time_sync_to_local ctz s) = SetTimeZone s" "rtc_flag (time_sync_to_local ctz s) = rtc_flag s"
  "rtc_now (time_sync_to_local ctz s) = sys_time s"
  "rtc_time (time_sync_to_local ctz s) = tm_to_rtc_time (localtime (zone_off ctz s) (sys_time s))"
  "rd_time (time_sync_to_local ctz s) = tm_to_rtc_time (localtime (zone_off ctz s) (sys_time s))"
  "rd_zone (time_sync_to_local ctz s) = SetTimeZone s" "wr_time (time_sync_to_local ctz s) = wr_time s"
  by (simp_all add: time_sync_to_local_def Let_def)

text \<open>The server's time after \<open>time_new_set_check\<close>, in the build without a clock chip.\<close>

lemma server_time_taken:
  assumes "\<not> ext_rtc_enable cfg" "RTC_set_SERVER_to_IOT (rtc_flag s)" "\<not> RTC_set_APP_to_IOT (rtc_flag s)"
  shows "\<exists>s2. time_new_set_check cfg ctz s = Inr s2 \<and> tz_env s2 = tz_env s \<and> sys_time s2 = sys_time s \<and>
    SetTimeZone s2 = SetTimeZone s \<and>
    rd_time s2 = tm_to_rtc_time (localtime (zone_off ctz s) (sys_time s)) \<and> wr_time s2 = rd_time s2 \<and>
    rd_zone s2 = SetTimeZone s \<and> wr_zone s2 = SetTimeZone s \<and> last_rtc_sync_cloud s2 = sys_time s \<and>
    RTC_valid_from_SERVER (rtc_flag s2) \<and> Time_valid (rtc_flag s2) \<and> RTC_set_IOT_to_INV (rtc_flag s2) \<and>
    \<not> RTC_set_SERVER_to_IOT (rtc_flag s2)"
  using assms
  by (simp add: time_new_set_check_def set_server_time_def mark_time_valid_def sync_to_local_facts Let_def
      zone_off_def)

text \<open>C10: the cloud's time from the string to the registers, in a build without the clock chip, on a device whose
  stored zone is in effect and that has no time of the app waiting.  A message with the date and time of any
  calendar second from 2000 to 2155, a fraction of at most 1000 characters, and a zone of at most 24:59 hours, behind or
  ahead of UTC, as \<open>hh:mm\<close> or \<open>hhmm\<close> or the designator \<open>Z\<close>, is parsed, the zone is put into effect, the system
  clock is set to the instant the string names, and the next \<open>time_new_set_check\<close> shows the date in both register
  maps and marks the time as valid.  Zones less than an hour ahead of UTC are excepted.\<close>

theorem cloud_time_reaches_registers:
  assumes x: "iso_tm x" "rtc_years x" and f: "iso_fraction f" "length f \<le> 1000"
    and z: "0 \<le> zh" "zh \<le> 24" "0 \<le> zm" "zm \<le> 59" "neg \<or> 0 < zh \<or> zm = 0"
    and s: "zone_applied s" "\<not> RTC_set_APP_to_IOT (rtc_flag s)" "\<not> ext_rtc_enable cfg"
    and zt: "zone_text zs neg zh zm" and m: "msg = iso_date x @ f @ zs"
  shows "\<exists>s1 s2. iCloud_Dst_Time_Check_and_Update ctz True (Some (msg @ rest)) (of_nat (length msg)) s = Inr (True, s1) \<and>
    time_new_set_check cfg ctz s1 = Inr s2 \<and>
    sys_time s2 = tm_day x * 86400 + tm_hour x * 3600 + tm_min x * 60 + tm_sec x - iso_offset neg zh zm \<and>
    zone_off ctz s2 = iso_offset neg zh zm \<and> zone_applied s2 \<and>
    shows_date (rd_time s2) x \<and> wr_time s2 = rd_time s2 \<and> rd_zone s2 = iso_res neg zh zm \<and>
    RTC_valid_from_SERVER (rtc_flag s2) \<and> Time_valid (rtc_flag s2) \<and> RTC_set_IOT_to_INV (rtc_flag s2)"
proof -
  let ?z = "iso_res neg zh zm" and ?o = "iso_offset neg zh zm"
  let ?s1 = "\<lambda>t. after_cloud ?z t s"
  note zr = iso_res_seconds[OF z]
  have off: "zone_off ctz (?s1 t) = ?o" for t
    using zone_off_applied[OF after_cloud_zone(1)[OF s(1), of ?z t]] after_cloud_zone(2)[OF s(1), of ?z t] zr by simp
  have "\<bar>?o\<bar> \<le> 90000" using z by (auto simp: iso_offset_def)
  then have c: "iCloud_Dst_Time_Check_and_Update ctz True (Some (msg @ rest)) (of_nat (length msg)) s =
      Inr (True, ?s1 (fst (mktime ?o x)))"
    using cloud_understood[OF x(1) _ f z(1-4) _ zt, of ctz s msg rest] x(2) m off by (simp add: rtc_years_def)
  let ?t = "fst (mktime ?o x)"
  have fl: "RTC_set_SERVER_to_IOT (rtc_flag (?s1 ?t))" "\<not> RTC_set_APP_to_IOT (rtc_flag (?s1 ?t))"
      "sys_time (?s1 ?t) = ?t"
    using s(2) by (simp_all add: after_cloud_def set_zone_def app_sntp_set_timezone_def)
  obtain s2 where s2: "time_new_set_check cfg ctz (?s1 ?t) = Inr s2" "tz_env s2 = tz_env (?s1 ?t)" "sys_time s2 = ?t"
      "SetTimeZone s2 = ?z" "rd_time s2 = tm_to_rtc_time (localtime ?o ?t)" "wr_time s2 = rd_time s2" "rd_zone s2 = ?z"
      "RTC_valid_from_SERVER (rtc_flag s2)" "Time_valid (rtc_flag s2)" "RTC_set_IOT_to_INV (rtc_flag s2)"
    using server_time_taken[OF s(3) fl(1,2), of ctz] fl(3) off[of ?t] after_cloud_zone(2)[OF s(1), of ?z ?t] by auto
  have "shows_date (rd_time s2) x"
    using s2(5) localtime_mktime[of x ?o] shows_date_copy[of x] x by (simp add: iso_tm_def)
  moreover have "zone_applied s2"
    using after_cloud_zone[OF s(1), of ?z ?t] s2(2,4) by (simp add: zone_applied_def)
  moreover have "zone_off ctz s2 = ?o" using zone_off_cong[OF s2(2)] off by simp
  ultimately show ?thesis using c s2 by (auto simp: fst_mktime)
qed

text \<open>the app's zone register changes the stored zone but not the C library's.  When the cloud later
  sends its time in that same zone, the zone is taken for already in effect, and the system clock is set
  wrong by exactly the difference of the two zones.\<close>

theorem modbus_zone_shifts_cloud_time:
  assumes x: "iso_tm x" "71 \<le> tm_year x" and f: "iso_fraction f" "length f \<le> 1000"
    and z: "0 \<le> zh" "zh \<le> 24" "0 \<le> zm" "zm \<le> 59" "neg \<or> 0 < zh \<or> zm = 0"
    and s: "zone_applied s" "zone_in_range (SetTimeZone s)" "\<not> RTC_valid_from_SERVER (rtc_flag s)"
    and m: "msg = iso_date x @ f @ iso_zone neg colon zh zm"
  shows "\<exists>s1. iCloud_Dst_Time_Check_and_Update ctz True (Some (msg @ rest)) (of_nat (length msg))
      (modbus_write_zone (iso_res neg zh zm) s) = Inr (True, s1) \<and>
    sys_time s1 = (tm_day x * 86400 + tm_hour x * 3600 + tm_min x * 60 + tm_sec x - iso_offset neg zh zm) +
      (iso_offset neg zh zm - zone_seconds (SetTimeZone s)) \<and>
    zone_off ctz s1 = zone_seconds (SetTimeZone s)"
proof -
  let ?z = "iso_res neg zh zm" and ?s = "modbus_write_zone (iso_res neg zh zm) s"
  let ?o = "zone_seconds (SetTimeZone s)"
  have o: "zone_off ctz s = ?o" using s by (simp add: zone_off_applied)
  have st: "SetTimeZone ?s = ?z" "tz_env ?s = tz_env s" using s(3) by (simp_all add: modbus_write_zone_def Let_def)
  then have off: "zone_off ctz (after_cloud ?z t ?s) = ?o" for t
    using zone_off_cong[of "after_cloud ?z t ?s" s] o by (simp add: after_cloud_def set_zone_def)
  have "\<bar>?o\<bar> \<le> 90000" using s(2) by (auto simp: zone_seconds_def zone_in_range_def)
  then have "iCloud_Dst_Time_Check_and_Update ctz True (Some (msg @ rest)) (of_nat (length msg)) ?s =
      Inr (True, after_cloud ?z (fst (mktime ?o x)) ?s)"
    using cloud_understood[OF x f z(1-4) _ zone_textI[of neg colon zh zm], of ctz ?s msg rest] m off by simp
  then show ?thesis using off by (simp add: after_cloud_def fst_mktime)
qed

section \<open>The app's time\<close>

lemma shows_date_unique: "shows_date r x \<Longrightarrow> shows_date r' x \<Longrightarrow> r = r'"
  by (auto intro!: rtc_time_t.equality simp: shows_date_def word_uint_eq_iff)

lemma shows_date_years: "shows_date r x \<Longrightarrow> rtc_years x"
  using uint_lt2p[of "year r"] uint_ge_0[of "year r"] by (simp add: shows_date_def rtc_years_def)

text \<open>the app's time in the build without a clock chip.  Once the time registers hold a calendar date,
  \<open>time_new_set_check\<close> sets the system clock to it in the current zone and shows it in the register map;
  when the server's time is known and not switched off the request is dropped.\<close>

theorem app_time_kept:
  assumes "\<not> ext_rtc_enable cfg" "shows_date r x" "tm_ok x"
  shows "\<exists>s2. time_new_set_check cfg ctz (modbus_write_time r s) = Inr s2 \<and>
    (if RTC_valid_from_SERVER (rtc_flag s) \<and> bluetti_time_update s \<noteq> 2
     then sys_time s2 = sys_time s \<and> rd_time s2 = rd_time s \<and> \<not> RTC_set_APP_to_IOT (rtc_flag s2)
     else sys_time s2 + zone_off ctz s = tm_day x * 86400 + tm_hour x * 3600 + tm_min x * 60 + tm_sec x \<and>
       rd_time s2 = r \<and> Time_valid (rtc_flag s2) \<and> RTC_valid_from_APP (rtc_flag s2) \<and>
       RTC_set_IOT_to_INV (rtc_flag s2) \<and> last_rtc_sync_ble s2 = sys_time s2)"
proof (cases "RTC_valid_from_SERVER (rtc_flag s) \<and> bluetti_time_update s \<noteq> 2")
  case True
  then show ?thesis by (simp add: time_new_set_check_def set_app_time_def modbus_write_time_def)
next
  case False
  let ?o = "zone_off ctz s"
  have "shows_date (tm_to_rtc_time x) x" by (rule shows_date_copy[OF assms(3) shows_date_years[OF assms(2)]])
  then have r: "tm_to_rtc_time x = r" using assms(2) by (rule shows_date_unique)
  have c: "tm_to_rtc_time (localtime ?o (fst (mktime ?o x))) = r"
    using localtime_mktime[OF assms(3), of ?o] r by simp
  have "rtc_time_to_tm r y = x\<lparr>tm_wday := tm_wday y\<rparr>" for y by (rule shows_date_tm[OF assms(2,3)])
  then show ?thesis
    using False assms(1) c
    by (simp add: time_new_set_check_def set_app_time_def modbus_write_time_def mark_time_valid_def
        time_sync_save_to_system_def time_sync_to_local_def zone_off_def mktime_wday Let_def)
       (auto simp: fst_mktime)
qed

section \<open>The clock chip's build\<close>

lemma pcf8563_get_frame:
  "pcf8563_get_datetime off t s = (r, t', s') \<Longrightarrow> r \<le> 0 \<and> (\<exists>d c. s' = s\<lparr>chip := d, c_polarity := c\<rparr>)"
proof -
  have e: "\<exists>d' c. s\<lparr>chip := d\<rparr> = s\<lparr>chip := d', c_polarity := c\<rparr>" for d
    by (rule exI[of _ d], rule exI[of _ "c_polarity s"]) simp
  have e2: "\<exists>d' c. s = s\<lparr>chip := d', c_polarity := c\<rparr>"
    by (rule exI[of _ "chip s"], rule exI[of _ "c_polarity s"]) simp
  show "pcf8563_get_datetime off t s = (r, t', s') \<Longrightarrow> r \<le> 0 \<and> (\<exists>d c. s' = s\<lparr>chip := d, c_polarity := c\<rparr>)"
    using e e2 by (auto simp: pcf8563_get_datetime_def Let_def split: option.splits prod.splits if_splits)
qed

lemma write_cbind: "\<exists>r' s'. pcf8563_set_datetime off t s = Inr (r', s') \<and> (\<exists>d n. s' = s\<lparr>rtc_now := n, chip := d\<rparr>)"
  if "client s \<noteq> None"
proof -
  have e: "\<exists>d n. s\<lparr>rtc_now := m\<rparr> = s\<lparr>rtc_now := n, chip := d\<rparr>" for m
    by (rule exI[of _ "chip s"], rule exI[of _ m]) simp
  show ?thesis
    using that e by (auto simp: pcf8563_set_datetime_def Let_def split: prod.split) blast+
qed

text \<open>What the operations on the chip leave alone.\<close>

definition same_clock :: "('d, 'z) clock_state_scheme \<Rightarrow> ('d, 'z) clock_state_scheme \<Rightarrow> bool" where
  "same_clock s s' \<longleftrightarrow> sys_time s' = sys_time s \<and> tz_env s' = tz_env s \<and> SetTimeZone s' = SetTimeZone s \<and>
     client s' = client s \<and> ext_rtc_connect_status s' = ext_rtc_connect_status s"

lemma update_ext_rtc_frame:
  assumes "client s \<noteq> None \<or> \<not> ext_rtc_enable cfg \<or> \<not> ext_rtc_connect_status s"
  shows "\<exists>d n. update_ext_rtc cfg ctz s = Inr (s\<lparr>rtc_now := n, chip := d\<rparr>)"
proof (cases "ext_rtc_enable cfg \<and> ext_rtc_connect_status s")
  case True
  then obtain r' d n where "pcf8563_set_datetime (zone_off ctz s) (word_of_int (sys_time s)) s =
      Inr (r', s\<lparr>rtc_now := n, chip := d\<rparr>)"
    using write_cbind assms by blast
  then show ?thesis using True by (auto simp: update_ext_rtc_def)
next
  case False
  then show ?thesis
    by (intro exI[of _ "chip s"] exI[of _ "rtc_now s"]) (auto simp: update_ext_rtc_def)
qed

text \<open>The branch that would take the chip's time is never reached: the driver returns 0 or -1, the test
  asks for a positive result.\<close>

lemma sync_is_to_local:
  "\<exists>d c n. time_sync_system_to_local cfg ctz f s = time_sync_to_local ctz (s\<lparr>chip := d, c_polarity := c, rtc_now := n\<rparr>)"
proof (cases "ext_rtc_enable cfg \<and> f = 1 \<and> ext_rtc_connect_status s")
  case True
  obtain ret t s1 where g: "pcf8563_get_datetime (zone_off ctz s) (rtc_now s) s = (ret, t, s1)" by (metis prod_cases3)
  obtain d c where "ret \<le> 0" "s1 = s\<lparr>chip := d, c_polarity := c\<rparr>" using pcf8563_get_frame[OF g] by blast
  then show ?thesis using True g
    by (intro exI[of _ d] exI[of _ c] exI[of _ t]) (simp add: time_sync_system_to_local_def)
next
  case False
  then show ?thesis
    by (intro exI[of _ "chip s"] exI[of _ "c_polarity s"] exI[of _ "rtc_now s"])
       (auto simp: time_sync_system_to_local_def)
qed

lemma to_local_chip: "zone_off ctz (s\<lparr>chip := d, c_polarity := c, rtc_now := n\<rparr>) = zone_off ctz s"
  by (simp add: zone_off_def)

lemma sync_facts:
  fixes s :: "('d, 'z) clock_state_scheme" and cfg :: time_build and ctz :: "string \<Rightarrow> int" and f :: nat
  defines "s' \<equiv> time_sync_system_to_local cfg ctz f s"
  shows "same_clock s s'" "rtc_flag s' = rtc_flag s" "rtc_now s' = sys_time s"
    "rd_time s' = tm_to_rtc_time (localtime (zone_off ctz s) (sys_time s))" "rtc_time s' = rd_time s'"
    "bluetti_time_update s' = bluetti_time_update s" "wr_time s' = wr_time s" "rd_zone s' = SetTimeZone s"
    "last_check_time s' = last_check_time s"
proof -
  obtain d c n where "s' = time_sync_to_local ctz (s\<lparr>chip := d, c_polarity := c, rtc_now := n\<rparr>)"
    using sync_is_to_local[of cfg ctz f s] unfolding s'_def by blast
  then show "same_clock s s'" "rtc_flag s' = rtc_flag s" "rtc_now s' = sys_time s"
    "rd_time s' = tm_to_rtc_time (localtime (zone_off ctz s) (sys_time s))" "rtc_time s' = rd_time s'"
    "bluetti_time_update s' = bluetti_time_update s" "wr_time s' = wr_time s" "rd_zone s' = SetTimeZone s"
    "last_check_time s' = last_check_time s"
    by (simp_all add: same_clock_def time_sync_to_local_def to_local_chip Let_def)
qed

lemma mark_time_valid_facts [simp]:
  "same_clock s (mark_time_valid s)" "rd_time (mark_time_valid s) = rd_time s" "rtc_time (mark_time_valid s) = rtc_time s"
  "rtc_flag (mark_time_valid s) = (let g = rtc_flag s in
     if other_source g \<or> RTC_valid_from_CAN g then g\<lparr>Time_valid := True\<rparr> else g)"
  "wr_time (mark_time_valid s) = wr_time s" "last_rtc_sync_ble (mark_time_valid s) = last_rtc_sync_ble s"
  "rtc_now (mark_time_valid s) = rtc_now s"
  by (auto simp: mark_time_valid_def same_clock_def other_source_def Let_def)

lemma same_clockD: "same_clock s s' \<Longrightarrow> sys_time s' = sys_time s" "same_clock s s' \<Longrightarrow> tz_env s' = tz_env s"
  "same_clock s s' \<Longrightarrow> SetTimeZone s' = SetTimeZone s" "same_clock s s' \<Longrightarrow> client s' = client s"
  "same_clock s s' \<Longrightarrow> ext_rtc_connect_status s' = ext_rtc_connect_status s"
  by (simp_all add: same_clock_def)

lemma same_clock_zone: "same_clock s s' \<Longrightarrow> zone_off ctz s' = zone_off ctz s"
  by (simp add: same_clock_def zone_off_def)

lemma same_clock_trans: "same_clock s s' \<Longrightarrow> same_clock s' s'' \<Longrightarrow> same_clock s s''"
  by (simp add: same_clock_def)

text \<open>Both requests in the chip's build: only the flags, the copies and the chip change.\<close>

lemma set_app_time_chip:
  assumes "ext_rtc_enable cfg" "client s \<noteq> None \<or> \<not> ext_rtc_connect_status s"
    and "\<not> (RTC_valid_from_SERVER (rtc_flag s) \<and> bluetti_time_update s \<noteq> 2)"
  shows "\<exists>s2. set_app_time cfg ctz s = Inr s2 \<and> same_clock s s2 \<and>
    rtc_flag s2 = (rtc_flag s)\<lparr>RTC_set_APP_to_IOT := False, RTC_valid_from_APP := True, RTC_set_IOT_to_INV := True,
      Time_valid := True\<rparr> \<and>
    rd_time s2 = tm_to_rtc_time (localtime (zone_off ctz s) (sys_time s)) \<and> rtc_time s2 = rd_time s2"
proof -
  let ?s = "(upd_flags (RTC_set_APP_to_IOT_update (\<lambda>_. False)) s)\<lparr>rtc_time := wr_time s\<rparr>"
  obtain d n where u: "update_ext_rtc cfg ctz ?s = Inr (?s\<lparr>rtc_now := n, chip := d\<rparr>)"
    using update_ext_rtc_frame[of ?s cfg ctz] assms(2) by auto
  let ?s1 = "?s\<lparr>rtc_now := n, chip := d\<rparr>" 
  define s3 where "s3 = time_sync_system_to_local cfg ctz 1 ?s1"
  note f = sync_facts(1-5)[where s = ?s1 and cfg = cfg and ctz = ctz and f = 1, folded s3_def]
  have z: "same_clock s ?s1" "zone_off ctz ?s1 = zone_off ctz s" by (simp_all add: same_clock_def zone_off_def)
  define s4 where "s4 = upd_flags (\<lambda>g. g\<lparr>RTC_valid_from_APP := True, RTC_set_IOT_to_INV := True\<rparr>)
    (s3\<lparr>last_rtc_sync_ble := rtc_now s3\<rparr>)"
  have s4: "same_clock s3 s4" "rd_time s4 = rd_time s3" "rtc_time s4 = rtc_time s3"
    "rtc_flag s4 = (rtc_flag s3)\<lparr>RTC_valid_from_APP := True, RTC_set_IOT_to_INV := True\<rparr>"
    by (simp_all add: s4_def same_clock_def)
  have "set_app_time cfg ctz s = Inr (mark_time_valid s4)"
    unfolding set_app_time_def Let_def using assms(1,3) u by (auto simp: s3_def s4_def)
  moreover have "same_clock s s4" using same_clock_trans[OF same_clock_trans[OF z(1) f(1)] s4(1)] .
  ultimately show ?thesis
    using f(2-5) s4 z same_clock_trans[OF \<open>same_clock s s4\<close>, of "mark_time_valid s4"]
    by (auto simp: other_source_def Let_def)
qed

text \<open>in the build with the clock chip the app's time is lost.  The request is acknowledged in the
  flags, but the clock is not set: the chip gets the old system time, and the time registers are overwritten
  with it.\<close>

theorem app_time_lost_with_chip:
  assumes "ext_rtc_enable cfg" "client s \<noteq> None \<or> \<not> ext_rtc_connect_status s"
    and "\<not> RTC_valid_from_SERVER (rtc_flag s) \<or> bluetti_time_update s = 2"
  shows "\<exists>s2. time_new_set_check cfg ctz (modbus_write_time r s) = Inr s2 \<and> RTC_valid_from_APP (rtc_flag s2) \<and>
    sys_time s2 = sys_time s \<and>
    rd_time s2 = tm_to_rtc_time (localtime (zone_off ctz s) (sys_time s)) \<and> rtc_time s2 = rd_time s2"
proof -
  let ?s = "modbus_write_time r s"
  have "\<not> (RTC_valid_from_SERVER (rtc_flag ?s) \<and> bluetti_time_update ?s \<noteq> 2)"
    using assms(3) by (auto simp: modbus_write_time_def)
  moreover have "client ?s \<noteq> None \<or> \<not> ext_rtc_connect_status ?s" using assms(2) by (simp add: modbus_write_time_def)
  ultimately obtain s2 where s2: "set_app_time cfg ctz ?s = Inr s2" "same_clock ?s s2"
      "RTC_valid_from_APP (rtc_flag s2)" "rtc_time s2 = rd_time s2"
      "rd_time s2 = tm_to_rtc_time (localtime (zone_off ctz ?s) (sys_time ?s))"
    using set_app_time_chip[OF assms(1), of ?s ctz] by auto
  moreover have "zone_off ctz ?s = zone_off ctz s" "sys_time ?s = sys_time s"
    by (simp_all add: zone_off_def modbus_write_time_def)
  moreover have "time_new_set_check cfg ctz ?s = set_app_time cfg ctz ?s"
    by (simp add: time_new_set_check_def modbus_write_time_def)
  ultimately show ?thesis using same_clockD(1)[OF s2(2)] by auto
qed

section \<open>Dates from the CAN bus\<close>

lemma uint_u8_u32: "uint (ucast w :: u32) = uint (w :: u8)"
  by (rule uint_up_ucast) (simp add: is_up)

text \<open>the comparison of two times of the day is exact, without wrap-around of the 32-bit minutes, and
  without regard to midnight.\<close>

theorem is_time_diff_reasonable_exact:
  "is_time_diff_reasonable h1 m1 h2 m2 thr \<longleftrightarrow>
     \<bar>(uint h1 * 60 + uint m1) - (uint h2 * 60 + uint m2)\<bar> \<le> uint thr"
proof -
  have m: "uint (ucast h * 60 + ucast m :: u32) = uint h * 60 + uint m" for h m :: u8
  proof -
    have "uint h * 60 + uint m < 4294967296" using uint_lt2p[of h] uint_lt2p[of m] by simp
    then show ?thesis by (simp add: uint_word_ariths uint_u8_u32 mod_simps)
  qed
  define a b where "a = (ucast h1 * 60 + ucast m1 :: u32)" and "b = (ucast h2 * 60 + ucast m2 :: u32)"
  have d: "y \<le> x \<Longrightarrow> uint (x - y) = uint x - uint y" for x y :: u32 by (simp add: uint_minus_simple_alt)
  have "is_time_diff_reasonable h1 m1 h2 m2 thr \<longleftrightarrow> uint (if a > b then a - b else b - a) \<le> uint thr"
    by (simp add: is_time_diff_reasonable_def Let_def a_def b_def word_le_def uint_u8_u32)
  also have "uint (if a > b then a - b else b - a) = \<bar>uint a - uint b\<bar>"
    using d[of b a] d[of a b] by (auto simp: word_less_def word_le_def)
  finally show ?thesis by (simp add: a_def b_def m)
qed

lemma RTC_correct_can_facts:
  "same_clock s (RTC_correct_can cfg idle d s)" "rd_time (RTC_correct_can cfg idle d s) = rd_time s"
  "rtc_time (RTC_correct_can cfg idle d s) = rtc_time s"
  "other_source (rtc_flag (RTC_correct_can cfg idle d s)) = other_source (rtc_flag s)"
  "RTC_valid_from_CAN (rtc_flag (RTC_correct_can cfg idle d s)) = RTC_valid_from_CAN (rtc_flag s)"
  "Time_valid (rtc_flag (RTC_correct_can cfg idle d s)) = Time_valid (rtc_flag s)"
  by (simp_all add: RTC_correct_can_def same_clock_def other_source_def Let_def)

lemma Time_CAN_frame: "Time_CAN_to_IOT cfg ctz d s = (ret, s') \<Longrightarrow>
  rtc_flag s' = rtc_flag s \<and> client s' = client s \<and> ext_rtc_connect_status s' = ext_rtc_connect_status s \<and>
  tz_env s' = tz_env s \<and> SetTimeZone s' = SetTimeZone s"
proof -
  let ?m = "mktime (zone_off ctz s) (date_to_tm d (local_tm s))"
  let ?s = "s\<lparr>local_tm := snd ?m, rtc_now := fst ?m, sys_time := fst ?m\<rparr>"
  note f = sync_facts[where s = ?s and cfg = cfg and ctz = ctz and f = 0]
  show "Time_CAN_to_IOT cfg ctz d s = (ret, s') \<Longrightarrow> ?thesis"
    using f(1,2) by (auto simp: Time_CAN_to_IOT_def same_clock_def case_prod_beta Let_def split: if_splits)
qed

text \<open>the dates of the CAN bus set the clock at most once.  The first announcement of a calendar date
  from 2020 on sets it when no source is known; from then on, and whenever another source is known, no
  announcement changes clock, zone or the copies.\<close>

theorem can_date_sets_once:
  "(if other_source (rtc_flag s) \<or> RTC_valid_from_CAN (rtc_flag s)
    then same_clock s (RTC_Valid_Check cfg ctz idle d s) \<and> rd_time (RTC_Valid_Check cfg ctz idle d s) = rd_time s
    else \<forall>x. tm_ok x \<and> 120 \<le> tm_year x \<and>
        shows_date \<lparr>mon = d_month d, year = d_year d, hour = d_hour d, day = d_day d, sec = d_second d, min_of = d_minute d\<rparr> x \<longrightarrow>
      (let s' = RTC_Valid_Check cfg ctz idle d s in
       sys_time s' + zone_off ctz s = tm_day x * 86400 + tm_hour x * 3600 + tm_min x * 60 + tm_sec x \<and>
       shows_date (rd_time s') x \<and> RTC_valid_from_CAN (rtc_flag s') \<and> last_rtc_sync_local s' = sys_time s'))"
proof (cases "other_source (rtc_flag s) \<or> RTC_valid_from_CAN (rtc_flag s)")
  case True
  then have "RTC_take_from_can cfg ctz d s = s" by (auto simp: RTC_take_from_can_def)
  then show ?thesis using True RTC_correct_can_facts(1,2)[where s = s and cfg = cfg and idle = idle and d = d] by (simp add: RTC_Valid_Check_def)
next
  case False
  let ?r = "\<lparr>mon = d_month d, year = d_year d, hour = d_hour d, day = d_day d, sec = d_second d, min_of = d_minute d\<rparr>"
  show ?thesis
  proof (simp only: False if_False, intro allI impI)
    fix x assume x: "tm_ok x \<and> 120 \<le> tm_year x \<and> shows_date ?r x"
    let ?o = "zone_off ctz s"
    have y: "\<not> d_year d < 20" using x by (simp add: shows_date_def word_less_def)
    have "d_day d \<noteq> 0" using x by (auto simp: shows_date_def tm_ok_def)
    then have n: "(d_month d OR d_hour d OR d_day d OR d_second d OR d_minute d) \<noteq> 0" by (simp add: or_eq_0_iff)
    have "date_to_tm d (local_tm s) = rtc_time_to_tm ?r (local_tm s)" by (simp add: date_to_tm_def rtc_time_to_tm_def)
    then have m: "fst (mktime ?o (date_to_tm d (local_tm s))) = fst (mktime ?o x)"
      using shows_date_tm[of ?r x "local_tm s"] x by (simp add: mktime_wday)
    let ?s = "s\<lparr>local_tm := snd (mktime ?o (date_to_tm d (local_tm s))), rtc_now := fst (mktime ?o x), sys_time := fst (mktime ?o x)\<rparr>"
    note f = sync_facts[where s = ?s and cfg = cfg and ctz = ctz and f = 0]
    have t: "Time_CAN_to_IOT cfg ctz d s = (0, time_sync_system_to_local cfg ctz 0 ?s)"
      using n y m by (simp add: Time_CAN_to_IOT_def case_prod_beta)
    have z: "zone_off ctz ?s = ?o" by (simp add: zone_off_def)
    have sh: "shows_date (tm_to_rtc_time (localtime ?o (fst (mktime ?o x)))) x"
      using localtime_mktime[of x ?o] shows_date_copy[of x] x shows_date_years[of ?r x] by simp
    let ?s1 = "RTC_take_from_can cfg ctz d s"
    have s1: "sys_time ?s1 = fst (mktime ?o x)" "rd_time ?s1 = tm_to_rtc_time (localtime ?o (fst (mktime ?o x)))"
      "RTC_valid_from_CAN (rtc_flag ?s1)" "\<not> other_source (rtc_flag ?s1)" "last_rtc_sync_local ?s1 = fst (mktime ?o x)"
      using False f(1-4) t z by (simp_all add: RTC_take_from_can_def same_clock_def other_source_def)
    then have "RTC_correct_can cfg idle d ?s1 = ?s1" by (simp add: RTC_correct_can_def)
    then show "let s' = RTC_Valid_Check cfg ctz idle d s in
       sys_time s' + zone_off ctz s = tm_day x * 86400 + tm_hour x * 3600 + tm_min x * 60 + tm_sec x \<and>
       shows_date (rd_time s') x \<and> RTC_valid_from_CAN (rtc_flag s') \<and> last_rtc_sync_local s' = sys_time s'"
      using s1 sh by (simp add: RTC_Valid_Check_def Let_def) (simp add: fst_mktime)
  qed
qed

section \<open>Runs of the clock\<close>

text \<open>What happens to the clock: time passes, messages arrive, the periodic tasks call the handlers.\<close>

datatype clock_event =
    Clock_Tick
  | Cloud_Time bool string u16
  | Set_Check
  | Sntp_Notification sntp_sync_status
  | Can_Date bool iot_date_t
  | Periodic_Sync nat
  | App_Time rtc_time_t
  | App_Zone time_res

definition clock_step ::
    "time_build \<Rightarrow> (string \<Rightarrow> int) \<Rightarrow> clock_event \<Rightarrow> ('d, 'z) clock_state_scheme \<Rightarrow> ('d, 'z) clock_state_scheme cres" where
  "clock_step cfg ctz e s =
     (case e of
        Clock_Tick \<Rightarrow> Inr (s\<lparr>sys_time := sys_time s + 1\<rparr>)
      | Cloud_Time alloc_ok msg len \<Rightarrow>
          cbind (iCloud_Dst_Time_Check_and_Update ctz alloc_ok (Some msg) len s) (\<lambda>(_, s'). Inr s')
      | Set_Check \<Rightarrow> time_new_set_check cfg ctz s
      | Sntp_Notification st \<Rightarrow> time_sync_notification_cb cfg ctz st s
      | Can_Date idle d \<Rightarrow> Inr (RTC_Valid_Check cfg ctz idle d s)
      | Periodic_Sync n \<Rightarrow> Inr (time_sync_system_to_local cfg ctz n s)
      | App_Time r \<Rightarrow> Inr (modbus_write_time r s)
      | App_Zone z \<Rightarrow> Inr (modbus_write_zone z s))"

fun clock_run ::
    "time_build \<Rightarrow> (string \<Rightarrow> int) \<Rightarrow> clock_event list \<Rightarrow> ('d, 'z) clock_state_scheme \<Rightarrow> ('d, 'z) clock_state_scheme cres" where
  "clock_run cfg ctz [] s = Inr s"
| "clock_run cfg ctz (e # es) s = cbind (clock_step cfg ctz e s) (clock_run cfg ctz es)"

definition source_known :: "rtc_flags \<Rightarrow> bool" where
  "source_known g \<longleftrightarrow> other_source g \<or> RTC_valid_from_CAN g"

text \<open>No source of the time that was known is forgotten.\<close>

definition sources_kept :: "rtc_flags \<Rightarrow> rtc_flags \<Rightarrow> bool" where
  "sources_kept g g' \<longleftrightarrow> (RTC_valid_from_NTP g \<longrightarrow> RTC_valid_from_NTP g') \<and> (RTC_valid_from_APP g \<longrightarrow> RTC_valid_from_APP g') \<and>
     (RTC_valid_from_CAN g \<longrightarrow> RTC_valid_from_CAN g') \<and> (RTC_valid_from_SERVER g \<longrightarrow> RTC_valid_from_SERVER g') \<and>
     (RTC_valid_from_RTC g \<longrightarrow> RTC_valid_from_RTC g')"

lemma sources_kept_refl [simp]: "sources_kept g g"
  by (simp add: sources_kept_def)

lemma sources_kept_trans: "sources_kept g g' \<Longrightarrow> sources_kept g' g'' \<Longrightarrow> sources_kept g g''"
  by (simp add: sources_kept_def)

lemma RTC_correct_can_sources: "sources_kept (rtc_flag s) (rtc_flag (RTC_correct_can cfg idle d s))"
  by (simp add: RTC_correct_can_def sources_kept_def Let_def)

definition clock_inv :: "time_build \<Rightarrow> ('d, 'z) clock_state_scheme \<Rightarrow> bool" where
  "clock_inv cfg s \<longleftrightarrow> rd_time s = rtc_time s \<and> (Time_valid (rtc_flag s) \<longrightarrow> source_known (rtc_flag s)) \<and>
     (client s \<noteq> None \<or> \<not> ext_rtc_enable cfg \<or> \<not> ext_rtc_connect_status s)"

text \<open>A step that keeps the invariant, an applied zone, and the knowledge of a source.\<close>

definition keeps :: "time_build \<Rightarrow> ('d, 'z) clock_state_scheme \<Rightarrow> ('d, 'z) clock_state_scheme \<Rightarrow> bool" where
  "keeps cfg s s' \<longleftrightarrow> clock_inv cfg s' \<and> (zone_applied s \<longrightarrow> zone_applied s') \<and>
     sources_kept (rtc_flag s) (rtc_flag s')"

lemma keeps_sync:
  assumes "clock_inv cfg s" "tz_env s0 = tz_env s" "SetTimeZone s0 = SetTimeZone s" "client s0 = client s"
    "ext_rtc_connect_status s0 = ext_rtc_connect_status s"
    and s': "same_clock (time_sync_system_to_local cfg ctz n s0) s'"
    "rd_time s' = rtc_time (time_sync_system_to_local cfg ctz n s0)" "rtc_time s' = rtc_time (time_sync_system_to_local cfg ctz n s0)"
    "Time_valid (rtc_flag s') \<longrightarrow> source_known (rtc_flag s')" "sources_kept (rtc_flag s) (rtc_flag s')"
  shows "keeps cfg s s'"
proof -
  note f = sync_facts(1)[where s = s0 and cfg = cfg and ctz = ctz and f = n]
  have "same_clock s0 s'" using same_clock_trans[OF f s'(1)] .
  then show ?thesis
    using assms by (simp add: keeps_def clock_inv_def zone_applied_def same_clock_def sources_kept_def)
qed

lemma same_clock_refl [simp]: "same_clock s s"
  by (simp add: same_clock_def)

lemma clock_inv_client:
  "clock_inv cfg s \<Longrightarrow> client s \<noteq> None \<or> \<not> ext_rtc_enable cfg \<or> \<not> ext_rtc_connect_status s"
  by (simp add: clock_inv_def)

lemma set_app_time_keeps:
  assumes "clock_inv cfg s"
  shows "\<exists>s'. set_app_time cfg ctz s = Inr s' \<and> keeps cfg s s'"
proof (cases "RTC_valid_from_SERVER (rtc_flag s) \<and> bluetti_time_update s \<noteq> 2")
  case True
  then show ?thesis using assms
    by (simp add: set_app_time_def keeps_def clock_inv_def zone_applied_def source_known_def other_source_def sources_kept_def)
next
  case False
  show ?thesis
  proof (cases "ext_rtc_enable cfg")
    case True
    then have "client s \<noteq> None \<or> \<not> ext_rtc_connect_status s" using clock_inv_client[OF assms] by blast
    with set_app_time_chip[OF True this False, of ctz] show ?thesis
      using assms by (auto simp: keeps_def clock_inv_def zone_applied_def same_clock_def source_known_def other_source_def sources_kept_def)
  next
    case ne: False
    show ?thesis
      using assms False ne
      by (auto simp: set_app_time_def keeps_def clock_inv_def zone_applied_def source_known_def other_source_def sources_kept_def
          mark_time_valid_def time_sync_to_local_def time_sync_save_to_system_def Let_def)
  qed
qed

lemma set_server_time_keeps:
  assumes "clock_inv cfg s"
  shows "\<exists>s'. set_server_time cfg ctz s = Inr s' \<and> keeps cfg s s'"
proof -
  let ?s = "upd_flags (RTC_set_SERVER_to_IOT_update (\<lambda>_. False)) s"
  obtain d n where u: "update_ext_rtc cfg ctz ?s = Inr (?s\<lparr>rtc_now := n, chip := d\<rparr>)"
    using update_ext_rtc_frame[of ?s cfg ctz] clock_inv_client[OF assms] by auto
  define s2 where "s2 = time_sync_system_to_local cfg ctz 1 (?s\<lparr>rtc_now := n, chip := d\<rparr>)"
  define s3 where "s3 = mark_time_valid (upd_flags (\<lambda>g. g\<lparr>RTC_valid_from_SERVER := True, RTC_set_IOT_to_INV := True\<rparr>)
    (s2\<lparr>wr_time := rtc_time s2, wr_zone := SetTimeZone s2, last_rtc_sync_cloud := rtc_now s2\<rparr>))"
  have "set_server_time cfg ctz s = Inr s3" by (simp add: set_server_time_def u s2_def s3_def Let_def)
  moreover have "keeps cfg s s3"
  proof (rule keeps_sync[OF assms, where ?s0.0 = "?s\<lparr>rtc_now := n, chip := d\<rparr>" and ctz = ctz and n = 1, folded s2_def])
    show "rd_time s3 = rtc_time s2"
      using sync_facts(5)[where s = "?s\<lparr>rtc_now := n, chip := d\<rparr>" and cfg = cfg and ctz = ctz and f = 1, folded s2_def]
      by (simp add: s3_def)
  qed (simp_all add: s3_def s2_def sync_facts(2) source_known_def other_source_def sources_kept_def same_clock_def
      mark_time_valid_def Let_def)
  ultimately show ?thesis by blast
qed

lemma sntp_keeps:
  assumes "clock_inv cfg s"
  shows "\<exists>s'. time_sync_notification_cb cfg ctz st s = Inr s' \<and> keeps cfg s s'"
proof (cases "st = SNTP_SYNC_STATUS_COMPLETED")
  case True
  obtain d n where u: "update_ext_rtc cfg ctz s = Inr (s\<lparr>rtc_now := n, chip := d\<rparr>)"
    using update_ext_rtc_frame[of s cfg ctz] clock_inv_client[OF assms] by blast
  define s2 where "s2 = time_sync_system_to_local cfg ctz 1 (s\<lparr>rtc_now := n, chip := d\<rparr>)"
  define s3 where "s3 = upd_flags (RTC_valid_from_NTP_update (\<lambda>_. True)) (s2\<lparr>wr_time := rtc_time s2, wr_zone := SetTimeZone s2\<rparr>)"
  have "time_sync_notification_cb cfg ctz st s = Inr s3"
    using True by (simp add: time_sync_notification_cb_def u s2_def s3_def Let_def)
  moreover have "keeps cfg s s3"
  proof (rule keeps_sync[OF assms, where ?s0.0 = "s\<lparr>rtc_now := n, chip := d\<rparr>" and ctz = ctz and n = 1, folded s2_def])
    show "rd_time s3 = rtc_time s2"
      using sync_facts(5)[where s = "s\<lparr>rtc_now := n, chip := d\<rparr>" and cfg = cfg and ctz = ctz and f = 1, folded s2_def]
      by (simp add: s3_def)
  qed (simp_all add: s3_def s2_def sync_facts(2) source_known_def other_source_def sources_kept_def same_clock_def)
  ultimately show ?thesis by blast
next
  case False
  then show ?thesis using assms by (simp add: time_sync_notification_cb_def keeps_def)
qed

lemma Time_CAN_keeps:
  assumes "clock_inv cfg s" "Time_CAN_to_IOT cfg ctz d s = (ret, s')"
  shows "keeps cfg s s'"
proof (cases "(d_month d OR d_hour d OR d_day d OR d_second d OR d_minute d) = 0 \<or> d_year d < 20")
  case True
  then show ?thesis using assms by (auto simp: Time_CAN_to_IOT_def keeps_def)
next
  case False
  let ?m = "mktime (zone_off ctz s) (date_to_tm d (local_tm s))"
  let ?s = "s\<lparr>local_tm := snd ?m, rtc_now := fst ?m, sys_time := fst ?m\<rparr>"
  note f = sync_facts[where s = ?s and cfg = cfg and ctz = ctz and f = 0]
  have "s' = time_sync_system_to_local cfg ctz 0 ?s"
    using False assms(2) by (simp add: Time_CAN_to_IOT_def case_prod_beta)
  then show ?thesis
    using f(1,2,5) assms(1) by (simp add: keeps_def clock_inv_def zone_applied_def same_clock_def sources_kept_def)
qed

lemma RTC_Valid_Check_keeps:
  assumes "clock_inv cfg s"
  shows "keeps cfg s (RTC_Valid_Check cfg ctz idle d s)"
proof -
  obtain ret s1 where t: "Time_CAN_to_IOT cfg ctz d s = (ret, s1)" by fastforce
  note k = Time_CAN_keeps[OF assms t]
  let ?s1 = "RTC_take_from_can cfg ctz d s"
  have "keeps cfg s ?s1"
    using k assms Time_CAN_frame[OF t]
    by (auto simp: RTC_take_from_can_def t keeps_def clock_inv_def zone_applied_def source_known_def other_source_def sources_kept_def Let_def)
  moreover have "sources_kept (rtc_flag s) (rtc_flag (RTC_correct_can cfg idle d ?s1))"
    using calculation RTC_correct_can_sources sources_kept_trans by (fastforce simp: keeps_def)
  ultimately show ?thesis
    using RTC_correct_can_facts[where s = ?s1 and cfg = cfg and idle = idle and d = d]
    by (simp add: RTC_Valid_Check_def keeps_def clock_inv_def zone_applied_def source_known_def same_clock_def)
qed

definition event_ok :: "clock_event \<Rightarrow> bool" where
  "event_ok e = (case e of Cloud_Time _ msg len \<Rightarrow> unat len \<le> length msg | _ \<Rightarrow> True)"

definition zone_event :: "clock_event \<Rightarrow> bool" where
  "zone_event e = (case e of App_Zone _ \<Rightarrow> True | _ \<Rightarrow> False)"

lemma cloud_keeps:
  assumes "clock_inv cfg s" "unat len \<le> length msg"
  shows "\<exists>b s'. iCloud_Dst_Time_Check_and_Update ctz a (Some msg) len s = Inr (b, s') \<and> keeps cfg s s'"
proof -
  have k: "keeps cfg s s" "keeps cfg s (after_cloud z t s)" "keeps cfg s (set_zone z s)" for z t
    using assms(1)
    by (simp_all add: keeps_def clock_inv_def after_cloud_def set_zone_def zone_applied_def app_sntp_set_timezone_def
        source_known_def other_source_def sources_kept_def)
  show ?thesis
    using k[unfolded after_cloud_def] assms(2)
    by (simp add: iCloud_Dst_Time_Check_and_Update_def Let_def split: option.split prod.split) blast
qed

lemma clock_step_keeps:
  assumes "clock_inv cfg s" "event_ok e"
  shows "\<exists>s'. clock_step cfg ctz e s = Inr s' \<and> clock_inv cfg s' \<and>
    (zone_applied s \<and> \<not> zone_event e \<longrightarrow> zone_applied s') \<and>
    sources_kept (rtc_flag s) (rtc_flag s')"
proof (cases e)
  case (Cloud_Time a msg len)
  then show ?thesis using cloud_keeps[OF assms(1), of len msg ctz a] assms(2)
    by (auto simp: clock_step_def keeps_def event_ok_def)
next
  case Set_Check
  have "\<exists>s'. time_new_set_check cfg ctz s = Inr s' \<and> keeps cfg s s'"
    using set_app_time_keeps[OF assms(1)] set_server_time_keeps[OF assms(1)] assms(1)
    by (auto simp: time_new_set_check_def mark_time_valid_def keeps_def clock_inv_def zone_applied_def
        source_known_def other_source_def sources_kept_def Let_def)
  then show ?thesis using Set_Check by (auto simp: clock_step_def keeps_def)
next
  case (Sntp_Notification st)
  then show ?thesis using sntp_keeps[OF assms(1), of ctz st] by (auto simp: clock_step_def keeps_def)
next
  case (Can_Date idle d)
  then show ?thesis using RTC_Valid_Check_keeps[OF assms(1), of ctz idle d] by (auto simp: clock_step_def keeps_def)
next
  case (Periodic_Sync n)
  have "keeps cfg s (time_sync_system_to_local cfg ctz n s)"
    by (rule keeps_sync[OF assms(1), where ?s0.0 = s and ctz = ctz and n = n])
       (use assms(1) sync_facts(2,5)[where s = s and cfg = cfg and ctz = ctz and f = n] in \<open>auto simp: clock_inv_def\<close>)
  then show ?thesis using Periodic_Sync by (auto simp: clock_step_def keeps_def)
qed (use assms(1) in \<open>auto simp: clock_step_def modbus_write_time_def modbus_write_zone_def clock_inv_def zone_applied_def
        zone_event_def source_known_def other_source_def sources_kept_def Let_def\<close>)

text \<open>C11: no run of the clock (ticks, cloud messages, checks, SNTP notifications, dates from the CAN bus, periodic
  copies, times and zones of the app) faults, and in every run the two copies of the local time agree, the time is
  marked valid only when some source has set it, each of the five sources (NTP, app, CAN, server, clock chip) that is
  known stays known, and the zone of the C library stays the stored zone unless the app writes the zone
  register.  The run starts with the copies equal, a valid time only from a source, and, when the build has a clock
  chip that answered at boot, with its client; the length of a cloud message is within its buffer.\<close>

theorem clock_run_safe:
  assumes "clock_inv cfg s" "\<forall>e \<in> set es. event_ok e"
  shows "\<exists>s'. clock_run cfg ctz es s = Inr s' \<and> rd_time s' = rtc_time s' \<and>
    (Time_valid (rtc_flag s') \<longrightarrow> source_known (rtc_flag s')) \<and>
    sources_kept (rtc_flag s) (rtc_flag s') \<and>
    (zone_applied s \<and> (\<forall>e \<in> set es. \<not> zone_event e) \<longrightarrow> zone_applied s')"
  using assms
proof (induction es arbitrary: s)
  case Nil
  then show ?case by (simp add: clock_inv_def)
next
  case (Cons e es)
  obtain s1 where s1: "clock_step cfg ctz e s = Inr s1" "clock_inv cfg s1"
      "zone_applied s \<and> \<not> zone_event e \<longrightarrow> zone_applied s1"
      "sources_kept (rtc_flag s) (rtc_flag s1)"
    using clock_step_keeps[OF Cons.prems(1), of e ctz] Cons.prems(2) by auto
  then show ?case using Cons.IH[OF s1(2)] Cons.prems(2) sources_kept_trans[OF s1(4)] by auto
qed

section \<open>Witnesses\<close>

definition utc8 :: time_res where "utc8 = \<lparr>z_hour = 8, z_min = 0\<rparr>"

text \<open>A board in China: the zone applied, no source known, all requests cleared.\<close>

definition board0 :: "(u8 \<Rightarrow> u8) clock_state" where
  "board0 = \<lparr>client = Some reg_file_client, c_polarity = 0, rtc_now = 0, chip = (\<lambda>_. 0),
     sys_time = 1700000000, tz_env = tz_posix_str 8 0, local_tm = localtime 28800 0,
     rtc_time = \<lparr>mon = 1, year = 0, hour = 0, day = 1, sec = 0, min_of = 0\<rparr>,
     rd_time = \<lparr>mon = 1, year = 0, hour = 0, day = 1, sec = 0, min_of = 0\<rparr>, rd_zone = utc8,
     wr_time = \<lparr>mon = 1, year = 0, hour = 0, day = 1, sec = 0, min_of = 0\<rparr>, wr_zone = utc8,
     SetTimeZone = utc8, zone_to_save = False, bluetti_time_update = 0,
     rtc_flag = \<lparr>RTC_valid_from_NTP = False, RTC_valid_from_APP = False, RTC_valid_from_CAN = False,
       RTC_valid_from_SERVER = False, RTC_valid_from_RTC = False, Time_valid = False, RTC_set_IOT_to_INV = False,
       RTC_set_APP_to_IOT = False, RTC_set_SERVER_to_IOT = False\<rparr>,
     last_rtc_sync_ble = 0, last_rtc_sync_cloud = 0, last_rtc_sync_local = 0, last_check_time = 0,
     ext_rtc_connect_status = True, rtc_fault = False\<rparr>"

lemma board0_ok:
  "zone_applied board0" "zone_in_range (SetTimeZone board0)" "clock_inv cfg board0"
  by (simp_all add: zone_applied_def board0_def utc8_def zone_in_range_def clock_inv_def)

lemma board0_off: "zone_off ctz board0 = 28800"
  using zone_off_applied[OF board0_ok(1,2), of ctz] by (simp add: board0_def utc8_def zone_seconds_def)

lemma board0_fields [simp]:
  "\<not> RTC_set_APP_to_IOT (rtc_flag board0)" "\<not> other_source (rtc_flag board0)" "\<not> RTC_valid_from_CAN (rtc_flag board0)"
  "\<not> RTC_valid_from_SERVER (rtc_flag board0)" "sys_time board0 = 1700000000" "client board0 = Some reg_file_client"
  "SetTimeZone board0 = utc8"
  by (simp_all add: board0_def other_source_def)

text \<open>26 July 2025, 10:30:15 local time in New York.\<close>

definition july :: tm where
  "july = \<lparr>tm_sec = 15, tm_min = 30, tm_hour = 10, tm_mday = 26, tm_mon = 6, tm_year = 125, tm_wday = 6\<rparr>"

lemma july_ok: "iso_tm july" "rtc_years july" "tm_ok july" "71 \<le> tm_year july" "tm_day july = 20295"
  by (simp_all add: iso_tm_def tm_ok_def july_def rtc_years_def month_days_def tm_day_def year_start_def
      leap_def Let_def eval_nat_numeral)

lemma july_string:
  "iso_date july @ ''.250'' @ iso_zone True True 4 0 = ''2025-07-26T10:30:15.250-04:00''"
  by code_simp

lemma july_fraction: "iso_fraction ''.250''"
  by code_simp

lemma clock_copy_roundtrip_witness:
  "sys_time (time_sync_save_to_system (\<lambda>_. 0) (time_sync_to_local (\<lambda>_. 0) board0)) = 1700000000"
proof -
  have "rtc_years (localtime (zone_off (\<lambda>_. 0) board0) (sys_time board0))"
    unfolding board0_off board0_fields by code_simp
  from clock_copy_roundtrip[OF this] show ?thesis by simp
qed

lemma cloud_time_reaches_registers_witness:
  "\<exists>s1 s2. iCloud_Dst_Time_Check_and_Update (\<lambda>_. 0) True (Some (''2025-07-26T10:30:15.250-04:00'' @ ''!'')) 29 board0 =
      Inr (True, s1) \<and>
    time_new_set_check \<lparr>ext_rtc_enable = False, time_source = 1\<rparr> (\<lambda>_. 0) s1 = Inr s2 \<and> sys_time s2 = 1753540215 \<and>
    zone_off (\<lambda>_. 0) s2 = - 14400 \<and> shows_date (rd_time s2) july"
proof -
  have "\<exists>s1 s2. iCloud_Dst_Time_Check_and_Update (\<lambda>_. 0) True (Some (''2025-07-26T10:30:15.250-04:00'' @ ''!''))
      (of_nat (length ''2025-07-26T10:30:15.250-04:00'')) board0 = Inr (True, s1) \<and>
    time_new_set_check \<lparr>ext_rtc_enable = False, time_source = 1\<rparr> (\<lambda>_. 0) s1 = Inr s2 \<and>
    sys_time s2 = tm_day july * 86400 + tm_hour july * 3600 + tm_min july * 60 + tm_sec july - iso_offset True 4 0 \<and>
    zone_off (\<lambda>_. 0) s2 = iso_offset True 4 0 \<and> zone_applied s2 \<and>
    shows_date (rd_time s2) july \<and> wr_time s2 = rd_time s2 \<and> rd_zone s2 = iso_res True 4 0 \<and>
    RTC_valid_from_SERVER (rtc_flag s2) \<and> Time_valid (rtc_flag s2) \<and> RTC_set_IOT_to_INV (rtc_flag s2)"
    by (rule cloud_time_reaches_registers[OF july_ok(1,2) july_fraction _ _ _ _ _ _ board0_ok(1) _ _ zone_textI[of True True 4 0] july_string[symmetric]])
       simp_all
  then show ?thesis by (simp add: july_ok iso_offset_def) (auto simp: july_def)
qed

text \<open>The app moves the board from China to New York; the cloud then confirms New York's time.\<close>

lemma modbus_zone_shifts_cloud_time_witness:
  "\<exists>s1. iCloud_Dst_Time_Check_and_Update (\<lambda>_. 0) True (Some (''2025-07-26T10:30:15.250-04:00'' @ [])) 29
      (modbus_write_zone (iso_res True 4 0) board0) = Inr (True, s1) \<and> sys_time s1 = 1753540215 - 43200"
proof -
  have "\<exists>s1. iCloud_Dst_Time_Check_and_Update (\<lambda>_. 0) True (Some (''2025-07-26T10:30:15.250-04:00'' @ []))
      (of_nat (length ''2025-07-26T10:30:15.250-04:00'')) (modbus_write_zone (iso_res True 4 0) board0) = Inr (True, s1) \<and>
    sys_time s1 = (tm_day july * 86400 + tm_hour july * 3600 + tm_min july * 60 + tm_sec july - iso_offset True 4 0) +
      (iso_offset True 4 0 - zone_seconds (SetTimeZone board0)) \<and>
    zone_off (\<lambda>_. 0) s1 = zone_seconds (SetTimeZone board0)"
    by (rule modbus_zone_shifts_cloud_time[OF july_ok(1,4) july_fraction _ _ _ _ _ _ board0_ok(1,2) _ july_string[symmetric]])
       simp_all
  then show ?thesis by (simp add: july_ok iso_offset_def zone_seconds_def utc8_def) (auto simp: july_def)
qed

definition july_regs :: rtc_time_t where
  "july_regs = \<lparr>mon = 7, year = 25, hour = 10, day = 26, sec = 15, min_of = 30\<rparr>"

lemma july_shown: "shows_date july_regs july"
  by (simp add: shows_date_def july_regs_def july_def)

lemma app_time_kept_witness:
  "\<exists>s2. time_new_set_check \<lparr>ext_rtc_enable = False, time_source = 1\<rparr> (\<lambda>_. 0) (modbus_write_time july_regs board0) = Inr s2 \<and>
     sys_time s2 = 1753497015 \<and> rd_time s2 = july_regs"
proof -
  have "\<not> ext_rtc_enable \<lparr>ext_rtc_enable = False, time_source = 1\<rparr>" by simp
  from app_time_kept[OF this july_shown july_ok(3), of "\<lambda>_. 0" board0]
  show ?thesis by (auto simp: board0_off july_ok) (auto simp: july_def)
qed

lemma app_time_lost_with_chip_witness:
  "\<exists>s2. time_new_set_check \<lparr>ext_rtc_enable = True, time_source = 1\<rparr> (\<lambda>_. 0) (modbus_write_time july_regs board0) = Inr s2 \<and>
     sys_time s2 = 1700000000"
  using app_time_lost_with_chip[of "\<lparr>ext_rtc_enable = True, time_source = 1\<rparr>" board0 "\<lambda>_. 0" july_regs] by auto

lemma can_date_sets_once_witness:
  "let s = RTC_Valid_Check \<lparr>ext_rtc_enable = False, time_source = 1\<rparr> (\<lambda>_. 0) True
      \<lparr>d_year = 25, d_month = 7, d_day = 26, d_hour = 10, d_minute = 30, d_second = 15\<rparr> board0 in
    sys_time s = 1753497015 \<and> RTC_valid_from_CAN (rtc_flag s)"
proof -
  have "let s' = RTC_Valid_Check \<lparr>ext_rtc_enable = False, time_source = 1\<rparr> (\<lambda>_. 0) True
      \<lparr>d_year = 25, d_month = 7, d_day = 26, d_hour = 10, d_minute = 30, d_second = 15\<rparr> board0 in
    sys_time s' + zone_off (\<lambda>_. 0) board0 = tm_day july * 86400 + tm_hour july * 3600 + tm_min july * 60 + tm_sec july \<and>
    shows_date (rd_time s') july \<and> RTC_valid_from_CAN (rtc_flag s') \<and> last_rtc_sync_local s' = sys_time s'"
    using can_date_sets_once[of board0 "\<lparr>ext_rtc_enable = False, time_source = 1\<rparr>" "\<lambda>_. 0" True
        "\<lparr>d_year = 25, d_month = 7, d_day = 26, d_hour = 10, d_minute = 30, d_second = 15\<rparr>"]
      july_shown july_ok(3,4)
    by (simp add: july_regs_def) (auto simp: july_def)
  then show ?thesis by (simp add: board0_off july_ok Let_def) (simp add: july_def)
qed

lemma clock_run_safe_witness:
  "\<exists>s'. clock_run \<lparr>ext_rtc_enable = True, time_source = 1\<rparr> (\<lambda>_. 0)
      [App_Time july_regs, Set_Check, Clock_Tick, Cloud_Time True ''2025-07-26T10:30:15.250-04:00'' 29, Set_Check,
       Periodic_Sync 1] board0 = Inr s' \<and> rd_time s' = rtc_time s' \<and> zone_applied s'"
  using clock_run_safe[OF board0_ok(3), of "[App_Time july_regs, Set_Check, Clock_Tick,
      Cloud_Time True ''2025-07-26T10:30:15.250-04:00'' 29, Set_Check, Periodic_Sync 1]"
      "\<lparr>ext_rtc_enable = True, time_source = 1\<rparr>" "\<lambda>_. 0"]
    board0_ok(1)
  by (auto simp: event_ok_def zone_event_def)

end
