(* ===== verification/Fault_Log.thy ===== *)
theory Fault_Log
  imports History_Ring Sync_Time
begin

text \<open>
  The fault log of \<open>data_record/dev_data_record.c\<close>: \<open>dev_log_check\<close> compares the fault, alarm and
  battery-protection registers with their last values, turns every changed bit into a record, queues
  the records, and moves one record per call from the queue to the file.  Records carry local wall
  clock time, which the reader converts back with the zone then in effect.
\<close>

section \<open>Records\<close>

record log_fault =
  LogTime :: rtc_time_t
  FaultSeq :: u8
  FaultState :: u8
  LogFaultCode :: u16

definition fault_bytes :: "log_fault \<Rightarrow> u8 list" where
  "fault_bytes f =
     (let t = LogTime f
      in [mon t, year t, hour t, day t, sec t, min_of t, FaultSeq f, FaultState f]
         @ le16 (LogFaultCode f))"

definition fault_of_bytes :: "u8 list \<Rightarrow> log_fault" where
  "fault_of_bytes b =
     \<lparr>LogTime = \<lparr>mon = b ! 0, year = b ! 1, hour = b ! 2, day = b ! 3, sec = b ! 4, min_of = b ! 5\<rparr>,
      FaultSeq = b ! 6, FaultState = b ! 7, LogFaultCode = get16 b 8\<rparr>"

text \<open>Wall clock to \<open>time_t\<close> in a zone \<open>off\<close> seconds ahead of UTC.\<close>

definition rtc_time_to_time_t :: "int \<Rightarrow> rtc_time_t \<Rightarrow> int" where
  "rtc_time_to_time_t off r =
     (if mon r < 1 \<or> 12 < mon r then - 1
      else if day r < 1 \<or> 31 < day r then - 1
      else if 23 < hour r then - 1
      else if 59 < min_of r then - 1
      else if 60 < sec r then - 1
      else fst (mktime off
        \<lparr>tm_sec = uint (sec r), tm_min = uint (min_of r), tm_hour = uint (hour r),
         tm_mday = uint (day r), tm_mon = uint (mon r) - 1, tm_year = uint (year r) + 100,
         tm_wday = 0\<rparr>))"

definition HISTORY_LOG_RECORD_MAX_NUM :: nat where "HISTORY_LOG_RECORD_MAX_NUM = 100"
definition SIZEOF_LOG_FAULT :: u16 where "SIZEOF_LOG_FAULT = 10"
definition LOG_QUEUE_LEN :: nat where "LOG_QUEUE_LEN = 32"
definition HISTORY_INV_FAULT_START_INDEX :: u8 where "HISTORY_INV_FAULT_START_INDEX = 1"
definition HISTORY_INV_WARN_START_INDEX :: u8 where "HISTORY_INV_WARN_START_INDEX = 7"
definition HISTORY_PACK_PROTECT_START_INDEX :: u8 where "HISTORY_PACK_PROTECT_START_INDEX = 50"

text \<open>\<open>DEV_MAIN_NODE_MAX * INV_MAX_NUM\<close>, the same in every product of the source.\<close>

definition INV_TOTAL :: nat where "INV_TOTAL = 1"

section \<open>The state and its surroundings\<close>

text \<open>A queued record names its file: 0 for the board as a whole, else the inverter.  All files share
  one index and one count.\<close>

record fault_log =
  lg_queue :: "(log_fault \<times> u8) list"
  lg_files :: "u8 \<Rightarrow> flash_file"
  historyAddrIndex :: u32
  historyRecSaveCount :: u32
  history_dirty :: bool
  PCSFault :: "u16 list list"
  PCSAlarm :: "u16 list list"
  PCSProtect :: "u16 list"

record fault_env =
  lg_rtc_time :: rtc_time_t
  inv_fault :: "nat \<Rightarrow> u16 list"
  inv_alarm :: "nat \<Rightarrow> u16 list"
  all_pack_alarm1 :: u16
  all_pack_alarm2 :: u16
  lg_mem :: "log_fault \<Rightarrow> bool"
  lg_locked :: bool
  lg_io :: write_io

section \<open>Queueing and writing\<close>

definition Logger_Push :: "fault_env \<Rightarrow> log_fault \<Rightarrow> nat \<Rightarrow> fault_log \<Rightarrow> fault_log" where
  "Logger_Push env rec node_id s =
     (if \<not> lg_mem env rec then s
      else
        let inv_num = (if node_id = INV_TOTAL then 0 else of_nat (node_id + 1))
        in if length (lg_queue s) < LOG_QUEUE_LEN
           then s\<lparr>lg_queue := lg_queue s @ [(rec, inv_num)]\<rparr> else s)"

definition inv_SaveOneErrorcode ::
    "fault_env \<Rightarrow> u8 \<Rightarrow> u8 \<Rightarrow> u16 \<Rightarrow> nat \<Rightarrow> fault_log \<Rightarrow> fault_log" where
  "inv_SaveOneErrorcode env HappenType ErrorCode FaultInformation index s =
     Logger_Push env
       \<lparr>LogTime = lg_rtc_time env, FaultSeq = ErrorCode, FaultState = HappenType,
        LogFaultCode = FaultInformation\<rparr> index s"

definition log_ring :: "u8 \<Rightarrow> fault_log \<Rightarrow> history_ring" where
  "log_ring n s =
     \<lparr>hr_file = lg_files s n, AddrIndex = historyAddrIndex s, SaveCount = historyRecSaveCount s,
      settings_dirty = history_dirty s\<rparr>"

definition put_ring :: "u8 \<Rightarrow> history_ring \<Rightarrow> fault_log \<Rightarrow> fault_log" where
  "put_ring n r s =
     s\<lparr>lg_files := (lg_files s)(n := hr_file r), historyAddrIndex := AddrIndex r,
       historyRecSaveCount := SaveCount r, history_dirty := settings_dirty r\<rparr>"

definition Logger_Pop :: "bool \<Rightarrow> write_io \<Rightarrow> fault_log \<Rightarrow> u8 \<times> fault_log" where
  "Logger_Pop locked io s =
     (if \<not> locked then (0xFF, s)
      else case lg_queue s of
        [] \<Rightarrow> (0xFF, s)
      | (rec, inv_num) # q \<Rightarrow>
          let (ok, r) = history_store (of_nat HISTORY_LOG_RECORD_MAX_NUM) (ucast SIZEOF_LOG_FAULT) io
                          (fault_bytes rec) (log_ring inv_num s)
          in (if ok then 0 else 0xFF, put_ring inv_num r (s\<lparr>lg_queue := q\<rparr>)))"

section \<open>Comparing the registers\<close>

text \<open>The loop over the bits of one register: a rising bit is a record with state 1, a falling bit one
  with state 0.\<close>

definition bit_step ::
    "fault_env \<Rightarrow> u8 \<Rightarrow> nat \<Rightarrow> u16 \<Rightarrow> u16 \<Rightarrow> nat \<Rightarrow> fault_log \<Rightarrow> fault_log" where
  "bit_step env seq index old now i s =
     (let dLastErrorCodeTemp = old AND push_bit i 1; dCurrentErrorCodeTemp = now AND push_bit i 1
      in if dLastErrorCodeTemp = 0 \<and> dCurrentErrorCodeTemp \<noteq> 0
         then inv_SaveOneErrorcode env 1 seq dCurrentErrorCodeTemp index s
         else if dLastErrorCodeTemp \<noteq> 0 \<and> dCurrentErrorCodeTemp = 0
         then inv_SaveOneErrorcode env 0 seq dLastErrorCodeTemp index s
         else s)"

definition bits_check ::
    "fault_env \<Rightarrow> u8 \<Rightarrow> nat \<Rightarrow> u16 \<Rightarrow> u16 \<Rightarrow> fault_log \<Rightarrow> fault_log" where
  "bits_check env seq index old now s = fold (bit_step env seq index old now) [0..<16] s"

definition inv_fault_check :: "fault_env \<Rightarrow> nat \<Rightarrow> fault_log \<Rightarrow> fault_log" where
  "inv_fault_check env index s =
     fold (\<lambda>k s.
       let now = inv_fault env index ! k; old = PCSFault s ! index ! k
       in if old \<noteq> now then
            let t = bits_check env (of_nat k + HISTORY_INV_FAULT_START_INDEX) index old now s
            in t\<lparr>PCSFault := (PCSFault t)[index := (PCSFault t ! index)[k := now]]\<rparr>
          else s) [0..<6] s"

definition inv_alarm_check :: "fault_env \<Rightarrow> nat \<Rightarrow> fault_log \<Rightarrow> fault_log" where
  "inv_alarm_check env index s =
     fold (\<lambda>k s.
       let now = inv_alarm env index ! k; old = PCSAlarm s ! index ! k
       in if old \<noteq> now then
            let t = bits_check env (of_nat k + HISTORY_INV_WARN_START_INDEX) index old now s
            in t\<lparr>PCSAlarm := (PCSAlarm t)[index := (PCSAlarm t ! index)[k := now]]\<rparr>
          else s) [0..<4] s"

definition pack_protect_check :: "fault_env \<Rightarrow> fault_log \<Rightarrow> fault_log" where
  "pack_protect_check env s =
     fold (\<lambda>k s.
       let now = (if k = 0 then all_pack_alarm1 env else all_pack_alarm2 env); old = PCSProtect s ! k
       in if old \<noteq> now then
            let t = bits_check env (of_nat k + HISTORY_PACK_PROTECT_START_INDEX) INV_TOTAL old now s
            in t\<lparr>PCSProtect := (PCSProtect t)[k := now]\<rparr>
          else s) [0..<2] s"

definition dev_log_check :: "fault_env \<Rightarrow> fault_log \<Rightarrow> fault_log" where
  "dev_log_check env s =
     (let s1 = inv_alarm_check env INV_TOTAL (inv_fault_check env INV_TOTAL s);
          s2 = (if 1 < INV_TOTAL
                then fold (\<lambda>addr s. inv_alarm_check env addr (inv_fault_check env addr s)) [0..<INV_TOTAL] s1
                else s1)
      in snd (Logger_Pop (lg_locked env) (lg_io env) (pack_protect_check env s2)))"

section \<open>Reading the fault log\<close>

definition fault_view :: "int \<Rightarrow> fault_log \<Rightarrow> log_view" where
  "fault_view off s =
     ring_view (of_nat HISTORY_LOG_RECORD_MAX_NUM) SIZEOF_LOG_FAULT
       (\<lambda>since r. sint since < rtc_time_to_time_t off (LogTime (fault_of_bytes r))) (log_ring 0 s)"

definition Inv_Log_Count_New_Records :: "int \<Rightarrow> (nat \<Rightarrow> read_io) \<Rightarrow> u64 \<Rightarrow> fault_log \<Rightarrow> u16" where
  "Inv_Log_Count_New_Records off rio since s =
     Log_Count_New_Records rio (fault_view off s) (lg_files s 0) since"

definition Inv_Log_Read_Incremental ::
    "int \<Rightarrow> bool \<Rightarrow> bool \<Rightarrow> (nat \<Rightarrow> read_io) \<Rightarrow> u64 \<Rightarrow> fault_log \<Rightarrow> int \<times> u8 list option" where
  "Inv_Log_Read_Incremental off locked calloc rio since s =
     Log_Read_Incremental locked calloc rio 0 (fault_view off s) (lg_files s 0) since"

definition Is_Inv_Log_Count_New :: "int \<Rightarrow> bool \<Rightarrow> (nat \<Rightarrow> read_io) \<Rightarrow> u64 \<Rightarrow> fault_log \<Rightarrow> int" where
  "Is_Inv_Log_Count_New off locked rio since s =
     Is_Log_Count_New locked rio (fault_view off s) (lg_files s 0) since"

section \<open>The edges of a register\<close>

text \<open>What the comparison of one register should record, lowest bit first.\<close>

definition edge :: "fault_env \<Rightarrow> u8 \<Rightarrow> u8 \<Rightarrow> nat \<Rightarrow> log_fault" where
  "edge env st seq i =
     \<lparr>LogTime = lg_rtc_time env, FaultSeq = seq, FaultState = st, LogFaultCode = push_bit i 1\<rparr>"

definition edges :: "fault_env \<Rightarrow> u8 \<Rightarrow> u16 \<Rightarrow> u16 \<Rightarrow> log_fault list" where
  "edges env seq old now =
     concat (map (\<lambda>i. if bit old i = bit now i then []
                      else [edge env (if bit now i then 1 else 0) seq i]) [0..<16])"

lemma and_exp_word:
  fixes w :: u16
  assumes "i < 16"
  shows "w AND 2 ^ i = (if bit w i then 2 ^ i else 0)"
  using assms by (auto intro!: bit_word_eqI simp: bit_simps bit_exp_iff)

lemma exp_nonzero:
  assumes "i < 16"
  shows "2 ^ i \<noteq> (0 :: u16)"
  using assms bit_exp_iff [where 'a = "16 word", of i i] by (auto simp: bit_simps)

definition push_all :: "(log_fault \<times> u8) list \<Rightarrow> fault_log \<Rightarrow> fault_log" where
  "push_all es s = s\<lparr>lg_queue := take LOG_QUEUE_LEN (lg_queue s @ es)\<rparr>"

lemma push_all_push_all [simp]: "push_all es (push_all ds s) = push_all (ds @ es) s"
  by (simp add: push_all_def take_take_append del: take_append)

lemma push_all_Nil: "length (lg_queue s) \<le> LOG_QUEUE_LEN \<Longrightarrow> push_all [] s = s"
  by (simp add: push_all_def)

lemma Logger_Push_all:
  assumes "lg_mem env rec" "length (lg_queue s) \<le> LOG_QUEUE_LEN"
  shows "Logger_Push env rec INV_TOTAL s = push_all [(rec, 0)] s"
  using assms by (auto simp: Logger_Push_def push_all_def Let_def take_Cons')

lemma bit_step_edges:
  assumes mem: "\<And>r. lg_mem env r" and q: "length (lg_queue s) \<le> LOG_QUEUE_LEN" and i: "i < 16"
  shows "bit_step env seq INV_TOTAL old now i s
    = push_all (if bit old i = bit now i then []
                else [(edge env (if bit now i then 1 else 0) seq i, 0)]) s"
  using i exp_nonzero [OF i]
  by (simp add: bit_step_def Let_def and_exp_word [OF i] inv_SaveOneErrorcode_def Logger_Push_all [OF mem q]
      push_all_Nil [OF q] edge_def)

lemma length_push_all [simp]: "length (lg_queue (push_all es s)) \<le> LOG_QUEUE_LEN"
  by (simp add: push_all_def del: take_append)

lemma bits_check_edges:
  assumes mem: "\<And>r. lg_mem env r" and q: "length (lg_queue s) \<le> LOG_QUEUE_LEN"
  shows "bits_check env seq INV_TOTAL old now s
    = push_all (map (\<lambda>r. (r, 0)) (edges env seq old now)) s"
proof -
  have "fold (bit_step env seq INV_TOTAL old now) is s
      = push_all (map (\<lambda>r. (r, 0)) (concat (map (\<lambda>i. if bit old i = bit now i then []
          else [edge env (if bit now i then 1 else 0) seq i]) is))) s"
    if "\<forall>i\<in>set is. i < 16" for "is"
    using that q
  proof (induction "is" arbitrary: s)
    case Nil
    then show ?case by (simp add: push_all_Nil)
  next
    case (Cons i "is")
    then show ?case by (simp add: bit_step_edges [OF mem])
  qed
  then show ?thesis by (simp add: bits_check_def edges_def)
qed

text \<open>Replaying the edges on the old value gives the new one.\<close>

definition replay :: "log_fault \<Rightarrow> (u8 \<Rightarrow> u16) \<Rightarrow> u8 \<Rightarrow> u16" where
  "replay r regs =
     regs(FaultSeq r := (if FaultState r = 1 then regs (FaultSeq r) OR LogFaultCode r
                         else regs (FaultSeq r) AND NOT (LogFaultCode r)))"

lemma replay_edge:
  "replay (edge env st seq i) regs
    = regs(seq := if st = 1 then regs seq OR push_bit i 1 else regs seq AND NOT (push_bit i 1))"
  unfolding replay_def edge_def log_fault.simps by (rule refl)

lemma mix_step:
  fixes old now :: u16
  defines "mix \<equiv> \<lambda>n. take_bit n now OR (old AND NOT (mask n))"
  assumes n: "n < 16"
  shows "mix (Suc n) = (if bit old n = bit now n then mix n
    else if bit now n then mix n OR push_bit n 1 else mix n AND NOT (push_bit n 1))"
  using n unfolding mix_def
  by (intro bit_word_eqI) (auto simp: bit_simps bit_exp_iff less_Suc_eq)

lemma replay_edges:
  assumes "regs seq = old"
  shows "fold replay (edges env seq old now) regs = regs(seq := now)"
proof -
  define mix where "mix = (\<lambda>n. take_bit n now OR (old AND NOT (mask n)))"
  have "fold replay (concat (map (\<lambda>i. if bit old i = bit now i then []
          else [edge env (if bit now i then 1 else 0) seq i]) [0..<n])) regs
      = regs(seq := mix n)" if "n \<le> 16" for n
    using that
  proof (induction n)
    case 0
    then show ?case using assms by (auto simp: mix_def)
  next
    case (Suc n)
    then have "mix (Suc n) = (if bit old n = bit now n then mix n
        else if bit now n then mix n OR push_bit n 1 else mix n AND NOT (push_bit n 1))"
      using mix_step [of n now old] by (simp add: mix_def)
    then show ?case using Suc by (auto simp: replay_edge simp del: push_bit_of_1)
  qed
  moreover have "mix 16 = now"
    by (auto intro!: bit_word_eqI simp: mix_def bit_simps)
  ultimately show ?thesis by (simp add: edges_def del: upt_rec_numeral)
qed

section \<open>A group of registers\<close>

text \<open>The three comparisons run over different arrays; what they need of an array is stated once.\<close>

lemma edges_same [simp]: "edges env seq w w = []"
  by (simp add: edges_def)

definition group_edges :: "fault_env \<Rightarrow> u8 \<Rightarrow> u16 list \<Rightarrow> u16 list \<Rightarrow> log_fault list" where
  "group_edges env base olds nows =
     concat (map (\<lambda>k. edges env (of_nat k + base) (olds ! k) (nows ! k)) [0..<length olds])"

abbreviation for_board :: "log_fault list \<Rightarrow> (log_fault \<times> u8) list" where
  "for_board rs \<equiv> map (\<lambda>r. (r, 0)) rs"

locale register_group =
  fixes ok :: "fault_log \<Rightarrow> bool" and get :: "fault_log \<Rightarrow> u16 list"
    and put :: "u16 list \<Rightarrow> fault_log \<Rightarrow> fault_log"
  assumes ok_put: "ok s \<Longrightarrow> ok (put xs s)" and ok_push: "ok s \<Longrightarrow> ok (push_all es s)"
    and get_put: "ok s \<Longrightarrow> get (put xs s) = xs" and put_get: "ok s \<Longrightarrow> put (get s) s = s"
    and put_put: "ok s \<Longrightarrow> put xs (put ys s) = put xs s"
    and get_push: "get (push_all es s) = get s"
    and put_push: "put xs (push_all es s) = push_all es (put xs s)"
    and queue_put: "lg_queue (put xs s) = lg_queue s"
begin

definition check_one :: "fault_env \<Rightarrow> u8 \<Rightarrow> u16 list \<Rightarrow> nat \<Rightarrow> fault_log \<Rightarrow> fault_log" where
  "check_one env base nows k s =
     (let now = nows ! k; old = get s ! k
      in if old \<noteq> now then
           let t = bits_check env (of_nat k + base) INV_TOTAL old now s in put ((get t)[k := now]) t
         else s)"

lemma check_one_eq:
  assumes mem: "\<And>r. lg_mem env r" and q: "length (lg_queue s) \<le> LOG_QUEUE_LEN" and "ok s"
    and k: "k < length (get s)"
  shows "check_one env base nows k s
    = push_all (for_board (edges env (of_nat k + base) (get s ! k) (nows ! k)))
        (put ((get s)[k := nows ! k]) s)"
proof (cases "get s ! k = nows ! k")
  case True
  then have "(get s)[k := nows ! k] = get s" by (metis list_update_id)
  then show ?thesis
    using True assms(3) q by (simp add: check_one_def put_get push_all_Nil)
next
  case False
  then show ?thesis
    using assms(3) by (simp add: check_one_def Let_def bits_check_edges [OF mem q] get_push put_push)
qed

lemma check_group:
  assumes mem: "\<And>r. lg_mem env r" and q: "length (lg_queue s) \<le> LOG_QUEUE_LEN" and "ok s"
    and len: "length nows = length (get s)"
  shows "fold (check_one env base nows) [0..<length (get s)] s
    = push_all (for_board (group_edges env base (get s) nows)) (put nows s)"
proof -
  have "fold (check_one env base nows) [0..<n] s
      = push_all (for_board (concat (map (\<lambda>k. edges env (of_nat k + base) (get s ! k) (nows ! k))
          [0..<n]))) (put (take n nows @ drop n (get s)) s)" if "n \<le> length (get s)" for n
    using that
  proof (induction n)
    case 0
    then show ?case using q assms(3) by (simp add: put_get push_all_Nil)
  next
    case (Suc n)
    define es where "es = for_board (concat (map (\<lambda>k. edges env (of_nat k + base) (get s ! k)
      (nows ! k)) [0..<n]))"
    define t where "t = push_all es (put (take n nows @ drop n (get s)) s)"
    have t: "ok t" "length (lg_queue t) \<le> LOG_QUEUE_LEN" "get t = take n nows @ drop n (get s)"
      using assms(3) by (simp_all add: t_def ok_push ok_put get_push get_put)
    have n: "n < length (get t)" "get t ! n = get s ! n"
        "(get t)[n := nows ! n] = take (Suc n) nows @ drop (Suc n) (get s)"
      using Suc.prems len
      by (auto simp: t(3) nth_append list_update_append take_Suc_conv_app_nth Cons_nth_drop_Suc
          [symmetric])
    have "fold (check_one env base nows) [0..<Suc n] s = check_one env base nows n t"
      using Suc by (simp add: t_def es_def)
    also have "\<dots> = push_all (for_board (edges env (of_nat n + base) (get s ! n) (nows ! n)))
        (put (take (Suc n) nows @ drop (Suc n) (get s)) t)"
      using check_one_eq [OF mem t(2) t(1) n(1)] n(2,3) by simp
    also have "\<dots> = push_all (es @ for_board (edges env (of_nat n + base) (get s ! n) (nows ! n)))
        (put (take (Suc n) nows @ drop (Suc n) (get s)) s)"
      using assms(3) by (simp add: t_def put_push put_put)
    finally show ?case by (simp add: es_def)
  qed
  from this [of "length (get s)"] show ?thesis by (simp add: group_edges_def len)
qed

end

interpretation faults: register_group "\<lambda>s. INV_TOTAL < length (PCSFault s)"
  "\<lambda>s. PCSFault s ! INV_TOTAL" "\<lambda>xs s. s\<lparr>PCSFault := (PCSFault s)[INV_TOTAL := xs]\<rparr>"
  by unfold_locales (simp_all add: push_all_def)

interpretation alarms: register_group "\<lambda>s. INV_TOTAL < length (PCSAlarm s)"
  "\<lambda>s. PCSAlarm s ! INV_TOTAL" "\<lambda>xs s. s\<lparr>PCSAlarm := (PCSAlarm s)[INV_TOTAL := xs]\<rparr>"
  by unfold_locales (simp_all add: push_all_def)

interpretation protects: register_group "\<lambda>_. True" PCSProtect "\<lambda>xs s. s\<lparr>PCSProtect := xs\<rparr>"
  by unfold_locales (simp_all add: push_all_def)

section \<open>The registers of the board\<close>

definition board_seqs :: "u8 list" where
  "board_seqs =
     map (\<lambda>k. of_nat k + HISTORY_INV_FAULT_START_INDEX) [0..<6]
     @ map (\<lambda>k. of_nat k + HISTORY_INV_WARN_START_INDEX) [0..<4]
     @ map (\<lambda>k. of_nat k + HISTORY_PACK_PROTECT_START_INDEX) [0..<2]"

text \<open>What the board remembers, and what it is shown.\<close>

definition memory :: "fault_log \<Rightarrow> u16 list" where
  "memory s = PCSFault s ! INV_TOTAL @ PCSAlarm s ! INV_TOTAL @ PCSProtect s"

definition sampled :: "fault_env \<Rightarrow> u16 list" where
  "sampled env = inv_fault env INV_TOTAL @ inv_alarm env INV_TOTAL
     @ [all_pack_alarm1 env, all_pack_alarm2 env]"

definition reg_edges :: "fault_env \<Rightarrow> u8 list \<Rightarrow> u16 list \<Rightarrow> u16 list \<Rightarrow> log_fault list" where
  "reg_edges env qs olds nows = concat (map (\<lambda>(q, w, v). edges env q w v) (zip qs (zip olds nows)))"

definition board_regs :: "u8 list \<Rightarrow> u16 list \<Rightarrow> (u8 \<Rightarrow> u16) \<Rightarrow> u8 \<Rightarrow> u16" where
  "board_regs qs vs r = fold (\<lambda>(q, v) r. r(q := v)) (zip qs vs) r"

lemma group_edges_reg:
  "length olds = length nows \<Longrightarrow>
     group_edges env base olds nows
       = reg_edges env (map (\<lambda>k. of_nat k + base) [0..<length olds]) olds nows"
  unfolding group_edges_def reg_edges_def
  by (intro arg_cong [of _ _ concat] nth_equalityI) simp_all

lemma reg_edges_append:
  "length qs = length os \<Longrightarrow> length os = length ns \<Longrightarrow>
     reg_edges env qs os ns @ reg_edges env qs' os' ns' = reg_edges env (qs @ qs') (os @ os') (ns @ ns')"
  by (simp add: reg_edges_def)

lemma board_regs_simps [simp]:
  "board_regs [] vs r = r" "board_regs qs [] r = r"
  "board_regs (q # qs) (v # vs) r = board_regs qs vs (r(q := v))"
  by (simp_all add: board_regs_def)

lemma board_regs_upd:
  "q \<notin> set qs \<Longrightarrow> (board_regs qs vs r)(q := v) = board_regs qs vs (r(q := v))"
proof (induction qs arbitrary: vs r)
  case step: (Cons p qs)
  show ?case
  proof (cases vs)
    case (Cons w ws)
    have "r(p := w, q := v) = r(q := v, p := w)"
      using step.prems by (intro fun_upd_twist) auto
    then show ?thesis using Cons step.IH [of ws "r(p := w)"] step.prems
      by (simp del: fun_upd_apply)
  qed simp
qed simp

lemma board_regs_other: "q \<notin> set qs \<Longrightarrow> board_regs qs vs r q = r q"
  using board_regs_upd [of q qs vs r "r q"] by (metis fun_upd_same fun_upd_triv)

text \<open>The records of a comparison, replayed on the old values, give the new ones.\<close>

lemma replay_reg_edges:
  assumes "distinct qs" "length os = length qs" "length ns = length qs"
  shows "fold replay (reg_edges env qs os ns) (board_regs qs os r) = board_regs qs ns r"
  using assms
proof (induction qs arbitrary: os ns r)
  case Nil
  then show ?case by (simp add: reg_edges_def)
next
  case (Cons q qs)
  obtain w os' v ns' where wv: "os = w # os'" "ns = v # ns'"
    using Cons.prems by (cases os; cases ns) auto
  have "board_regs (q # qs) os r q = w"
    using Cons.prems(1) board_regs_other [of q qs os' "r(q := w)"] by (simp add: wv)
  then have "fold replay (edges env q w v) (board_regs (q # qs) os r)
      = (board_regs qs os' (r(q := w)))(q := v)"
    using replay_edges by (simp add: wv)
  also have "\<dots> = board_regs qs os' (r(q := v))"
    using Cons.prems(1) by (simp add: board_regs_upd)
  finally show ?case
    using Cons.IH [of os' ns' "r(q := v)"] Cons.prems
    by (simp add: wv reg_edges_def del: fun_upd_apply)
qed

lemma board_seqs_distinct: "distinct board_seqs" "length board_seqs = 12"
  by (simp_all add: board_seqs_def HISTORY_INV_FAULT_START_INDEX_def upt_rec
      HISTORY_INV_WARN_START_INDEX_def HISTORY_PACK_PROTECT_START_INDEX_def)

section \<open>One check\<close>

definition fault_inv :: "fault_log \<Rightarrow> bool" where
  "fault_inv s \<longleftrightarrow>
     length (PCSFault s) = 2 \<and> length (PCSFault s ! INV_TOTAL) = 6
     \<and> length (PCSAlarm s) = 2 \<and> length (PCSAlarm s ! INV_TOTAL) = 4 \<and> length (PCSProtect s) = 2
     \<and> length (lg_queue s) \<le> LOG_QUEUE_LEN \<and> (\<forall>e\<in>set (lg_queue s). snd e = 0)
     \<and> ring_ok HISTORY_LOG_RECORD_MAX_NUM (unat SIZEOF_LOG_FAULT) (log_ring 0 s)"

definition good_fault_env :: "fault_env \<Rightarrow> bool" where
  "good_fault_env env \<longleftrightarrow> (\<forall>r. lg_mem env r) \<and> lg_locked env \<and> lg_io env = good_write
     \<and> length (inv_fault env INV_TOTAL) = 6 \<and> length (inv_alarm env INV_TOTAL) = 4"

lemma checks_eq:
  assumes mem: "\<And>r. lg_mem env r" and q: "length (lg_queue s) \<le> LOG_QUEUE_LEN"
  shows "INV_TOTAL < length (PCSFault s) \<Longrightarrow> length (PCSFault s ! INV_TOTAL) = 6 \<Longrightarrow>
      length (inv_fault env INV_TOTAL) = 6 \<Longrightarrow>
      inv_fault_check env INV_TOTAL s
        = push_all (for_board (group_edges env HISTORY_INV_FAULT_START_INDEX
              (PCSFault s ! INV_TOTAL) (inv_fault env INV_TOTAL)))
            (s\<lparr>PCSFault := (PCSFault s)[INV_TOTAL := inv_fault env INV_TOTAL]\<rparr>)"
    and "INV_TOTAL < length (PCSAlarm s) \<Longrightarrow> length (PCSAlarm s ! INV_TOTAL) = 4 \<Longrightarrow>
      length (inv_alarm env INV_TOTAL) = 4 \<Longrightarrow>
      inv_alarm_check env INV_TOTAL s
        = push_all (for_board (group_edges env HISTORY_INV_WARN_START_INDEX
              (PCSAlarm s ! INV_TOTAL) (inv_alarm env INV_TOTAL)))
            (s\<lparr>PCSAlarm := (PCSAlarm s)[INV_TOTAL := inv_alarm env INV_TOTAL]\<rparr>)"
    and "length (PCSProtect s) = 2 \<Longrightarrow>
      pack_protect_check env s
        = push_all (for_board (group_edges env HISTORY_PACK_PROTECT_START_INDEX
              (PCSProtect s) [all_pack_alarm1 env, all_pack_alarm2 env]))
            (s\<lparr>PCSProtect := [all_pack_alarm1 env, all_pack_alarm2 env]\<rparr>)"
  subgoal
    using faults.check_group [OF mem q, of "inv_fault env INV_TOTAL"]
    by (simp add: inv_fault_check_def faults.check_one_def [abs_def])
  subgoal
    using alarms.check_group [OF mem q, of "inv_alarm env INV_TOTAL"]
    by (simp add: inv_alarm_check_def alarms.check_one_def [abs_def])
  subgoal
    using protects.check_group [OF mem q, of "[all_pack_alarm1 env, all_pack_alarm2 env]"
        HISTORY_PACK_PROTECT_START_INDEX]
    by (simp add: pack_protect_check_def protects.check_one_def upt_rec)
  done

interpretation flt: history_log HISTORY_LOG_RECORD_MAX_NUM SIZEOF_LOG_FAULT
  "\<lambda>since r. sint since < rtc_time_to_time_t off (LogTime (fault_of_bytes r))" for off
  by unfold_locales (simp_all add: HISTORY_LOG_RECORD_MAX_NUM_def SIZEOF_LOG_FAULT_def)

lemma length_fault_bytes [simp]: "length (fault_bytes f) = unat SIZEOF_LOG_FAULT"
  by (simp add: fault_bytes_def SIZEOF_LOG_FAULT_def le16_def Let_def)

lemma fault_of_bytes_fault_bytes [simp]: "fault_of_bytes (fault_bytes f) = f"
  by (cases f; cases "LogTime f") (simp add: fault_of_bytes_def fault_bytes_def Let_def get16_def le16_def)

lemma alarms_push:
  "(push_all es s)\<lparr>PCSAlarm := x\<rparr> = push_all es (s\<lparr>PCSAlarm := x\<rparr>)"
  by (simp add: push_all_def)

definition fault_records :: "fault_log \<Rightarrow> u8 list list" where
  "fault_records s =
     ring_records HISTORY_LOG_RECORD_MAX_NUM
       (ring_slots (unat SIZEOF_LOG_FAULT) (log_ring 0 s)) (log_ring 0 s)"

lemma fault_records_flt:
  assumes "ring_ok HISTORY_LOG_RECORD_MAX_NUM (unat SIZEOF_LOG_FAULT) (log_ring 0 s)"
  shows "flt.records off (log_ring 0 s) = fault_records s"
  using assms ring_slots_eq flt.view_records by (fastforce simp: ring_ok_def fault_records_def)

lemma push_all_simps [simp]:
  "PCSFault (push_all es s) = PCSFault s" "PCSAlarm (push_all es s) = PCSAlarm s"
  "PCSProtect (push_all es s) = PCSProtect s" "log_ring n (push_all es s) = log_ring n s"
  by (simp_all add: push_all_def log_ring_def)

lemma dev_log_check_eq:
  assumes inv: "fault_inv s" and env: "good_fault_env env"
  defines "q \<equiv> take LOG_QUEUE_LEN
      (lg_queue s @ for_board (reg_edges env board_seqs (memory s) (sampled env)))"
  shows "dev_log_check env s = snd (Logger_Pop True good_write
      (s\<lparr>PCSFault := (PCSFault s)[INV_TOTAL := inv_fault env INV_TOTAL],
         PCSAlarm := (PCSAlarm s)[INV_TOTAL := inv_alarm env INV_TOTAL],
         PCSProtect := [all_pack_alarm1 env, all_pack_alarm2 env], lg_queue := q\<rparr>))"
proof -
  have mem: "\<And>r. lg_mem env r" and io: "lg_locked env" "lg_io env = good_write"
    and len: "length (inv_fault env INV_TOTAL) = 6" "length (inv_alarm env INV_TOTAL) = 4"
      "length (PCSFault s) = 2" "length (PCSFault s ! INV_TOTAL) = 6"
      "length (PCSAlarm s) = 2" "length (PCSAlarm s ! INV_TOTAL) = 4" "length (PCSProtect s) = 2"
    and ql: "length (lg_queue s) \<le> LOG_QUEUE_LEN"
    using inv env by (auto simp: fault_inv_def good_fault_env_def)
  have one: "INV_TOTAL < 2" "\<not> 1 < INV_TOTAL" by (simp_all add: INV_TOTAL_def)
  let ?f = "group_edges env HISTORY_INV_FAULT_START_INDEX (PCSFault s ! INV_TOTAL)
      (inv_fault env INV_TOTAL)"
  let ?a = "group_edges env HISTORY_INV_WARN_START_INDEX (PCSAlarm s ! INV_TOTAL)
      (inv_alarm env INV_TOTAL)"
  let ?p = "group_edges env HISTORY_PACK_PROTECT_START_INDEX (PCSProtect s)
      [all_pack_alarm1 env, all_pack_alarm2 env]"
  have "?f @ ?a @ ?p = reg_edges env board_seqs (memory s) (sampled env)"
    using len by (simp add: group_edges_reg reg_edges_append memory_def sampled_def board_seqs_def)
  then have es: "for_board ?f @ for_board ?a @ for_board ?p
      = for_board (reg_edges env board_seqs (memory s) (sampled env))"
    by (simp flip: map_append)
  define s1 where "s1 = inv_fault_check env INV_TOTAL s"
  define s2 where "s2 = inv_alarm_check env INV_TOTAL s1"
  define s3 where "s3 = pack_protect_check env s2"
  have s1: "s1 = push_all (for_board ?f)
      (s\<lparr>PCSFault := (PCSFault s)[INV_TOTAL := inv_fault env INV_TOTAL]\<rparr>)"
    unfolding s1_def by (rule checks_eq(1) [OF mem ql]) (use len one in simp_all)
  then have s1f: "PCSAlarm s1 = PCSAlarm s" "PCSProtect s1 = PCSProtect s"
      "length (lg_queue s1) \<le> LOG_QUEUE_LEN" by simp_all
  have s2: "s2 = push_all (for_board ?a)
      (s1\<lparr>PCSAlarm := (PCSAlarm s1)[INV_TOTAL := inv_alarm env INV_TOTAL]\<rparr>)"
    using checks_eq(2) [OF mem s1f(3)] len one by (simp add: s2_def s1f)
  then have s2f: "PCSProtect s2 = PCSProtect s" "length (lg_queue s2) \<le> LOG_QUEUE_LEN"
    by (simp_all add: s1f)
  have s3: "s3 = push_all (for_board ?p)
      (s2\<lparr>PCSProtect := [all_pack_alarm1 env, all_pack_alarm2 env]\<rparr>)"
    using checks_eq(3) [OF mem s2f(2)] len by (simp add: s3_def s2f)
  have "s3 = push_all (for_board ?f @ for_board ?a @ for_board ?p)
      (s\<lparr>PCSFault := (PCSFault s)[INV_TOTAL := inv_fault env INV_TOTAL],
         PCSAlarm := (PCSAlarm s)[INV_TOTAL := inv_alarm env INV_TOTAL],
         PCSProtect := [all_pack_alarm1 env, all_pack_alarm2 env]\<rparr>)"
    unfolding s3 s2 s1
    by (simp add: protects.put_push alarms_push faults.get_push)
  then show ?thesis
    unfolding es using io one one(2) [unfolded not_less]
    by (simp add: dev_log_check_def push_all_def q_def flip: s1_def s2_def s3_def)
qed


lemma dev_log_check_step:
  assumes inv: "fault_inv s" and env: "good_fault_env env"
  defines "q \<equiv> take LOG_QUEUE_LEN
      (lg_queue s @ for_board (reg_edges env board_seqs (memory s) (sampled env)))"
    and "s' \<equiv> dev_log_check env s"
  shows "fault_inv s'" "lg_queue s' = tl q" "memory s' = sampled env"
    and "fault_records s' = last_records HISTORY_LOG_RECORD_MAX_NUM
           (fault_records s @ map (\<lambda>e. fault_bytes (fst e)) (take 1 q))"
proof -
  define s1 where "s1 = s\<lparr>PCSFault := (PCSFault s)[INV_TOTAL := inv_fault env INV_TOTAL],
         PCSAlarm := (PCSAlarm s)[INV_TOTAL := inv_alarm env INV_TOTAL],
         PCSProtect := [all_pack_alarm1 env, all_pack_alarm2 env], lg_queue := q\<rparr>"
  have s': "s' = snd (Logger_Pop True good_write s1)"
    using dev_log_check_eq [OF inv env] by (simp add: s'_def s1_def q_def)
  have one: "INV_TOTAL < 2" by (simp add: INV_TOTAL_def)
  have ring: "ring_ok HISTORY_LOG_RECORD_MAX_NUM (unat SIZEOF_LOG_FAULT) (log_ring 0 s)"
    using inv by (simp add: fault_inv_def)
  have lr: "log_ring 0 s1 = log_ring 0 s" by (simp add: log_ring_def s1_def)
  have q0: "length q \<le> LOG_QUEUE_LEN" "\<forall>e\<in>set q. snd e = 0"
    using inv by (auto simp: q_def fault_inv_def dest!: in_set_takeD simp del: take_append)
  let ?rs = "map (\<lambda>e. fault_bytes (fst e)) (take 1 q)"
  have pop: "s' = put_ring 0 (ring_store flt.m flt.l32 ?rs (log_ring 0 s)) (s1\<lparr>lg_queue := tl q\<rparr>)"
  proof (cases q)
    case Nil
    then show ?thesis
      by (simp add: s' Logger_Pop_def s1_def ring_store_def put_ring_def log_ring_def)
  next
    case (Cons e es)
    then have "snd e = 0" using q0 by simp
    then show ?thesis
      using Cons lr by (cases e)
        (simp add: s' Logger_Pop_def s1_def ring_store_def case_prod_beta Let_def)
  qed
  then have f: "lg_queue s' = tl q" "memory s' = sampled env"
      "log_ring 0 s' = ring_store flt.m flt.l32 ?rs (log_ring 0 s)"
      "PCSFault s' = PCSFault s1" "PCSAlarm s' = PCSAlarm s1" "PCSProtect s' = PCSProtect s1"
    using inv one
    by (simp_all add: put_ring_def memory_def sampled_def s1_def fault_inv_def log_ring_def)
  then show "lg_queue s' = tl q" "memory s' = sampled env" by simp_all
  have b: "\<forall>x\<in>set ?rs. length x = flt.n" by auto
  have ring': "ring_ok HISTORY_LOG_RECORD_MAX_NUM (unat SIZEOF_LOG_FAULT) (log_ring 0 s')"
    using flt.store_invar [OF ring b] f(3) by simp
  have tq: "\<forall>e\<in>set (tl q). snd e = 0" "length (tl q) \<le> LOG_QUEUE_LEN"
    using q0 by (cases q; simp)+
  show "fault_inv s'"
    using inv env one ring' f(1,4,5,6) tq by (simp add: fault_inv_def s1_def good_fault_env_def)
  show "fault_records s' = last_records HISTORY_LOG_RECORD_MAX_NUM (fault_records s @ ?rs)"
    using flt.store_records [OF ring b] fault_records_flt [OF ring] fault_records_flt [OF ring'] f(3)
    by simp
qed

section \<open>A run of checks\<close>

text \<open>The changes never come faster than the queue can hold them.\<close>

fun never_overflows :: "fault_env list \<Rightarrow> fault_log \<Rightarrow> bool" where
  "never_overflows [] s = True"
| "never_overflows (env # envs) s =
     (length (lg_queue s) + length (reg_edges env board_seqs (memory s) (sampled env)) \<le> LOG_QUEUE_LEN
      \<and> never_overflows envs (dev_log_check env s))"

lemma length_memory: "fault_inv s \<Longrightarrow> length (memory s) = length board_seqs"
  by (simp add: fault_inv_def memory_def board_seqs_distinct)

lemma length_sampled: "good_fault_env env \<Longrightarrow> length (sampled env) = length board_seqs"
  by (simp add: good_fault_env_def sampled_def board_seqs_distinct)

lemma fault_records_last:
  "fault_inv s \<Longrightarrow> last_records HISTORY_LOG_RECORD_MAX_NUM (fault_records s) = fault_records s"
  using flt.records_le fault_records_flt by (metis fault_inv_def last_records_all)

lemma fault_run:
  assumes "fault_inv s" "\<forall>env\<in>set envs. good_fault_env env" "never_overflows envs s"
    and "fold replay (map fst (lg_queue s)) base = board_regs board_seqs (memory s) r"
  shows "let t = fold dev_log_check envs s in
    fault_inv t \<and> (\<exists>written.
      fold replay (written @ map fst (lg_queue t)) base = board_regs board_seqs (memory t) r
      \<and> fault_records t
        = last_records HISTORY_LOG_RECORD_MAX_NUM (fault_records s @ map fault_bytes written))"
  using assms
proof (induction envs arbitrary: s base)
  case Nil
  then show ?case using fault_records_last by (auto intro!: exI [of _ "[]"])
next
  case (Cons env envs)
  define es where "es = reg_edges env board_seqs (memory s) (sampled env)"
  define q where "q = lg_queue s @ for_board es"
  define s' where "s' = dev_log_check env s"
  have env: "good_fault_env env" using Cons.prems by simp
  have "length q \<le> LOG_QUEUE_LEN" using Cons.prems(3) by (simp add: q_def es_def)
  then have tq: "take LOG_QUEUE_LEN (lg_queue s @ for_board es) = q" by (simp add: q_def)
  note st = dev_log_check_step [OF Cons.prems(1) env, folded es_def, unfolded tq, folded s'_def]
  have "fold replay (map fst q) base = board_regs board_seqs (sampled env) r"
    using Cons.prems(1,4) env replay_reg_edges [OF board_seqs_distinct(1), of "memory s" "sampled env" env r]
    by (simp add: q_def es_def length_memory length_sampled comp_def)
  moreover have "map fst q = map fst (take 1 q) @ map fst (lg_queue s')"
    using st(2) by (cases q) simp_all
  ultimately have rep: "fold replay (map fst (lg_queue s')) (fold replay (map fst (take 1 q)) base)
      = board_regs board_seqs (memory s') r"
    using st(3) by simp
  have "\<forall>env\<in>set envs. good_fault_env env" "never_overflows envs s'"
    using Cons.prems by (simp_all add: s'_def)
  from Cons.IH [OF st(1) this rep] obtain w where w:
    "fault_inv (fold dev_log_check envs s')"
    "fold replay (w @ map fst (lg_queue (fold dev_log_check envs s')))
       (fold replay (map fst (take 1 q)) base)
      = board_regs board_seqs (memory (fold dev_log_check envs s')) r"
    "fault_records (fold dev_log_check envs s')
      = last_records HISTORY_LOG_RECORD_MAX_NUM (fault_records s' @ map fault_bytes w)"
    by (auto simp: Let_def)
  then show ?case
    using st(4)
    by (auto simp: Let_def last_records_append_left comp_def s'_def [symmetric]
        intro!: exI [of _ "map fst (take 1 q) @ w"])
qed

lemma fault_run_memory:
  "fault_inv s \<Longrightarrow> \<forall>env\<in>set envs. good_fault_env env \<Longrightarrow>
     memory (fold dev_log_check envs s) = last (memory s # map sampled envs)"
proof (induction envs arbitrary: s)
  case (Cons env envs)
  then show ?case using dev_log_check_step(1,3) [of s env] by simp
qed simp

text \<open>The same said of the registers alone: what waits, plus the bits that changed since the sample
  before, never exceeds the queue; one record leaves it at every check.\<close>

definition changed_bits :: "u16 list \<Rightarrow> u16 list \<Rightarrow> nat" where
  "changed_bits olds nows =
     sum_list (map2 (\<lambda>old now. length (filter (\<lambda>i. bit old i \<noteq> bit now i) [0..<16])) olds nows)"

fun queue_keeps_up :: "nat \<Rightarrow> u16 list \<Rightarrow> u16 list list \<Rightarrow> bool" where
  "queue_keeps_up n old [] = True"
| "queue_keeps_up n old (now # nows) =
     (n + changed_bits old now \<le> LOG_QUEUE_LEN \<and> queue_keeps_up (n + changed_bits old now - 1) now nows)"

lemma length_edges: "length (edges env seq old now) = length (filter (\<lambda>i. bit old i \<noteq> bit now i) [0..<16])"
proof -
  have "length (concat (map (\<lambda>i. if bit old i = bit now i then []
      else [edge env (if bit now i then 1 else 0) seq i]) is)) = length (filter (\<lambda>i. bit old i \<noteq> bit now i) is)" for "is"
    by (induction "is") simp_all
  then show ?thesis by (simp add: edges_def)
qed

lemma length_reg_edges:
  "length olds = length qs \<Longrightarrow> length nows = length qs \<Longrightarrow>
     length (reg_edges env qs olds nows) = changed_bits olds nows"
proof (induction qs arbitrary: olds nows)
  case (Cons q qs)
  then show ?case by (cases olds; cases nows) (simp_all add: reg_edges_def changed_bits_def length_edges)
qed (simp add: reg_edges_def changed_bits_def)

lemma keeps_up_never_overflows:
  "fault_inv s \<Longrightarrow> \<forall>env\<in>set envs. good_fault_env env \<Longrightarrow>
     queue_keeps_up (length (lg_queue s)) (memory s) (map sampled envs) \<Longrightarrow> never_overflows envs s"
proof (induction envs arbitrary: s)
  case (Cons env envs)
  have env: "good_fault_env env" using Cons.prems(2) by simp
  let ?es = "reg_edges env board_seqs (memory s) (sampled env)"
  have n: "length ?es = changed_bits (memory s) (sampled env)"
    using Cons.prems(1) env by (simp add: length_reg_edges length_memory length_sampled)
  have fits: "length (lg_queue s @ for_board ?es) \<le> LOG_QUEUE_LEN" using Cons.prems(3) by (simp add: n)
  note st = dev_log_check_step [OF Cons.prems(1) env]
  have "length (lg_queue (dev_log_check env s)) = length (lg_queue s) + changed_bits (memory s) (sampled env) - 1"
    unfolding st(2) take_all [OF fits] by (simp add: n)
  then have "never_overflows envs (dev_log_check env s)"
    using Cons.IH [OF st(1)] Cons.prems(2,3) st(3) by simp
  then show ?case using fits by simp
qed simp

text \<open>
  C9: The fault log is a journal of the fault, alarm and protection registers.  Start from power-on
  (nothing queued, no fault remembered, any earlier records in the file), let every allocation, lock
  and file operation of the checks succeed, and let the bits that change never be more than the
  queue of 32 has room for, one record being written at each check: then replaying the records
  written and those still queued, in order, on cleared registers gives the registers as last sampled,
  and a reader that asks for everything gets the newest 100 of the earlier records and those written.
\<close>

theorem fault_log_replays_registers:
  assumes "fault_inv s" "lg_queue s = []" "memory s = replicate 12 0"
    and "\<forall>env\<in>set envs. good_fault_env env" "queue_keeps_up 0 (replicate 12 0) (map sampled envs)"
  shows "let t = fold dev_log_check envs s in \<exists>written.
      fold replay (written @ map fst (lg_queue t)) (\<lambda>_. 0)
        = board_regs board_seqs (last (replicate 12 0 # map sampled envs)) (\<lambda>_. 0)
      \<and> (let recs = last_records HISTORY_LOG_RECORD_MAX_NUM
                       (fault_records s @ map fault_bytes written)
         in Inv_Log_Read_Incremental off True True (\<lambda>_. good_read) 0 t
              = (0, if recs = [] then None else Some (concat recs)))"
proof -
  let ?t = "fold dev_log_check envs s"
  have zero: "board_regs qs (replicate n 0) (\<lambda>_. 0) = (\<lambda>_. 0)" for qs and n
    by (induction qs arbitrary: n; rename_tac n, case_tac n)
      (simp_all add: fun_upd_idem del: fun_upd_apply)
  have "fold replay (map fst (lg_queue s)) (\<lambda>_. 0) = board_regs board_seqs (memory s) (\<lambda>_. 0)"
    by (simp add: assms(2,3) zero)
  moreover have "never_overflows envs s"
    using keeps_up_never_overflows [OF assms(1,4)] assms(2,3,5) by simp
  ultimately obtain w where w: "fault_inv ?t"
    "fold replay (w @ map fst (lg_queue ?t)) (\<lambda>_. 0) = board_regs board_seqs (memory ?t) (\<lambda>_. 0)"
    "fault_records ?t = last_records HISTORY_LOG_RECORD_MAX_NUM (fault_records s @ map fault_bytes w)"
    using fault_run [OF assms(1,4)] unfolding Let_def by blast
  have m: "memory ?t = last (replicate 12 0 # map sampled envs)"
    using fault_run_memory [OF assms(1,4)] assms(3) by simp
  have ok: "ring_ok HISTORY_LOG_RECORD_MAX_NUM flt.n (log_ring 0 ?t)"
    using w(1) by (simp add: fault_inv_def)
  have "Inv_Log_Read_Incremental off True True (\<lambda>_. good_read) 0 ?t
      = (0, if fault_records ?t = [] then None else Some (concat (fault_records ?t)))"
    using flt.read_everything [OF ok, of off] fault_records_flt [OF ok, of off]
    by (simp add: Inv_Log_Read_Incremental_def fault_view_def log_ring_def)
  note this [unfolded w(3)] w(2) [unfolded m]
  then show ?thesis unfolding Let_def by blast
qed

definition sample_fault_env :: "u16 \<Rightarrow> fault_env" where
  "sample_fault_env w =
     \<lparr>lg_rtc_time = \<lparr>mon = 6, year = 24, hour = 12, day = 1, sec = 0, min_of = 30\<rparr>,
      inv_fault = (\<lambda>_. [w, 0, 0, 0, 0, 0]), inv_alarm = (\<lambda>_. [0, 0, 0, 0]),
      all_pack_alarm1 = 0, all_pack_alarm2 = 0, lg_mem = (\<lambda>_. True), lg_locked = True,
      lg_io = good_write\<rparr>"

definition sample_fault_log :: fault_log where
  "sample_fault_log =
     \<lparr>lg_queue = [], lg_files = (\<lambda>_. None), historyAddrIndex = 0, historyRecSaveCount = 0,
      history_dirty = False, PCSFault = replicate 2 (replicate 6 0),
      PCSAlarm = replicate 2 (replicate 4 0), PCSProtect = [0, 0]\<rparr>"

lemma sample_fault_inv:
  "fault_inv sample_fault_log" "memory sample_fault_log = replicate 12 0"
  "fault_records sample_fault_log = []"
proof -
  have "ring_rep HISTORY_LOG_RECORD_MAX_NUM (unat SIZEOF_LOG_FAULT) [] (log_ring 0 sample_fault_log)"
    by (simp add: ring_rep_def log_ring_def sample_fault_log_def HISTORY_LOG_RECORD_MAX_NUM_def)
  then show "fault_inv sample_fault_log" "fault_records sample_fault_log = []"
    using ring_slots_eq
    by (auto simp: fault_inv_def ring_ok_def fault_records_def ring_records_def INV_TOTAL_def)
       (simp_all add: sample_fault_log_def numeral_2_eq_2)
  show "memory sample_fault_log = replicate 12 0"
    by (simp add: memory_def sample_fault_log_def INV_TOTAL_def numeral_eq_Suc)
qed

text \<open>Two bits of a fault register rise, then one of them falls and another rises.\<close>

lemma fault_log_replays_registers_witness:
  "\<exists>written.
     fold replay (written @ map fst (lg_queue (dev_log_check (sample_fault_env 6)
       (dev_log_check (sample_fault_env 5) sample_fault_log)))) (\<lambda>_. 0)
       = board_regs board_seqs (sampled (sample_fault_env 6)) (\<lambda>_. 0)"
proof -
  let ?envs = "[sample_fault_env 5, sample_fault_env 6]"
  have g: "\<forall>env\<in>set ?envs. good_fault_env env"
    by (simp add: good_fault_env_def sample_fault_env_def)
  have q: "lg_queue sample_fault_log = []" by (simp add: sample_fault_log_def)
  have "queue_keeps_up 0 (replicate 12 0) (map sampled ?envs)"
    by (simp add: changed_bits_def sampled_def sample_fault_env_def upt_rec numeral_eq_Suc
        LOG_QUEUE_LEN_def INV_TOTAL_def)
  from fault_log_replays_registers [OF sample_fault_inv(1) q sample_fault_inv(2) g this, of 0]
  show ?thesis unfolding Let_def by auto
qed

text \<open>
  A burst of changes loses records for good: the registers are remembered whether or not their
  records fitted, so what does not fit into the queue of 32 at one check is never recorded by a later
  check of the same registers; two checks after the burst exactly the first 32 records, less the two
  written, are left.
\<close>

theorem fault_burst_lost:
  assumes "fault_inv s" "good_fault_env e1" "good_fault_env e2" "sampled e2 = sampled e1"
  shows "let s2 = dev_log_check e2 (dev_log_check e1 s);
             changes = reg_edges e1 board_seqs (memory s) (sampled e1)
         in memory s2 = sampled e1
            \<and> lg_queue s2 = drop 2 (take LOG_QUEUE_LEN (lg_queue s @ map (\<lambda>r. (r, 0)) changes))"
proof -
  note st1 = dev_log_check_step [OF assms(1,2)]
  note st2 = dev_log_check_step [OF st1(1) assms(3)]
  have none: "reg_edges e2 qs vs vs = []" for qs vs
    by (induction qs arbitrary: vs; rename_tac vs, case_tac vs) (simp_all add: reg_edges_def)
  have "lg_queue (dev_log_check e2 (dev_log_check e1 s))
      = tl (take LOG_QUEUE_LEN (lg_queue (dev_log_check e1 s)))"
    using st2(2) by (simp add: st1(3) assms(4) none del: take_append)
  also have "take LOG_QUEUE_LEN (lg_queue (dev_log_check e1 s)) = lg_queue (dev_log_check e1 s)"
    using st1(1) by (simp add: fault_inv_def)
  also have "tl \<dots> = drop 2 (take LOG_QUEUE_LEN
      (lg_queue s @ for_board (reg_edges e1 board_seqs (memory s) (sampled e1))))"
    by (simp add: st1(2) numeral_2_eq_2 drop_Suc del: take_append)
  finally show ?thesis unfolding Let_def using st2(3) assms(4) by (simp del: take_append)
qed

lemma fault_burst_lost_witness:
  "let s2 = dev_log_check (sample_fault_env 5) (dev_log_check (sample_fault_env 5) sample_fault_log)
   in memory s2 = sampled (sample_fault_env 5)"
proof -
  have g: "good_fault_env (sample_fault_env 5)"
    by (simp add: good_fault_env_def sample_fault_env_def)
  from fault_burst_lost [OF sample_fault_inv(1) g g refl] show ?thesis
    unfolding Let_def by blast
qed

section \<open>Times in the log\<close>

text \<open>A record made at time \<open>t\<close> while the board was in zone \<open>off1\<close>, read back in zone \<open>off2\<close>.\<close>

lemma record_time_back:
  assumes "rtc_years (localtime off1 t)"
  shows "rtc_time_to_time_t off2 (tm_to_rtc_time (localtime off1 t)) = t + off1 - off2"
proof -
  let ?x = "localtime off1 t" and ?r = "tm_to_rtc_time (localtime off1 t)"
  have ok: "tm_ok ?x" by (rule tm_ok_localtime)
  have sh: "shows_date ?r ?x" by (rule shows_date_copy [OF ok assms])
  have "tm_mday ?x \<le> 31"
    using ok month_days_pos(2) [of "tm_year ?x + 1900" "nat (tm_mon ?x)"] by (simp add: tm_ok_def)
  then have v: "\<not> (mon ?r < 1 \<or> 12 < mon ?r)" "\<not> (day ?r < 1 \<or> 31 < day ?r)" "\<not> 23 < hour ?r"
      "\<not> 59 < min_of ?r" "\<not> 60 < sec ?r"
    using sh ok by (simp_all add: word_less_def shows_date_def tm_ok_def)
  have "fst (mktime off1 ?x) = t" by (simp add: mktime_localtime)
  moreover have "fst (mktime off2 y) = fst (mktime off1 ?x) + off1 - off2"
    if "y = \<lparr>tm_sec = tm_sec ?x, tm_min = tm_min ?x, tm_hour = tm_hour ?x, tm_mday = tm_mday ?x,
          tm_mon = tm_mon ?x, tm_year = tm_year ?x, tm_wday = 0\<rparr>" for y
    using that tm_day_date [of y ?x] by (simp add: fst_mktime)
  ultimately show ?thesis
    using v sh by (simp add: rtc_time_to_time_t_def shows_date_def)
qed

lemma filter_map_zip:
  assumes "length ts = length rs" "\<And>i. i < length rs \<Longrightarrow> P (f (rs ! i)) \<longleftrightarrow> Q (ts ! i)"
  shows "filter P (map f rs) = map f (map fst (filter (\<lambda>(r, t). Q t) (zip rs ts)))"
  using assms
proof (induction rs arbitrary: ts)
  case (Cons r rs)
  then obtain t ts' where ts: "ts = t # ts'" by (cases ts) auto
  have "P (f (rs ! i)) \<longleftrightarrow> Q (ts' ! i)" if "i < length rs" for i
    using Cons.prems(2) [of "Suc i"] that by (simp add: ts)
  then show ?case using Cons.IH [of ts'] Cons.prems(1) Cons.prems(2) [of 0] by (simp add: ts)
qed simp

text \<open>
  Reading the fault log back: records made at the times \<open>ts\<close> in a zone \<open>off1\<close> seconds ahead of UTC
  are read as if made at \<open>t + off1 - off2\<close>, where \<open>off2\<close> is the zone at the time of reading.  In the
  same zone an incremental read returns exactly the records made after the given time; after a move
  to the east it leaves out records that were made after it, after a move to the west it repeats old
  ones.
\<close>

theorem fault_read_across_zones:
  assumes "fault_inv s" "fault_records s = map fault_bytes rs" "length ts = length rs" "sorted ts"
    and "\<forall>i<length rs. rtc_years (localtime off1 (ts ! i))
           \<and> LogTime (rs ! i) = tm_to_rtc_time (localtime off1 (ts ! i))"
    and "since \<noteq> 0"
  shows "Inv_Log_Read_Incremental off2 True True (\<lambda>_. good_read) since s
    = (0, let new = map fst (filter (\<lambda>(r, t). sint since < t + off1 - off2) (zip rs ts))
          in if new = [] then None else Some (concat (map fault_bytes new)))"
proof -
  let ?nw = "\<lambda>since r. sint since < rtc_time_to_time_t off2 (LogTime (fault_of_bytes r))"
  have ok: "ring_ok HISTORY_LOG_RECORD_MAX_NUM flt.n (log_ring 0 s)"
    using assms(1) by (simp add: fault_inv_def)
  have recs: "flt.records off2 (log_ring 0 s) = map fault_bytes rs"
    using fault_records_flt [OF ok] assms(2) by simp
  have time: "?nw since (fault_bytes (rs ! i)) \<longleftrightarrow> sint since < ts ! i + off1 - off2"
    if "i < length rs" for i
    using that assms(5) record_time_back by simp
  have "time_ordered (?nw since) (map fault_bytes rs)"
    unfolding time_ordered_def
  proof (intro allI impI)
    fix i j assume ij: "i \<le> j \<and> j < length (map fault_bytes rs) \<and> ?nw since (map fault_bytes rs ! i)"
    then have il: "i < length rs" by simp
    from ij have "ts ! i \<le> ts ! j" using assms(3,4) by (auto intro: sorted_nth_mono)
    then show "?nw since (map fault_bytes rs ! j)" using ij il time [of i] time [of j] by simp
  qed
  then have "Inv_Log_Read_Incremental off2 True True (\<lambda>_. good_read) since s
      = (0, let l = filter (?nw since) (map fault_bytes rs) in if l = [] then None else Some (concat l))"
    using flt.read_since [OF ok, of since off2] recs assms(6)
    by (simp add: Inv_Log_Read_Incremental_def fault_view_def log_ring_def)
  also have "filter (?nw since) (map fault_bytes rs)
      = map fault_bytes (map fst (filter (\<lambda>(r, t). sint since < t + off1 - off2) (zip rs ts)))"
    by (rule filter_map_zip [OF assms(3)]) (use time in simp)
  finally show ?thesis by (simp add: Let_def)
qed

definition sample_fault_record :: log_fault where
  "sample_fault_record =
     \<lparr>LogTime = tm_to_rtc_time (localtime 0 1717245000), FaultSeq = 1, FaultState = 1,
      LogFaultCode = 4\<rparr>"

definition sample_full_log :: fault_log where
  "sample_full_log = sample_fault_log\<lparr>lg_files := (\<lambda>_. Some (fault_bytes sample_fault_record)),
     historyAddrIndex := 1, historyRecSaveCount := 1\<rparr>"

lemma fault_read_across_zones_witness:
  "Inv_Log_Read_Incremental 0 True True (\<lambda>_. good_read) 1717244000 sample_full_log
     = (0, Some (fault_bytes sample_fault_record))
   \<and> Inv_Log_Read_Incremental 3600 True True (\<lambda>_. good_read) 1717244000 sample_full_log = (0, None)"
proof -
  have rep: "ring_rep HISTORY_LOG_RECORD_MAX_NUM (unat SIZEOF_LOG_FAULT)
      [fault_bytes sample_fault_record] (log_ring 0 sample_full_log)"
    by (simp add: ring_rep_def log_ring_def sample_full_log_def HISTORY_LOG_RECORD_MAX_NUM_def)
  have inv: "fault_inv sample_full_log"
    using rep sample_fault_inv(1) by (auto simp: fault_inv_def ring_ok_def sample_full_log_def)
  have recs: "fault_records sample_full_log = map fault_bytes [sample_fault_record]"
    using ring_slots_eq [OF rep]
    by (simp add: fault_records_def ring_records_def HISTORY_LOG_RECORD_MAX_NUM_def)
  have t: "\<forall>i<length [sample_fault_record]. rtc_years (localtime 0 ([1717245000] ! i)) \<and>
      LogTime ([sample_fault_record] ! i) = tm_to_rtc_time (localtime 0 ([1717245000] ! i))"
    by (simp add: sample_fault_record_def) (code_simp)
  have s: "sint (1717244000 :: u64) = 1717244000" by simp
  show ?thesis
    using fault_read_across_zones [OF inv recs _ _ t, of 1717244000 0]
      fault_read_across_zones [OF inv recs _ _ t, of 1717244000 3600]
    by (simp add: s)
qed

end
