(* ===== verification/Log_Upload.thy ===== *)
theory Log_Upload
  imports Udt_Exp Mqtt_Log Event_Log Fault_Log
begin

text \<open>
  The logs behind the data channel: the file identifiers by which \<open>udt/udt_exp_iot.c\<close> finds the log
  modules, and the board whose \<open>log_env\<close> is made of the modelled logs.  The seven-day energy file and
  the black box are not modelled and stay those of a given environment.

  The lemmas show that a log is found under the identifier it announces and under no other log's, and
  compose the logs with the packets of \<open>Udt_Exp\<close>: a content query is answered by exactly the header
  and the newer records.
\<close>

section \<open>File identifiers\<close>

definition text_bytes :: "string \<Rightarrow> u8 list" where
  "text_bytes s = map (\<lambda>c. word_of_nat (of_char c)) s"

text \<open>A C string in a buffer: the bytes before the first zero.\<close>

definition c_str :: "u8 list \<Rightarrow> u8 list" where "c_str bs = takeWhile (\<lambda>b. b \<noteq> 0) bs"

definition FS_BASE_PATH :: string where "FS_BASE_PATH = ''/littlefs''"
definition LOG_RECORD_FOLDER_LEVEL1 :: string where "LOG_RECORD_FOLDER_LEVEL1 = ''L/''"

definition log_path :: "u8 list \<Rightarrow> u8 list" where
  "log_path filename = text_bytes (FS_BASE_PATH @ ''/'' @ LOG_RECORD_FOLDER_LEVEL1) @ filename"

text \<open>The file names the path macros print; \<open>None\<close> for the two modules left out.\<close>

definition log_name :: "log_kind \<Rightarrow> string option" where
  "log_name k =
     (case k of
        Inv_Log \<Rightarrow> Some ''inv0_00''
      | IoT_Event_Log \<Rightarrow> Some ''iot01_c04''
      | Reg_Change_Log \<Rightarrow> Some ''iot01_c02''
      | Dev_Access_Log \<Rightarrow> Some ''iot01_c01''
      | Mqtt_Log \<Rightarrow> Some ''iot01_c06''
      | Energy_File_Unit_Data \<Rightarrow> None
      | Box_Log \<Rightarrow> None)"

text \<open>The five \<open>Is_..._Log_File\<close> and the five \<open>Get_..._Log_File_Id\<close> differ in the path alone.\<close>

definition Is_Log_File :: "u8 list \<Rightarrow> u8 list \<Rightarrow> int" where
  "Is_Log_File local_log_path nm =
     (case nm of
        [] \<Rightarrow> - 1
      | filedir # filename \<Rightarrow>
          if hd (text_bytes LOG_RECORD_FOLDER_LEVEL1) \<noteq> filedir then - 1
          else
            let request_path = take 39 (log_path (c_str filename))
            in if request_path = local_log_path then 0 else - 1)"

definition last_component :: "u8 list \<Rightarrow> u8 list" where
  "last_component path = rev (takeWhile (\<lambda>b. b \<noteq> 0x2F) (rev path))"

definition Get_Log_File_Id :: "u8 list \<Rightarrow> u8 list \<Rightarrow> int \<times> u8 list" where
  "Get_Log_File_Id local_log_path out_buf =
     (if length out_buf < 2 then (- 1, out_buf)
      else
        let filename = last_component local_log_path; fnlen = length filename
        in if fnlen + 1 > length out_buf then (- 1, out_buf)
           else (0, hd (text_bytes LOG_RECORD_FOLDER_LEVEL1) # filename @ drop (fnlen + 1) out_buf))"

section \<open>The board's logs\<close>

record board_logs =
  bl_fault :: fault_log
  bl_event :: event_log
  bl_reg :: reg_log
  bl_dev :: dev_log
  bl_mqtt :: mqtt_log

text \<open>How the media behave while a query is answered: is the semaphore of a module to be had, does
  the buffer fit into memory, what do reads of its file do; and the zone in effect.\<close>

record log_media =
  lm_locked :: "log_kind \<Rightarrow> bool"
  lm_calloc :: bool
  lm_read :: "log_kind \<Rightarrow> nat \<Rightarrow> read_io"
  lm_zone :: int

definition module_read :: "log_media \<Rightarrow> board_logs \<Rightarrow> log_kind \<Rightarrow> u64 \<Rightarrow> (int \<times> u8 list option) option" where
  "module_read m L k since =
     (case k of
        Inv_Log \<Rightarrow> Some (Inv_Log_Read_Incremental (lm_zone m) (lm_locked m k) (lm_calloc m) (lm_read m k)
                           since (bl_fault L))
      | IoT_Event_Log \<Rightarrow> Some (IoT_Event_Log_Read_Incremental (lm_locked m k) (lm_calloc m) (lm_read m k)
                           since (bl_event L))
      | Reg_Change_Log \<Rightarrow> Some (Reg_Change_Log_Read_Incremental (lm_locked m k) (lm_calloc m)
                           (lm_read m k) since (bl_reg L))
      | Dev_Access_Log \<Rightarrow> Some (Dev_Access_Log_Read_Incremental (lm_locked m k) (lm_calloc m)
                           (lm_read m k) since (bl_dev L))
      | Mqtt_Log \<Rightarrow> Some (Mqtt_Log_Read_Incremental (lm_locked m k) (lm_calloc m) (lm_read m k)
                           since (bl_mqtt L))
      | Energy_File_Unit_Data \<Rightarrow> None
      | Box_Log \<Rightarrow> None)"

definition module_count :: "log_media \<Rightarrow> board_logs \<Rightarrow> log_kind \<Rightarrow> u64 \<Rightarrow> int option" where
  "module_count m L k since =
     (case k of
        Inv_Log \<Rightarrow> Some (Is_Inv_Log_Count_New (lm_zone m) (lm_locked m k) (lm_read m k) since (bl_fault L))
      | IoT_Event_Log \<Rightarrow> Some (Is_IoT_Event_Log_Count_New (lm_locked m k) (lm_read m k) since (bl_event L))
      | Reg_Change_Log \<Rightarrow> Some (Is_Reg_Change_Log_Count_New (lm_locked m k) (lm_read m k) since (bl_reg L))
      | Dev_Access_Log \<Rightarrow> Some (Is_Dev_Access_Log_Count_New (lm_locked m k) (lm_read m k) since (bl_dev L))
      | Mqtt_Log \<Rightarrow> Some (Is_Mqtt_Log_Count_New (lm_locked m k) (lm_read m k) since (bl_mqtt L))
      | Energy_File_Unit_Data \<Rightarrow> None
      | Box_Log \<Rightarrow> None)"

text \<open>The environment of the data channel: a failed read hands out \<open>NULL\<close>, the count is cut to 16
  bits, the identifier is written into ten zero bytes.\<close>

definition board_env :: "log_media \<Rightarrow> board_logs \<Rightarrow> log_env \<Rightarrow> log_env" where
  "board_env m L base = base\<lparr>
     is_log_file := (\<lambda>k nm. case log_name k of
         Some n \<Rightarrow> Is_Log_File (log_path (text_bytes n)) nm = 0
       | None \<Rightarrow> is_log_file base k nm),
     read_incremental := (\<lambda>k since. case module_read m L k since of
         Some (ret, data) \<Rightarrow> if ret \<noteq> 0 then None else data
       | None \<Rightarrow> read_incremental base k since),
     log_file_id := (\<lambda>k. case log_name k of
         Some n \<Rightarrow>
           let (ret, nm) = Get_Log_File_Id (log_path (text_bytes n)) (replicate 10 0)
           in if ret = 0 then Some nm else None
       | None \<Rightarrow> log_file_id base k),
     log_count_new := (\<lambda>k since. case module_count m L k since of
         Some cnt \<Rightarrow> word_of_int cnt
       | None \<Rightarrow> log_count_new base k since)\<rparr>"

section \<open>A log is found under the name it announces\<close>

definition own_logs :: "log_kind set" where
  "own_logs = {Inv_Log, IoT_Event_Log, Reg_Change_Log, Dev_Access_Log, Mqtt_Log}"

definition file_id :: "log_kind \<Rightarrow> u8 list" where
  "file_id k = text_bytes (CHR ''L'' # (case log_name k of Some n \<Rightarrow> n | None \<Rightarrow> []))"

definition padded :: "nat \<Rightarrow> u8 list \<Rightarrow> u8 list" where
  "padded n bs = bs @ replicate (n - length bs) 0"

lemma own_logs_iff: "k \<in> own_logs \<longleftrightarrow> log_name k \<noteq> None"
  by (cases k) (simp_all add: own_logs_def log_name_def)

lemma ids_all:
  "list_all (\<lambda>k. case log_name k of
       None \<Rightarrow> True
     | Some n \<Rightarrow> Get_Log_File_Id (log_path (text_bytes n)) (replicate 10 0) = (0, padded 10 (file_id k)))
   log_kinds"
  by code_simp

lemma files_all:
  "list_all (\<lambda>k. case log_name k of
       None \<Rightarrow> True
     | Some n \<Rightarrow> list_all (\<lambda>j. (Is_Log_File (log_path (text_bytes n)) (padded 11 (file_id j)) = 0) = (j = k))
         [Inv_Log, IoT_Event_Log, Reg_Change_Log, Dev_Access_Log, Mqtt_Log])
   log_kinds"
  by code_simp

lemma log_kinds_all: "k \<in> set log_kinds"
  by (cases k) (simp_all add: log_kinds_def)

lemma log_file_id_board:
  assumes "k \<in> own_logs"
  shows "log_file_id (board_env m L base) k = Some (padded 10 (file_id k))"
  using assms ids_all log_kinds_all [of k]
  by (auto simp: board_env_def own_logs_iff list_all_iff)

lemma is_log_file_board:
  assumes "k \<in> own_logs" "j \<in> own_logs"
  shows "is_log_file (board_env m L base) k (padded 11 (file_id j)) \<longleftrightarrow> j = k"
proof -
  have "j \<in> set [Inv_Log, IoT_Event_Log, Reg_Change_Log, Dev_Access_Log, Mqtt_Log]"
    using assms(2) by (auto simp: own_logs_def)
  then show ?thesis
    using assms(1) files_all log_kinds_all [of k]
    by (auto simp: board_env_def own_logs_iff list_all_iff)
qed

lemma find_own:
  assumes "k \<in> own_logs" "\<And>j. P j \<longleftrightarrow> j = k"
  shows "List.find P log_kinds = Some k"
  using assms by (auto simp: own_logs_def log_kinds_def)

lemma get_data_board:
  assumes k: "k \<in> own_logs" and other: "\<And>j. j \<notin> own_logs \<Longrightarrow> \<not> is_log_file base j (padded 11 (file_id k))"
    and rd: "module_read m L k since = Some (ret, data)"
  shows "get_data_from_storage (board_env m L base) (padded 11 (file_id k)) offset since
    = (if ret \<noteq> 0 then None else data)"
proof -
  have "is_log_file (board_env m L base) j (padded 11 (file_id k)) \<longleftrightarrow> j = k" for j
  proof (cases "j \<in> own_logs")
    case True
    then show ?thesis using is_log_file_board [OF True k] by auto
  next
    case False
    then have "log_name j = None" by (simp add: own_logs_iff)
    then show ?thesis using other [OF False] False k by (auto simp: board_env_def)
  qed
  from find_own [OF k this]
  have "get_data_from_storage (board_env m L base) (padded 11 (file_id k)) offset since
      = read_incremental (board_env m L base) k since"
    by (simp add: get_data_from_storage_def)
  then show ?thesis by (simp add: board_env_def rd)
qed

section \<open>The five logs as one readable log\<close>

definition board_view :: "int \<Rightarrow> board_logs \<Rightarrow> log_kind \<Rightarrow> log_view" where
  "board_view off L k =
     (case k of
        Inv_Log \<Rightarrow> fault_view off (bl_fault L)
      | Reg_Change_Log \<Rightarrow> reg_view (bl_reg L)
      | Dev_Access_Log \<Rightarrow> dev_view (bl_dev L)
      | Mqtt_Log \<Rightarrow> mqtt_view (bl_mqtt L)
      | _ \<Rightarrow> event_view (bl_event L))"

definition board_file :: "board_logs \<Rightarrow> log_kind \<Rightarrow> flash_file" where
  "board_file L k =
     (case k of
        Inv_Log \<Rightarrow> lg_files (bl_fault L) 0
      | Reg_Change_Log \<Rightarrow> jfile (reg_journal (bl_reg L))
      | Dev_Access_Log \<Rightarrow> jfile (dev_journal (bl_dev L))
      | Mqtt_Log \<Rightarrow> jfile (mq_journal (bl_mqtt L))
      | _ \<Rightarrow> hr_file (ev_ring (bl_event L)))"

definition board_slots :: "board_logs \<Rightarrow> log_kind \<Rightarrow> u8 list list" where
  "board_slots L k =
     (case k of
        Inv_Log \<Rightarrow> ring_slots (unat SIZEOF_LOG_FAULT) (log_ring 0 (bl_fault L))
      | Reg_Change_Log \<Rightarrow> journal_slots reg_layout (reg_journal (bl_reg L))
      | Dev_Access_Log \<Rightarrow> journal_slots dev_layout (dev_journal (bl_dev L))
      | Mqtt_Log \<Rightarrow> journal_slots mqtt_layout (mq_journal (bl_mqtt L))
      | _ \<Rightarrow> ring_slots (unat IOT_EVENT_FUNC_04_TYPE_LEN) (ev_ring (bl_event L)))"

text \<open>The file header that precedes the records of an answer; the two rings have none.\<close>

definition board_header :: "board_logs \<Rightarrow> log_kind \<Rightarrow> u8 list" where
  "board_header L k =
     (case k of
        Reg_Change_Log \<Rightarrow> take 20 (file_bytes (jfile (reg_journal (bl_reg L))))
      | Dev_Access_Log \<Rightarrow> take 20 (file_bytes (jfile (dev_journal (bl_dev L))))
      | Mqtt_Log \<Rightarrow> take 64 (file_bytes (jfile (mq_journal (bl_mqtt L))))
      | _ \<Rightarrow> [])"

definition board_ok :: "board_logs \<Rightarrow> log_kind \<Rightarrow> bool" where
  "board_ok L k =
     (case k of
        Inv_Log \<Rightarrow> ring_ok HISTORY_LOG_RECORD_MAX_NUM (unat SIZEOF_LOG_FAULT) (log_ring 0 (bl_fault L))
      | IoT_Event_Log \<Rightarrow> ring_ok EVENT_LOG_RECORD_MAX_NUM (unat IOT_EVENT_FUNC_04_TYPE_LEN)
                           (ev_ring (bl_event L))
      | Reg_Change_Log \<Rightarrow> journal_ok reg_layout (reg_journal (bl_reg L))
      | Dev_Access_Log \<Rightarrow> journal_ok dev_layout (dev_journal (bl_dev L))
      | Mqtt_Log \<Rightarrow> journal_ok mqtt_layout (mq_journal (bl_mqtt L))
      | _ \<Rightarrow> False)"

lemmas board_defs = board_view_def board_file_def board_slots_def board_header_def board_ok_def
  reg_view_def dev_view_def mqtt_view_def fault_view_def event_view_def

lemma hr_file_log_ring [simp]: "hr_file (log_ring n s) = lg_files s n"
  by (simp add: log_ring_def)

interpretation upload: readable_log "\<lambda>(L, k). board_view off L k" "\<lambda>(L, k). board_file L k"
  "\<lambda>(L, k). board_slots L k" "\<lambda>(L, k). board_header L k" "\<lambda>(L, k). board_ok L k" for off
proof unfold_locales
  fix s :: "board_logs \<times> log_kind"
  obtain L k where s: "s = (L, k)" by fastforce
  assume ok: "case s of (L, k) \<Rightarrow> board_ok L k"
  then show "log_rep (case s of (L, k) \<Rightarrow> board_view off L k) (case s of (L, k) \<Rightarrow> board_file L k)
      (case s of (L, k) \<Rightarrow> board_slots L k)"
    using flt.rep [of "log_ring 0 (bl_fault L)" off] ev.rep [of "ev_ring (bl_event L)"]
      reg.rep [of "reg_journal (bl_reg L)"] dev.rep [of "dev_journal (bl_dev L)"]
      mqtt.rep [of "mq_journal (bl_mqtt L)"]
    by (cases k) (simp_all add: s board_defs)
next
  fix s :: "board_logs \<times> log_kind"
  obtain L k where s: "s = (L, k)" by fastforce
  assume ok: "case s of (L, k) \<Rightarrow> board_ok L k" "(case s of (L, k) \<Rightarrow> board_slots L k) \<noteq> []"
  then show "length (case s of (L, k) \<Rightarrow> board_header L k)
        = log_start (case s of (L, k) \<Rightarrow> board_view off L k) \<and>
      (\<exists>post. (case s of (L, k) \<Rightarrow> board_file L k)
        = Some ((case s of (L, k) \<Rightarrow> board_header L k) @ post))"
    using flt.header [of "log_ring 0 (bl_fault L)" off] ev.header [of "ev_ring (bl_event L)"]
      reg.header [of "reg_journal (bl_reg L)"] dev.header [of "dev_journal (bl_dev L)"]
      mqtt.header [of "mq_journal (bl_mqtt L)"]
    by (cases k) (simp_all add: s board_defs)
qed

definition good_media :: "log_media \<Rightarrow> bool" where
  "good_media m \<longleftrightarrow> (\<forall>k. lm_locked m k \<and> lm_read m k = (\<lambda>_. good_read)) \<and> lm_calloc m"

definition board_records :: "int \<Rightarrow> board_logs \<Rightarrow> log_kind \<Rightarrow> u8 list list" where
  "board_records off L k = log_records (board_view off L k) (board_slots L k)"

text \<open>The records an incremental read from \<open>since\<close> owes, everything when it is 0.\<close>

definition newer_records :: "int \<Rightarrow> board_logs \<Rightarrow> log_kind \<Rightarrow> u64 \<Rightarrow> u8 list list" where
  "newer_records off L k since =
     (if since = 0 then board_records off L k
      else filter (is_newer (board_view off L k) since) (board_records off L k))"

lemma log_start_board:
  "log_start (board_view off L k) = (case k of Reg_Change_Log \<Rightarrow> 20 | Dev_Access_Log \<Rightarrow> 20
     | Mqtt_Log \<Rightarrow> 64 | _ \<Rightarrow> 0)"
  by (cases k) (simp_all add: board_defs ring_view_def journal_view_def reg_layout_def dev_layout_def
      mqtt_layout_def)

lemma log_len_board: "log_len (board_view off L k) \<le> 64"
  by (cases k) (simp_all add: board_defs ring_view_def journal_view_def reg_layout_def dev_layout_def
      mqtt_layout_def SIZEOF_LOG_FAULT_def IOT_EVENT_FUNC_04_TYPE_LEN_def)

lemma module_read_good:
  assumes "good_media m" "board_ok L k"
  shows "module_read m L k since = Some (Log_Read_Incremental True True (\<lambda>_. good_read)
      (log_start (board_view (lm_zone m) L k)) (board_view (lm_zone m) L k) (board_file L k) since)"
  using assms unfolding log_start_board
  by (cases k) (simp_all add: module_read_def good_media_def board_defs
      Inv_Log_Read_Incremental_def IoT_Event_Log_Read_Incremental_def
      Reg_Change_Log_Read_Incremental_def Dev_Access_Log_Read_Incremental_def
      Mqtt_Log_Read_Incremental_def)

lemma module_read_newer:
  assumes "good_media m" "board_ok L k"
    and ord: "time_ordered (is_newer (board_view (lm_zone m) L k) since) (board_records (lm_zone m) L k)"
  shows "module_read m L k since
    = Some (0, let new = newer_records (lm_zone m) L k since
               in if new = [] then None else Some (board_header L k @ concat new))"
proof -
  note up = upload.read_all [of "(L, k)" "lm_zone m"] upload.read_all_empty [of "(L, k)" "lm_zone m"]
    upload.read_new [of "(L, k)" "lm_zone m" since] upload.read_none [of "(L, k)" "lm_zone m" since]
  show ?thesis
    using up assms(2) ord
    unfolding module_read_good [OF assms(1,2)] newer_records_def board_records_def Let_def
    by (cases "since = 0") auto
qed

lemma board_answer_short:
  assumes "board_ok L k"
  shows "udt_total (length (board_header L k @ concat (newer_records off L k since))) < 65536"
proof (cases "board_slots L k = []")
  case True
  then have "newer_records off L k since = []"
    by (simp add: newer_records_def board_records_def log_records_def)
  moreover have "length (board_header L k) \<le> 64"
    by (cases k) (simp_all add: board_header_def)
  ultimately show ?thesis by (simp add: udt_total_ceil)
next
  case False
  let ?v = "board_view off L k" and ?rs = "newer_records off L k since"
  have rep: "log_rep ?v (board_file L k) (board_slots L k)"
    using upload.rep [of "(L, k)" off] assms by simp
  have len: "\<forall>r\<in>set ?rs. length r = log_len ?v"
    using rep by (auto simp: newer_records_def board_records_def log_records_def log_rep_def)
  have n: "length ?rs \<le> length (board_slots L k)"
    by (simp add: newer_records_def board_records_def order_trans [OF length_filter_le])
  also have "\<dots> < 65536"
    using rep unsigned_less [of "current_records ?v", where 'a = nat] by (simp add: log_rep_def)
  finally have "length (concat ?rs) \<le> 65535 * 64"
    using length_concat_const [OF len] log_len_board [of off L k] mult_le_mono [of "length ?rs" 65535 "log_len ?v" 64]
    by simp
  moreover have "length (board_header L k) \<le> 64"
    by (cases k) (simp_all add: board_header_def)
  ultimately have "(length (board_header L k @ concat ?rs) + 1023) div 1024
      \<le> (64 + 65535 * 64 + 1023) div 1024"
    by (intro div_le_mono) simp
  then show ?thesis by (simp add: udt_total_ceil)
qed

section \<open>Properties\<close>

text \<open>
  C5: A content query for one of the five logs is answered with what the asker lacks.  Let the log be in
  good state on working media, its records in order of time as far as the asker's last read (\<open>t0\<close>, the
  time of the last acknowledged read; everything is new when there was none), its name claimed
  by no other module, and the transport take every frame.  The answer is the file header of the log (none for the two
  rings) and the records newer than \<open>t0\<close>; when the transfer before was interrupted after \<open>q\<close> acknowledged
  packets, its first \<open>q\<close> packets of 1024 bytes are left out (\<open>q\<close> is 0 otherwise).  The payloads of the frames
  sent, in order, are exactly these bytes, the frames are numbered from 1 to their total, and when nothing is newer no
  frame is sent and nothing changes.
\<close>

theorem log_query_answered:
  fixes u :: "'w udt" and ex :: udt_exp and m :: log_media and base :: log_env and k :: log_kind
  defines "nm \<equiv> padded 11 (file_id k)"
    and "ix \<equiv> Udt_Incremental_Find_Index (rec_take_ok base) (Some (padded 11 (file_id k))) (incr ex)"
  assumes k: "k \<in> own_logs" and ok: "board_ok L k" and media: "good_media m"
    and other: "\<And>j. j \<notin> own_logs \<Longrightarrow> \<not> is_log_file base j nm"
    and ord: "time_ordered (is_newer (board_view (lm_zone m) L k) t0) (board_records (lm_zone m) L k)"
    and prm: "ev_param evt = Qry_Cont s nm tread"
    and since: "incremental_since tread ix (incr ex) = Inr t0"
    and skip: "resume_skip tread ix (udt_total (length (board_header L k @ concat (newer_records (lm_zone m) L k t0)))) (incr ex) = Inr q"
    and tr: "transport_for (ev_mode evt) (transfer u) = Some g" "\<not> transport_missing (ev_mode evt) (transfer u)"
    and pos: "\<And>a d w. 0 \<le> fst (g a d w)"
  shows "let new = newer_records (lm_zone m) L k t0 in
    if new = [] then udt_resp_query_content (board_env m L base) evt ex u w = Inr (ex, u, w)
    else \<exists>frs ex'. udt_resp_query_content (board_env m L base) evt ex u w
          = Inr (ex', u, fold (\<lambda>fr w. snd (g (local_addr u) fr w)) frs w)
        \<and> concat (map frame_payload frs) = drop (1024 * q) (board_header L k @ concat new)
        \<and> (\<forall>i. i < length frs \<longrightarrow> frame_index (frs ! i) = of_nat (i + 1)
              \<and> frame_total (frs ! i) = of_nat (length frs))
        \<and> udt_last_read_fname ex' = nm \<and> udt_last_read_time ex' = clock base"
proof -
  let ?env = "board_env m L base" and ?new = "newer_records (lm_zone m) L k t0"
  have be: "rec_take_ok ?env = rec_take_ok base" "clock ?env = clock base"
    by (simp_all add: board_env_def)
  have dat: "get_data_from_storage ?env nm s t0
      = (if ?new = [] then None else Some (board_header L k @ concat ?new))"
    using get_data_board [OF k other [unfolded nm_def] module_read_newer [OF media ok ord]]
    by (simp add: nm_def Let_def)
  have since': "incremental_since tread (Udt_Incremental_Find_Index (rec_take_ok ?env) (Some nm)
      (incr ex)) (incr ex) = Inr t0"
    using since by (simp add: ix_def nm_def be)
  show ?thesis
  proof (cases "?new = []")
    case True
    then show ?thesis
      using prm since' dat by (simp add: udt_resp_query_content_def Let_def)
  next
    case False
    let ?d = "board_header L k @ concat ?new"
    have skip': "resume_skip tread (Udt_Incremental_Find_Index (rec_take_ok ?env) (Some nm)
        (incr ex)) (udt_total (length ?d)) (incr ex) = Inr q"
      using skip by (simp add: ix_def nm_def be)
    have dat': "get_data_from_storage ?env nm s t0 = Some ?d" using dat False by simp
    obtain frs ex' where f: "udt_resp_query_content ?env evt ex u w
          = Inr (ex', u, fold (\<lambda>fr w. snd (g (local_addr u) fr w)) frs w)"
        "concat (map frame_payload frs) = drop (1024 * q) ?d"
        "\<forall>i. i < length frs \<longrightarrow> frame_index (frs ! i) = of_nat (i + 1)
            \<and> frame_total (frs ! i) = of_nat (length frs)"
        "udt_last_read_fname ex' = nm"
      using content_frames [where env = ?env, OF prm since' dat' board_answer_short [OF ok] skip' tr pos, of w] by auto
    have "udt_last_read_time ex' = clock base"
      using f(1) prm since' dat' skip'
      by (auto simp: udt_resp_query_content_def Let_def cbind_Inr_iff be)
    then show ?thesis using False f unfolding Let_def by auto
  qed
qed

definition sample_logs :: board_logs where
  "sample_logs =
     \<lparr>bl_fault = sample_full_log, bl_event = sample_event_log,
      bl_reg = sample_reg_log, bl_dev = \<lparr>dev_queue = [], dev_journal = mq_journal sample_mqtt,
      dev_pre_time = 0\<rparr>, bl_mqtt = sample_mqtt\<rparr>"

definition sample_media :: log_media where
  "sample_media = \<lparr>lm_locked = (\<lambda>_. True), lm_calloc = True, lm_read = (\<lambda>_ _. good_read), lm_zone = 0\<rparr>"

definition no_other_logs :: log_env where
  "no_other_logs = (sample_env [])\<lparr>is_log_file := (\<lambda>_ _. False)\<rparr>"

lemma sample_logs_fault:
  "board_ok sample_logs Inv_Log" "board_records off sample_logs Inv_Log = [fault_bytes sample_fault_record]"
proof -
  have rep: "ring_rep HISTORY_LOG_RECORD_MAX_NUM (unat SIZEOF_LOG_FAULT)
      [fault_bytes sample_fault_record] (log_ring 0 sample_full_log)"
    by (simp add: ring_rep_def log_ring_def sample_full_log_def HISTORY_LOG_RECORD_MAX_NUM_def)
  then show "board_ok sample_logs Inv_Log"
    by (auto simp: board_ok_def sample_logs_def ring_ok_def)
  have "length (board_records off sample_logs Inv_Log) = 1"
    using ring_slots_eq [OF rep] by (simp add: board_records_def board_slots_def sample_logs_def)
  moreover have "set (board_records off sample_logs Inv_Log) = {fault_bytes sample_fault_record}"
    using ring_slots_eq [OF rep]
    by (simp add: board_records_def board_slots_def sample_logs_def log_records_def)
  ultimately show "board_records off sample_logs Inv_Log = [fault_bytes sample_fault_record]"
    by (cases "board_records off sample_logs Inv_Log") auto
qed

lemma time_ordered_singleton: "time_ordered P [r]"
  by (simp add: time_ordered_def)

lemma log_query_answered_witness:
  "\<exists>frs ex'. udt_resp_query_content (board_env sample_media sample_logs no_other_logs)
       (sample_evt\<lparr>ev_param := Qry_Cont 0 (padded 11 (file_id Inv_Log)) 0\<rparr>) sample_ex (sample_udt 0) []
     = Inr (ex', sample_udt 0, fold (\<lambda>fr w. snd (recording 0 fr w)) frs [])
   \<and> concat (map frame_payload frs) = fault_bytes sample_fault_record"
proof -
  let ?evt = "sample_evt\<lparr>ev_param := Qry_Cont 0 (padded 11 (file_id Inv_Log)) 0\<rparr>"
  have own: "Inv_Log \<in> own_logs" by (simp add: own_logs_def)
  have media: "good_media sample_media" by (simp add: good_media_def sample_media_def)
  have other: "\<And>j. j \<notin> own_logs \<Longrightarrow> \<not> is_log_file no_other_logs j (padded 11 (file_id Inv_Log))"
    by (simp add: no_other_logs_def)
  have ord: "time_ordered (is_newer (board_view (lm_zone sample_media) sample_logs Inv_Log) 0)
      (board_records (lm_zone sample_media) sample_logs Inv_Log)"
    by (simp add: sample_logs_fault time_ordered_singleton)
  have tr: "transport_for (ev_mode ?evt) (transfer (sample_udt 0)) = Some recording"
      "\<not> transport_missing (ev_mode ?evt) (transfer (sample_udt 0))"
    by (simp_all add: sample_evt_def sample_udt_def transport_for_def transport_missing_def udt_consts)
  have la: "local_addr (sample_udt 0) = 0" by (simp add: sample_udt_def)
  have pos: "\<And>a d w. 0 \<le> fst (recording a d w)" by (simp add: recording_def)
  have new: "newer_records (lm_zone sample_media) sample_logs Inv_Log 0 = [fault_bytes sample_fault_record]"
    by (simp add: newer_records_def sample_logs_fault)
  show ?thesis
    using log_query_answered [OF own sample_logs_fault(1) media other ord _ _ _ tr pos,
        where s = 0 and tread = 0 and ex = sample_ex and w = "[]" and q = 0]
    by (auto simp: new la incremental_since_def resume_skip_def board_header_def)
qed

text \<open>
  What the periodic check announces for a log: with its semaphore free, the exact number of
  records newer than the last acknowledged read, or nothing when there are none; with the semaphore
  busy, 65534 new records, whatever the log holds, because the error code -2 is taken for a 16-bit
  count.
\<close>

theorem log_announcement:
  fixes ex :: udt_exp and u :: "'w udt" and m :: log_media and base :: log_env
  defines "ix k \<equiv> Udt_Incremental_Find_Index (rec_take_ok base) (Some (padded 10 (file_id k))) (incr ex)"
  assumes step: "unat (report_step p) \<le> 6" "log_kinds ! unat (report_step p) = k" and k: "k \<in> own_logs"
    and due: "\<not> udt_throttled now_time p" and ok: "board_ok L k" and rd: "lm_read m k = (\<lambda>_. good_read)"
    and since: "report_since (ix k) (incr ex) = t0"
    and ord: "time_ordered (is_newer (board_view (lm_zone m) L k) t0) (board_records (lm_zone m) L k)"
  shows "let cnt = (if lm_locked m k then of_nat (length (newer_records (lm_zone m) L k t0)) else 65534);
             p' = p\<lparr>report_step := report_step p + 1\<rparr>
    in udt_period_check_and_report (board_env m L base) now_time p ex u w
      = (if cnt = 0 then Inr (- 1, p', u, w)
         else cbind (udt_transmit (new_log_tx cnt (padded 10 (file_id k))) u w)
                (\<lambda>(r, u', w'). Inr (r, p'\<lparr>last_send_time := now_time\<rparr>, u', w')))"
proof -
  let ?env = "board_env m L base" and ?v = "board_view (lm_zone m) L k"
  have be: "rec_take_ok ?env = rec_take_ok base" by (simp add: board_env_def)
  have mc: "module_count m L k t0 = Some (Is_Log_Count_New (lm_locked m k) (\<lambda>_. good_read) ?v
      (board_file L k) t0)"
    using ok rd by (cases k) (simp_all add: module_count_def board_defs
        Is_Inv_Log_Count_New_def Is_IoT_Event_Log_Count_New_def Is_Reg_Change_Log_Count_New_def
        Is_Dev_Access_Log_Count_New_def Is_Mqtt_Log_Count_New_def)
  have "unat (Log_Count_New_Records (\<lambda>_. good_read) ?v (board_file L k) t0)
      = length (newer_records (lm_zone m) L k t0)"
    using upload.count_new [of "(L, k)" "lm_zone m" t0] log_count_all [OF upload.rep [of "(L, k)" "lm_zone m"]]
      ok ord by (simp add: newer_records_def board_records_def)
  then have "Log_Count_New_Records (\<lambda>_. good_read) ?v (board_file L k) t0
      = of_nat (length (newer_records (lm_zone m) L k t0))"
    by (metis of_nat_unat ucast_id)
  then have cnt: "log_count_new ?env k t0 = (if lm_locked m k
      then of_nat (length (newer_records (lm_zone m) L k t0)) else 65534)"
    using mc by (simp add: board_env_def Is_Log_Count_New_def)
  show ?thesis
    using step due since cnt log_file_id_board [OF k, of m L base]
    by (simp add: udt_period_check_and_report_def Let_def be ix_def word_gt_0)
qed

lemma log_announcement_witness:
  "udt_period_check_and_report
     (board_env (sample_media\<lparr>lm_locked := (\<lambda>_. False)\<rparr>) sample_logs no_other_logs) 10800000
     \<lparr>last_start_time = 0, last_send_time = 0, report_step = 0\<rparr> sample_ex (sample_udt 0) []
   = cbind (udt_transmit (new_log_tx 65534 (padded 10 (file_id Inv_Log))) (sample_udt 0) [])
       (\<lambda>(r, u', w'). Inr (r, \<lparr>last_start_time = 0, last_send_time = 10800000, report_step = 1\<rparr>, u', w'))"
proof -
  let ?p = "\<lparr>last_start_time = 0, last_send_time = 0, report_step = 0\<rparr>"
  let ?m = "sample_media\<lparr>lm_locked := (\<lambda>_. False)\<rparr>"
  have s: "unat (report_step ?p) \<le> 6" "log_kinds ! unat (report_step ?p) = Inv_Log"
    by (simp_all add: log_kinds_def)
  have own: "Inv_Log \<in> own_logs" by (simp add: own_logs_def)
  have nt: "\<not> udt_throttled 10800000 ?p"
    by (simp add: udt_throttled_def UDT_POWERUP_CHECK_TIMEOUT_def UDT_PERIOD_CHECK_TIMEOUT_def
        UDT_PERIOD_SEND_TIMEOUT_def)
  have rd: "lm_read ?m Inv_Log = (\<lambda>_. good_read)" "\<not> lm_locked ?m Inv_Log"
    by (simp_all add: sample_media_def)
  have ord: "time_ordered (is_newer (board_view (lm_zone ?m) sample_logs Inv_Log) t)
      (board_records (lm_zone ?m) sample_logs Inv_Log)" for t
    by (simp add: sample_logs_fault time_ordered_singleton)
  show ?thesis
    using log_announcement [OF s own nt sample_logs_fault(1) rd(1) refl ord, of no_other_logs
        sample_ex "sample_udt 0" "[]"] rd(2)
    by simp
qed

end
