(* ===== verification/Twi_Master.thy ===== *)
theory Twi_Master
  imports Prelude "HOL-Library.Monad_Syntax"
begin

text \<open>
  The bit-banged I2C master, \<open>iic_bus/twi_master.c\<close>.  The two GPIO pins are open drain: a line is high
  when neither end pulls it down.  The other end is a device given byte by byte (\<open>i2c_slave\<close>); how a
  device sees the lines is the I2C specification: a falling SDA while SCL is high is a START, a rising
  one a STOP, a bit is what SDA shows when SCL rises, eight bits and an acknowledge make a byte, the
  lowest bit of the first byte gives the direction, and after a falling SCL the device may hold SCL low
  for a number of looks at it (\<open>None\<close>: for ever).

  \<open>TWI_MASTER_TIMEOUT_COUNTER_LOAD_VALUE\<close> is 0, so the wait for SCL has no timeout: it is a partial
  function, and \<open>None\<close> means that the call does not return.  The branches behind a failed wait are kept.
\<close>

section \<open>The device and the lines\<close>

record 'b i2c_slave =
  s_start :: "'b \<Rightarrow> 'b"
  s_stop :: "'b \<Rightarrow> 'b"
  s_recv :: "u8 \<Rightarrow> 'b \<Rightarrow> bool \<times> 'b"
  s_send :: "'b \<Rightarrow> u8 \<times> 'b"
  s_ack :: "bool \<Rightarrow> 'b \<Rightarrow> 'b"
  s_stretch :: "'b \<Rightarrow> nat option"

datatype phase =
    Quiet
  | Receiving bool "bool list"
  | Ack_Out bool bool
  | Sending nat u8
  | Ack_In bool

record 'b twi =
  scl_out :: bool
  sda_out :: bool
  sda_in :: bool
  phase :: phase
  hold :: "nat option"
  dev :: 'b
  twi_errno :: u32
  twi_state :: u32

definition pulls :: "phase \<Rightarrow> bool" where
  "pulls p = (case p of Ack_Out a r \<Rightarrow> a | Sending k b \<Rightarrow> \<not> bit b (7 - k) | _ \<Rightarrow> False)"

definition scl_level :: "'b twi \<Rightarrow> bool" where
  "scl_level t \<longleftrightarrow> scl_out t \<and> hold t = Some 0"

definition sda_level :: "'b twi \<Rightarrow> bool" where
  "sda_level t \<longleftrightarrow> sda_out t \<and> \<not> pulls (phase t)"

text \<open>Bits arrive most significant first.\<close>

definition byte_of :: "bool list \<Rightarrow> u8" where
  "byte_of bs = horner_sum of_bool 2 (rev bs)"

definition scl_rises :: "'b twi \<Rightarrow> 'b twi" where
  "scl_rises t =
     (case phase t of
        Receiving f bs \<Rightarrow> t\<lparr>phase := Receiving f (bs @ [sda_level t])\<rparr>
      | Ack_In _ \<Rightarrow> t\<lparr>phase := Ack_In (\<not> sda_level t)\<rparr>
      | _ \<Rightarrow> t)"

definition next_byte :: "'b i2c_slave \<Rightarrow> 'b twi \<Rightarrow> 'b twi" where
  "next_byte S t = (let (b, d) = s_send S (dev t) in t\<lparr>phase := Sending 0 b, dev := d\<rparr>)"

definition scl_falls :: "'b i2c_slave \<Rightarrow> 'b twi \<Rightarrow> 'b twi" where
  "scl_falls S t =
     (let t' = (case phase t of
          Receiving f bs \<Rightarrow>
            if length bs < 8 then t
            else let (a, d) = s_recv S (byte_of bs) (dev t)
                 in t\<lparr>phase := Ack_Out a (f \<and> bit (byte_of bs) 0), dev := d\<rparr>
        | Ack_Out a r \<Rightarrow>
            if \<not> a then t\<lparr>phase := Quiet\<rparr> else if r then next_byte S t else t\<lparr>phase := Receiving False []\<rparr>
        | Sending k b \<Rightarrow> t\<lparr>phase := if k < 7 then Sending (Suc k) b else Ack_In False\<rparr>
        | Ack_In a \<Rightarrow>
            let t1 = t\<lparr>dev := s_ack S a (dev t)\<rparr> in if a then next_byte S t1 else t1\<lparr>phase := Quiet\<rparr>
        | Quiet \<Rightarrow> t)
      in t'\<lparr>hold := s_stretch S (dev t')\<rparr>)"

section \<open>Pins\<close>

definition set_scl :: "'b i2c_slave \<Rightarrow> bool \<Rightarrow> 'b twi \<Rightarrow> 'b twi" where
  "set_scl S v t =
     (let t' = t\<lparr>scl_out := v\<rparr> in
      if scl_level t \<and> \<not> scl_level t' then scl_falls S t'
      else if \<not> scl_level t \<and> scl_level t' then scl_rises t' else t')"

definition set_sda :: "'b i2c_slave \<Rightarrow> bool \<Rightarrow> 'b twi \<Rightarrow> 'b twi" where
  "set_sda S v t =
     (let t' = t\<lparr>sda_out := v\<rparr> in
      if scl_level t \<and> sda_level t \<and> \<not> sda_level t' then t'\<lparr>phase := Receiving True [], dev := s_start S (dev t)\<rparr>
      else if scl_level t \<and> \<not> sda_level t \<and> sda_level t' then t'\<lparr>phase := Quiet, dev := s_stop S (dev t)\<rparr>
      else t')"

text \<open>\<open>TWI_SDA_INPUT\<close> and \<open>TWI_SDA_OUTPUT\<close>: both modes drive the open drain, only the first can be read.\<close>

definition sda_mode :: "bool \<Rightarrow> 'b twi \<Rightarrow> 'b twi" where
  "sda_mode i t = t\<lparr>sda_in := i\<rparr>"

definition read_sda :: "'b twi \<Rightarrow> bool" where
  "read_sda t \<longleftrightarrow> sda_in t \<and> sda_level t"

text \<open>Each look at SCL gives a device that holds it one unit of time.\<close>

definition read_scl :: "'b twi \<Rightarrow> bool \<times> 'b twi" where
  "read_scl t =
     (let t' = t\<lparr>hold := map_option (\<lambda>n. n - 1) (hold t)\<rparr>;
          t2 = (if \<not> scl_level t \<and> scl_level t' then scl_rises t' else t')
      in (scl_level t2, t2))"

section \<open>The master\<close>

definition TWI_READ_BIT :: u8 where "TWI_READ_BIT = 1"
definition TWI_WRITE_BIT :: u8 where "TWI_WRITE_BIT = 0"
definition TWI_STA_TRANS_ADDR :: u32 where "TWI_STA_TRANS_ADDR = 1"
definition TWI_STA_TRANS_DATA :: u32 where "TWI_STA_TRANS_DATA = 2"
definition TWI_ERR_STATCOND :: u32 where "TWI_ERR_STATCOND = 1"
definition TWI_ERR_ADDR_SCL :: u32 where "TWI_ERR_ADDR_SCL = 2"
definition TWI_ERR_ADDR_ACK :: u32 where "TWI_ERR_ADDR_ACK = 4"
definition TWI_ERR_DATA_SCL :: u32 where "TWI_ERR_DATA_SCL = 8"
definition TWI_ERR_DATA_ACK :: u32 where "TWI_ERR_DATA_ACK = 16"
definition TWI_ERR_DATA_IN_SCL :: u32 where "TWI_ERR_DATA_IN_SCL = 32"
definition TWI_ERR_DATA_IN_ACK :: u32 where "TWI_ERR_DATA_IN_ACK = 64"
definition TWI_ERR_STOPCOND :: u32 where "TWI_ERR_STOPCOND = 128"
definition TWI_ERR_ADDR_NACK :: u32 where "TWI_ERR_ADDR_NACK = 256"
definition TWI_ERR_DATA_NACK :: u32 where "TWI_ERR_DATA_NACK = 512"

definition add_errno :: "u32 \<Rightarrow> 'b twi \<Rightarrow> 'b twi" where
  "add_errno e t = t\<lparr>twi_errno := twi_errno t OR e\<rparr>"

definition addr_or_data :: "u32 \<Rightarrow> u32 \<Rightarrow> 'b twi \<Rightarrow> 'b twi" where
  "addr_or_data ea ed t = add_errno (if twi_state t = TWI_STA_TRANS_ADDR then ea else ed) t"

partial_function (option) scl_poll :: "'b twi \<Rightarrow> 'b twi option" where
  "scl_poll t = (let (high, t') = read_scl t in if high then Some t' else scl_poll t')"

definition twi_master_wait_while_scl_low ::
  "'b i2c_slave \<Rightarrow> 'b twi \<Rightarrow> (bool \<times> 'b twi) option" where
  "twi_master_wait_while_scl_low S t = do { t1 \<leftarrow> scl_poll (set_scl S True t); Some (True, t1) }"

definition twi_master_issue_startcondition ::
  "'b i2c_slave \<Rightarrow> 'b twi \<Rightarrow> (bool \<times> 'b twi) option" where
  "twi_master_issue_startcondition S t = do {
     (ok, t1) \<leftarrow> twi_master_wait_while_scl_low S (set_sda S True t);
     Some (if \<not> ok then (False, add_errno TWI_ERR_STATCOND t1)
           else (True, set_scl S False (set_sda S False t1))) }"

definition twi_master_issue_stopcondition ::
  "'b i2c_slave \<Rightarrow> 'b twi \<Rightarrow> (bool \<times> 'b twi) option" where
  "twi_master_issue_stopcondition S t = do {
     (ok, t1) \<leftarrow> twi_master_wait_while_scl_low S (set_sda S False t);
     Some (if \<not> ok then (False, add_errno TWI_ERR_STOPCOND t1) else (True, set_sda S True t1)) }"

fun clock_bits_out ::
  "'b i2c_slave \<Rightarrow> u8 \<Rightarrow> nat list \<Rightarrow> 'b twi \<Rightarrow> (bool \<times> 'b twi) option" where
  "clock_bits_out S b [] t = Some (True, t)"
| "clock_bits_out S b (i # is) t = do {
     (ok, t1) \<leftarrow> twi_master_wait_while_scl_low S (set_sda S (bit b i) (set_scl S False t));
     (if \<not> ok then Some (False, addr_or_data TWI_ERR_ADDR_SCL TWI_ERR_DATA_SCL t1) else clock_bits_out S b is t1) }"

definition msb_first :: "nat list" where "msb_first = [7, 6, 5, 4, 3, 2, 1, 0]"

definition twi_master_clock_byte ::
  "'b i2c_slave \<Rightarrow> u8 \<Rightarrow> 'b twi \<Rightarrow> (bool \<times> 'b twi) option" where
  "twi_master_clock_byte S databyte t = do {
     (ok1, t1) \<leftarrow> clock_bits_out S databyte msb_first (sda_mode False t);
     (w, t2) \<leftarrow> twi_master_wait_while_scl_low S (sda_mode True (set_sda S True (set_scl S False t1)));
     let ok2 = ok1 \<and> w;
         t3 = (if \<not> ok2 then addr_or_data TWI_ERR_ADDR_ACK TWI_ERR_DATA_ACK t2 else t2);
         ok3 = ok2 \<and> \<not> read_sda t3;
         t4 = (if \<not> ok3 then addr_or_data TWI_ERR_ADDR_NACK TWI_ERR_DATA_NACK t3 else t3)
     in Some (ok3, sda_mode False (set_scl S False t4)) }"

fun clock_bits_in ::
  "'b i2c_slave \<Rightarrow> nat list \<Rightarrow> u8 \<Rightarrow> 'b twi \<Rightarrow> (bool \<times> u8 \<times> 'b twi) option" where
  "clock_bits_in S [] b t = Some (True, b, t)"
| "clock_bits_in S (i # is) b t = do {
     (ok, t1) \<leftarrow> twi_master_wait_while_scl_low S t;
     (if \<not> ok then Some (False, b, add_errno TWI_ERR_DATA_IN_SCL t1)
      else clock_bits_in S is (if read_sda t1 then set_bit i b else b) (set_scl S False t1)) }"

definition twi_master_clock_byte_in ::
  "'b i2c_slave \<Rightarrow> bool \<Rightarrow> 'b twi \<Rightarrow> (bool \<times> u8 \<times> 'b twi) option" where
  "twi_master_clock_byte_in S ack t = do {
     (ok1, b, t1) \<leftarrow> clock_bits_in S msb_first 0 (sda_mode True (set_sda S True t));
     (w, t2) \<leftarrow> twi_master_wait_while_scl_low S (set_sda S (\<not> ack) (sda_mode False t1));
     let t3 = (if \<not> w then add_errno TWI_ERR_DATA_IN_ACK t2 else t2)
     in Some (ok1 \<and> w, b, set_scl S False t3) }"

text \<open>The data phases of a transfer.  Reading returns the bytes written to the buffer.\<close>

fun transfer_out :: "'b i2c_slave \<Rightarrow> u8 list \<Rightarrow> 'b twi \<Rightarrow> (bool \<times> 'b twi) option" where
  "transfer_out S [] t = Some (True, t)"
| "transfer_out S (b # bs) t = do {
     (ok, t1) \<leftarrow> twi_master_clock_byte S b t;
     (if \<not> ok then Some (False, t1) else transfer_out S bs t1) }"

fun transfer_in :: "'b i2c_slave \<Rightarrow> nat \<Rightarrow> 'b twi \<Rightarrow> (bool \<times> u8 list \<times> 'b twi) option" where
  "transfer_in S 0 t = Some (True, [], t)"
| "transfer_in S (Suc n) t = do {
     (ok, b, t1) \<leftarrow> twi_master_clock_byte_in S (n \<noteq> 0) t;
     (if \<not> ok then Some (False, [b], t1)
      else do { (ok', bs, t2) \<leftarrow> transfer_in S n t1; Some (ok', b # bs, t2) }) }"

text \<open>\<open>twi_master_transfer\<close>: \<open>out\<close> are the bytes to send, \<open>n\<close> the number to receive; the address says which.\<close>

definition twi_master_transfer ::
  "'b i2c_slave \<Rightarrow> u8 \<Rightarrow> u8 list \<Rightarrow> nat \<Rightarrow> bool \<Rightarrow> 'b twi \<Rightarrow>
     (bool \<times> u8 list \<times> 'b twi) option" where
  "twi_master_transfer S address out n issue_stop_condition t = do {
     (ok0, t0) \<leftarrow> twi_master_issue_startcondition S (t\<lparr>twi_errno := 0\<rparr>);
     (ok, bs, t1) \<leftarrow>
       (if \<not> ok0 then Some (False, [], t0)
        else do {
          (ok1, t1) \<leftarrow> twi_master_clock_byte S address (t0\<lparr>twi_state := TWI_STA_TRANS_ADDR\<rparr>);
          (if \<not> ok1 then Some (False, [], t1)
           else let t2 = t1\<lparr>twi_state := TWI_STA_TRANS_DATA\<rparr> in
             if address AND TWI_READ_BIT \<noteq> 0 then transfer_in S n t2
             else do { (ok2, t3) \<leftarrow> transfer_out S out t2; Some (ok2, [], t3) }) });
     (if issue_stop_condition \<or> \<not> ok
      then do { (s, t4) \<leftarrow> twi_master_issue_stopcondition S t1; Some (ok \<and> s, bs, t4) }
      else Some (ok, bs, t1)) }"

section \<open>Clearing the bus\<close>

fun clear_pulses :: "'b i2c_slave \<Rightarrow> nat \<Rightarrow> 'b twi \<Rightarrow> bool \<times> 'b twi" where
  "clear_pulses S 0 t = (False, t)"
| "clear_pulses S (Suc n) t =
     (let t1 = set_scl S True (set_scl S False t) in if read_sda t1 then (True, t1) else clear_pulses S n t1)"

definition twi_master_clear_bus :: "'b i2c_slave \<Rightarrow> 'b twi \<Rightarrow> bool \<times> 'b twi" where
  "twi_master_clear_bus S t =
     (let t1 = sda_mode True (set_scl S True (set_sda S True t)) in
      if read_sda t1
      then (let (high, t2) = read_scl t1 in
            if high then (True, t2)
            else (let (high', t3) = read_scl t2 in if high' then clear_pulses S 18 t3 else (False, t3)))
      else (let (high, t2) = read_scl t1 in if high then clear_pulses S 18 t2 else (False, t2)))"

text \<open>\<open>gpio_reset_pin\<close> releases a pin; made an open-drain output again it takes its last level.\<close>

definition twi_master_init :: "'b i2c_slave \<Rightarrow> 'b twi \<Rightarrow> bool \<times> 'b twi" where
  "twi_master_init S t =
     (let t1 = set_scl S (scl_out t) (set_scl S True t);
          t2 = set_sda S (sda_out t1) (set_sda S True t1)
      in twi_master_clear_bus S (sda_mode False t2))"


section \<open>Waiting for SCL\<close>

definition responsive :: "'b i2c_slave \<Rightarrow> bool" where
  "responsive S \<longleftrightarrow> (\<forall>d. s_stretch S d \<noteq> None)"

lemma scl_poll_ends:
  assumes "scl_out t" "hold t = Some n"
  shows "scl_poll t = Some (if n = 0 then t else scl_rises (t\<lparr>hold := Some 0\<rparr>))"
  using assms
proof (induction n arbitrary: t)
  case 0
  then have "t\<lparr>hold := Some 0\<rparr> = t" by simp
  with 0 show ?case by (subst scl_poll.simps) (simp add: read_scl_def scl_level_def)
next
  case (Suc n)
  let ?t = "t\<lparr>hold := Some n\<rparr>"
  show ?case
  proof (cases "n = 0")
    case True
    have "scl_level (scl_rises ?t)" using Suc.prems True by (simp add: scl_level_def scl_rises_def split: phase.split)
    then show ?thesis using Suc.prems True
      by (subst scl_poll.simps) (simp add: read_scl_def scl_level_def Let_def)
  next
    case False
    then have "read_scl t = (False, ?t)" using Suc.prems by (simp add: read_scl_def scl_level_def Let_def)
    then show ?thesis using Suc.IH[of ?t] Suc.prems False by (subst scl_poll.simps) simp
  qed
qed

lemma scl_poll_stuck:
  assumes "hold t = None"
  shows "scl_poll t = None"
proof (rule ccontr)
  assume "scl_poll t \<noteq> None"
  then obtain r where r: "scl_poll t = Some r" by blast
  have "hold t \<noteq> None"
  proof (rule scl_poll.raw_induct[where P = "\<lambda>t r. hold t \<noteq> None", OF _ r])
    fix f and t r :: "'a twi"
    assume IH: "\<And>t r. f t = Some r \<Longrightarrow> hold t \<noteq> None"
      and eq: "(let (high, t') = read_scl t in if high then Some t' else f t') = Some r"
    show "hold t \<noteq> None"
    proof
      assume n: "hold t = None"
      then have "read_scl t = (False, t)" by (simp add: read_scl_def scl_level_def)
      with eq have "f t = Some r" by simp
      from IH[OF this] n show False by simp
    qed
  qed
  with assms show False by simp
qed

lemma wait_low:
  assumes "\<not> scl_out t" "hold t = Some n"
  shows "twi_master_wait_while_scl_low S t = Some (True, scl_rises (t\<lparr>scl_out := True, hold := Some 0\<rparr>))"
proof (cases "n = 0")
  case True
  then have h: "t\<lparr>scl_out := True, hold := Some 0\<rparr> = t\<lparr>scl_out := True\<rparr>" using assms by simp
  have "scl_out (scl_rises (t\<lparr>scl_out := True\<rparr>))" "hold (scl_rises (t\<lparr>scl_out := True\<rparr>)) = Some 0"
    using True assms by (simp_all add: scl_rises_def split: phase.split)
  from scl_poll_ends[OF this] show ?thesis using True assms
    by (simp add: twi_master_wait_while_scl_low_def set_scl_def scl_level_def h)
next
  case False
  then show ?thesis using assms scl_poll_ends[of "t\<lparr>scl_out := True\<rparr>" n]
    by (simp add: twi_master_wait_while_scl_low_def set_scl_def scl_level_def)
qed

lemma wait_high:
  assumes "scl_out t" "hold t = Some 0"
  shows "twi_master_wait_while_scl_low S t = Some (True, t)"
  using scl_poll_ends[OF assms] assms by (cases t) (simp add: twi_master_wait_while_scl_low_def set_scl_def)

text \<open>With nothing to end the wait, a device that holds SCL stops the caller for good.\<close>

lemma wait_stuck:
  assumes "\<not> scl_out t" "hold t = None"
  shows "twi_master_wait_while_scl_low S t = None"
  using assms by (simp add: twi_master_wait_while_scl_low_def set_scl_def scl_level_def scl_poll_stuck)

section \<open>One byte\<close>

lemma byte_of_bits: "byte_of (map (bit b) msb_first) = b"
proof -
  have "rev (map (bit b) msb_first) = map (bit b) [0..<8]" by (simp add: msb_first_def upt_rec numeral_eq_Suc)
  then show ?thesis using horner_sum_bit_eq_take_bit[of b 8] by (simp add: byte_of_def take_bit_word_eq_self)
qed

text \<open>Between two bytes SCL is low.  The waveforms between two rising edges of SCL:\<close>

definition between_bits :: "bool \<Rightarrow> bool list \<Rightarrow> 'b twi \<Rightarrow> bool" where
  "between_bits f bs t \<longleftrightarrow> phase t = Receiving f bs \<and> hold t \<noteq> None \<and> (scl_out t \<longrightarrow> hold t = Some 0)"

lemma scl_low_mid:
  assumes "responsive S" "between_bits f bs t" "length bs < 8"
  obtains n where "set_scl S False t = t\<lparr>scl_out := False, hold := Some n\<rparr>"
proof -
  obtain m where "s_stretch S (dev t) = Some m" using assms(1) by (auto simp: responsive_def)
  moreover obtain k where "hold t = Some k" "phase t = Receiving f bs" "scl_out t \<Longrightarrow> k = 0"
    using assms(2) by (auto simp: between_bits_def)
  ultimately have "\<exists>n. set_scl S False t = t\<lparr>scl_out := False, hold := Some n\<rparr>" using assms(3)
    by (cases t) (auto simp: set_scl_def scl_level_def scl_falls_def Let_def)
  then show thesis using that by blast
qed

lemma bits_out:
  assumes "responsive S" "between_bits f bs t" "length bs + length is \<le> 8" "is \<noteq> []"
  shows "clock_bits_out S b is t = Some (True, t\<lparr>scl_out := True, sda_out := bit b (last is),
           phase := Receiving f (bs @ map (bit b) is), hold := Some 0\<rparr>)"
  using assms(2-4)
proof (induction "is" arbitrary: bs t)
  case (Cons i "is")
  have "length bs < 8" using Cons.prems(2) by simp
  from scl_low_mid[OF assms(1) Cons.prems(1) this] obtain n where
    l: "set_scl S False t = t\<lparr>scl_out := False, hold := Some n\<rparr>" .
  let ?t = "t\<lparr>scl_out := True, sda_out := bit b i, phase := Receiving f (bs @ [bit b i]), hold := Some 0\<rparr>"
  have ph: "phase t = Receiving f bs" using Cons.prems(1) by (simp add: between_bits_def)
  have d: "set_sda S (bit b i) (t\<lparr>scl_out := False, hold := Some n\<rparr>) = t\<lparr>scl_out := False, sda_out := bit b i, hold := Some n\<rparr>"
    by (simp add: set_sda_def scl_level_def)
  have w: "twi_master_wait_while_scl_low S (t\<lparr>scl_out := False, sda_out := bit b i, hold := Some n\<rparr>) = Some (True, ?t)"
    by (subst wait_low[of _ n]) (simp_all add: scl_rises_def sda_level_def pulls_def ph)
  show ?case
  proof (cases "is = []")
    case True
    then show ?thesis by (simp add: l d w)
  next
    case False
    have "between_bits f (bs @ [bit b i]) ?t" by (simp add: between_bits_def)
    from Cons.IH[OF this] False Cons.prems show ?thesis by (simp add: l d w)
  qed
qed simp

text \<open>What the device makes of a byte: acknowledged and addressed for reading it loads its first byte.\<close>

definition byte_taken :: "'b i2c_slave \<Rightarrow> bool \<Rightarrow> u8 \<Rightarrow> 'b \<Rightarrow> phase \<times> 'b" where
  "byte_taken S f b d =
     (let (a, d1) = s_recv S b d in
      if \<not> a then (Quiet, d1)
      else if f \<and> bit b 0 then (let (c, d2) = s_send S d1 in (Sending 0 c, d2)) else (Receiving False [], d1))"

definition clock_low :: "'b twi \<Rightarrow> bool" where
  "clock_low t \<longleftrightarrow> \<not> scl_out t \<and> hold t \<noteq> None"

lemma clock_byte:
  assumes "responsive S" "clock_low t" "phase t = Receiving f []" "s_recv S b (dev t) = (a, d1)"
  shows "\<exists>t'. twi_master_clock_byte S b t = Some (a, t') \<and> clock_low t' \<and>
    (phase t', dev t') = byte_taken S f b (dev t) \<and> twi_state t' = twi_state t \<and>
    twi_errno t' = (if a then twi_errno t
       else twi_errno t OR (if twi_state t = TWI_STA_TRANS_ADDR then TWI_ERR_ADDR_NACK else TWI_ERR_DATA_NACK))"
proof -
  note r = assms(4)
  obtain n1 where n1: "s_stretch S d1 = Some n1" using assms(1) by (auto simp: responsive_def)
  let ?t0 = "sda_mode False t"
  have b0: "between_bits f [] ?t0" using assms(2,3) by (auto simp: between_bits_def clock_low_def sda_mode_def)
  let ?t1 = "?t0\<lparr>scl_out := True, sda_out := bit b 0, phase := Receiving f (map (bit b) msb_first), hold := Some 0\<rparr>"
  have o: "clock_bits_out S b msb_first ?t0 = Some (True, ?t1)"
    using bits_out[OF assms(1) b0, of msb_first b] by (simp add: msb_first_def)
  let ?t2 = "t\<lparr>scl_out := False, sda_out := True, sda_in := True, phase := Ack_Out a (f \<and> bit b 0), dev := d1, hold := Some n1\<rparr>"
  have len: "length (map (bit b) msb_first) = 8" by (simp add: msb_first_def)
  have d: "dev ?t1 = dev t" "phase ?t1 = Receiving f (map (bit b) msb_first)" by (simp_all add: sda_mode_def)
  have 2: "sda_mode True (set_sda S True (set_scl S False ?t1)) = ?t2"
    using r n1 len by (cases t) (simp add: sda_mode_def set_sda_def set_scl_def scl_level_def scl_falls_def byte_of_bits)
  let ?t3 = "?t2\<lparr>scl_out := True, hold := Some 0\<rparr>"
  have w: "twi_master_wait_while_scl_low S ?t2 = Some (True, ?t3)"
    by (subst wait_low[of _ n1]) (simp_all add: scl_rises_def)
  let ?t4 = "if a then ?t3 else addr_or_data TWI_ERR_ADDR_NACK TWI_ERR_DATA_NACK ?t3"
  have run: "twi_master_clock_byte S b t = Some (a, sda_mode False (set_scl S False ?t4))"
    using w by (cases a) (simp_all add: twi_master_clock_byte_def o 2 read_sda_def sda_level_def pulls_def)
  obtain c d2 where c: "s_send S d1 = (c, d2)" by fastforce
  obtain n2 where n2: "s_stretch S d2 = Some n2" using assms(1) by (auto simp: responsive_def)
  show ?thesis
    by (rule exI, intro conjI, rule run)
      (use r n1 n2 c in \<open>auto simp: clock_low_def sda_mode_def set_scl_def scl_level_def scl_falls_def addr_or_data_def
        add_errno_def byte_taken_def next_byte_def Let_def\<close>)
qed

text \<open>Reading: the device shows a byte while SCL is low and moves on with each falling edge.\<close>

lemma bits_in:
  assumes "responsive S" "clock_low t" "sda_in t" "sda_out t" "phase t = Sending k c" "k < 8"
    "\<And>j. j < 8 \<Longrightarrow> bit b j \<longleftrightarrow> j > 7 - k \<and> bit c j"
  obtains t' where "clock_bits_in S (rev [0..<8 - k]) b t = Some (True, c, t')" "clock_low t'" "sda_in t'" "sda_out t'"
    "phase t' = Ack_In False" "dev t' = dev t" "twi_errno t' = twi_errno t" "twi_state t' = twi_state t"
  using assms(2-7)
proof (induction "8 - k" arbitrary: k b t thesis)
  case 0
  then show ?case by simp
next
  case (Suc m)
  obtain n where n: "hold t = Some n" "\<not> scl_out t" using Suc.prems(2) by (auto simp: clock_low_def)
  obtain n1 where n1: "s_stretch S (dev t) = Some n1" using assms(1) by (auto simp: responsive_def)
  let ?b = "if bit c (7 - k) then set_bit (7 - k) b else b"
  let ?t = "t\<lparr>scl_out := False, phase := if k < 7 then Sending (Suc k) c else Ack_In False, hold := Some n1\<rparr>"
  have w: "twi_master_wait_while_scl_low S t = Some (True, t\<lparr>scl_out := True, hold := Some 0\<rparr>)"
    using wait_low[OF n(2,1)] Suc.prems(5) by (simp add: scl_rises_def)
  have rd: "read_sda (t\<lparr>scl_out := True, hold := Some 0\<rparr>) \<longleftrightarrow> bit c (7 - k)"
    using Suc.prems(3-5) by (simp add: read_sda_def sda_level_def pulls_def)
  have fall: "set_scl S False (t\<lparr>scl_out := True, hold := Some 0\<rparr>) = ?t"
    using Suc.prems(5) n1 by (cases t) (simp add: set_scl_def scl_level_def scl_falls_def)
  have l: "rev [0..<8 - k] = (7 - k) # rev [0..<8 - Suc k]"
  proof -
    have "8 - k = Suc (7 - k)" "8 - Suc k = 7 - k" using Suc.prems(6) by simp_all
    then show ?thesis by simp
  qed
  have step: "clock_bits_in S (rev [0..<8 - k]) b t = clock_bits_in S (rev [0..<8 - Suc k]) ?b ?t"
    unfolding l using rd by (simp add: w fall)
  show ?case
  proof (cases "k = 7")
    case True
    have "?b = c"
    proof (rule bit_word_eqI)
      fix j assume "j < LENGTH(8)"
      then show "bit ?b j = bit c j" using Suc.prems(7)[of j] True by (auto simp: bit_set_bit_iff)
    qed
    then show ?thesis using Suc.prems(1)[of ?t] Suc.prems(3,4) step True by (simp add: clock_low_def)
  next
    case False
    then have k: "Suc k < 8" "m = 8 - Suc k" using Suc.hyps(2) Suc.prems(6) by simp_all
    have bits: "bit ?b j \<longleftrightarrow> j > 7 - Suc k \<and> bit c j" if "j < 8" for j
    proof -
      have "j > 7 - Suc k \<longleftrightarrow> j > 7 - k \<or> j = 7 - k" using k(1) by auto
      then show ?thesis using Suc.prems(7)[OF that] by (auto simp: bit_set_bit_iff)
    qed
    show ?thesis
      by (rule Suc.hyps(1)[OF k(2), where b = ?b and t = ?t])
        (use Suc.prems(1)[unfolded step] Suc.prems(3,4) False k bits in \<open>simp_all add: clock_low_def\<close>)
  qed
qed

text \<open>What the device makes of the master's answer to its byte.\<close>

definition byte_given :: "'b i2c_slave \<Rightarrow> bool \<Rightarrow> 'b \<Rightarrow> phase \<times> 'b" where
  "byte_given S ack d =
     (let d1 = s_ack S ack d in if ack then (let (c, d2) = s_send S d1 in (Sending 0 c, d2)) else (Quiet, d1))"

lemma clock_byte_in:
  assumes "responsive S" "clock_low t" "phase t = Sending 0 c"
  obtains t' where "twi_master_clock_byte_in S ack t = Some (True, c, t')" "clock_low t'"
    "(phase t', dev t') = byte_given S ack (dev t)" "twi_state t' = twi_state t" "twi_errno t' = twi_errno t"
proof -
  let ?t0 = "t\<lparr>sda_out := True, sda_in := True\<rparr>"
  have 0: "sda_mode True (set_sda S True t) = ?t0"
    using assms(2) by (simp add: sda_mode_def set_sda_def scl_level_def clock_low_def)
  have m: "msb_first = rev [0..<8 - 0]" by (simp add: msb_first_def upt_rec numeral_eq_Suc)
  have "clock_low ?t0" "sda_in ?t0" "sda_out ?t0" "phase ?t0 = Sending 0 c" using assms(2,3) by (simp_all add: clock_low_def)
  from bits_in[OF assms(1) this, of 0] obtain t1 where
    t1: "clock_bits_in S msb_first 0 ?t0 = Some (True, c, t1)" "clock_low t1" "sda_in t1" "sda_out t1"
      "phase t1 = Ack_In False" "dev t1 = dev t" "twi_errno t1 = twi_errno t" "twi_state t1 = twi_state t"
    unfolding m by auto
  let ?t2 = "t1\<lparr>sda_in := False, sda_out := \<not> ack\<rparr>"
  have 2: "set_sda S (\<not> ack) (sda_mode False t1) = ?t2"
    using t1(2) by (simp add: sda_mode_def set_sda_def scl_level_def clock_low_def)
  obtain n where n: "hold ?t2 = Some n" "\<not> scl_out ?t2" using t1(2) by (auto simp: clock_low_def)
  let ?t3 = "?t2\<lparr>scl_out := True, phase := Ack_In ack, hold := Some 0\<rparr>"
  have w: "twi_master_wait_while_scl_low S ?t2 = Some (True, ?t3)"
    using wait_low[OF n(2,1)] t1(5) by (simp add: scl_rises_def sda_level_def pulls_def)
  have run: "twi_master_clock_byte_in S ack t = Some (True, c, set_scl S False ?t3)"
    using w by (simp add: twi_master_clock_byte_in_def 0 t1(1) 2)
  obtain d2 e where e: "s_send S (s_ack S ack (dev t)) = (e, d2)" by fastforce
  obtain n2 n3 where n2: "s_stretch S d2 = Some n2" "s_stretch S (s_ack S ack (dev t)) = Some n3"
    using assms(1) by (metis not_None_eq responsive_def)
  show thesis
    by (rule that[OF run])
      (use e n2 t1(6-8) in \<open>auto simp: clock_low_def set_scl_def scl_level_def scl_falls_def byte_given_def next_byte_def Let_def\<close>)
qed

section \<open>A transfer is a sequence of bytes\<close>

fun write_bytes :: "'b i2c_slave \<Rightarrow> u8 list \<Rightarrow> 'b \<Rightarrow> bool \<times> 'b" where
  "write_bytes S [] d = (True, d)"
| "write_bytes S (b # bs) d = (let (a, d1) = s_recv S b d in if a then write_bytes S bs d1 else (False, d1))"

fun read_bytes :: "'b i2c_slave \<Rightarrow> nat \<Rightarrow> 'b \<Rightarrow> u8 list \<times> 'b" where
  "read_bytes S 0 d = ([], d)"
| "read_bytes S (Suc n) d =
     (let (c, d1) = s_send S d; (bs, d2) = read_bytes S n (s_ack S (n \<noteq> 0) d1) in (c # bs, d2))"

text \<open>What a transfer does to the device: START, the address, the data as long as each byte is
  acknowledged, and STOP if wanted or after a missing acknowledge.\<close>

definition transfer_spec ::
  "'b i2c_slave \<Rightarrow> u8 \<Rightarrow> u8 list \<Rightarrow> nat \<Rightarrow> bool \<Rightarrow> 'b \<Rightarrow> bool \<times> u8 list \<times> 'b" where
  "transfer_spec S address out n stop d =
     (let (a, d1) = s_recv S address (s_start S d);
          (ok, bs, d2) = (if \<not> a then (False, [], d1)
            else if bit address 0 then (let (bs, d2) = read_bytes S n d1 in (True, bs, d2))
            else (let (ok, d2) = write_bytes S out d1 in (ok, [], d2)))
      in (ok, bs, if stop \<or> \<not> ok then s_stop S d2 else d2))"

definition resting :: "'b twi \<Rightarrow> bool" where
  "resting t \<longleftrightarrow> phase t = Quiet \<or> (\<exists>f. phase t = Receiving f [])"

definition bus_free :: "'b twi \<Rightarrow> bool" where
  "bus_free t \<longleftrightarrow> scl_out t \<and> sda_out t \<and> hold t = Some 0 \<and> \<not> pulls (phase t)"

definition bus_held :: "'b twi \<Rightarrow> bool" where
  "bus_held t \<longleftrightarrow> clock_low t \<and> resting t"

lemma start_condition:
  assumes "responsive S" "bus_free t \<or> bus_held t"
  obtains t' where "twi_master_issue_startcondition S t = Some (True, t')" "clock_low t'" "phase t' = Receiving True []"
    "dev t' = s_start S (dev t)" "twi_errno t' = twi_errno t" "twi_state t' = twi_state t"
proof -
  obtain n where n: "s_stretch S (s_start S (dev t)) = Some n" using assms(1) by (metis not_None_eq responsive_def)
  obtain t1 where w: "twi_master_wait_while_scl_low S (set_sda S True t) = Some (True, t1)"
    and t1: "scl_out t1" "sda_out t1" "hold t1 = Some 0" "\<not> pulls (phase t1)" "dev t1 = dev t"
      "twi_errno t1 = twi_errno t" "twi_state t1 = twi_state t"
  proof (cases "bus_free t")
    case True
    then have "set_sda S True t = t" by (cases t) (simp add: set_sda_def bus_free_def sda_level_def)
    then show ?thesis using that[of t] True wait_high[of t S]
      by (auto simp: bus_free_def)
  next
    case False
    then have h: "bus_held t" using assms(2) by simp
    then obtain k where k: "hold t = Some k" "\<not> scl_out t" by (auto simp: bus_held_def clock_low_def)
    then have s: "set_sda S True t = t\<lparr>sda_out := True\<rparr>" by (simp add: set_sda_def scl_level_def)
    show ?thesis using that wait_low[of "t\<lparr>sda_out := True\<rparr>" k S] k h
      by (auto simp: s bus_held_def resting_def scl_rises_def pulls_def)
  qed
  have d: "set_sda S False t1 = t1\<lparr>sda_out := False, phase := Receiving True [], dev := s_start S (dev t)\<rparr>"
    using t1 by (simp add: set_sda_def scl_level_def sda_level_def)
  have c: "set_scl S False (t1\<lparr>sda_out := False, phase := Receiving True [], dev := s_start S (dev t)\<rparr>) =
    t1\<lparr>sda_out := False, phase := Receiving True [], dev := s_start S (dev t), scl_out := False, hold := Some n\<rparr>"
    using t1 n by (simp add: set_scl_def scl_level_def scl_falls_def)
  show thesis
    by (rule that[of "set_scl S False (set_sda S False t1)"])
      (use w t1 in \<open>simp_all add: d c twi_master_issue_startcondition_def clock_low_def\<close>)
qed

lemma stop_condition:
  assumes "bus_held t"
  obtains t' where "twi_master_issue_stopcondition S t = Some (True, t')" "bus_free t'" "dev t' = s_stop S (dev t)"
    "twi_errno t' = twi_errno t"
proof -
  obtain k where k: "hold t = Some k" "\<not> scl_out t" using assms by (auto simp: bus_held_def clock_low_def)
  obtain t1 where w: "twi_master_wait_while_scl_low S (set_sda S False t) = Some (True, t1)"
    and t1: "scl_out t1" "\<not> sda_out t1" "hold t1 = Some 0" "\<not> pulls (phase t1)" "dev t1 = dev t" "twi_errno t1 = twi_errno t"
  proof -
    have s: "set_sda S False t = t\<lparr>sda_out := False\<rparr>" using k by (simp add: set_sda_def scl_level_def)
    show thesis using that wait_low[of "t\<lparr>sda_out := False\<rparr>" k S] k assms
      by (auto simp: s bus_held_def resting_def scl_rises_def pulls_def)
  qed
  have d: "set_sda S True t1 = t1\<lparr>sda_out := True, phase := Quiet, dev := s_stop S (dev t)\<rparr>"
    using t1 by (simp add: set_sda_def scl_level_def sda_level_def pulls_def)
  show thesis
    by (rule that[of "set_sda S True t1"])
      (use w t1 in \<open>simp_all add: d twi_master_issue_stopcondition_def bus_free_def pulls_def\<close>)
qed

lemma transfer_out:
  assumes "responsive S" "clock_low t" "phase t = Receiving False []" "twi_state t = TWI_STA_TRANS_DATA"
    "write_bytes S bs (dev t) = (ok, d)"
  shows "\<exists>t'. transfer_out S bs t = Some (ok, t') \<and> bus_held t' \<and> dev t' = d \<and>
    twi_errno t' = (if ok then twi_errno t else twi_errno t OR TWI_ERR_DATA_NACK)"
  using assms(2-5)
proof (induction bs arbitrary: t)
  case Nil
  then show ?case by (auto simp: bus_held_def resting_def)
next
  case (Cons b bs)
  obtain a d1 where r: "s_recv S b (dev t) = (a, d1)" by fastforce
  have ne: "TWI_STA_TRANS_DATA \<noteq> TWI_STA_TRANS_ADDR" by (simp add: TWI_STA_TRANS_ADDR_def TWI_STA_TRANS_DATA_def)
  obtain t1 where
    t1: "twi_master_clock_byte S b t = Some (a, t1)" "clock_low t1"
      "(phase t1, dev t1) = byte_taken S False b (dev t)" "twi_state t1 = TWI_STA_TRANS_DATA"
      "twi_errno t1 = (if a then twi_errno t else twi_errno t OR TWI_ERR_DATA_NACK)"
    using clock_byte[OF assms(1) Cons.prems(1,2) r, unfolded Cons.prems(3) if_not_P[OF ne]] by blast
  show ?case
  proof (cases a)
    case True
    then have p: "phase t1 = Receiving False []" "dev t1 = d1" using t1(3) r by (simp_all add: byte_taken_def)
    have "write_bytes S bs (dev t1) = (ok, d)" using Cons.prems(4) r True p(2) by simp
    from Cons.IH[OF t1(2) p(1) t1(4) this] show ?thesis using t1(1,5) True by (cases ok) simp_all
  next
    case False
    then show ?thesis using t1 r Cons.prems(4) by (simp add: byte_taken_def bus_held_def resting_def)
  qed
qed

lemma transfer_in:
  assumes "responsive S" "clock_low t" "phase t = Sending 0 c"
  obtains t' where "transfer_in S (Suc n) t = Some (True, c # fst (read_bytes S n (s_ack S (n \<noteq> 0) (dev t))), t')"
    "bus_held t'" "dev t' = snd (read_bytes S n (s_ack S (n \<noteq> 0) (dev t)))" "twi_errno t' = twi_errno t"
  using assms(2,3)
proof (induction n arbitrary: c t thesis)
  case 0
  from clock_byte_in[OF assms(1) "0.prems"(2,3), of False] obtain t1 where
    "twi_master_clock_byte_in S False t = Some (True, c, t1)" "clock_low t1"
    "(phase t1, dev t1) = byte_given S False (dev t)" "twi_errno t1 = twi_errno t" by metis
  then show ?case using "0.prems"(1)[of t1] by (simp add: byte_given_def bus_held_def resting_def)
next
  case (Suc n)
  from clock_byte_in[OF assms(1) Suc.prems(2,3), of True] obtain t1 where
    t1: "twi_master_clock_byte_in S True t = Some (True, c, t1)" "clock_low t1"
      "(phase t1, dev t1) = byte_given S True (dev t)" "twi_errno t1 = twi_errno t" by metis
  obtain e d2 where e: "s_send S (s_ack S True (dev t)) = (e, d2)" by fastforce
  then have "phase t1 = Sending 0 e" "dev t1 = d2" using t1(3) by (simp_all add: byte_given_def)
  from Suc.IH[OF _ t1(2) this(1)] this(2) t1(1,4) obtain t2 where
    "transfer_in S (Suc n) t1 = Some (True, e # fst (read_bytes S n (s_ack S (n \<noteq> 0) d2)), t2)" "bus_held t2"
    "dev t2 = snd (read_bytes S n (s_ack S (n \<noteq> 0) d2))" "twi_errno t2 = twi_errno t" by metis
  then show ?case using Suc.prems(1)[of t2] t1(1) e
    by (simp add: Let_def case_prod_beta del: transfer_in.simps(2)) (simp add: transfer_in.simps(2)[of S "Suc n"] del: transfer_in.simps)
qed

lemma read_bit: "address AND TWI_READ_BIT \<noteq> 0 \<longleftrightarrow> bit address 0" for address :: u8
  by (simp add: TWI_READ_BIT_def and_one_eq bit_0 odd_iff_mod_2_eq_one)

definition nack_errno :: "bool \<Rightarrow> bool \<Rightarrow> u32" where
  "nack_errno addr_ok ok = (if \<not> addr_ok then TWI_ERR_ADDR_NACK else if \<not> ok then TWI_ERR_DATA_NACK else 0)"

lemma transfer_bytes:
  assumes "responsive S" "bus_free t \<or> bus_held t" "bit address 0 \<Longrightarrow> n \<noteq> 0"
  obtains ok bs t' where "twi_master_transfer S address out n stop t = Some (ok, bs, t')"
    "transfer_spec S address out n stop (dev t) = (ok, bs, dev t')"
    "if stop \<or> \<not> ok then bus_free t' else bus_held t'"
    "twi_errno t' = nack_errno (fst (s_recv S address (s_start S (dev t)))) ok"
proof -
  let ?t = "t\<lparr>twi_errno := 0\<rparr>"
  have "bus_free ?t \<or> bus_held ?t" using assms(2) by (simp add: bus_free_def bus_held_def clock_low_def resting_def)
  from start_condition[OF assms(1) this] obtain t0 where
    t0: "twi_master_issue_startcondition S ?t = Some (True, t0)" "clock_low t0" "phase t0 = Receiving True []"
      "dev t0 = s_start S (dev t)" "twi_errno t0 = 0" by auto
  let ?t0 = "t0\<lparr>twi_state := TWI_STA_TRANS_ADDR\<rparr>"
  obtain a d1 where r: "s_recv S address (s_start S (dev t)) = (a, d1)" by fastforce
  have "clock_low ?t0" "phase ?t0 = Receiving True []" using t0(2,3) by (simp_all add: clock_low_def)
  then obtain t1 where
    t1: "twi_master_clock_byte S address ?t0 = Some (a, t1)" "clock_low t1"
      "(phase t1, dev t1) = byte_taken S True address (s_start S (dev t))"
      "twi_errno t1 = (if a then 0 else TWI_ERR_ADDR_NACK)"
    using clock_byte[OF assms(1), of ?t0 True address a d1] t0(4,5) r by auto
  define body where "body = (if \<not> a then Some (False, [], t1)
           else let t2 = t1\<lparr>twi_state := TWI_STA_TRANS_DATA\<rparr> in
             if address AND TWI_READ_BIT \<noteq> 0 then transfer_in S n t2
             else do { (ok2, t3) \<leftarrow> transfer_out S out t2; Some (ok2, [], t3) })"
  obtain ok bs d2 where spec: "(if \<not> a then (False, [], d1)
            else if bit address 0 then (let (bs, d2) = read_bytes S n d1 in (True, bs, d2))
            else (let (ok, d2) = write_bytes S out d1 in (ok, [], d2))) = (ok, bs, d2)"
    by (metis prod_cases3)
  obtain t2 where t2: "body = Some (ok, bs, t2)" "bus_held t2" "dev t2 = d2" "twi_errno t2 = nack_errno a ok"
  proof (cases a)
    case False
    then show ?thesis using that[of t1] t1 r spec
      by (simp add: body_def byte_taken_def bus_held_def resting_def nack_errno_def)
  next
    case True
    let ?t2 = "t1\<lparr>twi_state := TWI_STA_TRANS_DATA\<rparr>"
    have c: "clock_low ?t2" using t1(2) by (simp add: clock_low_def)
    show ?thesis
    proof (cases "bit address 0")
      case b: True
      obtain e d3 where e: "s_send S d1 = (e, d3)" by fastforce
      obtain m where m: "n = Suc m" using assms(3)[OF b] not0_implies_Suc by blast
      have "phase ?t2 = Sending 0 e" "dev ?t2 = d3" using t1(3) r True b e by (simp_all add: byte_taken_def)
      from transfer_in[OF assms(1) c this(1), of m] this(2) obtain t3 where
        "transfer_in S n ?t2 = Some (True, e # fst (read_bytes S m (s_ack S (m \<noteq> 0) d3)), t3)" "bus_held t3"
        "dev t3 = snd (read_bytes S m (s_ack S (m \<noteq> 0) d3))" "twi_errno t3 = 0"
        using t1(4) True m by auto
      then show ?thesis using that[of t3] spec True b e m
        by (auto simp: body_def read_bit nack_errno_def case_prod_beta)
    next
      case b: False
      have p: "phase ?t2 = Receiving False []" "dev ?t2 = d1" "twi_state ?t2 = TWI_STA_TRANS_DATA" "twi_errno ?t2 = 0"
        using t1(3,4) r True b by (simp_all add: byte_taken_def)
      have w: "write_bytes S out (dev ?t2) = (ok, d2)" "bs = []"
        using spec True b p(2) by (simp_all add: case_prod_beta prod_eq_iff)
      obtain t3 where t3: "transfer_out S out ?t2 = Some (ok, t3)" "bus_held t3" "dev t3 = d2"
        "twi_errno t3 = (if ok then 0 else 0 OR TWI_ERR_DATA_NACK)"
        using transfer_out[OF assms(1) c p(1,3) w(1), unfolded p(4)] by blast
      have "body = Some (ok, bs, t3)" using t3(1) True b w(2) by (simp add: body_def read_bit)
      then show ?thesis using that[of t3] t3 True by (simp add: nack_errno_def)
    qed
  qed
  have run: "twi_master_transfer S address out n stop t =
      (if stop \<or> \<not> ok then do { (s, t4) \<leftarrow> twi_master_issue_stopcondition S t2; Some (ok \<and> s, bs, t4) }
       else Some (ok, bs, t2))"
    using t2(1) by (simp add: twi_master_transfer_def t0(1) t1(1) body_def)
  have sp: "transfer_spec S address out n stop (dev t) = (ok, bs, if stop \<or> \<not> ok then s_stop S d2 else d2)"
    by (simp add: transfer_spec_def r spec del: split_paired_All)
  show thesis
  proof (cases "stop \<or> \<not> ok")
    case True
    from stop_condition[OF t2(2)] obtain t4 where
      "twi_master_issue_stopcondition S t2 = Some (True, t4)" "bus_free t4" "dev t4 = s_stop S d2" "twi_errno t4 = twi_errno t2"
      using t2(3) by metis
    then show thesis using that[of ok bs t4] run sp True t2(4) r by simp
  next
    case False
    then show thesis using that[of ok bs t2] run sp t2 r by simp
  qed
qed

section \<open>A device stuck in the middle of a byte\<close>

definition prompt_device :: "'b i2c_slave \<Rightarrow> bool" where
  "prompt_device S \<longleftrightarrow> (\<forall>d. s_stretch S d = Some 0)"

lemma prompt_responsive: "prompt_device S \<Longrightarrow> responsive S"
  by (simp add: prompt_device_def responsive_def)

lemma hold_stays:
  assumes "prompt_device S" "hold t = Some 0"
  shows "hold (set_scl S v t) = Some 0" "hold (set_sda S v t) = Some 0" "scl_out (set_scl S v t) = v"
    "scl_out (set_sda S v t) = scl_out t" "sda_out (set_scl S v t) = sda_out t" "sda_out (set_sda S v t) = v"
  using assms
  by (auto simp: set_scl_def set_sda_def scl_falls_def scl_rises_def prompt_device_def Let_def next_byte_def
      case_prod_beta split: phase.split)

text \<open>The number of pulses for which a device can still keep SDA low.\<close>

definition low_pulses :: "phase \<Rightarrow> nat" where
  "low_pulses p = (case p of Ack_Out a r \<Rightarrow> if a then 9 else 0 | Sending k b \<Rightarrow> 8 - k | Ack_In a \<Rightarrow> if a then 9 else 0 | _ \<Rightarrow> 0)"

lemma pulse_progress:
  assumes "prompt_device S" "scl_out t" "hold t = Some 0" "pulls (phase t)"
    "\<forall>k b. phase t = Sending k b \<longrightarrow> k < 8"
  defines "t' \<equiv> set_scl S True (set_scl S False t)"
  shows "pulls (phase t') \<Longrightarrow> low_pulses (phase t') < low_pulses (phase t)" "\<forall>k b. phase t' = Sending k b \<longrightarrow> k < 8"
  using assms
  by (cases t; cases "phase t";
      auto simp: set_scl_def scl_level_def scl_falls_def scl_rises_def prompt_device_def Let_def next_byte_def
        case_prod_beta pulls_def low_pulses_def split: if_splits)+

lemma sda_in_kept [simp]:
  "sda_in (set_scl S v t) = sda_in t" "sda_in (set_sda S v t) = sda_in t"
  by (auto simp: set_scl_def set_sda_def scl_falls_def scl_rises_def Let_def next_byte_def case_prod_beta split: phase.split)

lemma clear_pulses_frees:
  assumes "prompt_device S" "scl_out t" "hold t = Some 0" "sda_out t" "sda_in t" "pulls (phase t)"
    "\<forall>k b. phase t = Sending k b \<longrightarrow> k < 8" "low_pulses (phase t) \<le> n"
  shows "\<exists>t'. clear_pulses S n t = (True, t') \<and> bus_free t'"
  using assms(2-)
proof (induction n arbitrary: t)
  case 0
  then show ?case by (auto simp: pulls_def low_pulses_def split: phase.splits)
next
  case (Suc n)
  let ?t = "set_scl S True (set_scl S False t)"
  note h = hold_stays[OF assms(1) Suc.prems(2)]
  have t: "scl_out ?t" "hold ?t = Some 0" "sda_out ?t" "sda_in ?t"
    using h Suc.prems(3,4) hold_stays[OF assms(1), of "set_scl S False t"] by simp_all
  have p: "pulls (phase ?t) \<Longrightarrow> low_pulses (phase ?t) \<le> n" "\<forall>k b. phase ?t = Sending k b \<longrightarrow> k < 8"
    using pulse_progress[OF assms(1) Suc.prems(1,2,5,6)] Suc.prems(7) by auto
  show ?case
  proof (cases "pulls (phase ?t)")
    case True
    have "\<not> read_sda ?t" using True by (simp add: read_sda_def sda_level_def)
    then show ?thesis using Suc.IH[OF t True p(2) p(1)[OF True]] by (simp add: Let_def)
  next
    case False
    then show ?thesis using t by (simp add: Let_def read_sda_def sda_level_def bus_free_def)
  qed
qed

definition phase_ok :: "'b twi \<Rightarrow> bool" where
  "phase_ok t \<longleftrightarrow> (\<forall>k b. phase t = Sending k b \<longrightarrow> k < 8)"

lemma phase_ok_pins: "phase_ok t \<Longrightarrow> phase_ok (set_scl S v t)" "phase_ok t \<Longrightarrow> phase_ok (set_sda S v t)"
  by (auto simp: phase_ok_def set_scl_def set_sda_def scl_falls_def scl_rises_def Let_def next_byte_def case_prod_beta
      split: phase.splits if_splits)

lemma low_pulses_bound: "low_pulses p \<le> 9"
  by (auto simp: low_pulses_def split: phase.split)

lemma phase_ok_mode: "phase_ok (sda_mode v t) = phase_ok t"
  by (simp add: phase_ok_def sda_mode_def)

lemma clear_bus_frees:
  assumes "prompt_device S" "hold t = Some 0" "phase_ok t"
  shows "\<exists>t'. twi_master_clear_bus S t = (True, t') \<and> bus_free t'"
proof -
  let ?t = "sda_mode True (set_scl S True (set_sda S True t))"
  have t: "scl_out ?t" "hold ?t = Some 0" "sda_out ?t" "sda_in ?t"
    using hold_stays[OF assms(1)] assms(2) by (simp_all add: sda_mode_def)
  have "phase_ok ?t" using assms(3) by (simp add: phase_ok_pins phase_ok_mode)
  then have ok: "\<forall>k b. phase ?t = Sending k b \<longrightarrow> k < 8" by (simp add: phase_ok_def)
  have r: "read_scl ?t = (True, ?t)" using t by (cases "?t") (simp add: read_scl_def scl_level_def)
  show ?thesis
  proof (cases "pulls (phase ?t)")
    case True
    have "low_pulses (phase ?t) \<le> 18" using low_pulses_bound[of "phase ?t"] by simp
    from clear_pulses_frees[OF assms(1) t True ok this] show ?thesis
      using True t r by (simp add: twi_master_clear_bus_def Let_def read_sda_def sda_level_def)
  next
    case False
    then show ?thesis using t r by (simp add: twi_master_clear_bus_def Let_def read_sda_def sda_level_def bus_free_def)
  qed
qed

lemma init_frees:
  assumes "prompt_device S" "hold t = Some 0" "phase_ok t"
  shows "\<exists>t'. twi_master_init S t = (True, t') \<and> bus_free t'"
proof -
  note h = hold_stays[OF assms(1)]
  let ?t1 = "set_scl S (scl_out t) (set_scl S True t)"
  let ?t2 = "set_sda S (sda_out ?t1) (set_sda S True ?t1)"
  have "hold (sda_mode False ?t2) = Some 0" using assms(2) h by (simp add: sda_mode_def)
  moreover have "phase_ok (sda_mode False ?t2)"
    using assms(3) by (simp add: phase_ok_pins phase_ok_mode)
  ultimately show ?thesis using clear_bus_frees[OF assms(1)] by (simp add: twi_master_init_def Let_def)
qed

section \<open>Properties\<close>

text \<open>C14: The waveform is the transfer.  For every device that does not hold SCL for ever, from a free bus or
  one held after an earlier transfer, the bit-banged transfer returns and has on the device exactly
  the effect of START, the address, the data bytes as long as they are acknowledged, and STOP if
  asked for or after a missing acknowledge; the result and the bytes read are those of the device,
  and the error number names the byte that was not acknowledged.\<close>

theorem twi_transfer_refines:
  assumes "responsive S" "bus_free t \<or> bus_held t" "bit address 0 \<longrightarrow> n \<noteq> 0"
  shows "\<exists>ok bs t'. twi_master_transfer S address out n stop t = Some (ok, bs, t') \<and>
    transfer_spec S address out n stop (dev t) = (ok, bs, dev t') \<and>
    (if stop \<or> \<not> ok then bus_free t' else bus_held t') \<and>
    twi_errno t' = nack_errno (fst (s_recv S address (s_start S (dev t)))) ok"
  using transfer_bytes[OF assms(1,2)] assms(3) by metis

text \<open>A device that keeps what it is sent after its address 0xA0, and returns it byte by byte, stretching the clock.\<close>

definition toy_slave :: "(bool \<times> u8 list) i2c_slave" where
  "toy_slave = \<lparr>s_start = \<lambda>(_, m). (True, m), s_stop = id,
     s_recv = \<lambda>b (first, m). if first then (b = 0xA0 \<or> b = 0xA1, (False, m)) else (True, (False, m @ [b])),
     s_send = \<lambda>(f, m). (if m = [] then 0xFF else hd m, (f, tl m)), s_ack = \<lambda>_ d. d, s_stretch = \<lambda>_. Some 3\<rparr>"

definition toy_bus :: "(bool \<times> u8 list) twi" where
  "toy_bus = \<lparr>scl_out = True, sda_out = True, sda_in = True, phase = Quiet, hold = Some 0, dev = (False, [7, 8]),
     twi_errno = 0, twi_state = 0\<rparr>"

lemma toy_ok: "responsive toy_slave" "bus_free toy_bus"
  by (simp_all add: responsive_def toy_slave_def bus_free_def toy_bus_def pulls_def)

theorem twi_transfer_refines_witness:
  "\<exists>t'. twi_master_transfer toy_slave 0xA1 [] 2 True toy_bus = Some (True, [7, 8], t') \<and> bus_free t' \<and> twi_errno t' = 0"
proof -
  have "transfer_spec toy_slave 0xA1 [] 2 True (dev toy_bus) = (True, [7, 8], (False, []))"
    by (simp add: transfer_spec_def toy_slave_def toy_bus_def numeral_2_eq_2 bit_0)
  moreover have "fst (s_recv toy_slave 0xA1 (s_start toy_slave (dev toy_bus)))"
    by (simp add: toy_slave_def toy_bus_def)
  ultimately show ?thesis
    using twi_transfer_refines[OF toy_ok(1) disjI1[OF toy_ok(2)], where address = "0xA1" and n = 2 and out = "[]" and stop = True] by (auto simp: nack_errno_def)
qed

text \<open>C21: A stuck device is freed.  Whatever phase of a transfer the last owner of the bus left a device in,
  one that does not hold SCL lets go of SDA within the eighteen pulses of the initialisation, which
  reports a clear bus, and the next transfer runs.\<close>

theorem twi_bus_recovers:
  assumes "prompt_device S" "hold t = Some 0" "phase_ok t" "bit address 0 \<longrightarrow> n \<noteq> 0"
  shows "\<exists>t'. twi_master_init S t = (True, t') \<and> bus_free t' \<and>
    (\<exists>ok bs t2. twi_master_transfer S address out n True t' = Some (ok, bs, t2) \<and> bus_free t2)"
proof -
  obtain t' where t': "twi_master_init S t = (True, t')" "bus_free t'" using init_frees[OF assms(1-3)] by blast
  show ?thesis using t' transfer_bytes[OF prompt_responsive[OF assms(1)] disjI1[OF t'(2)], of address n out True] assms(4) by metis
qed

definition stuck_bus :: "(bool \<times> u8 list) twi" where
  "stuck_bus = toy_bus\<lparr>scl_out := False, phase := Sending 2 0\<rparr>"

theorem twi_bus_recovers_witness:
  "\<exists>t'. twi_master_init (toy_slave\<lparr>s_stretch := \<lambda>_. Some 0\<rparr>) stuck_bus = (True, t') \<and> bus_free t'"
  using twi_bus_recovers[of "toy_slave\<lparr>s_stretch := \<lambda>_. Some 0\<rparr>" stuck_bus "0xA0"]
  by (auto simp: prompt_device_def stuck_bus_def toy_bus_def phase_ok_def bit_0)

text \<open>A device that holds SCL for good hangs the caller: no transfer that clocks a bit returns.\<close>

lemma twi_scl_held:
  assumes "bus_held t \<or> \<not> scl_out t" "hold t = None"
  shows "twi_master_transfer S address out n stop t = None"
  using assms wait_stuck[of "set_sda S True (t\<lparr>twi_errno := 0\<rparr>)" S]
  by (auto simp: twi_master_transfer_def twi_master_issue_startcondition_def set_sda_def scl_level_def bus_held_def clock_low_def)

end
