(* ===== verification/I2c_Bus.thy ===== *)
theory I2c_Bus
  imports Twi_Master
begin

text \<open>
  The shared I2C bus, \<open>iic_bus/i2c_bus.c\<close>, in the compiled variant over the bit-banged master: the
  access to the memory chip, with one repetition, and to the clock chip.  The mutex is taken without a
  timeout and released on every path, so it leaves no trace in a single run.  The pause of a millisecond before the repetition of a
  failed access is left out.  A buffer argument of a
  read is what the buffer held before; the result is what it holds afterwards.
\<close>

section \<open>The functions\<close>

definition i2c_bus_init :: "'b i2c_slave \<Rightarrow> bool \<Rightarrow> 'b twi \<Rightarrow> int \<times> bool \<times> 'b twi" where
  "i2c_bus_init S inited t =
     (if inited then (0, True, t)
      else let (ok, t1) = twi_master_init S t in if ok = False then (-1, False, t1) else (0, True, t1))"

definition reinit_after :: "'b i2c_slave \<Rightarrow> bool \<Rightarrow> 'b twi \<Rightarrow> 'b twi" where
  "reinit_after S ret t = (if \<not> ret then snd (twi_master_init S t) else t)"

definition i2c_bus_rtc_write :: "'b i2c_slave \<Rightarrow> u8 \<Rightarrow> u8 \<Rightarrow> u8 \<Rightarrow> 'b twi \<Rightarrow> (int \<times> 'b twi) option" where
  "i2c_bus_rtc_write S addr reg data t = do {
     (ret, _, t1) \<leftarrow> twi_master_transfer S (push_bit 1 addr OR TWI_WRITE_BIT) [reg, data] 0 True t;
     Some (if ret = False then -1 else 0, reinit_after S ret t1) }"

definition i2c_bus_rtc_read :: "'b i2c_slave \<Rightarrow> u8 \<Rightarrow> u8 \<Rightarrow> u8 list \<Rightarrow> 'b twi \<Rightarrow> (int \<times> u8 list \<times> 'b twi) option" where
  "i2c_bus_rtc_read S addr reg buf t = do {
     (ret1, _, t1) \<leftarrow> twi_master_transfer S (push_bit 1 addr OR TWI_WRITE_BIT) [reg] 0 False t;
     (ret, bs, t2) \<leftarrow>
       (if ret1 then twi_master_transfer S (push_bit 1 addr OR TWI_READ_BIT) [] 1 True t1 else Some (False, [], t1));
     Some (if ret = False then -1 else 0, bs @ drop (length bs) buf, reinit_after S ret t2) }"

definition mem_addr_bytes :: "u8 \<Rightarrow> u16 \<Rightarrow> u8 list" where
  "mem_addr_bytes addr_width mem_addr = (if addr_width = 16 then [hi8 mem_addr] else []) @ [lo8 mem_addr]"

definition i2c_bus_eep_write_0 ::
  "'b i2c_slave \<Rightarrow> u8 \<Rightarrow> u8 \<Rightarrow> u16 \<Rightarrow> u8 list \<Rightarrow> 'b twi \<Rightarrow> (int \<times> 'b twi) option" where
  "i2c_bus_eep_write_0 S dev_addr addr_width mem_addr buf t = do {
     (ret, _, t1) \<leftarrow> twi_master_transfer S (dev_addr OR TWI_WRITE_BIT) (mem_addr_bytes addr_width mem_addr @ buf) 0 True t;
     Some (if ret = False then -1 else 0, reinit_after S ret t1) }"

definition i2c_bus_eep_write ::
  "'b i2c_slave \<Rightarrow> u8 \<Rightarrow> u8 \<Rightarrow> u16 \<Rightarrow> u8 list \<Rightarrow> 'b twi \<Rightarrow> (int \<times> 'b twi) option" where
  "i2c_bus_eep_write S dev_addr addr_width mem_addr buf t = do {
     (r, t1) \<leftarrow> i2c_bus_eep_write_0 S dev_addr addr_width mem_addr buf t;
     let ret = (of_int r :: u16)
     in if 0 \<noteq> ret
        then do {
          (r2, t2) \<leftarrow> i2c_bus_eep_write_0 S dev_addr addr_width mem_addr buf t1;
          let ret2 = (of_int r2 :: u16) in Some (if 0 \<noteq> ret2 then 1 else uint ret2, t2) }
        else Some (uint ret, t1) }"

definition i2c_bus_eep_read_0 ::
  "'b i2c_slave \<Rightarrow> u8 \<Rightarrow> u8 \<Rightarrow> u16 \<Rightarrow> u8 list \<Rightarrow> 'b twi \<Rightarrow> (int \<times> u8 list \<times> 'b twi) option" where
  "i2c_bus_eep_read_0 S dev_addr addr_width mem_addr buf t = do {
     (ret1, _, t1) \<leftarrow> twi_master_transfer S (dev_addr OR TWI_WRITE_BIT) (mem_addr_bytes addr_width mem_addr) 0 False t;
     (ret, bs, t2) \<leftarrow>
       (if ret1 then twi_master_transfer S (dev_addr OR TWI_READ_BIT) [] (length buf) True t1 else Some (False, [], t1));
     Some (if ret = False then -1 else 0, bs @ drop (length bs) buf, reinit_after S ret t2) }"

definition i2c_bus_eep_read ::
  "'b i2c_slave \<Rightarrow> u8 \<Rightarrow> u8 \<Rightarrow> u16 \<Rightarrow> u8 list \<Rightarrow> 'b twi \<Rightarrow> (int \<times> u8 list \<times> 'b twi) option" where
  "i2c_bus_eep_read S dev_addr addr_width mem_addr buf t = do {
     (r, buf1, t1) \<leftarrow> i2c_bus_eep_read_0 S dev_addr addr_width mem_addr buf t;
     let ret = (of_int r :: u16)
     in if 0 \<noteq> ret
        then do {
          (r2, buf2, t2) \<leftarrow> i2c_bus_eep_read_0 S dev_addr addr_width mem_addr buf1 t1;
          let ret2 = (of_int r2 :: u16) in Some (if 0 \<noteq> ret2 then 1 else uint ret2, buf2, t2) }
        else Some (uint ret, buf1, t1) }"


section \<open>What they do to the device\<close>

text \<open>On a free bus the initialisation changes nothing but the direction of SDA.\<close>

lemma init_free:
  assumes "bus_free t"
  shows "twi_master_init S t = (True, t\<lparr>sda_in := True\<rparr>)"
  using assms
  by (cases t) (auto simp: bus_free_def twi_master_init_def twi_master_clear_bus_def set_scl_def set_sda_def scl_level_def
      sda_level_def read_sda_def read_scl_def sda_mode_def Let_def)

lemma reinit_free:
  assumes "bus_free t"
  shows "bus_free (reinit_after S ret t)" "dev (reinit_after S ret t) = dev t"
  using assms by (simp_all add: reinit_after_def init_free bus_free_def)

definition i2c_code :: "bool \<Rightarrow> int" where "i2c_code ok = (if ok = False then -1 else 0)"

definition eep_write_dev :: "'b i2c_slave \<Rightarrow> u8 \<Rightarrow> u8 \<Rightarrow> u16 \<Rightarrow> u8 list \<Rightarrow> 'b \<Rightarrow> bool \<times> 'b" where
  "eep_write_dev S a w m buf d =
     (let (ok, _, d1) = transfer_spec S a (mem_addr_bytes w m @ buf) 0 True d in (ok, d1))"

definition eep_read_dev :: "'b i2c_slave \<Rightarrow> u8 \<Rightarrow> u8 \<Rightarrow> u16 \<Rightarrow> nat \<Rightarrow> 'b \<Rightarrow> bool \<times> u8 list \<times> 'b" where
  "eep_read_dev S a w m n d =
     (let (ok, _, d1) = transfer_spec S a (mem_addr_bytes w m) 0 False d
      in if ok then transfer_spec S (a OR TWI_READ_BIT) [] n True d1 else (False, [], d1))"

lemma write_bit [simp]: "a OR TWI_WRITE_BIT = a" for a :: u8
  by (simp add: TWI_WRITE_BIT_def)

lemma transfer_run:
  assumes "responsive S" "bus_free t \<or> bus_held t" "bit address 0 \<longrightarrow> n \<noteq> 0"
    "transfer_spec S address out n stop (dev t) = (ok, bs, d)"
  shows "\<exists>t'. twi_master_transfer S address out n stop t = Some (ok, bs, t') \<and> dev t' = d \<and>
    (if stop \<or> \<not> ok then bus_free t' else bus_held t')"
proof -
  obtain ok1 bs1 t1 where "twi_master_transfer S address out n stop t = Some (ok1, bs1, t1)"
    "transfer_spec S address out n stop (dev t) = (ok1, bs1, dev t1)" "if stop \<or> \<not> ok1 then bus_free t1 else bus_held t1"
    by (rule transfer_bytes[OF assms(1,2), of address n out stop]) (use assms(3) in blast)+
  then show ?thesis using assms(4) by simp
qed

lemma eep_write_0_dev:
  assumes "responsive S" "bus_free t" "\<not> bit a 0" "eep_write_dev S a w m buf (dev t) = (ok, d)"
  shows "\<exists>t'. i2c_bus_eep_write_0 S a w m buf t = Some (i2c_code ok, t') \<and> bus_free t' \<and> dev t' = d"
proof -
  obtain bs where "transfer_spec S a (mem_addr_bytes w m @ buf) 0 True (dev t) = (ok, bs, d)"
    using assms(4) by (auto simp: eep_write_dev_def split: prod.splits)
  from transfer_run[OF assms(1) disjI1[OF assms(2)] _ this] assms(3) obtain t1 where
    t1: "twi_master_transfer S a (mem_addr_bytes w m @ buf) 0 True t = Some (ok, bs, t1)" "dev t1 = d" "bus_free t1"
    by auto
  then show ?thesis using reinit_free[OF t1(3)]
    by (simp add: i2c_bus_eep_write_0_def i2c_code_def)
qed

lemma eep_read_0_dev:
  assumes "responsive S" "bus_free t" "\<not> bit a 0" "buf \<noteq> []" "eep_read_dev S a w m (length buf) (dev t) = (ok, bs, d)"
  shows "\<exists>t'. i2c_bus_eep_read_0 S a w m buf t = Some (i2c_code ok, bs @ drop (length bs) buf, t') \<and> bus_free t' \<and> dev t' = d"
proof -
  obtain ok1 bs1 d1 where sp: "transfer_spec S a (mem_addr_bytes w m) 0 False (dev t) = (ok1, bs1, d1)"
    by (metis prod_cases3)
  from transfer_run[OF assms(1) disjI1[OF assms(2)] _ this] assms(3) obtain t1 where
    t1: "twi_master_transfer S a (mem_addr_bytes w m) 0 False t = Some (ok1, bs1, t1)"
    "transfer_spec S a (mem_addr_bytes w m) 0 False (dev t) = (ok1, bs1, dev t1)" "if ok1 then bus_held t1 else bus_free t1"
    using sp by (cases ok1) auto
  show ?thesis
  proof (cases ok1)
    case False
    then have "bus_free t1" "ok = False" "bs = []" "d = dev t1" using t1 assms(5) by (simp_all add: eep_read_dev_def)
    then show ?thesis using t1(1) False reinit_free[of t1 S]
      by (simp add: i2c_bus_eep_read_0_def i2c_code_def)
  next
    case True
    have "transfer_spec S (a OR TWI_READ_BIT) [] (length buf) True (dev t1) = (ok, bs, d)"
      using t1(2) assms(5) True by (simp add: eep_read_dev_def)
    from transfer_run[OF assms(1) disjI2 _ this] t1(3) assms(4) True obtain t2 where
      t2: "twi_master_transfer S (a OR TWI_READ_BIT) [] (length buf) True t1 = Some (ok, bs, t2)" "dev t2 = d" "bus_free t2"
      by auto
    then show ?thesis using t1(1) True reinit_free[OF t2(3)]
      by (simp add: i2c_bus_eep_read_0_def i2c_code_def)
  qed
qed

text \<open>With the repetition: a transfer that fails once is tried again on what the first one left.\<close>

lemma code_u16: "(of_int (i2c_code ok) :: u16) = (if ok then 0 else 65535)"
  by (simp add: i2c_code_def)

lemma eep_write_dev:
  assumes "responsive S" "bus_free t" "\<not> bit a 0" "eep_write_dev S a w m buf (dev t) = (True, d)"
  shows "\<exists>t'. i2c_bus_eep_write S a w m buf t = Some (0, t') \<and> bus_free t' \<and> dev t' = d"
  using eep_write_0_dev[OF assms] by (auto simp: i2c_bus_eep_write_def code_u16)

lemma eep_read_dev:
  assumes "responsive S" "bus_free t" "\<not> bit a 0" "buf \<noteq> []" "eep_read_dev S a w m (length buf) (dev t) = (True, bs, d)"
    "length bs = length buf"
  shows "\<exists>t'. i2c_bus_eep_read S a w m buf t = Some (0, bs, t') \<and> bus_free t' \<and> dev t' = d"
  using eep_read_0_dev[OF assms(1-5)] assms(6) by (auto simp: i2c_bus_eep_read_def code_u16)

text \<open>A device that acknowledges nothing: both functions answer 1, which is not negative.\<close>

definition silent :: "'b i2c_slave \<Rightarrow> u8 \<Rightarrow> ('b \<Rightarrow> bool) \<Rightarrow> bool" where
  "silent S a I \<longleftrightarrow> (\<forall>d. I d \<longrightarrow> \<not> fst (s_recv S a (s_start S d)) \<and> I (s_stop S (snd (s_recv S a (s_start S d)))))"

lemma silent_spec:
  assumes "silent S a I" "I d"
  shows "\<exists>d'. transfer_spec S a out n stop d = (False, [], d') \<and> I d'"
  using assms by (auto simp: transfer_spec_def silent_def case_prod_beta)

lemma eep_write_0_silent:
  assumes "responsive S" "bus_free t" "\<not> bit a 0" "silent S a I" "I (dev t)"
  shows "\<exists>t'. i2c_bus_eep_write_0 S a w m buf t = Some (-1, t') \<and> bus_free t' \<and> I (dev t')"
proof -
  obtain d where d: "transfer_spec S a (mem_addr_bytes w m @ buf) 0 True (dev t) = (False, [], d)" "I d"
    using silent_spec[OF assms(4,5)] by blast
  then have "eep_write_dev S a w m buf (dev t) = (False, d)" by (simp add: eep_write_dev_def)
  from eep_write_0_dev[OF assms(1-3) this] d(2) show ?thesis by (auto simp: i2c_code_def)
qed

lemma eep_read_0_silent:
  assumes "responsive S" "bus_free t" "\<not> bit a 0" "buf \<noteq> []" "silent S a I" "I (dev t)"
  shows "\<exists>t'. i2c_bus_eep_read_0 S a w m buf t = Some (-1, buf, t') \<and> bus_free t' \<and> I (dev t')"
proof -
  obtain d where d: "transfer_spec S a (mem_addr_bytes w m) 0 False (dev t) = (False, [], d)" "I d"
    using silent_spec[OF assms(5,6)] by blast
  then have "eep_read_dev S a w m (length buf) (dev t) = (False, [], d)" by (simp add: eep_read_dev_def)
  from eep_read_0_dev[OF assms(1-4) this] d(2) show ?thesis by (auto simp: i2c_code_def)
qed

lemma eep_write_silent:
  assumes "responsive S" "bus_free t" "\<not> bit a 0" "silent S a I" "I (dev t)"
  shows "\<exists>t'. i2c_bus_eep_write S a w m buf t = Some (1, t') \<and> bus_free t' \<and> I (dev t')"
proof -
  obtain t1 where t1: "i2c_bus_eep_write_0 S a w m buf t = Some (-1, t1)" "bus_free t1" "I (dev t1)"
    using eep_write_0_silent[OF assms] by blast
  obtain t2 where "i2c_bus_eep_write_0 S a w m buf t1 = Some (-1, t2)" "bus_free t2" "I (dev t2)"
    using eep_write_0_silent[OF assms(1) t1(2) assms(3,4) t1(3)] by blast
  then show ?thesis using t1(1) by (simp add: i2c_bus_eep_write_def)
qed

lemma eep_read_silent:
  assumes "responsive S" "bus_free t" "\<not> bit a 0" "buf \<noteq> []" "silent S a I" "I (dev t)"
  shows "\<exists>t'. i2c_bus_eep_read S a w m buf t = Some (1, buf, t') \<and> bus_free t' \<and> I (dev t')"
proof -
  obtain t1 where t1: "i2c_bus_eep_read_0 S a w m buf t = Some (-1, buf, t1)" "bus_free t1" "I (dev t1)"
    using eep_read_0_silent[OF assms] by blast
  obtain t2 where "i2c_bus_eep_read_0 S a w m buf t1 = Some (-1, buf, t2)" "bus_free t2" "I (dev t2)"
    using eep_read_0_silent[OF assms(1) t1(2) assms(3,4,5) t1(3)] by blast
  then show ?thesis using t1(1) by (simp add: i2c_bus_eep_read_def)
qed

text \<open>The clock chip: a register write is the register and its value, a read writes the register and reads one byte.\<close>

lemma rtc_write_dev:
  assumes "responsive S" "bus_free t" "transfer_spec S (push_bit 1 a) [r, x] 0 True (dev t) = (ok, bs, d)"
  shows "\<exists>t'. i2c_bus_rtc_write S a r x t = Some (i2c_code ok, t') \<and> bus_free t' \<and> dev t' = d"
proof -
  have e: "\<not> bit (push_bit 1 a) 0" by (simp add: bit_0)
  from transfer_run[OF assms(1) disjI1[OF assms(2)] _ assms(3)] e obtain t1 where
    "twi_master_transfer S (push_bit 1 a) [r, x] 0 True t = Some (ok, bs, t1)" "dev t1 = d" "bus_free t1" by auto
  then show ?thesis using reinit_free[of t1 S] by (simp add: i2c_bus_rtc_write_def i2c_code_def)
qed

lemma rtc_read_dev:
  assumes "responsive S" "bus_free t" "transfer_spec S (push_bit 1 a) [r] 0 False (dev t) = (True, bs1, d1)"
    "transfer_spec S (push_bit 1 a OR TWI_READ_BIT) [] 1 True d1 = (True, [x], d)"
  shows "\<exists>t'. i2c_bus_rtc_read S a r [y] t = Some (0, [x], t') \<and> bus_free t' \<and> dev t' = d"
proof -
  have e: "\<not> bit (push_bit 1 a) 0" by (simp add: bit_0)
  from transfer_run[OF assms(1) disjI1[OF assms(2)] _ assms(3)] e obtain t1 where
    t1: "twi_master_transfer S (push_bit 1 a) [r] 0 False t = Some (True, bs1, t1)" "dev t1 = d1" "bus_held t1" by auto
  from transfer_run[OF assms(1) disjI2[OF t1(3)], of "push_bit 1 a OR TWI_READ_BIT" 1 "[]" True] t1(2) assms(4) obtain t2 where
    "twi_master_transfer S (push_bit 1 a OR TWI_READ_BIT) [] 1 True t1 = Some (True, [x], t2)" "dev t2 = d" "bus_free t2" by auto
  then show ?thesis using t1(1) by (simp add: i2c_bus_rtc_read_def reinit_after_def)
qed

end
