(* ===== verification/Eeprom.thy ===== *)
theory Eeprom
  imports I2c_Bus
begin

text \<open>
  The EEPROM of the 24Cxx family, \<open>ext_eeprom/drv_24cxx.c\<close> with \<open>drv_24cxx.h\<close>, and the access functions of
  \<open>eeprom_init.c\<close>.  The driver reaches the outside through the function pointers of its handle: fields of
  a record here, over a world \<open>'w\<close>; a handle that was not set is \<open>None\<close>, and calling through it is a null
  call.  Of the eleven types of the header the four are modelled that compile with the pin settings of
  \<open>drv_24cxx_conf.h\<close> (\<open>EEPROM_A0_PIN_STATE\<close> is \<open>-1\<close>); \<open>EEPROM_24C1024\<close> is the default.  Write protection is
  compiled out.  A result is \<open>None\<close> if a transfer does not return, \<open>Inl\<close> of a fault, or the value.
  Yielding to the watchdog between blocks is left out.
\<close>

section \<open>The types\<close>

datatype eeprom_type = EEPROM_24C04 | EEPROM_24C08 | EEPROM_24C16 | EEPROM_24C1024

definition DEV_ADDRESS :: "eeprom_type \<Rightarrow> u8" where
  "DEV_ADDRESS ty = (case ty of EEPROM_24C16 \<Rightarrow> 0xA0 | _ \<Rightarrow> 0xA0 OR push_bit 3 1)"

definition MEMADD_SIZE :: "eeprom_type \<Rightarrow> u8" where
  "MEMADD_SIZE ty = (case ty of EEPROM_24C1024 \<Rightarrow> 16 | _ \<Rightarrow> 8)"

definition MEM_PAGE_SIZE :: "eeprom_type \<Rightarrow> u32" where
  "MEM_PAGE_SIZE ty = (case ty of EEPROM_24C1024 \<Rightarrow> 256 | _ \<Rightarrow> 16)"

definition MEM_NUM_OF_PAGE :: "eeprom_type \<Rightarrow> u32" where
  "MEM_NUM_OF_PAGE ty =
     (case ty of EEPROM_24C04 \<Rightarrow> 32 | EEPROM_24C08 \<Rightarrow> 64 | EEPROM_24C16 \<Rightarrow> 128 | EEPROM_24C1024 \<Rightarrow> 512)"

definition MEM_STWC :: "eeprom_type \<Rightarrow> nat" where
  "MEM_STWC ty = (case ty of EEPROM_24C1024 \<Rightarrow> 5 | _ \<Rightarrow> 10)"

definition MEM_MAX_SIZE :: "eeprom_type \<Rightarrow> u32" where
  "MEM_MAX_SIZE ty = MEM_PAGE_SIZE ty * MEM_NUM_OF_PAGE ty"

definition CALC_DEVADD :: "eeprom_type \<Rightarrow> u32 \<Rightarrow> u8" where
  "CALC_DEVADD ty mem_addr =
     (if MEMADD_SIZE ty = 8 then DEV_ADDRESS ty OR ucast (drop_bit 7 mem_addr AND 0x0E)
      else DEV_ADDRESS ty OR ucast (drop_bit 15 mem_addr AND 0x02))"

section \<open>The driver\<close>

type_synonym 'a run = "'a cres option"

definition rbind :: "'a run \<Rightarrow> ('a \<Rightarrow> 'b run) \<Rightarrow> 'b run" where
  "rbind m f = (case m of None \<Rightarrow> None | Some (Inl e) \<Rightarrow> Some (Inl e) | Some (Inr x) \<Rightarrow> f x)"

definition ret :: "'a \<Rightarrow> 'a run" where "ret x = Some (Inr x)"

lemma rbind_simps [simp]: "rbind (ret x) f = f x" "rbind (Some (Inr x)) f = f x" "rbind None f = None"
  "rbind (Some (Inl e)) f = Some (Inl e)"
  by (simp_all add: rbind_def ret_def)

lemma ret_eq [simp]: "ret x = ret y \<longleftrightarrow> x = y"
  by (simp add: ret_def)

record 'w eeprom_24cxx =
  h_read :: "u8 \<Rightarrow> u8 \<Rightarrow> u16 \<Rightarrow> u8 list \<Rightarrow> 'w \<Rightarrow> (int \<times> u8 list \<times> 'w) option"
  h_write :: "u8 \<Rightarrow> u8 \<Rightarrow> u16 \<Rightarrow> u8 list \<Rightarrow> 'w \<Rightarrow> (int \<times> 'w) option"
  delay_ms :: "nat \<Rightarrow> 'w \<Rightarrow> 'w"
  mutex_take :: "'w \<Rightarrow> 'w"
  mutex_release :: "'w \<Rightarrow> 'w"

text \<open>One transfer of the first \<open>n\<close> bytes of the buffer, and the delay behind it.\<close>

definition write_chunk ::
  "eeprom_type \<Rightarrow> 'w eeprom_24cxx \<Rightarrow> u32 \<Rightarrow> u8 list \<Rightarrow> u32 \<Rightarrow> 'w \<Rightarrow> (bool \<times> 'w) run" where
  "write_chunk ty h mem_addr buf n w =
     (if length buf < unat n then Some (Inl Out_Of_Bounds_Read)
      else case h_write h (CALC_DEVADD ty mem_addr) (MEMADD_SIZE ty) (ucast mem_addr) (take (unat n) buf) w of
             None \<Rightarrow> None
           | Some (r, w1) \<Rightarrow> if r < 0 then ret (False, w1) else ret (True, delay_ms h (MEM_STWC ty) w1))"

lemma page_shrinks: "\<not> len \<le> MEM_PAGE_SIZE ty \<Longrightarrow> unat (len - MEM_PAGE_SIZE ty) < unat len"
proof -
  assume l: "\<not> len \<le> MEM_PAGE_SIZE ty"
  then have "unat (len - MEM_PAGE_SIZE ty) = unat len - unat (MEM_PAGE_SIZE ty)" by (intro unat_sub) simp
  moreover have "0 < unat (MEM_PAGE_SIZE ty)" by (simp add: MEM_PAGE_SIZE_def split: eeprom_type.split)
  ultimately show ?thesis using l by (simp add: not_le word_less_nat_alt)
qed

function program_loop ::
  "eeprom_type \<Rightarrow> 'w eeprom_24cxx \<Rightarrow> u32 \<Rightarrow> u8 list \<Rightarrow> u32 \<Rightarrow> 'w \<Rightarrow> (bool \<times> 'w) run" where
  "program_loop ty h mem_addr buf len w =
     (if len \<le> MEM_PAGE_SIZE ty then write_chunk ty h mem_addr buf len w
      else rbind (write_chunk ty h mem_addr buf (MEM_PAGE_SIZE ty) w) (\<lambda>(ok, w1).
        if \<not> ok then ret (False, w1)
        else program_loop ty h (mem_addr + MEM_PAGE_SIZE ty) (drop (unat (MEM_PAGE_SIZE ty)) buf)
               (len - MEM_PAGE_SIZE ty) w1))"
  by pat_completeness auto

termination by (relation "measure (\<lambda>(ty, h, a, buf, len, w). unat len)") (auto simp: page_shrinks)

declare program_loop.simps [simp del]

definition eeprom_24cxx_program ::
  "eeprom_type \<Rightarrow> 'w eeprom_24cxx \<Rightarrow> u32 \<Rightarrow> u8 list \<Rightarrow> u32 \<Rightarrow> 'w \<Rightarrow> (int \<times> 'w) run" where
  "eeprom_24cxx_program ty h mem_addr buf len w =
     (if mem_addr + len > MEM_MAX_SIZE ty then ret (-1, w)
      else let page_remain = MEM_PAGE_SIZE ty - mem_addr mod MEM_PAGE_SIZE ty in
        rbind
          (if page_remain \<ge> len then write_chunk ty h mem_addr buf len w
           else rbind (write_chunk ty h mem_addr buf page_remain w) (\<lambda>(ok, w1).
             if \<not> ok then ret (False, w1)
             else program_loop ty h (mem_addr + page_remain) (drop (unat page_remain) buf) (len - page_remain) w1))
          (\<lambda>(ok, w2). ret (if ok then 0 else -1, delay_ms h (MEM_STWC ty) w2)))"

definition eeprom_24cxx_write ::
  "eeprom_type \<Rightarrow> 'w eeprom_24cxx option \<Rightarrow> u32 \<Rightarrow> u8 list \<Rightarrow> u32 \<Rightarrow> 'w \<Rightarrow> (int \<times> 'w) run" where
  "eeprom_24cxx_write ty handle mem_addr buf len w =
     (case handle of None \<Rightarrow> Some (Inl Null_Call)
      | Some h \<Rightarrow>
        if len = 0 \<or> len > MEM_MAX_SIZE ty then ret (-1, w)
        else
          let w1 = mutex_take h w; rest = MEM_MAX_SIZE ty - mem_addr;
              finish = (\<lambda>(r, w2). ret (if r < 0 then -1 else 0, mutex_release h w2))
          in if mem_addr + len > MEM_MAX_SIZE ty
             then rbind (eeprom_24cxx_program ty h mem_addr buf rest w1) (\<lambda>(r, w2).
                    if r < 0 then ret (-1, w2)
                    else rbind (eeprom_24cxx_program ty h 0 (drop (unat rest) buf) (len - rest) w2) finish)
             else rbind (eeprom_24cxx_program ty h mem_addr buf len w1) finish)"

text \<open>Reading; the result holds the buffer afterwards.\<close>

definition read_chunk ::
  "eeprom_type \<Rightarrow> 'w eeprom_24cxx \<Rightarrow> u32 \<Rightarrow> u8 list \<Rightarrow> 'w \<Rightarrow> (bool \<times> u8 list \<times> 'w) run" where
  "read_chunk ty h mem_addr buf w =
     (case h_read h (CALC_DEVADD ty mem_addr) (MEMADD_SIZE ty) (ucast mem_addr) buf w of
        None \<Rightarrow> None
      | Some (r, buf1, w1) \<Rightarrow> ret (\<not> r < 0, buf1, w1))"

definition eeprom_24cxx_read ::
  "eeprom_type \<Rightarrow> 'w eeprom_24cxx option \<Rightarrow> u32 \<Rightarrow> u8 list \<Rightarrow> 'w \<Rightarrow> (int \<times> u8 list \<times> 'w) run" where
  "eeprom_24cxx_read ty handle mem_addr buf w =
     (case handle of None \<Rightarrow> Some (Inl Null_Call)
      | Some h \<Rightarrow>
        let len = of_nat (length buf); rest = MEM_MAX_SIZE ty - mem_addr; k = unat rest in
        if len = 0 \<or> len > MEM_MAX_SIZE ty \<or> mem_addr \<ge> MEM_MAX_SIZE ty then ret (-1, buf, w)
        else
          let w1 = mutex_take h w;
              finish = (\<lambda>pre (ok, b, w2). ret (if ok then 0 else -1, pre @ b, mutex_release h w2))
          in if rest < len
             then rbind (read_chunk ty h mem_addr (take k buf) w1) (\<lambda>(ok, b1, w2).
                    if \<not> ok then ret (-1, b1 @ drop k buf, mutex_release h w2)
                    else rbind (read_chunk ty h 0 (drop k buf) w2) (finish b1))
             else rbind (read_chunk ty h mem_addr buf w1) (finish []))"

definition eeprom_port_init :: "'w eeprom_24cxx \<Rightarrow> 'w eeprom_24cxx option" where
  "eeprom_port_init handle = Some handle"

section \<open>Flags and blocks\<close>

definition eeprom_flag_read ::
  "eeprom_type \<Rightarrow> 'w eeprom_24cxx option \<Rightarrow> u16 \<Rightarrow> 'w \<Rightarrow> (int \<times> u16 \<times> 'w) run" where
  "eeprom_flag_read ty handle addr w =
     rbind (eeprom_24cxx_read ty handle (ucast addr) [0xFF, 0xFF] w) (\<lambda>(r, buf, w1).
       rbind (if r \<noteq> 0 then eeprom_24cxx_read ty handle (ucast addr) buf w1 else ret (r, buf, w1)) (\<lambda>(r, buf, w2).
         ret (r, mk16 (buf ! 1) (buf ! 0), w2)))"

definition eeprom_flag_write :: "eeprom_type \<Rightarrow> 'w eeprom_24cxx option \<Rightarrow> u16 \<Rightarrow> u16 \<Rightarrow> 'w \<Rightarrow> (int \<times> 'w) run" where
  "eeprom_flag_write ty handle addr flag w = eeprom_24cxx_write ty handle (ucast addr) [lo8 flag, hi8 flag] 2 w"

text \<open>Blocks of 16 bytes; what is left of the length is not touched.  The offset is computed as an \<open>int\<close>.\<close>

fun data_read_loop ::
  "eeprom_type \<Rightarrow> 'w eeprom_24cxx option \<Rightarrow> u32 \<Rightarrow> nat \<Rightarrow> u8 list \<Rightarrow> 'w \<Rightarrow> (int \<times> u8 list \<times> 'w) run" where
  "data_read_loop ty handle a 0 data w = ret (0, data, w)"
| "data_read_loop ty handle a (Suc n) data w =
     (if length data < 16 then Some (Inl Out_Of_Bounds_Write)
      else rbind (eeprom_24cxx_read ty handle a (take 16 data) w) (\<lambda>(r, b, w1).
       rbind (if r \<noteq> 0 then eeprom_24cxx_read ty handle a b w1 else ret (r, b, w1)) (\<lambda>(r, b, w2).
         if r \<noteq> 0 then ret (r, b @ drop 16 data, w2)
         else rbind (data_read_loop ty handle (a + 16) n (drop 16 data) w2) (\<lambda>(r, bs, w3). ret (r, b @ bs, w3)))))"

definition eeprom_data_read ::
  "eeprom_type \<Rightarrow> 'w eeprom_24cxx option \<Rightarrow> u16 \<Rightarrow> u8 list \<Rightarrow> u16 \<Rightarrow> 'w \<Rightarrow> (int \<times> u8 list \<times> 'w) run" where
  "eeprom_data_read ty handle base_addr data len w = data_read_loop ty handle (ucast base_addr) (unat (len div 16)) data w"

fun data_write_loop ::
  "eeprom_type \<Rightarrow> 'w eeprom_24cxx option \<Rightarrow> u32 \<Rightarrow> nat \<Rightarrow> u8 list \<Rightarrow> 'w \<Rightarrow> (int \<times> 'w) run" where
  "data_write_loop ty handle a 0 data w = ret (0, w)"
| "data_write_loop ty handle a (Suc n) data w =
     rbind (eeprom_24cxx_write ty handle a data 16 w) (\<lambda>(r, w1).
       rbind (if r \<noteq> 0 then eeprom_24cxx_write ty handle a data 16 w1 else ret (r, w1)) (\<lambda>(r, w2).
         if r \<noteq> 0 then ret (r, w2) else data_write_loop ty handle (a + 16) n (drop 16 data) w2))"

definition eeprom_data_write ::
  "eeprom_type \<Rightarrow> 'w eeprom_24cxx option \<Rightarrow> u16 \<Rightarrow> u8 list \<Rightarrow> u16 \<Rightarrow> 'w \<Rightarrow> (int \<times> 'w) run" where
  "eeprom_data_write ty handle base_addr data len w = data_write_loop ty handle (ucast base_addr) (unat (len div 16)) data w"


section \<open>Sizes\<close>

abbreviation page :: "eeprom_type \<Rightarrow> nat" where "page ty \<equiv> unat (MEM_PAGE_SIZE ty)"
abbreviation size_of :: "eeprom_type \<Rightarrow> nat" where "size_of ty \<equiv> unat (MEM_MAX_SIZE ty)"

lemma page_pos: "0 < page ty" and page_small: "page ty \<le> 256" and size_small: "size_of ty \<le> 131072"
  and size_pages: "page ty dvd size_of ty" and size_pos: "0 < size_of ty"
  by (cases ty; simp add: MEM_PAGE_SIZE_def MEM_MAX_SIZE_def MEM_NUM_OF_PAGE_def)+

text \<open>Bytes written at an address below the end, and the memory seen as a ring.\<close>

definition splice :: "nat \<Rightarrow> u8 list \<Rightarrow> u8 list \<Rightarrow> u8 list" where
  "splice a bs m = take a m @ bs @ drop (a + length bs) m"

lemma splice_simps [simp]:
  "splice a [] m = m" "a + length bs \<le> length m \<Longrightarrow> length (splice a bs m) = length m"
  by (simp_all add: splice_def)

lemma splice_append: "a + length bs + length cs \<le> length m \<Longrightarrow> splice (a + length bs) cs (splice a bs m) = splice a (bs @ cs) m"
  by (simp add: splice_def add.assoc add.commute add.left_commute)

lemma nth_splice:
  assumes "a + length bs \<le> length m" "i < length m"
  shows "splice a bs m ! i = (if a \<le> i \<and> i < a + length bs then bs ! (i - a) else m ! i)"
  using assms by (auto simp: splice_def nth_append)

definition ring_write :: "nat \<Rightarrow> u8 list \<Rightarrow> u8 list \<Rightarrow> u8 list" where
  "ring_write a bs m =
     (let k = length m - a in if length bs \<le> k then splice a bs m else splice 0 (drop k bs) (splice a (take k bs) m))"

definition ring_read :: "nat \<Rightarrow> nat \<Rightarrow> u8 list \<Rightarrow> u8 list" where
  "ring_read a n m = map (\<lambda>i. m ! ((a + i) mod length m)) [0..<n]"

lemma ring_read_plain: "a + n \<le> length m \<Longrightarrow> ring_read a n m = take n (drop a m)"
  by (rule nth_equalityI) (auto simp: ring_read_def)

lemma ring_read_wrap:
  assumes "a < length m" "n \<le> length m" "length m < a + n"
  shows "ring_read a n m = drop a m @ take (n - (length m - a)) m"
proof (rule nth_equalityI)
  show "length (ring_read a n m) = length (drop a m @ take (n - (length m - a)) m)"
    using assms by (simp add: ring_read_def)
  fix i assume "i < length (ring_read a n m)"
  then have i: "i < n" by (simp add: ring_read_def)
  show "ring_read a n m ! i = (drop a m @ take (n - (length m - a)) m) ! i"
  proof (cases "i < length m - a")
    case True
    then show ?thesis using i assms by (simp add: ring_read_def nth_append)
  next
    case False
    then have "(a + i) mod length m = i - (length m - a)"
      using assms i le_mod_geq[of "length m" "a + i"] by simp
    then show ?thesis using False i assms by (simp add: ring_read_def nth_append)
  qed
qed

lemma ring_roundtrip:
  assumes "a < length m" "length bs \<le> length m"
  shows "ring_read a (length bs) (ring_write a bs m) = bs"
proof (cases "length bs \<le> length m - a")
  case True
  then have l: "a + length bs \<le> length m" using assms(1) by simp
  then show ?thesis using True by (simp add: ring_write_def ring_read_plain splice_def)
next
  case False
  let ?k = "length m - a" and ?m = "splice a (take (length m - a) bs) m"
  have k: "length (take ?k bs) = ?k" "a + ?k = length m" using False assms(1) by simp_all
  have m: "?m = take a m @ take ?k bs" using k by (simp add: splice_def)
  have d: "length bs - ?k \<le> a" "a < length m" using assms False by simp_all
  have w: "ring_write a bs m = drop ?k bs @ drop (length bs - ?k) (take a m) @ take ?k bs"
    using False d by (simp add: ring_write_def Let_def m) (simp add: splice_def)
  have "ring_read a (length bs) (ring_write a bs m) =
    drop a (ring_write a bs m) @ take (length bs - ?k) (ring_write a bs m)"
    using ring_read_wrap[of a "ring_write a bs m" "length bs"] assms False d by (simp add: w)
  also have "\<dots> = take ?k bs @ drop ?k bs" using d assms False by (simp add: w)
  finally show ?thesis by simp
qed

section \<open>The interface of the chip\<close>

text \<open>What the driver relies on: a transfer that stays inside a page writes, one that stays inside the
  memory reads, and after the write cycle time the chip answers again.\<close>

locale eeprom_port =
  fixes ty :: eeprom_type and h :: "'w eeprom_24cxx"
    and cells :: "'w \<Rightarrow> u8 list" and present :: "'w \<Rightarrow> bool" and ready :: "'w \<Rightarrow> bool"
  assumes present_length: "present w \<Longrightarrow> length (cells w) = size_of ty"
    and ready_present: "ready w \<Longrightarrow> present w"
    and port_write: "ready w \<Longrightarrow> bs \<noteq> [] \<Longrightarrow> unat a mod page ty + length bs \<le> page ty \<Longrightarrow> unat a < size_of ty \<Longrightarrow>
      \<exists>w'. h_write h (CALC_DEVADD ty a) (MEMADD_SIZE ty) (ucast a) bs w = Some (0, w') \<and> present w' \<and>
        cells w' = splice (unat a) bs (cells w)"
    and port_read: "ready w \<Longrightarrow> buf \<noteq> [] \<Longrightarrow> unat a + length buf \<le> size_of ty \<Longrightarrow>
      \<exists>w'. h_read h (CALC_DEVADD ty a) (MEMADD_SIZE ty) (ucast a) buf w =
        Some (0, take (length buf) (drop (unat a) (cells w)), w') \<and> ready w' \<and> cells w' = cells w"
    and port_delay: "present w \<Longrightarrow> ready (delay_ms h (MEM_STWC ty) w) \<and> cells (delay_ms h (MEM_STWC ty) w) = cells w"
    and port_take: "ready w \<Longrightarrow> ready (mutex_take h w) \<and> cells (mutex_take h w) = cells w"
    and port_release: "ready w \<Longrightarrow> ready (mutex_release h w) \<and> cells (mutex_release h w) = cells w"
begin

lemma chunk_ok:
  assumes "ready w" "0 < unat n" "unat n \<le> length buf" "unat a mod page ty + unat n \<le> page ty" "unat a < size_of ty"
  shows "\<exists>w'. write_chunk ty h a buf n w = ret (True, w') \<and> ready w' \<and> cells w' = splice (unat a) (take (unat n) buf) (cells w)"
proof -
  have "take (unat n) buf \<noteq> []" "unat a mod page ty + length (take (unat n) buf) \<le> page ty" using assms(2-4) by auto
  from port_write[OF assms(1) this assms(5)] obtain w1 where
    w1: "h_write h (CALC_DEVADD ty a) (MEMADD_SIZE ty) (ucast a) (take (unat n) buf) w = Some (0, w1)" "present w1"
    "cells w1 = splice (unat a) (take (unat n) buf) (cells w)" by blast
  then show ?thesis using port_delay[OF w1(2)] assms(3) by (simp add: write_chunk_def)
qed

lemma loop_ok:
  assumes "ready w" "page ty dvd unat a" "0 < unat len" "unat len \<le> length buf" "unat a + unat len \<le> size_of ty"
  shows "\<exists>w'. program_loop ty h a buf len w = ret (True, w') \<and> ready w' \<and>
    cells w' = splice (unat a) (take (unat len) buf) (cells w)"
  using assms
proof (induction "unat len" arbitrary: a buf len w rule: less_induct)
  case less
  show ?case
  proof (cases "len \<le> MEM_PAGE_SIZE ty")
    case True
    then have "unat len \<le> page ty" by (simp add: word_le_nat_alt)
    then show ?thesis using chunk_ok[OF less.prems(1,3,4)] less.prems(2,3,5) True
      by (subst program_loop.simps) (simp add: dvd_imp_mod_0)
  next
    case False
    let ?p = "MEM_PAGE_SIZE ty" and ?a = "a + MEM_PAGE_SIZE ty" and ?l = "len - MEM_PAGE_SIZE ty"
    have p: "0 < page ty" "page ty < unat len" using False page_pos[of ty] by (simp_all add: not_le word_less_nat_alt)
    have l: "unat ?l = unat len - page ty" using False by (intro unat_sub) simp
    have a: "unat ?a = unat a + page ty"
      using less.prems(5) p(2) size_small[of ty] by (intro unat_plus_if'[THEN trans]) simp
    obtain w1 where w1: "write_chunk ty h a buf ?p w = ret (True, w1)" "ready w1"
      "cells w1 = splice (unat a) (take (page ty) buf) (cells w)"
      using chunk_ok[OF less.prems(1), of ?p buf a] p less.prems(2,4,5) by (auto simp: dvd_imp_mod_0)
    obtain w2 where w2: "program_loop ty h ?a (drop (page ty) buf) ?l w1 = ret (True, w2)" "ready w2"
      "cells w2 = splice (unat ?a) (take (unat ?l) (drop (page ty) buf)) (cells w1)"
    proof -
      have "unat ?l < unat len" "page ty dvd unat ?a" "0 < unat ?l" "unat ?l \<le> length (drop (page ty) buf)"
        "unat ?a + unat ?l \<le> size_of ty"
        using p less.prems(2,4,5) by (simp_all add: l a)
      from less.hyps[OF this(1) w1(2) this(2-)] show thesis using that by blast
    qed
    have len: "length (cells w) = size_of ty" using present_length ready_present less.prems(1) by blast
    have t: "take (unat len) buf = take (page ty) buf @ take (unat len - page ty) (drop (page ty) buf)"
      using p(2) by (metis le_add_diff_inverse less_imp_le take_add)
    have "cells w2 = splice (unat a) (take (unat len) buf) (cells w)"
      using splice_append[of "unat a" "take (page ty) buf" "take (unat len - page ty) (drop (page ty) buf)" "cells w"]
        p(2) less.prems(4,5) len
      by (simp add: w2(3) w1(3) l a t)
    then show ?thesis using w1(1) w2(1,2) False by (subst program_loop.simps) simp
  qed
qed

lemma program_ok:
  assumes "ready w" "0 < unat len" "unat len \<le> length buf" "unat a + unat len \<le> size_of ty"
  shows "\<exists>w'. eeprom_24cxx_program ty h a buf len w = ret (0, w') \<and> ready w' \<and>
    cells w' = splice (unat a) (take (unat len) buf) (cells w)"
proof -
  let ?r = "MEM_PAGE_SIZE ty - a mod MEM_PAGE_SIZE ty"
  have m: "unat (a mod MEM_PAGE_SIZE ty) = unat a mod page ty" by (simp add: unat_mod)
  have lt: "unat a mod page ty < page ty" using page_pos by simp
  have r: "unat ?r = page ty - unat a mod page ty"
    using lt m unat_sub[of "a mod MEM_PAGE_SIZE ty" "MEM_PAGE_SIZE ty"] by (simp add: word_le_nat_alt)
  have sum: "unat (a + len) = unat a + unat len"
    using assms(4) size_small[of ty] by (intro unat_plus_if'[THEN trans]) simp
  then have fits: "\<not> a + len > MEM_MAX_SIZE ty" using assms(4) by (simp add: word_less_nat_alt)
  define body where "body = (if ?r \<ge> len then write_chunk ty h a buf len w
           else rbind (write_chunk ty h a buf ?r w) (\<lambda>(ok, w1).
             if \<not> ok then ret (False, w1)
             else program_loop ty h (a + ?r) (drop (unat ?r) buf) (len - ?r) w1))"
  have "\<exists>w'. body = ret (True, w') \<and> ready w' \<and> cells w' = splice (unat a) (take (unat len) buf) (cells w)"
  proof (cases "?r \<ge> len")
    case True
    then have "unat a mod page ty + unat len \<le> page ty" using r lt by (simp add: word_le_nat_alt)
    then show ?thesis using chunk_ok[OF assms(1-3)] assms(2,4) True by (simp add: body_def)
  next
    case False
    then have less: "unat ?r < unat len" by (simp add: not_le word_less_nat_alt)
    have l: "unat (len - ?r) = unat len - unat ?r" using False by (intro unat_sub) simp
    have a: "unat (a + ?r) = unat a + unat ?r"
      using less assms(4) size_small[of ty] by (intro unat_plus_if'[THEN trans]) simp
    have aligned: "page ty dvd unat (a + ?r)"
    proof -
      have "unat a + (page ty - unat a mod page ty) = page ty * (unat a div page ty) + page ty"
        using lt mult_div_mod_eq[of "page ty" "unat a"] by linarith
      then show ?thesis by (simp add: a r)
    qed
    have q: "0 < unat ?r" "unat a mod page ty + unat ?r \<le> page ty" using r lt by simp_all
    obtain w1 where w1: "write_chunk ty h a buf ?r w = ret (True, w1)" "ready w1"
      "cells w1 = splice (unat a) (take (unat ?r) buf) (cells w)"
    proof -
      have "unat ?r \<le> length buf" "unat a < size_of ty" using less assms(3,4) by simp_all
      from chunk_ok[OF assms(1) q(1) this(1) q(2) this(2)] show thesis using that by blast
    qed
    obtain w2 where w2: "program_loop ty h (a + ?r) (drop (unat ?r) buf) (len - ?r) w1 = ret (True, w2)" "ready w2"
      "cells w2 = splice (unat (a + ?r)) (take (unat (len - ?r)) (drop (unat ?r) buf)) (cells w1)"
    proof -
      have "0 < unat (len - ?r)" "unat (len - ?r) \<le> length (drop (unat ?r) buf)"
        "unat (a + ?r) + unat (len - ?r) \<le> size_of ty"
        using less assms(3,4) by (simp_all add: l a)
      from loop_ok[OF w1(2) aligned this] show thesis using that by blast
    qed
    have len: "length (cells w) = size_of ty" using present_length ready_present assms(1) by blast
    have t: "take (unat len) buf = take (unat ?r) buf @ take (unat len - unat ?r) (drop (unat ?r) buf)"
      using less by (metis le_add_diff_inverse less_imp_le take_add)
    have "cells w2 = splice (unat a) (take (unat len) buf) (cells w)"
      using splice_append[of "unat a" "take (unat ?r) buf" "take (unat len - unat ?r) (drop (unat ?r) buf)" "cells w"]
        less assms(3,4) len
      by (simp only: w2(3) w1(3) l a t) simp
    then show ?thesis using w1(1) w2(1,2) False by (simp add: body_def)
  qed
  then obtain w' where w': "body = ret (True, w')" "ready w'" "cells w' = splice (unat a) (take (unat len) buf) (cells w)"
    by blast
  have "eeprom_24cxx_program ty h a buf len w = rbind body (\<lambda>(ok, w2). ret (if ok then 0 else -1, delay_ms h (MEM_STWC ty) w2))"
    using fits by (simp add: eeprom_24cxx_program_def Let_def body_def)
  then show ?thesis using w' port_delay[OF ready_present[OF w'(2)]] by simp
qed

lemma write_ok:
  assumes "ready w" "unat a < size_of ty" "0 < unat len" "unat len \<le> size_of ty" "unat len \<le> length buf"
  shows "\<exists>w'. eeprom_24cxx_write ty (Some h) a buf len w = ret (0, w') \<and> ready w' \<and>
    cells w' = ring_write (unat a) (take (unat len) buf) (cells w)"
proof -
  have n: "\<not> (len = 0 \<or> len > MEM_MAX_SIZE ty)" using assms(3,4) by (auto simp: word_less_nat_alt)
  let ?w = "mutex_take h w" and ?k = "unat (MEM_MAX_SIZE ty - a)"
  have w: "ready ?w" "cells ?w = cells w" using port_take[OF assms(1)] by simp_all
  have k: "?k = size_of ty - unat a" using assms(2) by (intro unat_sub) (simp add: word_le_nat_alt)
  have len: "length (cells w) = size_of ty" using present_length ready_present assms(1) by blast
  have sum: "unat (a + len) = unat a + unat len"
    using assms(2,4) size_small[of ty] by (intro unat_plus_if'[THEN trans]) simp
  show ?thesis
  proof (cases "a + len > MEM_MAX_SIZE ty")
    case False
    then have f: "unat a + unat len \<le> size_of ty" using sum by (simp add: word_less_nat_alt)
    from program_ok[OF w(1) assms(3,5) this] obtain w1 where
      w1: "eeprom_24cxx_program ty h a buf len ?w = ret (0, w1)" "ready w1"
      "cells w1 = splice (unat a) (take (unat len) buf) (cells w)" using w(2) by auto
    have "ring_write (unat a) (take (unat len) buf) (cells w) = splice (unat a) (take (unat len) buf) (cells w)"
    proof -
      have "unat len \<le> size_of ty - unat a" using f by simp
      then show ?thesis using assms(5) len by (simp add: ring_write_def Let_def)
    qed
    then show ?thesis using w1 port_release[OF w1(2)] n False by (simp add: eeprom_24cxx_write_def Let_def)
  next
    case True
    then have f: "size_of ty < unat a + unat len" using sum by (simp add: word_less_nat_alt)
    have "0 < ?k" "?k \<le> length buf" "unat a + ?k \<le> size_of ty" using k assms(2,5) f by simp_all
    from program_ok[OF w(1) this] obtain w1 where
      w1: "eeprom_24cxx_program ty h a buf (MEM_MAX_SIZE ty - a) ?w = ret (0, w1)" "ready w1"
      "cells w1 = splice (unat a) (take ?k buf) (cells w)" using w(2) by auto
    have l: "unat (len - (MEM_MAX_SIZE ty - a)) = unat len - ?k"
      using f k by (intro unat_sub) (simp add: word_le_nat_alt)
    have "0 < unat (len - (MEM_MAX_SIZE ty - a))" "unat (len - (MEM_MAX_SIZE ty - a)) \<le> length (drop ?k buf)"
      "unat (0 :: u32) + unat (len - (MEM_MAX_SIZE ty - a)) \<le> size_of ty" using l k f assms(2,4,5) by simp_all
    from program_ok[OF w1(2) this] obtain w2 where
      w2: "eeprom_24cxx_program ty h 0 (drop ?k buf) (len - (MEM_MAX_SIZE ty - a)) w1 = ret (0, w2)" "ready w2"
      "cells w2 = splice 0 (take (unat len - ?k) (drop ?k buf)) (splice (unat a) (take ?k buf) (cells w))"
      using l w1(3) by auto
    have "ring_write (unat a) (take (unat len) buf) (cells w) = cells w2"
    proof -
      have "\<not> unat len \<le> ?k" "length (take (unat len) buf) = unat len" "length (cells w) - unat a = ?k"
        "take ?k (take (unat len) buf) = take ?k buf"
        using f k assms(2,5) len by simp_all
      then show ?thesis by (simp only: ring_write_def w2(3) Let_def if_False drop_take)
    qed
    then show ?thesis using w1(1) w2 port_release[OF w2(2)] n True by (simp add: eeprom_24cxx_write_def Let_def)
  qed
qed

lemma read_ok:
  assumes "ready w" "unat a < size_of ty" "buf \<noteq> []" "length buf \<le> size_of ty"
  shows "\<exists>w'. eeprom_24cxx_read ty (Some h) a buf w = ret (0, ring_read (unat a) (length buf) (cells w), w') \<and>
    ready w' \<and> cells w' = cells w"
proof -
  have u: "unat (of_nat (length buf) :: u32) = length buf"
    using assms(4) size_small[of ty] by (simp add: unat_of_nat take_bit_nat_eq_self)
  have n: "\<not> ((of_nat (length buf) :: u32) = 0 \<or> of_nat (length buf) > MEM_MAX_SIZE ty \<or> a \<ge> MEM_MAX_SIZE ty)"
    using assms(2-4) u by (auto simp: word_less_nat_alt word_le_nat_alt dest: arg_cong[of _ _ unat])
  let ?w = "mutex_take h w" and ?k = "unat (MEM_MAX_SIZE ty - a)"
  have w: "ready ?w" "cells ?w = cells w" using port_take[OF assms(1)] by simp_all
  have k: "?k = size_of ty - unat a" using assms(2) by (intro unat_sub) (simp add: word_le_nat_alt)
  have len: "length (cells w) = size_of ty" using present_length ready_present assms(1) by blast
  show ?thesis
  proof (cases "MEM_MAX_SIZE ty - a < of_nat (length buf)")
    case False
    then have f: "unat a + length buf \<le> size_of ty" using u k assms(2) by (simp add: word_less_nat_alt)
    from port_read[OF w(1) assms(3) this] obtain w1 where
      w1: "h_read h (CALC_DEVADD ty a) (MEMADD_SIZE ty) (ucast a) buf ?w =
        Some (0, take (length buf) (drop (unat a) (cells w)), w1)" "ready w1" "cells w1 = cells w" using w(2) by auto
    then show ?thesis using port_release[OF w1(2)] n False f len
      by (simp add: eeprom_24cxx_read_def read_chunk_def Let_def ring_read_plain)
  next
    case True
    then have f: "size_of ty < unat a + length buf" using u k assms(2) by (simp add: word_less_nat_alt)
    have "take ?k buf \<noteq> []" "unat a + length (take ?k buf) \<le> size_of ty" using k assms(2,3) by auto
    from port_read[OF w(1) this] obtain w1 where
      w1: "h_read h (CALC_DEVADD ty a) (MEMADD_SIZE ty) (ucast a) (take ?k buf) ?w =
        Some (0, drop (unat a) (cells w), w1)" "ready w1" "cells w1 = cells w" using w(2) f k len by auto
    have "drop ?k buf \<noteq> []" "unat (0 :: u32) + length (drop ?k buf) \<le> size_of ty" using f k assms(2,4) by auto
    from port_read[OF w1(2) this] obtain w2 where
      w2: "h_read h (CALC_DEVADD ty 0) (MEMADD_SIZE ty) 0 (drop ?k buf) w1 =
        Some (0, take (length buf - ?k) (cells w), w2)" "ready w2" "cells w2 = cells w" using w1(3) by auto
    show ?thesis using w1(1) w2 port_release[OF w2(2)] n True ring_read_wrap[of "unat a" "cells w" "length buf"] f k len assms(2,4)
      by (simp add: eeprom_24cxx_read_def read_chunk_def Let_def)
  qed
qed

lemma flag_roundtrip:
  assumes "ready w" "unat addr < size_of ty"
  shows "\<exists>w'. eeprom_flag_write ty (Some h) addr flag w = ret (0, w') \<and> ready w' \<and>
    (\<exists>w2. eeprom_flag_read ty (Some h) addr w' = ret (0, flag, w2))"
proof -
  have a: "unat (ucast addr :: u32) = unat addr" by (rule unat_ucast_u16_u32)
  have two: "2 \<le> size_of ty" using page_pos[of ty] by (cases ty) (simp_all add: MEM_MAX_SIZE_def MEM_PAGE_SIZE_def MEM_NUM_OF_PAGE_def)
  obtain w1 where w1: "eeprom_24cxx_write ty (Some h) (ucast addr) [lo8 flag, hi8 flag] 2 w = ret (0, w1)" "ready w1"
    "cells w1 = ring_write (unat addr) [lo8 flag, hi8 flag] (cells w)"
    using write_ok[OF assms(1), of "ucast addr" 2 "[lo8 flag, hi8 flag]"] assms(2) two by (auto simp: a)
  have len: "length (cells w) = size_of ty" using present_length ready_present assms(1) by blast
  obtain w2 where "eeprom_24cxx_read ty (Some h) (ucast addr) [0xFF, 0xFF] w1 = ret (0, ring_read (unat addr) 2 (cells w1), w2)"
    using read_ok[OF w1(2), of "ucast addr" "[0xFF, 0xFF]"] assms(2) two by (auto simp: a numeral_2_eq_2)
  moreover have "ring_read (unat addr) 2 (cells w1) = [lo8 flag, hi8 flag]"
    using ring_roundtrip[of "unat addr" "cells w" "[lo8 flag, hi8 flag]"] assms(2) len two w1(3) by (simp add: numeral_2_eq_2)
  ultimately show ?thesis using w1(1,2) by (simp add: eeprom_flag_write_def eeprom_flag_read_def)
qed

lemma size_blocks: "16 \<le> size_of ty"
  by (cases ty) (simp_all add: MEM_MAX_SIZE_def MEM_PAGE_SIZE_def MEM_NUM_OF_PAGE_def)

lemma data_write_ok:
  assumes "ready w" "unat a + 16 * n \<le> size_of ty" "16 * n \<le> length data"
  shows "\<exists>w'. data_write_loop ty (Some h) a n data w = ret (0, w') \<and> ready w' \<and>
    cells w' = splice (unat a) (take (16 * n) data) (cells w)"
  using assms
proof (induction n arbitrary: a data w)
  case 0
  then show ?case by simp
next
  case (Suc n)
  have len: "length (cells w) = size_of ty" using present_length ready_present Suc.prems(1) by blast
  obtain w1 where w1: "eeprom_24cxx_write ty (Some h) a data 16 w = ret (0, w1)" "ready w1"
    "cells w1 = ring_write (unat a) (take 16 data) (cells w)"
    using write_ok[OF Suc.prems(1), of a 16 data] Suc.prems(2,3) by auto
  have r: "ring_write (unat a) (take 16 data) (cells w) = splice (unat a) (take 16 data) (cells w)"
  proof -
    have "16 \<le> size_of ty - unat a" using Suc.prems(2) by simp
    then show ?thesis using Suc.prems(3) len by (simp add: ring_write_def Let_def)
  qed
  have a: "unat (a + 16) = unat a + 16" if "n \<noteq> 0"
    using Suc.prems(2) size_small[of ty] that by (intro unat_plus_if'[THEN trans]) simp
  show ?case
  proof (cases "n = 0")
    case True
    then show ?thesis using w1 r by simp
  next
    case False
    have p: "unat (a + 16) + 16 * n \<le> size_of ty" "16 * n \<le> length (drop 16 data)"
      using Suc.prems(2,3) a[OF False] by simp_all
    from Suc.IH[OF w1(2) p] obtain w2 where
      w2: "data_write_loop ty (Some h) (a + 16) n (drop 16 data) w1 = ret (0, w2)" "ready w2"
      "cells w2 = splice (unat a + 16) (take (16 * n) (drop 16 data)) (splice (unat a) (take 16 data) (cells w))"
      using a[OF False] w1(3) r by auto
    have t: "take (16 + 16 * n) data = take 16 data @ take (16 * n) (drop 16 data)" by (simp add: take_add)
    have "cells w2 = splice (unat a) (take (16 * Suc n) data) (cells w)"
      using splice_append[of "unat a" "take 16 data" "take (16 * n) (drop 16 data)" "cells w"] Suc.prems(2,3) len
      by (simp add: w2(3) t)
    then show ?thesis using w1(1) w2(1,2) by simp
  qed
qed

lemma data_read_ok:
  assumes "ready w" "unat a + 16 * n \<le> size_of ty" "16 * n \<le> length data"
  shows "\<exists>w'. data_read_loop ty (Some h) a n data w =
      ret (0, take (16 * n) (drop (unat a) (cells w)) @ drop (16 * n) data, w') \<and> ready w' \<and> cells w' = cells w"
  using assms
proof (induction n arbitrary: a data w)
  case 0
  then show ?case by simp
next
  case (Suc n)
  have len: "length (cells w) = size_of ty" using present_length ready_present Suc.prems(1) by blast
  have b: "take 16 data \<noteq> []" "length (take 16 data) \<le> size_of ty" "length (take 16 data) = 16"
    using Suc.prems(3) size_blocks by auto
  obtain w1 where w1: "eeprom_24cxx_read ty (Some h) a (take 16 data) w = ret (0, ring_read (unat a) 16 (cells w), w1)"
    "ready w1" "cells w1 = cells w"
  proof -
    have "unat a < size_of ty" using Suc.prems(2) by simp
    from read_ok[OF Suc.prems(1) this b(1,2)] show thesis using that unfolding b(3) by blast
  qed
  have r: "ring_read (unat a) 16 (cells w) = take 16 (drop (unat a) (cells w))"
    using Suc.prems(2) len by (intro ring_read_plain) simp
  have a: "unat (a + 16) = unat a + 16" if "n \<noteq> 0"
    using Suc.prems(2) size_small[of ty] that by (intro unat_plus_if'[THEN trans]) simp
  show ?case
  proof (cases "n = 0")
    case True
    then show ?thesis using w1 r Suc.prems(3) by simp
  next
    case False
    have p: "unat (a + 16) + 16 * n \<le> size_of ty" "16 * n \<le> length (drop 16 data)"
      using Suc.prems(2,3) a[OF False] by simp_all
    from Suc.IH[OF w1(2) p] obtain w2 where
      w2: "data_read_loop ty (Some h) (a + 16) n (drop 16 data) w1 =
        ret (0, take (16 * n) (drop (unat a + 16) (cells w)) @ drop (16 * n) (drop 16 data), w2)" "ready w2" "cells w2 = cells w"
      using a[OF False] w1(3) by auto
    have t: "take (16 + 16 * n) (drop (unat a) (cells w)) =
      take 16 (drop (unat a) (cells w)) @ take (16 * n) (drop (unat a + 16) (cells w))"
      by (simp add: take_add add.commute)
    show ?thesis using w1(1) w2 r Suc.prems(3) by (simp add: t) (simp add: add.commute)
  qed
qed

end

section \<open>The chip\<close>

text \<open>A 24Cxx as its data sheet describes it: the select byte carries the upper address bits; received
  bytes wrap inside the page and are stored at the STOP, after which the chip does not answer for
  the write cycle time; a read continues over the end of the memory.\<close>

datatype at24_stage = Deaf | Select | Addr_Hi | Addr_Lo | Data | Feed

record at24 =
  memory :: "u8 list"
  at_ptr :: nat
  stage :: at24_stage
  latched :: "u8 list"
  busy :: bool

definition block_mask :: "eeprom_type \<Rightarrow> u8" where
  "block_mask ty = (case ty of EEPROM_24C04 \<Rightarrow> 1 | EEPROM_24C08 \<Rightarrow> 3 | EEPROM_24C16 \<Rightarrow> 7 | EEPROM_24C1024 \<Rightarrow> 1)"

definition block_of :: "eeprom_type \<Rightarrow> u8 \<Rightarrow> nat" where
  "block_of ty b = unat (drop_bit 1 b AND block_mask ty)"

definition selects :: "eeprom_type \<Rightarrow> u8 \<Rightarrow> bool" where
  "selects ty b \<longleftrightarrow> b AND NOT (push_bit 1 (block_mask ty) OR 1) = DEV_ADDRESS ty"

fun page_store :: "nat \<Rightarrow> nat \<Rightarrow> u8 list \<Rightarrow> u8 list \<Rightarrow> u8 list" where
  "page_store P p [] m = m"
| "page_store P p (b # bs) m = page_store P (if Suc p mod P = 0 then Suc p - P else Suc p) bs (m[p := b])"

definition at24_recv :: "eeprom_type \<Rightarrow> u8 \<Rightarrow> at24 \<Rightarrow> bool \<times> at24" where
  "at24_recv ty b d =
     (case stage d of
        Select \<Rightarrow>
          if busy d \<or> \<not> selects ty b then (False, d\<lparr>stage := Deaf\<rparr>)
          else if bit b 0 then (True, d\<lparr>stage := Feed\<rparr>)
          else if MEMADD_SIZE ty = 16 then (True, d\<lparr>stage := Addr_Hi, at_ptr := block_of ty b * 65536\<rparr>)
          else (True, d\<lparr>stage := Addr_Lo, at_ptr := block_of ty b * 256\<rparr>)
      | Addr_Hi \<Rightarrow> (True, d\<lparr>stage := Addr_Lo, at_ptr := at_ptr d + unat b * 256\<rparr>)
      | Addr_Lo \<Rightarrow> (True, d\<lparr>stage := Data, at_ptr := at_ptr d + unat b\<rparr>)
      | Data \<Rightarrow> (True, d\<lparr>latched := latched d @ [b]\<rparr>)
      | _ \<Rightarrow> (False, d))"

definition at24_stop :: "eeprom_type \<Rightarrow> at24 \<Rightarrow> at24" where
  "at24_stop ty d =
     (if stage d = Data \<and> latched d \<noteq> []
      then d\<lparr>memory := page_store (page ty) (at_ptr d) (latched d) (memory d), latched := [], busy := True, stage := Deaf\<rparr>
      else d\<lparr>stage := Deaf\<rparr>)"

definition at24_slave :: "eeprom_type \<Rightarrow> (at24 \<Rightarrow> nat) \<Rightarrow> at24 i2c_slave" where
  "at24_slave ty stretch =
     \<lparr>s_start = \<lambda>d. d\<lparr>stage := Select, latched := []\<rparr>, s_stop = at24_stop ty, s_recv = at24_recv ty,
      s_send = \<lambda>d. (memory d ! at_ptr d, d\<lparr>at_ptr := Suc (at_ptr d) mod length (memory d)\<rparr>),
      s_ack = \<lambda>_ d. d, s_stretch = \<lambda>d. Some (stretch d)\<rparr>"

definition at24_elapse :: "eeprom_type \<Rightarrow> nat \<Rightarrow> at24 \<Rightarrow> at24" where
  "at24_elapse ty ms d = (if MEM_STWC ty \<le> ms then d\<lparr>busy := False\<rparr> else d)"

text \<open>The board: the wires and the mutex of \<open>eeprom_init.c\<close>, whose result is not looked at.\<close>

record 'b eep_board =
  wires :: "'b twi"
  ext_eeprom_mutex :: bool

text \<open>\<open>eeprom_init\<close> fills in the handle; \<open>elapse\<close> is what time does to the device.\<close>

definition board_handle :: "'b i2c_slave \<Rightarrow> (nat \<Rightarrow> 'b \<Rightarrow> 'b) \<Rightarrow> 'b eep_board eeprom_24cxx" where
  "board_handle S elapse =
     \<lparr>h_read = \<lambda>a w m buf b. map_option (\<lambda>(r, bs, t). (r, bs, b\<lparr>wires := t\<rparr>)) (i2c_bus_eep_read S a w m buf (wires b)),
      h_write = \<lambda>a w m bs b. map_option (\<lambda>(r, t). (r, b\<lparr>wires := t\<rparr>)) (i2c_bus_eep_write S a w m bs (wires b)),
      delay_ms = \<lambda>ms b. b\<lparr>wires := (wires b)\<lparr>dev := elapse ms (dev (wires b))\<rparr>\<rparr>,
      mutex_take = \<lambda>b. b\<lparr>ext_eeprom_mutex := True\<rparr>,
      mutex_release = \<lambda>b. b\<lparr>ext_eeprom_mutex := False\<rparr>\<rparr>"

definition eeprom_init ::
  "'b i2c_slave \<Rightarrow> (nat \<Rightarrow> 'b \<Rightarrow> 'b) \<Rightarrow> bool \<Rightarrow> bool \<Rightarrow> 'b twi \<Rightarrow>
     (int \<times> bool \<times> 'b eep_board eeprom_24cxx option \<times> 'b twi) option" where
  "eeprom_init S elapse mutex_created inited t =
     (if \<not> mutex_created then None
      else let handle = eeprom_port_init (board_handle S elapse); (r, inited', t') = i2c_bus_init S inited t
           in if r = 0 then Some (0, inited', handle, t') else None)"

section \<open>The chip keeps the contract\<close>

lemma select_bits: "drop_bit 7 a AND 0x0E = push_bit 1 (drop_bit 8 a AND 7)"
  "drop_bit 15 a AND 0x02 = push_bit 1 (drop_bit 16 a AND 1)" for a :: u32
proof -
  have e: "(0x0E :: u32) = push_bit 1 7" "(0x02 :: u32) = push_bit 1 1" by simp_all
  have "bit (drop_bit 7 a AND push_bit 1 7) n = bit (push_bit 1 (drop_bit 8 a AND 7)) n" for n
    unfolding bit_and_iff bit_drop_bit_eq o_def bit_push_bit_iff by (cases n) auto
  then show "drop_bit 7 a AND 0x0E = push_bit 1 (drop_bit 8 a AND 7)" unfolding e by (intro bit_eqI) blast
  have "bit (drop_bit 15 a AND push_bit 1 1) n = bit (push_bit 1 (drop_bit 16 a AND 1)) n" for n
    unfolding bit_and_iff bit_drop_bit_eq o_def bit_push_bit_iff by (cases n) auto
  then show "drop_bit 15 a AND 0x02 = push_bit 1 (drop_bit 16 a AND 1)" unfolding e by (intro bit_eqI) blast
qed

lemmas select_defs = CALC_DEVADD_def select_bits selects_def block_of_def block_mask_def DEV_ADDRESS_def MEMADD_SIZE_def
  TWI_READ_BIT_def

lemma block_word:
  "unat a < 512 \<Longrightarrow> drop_bit 8 a \<in> {0, 1}" "unat a < 1024 \<Longrightarrow> drop_bit 8 a \<in> {0, 1, 2, 3}"
  "unat a < 2048 \<Longrightarrow> drop_bit 8 a \<in> {0, 1, 2, 3, 4, 5, 6, 7}" "unat a < 131072 \<Longrightarrow> drop_bit 16 a \<in> {0, 1}" for a :: u32
  by (auto simp: word_unat_eq_iff unat_drop_bit_eq drop_bit_nat_def)

lemma block_nat: "unat a div 256 = unat (drop_bit 8 a)" "unat a div 65536 = unat (drop_bit 16 a)" for a :: u32
  by (simp_all add: unat_drop_bit_eq drop_bit_nat_def)

lemma select_byte:
  assumes "unat a < size_of ty"
  defines "b \<equiv> CALC_DEVADD ty a"
  shows "selects ty b \<and> selects ty (b OR TWI_READ_BIT) \<and> \<not> bit b 0 \<and> bit (b OR TWI_READ_BIT) 0 \<and>
    block_of ty b = unat a div (if MEMADD_SIZE ty = 16 then 65536 else 256)"
proof (cases ty)
  case EEPROM_24C04
  then have "drop_bit 8 a \<in> {0, 1}" using assms(1) block_word by (simp add: MEM_MAX_SIZE_def MEM_PAGE_SIZE_def MEM_NUM_OF_PAGE_def)
  then show ?thesis using EEPROM_24C04 by (auto simp: b_def select_defs block_nat bit_0)
next
  case EEPROM_24C08
  then have "drop_bit 8 a \<in> {0, 1, 2, 3}" using assms(1) block_word by (simp add: MEM_MAX_SIZE_def MEM_PAGE_SIZE_def MEM_NUM_OF_PAGE_def)
  then show ?thesis using EEPROM_24C08 by (auto simp: b_def select_defs block_nat bit_0)
next
  case EEPROM_24C16
  then have "drop_bit 8 a \<in> {0, 1, 2, 3, 4, 5, 6, 7}" using assms(1) block_word by (simp add: MEM_MAX_SIZE_def MEM_PAGE_SIZE_def MEM_NUM_OF_PAGE_def)
  then show ?thesis using EEPROM_24C16 by (auto simp: b_def select_defs block_nat bit_0)
next
  case EEPROM_24C1024
  then have "drop_bit 16 a \<in> {0, 1}" using assms(1) block_word by (simp add: MEM_MAX_SIZE_def MEM_PAGE_SIZE_def MEM_NUM_OF_PAGE_def)
  then show ?thesis using EEPROM_24C1024 by (auto simp: b_def select_defs block_nat bit_0)
qed

lemma low_bytes:
  "unat (lo8 (ucast a)) = unat a mod 256" "unat (hi8 (ucast a)) * 256 + unat (lo8 (ucast a)) = unat a mod 65536" for a :: u32
proof -
  have u: "unat (ucast a :: u16) = unat a mod 65536" by (simp add: unsigned_ucast_eq take_bit_nat_def)
  have lo: "unat (lo8 w) = unat w mod 256" and hi: "unat (hi8 w) = unat w div 256" for w :: u16
    using unsigned_less[of w, where 'a = nat]
    by (simp_all add: lo8_def hi8_def unsigned_ucast_eq unat_drop_bit_eq take_bit_nat_def drop_bit_nat_def)
  show "unat (lo8 (ucast a)) = unat a mod 256" by (simp add: lo u mod_mod_cancel)
  show "unat (hi8 (ucast a)) * 256 + unat (lo8 (ucast a)) = unat a mod 65536" by (simp add: lo hi u)
qed

lemma page_store_fits:
  assumes "0 < P" "p mod P + length bs \<le> P" "p + length bs \<le> length m"
  shows "page_store P p bs m = splice p bs m"
  using assms(2,3)
proof (induction bs arbitrary: p m)
  case (Cons b bs)
  show ?case
  proof (cases "bs = []")
    case True
    then show ?thesis using Cons.prems by (simp add: splice_def upd_conv_take_nth_drop)
  next
    case False
    then have lt: "Suc (p mod P) < P" using Cons.prems(1) by (cases bs) auto
    then have m: "Suc p mod P = Suc (p mod P)" by (simp add: mod_Suc)
    have "page_store P (Suc p) bs (m[p := b]) = splice (Suc p) bs (m[p := b])"
      using Cons.IH[of "Suc p" "m[p := b]"] Cons.prems m by simp
    moreover have "m[p := b] = splice p [b] m" using Cons.prems(2) by (simp add: splice_def upd_conv_take_nth_drop)
    ultimately show ?thesis using m splice_append[of p "[b]" bs m] Cons.prems(2) by simp
  qed
qed simp

lemma write_bytes_append:
  "write_bytes S (xs @ ys) d = (let (ok, d1) = write_bytes S xs d in if ok then write_bytes S ys d1 else (False, d1))"
  by (induction xs arbitrary: d) (auto simp: case_prod_beta Let_def)

lemma at24_data: "stage d = Data \<Longrightarrow> write_bytes (at24_slave ty st) bs d = (True, d\<lparr>latched := latched d @ bs\<rparr>)"
  by (induction bs arbitrary: d) (simp_all add: at24_slave_def at24_recv_def)

lemma at24_read_bytes:
  assumes "at_ptr d + n \<le> length (memory d)"
  shows "\<exists>q. read_bytes (at24_slave ty st) n d = (take n (drop (at_ptr d) (memory d)), d\<lparr>at_ptr := q\<rparr>)"
  using assms
proof (induction n arbitrary: d)
  case 0
  show ?case by (rule exI[of _ "at_ptr d"]) simp
next
  case (Suc n)
  let ?d = "d\<lparr>at_ptr := Suc (at_ptr d) mod length (memory d)\<rparr>"
  have t: "take (Suc n) (drop (at_ptr d) (memory d)) = memory d ! at_ptr d # take n (drop (Suc (at_ptr d)) (memory d))"
    using Suc.prems Cons_nth_drop_Suc[of "at_ptr d" "memory d"] by (metis Suc_le_lessD add_Suc_right le_add1 le_trans not_less_eq_eq take_Suc_Cons)
  show ?case
  proof (cases "n = 0")
    case True
    then show ?thesis using t by (auto simp: at24_slave_def)
  next
    case False
    then have "Suc (at_ptr d) mod length (memory d) = Suc (at_ptr d)" using Suc.prems by simp
    moreover have "at_ptr ?d + n \<le> length (memory ?d)" using Suc.prems calculation by simp
    ultimately obtain q where "read_bytes (at24_slave ty st) n ?d = (take n (drop (Suc (at_ptr d)) (memory d)), d\<lparr>at_ptr := q\<rparr>)"
      using Suc.IH[of ?d] by auto
    then show ?thesis using t by (auto simp: at24_slave_def)
  qed
qed

lemma at24_addressed:
  fixes st :: "at24 \<Rightarrow> nat"
  assumes "unat a < size_of ty" "\<not> busy d"
  defines "S \<equiv> at24_slave ty st"
  shows "\<exists>d1. s_recv S (CALC_DEVADD ty a) (s_start S d) = (True, d1) \<and>
    write_bytes S (mem_addr_bytes (MEMADD_SIZE ty) (ucast a)) d1 = (True, d\<lparr>stage := Data, latched := [], at_ptr := unat a\<rparr>)"
proof -
  let ?b = "CALC_DEVADD ty a"
  have sel: "selects ty ?b" "\<not> bit ?b 0" and blk: "block_of ty ?b = unat a div (if MEMADD_SIZE ty = 16 then 65536 else 256)"
    using select_byte[OF assms(1)] by simp_all
  show ?thesis
  proof (cases "MEMADD_SIZE ty = 16")
    case True
    let ?d1 = "d\<lparr>stage := Addr_Hi, latched := [], at_ptr := block_of ty ?b * 65536\<rparr>"
    have "s_recv S ?b (s_start S d) = (True, ?d1)"
      using sel assms(2) True by (cases d) (simp add: S_def at24_slave_def at24_recv_def)
    moreover have "block_of ty ?b * 65536 + unat (hi8 (ucast a)) * 256 + unat (lo8 (ucast a)) = unat a"
      using low_bytes(2)[of a] blk True div_mult_mod_eq[of "unat a" 65536] by (simp add: add.assoc)
    ultimately show ?thesis using True
      by (cases d) (simp add: S_def at24_slave_def at24_recv_def mem_addr_bytes_def)
  next
    case False
    let ?d1 = "d\<lparr>stage := Addr_Lo, latched := [], at_ptr := block_of ty ?b * 256\<rparr>"
    have "s_recv S ?b (s_start S d) = (True, ?d1)"
      using sel assms(2) False by (cases d) (simp add: S_def at24_slave_def at24_recv_def)
    moreover have "block_of ty ?b * 256 + unat (lo8 (ucast a)) = unat a"
      using low_bytes(1)[of a] blk False div_mult_mod_eq[of "unat a" 256] by simp
    ultimately show ?thesis using False
      by (cases d) (simp add: S_def at24_slave_def at24_recv_def mem_addr_bytes_def)
  qed
qed

lemma page_inside:
  assumes "p mod page ty + n \<le> page ty" "p < size_of ty"
  shows "p + n \<le> size_of ty"
proof -
  obtain q where q: "size_of ty = page ty * q" using size_pages by (auto elim: dvdE)
  have "p div page ty < q" using assms(2) q page_pos[of ty] by (metis less_mult_imp_div_less mult.commute)
  then have "page ty * (p div page ty) + page ty \<le> size_of ty" unfolding q
    by (metis Suc_leI add.commute mult_Suc_right mult_le_mono2)
  then show ?thesis using assms(1) mult_div_mod_eq[of "page ty" p] by linarith
qed

lemma at24_stops: "s_stop (at24_slave ty st) = at24_stop ty"
  by (simp add: at24_slave_def)

lemma at24_write:
  assumes "length (memory d) = size_of ty" "\<not> busy d" "bs \<noteq> []" "unat a mod page ty + length bs \<le> page ty" "unat a < size_of ty"
  shows "\<exists>d'. eep_write_dev (at24_slave ty st) (CALC_DEVADD ty a) (MEMADD_SIZE ty) (ucast a) bs d = (True, d') \<and>
    memory d' = splice (unat a) bs (memory d)"
proof -
  let ?S = "at24_slave ty st" and ?b = "CALC_DEVADD ty a"
  obtain d1 where d1: "s_recv ?S ?b (s_start ?S d) = (True, d1)"
    "write_bytes ?S (mem_addr_bytes (MEMADD_SIZE ty) (ucast a)) d1 = (True, d\<lparr>stage := Data, latched := [], at_ptr := unat a\<rparr>)"
    using at24_addressed[OF assms(5,2)] by blast
  note fits = page_inside[OF assms(4,5)]
  have "transfer_spec ?S ?b (mem_addr_bytes (MEMADD_SIZE ty) (ucast a) @ bs) 0 True d =
    (True, [], at24_stop ty (d\<lparr>stage := Data, at_ptr := unat a, latched := bs\<rparr>))"
    using select_byte[OF assms(5)] d1 at24_data[of "d\<lparr>stage := Data, latched := [], at_ptr := unat a\<rparr>" ty st bs]
    by (simp add: transfer_spec_def write_bytes_append at24_stops)
  moreover have "memory (at24_stop ty (d\<lparr>stage := Data, at_ptr := unat a, latched := bs\<rparr>)) = splice (unat a) bs (memory d)"
    using page_store_fits[OF page_pos assms(4)] fits assms(1,3) by (simp add: at24_stop_def)
  ultimately show ?thesis by (simp add: eep_write_dev_def)
qed

lemma at24_read:
  assumes "length (memory d) = size_of ty" "\<not> busy d" "0 < n" "unat a + n \<le> size_of ty"
  shows "\<exists>d'. eep_read_dev (at24_slave ty st) (CALC_DEVADD ty a) (MEMADD_SIZE ty) (ucast a) n d =
      (True, take n (drop (unat a) (memory d)), d') \<and> memory d' = memory d \<and> \<not> busy d'"
proof -
  let ?S = "at24_slave ty st" and ?b = "CALC_DEVADD ty a"
  have a: "unat a < size_of ty" using assms(3,4) by simp
  obtain d1 where d1: "s_recv ?S ?b (s_start ?S d) = (True, d1)"
    "write_bytes ?S (mem_addr_bytes (MEMADD_SIZE ty) (ucast a)) d1 = (True, d\<lparr>stage := Data, latched := [], at_ptr := unat a\<rparr>)"
    using at24_addressed[OF a assms(2)] by blast
  let ?d2 = "d\<lparr>stage := Data, latched := [], at_ptr := unat a\<rparr>" and ?d3 = "d\<lparr>stage := Feed, latched := [], at_ptr := unat a\<rparr>"
  have "transfer_spec ?S ?b (mem_addr_bytes (MEMADD_SIZE ty) (ucast a)) 0 False d = (True, [], ?d2)"
    using select_byte[OF a] d1 by (simp add: transfer_spec_def)
  moreover have "s_recv ?S (?b OR TWI_READ_BIT) (s_start ?S ?d2) = (True, ?d3)"
    using select_byte[OF a] assms(2) by (cases d) (simp add: at24_slave_def at24_recv_def)
  moreover obtain q where "read_bytes ?S n ?d3 = (take n (drop (unat a) (memory d)), ?d3\<lparr>at_ptr := q\<rparr>)"
    using at24_read_bytes[of ?d3 n] assms(1,4) by auto
  ultimately have "eep_read_dev ?S ?b (MEMADD_SIZE ty) (ucast a) n d =
      (True, take n (drop (unat a) (memory d)), at24_stop ty (?d3\<lparr>at_ptr := q\<rparr>))"
    using select_byte[OF a] by (simp add: eep_read_dev_def transfer_spec_def at24_stops)
  then show ?thesis using assms(2) by (simp add: at24_stop_def)
qed

section \<open>The driver over the bit-banged bus\<close>

definition board_cells :: "at24 eep_board \<Rightarrow> u8 list" where
  "board_cells b = memory (dev (wires b))"

definition board_present :: "eeprom_type \<Rightarrow> at24 eep_board \<Rightarrow> bool" where
  "board_present ty b \<longleftrightarrow> bus_free (wires b) \<and> length (board_cells b) = size_of ty"

definition board_ready :: "eeprom_type \<Rightarrow> at24 eep_board \<Rightarrow> bool" where
  "board_ready ty b \<longleftrightarrow> board_present ty b \<and> \<not> busy (dev (wires b))"

lemma at24_responsive: "responsive (at24_slave ty st)"
  by (simp add: responsive_def at24_slave_def)

interpretation wired: eeprom_port ty "board_handle (at24_slave ty st) (at24_elapse ty)" board_cells "board_present ty" "board_ready ty"
  for ty st
proof
  fix w :: "at24 eep_board" and bs buf :: "u8 list" and a :: u32
  let ?S = "at24_slave ty st" and ?h = "board_handle (at24_slave ty st) (at24_elapse ty)"
  let ?b = "CALC_DEVADD ty a" and ?m = "MEMADD_SIZE ty"
  show "board_present ty w \<Longrightarrow> length (board_cells w) = size_of ty" by (simp add: board_present_def)
  show "board_ready ty w \<Longrightarrow> board_present ty w" by (simp add: board_ready_def)
  {
    assume r: "board_ready ty w" and c: "bs \<noteq> []" "unat a mod page ty + length bs \<le> page ty" "unat a < size_of ty"
    then obtain d' where d': "eep_write_dev ?S ?b ?m (ucast a) bs (dev (wires w)) = (True, d')"
      "memory d' = splice (unat a) bs (board_cells w)"
      using at24_write[of "dev (wires w)" ty bs a st] by (auto simp: board_ready_def board_present_def board_cells_def)
    have "bus_free (wires w)" "\<not> bit ?b 0" using r select_byte[OF c(3)] by (simp_all add: board_ready_def board_present_def)
    from eep_write_dev[OF at24_responsive this d'(1)] obtain t' where
      t': "i2c_bus_eep_write ?S ?b ?m (ucast a) bs (wires w) = Some (0, t')" "bus_free t'" "dev t' = d'" by blast
    have "unat a + length bs \<le> size_of ty \<Longrightarrow> length (splice (unat a) bs (board_cells w)) = size_of ty"
      using r by (simp add: board_ready_def board_present_def)
    moreover note page_inside[OF c(2,3)]
    ultimately show "\<exists>w'. h_write ?h ?b ?m (ucast a) bs w = Some (0, w') \<and> board_present ty w' \<and>
        board_cells w' = splice (unat a) bs (board_cells w)"
      using t' d'(2) by (simp add: board_handle_def board_present_def board_cells_def)
  }
  {
    assume r: "board_ready ty w" and c: "buf \<noteq> []" "unat a + length buf \<le> size_of ty"
    then obtain d' where d': "eep_read_dev ?S ?b ?m (ucast a) (length buf) (dev (wires w)) =
        (True, take (length buf) (drop (unat a) (board_cells w)), d')" "memory d' = board_cells w" "\<not> busy d'"
      using at24_read[of "dev (wires w)" ty "length buf" a st] by (auto simp: board_ready_def board_present_def board_cells_def)
    have a: "unat a < size_of ty" using c by (cases buf) simp_all
    have "bus_free (wires w)" "\<not> bit ?b 0" using r select_byte[OF a] by (simp_all add: board_ready_def board_present_def)
    moreover have "length (take (length buf) (drop (unat a) (board_cells w))) = length buf"
      using r c(2) by (simp add: board_ready_def board_present_def)
    ultimately obtain t' where "i2c_bus_eep_read ?S ?b ?m (ucast a) buf (wires w) =
        Some (0, take (length buf) (drop (unat a) (board_cells w)), t')" "bus_free t'" "dev t' = d'"
      using eep_read_dev[OF at24_responsive _ _ c(1) d'(1)] by blast
    then show "\<exists>w'. h_read ?h ?b ?m (ucast a) buf w = Some (0, take (length buf) (drop (unat a) (board_cells w)), w') \<and>
        board_ready ty w' \<and> board_cells w' = board_cells w"
      using d' r by (simp add: board_handle_def board_ready_def board_present_def board_cells_def)
  }
  show "board_present ty w \<Longrightarrow> board_ready ty (delay_ms ?h (MEM_STWC ty) w) \<and> board_cells (delay_ms ?h (MEM_STWC ty) w) = board_cells w"
    by (simp add: board_handle_def board_ready_def board_present_def board_cells_def at24_elapse_def bus_free_def)
  show "board_ready ty w \<Longrightarrow> board_ready ty (mutex_take ?h w) \<and> board_cells (mutex_take ?h w) = board_cells w"
    "board_ready ty w \<Longrightarrow> board_ready ty (mutex_release ?h w) \<and> board_cells (mutex_release ?h w) = board_cells w"
    by (simp_all add: board_handle_def board_ready_def board_present_def board_cells_def)
qed

section \<open>Transfers whose failure is not seen\<close>

text \<open>The driver takes a negative result for a failure; the bus functions answer 1.\<close>

definition blind :: "'w eeprom_24cxx \<Rightarrow> ('w \<Rightarrow> bool) \<Rightarrow> bool" where
  "blind h I \<longleftrightarrow>
     (\<forall>a m u bs w. I w \<longrightarrow> \<not> bit a 0 \<longrightarrow> (\<exists>r w'. h_write h a m u bs w = Some (r, w') \<and> 0 \<le> r \<and> I w')) \<and>
     (\<forall>a m u buf w. I w \<longrightarrow> \<not> bit a 0 \<longrightarrow> buf \<noteq> [] \<longrightarrow> (\<exists>r w'. h_read h a m u buf w = Some (r, buf, w') \<and> 0 \<le> r \<and> I w')) \<and>
     (\<forall>ms w. I w \<longrightarrow> I (delay_ms h ms w)) \<and> (\<forall>w. I w \<longrightarrow> I (mutex_take h w) \<and> I (mutex_release h w))"

lemma calc_even: "\<not> bit (CALC_DEVADD ty a) 0"
proof -
  have "\<not> bit (0x0E :: u32) 0" "\<not> bit (0x02 :: u32) 0" "\<not> bit (DEV_ADDRESS ty) 0"
    by (simp_all add: DEV_ADDRESS_def bit_0 split: eeprom_type.split)
  then show ?thesis by (auto simp only: CALC_DEVADD_def bit_or_iff bit_ucast_iff bit_and_iff split: if_split)
qed

lemma blind_chunk:
  assumes "blind h I" "I w" "unat n \<le> length buf"
  shows "\<exists>w'. write_chunk ty h a buf n w = ret (True, w') \<and> I w'"
proof -
  obtain r w' where "h_write h (CALC_DEVADD ty a) (MEMADD_SIZE ty) (ucast a) (take (unat n) buf) w = Some (r, w')" "0 \<le> r" "I w'"
    using assms(1)[unfolded blind_def, THEN conjunct1] assms(2) calc_even by blast
  moreover have "I (delay_ms h (MEM_STWC ty) w')" using assms(1) calculation(3) unfolding blind_def by blast
  ultimately show ?thesis using assms(3) by (simp add: write_chunk_def)
qed

lemma blind_loop:
  assumes "blind h I" "I w" "unat len \<le> length buf"
  shows "\<exists>w'. program_loop ty h a buf len w = ret (True, w') \<and> I w'"
  using assms(2,3)
proof (induction "unat len" arbitrary: a buf len w rule: less_induct)
  case less
  show ?case
  proof (cases "len \<le> MEM_PAGE_SIZE ty")
    case True
    then show ?thesis using blind_chunk[OF assms(1) less.prems] by (subst program_loop.simps) simp
  next
    case False
    let ?l = "len - MEM_PAGE_SIZE ty"
    have s: "unat ?l = unat len - page ty" using False by (intro unat_sub) simp
    have l: "unat ?l = unat len - page ty" "page ty < unat len"
      using False s by (simp_all add: not_le word_less_nat_alt)
    obtain w1 where w1: "write_chunk ty h a buf (MEM_PAGE_SIZE ty) w = ret (True, w1)" "I w1"
      using blind_chunk[OF assms(1) less.prems(1), of "MEM_PAGE_SIZE ty" buf] l less.prems(2) by auto
    have p: "unat ?l < unat len" "unat ?l \<le> length (drop (page ty) buf)" using l less.prems(2) page_pos[of ty] by simp_all
    from less.hyps[OF p(1) w1(2) p(2)] show ?thesis using w1(1) False by (subst program_loop.simps) simp
  qed
qed

lemma blind_program:
  assumes "blind h I" "I w" "unat len \<le> length buf" "\<not> a + len > MEM_MAX_SIZE ty"
  shows "\<exists>w'. eeprom_24cxx_program ty h a buf len w = ret (0, w') \<and> I w'"
proof -
  let ?r = "MEM_PAGE_SIZE ty - a mod MEM_PAGE_SIZE ty"
  define body where "body = (if ?r \<ge> len then write_chunk ty h a buf len w
           else rbind (write_chunk ty h a buf ?r w) (\<lambda>(ok, w1).
             if \<not> ok then ret (False, w1)
             else program_loop ty h (a + ?r) (drop (unat ?r) buf) (len - ?r) w1))"
  have "\<exists>w'. body = ret (True, w') \<and> I w'"
  proof (cases "?r \<ge> len")
    case True
    then show ?thesis using blind_chunk[OF assms(1-3)] by (simp add: body_def)
  next
    case False
    have s: "unat (len - ?r) = unat len - unat ?r" using False by (intro unat_sub) simp
    have l: "unat (len - ?r) = unat len - unat ?r" "unat ?r < unat len"
      using False s by (simp_all add: not_le word_less_nat_alt)
    obtain w1 where w1: "write_chunk ty h a buf ?r w = ret (True, w1)" "I w1"
      using blind_chunk[OF assms(1,2), where n = ?r and buf = buf and a = a and ty = ty] l assms(3) by auto
    have "unat (len - ?r) \<le> length (drop (unat ?r) buf)" using l assms(3) by simp
    from blind_loop[OF assms(1) w1(2) this] show ?thesis using w1(1) False by (simp add: body_def)
  qed
  then obtain w1 where "body = ret (True, w1)" "I w1" by blast
  moreover have "I (delay_ms h (MEM_STWC ty) w1)" using assms(1) calculation(2) unfolding blind_def by blast
  ultimately show ?thesis using assms(4) by (simp add: eeprom_24cxx_program_def Let_def body_def)
qed

lemma blind_write:
  assumes "blind h I" "I w" "unat a < size_of ty" "0 < unat len" "unat len \<le> size_of ty" "unat len \<le> length buf"
  shows "\<exists>w'. eeprom_24cxx_write ty (Some h) a buf len w = ret (0, w') \<and> I w'"
proof -
  have n: "\<not> (len = 0 \<or> len > MEM_MAX_SIZE ty)" using assms(4,5) by (auto simp: word_less_nat_alt)
  let ?k = "MEM_MAX_SIZE ty - a"
  have w: "I (mutex_take h w)" and rel: "I v \<Longrightarrow> I (mutex_release h v)" for v
    using assms(1,2) unfolding blind_def by blast+
  have k: "unat ?k = size_of ty - unat a" using assms(3) by (intro unat_sub) (simp add: word_le_nat_alt)
  have sum: "unat (a + len) = unat a + unat len"
    using assms(3,5) size_small[of ty] by (intro unat_plus_if'[THEN trans]) simp
  show ?thesis
  proof (cases "a + len > MEM_MAX_SIZE ty")
    case False
    then show ?thesis using blind_program[OF assms(1) w assms(6) False] rel n by (auto simp: eeprom_24cxx_write_def Let_def)
  next
    case True
    then have f: "size_of ty < unat a + unat len" using sum by (simp add: word_less_nat_alt)
    have "unat ?k \<le> length buf" using k f assms(3,5,6) by simp
    moreover have "\<not> a + ?k > MEM_MAX_SIZE ty" by simp
    ultimately obtain w1 where
      w1: "eeprom_24cxx_program ty h a buf ?k (mutex_take h w) = ret (0, w1)" "I w1"
      using blind_program[OF assms(1) w] by blast
    have l: "unat (len - ?k) = unat len - unat ?k" using f k by (intro unat_sub) (simp add: word_le_nat_alt)
    have "unat (len - ?k) \<le> length (drop (unat ?k) buf)" "\<not> 0 + (len - ?k) > MEM_MAX_SIZE ty"
      using l assms(5,6) by (simp_all add: word_less_nat_alt)
    from blind_program[OF assms(1) w1(2) this] obtain w2 where
      "eeprom_24cxx_program ty h 0 (drop (unat ?k) buf) (len - ?k) w1 = ret (0, w2)" "I w2" by blast
    then show ?thesis using w1(1) rel n True by (auto simp: eeprom_24cxx_write_def Let_def)
  qed
qed

lemma blind_read:
  assumes "blind h I" "I w" "unat a < size_of ty" "buf \<noteq> []" "length buf \<le> size_of ty"
  shows "\<exists>w'. eeprom_24cxx_read ty (Some h) a buf w = ret (0, buf, w') \<and> I w'"
proof -
  have u: "unat (of_nat (length buf) :: u32) = length buf"
    using assms(5) size_small[of ty] by (simp add: unat_of_nat take_bit_nat_eq_self)
  have n: "\<not> ((of_nat (length buf) :: u32) = 0 \<or> of_nat (length buf) > MEM_MAX_SIZE ty \<or> a \<ge> MEM_MAX_SIZE ty)"
    using assms(3-5) u by (auto simp: word_less_nat_alt word_le_nat_alt dest: arg_cong[of _ _ unat])
  let ?k = "MEM_MAX_SIZE ty - a"
  have w: "I (mutex_take h w)" and rel: "I v \<Longrightarrow> I (mutex_release h v)" for v
    using assms(1,2) unfolding blind_def by blast+
  have c: "\<exists>w'. read_chunk ty h x b v = ret (True, b, w') \<and> I w'" if vb: "I v" "b \<noteq> []" for x b v
  proof -
    obtain r w' where "h_read h (CALC_DEVADD ty x) (MEMADD_SIZE ty) (ucast x) b v = Some (r, b, w')" "0 \<le> r" "I w'"
      using assms(1)[unfolded blind_def, THEN conjunct2, THEN conjunct1] vb calc_even by blast
    then show ?thesis by (simp add: read_chunk_def)
  qed
  show ?thesis
  proof (cases "?k < of_nat (length buf)")
    case False
    then show ?thesis using c[OF w assms(4), of a] rel n by (auto simp: eeprom_24cxx_read_def Let_def)
  next
    case True
    have k: "unat ?k = size_of ty - unat a" using assms(3) by (intro unat_sub) (simp add: word_le_nat_alt)
    have "take (unat ?k) buf \<noteq> []" using k assms(3,4) by auto
    from c[OF w this, of a] obtain w1 where w1: "read_chunk ty h a (take (unat ?k) buf) (mutex_take h w) = ret (True, take (unat ?k) buf, w1)" "I w1"
      by blast
    have "drop (unat ?k) buf \<noteq> []" using True u by (simp add: word_less_nat_alt)
    from c[OF w1(2) this, of 0] show ?thesis using w1(1) rel n True by (auto simp: eeprom_24cxx_read_def Let_def)
  qed
qed

lemma board_blind:
  assumes "responsive S" "\<And>x. silent S x I" "\<And>ms d. I d \<Longrightarrow> I (elapse ms d)"
  shows "blind (board_handle S elapse) (\<lambda>b. bus_free (wires b) \<and> I (dev (wires b)))"
proof -
  have w: "\<exists>t'. i2c_bus_eep_write S a m u bs t = Some (1, t') \<and> bus_free t' \<and> I (dev t')"
    if "bus_free t" "I (dev t)" "\<not> bit a 0" for a m u bs t
    using eep_write_silent[OF assms(1) that(1,3) assms(2) that(2)] .
  have r: "\<exists>t'. i2c_bus_eep_read S a m u buf t = Some (1, buf, t') \<and> bus_free t' \<and> I (dev t')"
    if "bus_free t" "I (dev t)" "\<not> bit a 0" "buf \<noteq> []" for a m u buf t
    using eep_read_silent[OF assms(1) that(1,3,4) assms(2) that(2)] .
  show ?thesis unfolding blind_def board_handle_def
    using w r assms(3) by (auto simp: bus_free_def) (fastforce simp: bus_free_def)+
qed

section \<open>Other early returns\<close>

text \<open>Without \<open>eeprom_port_init\<close> the error message itself is printed through a null pointer.\<close>

lemma not_initialised: "eeprom_24cxx_write ty None a buf len w = Some (Inl Null_Call)"
  "eeprom_24cxx_read ty None a rbuf w = Some (Inl Null_Call)"
  by (simp_all add: eeprom_24cxx_write_def eeprom_24cxx_read_def)

text \<open>A write that wraps and fails in its first half returns with the mutex taken.\<close>

lemma mutex_kept:
  assumes "a \<le> MEM_MAX_SIZE ty" "len \<noteq> 0" "len \<le> MEM_MAX_SIZE ty" "a + len > MEM_MAX_SIZE ty"
    and "eeprom_24cxx_program ty h a buf (MEM_MAX_SIZE ty - a) (mutex_take h w) = ret (r, w1)" "r < 0"
  shows "eeprom_24cxx_write ty (Some h) a buf len w = ret (-1, w1)"
  using assms by (simp add: eeprom_24cxx_write_def Let_def leD)

text \<open>The address of a write is not checked: beyond the memory the first part is read out of the buffer's bounds.\<close>

lemma write_beyond:
  assumes "a > MEM_MAX_SIZE ty" "len \<noteq> 0" "len \<le> MEM_MAX_SIZE ty" "a + len > MEM_MAX_SIZE ty"
    and "MEM_PAGE_SIZE ty - a mod MEM_PAGE_SIZE ty < MEM_MAX_SIZE ty - a"
    and "length buf < unat (MEM_PAGE_SIZE ty - a mod MEM_PAGE_SIZE ty)"
  shows "eeprom_24cxx_write ty (Some h) a buf len w = Some (Inl Out_Of_Bounds_Read)"
proof -
  have "\<not> MEM_MAX_SIZE ty - a \<le> MEM_PAGE_SIZE ty - a mod MEM_PAGE_SIZE ty" "\<not> MEM_MAX_SIZE ty < len"
    using assms(3,5) by (simp_all add: not_le not_less)
  then show ?thesis using assms(2,4,6)
    by (simp add: eeprom_24cxx_write_def eeprom_24cxx_program_def write_chunk_def Let_def)
qed

section \<open>Properties\<close>

text \<open>C13: The memory behind the wire.  Over the bit-banged bus with a 24Cxx on it, a write of any
  length up to the size of the chip, from any address, across pages, address blocks and the end of
  the memory, returns 0 and leaves the bytes in the cells from the address on, around the end; a read
  of the same place returns 0 and those bytes, and changes no cell.\<close>

theorem eeprom_wire_roundtrip:
  assumes "board_ready ty b" "unat a < size_of ty" "bs \<noteq> []" "length bs \<le> size_of ty" "length buf = length bs"
  shows "\<exists>b1 b2. eeprom_24cxx_write ty (Some (board_handle (at24_slave ty st) (at24_elapse ty))) a bs (of_nat (length bs)) b = ret (0, b1) \<and>
    board_cells b1 = ring_write (unat a) bs (board_cells b) \<and>
    eeprom_24cxx_read ty (Some (board_handle (at24_slave ty st) (at24_elapse ty))) a buf b1 = ret (0, bs, b2) \<and>
    board_cells b2 = board_cells b1 \<and> board_ready ty b2"
proof -
  have u: "unat (of_nat (length bs) :: u32) = length bs"
    using assms(4) size_small[of ty] by (simp add: unat_of_nat take_bit_nat_eq_self)
  have l: "0 < length bs" "length (board_cells b) = size_of ty" "buf \<noteq> []" "length buf \<le> size_of ty"
    using assms by (auto simp: board_ready_def board_present_def)
  obtain b1 where b1: "eeprom_24cxx_write ty (Some (board_handle (at24_slave ty st) (at24_elapse ty))) a bs (of_nat (length bs)) b = ret (0, b1)"
    "board_ready ty b1" "board_cells b1 = ring_write (unat a) bs (board_cells b)"
    using wired.write_ok[OF assms(1,2), of "of_nat (length bs)" bs st] l(1) assms(4) by (auto simp: u)
  show ?thesis using wired.read_ok[OF b1(2) assms(2) l(3,4), of st] b1 ring_roundtrip[of "unat a" "board_cells b" bs] l(2) assms(2,4,5)
    by auto
qed

definition fresh_board :: "at24 eep_board" where
  "fresh_board = \<lparr>wires = \<lparr>scl_out = True, sda_out = True, sda_in = True, phase = Quiet, hold = Some 0,
     dev = \<lparr>memory = replicate 512 0xFF, at_ptr = 0, stage = Deaf, latched = [], busy = False\<rparr>,
     twi_errno = 0, twi_state = 0\<rparr>, ext_eeprom_mutex = False\<rparr>"

lemma fresh_ready: "board_ready EEPROM_24C04 fresh_board" "size_of EEPROM_24C04 = 512"
  by (simp_all add: board_ready_def board_present_def board_cells_def fresh_board_def bus_free_def pulls_def
    MEM_MAX_SIZE_def MEM_PAGE_SIZE_def MEM_NUM_OF_PAGE_def)

text \<open>Four bytes at address 510 of a chip with 512, which stretches the clock.\<close>

theorem eeprom_wire_roundtrip_witness:
  "\<exists>b1 b2. eeprom_24cxx_write EEPROM_24C04 (Some (board_handle (at24_slave EEPROM_24C04 at_ptr) (at24_elapse EEPROM_24C04)))
      510 [1, 2, 3, 4] 4 fresh_board = ret (0, b1) \<and>
    eeprom_24cxx_read EEPROM_24C04 (Some (board_handle (at24_slave EEPROM_24C04 at_ptr) (at24_elapse EEPROM_24C04)))
      510 [0, 0, 0, 0] b1 = ret (0, [1, 2, 3, 4], b2)"
  using eeprom_wire_roundtrip[OF fresh_ready(1), of 510 "[1, 2, 3, 4]" "[0, 0, 0, 0]" at_ptr] by (auto simp: fresh_ready(2))

text \<open>A missing chip is not noticed.  The driver takes a negative result of the bus for a failure
  and the bus functions answer 1: when no address is acknowledged, every write within the memory
  still returns 0, and every read returns 0 with the caller's buffer as it was.\<close>

theorem eeprom_failure_unseen:
  assumes "responsive S" "\<forall>x. silent S x I" "\<forall>ms d. I d \<longrightarrow> I (elapse ms d)"
    and "bus_free (wires b)" "I (dev (wires b))" "unat a < size_of ty" "bs \<noteq> []" "length bs \<le> size_of ty"
    and "buf \<noteq> []" "length buf \<le> size_of ty"
  shows "\<exists>b1 b2. eeprom_24cxx_write ty (Some (board_handle S elapse)) a bs (of_nat (length bs)) b = ret (0, b1) \<and>
    eeprom_24cxx_read ty (Some (board_handle S elapse)) a buf b1 = ret (0, buf, b2)"
proof -
  have u: "unat (of_nat (length bs) :: u32) = length bs"
    using assms(8) size_small[of ty] by (simp add: unat_of_nat take_bit_nat_eq_self)
  have d: "blind (board_handle S elapse) (\<lambda>b. bus_free (wires b) \<and> I (dev (wires b)))"
    using board_blind[OF assms(1), of I elapse] assms(2,3) by blast
  obtain b1 where b1: "eeprom_24cxx_write ty (Some (board_handle S elapse)) a bs (of_nat (length bs)) b = ret (0, b1)"
    "bus_free (wires b1) \<and> I (dev (wires b1))"
    using blind_write[OF d _ assms(6), of b "of_nat (length bs)" bs] assms(4,5,7,8) by (auto simp: u)
  show ?thesis using b1(1) blind_read[OF d b1(2) assms(6,9,10)] by blast
qed

definition no_device :: "unit i2c_slave" where
  "no_device = \<lparr>s_start = id, s_stop = id, s_recv = \<lambda>_ d. (False, d), s_send = \<lambda>d. (0xFF, d), s_ack = \<lambda>_ d. d,
     s_stretch = \<lambda>_. Some 0\<rparr>"

definition bare_board :: "unit eep_board" where
  "bare_board = \<lparr>wires = \<lparr>scl_out = True, sda_out = True, sda_in = True, phase = Quiet, hold = Some 0, dev = (),
     twi_errno = 0, twi_state = 0\<rparr>, ext_eeprom_mutex = False\<rparr>"

lemma bare_silent: "responsive no_device" "silent no_device x (\<lambda>_. True)" "bus_free (wires bare_board)"
  by (simp_all add: responsive_def silent_def no_device_def bare_board_def bus_free_def pulls_def)

theorem eeprom_failure_unseen_witness:
  "\<exists>b1 b2. eeprom_24cxx_write EEPROM_24C16 (Some (board_handle no_device (\<lambda>_ d. d))) 2047 [1, 2, 3] 3 bare_board = ret (0, b1) \<and>
    eeprom_24cxx_read EEPROM_24C16 (Some (board_handle no_device (\<lambda>_ d. d))) 2047 [7, 7, 7] b1 = ret (0, [7, 7, 7], b2)"
  using eeprom_failure_unseen[of no_device "\<lambda>_. True" "\<lambda>_ d. d" bare_board 2047 EEPROM_24C16 "[1, 2, 3]" "[7, 7, 7]"]
  by (simp add: bare_silent MEM_MAX_SIZE_def MEM_PAGE_SIZE_def MEM_NUM_OF_PAGE_def)

text \<open>C22: Blocks of sixteen.  A data write inside the memory returns 0 and stores the whole blocks of 16
  bytes of the given length at the base address and no other cell; the data read of the same place
  returns 0 and these bytes, and in both the rest of the length is left as it was.\<close>

theorem eeprom_data_blocks:
  assumes "board_ready ty b" "unat base + unat len \<le> size_of ty" "unat len \<le> length data" "unat len \<le> length buf"
  shows "\<exists>b1 b2. eeprom_data_write ty (Some (board_handle (at24_slave ty st) (at24_elapse ty))) base data len b = ret (0, b1) \<and>
    board_cells b1 = splice (unat base) (take (16 * (unat len div 16)) data) (board_cells b) \<and>
    eeprom_data_read ty (Some (board_handle (at24_slave ty st) (at24_elapse ty))) base buf len b1 =
      ret (0, take (16 * (unat len div 16)) data @ drop (16 * (unat len div 16)) buf, b2)"
proof -
  let ?n = "unat len div 16" and ?h = "board_handle (at24_slave ty st) (at24_elapse ty)"
  have n: "unat (len div 16) = ?n" by (simp add: unat_div)
  have k: "16 * ?n \<le> unat len" by simp
  have f: "unat (ucast base :: u32) + 16 * ?n \<le> size_of ty" "16 * ?n \<le> length data" "16 * ?n \<le> length buf"
    using assms(2-4) k by (simp_all add: unat_ucast_u16_u32)
  obtain b1 where b1: "data_write_loop ty (Some ?h) (ucast base) ?n data b = ret (0, b1)" "board_ready ty b1"
    "board_cells b1 = splice (unat base) (take (16 * ?n) data) (board_cells b)"
    using wired.data_write_ok[OF assms(1) f(1,2), of st] by (auto simp: unat_ucast_u16_u32)
  obtain b2 where b2: "data_read_loop ty (Some ?h) (ucast base) ?n buf b1 =
      ret (0, take (16 * ?n) (drop (unat base) (board_cells b1)) @ drop (16 * ?n) buf, b2)"
    using wired.data_read_ok[OF b1(2) f(1,3), of st] by (auto simp: unat_ucast_u16_u32)
  have "length (board_cells b) = size_of ty" using assms(1) by (simp add: board_ready_def board_present_def)
  then have "take (16 * ?n) (drop (unat base) (board_cells b1)) = take (16 * ?n) data"
    using f by (simp add: b1(3) splice_def unat_ucast_u16_u32)
  then show ?thesis using b1(1,3) b2 by (simp add: eeprom_data_write_def eeprom_data_read_def n)
qed

theorem eeprom_data_blocks_witness:
  "\<exists>b1 b2. eeprom_data_write EEPROM_24C04 (Some (board_handle (at24_slave EEPROM_24C04 (\<lambda>_. 0)) (at24_elapse EEPROM_24C04)))
      8 (replicate 20 5) 20 fresh_board = ret (0, b1) \<and>
    eeprom_data_read EEPROM_24C04 (Some (board_handle (at24_slave EEPROM_24C04 (\<lambda>_. 0)) (at24_elapse EEPROM_24C04)))
      8 (replicate 20 0) 20 b1 = ret (0, replicate 16 5 @ replicate 4 0, b2)"
  using eeprom_data_blocks[OF fresh_ready(1), of 8 20 "replicate 20 5" "replicate 20 0" "\<lambda>_. 0"] by (auto simp: fresh_ready(2))

end
