(* ===== verification/Wlcc_Frame.thy ===== *)
theory Wlcc_Frame
  imports Wlcc_Tlv Crc
begin

text \<open>
  The frames of the wireless link between devices, \<open>wlcc/wlcc_protocol.c\<close>: the builders, the two format
  checks, the test whether a frame is meant for this device, and the fields of the head.

  What the builders take from globals (own serial number and type, mesh identifier, addresses, whether
  the device is the master) is the record \<open>wlcc_self\<close>; the message counter is passed along.  An output
  buffer is the list of its bytes before and after; the returned length is a 16-bit word.
  \<open>mesh_memory\<close> are the eight bytes at \<open>WIFI_Mesh_ID\<close>, an array of six.
\<close>

section \<open>Data\<close>

record wlcc_self =
  self_sn :: u64
  SN_TYPE_SELF :: u16
  mesh_memory :: "u8 list"
  sta_gw :: "u8 list"
  sta_ipv4 :: "u8 list"
  is_master :: u8

record wlcc_dev_info =
  i_msg_id :: u16
  i_dev_type :: u16
  i_dev_sn :: u64
  i_dev_priority :: u16
  i_port :: u16
  i_ip :: u32

definition IOT_ERR_WLCC_FORMAT :: int where "IOT_ERR_WLCC_FORMAT = 0x1008"
definition IOT_ERR_WLCC_TARGET :: int where "IOT_ERR_WLCC_TARGET = 0x100A"
definition DEV_PRIORITY_CMM_INV :: u16 where "DEV_PRIORITY_CMM_INV = 30050"
definition DEV_PRIORITY_SELF :: u16 where "DEV_PRIORITY_SELF = DEV_PRIORITY_CMM_INV"
definition WLCC_EMS_MODE_INVALID :: u8 where "WLCC_EMS_MODE_INVALID = 0"
definition WLCC_EMS_MODE_MASTER :: u8 where "WLCC_EMS_MODE_MASTER = 1"
definition WLCC_EMS_MODE_SLAVER :: u8 where "WLCC_EMS_MODE_SLAVER = 2"
definition WLCC_FRAME_VERSION_WIFI :: u8 where "WLCC_FRAME_VERSION_WIFI = 1"
definition WLCC_FRAME_HEADER_COMMON :: u8 where "WLCC_FRAME_HEADER_COMMON = 0"
definition WLCC_FRAME_HEADER_TRIGER :: u8 where "WLCC_FRAME_HEADER_TRIGER = 1"
definition WLCC_FRAME_HEADER_SEND_SN :: u8 where "WLCC_FRAME_HEADER_SEND_SN = 2"
definition WLCC_FRAME_HEADER_FINISH :: u8 where "WLCC_FRAME_HEADER_FINISH = 3"
definition WLCC_FRAME_HEADER_FINISH_AFTER :: u8 where "WLCC_FRAME_HEADER_FINISH_AFTER = 4"
definition WLCC_FRAME_TYPE_READ :: u8 where "WLCC_FRAME_TYPE_READ = 1"
definition WLCC_FRAME_TYPE_WRITE :: u8 where "WLCC_FRAME_TYPE_WRITE = 2"
definition WLCC_FRAME_TYPE_READ_RTN :: u8 where "WLCC_FRAME_TYPE_READ_RTN = 3"
definition WLCC_FRAME_TYPE_WRITE_RTN :: u8 where "WLCC_FRAME_TYPE_WRITE_RTN = 4"
definition WLCC_FRAME_TYPE_PERIOD :: u8 where "WLCC_FRAME_TYPE_PERIOD = 5"
definition WLCC_FRAME_TYPE_HEART :: u8 where "WLCC_FRAME_TYPE_HEART = 6"
definition SN_TYPE_AC2AC :: u16 where "SN_TYPE_AC2AC = 1050"
definition SN_TYPE_NPP004 :: u16 where "SN_TYPE_NPP004 = 1051"
definition SN_TYPE_NPP005 :: u16 where "SN_TYPE_NPP005 = 1052"
definition SN_TYPE_S1 :: u16 where "SN_TYPE_S1 = 3000"
definition SN_TYPE_METER :: u16 where "SN_TYPE_METER = 3018"
definition SN_TYPE_COMMON_INVERTER_WIRELESS :: u16 where "SN_TYPE_COMMON_INVERTER_WIRELESS = 30012"

lemmas wlcc_consts = IOT_ERR_WLCC_FORMAT_def IOT_ERR_WLCC_TARGET_def DEV_PRIORITY_CMM_INV_def DEV_PRIORITY_SELF_def
  WLCC_EMS_MODE_INVALID_def WLCC_EMS_MODE_MASTER_def WLCC_EMS_MODE_SLAVER_def WLCC_FRAME_VERSION_WIFI_def
  WLCC_FRAME_HEADER_COMMON_def WLCC_FRAME_HEADER_TRIGER_def WLCC_FRAME_HEADER_SEND_SN_def WLCC_FRAME_HEADER_FINISH_def
  WLCC_FRAME_HEADER_FINISH_AFTER_def WLCC_FRAME_TYPE_READ_def WLCC_FRAME_TYPE_WRITE_def WLCC_FRAME_TYPE_READ_RTN_def
  WLCC_FRAME_TYPE_WRITE_RTN_def WLCC_FRAME_TYPE_PERIOD_def WLCC_FRAME_TYPE_HEART_def SN_TYPE_AC2AC_def SN_TYPE_NPP004_def
  SN_TYPE_NPP005_def SN_TYPE_S1_def SN_TYPE_METER_def SN_TYPE_COMMON_INVERTER_WIRELESS_def

section \<open>Builders\<close>

text \<open>The 39 bytes in front of the payload: first byte, message identifier, target, frame type and priority vary.\<close>

definition wlcc_head :: "wlcc_self \<Rightarrow> u8 \<Rightarrow> u16 \<Rightarrow> u8 list \<Rightarrow> u16 \<Rightarrow> u8 \<Rightarrow> u16 \<Rightarrow> u8 list" where
  "wlcc_head self step msg_id target dev_type frametype priority =
     [if is_master self = WLCC_EMS_MODE_MASTER then step OR 0x80 else step, WLCC_FRAME_VERSION_WIFI] @
     le16 msg_id @ le64 (self_sn self) @ le16 (SN_TYPE_SELF self) @ target @ le16 dev_type @ [frametype] @
     le16 0 @ le16 priority @ [if is_master self = WLCC_EMS_MODE_MASTER then 0 else 1, 2] @
     map ((!) (sta_gw self)) [3, 2, 1, 0] @ map ((!) (sta_ipv4 self)) [3, 2, 1, 0]"

definition wlcc_build_frame_header ::
  "wlcc_self \<Rightarrow> u16 \<Rightarrow> u8 \<Rightarrow> u16 \<Rightarrow> u64 \<Rightarrow> u8 list \<times> u16" where
  "wlcc_build_frame_header self msg_id frametype dev_type dev_sn =
     (wlcc_head self WLCC_FRAME_HEADER_COMMON (msg_id + 1) (le64 dev_sn) dev_type frametype DEV_PRIORITY_SELF, msg_id + 1)"

text \<open>Length field, payload and check sum behind a head; the result is the length and the buffer.\<close>

definition wlcc_finish :: "u8 list \<Rightarrow> u8 list option \<Rightarrow> u16 \<Rightarrow> u8 list \<Rightarrow> (u16 \<times> u8 list) cres" where
  "wlcc_finish head inbuf inlen outbuf =
     (let n = unat inlen; k = length head + 2 in
      if length outbuf < k + n + 2 then Inl Out_Of_Bounds_Write
      else need n (case inbuf of None \<Rightarrow> outbuf | Some b \<Rightarrow> b)
        (let body = head @ le16 inlen @ (case inbuf of None \<Rightarrow> take n (drop k outbuf) | Some b \<Rightarrow> take n b);
             i = of_nat (length body) :: u16;
             frame = body @ le16 (CalcCrc16_modbus body i)
         in Inr (i + 2, frame @ drop (length frame) outbuf)))"

definition wlcc_build_data_send_frame ::
  "wlcc_self \<Rightarrow> u16 \<Rightarrow> u8 \<Rightarrow> u16 \<Rightarrow> u64 \<Rightarrow> u8 list option \<Rightarrow> u16 \<Rightarrow> u8 list \<Rightarrow> (u16 \<times> u8 list \<times> u16) cres" where
  "wlcc_build_data_send_frame self msg_id frametype dev_type dev_sn inbuf inlen outbuf =
     cbind (wlcc_finish (wlcc_head self WLCC_FRAME_HEADER_COMMON (msg_id + 1) (le64 dev_sn) dev_type frametype DEV_PRIORITY_SELF)
              inbuf inlen outbuf)
       (\<lambda>(len, out). Inr (len, out, msg_id + 1))"

definition wlcc_build_response_frame ::
  "wlcc_self \<Rightarrow> u16 \<Rightarrow> u8 \<Rightarrow> u16 \<Rightarrow> u64 \<Rightarrow> u8 list option \<Rightarrow> u16 \<Rightarrow> u8 list \<Rightarrow> (u16 \<times> u8 list) cres" where
  "wlcc_build_response_frame self msg_id frametype dev_type dev_sn inbuf inlen outbuf =
     wlcc_finish (wlcc_head self WLCC_FRAME_HEADER_COMMON msg_id (le64 dev_sn) dev_type frametype DEV_PRIORITY_SELF) inbuf inlen outbuf"

text \<open>The frame of the device discovery has no payload; its target is the mesh identifier and two zero bytes.\<close>

definition build_device_discovery_frame :: "wlcc_self \<Rightarrow> u16 \<Rightarrow> u8 \<Rightarrow> u8 list \<Rightarrow> (u16 \<times> u8 list \<times> u16) cres" where
  "build_device_discovery_frame self msg_id step outbuf =
     (let body = wlcc_head self step (msg_id + 1) (take 6 (mesh_memory self) @ [0, 0]) 0xFFFF 0 DEV_PRIORITY_CMM_INV;
          i = of_nat (length body) :: u16;
          frame = body @ le16 (CalcCrc16_modbus body i)
      in if length outbuf < length frame then Inl Out_Of_Bounds_Write
         else Inr (i + 2, frame @ drop (length frame) outbuf, msg_id + 1))"

text \<open>The frame with TLV blocks but without a Modbus head.  \<open>modbus_offset\<close> is a byte: behind 255 it starts again at 0.
  The size handed to the encoder is that of a pointer less the offset, taken as a 16-bit number.\<close>

definition wlcc_build_data_send_frame_21000_tlv ::
  "wlcc_self \<Rightarrow> u16 \<Rightarrow> u8 \<Rightarrow> u16 \<Rightarrow> u64 \<Rightarrow> wlcc_tlv_block list option \<Rightarrow> u16 \<Rightarrow> u8 list \<Rightarrow> (u16 \<times> u8 list \<times> u16) cres" where
  "wlcc_build_data_send_frame_21000_tlv self msg_id frametype dev_type dev_sn tlv_blocks tlv_block_count outbuf =
     (if tlv_blocks = None \<or> tlv_block_count = 0 then Inr (0, outbuf, msg_id)
      else
        let (head, msg_id') = wlcc_build_frame_header self msg_id frametype dev_type dev_sn;
            count = unat tlv_block_count;
            tlv_total_length = wlcc_tlv_calculate_length tlv_blocks count;
            fixed = le16 TLV_PROTOCOL_VERSION_REPORT @ [0, 0, 1, 0] @ le64 (self_sn self) @ le16 (SN_TYPE_SELF self) @
                      le16 tlv_total_length;
            i = length head; off = i + 2 + length fixed
        in if length outbuf < off then Inl Out_Of_Bounds_Write
           else let out1 = head @ drop i (take (i + 2) outbuf) @ fixed @ drop off outbuf in
           cbind (if tlv_total_length > 0
                  then wlcc_tlv_encode tlv_blocks count (Some (drop off out1)) (65536 + 4 - off)
                  else Inr (0, Some (drop off out1)))
             (\<lambda>(r, tail). if r < 0 then Inr (0, take off out1 @ the tail, msg_id')
              else
                let out2 = take off out1 @ the tail;
                    modbus_offset = of_nat off + of_int r :: u8;
                    len = ucast modbus_offset - of_nat (i + 2) :: u16;
                    e = unat modbus_offset;
                    out3 = out2[i := lo8 len, Suc i := hi8 len];
                    crc = CalcCrc16_modbus out3 (ucast modbus_offset)
                in if length outbuf < e + 2 then Inl Out_Of_Bounds_Write
                   else Inr (ucast modbus_offset + 2, out3[e := lo8 crc, Suc e := hi8 crc], msg_id')))"

section \<open>Checks\<close>

text \<open>The check sum is computed before the length is looked at, over \<open>inlen - 2\<close> bytes as a 16-bit number.\<close>

definition check_wlcc_frame_format :: "u8 list \<Rightarrow> u16 \<Rightarrow> int cres" where
  "check_wlcc_frame_format income inlen =
     need (unat (inlen - 2)) income
       (let value_crc16 = CalcCrc16_modbus income (inlen - 2) in
        if \<not> inlen > 32 then Inr IOT_FAIL
        else need (unat inlen) income
          (if value_crc16 = mk16 (income ! (unat inlen - 1)) (income ! (unat inlen - 2)) \<and> income ! 1 = WLCC_FRAME_VERSION_WIFI
           then Inr IOT_OK else Inr IOT_FAIL))"

definition check_modbus_frame_format :: "u8 list \<Rightarrow> u16 \<Rightarrow> int cres" where
  "check_modbus_frame_format income inlen =
     need 31 income
       (let ip_level = unat (income ! 30); p = 31 + ip_level * 4 + 3; t = income ! 24 AND 0xF in
        need (max (Suc p) (max (unat (inlen - 2)) (unat inlen))) income
          (let funcode = income ! p AND 0x7F; err_flag = income ! p AND 0x80; crc = CalcCrc16_modbus income (inlen - 2) in
           if income ! 1 \<noteq> WLCC_FRAME_VERSION_WIFI then Inr IOT_FAIL
           else if crc \<noteq> mk16 (income ! (unat inlen - 1)) (income ! (unat inlen - 2)) \<or> t > 8 then Inr IOT_FAIL
           else if t \<in> {WLCC_FRAME_TYPE_READ, WLCC_FRAME_TYPE_WRITE, WLCC_FRAME_TYPE_READ_RTN, WLCC_FRAME_TYPE_WRITE_RTN,
                         WLCC_FRAME_TYPE_PERIOD}
           then if err_flag \<noteq> 0 then Inr IOT_FAIL
                else if funcode \<noteq> 0x03 \<and> funcode \<noteq> 0x06 \<and> funcode \<noteq> 0x10 then Inr IOT_FAIL
                else Inr (uint t)
           else Inr (uint t)))"

definition is_own_message :: "wlcc_self \<Rightarrow> wlcc_dev_info \<Rightarrow> u16 \<Rightarrow> u64 \<Rightarrow> bool" where
  "is_own_message self dev_info dst_type dst_sn \<longleftrightarrow>
     i_dev_priority dev_info = 0 \<or>
     (dst_type = SN_TYPE_SELF self \<or> dst_type = SN_TYPE_COMMON_INVERTER_WIRELESS) \<and> dst_sn = self_sn self \<or>
     dst_type = 0xFFFF \<and> get64 (mesh_memory self) 0 = dst_sn"

text \<open>What \<open>handle_wlcc_frame\<close> takes from the head of a frame.\<close>

definition wlcc_source :: "u8 list \<Rightarrow> u32 \<Rightarrow> u16 \<Rightarrow> wlcc_dev_info" where
  "wlcc_source income ip port =
     \<lparr>i_msg_id = get16 income 2, i_dev_type = get16 income 12, i_dev_sn = get64 income 4,
      i_dev_priority = get16 income 27, i_port = port, i_ip = ip\<rparr>"

definition wlcc_target :: "u8 list \<Rightarrow> u16 \<times> u64" where
  "wlcc_target income = (get16 income 22, get64 income 14)"

end
