(* ===== verification/Wlcc_Session.thy ===== *)
theory Wlcc_Session
  imports Wlcc_Frame
begin

text \<open>
  Two tables of \<open>wlcc/wlcc_process.c\<close>: the requests that wait for an answer (\<open>gMsgPendingList\<close>) and the
  devices heard on the link (\<open>gWlccDevList\<close>).  A table is the list of its entries; times are those of the
  caller.  What a change of the device table asks of other modules is a list of \<open>dev_note\<close>s.
\<close>

section \<open>Waiting requests\<close>

record modbus_addr_info =
  a_channel :: u8
  a_msg_id :: u16
  a_dev_type :: u16
  a_dev_sn :: u64
  a_regAddr :: u16
  a_regNum :: u16
  a_funcode :: u8
  a_slaveAddr :: u8
  a_ip :: u32
  a_port :: u16

record wlcc_msg_pending =
  p_msg_id :: u16
  p_devTpye :: u16
  p_devSn :: u64
  p_timeout :: u32
  p_src_addr :: modbus_addr_info

definition zero_addr :: modbus_addr_info where
  "zero_addr = \<lparr>a_channel = 0, a_msg_id = 0, a_dev_type = 0, a_dev_sn = 0, a_regAddr = 0, a_regNum = 0, a_funcode = 0,
     a_slaveAddr = 0, a_ip = 0, a_port = 0\<rparr>"

definition zero_pending :: wlcc_msg_pending where
  "zero_pending = \<lparr>p_msg_id = 0, p_devTpye = 0, p_devSn = 0, p_timeout = 0, p_src_addr = zero_addr\<rparr>"

definition WLCC_MSG_PENDING_MAX :: nat where "WLCC_MSG_PENDING_MAX = 50"
definition WLCC_PENDING_TIMEOUT_MAX :: u32 where "WLCC_PENDING_TIMEOUT_MAX = 3000"
definition MD_CHL_INVALID :: u8 where "MD_CHL_INVALID = 0"
definition MD_CHL_SELF :: u8 where "MD_CHL_SELF = 7"
definition MD_CHL_WIFI_WLCC :: u8 where "MD_CHL_WIFI_WLCC = 9"

text \<open>The loops of this file leave at the first entry with a property.\<close>

fun change_first :: "('a \<Rightarrow> bool) \<Rightarrow> 'a \<Rightarrow> 'a list \<Rightarrow> 'a list" where
  "change_first P y [] = []"
| "change_first P y (x # xs) = (if P x then y # xs else x # change_first P y xs)"

definition wlcc_msg_pending_add :: "wlcc_msg_pending \<Rightarrow> wlcc_msg_pending list \<Rightarrow> u8 \<times> wlcc_msg_pending list" where
  "wlcc_msg_pending_add msg tab =
     (let free = (\<lambda>e. p_msg_id e = 0 \<and> p_timeout e = 0) in
      if \<exists>e\<in>set tab. free e then (0, change_first free msg tab) else (- 1, tab))"

definition wlcc_remove_pending_msg :: "wlcc_msg_pending \<Rightarrow> wlcc_msg_pending list \<Rightarrow> wlcc_msg_pending list" where
  "wlcc_remove_pending_msg m tab =
     change_first (\<lambda>e. p_msg_id m = p_msg_id e \<and> p_devTpye m = p_devTpye e \<and> p_devSn m = p_devSn e) zero_pending tab"

definition wlcc_check_message_response :: "wlcc_dev_info \<Rightarrow> wlcc_msg_pending list \<Rightarrow> wlcc_msg_pending" where
  "wlcc_check_message_response rsp tab =
     (case List.find (\<lambda>e. i_msg_id rsp = p_msg_id e \<and> (i_dev_type rsp = p_devTpye e \<or> p_devTpye e = 0) \<and>
                          (i_dev_sn rsp = p_devSn e \<or> p_devSn e = 0)) tab of
        None \<Rightarrow> zero_pending | Some e \<Rightarrow> e)"

definition pending_tick :: "wlcc_msg_pending \<Rightarrow> wlcc_msg_pending" where
  "pending_tick e =
     (if p_timeout e \<ge> 100 then e\<lparr>p_timeout := p_timeout e - 100\<rparr>
      else if p_msg_id e \<noteq> 0 \<or> p_devTpye e \<noteq> 0 \<or> p_devSn e \<noteq> 0 then zero_pending else e)"

definition wlcc_msg_pending_timeout_check :: "wlcc_msg_pending list \<Rightarrow> wlcc_msg_pending list" where
  "wlcc_msg_pending_timeout_check tab = map pending_tick tab"

text \<open>A message that answers a request: what is handed on, and the table without the request.\<close>

definition wlcc_modbus_msg_rsp_handle ::
  "wlcc_dev_info \<Rightarrow> wlcc_msg_pending list \<Rightarrow> int \<times> modbus_addr_info option \<times> wlcc_msg_pending list" where
  "wlcc_modbus_msg_rsp_handle rsp tab =
     (let m = wlcc_check_message_response rsp tab; ch = a_channel (p_src_addr m) in
      if ch = MD_CHL_INVALID then (-1, None, tab)
      else (0, if ch = MD_CHL_SELF \<or> ch = MD_CHL_WIFI_WLCC then Some (p_src_addr m) else None, wlcc_remove_pending_msg m tab))"

section \<open>Devices\<close>

record wlcc_dev =
  d_type :: u16
  d_sn :: u64
  d_priority :: u16
  d_last_online :: u32
  d_online_status :: u8
  d_ip :: u32
  d_port :: u16

definition zero_dev :: wlcc_dev where
  "zero_dev = \<lparr>d_type = 0, d_sn = 0, d_priority = 0, d_last_online = 0, d_online_status = 0, d_ip = 0, d_port = 0\<rparr>"

definition NET_WIFI_MAX_POINT :: nat where "NET_WIFI_MAX_POINT = 10 + 16 + 3 + 20"
definition WLCC_STATUS_OFFLINE :: u8 where "WLCC_STATUS_OFFLINE = 0"
definition WLCC_STATUS_OFFLINE_HAL :: u8 where "WLCC_STATUS_OFFLINE_HAL = 1"
definition WLCC_STATUS_ONLINE :: u8 where "WLCC_STATUS_ONLINE = 2"

lemmas status_defs = WLCC_STATUS_OFFLINE_def WLCC_STATUS_OFFLINE_HAL_def WLCC_STATUS_ONLINE_def

datatype dev_note = Dev_Seen u16 u64 u32 | Dev_Deleted u16 u64

abbreviation same_dev :: "wlcc_dev_info \<Rightarrow> wlcc_dev \<Rightarrow> bool" where
  "same_dev i d \<equiv> i_dev_type i = d_type d \<and> i_dev_sn i = d_sn d"

definition refresh_dev :: "wlcc_dev_info \<Rightarrow> u32 \<Rightarrow> wlcc_dev \<Rightarrow> wlcc_dev" where
  "refresh_dev i now d =
     (let d1 = d\<lparr>d_priority := i_dev_priority i, d_online_status := WLCC_STATUS_ONLINE, d_last_online := now\<rparr>
      in if i_ip i \<noteq> 0 then d1\<lparr>d_ip := i_ip i, d_port := i_port i\<rparr> else d1)"

definition enter_dev :: "wlcc_dev_info \<Rightarrow> u32 \<Rightarrow> wlcc_dev" where
  "enter_dev i now =
     \<lparr>d_type = i_dev_type i, d_sn = i_dev_sn i, d_priority = i_dev_priority i, d_last_online = now,
      d_online_status = WLCC_STATUS_ONLINE, d_ip = i_ip i, d_port = i_port i\<rparr>"

text \<open>The call of \<open>wlcc_master_online_time_update\<close> at the head of the function, made under the same condition,
  works on the record of the master; it is put together with this where a frame is taken in.\<close>

definition update_device_discovery_info :: "wlcc_dev_info \<Rightarrow> u32 \<Rightarrow> wlcc_dev list \<Rightarrow> wlcc_dev list \<times> dev_note list" where
  "update_device_discovery_info i now devs =
     (let seen = [Dev_Seen (i_dev_type i) (i_dev_sn i) now]; offline = (\<lambda>d. d_online_status d = WLCC_STATUS_OFFLINE) in
      if i_dev_type i = 0 \<or> i_dev_sn i = 0 then (devs, [])
      else case List.find (same_dev i) devs of
        Some d \<Rightarrow> (change_first (same_dev i) (refresh_dev i now d) devs, seen)
      | None \<Rightarrow>
          if \<exists>d\<in>set devs. offline d then (change_first offline (enter_dev i now) devs, seen) else (devs, []))"

definition wlcc_dev_online_check :: "u16 \<Rightarrow> u64 \<Rightarrow> wlcc_dev list \<Rightarrow> int" where
  "wlcc_dev_online_check dev_type dev_sn devs =
     (if \<exists>d\<in>set devs. dev_type = d_type d \<and> dev_sn = d_sn d \<and> d_online_status d \<noteq> WLCC_STATUS_OFFLINE then 1 else 0)"

definition wlcc_dev_detect_stable_conn_check :: "u16 \<Rightarrow> u64 \<Rightarrow> wlcc_dev list \<Rightarrow> int" where
  "wlcc_dev_detect_stable_conn_check dev_type dev_sn devs =
     (if \<exists>d\<in>set devs. dev_type = d_type d \<and> dev_sn = d_sn d \<and> d_online_status d = WLCC_STATUS_ONLINE then 1 else 0)"

definition wlcc_dev_online_time_get :: "u16 \<Rightarrow> u64 \<Rightarrow> wlcc_dev list \<Rightarrow> u32" where
  "wlcc_dev_online_time_get dev_type dev_sn devs =
     (case List.find (\<lambda>d. dev_type = d_type d \<and> dev_sn = d_sn d) devs of None \<Rightarrow> 0 | Some d \<Rightarrow> d_last_online d)"

definition wlcc_online_dev_info_get :: "u16 \<Rightarrow> nat \<Rightarrow> wlcc_dev list \<Rightarrow> wlcc_dev list" where
  "wlcc_online_dev_info_get dev_type max_num devs =
     take max_num (filter (\<lambda>d. d_online_status d \<noteq> WLCC_STATUS_OFFLINE \<and> d_sn d \<noteq> 0 \<and> dev_type = d_type d) devs)"

text \<open>One entry of \<open>wlcc_dev_offline_check\<close>: the entry, whether it is counted, and whether the device is deleted elsewhere.
  \<open>plug\<close> and \<open>meter\<close> are \<open>CONFIG_WLCC_PLUG_SUPPLY_ENABLE\<close> and \<open>CONFIG_WLCC_METER_SUPPLY_ENABLE\<close>.\<close>

definition offline_step :: "bool \<Rightarrow> bool \<Rightarrow> u32 \<Rightarrow> wlcc_dev \<Rightarrow> wlcc_dev \<times> bool \<times> bool" where
  "offline_step plug meter now d =
     (let diff = now - d_last_online d; off = d\<lparr>d_online_status := WLCC_STATUS_OFFLINE\<rparr> in
      if d_online_status d = WLCC_STATUS_OFFLINE then (d, False, False)
      else if diff > 300 then (off, False, True)
      else if diff > 120 then (if d_type d = SN_TYPE_S1 \<and> plug then (off, False, True) else (d, False, False))
      else if diff > 60 then (if d_type d = SN_TYPE_METER \<and> meter then (off, False, True) else (d, False, False))
      else if diff > 30 then (d\<lparr>d_online_status := WLCC_STATUS_OFFLINE_HAL\<rparr>, True, False)
      else (d, True, False))"

definition wlcc_dev_offline_check ::
  "bool \<Rightarrow> bool \<Rightarrow> u32 \<Rightarrow> wlcc_dev list \<Rightarrow> wlcc_dev list \<times> u8 \<times> dev_note list" where
  "wlcc_dev_offline_check plug meter now devs =
     (let rs = map (offline_step plug meter now) devs in
      (map fst rs, of_nat (length (filter (fst \<circ> snd) rs)),
       map (\<lambda>(d, _, _). Dev_Deleted (d_type d) (d_sn d)) (filter (snd \<circ> snd) rs)))"

section \<open>First entries\<close>

lemma length_change_first [simp]: "length (change_first P y xs) = length xs"
  by (induction xs) simp_all

lemma change_first_find:
  "List.find P xs = Some x \<Longrightarrow> \<exists>us vs. xs = us @ x # vs \<and> P x \<and> (\<forall>u\<in>set us. \<not> P u) \<and> change_first P y xs = us @ y # vs"
proof (induction xs)
  case (Cons a xs)
  show ?case
  proof (cases "P a")
    case True
    then show ?thesis using Cons.prems by - (rule exI[of _ "[]"], rule exI[of _ xs], auto)
  next
    case False
    then obtain us vs where "xs = us @ x # vs" "P x" "\<forall>u\<in>set us. \<not> P u" "change_first P y xs = us @ y # vs"
      using Cons by auto
    then show ?thesis using False by - (rule exI[of _ "a # us"], rule exI[of _ vs], auto)
  qed
qed simp

lemma change_first_none: "\<forall>x\<in>set xs. \<not> P x \<Longrightarrow> change_first P y xs = xs"
  by (induction xs) simp_all

lemma find_ex: "x \<in> set xs \<Longrightarrow> P x \<Longrightarrow> \<exists>y. List.find P xs = Some y"
  by (induction xs) auto

lemma change_first_append:
  "change_first P y (us @ x # vs) =
     (if \<exists>u\<in>set us. P u then change_first P y us @ x # vs
      else us @ (if P x then y # vs else x # change_first P y vs))"
  by (induction us) auto

lemma set_change_first: "set (change_first P y xs) \<subseteq> insert y (set xs)"
  by (induction xs) auto

lemma find_append_only:
  "\<forall>u\<in>set us. \<not> P u \<Longrightarrow> P x \<Longrightarrow> List.find P (us @ x # vs) = Some x"
  by (induction us) auto

section \<open>A request waits for its answer\<close>

datatype wait_event = Ask wlcc_msg_pending | Reply wlcc_dev_info | Clock

fun wait_step :: "wait_event \<Rightarrow> wlcc_msg_pending list \<Rightarrow> wlcc_msg_pending list" where
  "wait_step (Ask m) tab = snd (wlcc_msg_pending_add m tab)"
| "wait_step (Reply r) tab = snd (snd (wlcc_modbus_msg_rsp_handle r tab))"
| "wait_step Clock tab = wlcc_msg_pending_timeout_check tab"

fun event_id :: "wait_event \<Rightarrow> u16 option" where
  "event_id (Ask m) = Some (p_msg_id m)" | "event_id (Reply r) = Some (i_msg_id r)" | "event_id Clock = None"

definition ticks :: "wait_event list \<Rightarrow> nat" where "ticks evs = length (filter ((=) Clock) evs)"

text \<open>\<open>waits m k tab\<close>: the request has been in the table for \<open>k\<close> ticks and no other entry has its identifier.\<close>

definition waits :: "wlcc_msg_pending \<Rightarrow> nat \<Rightarrow> wlcc_msg_pending list \<Rightarrow> bool" where
  "waits m k tab \<longleftrightarrow> (\<exists>us vs. tab = us @ m\<lparr>p_timeout := of_nat (3000 - 100 * k)\<rparr> # vs \<and>
     (\<forall>e\<in>set us \<union> set vs. p_msg_id e \<noteq> p_msg_id m))"

definition unknown :: "u16 \<Rightarrow> wlcc_msg_pending list \<Rightarrow> bool" where
  "unknown i tab \<longleftrightarrow> (\<forall>e\<in>set tab. p_msg_id e \<noteq> i)"

lemma zero_pending_id [simp]: "p_msg_id zero_pending = 0"
  by (simp add: zero_pending_def)

lemma pending_tick_id: "p_msg_id (pending_tick e) \<noteq> 0 \<Longrightarrow> p_msg_id (pending_tick e) = p_msg_id e"
  by (auto simp: pending_tick_def)

lemma tick_ids:
  assumes "\<forall>e\<in>A. p_msg_id e \<noteq> i" "i \<noteq> 0"
  shows "\<forall>e\<in>pending_tick ` A. p_msg_id e \<noteq> i"
  using assms pending_tick_id by (auto; metis)

lemma wlcc_msg_pending_add_waits:
  assumes "\<exists>e\<in>set tab. p_msg_id e = 0 \<and> p_timeout e = 0" "unknown (p_msg_id m) tab" "p_timeout m = WLCC_PENDING_TIMEOUT_MAX"
  shows "waits m 0 (snd (wlcc_msg_pending_add m tab))"
proof -
  let ?free = "\<lambda>e. p_msg_id e = 0 \<and> p_timeout e = 0"
  obtain x where "List.find ?free tab = Some x" using assms(1) find_ex[of _ tab ?free] by blast
  from change_first_find[OF this, of m] obtain us vs where "tab = us @ x # vs" "change_first ?free m tab = us @ m # vs" by blast
  moreover have "m\<lparr>p_timeout := of_nat (3000 - 100 * 0)\<rparr> = m" using assms(3) by (simp add: WLCC_PENDING_TIMEOUT_MAX_def)
  ultimately show ?thesis using assms(1,2)
    unfolding waits_def by - (rule exI[of _ us], rule exI[of _ vs], auto simp: wlcc_msg_pending_add_def unknown_def Let_def)
qed

lemma waits_change_first:
  assumes "waits m k tab" "\<not> P (m\<lparr>p_timeout := of_nat (3000 - 100 * k)\<rparr>)" "p_msg_id y \<noteq> p_msg_id m"
  shows "waits m k (change_first P y tab)"
proof -
  let ?m = "m\<lparr>p_timeout := of_nat (3000 - 100 * k)\<rparr>"
  obtain us vs where t: "tab = us @ ?m # vs" "\<forall>e\<in>set us \<union> set vs. p_msg_id e \<noteq> p_msg_id m"
    using assms(1) by (auto simp: waits_def)
  have "\<exists>us' vs'. change_first P y tab = us' @ ?m # vs' \<and> set us' \<union> set vs' \<subseteq> insert y (set us \<union> set vs)"
  proof (cases "\<exists>u\<in>set us. P u")
    case True
    then show ?thesis using set_change_first[of P y us]
      by (intro exI[of _ "change_first P y us"] exI[of _ vs]) (auto simp: t(1) change_first_append)
  next
    case False
    then show ?thesis using assms(2) set_change_first[of P y vs]
      by (intro exI[of _ us] exI[of _ "change_first P y vs"]) (auto simp: t(1) change_first_append)
  qed
  then show ?thesis using t(2) assms(3) unfolding waits_def by blast
qed

lemma check_response_id:
  "p_msg_id (wlcc_check_message_response r tab) = i_msg_id r \<or> wlcc_check_message_response r tab = zero_pending"
  by (auto simp: wlcc_check_message_response_def find_Some_iff split: option.splits)

lemma waits_step:
  assumes "waits m k tab" "p_msg_id m \<noteq> 0" "event_id ev \<noteq> Some (p_msg_id m)" "ev = Clock \<longrightarrow> k < 30"
  shows "waits m (if ev = Clock then Suc k else k) (wait_step ev tab)"
proof (cases ev)
  case (Ask x)
  then show ?thesis using assms by (auto simp: wlcc_msg_pending_add_def Let_def intro!: waits_change_first)
next
  case (Reply r)
  have "a_channel (p_src_addr (wlcc_check_message_response r tab)) \<noteq> MD_CHL_INVALID \<Longrightarrow>
      p_msg_id (wlcc_check_message_response r tab) \<noteq> p_msg_id m"
    using check_response_id[of r tab] assms(3) Reply by (auto simp: zero_pending_def zero_addr_def MD_CHL_INVALID_def)
  then show ?thesis using assms(1,2) Reply
    by (auto simp: wlcc_modbus_msg_rsp_handle_def wlcc_remove_pending_msg_def Let_def intro!: waits_change_first)
next
  case Clock
  let ?m = "\<lambda>k. m\<lparr>p_timeout := of_nat (3000 - 100 * k)\<rparr>"
  obtain us vs where t: "tab = us @ ?m k # vs" "\<forall>e\<in>set us \<union> set vs. p_msg_id e \<noteq> p_msg_id m"
    using assms(1) by (auto simp: waits_def)
  have k: "k < 30" using assms(4) Clock by simp
  define n where "n = 3000 - 100 * k"
  have n: "100 \<le> n" "n \<le> 3000" "3000 - 100 * Suc k = n - 100" using k by (simp_all add: n_def)
  have "unat (of_nat n :: u32) = n" using n(2) by (simp add: unat_of_nat take_bit_nat_eq_self)
  then have "(100 :: u32) \<le> of_nat n" using n(1) by (simp add: word_le_nat_alt)
  moreover have "of_nat n - 100 = (of_nat (n - 100) :: u32)" using n(1) by (simp add: of_nat_diff)
  ultimately have "pending_tick (?m k) = ?m (Suc k)" unfolding n(3) n_def[symmetric] by (simp add: pending_tick_def)
  moreover have "\<forall>e\<in>set (map pending_tick us) \<union> set (map pending_tick vs). p_msg_id e \<noteq> p_msg_id m"
    using tick_ids[OF t(2) assms(2)] by auto
  ultimately show ?thesis using t(1) Clock
    unfolding waits_def
    by - (rule exI[of _ "map pending_tick us"], rule exI[of _ "map pending_tick vs"], auto simp: wlcc_msg_pending_timeout_check_def)
qed

lemma waits_run:
  assumes "waits m k tab" "p_msg_id m \<noteq> 0" "\<forall>ev\<in>set evs. event_id ev \<noteq> Some (p_msg_id m)" "k + ticks evs \<le> 30"
  shows "waits m (k + ticks evs) (fold wait_step evs tab)"
  using assms(1,3,4)
proof (induction evs arbitrary: k tab)
  case Nil
  then show ?case by (simp add: ticks_def)
next
  case (Cons ev evs)
  have t: "ticks (ev # evs) = (if ev = Clock then Suc (ticks evs) else ticks evs)" by (auto simp: ticks_def)
  have "waits m (if ev = Clock then Suc k else k) (wait_step ev tab)"
    using Cons.prems t by (intro waits_step[OF _ assms(2)]) auto
  from Cons.IH[OF this] show ?case using Cons.prems t by (auto split: if_splits)
qed

lemma unknown_change_first: "unknown i tab \<Longrightarrow> p_msg_id y \<noteq> i \<Longrightarrow> unknown i (change_first P y tab)"
  using set_change_first[of P y tab] by (auto simp: unknown_def)

lemma unknown_tick: "unknown i tab \<Longrightarrow> i \<noteq> 0 \<Longrightarrow> unknown i (wlcc_msg_pending_timeout_check tab)"
  using tick_ids[of "set tab" i] by (simp add: unknown_def wlcc_msg_pending_timeout_check_def)

lemma unknown_step:
  assumes "unknown i tab" "i \<noteq> 0" "event_id ev \<noteq> Some i"
  shows "unknown i (wait_step ev tab)"
  using assms
  by (cases ev) (auto simp: wlcc_msg_pending_add_def wlcc_modbus_msg_rsp_handle_def
      wlcc_remove_pending_msg_def Let_def intro: unknown_change_first unknown_tick)

lemma unknown_run:
  assumes "unknown i tab" "i \<noteq> 0" "\<forall>ev\<in>set evs. event_id ev \<noteq> Some i"
  shows "unknown i (fold wait_step evs tab)"
  using assms by (induction evs arbitrary: tab) (auto intro: unknown_step)

lemma unknown_ignored:
  assumes "unknown (i_msg_id r) tab" "i_msg_id r \<noteq> 0"
  shows "wlcc_modbus_msg_rsp_handle r tab = (-1, None, tab)"
proof -
  have "List.find (\<lambda>e. i_msg_id r = p_msg_id e \<and> (i_dev_type r = p_devTpye e \<or> p_devTpye e = 0) \<and>
      (i_dev_sn r = p_devSn e \<or> p_devSn e = 0)) tab = None"
    using assms(1) by (auto simp: find_None_iff unknown_def)
  then show ?thesis
    by (simp add: wlcc_modbus_msg_rsp_handle_def wlcc_check_message_response_def zero_pending_def zero_addr_def MD_CHL_INVALID_def Let_def)
qed

lemma waits_answered:
  assumes "waits m k tab" "p_msg_id m \<noteq> 0" "i_msg_id r = p_msg_id m" "i_dev_type r = p_devTpye m" "i_dev_sn r = p_devSn m"
    "a_channel (p_src_addr m) = MD_CHL_SELF \<or> a_channel (p_src_addr m) = MD_CHL_WIFI_WLCC"
  shows "\<exists>tab'. wlcc_modbus_msg_rsp_handle r tab = (0, Some (p_src_addr m), tab') \<and> unknown (p_msg_id m) tab'"
proof -
  let ?m = "m\<lparr>p_timeout := of_nat (3000 - 100 * k)\<rparr>"
  obtain us vs where t: "tab = us @ ?m # vs" "\<forall>e\<in>set us \<union> set vs. p_msg_id e \<noteq> p_msg_id m"
    using assms(1) by (auto simp: waits_def)
  have f: "wlcc_check_message_response r tab = ?m"
    unfolding wlcc_check_message_response_def t(1) using t(2) assms(3-5) by (subst find_append_only) auto
  have "wlcc_remove_pending_msg ?m tab = us @ zero_pending # vs"
    unfolding wlcc_remove_pending_msg_def t(1) using t(2) by (subst change_first_append) auto
  then show ?thesis using f assms(2,6) t(2)
    by (auto simp: wlcc_modbus_msg_rsp_handle_def Let_def unknown_def MD_CHL_INVALID_def MD_CHL_SELF_def MD_CHL_WIFI_WLCC_def)
qed

lemma waits_expires:
  assumes "waits m 30 tab" "p_msg_id m \<noteq> 0"
  shows "unknown (p_msg_id m) (wait_step Clock tab)"
proof -
  obtain us vs where t: "tab = us @ m\<lparr>p_timeout := 0\<rparr> # vs" "\<forall>e\<in>set us \<union> set vs. p_msg_id e \<noteq> p_msg_id m"
    using assms(1) by (auto simp: waits_def)
  have "pending_tick (m\<lparr>p_timeout := 0\<rparr>) = zero_pending" using assms(2) by (simp add: pending_tick_def)
  then show ?thesis using t(1) tick_ids[OF t(2) assms(2)] assms(2) by (auto simp: unknown_def wlcc_msg_pending_timeout_check_def)
qed

section \<open>Who is there\<close>

datatype presence_event = Heard wlcc_dev_info u32 | Checked u32

fun presence_step :: "bool \<Rightarrow> bool \<Rightarrow> presence_event \<Rightarrow> wlcc_dev list \<Rightarrow> wlcc_dev list" where
  "presence_step plug meter (Heard i now) devs = fst (update_device_discovery_info i now devs)"
| "presence_step plug meter (Checked now) devs = fst (wlcc_dev_offline_check plug meter now devs)"

fun event_time :: "presence_event \<Rightarrow> u32" where
  "event_time (Heard i t) = t" | "event_time (Checked t) = t"

text \<open>The specification: when a device was last heard.\<close>

type_synonym dev_key = "u16 \<times> u64"

fun hear :: "presence_event \<Rightarrow> (dev_key \<rightharpoonup> u32) \<Rightarrow> (dev_key \<rightharpoonup> u32)" where
  "hear (Heard i t) h = (if i_dev_type i = 0 \<or> i_dev_sn i = 0 then h else h((i_dev_type i, i_dev_sn i) \<mapsto> t))"
| "hear (Checked t) h = h"

definition last_heard :: "presence_event list \<Rightarrow> dev_key \<rightharpoonup> u32" where
  "last_heard evs = fold hear evs Map.empty"

definition silence_limit :: "bool \<Rightarrow> u16 \<Rightarrow> u32" where
  "silence_limit plug dev_type = (if dev_type = SN_TYPE_S1 \<and> plug then 120 else 300)"

text \<open>In a build that supplies meters a silent meter is dropped only by a check that falls between 60
  and 120 seconds, so for these there is no such limit.\<close>

abbreviation has_limit :: "bool \<Rightarrow> u16 \<Rightarrow> bool" where "has_limit meter dev_type \<equiv> \<not> (meter \<and> dev_type = SN_TYPE_METER)"

definition dkey :: "wlcc_dev \<Rightarrow> dev_key" where "dkey d = (d_type d, d_sn d)"

abbreviation live :: "wlcc_dev \<Rightarrow> bool" where "live d \<equiv> d_online_status d \<noteq> WLCC_STATUS_OFFLINE"

lemma same_dev_key: "same_dev i d \<longleftrightarrow> dkey d = (i_dev_type i, i_dev_sn i)"
  by (auto simp: dkey_def)

lemma dkey_updates [simp]: "dkey (refresh_dev i now d) = dkey d" "dkey (enter_dev i now) = (i_dev_type i, i_dev_sn i)"
  "d_last_online (refresh_dev i now d) = now" "d_last_online (enter_dev i now) = now"
  "live (refresh_dev i now d)" "live (enter_dev i now)"
  by (simp_all add: dkey_def refresh_dev_def enter_dev_def Let_def status_defs)

lemma offline_step_same [simp]: "dkey (fst (offline_step plug meter now d)) = dkey d"
  "d_last_online (fst (offline_step plug meter now d)) = d_last_online d"
  by (simp_all add: offline_step_def dkey_def Let_def)

lemma offline_step_live:
  "has_limit meter (d_type d) \<Longrightarrow> live (fst (offline_step plug meter now d)) \<longleftrightarrow> live d \<and> now - d_last_online d \<le> silence_limit plug (d_type d)"
  by (auto simp: offline_step_def silence_limit_def Let_def status_defs not_less) (simp_all add: word_le_nat_alt word_less_nat_alt)

definition devs_ok :: "wlcc_dev list \<Rightarrow> (dev_key \<rightharpoonup> u32) \<Rightarrow> bool" where
  "devs_ok devs h \<longleftrightarrow> length devs = NET_WIFI_MAX_POINT \<and> distinct (filter (\<lambda>k. fst k \<noteq> 0) (map dkey devs)) \<and>
     (\<forall>d\<in>set devs. live d \<longrightarrow> h (dkey d) = Some (d_last_online d)) \<and> (\<forall>k\<in>dom h. fst k \<noteq> 0)"

definition present :: "bool \<Rightarrow> bool \<Rightarrow> u32 \<Rightarrow> wlcc_dev list \<Rightarrow> (dev_key \<rightharpoonup> u32) \<Rightarrow> bool" where
  "present plug meter now devs h \<longleftrightarrow> (\<forall>k t. h k = Some t \<longrightarrow> t \<le> now \<and>
     (has_limit meter (fst k) \<and> now - t \<le> silence_limit plug (fst k) \<longrightarrow> (\<exists>d\<in>set devs. dkey d = k \<and> live d)))"

lemma still_within: "t \<le> now \<Longrightarrow> now \<le> now' \<Longrightarrow> now' - t \<le> (l :: u32) \<Longrightarrow> now - t \<le> l"
proof -
  assume a: "t \<le> now" "now \<le> now'" "now' - t \<le> l"
  have "unat (now - t) = unat now - unat t" "unat (now' - t) = unat now' - unat t" using a(1,2) by (auto intro: unat_sub)
  then show ?thesis using a by (simp add: word_le_nat_alt)
qed

lemma present_later: "present plug meter now devs h \<Longrightarrow> now \<le> now' \<Longrightarrow> present plug meter now' devs h"
  unfolding present_def using still_within by (meson order_trans)

lemma checked_ok:
  assumes "devs_ok devs h" "present plug meter now devs h" "now \<le> t"
  shows "devs_ok (fst (wlcc_dev_offline_check plug meter t devs)) h" (is ?T)
    "present plug meter t (fst (wlcc_dev_offline_check plug meter t devs)) h" (is ?P)
    "\<forall>d\<in>set (fst (wlcc_dev_offline_check plug meter t devs)). 
      live d \<and> has_limit meter (d_type d) \<longrightarrow> t - d_last_online d \<le> silence_limit plug (d_type d)" (is ?L)
proof -
  let ?f = "\<lambda>d. fst (offline_step plug meter t d)"
  have m: "fst (wlcc_dev_offline_check plug meter t devs) = map ?f devs" by (simp add: wlcc_dev_offline_check_def Let_def)
  note live = offline_step_live[of meter _ plug t]
  have off: "live (?f d) \<Longrightarrow> live d" for d by (auto simp: offline_step_def Let_def)
  have k: "map dkey (map ?f devs) = map dkey devs" by simp
  show ?T using assms(1) unfolding devs_ok_def m k using off by auto
  have ty: "d_type (?f d) = d_type d" for d using offline_step_same(1)[of plug meter t d] by (simp add: dkey_def)
  show ?L unfolding m
  proof (intro ballI impI)
    fix e assume "e \<in> set (map ?f devs)" "live e \<and> has_limit meter (d_type e)"
    then obtain d where "e = ?f d" "live (?f d)" "has_limit meter (d_type d)" using ty by auto
    then show "t - d_last_online e \<le> silence_limit plug (d_type e)" using live[of d] ty[of d] by simp
  qed
  have p: "present plug meter t devs h" using present_later[OF assms(2,3)] .
  show ?P unfolding present_def m
  proof (intro allI impI conjI)
    fix k u assume u: "h k = Some u"
    then show "u \<le> t" using p unfolding present_def by blast
    assume l: "has_limit meter (fst k) \<and> t - u \<le> silence_limit plug (fst k)"
    obtain d where d: "d \<in> set devs" "dkey d = k" "live d" using p u l unfolding present_def by blast
    have "h (dkey d) = Some (d_last_online d)" using assms(1) d unfolding devs_ok_def by blast
    then have "live (?f d)" using d l u live[of d] by (auto simp: dkey_def)
    then show "\<exists>d\<in>set (map ?f devs). dkey d = k \<and> live d" using d by force
  qed
qed

lemma distinct_filter_replace:
  "distinct (filter P (map f (us @ x # vs))) \<Longrightarrow> f y \<notin> set (map f (us @ x # vs)) \<Longrightarrow> distinct (filter P (map f (us @ y # vs)))"
  by (auto simp: distinct_filter split: if_splits)

lemma distinct_filter_mid:
  "distinct (filter P (map f (us @ x # vs))) \<Longrightarrow> P (f x) \<Longrightarrow> f x \<notin> set (map f us) \<union> set (map f vs)"
  by auto

lemma heard_ok:
  assumes "devs_ok devs h" "present plug meter now devs h" "now \<le> t" "card (dom (hear (Heard i t) h)) \<le> NET_WIFI_MAX_POINT" "finite (dom h)"
  shows "devs_ok (fst (update_device_discovery_info i t devs)) (hear (Heard i t) h) \<and>
    present plug meter t (fst (update_device_discovery_info i t devs)) (hear (Heard i t) h)"
proof (cases "i_dev_type i = 0 \<or> i_dev_sn i = 0")
  case True
  then show ?thesis using assms(1) present_later[OF assms(2,3)] by (simp add: update_device_discovery_info_def)
next
  case False
  let ?k = "(i_dev_type i, i_dev_sn i)" and ?h = "h((i_dev_type i, i_dev_sn i) \<mapsto> t)"
  have h: "hear (Heard i t) h = ?h" using False by simp
  have p: "present plug meter t devs h" using present_later[OF assms(2,3)] .
  have put: "devs_ok (us @ y # vs) ?h \<and> present plug meter t (us @ y # vs) ?h"
    if d: "devs = us @ x # vs" and y: "dkey y = ?k" "live y" "d_last_online y = t"
      and x: "dkey x = ?k \<or> (\<not> live x \<and> ?k \<notin> set (map dkey devs))" for us x y vs
  proof
    have o: "?k \<notin> set (map dkey us) \<union> set (map dkey vs)"
      using x
    proof
      assume k: "dkey x = ?k"
      have "distinct (filter (\<lambda>k. fst k \<noteq> 0) (map dkey (us @ x # vs)))" using assms(1) unfolding devs_ok_def d by blast
      from distinct_filter_mid[OF this] show ?thesis using k False by simp
    qed (simp add: d)
    have di: "distinct (filter (\<lambda>k. fst k \<noteq> 0) (map dkey (us @ y # vs)))"
      using x
    proof
      assume "dkey x = ?k"
      then have "map dkey (us @ y # vs) = map dkey devs" using y(1) d by simp
      then show ?thesis using assms(1) unfolding devs_ok_def by metis
    next
      assume "\<not> live x \<and> ?k \<notin> set (map dkey devs)"
      then have n: "dkey y \<notin> set (map dkey (us @ x # vs))" using y(1) d by simp
      have "distinct (filter (\<lambda>k. fst k \<noteq> 0) (map dkey (us @ x # vs)))" using assms(1) unfolding devs_ok_def d by blast
      from distinct_filter_replace[OF this n] show ?thesis .
    qed
    have "?h (dkey e) = Some (d_last_online e)" if "e \<in> set (us @ y # vs)" "live e" for e
    proof (cases "e = y")
      case False
      then have "e \<in> set us \<union> set vs" using that(1) by auto
      moreover have "dkey e \<in> dkey ` set us \<union> dkey ` set vs" using calculation by blast
      then have "dkey e \<noteq> ?k" using o unfolding set_map by metis
      ultimately show ?thesis using assms(1) that(2) unfolding devs_ok_def d by auto
    qed (simp add: y)
    moreover have "length (us @ y # vs) = NET_WIFI_MAX_POINT" using assms(1) by (simp add: devs_ok_def d)
    moreover have "\<forall>k\<in>dom ?h. fst k \<noteq> 0" using assms(1) False by (simp add: devs_ok_def)
    ultimately show "devs_ok (us @ y # vs) ?h" using di unfolding devs_ok_def by blast
    show "present plug meter t (us @ y # vs) ?h" unfolding present_def
    proof (intro allI impI conjI)
      fix k u assume u: "?h k = Some u"
      show "u \<le> t"
      proof (cases "k = ?k")
        case False
        then have "h k = Some u" using u by simp
        then show ?thesis using p unfolding present_def by blast
      qed (use u in simp)
      assume l: "has_limit meter (fst k) \<and> t - u \<le> silence_limit plug (fst k)"
      show "\<exists>e\<in>set (us @ y # vs). dkey e = k \<and> live e"
      proof (cases "k = ?k")
        case True
        then show ?thesis using y by auto
      next
        case False
        then have "h k = Some u" using u by simp
        then obtain e where e: "e \<in> set devs" "dkey e = k" "live e" using p l unfolding present_def by blast
        moreover have "e \<noteq> x" using x e False by auto
        ultimately show ?thesis unfolding d by auto
      qed
    qed
  qed
  show ?thesis
  proof (cases "List.find (same_dev i) devs")
    case (Some d)
    from change_first_find[OF Some, of "refresh_dev i t d"] obtain us vs where
      s: "devs = us @ d # vs" "same_dev i d" "change_first (same_dev i) (refresh_dev i t d) devs = us @ refresh_dev i t d # vs" by blast
    have "dkey d = ?k" using s(2) by (simp add: dkey_def)
    then show ?thesis using put[OF s(1), of "refresh_dev i t d"] s(3) False Some h
      by (simp add: update_device_discovery_info_def Let_def)
  next
    case None
    let ?off = "\<lambda>d. d_online_status d = WLCC_STATUS_OFFLINE"
    have new: "?k \<notin> set (map dkey devs)" using None by (auto simp: find_None_iff dkey_def)
    have "\<exists>d\<in>set devs. ?off d"
    proof (rule ccontr)
      assume "\<not> ?thesis"
      then have l: "\<forall>d\<in>set devs. live d" by blast
      have hd: "\<forall>d\<in>set devs. h (dkey d) = Some (d_last_online d)" using assms(1) l unfolding devs_ok_def by blast
      have sub: "set (map dkey devs) \<subseteq> dom h" using hd by auto
      then have "\<forall>k\<in>set (map dkey devs). fst k \<noteq> 0" using assms(1) unfolding devs_ok_def by blast
      then have "filter (\<lambda>k. fst k \<noteq> 0) (map dkey devs) = map dkey devs" by (rule filter_True)
      then have "distinct (map dkey devs)" using assms(1) unfolding devs_ok_def by simp
      then have "card (set (map dkey devs)) = NET_WIFI_MAX_POINT"
        using distinct_card assms(1) unfolding devs_ok_def by fastforce
      then have "card (insert ?k (set (map dkey devs))) = Suc NET_WIFI_MAX_POINT" using new by simp
      moreover have "card (insert ?k (set (map dkey devs))) \<le> card (dom ?h)"
        by (rule card_mono) (use sub assms(5) in auto)
      ultimately show False using assms(4) h by simp
    qed
    then obtain x0 where "x0 \<in> set devs" "?off x0" by blast
    then obtain x where "List.find ?off devs = Some x" using find_ex[of x0 devs ?off] by blast
    from change_first_find[OF this, of "enter_dev i t"] obtain us vs where
      s: "devs = us @ x # vs" "?off x" "change_first ?off (enter_dev i t) devs = us @ enter_dev i t # vs" by blast
    show ?thesis using put[OF s(1), of "enter_dev i t"] s(2,3) new None \<open>\<exists>d\<in>set devs. ?off d\<close> False h
      by (simp add: update_device_discovery_info_def Let_def)
  qed
qed

definition no_devs :: "wlcc_dev list" where "no_devs = replicate NET_WIFI_MAX_POINT zero_dev"

lemma hear_dom: "dom h \<subseteq> dom (hear ev h)" "finite (dom h) \<Longrightarrow> finite (dom (hear ev h))"
  by (cases ev; auto)+

lemma hears_dom: "dom h \<subseteq> dom (fold hear evs h)" "finite (dom h) \<Longrightarrow> finite (dom (fold hear evs h))"
proof (induction evs arbitrary: h)
  case (Cons ev evs)
  { case 1 then show ?case using Cons.IH(1)[of "hear ev h"] hear_dom(1)[of h ev] by auto }
  { case 2 then show ?case using Cons.IH(2)[of "hear ev h"] hear_dom(2)[of h ev] by auto }
qed simp_all

lemma presence_run:
  assumes "devs_ok devs h" "present plug meter now devs h" "finite (dom h)" "sorted (now # map event_time evs)"
    "card (dom (fold hear evs h)) \<le> NET_WIFI_MAX_POINT"
  shows "\<exists>t. devs_ok (fold (presence_step plug meter) evs devs) (fold hear evs h) \<and>
    present plug meter t (fold (presence_step plug meter) evs devs) (fold hear evs h) \<and> t = last (now # map event_time evs)"
  using assms
proof (induction evs arbitrary: devs h now)
  case (Cons ev evs)
  have s: "now \<le> event_time ev" "sorted (event_time ev # map event_time evs)" using Cons.prems(4) by auto
  have f: "finite (dom (hear ev h))" using hear_dom(2)[OF Cons.prems(3)] .
  have "card (dom (hear ev h)) \<le> card (dom (fold hear evs (hear ev h)))"
    using hears_dom[of "hear ev h" evs] f by (intro card_mono) auto
  then have c: "card (dom (hear ev h)) \<le> NET_WIFI_MAX_POINT" using Cons.prems(5) by simp
  have "devs_ok (presence_step plug meter ev devs) (hear ev h) \<and> present plug meter (event_time ev) (presence_step plug meter ev devs) (hear ev h)"
  proof (cases ev)
    case (Heard i t)
    then show ?thesis using heard_ok[OF Cons.prems(1,2), of t i] s(1) c Cons.prems(3) by simp
  next
    case (Checked t)
    then show ?thesis using checked_ok(1,2)[OF Cons.prems(1,2), of t] s(1) by simp
  qed
  from Cons.IH[OF conjunct1[OF this] conjunct2[OF this] f s(2)] show ?case using Cons.prems(5) by auto
qed simp

lemma no_devs_ok: "devs_ok no_devs Map.empty" "present plug meter 0 no_devs Map.empty"
  by (auto simp: devs_ok_def present_def no_devs_def zero_dev_def dkey_def status_defs filter_replicate)

section \<open>Properties\<close>

text \<open>C12: The device table says who is there.  Take any run of messages heard and checks made on an
  empty table in which the clock does not run backwards and at most 49 devices (the size of the table)
  are heard in all: after a check a device is online exactly when it was last heard at most 300
  seconds before, 120 seconds for a plug in a build that supplies plugs.  Only the meters of a build
  that supplies meters are left out: a check drops them when it finds them silent for 61 to 120 or for
  more than 300 seconds, but not in between.\<close>

theorem wlcc_presence_exact:
  assumes "has_limit meter ty" "sorted (map event_time evs @ [t])" "card (dom (last_heard evs)) \<le> NET_WIFI_MAX_POINT"
  shows "wlcc_dev_online_check ty sn (fold (presence_step plug meter) (evs @ [Checked t]) no_devs) = 1 \<longleftrightarrow>
    (\<exists>u. last_heard evs (ty, sn) = Some u \<and> t - u \<le> silence_limit plug ty)"
proof -
  let ?d = "fold (presence_step plug meter) evs no_devs" and ?h = "last_heard evs"
  let ?e = "fst (wlcc_dev_offline_check plug meter t ?d)"
  have "sorted (0 # map event_time evs)" "card (dom (fold hear evs Map.empty)) \<le> NET_WIFI_MAX_POINT"
    using assms(2,3) by (simp_all add: sorted_append last_heard_def)
  then obtain now where now: "devs_ok ?d ?h" "present plug meter now ?d ?h" "now = last (0 # map event_time evs)"
    using presence_run[OF no_devs_ok, of evs plug meter] by (auto simp: last_heard_def)
  have "\<forall>x\<in>set (map event_time evs). x \<le> t" using assms(2) by (auto simp: sorted_append)
  then have "now \<le> t" using now(3) last_in_set[of "map event_time evs"] by (cases "evs = []") auto
  note c = checked_ok[OF now(1,2) this]
  have "wlcc_dev_online_check ty sn ?e = 1 \<longleftrightarrow> (\<exists>d\<in>set ?e. dkey d = (ty, sn) \<and> live d)"
    by (auto simp: wlcc_dev_online_check_def dkey_def)
  also have "\<dots> \<longleftrightarrow> (\<exists>u. ?h (ty, sn) = Some u \<and> t - u \<le> silence_limit plug ty)"
  proof
    assume "\<exists>d\<in>set ?e. dkey d = (ty, sn) \<and> live d"
    then obtain d where d: "d \<in> set ?e" "dkey d = (ty, sn)" "live d" by blast
    then have "?h (ty, sn) = Some (d_last_online d)" "t - d_last_online d \<le> silence_limit plug (d_type d)"
      using c(1,3) assms(1) unfolding devs_ok_def by (auto simp: dkey_def)
    then show "\<exists>u. ?h (ty, sn) = Some u \<and> t - u \<le> silence_limit plug ty" using d(2) by (simp add: dkey_def)
  next
    assume "\<exists>u. ?h (ty, sn) = Some u \<and> t - u \<le> silence_limit plug ty"
    then show "\<exists>d\<in>set ?e. dkey d = (ty, sn) \<and> live d" using c(2) assms(1) unfolding present_def by fastforce
  qed
  finally show ?thesis by simp
qed

definition example_dev :: "u16 \<Rightarrow> u64 \<Rightarrow> wlcc_dev_info" where
  "example_dev ty sn = \<lparr>i_msg_id = 1, i_dev_type = ty, i_dev_sn = sn, i_dev_priority = 0, i_port = 5000, i_ip = 0x0A000001\<rparr>"

text \<open>A plug and an inverter heard at 100 and 150, looked at 140 seconds after the plug, in a build
  that supplies plugs and meters.\<close>

theorem wlcc_presence_exact_witness:
  "wlcc_dev_online_check 3000 5 (fold (presence_step True True)
     ([Heard (example_dev 3000 5) 100, Heard (example_dev 30012 6) 150] @ [Checked 240]) no_devs) \<noteq> 1 \<and>
   wlcc_dev_online_check 30012 6 (fold (presence_step True True)
     ([Heard (example_dev 3000 5) 100, Heard (example_dev 30012 6) 150] @ [Checked 240]) no_devs) = 1"
proof -
  have h: "last_heard [Heard (example_dev 3000 5) 100, Heard (example_dev 30012 6) 150] = [(3000, 5) \<mapsto> 100, (30012, 6) \<mapsto> 150]"
    by (simp add: last_heard_def example_dev_def)
  have "dom [(3000 :: u16, 5 :: u64) \<mapsto> 100 :: u32, (30012, 6) \<mapsto> 150] = {(30012, 6), (3000, 5)}" by auto
  then have "card (dom (last_heard [Heard (example_dev 3000 5) 100, Heard (example_dev 30012 6) 150])) \<le> NET_WIFI_MAX_POINT"
    by (simp add: h NET_WIFI_MAX_POINT_def)
  note p = wlcc_presence_exact[OF _ _ this, of True _ 240 _ True]
  show ?thesis using p[of 3000 5] p[of 30012 6]
    by (simp add: h silence_limit_def SN_TYPE_S1_def SN_TYPE_METER_def)
qed

text \<open>When the clock is set back by a second, every device is taken for gone.\<close>

lemma clock_back_drops_all:
  assumes "d_last_online d = now + 1"
  shows "\<not> live (fst (offline_step plug meter now d))"
  using assms by (simp add: offline_step_def Let_def status_defs)

text \<open>A table that is full of live devices ignores a new one.\<close>

lemma full_table_ignores:
  assumes "\<forall>d\<in>set devs. live d \<and> \<not> same_dev i d"
  shows "update_device_discovery_info i now devs = (devs, [])"
proof -
  have "List.find (same_dev i) devs = None" using assms by (auto simp: find_None_iff)
  then show ?thesis using assms by (auto simp: update_device_discovery_info_def Let_def)
qed

end
