(* ===== verification/Wlcc_Master.thy ===== *)
theory Wlcc_Master
  imports Wlcc_Session
begin

text \<open>
  Who is the master among the devices of a link: the election of \<open>wlcc/wlcc_process.c\<close> (\<open>gWlccMasterInfo\<close>)
  and the steps of the device discovery (\<open>device_discovery_is_ready\<close> of \<open>wlcc_protocol.c\<close>).  The callers
  of the election are compiled with \<open>WLCC_ADDRESS_PARALLEL_ENABLE\<close> only, which is off in the
  configuration of the repository.

  A device is a candidate with its priority, type and serial number; the order on candidates is that of
  \<open>wlcc_master_pk\<close>, the least is the best.
\<close>

section \<open>The master record\<close>

record wlcc_master =
  m_is_master :: u8
  m_is_new_master :: u8
  m_last_parallel :: u64
  m_info :: wlcc_dev

definition own_entry :: "wlcc_self \<Rightarrow> u32 \<Rightarrow> wlcc_dev" where
  "own_entry self now = zero_dev\<lparr>d_priority := DEV_PRIORITY_SELF, d_type := SN_TYPE_SELF self, d_sn := self_sn self,
     d_last_online := now\<rparr>"

definition wlcc_master_triger :: "wlcc_self \<Rightarrow> u32 \<Rightarrow> wlcc_master \<Rightarrow> wlcc_master" where
  "wlcc_master_triger self now m =
     m\<lparr>m_is_new_master := WLCC_EMS_MODE_INVALID, m_last_parallel := 0, m_info := own_entry self now\<rparr>"

definition wlcc_master_need_update :: "wlcc_self \<Rightarrow> u32 \<Rightarrow> wlcc_master \<Rightarrow> wlcc_master" where
  "wlcc_master_need_update self now m = m\<lparr>m_is_new_master := WLCC_EMS_MODE_INVALID, m_info := own_entry self now\<rparr>"

definition wlcc_dev_master_type :: "u16 \<Rightarrow> u64 \<Rightarrow> wlcc_master \<Rightarrow> u8" where
  "wlcc_dev_master_type dev_type dev_sn m =
     (if m_is_master m \<noteq> WLCC_EMS_MODE_INVALID \<and> dev_type = d_type (m_info m) \<and> dev_sn = d_sn (m_info m) then 1 else 0)"

definition wlcc_master_online_time_update :: "wlcc_dev_info \<Rightarrow> u32 \<Rightarrow> wlcc_master \<Rightarrow> wlcc_master" where
  "wlcc_master_online_time_update i now m =
     (if i_dev_priority i = d_priority (m_info m) \<and> same_dev i (m_info m)
      then m\<lparr>m_info := (m_info m)\<lparr>d_last_online := now\<rparr>\<rparr> else m)"

definition wlcc_master_update :: "wlcc_dev_info \<Rightarrow> u32 \<Rightarrow> wlcc_master \<Rightarrow> wlcc_master" where
  "wlcc_master_update i now m = m\<lparr>m_is_new_master := WLCC_EMS_MODE_SLAVER, m_info := enter_dev i now\<rparr>"

definition wlcc_master_pk :: "wlcc_self \<Rightarrow> wlcc_dev_info \<Rightarrow> u32 \<Rightarrow> wlcc_master \<Rightarrow> wlcc_master" where
  "wlcc_master_pk self i now m =
     (if i_dev_priority i \<noteq> 0 \<and> i_dev_type i \<noteq> 0 \<and> i_dev_sn i \<noteq> 0
      then
        let m1 = (if DEV_PRIORITY_SELF = d_priority (m_info m) \<and>
                     (SN_TYPE_SELF self = d_type (m_info m) \<or> SN_TYPE_COMMON_INVERTER_WIRELESS = d_type (m_info m)) \<and>
                     self_sn self = d_sn (m_info m)
                  then m\<lparr>m_is_new_master := WLCC_EMS_MODE_MASTER\<rparr> else m)
        in if i_dev_priority i > d_priority (m_info m1) then wlcc_master_update i now m1
           else if i_dev_priority i = d_priority (m_info m1)
           then if i_dev_type i < d_type (m_info m1) then wlcc_master_update i now m1
                else if i_dev_type i = d_type (m_info m1) \<and> i_dev_sn i < d_sn (m_info m1) then wlcc_master_update i now m1
                else m1
           else m1
      else m)"

definition wlcc_master_pk_timeout_check :: "wlcc_master \<Rightarrow> wlcc_master" where
  "wlcc_master_pk_timeout_check m =
     (if m_is_new_master m \<noteq> m_is_master m \<or> m_is_new_master m = WLCC_EMS_MODE_INVALID \<or> m_is_master m = WLCC_EMS_MODE_INVALID
      then
        let m1 = m\<lparr>m_last_parallel := m_last_parallel m + 100\<rparr>
        in if m_last_parallel m1 > 3000
           then let m2 = m1\<lparr>m_last_parallel := 0\<rparr>
                in if m_is_new_master m2 = WLCC_EMS_MODE_INVALID
                   then m2\<lparr>m_is_new_master := WLCC_EMS_MODE_MASTER, m_is_master := WLCC_EMS_MODE_MASTER\<rparr>
                   else m2\<lparr>m_is_master := m_is_new_master m2\<rparr>
           else m1
      else m)"

text \<open>The step of the discovery goes back to the trigger when the master is lost.\<close>

definition wlcc_master_offline_check :: "wlcc_self \<Rightarrow> u32 \<Rightarrow> wlcc_master \<times> u8 \<Rightarrow> wlcc_master \<times> u8" where
  "wlcc_master_offline_check self now = (\<lambda>(m, step).
     if m_is_master m = WLCC_EMS_MODE_SLAVER \<and> now - d_last_online (m_info m) > 60
     then (wlcc_master_triger self now m, WLCC_FRAME_HEADER_TRIGER) else (m, step))"

definition wlcc_master_check :: "wlcc_self \<Rightarrow> u32 \<Rightarrow> wlcc_master \<times> u8 \<Rightarrow> wlcc_master \<times> u8" where
  "wlcc_master_check self now = (\<lambda>(m, step). wlcc_master_offline_check self now (wlcc_master_pk_timeout_check m, step))"

section \<open>Discovery steps\<close>

record discovery =
  dd_step :: u8
  dd_scnt :: u16
  dd_scnt2 :: u16
  dd_last_step :: u8

definition discovery_advance :: "u8 \<Rightarrow> discovery \<Rightarrow> discovery" where
  "discovery_advance next d =
     (let d1 = d\<lparr>dd_scnt := dd_scnt d + 1\<rparr> in if dd_scnt d1 \<ge> 3 then d1\<lparr>dd_scnt := 0, dd_step := next\<rparr> else d1)"

definition discovery_step :: "discovery \<Rightarrow> discovery" where
  "discovery_step d =
     (let d1 = (if dd_last_step d \<noteq> dd_step d then d\<lparr>dd_scnt := 0, dd_scnt2 := 0\<rparr> else d);
          d2 = (if dd_step d1 = WLCC_FRAME_HEADER_COMMON then d1\<lparr>dd_step := WLCC_FRAME_HEADER_TRIGER, dd_scnt := 0\<rparr>
                else if dd_step d1 = WLCC_FRAME_HEADER_TRIGER then discovery_advance WLCC_FRAME_HEADER_SEND_SN d1
                else if dd_step d1 = WLCC_FRAME_HEADER_SEND_SN then discovery_advance WLCC_FRAME_HEADER_FINISH d1
                else if dd_step d1 = WLCC_FRAME_HEADER_FINISH then discovery_advance WLCC_FRAME_HEADER_FINISH_AFTER d1
                else d1)
      in d2\<lparr>dd_last_step := dd_step d2\<rparr>)"

text \<open>The result is the returned number, the buffer, the counter of messages and the state.\<close>

definition device_discovery_is_ready ::
  "wlcc_self \<Rightarrow> bool \<Rightarrow> u16 \<Rightarrow> u8 list \<Rightarrow> discovery \<Rightarrow> (int \<times> u8 list \<times> u16 \<times> discovery) cres" where
  "device_discovery_is_ready self ip_known msg_id buff d =
     (let d1 = discovery_step d; st = dd_step d1;
          send = (\<lambda>d. cbind (build_device_discovery_frame self msg_id st buff) (\<lambda>(len, out, mid). Inr (uint len, out, mid, d)))
      in if st \<ge> WLCC_FRAME_HEADER_TRIGER \<and> st \<le> WLCC_FRAME_HEADER_FINISH
         then if ip_known then send d1 else Inr (IOT_FAIL, buff, msg_id, d1)
         else if st = WLCC_FRAME_HEADER_FINISH_AFTER
         then let d2 = d1\<lparr>dd_scnt2 := dd_scnt2 d1 + 1\<rparr>
              in if dd_scnt2 d2 \<ge> 180
                 then let d3 = d2\<lparr>dd_scnt2 := 0\<rparr> in if ip_known then send d3 else Inr (IOT_FAIL, buff, msg_id, d3)
                 else Inr (IOT_FAIL, buff, msg_id, d2)
         else Inr (IOT_FAIL, buff, msg_id, d1))"

text \<open>Once through the discovery: after the trigger from outside the frames of ten calls.\<close>

fun discovery_frames :: "nat \<Rightarrow> discovery \<Rightarrow> u8 list" where
  "discovery_frames 0 d = []"
| "discovery_frames (Suc n) d = dd_step (discovery_step d) # discovery_frames n (discovery_step d)"

lemma discovery_sequence:
  "discovery_frames 10 \<lparr>dd_step = WLCC_FRAME_HEADER_TRIGER, dd_scnt = 0, dd_scnt2 = 0, dd_last_step = 0\<rparr> =
     [1, 1, 2, 2, 2, 3, 3, 3, 4, 4]"
  by code_simp

section \<open>The order of candidates\<close>

datatype candidate = Candidate (cprio: u16) (ctype: u16) (csn: u64)

instantiation candidate :: linorder
begin

definition less_candidate :: "candidate \<Rightarrow> candidate \<Rightarrow> bool" where
  "less_candidate a b \<longleftrightarrow> cprio a > cprio b \<or> cprio a = cprio b \<and> (ctype a < ctype b \<or> ctype a = ctype b \<and> csn a < csn b)"

definition less_eq_candidate :: "candidate \<Rightarrow> candidate \<Rightarrow> bool" where
  "less_eq_candidate a b \<longleftrightarrow> a < b \<or> a = (b :: candidate)"

instance
proof
  fix a b c :: candidate
  have irr: "\<not> a < a" for a :: candidate by (simp add: less_candidate_def)
  have tr: "a < b \<Longrightarrow> b < c \<Longrightarrow> a < c" for a b c :: candidate
    unfolding less_candidate_def by (elim disjE conjE) (simp_all, auto dest: less_trans)
  show "a < b \<longleftrightarrow> a \<le> b \<and> \<not> b \<le> a" unfolding less_eq_candidate_def using irr tr by metis
  show "a \<le> b \<Longrightarrow> b \<le> c \<Longrightarrow> a \<le> c" unfolding less_eq_candidate_def using tr by metis
  show "a \<le> b \<Longrightarrow> b \<le> a \<Longrightarrow> a = b" unfolding less_eq_candidate_def using irr tr by metis
  have "cprio a = cprio b \<Longrightarrow> ctype a = ctype b \<Longrightarrow> csn a = csn b \<Longrightarrow> a = b" by (cases a; cases b) simp
  then show "a \<le> b \<or> b \<le> a" unfolding less_candidate_def less_eq_candidate_def using linorder_less_linear by metis
qed (simp add: less_eq_candidate_def)

end

definition cand :: "wlcc_dev_info \<Rightarrow> candidate" where
  "cand i = Candidate (i_dev_priority i) (i_dev_type i) (i_dev_sn i)"

definition own_cand :: "wlcc_self \<Rightarrow> candidate" where
  "own_cand self = Candidate DEV_PRIORITY_SELF (SN_TYPE_SELF self) (self_sn self)"

definition master_cand :: "wlcc_master \<Rightarrow> candidate" where
  "master_cand m = Candidate (d_priority (m_info m)) (d_type (m_info m)) (d_sn (m_info m))"

definition valid_cand :: "candidate \<Rightarrow> bool" where
  "valid_cand c \<longleftrightarrow> cprio c \<noteq> 0 \<and> ctype c \<noteq> 0 \<and> csn c \<noteq> 0"

text \<open>The duel in terms of the order.\<close>

lemma pk_duel:
  assumes "valid_cand (cand i)" "csn (master_cand m) = self_sn self \<longrightarrow> master_cand m = own_cand self"
  shows "wlcc_master_pk self i now m =
    (if cand i < master_cand m then wlcc_master_update i now m
     else if master_cand m = own_cand self then m\<lparr>m_is_new_master := WLCC_EMS_MODE_MASTER\<rparr> else m)"
proof -
  let ?me = "DEV_PRIORITY_SELF = d_priority (m_info m) \<and>
    (SN_TYPE_SELF self = d_type (m_info m) \<or> SN_TYPE_COMMON_INVERTER_WIRELESS = d_type (m_info m)) \<and> self_sn self = d_sn (m_info m)"
  define m1 where "m1 = (if ?me then m\<lparr>m_is_new_master := WLCC_EMS_MODE_MASTER\<rparr> else m)"
  have me: "?me \<longleftrightarrow> master_cand m = own_cand self" using assms(2) by (auto simp: master_cand_def own_cand_def)
  have i: "m_info m1 = m_info m" "wlcc_master_update i now m1 = wlcc_master_update i now m"
    by (simp_all add: m1_def wlcc_master_update_def)
  have lt: "cand i < master_cand m \<longleftrightarrow> i_dev_priority i > d_priority (m_info m) \<or> i_dev_priority i = d_priority (m_info m) \<and>
      (i_dev_type i < d_type (m_info m) \<or> i_dev_type i = d_type (m_info m) \<and> i_dev_sn i < d_sn (m_info m))"
    by (simp add: less_candidate_def cand_def master_cand_def)
  have v: "i_dev_priority i \<noteq> 0 \<and> i_dev_type i \<noteq> 0 \<and> i_dev_sn i \<noteq> 0"
    using assms(1) by (simp add: valid_cand_def cand_def)
  have "wlcc_master_pk self i now m = (if cand i < master_cand m then wlcc_master_update i now m else m1)"
    unfolding wlcc_master_pk_def Let_def m1_def[symmetric] i lt using v by presburger
  then show ?thesis unfolding m1_def me by simp
qed

section \<open>The invariant of the election\<close>

text \<open>\<open>heard\<close> are the candidates met since the trigger.\<close>

definition elect_ok :: "wlcc_self \<Rightarrow> candidate set \<Rightarrow> wlcc_master \<Rightarrow> bool" where
  "elect_ok self heard m \<longleftrightarrow> master_cand m = Min (insert (own_cand self) heard) \<and> m_last_parallel m \<le> 3000 \<and>
     (if master_cand m = own_cand self
      then m_is_new_master m = WLCC_EMS_MODE_MASTER \<or> heard = {} \<and> m_is_new_master m = WLCC_EMS_MODE_INVALID
      else m_is_new_master m = WLCC_EMS_MODE_SLAVER)"

lemma triger_ok: "elect_ok self {} (wlcc_master_triger self now m)"
  by (simp add: elect_ok_def wlcc_master_triger_def own_entry_def master_cand_def own_cand_def)

lemma online_time_cand [simp]: "master_cand (wlcc_master_online_time_update i now m) = master_cand m"
  "m_is_new_master (wlcc_master_online_time_update i now m) = m_is_new_master m"
  "m_is_master (wlcc_master_online_time_update i now m) = m_is_master m"
  "m_last_parallel (wlcc_master_online_time_update i now m) = m_last_parallel m"
  by (simp_all add: wlcc_master_online_time_update_def master_cand_def)

lemma online_time_ok: "elect_ok self heard m \<Longrightarrow> elect_ok self heard (wlcc_master_online_time_update i now m)"
  by (simp add: elect_ok_def)

lemma pk_ok:
  assumes "elect_ok self heard m" "finite heard" "valid_cand (cand i)" "\<forall>c\<in>insert (cand i) heard. csn c \<noteq> self_sn self"
  shows "elect_ok self (insert (cand i) heard) (wlcc_master_pk self i now m)"
proof -
  let ?o = "own_cand self" and ?c = "master_cand m"
  have m: "?c = Min (insert ?o heard)" using assms(1) by (simp add: elect_ok_def)
  then have "?c \<in> insert ?o heard" using assms(2) Min_in[of "insert ?o heard"] by simp
  then have o: "csn ?c = self_sn self \<longrightarrow> ?c = ?o" using assms(4) by auto
  have n: "Min (insert ?o (insert (cand i) heard)) = min (cand i) ?c"
    using m assms(2) by (subst insert_commute) simp
  have i: "cand i \<noteq> ?o" using assms(4) by (auto simp: own_cand_def)
  have u: "master_cand (wlcc_master_update i now m) = cand i"
    by (simp add: wlcc_master_update_def enter_dev_def master_cand_def cand_def)
  show ?thesis
  proof (cases "cand i < ?c")
    case True
    then have "min (cand i) ?c = cand i" by (simp add: min.absorb1 less_imp_le)
    moreover have "wlcc_master_pk self i now m = wlcc_master_update i now m" using True by (simp add: pk_duel[OF assms(3) o])
    moreover have "m_last_parallel m \<le> 3000" using assms(1) by (simp add: elect_ok_def)
    ultimately show ?thesis using n i u unfolding elect_ok_def by (simp add: wlcc_master_update_def)
  next
    case False
    then have "min (cand i) ?c = ?c" by (simp add: min_def not_less)
    then have n': "Min (insert ?o (insert (cand i) heard)) = ?c" using n by simp
    have e: "wlcc_master_pk self i now m = (if ?c = ?o then m\<lparr>m_is_new_master := WLCC_EMS_MODE_MASTER\<rparr> else m)"
      using False by (simp add: pk_duel[OF assms(3) o])
    have "master_cand (m\<lparr>m_is_new_master := WLCC_EMS_MODE_MASTER\<rparr>) = ?c" by (simp add: master_cand_def)
    then show ?thesis using n' assms(1) unfolding elect_ok_def e by (auto split: if_splits)
  qed
qed

section \<open>The timeout settles\<close>

definition settled :: "wlcc_master \<Rightarrow> bool" where
  "settled m \<longleftrightarrow> m_is_master m = m_is_new_master m \<and> m_is_new_master m \<noteq> WLCC_EMS_MODE_INVALID"

lemma timeout_cand [simp]: "master_cand (wlcc_master_pk_timeout_check m) = master_cand m" "m_info (wlcc_master_pk_timeout_check m) = m_info m"
  by (simp_all add: wlcc_master_pk_timeout_check_def master_cand_def Let_def)

lemma timeout_cases:
  assumes "m_last_parallel m \<le> 3000"
  shows "settled m \<and> wlcc_master_pk_timeout_check m = m \<or> settled (wlcc_master_pk_timeout_check m) \<or>
    unat (m_last_parallel (wlcc_master_pk_timeout_check m)) = unat (m_last_parallel m) + 100"
    "m_last_parallel (wlcc_master_pk_timeout_check m) \<le> 3000"
    "m_is_new_master (wlcc_master_pk_timeout_check m) = m_is_new_master m \<or>
      m_is_new_master m = WLCC_EMS_MODE_INVALID \<and> m_is_new_master (wlcc_master_pk_timeout_check m) = WLCC_EMS_MODE_MASTER"
proof -
  have u: "unat (m_last_parallel m + 100) = unat (m_last_parallel m) + 100"
    using assms by (intro unat_plus_if'[THEN trans]) (simp add: word_le_nat_alt)
  show "settled m \<and> wlcc_master_pk_timeout_check m = m \<or> settled (wlcc_master_pk_timeout_check m) \<or>
      unat (m_last_parallel (wlcc_master_pk_timeout_check m)) = unat (m_last_parallel m) + 100"
    using u by (auto simp: wlcc_master_pk_timeout_check_def settled_def Let_def WLCC_EMS_MODE_INVALID_def WLCC_EMS_MODE_MASTER_def)
  show "m_last_parallel (wlcc_master_pk_timeout_check m) \<le> 3000"
    using assms by (simp add: wlcc_master_pk_timeout_check_def Let_def not_less)
  show "m_is_new_master (wlcc_master_pk_timeout_check m) = m_is_new_master m \<or>
      m_is_new_master m = WLCC_EMS_MODE_INVALID \<and> m_is_new_master (wlcc_master_pk_timeout_check m) = WLCC_EMS_MODE_MASTER"
    by (simp add: wlcc_master_pk_timeout_check_def Let_def)
qed

lemma timeout_ok: "elect_ok self heard m \<Longrightarrow> elect_ok self heard (wlcc_master_pk_timeout_check m)"
  using timeout_cases(2,3)[of m] unfolding elect_ok_def
  by (auto simp: WLCC_EMS_MODE_INVALID_def WLCC_EMS_MODE_MASTER_def WLCC_EMS_MODE_SLAVER_def split: if_splits)

lemma settles:
  assumes "m_last_parallel m \<le> 3000" "3000 < unat (m_last_parallel m) + 100 * n"
  shows "settled ((wlcc_master_pk_timeout_check ^^ n) m)"
  using assms
proof (induction n arbitrary: m)
  case 0
  then show ?case by (simp add: word_le_nat_alt)
next
  case (Suc n)
  let ?f = wlcc_master_pk_timeout_check
  have fix_: "settled x \<Longrightarrow> (?f ^^ k) x = x" for x k
    by (induction k) (simp_all add: wlcc_master_pk_timeout_check_def settled_def)
  from timeout_cases(1)[OF Suc.prems(1)] consider "settled m" "?f m = m" | "settled (?f m)" | "unat (m_last_parallel (?f m)) = unat (m_last_parallel m) + 100"
    by blast
  then show ?case
  proof cases
    case 3
    then show ?thesis using Suc.IH[OF timeout_cases(2)[OF Suc.prems(1)]] Suc.prems(2) by (simp add: funpow_swap1)
  qed (simp_all add: fix_ funpow_swap1)
qed

text \<open>Once settled, a board is the master exactly if it is the best of those it has heard.\<close>

lemma settled_outcome:
  assumes "elect_ok self heard m" "settled m" "heard \<noteq> {} \<or> m_is_new_master m \<noteq> WLCC_EMS_MODE_INVALID"
  shows "m_is_master m = (if Min (insert (own_cand self) heard) = own_cand self then WLCC_EMS_MODE_MASTER else WLCC_EMS_MODE_SLAVER)"
  using assms by (auto simp: elect_ok_def settled_def split: if_splits)

end
