(* ===== verification/Wlcc_Node.thy ===== *)
theory Wlcc_Node
  imports Wlcc_Master
begin

text \<open>
  A board on the link: what \<open>wlcc_protocol.c\<close> and \<open>wlcc_process.c\<close> do with a frame that has come in and with
  a message that is to go out.

  The state of a board is the record \<open>wlcc_node\<close>; \<open>'r\<close> is the memory behind the Modbus registers, which
  belongs to other modules.  What the code calls there is a field of \<open>wlcc_env\<close>: \<open>Modbus_Slave\<close>, the
  look-ups of registers of the devices, the address table.  Writes and calls outwards are a list of effects,
  in order.  The destination of a message is the address (\<open>None\<close> for multicast) in place of its text.
  A received frame is the list of the bytes of the whole receive buffer.
\<close>

section \<open>State and surroundings\<close>

record wlcc_msg =
  q_data :: "u8 list"
  q_len :: int
  q_dst_ip :: "u32 option"
  q_dst_port :: u16

record 'r wlcc_node =
  n_self :: wlcc_self
  n_master :: wlcc_master
  n_disc :: discovery
  n_devs :: "wlcc_dev list"
  n_pending :: "wlcc_msg_pending list"
  n_msg_id :: u16
  n_queue :: "wlcc_msg list"
  n_plaintext :: "u8 list"
  n_send_buffer :: "u8 list"
  n_regs :: 'r

datatype reg_tab = Tab_S1 | Tab_Meter | Tab_Other_Inv | Tab_Self

type_synonym reg_ptr = nat

text \<open>
  \<open>e_slave\<close> gets the request, its length, and whether there is room for commands to the CAN bus; it returns
  the length of the response, the response buffer, the number of commands and the registers.
\<close>

record 'r wlcc_env =
  e_now :: u32
  e_heap :: bool
  e_can_queue :: bool
  e_parallel :: bool
  e_plug :: bool
  e_meter :: bool
  e_slave :: "u8 list \<Rightarrow> int \<Rightarrow> bool \<Rightarrow> 'r \<Rightarrow> int \<times> u8 list \<times> u16 \<times> 'r"
  e_max_len :: "reg_tab \<Rightarrow> u16 \<Rightarrow> u16"
  e_lookup :: "'r \<Rightarrow> reg_tab \<Rightarrow> u16 \<Rightarrow> u64 \<Rightarrow> u16 \<Rightarrow> u16 \<Rightarrow> reg_ptr option"
  e_callback :: "u16 \<Rightarrow> bool"
  e_dev_of_addr :: "u8 \<Rightarrow> u16 \<times> u64"
  e_meter_get :: "u16 \<Rightarrow> u64 \<Rightarrow> u8 \<Rightarrow> u8 \<Rightarrow> u16 \<Rightarrow> u16 \<Rightarrow> u16 \<times> u8 list"
  e_len_14500 :: u16
  e_len_14700 :: u16
  e_plug_get :: "u16 \<Rightarrow> u64 \<Rightarrow> u8 \<Rightarrow> u8 \<Rightarrow> u16 \<Rightarrow> u16 \<Rightarrow> u16 \<times> u8 list"

datatype wlcc_effect =
    Write_Regs reg_ptr "u16 list"
  | Table_Callback u16 u16
  | Data_Rsp u16 u64 u16 u16 "u8 list"
  | Can_Command u8 u16
  | Lost_Memory
  | Plug_Read u16 u64
  | Plug_Set_Read u16 u64
  | Device_Note dev_note

definition node_self :: "'r wlcc_node \<Rightarrow> wlcc_self" where
  "node_self nd = (n_self nd)\<lparr>is_master := m_is_master (n_master nd)\<rparr>"

definition DEV_MODBUS_ADDR_START :: u8 where "DEV_MODBUS_ADDR_START = 113"
definition DEV_MODBUS_GROUP_ADDR_START :: u8 where "DEV_MODBUS_GROUP_ADDR_START = 201"

section \<open>Sending\<close>

definition wlcc_msg_send_to_queue ::
  "bool \<Rightarrow> u8 list \<Rightarrow> u16 \<Rightarrow> u32 option \<Rightarrow> u16 \<Rightarrow> wlcc_msg list \<Rightarrow> (int \<times> wlcc_msg list) cres" where
  "wlcc_msg_send_to_queue heap data_buf len dst_ip dst_port queue =
     (if \<not> heap then Inr (- 1, queue)
      else need (unat len) data_buf
        (if length queue < 10
         then Inr (0, queue @ [\<lparr>q_data = take (unat len) data_buf, q_len = uint len, q_dst_ip = dst_ip, q_dst_port = dst_port\<rparr>])
         else Inr (- 1, queue)))"

text \<open>The length of the frame is kept in a byte.\<close>

definition wlcc_modbus_msg_send ::
  "'r wlcc_env \<Rightarrow> u8 list \<Rightarrow> u16 \<Rightarrow> u16 \<Rightarrow> u64 \<Rightarrow> modbus_addr_info \<Rightarrow> 'r wlcc_node \<Rightarrow> 'r wlcc_node cres" where
  "wlcc_modbus_msg_send env income cmd_len dev_type dev_sn src_addr nd =
     need 2 income
       (let funcode = income ! 1; frametype = (if funcode = 0x03 then WLCC_FRAME_TYPE_READ else WLCC_FRAME_TYPE_WRITE) in
        if funcode \<noteq> 0x03 \<and> funcode \<noteq> 0x06 \<and> funcode \<noteq> 0x10 then Inr nd
        else cbind (wlcc_build_data_send_frame (node_self nd) (n_msg_id nd) frametype dev_type dev_sn (Some income) cmd_len (n_plaintext nd))
          (\<lambda>(len, out, mid).
             let tx_len = ucast len :: u8; nd1 = nd\<lparr>n_plaintext := out, n_msg_id := mid\<rparr> in
             if tx_len = 0 then Inr nd1
             else case List.find (\<lambda>d. dev_type = d_type d \<and> dev_sn = d_sn d) (n_devs nd) of
               None \<Rightarrow> Inr nd1
             | Some d \<Rightarrow>
                 cbind (wlcc_msg_send_to_queue (e_heap env) out (ucast tx_len) (Some (d_ip d)) (d_port d) (n_queue nd1))
                   (\<lambda>(r, q). let nd2 = nd1\<lparr>n_queue := q\<rparr> in
                      if r = 0
                      then Inr (nd2\<lparr>n_pending := snd (wlcc_msg_pending_add
                             \<lparr>p_msg_id = mid, p_devTpye = dev_type, p_devSn = dev_sn, p_timeout = WLCC_PENDING_TIMEOUT_MAX,
                              p_src_addr = src_addr\<rparr> (n_pending nd2))\<rparr>)
                      else Inr nd2)))"

text \<open>A Modbus write; the number of registers is a byte.  \<open>inbuf\<close> has the low byte of a register first.\<close>

fun swap_words :: "nat \<Rightarrow> u8 list \<Rightarrow> u8 list" where
  "swap_words 0 bs = []"
| "swap_words (Suc n) bs = bs ! 1 # bs ! 0 # swap_words n (drop 2 bs)"

definition Modbus_WriteCmd_06H_10H_Build :: "u8 \<Rightarrow> u16 \<Rightarrow> u8 \<Rightarrow> u8 list \<Rightarrow> u8 list \<Rightarrow> (u16 \<times> u8 list) cres" where
  "Modbus_WriteCmd_06H_10H_Build slave_address regAddress regNum inbuf outbuf =
     (let n = unat regNum in
      need (2 * n) inbuf
        (let head = [slave_address, if regNum = 1 then 0x06 else 0x10, hi8 regAddress, lo8 regAddress] @
                      (if regNum = 1 then [] else [0, regNum, 2 * regNum]);
             body = head @ swap_words n inbuf;
             i = of_nat (length body) :: u16;
             frame = body @ le16 (CalcCrc16_modbus body i)
         in if length outbuf < length frame then Inl Out_Of_Bounds_Write
            else Inr (i + 2, frame @ drop (length frame) outbuf)))"

definition wlcc_modbus_msg_send_21000 ::
  "'r wlcc_env \<Rightarrow> u8 \<Rightarrow> u8 list \<Rightarrow> u16 \<Rightarrow> u16 \<Rightarrow> u64 \<Rightarrow> 'r wlcc_node \<Rightarrow> (int \<times> 'r wlcc_node) cres" where
  "wlcc_modbus_msg_send_21000 env slave_address pIn len dst_type dst_sn nd =
     (if \<not> e_heap env then Inr (- 1, nd)
      else cbind (Modbus_WriteCmd_06H_10H_Build slave_address 21000 (ucast (drop_bit 1 len)) pIn (replicate (unat len + 10) 0))
        (\<lambda>(modbus_len, modbus).
           cbind (wlcc_build_data_send_frame (node_self nd) (n_msg_id nd) WLCC_FRAME_TYPE_PERIOD dst_type dst_sn
                    (Some modbus) modbus_len (replicate (unat len + 60) 0))
             (\<lambda>(tx_len, out, mid).
                cbind (wlcc_msg_send_to_queue True out tx_len None 0 (n_queue nd))
                  (\<lambda>(r, q). Inr (r, nd\<lparr>n_msg_id := mid, n_queue := q\<rparr>)))))"

definition wlcc_modbus_msg_send_21000_tlv ::
  "'r wlcc_env \<Rightarrow> wlcc_tlv_block list option \<Rightarrow> u16 \<Rightarrow> u16 \<Rightarrow> u64 \<Rightarrow> 'r wlcc_node \<Rightarrow> (int \<times> 'r wlcc_node) cres" where
  "wlcc_modbus_msg_send_21000_tlv env tlv_blocks tlv_block_count dev_type dev_sn nd =
     cbind (wlcc_build_data_send_frame_21000_tlv (node_self nd) (n_msg_id nd) WLCC_FRAME_TYPE_PERIOD dev_type dev_sn
              tlv_blocks tlv_block_count (n_plaintext nd))
       (\<lambda>(tx_len, out, mid).
          let nd1 = nd\<lparr>n_plaintext := out, n_msg_id := mid\<rparr> in
          if tx_len = 0 then Inr (IOT_FAIL, nd1)
          else cbind (wlcc_msg_send_to_queue (e_heap env) out tx_len None 0 (n_queue nd1))
            (\<lambda>(r, q). Inr (r, nd1\<lparr>n_queue := q\<rparr>)))"

text \<open>The file context frame: type 0x24.\<close>

definition WLCC_FRAME_TYPE_FILE_CONTEXT :: u8 where "WLCC_FRAME_TYPE_FILE_CONTEXT = 0x24"

definition wlcc_modbus_msg_send_file_context ::
  "'r wlcc_env \<Rightarrow> u8 list \<Rightarrow> u16 \<Rightarrow> u16 \<Rightarrow> u64 \<Rightarrow> 'r wlcc_node \<Rightarrow> (int \<times> 'r wlcc_node) cres" where
  "wlcc_modbus_msg_send_file_context env data len dst_type dst_sn nd =
     (if \<not> e_heap env then Inr (- 1, nd)
      else cbind (wlcc_build_data_send_frame (node_self nd) (n_msg_id nd) WLCC_FRAME_TYPE_FILE_CONTEXT dst_type dst_sn
                    (Some data) len (replicate (unat len + 60) 0))
        (\<lambda>(tx_len, out, mid).
           cbind (wlcc_msg_send_to_queue True out tx_len None 0 (n_queue nd))
             (\<lambda>(r, q). Inr (r, nd\<lparr>n_msg_id := mid, n_queue := q\<rparr>))))"

text \<open>The periodic report: the state of charge (register 102) in one block.  The result has the time of the last report.
  The size handed to the encoder is that of a pointer less 18, as a 16-bit number.\<close>

definition wlcc_build_tlv_report_data :: "u16 \<Rightarrow> wlcc_tlv_block list" where
  "wlcc_build_tlv_report_data soc = [\<lparr>tlv_addr = 102, tlv_length = 2, tlv_value = Some (le16 soc)\<rparr>]"

definition report_head :: "wlcc_self \<Rightarrow> u16 \<Rightarrow> u8 list" where
  "report_head self tlv_total_length =
     le16 TLV_PROTOCOL_VERSION_REPORT @ [0, 0, 1, 0] @ le64 (self_sn self) @ le16 (SN_TYPE_SELF self) @ le16 tlv_total_length"

definition wlcc_report_tick ::
  "'r wlcc_env \<Rightarrow> bool \<Rightarrow> u32 \<Rightarrow> u16 \<Rightarrow> u8 list \<Rightarrow> u32 \<times> 'r wlcc_node \<Rightarrow> (u32 \<times> 'r wlcc_node) cres" where
  "wlcc_report_tick env ready now_time soc data_buf = (\<lambda>(pre_time, nd).
     if \<not> ready \<or> now_time - pre_time < 30000 then Inr (pre_time, nd)
     else
       let blocks = wlcc_build_tlv_report_data soc; total = wlcc_tlv_calculate_length (Some blocks) 1;
           head = report_head (n_self nd) total; off = length head
       in if length data_buf < off then Inl Out_Of_Bounds_Write
          else cbind (if total > 0 then wlcc_tlv_encode (Some blocks) 1 (Some (drop off data_buf)) (65536 + 4 - off)
                      else Inr (0, Some (drop off data_buf)))
            (\<lambda>(r, tail). if r < 0 then Inr (now_time, nd)
               else cbind (wlcc_modbus_msg_send_21000 env 0 (head @ the tail) (of_nat off + of_int r) 0 0 nd)
                      (\<lambda>(_, nd'). Inr (now_time, nd'))))"

section \<open>Receiving: requests\<close>

definition reply_type :: "u8 \<Rightarrow> u8" where
  "reply_type funcode =
     (if funcode = 0x06 \<or> funcode = 0x10 then WLCC_FRAME_TYPE_WRITE_RTN
      else if funcode = 0x03 then WLCC_FRAME_TYPE_READ_RTN else 0)"

text \<open>The response is sent by multicast.  \<open>can_ok\<close> says whether the CAN queue takes the commands; memory for
  commands is given back only when it was not there.\<close>

definition wlcc_modbus_to_self_handle ::
  "'r wlcc_env \<Rightarrow> bool \<Rightarrow> u8 list \<Rightarrow> int \<Rightarrow> wlcc_dev_info \<Rightarrow> 'r wlcc_node \<Rightarrow> ('r wlcc_node \<times> wlcc_effect list) cres" where
  "wlcc_modbus_to_self_handle env can_ok data len src nd =
     need 2 data
       (let funcode = data ! 1; cmd = ((funcode = 0x06 \<or> funcode = 0x10) \<and> e_can_queue env \<and> e_heap env);
            (r, buf, num, regs) = e_slave env data len cmd (n_regs nd);
            rsp_len = of_int r :: u16; nd1 = nd\<lparr>n_regs := regs\<rparr>
        in if sint rsp_len \<le> 0 then Inr (nd1, if cmd then [Lost_Memory] else [])
           else cbind (wlcc_build_response_frame (node_self nd) (i_msg_id src) (reply_type funcode) (i_dev_type src) (i_dev_sn src)
                         (Some buf) rsp_len (n_send_buffer nd1))
             (\<lambda>(tx_len, out).
                cbind (wlcc_msg_send_to_queue (e_heap env) out tx_len None 0 (n_queue nd1))
                  (\<lambda>(_, q). Inr (nd1\<lparr>n_send_buffer := out, n_queue := q\<rparr>,
                     if cmd \<and> num \<noteq> 0 \<and> can_ok then [Can_Command (data ! 0) num] else []))))"

definition wlcc_modbus_to_other_handle ::
  "'r wlcc_env \<Rightarrow> u8 list \<Rightarrow> wlcc_dev_info \<Rightarrow> 'r wlcc_node \<Rightarrow> ('r wlcc_node \<times> wlcc_effect list) cres" where
  "wlcc_modbus_to_other_handle env data src nd =
     need 2 data
       (let SlaveAddress = data ! 0; funcode = data ! 1 in
        if SlaveAddress < DEV_MODBUS_ADDR_START \<or> SlaveAddress \<ge> DEV_MODBUS_GROUP_ADDR_START then Inr (nd, [])
        else need (if funcode = 0x06 then 4 else 6) data
          (let regAddr = mk16 (data ! 2) (data ! 3);
               regNum = (if funcode = 0x06 then 1 else mk16 (data ! 4) (data ! 5));
               (ty, sn) = e_dev_of_addr env SlaveAddress;
               known = (ty \<noteq> 0 \<and> sn \<noteq> 0);
               get_meter = (known \<and> ty = SN_TYPE_METER \<and> funcode = 0x03 \<and> e_meter env);
               get_plug = (known \<and> ty = SN_TYPE_S1 \<and> funcode = 0x03 \<and> e_plug env);
               (rsp_len, buf) = (if get_meter then e_meter_get env ty sn SlaveAddress funcode regAddr regNum
                                 else if get_plug then e_plug_get env ty sn SlaveAddress funcode regAddr regNum else (0, []));
               effs = (if get_plug
                       then if regAddr \<ge> 14500 \<and> regAddr < 14500 + e_len_14500 env then [Plug_Read ty sn]
                            else if regAddr \<ge> 14700 \<and> regAddr < 14700 + e_len_14700 env then [Plug_Set_Read ty sn] else []
                       else [])
           in if rsp_len > 0
              then cbind (wlcc_build_response_frame (node_self nd) (i_msg_id src) 0 (i_dev_type src) (i_dev_sn src)
                            (Some buf) rsp_len (n_send_buffer nd))
                (\<lambda>(tx_len, out). cbind (wlcc_msg_send_to_queue (e_heap env) out tx_len None 0 (n_queue nd))
                   (\<lambda>(_, q). Inr (nd\<lparr>n_send_buffer := out, n_queue := q\<rparr>, effs)))
              else Inr (nd, effs)))"

section \<open>Receiving: reports\<close>

text \<open>A device other than this board: the number of registers is cut to what its table holds; without
  a table the pointer stays what it was.\<close>

definition lookup_device ::
  "'r wlcc_env \<Rightarrow> 'r \<Rightarrow> reg_tab \<Rightarrow> u16 \<Rightarrow> u64 \<Rightarrow> u16 \<Rightarrow> u16 \<Rightarrow> reg_ptr option \<Rightarrow> u16 \<times> reg_ptr option" where
  "lookup_device env regs tab ty sn addr cnt ptr =
     (let regMaxLen = e_max_len env tab addr; n = (if cnt > regMaxLen then regMaxLen else cnt)
      in if regMaxLen > 0 then (n, e_lookup env regs tab ty sn addr n) else (cnt, ptr))"

text \<open>Big endian registers of a Modbus message.\<close>

definition be_words :: "nat \<Rightarrow> u8 list \<Rightarrow> u16 list" where
  "be_words n bs = map (\<lambda>i. mk16 (bs ! (2 * i)) (bs ! (2 * i + 1))) [0..<n]"

definition wlcc_modbus_report_handle ::
  "'r wlcc_env \<Rightarrow> u8 list \<Rightarrow> wlcc_dev_info \<Rightarrow> 'r wlcc_node \<Rightarrow> wlcc_effect list cres" where
  "wlcc_modbus_report_handle env income src nd =
     need 6 income
       (let startAddress = mk16 (income ! 2) (income ! 3); funcode = income ! 1;
            cnt = (if funcode = 0x06 then 1 else mk16 (income ! 4) (income ! 5));
            look = (\<lambda>tab. lookup_device env (n_regs nd) tab (i_dev_type src) (i_dev_sn src) startAddress cnt None);
            (writeRegsCnt, reg_ptr) =
              (if i_dev_type src = SN_TYPE_S1 \<and> e_plug env then look Tab_S1
               else if i_dev_type src = SN_TYPE_METER \<and> e_meter env then look Tab_Meter
               else if i_dev_type src = SN_TYPE_AC2AC \<or> i_dev_type src = SN_TYPE_COMMON_INVERTER_WIRELESS then look Tab_Other_Inv
               else (cnt, None));
            bytesCounter = ucast (push_bit 1 writeRegsCnt) :: u8
        in if funcode \<noteq> 0x06 \<and> funcode \<noteq> 0x10 then Inr []
           else case reg_ptr of None \<Rightarrow> Inr []
           | Some p \<Rightarrow>
               if funcode = 0x06 then Inr [Write_Regs p [mk16 (income ! 4) (income ! 5)]]
               else need (7 + unat bytesCounter) income
                      (Inr [Write_Regs p (be_words (unat bytesCounter div 2) (drop 7 income))]))"

text \<open>The value of a block has the low byte first.\<close>

fun words :: "nat \<Rightarrow> u8 list \<Rightarrow> u16 list" where
  "words 0 v = []"
| "words (Suc n) v = mk16 (v ! 1) (v ! 0) # words n (drop 2 v)"

text \<open>Where a block of a device goes: the number of registers and the pointer.  Register 2285 of this board
  is written by its master only.\<close>

definition block_target ::
  "'r wlcc_env \<Rightarrow> 'r wlcc_node \<Rightarrow> wlcc_dev_info \<Rightarrow> u16 \<Rightarrow> u64 \<Rightarrow> wlcc_tlv_block \<Rightarrow> reg_ptr option \<Rightarrow> u16 \<times> reg_ptr option" where
  "block_target env nd src device_type device_sn blk ptr =
     (let addr = tlv_addr blk; cnt = drop_bit 1 (tlv_length blk);
          look = (\<lambda>tab. lookup_device env (n_regs nd) tab device_type device_sn addr cnt ptr)
      in if device_type = SN_TYPE_S1 then look Tab_S1
         else if device_type = SN_TYPE_METER then look Tab_Meter
         else if device_type = SN_TYPE_AC2AC \<or> device_type = SN_TYPE_COMMON_INVERTER_WIRELESS
         then if device_sn = self_sn (n_self nd)
              then if addr \<le> 2285 \<and> uint addr + uint cnt \<ge> 2285 \<and>
                      \<not> (i_dev_type src = d_type (m_info (n_master nd)) \<and> i_dev_sn src = d_sn (m_info (n_master nd)))
                   then (cnt, None) else (cnt, e_lookup env (n_regs nd) Tab_Self 0 0 addr cnt)
              else look Tab_Other_Inv
         else if device_type = SN_TYPE_NPP004 \<or> device_type = SN_TYPE_NPP005 then look Tab_Other_Inv
         else (cnt, None))"

definition block_handle ::
  "'r wlcc_env \<Rightarrow> 'r wlcc_node \<Rightarrow> wlcc_dev_info \<Rightarrow> u16 \<Rightarrow> u64 \<Rightarrow> wlcc_tlv_block \<Rightarrow> reg_ptr option \<Rightarrow>
     (reg_ptr option \<times> wlcc_effect list) cres" where
  "block_handle env nd src device_type device_sn blk ptr =
     (let (cnt, regPtr) = block_target env nd src device_type device_sn blk ptr;
          v = (case tlv_value blk of None \<Rightarrow> [] | Some v \<Rightarrow> v); n = unat cnt
      in case regPtr of None \<Rightarrow> Inr (None, [])
         | Some p \<Rightarrow> need (2 * n) v
             (Inr (regPtr, Write_Regs p (words n v) #
                (if (device_type = SN_TYPE_SELF (n_self nd) \<or> device_type = SN_TYPE_COMMON_INVERTER_WIRELESS) \<and>
                    device_sn = self_sn (n_self nd) \<and> e_callback env (tlv_addr blk)
                 then [Table_Callback (tlv_addr blk) cnt] else []))))"

fun blocks_handle ::
  "'r wlcc_env \<Rightarrow> 'r wlcc_node \<Rightarrow> wlcc_dev_info \<Rightarrow> u16 \<Rightarrow> u64 \<Rightarrow> wlcc_tlv_block list \<Rightarrow> reg_ptr option \<Rightarrow>
     (reg_ptr option \<times> wlcc_effect list) cres" where
  "blocks_handle env nd src ty sn [] ptr = Inr (ptr, [])"
| "blocks_handle env nd src ty sn (b # bs) ptr =
     cbind (block_handle env nd src ty sn b ptr) (\<lambda>(ptr1, e1).
       cbind (blocks_handle env nd src ty sn bs ptr1) (\<lambda>(ptr2, e2). Inr (ptr2, e1 @ e2)))"

text \<open>The devices of a message; \<open>room\<close> is the number of bytes behind the head.  The pointer is not reset
  between blocks or devices.\<close>

fun devices_handle ::
  "'r wlcc_env \<Rightarrow> 'r wlcc_node \<Rightarrow> wlcc_dev_info \<Rightarrow> int \<Rightarrow> u8 list \<Rightarrow> nat \<Rightarrow> nat \<Rightarrow> reg_ptr option \<Rightarrow> wlcc_effect list cres" where
  "devices_handle env nd src room buf 0 idx ptr = Inr []"
| "devices_handle env nd src room buf (Suc left) idx ptr =
     (if int idx + 12 > room then Inr []
      else
        let sn = get64 buf idx; ty = get16 buf (idx + 8); subsequent_len = unat (get16 buf (idx + 10)); next = idx + 12 + subsequent_len
        in if int next > room then Inr []
           else if subsequent_len = 0 then devices_handle env nd src room buf left next ptr
           else case wlcc_tlv_decode (Some (drop (idx + 12) buf)) subsequent_len True TLV_MAX_BLOCK_COUNT of
             Inl e \<Rightarrow> Inl e
           | Inr (Inl r) \<Rightarrow> devices_handle env nd src room buf left next ptr
           | Inr (Inr blks) \<Rightarrow>
               cbind (blocks_handle env nd src ty sn blks ptr) (\<lambda>(ptr1, e1).
                 cbind (devices_handle env nd src room buf left next ptr1) (\<lambda>e2. Inr (e1 @ e2))))"

definition wlcc_modbus_21000_tlv_frame_handle ::
  "'r wlcc_env \<Rightarrow> u8 list \<Rightarrow> u16 \<Rightarrow> wlcc_dev_info \<Rightarrow> 'r wlcc_node \<Rightarrow> wlcc_effect list cres" where
  "wlcc_modbus_21000_tlv_frame_handle env modbus_data modbus_data_len src nd =
     (if modbus_data_len < 6 \<or> modbus_data_len > 512 then Inr []
      else need 13 modbus_data
        (let device_count = mk16 (modbus_data ! 11) (modbus_data ! 12);
             room = uint modbus_data_len - 15; n = nat ((room + 1) div 2)
         in need (13 + 2 * n) modbus_data
              (devices_handle env nd src room (swap_words n (drop 13 modbus_data)) (unat device_count) 0 None)))"

section \<open>Receiving: responses\<close>

definition wlcc_modbus_rsp_to_self_handle :: "u8 list \<Rightarrow> int \<Rightarrow> wlcc_dev_info \<Rightarrow> modbus_addr_info \<Rightarrow> wlcc_effect list" where
  "wlcc_modbus_rsp_to_self_handle income len rsp pending =
     (if income ! 1 = 0x06 \<or> income ! 1 = 0x10 then []
      else if i_dev_type rsp \<in> {SN_TYPE_S1, SN_TYPE_METER, SN_TYPE_AC2AC, SN_TYPE_COMMON_INVERTER_WIRELESS}
      then [Data_Rsp (i_dev_type rsp) (i_dev_sn rsp) (a_regAddr pending) (a_regNum pending) (take (nat len) income)]
      else [])"

definition rsp_handle :: "u8 list \<Rightarrow> int \<Rightarrow> wlcc_dev_info \<Rightarrow> 'r wlcc_node \<Rightarrow> 'r wlcc_node \<times> wlcc_effect list" where
  "rsp_handle income len rsp nd =
     (let (_, receiver, tab) = wlcc_modbus_msg_rsp_handle rsp (n_pending nd)
      in (nd\<lparr>n_pending := tab\<rparr>, case receiver of None \<Rightarrow> [] | Some a \<Rightarrow> wlcc_modbus_rsp_to_self_handle income len rsp a))"

section \<open>Receiving: frames\<close>

text \<open>The place and the length of the Modbus message in a frame are bytes.\<close>

definition handle_common_modbus_msg ::
  "'r wlcc_env \<Rightarrow> bool \<Rightarrow> u8 list \<Rightarrow> u16 \<Rightarrow> wlcc_dev_info \<Rightarrow> 'r wlcc_node \<Rightarrow> ('r wlcc_node \<times> wlcc_effect list) cres" where
  "handle_common_modbus_msg env can_ok income cmd_len src nd =
     cbind (check_modbus_frame_format income cmd_len) (\<lambda>t.
       if t = IOT_FAIL then Inr (nd, [])
       else
         let before = 33 + int (unat (income ! 30)) * 4;
             start = unat (of_int before :: u8); modbus_len = of_int (uint cmd_len - before - 2) :: u8;
             data = drop start income
         in need 2 data
           (if t = uint WLCC_FRAME_TYPE_READ \<or> t = uint WLCC_FRAME_TYPE_WRITE
            then if data ! 0 < DEV_MODBUS_ADDR_START then wlcc_modbus_to_self_handle env can_ok data (uint modbus_len) src nd
                 else wlcc_modbus_to_other_handle env data src nd
            else if t = uint WLCC_FRAME_TYPE_READ_RTN \<or> t = uint WLCC_FRAME_TYPE_WRITE_RTN
            then Inr (rsp_handle data (uint modbus_len) src nd)
            else if t = uint WLCC_FRAME_TYPE_PERIOD \<and> (data ! 1 = 0x06 \<or> data ! 1 = 0x10)
            then cbind (cbind (wlcc_tlv_is_tlv_frame (Some data) (unat modbus_len)) (\<lambda>r.
                     if r = IOT_OK then wlcc_modbus_21000_tlv_frame_handle env data (ucast modbus_len) src nd
                     else wlcc_modbus_report_handle env data src nd))
                   (\<lambda>effs. Inr (nd, effs))
            else Inr (nd, [])))"

definition node_update_device ::
  "'r wlcc_env \<Rightarrow> wlcc_dev_info \<Rightarrow> 'r wlcc_node \<Rightarrow> 'r wlcc_node \<times> wlcc_effect list" where
  "node_update_device env src nd =
     (if i_dev_type src = 0 \<or> i_dev_sn src = 0 then (nd, [])
      else let (devs, notes) = update_device_discovery_info src (e_now env) (n_devs nd)
           in (nd\<lparr>n_master := wlcc_master_online_time_update src (e_now env) (n_master nd), n_devs := devs\<rparr>, map Device_Note notes))"

definition set_step :: "u8 \<Rightarrow> 'r wlcc_node \<Rightarrow> 'r wlcc_node" where
  "set_step st nd = nd\<lparr>n_disc := (n_disc nd)\<lparr>dd_step := st\<rparr>\<rparr>"

text \<open>The discovery part, compiled with \<open>WLCC_ADDRESS_PARALLEL_ENABLE\<close>.\<close>

definition handle_discovery ::
  "'r wlcc_env \<Rightarrow> u8 \<Rightarrow> wlcc_dev_info \<Rightarrow> 'r wlcc_node \<Rightarrow> 'r wlcc_node \<times> wlcc_effect list" where
  "handle_discovery env frame_type src nd =
     (let (nd1, effs) =
        (if frame_type = WLCC_FRAME_HEADER_TRIGER
         then (set_step WLCC_FRAME_HEADER_SEND_SN nd\<lparr>n_master := wlcc_master_triger (n_self nd) (e_now env) (n_master nd)\<rparr>, [])
         else if frame_type = WLCC_FRAME_HEADER_FINISH \<or> frame_type = WLCC_FRAME_HEADER_FINISH_AFTER
         then node_update_device env src nd else (nd, []))
      in (if frame_type = WLCC_FRAME_HEADER_FINISH
          then nd1\<lparr>n_master := wlcc_master_pk (n_self nd1) src (e_now env) (n_master nd1)\<rparr> else nd1, effs))"

definition handle_wlcc_frame ::
  "'r wlcc_env \<Rightarrow> bool \<Rightarrow> u8 list \<Rightarrow> u16 \<Rightarrow> u32 \<Rightarrow> u16 \<Rightarrow> 'r wlcc_node \<Rightarrow> (int \<times> 'r wlcc_node \<times> wlcc_effect list) cres" where
  "handle_wlcc_frame env can_ok income cmd_len src_ip src_port nd =
     cbind (check_wlcc_frame_format income cmd_len) (\<lambda>r.
       if r \<noteq> IOT_OK then Inr (IOT_ERR_WLCC_FORMAT, nd, [])
       else
         let src = wlcc_source income src_ip src_port; (dst_type, dst_sn) = wlcc_target income;
             frame_type = income ! 0 AND 0x7F; own = is_own_message (n_self nd) src dst_type dst_sn;
             nd1 = (if e_parallel env \<and> income ! 0 AND 0x80 \<noteq> 0 \<and> own \<and> m_is_master (n_master nd) = WLCC_EMS_MODE_MASTER \<and>
                        dd_step (n_disc nd) = WLCC_FRAME_HEADER_FINISH_AFTER
                    then set_step WLCC_FRAME_HEADER_TRIGER
                           (nd\<lparr>n_master := wlcc_master_need_update (n_self nd) (e_now env) (n_master nd)\<rparr>)
                    else nd)
         in if dst_type \<noteq> SN_TYPE_S1 \<and> dst_type \<noteq> SN_TYPE_METER \<and> \<not> own then Inr (IOT_ERR_WLCC_TARGET, nd, [])
            else if frame_type = WLCC_FRAME_HEADER_COMMON \<or> frame_type = WLCC_FRAME_TYPE_PERIOD \<or> frame_type = WLCC_FRAME_TYPE_HEART
            then let (nd2, e1) = node_update_device env src nd1
                 in cbind (handle_common_modbus_msg env can_ok income cmd_len src nd2) (\<lambda>(nd3, e2). Inr (IOT_OK, nd3, e1 @ e2))
            else if e_parallel env \<and> frame_type \<ge> WLCC_FRAME_HEADER_TRIGER \<and> frame_type \<le> WLCC_FRAME_HEADER_FINISH_AFTER
            then if \<not> own then Inr (IOT_ERR_WLCC_TARGET, nd1, [])
                 else let (nd2, effs) = handle_discovery env frame_type src nd1 in Inr (IOT_OK, nd2, effs)
            else Inr (IOT_OK, nd1, []))"

end
