(* ===== verification/Wlcc_Election.thy ===== *)
theory Wlcc_Election
  imports Wlcc_Node
begin

text \<open>
  The election among several boards.  A board is its whole state (\<open>wlcc_node\<close>) and runs through the calls that
  \<open>wlcc_task\<close> makes: frames come in through \<open>handle_wlcc_frame\<close>, the checks of the 100 ms tick, the trigger when
  the network comes up, the discovery.  A history goes along: whom the board has met since it last
  started over, and how many checks ago it met a new one.  The fields of the head of a frame come first.
\<close>

section \<open>Fields of the head\<close>

lemma length_wlcc_head: "length tgt = 8 \<Longrightarrow> length (wlcc_head self st mid tgt dt ft prio) = 39"
  by (simp add: wlcc_head_def)

lemma wlcc_head_fields:
  fixes self st mid tgt dt ft prio rest
  assumes "length tgt = 8"
  defines "f \<equiv> wlcc_head self st mid tgt dt ft prio @ rest"
  shows "f ! 1 = WLCC_FRAME_VERSION_WIFI" "get16 f 2 = mid" "get64 f 4 = self_sn self" "get16 f 12 = SN_TYPE_SELF self"
    "take 8 (drop 14 f) = tgt" "get16 f 22 = dt" "f ! 24 = ft" "get16 f 27 = prio" "f ! 30 = 2"
    "f ! 0 = (if is_master self = WLCC_EMS_MODE_MASTER then st OR 0x80 else st)"
  using assms(1) unfolding f_def wlcc_head_def
  by (simp_all add: get64_append get64_le64 get_Cons nth_append)

lemma discovery_frame_source:
  assumes "build_device_discovery_frame c mid step buf = Inr (len, f, mid')" "length (mesh_memory c) = 8"
  shows "wlcc_source f ip port = \<lparr>i_msg_id = mid + 1, i_dev_type = SN_TYPE_SELF c, i_dev_sn = self_sn c,
    i_dev_priority = DEV_PRIORITY_CMM_INV, i_port = port, i_ip = ip\<rparr>"
proof -
  have t: "length (take 6 (mesh_memory c) @ [0, 0 :: u8]) = 8" using assms(2) by simp
  obtain rest where "f = wlcc_head c step (mid + 1) (take 6 (mesh_memory c) @ [0, 0]) 0xFFFF 0 DEV_PRIORITY_CMM_INV @ rest"
    using assms(1) by (auto simp: build_device_discovery_frame_def Let_def split: if_splits)
  then show ?thesis by (simp add: wlcc_source_def wlcc_head_fields[OF t])
qed

lemma CalcCrc16_modbus_prefix:
  "unat k \<le> length xs \<Longrightarrow> CalcCrc16_modbus (xs @ ys) k = CalcCrc16_modbus (take (unat k) xs) k"
  by (simp add: CalcCrc16_modbus_def)

section \<open>The task of a board\<close>

text \<open>\<open>wlcc_init\<close>, and the parts of \<open>wlcc_task\<close> as compiled with \<open>WLCC_ADDRESS_PARALLEL_ENABLE\<close>.\<close>

definition wlcc_init :: "u32 \<Rightarrow> 'r wlcc_node \<Rightarrow> 'r wlcc_node" where
  "wlcc_init now nd = nd\<lparr>n_devs := no_devs, n_master := wlcc_master_triger (n_self nd) now (n_master nd)\<rparr>"

definition wlcc_task_checks :: "'r wlcc_env \<Rightarrow> 'r wlcc_node \<Rightarrow> 'r wlcc_node" where
  "wlcc_task_checks env nd =
     (let (m, step) = wlcc_master_check (n_self nd) (e_now env) (n_master nd, dd_step (n_disc nd))
      in set_step step (nd\<lparr>n_pending := wlcc_msg_pending_timeout_check (n_pending nd),
           n_devs := fst (wlcc_dev_offline_check (e_plug env) (e_meter env) (e_now env) (n_devs nd)), n_master := m\<rparr>))"

definition wlcc_task_network_up :: "'r wlcc_env \<Rightarrow> 'r wlcc_node \<Rightarrow> 'r wlcc_node" where
  "wlcc_task_network_up env nd =
     (if m_is_master (n_master nd) = WLCC_EMS_MODE_MASTER \<or> m_is_master (n_master nd) = WLCC_EMS_MODE_INVALID
      then set_step WLCC_FRAME_HEADER_TRIGER (nd\<lparr>n_master := wlcc_master_triger (n_self nd) (e_now env) (n_master nd)\<rparr>) else nd)"

text \<open>The frame, when there is one, is in \<open>n_plaintext\<close>; the number is its length.\<close>

definition wlcc_task_discovery :: "bool \<Rightarrow> 'r wlcc_node \<Rightarrow> (int \<times> 'r wlcc_node) cres" where
  "wlcc_task_discovery ip_known nd =
     cbind (device_discovery_is_ready (node_self nd) ip_known (n_msg_id nd) (n_plaintext nd) (n_disc nd))
       (\<lambda>(len, out, mid, d). Inr (len, nd\<lparr>n_plaintext := out, n_msg_id := mid, n_disc := d\<rparr>))"

datatype board_event =
    Frame bool "u8 list" u16 u32 u16 u32
  | Checks u32
  | Network_Up u32
  | Discovery bool

fun board_step :: "'r wlcc_env \<Rightarrow> board_event \<Rightarrow> 'r wlcc_node \<Rightarrow> 'r wlcc_node cres" where
  "board_step env (Frame can_ok income cmd_len ip port now) nd =
     cbind (handle_wlcc_frame (env\<lparr>e_now := now\<rparr>) can_ok income cmd_len ip port nd) (\<lambda>(r, nd', effs). Inr nd')"
| "board_step env (Checks now) nd = Inr (wlcc_task_checks (env\<lparr>e_now := now\<rparr>) nd)"
| "board_step env (Network_Up now) nd = Inr (wlcc_task_network_up (env\<lparr>e_now := now\<rparr>) nd)"
| "board_step env (Discovery ip_known) nd = cbind (wlcc_task_discovery ip_known nd) (\<lambda>(len, nd'). Inr nd')"

section \<open>History\<close>

definition own_frame :: "wlcc_self \<Rightarrow> u8 list \<Rightarrow> u16 \<Rightarrow> bool" where
  "own_frame self income cmd_len \<longleftrightarrow> check_wlcc_frame_format income cmd_len = Inr IOT_OK \<and>
     is_own_message self (wlcc_source income 0 0) (fst (wlcc_target income)) (snd (wlcc_target income))"

text \<open>Who is met: the sender of a FINISH frame for this board.\<close>

fun meets :: "board_event \<Rightarrow> 'r wlcc_node \<Rightarrow> candidate set" where
  "meets (Frame can_ok income cmd_len ip port now) nd =
     (let c = cand (wlcc_source income ip port)
      in if own_frame (n_self nd) income cmd_len \<and> income ! 0 AND 0x7F = WLCC_FRAME_HEADER_FINISH \<and> valid_cand c then {c} else {})"
| "meets ev nd = {}"

text \<open>When a board starts over: at a trigger frame; as a master at the end of its discovery, at a frame of another
  master; when its master has been silent for more than a minute; and when the network comes up, unless it is a slave.\<close>

fun starts_over :: "board_event \<Rightarrow> 'r wlcc_node \<Rightarrow> bool" where
  "starts_over (Frame can_ok income cmd_len ip port now) nd \<longleftrightarrow> own_frame (n_self nd) income cmd_len \<and>
     (income ! 0 AND 0x7F = WLCC_FRAME_HEADER_TRIGER \<or>
      income ! 0 AND 0x80 \<noteq> 0 \<and> m_is_master (n_master nd) = WLCC_EMS_MODE_MASTER \<and> dd_step (n_disc nd) = WLCC_FRAME_HEADER_FINISH_AFTER)"
| "starts_over (Checks now) nd \<longleftrightarrow> m_is_master (wlcc_master_pk_timeout_check (n_master nd)) = WLCC_EMS_MODE_SLAVER \<and>
     now - d_last_online (m_info (n_master nd)) > 60"
| "starts_over (Network_Up now) nd \<longleftrightarrow> m_is_master (n_master nd) = WLCC_EMS_MODE_MASTER \<or> m_is_master (n_master nd) = WLCC_EMS_MODE_INVALID"
| "starts_over (Discovery ip_known) nd \<longleftrightarrow> False"

type_synonym board_history = "candidate set \<times> nat"

definition history_step :: "board_event \<Rightarrow> 'r wlcc_node \<Rightarrow> board_history \<Rightarrow> board_history" where
  "history_step ev nd = (\<lambda>(heard, quiet).
     let heard' = (if starts_over ev nd then {} else heard) \<union> meets ev nd
     in (heard', if starts_over ev nd \<or> heard' \<noteq> heard then 0 else case ev of Checks now \<Rightarrow> quiet + 1 | _ \<Rightarrow> quiet))"

fun board_run :: "'r wlcc_env \<Rightarrow> board_event list \<Rightarrow> 'r wlcc_node \<Rightarrow> board_history \<Rightarrow> ('r wlcc_node \<times> board_history) cres" where
  "board_run env [] nd h = Inr (nd, h)"
| "board_run env (ev # evs) nd h = cbind (board_step env ev nd) (\<lambda>nd'. board_run env evs nd' (history_step ev nd h))"

section \<open>What a step does to the election\<close>

text \<open>Two master records that differ in times and addresses at most.\<close>

definition same_race :: "wlcc_master \<Rightarrow> wlcc_master \<Rightarrow> bool" where
  "same_race m m' \<longleftrightarrow> master_cand m' = master_cand m \<and> m_is_new_master m' = m_is_new_master m \<and> m_is_master m' = m_is_master m \<and>
     m_last_parallel m' = m_last_parallel m"

text \<open>A record at the start.\<close>

definition fresh :: "wlcc_self \<Rightarrow> wlcc_master \<Rightarrow> bool" where
  "fresh self m \<longleftrightarrow> master_cand m = own_cand self \<and> m_is_new_master m = WLCC_EMS_MODE_INVALID \<and> m_last_parallel m \<le> 3000"

lemma fresh_start:
  "fresh self (wlcc_master_triger self now m)"
  "m_last_parallel m \<le> 3000 \<Longrightarrow> fresh self (wlcc_master_need_update self now m)"
  by (simp_all add: fresh_def wlcc_master_triger_def wlcc_master_need_update_def own_entry_def master_cand_def own_cand_def)

lemma fresh_ok: "fresh self m \<Longrightarrow> elect_ok self {} m"
  by (simp add: fresh_def elect_ok_def)

lemma online_time_race: "same_race m (wlcc_master_online_time_update i now m)"
  by (simp add: same_race_def)

lemma same_race_refl [simp]: "same_race m m"
  by (simp add: same_race_def)

lemma same_race_ok: "same_race m m' \<Longrightarrow> elect_ok self H m' \<longleftrightarrow> elect_ok self H m"
  by (simp add: same_race_def elect_ok_def)

lemma same_race_settled: "same_race m m' \<Longrightarrow> settled m' \<longleftrightarrow> settled m"
  by (simp add: same_race_def settled_def)

lemma same_race_fresh: "same_race m m' \<Longrightarrow> fresh self m' \<longleftrightarrow> fresh self m"
  by (simp add: same_race_def fresh_def)

text \<open>The Modbus messages leave the election alone.\<close>

definition keeps_master :: "'r wlcc_node \<Rightarrow> ('r wlcc_node \<times> wlcc_effect list) cres \<Rightarrow> bool" where
  "keeps_master nd r \<longleftrightarrow> (case r of Inl e \<Rightarrow> True | Inr (nd', effs) \<Rightarrow> n_master nd' = n_master nd \<and> n_self nd' = n_self nd)"

lemma keeps_masterI:
  "keeps_master nd (Inl e)" "n_master nd' = n_master nd \<Longrightarrow> n_self nd' = n_self nd \<Longrightarrow> keeps_master nd (Inr (nd', effs))"
  "keeps_master nd r \<Longrightarrow> keeps_master nd (need n d r)"
  by (simp_all add: keeps_master_def need_def)

lemma keeps_master_cbind: "(\<And>x. keeps_master nd (f x)) \<Longrightarrow> keeps_master nd (cbind m f)"
  by (cases m) (simp_all add: keeps_master_def)

lemma keeps_master_if: "keeps_master nd a \<Longrightarrow> keeps_master nd b \<Longrightarrow> keeps_master nd (if c then a else b)"
  by simp

lemma keeps_master_split: "(\<And>a b. keeps_master nd (f a b)) \<Longrightarrow> keeps_master nd (case p of (a, b) \<Rightarrow> f a b)"
  by (cases p) simp

lemmas keeps_master_rules = keeps_masterI keeps_master_cbind keeps_master_if keeps_master_split

lemma request_master: "keeps_master nd (wlcc_modbus_to_self_handle env can_ok data len src nd)"
  unfolding wlcc_modbus_to_self_handle_def Let_def by (intro keeps_master_rules) simp_all

lemma other_master: "keeps_master nd (wlcc_modbus_to_other_handle env data src nd)"
  unfolding wlcc_modbus_to_other_handle_def Let_def by (intro keeps_master_rules) simp_all

lemma response_master: "keeps_master nd (Inr (rsp_handle data len src nd))"
  by (simp add: keeps_master_def rsp_handle_def split_beta)

lemma message_master: "keeps_master nd (handle_common_modbus_msg env can_ok income cmd_len src nd)"
  unfolding handle_common_modbus_msg_def Let_def
  by (intro keeps_master_rules request_master other_master response_master) simp_all

lemma device_master:
  "same_race (n_master nd) (n_master (fst (node_update_device env src nd)))" "n_self (fst (node_update_device env src nd)) = n_self nd"
  by (auto simp: node_update_device_def online_time_race split: prod.splits)

lemma pk_invalid: "\<not> valid_cand (cand i) \<Longrightarrow> wlcc_master_pk self i now m = m"
  unfolding wlcc_master_pk_def by (rule if_not_P) (simp add: valid_cand_def cand_def)

lemma discovery_master:
  assumes "handle_discovery env ft src nd = (nd', effs)"
  shows "n_self nd' = n_self nd" and "ft = WLCC_FRAME_HEADER_TRIGER \<Longrightarrow> fresh (n_self nd) (n_master nd')"
    and "ft \<noteq> WLCC_FRAME_HEADER_TRIGER \<Longrightarrow> \<exists>m. same_race (n_master nd) m \<and>
      n_master nd' = (if ft = WLCC_FRAME_HEADER_FINISH \<and> valid_cand (cand src) then wlcc_master_pk (n_self nd) src (e_now env) m else m)"
proof -
  show "n_self nd' = n_self nd"
    using assms device_master(2)[where nd = nd and env = env and src = src] by (auto simp: handle_discovery_def Let_def set_step_def split: if_splits prod.splits)
  show "fresh (n_self nd) (n_master nd')" if "ft = WLCC_FRAME_HEADER_TRIGER"
    using assms that by (auto simp: handle_discovery_def Let_def set_step_def fresh_start wlcc_consts split: if_splits)
  show "\<exists>m. same_race (n_master nd) m \<and>
      n_master nd' = (if ft = WLCC_FRAME_HEADER_FINISH \<and> valid_cand (cand src) then wlcc_master_pk (n_self nd) src (e_now env) m else m)"
    if "ft \<noteq> WLCC_FRAME_HEADER_TRIGER"
  proof -
    define x where "x = (if ft = WLCC_FRAME_HEADER_FINISH \<or> ft = WLCC_FRAME_HEADER_FINISH_AFTER then fst (node_update_device env src nd) else nd)"
    have x: "same_race (n_master nd) (n_master x)" "n_self x = n_self nd" using device_master[where nd = nd and env = env and src = src] by (simp_all add: x_def)
    have "nd' = (if ft = WLCC_FRAME_HEADER_FINISH then x\<lparr>n_master := wlcc_master_pk (n_self x) src (e_now env) (n_master x)\<rparr> else x)"
      using assms that by (auto simp: handle_discovery_def x_def Let_def split: if_splits prod.splits)
    then show ?thesis using x by (intro exI[of _ "n_master x"]) (simp add: pk_invalid)
  qed
qed

text \<open>A frame moves the election: it may start it over, and then its sender may be met.\<close>

definition moved :: "wlcc_self \<Rightarrow> bool \<Rightarrow> candidate set \<Rightarrow> wlcc_master \<Rightarrow> wlcc_master \<Rightarrow> bool" where
  "moved self over M m m' \<longleftrightarrow> (\<exists>m1. (if over then fresh self m1 else same_race m m1) \<and>
     (M = {} \<and> m' = m1 \<or> (\<exists>i now. M = {cand i} \<and> valid_cand (cand i) \<and> m' = wlcc_master_pk self i now m1)))"

lemma moved_race: "same_race m m' \<Longrightarrow> moved self False {} m m'"
  by (simp add: moved_def)

lemma frame_master:
  fixes now
  assumes "handle_wlcc_frame env can_ok income cmd_len ip port nd = Inr (r, nd', effs)" "e_parallel env"
    "m_last_parallel (n_master nd) \<le> 3000"
  defines "ev \<equiv> Frame can_ok income cmd_len ip port now"
  shows "n_self nd' = n_self nd \<and> moved (n_self nd) (starts_over ev nd) (meets ev nd) (n_master nd) (n_master nd')"
proof (cases "check_wlcc_frame_format income cmd_len = Inr IOT_OK")
  case False
  then have "nd' = nd" using assms(1) by (auto simp: handle_wlcc_frame_def cbind_Inr_iff split: if_splits)
  then show ?thesis using False by (simp add: ev_def own_frame_def moved_race)
next
  case ok: True
  let ?src = "wlcc_source income ip port" and ?ft = "income ! 0 AND 0x7F"
  obtain ty sn where tgt: "wlcc_target income = (ty, sn)" by (cases "wlcc_target income")
  define own where "own = is_own_message (n_self nd) ?src ty sn"
  have of: "own_frame (n_self nd) income cmd_len = own"
    by (simp add: own_frame_def ok tgt own_def is_own_message_def wlcc_source_def)
  define reset where "reset \<longleftrightarrow> income ! 0 AND 0x80 \<noteq> 0 \<and> own \<and> m_is_master (n_master nd) = WLCC_EMS_MODE_MASTER \<and>
    dd_step (n_disc nd) = WLCC_FRAME_HEADER_FINISH_AFTER"
  define nd1 where "nd1 = (if reset then set_step WLCC_FRAME_HEADER_TRIGER
      (nd\<lparr>n_master := wlcc_master_need_update (n_self nd) (e_now env) (n_master nd)\<rparr>) else nd)"
  have so: "starts_over ev nd \<longleftrightarrow> own \<and> (?ft = WLCC_FRAME_HEADER_TRIGER \<or> reset)"
    by (auto simp: ev_def of reset_def)
  have me: "meets ev nd = (if own \<and> ?ft = WLCC_FRAME_HEADER_FINISH \<and> valid_cand (cand ?src) then {cand ?src} else {})"
    by (simp add: ev_def of Let_def)
  have n1: "n_self nd1 = n_self nd" "if reset then fresh (n_self nd) (n_master nd1) else n_master nd1 = n_master nd"
    using fresh_start(2)[OF assms(3)] by (simp_all add: nd1_def set_step_def)
  define disc where "disc \<longleftrightarrow> WLCC_FRAME_HEADER_TRIGER \<le> ?ft \<and> ?ft \<le> WLCC_FRAME_HEADER_FINISH_AFTER"
  have dt: "\<not> disc \<Longrightarrow> ?ft \<noteq> WLCC_FRAME_HEADER_TRIGER \<and> ?ft \<noteq> WLCC_FRAME_HEADER_FINISH"
    "?ft = WLCC_FRAME_HEADER_COMMON \<or> ?ft = WLCC_FRAME_TYPE_PERIOD \<or> ?ft = WLCC_FRAME_TYPE_HEART \<Longrightarrow>
      ?ft \<noteq> WLCC_FRAME_HEADER_TRIGER \<and> ?ft \<noteq> WLCC_FRAME_HEADER_FINISH"
    by (auto simp: disc_def wlcc_consts)
  have h: "(if ty \<noteq> SN_TYPE_S1 \<and> ty \<noteq> SN_TYPE_METER \<and> \<not> own then Inr (IOT_ERR_WLCC_TARGET, nd, [])
       else if ?ft = WLCC_FRAME_HEADER_COMMON \<or> ?ft = WLCC_FRAME_TYPE_PERIOD \<or> ?ft = WLCC_FRAME_TYPE_HEART
       then let (nd2, e1) = node_update_device env ?src nd1
            in cbind (handle_common_modbus_msg env can_ok income cmd_len ?src nd2) (\<lambda>(nd3, e2). Inr (IOT_OK, nd3, e1 @ e2))
       else if disc
       then if \<not> own then Inr (IOT_ERR_WLCC_TARGET, nd1, [])
            else let (nd2, effs) = handle_discovery env ?ft ?src nd1 in Inr (IOT_OK, nd2, effs)
       else Inr (IOT_OK, nd1, [])) = Inr (r, nd', effs)"
    using assms(1) by (simp add: handle_wlcc_frame_def ok tgt Let_def nd1_def reset_def own_def assms(2) disc_def cong: if_cong)
  consider (refused) "nd' = nd" "\<not> own"
    | (message) nd2 e1 e2 where "node_update_device env ?src nd1 = (nd2, e1)"
        "handle_common_modbus_msg env can_ok income cmd_len ?src nd2 = Inr (nd', e2)"
        "?ft \<noteq> WLCC_FRAME_HEADER_TRIGER" "?ft \<noteq> WLCC_FRAME_HEADER_FINISH"
    | (foreign) "nd' = nd1" "\<not> own"
    | (discovery) effs' where "handle_discovery env ?ft ?src nd1 = (nd', effs')" "own"
    | (unknown) "nd' = nd1" "?ft \<noteq> WLCC_FRAME_HEADER_TRIGER" "?ft \<noteq> WLCC_FRAME_HEADER_FINISH"
    using h dt by (auto simp: cbind_Inr_iff split: if_splits prod.splits)
  then show ?thesis
  proof cases
    case refused
    then show ?thesis by (simp add: so me moved_race)
  next
    case message
    have "n_master nd' = n_master nd2" "n_self nd' = n_self nd2"
      using message_master[of nd2 env can_ok income cmd_len ?src] message(2) by (simp_all add: keeps_master_def)
    moreover have "same_race (n_master nd1) (n_master nd2)" "n_self nd2 = n_self nd1"
      using device_master[where nd = nd1 and env = env and src = ?src] message(1) by simp_all
    ultimately show ?thesis using n1 message(3,4) same_race_fresh
      by (cases reset) (auto simp: so me moved_def reset_def)
  next
    case foreign
    then have "\<not> reset" by (simp add: reset_def)
    then show ?thesis using foreign n1 by (simp add: so me moved_race)
  next
    case discovery
    note d = discovery_master[OF discovery(1)]
    show ?thesis
    proof (cases "?ft = WLCC_FRAME_HEADER_TRIGER")
      case True
      then have "?ft \<noteq> WLCC_FRAME_HEADER_FINISH" by (simp add: wlcc_consts)
      then show ?thesis using True d(1,2) n1(1) discovery(2) by (simp add: so me moved_def)
    next
      case False
      obtain m1 where m1: "same_race (n_master nd1) m1" "n_master nd' =
          (if ?ft = WLCC_FRAME_HEADER_FINISH \<and> valid_cand (cand ?src) then wlcc_master_pk (n_self nd1) ?src (e_now env) m1 else m1)"
        using d(3)[OF False] by blast
      then have "if reset then fresh (n_self nd) m1 else same_race (n_master nd) m1"
        using n1(2) same_race_fresh by (cases reset) auto
      then show ?thesis using m1(2) n1(1) d(1) discovery(2) False unfolding moved_def so me
        by (intro conjI exI[of _ m1]) auto
    qed
  next
    case unknown
    then show ?thesis using n1 by (cases reset) (auto simp: so me moved_def reset_def)
  qed
qed

section \<open>The invariant of a run\<close>

definition race_inv :: "wlcc_self \<Rightarrow> board_history \<Rightarrow> wlcc_master \<Rightarrow> bool" where
  "race_inv self = (\<lambda>(heard, quiet) m. m_last_parallel m \<le> 3000 \<and> finite heard \<and> (\<forall>c\<in>heard. valid_cand c) \<and>
     ((\<forall>c\<in>heard. csn c \<noteq> self_sn self) \<longrightarrow>
        elect_ok self heard m \<and> (settled m \<or> 100 * quiet \<le> unat (m_last_parallel m))))"

lemma fresh_inv: "fresh self m \<Longrightarrow> race_inv self ({}, 0) m"
  by (simp add: race_inv_def fresh_ok) (simp add: fresh_def)

lemma same_race_inv: "same_race m m' \<Longrightarrow> race_inv self h m \<Longrightarrow> race_inv self h m'"
  using same_race_ok[of m m' self "fst h"] same_race_settled[of m m']
  by (cases h) (simp add: race_inv_def, simp add: same_race_def)

lemma pk_parallel: "m_last_parallel (wlcc_master_pk self i now m) = m_last_parallel m"
  by (simp add: wlcc_master_pk_def wlcc_master_update_def Let_def)

lemma pk_known:
  assumes "elect_ok self H m" "finite H" "cand i \<in> H" "\<forall>c\<in>H. valid_cand c" "\<forall>c\<in>H. csn c \<noteq> self_sn self"
  shows "wlcc_master_pk self i now m = m"
proof -
  let ?c = "master_cand m"
  have m: "?c = Min (insert (own_cand self) H)" using assms(1) by (simp add: elect_ok_def)
  then have "?c \<in> insert (own_cand self) H" using assms(2) Min_in[of "insert (own_cand self) H"] by simp
  then have o: "csn ?c = self_sn self \<longrightarrow> ?c = own_cand self" using assms(5) by auto
  have "?c \<le> cand i" unfolding m using assms(2,3) by (intro Min_le) auto
  then have "\<not> cand i < ?c" by (simp add: not_less)
  moreover have "m_is_new_master m = WLCC_EMS_MODE_MASTER" if "?c = own_cand self"
    using that assms(1,3) by (auto simp: elect_ok_def)
  ultimately show ?thesis using pk_duel[OF _ o, of i now] assms(3,4) by simp
qed

lemma moved_inv:
  assumes "race_inv self (H, q) m" "moved self over M m m'"
  shows "race_inv self (let H' = (if over then {} else H) \<union> M in (H', if over \<or> H' \<noteq> H then 0 else q)) m'"
proof -
  let ?H = "if over then {} else H" and ?q = "if over then 0 else q"
  obtain m1 where m1: "if over then fresh self m1 else same_race m m1"
    "M = {} \<and> m' = m1 \<or> (\<exists>i now. M = {cand i} \<and> valid_cand (cand i) \<and> m' = wlcc_master_pk self i now m1)"
    using assms(2) by (auto simp: moved_def)
  have i1: "race_inv self (?H, ?q) m1" using m1(1) assms(1) fresh_inv same_race_inv by (cases over) auto
  show ?thesis
  proof (cases "M = {}")
    case True
    then show ?thesis using m1(2) i1 by (auto simp: Let_def)
  next
    case False
    then obtain i now where i: "M = {cand i}" "valid_cand (cand i)" "m' = wlcc_master_pk self i now m1" using m1(2) by auto
    show ?thesis
    proof (cases "cand i \<in> ?H")
      case True
      then have s: "\<not> over" "?H \<union> M = H" using i(1) by (auto split: if_splits)
      have "race_inv self (H, q) m'"
        using i1 True s(1) pk_known[of self H m1 i now] i(3) by (auto simp: race_inv_def pk_parallel)
      then show ?thesis using s by (simp add: Let_def)
    next
      case False
      then have n: "(over \<or> ?H \<union> M \<noteq> H) = True" using i(1) by auto
      have "race_inv self (insert (cand i) ?H, 0) m'"
        using i1 i(2,3) pk_ok[of self ?H m1 i now] by (auto simp: race_inv_def pk_parallel)
      then show ?thesis unfolding Let_def n i(1)[symmetric] by (simp add: i(1) Un_commute)
    qed
  qed
qed

lemma polled_inv:
  assumes "race_inv self (H, q) m"
  shows "race_inv self (H, q + 1) (wlcc_master_pk_timeout_check m)"
proof -
  let ?m = "wlcc_master_pk_timeout_check m"
  have l: "m_last_parallel m \<le> 3000" using assms by (simp add: race_inv_def)
  have "elect_ok self H ?m \<and> (settled ?m \<or> 100 * (q + 1) \<le> unat (m_last_parallel ?m))" if "\<forall>c\<in>H. csn c \<noteq> self_sn self"
  proof -
    have i: "elect_ok self H m" "settled m \<or> 100 * q \<le> unat (m_last_parallel m)" using assms that by (auto simp: race_inv_def)
    have "settled m \<Longrightarrow> ?m = m" by (simp add: wlcc_master_pk_timeout_check_def settled_def)
    then show ?thesis using timeout_cases(1)[OF l] i timeout_ok[OF i(1)] by auto
  qed
  then show ?thesis using assms timeout_cases(2)[OF l] by (auto simp: race_inv_def)
qed

lemma task_checks_master:
  "n_self (wlcc_task_checks env nd) = n_self nd"
  "n_master (wlcc_task_checks env nd) =
    (let m = wlcc_master_pk_timeout_check (n_master nd)
     in if starts_over (Checks (e_now env)) nd then wlcc_master_triger (n_self nd) (e_now env) m else m)"
  by (simp_all add: wlcc_task_checks_def wlcc_master_check_def wlcc_master_offline_check_def set_step_def Let_def split_beta)

lemma board_step_inv:
  assumes "board_step env ev nd = Inr nd'" "e_parallel env" "race_inv (n_self nd) h (n_master nd)"
  shows "n_self nd' = n_self nd \<and> race_inv (n_self nd) (history_step ev nd h) (n_master nd')"
proof -
  obtain H q where h: "h = (H, q)" by (cases h)
  show ?thesis
  proof (cases ev)
    case (Frame can_ok income cmd_len ip port now)
    obtain r effs where "handle_wlcc_frame (env\<lparr>e_now := now\<rparr>) can_ok income cmd_len ip port nd = Inr (r, nd', effs)"
      using assms(1) Frame by (auto simp: cbind_Inr_iff)
    moreover have "e_parallel (env\<lparr>e_now := now\<rparr>)" "m_last_parallel (n_master nd) \<le> 3000"
      using assms(2,3) by (simp_all add: h race_inv_def)
    ultimately have mv: "n_self nd' = n_self nd"
      "moved (n_self nd) (starts_over ev nd) (meets ev nd) (n_master nd) (n_master nd')"
      using frame_master[where now = now] unfolding Frame by blast+
    have "history_step ev nd h = (let H' = (if starts_over ev nd then {} else H) \<union> meets ev nd
        in (H', if starts_over ev nd \<or> H' \<noteq> H then 0 else q))"
      by (simp add: h history_step_def Frame Let_def del: starts_over.simps meets.simps)
    then show ?thesis using moved_inv[OF assms(3)[unfolded h] mv(2)] mv(1) by simp
  next
    case (Checks now)
    then show ?thesis
      using assms(1,3) polled_inv[of "n_self nd" H q "n_master nd"] fresh_inv[OF fresh_start(1)]
      by (auto simp: h history_step_def task_checks_master Let_def)
  next
    case (Network_Up now)
    then show ?thesis
      using assms(1,3) fresh_inv[OF fresh_start(1)] by (auto simp: h history_step_def wlcc_task_network_up_def set_step_def)
  next
    case (Discovery ip_known)
    then have "n_self nd' = n_self nd \<and> n_master nd' = n_master nd"
      using assms(1) by (auto simp: wlcc_task_discovery_def cbind_Inr_iff)
    then show ?thesis using assms(3) Discovery by (simp add: h history_step_def)
  qed
qed

lemma board_run_inv:
  assumes "board_run env evs nd h = Inr (nd', h')" "e_parallel env" "race_inv (n_self nd) h (n_master nd)"
  shows "n_self nd' = n_self nd \<and> race_inv (n_self nd) h' (n_master nd')"
  using assms(1,3)
proof (induction evs arbitrary: nd h)
  case (Cons ev evs)
  obtain nd1 where nd1: "board_step env ev nd = Inr nd1" "board_run env evs nd1 (history_step ev nd h) = Inr (nd', h')"
    using Cons.prems(1) by (auto simp: cbind_Inr_iff)
  show ?case using Cons.IH[OF nd1(2)] board_step_inv[OF nd1(1) assms(2) Cons.prems(2)] by simp
qed simp

lemma board_outcome:
  assumes "board_run env evs (wlcc_init t0 nd0) ({}, 0) = Inr (nd, H, k)" "e_parallel env" "31 \<le> k"
    "\<forall>c\<in>H. csn c \<noteq> self_sn (n_self nd0)"
  shows "master_cand (n_master nd) = Min (insert (own_cand (n_self nd0)) H)"
    "m_is_master (n_master nd) =
      (if master_cand (n_master nd) = own_cand (n_self nd0) then WLCC_EMS_MODE_MASTER else WLCC_EMS_MODE_SLAVER)"
proof -
  have "race_inv (n_self nd0) ({}, 0) (n_master (wlcc_init t0 nd0))"
    by (simp add: wlcc_init_def fresh_inv fresh_start)
  moreover have "n_self (wlcc_init t0 nd0) = n_self nd0" by (simp add: wlcc_init_def)
  ultimately have i: "race_inv (n_self nd0) (H, k) (n_master nd)" using board_run_inv[OF assms(1,2)] by simp
  then have e: "elect_ok (n_self nd0) H (n_master nd)" "settled (n_master nd) \<or> 100 * k \<le> unat (m_last_parallel (n_master nd))"
    "m_last_parallel (n_master nd) \<le> 3000" using assms(4) by (auto simp: race_inv_def)
  then have s: "settled (n_master nd)" using assms(3) by (auto simp: word_le_nat_alt)
  show c: "master_cand (n_master nd) = Min (insert (own_cand (n_self nd0)) H)" using e(1) by (simp add: elect_ok_def)
  show "m_is_master (n_master nd) =
      (if master_cand (n_master nd) = own_cand (n_self nd0) then WLCC_EMS_MODE_MASTER else WLCC_EMS_MODE_SLAVER)"
    unfolding c by (rule settled_outcome[OF e(1) s]) (use s in \<open>simp add: settled_def\<close>)
qed

section \<open>FINISH frames\<close>

text \<open>The frame that \<open>device_discovery_is_ready\<close> sends at the step FINISH.\<close>

definition finish_frame :: "wlcc_self \<Rightarrow> u8 list \<Rightarrow> bool" where
  "finish_frame c f \<longleftrightarrow> (\<exists>mid buf len mid'. build_device_discovery_frame c mid WLCC_FRAME_HEADER_FINISH buf = Inr (len, f, mid'))"

definition link_board :: "wlcc_self \<Rightarrow> bool" where
  "link_board b \<longleftrightarrow> self_sn b \<noteq> 0 \<and> SN_TYPE_SELF b \<noteq> 0 \<and> length (mesh_memory b) = 8"

definition same_mesh :: "wlcc_self \<Rightarrow> wlcc_self \<Rightarrow> bool" where
  "same_mesh b c \<longleftrightarrow> get64 (mesh_memory b) 0 = get64 (take 6 (mesh_memory c) @ [0, 0]) 0"

lemma finish_frame_fields:
  assumes "finish_frame c f" "link_board c"
  shows "check_wlcc_frame_format f 41 = Inr IOT_OK" "wlcc_target f = (0xFFFF, get64 (take 6 (mesh_memory c) @ [0, 0]) 0)"
    "f ! 0 AND 0x7F = WLCC_FRAME_HEADER_FINISH" "f ! 0 AND 0x80 \<noteq> 0 \<longleftrightarrow> is_master c = WLCC_EMS_MODE_MASTER"
    "cand (wlcc_source f ip port) = own_cand c" "i_dev_priority (wlcc_source f ip port) = DEV_PRIORITY_SELF"
    "valid_cand (own_cand c)"
proof -
  let ?t = "take 6 (mesh_memory c) @ [0, 0 :: u8]"
  have t: "length ?t = 8" using assms(2) by (simp add: link_board_def)
  obtain mid buf len mid' where bd: "build_device_discovery_frame c mid WLCC_FRAME_HEADER_FINISH buf = Inr (len, f, mid')"
    using assms(1) by (auto simp: finish_frame_def)
  define h where "h = wlcc_head c WLCC_FRAME_HEADER_FINISH (mid + 1) ?t 0xFFFF 0 DEV_PRIORITY_CMM_INV"
  have lh: "length h = 39" unfolding h_def by (rule length_wlcc_head[OF t])
  define crc where "crc = CalcCrc16_modbus h 39"
  obtain rest where f: "f = h @ le16 crc @ rest"
    using bd lh by (auto simp: build_device_discovery_frame_def h_def[symmetric] crc_def Let_def split: if_splits)
  note w = wlcc_head_fields[OF t, where self = c and st = WLCC_FRAME_HEADER_FINISH and mid = "mid + 1" and dt = "0xFFFF" and ft = 0 and prio = DEV_PRIORITY_CMM_INV and rest = "le16 crc @ rest", folded h_def, folded f]
  have "CalcCrc16_modbus f 39 = crc"
    unfolding f crc_def by (subst CalcCrc16_modbus_prefix) (simp_all add: lh)
  moreover have "f ! 40 = hi8 crc" "f ! 39 = lo8 crc" "41 \<le> length f" by (simp_all add: f nth_append lh le16_def)
  ultimately show "check_wlcc_frame_format f 41 = Inr IOT_OK"
    using w(1) by (simp add: check_wlcc_frame_format_def)
  have "get64 f 14 = get64 (take 8 (drop 14 f)) 0"
    by (simp add: get64_def get32_def get16_def f lh nth_append)
  then show "wlcc_target f = (0xFFFF, get64 ?t 0)" by (simp add: wlcc_target_def w)
  show "f ! 0 AND 0x7F = WLCC_FRAME_HEADER_FINISH" "f ! 0 AND 0x80 \<noteq> 0 \<longleftrightarrow> is_master c = WLCC_EMS_MODE_MASTER"
    unfolding w(10) by (simp_all add: WLCC_FRAME_HEADER_FINISH_def)
  show "cand (wlcc_source f ip port) = own_cand c" "i_dev_priority (wlcc_source f ip port) = DEV_PRIORITY_SELF"
    by (simp_all add: cand_def own_cand_def wlcc_source_def w DEV_PRIORITY_SELF_def)
  show "valid_cand (own_cand c)" using assms(2) by (simp add: link_board_def valid_cand_def own_cand_def wlcc_consts)
qed

text \<open>Whatever role the sender has, its FINISH frame is met; it makes a board of its mesh start over only if both
  are masters and the board is at the end of its discovery.\<close>

lemma finish_frame_met:
  fixes nd :: "'r wlcc_node"
  assumes "finish_frame c f" "link_board c" "same_mesh (n_self nd) c"
  shows "meets (Frame can_ok f 41 ip port now) nd = {own_cand c}"
    "starts_over (Frame can_ok f 41 ip port now) nd \<longleftrightarrow> is_master c = WLCC_EMS_MODE_MASTER \<and>
      m_is_master (n_master nd) = WLCC_EMS_MODE_MASTER \<and> dd_step (n_disc nd) = WLCC_FRAME_HEADER_FINISH_AFTER"
    "e_parallel env \<Longrightarrow> \<not> starts_over (Frame can_ok f 41 ip port now) nd \<Longrightarrow>
      handle_wlcc_frame env can_ok f 41 ip port nd =
        (let (nd2, effs) = handle_discovery env WLCC_FRAME_HEADER_FINISH (wlcc_source f ip port) nd in Inr (IOT_OK, nd2, effs))"
proof -
  note ff = finish_frame_fields[OF assms(1,2)]
  have own: "is_own_message (n_self nd) (wlcc_source f i p) 0xFFFF (get64 (take 6 (mesh_memory c) @ [0, 0]) 0)" for i p
    using assms(3) by (simp add: is_own_message_def same_mesh_def)
  have of: "own_frame (n_self nd) f 41" using own by (simp add: own_frame_def ff)
  show "meets (Frame can_ok f 41 ip port now) nd = {own_cand c}" using of by (simp add: ff Let_def)
  show so: "starts_over (Frame can_ok f 41 ip port now) nd \<longleftrightarrow> is_master c = WLCC_EMS_MODE_MASTER \<and>
      m_is_master (n_master nd) = WLCC_EMS_MODE_MASTER \<and> dd_step (n_disc nd) = WLCC_FRAME_HEADER_FINISH_AFTER"
    using of ff(4) by (auto simp: ff(3) WLCC_FRAME_HEADER_FINISH_def WLCC_FRAME_HEADER_TRIGER_def)
  show "handle_wlcc_frame env can_ok f 41 ip port nd =
      (let (nd2, effs) = handle_discovery env WLCC_FRAME_HEADER_FINISH (wlcc_source f ip port) nd in Inr (IOT_OK, nd2, effs))"
    if "e_parallel env" "\<not> starts_over (Frame can_ok f 41 ip port now) nd"
    unfolding handle_wlcc_frame_def ff(1,2,3) using that(1) that(2)[unfolded so] own ff(4)
    by (simp add: Let_def) (auto simp: wlcc_consts split: prod.splits)
qed

section \<open>Property\<close>

text \<open>C1: The boards of a link agree on one master, in builds with the election
  (\<open>WLCC_ADDRESS_PARALLEL_ENABLE\<close>).  Each board starts with \<open>wlcc_init\<close> and goes through any sequence of received frames (any bytes at all), checks, network starts and discovery calls that ends
  without a fault.  Suppose that since a board last started over (trigger frame, as a master the frame of another
  master at the end of its discovery, silence of its master for more than 60 seconds, network coming up) it has met the FINISH frames of
  exactly the other boards, and has made 31 checks since the last new one.  Then exactly one of the boards, which have
  different serial numbers, takes itself for the master, namely the one with the smallest type and, among
  these, the smallest serial number; all the others are slaves and name this board as their master.\<close>

theorem wlcc_one_master:
  assumes "finite B" "B \<noteq> {}" "inj_on self_sn B" "\<forall>b\<in>B. n_self (nd0 b) = b" "\<forall>b\<in>B. e_parallel (env b)"
    "\<forall>b\<in>B. board_run (env b) (evs b) (wlcc_init (t0 b) (nd0 b)) ({}, 0) = Inr (nd b, own_cand ` (B - {b}), k b)"
    "\<forall>b\<in>B. 31 \<le> k b"
  shows "\<exists>a\<in>B. own_cand a = Min (own_cand ` B) \<and> (\<forall>b\<in>B.
    m_is_master (n_master (nd b)) = (if b = a then WLCC_EMS_MODE_MASTER else WLCC_EMS_MODE_SLAVER) \<and>
    d_type (m_info (n_master (nd b))) = SN_TYPE_SELF a \<and> d_sn (m_info (n_master (nd b))) = self_sn a)"
proof -
  have "Min (own_cand ` B) \<in> own_cand ` B" using assms(1,2) by simp
  then obtain a where a: "a \<in> B" "own_cand a = Min (own_cand ` B)" by auto
  have "m_is_master (n_master (nd b)) = (if b = a then WLCC_EMS_MODE_MASTER else WLCC_EMS_MODE_SLAVER) \<and>
      d_type (m_info (n_master (nd b))) = SN_TYPE_SELF a \<and> d_sn (m_info (n_master (nd b))) = self_sn a" if b: "b \<in> B" for b
  proof -
    have sn: "self_sn c \<noteq> self_sn b" if "c \<in> B - {b}" for c using inj_onD[OF assms(3), of c b] that b by blast
    have r: "board_run (env b) (evs b) (wlcc_init (t0 b) (nd0 b)) ({}, 0) = Inr (nd b, own_cand ` (B - {b}), k b)"
      "e_parallel (env b)" "31 \<le> k b" "n_self (nd0 b) = b" using assms(4-7) b by blast+
    have "\<forall>c\<in>own_cand ` (B - {b}). csn c \<noteq> self_sn (n_self (nd0 b))" using sn r(4) by (auto simp: own_cand_def)
    note o = board_outcome[OF r(1-3) this, unfolded r(4)]
    have "insert (own_cand b) (own_cand ` (B - {b})) = own_cand ` B" using b by auto
    then have c: "master_cand (n_master (nd b)) = own_cand a" using o(1) a(2) by simp
    have "own_cand a = own_cand b \<longleftrightarrow> b = a" using sn[of a] a(1) by (auto simp: own_cand_def)
    then show ?thesis using c o(2) by (auto simp: master_cand_def own_cand_def)
  qed
  then show ?thesis using a by blast
qed

text \<open>Two boards that have taken themselves for the master hear each other's FINISH frame and make 31 checks.\<close>

definition example_board :: "u64 \<Rightarrow> wlcc_self" where
  "example_board sn = \<lparr>self_sn = sn, SN_TYPE_SELF = SN_TYPE_COMMON_INVERTER_WIRELESS, mesh_memory = [7, 7, 7, 7, 7, 7, 0, 0],
     sta_gw = [192, 168, 1, 1], sta_ipv4 = [192, 168, 1, 9], is_master = 0\<rparr>"

definition example_finish :: "u64 \<Rightarrow> u8 list" where
  "example_finish sn = (case build_device_discovery_frame ((example_board sn)\<lparr>is_master := WLCC_EMS_MODE_MASTER\<rparr>) 0
     WLCC_FRAME_HEADER_FINISH (replicate 60 0) of Inr (len, f, mid) \<Rightarrow> f | Inl _ \<Rightarrow> [])"

definition example_node :: "wlcc_self \<Rightarrow> unit wlcc_node" where
  "example_node b = \<lparr>n_self = b, n_master = \<lparr>m_is_master = WLCC_EMS_MODE_MASTER, m_is_new_master = 1, m_last_parallel = 0, m_info = zero_dev\<rparr>,
     n_disc = \<lparr>dd_step = WLCC_FRAME_HEADER_FINISH_AFTER, dd_scnt = 0, dd_scnt2 = 0, dd_last_step = 0\<rparr>, n_devs = [], n_pending = [], n_msg_id = 6,
     n_queue = [], n_plaintext = replicate 1500 0, n_send_buffer = replicate 512 0, n_regs = ()\<rparr>"

definition election_env :: "unit wlcc_env" where
  "election_env = \<lparr>e_now = 0, e_heap = True, e_can_queue = False, e_parallel = True, e_plug = False, e_meter = False,
     e_slave = (\<lambda>d n cmd r. (0, [], 0, r)), e_max_len = (\<lambda>t a. 0), e_lookup = (\<lambda>r t ty sn a n. None),
     e_callback = (\<lambda>a. False), e_dev_of_addr = (\<lambda>a. (0, 0)), e_meter_get = (\<lambda>ty sn a f r n. (0, [])),
     e_len_14500 = 0, e_len_14700 = 0, e_plug_get = (\<lambda>ty sn a f r n. (0, []))\<rparr>"

definition example_boards :: "wlcc_self set" where "example_boards = {example_board 8, example_board 5}"

definition example_events :: "wlcc_self \<Rightarrow> board_event list" where
  "example_events b = [Network_Up 100, Frame False (example_finish (if self_sn b = 8 then 5 else 8)) 41 0x0A000002 5000 101] @
     replicate 31 (Checks 105)"

lemma example_board_simps [simp]: "self_sn (example_board sn) = sn" "link_board (example_board sn) \<longleftrightarrow> sn \<noteq> 0"
  "example_board sn = example_board sn' \<longleftrightarrow> sn = sn'"
  by (auto simp: example_board_def link_board_def wlcc_consts)

lemma example_finish_ok: "finish_frame ((example_board sn)\<lparr>is_master := WLCC_EMS_MODE_MASTER\<rparr>) (example_finish sn)"
proof -
  let ?c = "(example_board sn)\<lparr>is_master := WLCC_EMS_MODE_MASTER\<rparr>"
  have "length (wlcc_head ?c WLCC_FRAME_HEADER_FINISH (0 + 1) (take 6 (mesh_memory ?c) @ [0, 0]) 0xFFFF 0 DEV_PRIORITY_CMM_INV) = 39"
    by (rule length_wlcc_head) (simp add: example_board_def)
  then have "\<exists>len f mid. build_device_discovery_frame ?c 0 WLCC_FRAME_HEADER_FINISH (replicate 60 0) = Inr (len, f, mid)"
    by (simp add: build_device_discovery_frame_def Let_def)
  then show ?thesis by (force simp: finish_frame_def example_finish_def)
qed

lemma checks_run:
  assumes "now - d_last_online (m_info (n_master nd)) \<le> 60"
  shows "\<exists>nd'. board_run env (replicate n (Checks now)) nd (H, q) = Inr (nd', H, q + n)"
  using assms
proof (induction n arbitrary: nd q)
  case (Suc n)
  let ?nd = "wlcc_task_checks (env\<lparr>e_now := now\<rparr>) nd"
  have s: "\<not> starts_over (Checks now) nd" using Suc.prems by (simp add: not_less)
  then have "m_info (n_master ?nd) = m_info (n_master nd)" by (auto simp: task_checks_master Let_def)
  moreover have "history_step (Checks now) nd (H, q) = (H, q + 1)" using s by (simp add: history_step_def)
  ultimately show ?case using Suc.IH[of ?nd "q + 1"] Suc.prems by simp
qed simp

lemma finish_online:
  assumes "handle_discovery env WLCC_FRAME_HEADER_FINISH src nd = (nd', effs)"
  shows "d_last_online (m_info (n_master nd')) \<in> {d_last_online (m_info (n_master nd)), e_now env}"
proof -
  define x where "x = fst (node_update_device env src nd)"
  have "d_last_online (m_info (n_master x)) \<in> {d_last_online (m_info (n_master nd)), e_now env}"
    by (auto simp: x_def node_update_device_def wlcc_master_online_time_update_def split: prod.splits)
  moreover have "d_last_online (m_info (wlcc_master_pk self i now m)) \<in> {d_last_online (m_info m), now}" for self i now m
    by (simp add: wlcc_master_pk_def wlcc_master_update_def enter_dev_def Let_def)
  moreover have "nd' = x\<lparr>n_master := wlcc_master_pk (n_self x) src (e_now env) (n_master x)\<rparr>"
    using assms by (auto simp: handle_discovery_def x_def wlcc_consts split: prod.splits)
  ultimately show ?thesis by (metis insert_iff singletonD wlcc_node.select_convs(2) wlcc_node.surjective wlcc_node.update_convs(2))
qed

lemma example_run:
  assumes "sn \<in> {8, 5}"
  shows "\<exists>nd. board_run election_env (example_events (example_board sn)) (wlcc_init 99 (example_node (example_board sn))) ({}, 0) =
    Inr (nd, own_cand ` (example_boards - {example_board sn}), 31)"
proof -
  define b where "b = example_board sn"
  define other where "other = (if sn = 8 then 5 else 8 :: u64)"
  let ?c = "(example_board other)\<lparr>is_master := WLCC_EMS_MODE_MASTER\<rparr>" and ?f = "example_finish other"
  define nd where "nd = wlcc_task_network_up (election_env\<lparr>e_now := 100\<rparr>) (wlcc_init 99 (example_node b))"
  have nd: "n_self nd = b" "dd_step (n_disc nd) = WLCC_FRAME_HEADER_TRIGER" "m_info (n_master nd) = own_entry b 100"
    by (simp_all add: nd_def wlcc_task_network_up_def wlcc_init_def example_node_def set_step_def wlcc_master_triger_def election_env_def)
  have lb: "link_board ?c" "same_mesh (n_self nd) ?c"
    by (simp_all add: link_board_def same_mesh_def nd(1) b_def example_board_def other_def wlcc_consts)
  note met = finish_frame_met[OF example_finish_ok lb]
  have so: "\<not> starts_over (Frame False ?f 41 0x0A000002 5000 101) nd" unfolding met(2) nd(2) by (simp add: wlcc_consts)
  let ?env = "election_env\<lparr>e_now := 101\<rparr>" and ?src = "wlcc_source ?f 0x0A000002 5000"
  obtain nd2 effs where nd2: "handle_discovery ?env WLCC_FRAME_HEADER_FINISH ?src nd = (nd2, effs)" by fastforce
  have "handle_wlcc_frame ?env False ?f 41 0x0A000002 5000 nd = Inr (IOT_OK, nd2, effs)"
    using met(3)[of ?env, OF _ so] nd2 by (simp add: election_env_def)
  then have st: "board_step election_env (Frame False ?f 41 0x0A000002 5000 101) nd = Inr nd2" by simp
  have "d_last_online (m_info (n_master nd2)) \<in> {d_last_online (m_info (n_master nd)), 101}"
    using finish_online[OF nd2] by simp
  then have "105 - d_last_online (m_info (n_master nd2)) \<le> 60" by (auto simp: nd(3) own_entry_def)
  from checks_run[OF this, of election_env 31 "{own_cand ?c}" 0] obtain nd3 where
    run: "board_run election_env (replicate 31 (Checks 105)) nd2 ({own_cand ?c}, 0) = Inr (nd3, {own_cand ?c}, 31)" by auto
  have h1: "history_step (Network_Up 100) (wlcc_init 99 (example_node b)) ({}, 0) = ({}, 0)" by (simp add: history_step_def)
  have h2: "history_step (Frame False ?f 41 0x0A000002 5000 101) nd ({}, 0) = ({own_cand ?c}, 0)"
    unfolding history_step_def prod.case met(1) using so by simp
  have e: "example_events b = Network_Up 100 # Frame False ?f 41 0x0A000002 5000 101 # replicate 31 (Checks 105)"
    by (simp add: example_events_def b_def other_def)
  have "example_boards - {b} = {example_board other}" using assms by (auto simp: example_boards_def b_def other_def)
  then have "own_cand ` (example_boards - {b}) = {own_cand ?c}" by (simp add: own_cand_def)
  moreover have "board_run election_env (example_events b) (wlcc_init 99 (example_node b)) ({}, 0) = Inr (nd3, {own_cand ?c}, 31)"
    unfolding e board_run.simps board_step.simps(3) cbind_simps h1 nd_def[symmetric] st h2 run ..
  ultimately show ?thesis unfolding b_def[symmetric] by auto
qed

theorem wlcc_one_master_witness:
  "\<exists>nd. (\<forall>b\<in>example_boards. board_run election_env (example_events b) (wlcc_init 99 (example_node b)) ({}, 0) =
      Inr (nd b, own_cand ` (example_boards - {b}), 31)) \<and>
    (\<exists>a\<in>example_boards. own_cand a = Min (own_cand ` example_boards) \<and> (\<forall>b\<in>example_boards.
      m_is_master (n_master (nd b)) = (if b = a then WLCC_EMS_MODE_MASTER else WLCC_EMS_MODE_SLAVER) \<and>
      d_type (m_info (n_master (nd b))) = SN_TYPE_SELF a \<and> d_sn (m_info (n_master (nd b))) = self_sn a))"
proof -
  have "\<forall>b\<in>example_boards. \<exists>nd. board_run election_env (example_events b) (wlcc_init 99 (example_node b)) ({}, 0) =
      Inr (nd, own_cand ` (example_boards - {b}), 31)"
  proof
    fix b assume "b \<in> example_boards"
    then obtain sn where "b = example_board sn" "sn \<in> {8, 5}" by (auto simp: example_boards_def)
    then show "\<exists>nd. board_run election_env (example_events b) (wlcc_init 99 (example_node b)) ({}, 0) =
        Inr (nd, own_cand ` (example_boards - {b}), 31)" using example_run by simp
  qed
  then obtain nd where nd: "\<forall>b\<in>example_boards. board_run election_env (example_events b) (wlcc_init 99 (example_node b)) ({}, 0) =
      Inr (nd b, own_cand ` (example_boards - {b}), 31)" by metis
  have f: "finite example_boards" "example_boards \<noteq> {}" "inj_on self_sn example_boards" "\<forall>b\<in>example_boards. n_self (example_node b) = b"
    "\<forall>b\<in>example_boards. e_parallel election_env"
    by (auto simp: example_boards_def inj_on_def example_node_def election_env_def)
  show ?thesis
    by (rule exI[of _ nd], rule conjI[OF nd], rule wlcc_one_master[OF f nd]) simp
qed

end
