(* ===== verification/Wlcc_Link.thy ===== *)
theory Wlcc_Link
  imports Wlcc_Node Wlcc_Election
begin

text \<open>
  Two boards on the link: a request that one of them sends is served by the other one's \<open>Modbus_Slave\<close>,
  and the answer is matched to the request that waits for it.
\<close>

section \<open>Whole frames\<close>

definition framed :: "u8 list \<Rightarrow> u8 list \<Rightarrow> u8 list" where
  "framed head p = (let body = head @ le16 (of_nat (length p)) @ p in body @ le16 (CalcCrc16_modbus body (of_nat (length body))))"

lemma length_framed [simp]: "length (framed head p) = length head + length p + 4"
  by (simp add: framed_def Let_def)

lemma unat_u16: "n < 65536 \<Longrightarrow> unat (of_nat n :: u16) = n"
  by (simp add: unat_of_nat take_bit_nat_eq_self)

lemma unat_u8_of_u16:
  assumes "n < 256"
  shows "unat (ucast (of_nat n :: u16) :: u8) = n"
proof -
  have "unat (of_nat n :: u16) = n" using assms by (intro unat_u16) simp
  then show ?thesis using assms by (simp add: unsigned_ucast_eq take_bit_nat_eq_self)
qed

lemma uint_u8: "n < 256 \<Longrightarrow> uint (of_int (int n) :: u8) = int n"
proof -
  assume "n < 256"
  then have "unat (of_nat n :: u8) = n" by (simp add: unat_of_nat take_bit_nat_eq_self)
  then have "uint (of_nat n :: u8) = int n" by (simp only: uint_nat)
  then show ?thesis by simp
qed

lemma wlcc_finish_framed:
  assumes "unat inlen \<le> length b" "length head + unat inlen + 4 \<le> length out"
  shows "wlcc_finish head (Some b) inlen out =
    Inr (of_nat (length head + unat inlen + 4), framed head (take (unat inlen) b) @ drop (length head + unat inlen + 4) out)"
proof -
  have l: "of_nat (length (take (unat inlen) b)) = inlen" using assms(1) by (simp add: min_def)
  have "head @ le16 inlen @ take (unat inlen) b = head @ le16 (of_nat (length (take (unat inlen) b))) @ take (unat inlen) b"
    by (simp only: l)
  then show ?thesis using assms
    by (simp add: wlcc_finish_def framed_def Let_def min_def add.commute add.left_commute) (simp add: numeral_eq_Suc)
qed

lemma framed_tail:
  fixes head p rest
  assumes "length head + length p + 4 < 65536"
  defines "len \<equiv> of_nat (length head + length p + 4) :: u16"
  shows "unat len = length head + length p + 4" "unat (len - 2) = length head + length p + 2"
    "CalcCrc16_modbus (framed head p @ rest) (len - 2) =
       mk16 ((framed head p @ rest) ! (unat len - 1)) ((framed head p @ rest) ! (unat len - 2))"
proof -
  let ?body = "head @ le16 (of_nat (length p)) @ p"
  define c where "c = CalcCrc16_modbus ?body (of_nat (length ?body))"
  show u: "unat len = length head + length p + 4" unfolding len_def using assms(1) by (rule unat_u16)
  have m: "len - 2 = of_nat (length head + length p + 2)" unfolding len_def by simp
  show u2: "unat (len - 2) = length head + length p + 2" unfolding m using assms(1) by (intro unat_u16) simp
  have f: "framed head p = ?body @ le16 c" unfolding framed_def Let_def c_def ..
  have "CalcCrc16_modbus (framed head p @ rest) (len - 2) = CalcCrc16_modbus ?body (of_nat (length ?body))"
    unfolding f append_assoc[of ?body] by (subst CalcCrc16_modbus_prefix) (use u2 m in \<open>simp_all\<close>)
  moreover have "(framed head p @ rest) ! (unat len - 1) = hi8 c" "(framed head p @ rest) ! (unat len - 2) = lo8 c"
    unfolding f u by (simp_all add: nth_append le16_def)
  ultimately show "CalcCrc16_modbus (framed head p @ rest) (len - 2) =
      mk16 ((framed head p @ rest) ! (unat len - 1)) ((framed head p @ rest) ! (unat len - 2))"
    using c_def by simp
qed

text \<open>A Modbus message in a frame of the link, from a device of any priority; those of a board have \<open>DEV_PRIORITY_SELF\<close>.\<close>

definition prio_frame :: "u16 \<Rightarrow> wlcc_self \<Rightarrow> u16 \<Rightarrow> u64 \<Rightarrow> u16 \<Rightarrow> u8 \<Rightarrow> u8 list \<Rightarrow> u8 list" where
  "prio_frame prio self mid dev_sn dev_type frametype p =
     framed (wlcc_head self WLCC_FRAME_HEADER_COMMON mid (le64 dev_sn) dev_type frametype prio) p"

abbreviation link_frame :: "wlcc_self \<Rightarrow> u16 \<Rightarrow> u64 \<Rightarrow> u16 \<Rightarrow> u8 \<Rightarrow> u8 list \<Rightarrow> u8 list" where
  "link_frame \<equiv> prio_frame DEV_PRIORITY_SELF"

lemma length_link_frame [simp]: "length (prio_frame prio self mid sn dt ft p) = 43 + length p"
  by (simp add: prio_frame_def length_wlcc_head)

lemma get64_drop: "i \<le> length xs \<Longrightarrow> get64 (drop i xs) 0 = get64 xs i"
  by (simp add: get64_def get32_def ac_simps)

lemma prio_frame_fields:
  fixes prio self mid sn dt ft p rest
  defines "f \<equiv> prio_frame prio self mid sn dt ft p @ rest"
  shows "f ! 1 = WLCC_FRAME_VERSION_WIFI" "f ! 24 = ft" "f ! 30 = 2" "get64 f 14 = sn" "get16 f 22 = dt"
    "f ! 0 AND 0x7F = WLCC_FRAME_HEADER_COMMON"
    "wlcc_source f ip port = \<lparr>i_msg_id = mid, i_dev_type = SN_TYPE_SELF self, i_dev_sn = self_sn self,
       i_dev_priority = prio, i_port = port, i_ip = ip\<rparr>"
    "drop 41 f = p @ drop (41 + length p) f"
proof -
  let ?h = "wlcc_head self WLCC_FRAME_HEADER_COMMON mid (le64 sn) dt ft prio"
  obtain t where t: "f = ?h @ le16 (of_nat (length p)) @ p @ t" by (auto simp: f_def prio_frame_def framed_def Let_def)
  have l: "length (le64 sn) = 8" "length ?h = 39" by (simp_all add: length_wlcc_head)
  note h = wlcc_head_fields[OF l(1), of self WLCC_FRAME_HEADER_COMMON mid dt ft prio "le16 (of_nat (length p)) @ p @ t", folded t]
  show "f ! 1 = WLCC_FRAME_VERSION_WIFI" "f ! 24 = ft" "f ! 30 = 2" "get16 f 22 = dt" by (rule h)+
  have "drop 14 f = le64 sn @ drop 22 f" using h(5) append_take_drop_id[of 8 "drop 14 f"] by simp
  moreover have "get64 (drop 14 f) 0 = get64 f 14" by (rule get64_drop) (simp add: t l(2))
  ultimately show "get64 f 14 = sn" by (simp add: get64_append get64_le64)
  show "f ! 0 AND 0x7F = WLCC_FRAME_HEADER_COMMON" using h(10) by (auto simp: WLCC_FRAME_HEADER_COMMON_def)
  show "wlcc_source f ip port = \<lparr>i_msg_id = mid, i_dev_type = SN_TYPE_SELF self, i_dev_sn = self_sn self,
      i_dev_priority = prio, i_port = port, i_ip = ip\<rparr>"
    unfolding wlcc_source_def h ..
  show "drop 41 f = p @ drop (41 + length p) f" unfolding t using l(2) by simp
qed

definition link_len :: "u8 list \<Rightarrow> u16" where "link_len p = of_nat (43 + length p)"

lemma unat_link_len: "length p \<le> 60000 \<Longrightarrow> unat (link_len p) = 43 + length p"
  unfolding link_len_def by (rule unat_u16) simp

lemma uint_link_len: "length p \<le> 60000 \<Longrightarrow> uint (link_len p) = int (43 + length p)"
  by (simp only: uint_nat unat_link_len)

lemma prio_frame_checks:
  fixes prio self mid sn dt ft p rest
  assumes "2 \<le> length p" "length p \<le> 60000"
  defines "f \<equiv> prio_frame prio self mid sn dt ft p @ rest"
  shows "check_wlcc_frame_format f (link_len p) = Inr IOT_OK"
    "p ! 1 \<in> {0x03, 0x06, 0x10} \<Longrightarrow> ft \<in> {WLCC_FRAME_TYPE_READ, WLCC_FRAME_TYPE_WRITE, WLCC_FRAME_TYPE_READ_RTN, WLCC_FRAME_TYPE_WRITE_RTN,
       WLCC_FRAME_TYPE_PERIOD} \<Longrightarrow> check_modbus_frame_format f (link_len p) = Inr (uint ft)"
    "p ! 1 AND 0x80 \<noteq> 0 \<Longrightarrow> ft \<in> {WLCC_FRAME_TYPE_READ_RTN, WLCC_FRAME_TYPE_WRITE_RTN} \<Longrightarrow>
       check_modbus_frame_format f (link_len p) = Inr IOT_FAIL"
proof -
  let ?h = "wlcc_head self WLCC_FRAME_HEADER_COMMON mid (le64 sn) dt ft prio"
  have l: "length ?h + length p + 4 = 43 + length p" by (simp add: length_wlcc_head)
  then have "length ?h + length p + 4 < 65536" using assms(2) by simp
  note ft = framed_tail(1,2)[OF this, unfolded l, folded link_len_def] framed_tail(3)[OF this, of rest, unfolded l, folded link_len_def prio_frame_def f_def]
  have t: "unat (link_len p) = 43 + length p" "unat (link_len p - 2) = 41 + length p"
    "CalcCrc16_modbus f (link_len p - 2) = mk16 (f ! (unat (link_len p) - 1)) (f ! (unat (link_len p) - 2))"
    using ft by (simp_all add: length_wlcc_head)
  note fl = prio_frame_fields[of prio self mid sn dt ft p rest, folded f_def]
  have lf: "length f = 43 + length p + length rest" by (simp add: f_def)
  have g: "32 < link_len p" unfolding word_less_nat_alt t(1) by simp
  show "check_wlcc_frame_format f (link_len p) = Inr IOT_OK"
    unfolding check_wlcc_frame_format_def Let_def t(3) using g fl(1) lf by (simp add: t(1,2))
  have p1: "f ! 42 = p ! 1"
    using arg_cong[OF fl(8), of "\<lambda>x. x ! 1"] assms(1) lf by (simp add: nth_append)
  have "check_modbus_frame_format f (link_len p) = Inr IOT_FAIL"
    if "p ! 1 AND 0x80 \<noteq> 0" "ft AND 0xF \<in> {WLCC_FRAME_TYPE_READ_RTN, WLCC_FRAME_TYPE_WRITE_RTN}"
    unfolding check_modbus_frame_format_def Let_def t(3)
    using fl(1,2,3) lf that assms(1) by (simp add: t(1,2) not_less[symmetric] p1) blast
  moreover have "ft AND 0xF = ft" if "ft \<in> {WLCC_FRAME_TYPE_READ_RTN, WLCC_FRAME_TYPE_WRITE_RTN}" using that by (auto simp: wlcc_consts)
  ultimately show "p ! 1 AND 0x80 \<noteq> 0 \<Longrightarrow> ft \<in> {WLCC_FRAME_TYPE_READ_RTN, WLCC_FRAME_TYPE_WRITE_RTN} \<Longrightarrow>
      check_modbus_frame_format f (link_len p) = Inr IOT_FAIL" by metis
  assume c: "p ! 1 \<in> {0x03, 0x06, 0x10}"
    and ft: "ft \<in> {WLCC_FRAME_TYPE_READ, WLCC_FRAME_TYPE_WRITE, WLCC_FRAME_TYPE_READ_RTN, WLCC_FRAME_TYPE_WRITE_RTN, WLCC_FRAME_TYPE_PERIOD}"
  have "ft AND 0xF = ft" "ft \<le> 8" using ft by (auto simp: wlcc_consts)
  moreover have "p ! 1 AND 0x7F \<in> {0x03, 0x06, 0x10}" "p ! 1 AND 0x80 = 0" using c by auto
  ultimately show "check_modbus_frame_format f (link_len p) = Inr (uint ft)"
    unfolding check_modbus_frame_format_def Let_def t(3)
    using fl(1,2,3) lf ft assms(1) by (simp add: t(1,2) not_less[symmetric] p1) blast
qed

section \<open>A frame comes in\<close>

definition same_board :: "'r wlcc_node \<Rightarrow> 'r wlcc_node \<Rightarrow> bool" where
  "same_board nd nd' \<longleftrightarrow> n_self nd' = n_self nd \<and> n_regs nd' = n_regs nd \<and> n_queue nd' = n_queue nd \<and> n_pending nd' = n_pending nd \<and>
     n_send_buffer nd' = n_send_buffer nd \<and> m_is_master (n_master nd') = m_is_master (n_master nd)"

lemma node_update_same: "same_board nd (fst (node_update_device env src nd))"
  by (auto simp: same_board_def node_update_device_def split: prod.splits)

lemma node_update_notes: "\<exists>ns. snd (node_update_device env src nd) = map Device_Note ns"
  by (auto simp: node_update_device_def split: prod.splits)

definition prio_src :: "u16 \<Rightarrow> wlcc_self \<Rightarrow> u16 \<Rightarrow> u32 \<Rightarrow> u16 \<Rightarrow> wlcc_dev_info" where
  "prio_src prio self mid ip port = \<lparr>i_msg_id = mid, i_dev_type = SN_TYPE_SELF self, i_dev_sn = self_sn self,
     i_dev_priority = prio, i_port = port, i_ip = ip\<rparr>"

abbreviation src_of :: "wlcc_self \<Rightarrow> u16 \<Rightarrow> u32 \<Rightarrow> u16 \<Rightarrow> wlcc_dev_info" where
  "src_of \<equiv> prio_src DEV_PRIORITY_SELF"

text \<open>A frame is taken when its sender has priority 0 (plugs and meters) or it is addressed to the board.\<close>

lemma prio_frame_taken:
  fixes prio self mid ft sn dt p rest ip port and nd :: "'r wlcc_node"
  assumes "2 \<le> length p" "length p \<le> 60000" "prio = 0 \<or> dt = SN_TYPE_SELF (n_self nd) \<and> sn = self_sn (n_self nd)"
  defines "f \<equiv> prio_frame prio self mid sn dt ft p @ rest"
  shows "\<exists>nd2 ns. same_board nd nd2 \<and> handle_wlcc_frame env can_ok f (link_len p) ip port nd =
    cbind (handle_common_modbus_msg env can_ok f (link_len p) (prio_src prio self mid ip port) nd2)
      (\<lambda>(nd3, e2). Inr (IOT_OK, nd3, map Device_Note ns @ e2))"
proof -
  let ?me = "n_self nd" and ?src = "prio_src prio self mid ip port"
  note fl = prio_frame_fields[of prio self mid sn dt ft p rest, folded f_def]
  define nd1 where "nd1 = (if e_parallel env \<and> f ! 0 AND 0x80 \<noteq> 0 \<and> m_is_master (n_master nd) = WLCC_EMS_MODE_MASTER \<and>
      dd_step (n_disc nd) = WLCC_FRAME_HEADER_FINISH_AFTER
    then set_step WLCC_FRAME_HEADER_TRIGER (nd\<lparr>n_master := wlcc_master_need_update (n_self nd) (e_now env) (n_master nd)\<rparr>) else nd)"
  have s1: "same_board nd nd1" by (simp add: nd1_def same_board_def set_step_def wlcc_master_need_update_def)
  obtain ns where n: "snd (node_update_device env ?src nd1) = map Device_Note ns" using node_update_notes by blast
  have src: "wlcc_source f ip port = ?src" unfolding fl(7) prio_src_def ..
  have tgt: "wlcc_target f = (dt, sn)" unfolding wlcc_target_def fl(4,5) ..
  have own: "is_own_message ?me ?src dt sn" using assms(3) by (auto simp: is_own_message_def prio_src_def)
  have c: "check_wlcc_frame_format f (link_len p) = Inr IOT_OK" unfolding f_def by (rule prio_frame_checks(1)[OF assms(1,2)])
  have "handle_wlcc_frame env can_ok f (link_len p) ip port nd =
      (let (nd2, e1) = node_update_device env ?src nd1
       in cbind (handle_common_modbus_msg env can_ok f (link_len p) ?src nd2) (\<lambda>(nd3, e2). Inr (IOT_OK, nd3, e1 @ e2)))"
    unfolding handle_wlcc_frame_def c src tgt nd1_def by (simp add: own fl(6) Let_def)
  also have "\<dots> = cbind (handle_common_modbus_msg env can_ok f (link_len p) ?src (fst (node_update_device env ?src nd1)))
      (\<lambda>(nd3, e2). Inr (IOT_OK, nd3, map Device_Note ns @ e2))"
    unfolding n[symmetric] by (simp add: split_beta)
  moreover have "same_board nd (fst (node_update_device env ?src nd1))"
    using s1 node_update_same[of nd1 env ?src] by (simp add: same_board_def)
  ultimately show ?thesis by metis
qed

lemmas link_frame_taken = prio_frame_taken[where prio = DEV_PRIORITY_SELF, OF _ _ disjI2, OF _ _ conjI, OF _ _ refl refl]

lemma prio_frame_message:
  fixes prio self mid sn dt ft p rest
  assumes "2 \<le> length p" "length p \<le> 255" "p ! 1 \<in> {0x03, 0x06, 0x10}"
  defines "f \<equiv> prio_frame prio self mid sn dt ft p @ rest"
  shows "ft \<in> {WLCC_FRAME_TYPE_READ, WLCC_FRAME_TYPE_WRITE} \<Longrightarrow> p ! 0 < DEV_MODBUS_ADDR_START \<Longrightarrow>
      handle_common_modbus_msg env can_ok f (link_len p) src nd =
        wlcc_modbus_to_self_handle env can_ok (p @ drop (41 + length p) f) (int (length p)) src nd"
    "ft \<in> {WLCC_FRAME_TYPE_READ_RTN, WLCC_FRAME_TYPE_WRITE_RTN} \<Longrightarrow>
      handle_common_modbus_msg env can_ok f (link_len p) src nd =
        Inr (rsp_handle (p @ drop (41 + length p) f) (int (length p)) src nd)"
proof -
  have l: "length p \<le> 60000" using assms(2) by simp
  note c = prio_frame_checks(2)[OF assms(1) l assms(3), where prio = prio and self = self and mid = mid and sn = sn and dt = dt and ft = ft and rest = rest, folded f_def]
  note fl = prio_frame_fields[of prio self mid sn dt ft p rest, folded f_def]
  have u: "uint (link_len p) = int (43 + length p)" using l by (rule uint_link_len)
  have "uint (of_int (int (length p)) :: u8) = int (length p)" using assms(2) by (intro uint_u8) simp
  then have m: "uint (of_int (uint (link_len p) - (33 + int (unat (f ! 30)) * 4) - 2) :: u8) = int (length p)"
    unfolding u fl(3) by simp
  have d: "unat (of_int (33 + int (unat (f ! 30)) * 4) :: u8) = 41" unfolding fl(3) by simp
  have z: "(p @ drop (41 + length p) f) ! 0 = p ! 0" using assms(1) by (cases p) simp_all
  have n2: "2 \<le> length (p @ drop (41 + length p) f)" using assms(1) by simp
  show "handle_common_modbus_msg env can_ok f (link_len p) src nd =
      wlcc_modbus_to_self_handle env can_ok (p @ drop (41 + length p) f) (int (length p)) src nd"
    if "ft \<in> {WLCC_FRAME_TYPE_READ, WLCC_FRAME_TYPE_WRITE}" "p ! 0 < DEV_MODBUS_ADDR_START"
  proof -
    have "check_modbus_frame_format f (link_len p) = Inr (uint ft)" using that by (intro c) auto
    then show ?thesis using that z n2
      unfolding handle_common_modbus_msg_def Let_def d fl(8) m by (auto simp: wlcc_consts IOT_FAIL_def)
  qed
  show "handle_common_modbus_msg env can_ok f (link_len p) src nd =
      Inr (rsp_handle (p @ drop (41 + length p) f) (int (length p)) src nd)"
    if "ft \<in> {WLCC_FRAME_TYPE_READ_RTN, WLCC_FRAME_TYPE_WRITE_RTN}"
  proof -
    have "check_modbus_frame_format f (link_len p) = Inr (uint ft)" using that by (intro c) auto
    then show ?thesis using that n2
      unfolding handle_common_modbus_msg_def Let_def d fl(8) m by (auto simp: wlcc_consts IOT_FAIL_def)
  qed
qed

section \<open>A request and its answer\<close>

definition request_ok :: "u8 list \<Rightarrow> bool" where
  "request_ok req \<longleftrightarrow> 2 \<le> length req \<and> length req \<le> 212 \<and> req ! 0 < DEV_MODBUS_ADDR_START \<and> req ! 1 \<in> {0x03, 0x06, 0x10}"

definition request_frame :: "wlcc_self \<Rightarrow> u16 \<Rightarrow> u64 \<Rightarrow> u16 \<Rightarrow> u8 list \<Rightarrow> u8 list" where
  "request_frame self mid sn ty req =
     link_frame self mid sn ty (if req ! 1 = 0x03 then WLCC_FRAME_TYPE_READ else WLCC_FRAME_TYPE_WRITE) req"

definition waiting :: "u16 \<Rightarrow> u16 \<Rightarrow> u64 \<Rightarrow> modbus_addr_info \<Rightarrow> wlcc_msg_pending" where
  "waiting mid ty sn addr = \<lparr>p_msg_id = mid, p_devTpye = ty, p_devSn = sn, p_timeout = WLCC_PENDING_TIMEOUT_MAX, p_src_addr = addr\<rparr>"

lemma request_sent:
  assumes "request_ok req" "e_heap env" "length (n_queue nd) < 10" "255 \<le> length (n_plaintext nd)"
    "List.find (\<lambda>d. ty = d_type d \<and> sn = d_sn d) (n_devs nd) = Some d"
  shows "\<exists>out. wlcc_modbus_msg_send env req (of_nat (length req)) ty sn addr nd = Inr (nd\<lparr>n_plaintext := out, n_msg_id := n_msg_id nd + 1,
    n_queue := n_queue nd @ [\<lparr>q_data = request_frame (node_self nd) (n_msg_id nd + 1) sn ty req,
      q_len = int (43 + length req), q_dst_ip = Some (d_ip d), q_dst_port = d_port d\<rparr>],
    n_pending := snd (wlcc_msg_pending_add (waiting (n_msg_id nd + 1) ty sn addr) (n_pending nd))\<rparr>)"
proof -
  let ?mid = "n_msg_id nd + 1" and ?n = "length req"
  let ?f = "request_frame (node_self nd) ?mid sn ty req"
  define ft where "ft = (if req ! 1 = 0x03 then WLCC_FRAME_TYPE_READ else WLCC_FRAME_TYPE_WRITE)"
  let ?h = "wlcc_head (node_self nd) WLCC_FRAME_HEADER_COMMON ?mid (le64 sn) ty ft DEV_PRIORITY_SELF"
  have r: "2 \<le> ?n" "?n \<le> 212" "req ! 1 \<in> {0x03, 0x06, 0x10}" using assms(1) by (simp_all add: request_ok_def)
  have u: "unat (of_nat ?n :: u16) = ?n" using r(2) by (intro unat_u16) simp
  have "wlcc_finish ?h (Some req) (of_nat ?n) (n_plaintext nd) =
      Inr (of_nat (length ?h + ?n + 4), framed ?h (take ?n req) @ drop (length ?h + ?n + 4) (n_plaintext nd))"
    using wlcc_finish_framed[of "of_nat ?n" req ?h "n_plaintext nd"] u r(2) assms(4) by (simp add: length_wlcc_head)
  then have b: "wlcc_build_data_send_frame (node_self nd) (n_msg_id nd) ft ty sn (Some req) (of_nat ?n) (n_plaintext nd) =
      Inr (of_nat (43 + ?n), ?f @ drop (43 + ?n) (n_plaintext nd), ?mid)"
    by (simp add: wlcc_build_data_send_frame_def request_frame_def prio_frame_def ft_def length_wlcc_head)
  define tx where "tx = (ucast (of_nat (43 + ?n) :: u16) :: u8)"
  have tx: "unat tx = 43 + ?n"
    unfolding tx_def using r(2) by (intro unat_u8_of_u16) simp
  have tx16: "unat (ucast tx :: u16) = 43 + ?n" "uint (ucast tx :: u16) = int (43 + ?n)"
    using tx r(2) by (simp_all add: unsigned_ucast_eq take_bit_nat_eq_self uint_nat del: of_nat_unat)
  have tx0: "tx \<noteq> 0" using tx by auto
  have q: "wlcc_msg_send_to_queue (e_heap env) (?f @ drop (43 + ?n) (n_plaintext nd)) (ucast tx) (Some (d_ip d)) (d_port d) (n_queue nd) =
      Inr (0, n_queue nd @ [\<lparr>q_data = ?f, q_len = int (43 + ?n), q_dst_ip = Some (d_ip d), q_dst_port = d_port d\<rparr>])"
    unfolding wlcc_msg_send_to_queue_def tx16 using assms(2,3) by (simp add: request_frame_def)
  have c: "\<not> (req ! 1 \<noteq> 0x03 \<and> req ! 1 \<noteq> 0x06 \<and> req ! 1 \<noteq> 0x10)" "2 \<le> length req" using r by auto
  have "wlcc_modbus_msg_send env req (of_nat ?n) ty sn addr nd =
      Inr (nd\<lparr>n_plaintext := ?f @ drop (43 + ?n) (n_plaintext nd), n_msg_id := ?mid,
        n_queue := n_queue nd @ [\<lparr>q_data = ?f, q_len = int (43 + ?n), q_dst_ip = Some (d_ip d), q_dst_port = d_port d\<rparr>],
        n_pending := snd (wlcc_msg_pending_add (waiting ?mid ty sn addr) (n_pending nd))\<rparr>)"
    unfolding wlcc_modbus_msg_send_def Let_def ft_def[symmetric] b assms(5) if_not_P[OF c(1)]
    by (simp add: c(2) tx0[unfolded tx_def] q[unfolded tx_def] waiting_def del: of_nat_add)
  then show ?thesis by blast
qed

definition reply_frame :: "wlcc_self \<Rightarrow> u16 \<Rightarrow> wlcc_self \<Rightarrow> u8 list \<Rightarrow> u8 list \<Rightarrow> u8 list" where
  "reply_frame self mid asker req rsp =
     link_frame self mid (self_sn asker) (SN_TYPE_SELF asker) (reply_type (req ! 1)) rsp"

lemma node_self_same: "same_board nd nd' \<Longrightarrow> node_self nd' = node_self nd"
  by (simp add: same_board_def node_self_def)

text \<open>What \<open>Modbus_Slave\<close> makes of a request: it reads no byte behind it, and its response is no exception.\<close>

definition slave_answers :: "'r wlcc_env \<Rightarrow> 'r \<Rightarrow> u8 list \<Rightarrow> u8 list \<Rightarrow> 'r \<Rightarrow> bool" where
  "slave_answers env regs req rsp regs' \<longleftrightarrow> 2 \<le> length rsp \<and> length rsp \<le> 255 \<and> rsp ! 1 = req ! 1 \<and>
     (\<forall>tail cmd. \<exists>junk num. e_slave env (req @ tail) (int (length req)) cmd regs = (int (length rsp), rsp @ junk, num, regs'))"

lemma request_taken:
  assumes "request_ok req" "e_heap env" "length (n_queue nd) < 10" "298 \<le> length (n_send_buffer nd)"
    "slave_answers env (n_regs nd) req rsp regs'"
  shows "\<exists>nd' effs. handle_wlcc_frame env can_ok (request_frame self mid (self_sn (n_self nd)) (SN_TYPE_SELF (n_self nd)) req @ rest)
      (link_len req) ip port nd = Inr (IOT_OK, nd', effs) \<and> n_regs nd' = regs' \<and> n_pending nd' = n_pending nd \<and>
    n_queue nd' = n_queue nd @ [\<lparr>q_data = reply_frame (node_self nd) mid self req rsp, q_len = int (43 + length rsp),
      q_dst_ip = None, q_dst_port = 0\<rparr>]"
proof -
  define ft where "ft = (if req ! 1 = 0x03 then WLCC_FRAME_TYPE_READ else WLCC_FRAME_TYPE_WRITE)"
  let ?f = "request_frame self mid (self_sn (n_self nd)) (SN_TYPE_SELF (n_self nd)) req @ rest"
  let ?src = "src_of self mid ip port" and ?r = "length rsp"
  have f: "?f = link_frame self mid (self_sn (n_self nd)) (SN_TYPE_SELF (n_self nd)) ft req @ rest"
    by (simp add: request_frame_def ft_def)
  have req: "2 \<le> length req" "length req \<le> 60000" "length req \<le> 255" "req ! 1 \<in> {0x03, 0x06, 0x10}" "req ! 0 < DEV_MODBUS_ADDR_START"
    using assms(1) by (simp_all add: request_ok_def)
  have rsp: "2 \<le> ?r" "?r \<le> 255" using assms(5) by (simp_all add: slave_answers_def)
  have ne: "rsp \<noteq> []" using rsp(1) by auto
  obtain nd2 ns where nd2: "same_board nd nd2" "handle_wlcc_frame env can_ok ?f (link_len req) ip port nd =
      cbind (handle_common_modbus_msg env can_ok ?f (link_len req) ?src nd2) (\<lambda>(nd3, e2). Inr (IOT_OK, nd3, map Device_Note ns @ e2))"
    using link_frame_taken[OF req(1,2), of nd env can_ok self mid ft rest ip port] unfolding f by blast
  let ?data = "req @ drop (41 + length req) ?f"
  have "ft \<in> {WLCC_FRAME_TYPE_READ, WLCC_FRAME_TYPE_WRITE}" by (simp add: ft_def)
  from prio_frame_message(1)[OF req(1,3,4) this req(5), of env can_ok DEV_PRIORITY_SELF self mid "self_sn (n_self nd)" "SN_TYPE_SELF (n_self nd)" rest ?src nd2]
  have h: "handle_common_modbus_msg env can_ok ?f (link_len req) ?src nd2 =
      wlcc_modbus_to_self_handle env can_ok ?data (int (length req)) ?src nd2" unfolding f .
  have fc: "?data ! 1 = req ! 1" "2 \<le> length ?data" using req(1) by (simp_all add: nth_append)
  define cmd where "cmd = ((req ! 1 = 0x06 \<or> req ! 1 = 0x10) \<and> e_can_queue env \<and> e_heap env)"
  have sb: "n_regs nd2 = n_regs nd" "n_queue nd2 = n_queue nd" "n_send_buffer nd2 = n_send_buffer nd" "n_pending nd2 = n_pending nd"
    using nd2(1) by (simp_all add: same_board_def)
  obtain junk num where sl: "e_slave env ?data (int (length req)) cmd (n_regs nd2) = (int ?r, rsp @ junk, num, regs')"
    using assms(5) unfolding slave_answers_def sb by blast
  have u: "unat (of_nat ?r :: u16) = ?r" using rsp(2) by (intro unat_u16) simp
  have si: "sint (of_int (int ?r) :: u16) = int ?r" unfolding sint_sbintrunc' using rsp(2) by (intro signed_take_bit_int_eq_self) simp_all
  let ?h = "wlcc_head (node_self nd) WLCC_FRAME_HEADER_COMMON mid (le64 (self_sn self)) (SN_TYPE_SELF self) (reply_type (req ! 1)) DEV_PRIORITY_SELF"
  let ?g = "reply_frame (node_self nd) mid self req rsp" and ?out = "drop (43 + ?r) (n_send_buffer nd)"
  have "wlcc_finish ?h (Some (rsp @ junk)) (of_nat ?r) (n_send_buffer nd) =
      Inr (of_nat (length ?h + ?r + 4), framed ?h (take ?r (rsp @ junk)) @ drop (length ?h + ?r + 4) (n_send_buffer nd))"
    using wlcc_finish_framed[of "of_nat ?r" "rsp @ junk" ?h "n_send_buffer nd"] u rsp(2) assms(4) by (simp add: length_wlcc_head)
  then have b: "wlcc_build_response_frame (node_self nd2) (i_msg_id ?src) (reply_type (req ! 1)) (i_dev_type ?src) (i_dev_sn ?src)
      (Some (rsp @ junk)) (of_int (int ?r)) (n_send_buffer nd) = Inr (of_nat (43 + ?r), ?g @ ?out)"
    by (simp add: wlcc_build_response_frame_def reply_frame_def prio_frame_def prio_src_def length_wlcc_head node_self_same[OF nd2(1)])
  have "unat (of_nat (43 + ?r) :: u16) = 43 + ?r" using rsp(2) by (intro unat_u16) simp
  then have q: "wlcc_msg_send_to_queue (e_heap env) (?g @ ?out) (of_nat (43 + ?r)) None 0 (n_queue nd) =
      Inr (0, n_queue nd @ [\<lparr>q_data = ?g, q_len = int (43 + ?r), q_dst_ip = None, q_dst_port = 0\<rparr>])"
    unfolding wlcc_msg_send_to_queue_def using assms(2,3) by (simp add: reply_frame_def uint_nat del: of_nat_add of_nat_unat)
  have "wlcc_modbus_to_self_handle env can_ok ?data (int (length req)) ?src nd2 =
      Inr (nd2\<lparr>n_regs := regs', n_send_buffer := ?g @ ?out,
          n_queue := n_queue nd @ [\<lparr>q_data = ?g, q_len = int (43 + ?r), q_dst_ip = None, q_dst_port = 0\<rparr>]\<rparr>,
        if cmd \<and> num \<noteq> 0 \<and> can_ok then [Can_Command (?data ! 0) num] else [])"
    unfolding wlcc_modbus_to_self_handle_def Let_def fc(1) cmd_def[symmetric] sl
    using fc(2) ne by (simp add: si[simplified] b[simplified] q[simplified] sb)
  then show ?thesis unfolding nd2(2) h by (auto simp: sb)
qed

text \<open>What becomes of the response: the data of a read go to the handler of the device type.\<close>

definition response_data :: "wlcc_self \<Rightarrow> modbus_addr_info \<Rightarrow> u8 list \<Rightarrow> u8 list \<Rightarrow> wlcc_effect list" where
  "response_data self addr req rsp =
     (if req ! 1 = 0x03 \<and> SN_TYPE_SELF self \<in> {SN_TYPE_S1, SN_TYPE_METER, SN_TYPE_AC2AC, SN_TYPE_COMMON_INVERTER_WIRELESS}
      then [Data_Rsp (SN_TYPE_SELF self) (self_sn self) (a_regAddr addr) (a_regNum addr) rsp] else [])"

lemma answer_taken:
  assumes "waits m k (n_pending nd)" "p_msg_id m = mid" "mid \<noteq> 0" "p_devTpye m = SN_TYPE_SELF self" "p_devSn m = self_sn self"
    "a_channel (p_src_addr m) = MD_CHL_SELF \<or> a_channel (p_src_addr m) = MD_CHL_WIFI_WLCC"
    "2 \<le> length rsp" "length rsp \<le> 255" "rsp ! 1 = req ! 1" "req ! 1 \<in> {0x03, 0x06, 0x10}"
  shows "\<exists>nd' ns. handle_wlcc_frame env can_ok (reply_frame self mid (n_self nd) req rsp @ rest) (link_len rsp) ip port nd =
      Inr (IOT_OK, nd', map Device_Note ns @
        response_data self (p_src_addr m) req rsp) \<and>
    unknown mid (n_pending nd')"
proof -
  let ?f = "reply_frame self mid (n_self nd) req rsp @ rest" and ?src = "src_of self mid ip port" and ?ft = "reply_type (req ! 1)"
  have f: "?f = link_frame self mid (self_sn (n_self nd)) (SN_TYPE_SELF (n_self nd)) ?ft rsp @ rest" by (simp add: reply_frame_def)
  have r: "length rsp \<le> 60000" "rsp ! 1 \<in> {0x03, 0x06, 0x10}" using assms(8-10) by simp_all
  obtain nd2 ns where nd2: "same_board nd nd2" "handle_wlcc_frame env can_ok ?f (link_len rsp) ip port nd =
      cbind (handle_common_modbus_msg env can_ok ?f (link_len rsp) ?src nd2) (\<lambda>(nd3, e2). Inr (IOT_OK, nd3, map Device_Note ns @ e2))"
    using link_frame_taken[OF assms(7) r(1), of nd env can_ok self mid ?ft rest ip port] unfolding f by blast
  have ft: "?ft \<in> {WLCC_FRAME_TYPE_READ_RTN, WLCC_FRAME_TYPE_WRITE_RTN}" using assms(10) by (auto simp: reply_type_def)
  let ?data = "rsp @ drop (41 + length rsp) ?f"
  have h: "handle_common_modbus_msg env can_ok ?f (link_len rsp) ?src nd2 = Inr (rsp_handle ?data (int (length rsp)) ?src nd2)"
    using prio_frame_message(2)[OF assms(7,8) r(2) ft, of env can_ok DEV_PRIORITY_SELF self mid "self_sn (n_self nd)" "SN_TYPE_SELF (n_self nd)" rest ?src nd2]
    unfolding f .
  have "waits m k (n_pending nd2)" "p_msg_id m \<noteq> 0" using assms(1-3) nd2(1) by (simp_all add: same_board_def)
  from waits_answered[OF this, of ?src] obtain tab where
    t: "wlcc_modbus_msg_rsp_handle ?src (n_pending nd2) = (0, Some (p_src_addr m), tab)" "unknown mid tab"
    using assms(2,4-6) by (auto simp: prio_src_def)
  have d: "?data ! 1 = req ! 1" "take (nat (int (length rsp))) ?data = rsp" using assms(7,9) by (simp_all add: nth_append)
  have "wlcc_modbus_rsp_to_self_handle ?data (int (length rsp)) ?src (p_src_addr m) =
      response_data self (p_src_addr m) req rsp"
    unfolding wlcc_modbus_rsp_to_self_handle_def d response_data_def using assms(10) by (auto simp: prio_src_def)
  then have "rsp_handle ?data (int (length rsp)) ?src nd2 = (nd2\<lparr>n_pending := tab\<rparr>,
      response_data self (p_src_addr m) req rsp)"
    unfolding rsp_handle_def t by simp
  then show ?thesis unfolding nd2(2) h using t(2) by auto
qed

lemma node_self_fields [simp]: "self_sn (node_self nd) = self_sn (n_self nd)" "SN_TYPE_SELF (node_self nd) = SN_TYPE_SELF (n_self nd)"
  by (simp_all add: node_self_def)

lemma response_data_node [simp]: "response_data (node_self nd) addr req rsp = response_data (n_self nd) addr req rsp"
  by (simp add: response_data_def)

lemma reply_frame_asker: "reply_frame self mid (node_self nd) req rsp = reply_frame self mid (n_self nd) req rsp"
  by (simp add: reply_frame_def)

text \<open>C2: A request is served across the link and its answer comes back to whoever waits for it.  Board
  \<open>a\<close> sends a Modbus request of at most 212 bytes to board \<open>b\<close>, which it has in its table.  The message in
  its queue, handed to \<open>b\<close> with anything behind it in the receive buffer, makes \<open>b\<close> run \<open>Modbus_Slave\<close> on
  exactly this request and queue one answer.  Whatever \<open>a\<close> does meanwhile with other messages, for up to 30
  ticks of its timeout, the answer is then taken as that of this request: the response data of a read
  reach their handler with the registers asked for, and the request is no longer waiting, so that a second
  copy of the answer is ignored.\<close>

theorem wlcc_request_served:
  fixes a :: "'r wlcc_node" and b :: "'s wlcc_node"
  assumes "request_ok req" "slave_answers eb (n_regs b) req rsp regs'"
    "e_heap ea" "length (n_queue a) < 10" "255 \<le> length (n_plaintext a)"
    "List.find (\<lambda>d. SN_TYPE_SELF (n_self b) = d_type d \<and> self_sn (n_self b) = d_sn d) (n_devs a) = Some d"
    "\<exists>e\<in>set (n_pending a). p_msg_id e = 0 \<and> p_timeout e = 0" "unknown (n_msg_id a + 1) (n_pending a)" "n_msg_id a + 1 \<noteq> 0"
    "a_channel addr = MD_CHL_SELF \<or> a_channel addr = MD_CHL_WIFI_WLCC"
    "e_heap eb" "length (n_queue b) < 10" "298 \<le> length (n_send_buffer b)"
  shows "\<exists>a1 ask. wlcc_modbus_msg_send ea req (of_nat (length req)) (SN_TYPE_SELF (n_self b)) (self_sn (n_self b)) addr a = Inr a1 \<and>
    n_queue a1 = n_queue a @ [ask] \<and> q_dst_ip ask = Some (d_ip d) \<and> q_dst_port ask = d_port d \<and>
    (\<forall>can_ok rest ip port. \<exists>b1 effs ans.
      handle_wlcc_frame eb can_ok (q_data ask @ rest) (of_int (q_len ask)) ip port b = Inr (IOT_OK, b1, effs) \<and>
      n_regs b1 = regs' \<and> n_queue b1 = n_queue b @ [ans] \<and> q_dst_ip ans = None \<and>
      (\<forall>(a2 :: 'r wlcc_node) evs ea2 can2 rest2 ip2 port2. n_self a2 = n_self a \<and> n_pending a2 = fold wait_step evs (n_pending a1) \<and> ticks evs \<le> 30 \<and>
          (\<forall>ev\<in>set evs. event_id ev \<noteq> Some (n_msg_id a + 1)) \<longrightarrow>
        (\<exists>a3 ns. handle_wlcc_frame ea2 can2 (q_data ans @ rest2) (of_int (q_len ans)) ip2 port2 a2 = Inr (IOT_OK, a3, map Device_Note ns @
            response_data (n_self b) addr req rsp) \<and>
          unknown (n_msg_id a + 1) (n_pending a3))))"
proof -
  let ?mid = "n_msg_id a + 1" and ?ty = "SN_TYPE_SELF (n_self b)" and ?sn = "self_sn (n_self b)"
  let ?m = "waiting ?mid ?ty ?sn addr"
  let ?ask = "\<lparr>q_data = request_frame (node_self a) ?mid ?sn ?ty req, q_len = int (43 + length req),
    q_dst_ip = Some (d_ip d), q_dst_port = d_port d\<rparr>"
  let ?ans = "\<lparr>q_data = reply_frame (node_self b) ?mid (node_self a) req rsp, q_len = int (43 + length rsp), q_dst_ip = None, q_dst_port = 0\<rparr>"
  obtain a1 where a1: "wlcc_modbus_msg_send ea req (of_nat (length req)) ?ty ?sn addr a = Inr a1"
      "n_queue a1 = n_queue a @ [?ask]" "n_pending a1 = snd (wlcc_msg_pending_add ?m (n_pending a))"
    using request_sent[OF assms(1,3-6), of addr] by force
  have w: "waits ?m 0 (n_pending a1)"
    unfolding a1(3) using assms(7,8) by (intro wlcc_msg_pending_add_waits) (simp_all add: waiting_def)
  have mf: "p_msg_id ?m = ?mid" "p_devTpye ?m = ?ty" "p_devSn ?m = ?sn" "p_src_addr ?m = addr" by (simp_all add: waiting_def)
  have r: "2 \<le> length rsp" "length rsp \<le> 255" "rsp ! 1 = req ! 1" "req ! 1 \<in> {0x03, 0x06, 0x10}"
    using assms(1,2) by (simp_all add: slave_answers_def request_ok_def)
  have len: "of_int (int (43 + length x)) = link_len x" for x by (simp add: link_len_def)
  have answer: "\<exists>a3 ns. handle_wlcc_frame ea2 can2 (q_data ?ans @ rest2) (of_int (q_len ?ans)) ip2 port2 a2 = Inr (IOT_OK, a3, map Device_Note ns @
        response_data (n_self b) addr req rsp) \<and> unknown ?mid (n_pending a3)"
    if e: "n_self a2 = n_self a" "n_pending a2 = fold wait_step evs (n_pending a1)" "ticks evs \<le> 30" "\<forall>ev\<in>set evs. event_id ev \<noteq> Some ?mid"
    for a2 :: "'r wlcc_node" and evs and ea2 :: "'r wlcc_env" and can2 rest2 ip2 port2
  proof -
    have "waits ?m (0 + ticks evs) (n_pending a2)"
      unfolding e(2) using w e(3,4) assms(9) by (intro waits_run) (simp_all add: mf)
    from answer_taken[OF this mf(1) assms(9), of "node_self b" rsp req ea2 can2 rest2 ip2 port2] show ?thesis
      using mf r assms(10) e(1) by (simp add: len[simplified] reply_frame_asker)
  qed
  show ?thesis
  proof (rule exI[of _ a1], rule exI[of _ ?ask], intro conjI allI)
    fix can_ok rest ip port
    from request_taken[OF assms(1,11,12,13,2), of can_ok "node_self a" ?mid rest ip port]
    obtain b1 effs where b1: "handle_wlcc_frame eb can_ok (q_data ?ask @ rest) (of_int (q_len ?ask)) ip port b = Inr (IOT_OK, b1, effs)"
      "n_regs b1 = regs'" "n_queue b1 = n_queue b @ [?ans]" by (auto simp: len[simplified])
    show "\<exists>b1 effs ans.
      handle_wlcc_frame eb can_ok (q_data ?ask @ rest) (of_int (q_len ?ask)) ip port b = Inr (IOT_OK, b1, effs) \<and>
      n_regs b1 = regs' \<and> n_queue b1 = n_queue b @ [ans] \<and> q_dst_ip ans = None \<and>
      (\<forall>(a2 :: 'r wlcc_node) evs ea2 can2 rest2 ip2 port2. n_self a2 = n_self a \<and> n_pending a2 = fold wait_step evs (n_pending a1) \<and> ticks evs \<le> 30 \<and>
          (\<forall>ev\<in>set evs. event_id ev \<noteq> Some ?mid) \<longrightarrow>
        (\<exists>a3 ns. handle_wlcc_frame ea2 can2 (q_data ans @ rest2) (of_int (q_len ans)) ip2 port2 a2 = Inr (IOT_OK, a3, map Device_Note ns @
            response_data (n_self b) addr req rsp) \<and>
          unknown ?mid (n_pending a3)))"
      by (rule exI[of _ b1], rule exI[of _ effs], rule exI[of _ ?ans], intro conjI allI impI)
        ((rule b1 | (elim conjE, rule answer, assumption, assumption, assumption, assumption) | simp)+)
  qed (use a1 in simp_all)
qed

text \<open>Two inverters of one type; the asking one knows the other and asks for one register.\<close>

definition example_asker :: "unit wlcc_node" where
  "example_asker = \<lparr>n_self = example_board 8, n_master = \<lparr>m_is_master = 0, m_is_new_master = 0, m_last_parallel = 0, m_info = zero_dev\<rparr>,
     n_disc = \<lparr>dd_step = 0, dd_scnt = 0, dd_scnt2 = 0, dd_last_step = 0\<rparr>,
     n_devs = [zero_dev\<lparr>d_type := SN_TYPE_COMMON_INVERTER_WIRELESS, d_sn := 5, d_ip := 0x0A000002, d_port := 5000\<rparr>],
     n_pending = replicate WLCC_MSG_PENDING_MAX zero_pending, n_msg_id = 6, n_queue = [],
     n_plaintext = replicate 1500 0, n_send_buffer = replicate 512 0, n_regs = ()\<rparr>"

definition example_server :: "unit wlcc_node" where
  "example_server = example_asker\<lparr>n_self := example_board 5, n_devs := []\<rparr>"

definition example_rsp :: "u8 list" where "example_rsp = [1, 3, 2, 0, 9, 0x79, 0x82]"

definition example_env :: "unit wlcc_env" where
  "example_env = \<lparr>e_now = 100, e_heap = True, e_can_queue = False, e_parallel = False, e_plug = False, e_meter = False,
     e_slave = (\<lambda>d n cmd r. (7, example_rsp @ replicate 249 0, 0, r)), e_max_len = (\<lambda>t a. 0), e_lookup = (\<lambda>r t ty sn a n. None),
     e_callback = (\<lambda>a. False), e_dev_of_addr = (\<lambda>a. (0, 0)), e_meter_get = (\<lambda>ty sn a f r n. (0, [])),
     e_len_14500 = 0, e_len_14700 = 0, e_plug_get = (\<lambda>ty sn a f r n. (0, []))\<rparr>"

definition example_req :: "u8 list" where "example_req = [1, 3, 0, 100, 0, 1, 0xC5, 0xD5]"

theorem wlcc_request_served_witness:
  "\<exists>a1 ask. wlcc_modbus_msg_send example_env example_req 8 SN_TYPE_COMMON_INVERTER_WIRELESS 5 (zero_addr\<lparr>a_channel := MD_CHL_SELF\<rparr>) example_asker = Inr a1 \<and>
    n_queue a1 = [ask] \<and> q_dst_ip ask = Some 0x0A000002 \<and>
    (\<exists>b1 effs. handle_wlcc_frame example_env False (q_data ask @ replicate 9 0) (of_int (q_len ask)) 0x0A000008 5000 example_server =
      Inr (IOT_OK, b1, effs))"
proof -
  have r: "request_ok example_req" by (simp add: request_ok_def example_req_def DEV_MODBUS_ADDR_START_def)
  have sl: "slave_answers example_env (n_regs example_server) example_req example_rsp ()"
    by (simp add: slave_answers_def example_env_def example_req_def example_rsp_def)
  have f: "List.find (\<lambda>d. SN_TYPE_SELF (n_self example_server) = d_type d \<and> self_sn (n_self example_server) = d_sn d) (n_devs example_asker) =
      Some (zero_dev\<lparr>d_type := SN_TYPE_COMMON_INVERTER_WIRELESS, d_sn := 5, d_ip := 0x0A000002, d_port := 5000\<rparr>)"
    by (simp add: example_server_def example_asker_def example_board_def)
  have fr: "\<exists>e\<in>set (n_pending example_asker). p_msg_id e = 0 \<and> p_timeout e = 0" "unknown (n_msg_id example_asker + 1) (n_pending example_asker)"
    by (simp_all add: example_asker_def unknown_def WLCC_MSG_PENDING_MAX_def zero_pending_def)
  have ch: "a_channel (zero_addr\<lparr>a_channel := MD_CHL_SELF\<rparr>) = MD_CHL_SELF \<or> a_channel (zero_addr\<lparr>a_channel := MD_CHL_SELF\<rparr>) = MD_CHL_WIFI_WLCC"
    by simp
  have st: "e_heap example_env" "length (n_queue example_asker) < 10" "255 \<le> length (n_plaintext example_asker)"
      "n_msg_id example_asker + 1 \<noteq> 0" "length (n_queue example_server) < 10" "298 \<le> length (n_send_buffer example_server)"
      "length example_req = 8" "n_queue example_asker = []"
      "SN_TYPE_SELF (n_self example_server) = SN_TYPE_COMMON_INVERTER_WIRELESS" "self_sn (n_self example_server) = 5"
    by (simp_all add: example_env_def example_asker_def example_server_def example_req_def example_board_def)
  from wlcc_request_served[OF r sl st(1-3) f fr st(4) ch st(1,5,6)] obtain a1 ask where
    "wlcc_modbus_msg_send example_env example_req 8 SN_TYPE_COMMON_INVERTER_WIRELESS 5 (zero_addr\<lparr>a_channel := MD_CHL_SELF\<rparr>) example_asker = Inr a1"
    "n_queue a1 = [ask]" "q_dst_ip ask = Some 0x0A000002"
    "\<exists>b1 effs. handle_wlcc_frame example_env False (q_data ask @ replicate 9 0) (of_int (q_len ask)) 0x0A000008 5000 example_server =
      Inr (IOT_OK, b1, effs)"
    unfolding st(7,9,10) of_nat_numeral st(8) by simp blast
  then show ?thesis by blast
qed

text \<open>C20: An exception is lost on the way back.  When \<open>Modbus_Slave\<close> of the other board answers with an
  exception (the function code with its top bit set), the frame passes the first check and is dropped by the
  second: nothing is handed on and the request goes on waiting until its time is over.\<close>

theorem wlcc_exception_lost:
  assumes "2 \<le> length rsp" "length rsp \<le> 255" "rsp ! 1 AND 0x80 \<noteq> 0" "req ! 1 \<in> {0x03, 0x06, 0x10}"
  shows "\<exists>nd' ns. handle_wlcc_frame env can_ok (reply_frame self mid (n_self nd) req rsp @ rest) (link_len rsp) ip port nd =
      Inr (IOT_OK, nd', map Device_Note ns) \<and> n_pending nd' = n_pending nd \<and> n_queue nd' = n_queue nd"
proof -
  let ?f = "reply_frame self mid (n_self nd) req rsp @ rest" and ?ft = "reply_type (req ! 1)"
  have f: "?f = link_frame self mid (self_sn (n_self nd)) (SN_TYPE_SELF (n_self nd)) ?ft rsp @ rest" by (simp add: reply_frame_def)
  have l: "length rsp \<le> 60000" using assms(2) by simp
  have "?ft \<in> {WLCC_FRAME_TYPE_READ_RTN, WLCC_FRAME_TYPE_WRITE_RTN}" using assms(4) by (auto simp: reply_type_def)
  then have "check_modbus_frame_format ?f (link_len rsp) = Inr IOT_FAIL"
    unfolding f by (intro prio_frame_checks(3)[OF assms(1) l assms(3)])
  then have "handle_common_modbus_msg env can_ok ?f (link_len rsp) src x = Inr (x, [])" for src x
    by (simp add: handle_common_modbus_msg_def)
  then show ?thesis
    using link_frame_taken[OF assms(1) l, of nd env can_ok self mid ?ft rest ip port] unfolding f by (auto simp: same_board_def)
qed

theorem wlcc_exception_lost_witness:
  "\<exists>nd' ns. handle_wlcc_frame example_env True (reply_frame (example_board 5) 7 (example_board 8) example_req [1, 0x83, 2, 0xC0, 0xF1] @ [0, 0])
      (link_len [1, 0x83, 2, 0xC0, 0xF1]) 0x0A000002 5000 example_asker = Inr (IOT_OK, nd', map Device_Note ns) \<and>
    n_pending nd' = n_pending example_asker \<and> n_queue nd' = n_queue example_asker"
  using wlcc_exception_lost[of "[1, 0x83, 2, 0xC0, 0xF1]" example_req example_env True "example_board 5" 7 example_asker "[0, 0]"]
  by (simp add: example_req_def) (simp add: example_asker_def)

end
