(* ===== verification/Wlcc_Report.thy ===== *)
theory Wlcc_Report
  imports Wlcc_Link
begin

text \<open>
  The periodic report: registers of one device, packed into TLV blocks, a Modbus write to 21000 and a frame
  of the link.  What a board makes of the reports of plugs, meters and other devices, and what it sends itself.
\<close>

section \<open>The Modbus message of a report\<close>

lemma length_swap_words [simp]: "length (swap_words n bs) = 2 * n"
  by (induction n arbitrary: bs) simp_all

lemma swap_words_append: "2 * n \<le> length bs \<Longrightarrow> swap_words n (bs @ t) = swap_words n bs"
proof (induction n arbitrary: bs)
  case (Suc n)
  then obtain x y cs where "bs = x # y # cs" by (cases bs; cases "tl bs") auto
  then show ?case using Suc by simp
qed simp



text \<open>What a report carries: the head of the sender and the blocks.\<close>

definition report_payload :: "wlcc_self \<Rightarrow> wlcc_tlv_block list \<Rightarrow> u8 list" where
  "report_payload self bs = report_head self (of_nat (length (tlv_images bs))) @ tlv_images bs"

lemma length_report_payload [simp]: "length (report_payload self bs) = 18 + length (tlv_images bs)"
  by (simp add: report_payload_def report_head_def)

definition modbus_report :: "u8 \<Rightarrow> u8 list \<Rightarrow> u8 list" where
  "modbus_report slave p =
     (let k = length p div 2; body = [slave, 0x10, 0x52, 0x08, 0, of_nat k, 2 * of_nat k] @ swap_words k p
      in body @ le16 (CalcCrc16_modbus body (of_nat (length body))))"

lemma length_modbus_report: "even (length p) \<Longrightarrow> length (modbus_report slave p) = 9 + length p"
  by (simp add: modbus_report_def Let_def)



lemma write_cmd:
  assumes "unat (of_nat k :: u8) = k" "length p = 2 * k" "2 \<le> k" "k \<le> 123"
  shows "Modbus_WriteCmd_06H_10H_Build slave 21000 (of_nat k) (p @ rest) (replicate (length p + 10) 0) =
    Inr (of_nat (length p + 9), modbus_report slave p @ [0])"
proof -
  have ne: "(of_nat k :: u8) \<noteq> 1" using assms(1,3) by auto
  have h: "hi8 21000 = 0x52" "lo8 21000 = 0x08" by (simp_all add: hi8_def lo8_def)
  show ?thesis
    unfolding Modbus_WriteCmd_06H_10H_Build_def assms(1) Let_def if_not_P[OF ne] h
    using assms(2,4) by (simp add: modbus_report_def Let_def swap_words_append)
qed

lemma modbus_report_built:
  assumes "even (length p)" "4 \<le> length p" "length p \<le> 246"
  shows "Modbus_WriteCmd_06H_10H_Build slave 21000 (ucast (drop_bit 1 (of_nat (length p) :: u16))) (p @ rest) (replicate (length p + 10) 0) =
    Inr (of_nat (length p + 9), modbus_report slave p @ [0])"
proof -
  let ?k = "length p div 2" and ?r = "ucast (drop_bit 1 (of_nat (length p) :: u16)) :: u8"
  have k: "2 * ?k = length p" "?k < 256" "2 \<le> ?k" using assms by auto
  have "unat (drop_bit 1 (of_nat (length p) :: u16)) = ?k"
    unfolding unat_drop_bit_eq using assms(3) by (subst unat_u16) (simp_all add: drop_bit_Suc)
  then have u: "unat ?r = ?k" using k(2) by (simp add: unsigned_ucast_eq take_bit_nat_eq_self)
  then have r: "?r = of_nat ?k" unfolding word_unat_eq_iff u using k(2) by (simp add: unat_of_nat take_bit_nat_eq_self)
  have "unat (of_nat ?k :: u8) = ?k" using u unfolding r .
  from write_cmd[OF this k(1)[symmetric] _ _, of slave rest] show ?thesis unfolding r using k(3) assms(3) by simp
qed

lemma report_sent:
  assumes "e_heap env" "length (n_queue nd) < 10" "even (length p)" "4 \<le> length p" "length p \<le> 246"
  shows "wlcc_modbus_msg_send_21000 env slave (p @ rest) (of_nat (length p)) ty sn nd = Inr (0, nd\<lparr>n_msg_id := n_msg_id nd + 1,
    n_queue := n_queue nd @ [\<lparr>q_data = link_frame (node_self nd) (n_msg_id nd + 1) sn ty WLCC_FRAME_TYPE_PERIOD (modbus_report slave p),
      q_len = int (52 + length p), q_dst_ip = None, q_dst_port = 0\<rparr>]\<rparr>)"
proof -
  let ?mid = "n_msg_id nd + 1" and ?M = "modbus_report slave p" and ?n = "9 + length p"
  let ?f = "link_frame (node_self nd) ?mid sn ty WLCC_FRAME_TYPE_PERIOD ?M"
  let ?h = "wlcc_head (node_self nd) WLCC_FRAME_HEADER_COMMON ?mid (le64 sn) ty WLCC_FRAME_TYPE_PERIOD DEV_PRIORITY_SELF"
  have u: "unat (of_nat (length p) :: u16) = length p" "unat (of_nat ?n :: u16) = ?n" "unat (of_nat (52 + length p) :: u16) = 52 + length p"
    using assms(5) by (intro unat_u16; simp)+
  have lM: "length ?M = ?n" using assms(3) by (rule length_modbus_report)
  have h: "length ?h = 39" by (simp add: length_wlcc_head)
  have "wlcc_finish ?h (Some (?M @ [0])) (of_nat ?n) (replicate (length p + 60) 0) =
      Inr (of_nat (52 + length p), ?f @ replicate 8 0)"
    using wlcc_finish_framed[of "of_nat ?n" "?M @ [0]" ?h "replicate (length p + 60) 0"] unfolding u(2) h
    by (simp add: lM prio_frame_def ac_simps)
  then have b: "wlcc_build_data_send_frame (node_self nd) (n_msg_id nd) WLCC_FRAME_TYPE_PERIOD ty sn (Some (?M @ [0])) (of_nat ?n)
      (replicate (length p + 60) 0) = Inr (of_nat (52 + length p), ?f @ replicate 8 0, ?mid)"
    by (simp add: wlcc_build_data_send_frame_def)
  have q: "wlcc_msg_send_to_queue True (?f @ replicate 8 0) (of_nat (52 + length p)) None 0 (n_queue nd) =
      Inr (0, n_queue nd @ [\<lparr>q_data = ?f, q_len = int (52 + length p), q_dst_ip = None, q_dst_port = 0\<rparr>])"
    unfolding wlcc_msg_send_to_queue_def u(3) uint_nat using assms(2) lM by simp
  have nh: "\<not> \<not> e_heap env" using assms(1) by simp
  have n': "length p + 9 = ?n" by simp
  show ?thesis
    unfolding wlcc_modbus_msg_send_21000_def if_not_P[OF nh] u(1) modbus_report_built[OF assms(3-5)] n'
    by (simp only: cbind_simps prod.case b q)
qed

section \<open>The blocks\<close>






lemma tlv_norm_fields [simp]: "tlv_addr (tlv_norm b) = tlv_addr b" "tlv_length (tlv_norm b) = tlv_length b"
  by (simp_all add: tlv_norm_def)




section \<open>The report comes in\<close>






section \<open>Properties\<close>


text \<open>A plug reports two blocks to everybody.\<close>

definition report_env :: "unit wlcc_env" where
  "report_env = example_env\<lparr>e_max_len := (\<lambda>t a. 50), e_lookup := (\<lambda>r t ty sn a n. Some (unat a))\<rparr>"




text \<open>The report of this firmware: \<open>wlcc_report_tick\<close> hands over the state of charge.\<close>

lemma report_tick_payload:
  assumes "24 \<le> length buf" "30000 \<le> now - pre"
  shows "\<exists>stale. wlcc_report_tick env True now soc buf (pre, nd) =
    cbind (wlcc_modbus_msg_send_21000 env 0 (report_payload (n_self nd) (wlcc_build_tlv_report_data soc) @ stale) 24 0 0 nd)
      (\<lambda>(_, nd'). Inr (now, nd'))"
proof -
  let ?bs = "wlcc_build_tlv_report_data soc"
  let ?im = "tlv_images ?bs"
  have t: "wlcc_tlv_calculate_length (Some ?bs) 1 = 6" by (simp add: wlcc_tlv_calculate_length_def wlcc_build_tlv_report_data_def)
  have ok: "list_all tlv_ok ?bs" by (simp add: wlcc_build_tlv_report_data_def tlv_ok_def TLV_MAX_VALUE_LENGTH_def)
  have im: "length ?im = 6" using length_tlv_images[OF ok] by (simp add: wlcc_build_tlv_report_data_def)
  have h: "length (report_head (n_self nd) 6) = 18" by (simp add: report_head_def)
  obtain b v where b: "?bs = [b]" "tlv_ok b" "tlv_length b = 2" "tlv_value b = Some v" "tlv_addr b = 102" "tlv_image b = ?im"
    using ok by (auto simp: wlcc_build_tlv_report_data_def)
  have "tlv_write_block b 0 (drop 18 buf) = Inr (6, ?im @ drop 24 buf)"
    using tlv_write_block_image[OF b(2), of 0 "drop 18 buf"] assms(1) b(3,6) im by simp
  then have "tlv_encode_loop ?bs 0 65522 (drop 18 buf) = Inr (6, ?im @ drop 24 buf)"
    unfolding b(1) using b(3-5) by (simp add: TLV_MAX_VALUE_LENGTH_def)
  then have e: "wlcc_tlv_encode (Some ?bs) 1 (Some (drop 18 buf)) (65536 + 4 - 18) = Inr (6, Some (?im @ drop 24 buf))"
    by (simp add: wlcc_tlv_encode_def TLV_MAX_BLOCK_COUNT_def b(1))
  have pl: "report_head (n_self nd) 6 @ ?im @ drop 24 buf = report_payload (n_self nd) ?bs @ drop 24 buf"
    by (simp add: report_payload_def im)
  have g: "\<not> (\<not> True \<or> now - pre < 30000)" using assms(2) by (simp add: not_less)
  have "wlcc_report_tick env True now soc buf (pre, nd) =
      cbind (wlcc_modbus_msg_send_21000 env 0 (report_head (n_self nd) 6 @ ?im @ drop 24 buf) 24 0 0 nd) (\<lambda>(_, nd'). Inr (now, nd'))"
    unfolding wlcc_report_tick_def Let_def prod.case t if_not_P[OF g] h e using assms(1) by simp
  then show ?thesis unfolding pl by blast
qed

lemma board_refuses:
  assumes "2 \<le> length p" "length p \<le> 60000" "prio \<noteq> 0" "SN_TYPE_SELF (n_self nd) \<noteq> 0"
  shows "handle_wlcc_frame env can_ok (prio_frame prio self mid 0 0 ft p @ rest) (link_len p) ip port nd = Inr (IOT_ERR_WLCC_TARGET, nd, [])"
proof -
  let ?f = "prio_frame prio self mid 0 0 ft p @ rest"
  note fl = prio_frame_fields[of prio self mid 0 0 ft p rest]
  have c: "check_wlcc_frame_format ?f (link_len p) = Inr IOT_OK" by (rule prio_frame_checks(1)[OF assms(1,2)])
  have tgt: "wlcc_target ?f = (0, 0)" unfolding wlcc_target_def fl(4,5) ..
  have own: "\<not> is_own_message (n_self nd) (wlcc_source ?f ip port) 0 0"
    unfolding fl(7) using assms(3,4) by (auto simp: is_own_message_def wlcc_consts)
  show ?thesis unfolding handle_wlcc_frame_def c tgt using own by (simp add: Let_def wlcc_consts)
qed

text \<open>C19: The report of a board.  Once the network is ready and 30 seconds have passed since the last one, a tick
  queues exactly one message, by multicast: the frame of type PERIOD to target 0/0 whose report carries the state of
  charge as register 102; at any other tick nothing happens (memory is available and the send queue, which holds 10, has
  room).  No board that runs this firmware takes the report: its sender has a priority and it is addressed to type 0, so
  every board of a nonzero type refuses it and is left as it was.\<close>

theorem wlcc_report_multicast:
  fixes a :: "'q wlcc_node"
  assumes "24 \<le> length buf" "e_heap ea" "length (n_queue a) < 10"
  shows "\<exists>msg. q_dst_ip msg = None \<and>
    q_data msg = link_frame (node_self a) (n_msg_id a + 1) 0 0 WLCC_FRAME_TYPE_PERIOD
      (modbus_report 0 (report_payload (n_self a) [\<lparr>tlv_addr = 102, tlv_length = 2, tlv_value = Some (le16 soc)\<rparr>])) \<and>
    wlcc_report_tick ea ready now soc buf (pre, a) =
      (if ready \<and> 30000 \<le> now - pre then Inr (now, a\<lparr>n_msg_id := n_msg_id a + 1, n_queue := n_queue a @ [msg]\<rparr>) else Inr (pre, a)) \<and>
    (\<forall>(b :: 'r wlcc_node) eb can_ok rest ip port. SN_TYPE_SELF (n_self b) \<noteq> 0 \<longrightarrow>
      handle_wlcc_frame eb can_ok (q_data msg @ rest) (of_int (q_len msg)) ip port b = Inr (IOT_ERR_WLCC_TARGET, b, []))"
proof -
  let ?bs = "wlcc_build_tlv_report_data soc" and ?mid = "n_msg_id a + 1"
  let ?p = "report_payload (n_self a) ?bs"
  let ?M = "modbus_report 0 ?p"
  let ?f = "link_frame (node_self a) ?mid 0 0 WLCC_FRAME_TYPE_PERIOD ?M"
  let ?msg = "\<lparr>q_data = ?f, q_len = int (52 + length ?p), q_dst_ip = None, q_dst_port = 0\<rparr>"
  have "list_all tlv_ok ?bs" by (simp add: wlcc_build_tlv_report_data_def tlv_ok_def TLV_MAX_VALUE_LENGTH_def)
  then have p: "length ?p = 24" using length_tlv_images[of ?bs] by (simp add: wlcc_build_tlv_report_data_def)
  then have M: "length ?M = 33" using length_modbus_report[of ?p] by simp
  have im: "length (tlv_images ?bs) = 6" using p by simp
  have e: "wlcc_report_tick ea ready now soc buf (pre, a) =
      (if ready \<and> 30000 \<le> now - pre then Inr (now, a\<lparr>n_msg_id := ?mid, n_queue := n_queue a @ [?msg]\<rparr>) else Inr (pre, a))"
  proof (cases "ready \<and> 30000 \<le> now - pre")
    case True
    then obtain stale where "wlcc_report_tick ea True now soc buf (pre, a) =
        cbind (wlcc_modbus_msg_send_21000 ea 0 (?p @ stale) 24 0 0 a) (\<lambda>(_, nd'). Inr (now, nd'))"
      using report_tick_payload[OF assms(1), of now pre ea soc a] by blast
    moreover have "wlcc_modbus_msg_send_21000 ea 0 (?p @ stale) 24 0 0 a =
        Inr (0, a\<lparr>n_msg_id := ?mid, n_queue := n_queue a @ [?msg]\<rparr>)"
      using report_sent[OF assms(2,3), of ?p 0 stale 0 0] by (simp add: im)
    ultimately show ?thesis using True by simp
  next
    case False
    then show ?thesis by (auto simp: wlcc_report_tick_def not_less)
  qed
  have "of_int (q_len ?msg) = link_len ?M" by (simp add: link_len_def M im)
  then have r: "handle_wlcc_frame eb can_ok (q_data ?msg @ rest) (of_int (q_len ?msg)) ip port b = Inr (IOT_ERR_WLCC_TARGET, b, [])"
    if "SN_TYPE_SELF (n_self b) \<noteq> 0" for b :: "'r wlcc_node" and eb can_ok rest ip port
    using board_refuses[of ?M DEV_PRIORITY_SELF b eb can_ok "node_self a" ?mid WLCC_FRAME_TYPE_PERIOD rest ip port] that M
    by (simp add: DEV_PRIORITY_SELF_def DEV_PRIORITY_CMM_INV_def)
  show ?thesis
    by (rule exI[of _ ?msg], intro conjI allI impI) (rule e r | simp add: wlcc_build_tlv_report_data_def)+
qed

theorem wlcc_report_multicast_witness:
  "\<exists>msg. wlcc_report_tick report_env True 30000 80 (replicate 1024 0) (0, example_asker) =
      Inr (30000, example_asker\<lparr>n_msg_id := 7, n_queue := [msg]\<rparr>) \<and>
    handle_wlcc_frame report_env False (q_data msg @ [1]) (of_int (q_len msg)) 0 5000 example_server = Inr (IOT_ERR_WLCC_TARGET, example_server, [])"
proof -
  have c: "24 \<le> length (replicate 1024 (0 :: u8))" "e_heap report_env" "length (n_queue example_asker) < 10"
    "n_queue example_asker = []" "n_msg_id example_asker + 1 = 7" "SN_TYPE_SELF (n_self example_server) \<noteq> 0"
    by (simp_all add: report_env_def example_env_def example_asker_def example_server_def example_board_def wlcc_consts)
  from wlcc_report_multicast[OF c(1-3), where 'r = unit and soc = 80 and ready = True and now = 30000 and pre = 0] obtain msg where
    msg: "wlcc_report_tick report_env True 30000 80 (replicate 1024 0) (0, example_asker) =
      Inr (30000, example_asker\<lparr>n_msg_id := n_msg_id example_asker + 1, n_queue := n_queue example_asker @ [msg]\<rparr>)"
    "\<forall>(b :: unit wlcc_node) eb can_ok rest ip port. SN_TYPE_SELF (n_self b) \<noteq> 0 \<longrightarrow>
      handle_wlcc_frame eb can_ok (q_data msg @ rest) (of_int (q_len msg)) ip port b = Inr (IOT_ERR_WLCC_TARGET, b, [])"
    by auto
  show ?thesis by (rule exI[of _ msg]) (use msg c(4-6) in simp)
qed

end
