(* ===== verification/Spec2Isabelle.thy ===== *)
theory Spec2Isabelle
  imports Crc Circular_Queue Conversions Wlcc_Tlv Udt_Transfer Udt_Incremental Udt_Port Udt_Exp
    Xmodem_Client Can_Ota_Sender Modbus_Tlv Tou_Schedule Energy_Calc Log_Upload Eeprom Wlcc_Report
begin

text \<open>
  A verification library for the communication board of the energy storage devices, the C firmware
  under \<open>src/ref/comm/components\<close> (paths below are relative to it).

  \<^bold>\<open>The program.\<close>  The board sits between the battery and inverter controllers (CAN, UART, Modbus) and
  the user's app and cloud (BLE, Wi-Fi, 4G).  It relays requests and firmware images downwards, reads
  registers and logs upwards, and keeps clocks, schedules and energy counters of its own.  Its tasks
  share queues and static variables; each handler runs to completion, so a handler is modelled as a
  function of the state and of what the outside delivers.

  \<^bold>\<open>Parts and theories.\<close>
  \<^item> \<open>Prelude\<close>: C integer types as words, memory faults as values (\<open>cres\<close>, \<open>cbind\<close>, \<open>need\<close>), byte order,
    list and named-theorem collections.
  \<^item> \<open>Crc\<close>: \<open>utilities/crc.c\<close> and \<open>iot_xmodem/xmodem.c\<close>; tables as they are initialised, all routines in
    both their preprocessor branches.  Two locales (\<open>msb_crc\<close>, \<open>lsb_crc\<close>) state what a shift register
    and its table owe each other and prove the table method once; they are interpreted on the three
    registers of the code.
  \<^item> \<open>Circular_Queue\<close>: \<open>iot_log/circular_queue.c\<close>; the ring of bytes in which log output waits.  The locale
    \<open>byte_fifo\<close> is the contract between the log writer and the task that drains it (accepted or refused
    whole, delivered in order); it is interpreted on Push and Pop.
  \<^item> \<open>Conversions\<close>: \<open>general_ops/general_conversions.c\<close> and the default serial number of \<open>utilities/utils.c\<close>.
  \<^item> \<open>Wlcc_Tlv\<close>: \<open>wlcc/wlcc_tlv.c\<close>; the TLV blocks the board exchanges with accessories.
  \<^item> \<open>Wlcc_Frame\<close>, \<open>Wlcc_Session\<close>, \<open>Wlcc_Master\<close>, \<open>Wlcc_Election\<close>, \<open>Wlcc_Node\<close>, \<open>Wlcc_Link\<close>, \<open>Wlcc_Report\<close>:
    \<open>wlcc/wlcc_protocol.c\<close> and \<open>wlcc/wlcc_process.c\<close>, the link between boards and accessories: frames,
    their checks and fields; the table of requests that wait for an answer and the table of devices heard;
    the record of the master, its election and the steps of the discovery; a whole board
    (\<open>Wlcc_Node\<close>, record \<open>wlcc_node\<close>) with the handlers of received frames and the senders of requests and reports.
    \<open>Wlcc_Election\<close> runs whole boards through \<open>wlcc_init\<close>, received frames and the calls of \<open>wlcc_task\<close>, with a
    history of whom a board has met; \<open>Wlcc_Link\<close> joins two boards by a request and its answer, \<open>Wlcc_Report\<close>
    has the reports a board receives and the one it sends.  The election is compiled with
    \<open>WLCC_ADDRESS_PARALLEL_ENABLE\<close> only, which \<open>comm_define.h\<close> leaves off.
  \<^item> \<open>Udt_Transfer\<close>, \<open>Udt_Incremental\<close>, \<open>Udt_Port\<close>, \<open>Udt_Exp\<close>: \<open>udt/\<close>, the generic data channel: frames and
    their relay between nodes, the table of incremental reads with its file, the ports (queues, CAN
    segmentation), and the node that answers queries and announces new logs.  They call each other as
    the code does: \<open>Udt_Exp\<close> answers through \<open>udt_transmit\<close> of \<open>Udt_Transfer\<close> and records progress through
    \<open>Udt_Incremental\<close>.
  \<^item> \<open>Xmodem_Transmitter\<close>, \<open>Xmodem_Client\<close>: \<open>iot_xmodem/\<close>; the sending and the receiving state machine of
    firmware transfer, composed over the frames.
  \<^item> \<open>Can_Ota\<close>, \<open>Can_Ota_Sender\<close>: \<open>iot_can/can_ota/\<close>; firmware over CAN, the receiver with its block buffer
    and the sender with its device table, composed over the bus.
  \<^item> \<open>Calendar\<close>, \<open>Cstring\<close>, \<open>Rtc\<close>, \<open>Sync_Time\<close>: the C library's \<open>localtime\<close>, \<open>mktime\<close>, \<open>sscanf\<close> and \<open>snprintf\<close> as
    far as the code uses them, the clock chip (\<open>ext_rtc/drv_pcf8563.c\<close>) and \<open>sync_time/sync_time.c\<close>, which
    keeps the board's time from cloud, app, CAN and chip.
  \<^item> \<open>Record_File\<close>, \<open>Circular_Log\<close>, \<open>Record_Journal\<close>: the record files of \<open>filesystem/filesystem.c\<close>, the
    reader of a circular log file and its writer with a header, which the next three share; the locales
    \<open>readable_log\<close>, \<open>circular_log\<close> and \<open>journal\<close> are their interfaces.
  \<^item> \<open>Reg_Log\<close>, \<open>Dev_Access_Log\<close>, \<open>Mqtt_Log\<close>: \<open>reg_log/\<close>, \<open>dev_access_log/\<close> and \<open>iot_mqtt/mqtt_log.c\<close>, three
    journals of register changes, device accesses and failed connections.
  \<^item> \<open>History_Ring\<close>, \<open>Event_Log\<close>, \<open>Fault_Log\<close>: the two logs of \<open>data_record/dev_data_record.c\<close>, rings whose
    index lives in the settings: the board's events and the faults of inverter and battery.
  \<^item> \<open>Log_Upload\<close>: the five logs behind the data channel of \<open>Udt_Exp\<close>.
  \<^item> \<open>Modbus_Tlv\<close>: \<open>iot_modbus/modbus_tlv.c\<close>; groups of registers read and written in one message.
  \<^item> \<open>Smart_Tou\<close>: \<open>smart_ctrl/smart_common.c\<close>; when a configured point of the day fires.
  \<^item> \<open>Tou_Config\<close>, \<open>Tou_Ctrl\<close>, \<open>Tou_Quantum\<close>, \<open>Tou_Update\<close>, \<open>Tou_Process\<close>, \<open>Tou_Schedule\<close>:
    \<open>smart_ctrl/smart_tou_ctrl_v1.c\<close>, the time-of-use control on top of \<open>Smart_Tou\<close>: the registers of the
    configuration as bytes; the state with the command queue and the registers kept at a value; the table
    of daily periods, its rebuild and its update (operations in \<open>Tou_Quantum\<close>, what an update leaves in
    \<open>Tou_Update\<close>); the periodic run, start-up, file and register access; the guarantees over all of it.
  \<^item> \<open>Twi_Master\<close>, \<open>I2c_Bus\<close>, \<open>Eeprom\<close>: the bit-banged I2C master \<open>iic_bus/twi_master.c\<close> down to its two pins,
    the bus functions of \<open>iic_bus/i2c_bus.c\<close> over it, and the EEPROM driver \<open>ext_eeprom/drv_24cxx.c\<close> with the
    flag and block access of \<open>ext_eeprom/eeprom_init.c\<close> over those.  The locale \<open>eeprom_port\<close> is what the driver
    relies on; it is interpreted on the bus functions with a 24Cxx at the other end of the wires.  The
    device (\<open>i2c_slave\<close>) and the chip (\<open>at24\<close>) are the environment, not code of the board.
  \<^item> \<open>Energy_Calc\<close>: \<open>energy_calc/energy_record_calc.c\<close>; attribution of power to flows and its integration.

  \<^bold>\<open>How the state corresponds.\<close>  A C struct is a record with the same fields, static variables of a file
  are one record (\<open>udt\<close>, \<open>udt_incr\<close>, \<open>udt_exp\<close>, \<open>xm_server\<close>), a C integer is a word of its width.  A function
  keeps its C name; its arguments are the C arguments followed by the state it uses.  A pointer that
  may be null is an option; a buffer is the list of its bytes, and an access outside it is \<open>Inl\<close> of a
  fault.  Callbacks, drivers, queues of the operating system, the file system and clocks are arguments
  (functions on an outside world \<open>'w\<close>, or Booleans for an outcome such as a failed allocation).
  Logging is left out.

  \<^bold>\<open>What the lemmas show.\<close>  Crc: the table methods equal the bit methods, residues, burst detection,
  chunk-wise computation.  Circular_Queue: refinement of a bounded first-in first-out sequence over all
  histories.  Wlcc_Tlv and Udt: round trips, memory safety of the decoders with the exact inputs for
  which it fails, relay and resume behaviour, table invariants.  Xmodem and Can_Ota: run relations with
  history variables, in-order invariants by rule induction, delivery of the image end to end, memory
  safety against arbitrary frames, termination in silence, and the lost answers neither protocol
  survives.  Rtc and Sync_Time: registers and time round trip, the cloud's time with every form of zone, that
  the copies agree and every known source stays known over any run.  Logs: the files refine the list of the last records stored, over any
  sequence of operations; binary search and incremental read return exactly the newer records (which needs time
  stamps in order; reading everything does not); what a
  power loss, a torn write or a failed open costs.  Fault_Log: the log replays to the registers as long as
  the changes fit into its queue, and loses what does not.
  Log_Upload: a query is answered with exactly what the asker lacks, also after an interrupted transfer.  Modbus_Tlv: the announced frame
  count is the number of frames cut, termination and its failure.  Smart_Tou: the interval test and the
  backward search equal the declarative meaning of a schedule.  Tou_*: the configuration and its bytes
  round trip; the period table always agrees with the configuration after a rebuild or an update, and
  the commands an update issues are known exactly; any run of looks at the clock issues the commands of
  a declarative daily schedule; points fire exactly once; a register write survives a restart; no run
  leaves the invariant (\<open>tou_ok\<close>), whatever the outside does.  Twi_Master: a transfer on the pins refines
  the transfer of its bytes, for every device that lets go of SCL; a device left in any phase is freed.
  Eeprom: bytes written through driver, bus and pins are the cells of the chip and are read back; the
  lemma \<open>eeprom_failure_unseen\<close> records that a failure of the bus does not become the -1 that
  \<open>drv_24cxx.h\<close> promises.  Wlcc_*: a request waits for 30 ticks and is answered at most once; the
  device table has exactly the devices heard within their limit of silence; boards that have met each other
  since they last started over agree on one master; a request is served and its answer reaches its asker, an
  exception is lost; a report of a plug, a meter or another board addressed to this one arrives as the register writes it stands for,
  while the report a board multicasts is refused by every other board.  Energy_Calc: exact integration, balance
  of the books.  Each component theory ends with its properties, each followed by an instance of it on
  concrete data.

  \<^bold>\<open>Bounds and fuel.\<close>  Loops are structural or carry a measure.  The write loop of \<open>Modbus_Tlv\<close> can fail to
  end and takes fuel; one unit of fuel per byte of the message is shown to be enough when every unit it
  visits ends before byte 65536, and no fuel is enough for a unit whose length wraps to zero.  The day-counting loop of \<open>Smart_Tou\<close> takes
  fuel, for which more than nine is enough because the code refuses intervals over seven days.
  The wait for SCL has no timeout in the code; it is a
  partial function, total for a device that lets go (\<open>responsive\<close>), without a value otherwise.
  \<open>time_t\<close> is an unbounded integer; signed overflow (undefined in C) wraps in \<open>Energy_Calc\<close>.

  \<^bold>\<open>Not modelled.\<close>  Cryptography, flash partitions and NVS, the transports themselves (CAN, BLE, MQTT, HTTP,
  Wi-Fi, USB), the product-specific register maps, the floating-point conversions, the vendored
  libraries, and the other firmware images (\<open>src/ref/dev\<close>, \<open>src/ref/display\<close>) and tools.  Of the link
  between boards the encryption (\<open>wlcc_crypt.c\<close>), the sockets (\<open>wlcc_interface.c\<close>), the heartbeat frames,
  whose contents come from the register maps, and the task loop are left out; the calls the loop makes for the
  election are taken in any order.
\<close>

end
